(* ===== verification/Prelude.thy ===== *)
theory Prelude
  imports Main
    "HOL-Library.Char_ord" "HOL-Library.List_Lexorder" "HOL-Library.Product_Lexorder"
    "HOL-Library.Multiset"
begin

text \<open>
  Shared vocabulary of the SplitNaira development: the collections that carry the automation of
  the components, the instants of the clock, the errors the services throw, and generic lemmas on
  lists, options and sums.

  Conventions used by every component theory:
  \<^item> an instant (\<open>Date.now()\<close>, \<open>date.getTime()\<close>) is an \<open>int\<close> number of milliseconds; the
    ISO strings the code stores are always produced by \<open>toISOString\<close> and are represented by the
    instant they denote;
  \<^item> a \<open>Date\<close> built from untrusted input is an \<open>instant option\<close>, where \<open>None\<close> is the Invalid
    Date (its \<open>getTime()\<close> is \<open>NaN\<close>, every comparison with it is false, and its \<open>toISOString()\<close>
    throws a \<open>RangeError\<close>);
  \<^item> \<open>throw Object.assign(new Error(code), { code, status })\<close> is \<open>Inl (ApiError code status)\<close>;
    the human-readable message is not modelled.
\<close>

section \<open>Collections\<close>

named_theorems js_text \<open>string functions of the language\<close>
named_theorems js_map \<open>insertion-ordered maps of the language\<close>
named_theorems ops \<open>definitions of the operations of a component\<close>
named_theorems status_simps \<open>lifecycle status tables\<close>

section \<open>Instants and errors\<close>

type_synonym instant = int
type_synonym js_date = "instant option"

datatype api_error = ApiError (err_code: string) (err_status: int)

type_synonym 'a result = "api_error + 'a"

text \<open>\<open>date.getTime() <= t\<close>, false on the Invalid Date.\<close>

definition date_le :: "js_date \<Rightarrow> instant \<Rightarrow> bool" where
  "date_le d t = (case d of None \<Rightarrow> False | Some x \<Rightarrow> x \<le> t)"

text \<open>\<open>toISOString()\<close>: a \<open>RangeError\<close> (no HTTP status of its own, hence 500) on the Invalid Date.\<close>

definition to_iso :: "js_date \<Rightarrow> instant result" where
  "to_iso d = (case d of None \<Rightarrow> Inl (ApiError ''RangeError'' 500) | Some x \<Rightarrow> Inr x)"

lemma date_le_simps [simp]:
  "date_le None t = False"
  "date_le (Some x) t = (x \<le> t)"
  by (simp_all add: date_le_def)

lemma to_iso_simps [simp]:
  "to_iso None = Inl (ApiError ''RangeError'' 500)"
  "to_iso (Some x) = Inr x"
  by (simp_all add: to_iso_def)

lemma to_iso_Inr [simp]: "to_iso d = Inr x \<longleftrightarrow> d = Some x"
  by (cases d) auto

text \<open>The \<open>??\<close> operator on optional values.\<close>

definition or_else :: "'a option \<Rightarrow> 'a option \<Rightarrow> 'a option" where
  "or_else a b = (case a of None \<Rightarrow> b | Some x \<Rightarrow> Some x)"

lemma or_else_simps [simp]:
  "or_else None b = b"
  "or_else (Some x) b = Some x"
  by (simp_all add: or_else_def)

definition default_to :: "'a \<Rightarrow> 'a option \<Rightarrow> 'a" where
  "default_to d a = (case a of None \<Rightarrow> d | Some x \<Rightarrow> x)"

lemma default_to_simps [simp]:
  "default_to d None = d"
  "default_to d (Some x) = x"
  by (simp_all add: default_to_def)

section \<open>Generic lemmas\<close>

lemma sum_list_nonneg_int: "(\<And>x. x \<in> set xs \<Longrightarrow> (0::int) \<le> x) \<Longrightarrow> 0 \<le> sum_list xs"
  by (induction xs) auto

lemma sum_list_member_le: "\<lbrakk>\<And>x. x \<in> set xs \<Longrightarrow> (0::int) \<le> x; y \<in> set xs\<rbrakk> \<Longrightarrow> y \<le> sum_list xs"
proof (induction xs)
  case (Cons x xs)
  then have "0 \<le> sum_list xs" by (intro sum_list_nonneg_int) auto
  with Cons show ?case by fastforce
qed simp

lemma sum_list_update_int:
  "i < length xs \<Longrightarrow> sum_list (xs[i := v]) = sum_list xs - xs ! i + (v::int)"
proof (induction xs arbitrary: i)
  case (Cons x xs)
  then show ?case by (cases i) auto
qed simp

lemma sum_list_bound_int:
  "\<forall>x \<in> set xs. (x::int) \<le> b \<Longrightarrow> sum_list xs \<le> int (length xs) * b"
  by (induction xs) (auto simp: algebra_simps intro: add_mono)

lemma sum_list_mod_div:
  "sum_list (map (\<lambda>x. f x div w) xs) * w + sum_list (map (\<lambda>x. f x mod w) xs)
     = sum_list (map f xs)" for w :: int
proof (induction xs)
  case (Cons x xs)
  have "f x = f x div w * w + f x mod w" by (rule div_mult_mod_eq [symmetric])
  with Cons show ?case by (simp add: algebra_simps)
qed simp

lemma find_Some_mem: "find P xs = Some x \<Longrightarrow> x \<in> set xs \<and> P x"
  by (induction xs) (auto split: if_splits)

lemma find_None_all: "find P xs = None \<longleftrightarrow> (\<forall>x \<in> set xs. \<not> P x)"
  by (induction xs) auto

lemma length_filter_all: "length (filter P xs) = length xs \<longleftrightarrow> (\<forall>x \<in> set xs. P x)"
proof (induction xs)
  case (Cons x xs)
  have "length (filter P xs) \<noteq> Suc (length xs)"
    using length_filter_le [of P xs] by linarith
  with Cons show ?case by auto
qed simp

lemma sum_list_filter_not:
  "sum_list (map g (filter (\<lambda>x. \<not> P x) xs)) = sum_list (map g xs) - (sum_list (map g (filter P xs)) :: int)"
  by (induction xs) auto

lemma set_takeD: "x \<in> set (take n xs) \<Longrightarrow> x \<in> set xs"
  by (meson in_set_takeD)

text \<open>\<open>xs.map(f)\<close> where \<open>f\<close> may throw: the first error ends the call.\<close>

fun map_result :: "('x \<Rightarrow> 'err + 'y) \<Rightarrow> 'x list \<Rightarrow> 'err + 'y list" where
  "map_result f [] = Inr []"
| "map_result f (x # xs) =
     (case f x of Inl e \<Rightarrow> Inl e
      | Inr y \<Rightarrow> (case map_result f xs of Inl e \<Rightarrow> Inl e | Inr ys \<Rightarrow> Inr (y # ys)))"

lemma map_result_Inr:
  "map_result f xs = Inr ys \<longleftrightarrow> list_all2 (\<lambda>x y. f x = Inr y) xs ys"
proof (induction xs arbitrary: ys)
  case (Cons x xs)
  then show ?case
    by (cases "f x"; cases "map_result f xs") (auto simp: list_all2_Cons1)
qed auto

text \<open>\<open>xs.sort(compare)\<close> for a comparator that is a total preorder \<open>le\<close>: the stable sort.\<close>

fun insert_by :: "('a \<Rightarrow> 'a \<Rightarrow> bool) \<Rightarrow> 'a \<Rightarrow> 'a list \<Rightarrow> 'a list" where
  "insert_by le x [] = [x]"
| "insert_by le x (y # ys) = (if le x y then x # y # ys else y # insert_by le x ys)"

definition sort_by :: "('a \<Rightarrow> 'a \<Rightarrow> bool) \<Rightarrow> 'a list \<Rightarrow> 'a list" where
  "sort_by le xs = foldr (insert_by le) xs []"

lemma mset_insert_by: "mset (insert_by le x xs) = add_mset x (mset xs)"
  by (induction xs) auto

lemma mset_sort_by [simp]: "mset (sort_by le xs) = mset xs"
  by (induction xs) (simp_all add: sort_by_def mset_insert_by)

lemma set_sort_by [simp]: "set (sort_by le xs) = set xs"
  using mset_sort_by [of le xs] by (rule mset_eq_setD)

lemma length_sort_by [simp]: "length (sort_by le xs) = length xs"
  using mset_sort_by [of le xs] by (rule mset_eq_length)

lemma sorted_insert_by:
  assumes "\<And>a b. le a b \<or> le b a" "\<And>a b c. le a b \<Longrightarrow> le b c \<Longrightarrow> le a c" "sorted_wrt le xs"
  shows "sorted_wrt le (insert_by le x xs)"
  using assms(3)
proof (induction xs)
  case (Cons y ys)
  have "set (insert_by le x ys) = insert x (set ys)"
    using mset_insert_by [of le x ys] by (metis set_mset_add_mset_insert set_mset_mset)
  with Cons assms(1) [of x y] show ?case by (auto intro: assms(2))
qed simp

lemma sorted_sort_by:
  assumes "\<And>a b. le a b \<or> le b a" "\<And>a b c. le a b \<Longrightarrow> le b c \<Longrightarrow> le a c"
  shows "sorted_wrt le (sort_by le xs)"
  by (induction xs) (simp_all add: sort_by_def sorted_insert_by [OF assms])

lemma map_result_total: "(\<And>x. x \<in> set xs \<Longrightarrow> f x = Inr (g x)) \<Longrightarrow> map_result f xs = Inr (map g xs)"
  by (induction xs) auto

end
