(* ===== verification/Js_Text.thy ===== *)
theory Js_Text
  imports Prelude
begin

text \<open>
  The string functions of the language that the sources use, on ASCII strings: \<open>trim\<close>,
  \<open>toUpperCase\<close>, \<open>toLowerCase\<close>, \<open>startsWith\<close>, \<open>includes\<close>, \<open>split\<close>, \<open>padStart\<close>,
  \<open>padEnd\<close>, and the decimal text of non-negative integers (\<open>n.toString()\<close>, \<open>BigInt(text)\<close>)
  with its round trips, and the text of an instant. White space is the set the language trims, restricted to one-byte
  characters; case mapping is that of the ASCII letters.
\<close>

section \<open>White space and case\<close>

definition is_js_space :: "char \<Rightarrow> bool" where
  "is_js_space c = (let n = of_char c :: nat in (9 \<le> n \<and> n \<le> 13) \<or> n = 32 \<or> n = 160)"

definition trim_start :: "string \<Rightarrow> string" where
  "trim_start s = dropWhile is_js_space s"

definition trim :: "string \<Rightarrow> string" where
  "trim s = rev (trim_start (rev (trim_start s)))"

definition upper_char :: "char \<Rightarrow> char" where
  "upper_char c = (let n = of_char c :: nat in if 97 \<le> n \<and> n \<le> 122 then char_of (n - 32) else c)"

definition lower_char :: "char \<Rightarrow> char" where
  "lower_char c = (let n = of_char c :: nat in if 65 \<le> n \<and> n \<le> 90 then char_of (n + 32) else c)"

definition to_upper :: "string \<Rightarrow> string" where
  "to_upper s = map upper_char s"

definition to_lower :: "string \<Rightarrow> string" where
  "to_lower s = map lower_char s"

lemma dropWhile_idem_rev:
  "dropWhile P (rev (dropWhile P (rev (dropWhile P s)))) = rev (dropWhile P (rev (dropWhile P s)))"
proof (cases "dropWhile P s")
  case (Cons a as)
  then have "\<not> P a" by (metis hd_dropWhile list.distinct(1) list.sel(1))
  then have "dropWhile P (rev as @ [a]) = dropWhile P (rev as) @ [a]"
    by (induction "rev as" arbitrary: as) (auto simp: dropWhile_append)
  with \<open>\<not> P a\<close> Cons show ?thesis by simp
next
  case Nil
  then show ?thesis by (simp only: rev.simps dropWhile.simps)
qed

lemma trim_idem [simp, js_text]: "trim (trim s) = trim s"
  by (simp add: trim_def trim_start_def dropWhile_idem_rev)

lemma trim_Nil [simp]: "trim [] = []"
  by (simp add: trim_def trim_start_def)

lemma upper_char_idem [simp]: "upper_char (upper_char c) = upper_char c"
  by (auto simp: upper_char_def Let_def)

lemma lower_char_idem [simp]: "lower_char (lower_char c) = lower_char c"
  by (auto simp: lower_char_def Let_def)

lemma to_upper_idem [simp, js_text]: "to_upper (to_upper s) = to_upper s"
  by (simp add: to_upper_def)

lemma to_lower_idem [simp, js_text]: "to_lower (to_lower s) = to_lower s"
  by (simp add: to_lower_def)

lemma space_upper_char [simp]: "is_js_space (upper_char c) = is_js_space c"
  by (auto simp: upper_char_def is_js_space_def Let_def)

lemma space_lower_char [simp]: "is_js_space (lower_char c) = is_js_space c"
  by (auto simp: lower_char_def is_js_space_def Let_def)

lemma trim_start_map:
  assumes "\<And>c. is_js_space (f c) = is_js_space c"
  shows "trim_start (map f s) = map f (trim_start s)"
  using assms by (induction s) (auto simp: trim_start_def)

lemma trim_to_upper [js_text]: "trim (to_upper s) = to_upper (trim s)"
  by (simp add: trim_def to_upper_def trim_start_map rev_map)

lemma trim_to_lower [js_text]: "trim (to_lower s) = to_lower (trim s)"
  by (simp add: trim_def to_lower_def trim_start_map rev_map)

section \<open>Searching and cutting\<close>

definition starts_with :: "string \<Rightarrow> string \<Rightarrow> bool" where
  "starts_with s p = (take (length p) s = p)"

fun includes_str :: "string \<Rightarrow> string \<Rightarrow> bool" where
  "includes_str [] p = (p = [])"
| "includes_str (c # s) p = (starts_with (c # s) p \<or> includes_str s p)"

text \<open>\<open>s.split(sep)\<close> for a one-character separator: never empty.\<close>

fun split_on :: "char \<Rightarrow> string \<Rightarrow> string list" where
  "split_on sep [] = [[]]"
| "split_on sep (c # s) =
     (if c = sep then [] # split_on sep s
      else case split_on sep s of [] \<Rightarrow> [[c]] | p # ps \<Rightarrow> (c # p) # ps)"

fun join :: "string \<Rightarrow> string list \<Rightarrow> string" where
  "join sep [] = []"
| "join sep [x] = x"
| "join sep (x # y # zs) = x @ sep @ join sep (y # zs)"

definition pad_start :: "nat \<Rightarrow> char \<Rightarrow> string \<Rightarrow> string" where
  "pad_start n c s = replicate (n - length s) c @ s"

definition pad_end :: "nat \<Rightarrow> char \<Rightarrow> string \<Rightarrow> string" where
  "pad_end n c s = s @ replicate (n - length s) c"

text \<open>\<open>s.replace(/c+$/, "")\<close>.\<close>

definition strip_end :: "char \<Rightarrow> string \<Rightarrow> string" where
  "strip_end c s = rev (dropWhile (\<lambda>x. x = c) (rev s))"

lemma split_on_nonempty [simp]: "split_on sep s \<noteq> []"
  by (cases s) (auto split: list.splits)

lemma split_on_absent: "sep \<notin> set s \<Longrightarrow> split_on sep s = [s]"
  by (induction s) auto

lemma split_on_append:
  "sep \<notin> set a \<Longrightarrow> split_on sep (a @ sep # b) = a # split_on sep b"
  by (induction a) auto

lemma length_pad_start [simp]: "length s \<le> n \<Longrightarrow> length (pad_start n c s) = n"
  by (simp add: pad_start_def)

lemma length_pad_end [simp]: "length s \<le> n \<Longrightarrow> length (pad_end n c s) = n"
  by (simp add: pad_end_def)

lemma strip_end_replicate: "\<exists>k. s = strip_end c s @ replicate k c"
proof (induction s rule: rev_induct)
  case Nil
  show ?case by (simp add: strip_end_def)
next
  case (snoc x xs)
  show ?case
  proof (cases "x = c")
    case True
    from snoc obtain k where "xs = strip_end c xs @ replicate k c" ..
    then have "xs @ [c] = strip_end c xs @ replicate (Suc k) c"
      by (metis append_assoc replicate_Suc replicate_append_same)
    moreover from True have "strip_end c (xs @ [x]) = strip_end c xs"
      by (simp add: strip_end_def)
    ultimately have "xs @ [x] = strip_end c (xs @ [x]) @ replicate (Suc k) c"
      using True by (simp only:)
    then show ?thesis ..
  next
    case False
    then have "xs @ [x] = strip_end c (xs @ [x]) @ replicate 0 c" by (simp add: strip_end_def)
    then show ?thesis ..
  qed
qed

lemma strip_end_last: "strip_end c s \<noteq> [] \<Longrightarrow> last (strip_end c s) \<noteq> c"
  unfolding strip_end_def by (metis (mono_tags, lifting) hd_dropWhile last_rev rev_is_Nil_conv)

lemma strip_end_Nil_iff: "strip_end c s = [] \<longleftrightarrow> set s \<subseteq> {c}"
  by (auto simp: strip_end_def dropWhile_eq_Nil_conv)

section \<open>Decimal text\<close>

definition is_letter :: "char \<Rightarrow> bool" where
  "is_letter c = (let n = of_char c :: nat in 65 \<le> n \<and> n \<le> 90 \<or> 97 \<le> n \<and> n \<le> 122)"

definition is_digit :: "char \<Rightarrow> bool" where
  "is_digit c = (let n = of_char c :: nat in 48 \<le> n \<and> n \<le> 57)"

definition digit_val :: "char \<Rightarrow> nat" where
  "digit_val c = of_char c - 48"

definition digit_char :: "nat \<Rightarrow> char" where
  "digit_char d = char_of (d + 48)"

fun nat_text :: "nat \<Rightarrow> string" where
  "nat_text n = (if n < 10 then [digit_char n] else nat_text (n div 10) @ [digit_char (n mod 10)])"

declare nat_text.simps [simp del]

definition text_nat :: "string \<Rightarrow> nat" where
  "text_nat s = foldl (\<lambda>a c. a * 10 + digit_val c) 0 s"

lemma digit_val_char [simp]: "d < 10 \<Longrightarrow> digit_val (digit_char d) = d"
  by (simp add: digit_val_def digit_char_def)

lemma is_digit_char [simp]: "d < 10 \<Longrightarrow> is_digit (digit_char d)"
  by (simp add: is_digit_def digit_char_def)

lemma digit_char_val [simp]: "is_digit c \<Longrightarrow> digit_char (digit_val c) = c"
  by (simp add: is_digit_def digit_val_def digit_char_def Let_def)

lemma digit_val_less [simp]: "is_digit c \<Longrightarrow> digit_val c < 10"
  by (auto simp: is_digit_def digit_val_def Let_def)

lemma digit_char_0 [simp]: "digit_char 0 = CHR ''0''"
  by (simp add: digit_char_def char_of_eq_iff)

lemma digit_zero [simp]: "digit_val CHR ''0'' = 0" "is_digit CHR ''0''" "\<not> is_digit CHR ''.''"
  by (simp_all add: digit_val_def is_digit_def)

lemma text_nat_snoc [simp]: "text_nat (s @ [c]) = text_nat s * 10 + digit_val c"
  by (simp add: text_nat_def)

lemma text_nat_Nil [simp]: "text_nat [] = 0"
  by (simp add: text_nat_def)

lemma text_nat_append: "text_nat (s @ t) = text_nat s * 10 ^ length t + text_nat t"
proof (induction t rule: rev_induct)
  case (snoc c t)
  have "text_nat (s @ t @ [c]) = text_nat (s @ t) * 10 + digit_val c"
    by (metis append_assoc text_nat_snoc)
  with snoc show ?case by (simp add: algebra_simps)
qed simp

lemma text_nat_zeros [simp]: "text_nat (replicate k CHR ''0'') = 0"
proof (induction k)
  case (Suc k)
  have "replicate (Suc k) CHR ''0'' = replicate k CHR ''0'' @ [CHR ''0'']"
    by (simp add: replicate_append_same)
  with Suc show ?case by (simp only: text_nat_snoc digit_zero)
qed simp

lemma text_nat_less: "list_all is_digit s \<Longrightarrow> text_nat s < 10 ^ length s"
proof (induction s rule: rev_induct)
  case (snoc c s)
  then have "text_nat s < 10 ^ length s" "digit_val c < 10" by auto
  then have "text_nat s * 10 + digit_val c < 10 ^ length s * 10" by linarith
  then show ?case by (simp add: mult.commute)
qed simp

lemma text_nat_text [simp]: "text_nat (nat_text n) = n"
proof (induction n rule: nat_text.induct)
  case (1 n)
  then show ?case
    by (cases "n < 10") (simp_all add: nat_text.simps [of n] text_nat_def)
qed

lemma nat_text_digits [simp]: "list_all is_digit (nat_text n)"
proof (induction n rule: nat_text.induct)
  case (1 n)
  then show ?case by (cases "n < 10") (simp_all add: nat_text.simps [of n])
qed

lemma nat_text_nonempty [simp]: "nat_text n \<noteq> []"
  by (subst nat_text.simps) simp

lemma hd_nat_text: "0 < n \<Longrightarrow> hd (nat_text n) \<noteq> CHR ''0''"
proof (induction n rule: nat_text.induct)
  case (1 n)
  show ?case
  proof (cases "n < 10")
    case True
    with 1 show ?thesis
      by (auto simp: nat_text.simps [of n] dest: arg_cong [where f = digit_val])
  next
    case False
    with 1 show ?thesis by (simp add: nat_text.simps [of n])
  qed
qed

lemma length_nat_text: "n < 10 ^ k \<Longrightarrow> 0 < k \<Longrightarrow> length (nat_text n) \<le> k"
proof (induction n arbitrary: k rule: nat_text.induct)
  case (1 n)
  show ?case
  proof (cases "n < 10")
    case True
    with 1 show ?thesis by (simp add: nat_text.simps [of n])
  next
    case False
    with "1.prems" obtain k' where k: "k = Suc k'" "0 < k'"
      by (metis One_nat_def Suc_diff_1 neq0_conv power_one_right)
    with "1.prems" have "n div 10 < 10 ^ k'" by auto
    with "1.IH" False k have "length (nat_text (n div 10)) \<le> k'" by simp
    with False k show ?thesis by (simp add: nat_text.simps [of n])
  qed
qed

lemma nat_text_unique:
  assumes "list_all is_digit s" "s \<noteq> []" "s = ''0'' \<or> hd s \<noteq> CHR ''0''"
  shows "nat_text (text_nat s) = s"
  using assms
proof (induction s rule: rev_induct)
  case (snoc c s)
  show ?case
  proof (cases "s = []")
    case True
    with snoc.prems show ?thesis by (simp add: nat_text.simps text_nat_def)
  next
    case False
    with snoc.prems have hd: "hd s \<noteq> CHR ''0''" and d: "list_all is_digit s" "is_digit c" by auto
    with snoc.IH False have IH: "nat_text (text_nat s) = s" by simp
    have "text_nat s \<noteq> 0"
    proof
      assume "text_nat s = 0"
      with IH have "s = [digit_char 0]" by (simp add: nat_text.simps)
      with hd show False by simp
    qed
    with d have "\<not> text_nat (s @ [c]) < 10" "text_nat (s @ [c]) div 10 = text_nat s"
      "text_nat (s @ [c]) mod 10 = digit_val c" by auto
    with IH d show ?thesis
      by (subst nat_text.simps) (simp only: if_False digit_char_val)
  qed
qed simp

section \<open>BigInt of a string\<close>

text \<open>
  \<open>BigInt(text)\<close> on a trimmed, non-empty text: decimal digits with an optional sign, or a
  \<open>0x\<close>, \<open>0o\<close>, \<open>0b\<close> prefix without a sign; \<open>None\<close> is the \<open>SyntaxError\<close>.
\<close>

definition hex_val :: "char \<Rightarrow> nat option" where
  "hex_val c =
     (let n = of_char c :: nat in
      if 48 \<le> n \<and> n \<le> 57 then Some (n - 48)
      else if 97 \<le> n \<and> n \<le> 102 then Some (n - 87)
      else if 65 \<le> n \<and> n \<le> 70 then Some (n - 55)
      else None)"

fun radix_text :: "nat \<Rightarrow> nat \<Rightarrow> string \<Rightarrow> nat option" where
  "radix_text b acc [] = Some acc"
| "radix_text b acc (c # s) =
     (case hex_val c of None \<Rightarrow> None
      | Some d \<Rightarrow> if d < b then radix_text b (acc * b + d) s else None)"

definition unsigned_text :: "nat \<Rightarrow> string \<Rightarrow> int option" where
  "unsigned_text b s = (if s = [] then None else map_option int (radix_text b 0 s))"

fun bigint_text :: "string \<Rightarrow> int option" where
  "bigint_text s =
     (if starts_with s ''0x'' \<or> starts_with s ''0X'' then unsigned_text 16 (drop 2 s)
      else if starts_with s ''0o'' \<or> starts_with s ''0O'' then unsigned_text 8 (drop 2 s)
      else if starts_with s ''0b'' \<or> starts_with s ''0B'' then unsigned_text 2 (drop 2 s)
      else if starts_with s ''-'' then map_option uminus (unsigned_text 10 (drop 1 s))
      else if starts_with s ''+'' then unsigned_text 10 (drop 1 s)
      else unsigned_text 10 s)"

section \<open>Instants as texts\<close>

text \<open>\<open>new Date(ms).toISOString()\<close> for instants the language can represent, by the proleptic Gregorian calendar.\<close>

definition two_digits :: "int \<Rightarrow> string" where
  "two_digits n = pad_start 2 (CHR ''0'') (nat_text (nat n))"

definition year_text :: "int \<Rightarrow> string" where
  "year_text y =
     (if 0 \<le> y \<and> y \<le> 9999 then pad_start 4 (CHR ''0'') (nat_text (nat y))
      else (if y < 0 then CHR ''-'' else CHR ''+'') # pad_start 6 (CHR ''0'') (nat_text (nat \<bar>y\<bar>)))"

definition civil_date :: "int \<Rightarrow> int \<times> int \<times> int" where
  "civil_date days =
     (let z = days + 719468; era = z div 146097; doe = z mod 146097;
          yoe = (doe - doe div 1460 + doe div 36524 - doe div 146096) div 365;
          doy = doe - (365 * yoe + yoe div 4 - yoe div 100);
          mp = (5 * doy + 2) div 153;
          m = (if mp < 10 then mp + 3 else mp - 9)
      in (yoe + era * 400 + (if m \<le> 2 then 1 else 0), m, doy - (153 * mp + 2) div 5 + 1))"

definition iso_text :: "instant \<Rightarrow> string" where
  "iso_text t =
     (let (y, m, d) = civil_date (t div 86400000); ms = t mod 86400000 in
      year_text y @ ''-'' @ two_digits m @ ''-'' @ two_digits d @ ''T'' @
      two_digits (ms div 3600000) @ '':'' @ two_digits (ms div 60000 mod 60) @ '':'' @
      two_digits (ms div 1000 mod 60) @ ''.'' @ pad_start 3 (CHR ''0'') (nat_text (nat (ms mod 1000))) @ ''Z'')"

end
