(* ===== verification/Js_Regex.thy ===== *)
theory Js_Regex
  imports Js_Text
begin

text \<open>
  The regular expressions of the language, as far as the sources use them: character classes,
  sequence, alternation, greedy repetition and the word boundary. \<open>rx_matches\<close> lists the texts an
  expression matches at a place in the order in which a backtracking matcher finds them, so the first
  one is what the language reports; \<open>replace_all\<close> and \<open>search_from\<close> are \<open>replace\<close> with a global
  expression and \<open>exec\<close>. Texts are ASCII strings; the flag of a place says whether the character
  before it is a word character.
\<close>

section \<open>Expressions and their matches\<close>

datatype rx = R_empty | R_set "char \<Rightarrow> bool" | R_boundary | R_seq rx rx | R_alt rx rx | R_star rx

definition rx_word :: "char \<Rightarrow> bool" where
  "rx_word c = (let n = of_char c :: nat in 48 \<le> n \<and> n \<le> 57 \<or> 65 \<le> n \<and> n \<le> 90 \<or> 97 \<le> n \<and> n \<le> 122 \<or> n = 95)"

definition starts_word :: "string \<Rightarrow> bool" where
  "starts_word s = (case s of [] \<Rightarrow> False | c # _ \<Rightarrow> rx_word c)"

definition flag_after :: "bool \<Rightarrow> string \<Rightarrow> bool" where
  "flag_after w m = (if m = [] then w else rx_word (last m))"

text \<open>An iteration of a repetition has to consume something.\<close>

function rx_matches :: "rx \<Rightarrow> bool \<Rightarrow> string \<Rightarrow> string list" where
  "rx_matches R_empty w s = [[]]"
| "rx_matches (R_set p) w s = (case s of [] \<Rightarrow> [] | c # _ \<Rightarrow> if p c then [[c]] else [])"
| "rx_matches R_boundary w s = (if w \<noteq> starts_word s then [[]] else [])"
| "rx_matches (R_seq a b) w s =
     concat (map (\<lambda>m. map ((@) m) (rx_matches b (flag_after w m) (drop (length m) s))) (rx_matches a w s))"
| "rx_matches (R_alt a b) w s = rx_matches a w s @ rx_matches b w s"
| "rx_matches (R_star a) w s =
     concat (map (\<lambda>m. if m = [] \<or> s = [] then []
         else map ((@) m) (rx_matches (R_star a) (flag_after w m) (drop (length m) s))) (rx_matches a w s)) @ [[]]"
  by pat_completeness auto
termination
  by (relation "measures [\<lambda>(r, w, s). size r, \<lambda>(r, w, s). length s]") auto

declare rx_matches.simps(6) [simp del]

section \<open>Shorthands\<close>

definition R_char :: "char \<Rightarrow> rx" where "R_char c = R_set (\<lambda>x. x = c)"

definition R_chari :: "char \<Rightarrow> rx" where "R_chari c = R_set (\<lambda>x. lower_char x = c)"

text \<open>A text and a lower-case text without regard to case.\<close>

fun R_text :: "string \<Rightarrow> rx" where
  "R_text [] = R_empty"
| "R_text (c # s) = R_seq (R_char c) (R_text s)"

fun R_texti :: "string \<Rightarrow> rx" where
  "R_texti [] = R_empty"
| "R_texti (c # s) = R_seq (R_chari c) (R_texti s)"

definition R_plus :: "rx \<Rightarrow> rx" where "R_plus a = R_seq a (R_star a)"

definition R_opt :: "rx \<Rightarrow> rx" where "R_opt a = R_alt a R_empty"

fun R_times :: "nat \<Rightarrow> rx \<Rightarrow> rx" where
  "R_times 0 a = R_empty"
| "R_times (Suc n) a = R_seq a (R_times n a)"

fun R_alts :: "rx list \<Rightarrow> rx" where
  "R_alts [] = R_set (\<lambda>_. False)"
| "R_alts [a] = a"
| "R_alts (a # b # rs) = R_alt a (R_alts (b # rs))"

fun R_seqs :: "rx list \<Rightarrow> rx" where
  "R_seqs [] = R_empty"
| "R_seqs [a] = a"
| "R_seqs (a # b # rs) = R_seq a (R_seqs (b # rs))"

definition R_space :: rx where "R_space = R_set is_js_space"

section \<open>Searching and replacing\<close>

text \<open>The first match from a place on: how many characters come before it, and its text.\<close>

fun search_from :: "rx \<Rightarrow> bool \<Rightarrow> string \<Rightarrow> (nat \<times> string) option" where
  "search_from r w s =
     (case rx_matches r w s of
        m # _ \<Rightarrow> Some (0, m)
      | [] \<Rightarrow> (case s of [] \<Rightarrow> None | c # t \<Rightarrow> map_option (apfst Suc) (search_from r (rx_word c) t)))"

declare search_from.simps [simp del]

definition rx_test :: "rx \<Rightarrow> string \<Rightarrow> bool" where
  "rx_test r s = (search_from r False s \<noteq> None)"

text \<open>\<open>s.replace(r, rep)\<close> for a global expression and a text without dollar signs.\<close>

function replace_all :: "rx \<Rightarrow> string \<Rightarrow> bool \<Rightarrow> string \<Rightarrow> string" where
  "replace_all r rep w s =
     (case s of
        [] \<Rightarrow> (if rx_matches r w [] = [] then [] else rep)
      | c # t \<Rightarrow>
        (case rx_matches r w s of
           [] \<Rightarrow> c # replace_all r rep (rx_word c) t
         | [] # _ \<Rightarrow> rep @ c # replace_all r rep (rx_word c) t
         | (d # m) # _ \<Rightarrow> rep @ replace_all r rep (flag_after w (d # m)) (drop (length m) t)))"
  by pat_completeness auto
termination
  by (relation "measure (\<lambda>(r, rep, w, s). length s)") auto

declare replace_all.simps [simp del]

section \<open>Matches are prefixes\<close>

lemma rx_match_prefix: "m \<in> set (rx_matches r w s) \<Longrightarrow> m = take (length m) s"
proof (induction r w s arbitrary: m rule: rx_matches.induct)
  case (4 a b w s)
  from 4(3) obtain k n where kn: "k \<in> set (rx_matches a w s)" "n \<in> set (rx_matches b (flag_after w k) (drop (length k) s))" "m = k @ n"
    by auto
  then show ?case using 4(1) [OF kn(1), symmetric] 4(2) [OF kn(1,2), symmetric] by (simp add: take_add)
next
  case (6 a w s)
  show ?case
  proof (cases "m = []")
    case False
    then obtain k n where kn: "k \<in> set (rx_matches a w s)" "k \<noteq> [] \<and> s \<noteq> []" "n \<in> set (rx_matches (R_star a) (flag_after w k) (drop (length k) s))" "m = k @ n"
      using 6(3) rx_matches.simps(6) [of a w s] by (auto split: if_splits)
    then show ?thesis using 6(1) [OF kn(1), symmetric] 6(2) [OF kn(1) _ kn(3), symmetric] by (simp add: take_add)
  qed simp
qed (auto split: list.splits if_splits)

lemma rx_match_split: "m \<in> set (rx_matches r w s) \<Longrightarrow> s = m @ drop (length m) s"
  using rx_match_prefix [of m r w s] by (metis append_take_drop_id)

lemma flag_after_Cons [simp]: "flag_after w (c # m) = flag_after (rx_word c) m"
  by (simp add: flag_after_def)

lemma flag_after_Nil [simp]: "flag_after w [] = w"
  by (simp add: flag_after_def)

lemma flag_after_append: "flag_after w (a @ b) = flag_after (flag_after w a) b"
  by (induction a arbitrary: w) simp_all

section \<open>Searching and replacing\<close>

lemma all_splits_Cons:
  "(\<forall>pre post. c # t = pre @ post \<longrightarrow> P pre post) \<longleftrightarrow> P [] (c # t) \<and> (\<forall>pre post. t = pre @ post \<longrightarrow> P (c # pre) post)"
  (is "?L \<longleftrightarrow> ?R")
proof
  assume L: ?L
  then have "P (c # pre) post" if "t = pre @ post" for pre post using that L [rule_format, of "c # pre" post] by simp
  then show ?R using L by auto
next
  assume R: ?R
  then have "P pre post" if "c # t = pre @ post" for pre post using that by (cases pre) auto
  then show ?L by blast
qed

lemma search_none_iff:
  "search_from r w s = None \<longleftrightarrow> (\<forall>pre post. s = pre @ post \<longrightarrow> rx_matches r (flag_after w pre) post = [])"
proof (induction s arbitrary: w)
  case Nil
  then show ?case by (auto simp: search_from.simps split: list.splits)
next
  case (Cons c t)
  have "search_from r w (c # t) = None \<longleftrightarrow> rx_matches r w (c # t) = [] \<and> search_from r (rx_word c) t = None"
    by (subst search_from.simps) (auto split: list.splits)
  also have "\<dots> \<longleftrightarrow> (\<forall>pre post. c # t = pre @ post \<longrightarrow> rx_matches r (flag_after w pre) post = [])"
    unfolding Cons.IH by (simp add: all_splits_Cons)
  finally show ?case .
qed

lemma rx_test_iff: "rx_test r s \<longleftrightarrow> (\<exists>pre post. s = pre @ post \<and> rx_matches r (flag_after False pre) post \<noteq> [])"
  by (simp add: rx_test_def search_none_iff)

lemma search_some:
  assumes "search_from r w s = Some (n, m)"
  shows "n \<le> length s \<and> m \<in> set (rx_matches r (flag_after w (take n s)) (drop n s)) \<and> take (length m) (drop n s) = m"
  using assms
proof (induction s arbitrary: w n)
  case Nil
  then show ?case using rx_match_prefix [of m r w "[]"] by (auto simp: search_from.simps split: list.splits)
next
  case (Cons c t)
  show ?case
  proof (cases "rx_matches r w (c # t)")
    case Nil
    then obtain k where k: "n = Suc k" "search_from r (rx_word c) t = Some (k, m)"
      using Cons.prems search_from.simps [of r w "c # t"] by auto
    then show ?thesis using Cons.IH by simp
  next
    case (Cons m' ms)
    then have "n = 0 \<and> m = m'" using Cons.prems search_from.simps [of r w "c # t"] by simp
    then have "n = 0" "m \<in> set (rx_matches r w (c # t))" using Cons by simp_all
    then show ?thesis using rx_match_prefix [of m r w "c # t"] by simp
  qed
qed

lemma replace_all_none:
  "search_from r w s = None \<Longrightarrow> replace_all r rep w s = s"
proof (induction s arbitrary: w)
  case Nil
  then show ?case by (subst replace_all.simps) (auto simp: search_from.simps split: list.splits)
next
  case (Cons c t)
  then have "rx_matches r w (c # t) = []" "search_from r (rx_word c) t = None"
    using search_from.simps [of r w "c # t"] by (auto split: list.splits)
  then show ?case using Cons.IH by (subst replace_all.simps) simp
qed

lemma replace_all_chars: "set (replace_all r rep w s) \<subseteq> set s \<union> set rep"
proof (induction r rep w s rule: replace_all.induct)
  case (1 r rep w s)
  show ?case
  proof (cases s)
    case Nil
    then show ?thesis by (subst replace_all.simps) simp
  next
    case (Cons c t)
    note s = this
    show ?thesis
    proof (cases "rx_matches r w s")
      case Nil
      then show ?thesis using 1(1) [OF s Nil] s by (subst replace_all.simps) auto
    next
      case (Cons m ms)
      show ?thesis
      proof (cases m)
        case Nil
        then show ?thesis using 1(2) [OF s] Cons s by (subst replace_all.simps) auto
      next
        case (Cons d k)
        then show ?thesis
          using 1(3) [OF s, of "d # k" ms d k] \<open>rx_matches r w s = m # ms\<close> s set_drop_subset [of "length k" t]
          by (subst replace_all.simps) auto
      qed
    qed
  qed
qed

end
