(* ===== verification/Js_Number.thy ===== *)
theory Js_Number
  imports Complex_Main Js_Text
begin

text \<open>
  Numbers of the language read from texts: \<open>Number(text)\<close> as the scripts and the configuration of the
  guards use it, with exact rationals for the doubles it gives.
\<close>

text \<open>
  \<open>Number(raw)\<close> on a text, as an exact rational: \<open>None\<close> is NaN or an infinity. A numeral at or above
  2^1024 - 2^970 rounds to infinity.
\<close>

definition decimal_text :: "string \<Rightarrow> rat option" where
  "decimal_text t =
     (let is_e = (\<lambda>c. c = CHR ''e'' \<or> c = CHR ''E'');
          mantissa = takeWhile (\<lambda>c. \<not> is_e c) t;
          exponent = dropWhile (\<lambda>c. \<not> is_e c) t;
          whole = takeWhile is_digit mantissa;
          point = dropWhile is_digit mantissa;
          fraction = drop 1 point
      in if (point = [] \<or> hd point = CHR ''.'') \<and> list_all is_digit fraction \<and> whole @ fraction \<noteq> []
         then map_option (\<lambda>e. let k = e - int (length fraction); m = of_nat (text_nat (whole @ fraction))
             in if 0 \<le> k then m * 10 ^ nat k else m / 10 ^ nat (- k))
           (if exponent = [] then Some 0
            else if starts_with (drop 1 exponent) ''-'' then map_option uminus (unsigned_text 10 (drop 2 exponent))
            else if starts_with (drop 1 exponent) ''+'' then unsigned_text 10 (drop 2 exponent)
            else unsigned_text 10 (drop 1 exponent))
         else None)"

definition is_prefixed :: "string \<Rightarrow> bool" where
  "is_prefixed t = (take 2 t \<in> {''0x'', ''0X'', ''0o'', ''0O'', ''0b'', ''0B''})"

text \<open>The numeral of a text, without a bound; the names of the infinities are not numerals.\<close>

definition numeral_text :: "string \<Rightarrow> rat option" where
  "numeral_text s =
     (let t = trim s
      in if t = [] then Some 0
         else if is_prefixed t then map_option of_int (bigint_text t)
         else if starts_with t ''-'' then map_option uminus (decimal_text (drop 1 t))
         else if starts_with t ''+'' then decimal_text (drop 1 t)
         else decimal_text t)"

definition number_text :: "string \<Rightarrow> rat option" where
  "number_text s =
     (case numeral_text s of None \<Rightarrow> None | Some x \<Rightarrow> if \<bar>x\<bar> < 2 ^ 1024 - 2 ^ 970 then Some x else None)"

text \<open>The whole numbers among them (\<open>Number.isInteger\<close>).\<close>

definition whole_number :: "rat option \<Rightarrow> int option" where
  "whole_number v = (case v of Some q \<Rightarrow> if of_int \<lfloor>q\<rfloor> = q then Some \<lfloor>q\<rfloor> else None | None \<Rightarrow> None)"

end
