(* ===== verification/Json_Text.thy ===== *)
theory Json_Text
  imports Js_Number "HOL-Library.Log_Nat" "HOL-Library.Monad_Syntax"
begin

text \<open>
  The codecs of the language the encoded texts pass through: \<open>base64url\<close> and \<open>utf8\<close> of a \<open>Buffer\<close>,
  and \<open>JSON.parse\<close>. Bytes and UTF-16 code units are natural numbers. \<open>JSON.parse\<close> takes fuel;
  the length of the text is enough (\<open>parse_value_fuel\<close>).
\<close>

section \<open>Doubles\<close>

text \<open>The double nearest to a rational below the overflow bound, ties to even, subnormals included.\<close>

definition binary_exponent :: "rat \<Rightarrow> int" where
  "binary_exponent q =
     (let (a, b) = quotient_of q; e = int (floorlog 2 (nat a)) - int (floorlog 2 (nat b))
      in if 2 powi e \<le> q then e else e - 1)"

definition round_even :: "rat \<Rightarrow> int" where
  "round_even r = (let n = \<lfloor>r\<rfloor>; d = r - of_int n in if d < 1 / 2 \<or> d = 1 / 2 \<and> even n then n else n + 1)"

definition to_double :: "rat \<Rightarrow> rat" where
  "to_double q =
     (if q = 0 then 0
      else let u = 2 powi (max (binary_exponent \<bar>q\<bar> - 52) (- 1074)) in sgn q * of_int (round_even (\<bar>q\<bar> / u)) * u)"

text \<open>\<open>Number.isSafeInteger\<close>; \<open>None\<close> is NaN or an infinity.\<close>

definition isSafeInteger :: "rat option \<Rightarrow> bool" where
  "isSafeInteger v = (case v of Some q \<Rightarrow> of_int \<lfloor>q\<rfloor> = q \<and> \<bar>q\<bar> \<le> 2 ^ 53 - 1 | None \<Rightarrow> False)"

text \<open>\<open>Number(text)\<close> with its special values.\<close>

datatype js_number = NaN | Infinity | Minus_infinity | Finite rat

definition js_Number :: "string \<Rightarrow> js_number" where
  "js_Number s =
     (if trim s \<in> {''Infinity'', ''+Infinity''} then Infinity
      else if trim s = ''-Infinity'' then Minus_infinity
      else case numeral_text s of None \<Rightarrow> NaN
        | Some q \<Rightarrow> if \<bar>q\<bar> < 2 ^ 1024 - 2 ^ 970 then Finite (to_double q) else if 0 < q then Infinity else Minus_infinity)"

lemma round_even_of_int [simp]: "round_even (of_int n) = n"
  by (simp add: round_even_def)

lemma binary_exponent_nat:
  assumes "0 < n"
  shows "binary_exponent (of_int n) = int (floorlog 2 (nat n)) - 1"
proof -
  have "2 ^ (floorlog 2 (nat n) - 1) \<le> nat n" using assms floorlog_bounds [of "nat n" 2] by simp
  then have "(2::int) ^ (floorlog 2 (nat n) - 1) \<le> n" using assms by (metis nat_0_less_mult_iff int_nat_eq
      less_imp_le of_nat_le_iff of_nat_numeral of_nat_power)
  then have "(2::rat) ^ (floorlog 2 (nat n) - 1) \<le> of_int n" by (metis of_int_le_iff of_int_numeral of_int_power)
  moreover have "0 < floorlog 2 (nat n)" using assms by (simp add: floorlog_def)
  ultimately have "(2::rat) powi (int (floorlog 2 (nat n)) - 1) \<le> of_int n"
    by (metis One_nat_def Suc_leI int_ops(2) of_nat_diff power_int_of_nat)
  moreover have "floorlog 2 1 = 1" by (simp add: floorlog_def)
  ultimately show ?thesis by (simp add: binary_exponent_def)
qed

lemma to_double_safe:
  assumes "\<bar>n\<bar> < 2 ^ 53"
  shows "to_double (of_int n) = of_int n"
proof (cases "n = 0")
  case False
  define m where "m = \<bar>n\<bar>"
  define k where "k = floorlog 2 (nat m) - 1"
  have m: "0 < m" "m < 2 ^ 53" using False assms by (auto simp: m_def)
  have pos: "0 < floorlog 2 (nat m)" using m(1) by (simp add: floorlog_def)
  have "2 ^ k \<le> nat m" using m floorlog_bounds [of "nat m" 2] by (simp add: k_def)
  also have "\<dots> < 2 ^ 53" using m(2) by simp
  finally have k: "k < 53" by (metis One_nat_def lessI numeral_2_eq_2 power_less_imp_less_exp)
  have e: "binary_exponent (of_int m) = int k" using binary_exponent_nat [OF m(1)] pos by (simp add: k_def)
  have u: "(2::rat) powi (max (int k - 52) (- 1074)) = 1 / 2 ^ (52 - k)"
  proof -
    have "max (int k - 52) (- 1074) = - int (52 - k)" using k by simp
    then have "(2::rat) powi (max (int k - 52) (- 1074)) = inverse (2 powi int (52 - k))" by (simp only: power_int_minus)
    then show ?thesis by (simp only: power_int_of_nat inverse_eq_divide)
  qed
  have "of_int m / (1 / (2::rat) ^ (52 - k)) = of_int (m * 2 ^ (52 - k))" by simp
  then have "round_even (of_int m / (1 / (2::rat) ^ (52 - k))) = m * 2 ^ (52 - k)"
    by (metis round_even_of_int)
  moreover have "\<bar>of_int n :: rat\<bar> = of_int m" by (simp add: m_def)
  moreover have "sgn (of_int n :: rat) * of_int m = of_int n" by (simp add: m_def sgn_if)
  ultimately show ?thesis using False e u by (simp add: to_double_def mult.assoc)
qed (simp add: to_double_def)

section \<open>Bytes as base64url text\<close>

text \<open>\<open>buffer.toString("base64url")\<close>: groups of three bytes as four digits, without padding.\<close>

fun sextets :: "nat list \<Rightarrow> nat list" where
  "sextets (a # b # c # bs) = [a div 4, a mod 4 * 16 + b div 16, b mod 16 * 4 + c div 64, c mod 64] @ sextets bs"
| "sextets [a, b] = [a div 4, a mod 4 * 16 + b div 16, b mod 16 * 4]"
| "sextets [a] = [a div 4, a mod 4 * 16]"
| "sextets [] = []"

text \<open>
  \<open>Buffer.from(text, "base64url")\<close> on a text of the alphabet: bits that do not fill a byte are
  dropped, so a single digit that is left over gives nothing.
\<close>

fun octets :: "nat list \<Rightarrow> nat list" where
  "octets (w # x # y # z # ds) = [w * 4 + x div 16, x mod 16 * 16 + y div 4, y mod 4 * 64 + z] @ octets ds"
| "octets [w, x, y] = [w * 4 + x div 16, x mod 16 * 16 + y div 4]"
| "octets [w, x] = [w * 4 + x div 16]"
| "octets [w] = []"
| "octets [] = []"

definition b64_char :: "nat \<Rightarrow> char" where
  "b64_char n = char_of (if n < 26 then n + 65 else if n < 52 then n + 71 else if n < 62 then n - 4 else if n = 62 then 45 else 95)"

definition b64_val :: "char \<Rightarrow> nat option" where
  "b64_val c =
     (let n = of_char c :: nat
      in if 65 \<le> n \<and> n \<le> 90 then Some (n - 65)
         else if 97 \<le> n \<and> n \<le> 122 then Some (n - 71)
         else if 48 \<le> n \<and> n \<le> 57 then Some (n + 4)
         else if n = 45 then Some 62 else if n = 95 then Some 63 else None)"

definition base64url_text :: "nat list \<Rightarrow> string" where
  "base64url_text bytes = map b64_char (sextets bytes)"

definition base64url_bytes :: "string \<Rightarrow> nat list" where
  "base64url_bytes s = octets (List.map_filter b64_val s)"

lemma octets_sextets: "list_all (\<lambda>b. b < 256) bytes \<Longrightarrow> octets (sextets bytes) = bytes"
proof (induction bytes rule: sextets.induct)
  case (1 a b c bs)
  have "a div 4 * 4 + (a mod 4 * 16 + b div 16) div 16 = a"
    "(a mod 4 * 16 + b div 16) mod 16 * 16 + (b mod 16 * 4 + c div 64) div 4 = b"
    "(b mod 16 * 4 + c div 64) mod 4 * 64 + c mod 64 = c"
    using 1(2) by auto
  then show ?case using 1 by simp
next
  case (2 a b)
  have "a div 4 * 4 + (a mod 4 * 16 + b div 16) div 16 = a" "(a mod 4 * 16 + b div 16) mod 16 * 16 + (b mod 16 * 4) div 4 = b"
    using 2 by auto
  then show ?case by simp
qed auto

lemma sextets_less: "list_all (\<lambda>b. b < 256) bytes \<Longrightarrow> list_all (\<lambda>d. d < 64) (sextets bytes)"
  by (induction bytes rule: sextets.induct) auto

lemma length_sextets: "3 * length (sextets bytes) \<le> 4 * length bytes + 2"
  by (induction bytes rule: sextets.induct) auto

lemma b64_val_char: "n < 64 \<Longrightarrow> b64_val (b64_char n) = Some n"
  by (auto simp: b64_val_def b64_char_def Let_def)

lemma base64url_roundtrip:
  assumes "list_all (\<lambda>b. b < 256) bytes"
  shows "base64url_bytes (base64url_text bytes) = bytes"
proof -
  have "List.map_filter b64_val (map b64_char ds) = ds" if "list_all (\<lambda>d. d < 64) ds" for ds
    using that by (induction ds) (simp_all add: b64_val_char)
  then show ?thesis using assms by (simp add: base64url_bytes_def base64url_text_def sextets_less octets_sextets)
qed

section \<open>Bytes as UTF-8 text\<close>

text \<open>
  \<open>buffer.toString("utf8")\<close>: the decoder of the Encoding standard, with the bytes still needed, the
  bounds of the next one and the code point so far. An ill-formed sequence becomes U+FFFD and the
  byte that broke it is read again.
\<close>

definition code_units :: "nat \<Rightarrow> nat list" where
  "code_units p = (if p < 65536 then [p] else [55296 + (p - 65536) div 1024, 56320 + (p - 65536) mod 1024])"

function (sequential) utf8_units :: "nat \<Rightarrow> nat \<Rightarrow> nat \<Rightarrow> nat \<Rightarrow> nat list \<Rightarrow> nat list" where
  "utf8_units needed lower upper point [] = (if needed = 0 then [] else [65533])"
| "utf8_units 0 lower upper point (b # bs) =
     (if b < 128 then b # utf8_units 0 128 191 0 bs
      else if 194 \<le> b \<and> b \<le> 223 then utf8_units 1 128 191 (b - 192) bs
      else if 224 \<le> b \<and> b \<le> 239
      then utf8_units 2 (if b = 224 then 160 else 128) (if b = 237 then 159 else 191) (b - 224) bs
      else if 240 \<le> b \<and> b \<le> 244
      then utf8_units 3 (if b = 240 then 144 else 128) (if b = 244 then 143 else 191) (b - 240) bs
      else 65533 # utf8_units 0 128 191 0 bs)"
| "utf8_units (Suc n) lower upper point (b # bs) =
     (if lower \<le> b \<and> b \<le> upper
      then let p = point * 64 + (b - 128)
           in if n = 0 then code_units p @ utf8_units 0 128 191 0 bs else utf8_units n 128 191 p bs
      else 65533 # utf8_units 0 128 191 0 (b # bs))"
  by pat_completeness auto
termination
  by (relation "measure (\<lambda>(n, _, _, _, bs). 2 * length bs + (if n = 0 then 0 else 1))") auto

definition utf8_text :: "nat list \<Rightarrow> nat list" where
  "utf8_text bytes = utf8_units 0 128 191 0 bytes"

lemma utf8_ascii: "list_all (\<lambda>b. b < 128) bytes \<Longrightarrow> utf8_text bytes = bytes"
  unfolding utf8_text_def by (induction bytes) simp_all

section \<open>JSON\<close>

datatype json =
    J_null | J_bool bool | J_number "rat option" | J_string "nat list"
  | J_array "json list" | J_object "(nat list \<times> json) list"

definition skip_space :: "nat list \<Rightarrow> nat list" where
  "skip_space = dropWhile (\<lambda>u. u = 32 \<or> u = 9 \<or> u = 10 \<or> u = 13)"

text \<open>The token \<open>c\<close> after white space; the text after it.\<close>

definition expect :: "nat \<Rightarrow> nat list \<Rightarrow> nat list option" where
  "expect c s = (case skip_space s of u # r \<Rightarrow> if u = c then Some r else None | [] \<Rightarrow> None)"

text \<open>A string after its opening quote: its code units and the text after the closing quote.\<close>

definition escaped_unit :: "nat \<Rightarrow> nat option" where
  "escaped_unit e = map_of [(34, 34), (92, 92), (47, 47), (98, 8), (102, 12), (110, 10), (114, 13), (116, 9)] e"

definition hex_units :: "nat list \<Rightarrow> nat option" where
  "hex_units us = (if list_all (\<lambda>u. u < 128) us then radix_text 16 0 (map char_of us) else None)"

function string_body :: "nat list \<Rightarrow> (nat list \<times> nat list) option" where
  "string_body s =
     (case s of [] \<Rightarrow> None
      | u # r \<Rightarrow>
        if u = 34 then Some ([], r)
        else if u < 32 then None
        else if u \<noteq> 92 then map_option (apfst ((#) u)) (string_body r)
        else case r of [] \<Rightarrow> None
          | e # r' \<Rightarrow>
            if e = 117
            then if length r' < 4 then None
                 else case hex_units (take 4 r') of None \<Rightarrow> None
                   | Some v \<Rightarrow> map_option (apfst ((#) v)) (string_body (drop 4 r'))
            else case escaped_unit e of None \<Rightarrow> None
              | Some v \<Rightarrow> map_option (apfst ((#) v)) (string_body r'))"
  by pat_completeness auto
termination
  by (relation "measure length") auto

declare string_body.simps [simp del]

text \<open>
  A number: the run of characters a number is made of. Nothing but white space, a comma or a closing
  bracket may follow a number, so a run with a tail no number has is refused either way.
\<close>

definition number_unit :: "nat \<Rightarrow> bool" where
  "number_unit u = (48 \<le> u \<and> u \<le> 57 \<or> u = 43 \<or> u = 45 \<or> u = 46 \<or> u = 69 \<or> u = 101)"

definition unsigned_number :: "string \<Rightarrow> rat option" where
  "unsigned_number t =
     (let whole = takeWhile is_digit t; point = dropWhile is_digit t
      in if whole = [] \<or> hd whole = CHR ''0'' \<and> length whole > 1 then None
         else if starts_with point ''.'' \<and> takeWhile is_digit (drop 1 point) = [] then None
         else decimal_text t)"

definition json_number :: "string \<Rightarrow> rat option option" where
  "json_number t =
     map_option (\<lambda>q. if \<bar>q\<bar> < 2 ^ 1024 - 2 ^ 970 then Some (to_double q) else None)
       (if starts_with t ''-'' then map_option uminus (unsigned_number (drop 1 t)) else unsigned_number t)"

definition keyword :: "string \<Rightarrow> json \<Rightarrow> nat list \<Rightarrow> (json \<times> nat list) option" where
  "keyword w v s = (if take (length w) s = map of_char w then Some (v, drop (length w) s) else None)"

definition scalar :: "nat list \<Rightarrow> (json \<times> nat list) option" where
  "scalar s =
     (case s of [] \<Rightarrow> None
      | c # r \<Rightarrow>
        if c = 34 then map_option (apfst J_string) (string_body r)
        else if c = 45 \<or> 48 \<le> c \<and> c \<le> 57
        then map_option (\<lambda>v. (J_number v, dropWhile number_unit s)) (json_number (map char_of (takeWhile number_unit s)))
        else case keyword ''true'' (J_bool True) s of Some p \<Rightarrow> Some p
        | None \<Rightarrow> (case keyword ''false'' (J_bool False) s of Some p \<Rightarrow> Some p
          | None \<Rightarrow> keyword ''null'' J_null s))"

text \<open>A value, the elements of an array and the members of an object up to their closing bracket.\<close>

fun parse_value :: "nat \<Rightarrow> nat list \<Rightarrow> (json \<times> nat list) option"
  and parse_elements :: "nat \<Rightarrow> nat list \<Rightarrow> (json list \<times> nat list) option"
  and parse_members :: "nat \<Rightarrow> nat list \<Rightarrow> ((nat list \<times> json) list \<times> nat list) option" where
  "parse_value 0 s = None"
| "parse_value (Suc n) s =
     (case expect 123 s of
        Some r \<Rightarrow> (case expect 125 r of Some r' \<Rightarrow> Some (J_object [], r')
           | None \<Rightarrow> map_option (apfst J_object) (parse_members n r))
      | None \<Rightarrow>
        (case expect 91 s of
           Some r \<Rightarrow> (case expect 93 r of Some r' \<Rightarrow> Some (J_array [], r')
              | None \<Rightarrow> map_option (apfst J_array) (parse_elements n r))
         | None \<Rightarrow> scalar (skip_space s)))"
| "parse_elements 0 s = None"
| "parse_elements (Suc n) s =
     do { (v, r) \<leftarrow> parse_value n s;
          case expect 44 r of
            Some r' \<Rightarrow> map_option (apfst ((#) v)) (parse_elements n r')
          | None \<Rightarrow> map_option (\<lambda>r'. ([v], r')) (expect 93 r) }"
| "parse_members 0 s = None"
| "parse_members (Suc n) s =
     do { r1 \<leftarrow> expect 34 s;
          (k, r2) \<leftarrow> string_body r1;
          r3 \<leftarrow> expect 58 r2;
          (v, r) \<leftarrow> parse_value n r3;
          case expect 44 r of
            Some r' \<Rightarrow> map_option (apfst ((#) (k, v))) (parse_members n r')
          | None \<Rightarrow> map_option (\<lambda>r'. ([(k, v)], r')) (expect 125 r) }"

text \<open>\<open>JSON.parse(text)\<close>; \<open>None\<close> is the \<open>SyntaxError\<close>.\<close>

definition JSON_parse :: "nat list \<Rightarrow> json option" where
  "JSON_parse s =
     (case parse_value (2 * length s + 2) s of Some (v, r) \<Rightarrow> if skip_space r = [] then Some v else None | None \<Rightarrow> None)"

text \<open>The own property of the object of a text: a name given twice keeps the last value.\<close>

definition json_field :: "json \<Rightarrow> string \<Rightarrow> json option" where
  "json_field v k = (case v of J_object ms \<Rightarrow> map_of (rev ms) (map of_char k) | _ \<Rightarrow> None)"

section \<open>The parser reads on, and the length of the text is enough fuel\<close>

lemma length_skip_space: "length (skip_space s) \<le> length s"
  by (simp add: skip_space_def length_dropWhile_le)

lemma expect_shorter: "expect c s = Some r \<Longrightarrow> length r < length s"
  using length_skip_space [of s] by (auto simp: expect_def split: list.splits if_splits)

lemma string_body_Nil [simp]: "string_body [] = None"
  by (subst string_body.simps) simp

lemma string_body_Cons:
  "string_body (u # r) =
     (if u = 34 then Some ([], r)
      else if u < 32 then None
      else if u \<noteq> 92 then map_option (apfst ((#) u)) (string_body r)
      else case r of [] \<Rightarrow> None
        | e # r' \<Rightarrow>
          if e = 117
          then if length r' < 4 then None
               else case hex_units (take 4 r') of None \<Rightarrow> None
                 | Some v \<Rightarrow> map_option (apfst ((#) v)) (string_body (drop 4 r'))
          else case escaped_unit e of None \<Rightarrow> None
            | Some v \<Rightarrow> map_option (apfst ((#) v)) (string_body r'))"
  by (subst string_body.simps) simp

lemma string_body_step:
  assumes "string_body (u # us) = Some (k, r)"
  obtains "r = us" | k' t where "string_body t = Some (k', r)" "length t \<le> length us"
proof -
  have "r = us \<or> (\<exists>k' t. string_body t = Some (k', r) \<and> length t \<le> length us)"
  proof (cases "u = 92")
    case True
    then obtain e r' t k' where "us = e # r'" "t = r' \<or> t = drop 4 r'" "string_body t = Some (k', r)"
      using assms unfolding string_body_Cons by (auto split: if_splits list.splits option.splits)
    then show ?thesis by (intro disjI2 exI [of _ k'] exI [of _ t]) auto
  qed (use assms in \<open>auto simp: string_body_Cons split: if_splits\<close>)
  then show thesis using that by blast
qed

lemma string_body_shorter: "string_body s = Some (k, r) \<Longrightarrow> length r < length s"
proof (induction s arbitrary: k r rule: length_induct)
  case (1 s)
  then obtain u us where s: "s = u # us" by (cases s) simp_all
  show ?case using "1.prems" unfolding s
  proof (cases rule: string_body_step)
    case (2 k' t)
    then have "length r < length t" using "1.IH" by (simp add: s)
    then show "length r < length (u # us)" using 2(2) by simp
  qed simp
qed

lemma keyword_shorter: "keyword w v s = Some (v', r) \<Longrightarrow> w \<noteq> [] \<Longrightarrow> length r < length s"
  by (cases s) (auto simp: keyword_def split: if_splits)

lemma scalar_shorter:
  assumes "scalar s = Some (v, r)"
  shows "length r < length s"
proof (cases s)
  case (Cons c us)
  have "length (dropWhile number_unit us) \<le> length us" by (rule length_dropWhile_le)
  then show ?thesis using assms Cons string_body_shorter
    by (auto simp: scalar_def number_unit_def split: if_splits option.splits dest!: keyword_shorter intro: less_SucI)
qed (use assms in \<open>simp add: scalar_def\<close>)

lemma parse_shorter:
  "parse_value n s = Some (v, r) \<Longrightarrow> length r < length s"
  "parse_elements n s = Some (vs, r) \<Longrightarrow> length r < length s"
  "parse_members n s = Some (ms, r) \<Longrightarrow> length r < length s"
proof (induction n s and n s and n s arbitrary: v r and vs r and ms r rule: parse_value_parse_elements_parse_members.induct)
  case (2 n s)
  then show ?case using scalar_shorter [of "skip_space s"] length_skip_space [of s]
    by (fastforce split: option.splits dest!: expect_shorter)
next
  case (4 n s)
  then show ?case by (fastforce simp: Option.bind_eq_Some_conv split: option.splits dest: expect_shorter)
next
  case (6 n s)
  then show ?case by (fastforce simp: Option.bind_eq_Some_conv split: option.splits dest: expect_shorter string_body_shorter)
qed simp_all

lemma parse_fuel:
  "(\<forall>s m. 2 * length s < n \<and> n \<le> m \<longrightarrow> parse_value m s = parse_value n s) \<and>
   (\<forall>s m. 2 * length s + 1 < n \<and> n \<le> m \<longrightarrow> parse_elements m s = parse_elements n s) \<and>
   (\<forall>s m. 2 * length s + 1 < n \<and> n \<le> m \<longrightarrow> parse_members m s = parse_members n s)"
proof (induction n)
  case (Suc n)
  have iv: "parse_value m s = parse_value n s" if "2 * length s < n" "n \<le> m" for s m using Suc that by blast
  have ie: "parse_elements m s = parse_elements n s" if "2 * length s + 1 < n" "n \<le> m" for s m using Suc that by blast
  have im: "parse_members m s = parse_members n s" if "2 * length s + 1 < n" "n \<le> m" for s m using Suc that by blast
  have "parse_value m s = parse_value (Suc n) s" if l: "2 * length s < Suc n" "Suc n \<le> m" for s m
  proof -
    obtain m' where m: "m = Suc m'" "n \<le> m'" using l(2) by (cases m) auto
    have "parse_elements m' r = parse_elements n r \<and> parse_members m' r = parse_members n r" if "expect c s = Some r" for c r
      using ie [OF _ m(2)] im [OF _ m(2)] expect_shorter [OF that] l(1) by force
    then show ?thesis unfolding m(1) by (simp split: option.split)
  qed
  moreover have "parse_elements m s = parse_elements (Suc n) s" if l: "2 * length s + 1 < Suc n" "Suc n \<le> m" for s m
  proof -
    obtain m' where m: "m = Suc m'" "n \<le> m'" using l(2) by (cases m) auto
    have "parse_value m' s = parse_value n s" using iv [OF _ m(2)] l(1) by simp
    moreover have "parse_elements m' r' = parse_elements n r'" if "parse_value n s = Some (v, r)" "expect 44 r = Some r'" for v r r'
      using parse_shorter(1) [OF that(1)] expect_shorter [OF that(2)] l(1) by (intro ie m(2)) simp
    ultimately show ?thesis unfolding m(1) by (auto split: option.split bind_splits)
  qed
  moreover have "parse_members m s = parse_members (Suc n) s" if l: "2 * length s + 1 < Suc n" "Suc n \<le> m" for s m
  proof -
    obtain m' where m: "m = Suc m'" "n \<le> m'" using l(2) by (cases m) auto
    have v: "parse_value m' t = parse_value n t" if "length t < length s" for t using l(1) that by (intro iv m(2)) simp
    have "parse_members m' t = parse_members n t" if "length t < length s" for t using l(1) that by (intro im m(2)) simp
    with v show ?thesis unfolding m(1)
      by (auto intro!: Option.bind_cong split: option.split dest!: expect_shorter string_body_shorter parse_shorter(1))
  qed
  ultimately show ?case by blast
qed simp

lemma parse_value_fuel:
  assumes "2 * length s < n"
  shows "parse_value n s = parse_value (2 * length s + 2) s"
proof -
  have least: "parse_value m s = parse_value (2 * length s + 1) s" if "2 * length s + 1 \<le> m" for m
    by (rule conjunct1 [OF parse_fuel, rule_format]) (use that in linarith)
  have "2 * length s + 1 \<le> n" "2 * length s + 1 \<le> 2 * length s + 2" using assms by linarith+
  then show ?thesis using least by metis
qed

section \<open>Texts the printer gives\<close>

text \<open>A whole number and a string without escapes, as \<open>JSON.stringify\<close> prints them, are read back.\<close>

abbreviation code_units_of :: "string \<Rightarrow> nat list" where
  "code_units_of \<equiv> map of_char"

lemma digits_number_units: "list_all is_digit s \<Longrightarrow> list_all number_unit (code_units_of s)"
  by (auto simp: list_all_iff is_digit_def number_unit_def Let_def)

lemma takeWhile_number: "list_all number_unit us \<Longrightarrow> \<not> number_unit c \<Longrightarrow> takeWhile number_unit (us @ c # r) = us"
  "list_all number_unit us \<Longrightarrow> \<not> number_unit c \<Longrightarrow> dropWhile number_unit (us @ c # r) = c # r"
  by (induction us) auto

lemma digits_takeWhile: "list_all is_digit s \<Longrightarrow> takeWhile is_digit s = s" "list_all is_digit s \<Longrightarrow> dropWhile is_digit s = []"
  by (simp_all add: list_all_iff)

lemma decimal_text_digits:
  assumes "list_all is_digit s" "s \<noteq> []"
  shows "decimal_text s = Some (of_nat (text_nat s))"
proof -
  have e: "\<not> (c = CHR ''e'' \<or> c = CHR ''E'')" if "c \<in> set s" for c
    using that assms(1) by (auto simp: list_all_iff is_digit_def)
  then have "takeWhile (\<lambda>c. \<not> (c = CHR ''e'' \<or> c = CHR ''E'')) s = s" "dropWhile (\<lambda>c. \<not> (c = CHR ''e'' \<or> c = CHR ''E'')) s = []"
    by (simp_all only: takeWhile_eq_all_conv dropWhile_eq_Nil_conv) blast+
  then show ?thesis using assms unfolding decimal_text_def Let_def by (simp only: digits_takeWhile) simp
qed

lemma json_number_nat:
  assumes "n < 2 ^ 53"
  shows "json_number (nat_text n) = Some (Some (of_nat n))"
proof -
  have d: "list_all is_digit (nat_text n)" by simp
  have zero: "\<not> (hd (nat_text n) = CHR ''0'' \<and> length (nat_text n) > 1)"
  proof (cases "n = 0")
    case False
    then show ?thesis using hd_nat_text by simp
  qed (simp add: nat_text.simps)
  have "\<not> starts_with (nat_text n) ''-''"
    using d by (cases "nat_text n") (auto simp: starts_with_def is_digit_def Let_def)
  moreover have "unsigned_number (nat_text n) = Some (of_nat n)"
    using zero decimal_text_digits [OF d] by (simp add: unsigned_number_def digits_takeWhile starts_with_def Let_def)
  moreover have "\<bar>of_nat n :: rat\<bar> < 2 ^ 1024 - 2 ^ 970"
  proof -
    have "(of_nat n :: rat) < 2 ^ 53" using assms by (metis of_nat_less_iff of_nat_numeral of_nat_power)
    also have "\<dots> < 2 ^ 1024 - 2 ^ 970" by simp
    finally show ?thesis by simp
  qed
  moreover have "to_double (of_nat n) = of_nat n" using assms to_double_safe [of "int n"] by simp
  ultimately show ?thesis by (simp add: json_number_def)
qed

lemma scalar_nat:
  assumes "n < 2 ^ 53" "\<not> number_unit c"
  shows "scalar (code_units_of (nat_text n) @ c # r) = Some (J_number (Some (of_nat n)), c # r)"
proof -
  have d: "list_all number_unit (code_units_of (nat_text n))" by (rule digits_number_units) simp
  obtain u us where u: "code_units_of (nat_text n) = u # us" by (cases "code_units_of (nat_text n)") auto
  have "48 \<le> u \<and> u \<le> 57"
    using nat_text_digits [of n] u by (cases "nat_text n") (auto simp: is_digit_def Let_def)
  moreover have "map char_of (code_units_of (nat_text n)) = nat_text n" by (simp add: map_idI)
  ultimately show ?thesis
    using json_number_nat [OF assms(1)] takeWhile_number [OF d assms(2), of r] u by (simp add: scalar_def)
qed

lemma string_body_plain:
  "list_all (\<lambda>u. 32 \<le> u \<and> u \<noteq> 34 \<and> u \<noteq> 92) us \<Longrightarrow> string_body (us @ 34 # r) = Some (us, r)"
  by (induction us) (simp_all add: string_body_Cons)

end
