(* ===== verification/Text_Safety.thy ===== *)
theory Text_Safety
  imports Js_Regex Json_Text
begin

text \<open>
  Text of other people on the page and in telemetry: escaping, sanitizing and truncating
  (\<open>frontend/src/lib/security.ts\<close>), and the scrubbing and the event stream of a tracked action
  (\<open>frontend/src/lib/telemetry.ts\<close>). The two global expressions of the telemetry module keep a
  \<open>lastIndex\<close> between calls of \<open>test\<close>, which is part of the state.
\<close>

section \<open>Escaping and sanitizing\<close>

definition escape_char :: "char \<Rightarrow> string" where
  "escape_char c =
     (if c = CHR ''&'' then ''&amp;'' else if c = CHR ''<'' then ''&lt;'' else if c = CHR ''>'' then ''&gt;''
      else if c = CHR 0x22 then ''&quot;'' else if c = CHR 0x27 then ''&#39;'' else [c])"

definition escapeHtml :: "string \<Rightarrow> string" where
  "escapeHtml t = concat (map escape_char t)"

definition active_tag :: rx where
  "active_tag = R_seqs [R_char CHR ''<'', R_opt (R_char CHR ''/''), R_star R_space,
     R_alts (map R_texti [''script'', ''style'', ''iframe'', ''form'', ''object'', ''embed'', ''svg'', ''body''])]"

definition call_of :: "string \<Rightarrow> rx" where
  "call_of f = R_seqs [R_texti f, R_star R_space, R_char CHR ''('']"

definition handler_name :: rx where
  "handler_name = R_seqs [R_texti ''on'', R_plus (R_set rx_word), R_star R_space, R_char CHR ''='']"

definition handler_value :: rx where
  "handler_value = R_seqs [R_star R_space,
     R_alts [R_seqs [R_char CHR 0x22, R_star (R_set (\<lambda>c. c \<noteq> CHR 0x22)), R_char CHR 0x22],
             R_seqs [R_char CHR 0x27, R_star (R_set (\<lambda>c. c \<noteq> CHR 0x27)), R_char CHR 0x27],
             R_star (R_set (\<lambda>c. \<not> is_js_space c \<and> c \<noteq> CHR ''>''))]]"

definition call_rest :: rx where
  "call_rest = R_seqs [R_star (R_set (\<lambda>c. c \<noteq> CHR '')'')), R_char CHR '')'']"

text \<open>The patterns that are removed, and those that are looked for.\<close>

definition removed_patterns :: "rx list" where
  "removed_patterns =
     [R_seq active_tag (R_seqs [R_star (R_set (\<lambda>c. c \<noteq> CHR ''>'')), R_char CHR ''>'']),
      R_seq (R_plus R_space) (R_seq handler_name handler_value),
      R_texti ''javascript:'', R_texti ''vbscript:'', R_texti ''data:text/html'',
      R_seq (call_of ''expression'') call_rest, R_seq (call_of ''eval'') call_rest, R_seq (call_of ''alert'') call_rest]"

definition unsafe_patterns :: "rx list" where
  "unsafe_patterns =
     [active_tag, R_seq R_space handler_name, R_texti ''javascript:'', R_texti ''vbscript:'', R_texti ''data:text/html'',
      call_of ''expression'', call_of ''eval'', call_of ''alert'']"

definition strip_active :: "string \<Rightarrow> string" where
  "strip_active t = foldl (\<lambda>s r. replace_all r [] False s) t removed_patterns"

definition sanitizeText :: "string \<Rightarrow> string" where
  "sanitizeText t = escapeHtml (strip_active t)"

definition isSafeText :: "string \<Rightarrow> bool" where
  "isSafeText t = (\<not> list_ex (\<lambda>r. rx_test r t) unsafe_patterns)"

section \<open>Truncating\<close>

text \<open>\<open>lastIndexOf(" ")\<close>; \<open>None\<close> is -1.\<close>

fun last_space :: "string \<Rightarrow> nat option" where
  "last_space [] = None"
| "last_space (c # s) = (case last_space s of Some i \<Rightarrow> Some (Suc i) | None \<Rightarrow> if c = CHR '' '' then Some 0 else None)"

definition truncateText :: "string \<Rightarrow> nat \<Rightarrow> string \<Rightarrow> string" where
  "truncateText t maxLength suffix =
     (if length t \<le> maxLength then t
      else let truncated = take (maxLength - length suffix) t
        in (case last_space truncated of
              Some i \<Rightarrow> if of_nat i > to_double (of_nat maxLength * to_double (7 / 10)) then take i truncated else truncated
            | None \<Rightarrow> truncated) @ suffix)"

definition formatUserText :: "string \<Rightarrow> nat option \<Rightarrow> string" where
  "formatUserText t maxLength =
     (case maxLength of
        None \<Rightarrow> sanitizeText t
      | Some n \<Rightarrow> if n = 0 then sanitizeText t else truncateText (sanitizeText t) n ''...'')"

section \<open>Telemetry\<close>

definition upper_base32 :: "char \<Rightarrow> bool" where
  "upper_base32 c = (let n = of_char c :: nat in 65 \<le> n \<and> n \<le> 90 \<or> 50 \<le> n \<and> n \<le> 55)"

definition ADDRESS_PATTERN :: rx where
  "ADDRESS_PATTERN = R_seqs [R_boundary, R_set (\<lambda>c. c = CHR ''G'' \<or> c = CHR ''C''), R_times 55 (R_set upper_base32), R_boundary]"

definition alpha_char :: "char \<Rightarrow> bool" where
  "alpha_char c = (let n = of_char c :: nat in 65 \<le> n \<and> n \<le> 90 \<or> 97 \<le> n \<and> n \<le> 122)"

definition alnum_char :: "char \<Rightarrow> bool" where
  "alnum_char c = (let n = of_char c :: nat in alpha_char c \<or> 48 \<le> n \<and> n \<le> 57)"

definition EMAIL_PATTERN :: rx where
  "EMAIL_PATTERN = R_seqs [R_boundary, R_plus (R_set (\<lambda>c. alnum_char c \<or> c \<in> set ''._%+-'')), R_char CHR ''@'',
     R_plus (R_set (\<lambda>c. alnum_char c \<or> c \<in> set ''.-'')), R_char CHR ''.'',
     R_set alpha_char, R_plus (R_set alpha_char), R_boundary]"

definition scrubTelemetryText :: "string \<Rightarrow> string" where
  "scrubTelemetryText t =
     take 300 (replace_all EMAIL_PATTERN ''[EMAIL_REDACTED]'' False (replace_all ADDRESS_PATTERN ''[WALLET_REDACTED]'' False t))"

text \<open>\<open>test\<close> of a global expression: it starts at \<open>lastIndex\<close> and moves it.\<close>

definition test_global :: "rx \<Rightarrow> nat \<Rightarrow> string \<Rightarrow> bool \<times> nat" where
  "test_global r lastIndex s =
     (if lastIndex > length s then (False, 0)
      else case search_from r (flag_after False (take lastIndex s)) (drop lastIndex s) of
        Some (n, m) \<Rightarrow> (True, lastIndex + n + length m)
      | None \<Rightarrow> (False, 0))"

datatype property_value = Prop_string string | Prop_other

record PrivacyAnalyticsEvent =
  pa_eventName :: string
  pa_category :: string
  pa_timestamp_is_number :: bool
  pa_properties :: "property_value list"

text \<open>The state: the \<open>lastIndex\<close> of the two patterns.\<close>

fun check_properties :: "nat \<times> nat \<Rightarrow> property_value list \<Rightarrow> (nat \<times> nat) \<times> bool" where
  "check_properties st [] = (st, True)"
| "check_properties st (Prop_other # vs) = check_properties st vs"
| "check_properties (a, e) (Prop_string v # vs) =
     (case test_global ADDRESS_PATTERN a v of
        (True, a') \<Rightarrow> ((a', e), False)
      | (False, a') \<Rightarrow>
        (case test_global EMAIL_PATTERN e v of
           (True, e') \<Rightarrow> ((a', e'), False)
         | (False, e') \<Rightarrow> check_properties (a', e') vs))"

definition validatePrivacyAnalyticsEvent :: "nat \<times> nat \<Rightarrow> PrivacyAnalyticsEvent \<Rightarrow> (nat \<times> nat) \<times> bool" where
  "validatePrivacyAnalyticsEvent st event =
     (if pa_eventName event = [] \<or> pa_category event = [] \<or> \<not> pa_timestamp_is_number event then (st, False)
      else check_properties st (pa_properties event))"

datatype SplitLifecycleErrorKind = User_rejected | Timeout_kind | Network_kind | Contract_kind | Unknown_kind

definition alternatives :: "string list \<Rightarrow> rx" where
  "alternatives ws = R_alts (map R_texti ws)"

text \<open>An error: its name, which is empty for anything that is no \<open>Error\<close>, and its message.\<close>

definition classifyLifecycleError :: "string \<Rightarrow> string \<Rightarrow> SplitLifecycleErrorKind" where
  "classifyLifecycleError name message =
     (if name = ''TimeoutError''
         \<or> rx_test (R_alt (R_seqs [R_texti ''time'', R_opt (R_chari CHR ''d''), R_opt (R_char CHR '' ''), R_texti ''out'']) (R_texti ''not confirmed in time'')) message
      then Timeout_kind
      else if rx_test (alternatives [''reject'', ''declin'', ''denied'', ''cancel'']) message then User_rejected
      else if rx_test (alternatives [''offline'', ''network'', ''fetch'', ''busy'', ''try again'']) message then Network_kind
      else if rx_test (alternatives [''contract'', ''ledger'', ''hosterror'', ''error(contract'']) message then Contract_kind
      else Unknown_kind)"

datatype SplitLifecycleStage = Started | Submitted | Succeeded | Failed

record SplitLifecycleEvent =
  le_stage :: SplitLifecycleStage
  le_durationMs :: "int option"
  le_txHash :: "string option"
  le_errorKind :: "SplitLifecycleErrorKind option"
  le_errorMessage :: "string option"
  le_timestamp :: int

text \<open>A tracker; its action, project and properties are the same in all its events. The log is what the sinks were given.\<close>

record SplitLifecycleTracker =
  tr_startedAt :: int
  tr_txHash :: "string option"
  tr_finished :: bool
  tr_log :: "SplitLifecycleEvent list"

definition emit :: "SplitLifecycleStage \<Rightarrow> SplitLifecycleErrorKind option \<Rightarrow> string option \<Rightarrow> int \<Rightarrow> SplitLifecycleTracker \<Rightarrow> SplitLifecycleTracker" where
  "emit stage kind message now tr = tr\<lparr>tr_log := tr_log tr @
     [\<lparr>le_stage = stage, le_durationMs = (if stage = Started then None else Some (now - tr_startedAt tr)), le_txHash = tr_txHash tr,
       le_errorKind = kind, le_errorMessage = message, le_timestamp = now\<rparr>]\<rparr>"

definition trackSplitLifecycle :: "int \<Rightarrow> int \<Rightarrow> SplitLifecycleTracker" where
  "trackSplitLifecycle startedAt now =
     emit Started None None now \<lparr>tr_startedAt = startedAt, tr_txHash = None, tr_finished = False, tr_log = []\<rparr>"

datatype tracker_call = Call_submitted string | Call_succeeded | Call_failed string string

fun tracker_step :: "SplitLifecycleTracker \<Rightarrow> int \<times> tracker_call \<Rightarrow> SplitLifecycleTracker" where
  "tracker_step tr (now, Call_submitted hash) =
     (if tr_finished tr then tr else emit Submitted None None now (tr\<lparr>tr_txHash := Some hash\<rparr>))"
| "tracker_step tr (now, Call_succeeded) =
     (if tr_finished tr then tr else emit Succeeded None None now (tr\<lparr>tr_finished := True\<rparr>))"
| "tracker_step tr (now, Call_failed name message) =
     (if tr_finished tr then tr
      else emit Failed (Some (classifyLifecycleError name message)) (Some (scrubTelemetryText message)) now (tr\<lparr>tr_finished := True\<rparr>))"

section \<open>Escaped text\<close>

definition markup_char :: "char \<Rightarrow> bool" where
  "markup_char c = (c = CHR ''<'' \<or> c = CHR ''>'' \<or> c = CHR 0x22 \<or> c = CHR 0x27)"

lemma escape_char_inert: "c \<in> set (escape_char d) \<Longrightarrow> \<not> markup_char c"
  by (auto simp: escape_char_def markup_char_def split: if_splits)

lemma escapeHtml_inert: "c \<in> set (escapeHtml t) \<Longrightarrow> \<not> markup_char c"
  using escape_char_inert by (auto simp: escapeHtml_def)

text \<open>What a browser shows for a text with the five entities.\<close>

function shown_text :: "string \<Rightarrow> string" where
  "shown_text s =
     (case s of [] \<Rightarrow> []
      | c # t \<Rightarrow>
        if starts_with s ''&amp;'' then CHR ''&'' # shown_text (drop 4 t)
        else if starts_with s ''&lt;'' then CHR ''<'' # shown_text (drop 3 t)
        else if starts_with s ''&gt;'' then CHR ''>'' # shown_text (drop 3 t)
        else if starts_with s ''&quot;'' then CHR 0x22 # shown_text (drop 5 t)
        else if starts_with s ''&#39;'' then CHR 0x27 # shown_text (drop 4 t)
        else c # shown_text t)"
  by pat_completeness auto
termination
  by (relation "measure length") auto

declare shown_text.simps [simp del]

lemma shown_escape_char: "shown_text (escape_char c @ s) = c # shown_text s"
  by (subst shown_text.simps) (simp add: escape_char_def starts_with_def numeral_eq_Suc)

lemma shown_escaped: "shown_text (escapeHtml t) = t"
proof (induction t)
  case Nil
  show ?case by (subst shown_text.simps) (simp add: escapeHtml_def)
next
  case (Cons c t)
  then show ?case by (simp add: escapeHtml_def shown_escape_char)
qed

section \<open>Safe text is only escaped\<close>

lemma star_set_match: "m \<in> set (rx_matches (R_star (R_set p)) w s) \<Longrightarrow> list_all p m"
proof (induction s arbitrary: w m)
  case Nil
  then show ?case by (simp add: rx_matches.simps(6))
next
  case (Cons c t)
  then show ?case using rx_matches.simps(6) [of "R_set p" w "c # t"] by (auto split: if_splits)
qed

lemma plus_set_match:
  assumes "m \<in> set (rx_matches (R_plus (R_set p)) w s)"
  shows "m \<noteq> [] \<and> list_all p m"
  using assms star_set_match [of _ p] by (auto simp: R_plus_def split: list.splits if_splits)

lemma search_seq_none: "search_from a w s = None \<Longrightarrow> search_from (R_seq a b) w s = None"
  by (simp add: search_none_iff)

lemma search_shifted_none:
  assumes "search_from (R_seq (R_set p) a) w s = None"
  shows "search_from (R_seq (R_plus (R_set p)) (R_seq a b)) w s = None"
  unfolding search_none_iff
proof (intro allI impI)
  fix pre post assume s: "s = pre @ post"
  show "rx_matches (R_seq (R_plus (R_set p)) (R_seq a b)) (flag_after w pre) post = []"
  proof (rule ccontr)
    assume "\<not> ?thesis"
    then obtain m where m: "m \<in> set (rx_matches (R_plus (R_set p)) (flag_after w pre) post)"
      and a: "rx_matches a (flag_after (flag_after w pre) m) (drop (length m) post) \<noteq> []" by fastforce
    then obtain k c where k: "m = k @ [c]" "p c" using plus_set_match [OF m] by (cases m rule: rev_cases) auto
    have "post = k @ c # drop (length m) post" using rx_match_split [OF m] k(1) by simp
    then have "rx_matches (R_seq (R_set p) a) (flag_after w (pre @ k)) (c # drop (length m) post) = []"
      using assms s unfolding search_none_iff by (metis append.assoc)
    then show False using a k by (simp add: flag_after_append)
  qed
qed

lemma safe_patterns:
  assumes "isSafeText t"
  shows "list_all (\<lambda>r. search_from r False t = None) removed_patterns"
  using assms by (simp add: isSafeText_def unsafe_patterns_def removed_patterns_def rx_test_def search_seq_none search_shifted_none R_space_def
      del: R_texti.simps R_seqs.simps not_None_eq)

lemma strip_none:
  assumes "list_all (\<lambda>r. search_from r False t = None) rs"
  shows "foldl (\<lambda>s r. replace_all r [] False s) t rs = t"
  using assms by (induction rs) (simp_all add: replace_all_none)

lemma truncate_bounded: "length (truncateText t n suffix) \<le> max n (length suffix)"
  by (auto simp: truncateText_def Let_def split: option.split)

section \<open>Addresses in telemetry\<close>

text \<open>A word that is an address.\<close>

definition address_word :: "string \<Rightarrow> bool" where
  "address_word u = (length u = 56 \<and> (hd u = CHR ''G'' \<or> hd u = CHR ''C'') \<and> list_all upper_base32 (tl u))"

lemma base32_word: "upper_base32 c \<Longrightarrow> rx_word c"
  by (auto simp: upper_base32_def rx_word_def Let_def)

lemma times_set_matches:
  "rx_matches (R_times n (R_set p)) w s = (if n \<le> length s \<and> list_all p (take n s) then [take n s] else [])"
proof (induction n arbitrary: w s)
  case (Suc n)
  then show ?case by (cases s) auto
qed simp

lemma take_word_run:
  assumes "list_all rx_word (take n s)" "n \<le> length s" "\<not> starts_word (drop n s)"
  shows "takeWhile rx_word s = take n s"
proof -
  have "takeWhile rx_word (take n s @ drop n s) = take n s @ takeWhile rx_word (drop n s)"
    using assms(1) by (intro takeWhile_append2) (simp add: list_all_iff)
  moreover have "takeWhile rx_word (drop n s) = []" using assms(3) by (cases "drop n s") (simp_all add: starts_word_def)
  ultimately show ?thesis by simp
qed

lemma word_run_end: "\<not> starts_word (drop (length (takeWhile rx_word s)) s)"
proof -
  have "drop (length (takeWhile rx_word s)) s = dropWhile rx_word s" by (metis dropWhile_eq_drop)
  then show ?thesis using hd_dropWhile [of rx_word s] by (cases "dropWhile rx_word s") (simp_all add: starts_word_def)
qed

lemma flag_after_word: "m \<noteq> [] \<Longrightarrow> list_all rx_word m \<Longrightarrow> flag_after w m"
  by (simp add: flag_after_def list_all_iff)

lemma address_matches:
  "rx_matches ADDRESS_PATTERN w s =
     (if \<not> w \<and> address_word (takeWhile rx_word s) then [takeWhile rx_word s] else [])"
proof (cases s)
  case Nil
  then show ?thesis by (simp add: ADDRESS_PATTERN_def address_word_def)
next
  case (Cons c t)
  let ?G = "c = CHR ''G'' \<or> c = CHR ''C''" and ?u = "take 55 t"
  let ?ok = "?G \<and> 55 \<le> length t \<and> list_all upper_base32 ?u"
  have word: "list_all rx_word ?u" if "?ok" using that base32_word by (auto simp: list_all_iff)
  have G: "rx_word c" if "?G" using that by (auto simp: rx_word_def Let_def)
  have m: "rx_matches ADDRESS_PATTERN w s = (if \<not> w \<and> ?ok \<and> \<not> starts_word (drop 55 t) then [c # ?u] else [])"
  proof (cases ?ok)
    case True
    then have "flag_after (rx_word c) ?u" using word by (intro flag_after_word) auto
    then show ?thesis using True G Cons by (auto simp: ADDRESS_PATTERN_def times_set_matches starts_word_def)
  next
    case False
    then show ?thesis using Cons by (auto simp: ADDRESS_PATTERN_def times_set_matches)
  qed
  have "address_word (takeWhile rx_word s) \<longleftrightarrow> ?ok \<and> \<not> starts_word (drop 55 t)"
  proof
    assume a: "address_word (takeWhile rx_word s)"
    then have len: "length (takeWhile rx_word s) = 56" by (simp add: address_word_def)
    then have c: "rx_word c" and len': "length (takeWhile rx_word t) = 55" using Cons by (auto split: if_splits)
    then have u: "takeWhile rx_word t = ?u" by (metis takeWhile_eq_take)
    then show "?ok \<and> \<not> starts_word (drop 55 t)"
      using a c Cons len' word_run_end [of t] by (auto simp: address_word_def)
  next
    assume ok: "?ok \<and> \<not> starts_word (drop 55 t)"
    then have "takeWhile rx_word t = ?u" using take_word_run [of 55 t] word by blast
    then show "address_word (takeWhile rx_word s)" using ok Cons G by (auto simp: address_word_def)
  qed
  moreover have "takeWhile rx_word s = c # ?u" if "?ok \<and> \<not> starts_word (drop 55 t)"
    using that Cons G take_word_run [of 55 t] word by auto
  ultimately show ?thesis unfolding m by auto
qed

text \<open>An expression whose matches begin and end between a word and something else.\<close>

definition bounded_rx :: "rx \<Rightarrow> bool" where
  "bounded_rx r = (\<forall>w s. \<forall>m \<in> set (rx_matches r w s).
     m \<noteq> [] \<and> w \<noteq> starts_word s \<and> flag_after w m \<noteq> starts_word (drop (length m) s))"

lemma bounded_no_match: "bounded_rx r \<Longrightarrow> w = starts_word s \<Longrightarrow> rx_matches r w s = []"
  unfolding bounded_rx_def by (metis list.set_intros(1) neq_Nil_conv)

definition bracketed :: "string \<Rightarrow> bool" where
  "bracketed rep = (rep \<noteq> [] \<and> \<not> rx_word (hd rep) \<and> \<not> rx_word (last rep))"

lemma replace_cons:
  "rx_matches r w (c # t) = [] \<Longrightarrow> replace_all r rep w (c # t) = c # replace_all r rep (rx_word c) t"
  by (subst replace_all.simps) simp

lemma replace_match:
  assumes "rx_matches r w s = m # ms" "m \<noteq> []"
  shows "replace_all r rep w s = rep @ replace_all r rep (flag_after w m) (drop (length m) s)"
proof (cases s)
  case Nil
  then show ?thesis using assms rx_match_prefix [of m r w s] by simp
next
  case (Cons c t)
  then show ?thesis using assms by (cases m; subst replace_all.simps) simp_all
qed

lemma replace_word_run:
  assumes "bounded_rx r" "bracketed rep"
  shows "takeWhile rx_word (replace_all r rep True t) = takeWhile rx_word t"
proof (induction t)
  case Nil
  show ?case
  proof (cases "rx_matches r True []")
    case (Cons m ms)
    then show ?thesis using assms(1) rx_match_prefix [of m r True "[]"] unfolding bounded_rx_def by (metis length_0_conv list.set_intros(1) take_Nil)
  qed (subst replace_all.simps, simp)
next
  case (Cons c t)
  show ?case
  proof (cases "rx_matches r True (c # t)")
    case Nil
    then show ?thesis using Cons by (simp add: replace_cons)
  next
    case m: (Cons m ms)
    then have "m \<noteq> [] \<and> \<not> rx_word c" using assms(1) unfolding bounded_rx_def by (metis list.set_intros(1) starts_word_def list.case(2))
    then show ?thesis using replace_match [OF m] assms(2) by (cases rep) (auto simp: bracketed_def)
  qed
qed

lemma search_cons_none:
  "search_from r w (c # t) = None \<longleftrightarrow> rx_matches r w (c # t) = [] \<and> search_from r (rx_word c) t = None"
  using search_from.simps [of r w "c # t"] by (auto split: list.splits)

lemma search_nil_none: "search_from r w [] = None \<longleftrightarrow> rx_matches r w [] = []"
  by (simp add: search_from.simps split: list.split)

lemma address_no_word: "\<not> starts_word s \<Longrightarrow> rx_matches ADDRESS_PATTERN w s = []"
  by (cases s) (simp_all add: address_matches address_word_def starts_word_def)

lemma search_address_flag:
  assumes "\<not> starts_word s" "search_from ADDRESS_PATTERN w s = None"
  shows "search_from ADDRESS_PATTERN w' s = None"
  using assms address_no_word [OF assms(1)]
  by (cases s) (simp_all add: search_cons_none, simp_all add: search_from.simps)

lemma search_address_append:
  assumes "search_from ADDRESS_PATTERN w rep = None" "rep \<noteq> []" "\<not> rx_word (last rep)"
    "search_from ADDRESS_PATTERN (flag_after w rep) out = None"
  shows "search_from ADDRESS_PATTERN w (rep @ out) = None"
  using assms
proof (induction rep arbitrary: w)
  case (Cons c rep)
  have run: "takeWhile rx_word ((c # rep) @ out) = takeWhile rx_word (c # rep)"
    using Cons.prems(3) by (intro takeWhile_append1 [of "last (c # rep)"]) simp_all
  have "rx_matches ADDRESS_PATTERN w ((c # rep) @ out) = []"
    using Cons.prems(1) unfolding search_cons_none address_matches run by simp
  moreover have "search_from ADDRESS_PATTERN (rx_word c) (rep @ out) = None"
    using Cons by (cases "rep = []") (simp_all add: search_cons_none)
  ultimately show ?case by (simp add: search_cons_none)
qed simp

lemma replaced_no_address:
  assumes "bounded_rx r" "bracketed rep" "search_from ADDRESS_PATTERN True rep = None" "search_from ADDRESS_PATTERN False rep = None"
    and "\<And>pre post. s = pre @ post \<Longrightarrow> rx_matches r (flag_after w pre) post = [] \<Longrightarrow> rx_matches ADDRESS_PATTERN (flag_after w pre) post = []"
  shows "search_from ADDRESS_PATTERN w (replace_all r rep w s) = None"
  using assms(5)
proof (induction "length s" arbitrary: w s rule: less_induct)
  case less
  show ?case
  proof (cases "rx_matches r w s")
    case none: Nil
    show ?thesis
    proof (cases s)
      case Nil
      then show ?thesis using none less.prems [of "[]" "[]"] by (subst replace_all.simps) (simp add: search_from.simps)
    next
      case (Cons c t)
      let ?out = "replace_all r rep (rx_word c) t"
      have "search_from ADDRESS_PATTERN (rx_word c) ?out = None"
      proof (rule less.hyps)
        show "rx_matches ADDRESS_PATTERN (flag_after (rx_word c) pre) post = []"
          if "t = pre @ post" "rx_matches r (flag_after (rx_word c) pre) post = []" for pre post
          using that less.prems [of "c # pre" post] Cons by simp
      qed (simp add: Cons)
      moreover have "takeWhile rx_word (c # ?out) = takeWhile rx_word s" using Cons replace_word_run [OF assms(1,2)] by simp
      then have "rx_matches ADDRESS_PATTERN w (c # ?out) = []" using less.prems [of "[]" s] none by (auto simp: address_matches split: if_splits)
      ultimately show ?thesis using none Cons by (simp add: replace_cons search_cons_none)
    qed
  next
    case m: (Cons m ms)
    let ?w = "flag_after w m" and ?rest = "drop (length m) s"
    let ?out = "replace_all r rep ?w ?rest"
    have b: "m \<noteq> []" "?w \<noteq> starts_word ?rest" using m assms(1) unfolding bounded_rx_def by (metis list.set_intros(1))+
    have s: "s = m @ ?rest" using rx_match_split [of m r w s] m by simp
    have none: "search_from ADDRESS_PATTERN ?w ?out = None"
    proof (rule less.hyps)
      show "length ?rest < length s" using b(1) s by (metis length_append length_greater_0_conv less_add_same_cancel2)
      show "rx_matches ADDRESS_PATTERN (flag_after ?w pre) post = []"
        if "?rest = pre @ post" "rx_matches r (flag_after ?w pre) post = []" for pre post
        using that less.prems [of "m @ pre" post] s by (simp add: flag_after_append)
    qed
    have "search_from ADDRESS_PATTERN (flag_after w rep) ?out = None"
    proof (cases ?w)
      case True
      then have "takeWhile rx_word ?out = []" using b(2) replace_word_run [OF assms(1,2), of ?rest]
        by (cases ?rest) (simp_all add: starts_word_def)
      then have "\<not> starts_word ?out" by (cases ?out) (auto simp: starts_word_def split: if_splits)
      then show ?thesis using none search_address_flag by blast
    next
      case False
      then show ?thesis using none assms(2) by (simp add: bracketed_def flag_after_def)
    qed
    then have "search_from ADDRESS_PATTERN w (rep @ ?out) = None"
      using assms(2-4) by (cases w) (auto simp: bracketed_def intro: search_address_append)
    then show ?thesis using replace_match [OF m b(1)] by simp
  qed
qed

definition ends_bounded :: "rx \<Rightarrow> bool" where
  "ends_bounded r = (\<forall>w s. \<forall>m \<in> set (rx_matches r w s). flag_after w m \<noteq> starts_word (drop (length m) s))"

definition consumes :: "rx \<Rightarrow> bool" where
  "consumes r = (\<forall>w s. [] \<notin> set (rx_matches r w s))"

lemma ends_bounded_boundary: "ends_bounded R_boundary"
  by (auto simp: ends_bounded_def split: if_splits)

lemma ends_bounded_seq:
  assumes "ends_bounded b"
  shows "ends_bounded (R_seq a b)"
  unfolding ends_bounded_def
proof (intro allI ballI)
  fix w s m assume "m \<in> set (rx_matches (R_seq a b) w s)"
  then obtain k n where m: "m = k @ n" and n: "n \<in> set (rx_matches b (flag_after w k) (drop (length k) s))" by auto
  then have "flag_after (flag_after w k) n \<noteq> starts_word (drop (length n) (drop (length k) s))"
    using assms unfolding ends_bounded_def by blast
  then show "flag_after w m \<noteq> starts_word (drop (length m) s)" by (simp add: m flag_after_append add.commute)
qed

lemma consumes_set: "consumes (R_set p)"
  by (auto simp: consumes_def split: list.splits if_splits)

lemma consumes_seq: "consumes a \<Longrightarrow> consumes (R_seq a b)"
  by (auto simp: consumes_def)

lemma bounded_rx_seq:
  assumes "consumes a" "ends_bounded a"
  shows "bounded_rx (R_seq R_boundary a)"
  unfolding bounded_rx_def
proof (intro allI ballI)
  fix w s m assume "m \<in> set (rx_matches (R_seq R_boundary a) w s)"
  then have "w \<noteq> starts_word s" "m \<in> set (rx_matches a w s)" by (auto split: if_splits)
  then show "m \<noteq> [] \<and> w \<noteq> starts_word s \<and> flag_after w m \<noteq> starts_word (drop (length m) s)"
    using assms unfolding consumes_def ends_bounded_def by metis
qed

lemma bounded_patterns: "bounded_rx ADDRESS_PATTERN" "bounded_rx EMAIL_PATTERN"
  unfolding ADDRESS_PATTERN_def EMAIL_PATTERN_def R_plus_def R_seqs.simps
  by (intro bounded_rx_seq consumes_seq consumes_set ends_bounded_seq ends_bounded_boundary)+

lemma markers_bracketed: "bracketed ''[WALLET_REDACTED]''" "bracketed ''[EMAIL_REDACTED]''"
  by (simp_all add: bracketed_def rx_word_def)

lemma markers_no_address:
  "search_from ADDRESS_PATTERN w ''[WALLET_REDACTED]'' = None" "search_from ADDRESS_PATTERN w ''[EMAIL_REDACTED]'' = None"
  by (simp_all add: search_cons_none search_nil_none address_matches address_word_def rx_word_def)

text \<open>The text before it is cut to 300 characters.\<close>

definition scrubbed :: "string \<Rightarrow> string" where
  "scrubbed t = replace_all EMAIL_PATTERN ''[EMAIL_REDACTED]'' False (replace_all ADDRESS_PATTERN ''[WALLET_REDACTED]'' False t)"

lemma scrubbed_no_address: "search_from ADDRESS_PATTERN False (scrubbed t) = None"
proof -
  have "search_from ADDRESS_PATTERN False (replace_all ADDRESS_PATTERN ''[WALLET_REDACTED]'' False t) = None"
    by (intro replaced_no_address bounded_patterns markers_bracketed markers_no_address)
  then show ?thesis unfolding scrubbed_def
    by (intro replaced_no_address bounded_patterns markers_bracketed markers_no_address) (simp add: search_none_iff)
qed

lemma email_needs_at: "m \<in> set (rx_matches EMAIL_PATTERN w s) \<Longrightarrow> CHR ''@'' \<in> set m"
  unfolding EMAIL_PATTERN_def R_plus_def R_seqs.simps R_char_def
  by (auto split: list.splits if_splits)

lemma no_at_no_email:
  assumes "CHR ''@'' \<notin> set s"
  shows "search_from EMAIL_PATTERN w s = None"
  unfolding search_none_iff
proof (intro allI impI)
  fix pre post assume "s = pre @ post"
  then have "CHR ''@'' \<notin> set post" using assms by simp
  then have "m \<notin> set (rx_matches EMAIL_PATTERN (flag_after w pre) post)" for m
    using email_needs_at rx_match_split by (metis Un_iff set_append)
  then show "rx_matches EMAIL_PATTERN (flag_after w pre) post = []" by (metis list.set_intros(1) neq_Nil_conv)
qed

lemma address_word_found:
  assumes "address_word u"
  shows "test_global ADDRESS_PATTERN 0 u = (True, 56)" "test_global ADDRESS_PATTERN 56 u = (False, 0)" "test_global EMAIL_PATTERN 0 u = (False, 0)"
proof -
  have all: "list_all rx_word u" using assms base32_word
    by (cases u) (auto simp: address_word_def list_all_iff rx_word_def Let_def)
  then have run: "takeWhile rx_word u = u" by (simp add: list_all_iff takeWhile_eq_all_conv)
  have "rx_matches ADDRESS_PATTERN False u = [u]" unfolding address_matches run using assms by simp
  then show "test_global ADDRESS_PATTERN 0 u = (True, 56)"
    using assms by (simp add: test_global_def search_from.simps [of _ _ u] address_word_def)
  show "test_global ADDRESS_PATTERN 56 u = (False, 0)"
    using assms by (simp add: test_global_def address_word_def search_from.simps [of _ _ "[]"] address_matches)
  have "CHR ''@'' \<notin> set u" using all by (auto simp: list_all_iff rx_word_def)
  then show "test_global EMAIL_PATTERN 0 u = (False, 0)" using no_at_no_email by (simp add: test_global_def)
qed

section \<open>Tracked actions\<close>

definition stage_log :: "SplitLifecycleTracker \<Rightarrow> bool" where
  "stage_log tr = (\<exists>n end_stage. map le_stage (tr_log tr) = Started # replicate n Submitted @ (if tr_finished tr then [end_stage] else [])
     \<and> end_stage \<in> {Succeeded, Failed})"

lemma stage_log_step:
  assumes "stage_log tr"
  shows "stage_log (tracker_step tr e)"
proof (cases "tr_finished tr")
  case True
  then have "tracker_step tr e = tr" by (cases e; cases "snd e") auto
  then show ?thesis using assms by simp
next
  case False
  then obtain n where n: "map le_stage (tr_log tr) = Started # replicate n Submitted" using assms by (auto simp: stage_log_def)
  obtain now call where e: "e = (now, call)" by (cases e)
  have submitted: "Started # replicate n Submitted @ [Submitted] = Started # replicate (Suc n) Submitted" by (simp add: replicate_append_same)
  show ?thesis
  proof (cases call)
    case (Call_submitted h)
    then show ?thesis using False n e submitted by (auto simp: stage_log_def emit_def intro!: exI [of _ "Suc n"])
  next
    case Call_succeeded
    then show ?thesis using False n e by (auto simp: stage_log_def emit_def intro!: exI [of _ n] exI [of _ Succeeded])
  next
    case (Call_failed a b)
    then show ?thesis using False n e by (auto simp: stage_log_def emit_def intro!: exI [of _ n] exI [of _ Failed])
  qed
qed

lemma stage_log_run: "stage_log (foldl tracker_step (trackSplitLifecycle startedAt now) es)"
proof (induction es rule: rev_induct)
  case Nil
  show ?case by (auto simp: stage_log_def trackSplitLifecycle_def emit_def intro!: exI [of _ "0 :: nat"])
next
  case (snoc e es)
  then show ?case by (simp add: stage_log_step)
qed

section \<open>Properties\<close>

text \<open>
  Text of other people cannot become markup: a sanitized text has no angle bracket and no quote, a
  browser shows exactly what was left of it, which has only characters of the original, and a text the
  checker calls safe is shown unchanged.
\<close>

theorem sanitized_text_inert:
  "(\<forall>c \<in> set (sanitizeText t). \<not> markup_char c) \<and> shown_text (sanitizeText t) = strip_active t
   \<and> set (strip_active t) \<subseteq> set t \<and> (isSafeText t \<longrightarrow> shown_text (sanitizeText t) = t)"
proof -
  have "set (foldl (\<lambda>s r. replace_all r [] False s) t rs) \<subseteq> set t" for rs
    using replace_all_chars [of _ "[]"] by (induction rs rule: rev_induct) fastforce+
  then show ?thesis
    using escapeHtml_inert strip_none [OF safe_patterns] by (auto simp: sanitizeText_def shown_escaped strip_active_def)
qed

theorem sanitized_text_inert_witness: "isSafeText ''<'' \<and> shown_text (sanitizeText ''<'') = ''<''"
proof -
  have "isSafeText ''<''" by code_simp
  then show ?thesis using sanitized_text_inert [of "''<''"] by blast
qed

text \<open>
  No wallet address is left in a message that goes to telemetry, whatever stands around it and
  whatever the other pattern removed; the message is then cut to 300 characters.
\<close>

theorem addresses_scrubbed:
  "\<not> rx_test ADDRESS_PATTERN (scrubbed t) \<and> scrubTelemetryText t = take 300 (scrubbed t)"
  using scrubbed_no_address [of t] by (simp add: rx_test_def scrubTelemetryText_def flip: scrubbed_def)

text \<open>
  Whatever the calls on a tracker, its events are one start, then submissions, then at most one end, and
  nothing after it.
\<close>

theorem tracker_one_end:
  "\<exists>n ends. map le_stage (tr_log (foldl tracker_step (trackSplitLifecycle startedAt now) es)) = Started # replicate n Submitted @ ends
     \<and> ends \<in> {[], [Succeeded], [Failed]}"
  using stage_log_run [of startedAt now es] unfolding stage_log_def by (elim exE conjE) (auto split: if_splits)

text \<open>
  The check for personal data in an event uses global expressions, which remember where the last
  match ended: an event with a wallet address is refused the first time and let through the second time.
\<close>

theorem address_accepted_second_time:
  assumes "address_word u" "validatePrivacyAnalyticsEvent (0, 0) (\<lparr>pa_eventName = ''e'', pa_category = ''navigation'', pa_timestamp_is_number = True, pa_properties = [Prop_string u]\<rparr>) = (st, ok)"
  shows "\<not> ok" "snd (validatePrivacyAnalyticsEvent st \<lparr>pa_eventName = ''e'', pa_category = ''navigation'', pa_timestamp_is_number = True, pa_properties = [Prop_string u]\<rparr>)"
  using assms(2) by (auto simp: validatePrivacyAnalyticsEvent_def address_word_found [OF assms(1)])

text \<open>Removing a pattern once can build it, and a cut can leave half an entity.\<close>

theorem removal_builds_call: "sanitizeText ''eveval()al()'' = ''eval()'' \<and> \<not> isSafeText ''eval()''"
  by code_simp

theorem entity_cut: "shown_text (formatUserText ''a&b'' (Some 6)) = ''a&a...''"
  by code_simp

end
