(* ===== verification/Js_Map.thy ===== *)
theory Js_Map
  imports Prelude
begin

text \<open>
  The insertion-ordered \<open>Map\<close> of the language as an association list with distinct keys:
  \<open>set\<close> on a present key keeps its position, \<open>set\<close> on a new key appends, \<open>delete\<close> removes.
  The interface its clients rely on is the locale \<open>key_store\<close>; it is interpreted on these
  definitions, and the laws of a bounded store (\<open>bounded_store\<close>) are derived from it.
\<close>

section \<open>The map\<close>

type_synonym ('k, 'v) jmap = "('k \<times> 'v) list"

definition jm_get :: "('k, 'v) jmap \<Rightarrow> 'k \<Rightarrow> 'v option" where
  "jm_get m k = map_of m k"

fun jm_set :: "('k, 'v) jmap \<Rightarrow> 'k \<Rightarrow> 'v \<Rightarrow> ('k, 'v) jmap" where
  "jm_set [] k v = [(k, v)]"
| "jm_set ((k', v') # m) k v = (if k' = k then (k, v) # m else (k', v') # jm_set m k v)"

definition jm_delete :: "('k, 'v) jmap \<Rightarrow> 'k \<Rightarrow> ('k, 'v) jmap" where
  "jm_delete m k = filter (\<lambda>(k', _). k' \<noteq> k) m"

definition jm_has :: "('k, 'v) jmap \<Rightarrow> 'k \<Rightarrow> bool" where
  "jm_has m k = (k \<in> set (map fst m))"

definition jm_keys :: "('k, 'v) jmap \<Rightarrow> 'k list" where
  "jm_keys m = map fst m"

definition jm_values :: "('k, 'v) jmap \<Rightarrow> 'v list" where
  "jm_values m = map snd m"

definition jm_ok :: "('k, 'v) jmap \<Rightarrow> bool" where
  "jm_ok m = distinct (map fst m)"

section \<open>Laws\<close>

lemma jm_get_Nil [simp]: "jm_get [] k = None"
  by (simp add: jm_get_def)

lemma jm_get_Cons: "jm_get ((k', v) # m) k = (if k = k' then Some v else jm_get m k)"
  by (simp add: jm_get_def)

lemma jm_get_set [simp, js_map]: "jm_get (jm_set m k v) k' = (if k' = k then Some v else jm_get m k')"
  by (induction m k v rule: jm_set.induct) (auto simp: jm_get_def)

lemma jm_get_delete [simp, js_map]:
  "jm_get (jm_delete m k) k' = (if k' = k then None else jm_get m k')"
  by (induction m) (auto simp: jm_delete_def jm_get_def)

lemma keys_jm_set:
  "map fst (jm_set m k v) = (if k \<in> set (map fst m) then map fst m else map fst m @ [k])"
  by (induction m k v rule: jm_set.induct) auto

lemma jm_ok_Nil [simp]: "jm_ok []"
  by (simp add: jm_ok_def)

lemma jm_ok_set [simp, js_map]: "jm_ok (jm_set m k v) = jm_ok m"
  by (simp add: jm_ok_def keys_jm_set)

lemma distinct_map_fst_filter: "distinct (map fst m) \<Longrightarrow> distinct (map fst (filter P m))"
  by (induction m) auto

lemma jm_ok_delete [simp, js_map]: "jm_ok m \<Longrightarrow> jm_ok (jm_delete m k)"
  by (simp add: jm_ok_def jm_delete_def distinct_map_fst_filter)

lemma jm_ok_filter [simp]: "jm_ok m \<Longrightarrow> jm_ok (filter P m)"
  by (simp add: jm_ok_def distinct_map_fst_filter)

lemma jm_has_get: "jm_has m k \<longleftrightarrow> jm_get m k \<noteq> None"
  by (simp add: jm_has_def jm_get_def map_of_eq_None_iff)

lemma jm_get_mem: "jm_get m k = Some v \<Longrightarrow> (k, v) \<in> set m"
  by (simp add: jm_get_def map_of_SomeD)

lemma jm_mem_get: "jm_ok m \<Longrightarrow> (k, v) \<in> set m \<Longrightarrow> jm_get m k = Some v"
  by (simp add: jm_ok_def jm_get_def)

lemma jm_set_new: "k \<notin> fst ` set m \<Longrightarrow> jm_set m k v = m @ [(k, v)]"
  by (induction m) auto

lemma length_jm_set:
  "length (jm_set m k v) = (if jm_has m k then length m else Suc (length m))"
  by (induction m k v rule: jm_set.induct) (auto simp: jm_has_def)

lemma length_jm_delete: "length (jm_delete m k) \<le> length m"
  by (simp add: jm_delete_def)

lemma set_jm_set:
  "jm_ok m \<Longrightarrow> set (jm_set m k v) = insert (k, v) {x \<in> set m. fst x \<noteq> k}"
  by (induction m k v rule: jm_set.induct) (force simp: jm_ok_def)+

lemma set_jm_delete: "set (jm_delete m k) = {x \<in> set m. fst x \<noteq> k}"
  by (auto simp: jm_delete_def)

lemma jm_get_filter:
  "jm_ok m \<Longrightarrow> jm_get (filter P m) k =
     (case jm_get m k of None \<Rightarrow> None | Some v \<Rightarrow> if P (k, v) then Some v else None)"
proof (induction m)
  case (Cons kv m)
  obtain k' v where kv: "kv = (k', v)" by (cases kv)
  from Cons.prems kv have "jm_get m k' = None" "jm_ok m"
    by (auto simp: jm_ok_def jm_get_def map_of_eq_None_iff)
  with Cons.IH kv show ?case by (auto simp: jm_get_Cons split: option.splits)
qed simp

lemma jm_values_set_sum:
  "sum_list (map f (jm_values (jm_set m k v))) =
     sum_list (map f (jm_values m)) - (case jm_get m k of None \<Rightarrow> 0 | Some w \<Rightarrow> f w) + (f v :: int)"
  by (induction m k v rule: jm_set.induct) (auto simp: jm_values_def jm_get_Cons)

text \<open>
  The grouping idiom \<open>list = m.get(k) ?? []; list.push(x); m.set(k, list)\<close> over a sequence.
\<close>

definition group_step :: "('a \<Rightarrow> 'k) \<Rightarrow> ('k, 'a list) jmap \<Rightarrow> 'a \<Rightarrow> ('k, 'a list) jmap" where
  "group_step key m x = jm_set m (key x) (default_to [] (jm_get m (key x)) @ [x])"

definition group_by :: "('a \<Rightarrow> 'k) \<Rightarrow> 'a list \<Rightarrow> ('k, 'a list) jmap" where
  "group_by key xs = foldl (group_step key) [] xs"

lemma group_by_snoc: "group_by key (xs @ [x]) = group_step key (group_by key xs) x"
  by (simp add: group_by_def)

lemma jm_get_group_by:
  "jm_get (group_by key xs) k =
     (if filter (\<lambda>x. key x = k) xs = [] then None else Some (filter (\<lambda>x. key x = k) xs))"
proof (induction xs rule: rev_induct)
  case (snoc x xs)
  then show ?case by (auto simp: group_by_snoc group_step_def)
qed (simp add: group_by_def)

lemma jm_ok_group_by [simp]: "jm_ok (group_by key xs)"
  by (induction xs rule: rev_induct) (simp_all add: group_by_snoc group_step_def, simp add: group_by_def)

lemma group_by_mem:
  "(k, ys) \<in> set (group_by key xs) \<longleftrightarrow> ys = filter (\<lambda>x. key x = k) xs \<and> ys \<noteq> []"
proof -
  have "(k, ys) \<in> set (group_by key xs) \<longleftrightarrow> jm_get (group_by key xs) k = Some ys"
    using jm_get_mem jm_mem_get [OF jm_ok_group_by] by metis
  then show ?thesis by (auto simp: jm_get_group_by)
qed

lemma group_by_distinct:
  "distinct (map key xs) \<Longrightarrow> group_by key xs = map (\<lambda>x. (key x, [x])) xs"
proof (induction xs rule: rev_induct)
  case (snoc x xs)
  then have IH: "group_by key xs = map (\<lambda>x. (key x, [x])) xs" and new: "key x \<notin> key ` set xs" by auto
  from new have none: "jm_get (map (\<lambda>x. (key x, [x])) xs) (key x) = None"
    by (auto simp: jm_get_def map_of_eq_None_iff)
  from new show ?case
    by (simp add: group_by_snoc group_step_def IH none) (rule jm_set_new, auto)
qed (simp add: group_by_def)

lemma groups_single_iff: "(\<forall>(k, ys) \<in> set (group_by key xs). length ys \<le> 1) \<longleftrightarrow> distinct (map key xs)"
proof
  assume "distinct (map key xs)"
  then show "\<forall>(k, ys) \<in> set (group_by key xs). length ys \<le> 1" by (auto simp: group_by_distinct)
next
  assume *: "\<forall>(k, ys) \<in> set (group_by key xs). length ys \<le> 1"
  have le: "length (filter (\<lambda>x. key x = k) xs) \<le> 1" for k
    using * group_by_mem [of k "filter (\<lambda>x. key x = k) xs" key xs]
    by (cases "filter (\<lambda>x. key x = k) xs = []") auto
  have "(\<forall>k. length (filter (\<lambda>x. key x = k) xs) \<le> 1) \<Longrightarrow> distinct (map key xs)"
  proof (induction xs)
    case (Cons x xs)
    have nil: "filter (\<lambda>y. key y = key x) xs = []" using spec [OF Cons.prems, of "key x"] by simp
    have "\<forall>k. length (filter (\<lambda>x. key x = k) xs) \<le> 1"
    proof
      fix k show "length (filter (\<lambda>x. key x = k) xs) \<le> 1"
        using spec [OF Cons.prems, of k] by (auto split: if_splits)
    qed
    with Cons.IH nil show ?case by (auto simp: filter_empty_conv)
  qed simp
  with le show "distinct (map key xs)" by blast
qed

section \<open>The interface\<close>

text \<open>
  What a service relies on from a keyed store: reading after a write or a removal, and that every
  operation keeps the store well formed.
\<close>

locale key_store =
  fixes empty :: "'m"
    and get :: "'m \<Rightarrow> 'k \<Rightarrow> 'v option"
    and put :: "'m \<Rightarrow> 'k \<Rightarrow> 'v \<Rightarrow> 'm"
    and del :: "'m \<Rightarrow> 'k \<Rightarrow> 'm"
    and invar :: "'m \<Rightarrow> bool"
  assumes get_empty: "get empty k = None"
    and get_put: "invar m \<Longrightarrow> get (put m k v) k' = (if k' = k then Some v else get m k')"
    and get_del: "invar m \<Longrightarrow> get (del m k) k' = (if k' = k then None else get m k')"
    and invar_empty: "invar empty"
    and invar_put: "invar m \<Longrightarrow> invar (put m k v)"
    and invar_del: "invar m \<Longrightarrow> invar (del m k)"
begin

lemma put_put_same: "invar m \<Longrightarrow> get (put (put m k v) k w) k' = get (put m k w) k'"
  by (simp add: get_put invar_put)

lemma put_commute: "\<lbrakk>invar m; k \<noteq> l\<rbrakk> \<Longrightarrow> get (put (put m k v) l w) k' = get (put (put m l w) k v) k'"
  by (auto simp: get_put invar_put)

lemma del_put_restores: "\<lbrakk>invar m; get m k = None\<rbrakk> \<Longrightarrow> get (del (put m k v) k) k' = get m k'"
  by (auto simp: get_put get_del invar_put)

end

text \<open>A keyed store that can count and enumerate its keys.\<close>

locale sized_store = key_store empty get put del invar
  for empty :: "'m" and get :: "'m \<Rightarrow> 'k \<Rightarrow> 'v option" and put del invar +
  fixes keys :: "'m \<Rightarrow> 'k list"
  assumes keys_get: "invar m \<Longrightarrow> k \<in> set (keys m) \<longleftrightarrow> get m k \<noteq> None"
    and keys_distinct: "invar m \<Longrightarrow> distinct (keys m)"
begin

lemma size_put_le: "invar m \<Longrightarrow> length (keys (put m k v)) \<le> Suc (length (keys m))"
proof -
  assume m: "invar m"
  then have "set (keys (put m k v)) = insert k (set (keys m))"
    by (auto simp: keys_get get_put invar_put split: if_splits)
  then have "card (set (keys (put m k v))) \<le> Suc (card (set (keys m)))"
    by (simp add: card_insert_if)
  with m show ?thesis by (simp add: distinct_card keys_distinct invar_put)
qed

lemma size_put_present:
  assumes "invar m" "get m k \<noteq> None"
  shows "length (keys (put m k v)) = length (keys m)"
proof -
  from assms have "set (keys (put m k v)) = set (keys m)"
    by (auto simp: keys_get get_put invar_put split: if_splits)
  with assms show ?thesis by (metis distinct_card keys_distinct invar_put)
qed

lemma size_del_present:
  assumes "invar m" "get m k \<noteq> None"
  shows "Suc (length (keys (del m k))) = length (keys m)"
proof -
  from assms have "set (keys (del m k)) = set (keys m) - {k}" "k \<in> set (keys m)"
    by (auto simp: keys_get get_del invar_del split: if_splits)
  then have "Suc (card (set (keys (del m k)))) = card (set (keys m))"
    by (metis List.finite_set card_Suc_Diff1)
  with assms show ?thesis by (simp add: distinct_card keys_distinct invar_del)
qed

end

interpretation jm: key_store "[]" jm_get jm_set jm_delete jm_ok
  by unfold_locales simp_all

interpretation jms: sized_store "[]" jm_get jm_set jm_delete jm_ok jm_keys
  by unfold_locales (simp_all only: jm_keys_def jm_ok_def jm_has_get [symmetric] jm_has_def)

end
