(* ===== verification/Log_Scrubbing.thy ===== *)
theory Log_Scrubbing
  imports Js_Text Js_Map
begin

text \<open>
  The log entries of the backend (\<open>backend/src/services/logger.ts\<close>): the request id is added and
  values under secret names are replaced before an entry is printed. An entry is the list of its
  own enumerable members in order; the names are ASCII, texts and other scalars are \<open>L_scalar\<close>. An object
  that is not a plain record, such as a date, an error or a URL, is \<open>L_instance\<close> with the text it would
  print as and its own enumerable members, of which these three have none. Cyclic values are left out.
\<close>

section \<open>Scrubbing\<close>

datatype log_value = L_scalar string | L_null | L_array "log_value list" | L_object "(string \<times> log_value) list"
  | L_instance string "(string \<times> log_value) list"

definition SCRUB_KEYS :: "string list" where
  "SCRUB_KEYS =
     [''password'', ''passwd'', ''secret'', ''secretkey'', ''token'', ''accesstoken'', ''refreshtoken'', ''jwt'', ''authorization'',
      ''cookie'', ''session'', ''sessionid'', ''apikey'', ''private_key'', ''privatekey'', ''mnemonic'', ''seed'', ''cardnumber'', ''cvv'',
      ''cvc'', ''securitycode'', ''accountnumber'', ''routingnumber'', ''bankaccountnumber'', ''iban'', ''paymenttoken'',
      ''database_url'', ''databaseurl'', ''sentry_dsn'', ''sentrydsn'', ''walletaddress'']"

definition plain_char :: "char \<Rightarrow> bool" where
  "plain_char c = (let n = of_char c :: nat in 97 \<le> n \<and> n \<le> 122 \<or> 48 \<le> n \<and> n \<le> 57)"

definition normalizeKey :: "string \<Rightarrow> string" where
  "normalizeKey key = filter plain_char (to_lower key)"

definition secret_key :: "string \<Rightarrow> bool" where
  "secret_key k = (normalizeKey k \<in> set SCRUB_KEYS)"

definition REDACTED :: log_value where "REDACTED = L_scalar ''[REDACTED]''"

text \<open>The members of a record have distinct names, so writing them to a new record keeps their order.\<close>

fun scrubValue :: "log_value \<Rightarrow> log_value" where
  "scrubValue (L_array vs) = L_array (map scrubValue vs)"
| "scrubValue (L_object ms) = L_object (map (\<lambda>(k, v). (k, if secret_key k then REDACTED else scrubValue v)) ms)"
| "scrubValue (L_instance printed ms) = L_object (map (\<lambda>(k, v). (k, if secret_key k then REDACTED else scrubValue v)) ms)"
| "scrubValue v = v"

definition scrubSecrets :: "(string \<times> log_value) list \<Rightarrow> (string \<times> log_value) list" where
  "scrubSecrets obj = map (\<lambda>(k, v). (k, if secret_key k then REDACTED else scrubValue v)) obj"

definition reserved :: "string list" where
  "reserved = [''level'', ''message'', ''timestamp'', ''splat'']"

definition scrubFormat :: "(string \<times> log_value) list \<Rightarrow> (string \<times> log_value) list" where
  "scrubFormat info =
     map (\<lambda>(k, v). (k, if k \<notin> set reserved \<and> secret_key k then REDACTED else if k \<notin> set reserved then scrubValue v else v)) info"

text \<open>The id of the request in whose context the entry is written, if any.\<close>

definition enrichLogEntry :: "string option \<Rightarrow> (string \<times> log_value) list \<Rightarrow> (string \<times> log_value) list" where
  "enrichLogEntry requestId info =
     (case requestId of
        Some i \<Rightarrow> if i \<noteq> [] \<and> \<not> jm_has info ''requestId'' then jm_set info ''requestId'' (L_scalar i) else info
      | None \<Rightarrow> info)"

text \<open>\<open>winston.format.combine\<close>: the time, the request id, then the scrubbing.\<close>

definition log_entry :: "string \<Rightarrow> string option \<Rightarrow> (string \<times> log_value) list \<Rightarrow> (string \<times> log_value) list" where
  "log_entry timestamp requestId info = scrubFormat (enrichLogEntry requestId (jm_set info ''timestamp'' (L_scalar timestamp)))"

section \<open>What an entry tells\<close>

text \<open>Two values that differ at most under secret names, at any depth, and in what instances would print as.\<close>

inductive alike :: "log_value \<Rightarrow> log_value \<Rightarrow> bool" where
  alike_same: "alike v v"
| alike_array: "list_all2 alike vs vs' \<Longrightarrow> alike (L_array vs) (L_array vs')"
| alike_object: "list_all2 (\<lambda>m m'. fst m = fst m' \<and> (secret_key (fst m) \<or> alike (snd m) (snd m'))) ms ms'
    \<Longrightarrow> alike (L_object ms) (L_object ms')"
| alike_instance: "list_all2 (\<lambda>m m'. fst m = fst m' \<and> (secret_key (fst m) \<or> alike (snd m) (snd m'))) ms ms'
    \<Longrightarrow> alike (L_instance p ms) (L_instance p' ms')"

text \<open>Two entries alike: the reserved members, which are never scrubbed, are equal.\<close>

definition alike_member :: "string \<times> log_value \<Rightarrow> string \<times> log_value \<Rightarrow> bool" where
  "alike_member m m' = (fst m = fst m'
     \<and> (if fst m \<in> set reserved then snd m = snd m' else secret_key (fst m) \<or> alike (snd m) (snd m')))"

definition alike_entries :: "(string \<times> log_value) list \<Rightarrow> (string \<times> log_value) list \<Rightarrow> bool" where
  "alike_entries = list_all2 alike_member"

lemma map_all2: "list_all2 P xs ys \<Longrightarrow> (\<And>x y. P x y \<Longrightarrow> f x = g y) \<Longrightarrow> map f xs = map g ys"
  by (induction rule: list_all2_induct) simp_all

lemma alike_scrub: "alike v v' \<Longrightarrow> scrubValue v = scrubValue v'"
proof (induction rule: alike.induct)
  case (alike_array vs vs')
  then show ?case by (auto intro: map_all2)
next
  case (alike_object ms ms')
  then show ?case by (auto simp: split_beta intro: map_all2)
next
  case (alike_instance ms ms' p p')
  then show ?case by (auto simp: split_beta intro: map_all2)
qed simp

text \<open>All values under secret names are the marker, at any depth, and no instance is left.\<close>

fun redacted :: "log_value \<Rightarrow> bool" where
  "redacted (L_array vs) = list_all redacted vs"
| "redacted (L_object ms) = list_all (\<lambda>m. if secret_key (fst m) then snd m = REDACTED else redacted (snd m)) ms"
| "redacted (L_instance p ms) = False"
| "redacted v = True"

lemma scrub_redacted: "redacted (scrubValue v)"
  by (induction v) (auto simp: list_all_iff split_beta REDACTED_def)

lemma redacted_kept: "redacted v \<Longrightarrow> scrubValue v = v"
proof (induction v)
  case (L_array vs)
  then show ?case by (simp add: list_all_iff map_idI)
next
  case (L_object ms)
  then show ?case by (auto simp: list_all_iff intro!: map_idI split: if_splits)
qed simp_all

lemma alike_member_same: "alike_member m m"
  by (simp add: alike_member_def alike_same)

lemma alike_entries_set:
  assumes "alike_entries info info'"
  shows "alike_entries (jm_set info k v) (jm_set info' k v)"
  using assms unfolding alike_entries_def
proof (induction rule: list_all2_induct)
  case (Cons m ms m' ms')
  have "fst m = fst m'" using Cons(1) by (simp add: alike_member_def)
  then show ?case using Cons by (cases m; cases m') (auto simp: alike_member_same)
qed (simp add: alike_member_same)

lemma alike_entries_keys: "alike_entries info info' \<Longrightarrow> map fst info = map fst info'"
  unfolding alike_entries_def by (auto simp: alike_member_def intro: map_all2)

lemma alike_entries_enriched:
  assumes "alike_entries info info'"
  shows "alike_entries (enrichLogEntry i info) (enrichLogEntry i info')"
proof -
  have "jm_has info k = jm_has info' k" for k
    using alike_entries_keys [OF assms] by (simp add: jm_has_def image_set [symmetric])
  then show ?thesis using assms alike_entries_set by (simp add: enrichLogEntry_def split: option.split)
qed

section \<open>Properties\<close>

text \<open>
  (C20) A log entry tells nothing about secrets: entries that differ only in values under secret names, at
  any depth, are printed alike; in what is printed every such value is the marker; and an entry without
  such values and without instances of classes is printed with nothing changed.
\<close>

theorem secrets_not_logged:
  "(alike_entries info info' \<longrightarrow> log_entry time rid info = log_entry time rid info')
   \<and> (\<forall>(k, v) \<in> set (log_entry time rid info). k \<in> set reserved \<or> (if secret_key k then v = REDACTED else redacted v))
   \<and> (list_all (\<lambda>(k, v). \<not> secret_key k \<and> redacted v) info \<longrightarrow> scrubFormat info = info)"
proof -
  have "log_entry time rid info = log_entry time rid info'" if "alike_entries info info'"
  proof -
    have "alike_entries (enrichLogEntry rid (jm_set info ''timestamp'' (L_scalar time))) (enrichLogEntry rid (jm_set info' ''timestamp'' (L_scalar time)))"
      using that by (intro alike_entries_enriched alike_entries_set)
    then show ?thesis unfolding log_entry_def scrubFormat_def alike_entries_def
      by (rule map_all2) (auto simp: alike_member_def split_beta alike_scrub split: if_splits)
  qed
  moreover have "\<forall>(k, v) \<in> set (log_entry time rid info). k \<in> set reserved \<or> (if secret_key k then v = REDACTED else redacted v)"
    by (auto simp: log_entry_def scrubFormat_def scrub_redacted split: if_splits)
  moreover have "scrubFormat info = info" if "list_all (\<lambda>(k, v). \<not> secret_key k \<and> redacted v) info"
    using that unfolding scrubFormat_def by (intro map_idI) (auto simp: list_all_iff redacted_kept)
  ultimately show ?thesis by blast
qed

definition sample_entry :: "string \<Rightarrow> (string \<times> log_value) list" where
  "sample_entry s = [(''message'', L_scalar ''login''), (''user'', L_object [(''id'', L_scalar ''7''), (''Access-Token'', L_scalar s)])]"

theorem secrets_not_logged_witness: "log_entry ''now'' None (sample_entry ''a'') = log_entry ''now'' None (sample_entry ''b'')"
proof -
  have "secret_key ''Access-Token''" by code_simp
  then have "alike_entries (sample_entry ''a'') (sample_entry ''b'')"
    unfolding alike_entries_def sample_entry_def by (auto simp: alike_member_def reserved_def intro!: alike.intros)
  then show ?thesis using secrets_not_logged by blast
qed

text \<open>
  An error or a date under a member of its own is printed as an empty record: the scrubbing keeps the
  enumerable members only.
\<close>

lemma error_logged_empty:
  "scrubFormat [(''message'', m), (''error'', L_instance printed [])] = [(''message'', m), (''error'', L_object [])]"
proof -
  have "\<not> secret_key ''error''" by code_simp
  then show ?thesis by (simp add: scrubFormat_def reserved_def)
qed

text \<open>The message itself is not scrubbed: a secret in its text is printed.\<close>

theorem message_printed: "(''message'', L_scalar t) \<in> set (log_entry time None [(''message'', L_scalar t)])"
  by (simp add: log_entry_def scrubFormat_def reserved_def enrichLogEntry_def)

end
