(* ===== verification/Request_Metrics.thy ===== *)
theory Request_Metrics
  imports Js_Text Js_Map Js_Number
begin

text \<open>
  The counters of the backend (\<open>backend/src/services/metrics.ts\<close>), the middleware that feeds them
  (\<open>middleware/metrics.ts\<close>) and the label text of the metrics page (\<open>routes/metrics.ts\<close>). The module's
  variables are one record, but for the counters of the event streams, which belong to \<open>Event_Streams\<close>; durations are exact rationals. The events of a response are \<open>finish\<close> and
  \<open>close\<close>, each heard once.
\<close>

section \<open>Keys\<close>

text \<open>\<open>key.split("||")\<close>.\<close>

fun split_bars :: "string \<Rightarrow> string list" where
  "split_bars [] = [[]]"
| "split_bars [c] = [[c]]"
| "split_bars (c # d # s) =
     (if c = CHR ''|'' \<and> d = CHR ''|'' then [] # split_bars s
      else case split_bars (d # s) of [] \<Rightarrow> [[c]] | p # ps \<Rightarrow> (c # p) # ps)"

definition formatRequestCountKey :: "string \<Rightarrow> string \<Rightarrow> nat \<Rightarrow> string" where
  "formatRequestCountKey m route status = m @ ''||'' @ route @ ''||'' @ nat_text status"

definition formatRequestDurationKey :: "string \<Rightarrow> string \<Rightarrow> string" where
  "formatRequestDurationKey m route = m @ ''||'' @ route"

text \<open>A part of a key that is not there is \<open>None\<close>, and so is a status that is no number.\<close>

definition part :: "string list \<Rightarrow> nat \<Rightarrow> string option" where
  "part ps i = (if i < length ps then Some (ps ! i) else None)"

definition parseRequestCountKey :: "string \<Rightarrow> string option \<times> string option \<times> rat option" where
  "parseRequestCountKey key = (let ps = split_bars key in (part ps 0, part ps 1, Option.bind (part ps 2) number_text))"

definition parseRequestDurationKey :: "string \<Rightarrow> string option \<times> string option" where
  "parseRequestDurationKey key = (let ps = split_bars key in (part ps 0, part ps 1))"

definition formatRpcRetryKey :: "string \<Rightarrow> string \<Rightarrow> string \<Rightarrow> string" where
  "formatRpcRetryKey operation outcome endpoint = operation @ ''||'' @ outcome @ ''||'' @ endpoint"

definition parseRpcRetryKey :: "string \<Rightarrow> string option \<times> string option \<times> string option" where
  "parseRpcRetryKey raw = (let ps = split_bars raw in (part ps 0, part ps 1, part ps 2))"

section \<open>Counters\<close>

record PayloadSizeMetrics =
  ps_buckets :: "nat list"
  ps_sumBytes :: nat
  ps_count :: nat

record RpcRetryBudgetMetrics =
  rb_sequences :: nat
  rb_retriesAllowed :: nat
  rb_retriesUsed :: nat
  rb_exhausted :: nat

record metrics_state =
  mt_requestCounters :: "(string, nat) jmap"
  mt_requestDurations :: "(string, rat \<times> nat) jmap"
  mt_inflight :: nat
  mt_payloadSizes :: "(string, PayloadSizeMetrics) jmap"
  mt_payloadRejections :: "(string, nat) jmap"
  mt_idempotencyConflicts :: nat
  mt_idempotencyReplays :: nat
  mt_splitLifecycle :: "(string, nat) jmap"
  mt_rpcRetryByKey :: "(string, nat) jmap"
  mt_rpcRetryMaxAttempts :: nat
  mt_rpcRetryDurationMs :: rat
  mt_rpcRetryAttempts :: nat
  mt_rpcRetryBudget :: "(string, RpcRetryBudgetMetrics) jmap"
  mt_projectsCreated :: nat
  mt_distributionsExecuted :: nat
  mt_depositsReceived :: nat

definition resetRequestMetrics :: metrics_state where
  "resetRequestMetrics =
     \<lparr>mt_requestCounters = [], mt_requestDurations = [], mt_inflight = 0, mt_payloadSizes = [], mt_payloadRejections = [],
      mt_idempotencyConflicts = 0, mt_idempotencyReplays = 0, mt_splitLifecycle = [], mt_rpcRetryByKey = [], mt_rpcRetryMaxAttempts = 0,
      mt_rpcRetryDurationMs = 0, mt_rpcRetryAttempts = 0, mt_rpcRetryBudget = [], mt_projectsCreated = 0, mt_distributionsExecuted = 0,
      mt_depositsReceived = 0\<rparr>"

definition bump :: "('k, nat) jmap \<Rightarrow> 'k \<Rightarrow> ('k, nat) jmap" where
  "bump m k = jm_set m k (default_to 0 (jm_get m k) + 1)"

definition incrementInflightRequests :: "metrics_state \<Rightarrow> metrics_state" where
  "incrementInflightRequests s = s\<lparr>mt_inflight := mt_inflight s + 1\<rparr>"

definition decrementInflightRequests :: "metrics_state \<Rightarrow> metrics_state" where
  "decrementInflightRequests s = s\<lparr>mt_inflight := mt_inflight s - 1\<rparr>"

definition recordRequestMetrics :: "string \<Rightarrow> string \<Rightarrow> nat \<Rightarrow> rat \<Rightarrow> metrics_state \<Rightarrow> metrics_state" where
  "recordRequestMetrics m route status durationMs s =
     (let durationKey = formatRequestDurationKey m route; current = default_to (0, 0) (jm_get (mt_requestDurations s) durationKey)
      in s\<lparr>mt_requestCounters := bump (mt_requestCounters s) (formatRequestCountKey m route status),
          mt_requestDurations := jm_set (mt_requestDurations s) durationKey (fst current + durationMs / 1000, snd current + 1)\<rparr>)"

definition getRequestCountSnapshots :: "metrics_state \<Rightarrow> ((string option \<times> string option \<times> rat option) \<times> nat) list" where
  "getRequestCountSnapshots s = map (apfst parseRequestCountKey) (mt_requestCounters s)"

definition getRequestDurationSnapshots :: "metrics_state \<Rightarrow> ((string option \<times> string option) \<times> rat \<times> nat) list" where
  "getRequestDurationSnapshots s = map (apfst parseRequestDurationKey) (mt_requestDurations s)"

definition PAYLOAD_SIZE_BUCKETS_BYTES :: "nat list" where
  "PAYLOAD_SIZE_BUCKETS_BYTES = [256, 1024, 4096, 16384, 65536, 262144, 1048576]"

definition recordRequestPayloadSize :: "string \<Rightarrow> nat \<Rightarrow> metrics_state \<Rightarrow> metrics_state" where
  "recordRequestPayloadSize routeGroup bytes s =
     (let current = default_to \<lparr>ps_buckets = map (\<lambda>_. 0) PAYLOAD_SIZE_BUCKETS_BYTES, ps_sumBytes = 0, ps_count = 0\<rparr>
            (jm_get (mt_payloadSizes s) routeGroup)
      in s\<lparr>mt_payloadSizes := jm_set (mt_payloadSizes s) routeGroup
             \<lparr>ps_buckets = map2 (\<lambda>upperBound n. if bytes \<le> upperBound then n + 1 else n) PAYLOAD_SIZE_BUCKETS_BYTES (ps_buckets current),
              ps_sumBytes = ps_sumBytes current + bytes, ps_count = ps_count current + 1\<rparr>\<rparr>)"

definition recordRequestPayloadRejected :: "string \<Rightarrow> metrics_state \<Rightarrow> metrics_state" where
  "recordRequestPayloadRejected routeGroup s = s\<lparr>mt_payloadRejections := bump (mt_payloadRejections s) routeGroup\<rparr>"

datatype SplitLifecycleOperation = Op_creation | Op_funding | Op_settlement

definition operation_text :: "SplitLifecycleOperation \<Rightarrow> string" where
  "operation_text p = (case p of Op_creation \<Rightarrow> ''creation'' | Op_funding \<Rightarrow> ''funding'' | Op_settlement \<Rightarrow> ''settlement'')"

definition lifecycle_key :: "SplitLifecycleOperation \<Rightarrow> bool \<Rightarrow> string" where
  "lifecycle_key p success = operation_text p @ ''||'' @ (if success then ''success'' else ''failure'')"

definition recordSplitLifecycleOperation :: "SplitLifecycleOperation \<Rightarrow> bool \<Rightarrow> metrics_state \<Rightarrow> metrics_state" where
  "recordSplitLifecycleOperation p success s = s\<lparr>mt_splitLifecycle := bump (mt_splitLifecycle s) (lifecycle_key p success)\<rparr>"

definition getSplitLifecycleOperationSnapshots :: "metrics_state \<Rightarrow> (SplitLifecycleOperation \<times> bool \<times> nat) list" where
  "getSplitLifecycleOperationSnapshots s =
     concat (map (\<lambda>p. map (\<lambda>success. (p, success, default_to 0 (jm_get (mt_splitLifecycle s) (lifecycle_key p success)))) [True, False])
       [Op_creation, Op_funding, Op_settlement])"

definition incrementIdempotencyConflicts :: "metrics_state \<Rightarrow> metrics_state" where
  "incrementIdempotencyConflicts s = s\<lparr>mt_idempotencyConflicts := mt_idempotencyConflicts s + 1\<rparr>"

definition incrementIdempotencyReplays :: "metrics_state \<Rightarrow> metrics_state" where
  "incrementIdempotencyReplays s = s\<lparr>mt_idempotencyReplays := mt_idempotencyReplays s + 1\<rparr>"

definition endpoint_label :: "string \<Rightarrow> string" where
  "endpoint_label endpoint = (if endpoint = [] then ''rpc'' else endpoint)"

definition recordRpcRetryAttempt :: "string \<Rightarrow> string \<Rightarrow> metrics_state \<Rightarrow> metrics_state" where
  "recordRpcRetryAttempt operation endpoint s =
     s\<lparr>mt_rpcRetryByKey := bump (mt_rpcRetryByKey s) (formatRpcRetryKey operation ''attempt'' (endpoint_label endpoint)),
       mt_rpcRetryAttempts := mt_rpcRetryAttempts s + 1\<rparr>"

definition recordRpcRetryBackoff :: "rat \<Rightarrow> metrics_state \<Rightarrow> metrics_state" where
  "recordRpcRetryBackoff delayMs s = (if delayMs \<le> 0 then s else s\<lparr>mt_rpcRetryDurationMs := mt_rpcRetryDurationMs s + delayMs\<rparr>)"

definition recordRpcRetryOutcome :: "string \<Rightarrow> string \<Rightarrow> string \<Rightarrow> metrics_state \<Rightarrow> metrics_state" where
  "recordRpcRetryOutcome operation outcome endpoint s =
     s\<lparr>mt_rpcRetryByKey := bump (mt_rpcRetryByKey s) (formatRpcRetryKey operation outcome (endpoint_label endpoint)),
       mt_rpcRetryMaxAttempts := mt_rpcRetryMaxAttempts s + (if outcome = ''exhausted'' then 1 else 0)\<rparr>"

definition getRpcRetrySnapshots :: "metrics_state \<Rightarrow> ((string option \<times> string option \<times> string option) \<times> nat) list" where
  "getRpcRetrySnapshots s = map (apfst parseRpcRetryKey) (mt_rpcRetryByKey s)"

definition recordRpcRetryBudget :: "string \<Rightarrow> string \<Rightarrow> nat \<Rightarrow> nat \<Rightarrow> bool \<Rightarrow> metrics_state \<Rightarrow> metrics_state" where
  "recordRpcRetryBudget operation endpoint retriesAllowed retriesUsed exhausted s =
     (let key = operation @ ''||'' @ endpoint_label endpoint;
          current = default_to \<lparr>rb_sequences = 0, rb_retriesAllowed = 0, rb_retriesUsed = 0, rb_exhausted = 0\<rparr> (jm_get (mt_rpcRetryBudget s) key)
      in s\<lparr>mt_rpcRetryBudget := jm_set (mt_rpcRetryBudget s) key
             \<lparr>rb_sequences = rb_sequences current + 1, rb_retriesAllowed = rb_retriesAllowed current + retriesAllowed,
              rb_retriesUsed = rb_retriesUsed current + retriesUsed, rb_exhausted = rb_exhausted current + (if exhausted then 1 else 0)\<rparr>\<rparr>)"

definition incrementProjectsCreated :: "metrics_state \<Rightarrow> metrics_state" where
  "incrementProjectsCreated s = s\<lparr>mt_projectsCreated := mt_projectsCreated s + 1\<rparr>"

definition incrementDistributionsExecuted :: "metrics_state \<Rightarrow> metrics_state" where
  "incrementDistributionsExecuted s = s\<lparr>mt_distributionsExecuted := mt_distributionsExecuted s + 1\<rparr>"

definition incrementDepositsReceived :: "metrics_state \<Rightarrow> metrics_state" where
  "incrementDepositsReceived s = s\<lparr>mt_depositsReceived := mt_depositsReceived s + 1\<rparr>"

section \<open>The middleware\<close>

definition without_prefix :: "string \<Rightarrow> string \<Rightarrow> string option" where
  "without_prefix p s = (if starts_with s p then Some (drop (length p) s) else None)"

text \<open>\<open>/^\/splits\/[^/]+\/<last>$/\<close>\<close>

definition split_action :: "string \<Rightarrow> string \<Rightarrow> bool" where
  "split_action last_part path =
     (case split_on CHR ''/'' path of [a, b, c, d] \<Rightarrow> a = [] \<and> b = ''splits'' \<and> c \<noteq> [] \<and> d = last_part | _ \<Rightarrow> False)"

definition getSplitLifecycleOperation :: "string \<Rightarrow> string \<Rightarrow> SplitLifecycleOperation option" where
  "getSplitLifecycleOperation m path =
     (if m \<noteq> ''POST'' then None
      else if path = ''/splits'' then Some Op_creation
      else if split_action ''deposit'' path then Some Op_funding
      else if split_action ''distribute'' path then Some Op_settlement
      else None)"

definition sanitizeRoute :: "string \<Rightarrow> string option \<Rightarrow> string \<Rightarrow> string" where
  "sanitizeRoute baseUrl routePath path =
     (let full = baseUrl @ default_to path routePath;
          cut = (if full \<noteq> [] \<and> last full = CHR ''/'' then butlast full else full)
      in if cut = [] then ''/'' else cut)"

definition ROUTE_GROUPS :: "(string \<times> string) list" where
  "ROUTE_GROUPS =
     [(''/splits/admin'', ''splits_admin''), (''/splits'', ''splits''), (''/users'', ''users''), (''/auth'', ''auth''),
      (''/transactions'', ''transactions''), (''/events'', ''events''), (''/api/ledger'', ''ledger''), (''/api/openapi.json'', ''docs''),
      (''/api/docs'', ''docs''), (''/docs'', ''docs''), (''/ops'', ''ops''), (''/health'', ''health''), (''/metrics'', ''metrics'')]"

definition resolveRouteGroup :: "string \<Rightarrow> string" where
  "resolveRouteGroup path =
     (if path = ''/'' \<or> path = [] then ''root''
      else case find (\<lambda>(p, _). path = p \<or> starts_with path (p @ ''/'')) ROUTE_GROUPS of Some (_, g) \<Rightarrow> g | None \<Rightarrow> ''other'')"

definition parseContentLength :: "string option \<Rightarrow> nat option" where
  "parseContentLength header =
     (case header of None \<Rightarrow> None
      | Some h \<Rightarrow> if h = [] \<or> \<not> list_all is_digit h then None
          else if text_nat h \<le> 2 ^ 53 - 1 then Some (text_nat h) else None)"

text \<open>
  A request in flight: the group its payload was recorded under, whether it got past the body parser and
  was counted, which of the two events of its response were heard, and whether it was counted as ended.
\<close>

record open_request =
  or_group :: "string option"
  or_counted :: bool
  or_finish_heard :: bool
  or_close_heard :: bool
  or_ended :: bool

record metrics_world =
  mw_metrics :: metrics_state
  mw_requests :: "(nat, open_request) jmap"

text \<open>The path of an event is \<open>req.path\<close> at that moment.\<close>

datatype metrics_event =
    Arrived nat "string option" string bool
  | Finished nat string string "string option" string nat rat
  | Closed nat

definition finalize :: "nat \<Rightarrow> open_request \<Rightarrow> metrics_world \<Rightarrow> metrics_world" where
  "finalize i r w =
     (if or_ended r \<or> \<not> or_counted r then w\<lparr>mw_requests := jm_set (mw_requests w) i r\<rparr>
      else w\<lparr>mw_requests := jm_set (mw_requests w) i (r\<lparr>or_ended := True\<rparr>), mw_metrics := decrementInflightRequests (mw_metrics w)\<rparr>)"

text \<open>
  \<open>payloadSizeMetricsMiddleware\<close> and \<open>splitLifecycleMetricsMiddleware\<close> run before the body parser,
  \<open>metricsMiddleware\<close> after it, for the requests whose body it accepted. A response finishes with the
  method, the mounted route, the status and the time it took; a connection closes.
\<close>

fun metrics_step :: "metrics_world \<Rightarrow> metrics_event \<Rightarrow> metrics_world" where
  "metrics_step w (Arrived i contentLength path accepted) =
     (if jm_has (mw_requests w) i then w
      else let s = mw_metrics w; group = resolveRouteGroup path;
               s1 = (case parseContentLength contentLength of Some b \<Rightarrow> recordRequestPayloadSize group b s | None \<Rightarrow> s);
               s2 = (if accepted then incrementInflightRequests s1 else s1)
        in w\<lparr>mw_metrics := s2, mw_requests := jm_set (mw_requests w) i
             \<lparr>or_group = (if parseContentLength contentLength = None then None else Some group), or_counted = accepted,
              or_finish_heard = False, or_close_heard = False, or_ended = False\<rparr>\<rparr>)"
| "metrics_step w (Finished i m baseUrl routePath path status elapsedMs) =
     (case jm_get (mw_requests w) i of None \<Rightarrow> w
      | Some r \<Rightarrow>
        if or_finish_heard r then w
        else let s = mw_metrics w;
                 s1 = (case or_group r of Some g \<Rightarrow> if status = 413 then recordRequestPayloadRejected g s else s | None \<Rightarrow> s);
                 s2 = (case getSplitLifecycleOperation m path of Some p \<Rightarrow> recordSplitLifecycleOperation p (status < 400) s1 | None \<Rightarrow> s1);
                 s3 = (if or_counted r then recordRequestMetrics m (sanitizeRoute baseUrl routePath path) status elapsedMs s2 else s2)
          in finalize i (r\<lparr>or_finish_heard := True\<rparr>) (w\<lparr>mw_metrics := s3\<rparr>))"
| "metrics_step w (Closed i) =
     (case jm_get (mw_requests w) i of None \<Rightarrow> w
      | Some r \<Rightarrow> if or_close_heard r then w else finalize i (r\<lparr>or_close_heard := True\<rparr>) w)"

definition idle_world :: metrics_world where
  "idle_world = \<lparr>mw_metrics = resetRequestMetrics, mw_requests = []\<rparr>"

section \<open>Labels of the metrics page\<close>

definition escape_label :: "char \<Rightarrow> char \<Rightarrow> string" where
  "escape_label special c = (if c = special then [CHR 0x5C, c] else [c])"

definition quoteLabelValue :: "string \<Rightarrow> string" where
  "quoteLabelValue v =
     [CHR 0x22] @ concat (map (escape_label CHR 0x22) (concat (map (escape_label CHR 0x5C) v))) @ [CHR 0x22]"

definition isMetricsEnabled :: "string option \<Rightarrow> string option \<Rightarrow> bool" where
  "isMetricsEnabled flag nodeEnv = (flag = Some ''true'' \<or> flag \<noteq> Some ''false'' \<and> nodeEnv = Some ''production'')"

section \<open>Requests in flight\<close>

definition is_running :: "open_request \<Rightarrow> bool" where
  "is_running r = (or_counted r \<and> \<not> or_ended r)"

definition running :: "(nat, open_request) jmap \<Rightarrow> nat" where
  "running m = length (filter (\<lambda>e. is_running (snd e)) m)"

definition inflight_ok :: "metrics_world \<Rightarrow> bool" where
  "inflight_ok w = (mt_inflight (mw_metrics w) = running (mw_requests w))"

lemma running_set_new: "\<not> jm_has m i \<Longrightarrow> running (jm_set m i r) = running m + (if is_running r then 1 else 0)"
  unfolding running_def by (induction m i r rule: jm_set.induct) (auto simp: jm_has_def)

lemma running_set_old:
  "jm_get m i = Some r \<Longrightarrow> running (jm_set m i r') + (if is_running r then 1 else 0) = running m + (if is_running r' then 1 else 0)"
  unfolding running_def by (induction m) (auto simp: jm_get_Cons split: if_splits)

lemma inflight_finalize:
  assumes "jm_get (mw_requests w) i = Some r" "or_ended r' = or_ended r" "or_counted r' = or_counted r"
    "mt_inflight (mw_metrics w) = running (mw_requests w)"
  shows "inflight_ok (finalize i r' w)"
  using assms running_set_old [OF assms(1), of r'] running_set_old [OF assms(1), of "r'\<lparr>or_ended := True\<rparr>"]
  by (auto simp: inflight_ok_def finalize_def decrementInflightRequests_def is_running_def split: if_splits)

lemma counters_keep_inflight [simp]:
  "mt_inflight (recordRequestPayloadSize g b s) = mt_inflight s" "mt_inflight (recordRequestPayloadRejected g s) = mt_inflight s"
  "mt_inflight (recordRequestMetrics m r st d s) = mt_inflight s" "mt_inflight (recordSplitLifecycleOperation p ok s) = mt_inflight s"
  by (simp_all add: recordRequestPayloadSize_def recordRequestPayloadRejected_def recordRequestMetrics_def recordSplitLifecycleOperation_def Let_def)

lemma gauge_step:
  assumes "inflight_ok w"
  shows "inflight_ok (metrics_step w e)"
proof (cases e)
  case (Arrived i cl path ok)
  then show ?thesis using assms
    by (auto simp: inflight_ok_def running_set_new is_running_def incrementInflightRequests_def Let_def split: option.split)
next
  case (Finished i m b rp path status ms)
  then show ?thesis using assms
    by (auto simp: inflight_ok_def [of w] Let_def intro!: inflight_finalize split: option.splits)
next
  case (Closed i)
  then show ?thesis using assms by (auto simp: inflight_ok_def [of w] intro!: inflight_finalize split: option.splits)
qed

section \<open>The histogram of payload sizes\<close>

definition sizes_of :: "string \<Rightarrow> (string \<times> nat) list \<Rightarrow> nat list" where
  "sizes_of g rs = map snd (filter (\<lambda>r. fst r = g) rs)"

definition histogram :: "nat list \<Rightarrow> PayloadSizeMetrics" where
  "histogram xs = \<lparr>ps_buckets = map (\<lambda>b. length (filter (\<lambda>x. x \<le> b) xs)) PAYLOAD_SIZE_BUCKETS_BYTES,
     ps_sumBytes = sum_list xs, ps_count = length xs\<rparr>"

definition record_sizes :: "(string \<times> nat) list \<Rightarrow> metrics_state" where
  "record_sizes rs = foldl (\<lambda>s (g, b). recordRequestPayloadSize g b s) resetRequestMetrics rs"

lemma histogram_snoc:
  "histogram (xs @ [x]) = \<lparr>ps_buckets = map2 (\<lambda>u n. if x \<le> u then n + 1 else n) PAYLOAD_SIZE_BUCKETS_BYTES (ps_buckets (histogram xs)),
     ps_sumBytes = ps_sumBytes (histogram xs) + x, ps_count = ps_count (histogram xs) + 1\<rparr>"
  by (simp add: histogram_def PAYLOAD_SIZE_BUCKETS_BYTES_def)

lemma histogram_Nil: "histogram [] = \<lparr>ps_buckets = map (\<lambda>_. 0) PAYLOAD_SIZE_BUCKETS_BYTES, ps_sumBytes = 0, ps_count = 0\<rparr>"
  by (simp add: histogram_def)

lemma recorded_sizes:
  "jm_get (mt_payloadSizes (record_sizes rs)) g = (if sizes_of g rs = [] then None else Some (histogram (sizes_of g rs)))"
proof (induction rs arbitrary: g rule: rev_induct)
  case Nil
  show ?case by (simp add: record_sizes_def resetRequestMetrics_def sizes_of_def)
next
  case (snoc r rs)
  obtain h b where r: "r = (h, b)" by (cases r)
  have current: "default_to (histogram []) (jm_get (mt_payloadSizes (record_sizes rs)) h) = histogram (sizes_of h rs)"
    by (simp add: snoc.IH)
  have "mt_payloadSizes (record_sizes (rs @ [r])) = jm_set (mt_payloadSizes (record_sizes rs)) h (histogram (sizes_of h rs @ [b]))"
    unfolding histogram_snoc current [symmetric] histogram_Nil
    by (simp add: r record_sizes_def recordRequestPayloadSize_def Let_def)
  then show ?case using snoc.IH r by (auto simp: sizes_of_def jm_get_set)
qed

section \<open>Keys and labels\<close>

lemma split_bars_word: "CHR ''|'' \<notin> set a \<Longrightarrow> split_bars (a @ CHR ''|'' # CHR ''|'' # s) = a # split_bars s"
proof (induction a)
  case (Cons c a)
  then show ?case by (cases a) auto
qed simp

lemma split_bars_last: "CHR ''|'' \<notin> set a \<Longrightarrow> split_bars a = [a]"
  by (induction a rule: split_bars.induct) auto

text \<open>What a reader of the page makes of a quoted label.\<close>

fun unquote_label :: "string \<Rightarrow> (string \<times> string) option" where
  "unquote_label [] = None"
| "unquote_label (c # s) =
     (if c = CHR 0x22 then Some ([], s)
      else if c = CHR 0x5C then (case s of [] \<Rightarrow> None | d # t \<Rightarrow> map_option (apfst ((#) d)) (unquote_label t))
      else map_option (apfst ((#) c)) (unquote_label s))"

lemma unquote_escaped:
  "unquote_label (concat (map (escape_label CHR 0x22) (concat (map (escape_label CHR 0x5C) v))) @ CHR 0x22 # rest) = Some (v, rest)"
  by (induction v) (auto simp: escape_label_def)

section \<open>Properties\<close>

definition flags_ok :: "open_request \<Rightarrow> bool" where
  "flags_ok r = (or_ended r \<longleftrightarrow> or_counted r \<and> (or_finish_heard r \<or> or_close_heard r))"

lemma jm_set_members: "set (jm_set m k v) \<subseteq> insert (k, v) (set m)"
  by (induction m k v rule: jm_set.induct) auto

lemma finalize_requests: "mw_requests (finalize i r w) = jm_set (mw_requests w) i (r\<lparr>or_ended := or_ended r \<or> or_counted r\<rparr>)"
  by (cases r) (auto simp: finalize_def)

lemma flags_step:
  assumes "\<forall>e \<in> set (mw_requests w). flags_ok (snd e)"
  shows "\<forall>e \<in> set (mw_requests (metrics_step w ev)). flags_ok (snd e)"
proof -
  have set: "\<forall>e \<in> set (jm_set (mw_requests w) i r). flags_ok (snd e)" if "flags_ok r" for i r
    using assms that by (auto dest: subsetD [OF jm_set_members])
  have old: "flags_ok r" if "jm_get (mw_requests w) i = Some r" for i r
    using assms jm_get_mem [OF that] by force
  have final: "flags_ok (r\<lparr>or_finish_heard := True, or_ended := or_ended r \<or> or_counted r\<rparr>)"
    "flags_ok (r\<lparr>or_close_heard := True, or_ended := or_ended r \<or> or_counted r\<rparr>)" if "flags_ok r" for r
    using that by (auto simp: flags_ok_def)
  show ?thesis
  proof (cases ev)
    case (Arrived i cl path ok)
    have "flags_ok \<lparr>or_group = g, or_counted = ok, or_finish_heard = False, or_close_heard = False, or_ended = False\<rparr>" for g
      by (simp add: flags_ok_def)
    note fresh = set [OF this]
    show ?thesis using assms fresh Arrived by (simp add: Let_def)
  next
    case (Finished i m b rp path status ms)
    then show ?thesis using assms set [OF final(1) [OF old]] by (simp add: Let_def finalize_requests split: option.split)
  next
    case (Closed i)
    then show ?thesis using assms set [OF final(2) [OF old]] by (simp add: finalize_requests split: option.split)
  qed
qed

lemma metrics_run:
  "inflight_ok (foldl metrics_step idle_world es) \<and> (\<forall>e \<in> set (mw_requests (foldl metrics_step idle_world es)). flags_ok (snd e))"
proof (induction es rule: rev_induct)
  case Nil
  show ?case by (simp add: inflight_ok_def idle_world_def resetRequestMetrics_def running_def)
next
  case (snoc e es)
  then show ?case using gauge_step flags_step [of "foldl metrics_step idle_world es" e] by simp
qed

text \<open>
  (C38) The gauge of requests in flight is exact: whatever the order in which responses finish and
  connections close, also twice or never, it is the number of accepted requests whose response has neither
  finished nor closed.
\<close>

theorem inflight_exact:
  "mt_inflight (mw_metrics (foldl metrics_step idle_world es)) =
     length (filter (\<lambda>(i, r). or_counted r \<and> \<not> or_finish_heard r \<and> \<not> or_close_heard r) (mw_requests (foldl metrics_step idle_world es)))"
proof -
  let ?w = "foldl metrics_step idle_world es"
  have "is_running (snd e) \<longleftrightarrow> (case e of (i, r) \<Rightarrow> or_counted r \<and> \<not> or_finish_heard r \<and> \<not> or_close_heard r)" if "e \<in> set (mw_requests ?w)" for e
  proof -
    have "flags_ok (snd e)" using metrics_run that by blast
    then show ?thesis by (auto simp: is_running_def flags_ok_def split: prod.split)
  qed
  then have "running (mw_requests ?w) = length (filter (\<lambda>(i, r). or_counted r \<and> \<not> or_finish_heard r \<and> \<not> or_close_heard r) (mw_requests ?w))"
    unfolding running_def by (metis (mono_tags, lifting) filter_cong)
  then show ?thesis using metrics_run [of es] by (simp add: inflight_ok_def)
qed

text \<open>
  The payload histogram of a group is that of the sizes recorded for the group: every bucket counts
  the sizes up to its bound, and the sum and the count are theirs; and the group of a path is one of fourteen.
\<close>

theorem histogram_exact:
  "jm_get (mt_payloadSizes (record_sizes rs)) g = (if sizes_of g rs = [] then None else Some (histogram (sizes_of g rs)))
   \<and> resolveRouteGroup path \<in> set (''root'' # ''other'' # map snd ROUTE_GROUPS)"
proof -
  have "resolveRouteGroup path \<in> set (''root'' # ''other'' # map snd ROUTE_GROUPS)"
  proof (cases "find (\<lambda>(p, _). path = p \<or> starts_with path (p @ ''/'')) ROUTE_GROUPS")
    case (Some e)
    then have "snd e \<in> set (map snd ROUTE_GROUPS)" using find_Some_mem by fastforce
    then show ?thesis using Some by (cases e) (simp add: resolveRouteGroup_def)
  qed (simp add: resolveRouteGroup_def)
  then show ?thesis by (simp add: recorded_sizes)
qed

text \<open>A key without bars in its parts, and any label, is read back as it was written.\<close>

theorem keys_read_back:
  assumes "CHR ''|'' \<notin> set m" "CHR ''|'' \<notin> set route"
  shows "parseRequestCountKey (formatRequestCountKey m route status) = (Some m, Some route, number_text (nat_text status))
    \<and> parseRequestDurationKey (formatRequestDurationKey m route) = (Some m, Some route)"
proof -
  have "CHR ''|'' \<notin> set (nat_text status)" using nat_text_digits [of status] by (auto simp: list_all_iff is_digit_def)
  then have "split_bars (formatRequestCountKey m route status) = [m, route, nat_text status]"
    using assms by (simp add: formatRequestCountKey_def split_bars_word split_bars_last)
  moreover have "split_bars (formatRequestDurationKey m route) = [m, route]"
    using assms by (simp add: formatRequestDurationKey_def split_bars_word split_bars_last)
  ultimately show ?thesis by (simp add: parseRequestCountKey_def parseRequestDurationKey_def part_def)
qed

theorem labels_read_back: "\<exists>q. quoteLabelValue v = CHR 0x22 # q \<and> unquote_label (q @ rest) = Some (v, rest)"
  using unquote_escaped [of v rest] by (simp add: quoteLabelValue_def)

text \<open>A path nobody serves is recorded as it is, and with two bars in it the status is lost.\<close>

theorem bars_spoil_status:
  "parseRequestCountKey (formatRequestCountKey ''GET'' (sanitizeRoute [] None ''/a||b'') 404) = (Some ''GET'', Some ''/a'', None)"
  by code_simp

text \<open>
  The router of the splits is mounted, so that \<open>req.path\<close> has lost the mount when its responses finish:
  no creation, deposit or distribution that reaches it is counted.
\<close>

theorem mounted_operations_not_counted:
  assumes "CHR ''/'' \<notin> set pid"
  shows "getSplitLifecycleOperation ''POST'' ''/'' = None" "getSplitLifecycleOperation ''POST'' (CHR ''/'' # pid @ ''/deposit'') = None"
    "getSplitLifecycleOperation ''POST'' (CHR ''/'' # pid @ ''/distribute'') = None"
  using assms split_on_append [OF assms]
  by (simp_all add: getSplitLifecycleOperation_def split_action_def split_on_append)

end
