(* ===== verification/Operator_Tools.thy ===== *)
theory Operator_Tools
  imports Js_Map Json_Text
begin

text \<open>
  Two tools of the operators: the backfill of the payout history
  (\<open>backend/src/payout-history-backfill\<close>), whose event source and repository are parameters, and the
  compatibility check of the RPC endpoints (\<open>backend/src/rpcCompat.ts\<close>), whose \<open>fetch\<close> is a parameter.
\<close>

section \<open>Backfill of the payout history\<close>

record PayoutHistoryRecord =
  ph_id :: string
  ph_payoutId :: string
  ph_transactionHash :: string
  ph_ledger :: int
  ph_amount :: string
  ph_recipient :: string
  ph_timestamp :: "string option"

record PayoutHistoryBackfillOptions =
  bo_fromLedger :: int
  bo_toLedger :: int
  bo_dryRun :: "bool option"
  bo_sampleSize :: "int option"

datatype PayoutHistoryBackfillResponse =
    Preview (pv_from: int) (pv_to: int) (pv_eventsFound: nat) (pv_recordsToCreate: nat) (pv_existing: nat) (pv_sample: "PayoutHistoryRecord list")
  | Result (rs_from: int) (rs_to: int) (rs_eventsFound: nat) (rs_recordsCreated: int) (rs_existing: nat)

text \<open>The repository: a state, the lookup of transaction hashes in it, and the insertion, which answers with a count.\<close>

record 's PayoutHistoryRepository =
  findExistingTransactionHashes :: "string list \<Rightarrow> 's \<Rightarrow> string list"
  createMany :: "PayoutHistoryRecord list \<Rightarrow> 's \<Rightarrow> 's \<times> int"

definition getSampleRecords :: "PayoutHistoryRecord list \<Rightarrow> int \<Rightarrow> PayoutHistoryRecord list" where
  "getSampleRecords records sampleSize = take (nat (max 0 sampleSize)) records"

definition records_to_create :: "PayoutHistoryRecord list \<Rightarrow> string list \<Rightarrow> PayoutHistoryRecord list" where
  "records_to_create events existing = filter (\<lambda>e. ph_transactionHash e \<notin> set existing) events"

text \<open>\<open>run\<close>: \<open>Inl ()\<close> is the refusal of a range that ends before it begins.\<close>

definition run_backfill ::
    "(int \<Rightarrow> int \<Rightarrow> PayoutHistoryRecord list) \<Rightarrow> 's PayoutHistoryRepository \<Rightarrow> PayoutHistoryBackfillOptions \<Rightarrow> 's
      \<Rightarrow> 's \<times> (unit + PayoutHistoryBackfillResponse)" where
  "run_backfill getPayoutEvents repository options s =
     (let fromLedger = bo_fromLedger options; toLedger = bo_toLedger options;
          dryRun = default_to False (bo_dryRun options); sampleSize = default_to 10 (bo_sampleSize options)
      in if fromLedger > toLedger then (s, Inl ())
         else let events = getPayoutEvents fromLedger toLedger;
                  hashes = map ph_transactionHash events;
                  existing = (if hashes \<noteq> [] then findExistingTransactionHashes repository hashes s else []);
                  records = records_to_create events existing
           in if dryRun
              then (s, Inr (Preview fromLedger toLedger (length events) (length records) (length existing) (getSampleRecords records sampleSize)))
              else let (s', created) = (if records \<noteq> [] then createMany repository records s else (s, 0))
                in (s', Inr (Result fromLedger toLedger (length events) created (length existing))))"

text \<open>The command line: \<open>--name=value\<close> arguments and the flag.\<close>

definition getArgument :: "string list \<Rightarrow> string \<Rightarrow> string option" where
  "getArgument argv name =
     (let p = ''--'' @ name @ ''='' in map_option (drop (length p)) (find (\<lambda>a. starts_with a p) argv))"

definition hasFlag :: "string list \<Rightarrow> string \<Rightarrow> bool" where
  "hasFlag argv name = ((''--'' @ name) \<in> set argv)"

datatype cli_error = Missing_argument string | Not_an_integer string

definition getRequiredNumberArgument :: "string list \<Rightarrow> string \<Rightarrow> cli_error + int" where
  "getRequiredNumberArgument argv name =
     (case getArgument argv name of
        None \<Rightarrow> Inl (Missing_argument name)
      | Some value \<Rightarrow>
        if value = [] then Inl (Missing_argument name)
        else case whole_number (number_text value) of None \<Rightarrow> Inl (Not_an_integer name) | Some n \<Rightarrow> Inr n)"

text \<open>A sample size that is no number cuts the sample to nothing, as does zero; a fraction is cut off by \<open>slice\<close>. The infinities are left out.\<close>

definition sample_size :: "string list \<Rightarrow> int" where
  "sample_size argv =
     (case getArgument argv ''sample-size'' of
        None \<Rightarrow> 10
      | Some v \<Rightarrow> if v = [] then 10 else (case number_text v of Some q \<Rightarrow> if q < 0 then 0 else \<lfloor>q\<rfloor> | None \<Rightarrow> 0))"

definition runPayoutHistoryBackfill ::
    "(int \<Rightarrow> int \<Rightarrow> PayoutHistoryRecord list) \<Rightarrow> 's PayoutHistoryRepository \<Rightarrow> string list \<Rightarrow> 's
      \<Rightarrow> 's \<times> (cli_error + unit + PayoutHistoryBackfillResponse)" where
  "runPayoutHistoryBackfill getPayoutEvents repository argv s =
     (case getRequiredNumberArgument argv ''from-ledger'' of
        Inl e \<Rightarrow> (s, Inl e)
      | Inr fromLedger \<Rightarrow>
        (case getRequiredNumberArgument argv ''to-ledger'' of
           Inl e \<Rightarrow> (s, Inl e)
         | Inr toLedger \<Rightarrow>
           apsnd Inr (run_backfill getPayoutEvents repository
             \<lparr>bo_fromLedger = fromLedger, bo_toLedger = toLedger, bo_dryRun = Some (hasFlag argv ''dry-run''), bo_sampleSize = Some (sample_size argv)\<rparr> s)))"

section \<open>Compatibility of RPC endpoints\<close>

datatype RpcKind = Soroban_rpc | Horizon

record CompatEntry =
  co_kind :: RpcKind
  co_provider :: string
  co_network :: string
  co_url :: string
  co_minVersion :: string

datatype smoke_error = Https_only | Http_status int | Rpc_error | Missing_result | Unhealthy | No_version | Below_minimum | Timed_out | Failed_fetch

record SmokeResult =
  sr_url :: string
  sr_ok :: bool
  sr_version :: "nat list option"
  sr_error :: "smoke_error option"

definition DEFAULT_MAX_ENDPOINTS :: int where "DEFAULT_MAX_ENDPOINTS = 10"

definition COMPATIBILITY_MATRIX :: "CompatEntry list" where
  "COMPATIBILITY_MATRIX =
     [\<lparr>co_kind = Soroban_rpc, co_provider = ''Stellar Development Foundation'', co_network = ''testnet'',
       co_url = ''https://soroban-testnet.stellar.org'', co_minVersion = ''21.0.0''\<rparr>,
      \<lparr>co_kind = Horizon, co_provider = ''Stellar Development Foundation'', co_network = ''testnet'',
       co_url = ''https://horizon-testnet.stellar.org'', co_minVersion = ''2.28.0''\<rparr>]"

text \<open>\<open>/^v?(\d+)\.(\d+)\.(\d+)/\<close> on a trimmed text of code units; the parts are exact.\<close>

definition digit_unit :: "nat \<Rightarrow> bool" where "digit_unit u = (48 \<le> u \<and> u \<le> 57)"

definition units_nat :: "nat list \<Rightarrow> nat" where "units_nat us = foldl (\<lambda>n u. 10 * n + (u - 48)) 0 us"

definition version_part :: "nat list \<Rightarrow> (nat \<times> nat list) option" where
  "version_part s = (let d = takeWhile digit_unit s in if d = [] then None else Some (units_nat d, dropWhile digit_unit s))"

definition dotted :: "nat list \<Rightarrow> nat list option" where
  "dotted s = (case s of u # r \<Rightarrow> if u = 46 then Some r else None | [] \<Rightarrow> None)"

definition trim_units :: "nat list \<Rightarrow> nat list" where
  "trim_units s = (let sp = (\<lambda>u. 9 \<le> u \<and> u \<le> 13 \<or> u = 32 \<or> u = 160) in rev (dropWhile sp (rev (dropWhile sp s))))"

definition parseVersion :: "nat list \<Rightarrow> (nat \<times> nat \<times> nat) option" where
  "parseVersion value =
     (let t = trim_units value; s = (case t of u # r \<Rightarrow> if u = 118 then r else t | [] \<Rightarrow> [])
      in do { (a, s1) \<leftarrow> version_part s; s2 \<leftarrow> dotted s1; (b, s3) \<leftarrow> version_part s2; s4 \<leftarrow> dotted s3; (c, _) \<leftarrow> version_part s4; Some (a, b, c) })"

fun at_least :: "nat list \<Rightarrow> nat list \<Rightarrow> bool" where
  "at_least (a # as) (m # ms) = (if a > m then True else if a < m then False else at_least as ms)"
| "at_least _ _ = True"

definition isVersionSupported :: "nat list \<Rightarrow> nat list \<Rightarrow> bool" where
  "isVersionSupported actual minimum =
     (case (parseVersion actual, parseVersion minimum) of
        (Some (a, b, c), Some (x, y, z)) \<Rightarrow> at_least [a, b, c] [x, y, z]
      | _ \<Rightarrow> False)"

text \<open>What a request gives: an abort by the timer, a failure, or a status with the body read as JSON (\<open>None\<close> when that fails).\<close>

datatype fetched = Fetch_aborted | Fetch_failed | Fetch_status int "json option"

datatype http_call = Get_root | Rpc_method string

definition request_json :: "(string \<Rightarrow> http_call \<Rightarrow> fetched) \<Rightarrow> string \<Rightarrow> http_call \<Rightarrow> smoke_error + json" where
  "request_json fetch url call =
     (case fetch url call of
        Fetch_aborted \<Rightarrow> Inl Timed_out
      | Fetch_failed \<Rightarrow> Inl Failed_fetch
      | Fetch_status st body \<Rightarrow>
        if \<not> (200 \<le> st \<and> st < 300) then Inl (Http_status st)
        else (case body of Some j \<Rightarrow> Inr j | None \<Rightarrow> Inl Failed_fetch))"

definition json_truthy :: "json option \<Rightarrow> bool" where
  "json_truthy v = (case v of None \<Rightarrow> False | Some J_null \<Rightarrow> False | Some (J_bool b) \<Rightarrow> b
     | Some (J_number q) \<Rightarrow> q \<noteq> Some 0 | Some (J_string t) \<Rightarrow> t \<noteq> [] | Some _ \<Rightarrow> True)"

text \<open>Reading a member of a body that is \<open>null\<close> throws.\<close>

definition rpcCall :: "(string \<Rightarrow> http_call \<Rightarrow> fetched) \<Rightarrow> string \<Rightarrow> string \<Rightarrow> smoke_error + json" where
  "rpcCall fetch url m =
     (case request_json fetch url (Rpc_method m) of
        Inl e \<Rightarrow> Inl e
      | Inr body \<Rightarrow>
        if body = J_null then Inl Failed_fetch
        else if json_truthy (json_field body ''error'') then Inl Rpc_error
        else if \<not> json_truthy (json_field body ''result'') then Inl Missing_result
        else Inr (the (json_field body ''result'')))"

definition string_field :: "json \<Rightarrow> string \<Rightarrow> nat list option" where
  "string_field v k = (case json_field v k of Some (J_string t) \<Rightarrow> Some t | _ \<Rightarrow> None)"

definition reported_version :: "(string \<Rightarrow> http_call \<Rightarrow> fetched) \<Rightarrow> CompatEntry \<Rightarrow> smoke_error + nat list option" where
  "reported_version fetch entry =
     (case co_kind entry of
        Soroban_rpc \<Rightarrow>
          (case rpcCall fetch (co_url entry) ''getHealth'' of
             Inl e \<Rightarrow> Inl e
           | Inr health \<Rightarrow>
             if json_field health ''status'' \<noteq> Some (J_string (map of_char ''healthy'')) then Inl Unhealthy
             else (case rpcCall fetch (co_url entry) ''getVersionInfo'' of
                 Inl e \<Rightarrow> Inl e
               | Inr info \<Rightarrow> Inr (string_field info ''version'')))
      | Horizon \<Rightarrow>
          (case request_json fetch (co_url entry) Get_root of
             Inl e \<Rightarrow> Inl e
           | Inr page \<Rightarrow> if page = J_null then Inl Failed_fetch else Inr (string_field page ''horizon_version'')))"

definition checkEntry :: "(string \<Rightarrow> http_call \<Rightarrow> fetched) \<Rightarrow> CompatEntry \<Rightarrow> SmokeResult" where
  "checkEntry fetch entry =
     (let failed = (\<lambda>e. \<lparr>sr_url = co_url entry, sr_ok = False, sr_version = None, sr_error = Some e\<rparr>)
      in if \<not> starts_with (co_url entry) ''https://'' then failed Https_only
         else case reported_version fetch entry of
           Inl e \<Rightarrow> failed e
         | Inr None \<Rightarrow> failed No_version
         | Inr (Some version) \<Rightarrow>
           if version = [] then failed No_version
           else if \<not> isVersionSupported version (map of_char (co_minVersion entry)) then failed Below_minimum
           else \<lparr>sr_url = co_url entry, sr_ok = True, sr_version = Some version, sr_error = None\<rparr>)"

text \<open>\<open>Inl ()\<close> is the refusal of too many endpoints.\<close>

definition runSmoke :: "(string \<Rightarrow> http_call \<Rightarrow> fetched) \<Rightarrow> int option \<Rightarrow> CompatEntry list \<Rightarrow> unit + SmokeResult list" where
  "runSmoke fetch maxEndpoints entries =
     (if int (length entries) > default_to DEFAULT_MAX_ENDPOINTS maxEndpoints then Inl () else Inr (map (checkEntry fetch) entries))"

section \<open>Properties\<close>

text \<open>What the backfill relies on: the lookup finds the given hashes that are stored, and the insertion stores the records.\<close>

definition repository_ok :: "('s \<Rightarrow> PayoutHistoryRecord list) \<Rightarrow> 's PayoutHistoryRepository \<Rightarrow> bool" where
  "repository_ok rows repository \<longleftrightarrow>
     (\<forall>hs s. set (findExistingTransactionHashes repository hs s) = set hs \<inter> ph_transactionHash ` set (rows s))
     \<and> (\<forall>rs s. rows (fst (createMany repository rs s)) = rows s @ rs \<and> snd (createMany repository rs s) = int (length rs))"

lemma records_missing:
  assumes "repository_ok rows repository"
  shows "records_to_create events (if map ph_transactionHash events \<noteq> [] then findExistingTransactionHashes repository (map ph_transactionHash events) s else [])
    = filter (\<lambda>e. ph_transactionHash e \<notin> ph_transactionHash ` set (rows s)) events"
  using assms by (auto simp: records_to_create_def repository_ok_def intro!: filter_cong)

definition missing_events :: "('s \<Rightarrow> PayoutHistoryRecord list) \<Rightarrow> PayoutHistoryRecord list \<Rightarrow> 's \<Rightarrow> PayoutHistoryRecord list" where
  "missing_events rows events s = filter (\<lambda>e. ph_transactionHash e \<notin> ph_transactionHash ` set (rows s)) events"

definition existing_hashes :: "'s PayoutHistoryRepository \<Rightarrow> PayoutHistoryRecord list \<Rightarrow> 's \<Rightarrow> string list" where
  "existing_hashes repository events s =
     (if map ph_transactionHash events \<noteq> [] then findExistingTransactionHashes repository (map ph_transactionHash events) s else [])"

lemma backfill_run:
  assumes "repository_ok rows repository" "a \<le> b" "bo_fromLedger options = a" "bo_toLedger options = b"
  shows "bo_dryRun options = None \<Longrightarrow> run_backfill events repository options s =
      (if missing_events rows (events a b) s = [] then s else fst (createMany repository (missing_events rows (events a b) s) s),
       Inr (Result a b (length (events a b)) (int (length (missing_events rows (events a b) s))) (length (existing_hashes repository (events a b) s))))"
    "\<exists>sample. run_backfill events repository (options\<lparr>bo_dryRun := Some True\<rparr>) s =
      (s, Inr (Preview a b (length (events a b)) (length (missing_events rows (events a b) s)) (length (existing_hashes repository (events a b) s)) sample))"
proof -
  have new: "records_to_create (events a b) (existing_hashes repository (events a b) s) = missing_events rows (events a b) s"
    unfolding existing_hashes_def missing_events_def by (rule records_missing [OF assms(1)])
  have count: "snd (createMany repository rs s) = int (length rs)" for rs using assms(1) by (simp add: repository_ok_def)
  show "bo_dryRun options = None \<Longrightarrow> run_backfill events repository options s =
      (if missing_events rows (events a b) s = [] then s else fst (createMany repository (missing_events rows (events a b) s) s),
       Inr (Result a b (length (events a b)) (int (length (missing_events rows (events a b) s))) (length (existing_hashes repository (events a b) s))))"
    unfolding run_backfill_def Let_def assms(3,4) existing_hashes_def [symmetric] new using assms(2) count by (simp add: split_beta)
  show "\<exists>sample. run_backfill events repository (options\<lparr>bo_dryRun := Some True\<rparr>) s =
      (s, Inr (Preview a b (length (events a b)) (length (missing_events rows (events a b) s)) (length (existing_hashes repository (events a b) s)) sample))"
    unfolding run_backfill_def Let_def new [symmetric] using assms(2-4) by (simp add: existing_hashes_def)
qed

text \<open>
  The backfill adds what is missing and nothing twice: after a run every event of the range is stored,
  the rows that were there stay, a transaction that was stored gets no further row, and a second run over the
  range changes nothing; a preview changes nothing and announces exactly what the run then creates.
\<close>

theorem backfill_idempotent:
  assumes repo: "repository_ok rows repository" and range: "a \<le> b"
    and opts: "bo_fromLedger options = a" "bo_toLedger options = b" "bo_dryRun options = None"
    and first: "run_backfill events repository options s = (s1, r1)" and second: "run_backfill events repository options s1 = (s2, r2)"
    and preview: "run_backfill events repository (options\<lparr>bo_dryRun := Some True\<rparr>) s = (s0, Inr p)"
  shows "rows s1 = rows s @ filter (\<lambda>e. ph_transactionHash e \<notin> ph_transactionHash ` set (rows s)) (events a b)
    \<and> ph_transactionHash ` set (events a b) \<subseteq> ph_transactionHash ` set (rows s1)
    \<and> s2 = s1 \<and> s0 = s \<and> r1 = Inr (Result a b (length (events a b)) (int (pv_recordsToCreate p)) (pv_existing p))"
proof -
  let ?new = "missing_events rows (events a b)"
  note run = backfill_run [OF repo range opts(1,2)]
  have s1: "s1 = (if ?new s = [] then s else fst (createMany repository (?new s) s))"
    and r1: "r1 = Inr (Result a b (length (events a b)) (int (length (?new s))) (length (existing_hashes repository (events a b) s)))"
    using first run(1) [OF opts(3), of events s] by simp_all
  have rows: "rows s1 = rows s @ ?new s" using s1 repo by (auto simp: repository_ok_def)
  then have stored: "ph_transactionHash ` set (events a b) \<subseteq> ph_transactionHash ` set (rows s1)" by (auto simp: missing_events_def)
  then have "?new s1 = []" by (auto simp: missing_events_def filter_empty_conv)
  then have "s2 = s1" using second run(1) [OF opts(3), of events s1] by simp
  moreover have "s0 = s" "pv_recordsToCreate p = length (?new s)" "pv_existing p = length (existing_hashes repository (events a b) s)"
    using preview run(2) [of events s] by auto
  ultimately show ?thesis using rows stored r1 by (simp add: missing_events_def)
qed


definition table_repository :: "PayoutHistoryRecord list PayoutHistoryRepository" where
  "table_repository = \<lparr>findExistingTransactionHashes = \<lambda>hs s. filter (\<lambda>h. h \<in> ph_transactionHash ` set s) hs,
     createMany = \<lambda>rs s. (s @ rs, int (length rs))\<rparr>"

definition sample_payout :: "string \<Rightarrow> PayoutHistoryRecord" where
  "sample_payout i = \<lparr>ph_id = i, ph_payoutId = i, ph_transactionHash = ''tx'', ph_ledger = 5, ph_amount = ''1'', ph_recipient = i, ph_timestamp = None\<rparr>"

definition sample_options :: PayoutHistoryBackfillOptions where
  "sample_options = \<lparr>bo_fromLedger = 1, bo_toLedger = 9, bo_dryRun = None, bo_sampleSize = None\<rparr>"

lemma table_repository_ok: "repository_ok id table_repository"
  by (auto simp: repository_ok_def table_repository_def)

theorem backfill_idempotent_witness:
  "fst (run_backfill (\<lambda>_ _. [sample_payout ''a'']) table_repository sample_options []) = [sample_payout ''a'']"
proof -
  let ?run = "run_backfill (\<lambda>_ _. [sample_payout ''a'']) table_repository"
  obtain s1 r1 where first: "?run sample_options [] = (s1, r1)" by (cases "?run sample_options []")
  obtain s2 r2 where second: "?run sample_options s1 = (s2, r2)" by (cases "?run sample_options s1")
  obtain s0 p where "?run (sample_options\<lparr>bo_dryRun := Some True\<rparr>) [] = (s0, Inr p)"
    by (auto simp: run_backfill_def sample_options_def Let_def)
  then show ?thesis
    using backfill_idempotent [OF table_repository_ok _ _ _ _ first second, of 1 9 s0 p] first by (simp add: sample_options_def)
qed

text \<open>
  A transaction may pay several collaborators. When one of its payouts is stored, the others are taken
  for stored too and are never added.
\<close>

theorem second_payout_lost:
  "run_backfill (\<lambda>_ _. [sample_payout ''a'', sample_payout ''b'']) table_repository sample_options [sample_payout ''a'']
     = ([sample_payout ''a''], Inr (Result 1 9 2 0 2))"
  by (simp add: run_backfill_def sample_options_def table_repository_def records_to_create_def sample_payout_def Let_def)

text \<open>
  An endpoint is reported fine only when it is reached by https, is healthy, and its version is at least
  the required one in the order of versions; every endpoint gets one result, in order, and more endpoints
  than allowed are refused.
\<close>

theorem smoke_sound:
  "(runSmoke fetch limit entries = Inl () \<longleftrightarrow> int (length entries) > default_to DEFAULT_MAX_ENDPOINTS limit)
   \<and> (\<forall>results. runSmoke fetch limit entries = Inr results \<longrightarrow> map sr_url results = map co_url entries)
   \<and> (sr_ok (checkEntry fetch entry) \<longrightarrow>
        starts_with (co_url entry) ''https://''
        \<and> (\<exists>v a b c x y z. sr_version (checkEntry fetch entry) = Some v \<and> parseVersion v = Some (a, b, c)
             \<and> parseVersion (map of_char (co_minVersion entry)) = Some (x, y, z)
             \<and> (a > x \<or> a = x \<and> (b > y \<or> b = y \<and> c \<ge> z))))"
proof -
  have "sr_url (checkEntry fetch e) = co_url e" for e
    by (auto simp: checkEntry_def Let_def split: sum.split option.split)
  then have "\<forall>results. runSmoke fetch limit entries = Inr results \<longrightarrow> map sr_url results = map co_url entries"
    by (auto simp: runSmoke_def split: if_splits)
  moreover have "starts_with (co_url entry) ''https://''
      \<and> (\<exists>v a b c x y z. sr_version (checkEntry fetch entry) = Some v \<and> parseVersion v = Some (a, b, c)
           \<and> parseVersion (map of_char (co_minVersion entry)) = Some (x, y, z) \<and> (a > x \<or> a = x \<and> (b > y \<or> b = y \<and> c \<ge> z)))"
    if ok: "sr_ok (checkEntry fetch entry)"
  proof -
    obtain v where v: "sr_version (checkEntry fetch entry) = Some v" "starts_with (co_url entry) ''https://''"
      "isVersionSupported v (map of_char (co_minVersion entry))"
      using ok by (auto simp: checkEntry_def Let_def split: sum.splits option.splits if_splits)
    then show ?thesis by (auto simp: isVersionSupported_def split: option.splits if_splits)
  qed
  ultimately show ?thesis by (simp add: runSmoke_def)
qed

end
