(* ===== verification/Decimal_Amounts.thy ===== *)
theory Decimal_Amounts
  imports Js_Text
begin

text \<open>
  Fixed-point ledger amounts (\<open>backend/src/lib/decimal-amounts.ts\<close>): the accepted decimal
  strings, their value in 1e-7 units (\<open>bigint\<close>, an \<open>int\<close> here), the exact arithmetic on
  them, and the largest-remainder allocation. Every \<open>throw new AmountError\<close> is a constructor of
  \<open>amount_error\<close>. The interface the ledger services rely on is the locale \<open>amount_codec\<close>.
\<close>

section \<open>Model\<close>

definition AMOUNT_DECIMALS :: nat where
  "AMOUNT_DECIMALS = 7"

definition AMOUNT_SCALE :: int where
  "AMOUNT_SCALE = 10 ^ AMOUNT_DECIMALS"

definition MAX_AMOUNT_VALUE :: int where
  "MAX_AMOUNT_VALUE = 170141183460469231731687303715884105727"

definition MAX_AMOUNT_UNITS :: int where
  "MAX_AMOUNT_UNITS = MAX_AMOUNT_VALUE * AMOUNT_SCALE"

datatype amount_error =
    InvalidAmountString
  | AmountExceedsMaximum
  | NegativeUnits
  | UnitsExceedMaximum
  | AmountOverflow
  | AmountUnderflow
  | DenominatorNotPositive
  | NumeratorNegative
  | NonZeroTotalZeroShares
  | InvalidWeight
  | NonZeroTotalZeroWeight

text \<open>The two groups of \<open>AMOUNT_PATTERN\<close>, and the pattern itself on the whole string.\<close>

definition whole_ok :: "string \<Rightarrow> bool" where
  "whole_ok w = (w = ''0'' \<or>
     (w \<noteq> [] \<and> length w \<le> 39 \<and> list_all is_digit w \<and> hd w \<noteq> CHR ''0''))"

definition fraction_ok :: "string \<Rightarrow> bool" where
  "fraction_ok f = (1 \<le> length f \<and> length f \<le> 7 \<and> list_all is_digit f)"

definition AMOUNT_PATTERN :: "string \<Rightarrow> bool" where
  "AMOUNT_PATTERN s =
     (case split_on CHR ''.'' s of
        [w] \<Rightarrow> whole_ok w
      | [w, f] \<Rightarrow> whole_ok w \<and> fraction_ok f
      | _ \<Rightarrow> False)"

definition toUnitsUnchecked :: "string \<Rightarrow> int" where
  "toUnitsUnchecked value =
     (let parts = split_on CHR ''.'' value;
          whole = hd parts;
          fraction = (case tl parts of [] \<Rightarrow> [] | f # _ \<Rightarrow> f);
          paddedFraction = take AMOUNT_DECIMALS (fraction @ replicate AMOUNT_DECIMALS CHR ''0'')
      in int (text_nat whole) * AMOUNT_SCALE + int (text_nat paddedFraction))"

definition isValidAmountString :: "string \<Rightarrow> bool" where
  "isValidAmountString value =
     (if \<not> AMOUNT_PATTERN value then False
      else toUnitsUnchecked value \<le> MAX_AMOUNT_UNITS)"

definition toUnits :: "string \<Rightarrow> amount_error + int" where
  "toUnits value =
     (if \<not> AMOUNT_PATTERN value then Inl InvalidAmountString
      else let units = toUnitsUnchecked value
           in if units > MAX_AMOUNT_UNITS then Inl AmountExceedsMaximum else Inr units)"

definition fromUnits :: "int \<Rightarrow> amount_error + string" where
  "fromUnits units =
     (if units < 0 then Inl NegativeUnits
      else if units > MAX_AMOUNT_UNITS then Inl UnitsExceedMaximum
      else let whole = units div AMOUNT_SCALE; fraction = units mod AMOUNT_SCALE
           in if fraction = 0 then Inr (nat_text (nat whole))
              else Inr (nat_text (nat whole) @ ''.'' @
                     strip_end CHR ''0''
                       (pad_start AMOUNT_DECIMALS CHR ''0'' (nat_text (nat fraction)))))"

definition normalizeAmountString :: "string \<Rightarrow> amount_error + string" where
  "normalizeAmountString value =
     (case toUnits value of Inl e \<Rightarrow> Inl e | Inr u \<Rightarrow> fromUnits u)"

definition addAmounts :: "string \<Rightarrow> string \<Rightarrow> amount_error + string" where
  "addAmounts a b =
     (case toUnits a of Inl e \<Rightarrow> Inl e | Inr ua \<Rightarrow>
      (case toUnits b of Inl e \<Rightarrow> Inl e | Inr ub \<Rightarrow>
         if ua + ub > MAX_AMOUNT_UNITS then Inl AmountOverflow else fromUnits (ua + ub)))"

definition subtractAmounts :: "string \<Rightarrow> string \<Rightarrow> amount_error + string" where
  "subtractAmounts a b =
     (case toUnits a of Inl e \<Rightarrow> Inl e | Inr ua \<Rightarrow>
      (case toUnits b of Inl e \<Rightarrow> Inl e | Inr ub \<Rightarrow>
         if ua - ub < 0 then Inl AmountUnderflow else fromUnits (ua - ub)))"

definition compareAmounts :: "string \<Rightarrow> string \<Rightarrow> amount_error + int" where
  "compareAmounts a b =
     (case toUnits a of Inl e \<Rightarrow> Inl e | Inr left \<Rightarrow>
      (case toUnits b of Inl e \<Rightarrow> Inl e | Inr right \<Rightarrow>
         if left < right then Inr (- 1) else if left > right then Inr 1 else Inr 0))"

definition isZeroAmount :: "string \<Rightarrow> amount_error + bool" where
  "isZeroAmount value = (case toUnits value of Inl e \<Rightarrow> Inl e | Inr u \<Rightarrow> Inr (u = 0))"

datatype RoundingMode = Floor | Ceil | HalfUp

definition multiplyAmountByRatio ::
  "string \<Rightarrow> int \<Rightarrow> int \<Rightarrow> RoundingMode \<Rightarrow> amount_error + string" where
  "multiplyAmountByRatio value numerator denominator rounding =
     (if denominator \<le> 0 then Inl DenominatorNotPositive
      else if numerator < 0 then Inl NumeratorNegative
      else case toUnits value of Inl e \<Rightarrow> Inl e | Inr u \<Rightarrow>
        (let scaled = u * numerator;
             quotient = scaled div denominator;
             remainder = scaled mod denominator;
             units = (if rounding = Ceil \<and> remainder > 0 then quotient + 1
                      else if rounding = HalfUp \<and> remainder * 2 \<ge> denominator then quotient + 1
                      else quotient)
         in if units > MAX_AMOUNT_UNITS then Inl AmountOverflow else fromUnits units))"

record ProRataShare =
  share_key :: string
  weight :: int

record ProRataAllocation =
  alloc_key :: string
  alloc_amount :: string
  alloc_units :: int

text \<open>
  The loop \<open>for (let i = 0; leftover > 0n; i = (i + 1) % order.length)\<close>: one unit to
  \<open>order[i]\<close> per turn, \<open>leftover\<close> turns.
\<close>

fun spread :: "nat list \<Rightarrow> nat \<Rightarrow> int list \<Rightarrow> nat \<Rightarrow> int list" where
  "spread order i units 0 = units"
| "spread order i units (Suc leftover) =
     spread order ((i + 1) mod length order)
       (units[order ! i := units ! (order ! i) + 1]) leftover"

definition floors_of :: "int \<Rightarrow> int list \<Rightarrow> int list" where
  "floors_of totalUnits ws = map (\<lambda>w. (totalUnits * w) div sum_list ws) ws"

definition remainders_of :: "int \<Rightarrow> int list \<Rightarrow> int list" where
  "remainders_of totalUnits ws =
     map (\<lambda>w. totalUnits * w - ((totalUnits * w) div sum_list ws) * sum_list ws) ws"

text \<open>The comparator: larger remainder first, input order on ties.\<close>

definition alloc_order :: "int list \<Rightarrow> nat list" where
  "alloc_order remainders = sort_key (\<lambda>i. (- (remainders ! i), i)) [0 ..< length remainders]"

definition alloc_units_of :: "int \<Rightarrow> int list \<Rightarrow> int list" where
  "alloc_units_of totalUnits ws =
     (let floors = floors_of totalUnits ws;
          leftover = totalUnits - sum_list floors
      in spread (alloc_order (remainders_of totalUnits ws)) 0 floors (nat leftover))"

definition allocateProRata ::
  "string \<Rightarrow> ProRataShare list \<Rightarrow> amount_error + ProRataAllocation list" where
  "allocateProRata totalAmount shares =
     (case toUnits totalAmount of Inl e \<Rightarrow> Inl e | Inr totalUnits \<Rightarrow>
        if shares = [] then (if totalUnits = 0 then Inr [] else Inl NonZeroTotalZeroShares)
        else if \<exists>s \<in> set shares. weight s < 0 then Inl InvalidWeight
        else let ws = map weight shares; weightSum = sum_list ws in
          if weightSum = 0 then
            (if totalUnits = 0
             then Inr (map (\<lambda>s. \<lparr>alloc_key = share_key s, alloc_amount = ''0'', alloc_units = 0\<rparr>) shares)
             else Inl NonZeroTotalZeroWeight)
          else
            map_result (\<lambda>(s, u). case fromUnits u of Inl e \<Rightarrow> Inl e
                | Inr a \<Rightarrow> Inr \<lparr>alloc_key = share_key s, alloc_amount = a, alloc_units = u\<rparr>)
              (zip shares (alloc_units_of totalUnits ws)))"

fun sum_units :: "int \<Rightarrow> string list \<Rightarrow> amount_error + int" where
  "sum_units units [] = Inr units"
| "sum_units units (v # vs) =
     (case toUnits v of Inl e \<Rightarrow> Inl e | Inr u \<Rightarrow>
        if units + u > MAX_AMOUNT_UNITS then Inl AmountOverflow else sum_units (units + u) vs)"

definition sumAmounts :: "string list \<Rightarrow> amount_error + string" where
  "sumAmounts values = (case sum_units 0 values of Inl e \<Rightarrow> Inl e | Inr u \<Rightarrow> fromUnits u)"

section \<open>The pattern and its value\<close>

lemma scale_eq [simp]: "AMOUNT_SCALE = 10000000"
  by (simp add: AMOUNT_SCALE_def AMOUNT_DECIMALS_def)

lemma max_amount_is_i128_max: "MAX_AMOUNT_VALUE = 2 ^ 127 - 1"
  by (simp add: MAX_AMOUNT_VALUE_def)

lemma max_units_pos [simp]: "0 \<le> MAX_AMOUNT_UNITS" "0 < MAX_AMOUNT_UNITS"
  by (simp_all add: MAX_AMOUNT_UNITS_def MAX_AMOUNT_VALUE_def)

lemma digits_no_dot: "list_all is_digit s \<Longrightarrow> CHR ''.'' \<notin> set s"
  by (auto simp: list_all_iff)

lemma whole_ok_digits: "whole_ok w \<Longrightarrow> list_all is_digit w"
  by (auto simp: whole_ok_def)

lemma pattern_whole [simp]: "list_all is_digit w \<Longrightarrow> AMOUNT_PATTERN w = whole_ok w"
  by (simp add: AMOUNT_PATTERN_def split_on_absent digits_no_dot)

lemma split_dot:
  "list_all is_digit w \<Longrightarrow> list_all is_digit f \<Longrightarrow> split_on CHR ''.'' (w @ CHR ''.'' # f) = [w, f]"
  by (simp add: split_on_append split_on_absent digits_no_dot)

lemma pattern_fraction [simp]:
  "list_all is_digit w \<Longrightarrow> list_all is_digit f \<Longrightarrow>
     AMOUNT_PATTERN (w @ CHR ''.'' # f) = (whole_ok w \<and> fraction_ok f)"
  by (simp add: AMOUNT_PATTERN_def split_dot)

lemma units_whole [simp]:
  "list_all is_digit w \<Longrightarrow> toUnitsUnchecked w = int (text_nat w) * AMOUNT_SCALE"
  by (simp add: toUnitsUnchecked_def split_on_absent digits_no_dot)

lemma units_fraction:
  assumes "list_all is_digit w" "list_all is_digit f" "length f \<le> 7"
  shows "toUnitsUnchecked (w @ CHR ''.'' # f) =
    int (text_nat w) * AMOUNT_SCALE + int (text_nat (pad_end 7 CHR ''0'' f))"
proof -
  have "take 7 (f @ replicate 7 CHR ''0'') = pad_end 7 CHR ''0'' f"
    using assms(3) by (simp add: pad_end_def take_replicate min_def)
  with assms show ?thesis by (simp add: toUnitsUnchecked_def split_dot AMOUNT_DECIMALS_def)
qed

lemma units_nonneg [simp]: "0 \<le> toUnitsUnchecked s"
  by (simp add: toUnitsUnchecked_def Let_def)

lemma toUnits_valid: "toUnits s = Inr u \<longleftrightarrow> isValidAmountString s \<and> u = toUnitsUnchecked s"
  by (auto simp: toUnits_def isValidAmountString_def Let_def)

lemma toUnits_range: "toUnits s = Inr u \<Longrightarrow> 0 \<le> u \<and> u \<le> MAX_AMOUNT_UNITS"
  by (auto simp: toUnits_def Let_def split: if_splits)

lemma valid_toUnits: "isValidAmountString s \<Longrightarrow> toUnits s = Inr (toUnitsUnchecked s)"
  by (simp add: toUnits_valid)

section \<open>Printing\<close>

text \<open>The fraction text: seven padded digits with the trailing zeros stripped.\<close>

definition fraction_text :: "nat \<Rightarrow> string" where
  "fraction_text n = strip_end CHR ''0'' (pad_start 7 CHR ''0'' (nat_text n))"

lemma padded_fraction:
  assumes "n < 10000000"
  shows "length (pad_start 7 CHR ''0'' (nat_text n)) = 7"
    and "list_all is_digit (pad_start 7 CHR ''0'' (nat_text n))"
    and "text_nat (pad_start 7 CHR ''0'' (nat_text n)) = n"
proof -
  have "length (nat_text n) \<le> 7" using assms by (intro length_nat_text) auto
  then show "length (pad_start 7 CHR ''0'' (nat_text n)) = 7" by simp
  have "is_digit CHR ''0''" by simp
  then show "list_all is_digit (pad_start 7 CHR ''0'' (nat_text n))"
    using nat_text_digits [of n] by (auto simp: pad_start_def list_all_iff)
  show "text_nat (pad_start 7 CHR ''0'' (nat_text n)) = n"
    by (simp add: pad_start_def text_nat_append)
qed

lemma fraction_text_props:
  assumes "n < 10000000"
  shows "list_all is_digit (fraction_text n)"
    and "length (fraction_text n) \<le> 7"
    and "text_nat (pad_end 7 CHR ''0'' (fraction_text n)) = n"
    and "0 < n \<Longrightarrow> fraction_text n \<noteq> []"
proof -
  let ?p = "pad_start 7 CHR ''0'' (nat_text n)"
  note p = padded_fraction [OF assms]
  obtain k where k: "?p = fraction_text n @ replicate k CHR ''0''"
    using strip_end_replicate [of ?p "CHR ''0''"] by (auto simp: fraction_text_def)
  then have len: "length (fraction_text n) + k = 7"
    using p(1) by (metis length_append length_replicate)
  show "list_all is_digit (fraction_text n)" using p(2) k by (metis list_all_append)
  show "length (fraction_text n) \<le> 7" using len by simp
  have "7 - length (fraction_text n) = k" using len by simp
  then have "pad_end 7 CHR ''0'' (fraction_text n) = ?p" using k by (simp add: pad_end_def)
  then show "text_nat (pad_end 7 CHR ''0'' (fraction_text n)) = n" using p(3) by simp
  show "fraction_text n \<noteq> []" if "0 < n"
  proof
    assume "fraction_text n = []"
    with k p(3) have "n = text_nat (replicate k CHR ''0'')" by simp
    with that show False by simp
  qed
qed

lemma nat_text_whole_ok: "n < 10 ^ 39 \<Longrightarrow> whole_ok (nat_text n)"
proof -
  assume "n < 10 ^ 39"
  then have "length (nat_text n) \<le> 39" by (intro length_nat_text) auto
  moreover have "nat_text 0 = ''0''" by (subst nat_text.simps) simp
  moreover have "hd (nat_text n) \<noteq> CHR ''0''" if "n \<noteq> 0" using that hd_nat_text by simp
  ultimately show ?thesis by (cases "n = 0") (auto simp: whole_ok_def)
qed

lemma fromUnits_def':
  "0 \<le> u \<Longrightarrow> u \<le> MAX_AMOUNT_UNITS \<Longrightarrow>
     fromUnits u = Inr (if u mod AMOUNT_SCALE = 0 then nat_text (nat (u div AMOUNT_SCALE))
        else nat_text (nat (u div AMOUNT_SCALE)) @ CHR ''.'' # fraction_text (nat (u mod AMOUNT_SCALE)))"
  by (simp add: fromUnits_def fraction_text_def AMOUNT_DECIMALS_def Let_def)

lemma whole_bound:
  assumes "0 \<le> u" "u \<le> MAX_AMOUNT_UNITS"
  shows "nat (u div AMOUNT_SCALE) < 10 ^ 39"
proof -
  have "u div AMOUNT_SCALE \<le> MAX_AMOUNT_UNITS div AMOUNT_SCALE"
    using assms by (intro zdiv_mono1) simp_all
  also have "\<dots> < 10 ^ 39" by (simp add: MAX_AMOUNT_UNITS_def MAX_AMOUNT_VALUE_def)
  finally show ?thesis using assms by (simp add: nat_less_iff)
qed

lemma fromUnits_toUnits:
  assumes "0 \<le> u" "u \<le> MAX_AMOUNT_UNITS"
  shows "\<exists>s. fromUnits u = Inr s \<and> AMOUNT_PATTERN s \<and> toUnits s = Inr u"
proof (cases "u mod AMOUNT_SCALE = 0")
  case True
  let ?s = "nat_text (nat (u div AMOUNT_SCALE))"
  have "AMOUNT_PATTERN ?s" using nat_text_whole_ok [OF whole_bound [OF assms]] by simp
  moreover have "toUnitsUnchecked ?s = u"
  proof -
    have "toUnitsUnchecked ?s = u div AMOUNT_SCALE * AMOUNT_SCALE + u mod AMOUNT_SCALE"
      using assms True by (simp add: pos_imp_zdiv_nonneg_iff)
    also have "\<dots> = u" by (rule div_mult_mod_eq)
    finally show ?thesis .
  qed
  ultimately have "toUnits ?s = Inr u" using assms by (simp add: toUnits_def)
  with \<open>AMOUNT_PATTERN ?s\<close> show ?thesis using assms True by (simp add: fromUnits_def')
next
  case False
  let ?w = "nat_text (nat (u div AMOUNT_SCALE))" and ?n = "nat (u mod AMOUNT_SCALE)"
  let ?s = "?w @ CHR ''.'' # fraction_text ?n"
  have "0 \<le> u mod AMOUNT_SCALE" "u mod AMOUNT_SCALE < AMOUNT_SCALE" by simp_all
  with False have n: "?n < 10000000" "0 < ?n" by simp_all
  note f = fraction_text_props [OF n(1)]
  from f(4) [OF n(2)] have ne: "1 \<le> length (fraction_text ?n)" by (cases "fraction_text ?n") auto
  have "AMOUNT_PATTERN ?s"
    using f ne nat_text_whole_ok [OF whole_bound [OF assms]] by (simp add: fraction_ok_def)
  moreover have "toUnitsUnchecked ?s = u"
  proof -
    have "toUnitsUnchecked ?s = int (nat (u div AMOUNT_SCALE)) * AMOUNT_SCALE + int ?n"
      using f by (simp add: units_fraction)
    also have "\<dots> = u div AMOUNT_SCALE * AMOUNT_SCALE + u mod AMOUNT_SCALE"
      using assms by (simp add: pos_imp_zdiv_nonneg_iff)
    also have "\<dots> = u" by (rule div_mult_mod_eq)
    finally show ?thesis .
  qed
  ultimately have "toUnits ?s = Inr u" using assms by (simp add: toUnits_def)
  with \<open>AMOUNT_PATTERN ?s\<close> show ?thesis using assms False by (simp add: fromUnits_def')
qed

lemma fromUnits_ok:
  "fromUnits u = Inr s \<longleftrightarrow> 0 \<le> u \<and> u \<le> MAX_AMOUNT_UNITS \<and> s = projr (fromUnits u)"
  by (auto simp: fromUnits_def Let_def)

lemma fromUnits_units: "fromUnits u = Inr s \<Longrightarrow> toUnits s = Inr u"
  using fromUnits_toUnits [of u] fromUnits_ok [of u s] by auto

section \<open>Interface of the amount text\<close>

text \<open>
  What the ledger services use of this module: strings are read to units and units printed back.
\<close>

locale amount_codec =
  fixes decode :: "'t \<Rightarrow> 'e + int"
    and encode :: "int \<Rightarrow> 'e + 't"
    and limit :: int
  assumes decode_range: "decode t = Inr u \<Longrightarrow> 0 \<le> u \<and> u \<le> limit"
    and encode_decode: "0 \<le> u \<Longrightarrow> u \<le> limit \<Longrightarrow> \<exists>t. encode u = Inr t \<and> decode t = Inr u"
begin

lemma encode_inj: "\<lbrakk>0 \<le> u; u \<le> limit; 0 \<le> v; v \<le> limit; encode u = encode v\<rbrakk> \<Longrightarrow> u = v"
  using encode_decode [of u] encode_decode [of v] by auto

text \<open>Printing what was read is a fixed point of reading and printing.\<close>

lemma canonical_idem:
  assumes "decode t = Inr u" "encode u = Inr c"
  shows "decode c = Inr u"
  using decode_range [OF assms(1)] encode_decode [of u] assms(2) by auto

lemma canonical_exists: "decode t = Inr u \<Longrightarrow> \<exists>c. encode u = Inr c \<and> decode c = Inr u"
  using decode_range encode_decode by blast

lemma canonical_eq_iff:
  assumes "decode t = Inr u" "decode t' = Inr u'"
  shows "encode u = encode u' \<longleftrightarrow> u = u'"
  using assms decode_range encode_inj by blast

end

interpretation amt: amount_codec toUnits fromUnits MAX_AMOUNT_UNITS
  by unfold_locales (use toUnits_range fromUnits_toUnits in blast)+

section \<open>Arithmetic on amounts\<close>

lemma addAmounts_cases:
  assumes "toUnits a = Inr ua" "toUnits b = Inr ub"
  shows "ua + ub \<le> MAX_AMOUNT_UNITS \<Longrightarrow> \<exists>s. addAmounts a b = Inr s \<and> toUnits s = Inr (ua + ub)"
    and "MAX_AMOUNT_UNITS < ua + ub \<Longrightarrow> addAmounts a b = Inl AmountOverflow"
  using toUnits_range [OF assms(1)] toUnits_range [OF assms(2)] fromUnits_toUnits [of "ua + ub"] assms
  by (auto simp: addAmounts_def)

lemma sum_units_Inr:
  "sum_units u0 vs = Inr u \<Longrightarrow> 0 \<le> u0 \<Longrightarrow> u0 \<le> MAX_AMOUNT_UNITS \<Longrightarrow>
     (\<forall>v \<in> set vs. isValidAmountString v) \<and> u = u0 + sum_list (map toUnitsUnchecked vs)
     \<and> u \<le> MAX_AMOUNT_UNITS"
proof (induction vs arbitrary: u0)
  case (Cons v vs)
  then obtain w where w: "toUnits v = Inr w" "u0 + w \<le> MAX_AMOUNT_UNITS" "sum_units (u0 + w) vs = Inr u"
    by (auto split: sum.splits if_splits)
  with Cons.IH [of "u0 + w"] Cons.prems toUnits_range [OF w(1)] show ?case
    by (auto simp: toUnits_valid)
qed auto

lemma sum_units_total:
  assumes "\<forall>v \<in> set vs. isValidAmountString v" "0 \<le> u0"
    "u0 + sum_list (map toUnitsUnchecked vs) \<le> MAX_AMOUNT_UNITS"
  shows "sum_units u0 vs = Inr (u0 + sum_list (map toUnitsUnchecked vs))"
  using assms
proof (induction vs arbitrary: u0)
  case (Cons v vs)
  have "0 \<le> sum_list (map toUnitsUnchecked vs)" by (intro sum_list_nonneg_int) auto
  with Cons show ?case by (simp add: valid_toUnits add.assoc)
qed simp

lemma sum_units_Inl:
  assumes "sum_units u0 vs = Inl e" "\<forall>v \<in> set vs. isValidAmountString v"
  shows "e = AmountOverflow"
  using assms
  by (induction vs arbitrary: u0) (auto simp: valid_toUnits split: sum.splits if_splits)

lemma sumAmounts_in_range:
  assumes "\<forall>v \<in> set vs. isValidAmountString v" "sum_list (map toUnitsUnchecked vs) \<le> MAX_AMOUNT_UNITS"
  shows "\<exists>s. sumAmounts vs = Inr s \<and> toUnits s = Inr (sum_list (map toUnitsUnchecked vs))"
proof -
  have nn: "0 \<le> sum_list (map toUnitsUnchecked vs)" by (intro sum_list_nonneg_int) auto
  have "sum_units 0 vs = Inr (sum_list (map toUnitsUnchecked vs))"
    using sum_units_total [OF assms(1), of 0] assms(2) by simp
  with fromUnits_toUnits [OF nn assms(2)] show ?thesis by (auto simp: sumAmounts_def)
qed

lemma sumAmounts_overflow:
  assumes "\<forall>v \<in> set vs. isValidAmountString v" "\<not> sum_list (map toUnitsUnchecked vs) \<le> MAX_AMOUNT_UNITS"
  shows "sumAmounts vs = Inl AmountOverflow"
proof -
  have "sum_units 0 vs \<noteq> Inr u" for u using sum_units_Inr [of 0 vs u] assms(2) by auto
  then obtain e where e: "sum_units 0 vs = Inl e" by (cases "sum_units 0 vs") auto
  with sum_units_Inl [OF e assms(1)] show ?thesis by (simp add: sumAmounts_def)
qed

section \<open>The largest-remainder allocation\<close>

lemma length_spread [simp]: "length (spread order i units k) = length units"
  by (induction order i units k rule: spread.induct) auto

lemma sum_spread:
  "\<lbrakk>\<forall>j \<in> set order. j < length units; i < length order\<rbrakk> \<Longrightarrow>
     sum_list (spread order i units k) = sum_list units + int k"
proof (induction order i units k rule: spread.induct)
  case (2 order i units k)
  then have "(i + 1) mod length order < length order" by (intro mod_less_divisor) auto
  with 2 show ?case by (simp add: sum_list_update_int)
qed simp

lemma nth_spread:
  "\<lbrakk>distinct order; \<forall>j \<in> set order. j < length units; i + k \<le> length order; j < length units\<rbrakk> \<Longrightarrow>
     spread order i units k ! j = units ! j + (if j \<in> set (take k (drop i order)) then 1 else 0)"
proof (induction order i units k rule: spread.induct)
  case (2 order i units k)
  let ?u = "units[order ! i := units ! (order ! i) + 1]"
  have i: "i < length order" using "2.prems" by simp
  have drop: "drop i order = order ! i # drop (Suc i) order" using i by (rule Cons_nth_drop_Suc [symmetric])
  have notin: "order ! i \<notin> set (drop (Suc i) order)"
    using "2.prems"(1) drop by (metis distinct.simps(2) distinct_drop)
  have IH: "spread order ((i + 1) mod length order) ?u k ! j =
      ?u ! j + (if j \<in> set (take k (drop (Suc i) order)) then 1 else 0)"
  proof (cases "Suc i < length order")
    case True
    with "2.IH" "2.prems" show ?thesis by simp
  next
    case False
    with "2.prems" have "k = 0" by simp
    then show ?thesis by simp
  qed
  show ?case
    using IH drop notin "2.prems" i
    by (auto simp: nth_list_update dest: in_set_takeD)
qed simp

lemma length_floors [simp]: "length (floors_of t ws) = length ws"
  by (simp add: floors_of_def)

lemma length_remainders [simp]: "length (remainders_of t ws) = length ws"
  by (simp add: remainders_of_def)

lemma remainders_mod: "remainders_of t ws = map (\<lambda>w. (t * w) mod sum_list ws) ws"
  by (simp add: remainders_of_def minus_div_mult_eq_mod)

lemma alloc_order_props:
  "distinct (alloc_order rs)" "set (alloc_order rs) = {..<length rs}"
  "length (alloc_order rs) = length rs"
  by (auto simp: alloc_order_def)

lemma alloc_order_desc:
  assumes "p \<le> q" "q < length rs"
  shows "rs ! (alloc_order rs ! q) \<le> rs ! (alloc_order rs ! p)"
proof -
  let ?key = "\<lambda>i. (- (rs ! i), i)"
  have "sorted (map ?key (alloc_order rs))" by (simp add: alloc_order_def)
  with assms have "?key (alloc_order rs ! p) \<le> ?key (alloc_order rs ! q)"
    using sorted_nth_mono [of "map ?key (alloc_order rs)" p q] by (simp add: alloc_order_props)
  then show ?thesis by auto
qed

lemma sum_by_order: "sum_list (map (\<lambda>i. rs ! i) (alloc_order rs)) = sum_list (rs :: int list)"
proof -
  have "mset (alloc_order rs) = mset [0 ..< length rs]" by (simp add: alloc_order_def)
  then have "mset (map (\<lambda>i. rs ! i) (alloc_order rs)) = mset (map (\<lambda>i. rs ! i) [0 ..< length rs])"
    by (simp only: mset_map)
  then have "sum_list (map (\<lambda>i. rs ! i) (alloc_order rs)) = sum_list (map (\<lambda>i. rs ! i) [0 ..< length rs])"
    by (metis sum_mset_sum_list)
  then show ?thesis by (simp add: map_nth)
qed

text \<open>The units left over after the floors, as a sum of remainders.\<close>

lemma leftover_remainders:
  assumes "0 < sum_list ws"
  shows "(t - sum_list (floors_of t ws)) * sum_list ws = sum_list (remainders_of t ws)"
proof -
  have "sum_list (map (\<lambda>w. t * w) ws) = t * sum_list ws" by (simp add: sum_list_const_mult)
  then show ?thesis
    using sum_list_mod_div [of "\<lambda>w. t * w" "sum_list ws" ws]
    by (simp add: floors_of_def remainders_mod left_diff_distrib)
qed

lemma leftover_bounds:
  assumes "0 < sum_list ws"
  shows "0 \<le> t - sum_list (floors_of t ws)" "t - sum_list (floors_of t ws) < int (length ws)"
proof -
  let ?L = "t - sum_list (floors_of t ws)" and ?W = "sum_list ws"
  note eq = leftover_remainders [OF assms, of t]
  have nonneg: "0 \<le> sum_list (remainders_of t ws)"
    using assms by (intro sum_list_nonneg_int) (auto simp: remainders_mod)
  then show "0 \<le> ?L" using eq assms by (metis linorder_not_le mult_neg_pos)
  have "ws \<noteq> []" using assms by auto
  have "sum_list (remainders_of t ws) \<le> int (length ws) * (?W - 1)"
    using sum_list_bound_int [of "remainders_of t ws" "?W - 1"] assms by (auto simp: remainders_mod)
  also have "\<dots> < int (length ws) * ?W" using \<open>ws \<noteq> []\<close> by simp
  finally show "?L < int (length ws)" using eq assms by (metis mult_less_cancel_right_pos)
qed

text \<open>Only shares with a non-zero remainder receive one of the leftover units.\<close>

lemma leftover_to_nonzero:
  assumes W: "0 < sum_list ws" and nn: "\<forall>w \<in> set ws. 0 \<le> w"
    and j: "j \<in> set (take (nat (t - sum_list (floors_of t ws))) (alloc_order (remainders_of t ws)))"
  shows "0 < remainders_of t ws ! j"
proof -
  let ?rs = "remainders_of t ws" and ?L = "t - sum_list (floors_of t ws)"
  let ?o = "alloc_order ?rs"
  have r0: "0 \<le> x \<and> x < sum_list ws" if "x \<in> set ?rs" for x
    using that W by (auto simp: remainders_mod)
  from j obtain p where p: "p < nat ?L" "p < length ws" "j = ?o ! p"
    by (auto simp: in_set_conv_nth alloc_order_props)
  then have jl: "j < length ws" using alloc_order_props(2,3) [of ?rs] by (metis length_remainders lessThan_iff nth_mem)
  show ?thesis
  proof (rule ccontr)
    assume "\<not> ?thesis"
    then have "?rs ! j = 0" using r0 [of "?rs ! j"] jl by (metis length_remainders nth_mem order_le_less)
    then have tail: "?rs ! (?o ! q) \<le> 0" if "p \<le> q" "q < length ws" for q
      using alloc_order_desc [of p q ?rs] that p by simp
    have "sum_list ?rs = sum_list (map (\<lambda>i. ?rs ! i) (take p ?o)) + sum_list (map (\<lambda>i. ?rs ! i) (drop p ?o))"
      using sum_by_order [of ?rs] by (metis append_take_drop_id map_append sum_list_append)
    moreover have "sum_list (map (\<lambda>i. ?rs ! i) (drop p ?o)) \<le> 0"
    proof -
      have "\<forall>x \<in> set (drop p ?o). ?rs ! x \<le> 0"
        using tail by (auto simp: in_set_conv_nth alloc_order_props)
      then show ?thesis using sum_list_bound_int [of "map (\<lambda>i. ?rs ! i) (drop p ?o)" 0] by simp
    qed
    moreover have "sum_list (map (\<lambda>i. ?rs ! i) (take p ?o)) \<le> int p * sum_list ws"
    proof -
      have "?rs ! i \<le> sum_list ws" if "i \<in> set ?o" for i
        using r0 [of "?rs ! i"] that alloc_order_props(2) [of ?rs] by simp
      then have "\<forall>x \<in> set (take p ?o). ?rs ! x \<le> sum_list ws" by (auto dest: in_set_takeD)
      then show ?thesis
        using sum_list_bound_int [of "map (\<lambda>i. ?rs ! i) (take p ?o)" "sum_list ws"] p
        by (simp add: alloc_order_props)
    qed
    ultimately have "?L * sum_list ws \<le> int p * sum_list ws"
      using leftover_remainders [OF W, of t] by simp
    with W have "?L \<le> int p" by simp
    with p(1) show False by simp
  qed
qed

lemma alloc_units_sum:
  assumes "0 < sum_list ws"
  shows "sum_list (alloc_units_of t ws) = t"
proof -
  have "ws \<noteq> []" using assms by auto
  then have "sum_list (alloc_units_of t ws) =
      sum_list (floors_of t ws) + int (nat (t - sum_list (floors_of t ws)))"
    by (simp add: alloc_units_of_def Let_def sum_spread alloc_order_props)
  then show ?thesis using leftover_bounds(1) [OF assms, of t] by simp
qed

lemma alloc_units_nth:
  assumes "0 < sum_list ws" "j < length ws"
  shows "alloc_units_of t ws ! j = (t * ws ! j) div sum_list ws +
    (if j \<in> set (take (nat (t - sum_list (floors_of t ws))) (alloc_order (remainders_of t ws)))
     then 1 else 0)"
  using leftover_bounds [OF assms(1), of t] assms
  by (simp add: alloc_units_of_def Let_def nth_spread alloc_order_props floors_of_def)

lemma alloc_units_nonneg:
  assumes "0 < sum_list ws" "\<forall>w \<in> set ws. 0 \<le> w" "0 \<le> t" "u \<in> set (alloc_units_of t ws)"
  shows "0 \<le> u"
proof -
  have "length (alloc_units_of t ws) = length ws" by (simp add: alloc_units_of_def Let_def)
  with assms obtain j where "j < length ws" "u = alloc_units_of t ws ! j"
    by (metis in_set_conv_nth)
  with assms show ?thesis by (simp add: alloc_units_nth pos_imp_zdiv_nonneg_iff)
qed

lemma alloc_units_zero_weight:
  assumes "0 < sum_list ws" "\<forall>w \<in> set ws. 0 \<le> w" "j < length ws" "ws ! j = 0"
  shows "alloc_units_of t ws ! j = 0"
  using leftover_to_nonzero [OF assms(1,2), of j t] assms
  by (auto simp: alloc_units_nth remainders_mod)

lemma allocateProRata_units:
  assumes tot: "toUnits totalAmount = Inr t" and sh: "\<forall>s \<in> set shares. 0 \<le> weight s"
    and W: "0 < sum_list (map weight shares)"
  shows "\<exists>allocs. allocateProRata totalAmount shares = Inr allocs
    \<and> map alloc_units allocs = alloc_units_of t (map weight shares)
    \<and> map alloc_key allocs = map share_key shares
    \<and> (\<forall>a \<in> set allocs. toUnits (alloc_amount a) = Inr (alloc_units a))"
proof -
  let ?ws = "map weight shares" and ?us = "alloc_units_of t (map weight shares)"
  let ?g = "\<lambda>(s, u). \<lparr>alloc_key = share_key s, alloc_amount = projr (fromUnits u), alloc_units = u\<rparr>"
  have t: "0 \<le> t" "t \<le> MAX_AMOUNT_UNITS" using toUnits_range [OF tot] by auto
  have ws: "\<forall>w \<in> set ?ws. 0 \<le> w" using sh by auto
  have len: "length ?us = length shares" by (simp add: alloc_units_of_def Let_def)
  have rng: "0 \<le> u \<and> u \<le> MAX_AMOUNT_UNITS" if "u \<in> set ?us" for u
  proof -
    have "u \<le> sum_list ?us" using alloc_units_nonneg [OF W ws t(1)] that by (intro sum_list_member_le)
    with alloc_units_nonneg [OF W ws t(1) that] alloc_units_sum [OF W, of t] t show ?thesis by simp
  qed
  have fu: "fromUnits u = Inr (projr (fromUnits u))" if "u \<in> set ?us" for u
    using rng [OF that] fromUnits_toUnits [of u] by auto
  have "map_result (\<lambda>(s, u). case fromUnits u of Inl e \<Rightarrow> Inl e
         | Inr a \<Rightarrow> Inr \<lparr>alloc_key = share_key s, alloc_amount = a, alloc_units = u\<rparr>) (zip shares ?us)
       = Inr (map ?g (zip shares ?us))"
    using fu by (intro map_result_total) (force dest: set_zip_rightD split: sum.splits)
  moreover have "shares \<noteq> []" using W by auto
  ultimately have "allocateProRata totalAmount shares = Inr (map ?g (zip shares ?us))"
    using tot sh W by (auto simp: allocateProRata_def Let_def not_less)
  moreover have "map alloc_units (map ?g (zip shares ?us)) = ?us"
    "map alloc_key (map ?g (zip shares ?us)) = map share_key shares"
    using len by (auto intro!: nth_equalityI)
  moreover have "\<forall>a \<in> set (map ?g (zip shares ?us)). toUnits (alloc_amount a) = Inr (alloc_units a)"
    using fu fromUnits_units by (fastforce dest: set_zip_rightD)
  ultimately show ?thesis by blast
qed

section \<open>Properties\<close>

text \<open>
  Round trip of the amount text: every number of units in range prints to a string that the
  database pattern accepts and that reads back to exactly the same units.
\<close>

theorem amount_print_parse:
  assumes "0 \<le> u" "u \<le> MAX_AMOUNT_UNITS"
  shows "\<exists>s. fromUnits u = Inr s \<and> isValidAmountString s \<and> toUnits s = Inr u"
  using fromUnits_toUnits [OF assms] by (auto simp: toUnits_valid)

theorem amount_print_parse_witness:
  "fromUnits 50 = Inr ''0.000005'' \<and> isValidAmountString ''0.000005'' \<and> toUnits ''0.000005'' = Inr 50"
proof -
  have h: "(0::int) \<le> 50" "50 \<le> MAX_AMOUNT_UNITS"
    by (simp_all add: MAX_AMOUNT_UNITS_def MAX_AMOUNT_VALUE_def)
  have f: "fromUnits 50 = Inr ''0.000005''" by code_simp
  show ?thesis using amount_print_parse [OF h] f by auto
qed

text \<open>
  (C6) The largest-remainder allocation conserves money: on a valid total and non-negative
  weights with a positive sum it always returns, one allocation per share and in the order of the
  shares; the allocated units sum to the total exactly, every allocation is the floor of its
  proportional part or one unit more, a share of weight zero receives zero, and every printed
  amount reads back to its units.
\<close>

theorem allocateProRata_conserves:
  assumes "toUnits totalAmount = Inr t" and "\<forall>s \<in> set shares. 0 \<le> weight s"
    and "0 < sum_list (map weight shares)"
  shows "\<exists>allocs. allocateProRata totalAmount shares = Inr allocs
    \<and> map alloc_key allocs = map share_key shares
    \<and> sum_list (map alloc_units allocs) = t
    \<and> (\<forall>a \<in> set allocs. toUnits (alloc_amount a) = Inr (alloc_units a))
    \<and> (\<forall>j < length shares.
         let floor_part = (t * weight (shares ! j)) div sum_list (map weight shares) in
         (alloc_units (allocs ! j) = floor_part \<or> alloc_units (allocs ! j) = floor_part + 1)
         \<and> (weight (shares ! j) = 0 \<longrightarrow> alloc_units (allocs ! j) = 0))"
proof -
  let ?ws = "map weight shares"
  have ws: "\<forall>w \<in> set ?ws. 0 \<le> w" using assms(2) by auto
  obtain allocs where a: "allocateProRata totalAmount shares = Inr allocs"
    "map alloc_units allocs = alloc_units_of t ?ws" "map alloc_key allocs = map share_key shares"
    "\<forall>a \<in> set allocs. toUnits (alloc_amount a) = Inr (alloc_units a)"
    using allocateProRata_units [OF assms] by blast
  have len: "length allocs = length shares" using a(3) by (metis length_map)
  have nth: "alloc_units (allocs ! j) = alloc_units_of t ?ws ! j" if "j < length shares" for j
    using that len a(2) by (metis nth_map)
  have "sum_list (map alloc_units allocs) = t" using a(2) alloc_units_sum [OF assms(3)] by simp
  moreover have "let floor_part = (t * weight (shares ! j)) div sum_list ?ws in
         (alloc_units (allocs ! j) = floor_part \<or> alloc_units (allocs ! j) = floor_part + 1)
         \<and> (weight (shares ! j) = 0 \<longrightarrow> alloc_units (allocs ! j) = 0)" if "j < length shares" for j
    using that nth [OF that] alloc_units_nth [OF assms(3), of j t]
      alloc_units_zero_weight [OF assms(3) ws, of j t] by (simp add: Let_def)
  ultimately show ?thesis using a by blast
qed

theorem allocateProRata_conserves_witness:
  "\<exists>allocs. allocateProRata ''0.0000005''
     [\<lparr>share_key = ''a'', weight = 1\<rparr>, \<lparr>share_key = ''b'', weight = 0\<rparr>, \<lparr>share_key = ''c'', weight = 1\<rparr>]
       = Inr allocs \<and> sum_list (map alloc_units allocs) = 5"
proof -
  let ?sh = "[\<lparr>share_key = ''a'', weight = 1\<rparr>, \<lparr>share_key = ''b'', weight = 0\<rparr>,
    \<lparr>share_key = ''c'', weight = 1\<rparr>]"
  have h1: "toUnits ''0.0000005'' = Inr 5" by code_simp
  have h2: "\<forall>s \<in> set ?sh. 0 \<le> weight s" and h3: "0 < sum_list (map weight ?sh)" by simp_all
  show ?thesis using allocateProRata_conserves [OF h1 h2 h3] by blast
qed

text \<open>
  Summing amounts is exact and total: on valid amounts the sum is printed exactly when it
  is in range, and the only failure is the overflow error when it is not.
\<close>

theorem sumAmounts_exact:
  assumes "\<forall>v \<in> set vs. isValidAmountString v"
  shows "if sum_list (map toUnitsUnchecked vs) \<le> MAX_AMOUNT_UNITS
    then \<exists>s. sumAmounts vs = Inr s \<and> toUnits s = Inr (sum_list (map toUnitsUnchecked vs))
    else sumAmounts vs = Inl AmountOverflow"
  using sumAmounts_in_range [OF assms] sumAmounts_overflow [OF assms] by auto

theorem sumAmounts_exact_witness:
  "\<exists>s. sumAmounts [''0.0000012'', ''0.0000003''] = Inr s \<and> toUnits s = Inr 15"
proof -
  have h: "\<forall>v \<in> set [''0.0000012'', ''0.0000003'']. isValidAmountString v" by code_simp
  have "sum_list (map toUnitsUnchecked [''0.0000012'', ''0.0000003'']) = 15" by code_simp
  then show ?thesis
    using sumAmounts_exact [OF h] by (simp add: MAX_AMOUNT_UNITS_def MAX_AMOUNT_VALUE_def)
qed

end
