(* ===== verification/Ledger_Entities.thy ===== *)
theory Ledger_Entities
  imports Js_Text Js_Map
begin

text \<open>
  The two ledger tables shared by the services and the operator tooling:
  \<open>backend/src/entities/Transaction.ts\<close> (payout side) and
  \<open>backend/src/entities/LedgerBlock.ts\<close> (settlement side).
\<close>

datatype TransactionStatus = T_pending | T_completed | T_failed

record TransactionRecord =
  tx_id :: string
  tx_roundId :: string
  tx_recipient :: string
  tx_amount :: string
  tx_token :: string
  tx_timestamp :: int
  tx_txHash :: string
  tx_status :: TransactionStatus

datatype LedgerBlockType = B_settlement | B_milestone

record LedgerBlock =
  lb_id :: string
  lb_ledgerSeq :: int
  lb_txHash :: string
  lb_type :: LedgerBlockType
  lb_projectId :: "string option"
  lb_recipient :: "string option"
  lb_amount :: "string option"
  lb_ledgerClosedAt :: instant

definition settlements :: "LedgerBlock list \<Rightarrow> LedgerBlock list" where
  "settlements blocks = filter (\<lambda>b. lb_type b = B_settlement) blocks"

definition with_status :: "TransactionStatus \<Rightarrow> TransactionRecord list \<Rightarrow> TransactionRecord list" where
  "with_status st txs = filter (\<lambda>t. tx_status t = st) txs"

end
