(* ===== verification/Ledger_Invariants.thy ===== *)
theory Ledger_Invariants
  imports Ledger_Entities Decimal_Amounts
begin

text \<open>
  The balancing invariants INV-1 to INV-5 of the ledger
  (\<open>backend/src/services/ledger-invariants.ts\<close>). The report is built in the order of the code:
  the index of settlement entries by transaction hash, the row checks, the two exact totals, the
  aggregate comparison and the per-round summary. The human-readable messages are not modelled;
  \<open>localeCompare\<close> (the collation that orders the rounds of the report) is a parameter.
\<close>

section \<open>Model\<close>

datatype InvariantSeverity = Critical | Warning

record InvariantViolation =
  iv_invariantId :: string
  iv_severity :: InvariantSeverity
  iv_txHash :: "string option"
  iv_rowId :: "string option"

record RoundBalance =
  rb_roundId :: string
  rb_completedTotal :: string
  rb_settledTotal :: string
  rb_completedCount :: nat
  rb_settledCount :: nat

record LedgerBalanceReport =
  lr_balanced :: bool
  lr_violations :: "InvariantViolation list"
  lr_rounds :: "RoundBalance list"
  lr_transactionCount :: nat
  lr_settlementCount :: nat
  lr_completedTotal :: string
  lr_settledTotal :: string

text \<open>No caller of \<open>violation\<close> passes a severity, so the default applies.\<close>

definition violation :: "string \<Rightarrow> string option \<Rightarrow> string option \<Rightarrow> InvariantViolation" where
  "violation invariantId txHash rowId =
     \<lparr>iv_invariantId = invariantId, iv_severity = Critical, iv_txHash = txHash, iv_rowId = rowId\<rparr>"

definition blockAmount :: "LedgerBlock \<Rightarrow> string option" where
  "blockAmount block = lb_amount block"

definition settlementByTxHash :: "LedgerBlock list \<Rightarrow> (string, LedgerBlock list) jmap" where
  "settlementByTxHash ledgerBlocks = group_by lb_txHash (settlements ledgerBlocks)"

definition txByStatus ::
  "TransactionRecord list \<Rightarrow> (TransactionStatus, TransactionRecord list) jmap" where
  "txByStatus transactions = group_by tx_status transactions"

definition duplicate_settlements :: "(string, LedgerBlock list) jmap \<Rightarrow> InvariantViolation list" where
  "duplicate_settlements m =
     concat (map (\<lambda>(txHash, blocks).
       if length blocks > 1
       then [violation ''INV-5-duplicate-settlement-entry'' (Some txHash) (Some (lb_id (blocks ! 0)))]
       else []) m)"

definition inv1_transactions :: "TransactionRecord list \<Rightarrow> InvariantViolation list" where
  "inv1_transactions transactions =
     concat (map (\<lambda>tx. if \<not> isValidAmountString (tx_amount tx)
       then [violation ''INV-1-invalid-amount-format'' (Some (tx_txHash tx)) (Some (tx_id tx))]
       else []) transactions)"

definition inv1_blocks :: "LedgerBlock list \<Rightarrow> InvariantViolation list" where
  "inv1_blocks ledgerBlocks =
     concat (map (\<lambda>block. case blockAmount block of
         None \<Rightarrow> []
       | Some amount \<Rightarrow> if \<not> isValidAmountString amount
           then [violation ''INV-1-invalid-amount-format'' (Some (lb_txHash block)) (Some (lb_id block))]
           else []) ledgerBlocks)"

definition inv2_row :: "TransactionRecord \<Rightarrow> amount_error + InvariantViolation list" where
  "inv2_row tx =
     (if \<not> isValidAmountString (tx_amount tx) then Inr []
      else case isZeroAmount (tx_amount tx) of
        Inl e \<Rightarrow> Inl e
      | Inr z \<Rightarrow> Inr (if z
          then [violation ''INV-2-nonzero-completed-amount'' (Some (tx_txHash tx)) (Some (tx_id tx))]
          else []))"

definition inv34_row ::
  "(string, LedgerBlock list) jmap \<Rightarrow> TransactionRecord \<Rightarrow> amount_error + InvariantViolation list" where
  "inv34_row m tx =
     (if \<not> isValidAmountString (tx_amount tx) then Inr []
      else case default_to [] (jm_get m (tx_txHash tx)) of
        [] \<Rightarrow> Inr []
      | primary # _ \<Rightarrow>
        (case blockAmount primary of
           None \<Rightarrow> Inr []
         | Some settledAmount \<Rightarrow>
           if \<not> isValidAmountString settledAmount then Inr []
           else if tx_status tx = T_completed then
             (case compareAmounts (tx_amount tx) settledAmount of
                Inl e \<Rightarrow> Inl e
              | Inr c \<Rightarrow> Inr (if c \<noteq> 0
                  then [violation ''INV-3-amount-match'' (Some (tx_txHash tx)) (Some (tx_id tx))] else []))
           else if tx_status tx = T_failed then
             Inr [violation ''INV-4-failed-not-settled'' (Some (tx_txHash tx)) (Some (tx_id tx))]
           else Inr []))"

definition completedAmounts :: "TransactionRecord list \<Rightarrow> string list" where
  "completedAmounts transactions =
     map tx_amount (filter (\<lambda>tx. isValidAmountString (tx_amount tx))
       (default_to [] (jm_get (txByStatus transactions) T_completed)))"

definition settledAmounts :: "(string, LedgerBlock list) jmap \<Rightarrow> string list" where
  "settledAmounts m =
     concat (map (\<lambda>blocks. case blockAmount (blocks ! 0) of
         None \<Rightarrow> []
       | Some amount \<Rightarrow> if isValidAmountString amount then [amount] else []) (jm_values m))"

text \<open>\<open>try { total = sumAmounts(xs) } catch { total = "0"; violations.push(...) }\<close>\<close>

definition guarded_total :: "string list \<Rightarrow> string \<times> InvariantViolation list" where
  "guarded_total amounts =
     (case sumAmounts amounts of
        Inl _ \<Rightarrow> (''0'', [violation ''INV-5-amount-overflow'' None None])
      | Inr t \<Rightarrow> (t, []))"

definition aggregate_check :: "string \<Rightarrow> string \<Rightarrow> amount_error + InvariantViolation list" where
  "aggregate_check completedTotal settledTotal =
     (case compareAmounts completedTotal settledTotal of
        Inl e \<Rightarrow> Inl e
      | Inr c \<Rightarrow> Inr (if c \<noteq> 0 then [violation ''INV-5-aggregate-conservation'' None None] else []))"

subsection \<open>The per-round summary\<close>

definition fresh_round :: "string \<Rightarrow> RoundBalance" where
  "fresh_round roundId =
     \<lparr>rb_roundId = roundId, rb_completedTotal = ''0'', rb_settledTotal = ''0'',
      rb_completedCount = 0, rb_settledCount = 0\<rparr>"

datatype round_side = CompletedTotal | SettledTotal

definition accumulate ::
  "(string, RoundBalance) jmap \<Rightarrow> string \<Rightarrow> round_side \<Rightarrow> string \<Rightarrow> (string, RoundBalance) jmap" where
  "accumulate rounds roundId side amount =
     (let round = default_to (fresh_round roundId) (jm_get rounds roundId);
          round' = (case side of
              CompletedTotal \<Rightarrow> (case addAmounts (rb_completedTotal round) amount of
                  Inl _ \<Rightarrow> round | Inr t \<Rightarrow> round\<lparr>rb_completedTotal := t\<rparr>)
            | SettledTotal \<Rightarrow> (case addAmounts (rb_settledTotal round) amount of
                  Inl _ \<Rightarrow> round | Inr t \<Rightarrow> round\<lparr>rb_settledTotal := t\<rparr>))
      in jm_set rounds roundId round')"

definition round_of_tx ::
  "(string, RoundBalance) jmap \<Rightarrow> TransactionRecord \<Rightarrow> (string, RoundBalance) jmap" where
  "round_of_tx rounds tx =
     (let round = default_to (fresh_round (tx_roundId tx)) (jm_get rounds (tx_roundId tx));
          rounds1 = jm_set rounds (tx_roundId tx) round
      in if tx_status tx = T_completed \<and> isValidAmountString (tx_amount tx)
         then accumulate
           (jm_set rounds1 (tx_roundId tx) (round\<lparr>rb_completedCount := rb_completedCount round + 1\<rparr>))
           (tx_roundId tx) CompletedTotal (tx_amount tx)
         else rounds1)"

definition round_of_settlement ::
  "TransactionRecord list \<Rightarrow> (string, RoundBalance) jmap \<Rightarrow> string \<times> LedgerBlock list
     \<Rightarrow> (string, RoundBalance) jmap" where
  "round_of_settlement transactions rounds entry =
     (case blockAmount (snd entry ! 0) of
        None \<Rightarrow> rounds
      | Some amount \<Rightarrow>
        if \<not> isValidAmountString amount then rounds
        else case find (\<lambda>t. tx_txHash t = fst entry) transactions of
            None \<Rightarrow> rounds
          | Some tx \<Rightarrow>
            if tx_roundId tx = [] then rounds
            else let roundId = tx_roundId tx;
                     round = default_to (fresh_round roundId) (jm_get rounds roundId)
                 in accumulate
                      (jm_set rounds roundId (round\<lparr>rb_settledCount := rb_settledCount round + 1\<rparr>))
                      roundId SettledTotal amount)"

definition rounds_of ::
  "TransactionRecord list \<Rightarrow> (string, LedgerBlock list) jmap \<Rightarrow> (string, RoundBalance) jmap" where
  "rounds_of transactions m =
     foldl (round_of_settlement transactions) (foldl round_of_tx [] transactions) m"

subsection \<open>The report\<close>

definition evaluateLedgerBalance ::
  "(string \<Rightarrow> string \<Rightarrow> bool) \<Rightarrow> TransactionRecord list \<Rightarrow> LedgerBlock list
     \<Rightarrow> amount_error + LedgerBalanceReport" where
  "evaluateLedgerBalance locale_le transactions ledgerBlocks =
     (let m = settlementByTxHash ledgerBlocks;
          rows1 = duplicate_settlements m @ inv1_transactions transactions @ inv1_blocks ledgerBlocks
      in case map_result inv2_row (default_to [] (jm_get (txByStatus transactions) T_completed)) of
        Inl e \<Rightarrow> Inl e
      | Inr rows2 \<Rightarrow>
        (case map_result (inv34_row m) transactions of
          Inl e \<Rightarrow> Inl e
        | Inr rows34 \<Rightarrow>
          let (completedTotal, v5) = guarded_total (completedAmounts transactions);
              (settledTotal, v5') = guarded_total (settledAmounts m)
          in case aggregate_check completedTotal settledTotal of
            Inl e \<Rightarrow> Inl e
          | Inr agg \<Rightarrow>
            let violations = rows1 @ concat rows2 @ concat rows34 @ v5 @ v5' @ agg
            in Inr \<lparr>lr_balanced = (length violations = 0),
                   lr_violations = violations,
                   lr_rounds = sort_by (\<lambda>a b. locale_le (rb_roundId a) (rb_roundId b))
                     (jm_values (rounds_of transactions m)),
                   lr_transactionCount = length transactions,
                   lr_settlementCount = length (settledAmounts m),
                   lr_completedTotal = completedTotal,
                   lr_settledTotal = settledTotal\<rparr>))"

definition totalCompletedAmount :: "TransactionRecord list \<Rightarrow> amount_error + string" where
  "totalCompletedAmount transactions =
     sumAmounts (map tx_amount
       (filter (\<lambda>tx. tx_status tx = T_completed \<and> isValidAmountString (tx_amount tx)) transactions))"

section \<open>What balanced means\<close>

definition units_of :: "TransactionRecord \<Rightarrow> int" where
  "units_of t = toUnitsUnchecked (tx_amount t)"

definition settled_units :: "LedgerBlock \<Rightarrow> int" where
  "settled_units b = (case lb_amount b of None \<Rightarrow> 0 | Some a \<Rightarrow> toUnitsUnchecked a)"

definition amounts_well_formed :: "TransactionRecord list \<Rightarrow> LedgerBlock list \<Rightarrow> bool" where
  "amounts_well_formed txs blocks \<longleftrightarrow>
     (\<forall>t \<in> set txs. isValidAmountString (tx_amount t)) \<and>
     (\<forall>b \<in> set blocks. \<forall>a. lb_amount b = Some a \<longrightarrow> isValidAmountString a)"

definition settled_once :: "LedgerBlock list \<Rightarrow> bool" where
  "settled_once blocks = distinct (map lb_txHash (settlements blocks))"

definition rows_agree :: "TransactionRecord list \<Rightarrow> LedgerBlock list \<Rightarrow> bool" where
  "rows_agree txs blocks \<longleftrightarrow>
     (\<forall>t \<in> set txs. \<forall>b \<in> set (settlements blocks).
        lb_txHash b = tx_txHash t \<and> lb_amount b \<noteq> None \<longrightarrow>
          tx_status t \<noteq> T_failed \<and> (tx_status t = T_completed \<longrightarrow> settled_units b = units_of t))"

definition ledger_balanced :: "TransactionRecord list \<Rightarrow> LedgerBlock list \<Rightarrow> bool" where
  "ledger_balanced txs blocks \<longleftrightarrow>
     amounts_well_formed txs blocks \<and> settled_once blocks \<and>
     (\<forall>t \<in> set (with_status T_completed txs). 0 < units_of t) \<and>
     rows_agree txs blocks \<and>
     sum_list (map units_of (with_status T_completed txs))
       = sum_list (map settled_units (settlements blocks)) \<and>
     sum_list (map units_of (with_status T_completed txs)) \<le> MAX_AMOUNT_UNITS"

section \<open>Lemmas\<close>

lemma completed_group [simp]:
  "default_to [] (jm_get (txByStatus txs) st) = with_status st txs"
  by (simp add: txByStatus_def jm_get_group_by with_status_def)

lemma settlement_group:
  "default_to [] (jm_get (settlementByTxHash blocks) h)
     = filter (\<lambda>b. lb_txHash b = h) (settlements blocks)"
  by (simp add: settlementByTxHash_def jm_get_group_by)

lemma concat_Nil_iff: "concat (map f xs) = [] \<longleftrightarrow> (\<forall>x \<in> set xs. f x = [])"
  by (induction xs) auto

lemma duplicates_Nil: "duplicate_settlements (settlementByTxHash blocks) = [] \<longleftrightarrow> settled_once blocks"
proof -
  have "duplicate_settlements (settlementByTxHash blocks) = [] \<longleftrightarrow>
      (\<forall>(k, ys) \<in> set (settlementByTxHash blocks). length ys \<le> 1)"
    unfolding duplicate_settlements_def concat_Nil_iff
    by (intro ball_cong refl) (auto split: prod.splits if_splits)
  then show ?thesis unfolding settlementByTxHash_def groups_single_iff settled_once_def .
qed

lemma inv1_Nil:
  "inv1_transactions txs = [] \<and> inv1_blocks blocks = [] \<longleftrightarrow> amounts_well_formed txs blocks"
proof -
  have "inv1_transactions txs = [] \<longleftrightarrow> (\<forall>t \<in> set txs. isValidAmountString (tx_amount t))"
    unfolding inv1_transactions_def concat_Nil_iff by (intro ball_cong refl) simp
  moreover have "inv1_blocks blocks = [] \<longleftrightarrow>
      (\<forall>b \<in> set blocks. \<forall>a. lb_amount b = Some a \<longrightarrow> isValidAmountString a)"
    unfolding inv1_blocks_def concat_Nil_iff blockAmount_def
    by (intro ball_cong refl) (auto split: option.splits)
  ultimately show ?thesis by (simp add: amounts_well_formed_def)
qed

lemma inv2_row_eq:
  "inv2_row tx = Inr (if isValidAmountString (tx_amount tx) \<and> units_of tx = 0
     then [violation ''INV-2-nonzero-completed-amount'' (Some (tx_txHash tx)) (Some (tx_id tx))] else [])"
  by (simp add: inv2_row_def isZeroAmount_def valid_toUnits units_of_def)

lemma inv2_row_pick:
  "\<exists>vs. inv2_row tx = Inr vs \<and> (vs = [] \<longleftrightarrow> \<not> (isValidAmountString (tx_amount tx) \<and> units_of tx = 0))"
  by (simp add: inv2_row_eq)

definition inv34_bad :: "LedgerBlock list \<Rightarrow> TransactionRecord \<Rightarrow> bool" where
  "inv34_bad blocks tx \<longleftrightarrow>
     (case filter (\<lambda>b. lb_txHash b = tx_txHash tx) (settlements blocks) of
        [] \<Rightarrow> False
      | b # _ \<Rightarrow> (case lb_amount b of None \<Rightarrow> False | Some a \<Rightarrow>
          isValidAmountString a \<and> isValidAmountString (tx_amount tx) \<and>
          (tx_status tx = T_completed \<and> toUnitsUnchecked a \<noteq> units_of tx \<or> tx_status tx = T_failed)))"

lemma compare_valid:
  "isValidAmountString a \<Longrightarrow> isValidAmountString b \<Longrightarrow>
     \<exists>c. compareAmounts a b = Inr c \<and> (c = 0 \<longleftrightarrow> toUnitsUnchecked a = toUnitsUnchecked b)"
  by (auto simp: compareAmounts_def valid_toUnits)

lemma inv34_row_eq:
  "\<exists>vs. inv34_row (settlementByTxHash blocks) tx = Inr vs \<and> (vs = [] \<longleftrightarrow> \<not> inv34_bad blocks tx)"
proof (cases "filter (\<lambda>b. lb_txHash b = tx_txHash tx) (settlements blocks)")
  case Nil
  then show ?thesis by (simp add: inv34_row_def settlement_group inv34_bad_def)
next
  case (Cons b bs)
  show ?thesis
  proof (cases "lb_amount b")
    case None
    with Cons show ?thesis by (simp add: inv34_row_def settlement_group inv34_bad_def blockAmount_def)
  next
    case (Some a)
    with Cons compare_valid [of "tx_amount tx" a] show ?thesis
      by (cases "isValidAmountString a \<and> isValidAmountString (tx_amount tx)")
        (auto simp: inv34_row_def settlement_group inv34_bad_def blockAmount_def units_of_def)
  qed
qed

lemma map_result_pick:
  assumes "\<And>x. \<exists>vs. f x = Inr vs \<and> (vs = [] \<longleftrightarrow> \<not> B x)"
  shows "\<exists>rows. map_result f xs = Inr rows \<and> (concat rows = [] \<longleftrightarrow> (\<forall>x \<in> set xs. \<not> B x))"
proof (induction xs)
  case (Cons x xs)
  with assms [of x] show ?case by auto
qed simp

lemma settledAmounts_eq:
  assumes "settled_once blocks"
  shows "settledAmounts (settlementByTxHash blocks) =
    concat (map (\<lambda>b. case lb_amount b of None \<Rightarrow> [] | Some a \<Rightarrow> if isValidAmountString a then [a] else [])
      (settlements blocks))"
proof -
  have "settlementByTxHash blocks = map (\<lambda>b. (lb_txHash b, [b])) (settlements blocks)"
    using assms by (simp add: settlementByTxHash_def settled_once_def group_by_distinct)
  then show ?thesis by (simp add: settledAmounts_def jm_values_def blockAmount_def comp_def)
qed

lemma settledAmounts_valid: "\<forall>a \<in> set (settledAmounts m). isValidAmountString a"
  by (auto simp: settledAmounts_def split: option.splits if_splits)

lemma completedAmounts_valid: "\<forall>a \<in> set (completedAmounts txs). isValidAmountString a"
  by (auto simp: completedAmounts_def)

lemma completed_sum:
  "amounts_well_formed txs blocks \<Longrightarrow>
     map toUnitsUnchecked (completedAmounts txs) = map units_of (with_status T_completed txs)"
proof -
  assume "amounts_well_formed txs blocks"
  then have "filter (\<lambda>tx. isValidAmountString (tx_amount tx)) (with_status T_completed txs)
      = with_status T_completed txs"
    by (intro filter_True) (auto simp: amounts_well_formed_def with_status_def)
  then show ?thesis by (simp add: completedAmounts_def units_of_def)
qed

lemma settled_sum:
  assumes "amounts_well_formed txs blocks" "settled_once blocks"
  shows "sum_list (map toUnitsUnchecked (settledAmounts (settlementByTxHash blocks)))
    = sum_list (map settled_units (settlements blocks))"
proof -
  have valid: "\<forall>b \<in> set (settlements blocks). \<forall>a. lb_amount b = Some a \<longrightarrow> isValidAmountString a"
    using assms(1) by (auto simp: amounts_well_formed_def settlements_def)
  have "(\<forall>b \<in> set bs. \<forall>a. lb_amount b = Some a \<longrightarrow> isValidAmountString a) \<Longrightarrow>
     sum_list (map toUnitsUnchecked (concat (map (\<lambda>b. case lb_amount b of None \<Rightarrow> []
        | Some a \<Rightarrow> if isValidAmountString a then [a] else []) bs))) = sum_list (map settled_units bs)" for bs
    by (induction bs) (auto simp: settled_units_def split: option.splits)
  with valid show ?thesis by (simp add: settledAmounts_eq [OF assms(2)])
qed

lemma zero_valid [simp]: "isValidAmountString ''0''" "toUnitsUnchecked ''0'' = 0"
proof -
  show "toUnitsUnchecked ''0'' = 0" by code_simp
  show "isValidAmountString ''0''" by code_simp
qed

lemma guarded_total_cases:
  assumes "\<forall>v \<in> set vs. isValidAmountString v"
  shows "\<exists>t vl. guarded_total vs = (t, vl) \<and> isValidAmountString t
    \<and> (vl = [] \<longleftrightarrow> sum_list (map toUnitsUnchecked vs) \<le> MAX_AMOUNT_UNITS)
    \<and> (vl = [] \<longrightarrow> toUnitsUnchecked t = sum_list (map toUnitsUnchecked vs))"
  using sumAmounts_in_range [OF assms] sumAmounts_overflow [OF assms]
  by (cases "sum_list (map toUnitsUnchecked vs) \<le> MAX_AMOUNT_UNITS")
    (auto simp: guarded_total_def toUnits_valid)

lemma rows_agree_iff:
  assumes "amounts_well_formed txs blocks" "settled_once blocks"
  shows "(\<forall>t \<in> set txs. \<not> inv34_bad blocks t) \<longleftrightarrow> rows_agree txs blocks"
proof -
  have one: "filter (\<lambda>b. lb_txHash b = tx_txHash t) (settlements blocks) = (b # bs) \<Longrightarrow>
      bs = [] \<and> {b' \<in> set (settlements blocks). lb_txHash b' = tx_txHash t} = {b}" for t b bs
  proof -
    assume f: "filter (\<lambda>b. lb_txHash b = tx_txHash t) (settlements blocks) = b # bs"
    have "(tx_txHash t, b # bs) \<in> set (settlementByTxHash blocks)"
      by (simp add: settlementByTxHash_def group_by_mem f)
    moreover have "\<forall>(k, ys) \<in> set (settlementByTxHash blocks). length ys \<le> 1"
      unfolding settlementByTxHash_def groups_single_iff using assms(2) by (simp add: settled_once_def)
    ultimately have "bs = []" by auto
    with f show ?thesis by (metis list.set(1,2) set_filter)
  qed
  have "inv34_bad blocks t \<longleftrightarrow> (\<exists>b \<in> set (settlements blocks).
      lb_txHash b = tx_txHash t \<and> lb_amount b \<noteq> None \<and>
        (tx_status t = T_failed \<or> (tx_status t = T_completed \<and> settled_units b \<noteq> units_of t)))"
    if t: "t \<in> set txs" for t
  proof (cases "filter (\<lambda>b. lb_txHash b = tx_txHash t) (settlements blocks)")
    case Nil
    then show ?thesis by (auto simp: inv34_bad_def filter_empty_conv)
  next
    case (Cons b bs)
    then have "{b' \<in> set (settlements blocks). lb_txHash b' = tx_txHash t} = {b}" using one by blast
    then have mem: "b' \<in> set (settlements blocks) \<and> lb_txHash b' = tx_txHash t \<longleftrightarrow> b' = b" for b'
      by blast
    then have bex: "(\<exists>b' \<in> set (settlements blocks). lb_txHash b' = tx_txHash t \<and> Q b') \<longleftrightarrow> Q b" for Q
      by (metis (no_types, lifting))
    have "isValidAmountString (tx_amount t)" using assms(1) t by (simp add: amounts_well_formed_def)
    moreover have "isValidAmountString a" if "lb_amount b = Some a" for a
      using that assms(1) mem [of b] by (auto simp: amounts_well_formed_def settlements_def)
    ultimately show ?thesis unfolding bex using Cons
      by (cases "lb_amount b") (auto simp: inv34_bad_def settled_units_def)
  qed
  then show ?thesis unfolding rows_agree_def by blast
qed

lemma evaluate_total:
  "\<exists>rep. evaluateLedgerBalance locale_le txs blocks = Inr rep
    \<and> (lr_balanced rep \<longleftrightarrow> ledger_balanced txs blocks)
    \<and> lr_rounds rep = sort_by (\<lambda>a b. locale_le (rb_roundId a) (rb_roundId b))
         (jm_values (rounds_of txs (settlementByTxHash blocks)))
    \<and> (lr_balanced rep \<longrightarrow>
         toUnits (lr_completedTotal rep) = Inr (sum_list (map units_of (with_status T_completed txs))))"
proof -
  let ?m = "settlementByTxHash blocks"
  obtain rows2 where r2: "map_result inv2_row (with_status T_completed txs) = Inr rows2"
    "concat rows2 = [] \<longleftrightarrow> (\<forall>t \<in> set (with_status T_completed txs).
        \<not> (isValidAmountString (tx_amount t) \<and> units_of t = 0))"
    using map_result_pick [where f = inv2_row, OF inv2_row_pick] by blast
  obtain rows34 where r34: "map_result (inv34_row ?m) txs = Inr rows34"
    "concat rows34 = [] \<longleftrightarrow> (\<forall>t \<in> set txs. \<not> inv34_bad blocks t)"
    using map_result_pick [where f = "inv34_row ?m", OF inv34_row_eq] by blast
  obtain ct v5 where c: "guarded_total (completedAmounts txs) = (ct, v5)" "isValidAmountString ct"
    "v5 = [] \<longleftrightarrow> sum_list (map toUnitsUnchecked (completedAmounts txs)) \<le> MAX_AMOUNT_UNITS"
    "v5 = [] \<longrightarrow> toUnitsUnchecked ct = sum_list (map toUnitsUnchecked (completedAmounts txs))"
    using guarded_total_cases [OF completedAmounts_valid] by metis
  obtain st v5' where s: "guarded_total (settledAmounts ?m) = (st, v5')" "isValidAmountString st"
    "v5' = [] \<longleftrightarrow> sum_list (map toUnitsUnchecked (settledAmounts ?m)) \<le> MAX_AMOUNT_UNITS"
    "v5' = [] \<longrightarrow> toUnitsUnchecked st = sum_list (map toUnitsUnchecked (settledAmounts ?m))"
    using guarded_total_cases [OF settledAmounts_valid] by metis
  obtain agg where a: "aggregate_check ct st = Inr agg"
    "agg = [] \<longleftrightarrow> toUnitsUnchecked ct = toUnitsUnchecked st"
    using compare_valid [OF c(2) s(2)] by (auto simp: aggregate_check_def)
  define vs where "vs = duplicate_settlements ?m @ inv1_transactions txs @ inv1_blocks blocks
    @ concat rows2 @ concat rows34 @ v5 @ v5' @ agg"
  have nn: "0 \<le> units_of t" for t by (simp add: units_of_def)
  have "vs = [] \<longleftrightarrow> settled_once blocks \<and> amounts_well_formed txs blocks \<and> concat rows2 = []
      \<and> concat rows34 = [] \<and> v5 = [] \<and> v5' = [] \<and> agg = []"
    unfolding vs_def append_is_Nil_conv using duplicates_Nil inv1_Nil by blast
  also have "\<dots> \<longleftrightarrow> ledger_balanced txs blocks"
  proof (cases "settled_once blocks \<and> amounts_well_formed txs blocks")
    case True
    then have so: "settled_once blocks" and wf: "amounts_well_formed txs blocks" by auto
    have "concat rows2 = [] \<longleftrightarrow> (\<forall>t \<in> set (with_status T_completed txs). 0 < units_of t)"
      unfolding r2(2) using wf nn
      by (intro ball_cong refl) (auto simp: amounts_well_formed_def with_status_def less_le)
    then show ?thesis
      using so wf rows_agree_iff [OF wf so] r34(2) c(3,4) s(3,4) a(2) completed_sum [OF wf]
        settled_sum [OF wf so]
      by (auto simp: ledger_balanced_def)
  qed (auto simp: ledger_balanced_def)
  finally have bal: "vs = [] \<longleftrightarrow> ledger_balanced txs blocks" .
  have "toUnits ct = Inr (sum_list (map units_of (with_status T_completed txs)))" if "vs = []"
  proof -
    from that have "v5 = []" "amounts_well_formed txs blocks"
      using bal by (auto simp: vs_def ledger_balanced_def)
    with c completed_sum [of txs blocks] show ?thesis by (simp add: valid_toUnits)
  qed
  with r2(1) r34(1) c(1) s(1) a(1) bal show ?thesis
    by (simp add: evaluateLedgerBalance_def Let_def vs_def)
qed

section \<open>The per-round summary\<close>

text \<open>Adding to a running total that stops on overflow.\<close>

definition add_or_keep :: "string \<Rightarrow> string \<Rightarrow> string" where
  "add_or_keep t a = (case addAmounts t a of Inl _ \<Rightarrow> t | Inr t' \<Rightarrow> t')"

lemma add_or_keep_props:
  assumes "isValidAmountString t" "isValidAmountString a"
  shows "isValidAmountString (add_or_keep t a)"
    and "toUnitsUnchecked t + toUnitsUnchecked a \<le> MAX_AMOUNT_UNITS \<Longrightarrow>
      toUnitsUnchecked (add_or_keep t a) = toUnitsUnchecked t + toUnitsUnchecked a"
  using addAmounts_cases [OF valid_toUnits [OF assms(1)] valid_toUnits [OF assms(2)]] assms
  by (cases "toUnitsUnchecked t + toUnitsUnchecked a \<le> MAX_AMOUNT_UNITS";
      auto simp: add_or_keep_def toUnits_valid)+

lemma accumulate_eq:
  "accumulate rounds r CompletedTotal a =
     (let b = default_to (fresh_round r) (jm_get rounds r)
      in jm_set rounds r (b\<lparr>rb_completedTotal := add_or_keep (rb_completedTotal b) a\<rparr>))"
  "accumulate rounds r SettledTotal a =
     (let b = default_to (fresh_round r) (jm_get rounds r)
      in jm_set rounds r (b\<lparr>rb_settledTotal := add_or_keep (rb_settledTotal b) a\<rparr>))"
  by (auto simp: accumulate_def add_or_keep_def Let_def split: sum.splits)

text \<open>A total that represents a list of amounts: exact unless their sum is out of range.\<close>

definition totals_to :: "string \<Rightarrow> string list \<Rightarrow> bool" where
  "totals_to t as \<longleftrightarrow> isValidAmountString t \<and>
     (sum_list (map toUnitsUnchecked as) \<le> MAX_AMOUNT_UNITS \<longrightarrow>
        toUnitsUnchecked t = sum_list (map toUnitsUnchecked as))"

lemma totals_to_Nil [simp]: "totals_to ''0'' []"
  by (simp add: totals_to_def)

lemma totals_to_snoc:
  assumes "totals_to t as" "isValidAmountString a"
  shows "totals_to (add_or_keep t a) (as @ [a])"
proof -
  have nn: "0 \<le> toUnitsUnchecked a" by simp
  have t: "isValidAmountString t" using assms(1) by (simp add: totals_to_def)
  have "toUnitsUnchecked (add_or_keep t a) = sum_list (map toUnitsUnchecked (as @ [a]))"
    if le: "sum_list (map toUnitsUnchecked (as @ [a])) \<le> MAX_AMOUNT_UNITS"
  proof -
    have "sum_list (map toUnitsUnchecked as) \<le> MAX_AMOUNT_UNITS"
      using le nn by (metis add_increasing2 dual_order.refl list.map(1,2) map_append order_trans
          sum_list.Cons sum_list.Nil sum_list_append add.right_neutral)
   
    with assms(1) have "toUnitsUnchecked t = sum_list (map toUnitsUnchecked as)"
      by (simp add: totals_to_def)
    with add_or_keep_props(2) [OF t assms(2)] le show ?thesis by simp
  qed
  with add_or_keep_props(1) [OF t assms(2)] show ?thesis by (simp add: totals_to_def)
qed

definition round_completed :: "TransactionRecord list \<Rightarrow> string \<Rightarrow> TransactionRecord list" where
  "round_completed txs r =
     filter (\<lambda>t. tx_roundId t = r \<and> tx_status t = T_completed \<and> isValidAmountString (tx_amount t)) txs"

definition completed_entry :: "TransactionRecord list \<Rightarrow> string \<Rightarrow> RoundBalance option \<Rightarrow> bool" where
  "completed_entry txs r entry =
     (case entry of
        None \<Rightarrow> r \<notin> tx_roundId ` set txs
      | Some b \<Rightarrow> r \<in> tx_roundId ` set txs \<and> rb_roundId b = r \<and>
          rb_completedCount b = length (round_completed txs r) \<and>
          totals_to (rb_completedTotal b) (map tx_amount (round_completed txs r)))"

definition completed_side :: "TransactionRecord list \<Rightarrow> (string, RoundBalance) jmap \<Rightarrow> bool" where
  "completed_side txs m \<longleftrightarrow> (\<forall>r. completed_entry txs r (jm_get m r))"

lemma completed_entry_other:
  "r \<noteq> tx_roundId t \<Longrightarrow> completed_entry (txs @ [t]) r e = completed_entry txs r e"
  by (auto simp: completed_entry_def round_completed_def split: option.splits)

lemma completed_entry_default:
  assumes "completed_entry txs r e"
  defines "b \<equiv> default_to (fresh_round r) e"
  shows "rb_roundId b = r" "rb_completedCount b = length (round_completed txs r)"
    "totals_to (rb_completedTotal b) (map tx_amount (round_completed txs r))"
proof -
  have "round_completed txs r = []" if "e = None"
    using that assms(1) by (force simp: completed_entry_def round_completed_def filter_empty_conv)
  with assms show "rb_roundId b = r" "rb_completedCount b = length (round_completed txs r)"
    "totals_to (rb_completedTotal b) (map tx_amount (round_completed txs r))"
    by (cases e; simp add: completed_entry_def fresh_round_def)+
qed

lemma completed_side_step:
  assumes "completed_side txs m"
  shows "completed_side (txs @ [t]) (round_of_tx m t)"
  unfolding completed_side_def
proof
  fix r
  let ?ok = "tx_status t = T_completed \<and> isValidAmountString (tx_amount t)"
  define b where "b = default_to (fresh_round (tx_roundId t)) (jm_get m (tx_roundId t))"
  have "completed_entry txs (tx_roundId t) (jm_get m (tx_roundId t))"
    using assms by (simp add: completed_side_def)
  note b = completed_entry_default [OF this, folded b_def]
  show "completed_entry (txs @ [t]) r (jm_get (round_of_tx m t) r)"
  proof (cases "r = tx_roundId t")
    case False
    then have "jm_get (round_of_tx m t) r = jm_get m r"
      by (simp add: round_of_tx_def accumulate_eq Let_def)
    with False assms show ?thesis by (simp add: completed_entry_other completed_side_def)
  next
    case True
    have "jm_get (round_of_tx m t) r = Some (if ?ok then b\<lparr>rb_completedCount := rb_completedCount b + 1,
        rb_completedTotal := add_or_keep (rb_completedTotal b) (tx_amount t)\<rparr> else b)"
      using True by (simp add: round_of_tx_def accumulate_eq Let_def b_def)
    moreover have "round_completed (txs @ [t]) r =
        (if ?ok then round_completed txs r @ [t] else round_completed txs r)"
      using True by (simp add: round_completed_def)
    ultimately show ?thesis
      using b True totals_to_snoc [OF b(3), of "tx_amount t"] by (simp add: completed_entry_def)
  qed
qed

lemma completed_side_fold: "completed_side txs (foldl round_of_tx [] txs)"
proof (induction txs rule: rev_induct)
  case (snoc t txs)
  then show ?case by (simp add: completed_side_step)
qed (simp add: completed_side_def completed_entry_def)

lemma completed_side_settlement:
  assumes "completed_side txs m"
  shows "completed_side txs (round_of_settlement txs m e)"
proof (cases "blockAmount (snd e ! 0)")
  case None
  with assms show ?thesis by (simp add: round_of_settlement_def)
next
  case (Some a)
  show ?thesis
  proof (cases "isValidAmountString a \<and> (\<exists>tx. find (\<lambda>t. tx_txHash t = fst e) txs = Some tx \<and> tx_roundId tx \<noteq> [])")
    case True
    then obtain tx where tx: "find (\<lambda>t. tx_txHash t = fst e) txs = Some tx" "tx_roundId tx \<noteq> []" by blast
    have mem: "tx_roundId tx \<in> tx_roundId ` set txs" using find_Some_mem [OF tx(1)] by blast
    have e: "completed_entry txs (tx_roundId tx) (jm_get m (tx_roundId tx))"
      using assms by (simp add: completed_side_def)
    then obtain b where b: "jm_get m (tx_roundId tx) = Some b"
      using mem by (cases "jm_get m (tx_roundId tx)") (auto simp: completed_entry_def)
    have "jm_get (round_of_settlement txs m e) r = (if r = tx_roundId tx
        then Some (b\<lparr>rb_settledCount := rb_settledCount b + 1,
                     rb_settledTotal := add_or_keep (rb_settledTotal b) a\<rparr>) else jm_get m r)" for r
      using tx True Some b by (simp add: round_of_settlement_def accumulate_eq Let_def)
    with assms e b show ?thesis by (simp add: completed_side_def completed_entry_def)
  next
    case False
    with assms Some show ?thesis by (auto simp: round_of_settlement_def split: option.splits)
  qed
qed

lemma completed_side_rounds: "completed_side txs (rounds_of txs m)"
proof -
  have "completed_side txs m0 \<Longrightarrow> completed_side txs (foldl (round_of_settlement txs) m0 es)" for m0 es
    by (induction es arbitrary: m0) (simp_all add: completed_side_settlement)
  then show ?thesis by (simp add: rounds_of_def completed_side_fold)
qed

lemma jm_ok_rounds: "jm_ok (rounds_of txs m)"
proof -
  have "jm_ok m0 \<Longrightarrow> jm_ok (round_of_settlement txs m0 e)" for m0 e
    by (auto simp: round_of_settlement_def accumulate_eq Let_def split: option.splits)
  then have "jm_ok m0 \<Longrightarrow> jm_ok (foldl (round_of_settlement txs) m0 es)" for m0 es
    by (induction es arbitrary: m0) auto
  moreover have "jm_ok (foldl round_of_tx [] txs)"
    by (induction txs rule: rev_induct) (auto simp: round_of_tx_def accumulate_eq Let_def)
  ultimately show ?thesis by (simp add: rounds_of_def)
qed

section \<open>Properties\<close>

text \<open>
  The invariants as the documentation states them. They speak of settlement entries only, and the
  settlement of a payout that is still pending is no violation: it is not due on either side.
\<close>

definition due_settlements :: "TransactionRecord list \<Rightarrow> LedgerBlock list \<Rightarrow> LedgerBlock list" where
  "due_settlements txs blocks =
     filter (\<lambda>b. \<not> list_ex (\<lambda>t. tx_txHash t = lb_txHash b \<and> tx_status t = T_pending) txs) (settlements blocks)"

definition row_invariants :: "TransactionRecord list \<Rightarrow> LedgerBlock list \<Rightarrow> bool" where
  "row_invariants txs blocks \<longleftrightarrow>
     amounts_well_formed txs (settlements blocks) \<and> settled_once blocks \<and>
     (\<forall>t \<in> set (with_status T_completed txs). 0 < units_of t) \<and> rows_agree txs blocks"

definition documented_balance :: "TransactionRecord list \<Rightarrow> LedgerBlock list \<Rightarrow> bool" where
  "documented_balance txs blocks \<longleftrightarrow>
     row_invariants txs blocks \<and>
     sum_list (map units_of (with_status T_completed txs)) = sum_list (map settled_units (due_settlements txs blocks)) \<and>
     sum_list (map units_of (with_status T_completed txs)) \<le> MAX_AMOUNT_UNITS"

text \<open>No settlement entry belongs to a pending payout, and the entries that are no settlements have proper amounts or none.\<close>

definition settled_rows_flipped :: "TransactionRecord list \<Rightarrow> LedgerBlock list \<Rightarrow> bool" where
  "settled_rows_flipped txs blocks = (due_settlements txs blocks = settlements blocks)"

definition milestones_proper :: "LedgerBlock list \<Rightarrow> bool" where
  "milestones_proper blocks = amounts_well_formed [] (filter (\<lambda>b. lb_type b \<noteq> B_settlement) blocks)"

lemma well_formed_split:
  "amounts_well_formed txs blocks \<longleftrightarrow> amounts_well_formed txs (settlements blocks) \<and> milestones_proper blocks"
  unfolding amounts_well_formed_def milestones_proper_def settlements_def by auto

lemma documented_iff:
  assumes "settled_rows_flipped txs blocks" "milestones_proper blocks"
  shows "ledger_balanced txs blocks \<longleftrightarrow> documented_balance txs blocks"
  using assms well_formed_split [of txs blocks]
  unfolding ledger_balanced_def documented_balance_def row_invariants_def settled_rows_flipped_def by auto

text \<open>
  (C2) The ledger report always exists: no check throws, whatever the stored strings are, and it says
  "balanced" exactly when it lists no violation. A balanced report can be trusted row by row: amounts
  of payouts and settlements are well formed (INV-1), completed payouts are positive (INV-2), a
  settlement agrees with its completed payout (INV-3) and belongs to no failed one (INV-4), no payout
  is settled twice (INV-5), and the reported total is the exact sum. And on books where no pending
  payout is settled yet and milestone entries have proper amounts, it is balanced exactly when the
  documented invariants hold, the conservation of the totals included. Outside such books the code
  departs from its documentation (\<open>pending_settled_flagged\<close>, \<open>milestone_amount_flagged\<close>).
\<close>

theorem evaluateLedgerBalance_correct:
  "\<exists>rep. evaluateLedgerBalance locale_le txs blocks = Inr rep
    \<and> (lr_balanced rep \<longleftrightarrow> lr_violations rep = [])
    \<and> (lr_balanced rep \<longrightarrow> row_invariants txs blocks
        \<and> toUnits (lr_completedTotal rep) = Inr (sum_list (map units_of (with_status T_completed txs))))
    \<and> (settled_rows_flipped txs blocks \<and> milestones_proper blocks
        \<longrightarrow> (lr_balanced rep \<longleftrightarrow> documented_balance txs blocks))"
proof -
  obtain rep where rep: "evaluateLedgerBalance locale_le txs blocks = Inr rep"
    "lr_balanced rep \<longleftrightarrow> ledger_balanced txs blocks"
    "lr_balanced rep \<longrightarrow>
       toUnits (lr_completedTotal rep) = Inr (sum_list (map units_of (with_status T_completed txs)))"
    using evaluate_total by blast
  moreover from rep(1) have "lr_balanced rep \<longleftrightarrow> lr_violations rep = []"
    by (auto simp: evaluateLedgerBalance_def Let_def split: sum.splits prod.splits)
  moreover have "ledger_balanced txs blocks \<Longrightarrow> row_invariants txs blocks"
    using well_formed_split [of txs blocks] by (auto simp: ledger_balanced_def row_invariants_def)
  ultimately show ?thesis using documented_iff [of txs blocks] by blast
qed

text \<open>
  The per-round summary: the report has exactly one line for each round of the transactions,
  its count is the number of completed well-formed payouts of that round, and its completed total
  reads back as their exact sum whenever that sum is in range.
\<close>

theorem ledger_rounds_exact:
  "\<exists>rep. evaluateLedgerBalance locale_le txs blocks = Inr rep
    \<and> distinct (map rb_roundId (lr_rounds rep))
    \<and> set (map rb_roundId (lr_rounds rep)) = set (map tx_roundId txs)
    \<and> list_all (\<lambda>b. rb_completedCount b = length (round_completed txs (rb_roundId b))
         \<and> totals_to (rb_completedTotal b) (map tx_amount (round_completed txs (rb_roundId b))))
       (lr_rounds rep)"
proof -
  let ?m = "rounds_of txs (settlementByTxHash blocks)"
  obtain rep where rep: "evaluateLedgerBalance locale_le txs blocks = Inr rep"
    "lr_rounds rep = sort_by (\<lambda>a b. locale_le (rb_roundId a) (rb_roundId b)) (jm_values ?m)"
    using evaluate_total by blast
  have side: "completed_side txs ?m" by (rule completed_side_rounds)
  have entry: "completed_entry txs r (Some b)" if "(r, b) \<in> set ?m" for r b
    using side jm_mem_get [OF jm_ok_rounds that] by (metis completed_side_def)
  then have ids: "map rb_roundId (jm_values ?m) = map fst ?m"
    by (auto simp: jm_values_def completed_entry_def)
  have "mset (map rb_roundId (lr_rounds rep)) = mset (map fst ?m)"
    by (metis ids mset_map mset_sort_by rep(2))
  then have "distinct (map rb_roundId (lr_rounds rep))"
    "set (map rb_roundId (lr_rounds rep)) = set (map fst ?m)"
    using jm_ok_rounds by (metis jm_ok_def mset_eq_imp_distinct_iff, metis mset_eq_setD)
  moreover have "set (map fst ?m) = set (map tx_roundId txs)"
  proof -
    have "r \<in> set (map fst ?m) \<longleftrightarrow> r \<in> set (map tx_roundId txs)" for r
      using side jm_has_get [of ?m r]
      by (cases "jm_get ?m r") (auto simp: completed_side_def completed_entry_def jm_has_def
          dest: spec [of _ r])
    then show ?thesis by blast
  qed
  moreover have "list_all (\<lambda>b. rb_completedCount b = length (round_completed txs (rb_roundId b))
         \<and> totals_to (rb_completedTotal b) (map tx_amount (round_completed txs (rb_roundId b)))) (jm_values ?m)"
    using entry by (auto simp: list_all_iff jm_values_def completed_entry_def)
  ultimately show ?thesis using rep by (auto simp: list_all_iff)
qed

text \<open>
  A pending payout that is already settled is reported as an imbalance, although the row check
  calls it legitimate.
\<close>

definition lagging_tx :: TransactionRecord where
  "lagging_tx = \<lparr>tx_id = ''1'', tx_roundId = ''r'', tx_recipient = ''G'', tx_amount = ''0.0000005'',
     tx_token = ''T'', tx_timestamp = 0, tx_txHash = ''h'', tx_status = T_pending\<rparr>"

definition lagging_block :: LedgerBlock where
  "lagging_block = \<lparr>lb_id = ''2'', lb_ledgerSeq = 1, lb_txHash = ''h'', lb_type = B_settlement,
     lb_projectId = None, lb_recipient = None, lb_amount = Some ''0.0000005'', lb_ledgerClosedAt = 0\<rparr>"

lemma pending_settled_flagged:
  "\<exists>rep. evaluateLedgerBalance (\<le>) [lagging_tx] [lagging_block] = Inr rep
     \<and> map iv_invariantId (lr_violations rep) = [''INV-5-aggregate-conservation'']"
proof -
  have "(case evaluateLedgerBalance (\<le>) [lagging_tx] [lagging_block] of Inl _ \<Rightarrow> False
     | Inr rep \<Rightarrow> map iv_invariantId (lr_violations rep) = [''INV-5-aggregate-conservation''])"
    by code_simp
  then show ?thesis by (auto split: sum.splits)
qed

text \<open>The completed payout, its settlement, and a milestone without an amount: balanced by the documented invariants and in the report.\<close>

definition settled_tx :: TransactionRecord where
  "settled_tx = lagging_tx\<lparr>tx_status := T_completed\<rparr>"

definition milestone_block :: "string option \<Rightarrow> LedgerBlock" where
  "milestone_block a = lagging_block\<lparr>lb_id := ''3'', lb_type := B_milestone, lb_amount := a\<rparr>"

theorem evaluateLedgerBalance_correct_witness:
  "\<exists>rep. evaluateLedgerBalance (\<le>) [settled_tx] [lagging_block, milestone_block None] = Inr rep
     \<and> (lr_balanced rep \<longleftrightarrow> documented_balance [settled_tx] [lagging_block, milestone_block None])"
proof -
  have "settled_rows_flipped [settled_tx] [lagging_block, milestone_block None] \<and> milestones_proper [lagging_block, milestone_block None]"
    by (simp add: settled_rows_flipped_def due_settlements_def settlements_def milestones_proper_def amounts_well_formed_def
        settled_tx_def lagging_tx_def lagging_block_def milestone_block_def)
  then show ?thesis
    using evaluateLedgerBalance_correct [of "(\<le>)" "[settled_tx]" "[lagging_block, milestone_block None]"] by blast
qed

text \<open>A milestone entry with an improper amount is flagged, although milestones are documented as ignored.\<close>

lemma milestone_amount_flagged:
  "\<exists>rep. evaluateLedgerBalance (\<le>) [settled_tx] [lagging_block, milestone_block (Some ''x'')] = Inr rep
     \<and> map iv_invariantId (lr_violations rep) = [''INV-1-invalid-amount-format'']"
proof -
  have "(case evaluateLedgerBalance (\<le>) [settled_tx] [lagging_block, milestone_block (Some ''x'')] of Inl _ \<Rightarrow> False
     | Inr rep \<Rightarrow> map iv_invariantId (lr_violations rep) = [''INV-1-invalid-amount-format''])"
    by code_simp
  then show ?thesis by (auto split: sum.splits)
qed

end
