(* ===== verification/Finality.thy ===== *)
theory Finality
  imports Ledger_Entities Complex_Main
begin

text \<open>
  The finality policy of submitted transactions (\<open>backend/src/services/ledger-finality.ts\<close>): the
  policies per network, the state machine and its evaluation of a network observation. A
  JavaScript number of unknown shape is a \<open>rat option\<close> (\<open>None\<close> is \<open>NaN\<close> or infinite); ledger
  sequences become \<open>int\<close> once \<open>assertLedger\<close> has accepted them.

  The locale \<open>absorbing_machine\<close> states what a persisted state machine promises: a terminal state
  is never left, along any sequence of inputs. It is interpreted on \<open>evaluateFinality\<close>.
\<close>

section \<open>Model\<close>

datatype FinalityNetwork = Mainnet | Testnet | Futurenet | Standalone

definition STELLAR_NETWORK_PASSPHRASES :: "(FinalityNetwork \<times> string) list" where
  "STELLAR_NETWORK_PASSPHRASES =
     [(Mainnet, ''Public Global Stellar Network ; September 2015''),
      (Testnet, ''Test SDF Network ; September 2015''),
      (Futurenet, ''Test SDF Future Network ; October 2022''),
      (Standalone, ''Standalone Network ; February 2017'')]"

record NetworkFinalityPolicy =
  fp_network :: FinalityNetwork
  fp_confirmationDepth :: int
  fp_submissionTimeoutLedgers :: int
  fp_resetsPossible :: bool

fun FINALITY_POLICIES :: "FinalityNetwork \<Rightarrow> NetworkFinalityPolicy" where
  "FINALITY_POLICIES Mainnet = \<lparr>fp_network = Mainnet, fp_confirmationDepth = 1,
     fp_submissionTimeoutLedgers = 120, fp_resetsPossible = False\<rparr>"
| "FINALITY_POLICIES Testnet = \<lparr>fp_network = Testnet, fp_confirmationDepth = 0,
     fp_submissionTimeoutLedgers = 120, fp_resetsPossible = True\<rparr>"
| "FINALITY_POLICIES Futurenet = \<lparr>fp_network = Futurenet, fp_confirmationDepth = 0,
     fp_submissionTimeoutLedgers = 120, fp_resetsPossible = True\<rparr>"
| "FINALITY_POLICIES Standalone = \<lparr>fp_network = Standalone, fp_confirmationDepth = 0,
     fp_submissionTimeoutLedgers = 60, fp_resetsPossible = True\<rparr>"

datatype FinalityState = F_submitted | F_included | F_final | F_failed | F_expired

definition TERMINAL_STATES :: "FinalityState list" where
  "TERMINAL_STATES = [F_final, F_failed, F_expired]"

fun ALLOWED_TRANSITIONS :: "FinalityState \<Rightarrow> FinalityState list" where
  "ALLOWED_TRANSITIONS F_submitted = [F_submitted, F_included, F_final, F_failed, F_expired]"
| "ALLOWED_TRANSITIONS F_included = [F_included, F_final]"
| "ALLOWED_TRANSITIONS F_final = [F_final]"
| "ALLOWED_TRANSITIONS F_failed = [F_failed]"
| "ALLOWED_TRANSITIONS F_expired = [F_expired]"

datatype FinalityPolicyError = Unknown_network | Invalid_observation | Finality_conflict

definition getFinalityPolicy :: "string \<Rightarrow> FinalityPolicyError + NetworkFinalityPolicy" where
  "getFinalityPolicy networkPassphrase =
     (let trimmed = trim networkPassphrase in
      case find (\<lambda>(network, passphrase). passphrase = trimmed) STELLAR_NETWORK_PASSPHRASES of
        None \<Rightarrow> Inl Unknown_network
      | Some (network, _) \<Rightarrow> Inr (FINALITY_POLICIES network))"

definition isTerminalFinalityState :: "FinalityState \<Rightarrow> bool" where
  "isTerminalFinalityState state = (state \<in> set TERMINAL_STATES)"

definition canTransitionFinality :: "FinalityState \<Rightarrow> FinalityState \<Rightarrow> bool" where
  "canTransitionFinality from to = (to \<in> set (ALLOWED_TRANSITIONS from))"

fun toTransactionStatus :: "FinalityState \<Rightarrow> TransactionStatus" where
  "toTransactionStatus F_final = T_completed"
| "toTransactionStatus F_failed = T_failed"
| "toTransactionStatus F_expired = T_failed"
| "toTransactionStatus F_submitted = T_pending"
| "toTransactionStatus F_included = T_pending"

datatype observation_status = NOT_FOUND | SUCCESS | FAILED

record FinalityObservation =
  fo_status :: observation_status
  fo_ledger :: "rat option"

record EvaluateFinalityInput =
  fi_policy :: NetworkFinalityPolicy
  fi_previous :: "FinalityState option"
  fi_observation :: FinalityObservation
  fi_latestLedger :: "rat option"
  fi_submittedAtLedger :: "rat option"
  fi_validUntilLedger :: "rat option option"

record FinalityEvaluation =
  fe_state :: FinalityState
  fe_transactionStatus :: TransactionStatus
  fe_depth :: "int option"
  fe_regressionIgnored :: bool

text \<open>\<open>Number.isSafeInteger(value) && value > 0\<close>; an absent value is \<open>None\<close> as well.\<close>

definition assertLedger :: "rat option \<Rightarrow> FinalityPolicyError + int" where
  "assertLedger value =
     (case value of
        None \<Rightarrow> Inl Invalid_observation
      | Some r \<Rightarrow> if of_int \<lfloor>r\<rfloor> = r \<and> \<lfloor>r\<rfloor> \<le> 2 ^ 53 - 1 \<and> 0 < \<lfloor>r\<rfloor> then Inr \<lfloor>r\<rfloor>
                  else Inl Invalid_observation)"

definition observedState ::
  "NetworkFinalityPolicy \<Rightarrow> FinalityObservation \<Rightarrow> int \<Rightarrow> int \<Rightarrow> int option
     \<Rightarrow> FinalityPolicyError + (FinalityState \<times> int option)" where
  "observedState policy observation latestLedger submittedAtLedger validUntilLedger =
     (if fo_status observation = NOT_FOUND then
        (let expired = (case validUntilLedger of
               Some v \<Rightarrow> latestLedger > v
             | None \<Rightarrow> latestLedger - submittedAtLedger > fp_submissionTimeoutLedgers policy)
         in Inr (if expired then F_expired else F_submitted, None))
      else case assertLedger (fo_ledger observation) of
          Inl e \<Rightarrow> Inl e
        | Inr ledger \<Rightarrow>
          if fo_status observation = FAILED then Inr (F_failed, Some (max 0 (latestLedger - ledger)))
          else let depth = max 0 (latestLedger - ledger)
               in Inr (if depth \<ge> fp_confirmationDepth policy then F_final else F_included, Some depth))"

definition isLaggingRead :: "FinalityState \<Rightarrow> FinalityState \<Rightarrow> bool" where
  "isLaggingRead previous next =
     ((previous = F_included \<and> next = F_submitted) \<or>
      (previous = F_final \<and> (next = F_included \<or> next = F_submitted)) \<or>
      (previous = F_expired \<and> next = F_submitted))"

definition evaluateFinality :: "EvaluateFinalityInput \<Rightarrow> FinalityPolicyError + FinalityEvaluation" where
  "evaluateFinality input =
     (case assertLedger (fi_latestLedger input) of Inl e \<Rightarrow> Inl e | Inr latest \<Rightarrow>
      (case assertLedger (fi_submittedAtLedger input) of Inl e \<Rightarrow> Inl e | Inr submittedAt \<Rightarrow>
       (case (case fi_validUntilLedger input of None \<Rightarrow> Inr None
              | Some v \<Rightarrow> (case assertLedger v of Inl e \<Rightarrow> Inl e | Inr l \<Rightarrow> Inr (Some l))) of
          Inl e \<Rightarrow> Inl e
        | Inr validUntil \<Rightarrow>
          let previous = default_to F_submitted (fi_previous input) in
          case observedState (fi_policy input) (fi_observation input) latest submittedAt validUntil of
            Inl e \<Rightarrow> Inl e
          | Inr (next, depth) \<Rightarrow>
            if canTransitionFinality previous next
            then Inr \<lparr>fe_state = next, fe_transactionStatus = toTransactionStatus next,
                      fe_depth = depth, fe_regressionIgnored = False\<rparr>
            else if isLaggingRead previous next
            then Inr \<lparr>fe_state = previous, fe_transactionStatus = toTransactionStatus previous,
                      fe_depth = depth, fe_regressionIgnored = True\<rparr>
            else Inl Finality_conflict)))"

section \<open>Machines with terminal states\<close>

text \<open>
  A machine whose inputs may be refused. A refused input leaves the recorded state as it is.
\<close>

fun run_machine :: "('s \<Rightarrow> 'i \<Rightarrow> 'e + 's) \<Rightarrow> 's \<Rightarrow> 'i list \<Rightarrow> 's" where
  "run_machine step s [] = s"
| "run_machine step s (i # is) =
     run_machine step (case step s i of Inl _ \<Rightarrow> s | Inr s' \<Rightarrow> s') is"

locale absorbing_machine =
  fixes step :: "'s \<Rightarrow> 'i \<Rightarrow> 'e + 's"
    and terminal :: "'s \<Rightarrow> bool"
  assumes absorb: "terminal s \<Longrightarrow> step s i = Inr s' \<Longrightarrow> s' = s"
begin

lemma run_absorb: "terminal s \<Longrightarrow> run_machine step s is = s"
proof (induction "is" arbitrary: s)
  case (Cons i "is")
  then show ?case using absorb by (cases "step s i") auto
qed simp

lemma run_append: "run_machine step s (xs @ ys) = run_machine step (run_machine step s xs) ys"
  by (induction xs arbitrary: s) simp_all

lemma run_settles: "terminal (run_machine step s xs) \<Longrightarrow> run_machine step s (xs @ ys) = run_machine step s xs"
  by (simp add: run_append run_absorb)

end

text \<open>The machine of one transaction: evaluate an observation and record the new state.\<close>

definition record_observation ::
  "FinalityState \<Rightarrow> EvaluateFinalityInput \<Rightarrow> FinalityPolicyError + FinalityState" where
  "record_observation s input =
     (case evaluateFinality (input\<lparr>fi_previous := Some s\<rparr>) of Inl e \<Rightarrow> Inl e | Inr ev \<Rightarrow> Inr (fe_state ev))"

lemma evaluate_cases:
  assumes "evaluateFinality input = Inr ev"
  obtains nx depth latest submitted valid where
    "assertLedger (fi_latestLedger input) = Inr latest"
    "observedState (fi_policy input) (fi_observation input) latest submitted valid = Inr (nx, depth)"
    "fe_state ev = nx \<and> canTransitionFinality (default_to F_submitted (fi_previous input)) nx
       \<and> \<not> fe_regressionIgnored ev \<or>
     fe_state ev = default_to F_submitted (fi_previous input) \<and> fe_regressionIgnored ev"
    "fe_transactionStatus ev = toTransactionStatus (fe_state ev)" "fe_depth ev = depth"
  using assms by (auto simp: evaluateFinality_def Let_def split: sum.splits if_splits option.splits)

lemma absorbing_step:
  assumes "isTerminalFinalityState s" "record_observation s i = Inr s'"
  shows "s' = s"
proof -
  from assms(2) obtain ev where ev: "evaluateFinality (i\<lparr>fi_previous := Some s\<rparr>) = Inr ev" "s' = fe_state ev"
    by (auto simp: record_observation_def split: sum.splits)
  from ev(1) show ?thesis
    by (rule evaluate_cases)
      (use ev(2) assms(1) in \<open>auto simp: isTerminalFinalityState_def TERMINAL_STATES_def canTransitionFinality_def\<close>)
qed

interpretation fin: absorbing_machine record_observation isTerminalFinalityState
  by unfold_locales (rule absorbing_step)

text \<open>An observation that confirms a transaction: included, with enough ledgers closed after it.\<close>

definition confirms :: "EvaluateFinalityInput \<Rightarrow> bool" where
  "confirms input \<longleftrightarrow> fo_status (fi_observation input) = SUCCESS \<and>
     (\<exists>latest ledger. assertLedger (fi_latestLedger input) = Inr latest
        \<and> assertLedger (fo_ledger (fi_observation input)) = Inr ledger
        \<and> max 0 (latest - ledger) \<ge> fp_confirmationDepth (fi_policy input))"

lemma final_needs_confirmation:
  assumes "record_observation s i = Inr F_final" "s \<noteq> F_final"
  shows "confirms i"
proof -
  from assms(1) obtain ev where ev: "evaluateFinality (i\<lparr>fi_previous := Some s\<rparr>) = Inr ev" "fe_state ev = F_final"
    by (auto simp: record_observation_def split: sum.splits)
  from ev(1) show ?thesis
    by (rule evaluate_cases)
      (use ev(2) assms(2) in \<open>auto simp: confirms_def observedState_def Let_def
        intro: observation_status.exhaust split: if_splits sum.splits option.splits\<close>)
qed

lemma run_final_confirmed:
  "run_machine record_observation s is = F_final \<Longrightarrow> s \<noteq> F_final \<Longrightarrow> \<exists>i \<in> set is. confirms i"
proof (induction "is" arbitrary: s)
  case (Cons i "is")
  show ?case
  proof (cases "record_observation s i")
    case (Inl e)
    with Cons show ?thesis by auto
  next
    case (Inr s')
    show ?thesis
    proof (cases "s' = F_final")
      case True
      with Inr Cons.prems(2) final_needs_confirmation show ?thesis by auto
    next
      case False
      with Inr Cons show ?thesis by auto
    qed
  qed
qed simp

section \<open>Properties\<close>

text \<open>
  Finality is decided once. For any sequence of observations of a transaction, a recorded
  state that is final, failed or expired is never changed by later observations (a contradicting
  one is refused), so the persisted status never leaves completed or failed.
\<close>

theorem finality_settles:
  assumes "isTerminalFinalityState (run_machine record_observation s xs)"
  shows "run_machine record_observation s (xs @ ys) = run_machine record_observation s xs
    \<and> toTransactionStatus (run_machine record_observation s (xs @ ys)) \<noteq> T_pending"
proof -
  have "toTransactionStatus t \<noteq> T_pending" if "isTerminalFinalityState t" for t
    using that by (cases t) (auto simp: isTerminalFinalityState_def TERMINAL_STATES_def)
  with fin.run_settles [OF assms] assms show ?thesis by simp
qed

definition sample_success :: "rat \<Rightarrow> rat \<Rightarrow> EvaluateFinalityInput" where
  "sample_success ledger latest = \<lparr>fi_policy = FINALITY_POLICIES Mainnet, fi_previous = None,
     fi_observation = \<lparr>fo_status = SUCCESS, fo_ledger = Some ledger\<rparr>,
     fi_latestLedger = Some latest, fi_submittedAtLedger = Some 10, fi_validUntilLedger = None\<rparr>"

theorem finality_settles_witness:
  "isTerminalFinalityState (run_machine record_observation F_submitted [sample_success 12 13])
   \<and> run_machine record_observation F_submitted ([sample_success 12 13] @ [sample_success 12 12]) = F_final"
proof -
  have h: "run_machine record_observation F_submitted [sample_success 12 13] = F_final" by code_simp
  then have t: "isTerminalFinalityState (run_machine record_observation F_submitted [sample_success 12 13])"
    by (simp add: isTerminalFinalityState_def TERMINAL_STATES_def)
  from finality_settles [OF t, of "[sample_success 12 12]"] t h show ?thesis by metis
qed

text \<open>
  (C5) Money is booked only when confirmed. A transaction recorded as submitted is booked completed
  after a sequence of observations only if one of them was a successful lookup whose inclusion
  ledger has at least the policy's confirmation depth of ledgers closed after it; a node behind
  the inclusion ledger counts as depth zero, so on mainnet it never completes a transaction.
\<close>

theorem completed_only_confirmed:
  assumes "toTransactionStatus (run_machine record_observation F_submitted xs) = T_completed"
  shows "\<exists>i \<in> set xs. confirms i \<and>
    (fi_policy i = FINALITY_POLICIES Mainnet \<longrightarrow>
      (\<exists>latest ledger. assertLedger (fi_latestLedger i) = Inr latest
         \<and> assertLedger (fo_ledger (fi_observation i)) = Inr ledger \<and> ledger < latest))"
proof -
  have "run_machine record_observation F_submitted xs = F_final"
    using assms by (cases "run_machine record_observation F_submitted xs") auto
  from run_final_confirmed [OF this] obtain i where i: "i \<in> set xs" "confirms i" by auto
  then have "fi_policy i = FINALITY_POLICIES Mainnet \<longrightarrow>
      (\<exists>latest ledger. assertLedger (fi_latestLedger i) = Inr latest
         \<and> assertLedger (fo_ledger (fi_observation i)) = Inr ledger \<and> ledger < latest)"
    by (auto simp: confirms_def max_def split: if_splits)
  with i show ?thesis by blast
qed

theorem completed_only_confirmed_witness:
  "\<exists>i \<in> set [sample_success 12 12, sample_success 12 13]. confirms i"
proof -
  have "toTransactionStatus (run_machine record_observation F_submitted
      [sample_success 12 12, sample_success 12 13]) = T_completed" by code_simp
  from completed_only_confirmed [OF this] show ?thesis by blast
qed

text \<open>
  A lagging read after the submission window is not ignored: a node that no longer finds an
  included transaction raises a conflict.
\<close>

lemma late_not_found_conflicts:
  "evaluateFinality \<lparr>fi_policy = FINALITY_POLICIES Mainnet, fi_previous = Some F_included,
     fi_observation = \<lparr>fo_status = NOT_FOUND, fo_ledger = None\<rparr>,
     fi_latestLedger = Some 131, fi_submittedAtLedger = Some 10, fi_validUntilLedger = None\<rparr>
   = Inl Finality_conflict"
  by code_simp

end
