(* ===== verification/Split_Lifecycle.thy ===== *)
theory Split_Lifecycle
  imports Js_Text Complex_Main "HOL-Library.Option_ord"
begin

text \<open>
  Split lifecycle (\<open>backend/src/lib/split-lifecycle.ts\<close>): the state of a split derived from its
  on-chain snapshot, the action table, the payment status of each participant and the completion
  summary; and the cancellation service (\<open>backend/src/services/split-cancellation.service.ts\<close>),
  whose database is a parameter: a record of the two repository calls the service makes.
\<close>

section \<open>Model of the lifecycle\<close>

datatype ParticipantStatus = P_paid | P_pending | P_failed | P_unpaid

datatype SplitState = S_draft | S_active | S_distributing | S_settled | S_cancelled | S_expired

record Collaborator =
  c_address :: string
  c_alias :: "string option"
  c_basisPoints :: int

text \<open>\<open>string | number | bigint\<close>; \<open>A_number None\<close> is a number that is not finite.\<close>

datatype amount_value = A_string string | A_number "rat option" | A_bigint int

record ProjectSnapshot =
  ps_projectId :: string
  ps_locked :: bool
  ps_balance :: amount_value
  ps_totalDistributed :: amount_value
  ps_distributionRound :: int
  ps_collaborators :: "Collaborator list"
  ps_isDraft :: bool
  ps_expiresAt :: "js_date option"

datatype PaymentStatus = R_pending | R_completed | R_failed

record PaymentRecord =
  pr_recipient :: string
  pr_status :: PaymentStatus
  pr_roundId :: string
  pr_timestamp :: int

record CancellationSnapshot =
  cs_cancelledAt :: instant
  cs_cancelledBy :: string
  cs_reason :: "string option"

definition math_trunc :: "rat \<Rightarrow> int" where
  "math_trunc r = (if 0 \<le> r then \<lfloor>r\<rfloor> else \<lceil>r\<rceil>)"

fun toBigInt :: "amount_value \<Rightarrow> int result" where
  "toBigInt (A_bigint v) = Inr v"
| "toBigInt (A_number None) = Inl (ApiError ''RangeError'' 500)"
| "toBigInt (A_number (Some r)) = Inr (math_trunc r)"
| "toBigInt (A_string s) =
     (let trimmed = trim s in
      if trimmed = [] then Inr 0
      else case bigint_text trimmed of None \<Rightarrow> Inr 0 | Some v \<Rightarrow> Inr v)"

definition sameAddress :: "string \<Rightarrow> string \<Rightarrow> bool" where
  "sameAddress a b = (to_upper (trim a) = to_upper (trim b))"

definition past_deadline :: "ProjectSnapshot \<Rightarrow> instant \<Rightarrow> bool" where
  "past_deadline project now =
     (case ps_expiresAt project of None \<Rightarrow> False | Some deadline \<Rightarrow> date_le deadline now)"

definition deriveSplitState ::
  "ProjectSnapshot \<Rightarrow> CancellationSnapshot option \<Rightarrow> instant \<Rightarrow> SplitState result" where
  "deriveSplitState project cancellation now =
     (if cancellation \<noteq> None then Inr S_cancelled
      else if ps_isDraft project then Inr S_draft
      else if past_deadline project now then Inr S_expired
      else case toBigInt (ps_balance project) of Inl e \<Rightarrow> Inl e | Inr balance \<Rightarrow>
        (case toBigInt (ps_totalDistributed project) of Inl e \<Rightarrow> Inl e | Inr distributed \<Rightarrow>
           if ps_locked project then Inr (if balance > 0 then S_distributing else S_settled)
           else if distributed > 0 \<and> balance = 0 then Inr S_settled
           else if distributed = 0 \<and> balance = 0 then Inr S_draft
           else Inr S_active))"

definition isTerminal :: "SplitState \<Rightarrow> bool" where
  "isTerminal state = (state = S_settled \<or> state = S_cancelled \<or> state = S_expired)"

datatype SplitAction =
    Act_read | Act_deposit | Act_update_metadata | Act_update_collaborators
  | Act_lock | Act_distribute | Act_cancel

definition isActionAllowed :: "SplitState \<Rightarrow> SplitAction \<Rightarrow> bool" where
  "isActionAllowed state action =
     (if action = Act_read then True
      else if state = S_cancelled \<or> state = S_settled \<or> state = S_expired then False
      else if state = S_distributing then action = Act_distribute
      else True)"

definition assertActionAllowed :: "SplitState \<Rightarrow> SplitAction \<Rightarrow> unit result" where
  "assertActionAllowed state action =
     (if isActionAllowed state action then Inr ()
      else Inl (ApiError ''split_not_mutable'' 409))"

definition isCancellable :: "SplitState \<Rightarrow> bool" where
  "isCancellable state = isActionAllowed state Act_cancel"

definition isFinancialActionAllowed :: "SplitState \<Rightarrow> bool" where
  "isFinancialActionAllowed state = (state = S_active \<or> state = S_distributing)"

record ParticipantPaymentStatus =
  pp_address :: string
  pp_alias :: "string option"
  pp_basisPoints :: int
  pp_status :: ParticipantStatus
  pp_roundId :: "string option"
  pp_lastUpdated :: "int option"

fun precedence :: "ParticipantStatus \<Rightarrow> int" where
  "precedence P_paid = 3"
| "precedence P_pending = 2"
| "precedence P_failed = 1"
| "precedence P_unpaid = 0"

fun statusOf :: "PaymentStatus \<Rightarrow> ParticipantStatus" where
  "statusOf R_completed = P_paid"
| "statusOf R_pending = P_pending"
| "statusOf R_failed = P_failed"

text \<open>One turn of the loop over a participant's records.\<close>

definition take_record ::
  "ParticipantPaymentStatus \<Rightarrow> PaymentRecord \<Rightarrow> ParticipantPaymentStatus" where
  "take_record best rec =
     (let candidate = statusOf (pr_status rec);
          higher = precedence candidate > precedence (pp_status best);
          newer = precedence candidate = precedence (pp_status best) \<and>
                  (case pp_lastUpdated best of None \<Rightarrow> True | Some t \<Rightarrow> pr_timestamp rec > t)
      in if higher \<or> newer
         then best\<lparr>pp_status := candidate, pp_roundId := Some (pr_roundId rec),
                   pp_lastUpdated := Some (pr_timestamp rec)\<rparr>
         else best)"

text \<open>The callback of \<open>collaborators.map\<close>.\<close>

definition participant_status ::
  "PaymentRecord list \<Rightarrow> Collaborator \<Rightarrow> ParticipantPaymentStatus" where
  "participant_status payments collaborator =
     (let theirs = filter (\<lambda>payment. sameAddress (pr_recipient payment) (c_address collaborator)) payments
      in foldl take_record
          \<lparr>pp_address = c_address collaborator, pp_alias = c_alias collaborator,
           pp_basisPoints = c_basisPoints collaborator, pp_status = P_unpaid,
           pp_roundId = None, pp_lastUpdated = None\<rparr>
          theirs)"

definition deriveParticipantStatuses ::
  "Collaborator list \<Rightarrow> PaymentRecord list \<Rightarrow> ParticipantPaymentStatus list" where
  "deriveParticipantStatuses collaborators payments =
     map (participant_status payments) collaborators"

record SplitCompletionSummary =
  sc_state :: SplitState
  sc_paidCount :: nat
  sc_totalParticipants :: nat
  sc_allParticipantsPaid :: bool
  sc_outstandingBasisPoints :: int

definition summariseCompletion ::
  "ProjectSnapshot \<Rightarrow> PaymentRecord list \<Rightarrow> CancellationSnapshot option \<Rightarrow> instant
     \<Rightarrow> SplitCompletionSummary result" where
  "summariseCompletion project payments cancellation now =
     (case deriveSplitState project cancellation now of Inl e \<Rightarrow> Inl e | Inr state \<Rightarrow>
        let participants = deriveParticipantStatuses (ps_collaborators project) payments;
            paid = filter (\<lambda>p. pp_status p = P_paid) participants
        in Inr \<lparr>sc_state = state,
                sc_paidCount = length paid,
                sc_totalParticipants = length participants,
                sc_allParticipantsPaid =
                  (length participants > 0 \<and> length paid = length participants),
                sc_outstandingBasisPoints =
                  sum_list (map pp_basisPoints
                    (filter (\<lambda>p. pp_status p \<noteq> P_paid) participants))\<rparr>)"

section \<open>Model of the cancellation service\<close>

record SplitCancellation =
  sx_projectId :: string
  sx_cancelledBy :: string
  sx_reason :: "string option"
  sx_cancelledAt :: instant

text \<open>The database: \<open>findOne({ where: { projectId } })\<close> and \<open>save\<close>, which may reject.\<close>

datatype db_error = UniqueViolation | OtherDbError

record 'db cancellation_repo =
  cr_findOne :: "'db \<Rightarrow> string \<Rightarrow> SplitCancellation option"
  cr_save :: "'db \<Rightarrow> SplitCancellation \<Rightarrow> db_error + 'db"

datatype cancel_error =
    NotCancellableError SplitState
  | AlreadyCancelledError
  | DbFailure db_error
  | Rejected api_error

definition getCancellation :: "'db cancellation_repo \<Rightarrow> 'db \<Rightarrow> string \<Rightarrow> SplitCancellation option" where
  "getCancellation R db projectId = cr_findOne R db (trim projectId)"

definition reason_text :: "string option \<Rightarrow> string option" where
  "reason_text r = (case r of None \<Rightarrow> None
     | Some s \<Rightarrow> if trim s = [] then None else Some (trim s))"

definition cancelSplit ::
  "'db cancellation_repo \<Rightarrow> 'db \<Rightarrow> ProjectSnapshot \<Rightarrow> string \<Rightarrow> string option \<Rightarrow> instant
     \<Rightarrow> cancel_error + ('db \<times> SplitCancellation)" where
  "cancelSplit R db project cancelledBy reason now =
     (let projectId = trim (ps_projectId project) in
      case getCancellation R db projectId of
        Some _ \<Rightarrow> Inl AlreadyCancelledError
      | None \<Rightarrow>
        (case deriveSplitState project None now of
           Inl e \<Rightarrow> Inl (Rejected e)
         | Inr state \<Rightarrow>
           if \<not> isCancellable state then Inl (NotCancellableError state)
           else let row = \<lparr>sx_projectId = projectId, sx_cancelledBy = trim cancelledBy,
                           sx_reason = reason_text reason, sx_cancelledAt = now\<rparr>
                in case cr_save R db row of
                     Inl UniqueViolation \<Rightarrow> Inl AlreadyCancelledError
                   | Inl e \<Rightarrow> Inl (DbFailure e)
                   | Inr db' \<Rightarrow> Inr (db', row)))"

text \<open>The thrown message names the instant of the cancellation.\<close>

datatype funding_error = CancelledOn instant

definition assertFundingAllowed ::
  "'db cancellation_repo \<Rightarrow> 'db \<Rightarrow> string \<Rightarrow> funding_error + unit" where
  "assertFundingAllowed R db projectId =
     (case getCancellation R db projectId of
        Some cancellation \<Rightarrow> Inl (CancelledOn (sx_cancelledAt cancellation))
      | None \<Rightarrow> Inr ())"

text \<open>
  What the service relies on from the table with its unique index on \<open>projectId\<close>: a saved row
  is found again, a save does not touch other projects, and a second row for a project is refused.
\<close>

definition unique_cancellations :: "'db cancellation_repo \<Rightarrow> bool" where
  "unique_cancellations R \<longleftrightarrow>
     (\<forall>db row db'. cr_save R db row = Inr db' \<longrightarrow>
        cr_findOne R db (sx_projectId row) = None \<and>
        (\<forall>p. cr_findOne R db' p =
           (if p = sx_projectId row then Some row else cr_findOne R db p)))"

section \<open>Lemmas\<close>

lemma isActionAllowed_table [status_simps]:
  "isActionAllowed st Act_read"
  "isTerminal st \<Longrightarrow> a \<noteq> Act_read \<Longrightarrow> \<not> isActionAllowed st a"
  "isActionAllowed S_distributing a \<longleftrightarrow> a = Act_read \<or> a = Act_distribute"
  "st = S_draft \<or> st = S_active \<Longrightarrow> isActionAllowed st a"
  by (auto simp: isActionAllowed_def isTerminal_def)

text \<open>
  The loop keeps the best of the pairs (precedence, time) it has seen: a record is taken exactly
  when its pair is strictly greater.
\<close>

definition best_rank :: "ParticipantPaymentStatus \<Rightarrow> int \<times> int option" where
  "best_rank b = (precedence (pp_status b), pp_lastUpdated b)"

definition record_rank :: "PaymentRecord \<Rightarrow> int \<times> int option" where
  "record_rank r = (precedence (statusOf (pr_status r)), Some (pr_timestamp r))"

lemma take_record_rank: "best_rank (take_record b r) = max (best_rank b) (record_rank r)"
  by (cases "pp_lastUpdated b")
    (auto simp: take_record_def best_rank_def record_rank_def Let_def max_def)

lemma foldl_take_record_rank:
  "best_rank (foldl take_record b rs) = foldl max (best_rank b) (map record_rank rs)"
  by (induction rs arbitrary: b) (simp_all add: take_record_rank)

lemma foldl_max_props:
  fixes m :: "'a :: linorder"
  shows "m \<le> foldl max m xs"
    and "x \<in> set xs \<Longrightarrow> x \<le> foldl max m xs"
    and "foldl max m xs = m \<or> foldl max m xs \<in> set xs"
proof -
  have 1: "m \<le> foldl max m xs" for m :: 'a and xs
  proof (induction xs arbitrary: m)
    case (Cons a xs)
    have "m \<le> max m a" by simp
    also have "\<dots> \<le> foldl max (max m a) xs" by (rule Cons.IH)
    finally show ?case by simp
  qed simp
  show "m \<le> foldl max m xs" by (rule 1)
  show "x \<in> set xs \<Longrightarrow> x \<le> foldl max m xs"
  proof (induction xs arbitrary: m)
    case (Cons a xs)
    show ?case
    proof (cases "x = a")
      case True
      have "a \<le> max m a" by simp
      also have "\<dots> \<le> foldl max (max m a) xs" by (rule 1)
      finally show ?thesis using True by simp
    next
      case False
      with Cons show ?thesis by simp
    qed
  qed simp
  show "foldl max m xs = m \<or> foldl max m xs \<in> set xs"
  proof (induction xs arbitrary: m)
    case (Cons a xs)
    from Cons.IH [of "max m a"] show ?case by (auto simp: max_def)
  qed simp
qed

lemma precedence_inj: "precedence a = precedence b \<longleftrightarrow> a = b"
  by (cases a; cases b) auto

lemma statusOf_not_unpaid: "statusOf r \<noteq> P_unpaid"
  by (cases r) auto

definition their_payments :: "PaymentRecord list \<Rightarrow> Collaborator \<Rightarrow> PaymentRecord list" where
  "their_payments payments c = filter (\<lambda>p. sameAddress (pr_recipient p) (c_address c)) payments"

lemma participant_rank:
  "best_rank (participant_status payments c) = foldl max (0, None) (map record_rank (their_payments payments c))"
  by (simp add: participant_status_def foldl_take_record_rank their_payments_def)
    (simp add: best_rank_def)

text \<open>Every record of the participant ranks at most the result, and the result is one of them.\<close>

lemma participant_best:
  assumes "r \<in> set (their_payments payments c)"
  shows "record_rank r \<le> best_rank (participant_status payments c)"
    and "\<exists>r' \<in> set (their_payments payments c).
          record_rank r' = best_rank (participant_status payments c)"
proof -
  let ?rs = "map record_rank (their_payments payments c)"
  show le: "record_rank r \<le> best_rank (participant_status payments c)"
    using foldl_max_props(2) [of "record_rank r" ?rs "(0, None)"] assms by (simp add: participant_rank)
  have "best_rank (participant_status payments c) \<noteq> (0, None)"
    using le by (cases "pr_status r") (auto simp: record_rank_def)
  then show "\<exists>r' \<in> set (their_payments payments c).
      record_rank r' = best_rank (participant_status payments c)"
    using foldl_max_props(3) [of "(0, None)" ?rs] by (auto simp: participant_rank)
qed

lemma participant_none:
  "their_payments payments c = [] \<Longrightarrow>
     pp_status (participant_status payments c) = P_unpaid \<and> pp_lastUpdated (participant_status payments c) = None"
  by (simp add: participant_status_def their_payments_def)

text \<open>The rank determines status and time, so the result is decided by the records alone.\<close>

lemma participant_status_eq:
  assumes "r \<in> set (their_payments payments c)"
    and "\<forall>r' \<in> set (their_payments payments c).
          precedence (statusOf (pr_status r')) \<le> precedence (statusOf (pr_status r))"
  shows "pp_status (participant_status payments c) = statusOf (pr_status r)"
proof -
  obtain r' where r': "r' \<in> set (their_payments payments c)"
    "record_rank r' = best_rank (participant_status payments c)"
    using participant_best(2) [OF assms(1)] by blast
  with participant_best(1) [OF assms(1)] assms(2)
  have "precedence (statusOf (pr_status r)) = precedence (statusOf (pr_status r'))"
    by (force simp: record_rank_def best_rank_def)
  with r'(2) show ?thesis by (simp add: record_rank_def best_rank_def precedence_inj)
qed

definition their_statuses :: "PaymentRecord list \<Rightarrow> Collaborator \<Rightarrow> PaymentStatus set" where
  "their_statuses payments c = pr_status ` set (their_payments payments c)"

lemma participant_status_max:
  assumes "q \<in> their_statuses payments c"
    and "\<And>q'. q' \<in> their_statuses payments c \<Longrightarrow> precedence (statusOf q') \<le> precedence (statusOf q)"
  shows "pp_status (participant_status payments c) = statusOf q"
  using assms participant_status_eq [of _ payments c] by (auto simp: their_statuses_def)

lemma participant_status_table:
  "pp_status (participant_status payments c) =
      (if R_completed \<in> their_statuses payments c then P_paid
       else if R_pending \<in> their_statuses payments c then P_pending
       else if R_failed \<in> their_statuses payments c then P_failed else P_unpaid)"
proof -
  have le: "precedence (statusOf q) \<le> 3" "q \<noteq> R_completed \<Longrightarrow> precedence (statusOf q) \<le> 2"
    "q \<noteq> R_completed \<Longrightarrow> q \<noteq> R_pending \<Longrightarrow> precedence (statusOf q) \<le> 1" for q
    by (cases q; simp)+
  consider "R_completed \<in> their_statuses payments c"
    | "R_completed \<notin> their_statuses payments c" "R_pending \<in> their_statuses payments c"
    | "R_completed \<notin> their_statuses payments c" "R_pending \<notin> their_statuses payments c"
      "R_failed \<in> their_statuses payments c"
    | "their_statuses payments c = {}"
    by (metis PaymentStatus.exhaust ex_in_conv)
  then show ?thesis
  proof cases
    case 1
    with participant_status_max [OF 1] le show ?thesis by simp
  next
    case 2
    have "precedence (statusOf q') \<le> precedence (statusOf R_pending)"
      if "q' \<in> their_statuses payments c" for q' using le(2) [of q'] that 2 by auto
    with participant_status_max [OF 2(2)] 2 show ?thesis by simp
  next
    case 3
    have "precedence (statusOf q') \<le> precedence (statusOf R_failed)"
      if "q' \<in> their_statuses payments c" for q' using le(3) [of q'] that 3 by auto
    with participant_status_max [OF 3(3)] 3 show ?thesis by simp
  next
    case 4
    then show ?thesis by (simp add: their_statuses_def participant_none)
  qed
qed

lemma participant_time:
  assumes "pp_lastUpdated (participant_status payments c) = Some t"
  shows "\<exists>r \<in> set (their_payments payments c). pr_timestamp r = t
      \<and> statusOf (pr_status r) = pp_status (participant_status payments c)"
    and "\<lbrakk>r \<in> set (their_payments payments c);
          statusOf (pr_status r) = pp_status (participant_status payments c)\<rbrakk> \<Longrightarrow> pr_timestamp r \<le> t"
proof -
  obtain q where "q \<in> set (their_payments payments c)"
    using participant_none [of payments c] assms by (cases "their_payments payments c") auto
  from participant_best(2) [OF this] assms show
    "\<exists>r \<in> set (their_payments payments c). pr_timestamp r = t
      \<and> statusOf (pr_status r) = pp_status (participant_status payments c)"
    by (auto simp: record_rank_def best_rank_def precedence_inj)
  show "pr_timestamp r \<le> t" if "r \<in> set (their_payments payments c)"
    "statusOf (pr_status r) = pp_status (participant_status payments c)"
    using participant_best(1) [OF that(1)] that(2) assms by (simp add: record_rank_def best_rank_def)
qed

lemma participant_time_exists:
  assumes "r \<in> set (their_payments payments c)"
  shows "\<exists>t. pp_lastUpdated (participant_status payments c) = Some t"
proof -
  obtain q where "record_rank q = best_rank (participant_status payments c)"
    using participant_best(2) [OF assms] by blast
  then have "pp_lastUpdated (participant_status payments c) = Some (pr_timestamp q)"
    by (simp add: record_rank_def best_rank_def)
  then show ?thesis by blast
qed

lemma participant_basisPoints [simp]: "pp_basisPoints (participant_status payments c) = c_basisPoints c"
proof -
  have "pp_basisPoints (foldl take_record b rs) = pp_basisPoints b" for b rs
    by (induction rs arbitrary: b) (simp_all add: take_record_def Let_def)
  then show ?thesis by (simp add: participant_status_def)
qed

lemma cancelSplit_Inr:
  "cancelSplit R db project by reason now = Inr (db', row) \<longleftrightarrow>
     cr_findOne R db (trim (ps_projectId project)) = None \<and>
     (\<exists>st. deriveSplitState project None now = Inr st \<and> isCancellable st) \<and>
     row = \<lparr>sx_projectId = trim (ps_projectId project), sx_cancelledBy = trim by,
            sx_reason = reason_text reason, sx_cancelledAt = now\<rparr> \<and>
     cr_save R db row = Inr db'"
  by (auto simp: cancelSplit_def getCancellation_def Let_def
      split: option.splits sum.splits if_splits db_error.splits)

lemma isCancellable_iff: "isCancellable st \<longleftrightarrow> st = S_draft \<or> st = S_active"
  by (cases st) (auto simp: isCancellable_def isActionAllowed_def)

section \<open>Properties\<close>

text \<open>
  Payment status of a participant: it is decided by all of that participant's records and
  not by their order. A completed record makes it paid; otherwise a pending one makes it pending;
  otherwise a failed one makes it failed; with no record it is unpaid. The reported time is the
  latest time among the records of the reported status.
\<close>

theorem participant_status_decided:
  "pp_status (participant_status payments c) =
      (if R_completed \<in> their_statuses payments c then P_paid
       else if R_pending \<in> their_statuses payments c then P_pending
       else if R_failed \<in> their_statuses payments c then P_failed else P_unpaid)
    \<and> pp_lastUpdated (participant_status payments c) =
        (if their_payments payments c = [] then None
         else Some (Max {pr_timestamp r | r. r \<in> set (their_payments payments c)
                  \<and> statusOf (pr_status r) = pp_status (participant_status payments c)}))"
proof (cases "their_payments payments c = []")
  case True
  then show ?thesis using participant_status_table participant_none by auto
next
  case False
  let ?T = "{pr_timestamp r | r. r \<in> set (their_payments payments c)
                  \<and> statusOf (pr_status r) = pp_status (participant_status payments c)}"
  from False obtain t where t: "pp_lastUpdated (participant_status payments c) = Some t"
    using participant_time_exists [of "hd (their_payments payments c)" payments c] by auto
  have "finite ?T" by simp
  moreover have "t \<in> ?T" using participant_time(1) [OF t] by blast
  moreover have "\<And>x. x \<in> ?T \<Longrightarrow> x \<le> t" using participant_time(2) [OF t] by blast
  ultimately have "Max ?T = t" by (intro Max_eqI) auto
  with False t participant_status_table show ?thesis by auto
qed

text \<open>
  State policy. The derived state exists whenever the two amounts are readable. A cancelled
  split and a split past its deadline accept nothing but reads; a financial action is accepted only
  for a split that is neither cancelled nor draft nor expired and whose balance is not zero; only
  a locked split with money left is distributing, and it accepts exactly reads and distributions.
\<close>

theorem split_state_policy:
  assumes "toBigInt (ps_balance project) = Inr bal" "toBigInt (ps_totalDistributed project) = Inr paid"
    and "0 \<le> paid"
  shows "\<exists>st. deriveSplitState project cancellation now = Inr st
    \<and> (cancellation \<noteq> None \<or> (past_deadline project now \<and> \<not> ps_isDraft project) \<longrightarrow>
        (\<forall>a. a \<noteq> Act_read \<longrightarrow> assertActionAllowed st a = Inl (ApiError ''split_not_mutable'' 409)))
    \<and> (isFinancialActionAllowed st \<longrightarrow>
        cancellation = None \<and> \<not> ps_isDraft project \<and> \<not> past_deadline project now \<and> bal \<noteq> 0)
    \<and> (st = S_distributing \<longrightarrow> ps_locked project \<and> 0 < bal
        \<and> (\<forall>a. assertActionAllowed st a = Inr () \<longleftrightarrow> a = Act_read \<or> a = Act_distribute))
    \<and> (\<forall>a. a \<noteq> Act_read \<and> isTerminal st \<longrightarrow> assertActionAllowed st a \<noteq> Inr ())"
  using assms
  by (auto simp: deriveSplitState_def assertActionAllowed_def isActionAllowed_def isTerminal_def
      isFinancialActionAllowed_def)

definition sample_project :: ProjectSnapshot where
  "sample_project = \<lparr>ps_projectId = '' p1 '', ps_locked = False, ps_balance = A_string ''50'',
     ps_totalDistributed = A_number (Some 0), ps_distributionRound = 0,
     ps_collaborators = [\<lparr>c_address = ''GA'', c_alias = None, c_basisPoints = 6000\<rparr>,
                         \<lparr>c_address = ''GB'', c_alias = None, c_basisPoints = 4000\<rparr>],
     ps_isDraft = False, ps_expiresAt = None\<rparr>"

lemma sample_amounts:
  "toBigInt (ps_balance sample_project) = Inr 50" "toBigInt (ps_totalDistributed sample_project) = Inr 0"
  by code_simp+

theorem split_state_policy_witness:
  "\<exists>st. deriveSplitState sample_project None 7 = Inr st
    \<and> (isFinancialActionAllowed st \<longrightarrow> (50::int) \<noteq> 0)
    \<and> (\<forall>a. a \<noteq> Act_read \<and> isTerminal st \<longrightarrow> assertActionAllowed st a \<noteq> Inr ())"
  using split_state_policy [OF sample_amounts order_refl, of None 7] by blast

text \<open>
  A locked split that never held money is reported as settled, although nothing was distributed.
\<close>

lemma locked_unfunded_is_settled:
  "\<lbrakk>ps_locked project; \<not> ps_isDraft project; ps_expiresAt project = None;
    ps_balance project = A_bigint 0; ps_totalDistributed project = A_bigint 0\<rbrakk>
   \<Longrightarrow> deriveSplitState project None now = Inr S_settled"
  by (simp add: deriveSplitState_def past_deadline_def)

text \<open>
  Completion summary: it is produced exactly when the state is derivable; the paid and
  unpaid participants partition the collaborators, the outstanding basis points are the total
  minus those of the paid participants, and "all paid" means a non-empty split in which every
  collaborator has a completed payment.
\<close>

theorem summariseCompletion_accounts:
  assumes "summariseCompletion project payments cancellation now = Inr sm"
  defines "cs \<equiv> ps_collaborators project"
  shows "deriveSplitState project cancellation now = Inr (sc_state sm)
    \<and> sc_totalParticipants sm = length cs
    \<and> sc_paidCount sm = length (filter (\<lambda>c. R_completed \<in> their_statuses payments c) cs)
    \<and> sc_outstandingBasisPoints sm = sum_list (map c_basisPoints cs)
        - sum_list (map c_basisPoints (filter (\<lambda>c. R_completed \<in> their_statuses payments c) cs))
    \<and> (sc_allParticipantsPaid sm \<longleftrightarrow>
        cs \<noteq> [] \<and> (\<forall>c \<in> set cs. R_completed \<in> their_statuses payments c))"
proof -
  have paid: "pp_status (participant_status payments c) = P_paid \<longleftrightarrow> R_completed \<in> their_statuses payments c" for c
    by (simp add: participant_status_table)
  show ?thesis
    using assms(1)
    by (auto simp: summariseCompletion_def deriveParticipantStatuses_def filter_map comp_def paid
        sum_list_filter_not length_filter_all Let_def cs_def split: sum.splits)
qed

definition sample_payments :: "PaymentRecord list" where
  "sample_payments =
     [\<lparr>pr_recipient = ''ga'', pr_status = R_completed, pr_roundId = ''r1'', pr_timestamp = 5\<rparr>,
      \<lparr>pr_recipient = ''GA'', pr_status = R_failed, pr_roundId = ''r1'', pr_timestamp = 9\<rparr>]"

theorem summariseCompletion_accounts_witness:
  "\<exists>sm. summariseCompletion sample_project sample_payments None 7 = Inr sm
    \<and> sc_totalParticipants sm = 2
    \<and> \<not> (\<forall>c \<in> set (ps_collaborators sample_project). R_completed \<in> their_statuses sample_payments c)"
proof -
  have ev: "summariseCompletion sample_project sample_payments None 7 =
      Inr \<lparr>sc_state = S_active, sc_paidCount = 1, sc_totalParticipants = 2,
           sc_allParticipantsPaid = False, sc_outstandingBasisPoints = 4000\<rparr>"
    by code_simp
  from summariseCompletion_accounts [OF ev] ev show ?thesis by (auto simp: sample_project_def)
qed

text \<open>
  Cancelling a split: it succeeds only on a split that is not yet cancelled and whose derived
  state is draft or active; afterwards funding of that project is refused, cancelling it again is
  reported as already cancelled whatever the snapshot says, and other projects are unaffected.
\<close>

theorem cancelSplit_blocks_funding:
  assumes laws: "unique_cancellations R"
    and ok: "cancelSplit R db project actor reason now = Inr (db', row)"
  shows "(\<exists>st. deriveSplitState project None now = Inr st \<and> (st = S_draft \<or> st = S_active))
    \<and> getCancellation R db (ps_projectId project) = None
    \<and> assertFundingAllowed R db' (ps_projectId project) = Inl (CancelledOn now)
    \<and> (\<forall>project' actor' reason' now'. trim (ps_projectId project') = trim (ps_projectId project) \<longrightarrow>
         cancelSplit R db' project' actor' reason' now' = Inl AlreadyCancelledError)
    \<and> (\<forall>p. trim p \<noteq> trim (ps_projectId project) \<longrightarrow>
         assertFundingAllowed R db' p = assertFundingAllowed R db p)"
proof -
  from ok have row: "sx_projectId row = trim (ps_projectId project)" "sx_cancelledAt row = now"
    and save: "cr_save R db row = Inr db'" and none: "cr_findOne R db (trim (ps_projectId project)) = None"
    and st: "\<exists>st. deriveSplitState project None now = Inr st \<and> isCancellable st"
    by (auto simp: cancelSplit_Inr)
  from laws save have find: "cr_findOne R db' p =
      (if p = trim (ps_projectId project) then Some row else cr_findOne R db p)" for p
    using row by (auto simp: unique_cancellations_def)
  show ?thesis
    using st find none row
    by (auto simp: isCancellable_iff assertFundingAllowed_def getCancellation_def cancelSplit_def Let_def)
qed

definition sample_repo :: "(string \<rightharpoonup> SplitCancellation) cancellation_repo" where
  "sample_repo = \<lparr>cr_findOne = (\<lambda>db p. db p),
     cr_save = (\<lambda>db row. if db (sx_projectId row) = None then Inr (db(sx_projectId row \<mapsto> row))
                        else Inl UniqueViolation)\<rparr>"

theorem cancelSplit_blocks_funding_witness:
  "\<exists>db' row. cancelSplit sample_repo Map.empty sample_project '' GX'' (Some '' '') 7 = Inr (db', row)
    \<and> assertFundingAllowed sample_repo db' '' p1 '' = Inl (CancelledOn 7)"
proof -
  have laws: "unique_cancellations sample_repo"
    by (auto simp: unique_cancellations_def sample_repo_def split: if_splits)
  have st: "deriveSplitState sample_project None 7 = Inr S_active" by code_simp
  obtain db' row where ok:
    "cancelSplit sample_repo Map.empty sample_project '' GX'' (Some '' '') 7 = Inr (db', row)"
    using st by (auto simp: cancelSplit_def getCancellation_def sample_repo_def Let_def
        isCancellable_iff)
  from cancelSplit_blocks_funding [OF laws ok] ok show ?thesis
    by (auto simp: sample_project_def)
qed

end
