(* ===== verification/Split_Registries.thy ===== *)
theory Split_Registries
  imports Js_Text Js_Map
begin

text \<open>
  The off-chain registries attached to a split: drafts
  (\<open>backend/src/services/splits/split-draft.registry.ts\<close>) and completion deadlines
  (\<open>backend/src/services/splits/split-expiration.registry.ts\<close>). The module-level maps and logs are
  explicit state; \<open>now\<close> is the clock, the random draft id is an argument.
\<close>

section \<open>Drafts\<close>

datatype DraftStatus = D_draft | D_published | D_discarded

record SplitDraftCollaborator =
  dc_address :: string
  dc_alias :: "string option"
  dc_basisPoints :: "int option"

record SplitDraftRecord =
  dr_id :: string
  dr_owner :: string
  dr_projectId :: "string option"
  dr_title :: "string option"
  dr_projectType :: "string option"
  dr_token :: "string option"
  dr_collaborators :: "SplitDraftCollaborator list"
  dr_status :: DraftStatus
  dr_createdAt :: instant
  dr_updatedAt :: instant
  dr_publishedAt :: "instant option"
  dr_discardedAt :: "instant option"

type_synonym drafts = "(string, SplitDraftRecord) jmap"

record draft_input =
  di_id :: "string option"
  di_owner :: string
  di_projectId :: "string option"
  di_title :: "string option"
  di_projectType :: "string option"
  di_token :: "string option"
  di_collaborators :: "SplitDraftCollaborator list option"

definition saveDraft ::
  "string \<Rightarrow> instant \<Rightarrow> drafts \<Rightarrow> draft_input \<Rightarrow> drafts \<times> SplitDraftRecord result" where
  "saveDraft newId now drafts input =
     (if (case di_id input of None \<Rightarrow> False | Some i \<Rightarrow> i \<noteq> [])
      then (case jm_get drafts (default_to [] (di_id input)) of
          None \<Rightarrow> (drafts, Inl (ApiError ''draft_not_found'' 404))
        | Some existing \<Rightarrow>
          if dr_status existing \<noteq> D_draft then (drafts, Inl (ApiError ''draft_not_editable'' 409))
          else if dr_owner existing \<noteq> di_owner input then (drafts, Inl (ApiError ''forbidden_not_owner'' 403))
          else let updated = existing\<lparr>
                   dr_projectId := or_else (di_projectId input) (dr_projectId existing),
                   dr_title := or_else (di_title input) (dr_title existing),
                   dr_projectType := or_else (di_projectType input) (dr_projectType existing),
                   dr_token := or_else (di_token input) (dr_token existing),
                   dr_collaborators := default_to (dr_collaborators existing) (di_collaborators input),
                   dr_updatedAt := now\<rparr>
               in (jm_set drafts (dr_id updated) updated, Inr updated))
      else let record = \<lparr>dr_id = newId, dr_owner = di_owner input, dr_projectId = di_projectId input,
                 dr_title = di_title input, dr_projectType = di_projectType input,
                 dr_token = di_token input, dr_collaborators = default_to [] (di_collaborators input),
                 dr_status = D_draft, dr_createdAt = now, dr_updatedAt = now,
                 dr_publishedAt = None, dr_discardedAt = None\<rparr>
           in (jm_set drafts newId record, Inr record))"

definition getDraft :: "drafts \<Rightarrow> string \<Rightarrow> SplitDraftRecord option" where
  "getDraft drafts i = jm_get drafts i"

definition listDraftsForOwner :: "drafts \<Rightarrow> string \<Rightarrow> SplitDraftRecord list" where
  "listDraftsForOwner drafts owner =
     filter (\<lambda>d. dr_owner d = owner \<and> dr_status d = D_draft) (jm_values drafts)"

definition isFinancialActionBlockedForDraft :: "SplitDraftRecord option \<Rightarrow> bool" where
  "isFinancialActionBlockedForDraft draft =
     (case draft of None \<Rightarrow> False | Some d \<Rightarrow> dr_status d = D_draft)"

definition missing :: "string option \<Rightarrow> bool" where
  "missing s = (case s of None \<Rightarrow> True | Some x \<Rightarrow> x = [])"

definition total_bps :: "SplitDraftRecord \<Rightarrow> int" where
  "total_bps draft = sum_list (map (\<lambda>c. default_to 0 (dc_basisPoints c)) (dr_collaborators draft))"

definition publishDraft :: "instant \<Rightarrow> drafts \<Rightarrow> string \<Rightarrow> string \<Rightarrow> drafts \<times> SplitDraftRecord result" where
  "publishDraft now drafts i owner =
     (case jm_get drafts i of
        None \<Rightarrow> (drafts, Inl (ApiError ''draft_not_found'' 404))
      | Some draft \<Rightarrow>
        if dr_owner draft \<noteq> owner then (drafts, Inl (ApiError ''forbidden_not_owner'' 403))
        else if dr_status draft \<noteq> D_draft then (drafts, Inl (ApiError ''draft_not_publishable'' 409))
        else if missing (dr_projectId draft) \<or> missing (dr_token draft)
          then (drafts, Inl (ApiError ''draft_incomplete'' 400))
        else if length (dr_collaborators draft) < 2 then (drafts, Inl (ApiError ''draft_incomplete'' 400))
        else if total_bps draft \<noteq> 10000 then (drafts, Inl (ApiError ''draft_incomplete'' 400))
        else let draft' = draft\<lparr>dr_status := D_published, dr_publishedAt := Some now, dr_updatedAt := now\<rparr>
             in (jm_set drafts i draft', Inr draft'))"

definition discardDraft :: "instant \<Rightarrow> drafts \<Rightarrow> string \<Rightarrow> string \<Rightarrow> drafts \<times> SplitDraftRecord result" where
  "discardDraft now drafts i owner =
     (case jm_get drafts i of
        None \<Rightarrow> (drafts, Inl (ApiError ''draft_not_found'' 404))
      | Some draft \<Rightarrow>
        if dr_owner draft \<noteq> owner then (drafts, Inl (ApiError ''forbidden_not_owner'' 403))
        else if dr_status draft = D_discarded then (drafts, Inr draft)
        else if dr_status draft = D_published then (drafts, Inl (ApiError ''draft_already_published'' 409))
        else let draft' = draft\<lparr>dr_status := D_discarded, dr_discardedAt := Some now, dr_updatedAt := now\<rparr>
             in (jm_set drafts i draft', Inr draft'))"

definition assertNotDraft :: "SplitDraftRecord option \<Rightarrow> unit result" where
  "assertNotDraft draft =
     (if isFinancialActionBlockedForDraft draft
      then Inl (ApiError ''financial_action_on_draft'' 409) else Inr ())"

section \<open>Deadlines\<close>

datatype ExpirationTransition = X_configured | X_updated | X_cleared | X_reached

record SplitExpirationRecord =
  er_projectId :: string
  er_createdAt :: instant
  er_expiresAt :: "instant option"
  er_configuredBy :: string
  er_updatedAt :: instant

record ExpirationLifecycleEvent =
  ev_type :: ExpirationTransition
  ev_projectId :: string
  ev_actor :: string
  ev_expiresAt :: "instant option"
  ev_at :: instant

record expirations =
  ex_records :: "(string, SplitExpirationRecord) jmap"
  ex_events :: "ExpirationLifecycleEvent list"

text \<open>\<open>createdAt\<close> and \<open>expiresAt\<close> come from the caller and may be Invalid Dates.\<close>

definition check_deadline ::
  "js_date \<Rightarrow> js_date \<Rightarrow> bool \<Rightarrow> instant \<Rightarrow> instant option result" where
  "check_deadline createdAt expiresAt known now =
     (case expiresAt of
        None \<Rightarrow> Inl (ApiError ''invalid_expiration'' 400)
      | Some d \<Rightarrow>
        if (case createdAt of None \<Rightarrow> False | Some c \<Rightarrow> d \<le> c)
        then Inl (ApiError ''expiration_before_creation'' 400)
        else if \<not> known \<and> d \<le> now then Inl (ApiError ''expiration_in_past'' 400)
        else Inr (Some d))"

definition configureExpiration ::
  "expirations \<Rightarrow> string \<Rightarrow> js_date \<Rightarrow> js_date option \<Rightarrow> string \<Rightarrow> instant
     \<Rightarrow> expirations \<times> SplitExpirationRecord result" where
  "configureExpiration reg projectId createdAt expiresAt actor now =
     (let existing = jm_get (ex_records reg) projectId in
      case (case expiresAt of None \<Rightarrow> Inr None
            | Some d \<Rightarrow> check_deadline createdAt d (existing \<noteq> None) now) of
        Inl e \<Rightarrow> (reg, Inl e)
      | Inr expiresAtIso \<Rightarrow>
        let transition = (if existing = None then X_configured
                          else if expiresAtIso = None then X_cleared else X_updated)
        in case to_iso createdAt of
             Inl e \<Rightarrow> (reg, Inl e)
           | Inr created \<Rightarrow>
             let record = \<lparr>er_projectId = projectId, er_createdAt = created, er_expiresAt = expiresAtIso,
                           er_configuredBy = actor, er_updatedAt = now\<rparr>
             in (reg\<lparr>ex_records := jm_set (ex_records reg) projectId record,
                     ex_events := ex_events reg @
                       [\<lparr>ev_type = transition, ev_projectId = projectId, ev_actor = actor,
                         ev_expiresAt = expiresAtIso, ev_at = now\<rparr>]\<rparr>,
                 Inr record))"

definition getExpiration :: "expirations \<Rightarrow> string \<Rightarrow> SplitExpirationRecord option" where
  "getExpiration reg projectId = jm_get (ex_records reg) projectId"

definition isSplitExpired :: "expirations \<Rightarrow> string \<Rightarrow> instant \<Rightarrow> bool" where
  "isSplitExpired reg projectId now =
     (case jm_get (ex_records reg) projectId of
        None \<Rightarrow> False
      | Some record \<Rightarrow> (case er_expiresAt record of None \<Rightarrow> False | Some d \<Rightarrow> d \<le> now))"

definition reached_before :: "expirations \<Rightarrow> string \<Rightarrow> bool" where
  "reached_before reg projectId =
     (\<exists>e \<in> set (ex_events reg). ev_projectId e = projectId \<and> ev_type e = X_reached)"

definition assertNotExpired :: "expirations \<Rightarrow> string \<Rightarrow> instant \<Rightarrow> expirations \<times> unit result" where
  "assertNotExpired reg projectId now =
     (case jm_get (ex_records reg) projectId of
        None \<Rightarrow> (reg, Inr ())
      | Some record \<Rightarrow>
        (case er_expiresAt record of
           None \<Rightarrow> (reg, Inr ())
         | Some d \<Rightarrow>
           if d > now then (reg, Inr ())
           else let reg' = (if \<not> reached_before reg projectId
                  then reg\<lparr>ex_events := ex_events reg @
                    [\<lparr>ev_type = X_reached, ev_projectId = projectId, ev_actor = ''system'',
                      ev_expiresAt = Some d, ev_at = now\<rparr>]\<rparr>
                  else reg)
                in (reg', Inl (ApiError ''split_expired'' 410))))"

definition listExpirationEvents :: "expirations \<Rightarrow> string option \<Rightarrow> ExpirationLifecycleEvent list" where
  "listExpirationEvents reg projectId =
     (if missing projectId then ex_events reg
      else filter (\<lambda>e. Some (ev_projectId e) = projectId) (ex_events reg))"

section \<open>Lemmas\<close>

datatype draft_op =
    Save string instant draft_input
  | Publish instant string string
  | Discard instant string string

fun run_draft :: "draft_op \<Rightarrow> drafts \<Rightarrow> drafts \<times> SplitDraftRecord result" where
  "run_draft (Save i t inp) ds = saveDraft i t ds inp"
| "run_draft (Publish t i ow) ds = publishDraft t ds i ow"
| "run_draft (Discard t i ow) ds = discardDraft t ds i ow"

fun draft_actor :: "draft_op \<Rightarrow> string" where
  "draft_actor (Save _ _ inp) = di_owner inp"
| "draft_actor (Publish _ _ ow) = ow"
| "draft_actor (Discard _ _ ow) = ow"

text \<open>A saved draft without an id draws a new id; entries are stored under their id.\<close>

fun draft_fresh :: "draft_op \<Rightarrow> drafts \<Rightarrow> bool" where
  "draft_fresh (Save i _ _) ds = (jm_get ds i = None)"
| "draft_fresh _ _ = True"

definition drafts_ok :: "drafts \<Rightarrow> bool" where
  "drafts_ok ds \<longleftrightarrow> (\<forall>i d. jm_get ds i = Some d \<longrightarrow> dr_id d = i)"

lemma drafts_ok_set: "drafts_ok ds \<Longrightarrow> dr_id d = i \<Longrightarrow> drafts_ok (jm_set ds i d)"
  by (simp add: drafts_ok_def)

text \<open>
  Every operation leaves the map alone or writes one entry: a new draft, or a successor of an
  entry that is still a draft and belongs to the actor.
\<close>

definition draft_write :: "string \<Rightarrow> drafts \<Rightarrow> string \<Rightarrow> SplitDraftRecord \<Rightarrow> bool" where
  "draft_write actor ds i d \<longleftrightarrow> dr_id d = i \<and> dr_owner d = actor \<and>
     (case jm_get ds i of
        None \<Rightarrow> dr_status d = D_draft
      | Some e \<Rightarrow> dr_status e = D_draft \<and> dr_owner e = actor)"

lemma saveDraft_writes:
  assumes "saveDraft n t ds inp = (ds', res)" "drafts_ok ds" "jm_get ds n = None"
  shows "ds' = ds \<or> (\<exists>i d. ds' = jm_set ds i d \<and> draft_write (di_owner inp) ds i d)"
proof (cases "di_id inp = None \<or> di_id inp = Some []")
  case True
  then obtain d where d: "res = Inr d" using assms(1) by (auto simp: saveDraft_def Let_def)
  have "ds' = jm_set ds n d" "draft_write (di_owner inp) ds n d"
    using True assms(1,3) d by (auto simp: saveDraft_def Let_def draft_write_def)
  then show ?thesis by blast
next
  case False
  then obtain i where i: "di_id inp = Some i" "i \<noteq> []" by auto
  show ?thesis
  proof (cases "\<exists>e. jm_get ds i = Some e \<and> dr_status e = D_draft \<and> dr_owner e = di_owner inp")
    case True
    then obtain e where e: "jm_get ds i = Some e" "dr_status e = D_draft" "dr_owner e = di_owner inp" by blast
    have id: "dr_id e = i" using e assms(2) by (simp add: drafts_ok_def)
    obtain d where d: "res = Inr d" using assms(1) i e by (auto simp: saveDraft_def Let_def)
    have "ds' = jm_set ds i d" "draft_write (di_owner inp) ds i d"
      using assms(1) i e d id by (auto simp: saveDraft_def Let_def draft_write_def)
    then show ?thesis by blast
  next
    case False
    with assms(1) i have "ds' = ds" by (auto simp: saveDraft_def Let_def split: option.splits if_splits)
    then show ?thesis ..
  qed
qed

lemma publishDraft_Inr:
  "publishDraft t ds i ow = (ds', Inr d) \<longleftrightarrow>
    (\<exists>e. jm_get ds i = Some e \<and> dr_status e = D_draft \<and> dr_owner e = ow
      \<and> \<not> missing (dr_projectId e) \<and> \<not> missing (dr_token e) \<and> 2 \<le> length (dr_collaborators e)
      \<and> total_bps e = 10000
      \<and> d = e\<lparr>dr_status := D_published, dr_publishedAt := Some t, dr_updatedAt := t\<rparr>
      \<and> ds' = jm_set ds i d)"
  by (auto simp: publishDraft_def Let_def split: option.splits if_splits)

lemma publishDraft_Inl: "publishDraft t ds i ow = (ds', Inl e) \<Longrightarrow> ds' = ds"
  by (auto simp: publishDraft_def Let_def split: option.splits if_splits)

lemma discardDraft_writes:
  assumes "discardDraft t ds i ow = (ds', res)" "drafts_ok ds"
  shows "ds' = ds \<or> (\<exists>d. ds' = jm_set ds i d \<and> draft_write ow ds i d)"
proof (cases "\<exists>e. jm_get ds i = Some e \<and> dr_status e = D_draft \<and> dr_owner e = ow")
  case True
  then obtain e where e: "jm_get ds i = Some e" "dr_status e = D_draft" "dr_owner e = ow" by blast
  have id: "dr_id e = i" using e assms(2) by (simp add: drafts_ok_def)
  obtain d where d: "res = Inr d" using assms(1) e by (auto simp: discardDraft_def Let_def)
  have "ds' = jm_set ds i d" "draft_write ow ds i d"
    using assms(1) e d id by (auto simp: discardDraft_def Let_def draft_write_def)
  then show ?thesis by blast
next
  case False
  have "ds' = ds"
  proof (cases "jm_get ds i")
    case None
    with assms(1) show ?thesis by (simp add: discardDraft_def)
  next
    case (Some e)
    with assms(1) False show ?thesis
      by (cases "dr_status e") (auto simp: discardDraft_def split: if_splits)
  qed
  then show ?thesis ..
qed

lemma run_draft_writes:
  assumes "drafts_ok ds" "draft_fresh op ds"
  shows "fst (run_draft op ds) = ds \<or>
    (\<exists>i d. fst (run_draft op ds) = jm_set ds i d \<and> draft_write (draft_actor op) ds i d)"
proof -
  obtain ds' res where r: "run_draft op ds = (ds', res)" by fastforce
  show ?thesis
  proof (cases op)
    case (Save n t inp)
    with r assms have "saveDraft n t ds inp = (ds', res)" "jm_get ds n = None" by auto
    from saveDraft_writes [OF this(1) assms(1) this(2)] r Save show ?thesis by simp
  next
    case (Publish t i ow)
    with r have p: "publishDraft t ds i ow = (ds', res)" by simp
    have id: "jm_get ds i = Some e \<Longrightarrow> dr_id e = i" for e using assms(1) by (simp add: drafts_ok_def)
    show ?thesis
    proof (cases res)
      case (Inl e)
      with p r publishDraft_Inl show ?thesis by auto
    next
      case (Inr d)
      with p obtain e where e: "jm_get ds i = Some e" "dr_status e = D_draft" "dr_owner e = ow"
        "d = e\<lparr>dr_status := D_published, dr_publishedAt := Some t, dr_updatedAt := t\<rparr>" "ds' = jm_set ds i d"
        by (auto simp: publishDraft_Inr)
      then have "draft_write (draft_actor op) ds i d" using id Publish by (simp add: draft_write_def)
      with e r show ?thesis by auto
    qed
  next
    case (Discard t i ow)
    with r have "discardDraft t ds i ow = (ds', res)" by simp
    from discardDraft_writes [OF this assms(1)] r Discard show ?thesis by auto
  qed
qed

lemma run_draft_ok: "drafts_ok ds \<Longrightarrow> draft_fresh op ds \<Longrightarrow> drafts_ok (fst (run_draft op ds))"
  using run_draft_writes [of ds op] by (auto simp: draft_write_def drafts_ok_set)

inductive draft_reachable :: "drafts \<Rightarrow> bool" where
  draft_init: "draft_reachable []"
| draft_step: "draft_reachable ds \<Longrightarrow> draft_fresh op ds \<Longrightarrow> draft_reachable (fst (run_draft op ds))"

lemma draft_reachable_ok: "draft_reachable ds \<Longrightarrow> drafts_ok ds"
proof (induction rule: draft_reachable.induct)
  case draft_init
  show ?case by (simp add: drafts_ok_def)
next
  case (draft_step ds op)
  then show ?case by (simp add: run_draft_ok)
qed

definition reached_count :: "expirations \<Rightarrow> string \<Rightarrow> nat" where
  "reached_count reg p = length (filter (\<lambda>e. ev_projectId e = p \<and> ev_type e = X_reached) (ex_events reg))"

lemma reached_before_count: "reached_before reg p \<longleftrightarrow> 0 < reached_count reg p"
  by (auto simp: reached_before_def reached_count_def filter_empty_conv)

section \<open>Properties\<close>

text \<open>
  Drafts are final and private. Whatever operation runs on a reachable draft registry, an
  entry that is published or discarded is unchanged, and an entry of somebody other than the
  acting owner is unchanged; entries are never removed and never change owner.
\<close>

theorem drafts_final_and_private:
  assumes "draft_reachable ds" "draft_fresh op ds" "jm_get ds i = Some e"
  shows "\<exists>e'. jm_get (fst (run_draft op ds)) i = Some e' \<and> dr_owner e' = dr_owner e
    \<and> (dr_status e \<noteq> D_draft \<or> dr_owner e \<noteq> draft_actor op \<longrightarrow> e' = e)"
  using run_draft_writes [OF draft_reachable_ok [OF assms(1)] assms(2)] assms(3)
  by (auto simp: draft_write_def)

definition sample_draft_input :: draft_input where
  "sample_draft_input = \<lparr>di_id = None, di_owner = ''O'', di_projectId = Some ''p'', di_title = None,
     di_projectType = None, di_token = Some ''T'',
     di_collaborators = Some [\<lparr>dc_address = ''A'', dc_alias = None, dc_basisPoints = Some 4000\<rparr>,
                              \<lparr>dc_address = ''B'', dc_alias = None, dc_basisPoints = Some 6000\<rparr>]\<rparr>"

definition sample_drafts :: drafts where
  "sample_drafts = fst (run_draft (Save ''d1'' 1 sample_draft_input) [])"

lemma sample_drafts_reachable: "draft_reachable sample_drafts"
  unfolding sample_drafts_def by (rule draft_step [OF draft_init]) simp

lemma sample_drafts_get: "\<exists>e. jm_get sample_drafts ''d1'' = Some e \<and> dr_owner e = ''O''"
  by (simp add: sample_drafts_def saveDraft_def sample_draft_input_def jm_get_Cons Let_def)

theorem drafts_final_and_private_witness:
  "\<exists>e'. jm_get (fst (run_draft (Discard 2 ''d1'' ''X'') sample_drafts)) ''d1'' = Some e' \<and> dr_owner e' = ''O''"
proof -
  obtain e where "jm_get sample_drafts ''d1'' = Some e" "dr_owner e = ''O''" using sample_drafts_get by blast
  with drafts_final_and_private [OF sample_drafts_reachable, of "Discard 2 ''d1'' ''X''" "''d1''" e]
  show ?thesis by auto
qed

text \<open>
  Publishing. A publication that returns was requested by the owner of an entry still in draft
  that names a project and a token and has at least two collaborators whose basis points sum to
  10000; afterwards the entry is published, and exactly from then on the draft guard lets
  financial actions pass. A refused publication changes nothing.
\<close>

theorem publish_only_complete:
  "(case publishDraft now ds i owner of
      (ds', Inl e) \<Rightarrow> ds' = ds
    | (ds', Inr d) \<Rightarrow> (\<exists>e. getDraft ds i = Some e \<and> dr_owner e = owner
        \<and> assertNotDraft (getDraft ds i) = Inl (ApiError ''financial_action_on_draft'' 409)
        \<and> \<not> missing (dr_projectId e) \<and> \<not> missing (dr_token e)
        \<and> 2 \<le> length (dr_collaborators e) \<and> total_bps e = 10000
        \<and> getDraft ds' i = Some d \<and> dr_status d = D_published
        \<and> dr_collaborators d = dr_collaborators e \<and> assertNotDraft (getDraft ds' i) = Inr ()))"
  by (auto simp: publishDraft_Inr publishDraft_Inl getDraft_def assertNotDraft_def
      isFinancialActionBlockedForDraft_def split: prod.splits sum.splits)

text \<open>
  Deadlines are enforced. A configured deadline lies after the creation time (and after the
  clock when it is the first); from then on the guard refuses with 410 exactly when the deadline
  has passed, agrees with the expiry query, and logs that the deadline was reached at most once
  however often it is called. A rejected configuration changes nothing.
\<close>

theorem deadline_enforced:
  assumes "configureExpiration reg p created deadline actor now = (reg', res)"
  shows "case res of
      Inl e \<Rightarrow> reg' = reg
    | Inr rec \<Rightarrow> getExpiration reg' p = Some rec
        \<and> deadline = map_option Some (er_expiresAt rec)
        \<and> pred_option (\<lambda>d. er_createdAt rec < d \<and> (getExpiration reg p = None \<longrightarrow> now < d)) (er_expiresAt rec)
        \<and> reached_count reg' p = reached_count reg p
        \<and> (isSplitExpired reg' p t \<longleftrightarrow> (\<exists>d. er_expiresAt rec = Some d \<and> d \<le> t))
        \<and> snd (assertNotExpired reg' p t) =
            (if isSplitExpired reg' p t then Inl (ApiError ''split_expired'' 410) else Inr ())
        \<and> (let reg'' = fst (assertNotExpired reg' p t) in
            ex_records reg'' = ex_records reg'
            \<and> reached_count reg'' p = (if isSplitExpired reg' p t then max 1 (reached_count reg' p)
                                       else reached_count reg' p))"
proof (cases res)
  case (Inl e)
  with assms show ?thesis
    by (auto simp: configureExpiration_def Let_def split: sum.splits option.splits)
next
  case (Inr rec)
  obtain c where c: "created = Some c"
    using assms Inr by (cases created) (auto simp: configureExpiration_def Let_def split: sum.splits)
  have d: "deadline = None \<and> er_expiresAt rec = None \<or>
      (\<exists>d. deadline = Some (Some d) \<and> er_expiresAt rec = Some d \<and> c < d
        \<and> (jm_get (ex_records reg) p = None \<longrightarrow> now < d))"
    using assms Inr c
    by (auto simp: configureExpiration_def check_deadline_def Let_def split: sum.splits option.splits if_splits)
  have get: "jm_get (ex_records reg') p = Some rec" and cr: "er_createdAt rec = c"
    and ev: "\<exists>e. ex_events reg' = ex_events reg @ [e] \<and> ev_type e \<noteq> X_reached"
    using assms Inr c by (auto simp: configureExpiration_def Let_def split: sum.splits option.splits)
  have rc: "reached_count reg' p = reached_count reg p" using ev by (auto simp: reached_count_def)
  have ex: "isSplitExpired reg' p t \<longleftrightarrow> (\<exists>d. er_expiresAt rec = Some d \<and> d \<le> t)"
    using get by (auto simp: isSplitExpired_def split: option.splits)
  have as: "snd (assertNotExpired reg' p t) =
      (if isSplitExpired reg' p t then Inl (ApiError ''split_expired'' 410) else Inr ())"
    "ex_records (fst (assertNotExpired reg' p t)) = ex_records reg'"
    using get ex by (auto simp: assertNotExpired_def Let_def split: option.splits)
  have once: "reached_count (fst (assertNotExpired reg' p t)) p =
      (if isSplitExpired reg' p t then max 1 (reached_count reg' p) else reached_count reg' p)"
  proof (cases "isSplitExpired reg' p t")
    case True
    then obtain d where "er_expiresAt rec = Some d" "d \<le> t" using ex by blast
    with get have e: "fst (assertNotExpired reg' p t) = (if \<not> reached_before reg' p
        then reg'\<lparr>ex_events := ex_events reg' @ [\<lparr>ev_type = X_reached, ev_projectId = p,
          ev_actor = ''system'', ev_expiresAt = Some d, ev_at = t\<rparr>]\<rparr> else reg')"
      by (auto simp: assertNotExpired_def Let_def)
    show ?thesis
    proof (cases "reached_before reg' p")
      case True
      with e \<open>isSplitExpired reg' p t\<close> show ?thesis by (simp add: reached_before_count max_def)
    next
      case False
      with e \<open>isSplitExpired reg' p t\<close> show ?thesis
        by (simp add: reached_before_count) (simp add: reached_count_def)
    qed
  next
    case False
    with get ex show ?thesis by (auto simp: assertNotExpired_def split: option.splits)
  qed
  from d c get cr rc ex as once Inr show ?thesis by (auto simp: getExpiration_def)
qed

theorem deadline_enforced_witness:
  "\<exists>reg' rec. configureExpiration \<lparr>ex_records = [], ex_events = []\<rparr> ''p'' (Some 1) (Some (Some 9)) ''O'' 3 = (reg', Inr rec)
     \<and> snd (assertNotExpired reg' ''p'' 9) = Inl (ApiError ''split_expired'' 410)"
proof -
  obtain reg' rec where e: "configureExpiration \<lparr>ex_records = [], ex_events = []\<rparr> ''p'' (Some 1) (Some (Some 9)) ''O'' 3
      = (reg', Inr rec)"
    by (simp add: configureExpiration_def check_deadline_def Let_def)
  have "er_expiresAt rec = Some 9"
    using e by (simp add: configureExpiration_def check_deadline_def Let_def)
      (metis SplitExpirationRecord.select_convs(3))
  with deadline_enforced [OF e, of 9] e show ?thesis by auto
qed

end
