(* ===== verification/Project_Governance.thy ===== *)
theory Project_Governance
  imports Js_Text Js_Map
begin

text \<open>
  Ownership transfer (\<open>backend/src/services/splits/ownership-transfer.ts\<close>) and the safeguards of
  project deletion (\<open>backend/src/services/collaboration/project-deletion.ts\<close>), with their
  in-process logs as explicit state. Random ids and the clock are arguments; the human-readable
  reason texts are represented by constructors.
\<close>

section \<open>Ownership\<close>

record OwnershipTransferRecord =
  ot_id :: string
  ot_projectId :: string
  ot_fromOwner :: string
  ot_toOwner :: string
  ot_authorizedBy :: string
  ot_transferredAt :: instant

record OwnershipAuditEntry =
  oa_projectId :: string
  oa_fromOwner :: string
  oa_toOwner :: string
  oa_authorizedBy :: string
  oa_at :: instant

record ownership =
  owners :: "(string, string) jmap"
  transfers :: "OwnershipTransferRecord list"
  audit :: "OwnershipAuditEntry list"

definition norm_addr :: "string \<Rightarrow> string" where
  "norm_addr addr = to_upper (trim addr)"

definition resetOwnershipTransfer :: ownership where
  "resetOwnershipTransfer = \<lparr>owners = [], transfers = [], audit = []\<rparr>"

definition setProjectOwner :: "ownership \<Rightarrow> string \<Rightarrow> string \<Rightarrow> ownership" where
  "setProjectOwner st projectId owner = st\<lparr>owners := jm_set (owners st) projectId (norm_addr owner)\<rparr>"

definition getProjectOwner :: "ownership \<Rightarrow> string \<Rightarrow> string option" where
  "getProjectOwner st projectId = jm_get (owners st) projectId"

text \<open>\<open>if (!current)\<close>: an unknown owner and an empty one are refused alike.\<close>

definition transferOwnership ::
  "string \<Rightarrow> instant \<Rightarrow> ownership \<Rightarrow> string \<Rightarrow> string \<Rightarrow> string
     \<Rightarrow> ownership \<times> OwnershipTransferRecord result" where
  "transferOwnership newId at st projectId actor newOwner =
     (case jm_get (owners st) projectId of
        None \<Rightarrow> (st, Inl (ApiError ''project_owner_unknown'' 404))
      | Some current \<Rightarrow>
        if current = [] then (st, Inl (ApiError ''project_owner_unknown'' 404))
        else if norm_addr actor \<noteq> current then (st, Inl (ApiError ''forbidden_not_owner'' 403))
        else if norm_addr newOwner = [] \<or> length (norm_addr newOwner) < 4
          then (st, Inl (ApiError ''invalid_new_owner'' 400))
        else if norm_addr newOwner = current then (st, Inl (ApiError ''new_owner_same_as_current'' 400))
        else let record = \<lparr>ot_id = newId, ot_projectId = projectId, ot_fromOwner = current,
                           ot_toOwner = norm_addr newOwner, ot_authorizedBy = norm_addr actor,
                           ot_transferredAt = at\<rparr>
             in (st\<lparr>owners := jm_set (owners st) projectId (norm_addr newOwner),
                    transfers := transfers st @ [record],
                    audit := audit st @ [\<lparr>oa_projectId = projectId, oa_fromOwner = current,
                        oa_toOwner = norm_addr newOwner, oa_authorizedBy = norm_addr actor, oa_at = at\<rparr>]\<rparr>,
                 Inr record))"

definition isCurrentOwner :: "ownership \<Rightarrow> string \<Rightarrow> string \<Rightarrow> bool" where
  "isCurrentOwner st projectId wallet =
     (case jm_get (owners st) projectId of
        None \<Rightarrow> False
      | Some current \<Rightarrow> current \<noteq> [] \<and> current = norm_addr wallet)"

definition listOwnershipTransfers :: "ownership \<Rightarrow> string option \<Rightarrow> OwnershipTransferRecord list" where
  "listOwnershipTransfers st projectId =
     (case projectId of None \<Rightarrow> transfers st
      | Some p \<Rightarrow> if p = [] then transfers st else filter (\<lambda>t. ot_projectId t = p) (transfers st))"

definition listOwnershipAudit :: "ownership \<Rightarrow> string option \<Rightarrow> OwnershipAuditEntry list" where
  "listOwnershipAudit st projectId =
     (case projectId of None \<Rightarrow> audit st
      | Some p \<Rightarrow> if p = [] then audit st else filter (\<lambda>e. oa_projectId e = p) (audit st))"

section \<open>Deletion\<close>

record ProjectFinancialSnapshot =
  fs_projectId :: string
  fs_hasDeposits :: bool
  fs_hasDistributions :: bool
  fs_hasClaims :: bool
  fs_transactionCount :: int
  fs_totalVolumeStroops :: "string option"

datatype DeletionMode = Hard | Soft

datatype deletion_reason = FinancialHistoryBlocks | ConfirmationRequired | NoFinancialHistory

record DeletionDecision =
  dd_allowed :: bool
  dd_mode :: "DeletionMode option"
  dd_reason :: deletion_reason
  dd_requiresConfirmation :: bool
  dd_confirmationPhrase :: string

datatype deletion_event_type = DeletionRequested | SoftDeleted | HardDeleteBlocked

record ProjectDeletionAuditEvent =
  da_type :: deletion_event_type
  da_projectId :: string
  da_actor :: string
  da_mode :: "DeletionMode option"
  da_reason :: deletion_reason
  da_at :: instant
  da_financial :: ProjectFinancialSnapshot

definition hasFinancialHistory :: "ProjectFinancialSnapshot \<Rightarrow> bool" where
  "hasFinancialHistory snapshot =
     (fs_hasDeposits snapshot \<or> fs_hasDistributions snapshot \<or> fs_hasClaims snapshot
      \<or> fs_transactionCount snapshot > 0)"

definition CONFIRMATION_PHRASE :: string where
  "CONFIRMATION_PHRASE = ''DELETE PROJECT''"

definition evaluateProjectDeletion ::
  "ProjectFinancialSnapshot \<Rightarrow> bool \<Rightarrow> string option \<Rightarrow> DeletionDecision" where
  "evaluateProjectDeletion snapshot confirmed confirmationText =
     (let ok = (confirmed \<and> confirmationText = Some CONFIRMATION_PHRASE) in
      if hasFinancialHistory snapshot
      then \<lparr>dd_allowed = ok, dd_mode = (if ok then Some Soft else None),
            dd_reason = FinancialHistoryBlocks, dd_requiresConfirmation = True,
            dd_confirmationPhrase = CONFIRMATION_PHRASE\<rparr>
      else if \<not> ok
      then \<lparr>dd_allowed = False, dd_mode = None, dd_reason = ConfirmationRequired,
            dd_requiresConfirmation = True, dd_confirmationPhrase = CONFIRMATION_PHRASE\<rparr>
      else \<lparr>dd_allowed = True, dd_mode = Some Hard, dd_reason = NoFinancialHistory,
            dd_requiresConfirmation = True, dd_confirmationPhrase = CONFIRMATION_PHRASE\<rparr>)"

definition requestProjectDeletion ::
  "instant \<Rightarrow> ProjectDeletionAuditEvent list \<Rightarrow> ProjectFinancialSnapshot \<Rightarrow> string \<Rightarrow> bool \<Rightarrow> string option
     \<Rightarrow> ProjectDeletionAuditEvent list \<times> DeletionDecision" where
  "requestProjectDeletion at auditLog snapshot actor confirmed confirmationText =
     (let decision = evaluateProjectDeletion snapshot confirmed confirmationText;
          event = (\<lambda>ty mode. \<lparr>da_type = ty, da_projectId = fs_projectId snapshot, da_actor = actor,
             da_mode = mode, da_reason = dd_reason decision, da_at = at, da_financial = snapshot\<rparr>)
      in if \<not> dd_allowed decision then (auditLog @ [event HardDeleteBlocked None], decision)
         else if dd_mode decision = Some Soft then (auditLog @ [event SoftDeleted (Some Soft)], decision)
         else (auditLog @ [event DeletionRequested (Some Hard)], decision))"

section \<open>Lemmas\<close>

lemma norm_idem [simp]: "norm_addr (norm_addr a) = norm_addr a"
  by (simp add: norm_addr_def trim_to_upper)

lemma transfer_Inr:
  "transferOwnership i at st p actor new = (st', Inr r) \<longleftrightarrow>
     (\<exists>cur. jm_get (owners st) p = Some cur \<and> cur \<noteq> [] \<and> norm_addr actor = cur
        \<and> 4 \<le> length (norm_addr new) \<and> norm_addr new \<noteq> cur
        \<and> r = \<lparr>ot_id = i, ot_projectId = p, ot_fromOwner = cur, ot_toOwner = norm_addr new,
              ot_authorizedBy = norm_addr actor, ot_transferredAt = at\<rparr>
        \<and> st' = st\<lparr>owners := jm_set (owners st) p (norm_addr new), transfers := transfers st @ [r],
              audit := audit st @ [\<lparr>oa_projectId = p, oa_fromOwner = cur, oa_toOwner = norm_addr new,
                  oa_authorizedBy = norm_addr actor, oa_at = at\<rparr>]\<rparr>)"
  by (auto simp: transferOwnership_def Let_def split: option.splits if_splits)

lemma transfer_Inl: "transferOwnership i at st p actor new = (st', Inl e) \<Longrightarrow> st' = st"
  by (auto simp: transferOwnership_def Let_def split: option.splits if_splits)

text \<open>A request to transfer, and a run of requests.\<close>

record transfer_request =
  tq_id :: string
  tq_at :: instant
  tq_projectId :: string
  tq_actor :: string
  tq_newOwner :: string

definition run_transfer :: "ownership \<Rightarrow> transfer_request \<Rightarrow> ownership" where
  "run_transfer st q =
     fst (transferOwnership (tq_id q) (tq_at q) st (tq_projectId q) (tq_actor q) (tq_newOwner q))"

text \<open>A chain of hand-overs that starts at one owner and ends at another.\<close>

fun owner_chain :: "string \<Rightarrow> OwnershipTransferRecord list \<Rightarrow> string \<Rightarrow> bool" where
  "owner_chain a [] b = (a = b)"
| "owner_chain a (t # ts) b =
     (ot_fromOwner t = a \<and> ot_authorizedBy t = a \<and> ot_toOwner t \<noteq> a \<and> owner_chain (ot_toOwner t) ts b)"

lemma owner_chain_snoc:
  "owner_chain a ts b \<Longrightarrow> ot_fromOwner t = b \<Longrightarrow> ot_authorizedBy t = b \<Longrightarrow> ot_toOwner t \<noteq> b \<Longrightarrow>
     owner_chain a (ts @ [t]) (ot_toOwner t)"
  by (induction ts arbitrary: a) auto

definition history :: "ownership \<Rightarrow> string \<Rightarrow> OwnershipTransferRecord list" where
  "history st p = filter (\<lambda>t. ot_projectId t = p) (transfers st)"

definition audit_of :: "OwnershipTransferRecord \<Rightarrow> OwnershipAuditEntry" where
  "audit_of t = \<lparr>oa_projectId = ot_projectId t, oa_fromOwner = ot_fromOwner t, oa_toOwner = ot_toOwner t,
     oa_authorizedBy = ot_authorizedBy t, oa_at = ot_transferredAt t\<rparr>"

lemma run_transfer_chain:
  assumes "jm_get (owners st) p = Some cur" "owner_chain o0 (history st p) cur"
    "audit st = map audit_of (transfers st)"
  shows "\<exists>cur'. jm_get (owners (run_transfer st q)) p = Some cur'
    \<and> owner_chain o0 (history (run_transfer st q) p) cur'
    \<and> audit (run_transfer st q) = map audit_of (transfers (run_transfer st q))"
proof -
  obtain st' res where r: "transferOwnership (tq_id q) (tq_at q) st (tq_projectId q) (tq_actor q) (tq_newOwner q)
      = (st', res)" by fastforce
  show ?thesis
  proof (cases res)
    case (Inl e)
    with r transfer_Inl have "run_transfer st q = st" by (simp add: run_transfer_def)
    with assms show ?thesis by auto
  next
    case (Inr t)
    with r obtain c where c: "jm_get (owners st) (tq_projectId q) = Some c" "norm_addr (tq_actor q) = c"
      "norm_addr (tq_newOwner q) \<noteq> c"
      "t = \<lparr>ot_id = tq_id q, ot_projectId = tq_projectId q, ot_fromOwner = c,
            ot_toOwner = norm_addr (tq_newOwner q), ot_authorizedBy = c, ot_transferredAt = tq_at q\<rparr>"
      and st': "st' = st\<lparr>owners := jm_set (owners st) (tq_projectId q) (norm_addr (tq_newOwner q)),
            transfers := transfers st @ [t], audit := audit st @ [audit_of t]\<rparr>"
      by (auto simp: transfer_Inr audit_of_def)
    have run: "run_transfer st q = st'" using r by (simp add: run_transfer_def)
    show ?thesis
    proof (cases "tq_projectId q = p")
      case True
      with c assms have "owner_chain o0 (history st p @ [t]) (ot_toOwner t)"
        by (intro owner_chain_snoc [of _ _ cur]) auto
      moreover have "history st' p = history st p @ [t]" using True c(4) st' by (simp add: history_def)
      ultimately show ?thesis using True run st' c(4) assms(3) by simp
    next
      case False
      then have "history st' p = history st p" using c(4) st' by (simp add: history_def)
      with False run st' assms show ?thesis by simp
    qed
  qed
qed

lemma run_transfers_chain:
  assumes "jm_get (owners st) p = Some cur" "owner_chain o0 (history st p) cur"
    "audit st = map audit_of (transfers st)"
  shows "\<exists>cur'. jm_get (owners (foldl run_transfer st qs)) p = Some cur'
    \<and> owner_chain o0 (history (foldl run_transfer st qs) p) cur'
    \<and> audit (foldl run_transfer st qs) = map audit_of (transfers (foldl run_transfer st qs))"
  using assms
proof (induction qs arbitrary: st cur)
  case (Cons q qs)
  from run_transfer_chain [OF Cons.prems] Cons.IH show ?case by auto
qed auto

section \<open>Properties\<close>

text \<open>
  Ownership only moves by its owner's hand. After a project's owner is set on a fresh
  registry, whatever transfers are requested afterwards by whomever, the recorded transfers of the
  project form one chain from the first owner to the current one, each authorized by the owner it
  takes the project from; the audit log is that list, and exactly the wallet at the end of the
  chain passes as current owner.
\<close>

theorem ownership_chain:
  fixes p first :: string and qs :: "transfer_request list"
  defines "st \<equiv> foldl run_transfer (setProjectOwner resetOwnershipTransfer p first) qs"
  shows "\<exists>cur. getProjectOwner st p = Some cur
    \<and> owner_chain (norm_addr first) (filter (\<lambda>t. ot_projectId t = p) (listOwnershipTransfers st None)) cur
    \<and> listOwnershipAudit st None = map audit_of (listOwnershipTransfers st None)
    \<and> (\<forall>w. isCurrentOwner st p w \<longleftrightarrow> cur \<noteq> [] \<and> norm_addr w = cur)"
proof -
  let ?s = "setProjectOwner resetOwnershipTransfer p first"
  have "jm_get (owners ?s) p = Some (norm_addr first)" "owner_chain (norm_addr first) (history ?s p) (norm_addr first)"
    "audit ?s = map audit_of (transfers ?s)"
    by (simp_all add: setProjectOwner_def resetOwnershipTransfer_def history_def jm_get_Cons)
  from run_transfers_chain [OF this, of qs] obtain cur where
    "jm_get (owners st) p = Some cur" "owner_chain (norm_addr first) (history st p) cur"
    "audit st = map audit_of (transfers st)" by (auto simp: st_def)
  then show ?thesis
    by (auto simp: getProjectOwner_def listOwnershipTransfers_def listOwnershipAudit_def history_def
        isCurrentOwner_def)
qed

text \<open>
  A transfer succeeds exactly when the project has a known owner, the actor is that owner and
  the new owner is a different wallet of at least four characters; then the new owner is the only
  current owner, the previous one can no longer transfer the project, and other projects keep
  their owners. A refused transfer changes nothing.
\<close>

theorem transfer_decided:
  "(case transferOwnership i at st p actor new of
      (st', Inl e) \<Rightarrow> st' = st
    | (st', Inr r) \<Rightarrow> isCurrentOwner st p actor \<and> isCurrentOwner st' p new
        \<and> (\<forall>w. isCurrentOwner st' p w \<longleftrightarrow> norm_addr w = norm_addr new)
        \<and> (\<forall>i' at' x. snd (transferOwnership i' at' st' p actor x) = Inl (ApiError ''forbidden_not_owner'' 403))
        \<and> (\<forall>q. q \<noteq> p \<longrightarrow> getProjectOwner st' q = getProjectOwner st q))
   \<and> ((\<exists>r. snd (transferOwnership i at st p actor new) = Inr r) \<longleftrightarrow>
        isCurrentOwner st p actor \<and> 4 \<le> length (norm_addr new) \<and> norm_addr new \<noteq> norm_addr actor)"
proof -
  have iff: "(\<exists>r. snd (transferOwnership i at st p actor new) = Inr r) \<longleftrightarrow>
      isCurrentOwner st p actor \<and> 4 \<le> length (norm_addr new) \<and> norm_addr new \<noteq> norm_addr actor"
    by (auto simp: transferOwnership_def isCurrentOwner_def Let_def split: option.splits)
  have "isCurrentOwner st p actor \<and> isCurrentOwner st' p new
        \<and> (\<forall>w. isCurrentOwner st' p w \<longleftrightarrow> norm_addr w = norm_addr new)
        \<and> (\<forall>i' at' x. snd (transferOwnership i' at' st' p actor x) = Inl (ApiError ''forbidden_not_owner'' 403))
        \<and> (\<forall>q. q \<noteq> p \<longrightarrow> getProjectOwner st' q = getProjectOwner st q)"
    if "transferOwnership i at st p actor new = (st', Inr r)" for st' r
  proof -
    from that [unfolded transfer_Inr] obtain cur where cur: "jm_get (owners st) p = Some cur" "cur \<noteq> []"
      "norm_addr actor = cur" "4 \<le> length (norm_addr new)" "norm_addr new \<noteq> cur"
      "owners st' = jm_set (owners st) p (norm_addr new)" by auto
    from cur(4) have "norm_addr new \<noteq> []" by auto
    with cur show ?thesis
      by (auto simp: isCurrentOwner_def getProjectOwner_def transferOwnership_def)
  qed
  with iff show ?thesis using transfer_Inl by (auto split: prod.splits sum.splits)
qed

theorem transfer_decided_witness:
  "\<exists>r. snd (transferOwnership ''t'' 1 (setProjectOwner resetOwnershipTransfer ''p'' ''GABC'') ''p'' '' gabc'' ''GDEF'') = Inr r"
proof -
  have "isCurrentOwner (setProjectOwner resetOwnershipTransfer ''p'' ''GABC'') ''p'' '' gabc''"
    "4 \<le> length (norm_addr ''GDEF'')" "norm_addr ''GDEF'' \<noteq> norm_addr '' gabc''" by code_simp+
  then show ?thesis
    using transfer_decided [where i = "''t''" and at = 1 and p = "''p''" and actor = "'' gabc''"
        and new = "''GDEF''" and st = "setProjectOwner resetOwnershipTransfer ''p'' ''GABC''"]
    by blast
qed

text \<open>
  Deletion safeguards. A project with financial history is never hard-deleted; nothing is
  deleted without the exact confirmation phrase; with it, a project is soft-deleted exactly when it
  has financial history; and every request, allowed or not, appends exactly one audit event that
  carries the decision and the snapshot it was taken on.
\<close>

theorem deletion_safeguards:
  "(case requestProjectDeletion at log snapshot actor confirmed txt of
      (log', d) \<Rightarrow>
        (dd_mode d = Some Hard \<longleftrightarrow> dd_allowed d \<and> \<not> hasFinancialHistory snapshot)
      \<and> (dd_mode d = Some Soft \<longleftrightarrow> dd_allowed d \<and> hasFinancialHistory snapshot)
      \<and> (dd_allowed d \<longleftrightarrow> confirmed \<and> txt = Some ''DELETE PROJECT'')
      \<and> (\<exists>e. log' = log @ [e] \<and> da_projectId e = fs_projectId snapshot \<and> da_actor e = actor
            \<and> da_mode e = dd_mode d \<and> da_financial e = snapshot
            \<and> (da_type e = HardDeleteBlocked \<longleftrightarrow> \<not> dd_allowed d)))"
  by (auto simp: requestProjectDeletion_def evaluateProjectDeletion_def Let_def CONFIRMATION_PHRASE_def)

end
