(* ===== verification/Permissions.thy ===== *)
theory Permissions
  imports Js_Text
begin

text \<open>
  Roles and permissions of a project (\<open>backend/src/services/collaboration/permissions.ts\<close>) and
  the three guards built on them: \<open>services/auth.ts\<close>, \<open>middleware/project-access.ts\<close> and
  \<open>middleware/project-permission.ts\<close>. A middleware is a function from the request to what it
  does: pass on, pass an error on, or answer. The address parser of the Stellar SDK is a parameter.
\<close>

section \<open>The matrix\<close>

datatype CollaboratorRole = Role_owner | Role_admin | Role_editor | Role_viewer

definition COLLABORATOR_ROLES :: "CollaboratorRole list" where
  "COLLABORATOR_ROLES = [Role_owner, Role_admin, Role_editor, Role_viewer]"

datatype ProjectPermission =
    Project_read | Project_update_metadata | Project_update_collaborators | Project_lock
  | Project_delete | Project_invite | Project_cancel_invite
  | Funds_deposit | Funds_distribute | Funds_claim

fun ROLE_PERMISSIONS :: "CollaboratorRole \<Rightarrow> ProjectPermission list" where
  "ROLE_PERMISSIONS Role_owner =
     [Project_read, Project_update_metadata, Project_update_collaborators, Project_lock,
      Project_delete, Project_invite, Project_cancel_invite, Funds_deposit, Funds_distribute,
      Funds_claim]"
| "ROLE_PERMISSIONS Role_admin =
     [Project_read, Project_update_metadata, Project_update_collaborators, Project_invite,
      Project_cancel_invite, Funds_deposit, Funds_distribute, Funds_claim]"
| "ROLE_PERMISSIONS Role_editor =
     [Project_read, Project_update_metadata, Funds_deposit, Funds_claim]"
| "ROLE_PERMISSIONS Role_viewer = [Project_read, Funds_claim]"

definition roleHasPermission :: "CollaboratorRole \<Rightarrow> ProjectPermission \<Rightarrow> bool" where
  "roleHasPermission role permission = (permission \<in> set (ROLE_PERMISSIONS role))"

text \<open>The thrown object: its role (absent for a stranger) and its reason, when it has one.\<close>

datatype permission_error =
  PermissionDenied (denied_role: "CollaboratorRole option") (denied_reason: "string option")

definition assertPermission :: "CollaboratorRole \<Rightarrow> ProjectPermission \<Rightarrow> permission_error + unit" where
  "assertPermission role permission =
     (if \<not> roleHasPermission role permission then Inl (PermissionDenied (Some role) None) else Inr ())"

record collaborator_entry =
  ce_address :: string
  ce_role :: "CollaboratorRole option"

definition resolveCollaboratorRole ::
  "string \<Rightarrow> string \<Rightarrow> collaborator_entry list \<Rightarrow> CollaboratorRole option" where
  "resolveCollaboratorRole requesterAddress ownerAddress collaborators =
     (let req = trim requesterAddress in
      if req = trim ownerAddress then Some Role_owner
      else case find (\<lambda>c. trim (ce_address c) = req) collaborators of
          None \<Rightarrow> None
        | Some match \<Rightarrow> Some (default_to Role_viewer (ce_role match)))"

definition getPermissionsMatrix :: "(CollaboratorRole \<times> ProjectPermission list) list" where
  "getPermissionsMatrix = map (\<lambda>role. (role, ROLE_PERMISSIONS role)) COLLABORATOR_ROLES"

record ProjectRoleContext =
  rc_owner :: string
  rc_collaborators :: "collaborator_entry list"

definition resolveRequesterRole :: "ProjectRoleContext option \<Rightarrow> string \<Rightarrow> CollaboratorRole option" where
  "resolveRequesterRole context requesterAddress =
     (case context of
        None \<Rightarrow> None
      | Some c \<Rightarrow> if trim requesterAddress = [] then None
                  else resolveCollaboratorRole requesterAddress (rc_owner c) (rc_collaborators c))"

definition assertProjectPermission ::
  "ProjectRoleContext option \<Rightarrow> string \<Rightarrow> ProjectPermission \<Rightarrow> permission_error + CollaboratorRole" where
  "assertProjectPermission context requesterAddress permission =
     (case resolveRequesterRole context requesterAddress of
        None \<Rightarrow> Inl (PermissionDenied None (Some ''project_role_unknown''))
      | Some role \<Rightarrow> (case assertPermission role permission of Inl e \<Rightarrow> Inl e | Inr _ \<Rightarrow> Inr role))"

section \<open>The header and the access guard\<close>

datatype app_error = AppAuthUnauthorized | AppValidationError

datatype header_value = H_undefined | H_single string | H_multiple "string list"

record ProjectAccessTarget =
  at_owner :: string
  at_collaborators :: "string list"

definition parseStellarAddressHeader :: "(string \<Rightarrow> bool) \<Rightarrow> header_value \<Rightarrow> app_error + string" where
  "parseStellarAddressHeader address_ok raw =
     (let addressStr = (case raw of H_single s \<Rightarrow> trim s | _ \<Rightarrow> [])
      in if addressStr = [] then Inl AppAuthUnauthorized
         else if \<not> address_ok addressStr then Inl AppValidationError
         else Inr addressStr)"

definition canAccessProject :: "string \<Rightarrow> ProjectAccessTarget \<Rightarrow> bool" where
  "canAccessProject requester target =
     (at_owner target = requester \<or> requester \<in> set (at_collaborators target))"

definition createUnauthorizedProjectAccessError :: app_error where
  "createUnauthorizedProjectAccessError = AppAuthUnauthorized"

text \<open>
  What a middleware does: \<open>next()\<close>, \<open>next(error)\<close>, or an answer. \<open>resolver\<close> outcomes are a
  thrown error (\<open>Inl\<close>) or a value.
\<close>

datatype 'e access_outcome = Pass | PassAppError app_error | PassThrown 'e

definition requireStellarAddress :: "(string \<Rightarrow> bool) \<Rightarrow> header_value \<Rightarrow> string option \<times> unit access_outcome" where
  "requireStellarAddress address_ok raw =
     (case parseStellarAddressHeader address_ok raw of
        Inl e \<Rightarrow> (None, PassAppError e)
      | Inr address \<Rightarrow> (Some address, Pass))"

definition requireProjectAccess ::
  "(string \<Rightarrow> 'e + ProjectAccessTarget option) \<Rightarrow> string \<Rightarrow> string option \<Rightarrow> 'e access_outcome" where
  "requireProjectAccess resolveProject requester projectId =
     (case projectId of
        None \<Rightarrow> Pass
      | Some p \<Rightarrow> if p = [] then Pass
        else case resolveProject p of
            Inl e \<Rightarrow> PassThrown e
          | Inr None \<Rightarrow> Pass
          | Inr (Some target) \<Rightarrow>
              if \<not> canAccessProject requester target
              then PassAppError createUnauthorizedProjectAccessError
              else Pass)"

section \<open>The permission guard\<close>

datatype permission_outcome =
    Allowed CollaboratorRole
  | Respond401
  | Respond400
  | Respond403 "CollaboratorRole option" string

definition createProjectPermissionMiddleware ::
  "ProjectPermission \<Rightarrow> (string \<Rightarrow> 'e + ProjectRoleContext option)
     \<Rightarrow> string option \<Rightarrow> string option \<Rightarrow> permission_outcome" where
  "createProjectPermissionMiddleware permission resolveContext requesterAddress projectIdParam =
     (case requesterAddress of
        None \<Rightarrow> Respond401
      | Some requester \<Rightarrow> if requester = [] then Respond401
        else case projectIdParam of
          None \<Rightarrow> Respond400
        | Some projectId \<Rightarrow> if projectId = [] then Respond400
          else let context = (case resolveContext projectId of Inl _ \<Rightarrow> None | Inr c \<Rightarrow> c)
               in case assertProjectPermission context requester permission of
                    Inr role \<Rightarrow> Allowed role
                  | Inl e \<Rightarrow> Respond403 (denied_role e)
                      (default_to ''insufficient_role'' (denied_reason e)))"

section \<open>Lemmas\<close>

lemma assertPermission_Inr [simp]: "assertPermission r p = Inr u \<longleftrightarrow> roleHasPermission r p"
  by (simp add: assertPermission_def)

lemma assertProjectPermission_Inr:
  "assertProjectPermission ctx a p = Inr r \<longleftrightarrow>
     resolveRequesterRole ctx a = Some r \<and> roleHasPermission r p"
  by (auto simp: assertProjectPermission_def assertPermission_def split: option.splits)

lemma assertProjectPermission_Inl:
  "assertProjectPermission ctx a p = Inl e \<longleftrightarrow>
     (case resolveRequesterRole ctx a of
        None \<Rightarrow> e = PermissionDenied None (Some ''project_role_unknown'')
      | Some r \<Rightarrow> \<not> roleHasPermission r p \<and> e = PermissionDenied (Some r) None)"
  by (auto simp: assertProjectPermission_def assertPermission_def split: option.splits)

lemma resolveRequesterRole_Some:
  assumes "resolveRequesterRole ctx a = Some r"
  obtains c where "ctx = Some c" "trim a \<noteq> []"
    "r = Role_owner \<and> trim a = trim (rc_owner c) \<or>
     (\<exists>e \<in> set (rc_collaborators c). trim (ce_address e) = trim a \<and> r = default_to Role_viewer (ce_role e))"
proof -
  from assms obtain c where c: "ctx = Some c" "trim a \<noteq> []"
    "resolveCollaboratorRole a (rc_owner c) (rc_collaborators c) = Some r"
    by (auto simp: resolveRequesterRole_def split: option.splits if_splits)
  from c(3) have "r = Role_owner \<and> trim a = trim (rc_owner c) \<or>
     (\<exists>e \<in> set (rc_collaborators c). trim (ce_address e) = trim a \<and> r = default_to Role_viewer (ce_role e))"
    by (auto simp: resolveCollaboratorRole_def Let_def split: if_splits option.splits dest!: find_Some_mem)
  with c that show thesis by blast
qed

fun role_rank :: "CollaboratorRole \<Rightarrow> nat" where
  "role_rank Role_owner = 3"
| "role_rank Role_admin = 2"
| "role_rank Role_editor = 1"
| "role_rank Role_viewer = 0"

lemma permissions_monotone:
  "role_rank r \<le> role_rank r' \<Longrightarrow> roleHasPermission r p \<Longrightarrow> roleHasPermission r' p"
  by (cases r; cases r') (auto simp: roleHasPermission_def)

section \<open>Properties\<close>

text \<open>
  The permission guard fails closed. A request passes exactly when it carries a requester and a
  project id, the project record could be read, and the requester's role in that record grants the
  permission; the role is then the owner's or that of a collaborator entry with the requester's
  address. A resolver failure, an unknown project and a stranger are all answered with 403.
\<close>

theorem permission_guard_fails_closed:
  "createProjectPermissionMiddleware p resolve requester projectId = Allowed r \<longleftrightarrow>
     (\<exists>a i c. requester = Some a \<and> projectId = Some i \<and> i \<noteq> [] \<and> resolve i = Inr (Some c)
        \<and> trim a \<noteq> [] \<and> roleHasPermission r p
        \<and> resolveCollaboratorRole a (rc_owner c) (rc_collaborators c) = Some r)"
proof (cases requester)
  case None
  then show ?thesis by (simp add: createProjectPermissionMiddleware_def)
next
  case a: (Some a)
  show ?thesis
  proof (cases projectId)
    case None
    with a show ?thesis by (simp add: createProjectPermissionMiddleware_def)
  next
    case (Some i)
    with a show ?thesis
      by (cases "resolve i")
        (auto simp: createProjectPermissionMiddleware_def Let_def assertProjectPermission_Inr
          assertProjectPermission_Inl resolveRequesterRole_def split: sum.splits option.splits if_splits)
  qed
qed

text \<open>
  The role matrix: a higher role has every permission of a lower one; only the owner may lock
  or delete a project, viewers can do nothing but read and claim, and nobody below admin can
  distribute funds or change collaborators.
\<close>

theorem role_matrix_ordered:
  "(role_rank r \<le> role_rank r' \<longrightarrow> set (ROLE_PERMISSIONS r) \<subseteq> set (ROLE_PERMISSIONS r'))
   \<and> (roleHasPermission r Project_lock \<or> roleHasPermission r Project_delete \<longrightarrow> r = Role_owner)
   \<and> (roleHasPermission r Funds_distribute \<or> roleHasPermission r Project_update_collaborators
        \<longleftrightarrow> 2 \<le> role_rank r)
   \<and> (roleHasPermission Role_viewer p \<longleftrightarrow> p = Project_read \<or> p = Funds_claim)"
proof -
  have "set (ROLE_PERMISSIONS r) \<subseteq> set (ROLE_PERMISSIONS r')" if "role_rank r \<le> role_rank r'"
    using permissions_monotone [OF that] by (auto simp: roleHasPermission_def)
  then show ?thesis by (cases r) (auto simp: roleHasPermission_def)
qed

theorem role_matrix_ordered_witness:
  "role_rank Role_editor \<le> role_rank Role_admin
   \<and> set (ROLE_PERMISSIONS Role_editor) \<subseteq> set (ROLE_PERMISSIONS Role_admin)"
  using role_matrix_ordered [of Role_editor Role_admin Project_read] by simp

text \<open>A malformed address header is a validation error, not an authentication error.\<close>

lemma malformed_header_is_validation:
  "\<lbrakk>trim s \<noteq> []; \<not> ok (trim s)\<rbrakk> \<Longrightarrow> requireStellarAddress ok (H_single s) = (None, PassAppError AppValidationError)"
  by (simp add: requireStellarAddress_def parseStellarAddressHeader_def)

end
