(* ===== verification/Membership.thy ===== *)
theory Membership
  imports Permissions Js_Map
begin

text \<open>
  Concurrency-safe membership changes
  (\<open>backend/src/services/collaboration/membership-changes.ts\<close>): the pure planning of a change, the
  optimistic retry loop over a store with compare-and-set, and the in-process store.

  Between two awaits of the loop other requests may commit. The model gives the loop an
  environment \<open>env :: nat \<Rightarrow> 's \<Rightarrow> 's\<close>: before its n-th store call the loop sees the store after the
  environment's n-th step. The interface of the store is the locale \<open>cas_store\<close>; it is
  interpreted on the in-process store.
\<close>

section \<open>Model\<close>

record CollaboratorEntry =
  me_address :: string
  me_role :: CollaboratorRole

record CollaborationRecord =
  cl_projectId :: string
  cl_owner :: string
  cl_collaborators :: "CollaboratorEntry list"
  cl_version :: int

text \<open>\<open>Ch_other\<close> is a change object of no known type.\<close>

datatype CollaborationChange =
    Ch_add (ch_address: string) CollaboratorRole
  | Ch_remove (ch_address: string)
  | Ch_set_role (ch_address: string) CollaboratorRole
  | Ch_other (ch_address: string)

fun ch_role :: "CollaborationChange \<Rightarrow> CollaboratorRole option" where
  "ch_role (Ch_add _ r) = Some r"
| "ch_role (Ch_remove _) = None"
| "ch_role (Ch_set_role _ r) = Some r"
| "ch_role (Ch_other _) = None"

definition MAX_CHANGE_ATTEMPTS :: nat where
  "MAX_CHANGE_ATTEMPTS = 5"

fun ROLE_RANK :: "CollaboratorRole \<Rightarrow> nat" where
  "ROLE_RANK Role_owner = 3"
| "ROLE_RANK Role_admin = 2"
| "ROLE_RANK Role_editor = 1"
| "ROLE_RANK Role_viewer = 0"

definition ASSIGNABLE_ROLES :: "CollaboratorRole list" where
  "ASSIGNABLE_ROLES = [Role_admin, Role_editor, Role_viewer]"

definition changeError :: "string \<Rightarrow> int \<Rightarrow> api_error" where
  "changeError code status = ApiError code status"

definition normalize :: "string \<Rightarrow> string" where
  "normalize address = trim address"

text \<open>The record seen as the context the permission check reads.\<close>

definition role_context :: "CollaborationRecord \<Rightarrow> ProjectRoleContext" where
  "role_context record =
     \<lparr>rc_owner = cl_owner record,
      rc_collaborators = map (\<lambda>c. \<lparr>ce_address = me_address c, ce_role = Some (me_role c)\<rparr>)
        (cl_collaborators record)\<rparr>"

text \<open>
  \<open>existing\<close> is the first entry with the target address; \<open>c !== existing\<close> and \<open>c === existing\<close>
  compare object identity, so exactly that entry is dropped or rewritten.
\<close>

fun drop_first :: "('a \<Rightarrow> bool) \<Rightarrow> 'a list \<Rightarrow> 'a list" where
  "drop_first P [] = []"
| "drop_first P (x # xs) = (if P x then xs else x # drop_first P xs)"

fun update_first :: "('a \<Rightarrow> bool) \<Rightarrow> ('a \<Rightarrow> 'a) \<Rightarrow> 'a list \<Rightarrow> 'a list" where
  "update_first P f [] = []"
| "update_first P f (x # xs) = (if P x then f x # xs else x # update_first P f xs)"

definition outranks :: "CollaboratorRole \<Rightarrow> CollaboratorRole \<Rightarrow> bool" where
  "outranks actorRole role = (actorRole = Role_owner \<or> ROLE_RANK actorRole > ROLE_RANK role)"

definition planCollaborationChange ::
  "CollaborationRecord \<Rightarrow> string \<Rightarrow> CollaborationChange \<Rightarrow> CollaborationRecord result" where
  "planCollaborationChange record actorAddress change =
     (case assertProjectPermission (Some (role_context record)) actorAddress Project_update_collaborators of
        Inl _ \<Rightarrow> Inl (ApiError ''permission_denied'' 403)
      | Inr actorRole \<Rightarrow>
        let target = normalize (ch_address change);
            isTarget = (\<lambda>c. normalize (me_address c) = target);
            existing = find isTarget (cl_collaborators record);
            isAdd = (case change of Ch_add _ _ \<Rightarrow> True | _ \<Rightarrow> False)
        in
        if target = [] then Inl (changeError ''invalid_collaborator'' 400)
        else if target = normalize (cl_owner record) then Inl (changeError ''owner_immutable'' 409)
        else if (case ch_role change of None \<Rightarrow> False | Some r \<Rightarrow> r \<notin> set ASSIGNABLE_ROLES)
          then Inl (changeError ''role_not_assignable'' 400)
        else if isAdd \<and> existing \<noteq> None then Inl (changeError ''collaborator_exists'' 409)
        else if (case existing of None \<Rightarrow> False | Some c \<Rightarrow> \<not> outranks actorRole (me_role c))
          then Inl (changeError ''permission_denied'' 403)
        else if (case ch_role change of None \<Rightarrow> False | Some r \<Rightarrow> \<not> outranks actorRole r)
          then Inl (changeError ''permission_denied'' 403)
        else
          (case (case change of
              Ch_add _ r \<Rightarrow> Inr (cl_collaborators record @ [\<lparr>me_address = target, me_role = r\<rparr>])
            | Ch_remove _ \<Rightarrow>
                if existing = None then Inl (changeError ''collaborator_not_found'' 404)
                else Inr (drop_first isTarget (cl_collaborators record))
            | Ch_set_role _ r \<Rightarrow>
                if existing = None then Inl (changeError ''collaborator_not_found'' 404)
                else Inr (update_first isTarget (\<lambda>c. c\<lparr>me_role := r\<rparr>) (cl_collaborators record))
            | Ch_other _ \<Rightarrow> Inl (changeError ''invalid_change'' 400)) of
             Inl e \<Rightarrow> Inl e
           | Inr collaborators \<Rightarrow>
               Inr (record\<lparr>cl_collaborators := collaborators, cl_version := cl_version record + 1\<rparr>)))"

record ApplyCollaborationChangeInput =
  ai_projectId :: string
  ai_actorAddress :: string
  ai_change :: CollaborationChange
  ai_expectedVersion :: "int option"

record 's CollaborationStore =
  store_read :: "'s \<Rightarrow> string \<Rightarrow> CollaborationRecord option"
  store_cas :: "'s \<Rightarrow> string \<Rightarrow> int \<Rightarrow> CollaborationRecord \<Rightarrow> bool \<times> 's"

text \<open>\<open>attempts\<close> more turns of the loop; \<open>n\<close> counts the store calls made so far.\<close>

fun change_loop ::
  "'s CollaborationStore \<Rightarrow> (nat \<Rightarrow> 's \<Rightarrow> 's) \<Rightarrow> ApplyCollaborationChangeInput
     \<Rightarrow> nat \<Rightarrow> nat \<Rightarrow> 's \<Rightarrow> 's \<times> CollaborationRecord result" where
  "change_loop S env input n 0 s = (s, Inl (changeError ''collaboration_change_conflict'' 409))"
| "change_loop S env input n (Suc attempts) s =
     (let s1 = env n s in
      case store_read S s1 (ai_projectId input) of
        None \<Rightarrow> (s1, Inl (changeError ''project_not_found'' 404))
      | Some record \<Rightarrow>
        if (case ai_expectedVersion input of None \<Rightarrow> False | Some v \<Rightarrow> cl_version record \<noteq> v)
        then (s1, Inl (changeError ''stale_collaboration_state'' 409))
        else case planCollaborationChange record (ai_actorAddress input) (ai_change input) of
            Inl e \<Rightarrow> (s1, Inl e)
          | Inr next \<Rightarrow>
            (case store_cas S (env (n + 1) s1) (ai_projectId input) (cl_version record) next of
               (True, s3) \<Rightarrow> (s3, Inr next)
             | (False, s3) \<Rightarrow> change_loop S env input (n + 2) attempts s3))"

definition applyCollaborationChange ::
  "'s CollaborationStore \<Rightarrow> (nat \<Rightarrow> 's \<Rightarrow> 's) \<Rightarrow> 's \<Rightarrow> ApplyCollaborationChangeInput
     \<Rightarrow> 's \<times> CollaborationRecord result" where
  "applyCollaborationChange S env s input = change_loop S env input 0 MAX_CHANGE_ATTEMPTS s"

subsection \<open>The in-process store\<close>

type_synonym collaboration_map = "(string, CollaborationRecord) jmap"

definition mem_read :: "collaboration_map \<Rightarrow> string \<Rightarrow> CollaborationRecord option" where
  "mem_read records projectId = jm_get records projectId"

definition mem_compareAndSet ::
  "collaboration_map \<Rightarrow> string \<Rightarrow> int \<Rightarrow> CollaborationRecord \<Rightarrow> bool \<times> collaboration_map" where
  "mem_compareAndSet records projectId expectedVersion next =
     (case jm_get records projectId of
        None \<Rightarrow> (False, records)
      | Some current \<Rightarrow>
          if cl_version current \<noteq> expectedVersion then (False, records)
          else (True, jm_set records projectId next))"

definition createInMemoryCollaborationStore :: "collaboration_map CollaborationStore" where
  "createInMemoryCollaborationStore =
     \<lparr>store_read = mem_read, store_cas = mem_compareAndSet\<rparr>"

definition initial_records :: "CollaborationRecord list \<Rightarrow> collaboration_map" where
  "initial_records initial = foldl (\<lambda>m r. jm_set m (cl_projectId r) r) [] initial"

section \<open>The store interface\<close>

text \<open>
  The laws of compare-and-set. \<open>follows\<close> is what any sequence of commits may do to a store: a
  record is left alone or replaced by one of a higher version.
\<close>

definition follows ::
  "'s CollaborationStore \<Rightarrow> 's \<Rightarrow> 's \<Rightarrow> bool" where
  "follows S s s' \<longleftrightarrow> (\<forall>p. store_read S s' p = store_read S s p \<or>
     (\<exists>r r'. store_read S s p = Some r \<and> store_read S s' p = Some r' \<and> cl_version r < cl_version r'))"

locale cas_store =
  fixes S :: "'s CollaborationStore"
  assumes cas_fail: "store_cas S s p v r = (False, s') \<Longrightarrow> s' = s"
    and cas_ok: "store_cas S s p v r = (True, s') \<Longrightarrow>
      (\<exists>c. store_read S s p = Some c \<and> cl_version c = v)
      \<and> (\<forall>q. store_read S s' q = (if q = p then Some r else store_read S s q))"
    and cas_total: "store_read S s p = Some c \<Longrightarrow> cl_version c = v \<Longrightarrow> \<exists>s'. store_cas S s p v r = (True, s')"
begin

lemma follows_refl: "follows S s s"
  by (simp add: follows_def)

lemma follows_trans:
  assumes "follows S s t" "follows S t u"
  shows "follows S s u"
  unfolding follows_def
proof
  fix p
  from assms(1) have "store_read S t p = store_read S s p \<or>
     (\<exists>r r'. store_read S s p = Some r \<and> store_read S t p = Some r' \<and> cl_version r < cl_version r')"
    by (simp add: follows_def)
  moreover from assms(2) have "store_read S u p = store_read S t p \<or>
     (\<exists>r r'. store_read S t p = Some r \<and> store_read S u p = Some r' \<and> cl_version r < cl_version r')"
    by (simp add: follows_def)
  ultimately show "store_read S u p = store_read S s p \<or>
     (\<exists>r r'. store_read S s p = Some r \<and> store_read S u p = Some r' \<and> cl_version r < cl_version r')"
    by fastforce
qed

lemma cas_follows:
  assumes "store_cas S s p v r = (b, s')" "v < cl_version r"
  shows "follows S s s'"
proof (cases b)
  case True
  with assms cas_ok [of s p v r s'] show ?thesis by (auto simp: follows_def)
next
  case False
  with assms cas_fail [of s p v r s'] show ?thesis by (simp add: follows_def)
qed

lemma commit_point:
  assumes env: "\<And>n t. follows S t (env n t)"
    and res: "change_loop S env input n k s = (s', Inr next)"
  shows "\<exists>s2 r. follows S s s2 \<and> store_read S s2 (ai_projectId input) = Some r
    \<and> planCollaborationChange r (ai_actorAddress input) (ai_change input) = Inr next
    \<and> (\<forall>v. ai_expectedVersion input = Some v \<longrightarrow> cl_version r = v)
    \<and> (\<forall>q. store_read S s' q = (if q = ai_projectId input then Some next else store_read S s2 q))"
  using res
proof (induction k arbitrary: n s)
  case (Suc k)
  let ?p = "ai_projectId input"
  define s1 where "s1 = env n s"
  define s2 where "s2 = env (n + 1) s1"
  have f1: "follows S s s1" and f2: "follows S s1 s2" using env by (simp_all add: s1_def s2_def)
  from Suc.prems obtain rec nx where rec: "store_read S s1 ?p = Some rec"
    "\<forall>v. ai_expectedVersion input = Some v \<longrightarrow> cl_version rec = v"
    "planCollaborationChange rec (ai_actorAddress input) (ai_change input) = Inr nx"
    by (auto simp: Let_def s1_def split: option.splits if_splits sum.splits)
  obtain b s3 where cas: "store_cas S s2 ?p (cl_version rec) nx = (b, s3)" by fastforce
  show ?case
  proof (cases b)
    case True
    with cas have "store_cas S s2 ?p (cl_version rec) nx = (True, s3)" by simp
    from cas_ok [OF this] obtain c where c: "store_read S s2 ?p = Some c" "cl_version c = cl_version rec"
      and wr: "\<forall>q. store_read S s3 q = (if q = ?p then Some nx else store_read S s2 q)" by blast
    from f2 c rec(1) have "c = rec" unfolding follows_def
      by (metis option.inject order.irrefl)
    moreover have "s' = s3" "next = nx"
      using Suc.prems rec cas True by (auto simp: Let_def s1_def [symmetric] s2_def [symmetric, simplified]
          split: option.splits if_splits)
    ultimately show ?thesis using c wr rec follows_trans [OF f1 f2] by blast
  next
    case False
    with cas cas_fail have "s3 = s2" by (metis (full_types))
    moreover have "change_loop S env input (n + 2) k s3 = (s', Inr next)"
      using Suc.prems rec cas False by (auto simp: Let_def s1_def [symmetric] s2_def [symmetric, simplified]
          split: option.splits if_splits)
    ultimately show ?thesis using Suc.IH follows_trans [OF follows_trans [OF f1 f2]] by blast
  qed
qed simp

end

interpretation mem: cas_store createInMemoryCollaborationStore
  by unfold_locales
    (auto simp: createInMemoryCollaborationStore_def mem_read_def mem_compareAndSet_def
      split: option.splits if_splits)

section \<open>Planning a change\<close>

definition role_at :: "CollaborationRecord \<Rightarrow> string \<Rightarrow> CollaboratorRole option" where
  "role_at r a = map_option me_role (find (\<lambda>c. normalize (me_address c) = a) (cl_collaborators r))"

definition member_keys :: "CollaborationRecord \<Rightarrow> string list" where
  "member_keys r = map (\<lambda>c. normalize (me_address c)) (cl_collaborators r)"

text \<open>At most one entry per address, no entry for the owner, and no entry with the owner's role.\<close>

definition membership_ok :: "CollaborationRecord \<Rightarrow> bool" where
  "membership_ok r \<longleftrightarrow> distinct (member_keys r) \<and> normalize (cl_owner r) \<notin> set (member_keys r)
     \<and> (\<forall>c \<in> set (cl_collaborators r). me_role c \<noteq> Role_owner)"

lemma find_append: "find P (us @ vs) = (case find P us of None \<Rightarrow> find P vs | Some x \<Rightarrow> Some x)"
  by (induction us) auto

lemma find_drop_first:
  "distinct (map f xs) \<Longrightarrow> find (\<lambda>x. f x = a) (drop_first (\<lambda>x. f x = t) xs) =
     (if a = t then None else find (\<lambda>x. f x = a) xs)"
  by (induction xs) (auto simp: find_None_all image_iff)

lemma find_update_first:
  "(\<And>x. f (g x) = f x) \<Longrightarrow> find (\<lambda>x. f x = a) (update_first (\<lambda>x. f x = t) g xs) =
     (if a = t then map_option g (find (\<lambda>x. f x = a) xs) else find (\<lambda>x. f x = a) xs)"
  by (induction xs) auto

lemma map_update_first: "(\<And>x. f (g x) = f x) \<Longrightarrow> map f (update_first P g xs) = map f xs"
  by (induction xs) auto

lemma drop_first_subset: "set (drop_first P xs) \<subseteq> set xs"
  by (induction xs) auto

lemma update_first_subset: "set (update_first P g xs) \<subseteq> set xs \<union> g ` set xs"
  by (induction xs) auto

lemma distinct_drop_first: "distinct (map f xs) \<Longrightarrow> distinct (map f (drop_first P xs))"
proof (induction xs)
  case (Cons x xs)
  then show ?case using drop_first_subset [of P xs] by auto
qed simp

text \<open>The outcome of a successful plan, one case per kind of change.\<close>

lemma plan_Inr:
  assumes "planCollaborationChange record actor change = Inr next"
  defines "t \<equiv> normalize (ch_address change)"
  obtains ar where
    "resolveRequesterRole (Some (role_context record)) actor = Some ar"
    "roleHasPermission ar Project_update_collaborators"
    "t \<noteq> normalize (cl_owner record)"
    "\<And>r. ch_role change = Some r \<Longrightarrow> r \<noteq> Role_owner \<and> outranks ar r"
    "\<And>r. role_at record t = Some r \<Longrightarrow> outranks ar r"
    "next = record\<lparr>cl_collaborators := cl_collaborators next, cl_version := cl_version record + 1\<rparr>"
    "(\<exists>a r. change = Ch_add a r \<and> role_at record t = None \<and>
        cl_collaborators next = cl_collaborators record @ [\<lparr>me_address = t, me_role = r\<rparr>])
     \<or> (\<exists>a. change = Ch_remove a \<and>
        cl_collaborators next = drop_first (\<lambda>c. normalize (me_address c) = t) (cl_collaborators record))
     \<or> (\<exists>a r. change = Ch_set_role a r \<and>
        cl_collaborators next = update_first (\<lambda>c. normalize (me_address c) = t)
          (\<lambda>c. c\<lparr>me_role := r\<rparr>) (cl_collaborators record))"
proof -
  obtain ar where ar: "assertProjectPermission (Some (role_context record)) actor
      Project_update_collaborators = Inr ar"
    using assms(1) by (auto simp: planCollaborationChange_def split: sum.splits)
  show thesis
  proof (rule that [of ar])
    show "resolveRequesterRole (Some (role_context record)) actor = Some ar"
      "roleHasPermission ar Project_update_collaborators"
      using ar by (simp_all add: assertProjectPermission_Inr)
  qed (use assms ar in \<open>auto simp: planCollaborationChange_def Let_def role_at_def ASSIGNABLE_ROLES_def
      split: if_splits option.splits CollaborationChange.splits sum.splits\<close>)
qed

lemma plan_role_at:
  assumes plan: "planCollaborationChange record actor change = Inr next" and ok: "membership_ok record"
  shows "role_at next a =
    (if a = normalize (ch_address change) then ch_role change else role_at record a)"
proof -
  have d: "distinct (map (\<lambda>c. normalize (me_address c)) (cl_collaborators record))"
    using ok by (simp add: membership_ok_def member_keys_def)
  have tt: "normalize (normalize x) = normalize x" for x by (simp add: normalize_def)
  have "role_at record (normalize (ch_address change)) \<noteq> None" if "change = Ch_set_role x r" for x r
    using plan that
    by (auto simp: planCollaborationChange_def Let_def role_at_def split: if_splits sum.splits)
  with plan show ?thesis
    by (rule_tac plan_Inr [OF plan])
      (auto simp: role_at_def find_append tt find_drop_first [OF d] find_update_first split: option.splits)
qed

lemma plan_version:
  "planCollaborationChange record actor change = Inr next \<Longrightarrow>
     cl_version next = cl_version record + 1 \<and> cl_owner next = cl_owner record
     \<and> cl_projectId next = cl_projectId record"
  by (auto simp: planCollaborationChange_def Let_def split: sum.splits if_splits)

lemma plan_membership_ok:
  assumes plan: "planCollaborationChange record actor change = Inr next" and ok: "membership_ok record"
  shows "membership_ok next"
proof -
  have tt: "normalize (normalize x) = normalize x" for x by (simp add: normalize_def)
  from plan obtain ar where ar: "normalize (ch_address change) \<noteq> normalize (cl_owner record)"
    "\<And>r. ch_role change = Some r \<Longrightarrow> r \<noteq> Role_owner"
    "(\<exists>a r. change = Ch_add a r \<and> role_at record (normalize (ch_address change)) = None \<and>
        cl_collaborators next = cl_collaborators record
          @ [\<lparr>me_address = normalize (ch_address change), me_role = r\<rparr>])
     \<or> (\<exists>a. change = Ch_remove a \<and>
        cl_collaborators next = drop_first (\<lambda>c. normalize (me_address c) = normalize (ch_address change))
          (cl_collaborators record))
     \<or> (\<exists>a r. change = Ch_set_role a r \<and>
        cl_collaborators next = update_first (\<lambda>c. normalize (me_address c) = normalize (ch_address change))
          (\<lambda>c. c\<lparr>me_role := r\<rparr>) (cl_collaborators record))"
    by (rule plan_Inr) blast
  have ow: "cl_owner next = cl_owner record" using plan_version [OF plan] by simp
  from ar(3) show ?thesis
  proof (elim disjE exE conjE)
    fix a r assume c: "change = Ch_add a r" "role_at record (normalize (ch_address change)) = None"
      "cl_collaborators next = cl_collaborators record
        @ [\<lparr>me_address = normalize (ch_address change), me_role = r\<rparr>]"
    then have "normalize (ch_address change) \<notin> set (member_keys record)"
      by (auto simp: role_at_def find_None_all member_keys_def)
    with c ok ar(1,2) ow show ?thesis by (auto simp: membership_ok_def member_keys_def tt)
  next
    fix a assume c: "change = Ch_remove a"
      "cl_collaborators next = drop_first (\<lambda>c. normalize (me_address c) = normalize (ch_address change))
          (cl_collaborators record)"
    with ok ow show ?thesis
      using drop_first_subset [of "\<lambda>c. normalize (me_address c) = normalize (ch_address change)"
          "cl_collaborators record"]
      by (auto simp: membership_ok_def member_keys_def distinct_drop_first)
  next
    fix a r assume c: "change = Ch_set_role a r"
      "cl_collaborators next = update_first (\<lambda>c. normalize (me_address c) = normalize (ch_address change))
          (\<lambda>c. c\<lparr>me_role := r\<rparr>) (cl_collaborators record)"
    then have "member_keys next = member_keys record" by (simp add: member_keys_def map_update_first)
    moreover have "\<forall>c \<in> set (cl_collaborators next). me_role c \<noteq> Role_owner"
      using c ok ar(2) update_first_subset [of "\<lambda>c. normalize (me_address c) = normalize (ch_address change)"
          "\<lambda>c. c\<lparr>me_role := r\<rparr>" "cl_collaborators record"]
      by (fastforce simp: membership_ok_def)
    ultimately show ?thesis using ok ow by (simp add: membership_ok_def)
  qed
qed

section \<open>Properties\<close>

text \<open>
  (C15) What a change may do. From a well-formed membership a planned change yields a well-formed
  one with the same owner and the next version; the actor's own role in the record grants
  collaborator changes; every other address keeps its role; and the target's role, before and
  after, is one the actor outranks, so an admin can neither mint an admin nor touch a peer.
\<close>

theorem plan_respects_ranks:
  assumes "planCollaborationChange record actor change = Inr next" "membership_ok record"
  shows "membership_ok next \<and> cl_owner next = cl_owner record \<and> cl_version next = cl_version record + 1
    \<and> (\<forall>a. a \<noteq> normalize (ch_address change) \<longrightarrow> role_at next a = role_at record a)
    \<and> role_at next (normalize (ch_address change)) = ch_role change
    \<and> (\<exists>ar. resolveRequesterRole (Some (role_context record)) actor = Some ar
        \<and> roleHasPermission ar Project_update_collaborators
        \<and> (\<forall>r. role_at record (normalize (ch_address change)) = Some r
              \<or> role_at next (normalize (ch_address change)) = Some r \<longrightarrow>
              r \<noteq> Role_owner \<and> (ar = Role_admin \<longrightarrow> r \<noteq> Role_admin)))"
proof -
  from assms(1) obtain ar where ar: "resolveRequesterRole (Some (role_context record)) actor = Some ar"
    "roleHasPermission ar Project_update_collaborators"
    "\<And>r. ch_role change = Some r \<Longrightarrow> r \<noteq> Role_owner \<and> outranks ar r"
    "\<And>r. role_at record (normalize (ch_address change)) = Some r \<Longrightarrow> outranks ar r"
    by (rule plan_Inr) blast
  have no_owner: "role_at record a \<noteq> Some Role_owner" for a
    using assms(2) by (auto simp: membership_ok_def role_at_def dest!: find_Some_mem)
  have new: "role_at next (normalize (ch_address change)) = ch_role change"
    by (simp add: plan_role_at [OF assms])
  have admin: "outranks Role_admin r \<Longrightarrow> r \<noteq> Role_admin" for r by (auto simp: outranks_def)
  have "r \<noteq> Role_owner \<and> (ar = Role_admin \<longrightarrow> r \<noteq> Role_admin)"
    if "role_at record (normalize (ch_address change)) = Some r
          \<or> role_at next (normalize (ch_address change)) = Some r" for r
    using that ar(3,4) [of r] no_owner new admin by metis
  with ar(1,2) plan_membership_ok [OF assms] plan_version [OF assms(1)] plan_role_at [OF assms] new
  show ?thesis by auto
qed

definition sample_record :: CollaborationRecord where
  "sample_record = \<lparr>cl_projectId = ''p'', cl_owner = ''O'',
     cl_collaborators = [\<lparr>me_address = ''A'', me_role = Role_admin\<rparr>,
                         \<lparr>me_address = ''V'', me_role = Role_viewer\<rparr>],
     cl_version = 3\<rparr>"

lemma sample_plan:
  "planCollaborationChange sample_record ''A'' (Ch_set_role '' V'' Role_editor) =
     Inr (sample_record\<lparr>cl_collaborators := [\<lparr>me_address = ''A'', me_role = Role_admin\<rparr>,
                         \<lparr>me_address = ''V'', me_role = Role_editor\<rparr>], cl_version := 4\<rparr>)"
  by code_simp

lemma sample_ok: "membership_ok sample_record"
  by code_simp

theorem plan_respects_ranks_witness:
  "\<exists>next. planCollaborationChange sample_record ''A'' (Ch_set_role '' V'' Role_editor) = Inr next
    \<and> membership_ok next \<and> cl_version next = 4"
  using plan_respects_ranks [OF sample_plan sample_ok] sample_plan by (simp add: sample_record_def)

text \<open>
  (C4) Authorization at the commit point. Whatever other requests commit between the awaits of the
  loop (each commit raising the version), a change that returns a record was validated and
  authorized against exactly the record it replaced: the plan of the stored record at the moment
  of the write is the written record, the caller's expected version is that record's version, and
  no other project was touched. In particular an actor demoted by a concurrent commit cannot have
  its change applied.
\<close>

theorem change_authorized_at_commit:
  defines "S \<equiv> createInMemoryCollaborationStore"
  assumes env: "\<And>n t. follows S t (env n t)"
    and res: "applyCollaborationChange S env s input = (s', Inr next)"
  shows "\<exists>s2 r. follows S s s2 \<and> jm_get s2 (ai_projectId input) = Some r
    \<and> planCollaborationChange r (ai_actorAddress input) (ai_change input) = Inr next
    \<and> (\<forall>v. ai_expectedVersion input = Some v \<longrightarrow> cl_version r = v)
    \<and> (\<forall>q. jm_get s' q = (if q = ai_projectId input then Some next else jm_get s2 q))"
proof -
  have rd: "store_read S t q = jm_get t q" for t q
    by (simp add: S_def createInMemoryCollaborationStore_def mem_read_def)
  from mem.commit_point [folded S_def, OF env res [unfolded applyCollaborationChange_def]]
  show ?thesis by (simp only: rd)
qed

definition demote_admin :: "nat \<Rightarrow> collaboration_map \<Rightarrow> collaboration_map" where
  "demote_admin n m = (case jm_get m ''p'' of None \<Rightarrow> m
     | Some r \<Rightarrow> if n = 1 then jm_set m ''p'' (r\<lparr>cl_version := cl_version r + 1\<rparr>) else m)"

definition sample_input :: ApplyCollaborationChangeInput where
  "sample_input = \<lparr>ai_projectId = ''p'', ai_actorAddress = ''A'',
     ai_change = Ch_set_role ''V'' Role_editor, ai_expectedVersion = None\<rparr>"

theorem change_authorized_at_commit_witness:
  "\<exists>s' next s2 r. applyCollaborationChange createInMemoryCollaborationStore demote_admin
       [(''p'', sample_record)] sample_input = (s', Inr next)
    \<and> jm_get s2 ''p'' = Some r \<and> planCollaborationChange r ''A'' (Ch_set_role ''V'' Role_editor) = Inr next
    \<and> cl_version r = 4"
proof -
  have env: "follows createInMemoryCollaborationStore t (demote_admin n t)" for n t
    by (auto simp: follows_def demote_admin_def createInMemoryCollaborationStore_def mem_read_def
        split: option.splits)
  define nx where "nx = sample_record\<lparr>cl_collaborators := [\<lparr>me_address = ''A'', me_role = Role_admin\<rparr>,
                         \<lparr>me_address = ''V'', me_role = Role_editor\<rparr>], cl_version := 5\<rparr>"
  have res: "applyCollaborationChange createInMemoryCollaborationStore demote_admin
       [(''p'', sample_record)] sample_input = ([(''p'', nx)], Inr nx)"
    unfolding nx_def by code_simp
  from change_authorized_at_commit [OF env res] obtain s2 r where
    r: "jm_get s2 ''p'' = Some r" "planCollaborationChange r ''A'' (Ch_set_role ''V'' Role_editor) = Inr nx"
    by (auto simp: sample_input_def)
  with plan_version [OF r(2)] res show ?thesis by (auto simp: nx_def)
qed

text \<open>
  Progress. Without interference a change that the current record authorizes is committed by
  the first attempt, and one it does not authorize leaves the store as it was.
\<close>

theorem change_decided_without_interference:
  assumes "jm_get s (ai_projectId input) = Some r"
    and "ai_expectedVersion input = None \<or> ai_expectedVersion input = Some (cl_version r)"
  shows "applyCollaborationChange createInMemoryCollaborationStore (\<lambda>_ t. t) s input =
    (case planCollaborationChange r (ai_actorAddress input) (ai_change input) of
       Inl e \<Rightarrow> (s, Inl e)
     | Inr next \<Rightarrow> (jm_set s (ai_projectId input) next, Inr next))"
  using assms
  by (auto simp: applyCollaborationChange_def MAX_CHANGE_ATTEMPTS_def numeral_eq_Suc
      createInMemoryCollaborationStore_def mem_read_def mem_compareAndSet_def
      split: sum.splits option.splits)

theorem change_decided_without_interference_witness:
  "applyCollaborationChange createInMemoryCollaborationStore (\<lambda>_ t. t) [(''p'', sample_record)] sample_input =
    (case planCollaborationChange sample_record ''A'' (Ch_set_role ''V'' Role_editor) of
       Inl e \<Rightarrow> ([(''p'', sample_record)], Inl e)
     | Inr next \<Rightarrow> (jm_set [(''p'', sample_record)] ''p'' next, Inr next))"
proof -
  have f: "ai_projectId sample_input = ''p''" "ai_actorAddress sample_input = ''A''"
    "ai_change sample_input = Ch_set_role ''V'' Role_editor" "ai_expectedVersion sample_input = None"
    by (simp_all add: sample_input_def)
  have g: "jm_get [(''p'', sample_record)] (ai_projectId sample_input) = Some sample_record"
    by (simp add: f jm_get_Cons)
  from change_decided_without_interference [OF g disjI1, OF f(4)] show ?thesis by (simp only: f)
qed

end
