(* ===== verification/Invitations.thy ===== *)
theory Invitations
  imports Js_Text Js_Map
begin

text \<open>
  The invitation registry (\<open>backend/src/services/collaboration/invitation-registry.ts\<close>). The
  module-level maps and event logs are the record \<open>registry\<close>; every operation returns the new
  registry together with its result, because expiry marks made before a throw persist. \<open>clock\<close> is
  what \<open>new Date()\<close> returns during the call, \<open>now\<close> a time the caller passes; the random id of
  \<open>newId\<close> is an argument.
\<close>

section \<open>Model\<close>

datatype InvitationStatus = I_pending | I_accepted | I_cancelled | I_expired

definition DEFAULT_INVITATION_TTL_MS :: int where
  "DEFAULT_INVITATION_TTL_MS = 7 * 24 * 60 * 60 * 1000"

record InvitationRecord =
  in_id :: string
  in_email :: string
  in_tokenJti :: string
  in_projectId :: "string option"
  in_inviterWalletAddress :: "string option"
  in_status :: InvitationStatus
  in_createdAt :: instant
  in_expiresAt :: instant
  in_cancelledAt :: "instant option"
  in_cancelledBy :: "string option"
  in_acceptedAt :: "instant option"
  in_expiredAt :: "instant option"

datatype InvitationCancelAuthority = By_inviter | By_project_owner

record InvitationCancelEvent =
  xe_invitationId :: string
  xe_email :: string
  xe_projectId :: "string option"
  xe_cancelledBy :: string
  xe_authority :: InvitationCancelAuthority
  xe_at :: instant

record InvitationExpiredEvent =
  ee_invitationId :: string
  ee_email :: string
  ee_projectId :: "string option"
  ee_at :: instant

record registry =
  invitations :: "(string, InvitationRecord) jmap"
  tokenIndex :: "(string, string) jmap"
  cancelEvents :: "InvitationCancelEvent list"
  expiredEvents :: "InvitationExpiredEvent list"

definition resetInvitationRegistry :: registry where
  "resetInvitationRegistry =
     \<lparr>invitations = [], tokenIndex = [], cancelEvents = [], expiredEvents = []\<rparr>"

text \<open>A truthy optional string: present and not empty.\<close>

definition truthy :: "string option \<Rightarrow> bool" where
  "truthy s = (case s of None \<Rightarrow> False | Some x \<Rightarrow> x \<noteq> [])"

text \<open>The record object is the one stored under its id; marking it writes there.\<close>

definition markExpiredIfNeeded :: "registry \<Rightarrow> InvitationRecord \<Rightarrow> instant \<Rightarrow> registry \<times> InvitationRecord" where
  "markExpiredIfNeeded reg record now =
     (if in_status record \<noteq> I_pending then (reg, record)
      else if in_expiresAt record > now then (reg, record)
      else let record' = record\<lparr>in_status := I_expired, in_expiredAt := Some now\<rparr>
           in (reg\<lparr>invitations := jm_set (invitations reg) (in_id record) record',
                   expiredEvents := expiredEvents reg @
                     [\<lparr>ee_invitationId = in_id record, ee_email = in_email record,
                       ee_projectId = in_projectId record, ee_at = now\<rparr>]\<rparr>,
               record'))"

definition isInvitationExpired :: "InvitationRecord \<Rightarrow> instant \<Rightarrow> bool" where
  "isInvitationExpired record now =
     (if in_status record = I_expired then True
      else if in_status record \<noteq> I_pending then False
      else in_expiresAt record \<le> now)"

record register_input =
  ri_email :: string
  ri_tokenJti :: string
  ri_projectId :: "string option"
  ri_inviterWalletAddress :: "string option"
  ri_ttlMs :: "int option"
  ri_expiresAt :: "js_date option"
  ri_now :: "instant option"

definition registerInvitation ::
  "string \<Rightarrow> instant \<Rightarrow> registry \<Rightarrow> register_input \<Rightarrow> registry \<times> InvitationRecord result" where
  "registerInvitation newId clock reg input =
     (let now = default_to clock (ri_now input);
          ttl = default_to DEFAULT_INVITATION_TTL_MS (ri_ttlMs input);
          expiresAt = (case ri_expiresAt input of Some d \<Rightarrow> d | None \<Rightarrow> Some (now + ttl))
      in if date_le expiresAt now then (reg, Inl (ApiError ''invitation_expires_in_past'' 400))
         else case to_iso expiresAt of
             Inl e \<Rightarrow> (reg, Inl e)
           | Inr expiry \<Rightarrow>
             let record = \<lparr>in_id = newId, in_email = to_lower (ri_email input),
                   in_tokenJti = ri_tokenJti input, in_projectId = ri_projectId input,
                   in_inviterWalletAddress = ri_inviterWalletAddress input,
                   in_status = I_pending, in_createdAt = now, in_expiresAt = expiry,
                   in_cancelledAt = None, in_cancelledBy = None, in_acceptedAt = None,
                   in_expiredAt = None\<rparr>
             in (reg\<lparr>invitations := jm_set (invitations reg) newId record,
                     tokenIndex := jm_set (tokenIndex reg) (in_tokenJti record) newId\<rparr>,
                 Inr record))"

definition cancel_authority ::
  "InvitationRecord \<Rightarrow> string \<Rightarrow> string option \<Rightarrow> api_error + InvitationCancelAuthority" where
  "cancel_authority record actor projectOwnerAddress =
     (let inviter = trim (default_to [] (in_inviterWalletAddress record));
          projectOwner = trim (default_to [] projectOwnerAddress);
          isInviter = (inviter \<noteq> [] \<and> actor = inviter);
          isProjectOwner = (projectOwner \<noteq> [] \<and> actor = projectOwner)
      in if \<not> isInviter \<and> \<not> isProjectOwner
         then Inl (ApiError (if inviter = [] then ''inviter_unknown'' else ''forbidden_not_inviter'') 403)
         else Inr (if isProjectOwner then By_project_owner else By_inviter))"

definition cancelInvitation ::
  "instant \<Rightarrow> registry \<Rightarrow> string \<Rightarrow> string \<Rightarrow> string option \<Rightarrow> registry \<times> InvitationRecord result" where
  "cancelInvitation clock reg invitationId actorWalletAddress projectOwnerAddress =
     (case jm_get (invitations reg) invitationId of
        None \<Rightarrow> (reg, Inl (ApiError ''invitation_not_found'' 404))
      | Some stored \<Rightarrow>
        let (reg1, record) = markExpiredIfNeeded reg stored clock in
        if in_status record = I_cancelled then (reg1, Inr record)
        else if in_status record = I_accepted then (reg1, Inl (ApiError ''invitation_already_accepted'' 409))
        else if in_status record = I_expired then (reg1, Inl (ApiError ''invitation_expired'' 410))
        else let actor = trim actorWalletAddress in
          if actor = [] then (reg1, Inl (ApiError ''actor_required'' 400))
          else case cancel_authority record actor projectOwnerAddress of
              Inl e \<Rightarrow> (reg1, Inl e)
            | Inr authority \<Rightarrow>
              let record' = record\<lparr>in_status := I_cancelled, in_cancelledAt := Some clock,
                                   in_cancelledBy := Some actor\<rparr>
              in (reg1\<lparr>invitations := jm_set (invitations reg1) (in_id record) record',
                       cancelEvents := cancelEvents reg1 @
                         [\<lparr>xe_invitationId = in_id record, xe_email = in_email record,
                           xe_projectId = in_projectId record, xe_cancelledBy = actor,
                           xe_authority = authority, xe_at = clock\<rparr>]\<rparr>,
                  Inr record'))"

text \<open>The loop of \<open>reinvite\<close> over the ids present when it starts.\<close>

fun reinvite_loop ::
  "instant \<Rightarrow> instant \<Rightarrow> string \<Rightarrow> register_input \<Rightarrow> string list \<Rightarrow> registry \<Rightarrow> registry \<times> unit result" where
  "reinvite_loop clock now email input [] reg = (reg, Inr ())"
| "reinvite_loop clock now email input (i # ids) reg =
     (case jm_get (invitations reg) i of
        None \<Rightarrow> reinvite_loop clock now email input ids reg
      | Some existing \<Rightarrow>
        if in_email existing \<noteq> email then reinvite_loop clock now email input ids reg
        else if truthy (ri_projectId input) \<and> in_projectId existing \<noteq> ri_projectId input
          then reinvite_loop clock now email input ids reg
        else let (reg1, record) = markExpiredIfNeeded reg existing now in
          if in_status record = I_pending \<and> truthy (ri_inviterWalletAddress input)
          then (case cancelInvitation clock reg1 (in_id record)
                       (default_to [] (ri_inviterWalletAddress input)) None of
                  (reg2, Inl e) \<Rightarrow> (reg2, Inl e)
                | (reg2, Inr _) \<Rightarrow> reinvite_loop clock now email input ids reg2)
          else reinvite_loop clock now email input ids reg1)"

definition reinvite ::
  "string \<Rightarrow> instant \<Rightarrow> registry \<Rightarrow> register_input \<Rightarrow> registry \<times> InvitationRecord result" where
  "reinvite newId clock reg input =
     (let now = default_to clock (ri_now input);
          email = to_lower (ri_email input)
      in case reinvite_loop clock now email input (jm_keys (invitations reg)) reg of
           (reg1, Inl e) \<Rightarrow> (reg1, Inl e)
         | (reg1, Inr _) \<Rightarrow> registerInvitation newId clock reg1 (input\<lparr>ri_now := Some now\<rparr>))"

definition getInvitationById :: "instant \<Rightarrow> registry \<Rightarrow> string \<Rightarrow> registry \<times> InvitationRecord option" where
  "getInvitationById clock reg i =
     (case jm_get (invitations reg) i of
        None \<Rightarrow> (reg, None)
      | Some record \<Rightarrow> let (reg1, record1) = markExpiredIfNeeded reg record clock in (reg1, Some record1))"

definition getInvitationByTokenJti :: "instant \<Rightarrow> registry \<Rightarrow> string \<Rightarrow> registry \<times> InvitationRecord option" where
  "getInvitationByTokenJti clock reg jti =
     (case jm_get (tokenIndex reg) jti of
        None \<Rightarrow> (reg, None)
      | Some i \<Rightarrow> if i = [] then (reg, None) else getInvitationById clock reg i)"

definition acceptInvitationByTokenJti ::
  "instant \<Rightarrow> registry \<Rightarrow> string \<Rightarrow> instant \<Rightarrow> registry \<times> InvitationRecord result" where
  "acceptInvitationByTokenJti clock reg jti now =
     (case getInvitationByTokenJti clock reg jti of
        (reg1, None) \<Rightarrow> (reg1, Inl (ApiError ''invitation_not_tracked'' 404))
      | (reg1, Some found) \<Rightarrow>
        let (reg2, record) = markExpiredIfNeeded reg1 found now in
        if in_status record = I_cancelled then (reg2, Inl (ApiError ''invitation_cancelled'' 410))
        else if in_status record = I_expired then (reg2, Inl (ApiError ''invitation_expired'' 410))
        else if in_status record = I_accepted then (reg2, Inr record)
        else let record' = record\<lparr>in_status := I_accepted, in_acceptedAt := Some now\<rparr>
             in (reg2\<lparr>invitations := jm_set (invitations reg2) (in_id record) record'\<rparr>, Inr record'))"

definition listCancellationEvents :: "registry \<Rightarrow> InvitationCancelEvent list" where
  "listCancellationEvents reg = cancelEvents reg"

definition listExpiredEvents :: "registry \<Rightarrow> InvitationExpiredEvent list" where
  "listExpiredEvents reg = expiredEvents reg"

fun list_pending_loop ::
  "instant \<Rightarrow> string option \<Rightarrow> string option \<Rightarrow> string list \<Rightarrow> registry \<Rightarrow> registry \<times> InvitationRecord list" where
  "list_pending_loop now projectId inviter [] reg = (reg, [])"
| "list_pending_loop now projectId inviter (i # ids) reg =
     (case jm_get (invitations reg) i of
        None \<Rightarrow> list_pending_loop now projectId inviter ids reg
      | Some stored \<Rightarrow>
        let (reg1, r) = markExpiredIfNeeded reg stored now;
            (reg2, rest) = list_pending_loop now projectId inviter ids reg1
        in (reg2,
            if in_status r \<noteq> I_pending then rest
            else if truthy projectId \<and> in_projectId r \<noteq> projectId then rest
            else if truthy inviter \<and> in_inviterWalletAddress r \<noteq> inviter then rest
            else r # rest))"

definition listPendingInvitations ::
  "instant \<Rightarrow> registry \<Rightarrow> string option \<Rightarrow> string option \<Rightarrow> instant option
     \<Rightarrow> registry \<times> InvitationRecord list" where
  "listPendingInvitations clock reg projectId inviter now =
     list_pending_loop (default_to clock now) projectId inviter (jm_keys (invitations reg)) reg"

section \<open>The registry as a transition system\<close>

text \<open>
  Every operation is a sequence of the four elementary writes below; \<open>moves\<close> is their closure.
  Registration is the only one that adds an id, and it needs a fresh one.
\<close>

inductive reg_step :: "registry \<Rightarrow> registry \<Rightarrow> bool" where
  step_expire: "\<lbrakk>jm_get (invitations reg) i = Some r; in_status r = I_pending; in_expiresAt r \<le> now;
     reg' = fst (markExpiredIfNeeded reg r now)\<rbrakk> \<Longrightarrow> reg_step reg reg'"
| step_cancel: "\<lbrakk>jm_get (invitations reg) i = Some r; in_status r = I_pending;
     actor \<noteq> []; cancel_authority r actor owner = Inr auth;
     reg' = reg\<lparr>invitations := jm_set (invitations reg) (in_id r)
                  (r\<lparr>in_status := I_cancelled, in_cancelledAt := Some at, in_cancelledBy := Some actor\<rparr>),
                cancelEvents := cancelEvents reg @
                  [\<lparr>xe_invitationId = in_id r, xe_email = in_email r, xe_projectId = in_projectId r,
                    xe_cancelledBy = actor, xe_authority = auth, xe_at = at\<rparr>]\<rparr>\<rbrakk>
     \<Longrightarrow> reg_step reg reg'"
| step_accept: "\<lbrakk>jm_get (invitations reg) i = Some r; in_status r = I_pending; now < in_expiresAt r;
     reg' = reg\<lparr>invitations := jm_set (invitations reg) (in_id r)
                  (r\<lparr>in_status := I_accepted, in_acceptedAt := Some now\<rparr>)\<rparr>\<rbrakk>
     \<Longrightarrow> reg_step reg reg'"
| step_register: "\<lbrakk>jm_get (invitations reg) (in_id r) = None; in_status r = I_pending;
     in_createdAt r < in_expiresAt r;
     reg' = reg\<lparr>invitations := jm_set (invitations reg) (in_id r) r,
                tokenIndex := jm_set (tokenIndex reg) (in_tokenJti r) (in_id r)\<rparr>\<rbrakk>
     \<Longrightarrow> reg_step reg reg'"

definition moves :: "registry \<Rightarrow> registry \<Rightarrow> bool" where
  "moves reg reg' = reg_step\<^sup>*\<^sup>* reg reg'"

inductive_cases reg_stepE: "reg_step reg reg'"

text \<open>
  The invariant: entries are stored under their id, and the two logs are exactly the cancelled and
  the expired entries, each logged once.
\<close>

definition ids_with :: "InvitationStatus \<Rightarrow> (string, InvitationRecord) jmap \<Rightarrow> string set" where
  "ids_with st m = {i. \<exists>r. jm_get m i = Some r \<and> in_status r = st}"

definition reg_ok :: "registry \<Rightarrow> bool" where
  "reg_ok reg \<longleftrightarrow>
     (\<forall>i r. jm_get (invitations reg) i = Some r \<longrightarrow> in_id r = i) \<and>
     distinct (map xe_invitationId (cancelEvents reg)) \<and>
     distinct (map ee_invitationId (expiredEvents reg)) \<and>
     set (map xe_invitationId (cancelEvents reg)) = ids_with I_cancelled (invitations reg) \<and>
     set (map ee_invitationId (expiredEvents reg)) = ids_with I_expired (invitations reg)"

lemma ids_with_set:
  "ids_with st (jm_set m i r) = ids_with st m - {i} \<union> (if in_status r = st then {i} else {})"
  by (auto simp: ids_with_def)

lemma ids_with_Nil [simp]: "ids_with st [] = {}"
  by (simp add: ids_with_def)

lemma not_ids_with:
  "jm_get m i = Some r \<Longrightarrow> in_status r \<noteq> st \<Longrightarrow> i \<notin> ids_with st m"
  "jm_get m i = None \<Longrightarrow> i \<notin> ids_with st m"
  by (auto simp: ids_with_def)

lemma reg_ok_id: "reg_ok reg \<Longrightarrow> jm_get (invitations reg) i = Some r \<Longrightarrow> in_id r = i"
  by (simp add: reg_ok_def)

lemma reg_ok_empty: "reg_ok resetInvitationRegistry"
  by (simp add: reg_ok_def resetInvitationRegistry_def)

lemma mark_eq:
  "in_status r = I_pending \<Longrightarrow> in_expiresAt r \<le> now \<Longrightarrow>
   markExpiredIfNeeded reg r now =
     (reg\<lparr>invitations := jm_set (invitations reg) (in_id r) (r\<lparr>in_status := I_expired, in_expiredAt := Some now\<rparr>),
          expiredEvents := expiredEvents reg @ [\<lparr>ee_invitationId = in_id r, ee_email = in_email r,
             ee_projectId = in_projectId r, ee_at = now\<rparr>]\<rparr>,
      r\<lparr>in_status := I_expired, in_expiredAt := Some now\<rparr>)"
  "\<not> (in_status r = I_pending \<and> in_expiresAt r \<le> now) \<Longrightarrow> markExpiredIfNeeded reg r now = (reg, r)"
  by (auto simp: markExpiredIfNeeded_def Let_def)

lemma reg_ok_step:
  assumes "reg_step reg reg'" "reg_ok reg"
  shows "reg_ok reg'"
  using assms(1)
proof (cases rule: reg_step.cases)
  case (step_expire i r now)
  then have "i = in_id r" using assms(2) reg_ok_id by metis
  with step_expire have "in_id r \<notin> ids_with I_cancelled (invitations reg)"
    "in_id r \<notin> ids_with I_expired (invitations reg)" by (auto simp: not_ids_with)
  with step_expire assms(2) show ?thesis by (simp add: reg_ok_def mark_eq ids_with_set)
next
  case (step_cancel i r actor owner auth at)
  then have "i = in_id r" using assms(2) reg_ok_id by metis
  with step_cancel have "in_id r \<notin> ids_with I_cancelled (invitations reg)"
    "in_id r \<notin> ids_with I_expired (invitations reg)" by (auto simp: not_ids_with)
  with step_cancel(5) assms(2) show ?thesis by (simp add: reg_ok_def ids_with_set)
next
  case (step_accept i r now)
  then have "i = in_id r" using assms(2) reg_ok_id by metis
  with step_accept have "in_id r \<notin> ids_with I_cancelled (invitations reg)"
    "in_id r \<notin> ids_with I_expired (invitations reg)" by (auto simp: not_ids_with)
  with step_accept(4) assms(2) show ?thesis by (simp add: reg_ok_def ids_with_set)
next
  case (step_register r)
  then have "in_id r \<notin> ids_with I_cancelled (invitations reg)"
    "in_id r \<notin> ids_with I_expired (invitations reg)" by (auto simp: not_ids_with)
  with step_register(2,4) assms(2) show ?thesis by (simp add: reg_ok_def ids_with_set)
qed

lemma moves_refl [simp]: "moves reg reg"
  by (simp add: moves_def)

lemma moves_trans: "moves a b \<Longrightarrow> moves b c \<Longrightarrow> moves a c"
  by (simp add: moves_def)

lemma moves_step: "reg_step a b \<Longrightarrow> moves a b"
  by (simp add: moves_def)

lemma moves_ok: "moves reg reg' \<Longrightarrow> reg_ok reg \<Longrightarrow> reg_ok reg'"
  unfolding moves_def by (induction rule: rtranclp_induct) (auto intro: reg_ok_step)

text \<open>Status moves: only a pending entry changes, and what identifies an entry never does.\<close>

definition entry_le :: "InvitationRecord \<Rightarrow> InvitationRecord \<Rightarrow> bool" where
  "entry_le r r' \<longleftrightarrow> r' = r \<or>
     (in_status r = I_pending \<and> in_status r' \<noteq> I_pending \<and> in_id r' = in_id r \<and>
      in_email r' = in_email r \<and> in_tokenJti r' = in_tokenJti r \<and> in_projectId r' = in_projectId r \<and>
      in_inviterWalletAddress r' = in_inviterWalletAddress r \<and> in_expiresAt r' = in_expiresAt r)"

lemma entry_le_trans: "entry_le a b \<Longrightarrow> entry_le b c \<Longrightarrow> entry_le a c"
  by (auto simp: entry_le_def)

lemma step_entries:
  assumes "reg_step reg reg'" "reg_ok reg" "jm_get (invitations reg) i = Some r"
  shows "\<exists>r'. jm_get (invitations reg') i = Some r' \<and> entry_le r r'"
  using assms(1)
proof (cases rule: reg_step.cases)
  case (step_expire j q now)
  with assms(2) have "j = in_id q" by (auto simp: reg_ok_def)
  with step_expire assms(2,3) show ?thesis by (auto simp: mark_eq entry_le_def)
next
  case (step_cancel j q actor owner auth at)
  with assms(2) have "j = in_id q" by (auto simp: reg_ok_def)
  with step_cancel assms(2,3) show ?thesis by (auto simp: entry_le_def)
next
  case (step_accept j q now)
  with assms(2) have "j = in_id q" by (auto simp: reg_ok_def)
  with step_accept assms(2,3) show ?thesis by (auto simp: entry_le_def)
next
  case (step_register q)
  with assms(3) show ?thesis by (auto simp: entry_le_def)
qed

lemma moves_entries:
  assumes "moves reg reg'" "reg_ok reg" "jm_get (invitations reg) i = Some r"
  shows "\<exists>r'. jm_get (invitations reg') i = Some r' \<and> entry_le r r'"
  using assms(1) unfolding moves_def
proof (induction rule: rtranclp_induct)
  case base
  with assms(3) show ?case by (auto simp: entry_le_def)
next
  case (step b c)
  then obtain r1 where r1: "jm_get (invitations b) i = Some r1" "entry_le r r1" by blast
  have "reg_ok b" using step(1) assms(2) moves_ok by (auto simp: moves_def)
  from step_entries [OF step(2) this r1(1)] r1(2) show ?case using entry_le_trans by blast
qed

section \<open>The operations move the registry\<close>

lemma mark_moves:
  assumes "jm_get (invitations reg) i = Some r" "markExpiredIfNeeded reg r now = (reg', r')" "in_id r = i"
  shows "moves reg reg'" "jm_get (invitations reg') i = Some r'" "in_id r' = i"
    "in_status r' = I_pending \<Longrightarrow> r' = r \<and> now < in_expiresAt r \<and> reg' = reg"
proof -
  show "moves reg reg'"
  proof (cases "in_status r = I_pending \<and> in_expiresAt r \<le> now")
    case True
    then have "reg_step reg reg'" using assms by (intro reg_step.step_expire [of reg i r now]) auto
    then show ?thesis by (rule moves_step)
  next
    case False
    with assms show ?thesis by (simp add: mark_eq(2))
  qed
  show "jm_get (invitations reg') i = Some r'" "in_id r' = i"
    using assms by (auto simp: markExpiredIfNeeded_def Let_def split: if_splits)
  show "in_status r' = I_pending \<Longrightarrow> r' = r \<and> now < in_expiresAt r \<and> reg' = reg"
    using assms by (auto simp: markExpiredIfNeeded_def Let_def split: if_splits)
qed

lemma cancel_moves:
  assumes ok: "reg_ok reg" and res: "cancelInvitation clock reg i actor owner = (reg', res)"
  shows "moves reg reg'"
proof (cases "jm_get (invitations reg) i")
  case None
  with res show ?thesis by (simp add: cancelInvitation_def)
next
  case (Some r)
  then have id: "in_id r = i" using ok by (rule_tac reg_ok_id)
  obtain reg1 r1 where m: "markExpiredIfNeeded reg r clock = (reg1, r1)" by fastforce
  note mm = mark_moves [OF Some m id]
  show ?thesis
  proof (cases "reg' = reg1")
    case True
    with mm(1) show ?thesis by simp
  next
    case False
    with res Some m obtain auth where a: "in_status r1 = I_pending" "trim actor \<noteq> []"
      "cancel_authority r1 (trim actor) owner = Inr auth"
      "reg' = reg1\<lparr>invitations := jm_set (invitations reg1) (in_id r1)
          (r1\<lparr>in_status := I_cancelled, in_cancelledAt := Some clock, in_cancelledBy := Some (trim actor)\<rparr>),
        cancelEvents := cancelEvents reg1 @ [\<lparr>xe_invitationId = in_id r1, xe_email = in_email r1,
          xe_projectId = in_projectId r1, xe_cancelledBy = trim actor, xe_authority = auth, xe_at = clock\<rparr>]\<rparr>"
      by (cases "in_status r1")
        (auto simp: cancelInvitation_def Let_def split: if_splits sum.splits)
    then have "reg_step reg1 reg'" using mm(2) by (intro reg_step.step_cancel) auto
    with mm(1) show ?thesis using moves_trans moves_step by blast
  qed
qed

lemma register_moves:
  assumes "registerInvitation newId clock reg input = (reg', res)" "jm_get (invitations reg) newId = None"
  shows "moves reg reg'"
proof (cases res)
  case (Inl e)
  with assms have "reg' = reg"
    by (auto simp: registerInvitation_def Let_def split: if_splits sum.splits)
  then show ?thesis by simp
next
  case (Inr r)
  have "reg_step reg reg'"
    by (rule reg_step.step_register [of reg r])
      (use assms Inr in \<open>auto simp: registerInvitation_def Let_def split: if_splits sum.splits option.splits\<close>)
  then show ?thesis by (rule moves_step)
qed

lemma get_moves:
  assumes ok: "reg_ok reg" and res: "getInvitationById clock reg i = (reg', found)"
  shows "moves reg reg'" "\<And>r. found = Some r \<Longrightarrow> jm_get (invitations reg') i = Some r"
proof -
  have "moves reg reg' \<and> (\<forall>r. found = Some r \<longrightarrow> jm_get (invitations reg') i = Some r)"
  proof (cases "jm_get (invitations reg) i")
    case None
    with res show ?thesis by (auto simp: getInvitationById_def)
  next
    case (Some r)
    obtain reg1 r1 where m: "markExpiredIfNeeded reg r clock = (reg1, r1)" by fastforce
    from mark_moves [OF Some m reg_ok_id [OF ok Some]] res Some m show ?thesis
      by (auto simp: getInvitationById_def)
  qed
  then show "moves reg reg'" "\<And>r. found = Some r \<Longrightarrow> jm_get (invitations reg') i = Some r" by auto
qed

lemma get_jti_cases:
  assumes "getInvitationByTokenJti clock reg jti = (reg', found)"
  obtains "reg' = reg" "found = None"
    | i where "jm_get (tokenIndex reg) jti = Some i" "getInvitationById clock reg i = (reg', found)"
proof (cases "jm_get (tokenIndex reg) jti")
  case None
  with assms that(1) show thesis by (simp add: getInvitationByTokenJti_def)
next
  case (Some i)
  show thesis
  proof (cases "i = []")
    case True
    with Some assms that(1) show thesis by (simp add: getInvitationByTokenJti_def)
  next
    case False
    with Some assms have "getInvitationById clock reg i = (reg', found)"
      by (simp add: getInvitationByTokenJti_def)
    with Some that(2) show thesis by blast
  qed
qed

text \<open>Acceptance, step by step: the entry found, its two expiry marks, and the write.\<close>

lemma accept_cases:
  assumes ok: "reg_ok reg" and res: "acceptInvitationByTokenJti clock reg jti now = (reg', out)"
  shows "moves reg reg' \<and> (\<forall>rec. out = Inr rec \<longrightarrow>
     (\<exists>i r. jm_get (tokenIndex reg) jti = Some i \<and> jm_get (invitations reg) i = Some r
        \<and> jm_get (invitations reg') i = Some rec \<and> in_status rec = I_accepted
        \<and> (r = rec \<or> in_status r = I_pending \<and> clock < in_expiresAt r \<and> now < in_expiresAt r)))"
proof -
  obtain reg1 found where g: "getInvitationByTokenJti clock reg jti = (reg1, found)" by fastforce
  show ?thesis
  proof (cases found)
    case None
    have "moves reg reg1" using g
    proof (cases rule: get_jti_cases)
      case (2 i)
      with get_moves(1) [OF ok] show ?thesis by blast
    qed simp
    with None res g show ?thesis by (auto simp: acceptInvitationByTokenJti_def)
  next
    case (Some r1)
    from g Some obtain i where i: "jm_get (tokenIndex reg) jti = Some i"
      "getInvitationById clock reg i = (reg1, Some r1)"
      by (auto elim: get_jti_cases)
    from i(2) obtain r where r: "jm_get (invitations reg) i = Some r"
      "markExpiredIfNeeded reg r clock = (reg1, r1)"
      by (auto simp: getInvitationById_def split: option.splits prod.splits)
    note m1 = mark_moves [OF r reg_ok_id [OF ok r(1)]]
    obtain reg2 r2 where m: "markExpiredIfNeeded reg1 r1 now = (reg2, r2)" by fastforce
    note m2 = mark_moves [OF m1(2) m m1(3)]
    have mv: "moves reg reg2" using moves_trans [OF m1(1) m2(1)] .
    have pend: "in_status r2 = I_pending \<Longrightarrow> r2 = r \<and> reg2 = reg \<and> clock < in_expiresAt r \<and> now < in_expiresAt r"
    proof -
      assume p: "in_status r2 = I_pending"
      then have a: "r2 = r1" "now < in_expiresAt r1" "reg2 = reg1" using m2(4) by auto
      with p have b: "r1 = r" "clock < in_expiresAt r" "reg1 = reg" using m1(4) by auto
      from a b show ?thesis by simp
    qed
    have acc: "in_status r2 = I_accepted \<Longrightarrow> r2 = r"
      using r(2) m by (auto simp: markExpiredIfNeeded_def Let_def split: if_splits)
    let ?r = "r2\<lparr>in_status := I_accepted, in_acceptedAt := Some now\<rparr>"
    have out: "(reg', out) = (case in_status r2 of
         I_cancelled \<Rightarrow> (reg2, Inl (ApiError ''invitation_cancelled'' 410))
       | I_expired \<Rightarrow> (reg2, Inl (ApiError ''invitation_expired'' 410))
       | I_accepted \<Rightarrow> (reg2, Inr r2)
       | I_pending \<Rightarrow> (reg2\<lparr>invitations := jm_set (invitations reg2) (in_id r2) ?r\<rparr>, Inr ?r))"
      using res g Some m by (auto simp: acceptInvitationByTokenJti_def Let_def split: InvitationStatus.splits)
    show ?thesis
    proof (cases "in_status r2")
      case I_pending
      with out have o: "reg' = reg2\<lparr>invitations := jm_set (invitations reg2) (in_id r2) ?r\<rparr>" "out = Inr ?r"
        by auto
      have "reg_step reg2 reg'"
        by (rule reg_step.step_accept [of reg2 i r2 now]) (use m2(2) pend I_pending o in auto)
      then have "moves reg reg'" using moves_trans [OF mv] moves_step by blast
      with o i(1) r(1) pend [OF I_pending] m2(3) I_pending show ?thesis by auto
    qed (use out mv i(1) r(1) acc m2(2) in auto)
  qed
qed

lemma mark_keeps_fresh:
  "jm_get (invitations reg) (in_id r) \<noteq> None \<Longrightarrow> jm_get (invitations reg) k = None \<Longrightarrow>
     jm_get (invitations (fst (markExpiredIfNeeded reg r now))) k = None"
  by (auto simp: markExpiredIfNeeded_def Let_def)

lemma cancel_keeps_fresh:
  assumes "reg_ok reg" "jm_get (invitations reg) k = None" "cancelInvitation clock reg i actor owner = (reg', res)"
  shows "jm_get (invitations reg') k = None"
proof (cases "jm_get (invitations reg) i")
  case None
  with assms show ?thesis by (simp add: cancelInvitation_def)
next
  case (Some r)
  then have id: "in_id r = i" using assms(1) reg_ok_id by blast
  obtain reg1 r1 where m: "markExpiredIfNeeded reg r clock = (reg1, r1)" by fastforce
  have f: "jm_get (invitations reg1) k = None" using mark_keeps_fresh [of reg r k clock] Some id assms(2) m by simp
  have "in_id r1 \<noteq> k" using mark_moves(3) [OF Some m id] Some assms(2) by auto
  with f m assms(3) Some show ?thesis
    by (auto simp: cancelInvitation_def Let_def split: if_splits sum.splits)
qed

lemma reinvite_loop_moves:
  "\<lbrakk>reg_ok reg; reinvite_loop clock now email input ids reg = (reg', res)\<rbrakk> \<Longrightarrow>
     moves reg reg' \<and> (jm_get (invitations reg) k = None \<longrightarrow> jm_get (invitations reg') k = None)"
proof (induction ids arbitrary: reg)
  case (Cons i ids)
  show ?case
  proof (cases "jm_get (invitations reg) i")
    case None
    with Cons show ?thesis by simp
  next
    case (Some r)
    then have id: "in_id r = i" using Cons.prems(1) reg_ok_id by blast
    obtain reg1 r1 where m: "markExpiredIfNeeded reg r now = (reg1, r1)" by fastforce
    note mm = mark_moves [OF Some m id]
    have ok1: "reg_ok reg1" using moves_ok [OF mm(1) Cons.prems(1)] .
    have f1: "jm_get (invitations reg) k = None \<longrightarrow> jm_get (invitations reg1) k = None"
      using mark_keeps_fresh [of reg r k now] Some id m by simp
    obtain reg2 out where c: "cancelInvitation clock reg1 (in_id r1)
        (default_to [] (ri_inviterWalletAddress input)) None = (reg2, out)" by fastforce
    have mv2: "moves reg1 reg2" and ok2: "reg_ok reg2"
      using cancel_moves [OF ok1 c] moves_ok ok1 by blast+
    have f2: "jm_get (invitations reg1) k = None \<longrightarrow> jm_get (invitations reg2) k = None"
      using cancel_keeps_fresh [OF ok1 _ c] by blast
    consider "reinvite_loop clock now email input ids reg = (reg', res)"
      | "reinvite_loop clock now email input ids reg1 = (reg', res)"
      | "reinvite_loop clock now email input ids reg2 = (reg', res)" | "reg' = reg2"
      using Cons.prems(2) Some m c by (auto split: if_splits sum.splits)
    then show ?thesis
    proof cases
      case 1
      then show ?thesis using Cons.IH Cons.prems(1) by blast
    next
      case 2
      then show ?thesis using Cons.IH [OF ok1 2] f1 by (auto intro: moves_trans [OF mm(1)])
    next
      case 3
      then show ?thesis using Cons.IH [OF ok2 3] f1 f2 by (auto intro: moves_trans [OF moves_trans [OF mm(1) mv2]])
    next
      case 4
      then show ?thesis using f1 f2 moves_trans [OF mm(1) mv2] by simp
    qed
  qed
qed auto

lemma reinvite_moves:
  assumes "reg_ok reg" "reinvite newId clock reg input = (reg', res)" "jm_get (invitations reg) newId = None"
  shows "moves reg reg'"
proof -
  obtain reg1 out where l: "reinvite_loop clock (default_to clock (ri_now input)) (to_lower (ri_email input))
      input (jm_keys (invitations reg)) reg = (reg1, out)" by fastforce
  from reinvite_loop_moves [OF assms(1) l, of newId] assms(3)
  have mv: "moves reg reg1" and f: "jm_get (invitations reg1) newId = None" by auto
  show ?thesis
  proof (cases out)
    case (Inl e)
    with assms(2) l mv show ?thesis by (simp add: reinvite_def Let_def)
  next
    case (Inr u)
    with assms(2) l have "registerInvitation newId clock reg1
        (input\<lparr>ri_now := Some (default_to clock (ri_now input))\<rparr>) = (reg', res)"
      by (simp add: reinvite_def Let_def)
    from register_moves [OF this f] mv show ?thesis by (rule_tac moves_trans)
  qed
qed

lemma list_moves:
  "\<lbrakk>reg_ok reg; list_pending_loop now p w ids reg = (reg', out)\<rbrakk> \<Longrightarrow> moves reg reg'"
proof (induction ids arbitrary: reg reg' out)
  case (Cons i ids)
  show ?case
  proof (cases "jm_get (invitations reg) i")
    case None
    with Cons show ?thesis by simp
  next
    case (Some r)
    obtain reg1 r1 where m: "markExpiredIfNeeded reg r now = (reg1, r1)" by fastforce
    from mark_moves(1) [OF Some m reg_ok_id [OF Cons.prems(1) Some]] have mv: "moves reg reg1" .
    obtain reg2 rest where l: "list_pending_loop now p w ids reg1 = (reg2, rest)" by fastforce
    have "moves reg1 reg2" using Cons.IH [OF moves_ok [OF mv Cons.prems(1)] l] .
    with Cons.prems(2) Some m l mv show ?thesis by (auto intro: moves_trans)
  qed
qed simp

section \<open>Histories of the registry\<close>

datatype inv_op =
    Op_register string instant register_input
  | Op_reinvite string instant register_input
  | Op_cancel instant string string "string option"
  | Op_accept instant string instant
  | Op_get instant string
  | Op_get_jti instant string
  | Op_list instant "string option" "string option" "instant option"

fun run_op :: "inv_op \<Rightarrow> registry \<Rightarrow> registry" where
  "run_op (Op_register i c inp) reg = fst (registerInvitation i c reg inp)"
| "run_op (Op_reinvite i c inp) reg = fst (reinvite i c reg inp)"
| "run_op (Op_cancel c i a ow) reg = fst (cancelInvitation c reg i a ow)"
| "run_op (Op_accept c j now) reg = fst (acceptInvitationByTokenJti c reg j now)"
| "run_op (Op_get c i) reg = fst (getInvitationById c reg i)"
| "run_op (Op_get_jti c j) reg = fst (getInvitationByTokenJti c reg j)"
| "run_op (Op_list c p w now) reg = fst (listPendingInvitations c reg p w now)"

text \<open>The ids \<open>newId\<close> draws are new.\<close>

fun op_fresh :: "inv_op \<Rightarrow> registry \<Rightarrow> bool" where
  "op_fresh (Op_register i _ _) reg = (jm_get (invitations reg) i = None)"
| "op_fresh (Op_reinvite i _ _) reg = (jm_get (invitations reg) i = None)"
| "op_fresh _ reg = True"

inductive reachable :: "registry \<Rightarrow> bool" where
  reachable_init: "reachable resetInvitationRegistry"
| reachable_op: "reachable reg \<Longrightarrow> op_fresh op reg \<Longrightarrow> reachable (run_op op reg)"

lemma run_op_moves: "reg_ok reg \<Longrightarrow> op_fresh op reg \<Longrightarrow> moves reg (run_op op reg)"
proof (cases op)
  case (Op_get_jti c j)
  assume ok: "reg_ok reg"
  obtain reg' f where g: "getInvitationByTokenJti c reg j = (reg', f)" by fastforce
  have "moves reg reg'" using g
  proof (cases rule: get_jti_cases)
    case (2 i)
    with get_moves(1) [OF ok] show ?thesis by blast
  qed simp
  with Op_get_jti g show ?thesis by simp
qed (simp_all add: listPendingInvitations_def;
    metis accept_cases cancel_moves get_moves(1) list_moves prod.collapse register_moves reinvite_moves)+

lemma reachable_ok: "reachable reg \<Longrightarrow> reg_ok reg"
  by (induction rule: reachable.induct) (auto simp: reg_ok_empty intro: moves_ok run_op_moves)

section \<open>Properties\<close>

text \<open>
  The audit logs are complete. In every reachable registry the cancellation log lists exactly
  the cancelled invitations and the expiry log exactly the expired ones, each of them once.
\<close>

theorem invitation_logs_complete:
  assumes "reachable reg"
  shows "distinct (map xe_invitationId (listCancellationEvents reg))
    \<and> distinct (map ee_invitationId (listExpiredEvents reg))
    \<and> (\<forall>i. i \<in> set (map xe_invitationId (listCancellationEvents reg)) \<longleftrightarrow>
          map_option in_status (jm_get (invitations reg) i) = Some I_cancelled)
    \<and> (\<forall>i. i \<in> set (map ee_invitationId (listExpiredEvents reg)) \<longleftrightarrow>
          map_option in_status (jm_get (invitations reg) i) = Some I_expired)"
proof -
  have "i \<in> ids_with st (invitations reg) \<longleftrightarrow> map_option in_status (jm_get (invitations reg) i) = Some st"
    for i st by (auto simp: ids_with_def)
  with reachable_ok [OF assms] show ?thesis
    unfolding reg_ok_def listCancellationEvents_def listExpiredEvents_def by metis
qed

definition sample_invite :: register_input where
  "sample_invite = \<lparr>ri_email = ''A@b.c'', ri_tokenJti = ''j'', ri_projectId = Some ''p'',
     ri_inviterWalletAddress = Some ''GW'', ri_ttlMs = Some 10, ri_expiresAt = None, ri_now = None\<rparr>"

definition sample_reg :: registry where
  "sample_reg = run_op (Op_register ''i1'' 5 sample_invite) resetInvitationRegistry"

lemma sample_reachable: "reachable sample_reg"
  unfolding sample_reg_def
  by (rule reachable_op [OF reachable_init]) (simp add: resetInvitationRegistry_def)

theorem invitation_logs_complete_witness:
  "reachable (run_op (Op_cancel 6 ''i1'' '' GW'' None) sample_reg)
   \<and> map_option in_status (jm_get (invitations (run_op (Op_cancel 6 ''i1'' '' GW'' None) sample_reg)) ''i1'')
      = Some I_cancelled"
proof -
  have r: "reachable (run_op (Op_cancel 6 ''i1'' '' GW'' None) sample_reg)"
    by (rule reachable_op [OF sample_reachable]) simp
  have "''i1'' \<in> set (map xe_invitationId
      (listCancellationEvents (run_op (Op_cancel 6 ''i1'' '' GW'' None) sample_reg)))"
    by code_simp
  with invitation_logs_complete [OF r] r show ?thesis by blast
qed

text \<open>
  A decided invitation stays decided. Whatever operation runs on a reachable registry
  (registration and re-invitation drawing a new id), an invitation keeps its entry, and one that
  is accepted, cancelled or expired keeps it unchanged; a pending one may only change status.
\<close>

theorem invitation_decided_final:
  assumes "reachable reg" "op_fresh op reg" "jm_get (invitations reg) i = Some r"
  shows "\<exists>r'. jm_get (invitations (run_op op reg)) i = Some r'
    \<and> (in_status r \<noteq> I_pending \<longrightarrow> r' = r)
    \<and> in_id r' = in_id r \<and> in_email r' = in_email r \<and> in_tokenJti r' = in_tokenJti r
    \<and> in_inviterWalletAddress r' = in_inviterWalletAddress r \<and> in_expiresAt r' = in_expiresAt r"
  using moves_entries [OF run_op_moves [OF reachable_ok [OF assms(1)] assms(2)] reachable_ok [OF assms(1)] assms(3)]
  by (auto simp: entry_le_def)

theorem invitation_decided_final_witness:
  "\<exists>r'. jm_get (invitations (run_op (Op_accept 6 ''j'' 7) sample_reg)) ''i1'' = Some r'
     \<and> in_tokenJti r' = ''j'' \<and> in_expiresAt r' = 15"
proof -
  obtain r where r: "jm_get (invitations sample_reg) ''i1'' = Some r" "in_tokenJti r = ''j''" "in_expiresAt r = 15"
    by (auto simp: sample_reg_def registerInvitation_def sample_invite_def resetInvitationRegistry_def
        Let_def jm_get_Cons)
  from invitation_decided_final [OF sample_reachable _ r(1), of "Op_accept 6 ''j'' 7"] r show ?thesis by auto
qed

text \<open>
  (C16) Only a live invitation can be accepted. An acceptance that succeeds on a reachable registry
  concerns the invitation its token is indexed to, which was already accepted or was pending and
  not yet expired at either clock; afterwards it is stored as accepted.
\<close>

theorem accept_only_live:
  assumes "reachable reg" "acceptInvitationByTokenJti clock reg jti now = (reg', Inr rec)"
  shows "\<exists>i r. jm_get (tokenIndex reg) jti = Some i \<and> jm_get (invitations reg) i = Some r
    \<and> (in_status r = I_accepted \<or>
        in_status r = I_pending \<and> clock < in_expiresAt r \<and> now < in_expiresAt r)
    \<and> jm_get (invitations reg') i = Some rec \<and> in_status rec = I_accepted"
  using accept_cases [OF reachable_ok [OF assms(1)] assms(2)] by auto

theorem accept_only_live_witness:
  "\<exists>reg' rec i r. acceptInvitationByTokenJti 6 sample_reg ''j'' 7 = (reg', Inr rec)
    \<and> jm_get (tokenIndex sample_reg) ''j'' = Some i \<and> jm_get (invitations sample_reg) i = Some r
    \<and> in_status rec = I_accepted"
proof -
  have "case snd (acceptInvitationByTokenJti 6 sample_reg ''j'' 7) of Inl _ \<Rightarrow> False | Inr _ \<Rightarrow> True"
    by code_simp
  then have "\<exists>reg' rec. acceptInvitationByTokenJti 6 sample_reg ''j'' 7 = (reg', Inr rec)"
    by (cases "acceptInvitationByTokenJti 6 sample_reg ''j'' 7") (auto split: sum.splits)
  then obtain reg' rec where e: "acceptInvitationByTokenJti 6 sample_reg ''j'' 7 = (reg', Inr rec)" by blast
  from accept_only_live [OF sample_reachable e] e show ?thesis by blast
qed

text \<open>
  Cancellation is authorized and recorded. When a cancellation returns, the invitation either
  was already cancelled and nothing changed, or it was pending and unexpired and the trimmed actor
  is its recorded inviter or the named project owner; then one event with that actor and authority
  is appended and the invitation is stored as cancelled.
\<close>

theorem cancel_authorized:
  assumes "reachable reg" "cancelInvitation clock reg i actor owner = (reg', Inr rec)"
  shows "\<exists>r. jm_get (invitations reg) i = Some r \<and>
    (in_status r = I_cancelled \<and> rec = r \<and> reg' = reg \<or>
     in_status r = I_pending \<and> clock < in_expiresAt r \<and> trim actor \<noteq> [] \<and>
     (map_option trim (in_inviterWalletAddress r) = Some (trim actor)
        \<or> map_option trim owner = Some (trim actor)) \<and>
     jm_get (invitations reg') i = Some rec \<and> in_status rec = I_cancelled \<and>
     (\<exists>auth. cancelEvents reg' = cancelEvents reg @ [\<lparr>xe_invitationId = i, xe_email = in_email r,
         xe_projectId = in_projectId r, xe_cancelledBy = trim actor, xe_authority = auth, xe_at = clock\<rparr>]
       \<and> (auth = By_project_owner \<longleftrightarrow> map_option trim owner = Some (trim actor))))"
proof -
  obtain r where r: "jm_get (invitations reg) i = Some r"
    using assms(2) by (cases "jm_get (invitations reg) i") (auto simp: cancelInvitation_def)
  have id: "in_id r = i" using reg_ok_id [OF reachable_ok [OF assms(1)] r] .
  obtain reg1 r1 where m: "markExpiredIfNeeded reg r clock = (reg1, r1)" by fastforce
  note mm = mark_moves [OF r m id]
  have st: "in_status r1 = I_cancelled \<or> in_status r1 = I_pending"
    using assms(2) r m by (cases "in_status r1") (auto simp: cancelInvitation_def)
  then show ?thesis
  proof
    assume c: "in_status r1 = I_cancelled"
    then have "r1 = r" "reg1 = reg" using m by (auto simp: markExpiredIfNeeded_def Let_def split: if_splits)
    with c assms(2) r m show ?thesis by (auto simp: cancelInvitation_def)
  next
    assume p: "in_status r1 = I_pending"
    then have e: "r1 = r" "reg1 = reg" "clock < in_expiresAt r" using mm(4) by auto
    have a: "trim actor \<noteq> []" "\<exists>auth. cancel_authority r (trim actor) owner = Inr auth"
      using assms(2) r m p e by (auto simp: cancelInvitation_def Let_def split: if_splits sum.splits)
    then obtain auth where auth: "cancel_authority r (trim actor) owner = Inr auth" by blast
    have who: "map_option trim (in_inviterWalletAddress r) = Some (trim actor) \<or> map_option trim owner = Some (trim actor)"
      "auth = By_project_owner \<longleftrightarrow> map_option trim owner = Some (trim actor)"
      using auth a(1) by (cases "in_inviterWalletAddress r"; cases owner;
          auto simp: cancel_authority_def Let_def split: if_splits)+
    with assms(2) r m p e a(1) auth id show ?thesis by (auto simp: cancelInvitation_def Let_def)
  qed
qed

theorem cancel_authorized_witness:
  "\<exists>reg' rec. cancelInvitation 6 sample_reg ''i1'' '' GW'' None = (reg', Inr rec) \<and> in_status rec = I_cancelled"
proof -
  have "case snd (cancelInvitation 6 sample_reg ''i1'' '' GW'' None) of Inl _ \<Rightarrow> False | Inr _ \<Rightarrow> True"
    by code_simp
  then have "\<exists>reg' rec. cancelInvitation 6 sample_reg ''i1'' '' GW'' None = (reg', Inr rec)"
    by (cases "cancelInvitation 6 sample_reg ''i1'' '' GW'' None") (auto split: sum.splits)
  then obtain reg' rec where e: "cancelInvitation 6 sample_reg ''i1'' '' GW'' None = (reg', Inr rec)" by blast
  from cancel_authorized [OF sample_reachable e] e show ?thesis by auto
qed

text \<open>
  Re-inviting: a pending invitation of the same person by another inviter makes the call fail
  instead of being replaced, and without an inviter the old invitation stays pending beside the
  new one.
\<close>

lemma reinvite_other_inviter_fails:
  "snd (reinvite ''i2'' 6 sample_reg (sample_invite\<lparr>ri_inviterWalletAddress := Some ''GX'', ri_tokenJti := ''k''\<rparr>))
     = Inl (ApiError ''forbidden_not_inviter'' 403)"
  by code_simp

lemma reinvite_without_inviter_keeps_both:
  "map in_status (jm_values (invitations (fst
     (reinvite ''i2'' 6 sample_reg (sample_invite\<lparr>ri_inviterWalletAddress := None, ri_tokenJti := ''k''\<rparr>)))))
     = [I_pending, I_pending]"
  by code_simp

end
