(* ===== verification/Idempotency.thy ===== *)
theory Idempotency
  imports Js_Text Js_Map
begin

text \<open>
  The idempotency contract: the store (\<open>backend/src/services/idempotency.ts\<close>) and the middleware
  (\<open>backend/src/middleware/idempotency.ts\<close>). The SHA-256 hash is a parameter, as is
  \<open>JSON.stringify\<close> of a primitive. A request that the middleware lets through leaves a closure behind,
  which its \<open>res.json\<close> and the close of its response use later; requests interleave freely, so the
  middleware is a step function on the store and the closures.
\<close>

section \<open>The store\<close>

datatype idem_status = In_progress | Completed

record 'b StoredEntry =
  se_requestHash :: string
  se_status :: idem_status
  se_statusCode :: "int option"
  se_body :: "'b option"
  se_expiresAt :: instant

record 'b IdempotencyStore =
  is_ttlMs :: int
  is_entries :: "(string, 'b StoredEntry) jmap"

definition buildKey :: "string \<Rightarrow> string \<Rightarrow> string" where
  "buildKey scope key = scope @ ''::'' @ key"

definition idem_get :: "instant \<Rightarrow> 'b IdempotencyStore \<Rightarrow> string \<Rightarrow> string
     \<Rightarrow> 'b IdempotencyStore \<times> 'b StoredEntry option" where
  "idem_get now store scope key =
     (let storeKey = buildKey scope key in
      case jm_get (is_entries store) storeKey of
        None \<Rightarrow> (store, None)
      | Some entry \<Rightarrow>
        if se_expiresAt entry \<le> now
        then (store\<lparr>is_entries := jm_delete (is_entries store) storeKey\<rparr>, None)
        else (store, Some entry))"

definition markInProgress :: "instant \<Rightarrow> 'b IdempotencyStore \<Rightarrow> string \<Rightarrow> string \<Rightarrow> string
     \<Rightarrow> 'b IdempotencyStore" where
  "markInProgress now store scope key requestHash =
     store\<lparr>is_entries := jm_set (is_entries store) (buildKey scope key)
       \<lparr>se_requestHash = requestHash, se_status = In_progress, se_statusCode = None, se_body = None,
        se_expiresAt = now + is_ttlMs store\<rparr>\<rparr>"

definition idem_complete :: "instant \<Rightarrow> 'b IdempotencyStore \<Rightarrow> string \<Rightarrow> string \<Rightarrow> string \<Rightarrow> int \<Rightarrow> 'b
     \<Rightarrow> 'b IdempotencyStore" where
  "idem_complete now store scope key requestHash statusCode body =
     store\<lparr>is_entries := jm_set (is_entries store) (buildKey scope key)
       \<lparr>se_requestHash = requestHash, se_status = Completed, se_statusCode = Some statusCode,
        se_body = Some body, se_expiresAt = now + is_ttlMs store\<rparr>\<rparr>"

definition idem_remove :: "'b IdempotencyStore \<Rightarrow> string \<Rightarrow> string \<Rightarrow> 'b IdempotencyStore" where
  "idem_remove store scope key =
     store\<lparr>is_entries := jm_delete (is_entries store) (buildKey scope key)\<rparr>"

definition idem_clear :: "'b IdempotencyStore \<Rightarrow> 'b IdempotencyStore" where
  "idem_clear store = store\<lparr>is_entries := []\<rparr>"

section \<open>The request hash\<close>

text \<open>JSON values; an object has its keys in some order, without repetition.\<close>

datatype json = J_prim string | J_array "json list" | J_object "(string \<times> json) list"

fun insert_key :: "string \<times> 'a \<Rightarrow> (string \<times> 'a) list \<Rightarrow> (string \<times> 'a) list" where
  "insert_key p [] = [p]"
| "insert_key p (q # qs) = (if fst p \<le> fst q then p # q # qs else q # insert_key p qs)"

fun sort_keys :: "(string \<times> 'a) list \<Rightarrow> (string \<times> 'a) list" where
  "sort_keys [] = []"
| "sort_keys (p # ps) = insert_key p (sort_keys ps)"

text \<open>\<open>quote\<close> is \<open>JSON.stringify\<close> of a key; a primitive carries its own JSON text.\<close>

fun stableStringify :: "(string \<Rightarrow> string) \<Rightarrow> json \<Rightarrow> string" where
  "stableStringify quote (J_prim s) = s"
| "stableStringify quote (J_array vs) = ''['' @ join '','' (map (stableStringify quote) vs) @ '']''"
| "stableStringify quote (J_object kvs) =
     ''{'' @ join '',''
       (map (\<lambda>(k, s). quote k @ '':'' @ s) (sort_keys (map (\<lambda>(k, v). (k, stableStringify quote v)) kvs)))
     @ ''}''"

definition hashRequest :: "(string \<Rightarrow> string) \<Rightarrow> (string \<Rightarrow> string) \<Rightarrow> string \<Rightarrow> string \<Rightarrow> json \<Rightarrow> string" where
  "hashRequest sha256 quote httpMethod originalUrl body =
     sha256 (httpMethod @ '':'' @ originalUrl @ '':'' @ stableStringify quote body)"

section \<open>The middleware\<close>

definition MAX_KEY_LENGTH :: nat where
  "MAX_KEY_LENGTH = 255"

definition key_char :: "char \<Rightarrow> bool" where
  "key_char c = (is_letter c \<or> is_digit c \<or> c = CHR ''_'' \<or> c = CHR ''.'' \<or> c = CHR '':'' \<or> c = CHR ''-'')"

definition KEY_PATTERN :: "string \<Rightarrow> bool" where
  "KEY_PATTERN s = (s \<noteq> [] \<and> list_all key_char s)"

datatype 'b idem_outcome =
    Next_unguarded
  | Next_validation_error
  | Conflict_payload_mismatch
  | Conflict_in_flight
  | Replayed int "'b option"
  | Run_handler
  | Settled

definition idempotency_request ::
  "instant \<Rightarrow> 'b IdempotencyStore \<Rightarrow> string option \<Rightarrow> string \<Rightarrow> string
     \<Rightarrow> 'b IdempotencyStore \<times> 'b idem_outcome" where
  "idempotency_request now store rawKey scope requestHash =
     (if (case rawKey of None \<Rightarrow> True | Some r \<Rightarrow> r = []) then (store, Next_unguarded)
      else let key = trim (default_to [] rawKey) in
        if length key = 0 \<or> length key > MAX_KEY_LENGTH \<or> \<not> KEY_PATTERN key
        then (store, Next_validation_error)
        else case idem_get now store scope key of
            (store1, Some existing) \<Rightarrow>
              if se_requestHash existing \<noteq> requestHash then (store1, Conflict_payload_mismatch)
              else if se_status existing = In_progress then (store1, Conflict_in_flight)
              else (store1, Replayed (default_to 200 (se_statusCode existing)) (se_body existing))
          | (store1, None) \<Rightarrow> (markInProgress now store1 scope key requestHash, Run_handler))"

text \<open>\<open>res.json\<close> of a request that ran, and the \<open>close\<close> event when it never answered.\<close>

definition idempotency_json ::
  "instant \<Rightarrow> 'b IdempotencyStore \<Rightarrow> string \<Rightarrow> string \<Rightarrow> string \<Rightarrow> int \<Rightarrow> 'b \<Rightarrow> 'b IdempotencyStore" where
  "idempotency_json now store scope key requestHash statusCode body =
     (if statusCode \<ge> 200 \<and> statusCode < 300
      then idem_complete now store scope key requestHash statusCode body
      else idem_remove store scope key)"

definition idempotency_close :: "bool \<Rightarrow> 'b IdempotencyStore \<Rightarrow> string \<Rightarrow> string \<Rightarrow> 'b IdempotencyStore" where
  "idempotency_close settled store scope key = (if \<not> settled then idem_remove store scope key else store)"

text \<open>
  The closure of a request that ran its handler: what \<open>res.json\<close> and the close listener use of it, the
  flag \<open>settled\<close>, and whether the response has closed (which it does once). A handler may go on and
  answer after its response has closed.
\<close>

record open_request =
  or_scope :: string
  or_key :: string
  or_requestHash :: string
  or_settled :: bool
  or_closed :: bool

record 'b idem_world =
  iw_store :: "'b IdempotencyStore"
  iw_requests :: "open_request list"

text \<open>A request arrives; the handler of the \<open>i\<close>-th request that ran calls \<open>res.json\<close>; its response closes.\<close>

datatype 'b idem_event =
    Ev_request instant "string option" string string
  | Ev_json nat instant int 'b
  | Ev_close nat

fun idem_step :: "'b idem_world \<Rightarrow> 'b idem_event \<Rightarrow> 'b idem_world \<times> 'b idem_outcome" where
  "idem_step w (Ev_request now rawKey scope h) =
     (let (store, outcome) = idempotency_request now (iw_store w) rawKey scope h
      in (w\<lparr>iw_store := store,
           iw_requests := (if outcome = Run_handler
             then iw_requests w @ [\<lparr>or_scope = scope, or_key = trim (default_to [] rawKey), or_requestHash = h,
               or_settled = False, or_closed = False\<rparr>]
             else iw_requests w)\<rparr>, outcome))"
| "idem_step w (Ev_json i now code body) =
     (if i < length (iw_requests w)
      then let r = iw_requests w ! i in
        (w\<lparr>iw_store := idempotency_json now (iw_store w) (or_scope r) (or_key r) (or_requestHash r) code body,
           iw_requests := (iw_requests w)[i := r\<lparr>or_settled := True\<rparr>]\<rparr>, Settled)
      else (w, Settled))"
| "idem_step w (Ev_close i) =
     (if i < length (iw_requests w) \<and> \<not> or_closed (iw_requests w ! i)
      then let r = iw_requests w ! i in
        (w\<lparr>iw_store := idempotency_close (or_settled r) (iw_store w) (or_scope r) (or_key r),
           iw_requests := (iw_requests w)[i := r\<lparr>or_closed := True\<rparr>]\<rparr>, Settled)
      else (w, Settled))"

fun idem_run :: "'b idem_world \<Rightarrow> 'b idem_event list \<Rightarrow> 'b idem_world \<times> 'b idem_outcome list" where
  "idem_run w [] = (w, [])"
| "idem_run w (e # es) =
     (let (w1, o1) = idem_step w e; (w2, os) = idem_run w1 es in (w2, o1 # os))"

section \<open>Lemmas\<close>

abbreviation or_storeKey :: "open_request \<Rightarrow> string" where
  "or_storeKey r \<equiv> buildKey (or_scope r) (or_key r)"

text \<open>The requests that ran on a store key, and those of them that neither answered nor closed.\<close>

definition key_requests :: "string \<Rightarrow> 'b idem_world \<Rightarrow> nat set" where
  "key_requests K w = {j. j < length (iw_requests w) \<and> or_storeKey (iw_requests w ! j) = K}"

definition open_requests :: "string \<Rightarrow> 'b idem_world \<Rightarrow> nat set" where
  "open_requests K w = {j \<in> key_requests K w. \<not> or_settled (iw_requests w ! j) \<and> \<not> or_closed (iw_requests w ! j)}"

text \<open>
  The events that concern the life of an entry only by the rules of the contract: requests on the key
  come before it expires, and neither an answer of one of the requests \<open>J\<close> nor a close of one of the
  requests \<open>C\<close> is among them. Everything about other keys is free.
\<close>

fun meanwhile :: "string \<Rightarrow> instant \<Rightarrow> nat set \<Rightarrow> nat set \<Rightarrow> 'b idem_event \<Rightarrow> bool" where
  "meanwhile K expiry J C (Ev_request now rawKey scope _) = (now < expiry \<or> buildKey scope (trim (default_to [] rawKey)) \<noteq> K)"
| "meanwhile K expiry J C (Ev_json j _ _ _) = (j \<notin> J)"
| "meanwhile K expiry J C (Ev_close j) = (j \<notin> C)"

text \<open>What a live entry answers to a guarded request with a hash.\<close>

definition answer :: "'b StoredEntry \<Rightarrow> string \<Rightarrow> 'b idem_outcome" where
  "answer e h = (if se_requestHash e \<noteq> h then Conflict_payload_mismatch
     else if se_status e = In_progress then Conflict_in_flight
     else Replayed (default_to 200 (se_statusCode e)) (se_body e))"

definition guarded :: "string option \<Rightarrow> bool" where
  "guarded rawKey \<longleftrightarrow> (\<exists>r. rawKey = Some r \<and> r \<noteq> [] \<and> trim r \<noteq> []
     \<and> length (trim r) \<le> MAX_KEY_LENGTH \<and> KEY_PATTERN (trim r))"

lemma request_unguarded:
  "\<not> guarded rawKey \<Longrightarrow> \<exists>o1. idempotency_request now store rawKey scope h = (store, o1)
     \<and> (o1 = Next_unguarded \<or> o1 = Next_validation_error)"
  by (auto simp: idempotency_request_def guarded_def Let_def split: option.splits)

lemma request_guarded:
  "guarded rawKey \<Longrightarrow> idempotency_request now store rawKey scope h =
     (case idem_get now store scope (trim (default_to [] rawKey)) of
        (store1, Some e) \<Rightarrow> (store1, answer e h)
      | (store1, None) \<Rightarrow> (markInProgress now store1 scope (trim (default_to [] rawKey)) h, Run_handler))"
  by (auto simp: idempotency_request_def guarded_def answer_def Let_def split: option.splits prod.splits)

lemma get_other:
  "K \<noteq> buildKey scope key \<Longrightarrow> jm_get (is_entries (fst (idem_get now store scope key))) K = jm_get (is_entries store) K"
  by (auto simp: idem_get_def Let_def split: option.splits)

lemma get_live:
  "jm_get (is_entries store) (buildKey scope key) = Some e \<Longrightarrow> now < se_expiresAt e \<Longrightarrow>
     idem_get now store scope key = (store, Some e)"
  by (simp add: idem_get_def)

lemma request_other:
  assumes "buildKey scope (trim (default_to [] rawKey)) \<noteq> K" "idempotency_request now store rawKey scope h = (store', o1)"
  shows "jm_get (is_entries store') K = jm_get (is_entries store) K"
proof (cases "guarded rawKey")
  case False
  with request_unguarded [OF False, of now store scope h] assms(2) show ?thesis by auto
next
  case True
  obtain s1 o2 where g: "idem_get now store scope (trim (default_to [] rawKey)) = (s1, o2)" by fastforce
  have "jm_get (is_entries s1) K = jm_get (is_entries store) K"
    using get_other [of K scope "trim (default_to [] rawKey)" now store] assms(1) g by auto
  with assms True g show ?thesis by (cases o2) (auto simp: request_guarded markInProgress_def)
qed

lemma request_live:
  assumes "jm_get (is_entries store) K = Some en" "now < se_expiresAt en"
    "buildKey scope (trim (default_to [] rawKey)) = K" "idempotency_request now store rawKey scope h = (store', o1)"
  shows "store' = store" "guarded rawKey \<Longrightarrow> o1 = answer en h" "o1 \<noteq> Run_handler"
proof -
  have "idem_get now store scope (trim (default_to [] rawKey)) = (store, Some en)" using assms by (simp add: get_live)
  then have g: "guarded rawKey \<Longrightarrow> (store', o1) = (store, answer en h)" using assms(4) by (simp add: request_guarded)
  moreover have "\<not> guarded rawKey \<Longrightarrow> store' = store \<and> o1 \<noteq> Run_handler"
    using request_unguarded [of rawKey now store scope h] assms(4) by auto
  ultimately show "store' = store" "guarded rawKey \<Longrightarrow> o1 = answer en h" "o1 \<noteq> Run_handler"
    by (cases "guarded rawKey"; auto simp: answer_def split: if_splits)+
qed

lemma request_ttl: "idempotency_request now store rawKey scope h = (store', o1) \<Longrightarrow> is_ttlMs store' = is_ttlMs store"
  by (auto simp: idempotency_request_def idem_get_def markInProgress_def Let_def split: option.splits if_splits)

lemma settle_other:
  "buildKey scope key \<noteq> K \<Longrightarrow> jm_get (is_entries (idempotency_json now store scope key h code body)) K = jm_get (is_entries store) K"
  "buildKey scope key \<noteq> K \<Longrightarrow> jm_get (is_entries (idempotency_close settled store scope key)) K = jm_get (is_entries store) K"
  by (auto simp: idempotency_json_def idempotency_close_def idem_complete_def idem_remove_def)

lemma settle_ttl:
  "is_ttlMs (idempotency_json now store scope key h code body) = is_ttlMs store"
  "is_ttlMs (idempotency_close settled store scope key) = is_ttlMs store"
  by (auto simp: idempotency_json_def idempotency_close_def idem_complete_def idem_remove_def)

text \<open>What a step may do to the requests that ran before it: only their two flags change.\<close>

definition same_closures :: "'b idem_world \<Rightarrow> 'b idem_world \<Rightarrow> bool" where
  "same_closures w w' =
     (is_ttlMs (iw_store w') = is_ttlMs (iw_store w) \<and> length (iw_requests w) \<le> length (iw_requests w')
      \<and> (\<forall>j < length (iw_requests w). or_scope (iw_requests w' ! j) = or_scope (iw_requests w ! j)
           \<and> or_key (iw_requests w' ! j) = or_key (iw_requests w ! j)
           \<and> or_requestHash (iw_requests w' ! j) = or_requestHash (iw_requests w ! j)))"

lemma step_requests:
  assumes "idem_step w e = (w', o1)"
  shows "same_closures w w'"
proof (cases e)
  case (Ev_request now rawKey scope h)
  obtain st o2 where r: "idempotency_request now (iw_store w) rawKey scope h = (st, o2)" by fastforce
  from request_ttl [OF this] r assms Ev_request show ?thesis
    by (auto simp: same_closures_def nth_append split: if_splits)
qed (use assms in \<open>auto simp: same_closures_def Let_def nth_list_update settle_ttl split: if_splits\<close>)

text \<open>A live entry survives, and answers, whatever happens meanwhile.\<close>

lemma step_live:
  assumes en: "jm_get (is_entries (iw_store w)) K = Some en" and step: "idem_step w e = (w', o1)"
    and calm: "meanwhile K (se_expiresAt en) J C e" and J: "key_requests K w \<subseteq> J" "open_requests K w \<subseteq> C"
  shows "jm_get (is_entries (iw_store w')) K = Some en"
    "key_requests K w' = key_requests K w" "open_requests K w' \<subseteq> open_requests K w"
proof -
  have "jm_get (is_entries (iw_store w')) K = Some en \<and> key_requests K w' = key_requests K w \<and> open_requests K w' \<subseteq> open_requests K w"
  proof (cases e)
    case (Ev_request now rawKey scope h)
    obtain st o2 where r: "idempotency_request now (iw_store w) rawKey scope h = (st, o2)" by fastforce
    show ?thesis
    proof (cases "buildKey scope (trim (default_to [] rawKey)) = K")
      case True
      then have "now < se_expiresAt en" using calm Ev_request by simp
      note request_live [OF en this True r]
      with r en step Ev_request show ?thesis by auto
    next
      case False
      with request_other [OF False r] en r step Ev_request show ?thesis
        by (auto simp: key_requests_def open_requests_def nth_append split: if_splits)
    qed
  next
    case (Ev_json i now code body)
    then have "i \<notin> key_requests K w" using calm J(1) by auto
    then show ?thesis using Ev_json step en
      by (auto simp: key_requests_def open_requests_def Let_def settle_other nth_list_update split: if_splits)
  next
    case (Ev_close i)
    then have "i \<notin> open_requests K w" using calm J(2) by auto
    then show ?thesis using Ev_close step en
      by (auto simp: key_requests_def open_requests_def Let_def settle_other idempotency_close_def idem_remove_def nth_list_update split: if_splits)
  qed
  then show "jm_get (is_entries (iw_store w')) K = Some en"
    "key_requests K w' = key_requests K w" "open_requests K w' \<subseteq> open_requests K w" by auto
qed

lemma step_answers:
  assumes "jm_get (is_entries (iw_store w)) K = Some en" "now < se_expiresAt en" "guarded rawKey"
    "buildKey scope (trim (default_to [] rawKey)) = K"
  shows "snd (idem_step w (Ev_request now rawKey scope h)) = answer en h"
  using request_live(2) [OF assms(1,2,4) prod.collapse [symmetric]] assms(3) by (simp add: case_prod_beta)

text \<open>The requests of a history that are guarded by the key are answered by \<open>f\<close> of their hash.\<close>

definition key_answers :: "string \<Rightarrow> (string \<Rightarrow> 'b idem_outcome) \<Rightarrow> 'b idem_event list \<Rightarrow> 'b idem_outcome list \<Rightarrow> bool" where
  "key_answers K f = list_all2 (\<lambda>e o1. case e of
      Ev_request now rawKey scope h \<Rightarrow> guarded rawKey \<and> buildKey scope (trim (default_to [] rawKey)) = K \<longrightarrow> o1 = f h
    | _ \<Rightarrow> True)"

lemma run_live:
  assumes "jm_get (is_entries (iw_store w)) K = Some en" "idem_run w es = (w', os)"
    "list_all (meanwhile K (se_expiresAt en) J C) es" "key_requests K w \<subseteq> J" "open_requests K w \<subseteq> C"
  shows "key_answers K (answer en) es os \<and> jm_get (is_entries (iw_store w')) K = Some en
    \<and> key_requests K w' = key_requests K w \<and> open_requests K w' \<subseteq> open_requests K w"
  using assms
proof (induction es arbitrary: w os)
  case Nil
  then show ?case by (simp add: key_answers_def)
next
  case (Cons e es)
  obtain w1 o1 where st: "idem_step w e = (w1, o1)" by fastforce
  obtain os1 where run: "idem_run w1 es = (w', os1)" "os = o1 # os1" using Cons.prems(2) st by (auto split: prod.splits)
  have calm: "meanwhile K (se_expiresAt en) J C e" "list_all (meanwhile K (se_expiresAt en) J C) es" using Cons.prems(3) by simp_all
  note live = step_live [OF Cons.prems(1) st calm(1) Cons.prems(4,5)]
  have "key_answers K (answer en) es os1 \<and> jm_get (is_entries (iw_store w')) K = Some en
    \<and> key_requests K w' = key_requests K w1 \<and> open_requests K w' \<subseteq> open_requests K w1"
    using live Cons.prems(4,5) by (intro Cons.IH [OF live(1) run(1) calm(2)]) auto
  moreover have "o1 = answer en h" if "e = Ev_request now rawKey scope h" "guarded rawKey"
    "buildKey scope (trim (default_to [] rawKey)) = K" for now rawKey scope h
    using step_answers [OF Cons.prems(1), of now rawKey scope h] that st calm(1) by simp
  ultimately show ?case using live run(2) unfolding key_answers_def by (auto split: idem_event.split)
qed

lemma same_closures_trans: "same_closures w w' \<Longrightarrow> same_closures w' w'' \<Longrightarrow> same_closures w w''"
  by (auto simp: same_closures_def)

lemma run_requests:
  assumes "idem_run w es = (w', os)"
  shows "same_closures w w'"
  using assms
proof (induction es arbitrary: w os)
  case Nil
  then show ?case by (simp add: same_closures_def)
next
  case (Cons e es)
  obtain w1 o1 where st: "idem_step w e = (w1, o1)" by fastforce
  obtain os1 where "idem_run w1 es = (w', os1)" using Cons.prems st by (auto split: prod.splits)
  with Cons.IH [OF this] step_requests [OF st] show ?case by (blast intro: same_closures_trans)
qed

lemma set_sort_keys [simp]: "set (sort_keys ps) = set ps"
proof -
  have "set (insert_key p qs) = insert p (set qs)" for p :: "string \<times> 'a" and qs by (induction qs) auto
  then show ?thesis by (induction ps) auto
qed

lemma insert_key_comm:
  "fst p \<noteq> fst q \<Longrightarrow> insert_key p (insert_key q rs) = insert_key q (insert_key p rs)"
  by (induction rs) auto

lemma sort_keys_perm:
  assumes "mset ps = mset qs" "distinct (map fst ps)"
  shows "sort_keys ps = sort_keys qs"
  using assms
proof (induction ps arbitrary: qs)
  case (Cons p ps)
  then have "p \<in> set qs" by (metis list.set_intros(1) mset_eq_setD)
  then obtain as bs where qs: "qs = as @ p # bs" by (meson split_list)
  with Cons.prems have "mset ps = mset (as @ bs)" by simp
  with Cons have IH: "sort_keys ps = sort_keys (as @ bs)" by simp
  have "p' \<in> set as \<Longrightarrow> fst p' \<noteq> fst p" for p'
    using Cons.prems \<open>mset ps = mset (as @ bs)\<close> by (metis Un_iff distinct.simps(2) image_eqI list.simps(9)
        list.set_map mset_eq_setD set_append)
  then have "insert_key p (sort_keys (as @ bs)) = sort_keys (as @ p # bs)"
  proof (induction as)
    case (Cons a as)
    have "fst p \<noteq> fst a" using Cons.prems [of a] by simp
    moreover have "insert_key p (sort_keys (as @ bs)) = sort_keys (as @ p # bs)"
      by (rule Cons.IH) (use Cons.prems in simp)
    ultimately show ?case by (simp add: insert_key_comm [of p a])
  qed simp
  with IH qs show ?case by simp
qed simp

text \<open>Two JSON values that differ only in the order of object keys, at any depth.\<close>

inductive json_perm :: "json \<Rightarrow> json \<Rightarrow> bool" where
  perm_prim: "json_perm (J_prim s) (J_prim s)"
| perm_array: "list_all2 json_perm vs ws \<Longrightarrow> json_perm (J_array vs) (J_array ws)"
| perm_object: "\<lbrakk>list_all2 (\<lambda>p q. fst p = fst q \<and> json_perm (snd p) (snd q)) kvs lws;
     mset lws = mset kws; distinct (map fst kvs)\<rbrakk> \<Longrightarrow> json_perm (J_object kvs) (J_object kws)"

lemma stableStringify_perm: "json_perm a b \<Longrightarrow> stableStringify quote a = stableStringify quote b"
proof (induction rule: json_perm.induct)
  case (perm_array vs ws)
  then have "map (stableStringify quote) vs = map (stableStringify quote) ws"
    by (induction rule: list_all2_induct) auto
  then show ?case by simp
next
  case (perm_object kvs lws kws)
  let ?f = "\<lambda>(k, v). (k, stableStringify quote v)"
  have eq: "map ?f kvs = map ?f lws" and keys: "map fst kvs = map fst lws"
    using perm_object(1) by (induction rule: list_all2_induct) auto
  have "map fst (map ?f lws) = map fst lws" by (induction lws) auto
  with perm_object(3) keys have "distinct (map fst (map ?f lws))" by metis
  moreover have "mset (map ?f lws) = mset (map ?f kws)" using perm_object(2) by (metis mset_map)
  ultimately have "sort_keys (map ?f lws) = sort_keys (map ?f kws)" by (rule_tac sort_keys_perm)
  with eq show ?case by simp
qed simp

section \<open>Properties\<close>

text \<open>
  (C7) At most once, then replay. Say a guarded request with a key ran its handler at time \<open>t0\<close>. While
  no request that ran on that key answers or closes, every further guarded request with the key before
  the entry expires is refused with a conflict and none runs, however requests with other keys come,
  answer and close. Once the handler has answered with a 2xx at \<open>t1\<close>, its response may close at any
  time: until \<open>t1\<close> plus the lifetime a request with the same payload is answered with exactly that status
  and body and one with another payload is refused; still none runs. (The second part leaves out second
  answers on the key and the close of an older request on it that never answered; what a close before
  the answer does is \<open>disconnect_frees_key\<close>.)
\<close>

theorem idempotency_at_most_once:
  assumes run: "idem_step w (Ev_request t0 rawKey scope h) = (w1, Run_handler)"
    and K: "K = buildKey scope (trim (default_to [] rawKey))" and i: "i = length (iw_requests w)"
    and es: "list_all (meanwhile K (t0 + is_ttlMs (iw_store w)) (key_requests K w1) (open_requests K w1)) es"
    and r1: "idem_run w1 es = (w2, os)"
    and ok: "200 \<le> code" "code < 300" and w3: "w3 = fst (idem_step w2 (Ev_json i t1 code body))"
    and es': "list_all (meanwhile K (t1 + is_ttlMs (iw_store w)) (key_requests K w3) (open_requests K w3 - {i})) es'"
    and r2: "idem_run w3 es' = (w4, os')"
  shows "key_answers K (\<lambda>h'. if h' = h then Conflict_in_flight else Conflict_payload_mismatch) es os
    \<and> key_answers K (\<lambda>h'. if h' = h then Replayed code (Some body) else Conflict_payload_mismatch) es' os'"
proof -
  let ?k = "trim (default_to [] rawKey)"
  obtain st where rq: "idempotency_request t0 (iw_store w) rawKey scope h = (st, Run_handler)"
    and w1: "iw_store w1 = st" "length (iw_requests w1) = Suc i" "or_scope (iw_requests w1 ! i) = scope"
      "or_key (iw_requests w1 ! i) = ?k" "or_requestHash (iw_requests w1 ! i) = h"
    using run i by (auto split: prod.splits if_splits)
  have g: "guarded rawKey" using rq request_unguarded [of rawKey t0 "iw_store w" scope h] by (cases "guarded rawKey") auto
  obtain s1 where get: "idem_get t0 (iw_store w) scope ?k = (s1, None)" "st = markInProgress t0 s1 scope ?k h"
    using rq g by (auto simp: request_guarded answer_def split: prod.splits option.splits if_splits)
  have ttl: "is_ttlMs s1 = is_ttlMs (iw_store w)" "is_ttlMs st = is_ttlMs (iw_store w)"
    using get(1) request_ttl [OF rq] by (auto simp: idem_get_def Let_def split: option.splits if_splits)
  define e1 :: "'a StoredEntry" where "e1 = \<lparr>se_requestHash = h, se_status = In_progress, se_statusCode = None,
      se_body = None, se_expiresAt = t0 + is_ttlMs (iw_store w)\<rparr>"
  define e2 :: "'a StoredEntry" where "e2 = \<lparr>se_requestHash = h, se_status = Completed, se_statusCode = Some code,
      se_body = Some body, se_expiresAt = t1 + is_ttlMs (iw_store w)\<rparr>"
  have 1: "jm_get (is_entries (iw_store w1)) K = Some e1"
    using get(2) ttl K w1(1) by (simp add: markInProgress_def e1_def)
  have w2: "same_closures w1 w2" by (rule run_requests [OF r1])
  then have i2: "i < length (iw_requests w2)" "or_scope (iw_requests w2 ! i) = scope" "or_key (iw_requests w2 ! i) = ?k"
    "or_requestHash (iw_requests w2 ! i) = h" "is_ttlMs (iw_store w2) = is_ttlMs (iw_store w)"
    using w1 ttl by (auto simp: same_closures_def)
  have 2: "jm_get (is_entries (iw_store w3)) K = Some e2"
    using w3 ok K i2 by (simp add: idempotency_json_def idem_complete_def e2_def Let_def)
  have settled: "i \<notin> open_requests K w3" using w3 i2(1) by (simp add: open_requests_def Let_def)
  have a1: "answer e1 = (\<lambda>h'. if h' = h then Conflict_in_flight else Conflict_payload_mismatch)"
    and a2: "answer e2 = (\<lambda>h'. if h' = h then Replayed code (Some body) else Conflict_payload_mismatch)"
    by (auto simp: answer_def e1_def e2_def)
  have x: "se_expiresAt e1 = t0 + is_ttlMs (iw_store w)" "se_expiresAt e2 = t1 + is_ttlMs (iw_store w)"
    by (simp_all add: e1_def e2_def)
  show ?thesis
    using run_live [OF 1 r1, unfolded x a1, OF es order_refl order_refl]
      run_live [OF 2 r2, unfolded x a2, OF es' order_refl] settled by blast
qed

definition sample_idem :: "nat idem_world" where
  "sample_idem = \<lparr>iw_store = \<lparr>is_ttlMs = 100, is_entries = []\<rparr>, iw_requests = []\<rparr>"

definition sample_request :: "instant \<Rightarrow> string \<Rightarrow> nat idem_event" where
  "sample_request t h = Ev_request t (Some '' k1'') ''POST:/splits'' h"

definition sample_history :: "nat idem_event list" where
  "sample_history = [Ev_close 0, sample_request 9 ''h1'', sample_request 10 ''h2'']"

lemma sample_guarded: "guarded (Some '' k1'')"
proof -
  have "'' k1'' \<noteq> [] \<and> trim '' k1'' \<noteq> [] \<and> length (trim '' k1'') \<le> MAX_KEY_LENGTH \<and> KEY_PATTERN (trim '' k1'')"
    by code_simp
  then show ?thesis by (simp add: guarded_def)
qed

text \<open>The request runs, answers 201, its response closes, and two retries follow.\<close>

theorem idempotency_at_most_once_witness:
  "snd (idem_step sample_idem (sample_request 5 ''h1'')) = Run_handler
   \<and> snd (idem_run (fst (idem_step (fst (idem_step sample_idem (sample_request 5 ''h1''))) (Ev_json 0 8 201 7))) sample_history)
      = [Settled, Replayed 201 (Some 7), Conflict_payload_mismatch]"
proof -
  let ?w1 = "fst (idem_step sample_idem (sample_request 5 ''h1''))"
  let ?w3 = "fst (idem_step ?w1 (Ev_json 0 8 201 7))"
  let ?K = "buildKey ''POST:/splits'' ''k1''"
  have k: "trim '' k1'' = ''k1''" by code_simp
  have run: "snd (idem_step sample_idem (sample_request 5 ''h1'')) = Run_handler"
    "is_ttlMs (iw_store sample_idem) = 100" "length (iw_requests sample_idem) = 0" "length (iw_requests ?w3) = 1" by code_simp+
  have open_only: "open_requests ?K ?w3 - {0} = {}" using run(4) by (auto simp: open_requests_def key_requests_def)
  have es': "list_all (meanwhile ?K (8 + is_ttlMs (iw_store sample_idem)) (key_requests ?K ?w3) (open_requests ?K ?w3 - {0})) sample_history"
    unfolding open_only using run(2) by (simp add: sample_history_def sample_request_def)
  obtain w4 os' where r2: "idem_run ?w3 sample_history = (w4, os')" by fastforce
  have ans: "key_answers ?K (\<lambda>h'. if h' = ''h1'' then Replayed 201 (Some 7) else Conflict_payload_mismatch) sample_history os'"
    using idempotency_at_most_once [of sample_idem 5 "Some '' k1''" "''POST:/splits''" "''h1''" ?w1 ?K 0 "[]" ?w1 "[]" 201 ?w3 8 7
        sample_history w4 os'] run(1,3) es' r2 k
    by (simp only: sample_request_def [symmetric] list.pred_inject(1) idem_run.simps(1)) (simp add: prod_eq_iff)
  then obtain o1 o2 o3 where os': "os' = [o1, o2, o3]"
    by (auto simp: key_answers_def sample_history_def list_all2_Cons1)
  have "o2 = Replayed 201 (Some 7)" "o3 = Conflict_payload_mismatch"
    using ans sample_guarded k unfolding os' by (simp_all add: key_answers_def sample_history_def sample_request_def)
  moreover have "o1 = Settled"
  proof -
    have "snd (idem_step ?w3 (Ev_close 0)) = Settled" by (simp add: Let_def)
    then show ?thesis using r2 os' unfolding sample_history_def idem_run.simps by (auto simp: case_prod_beta Let_def simp del: idem_step.simps)
  qed
  ultimately show ?thesis using run(1) r2 os' by simp
qed

text \<open>
  A client that disconnects before the answer frees the key while the handler goes on: the retry runs
  the handler a second time, and the late answer of the first replaces the entry of the second.
\<close>

lemma disconnect_frees_key:
  "snd (idem_run sample_idem [sample_request 5 ''h1'', Ev_close 0, sample_request 6 ''h1'', Ev_json 0 7 201 1, sample_request 8 ''h1''])
     = [Run_handler, Settled, Run_handler, Settled, Replayed 201 (Some 1)]"
  by code_simp

text \<open>
  The request hash does not depend on the order of object keys: two bodies that differ only in
  the order of keys, at any depth, with the same method and URL hash alike, so a retry through a
  proxy that reorders keys is recognised as the same request.
\<close>

theorem request_hash_order_free:
  assumes "json_perm a b"
  shows "hashRequest sha256 quote m url a = hashRequest sha256 quote m url b"
  using stableStringify_perm [OF assms] by (simp add: hashRequest_def)

theorem request_hash_order_free_witness:
  "hashRequest id id ''POST'' ''/x'' (J_object [(''a'', J_prim ''1''), (''b'', J_prim ''2'')])
   = hashRequest id id ''POST'' ''/x'' (J_object [(''b'', J_prim ''2''), (''a'', J_prim ''1'')])"
  by (rule request_hash_order_free, rule perm_object [where lws = "[(''a'', J_prim ''1''), (''b'', J_prim ''2'')]"])
    (simp_all add: perm_prim)

end
