(* ===== verification/Access_Throttling.thy ===== *)
theory Access_Throttling
  imports Js_Text Js_Map
begin

text \<open>
  The two in-process throttles of the authentication routes: login attempts per wallet
  (\<open>backend/src/services/login-attempts.ts\<close>) and the resend cooldown of verification mails
  (\<open>backend/src/services/verification-resend-cooldown.ts\<close>).

  \<open>attempt\<close> awaits the authentication between reserving a slot and recording the outcome, so it is
  split at that await: \<open>attempt_begin\<close> and \<open>attempt_finish\<close>, which interleave with the halves of
  other attempts. The captured \<open>entry\<close> object is the one stored under the key; the invariant
  below shows that it is still stored whenever an attempt finishes. The key is the hash of the
  wallet, so attempts are identified by their key.
\<close>

section \<open>Login attempts\<close>

definition LOGIN_FAILURE_LIMIT :: nat where
  "LOGIN_FAILURE_LIMIT = 5"

definition LOGIN_FAILURE_WINDOW_MS :: int where
  "LOGIN_FAILURE_WINDOW_MS = 15 * 60 * 1000"

definition LOGIN_LOCKOUT_MS :: int where
  "LOGIN_LOCKOUT_MS = 15 * 60 * 1000"

record AttemptState =
  as_failures :: nat
  as_windowStartedAt :: instant
  as_lockedUntil :: instant
  as_pending :: nat

type_synonym attempt_entries = "(string, AttemptState) jmap"

definition expired :: "AttemptState \<Rightarrow> instant \<Rightarrow> bool" where
  "expired entry now =
     (as_pending entry = 0 \<and>
      (if as_lockedUntil entry > 0 then now \<ge> as_lockedUntil entry
       else now \<ge> as_windowStartedAt entry + LOGIN_FAILURE_WINDOW_MS))"

definition fresh_attempts :: "instant \<Rightarrow> AttemptState" where
  "fresh_attempts now =
     \<lparr>as_failures = 0, as_windowStartedAt = now, as_lockedUntil = 0, as_pending = 0\<rparr>"

text \<open>The lookup: drop an expired entry, make room, create a new one; \<open>None\<close> when the store is full.\<close>

definition find_entry :: "nat \<Rightarrow> instant \<Rightarrow> attempt_entries \<Rightarrow> string \<Rightarrow> attempt_entries \<times> AttemptState option" where
  "find_entry capacity now entries key =
     (let entries1 = (case jm_get entries key of
            Some e \<Rightarrow> if expired e now then jm_delete entries key else entries
          | None \<Rightarrow> entries)
      in case jm_get entries1 key of
          Some e \<Rightarrow> (entries1, Some e)
        | None \<Rightarrow>
          let entries2 = (if length entries1 \<ge> capacity
                then filter (\<lambda>(k, stored). \<not> expired stored now) entries1 else entries1)
          in if length entries2 \<ge> capacity then (entries2, None)
             else (jm_set entries2 key (fresh_attempts now), Some (fresh_attempts now)))"

text \<open>\<open>True\<close>: a slot is reserved and \<open>authenticate\<close> is called; \<open>False\<close>: rejected without calling it.\<close>

definition attempt_begin :: "nat \<Rightarrow> instant \<Rightarrow> attempt_entries \<Rightarrow> string \<Rightarrow> attempt_entries \<times> bool" where
  "attempt_begin capacity now entries key =
     (case find_entry capacity now entries key of
        (entries1, None) \<Rightarrow> (entries1, False)
      | (entries1, Some entry) \<Rightarrow>
        if as_lockedUntil entry > now \<or> as_failures entry + as_pending entry \<ge> LOGIN_FAILURE_LIMIT
        then (entries1, False)
        else (jm_set entries1 key (entry\<lparr>as_pending := as_pending entry + 1\<rparr>), True))"

datatype auth_result = Auth_ok | Auth_rejected | Auth_threw

definition record_result :: "instant \<Rightarrow> auth_result \<Rightarrow> AttemptState \<Rightarrow> AttemptState" where
  "record_result completedAt result entry =
     (case result of
        Auth_threw \<Rightarrow> entry
      | Auth_ok \<Rightarrow> entry\<lparr>as_failures := 0, as_windowStartedAt := completedAt\<rparr>
      | Auth_rejected \<Rightarrow>
        let e1 = (if completedAt \<ge> as_windowStartedAt entry + LOGIN_FAILURE_WINDOW_MS
                  then entry\<lparr>as_failures := 0, as_windowStartedAt := completedAt\<rparr> else entry);
            e2 = e1\<lparr>as_failures := as_failures e1 + 1\<rparr>
        in if as_failures e2 \<ge> LOGIN_FAILURE_LIMIT
           then e2\<lparr>as_lockedUntil := completedAt + LOGIN_LOCKOUT_MS\<rparr> else e2)"

definition attempt_finish :: "instant \<Rightarrow> auth_result \<Rightarrow> attempt_entries \<Rightarrow> string \<Rightarrow> attempt_entries" where
  "attempt_finish completedAt result entries key =
     (case jm_get entries key of
        None \<Rightarrow> entries
      | Some entry \<Rightarrow>
        let e1 = record_result completedAt result entry;
            e2 = e1\<lparr>as_pending := as_pending e1 - 1\<rparr>
        in if as_pending e2 = 0 \<and> as_failures e2 = 0 then jm_delete entries key
           else jm_set entries key e2)"

section \<open>The resend cooldown\<close>

record ResendCooldown =
  rc_cooldownMs :: int
  rc_nextAllowedAt :: "(string, instant) jmap"

definition keyFor :: "string \<Rightarrow> string" where
  "keyFor email = to_lower (trim email)"

datatype CooldownResult = Acquired | RetryAfter int

definition prune :: "ResendCooldown \<Rightarrow> instant \<Rightarrow> ResendCooldown" where
  "prune c now = c\<lparr>rc_nextAllowedAt := filter (\<lambda>(key, allowedAt). \<not> allowedAt \<le> now) (rc_nextAllowedAt c)\<rparr>"

definition tryAcquire :: "instant \<Rightarrow> ResendCooldown \<Rightarrow> string \<Rightarrow> ResendCooldown \<times> CooldownResult" where
  "tryAcquire now c email =
     (let key = keyFor email; c1 = prune c now in
      case jm_get (rc_nextAllowedAt c1) key of
        Some allowedAt \<Rightarrow>
          if allowedAt > now then (c1, RetryAfter (allowedAt - now))
          else (c1\<lparr>rc_nextAllowedAt := jm_set (rc_nextAllowedAt c1) key (now + rc_cooldownMs c1)\<rparr>, Acquired)
      | None \<Rightarrow>
          (c1\<lparr>rc_nextAllowedAt := jm_set (rc_nextAllowedAt c1) key (now + rc_cooldownMs c1)\<rparr>, Acquired))"

definition release :: "ResendCooldown \<Rightarrow> string \<Rightarrow> ResendCooldown" where
  "release c email = c\<lparr>rc_nextAllowedAt := jm_delete (rc_nextAllowedAt c) (keyFor email)\<rparr>"

definition cooldown_clear :: "ResendCooldown \<Rightarrow> ResendCooldown" where
  "cooldown_clear c = c\<lparr>rc_nextAllowedAt := []\<rparr>"

section \<open>Interleaved login attempts\<close>

text \<open>The store together with the number of attempts in flight per key.\<close>

record login_system =
  ls_entries :: attempt_entries
  ls_running :: "string \<Rightarrow> nat"

datatype login_event = Begin instant string | Finish instant auth_result string

fun event_ok :: "login_system \<Rightarrow> login_event \<Rightarrow> bool" where
  "event_ok s (Begin _ _) = True"
| "event_ok s (Finish _ _ key) = (0 < ls_running s key)"

fun login_step :: "nat \<Rightarrow> login_system \<Rightarrow> login_event \<Rightarrow> login_system" where
  "login_step cap s (Begin now key) =
     (case attempt_begin cap now (ls_entries s) key of
        (es, True) \<Rightarrow> \<lparr>ls_entries = es, ls_running = (ls_running s)(key := ls_running s key + 1)\<rparr>
      | (es, False) \<Rightarrow> s\<lparr>ls_entries := es\<rparr>)"
| "login_step cap s (Finish t res key) =
     \<lparr>ls_entries = attempt_finish t res (ls_entries s) key,
      ls_running = (ls_running s)(key := ls_running s key - 1)\<rparr>"

inductive login_reachable :: "nat \<Rightarrow> login_system \<Rightarrow> bool" where
  login_init: "login_reachable cap \<lparr>ls_entries = [], ls_running = (\<lambda>_. 0)\<rparr>"
| login_event: "login_reachable cap s \<Longrightarrow> event_ok s e \<Longrightarrow> login_reachable cap (login_step cap s e)"

definition pending_of :: "attempt_entries \<Rightarrow> string \<Rightarrow> nat" where
  "pending_of es key = (case jm_get es key of None \<Rightarrow> 0 | Some e \<Rightarrow> as_pending e)"

definition failures_of :: "attempt_entries \<Rightarrow> string \<Rightarrow> nat" where
  "failures_of es key = (case jm_get es key of None \<Rightarrow> 0 | Some e \<Rightarrow> as_failures e)"

definition login_inv :: "nat \<Rightarrow> login_system \<Rightarrow> bool" where
  "login_inv cap s \<longleftrightarrow> jm_ok (ls_entries s) \<and> length (ls_entries s) \<le> cap \<and>
     (\<forall>key. ls_running s key = pending_of (ls_entries s) key \<and>
        failures_of (ls_entries s) key + pending_of (ls_entries s) key \<le> LOGIN_FAILURE_LIMIT)"

lemma find_entry_props:
  assumes "find_entry cap now es key = (es', res)" "jm_ok es" "length es \<le> cap"
  shows "jm_ok es'" "length es' \<le> cap"
    "\<And>e. res = Some e \<Longrightarrow> jm_get es' key = Some e"
    "\<And>k. pending_of es' k = pending_of es k"
    "\<And>k. failures_of es' k \<le> failures_of es k"
proof -
  define es1 where "es1 = (case jm_get es key of
      Some e \<Rightarrow> if expired e now then jm_delete es key else es | None \<Rightarrow> es)"
  define es2 where "es2 = (if length es1 \<ge> cap then filter (\<lambda>(k, stored). \<not> expired stored now) es1 else es1)"
  have ok1: "jm_ok es1" using assms(2) by (auto simp: es1_def split: option.splits)
  have len1: "length es1 \<le> cap"
    using assms(3) length_jm_delete [of es key] by (auto simp: es1_def split: option.splits)
  have ok2: "jm_ok es2" using ok1 by (simp add: es2_def)
  have len2: "length es2 \<le> cap" using len1 length_filter_le le_trans by (auto simp: es2_def)
  have p1: "pending_of es1 k = pending_of es k" "failures_of es1 k \<le> failures_of es k" for k
    by (auto simp: es1_def pending_of_def failures_of_def expired_def split: option.splits)
  have g2: "jm_get es2 k = (case jm_get es1 k of None \<Rightarrow> None
      | Some e \<Rightarrow> if length es1 \<ge> cap \<and> expired e now then None else Some e)" for k
    using jm_get_filter [OF ok1] by (auto simp: es2_def split: option.splits)
  have p2: "pending_of es2 k = pending_of es k" "failures_of es2 k \<le> failures_of es k" for k
    using p1 [of k] g2 [of k] by (auto simp: pending_of_def failures_of_def expired_def split: option.splits if_splits)
  have res: "(es', res) = (case jm_get es1 key of Some e \<Rightarrow> (es1, Some e)
      | None \<Rightarrow> if length es2 \<ge> cap then (es2, None)
                else (jm_set es2 key (fresh_attempts now), Some (fresh_attempts now)))"
    using assms(1) unfolding find_entry_def Let_def es1_def [symmetric] es2_def [symmetric]
    by (auto split: option.splits)
  consider e where "jm_get es1 key = Some e" "es' = es1" "res = Some e"
    | "jm_get es1 key = None" "es' = es2" "res = None"
    | "jm_get es1 key = None" "length es2 < cap" "es' = jm_set es2 key (fresh_attempts now)"
      "res = Some (fresh_attempts now)"
    using res by (auto split: option.splits if_splits)
  then have "jm_ok es' \<and> length es' \<le> cap \<and> (\<forall>e. res = Some e \<longrightarrow> jm_get es' key = Some e)
      \<and> (\<forall>k. pending_of es' k = pending_of es k) \<and> (\<forall>k. failures_of es' k \<le> failures_of es k)"
  proof cases
    case 3
    have "pending_of es' k = pending_of es2 k \<and> failures_of es' k \<le> failures_of es2 k" for k
      using 3 g2 [of key] by (auto simp: pending_of_def failures_of_def fresh_attempts_def)
    then show ?thesis using 3 ok2 p2 len2 by (auto simp: length_jm_set intro: le_trans)
  qed (use ok1 len1 p1 ok2 len2 p2 in auto)
  then show "jm_ok es'" "length es' \<le> cap" "\<And>e. res = Some e \<Longrightarrow> jm_get es' key = Some e"
    "\<And>k. pending_of es' k = pending_of es k" "\<And>k. failures_of es' k \<le> failures_of es k" by auto
qed

lemma begin_inv:
  assumes "login_inv cap s"
  shows "login_inv cap (login_step cap s (Begin now key))"
proof -
  obtain es' res where f: "find_entry cap now (ls_entries s) key = (es', res)" by fastforce
  have "jm_ok (ls_entries s)" "length (ls_entries s) \<le> cap" using assms by (simp_all add: login_inv_def)
  note p = find_entry_props [OF f this]
  have "ls_running s k = pending_of es' k \<and> failures_of es' k + pending_of es' k \<le> LOGIN_FAILURE_LIMIT" for k
  proof -
    have "ls_running s k = pending_of (ls_entries s) k"
      "failures_of (ls_entries s) k + pending_of (ls_entries s) k \<le> LOGIN_FAILURE_LIMIT"
      using assms by (simp_all add: login_inv_def)
    with p(4) [of k] p(5) [of k] show ?thesis by linarith
  qed
  with p(1,2) have inv': "login_inv cap (s\<lparr>ls_entries := es'\<rparr>)" by (simp add: login_inv_def)
  show ?thesis
  proof (cases "snd (attempt_begin cap now (ls_entries s) key)")
    case False
    then have "attempt_begin cap now (ls_entries s) key = (es', False)"
      using f by (auto simp: attempt_begin_def split: option.splits if_splits)
    with inv' show ?thesis by simp
  next
    case True
    then obtain e where e: "res = Some e" "as_failures e + as_pending e < LOGIN_FAILURE_LIMIT"
      and b: "attempt_begin cap now (ls_entries s) key = (jm_set es' key (e\<lparr>as_pending := as_pending e + 1\<rparr>), True)"
      using f by (auto simp: attempt_begin_def split: option.splits if_splits)
    from p(3) e(1) have "jm_get es' key = Some e" by simp
    then have has: "jm_has es' key" by (simp add: jm_has_get)
    show ?thesis
      using inv' b e(2) p(3) [OF e(1)] has
      by (auto simp: login_inv_def length_jm_set pending_of_def failures_of_def)
  qed
qed

lemma record_result_sum:
  "as_failures (record_result t r e) \<le> as_failures e + (if r = Auth_rejected then 1 else 0)"
  "as_pending (record_result t r e) = as_pending e"
  by (cases r; simp add: record_result_def Let_def)+

lemma record_result_failures:
  "r \<noteq> Auth_rejected \<Longrightarrow> as_failures (record_result t r e) \<le> as_failures e"
  by (cases r) (simp_all add: record_result_def)

lemma finish_inv:
  assumes "login_inv cap s" "0 < ls_running s key"
  shows "login_inv cap (login_step cap s (Finish t r key))"
proof -
  have "0 < pending_of (ls_entries s) key" using assms by (simp add: login_inv_def)
  then obtain e where e: "jm_get (ls_entries s) key = Some e" "0 < as_pending e"
    by (auto simp: pending_of_def split: option.splits)
  define e2 where "e2 = (record_result t r e)\<lparr>as_pending := as_pending (record_result t r e) - 1\<rparr>"
  have sum: "as_failures e + as_pending e \<le> LOGIN_FAILURE_LIMIT" "ls_running s key = as_pending e"
    using assms(1) e by (auto simp: login_inv_def pending_of_def failures_of_def split: option.splits
        dest!: spec [of _ key])
  have e2: "as_pending e2 = as_pending e - 1" "as_failures e2 + as_pending e2 \<le> LOGIN_FAILURE_LIMIT"
    using record_result_sum [of t r e] sum e(2) by (auto simp: e2_def split: if_splits)
  have fin: "attempt_finish t r (ls_entries s) key =
      (if as_pending e2 = 0 \<and> as_failures e2 = 0 then jm_delete (ls_entries s) key
       else jm_set (ls_entries s) key e2)"
    using e(1) by (simp add: attempt_finish_def Let_def e2_def)
  have has: "jm_has (ls_entries s) key" using e(1) by (simp add: jm_has_get)
  have len: "length (jm_delete (ls_entries s) key) \<le> cap"
    using assms(1) length_jm_delete [of "ls_entries s" key] by (simp add: login_inv_def)
  show ?thesis
  proof (cases "as_pending e2 = 0 \<and> as_failures e2 = 0")
    case True
    with fin e2(1) sum(2) assms(1) len show ?thesis
      by (auto simp: login_inv_def pending_of_def failures_of_def)
  next
    case False
    with fin e2 sum(2) assms(1) has show ?thesis
      by (auto simp: login_inv_def length_jm_set pending_of_def failures_of_def)
  qed
qed

lemma login_reachable_inv: "login_reachable cap s \<Longrightarrow> login_inv cap s"
proof (induction rule: login_reachable.induct)
  case (login_init cap)
  show ?case by (simp add: login_inv_def pending_of_def failures_of_def)
next
  case (login_event cap s e)
  then show ?case using begin_inv finish_inv by (cases e) auto
qed

text \<open>A locked entry: five failures, nobody in flight, locked until \<open>L\<close>.\<close>

definition locked_at :: "login_system \<Rightarrow> string \<Rightarrow> instant \<Rightarrow> bool" where
  "locked_at s key L \<longleftrightarrow> (\<exists>e. jm_get (ls_entries s) key = Some e \<and> as_lockedUntil e = L \<and> 0 < L
     \<and> as_pending e = 0)"

fun event_before :: "instant \<Rightarrow> login_event \<Rightarrow> bool" where
  "event_before L (Begin now _) = (now < L)"
| "event_before L (Finish _ _ _) = True"

lemma find_entry_locked:
  assumes "jm_get es k = Some e" "as_lockedUntil e = L" "0 < L" "now < L" "jm_ok es"
    and f: "find_entry cap now es key = (es', res)"
  shows "jm_get es' k = Some e" "key = k \<Longrightarrow> res = Some e"
proof -
  have ne: "\<not> expired e now" using assms by (simp add: expired_def)
  define es1 where "es1 = (case jm_get es key of
      Some e \<Rightarrow> if expired e now then jm_delete es key else es | None \<Rightarrow> es)"
  define es2 where "es2 = (if length es1 \<ge> cap then filter (\<lambda>(k, stored). \<not> expired stored now) es1 else es1)"
  have ok1: "jm_ok es1" using assms(5) by (auto simp: es1_def split: option.splits)
  have 1: "jm_get es1 k = Some e" using assms(1) ne by (auto simp: es1_def split: option.splits)
  have 2: "jm_get es2 k = Some e" using 1 ne jm_get_filter [OF ok1] by (auto simp: es2_def)
  have res: "(es', res) = (case jm_get es1 key of Some e \<Rightarrow> (es1, Some e)
      | None \<Rightarrow> if length es2 \<ge> cap then (es2, None)
                else (jm_set es2 key (fresh_attempts now), Some (fresh_attempts now)))"
    using f unfolding find_entry_def Let_def es1_def [symmetric] es2_def [symmetric]
    by (auto split: option.splits)
  show "jm_get es' k = Some e" using res 1 2 by (auto split: option.splits if_splits)
  show "res = Some e" if "key = k" using res 1 that by auto
qed

lemma locked_step:
  assumes inv: "login_inv cap s" and l: "locked_at s k L" and ev: "event_ok s e" "event_before L e"
  shows "locked_at (login_step cap s e) k L"
    and "e = Begin now k \<Longrightarrow> \<not> snd (attempt_begin cap now (ls_entries s) k)"
proof -
  from l obtain en where en: "jm_get (ls_entries s) k = Some en" "as_lockedUntil en = L" "0 < L" "as_pending en = 0"
    by (auto simp: locked_at_def)
  have ok: "jm_ok (ls_entries s)" using inv by (simp add: login_inv_def)
  show "\<not> snd (attempt_begin cap now (ls_entries s) k)" if "e = Begin now k"
  proof -
    obtain es' res where f: "find_entry cap now (ls_entries s) k = (es', res)" by fastforce
    have "now < L" using ev(2) that by simp
    from find_entry_locked(2) [OF en(1-3) this ok f] en(2) this show ?thesis
      by (simp add: attempt_begin_def f)
  qed
  show "locked_at (login_step cap s e) k L"
  proof (cases e)
    case (Begin now key)
    obtain es' res where f: "find_entry cap now (ls_entries s) key = (es', res)" by fastforce
    have nl: "now < L" using ev(2) Begin by simp
    note g = find_entry_locked [OF en(1-3) nl ok f]
    have "jm_get (ls_entries (login_step cap s e)) k = Some en"
    proof (cases "key = k")
      case True
      with g en(2) nl Begin f show ?thesis by (simp add: attempt_begin_def)
    next
      case False
      with g(1) Begin f show ?thesis by (auto simp: attempt_begin_def split: option.splits)
    qed
    with en show ?thesis by (simp add: locked_at_def)
  next
    case (Finish t r key)
    have "key \<noteq> k"
    proof
      assume "key = k"
      with ev(1) Finish inv have "0 < pending_of (ls_entries s) k" by (simp add: login_inv_def)
      with en show False by (simp add: pending_of_def)
    qed
    with en Finish show ?thesis
      by (auto simp: locked_at_def attempt_finish_def Let_def split: option.splits)
  qed
qed

text \<open>A history of events, each of them possible when it happens.\<close>

fun login_run :: "nat \<Rightarrow> login_system \<Rightarrow> login_event list \<Rightarrow> login_system" where
  "login_run cap s [] = s"
| "login_run cap s (e # es) = login_run cap (login_step cap s e) es"

fun events_ok :: "nat \<Rightarrow> login_system \<Rightarrow> login_event list \<Rightarrow> bool" where
  "events_ok cap s [] = True"
| "events_ok cap s (e # es) = (event_ok s e \<and> events_ok cap (login_step cap s e) es)"

lemma locked_run:
  "\<lbrakk>login_reachable cap s; locked_at s k L; events_ok cap s es; list_all (event_before L) es\<rbrakk> \<Longrightarrow>
     locked_at (login_run cap s es) k L \<and> login_reachable cap (login_run cap s es)"
proof (induction es arbitrary: s)
  case (Cons e es)
  from Cons.prems have "locked_at (login_step cap s e) k L"
    by (intro locked_step(1) [OF login_reachable_inv]) auto
  moreover have "login_reachable cap (login_step cap s e)" using Cons.prems login_event by auto
  ultimately show ?case using Cons by simp
qed simp

lemma fifth_failure_locks:
  assumes "login_inv cap s" "jm_get (ls_entries s) k = Some e" "0 < as_pending e"
    "as_failures e = LOGIN_FAILURE_LIMIT - 1" "t < as_windowStartedAt e + LOGIN_FAILURE_WINDOW_MS" "0 \<le> t"
  shows "locked_at (login_step cap s (Finish t Auth_rejected k)) k (t + LOGIN_LOCKOUT_MS)"
proof -
  have "failures_of (ls_entries s) k + pending_of (ls_entries s) k \<le> LOGIN_FAILURE_LIMIT"
    using assms(1) by (simp add: login_inv_def)
  with assms(2,3,4) have "as_pending e = 1"
    by (simp add: failures_of_def pending_of_def LOGIN_FAILURE_LIMIT_def)
  with assms show ?thesis
    by (simp add: locked_at_def attempt_finish_def record_result_def Let_def LOGIN_FAILURE_LIMIT_def
        LOGIN_LOCKOUT_MS_def)
qed

section \<open>The cooldown\<close>

datatype cooldown_op = Acquire instant string | Release string

fun cooldown_step :: "ResendCooldown \<Rightarrow> cooldown_op \<Rightarrow> ResendCooldown" where
  "cooldown_step c (Acquire now email) = fst (tryAcquire now c email)"
| "cooldown_step c (Release email) = release c email"

fun keeps_slot :: "string \<Rightarrow> instant \<Rightarrow> cooldown_op \<Rightarrow> bool" where
  "keeps_slot key until (Acquire now email) = (now < until)"
| "keeps_slot key until (Release email) = (keyFor email \<noteq> key)"

definition slots_ok :: "ResendCooldown \<Rightarrow> bool" where
  "slots_ok c = jm_ok (rc_nextAllowedAt c)"

lemma tryAcquire_slot:
  assumes "jm_get (rc_nextAllowedAt c) key = Some until" "now < until" "slots_ok c"
  shows "jm_get (rc_nextAllowedAt (fst (tryAcquire now c email))) key = Some until"
    and "keyFor email = key \<Longrightarrow> snd (tryAcquire now c email) = RetryAfter (until - now)"
proof -
  have p: "jm_get (rc_nextAllowedAt (prune c now)) key = Some until"
    using assms by (simp add: prune_def jm_get_filter slots_ok_def)
  then show "jm_get (rc_nextAllowedAt (fst (tryAcquire now c email))) key = Some until"
    using assms(2) by (cases "keyFor email = key") (auto simp: tryAcquire_def Let_def split: option.splits)
  show "snd (tryAcquire now c email) = RetryAfter (until - now)" if "keyFor email = key"
    using p that assms(2) by (simp add: tryAcquire_def)
qed

lemma slots_ok_step: "slots_ok c \<Longrightarrow> slots_ok (cooldown_step c p)"
  by (cases p) (auto simp: slots_ok_def tryAcquire_def release_def prune_def Let_def split: option.splits)

lemma cooldown_run_slot:
  "\<lbrakk>jm_get (rc_nextAllowedAt c) key = Some until; slots_ok c; list_all (keeps_slot key until) ps\<rbrakk> \<Longrightarrow>
     jm_get (rc_nextAllowedAt (foldl cooldown_step c ps)) key = Some until \<and> slots_ok (foldl cooldown_step c ps)"
proof (induction ps arbitrary: c)
  case (Cons p ps)
  have "jm_get (rc_nextAllowedAt (cooldown_step c p)) key = Some until"
    using Cons.prems tryAcquire_slot(1) [of c key until]
    by (cases p) (auto simp: release_def)
  with Cons slots_ok_step show ?case by simp
qed simp

section \<open>Properties\<close>

text \<open>
  (C8) Parallel sign-ins cannot exceed the limit. In every reachable state of the store, under any
  interleaving of the halves of concurrent attempts, the attempts of a wallet still in flight plus
  its recorded failures never exceed five, every attempt in flight still has its entry with exactly
  that many pending reservations, and the store never holds more entries than its capacity.
\<close>

theorem login_limit_under_interleaving:
  assumes "login_reachable cap s"
  shows "length (ls_entries s) \<le> cap
    \<and> (\<forall>key. (case jm_get (ls_entries s) key of
          None \<Rightarrow> ls_running s key = 0
        | Some e \<Rightarrow> ls_running s key = as_pending e \<and> as_failures e + as_pending e \<le> 5))"
  using login_reachable_inv [OF assms]
  by (auto simp: login_inv_def pending_of_def failures_of_def LOGIN_FAILURE_LIMIT_def split: option.splits
      dest: spec)

definition one_running :: login_system where
  "one_running = login_step 10 \<lparr>ls_entries = [], ls_running = (\<lambda>_. 0)\<rparr> (Begin 1 ''k'')"

theorem login_limit_under_interleaving_witness:
  "login_reachable 10 one_running \<and> length (ls_entries one_running) \<le> 10"
proof -
  have "login_reachable 10 one_running"
    unfolding one_running_def by (rule login_event [OF login_init]) simp
  with login_limit_under_interleaving [OF this] show ?thesis by blast
qed

text \<open>
  A lockout holds. When an attempt fails while four failures are already recorded in the
  current window, then during the whole lockout period every further attempt of that wallet is
  rejected without calling the authentication, whatever attempts of other wallets begin, finish or
  fill the store in between.
\<close>

theorem lockout_holds:
  assumes "login_reachable cap s" "jm_get (ls_entries s) k = Some e" "0 < as_pending e" "as_failures e = 4"
    and "0 \<le> t" "t < as_windowStartedAt e + LOGIN_FAILURE_WINDOW_MS"
    and "events_ok cap (login_step cap s (Finish t Auth_rejected k)) es"
    and "list_all (event_before (t + LOGIN_LOCKOUT_MS)) es" "now < t + LOGIN_LOCKOUT_MS"
  shows "\<not> snd (attempt_begin cap now
      (ls_entries (login_run cap (login_step cap s (Finish t Auth_rejected k)) es)) k)"
proof -
  let ?s = "login_step cap s (Finish t Auth_rejected k)"
  have "locked_at ?s k (t + LOGIN_LOCKOUT_MS)"
    using assms by (intro fifth_failure_locks [OF login_reachable_inv]) (auto simp: LOGIN_FAILURE_LIMIT_def)
  moreover have "login_reachable cap ?s"
  proof (rule login_event [OF assms(1)])
    have "ls_running s k = as_pending e"
      using login_reachable_inv [OF assms(1)] assms(2)
      by (auto simp: login_inv_def pending_of_def dest!: spec [of _ k])
    with assms(3) show "event_ok s (Finish t Auth_rejected k)" by simp
  qed
  ultimately have l: "locked_at (login_run cap ?s es) k (t + LOGIN_LOCKOUT_MS)"
    "login_reachable cap (login_run cap ?s es)"
    using locked_run assms by blast+
  from locked_step(2) [OF login_reachable_inv [OF l(2)] l(1), of "Begin now k" now] assms(9)
  show ?thesis by simp
qed

definition four_failures :: login_system where
  "four_failures = login_run 10 \<lparr>ls_entries = [], ls_running = (\<lambda>_. 0)\<rparr>
     [Begin 1 ''k'', Finish 2 Auth_rejected ''k'', Begin 3 ''k'', Finish 4 Auth_rejected ''k'',
      Begin 5 ''k'', Finish 6 Auth_rejected ''k'', Begin 7 ''k'', Finish 8 Auth_rejected ''k'', Begin 9 ''k'']"

lemma four_failures_get:
  "jm_get (ls_entries four_failures) ''k'' =
     Some \<lparr>as_failures = 4, as_windowStartedAt = 1, as_lockedUntil = 0, as_pending = 1\<rparr>"
  by code_simp

lemma run_reachable: "login_reachable cap s \<Longrightarrow> events_ok cap s es \<Longrightarrow> login_reachable cap (login_run cap s es)"
  by (induction es arbitrary: s) (auto intro: login_event)

lemma four_failures_reachable: "login_reachable 10 four_failures"
  unfolding four_failures_def by (rule run_reachable [OF login_init]) code_simp

theorem lockout_holds_witness:
  "\<not> snd (attempt_begin 10 11 (ls_entries (login_run 10 (login_step 10 four_failures (Finish 10 Auth_rejected ''k'')) [])) ''k'')"
  by (rule lockout_holds [OF four_failures_reachable four_failures_get])
    (simp_all add: LOGIN_LOCKOUT_MS_def LOGIN_FAILURE_WINDOW_MS_def)

text \<open>
  One verification mail per cooldown. After a slot is acquired at time \<open>t\<close>, every further
  acquisition for any spelling of the same address before \<open>t\<close> plus the cooldown is refused with
  exactly the remaining time, whatever happens for other addresses, unless the slot is released.
\<close>

theorem cooldown_holds:
  assumes "slots_ok c" "tryAcquire t c email = (c', Acquired)"
    and "list_all (keeps_slot (keyFor email) (t + rc_cooldownMs c)) ps"
    and "keyFor email' = keyFor email" "t' < t + rc_cooldownMs c"
  shows "snd (tryAcquire t' (foldl cooldown_step c' ps) email') = RetryAfter (t + rc_cooldownMs c - t')"
proof -
  have "jm_get (rc_nextAllowedAt c') (keyFor email) = Some (t + rc_cooldownMs c)"
    using assms(2) by (auto simp: tryAcquire_def Let_def prune_def split: option.splits if_splits)
  moreover have "slots_ok c'" using slots_ok_step [OF assms(1), of "Acquire t email"] assms(2) by simp
  ultimately have "jm_get (rc_nextAllowedAt (foldl cooldown_step c' ps)) (keyFor email) = Some (t + rc_cooldownMs c)"
    "slots_ok (foldl cooldown_step c' ps)"
    using cooldown_run_slot assms(3) by blast+
  from tryAcquire_slot(2) [OF this(1) assms(5) this(2) assms(4)] show ?thesis .
qed

theorem cooldown_holds_witness:
  "snd (tryAcquire 30 (foldl cooldown_step (fst (tryAcquire 5 \<lparr>rc_cooldownMs = 60, rc_nextAllowedAt = []\<rparr> ''a@x''))
      [Acquire 20 ''b@x'']) '' A@X'') = RetryAfter 35"
proof -
  have "tryAcquire 5 \<lparr>rc_cooldownMs = 60, rc_nextAllowedAt = []\<rparr> ''a@x'' =
      (fst (tryAcquire 5 \<lparr>rc_cooldownMs = 60, rc_nextAllowedAt = []\<rparr> ''a@x''), Acquired)" by code_simp
  moreover have "keyFor '' A@X'' = keyFor ''a@x''" by code_simp
  ultimately show ?thesis
    using cooldown_holds [of "\<lparr>rc_cooldownMs = 60, rc_nextAllowedAt = []\<rparr>" 5 "''a@x''" _
        "[Acquire 20 ''b@x'']" "'' A@X''" 30]
    by (simp add: slots_ok_def)
qed

end
