(* ===== verification/Sessions.thy ===== *)
theory Sessions
  imports Js_Text Js_Map
begin

text \<open>
  Sessions and mail tokens: \<open>backend/src/services/session-revocation.ts\<close>,
  \<open>backend/src/middleware/auth-jwt.ts\<close> and \<open>backend/src/services/email-verification-token.ts\<close>.

  The tables the queries run on are lists of rows (\<open>users\<close>, wallet address unique, with further columns) and a map by the
  unique \<open>email\<close> column (verification tokens); each conditional \<open>UPDATE\<close> is one step with the
  \<open>WHERE\<close> clause of the source, since the database runs it atomically. The verification of a JWT
  and the SHA-256 hash are parameters.
\<close>

section \<open>Session versions\<close>

record user_row =
  u_walletAddress :: string
  u_email :: "string option"
  u_sessionVersion :: int

type_synonym 'a users = "'a user_row_scheme list"

definition getSessionVersion :: "'a users \<Rightarrow> string \<Rightarrow> int option" where
  "getSessionVersion us walletAddress =
     map_option u_sessionVersion (find (\<lambda>u. u_walletAddress u = walletAddress) us)"

definition bump :: "'a user_row_scheme \<Rightarrow> 'a user_row_scheme" where
  "bump u = u\<lparr>u_sessionVersion := u_sessionVersion u + 1\<rparr>"

text \<open>\<open>UPDATE users SET "sessionVersion" = "sessionVersion" + 1 WHERE P\<close>, with the affected count.\<close>

definition update_where :: "('a user_row_scheme \<Rightarrow> bool) \<Rightarrow> 'a users \<Rightarrow> 'a users \<times> nat" where
  "update_where P us = (map (\<lambda>u. if P u then bump u else u) us, length (filter P us))"

definition revokeSessionForWallet :: "'a users \<Rightarrow> string \<Rightarrow> int \<Rightarrow> 'a users \<times> nat" where
  "revokeSessionForWallet us walletAddress expectedVersion =
     update_where (\<lambda>u. u_walletAddress u = walletAddress \<and> u_sessionVersion u = expectedVersion) us"

definition getMaxSessionVersionForEmail :: "'a users \<Rightarrow> string \<Rightarrow> int option" where
  "getMaxSessionVersionForEmail us email =
     (case map u_sessionVersion (filter (\<lambda>u. u_email u = Some email) us) of
        [] \<Rightarrow> None
      | v # vs \<Rightarrow> Some (foldl max v vs))"

definition revokeSessionsForEmail :: "'a users \<Rightarrow> string \<Rightarrow> int \<Rightarrow> 'a users \<times> nat" where
  "revokeSessionsForEmail us email expectedVersion =
     update_where (\<lambda>u. u_email u = Some email \<and> u_sessionVersion u \<le> expectedVersion
        \<and> \<not> (\<exists>newer \<in> set us. u_email newer = Some email \<and> u_sessionVersion newer > expectedVersion)) us"

section \<open>The JWT guard\<close>

definition BEARER_PREFIX :: string where
  "BEARER_PREFIX = ''bearer ''"

definition base32_char :: "char \<Rightarrow> bool" where
  "base32_char c = ((CHR ''A'' \<le> c \<and> c \<le> CHR ''Z'') \<or> (CHR ''2'' \<le> c \<and> c \<le> CHR ''7''))"

definition STELLAR_ADDRESS_REGEX :: "string \<Rightarrow> bool" where
  "STELLAR_ADDRESS_REGEX s =
     (case s of [] \<Rightarrow> False
      | c # cs \<Rightarrow> (c = CHR ''G'' \<or> c = CHR ''C'') \<and> length cs = 55 \<and> list_all base32_char cs)"

text \<open>A decoded payload: not an object, or an object with the two claims that are read, when well typed.\<close>

datatype payload = P_not_object | P_object "string option" "int option"

definition isAuthenticatedUser :: "payload \<Rightarrow> bool" where
  "isAuthenticatedUser p =
     (case p of P_not_object \<Rightarrow> False
      | P_object w _ \<Rightarrow> (case w of None \<Rightarrow> False | Some a \<Rightarrow> STELLAR_ADDRESS_REGEX a))"

datatype 'e auth_outcome =
    Authenticated (auth_wallet: string) (auth_version: int)
  | Unauthorized401 string
  | Forward_error 'e

definition authJwtMiddleware ::
  "(string \<Rightarrow> 'x + payload) \<Rightarrow> (string \<Rightarrow> 'e + int option) \<Rightarrow> string option \<Rightarrow> 'e auth_outcome" where
  "authJwtMiddleware verifyToken lookup header =
     (case header of
        None \<Rightarrow> Unauthorized401 ''UNAUTHORIZED''
      | Some h \<Rightarrow>
        if h = [] \<or> \<not> starts_with (to_lower h) BEARER_PREFIX then Unauthorized401 ''UNAUTHORIZED''
        else let token = trim (drop (length BEARER_PREFIX) h) in
          if token = [] then Unauthorized401 ''UNAUTHORIZED''
          else case verifyToken token of
              Inl _ \<Rightarrow> Unauthorized401 ''UNAUTHORIZED''
            | Inr p \<Rightarrow>
              if \<not> isAuthenticatedUser p then Unauthorized401 ''UNAUTHORIZED''
              else (case p of P_not_object \<Rightarrow> Unauthorized401 ''UNAUTHORIZED''
                | P_object w sv \<Rightarrow>
                  let wallet = default_to [] w; tokenVersion = default_to 0 sv in
                  case lookup wallet of
                    Inl e \<Rightarrow> Forward_error e
                  | Inr currentVersion \<Rightarrow>
                    if currentVersion \<noteq> None \<and> currentVersion \<noteq> Some tokenVersion
                    then Unauthorized401 ''SESSION_REVOKED''
                    else Authenticated wallet tokenVersion))"

section \<open>Verification tokens\<close>

record token_row =
  tk_tokenHash :: string
  tk_expiresAt :: instant
  tk_consumedAt :: "instant option"

type_synonym tokens = "(string, token_row) jmap"

record IssuedEmailVerificationToken =
  it_token :: string
  it_tokenHash :: string
  it_expiresAt :: instant

definition hashEmailVerificationToken :: "(string \<Rightarrow> string) \<Rightarrow> string \<Rightarrow> string" where
  "hashEmailVerificationToken sha256 token = sha256 token"

definition normalizeEmail :: "string \<Rightarrow> string" where
  "normalizeEmail email = to_lower (trim email)"

text \<open>\<open>sign\<close> makes the token, \<open>decode_exp\<close> reads its expiry claim in seconds; a zero claim is falsy.\<close>

definition issueEmailVerificationToken ::
  "(string \<Rightarrow> string) \<Rightarrow> (string \<Rightarrow> int option) \<Rightarrow> (string \<Rightarrow> string) \<Rightarrow> string
     \<Rightarrow> unit + IssuedEmailVerificationToken" where
  "issueEmailVerificationToken sign decode_exp sha256 email =
     (let token = sign email in
      case decode_exp token of
        None \<Rightarrow> Inl ()
      | Some e \<Rightarrow> if e = 0 then Inl ()
          else Inr \<lparr>it_token = token, it_tokenHash = hashEmailVerificationToken sha256 token,
                    it_expiresAt = e * 1000\<rparr>)"

definition rotateEmailVerificationToken :: "tokens \<Rightarrow> string \<Rightarrow> IssuedEmailVerificationToken \<Rightarrow> tokens" where
  "rotateEmailVerificationToken ts email issued =
     jm_set ts (normalizeEmail email)
       \<lparr>tk_tokenHash = it_tokenHash issued, tk_expiresAt = it_expiresAt issued, tk_consumedAt = None\<rparr>"

definition consumeEmailVerificationToken :: "tokens \<Rightarrow> string \<Rightarrow> string \<Rightarrow> instant \<Rightarrow> tokens \<times> bool" where
  "consumeEmailVerificationToken ts email tokenHash now =
     (case jm_get ts (normalizeEmail email) of
        None \<Rightarrow> (ts, False)
      | Some row \<Rightarrow>
        if tk_tokenHash row = tokenHash \<and> tk_consumedAt row = None \<and> tk_expiresAt row > now
        then (jm_set ts (normalizeEmail email) (row\<lparr>tk_consumedAt := Some now\<rparr>), True)
        else (ts, False))"

definition invalidateEmailVerificationToken :: "tokens \<Rightarrow> string \<Rightarrow> string \<Rightarrow> instant \<Rightarrow> tokens" where
  "invalidateEmailVerificationToken ts email tokenHash now =
     (case jm_get ts (normalizeEmail email) of
        None \<Rightarrow> ts
      | Some row \<Rightarrow>
        if tk_tokenHash row = tokenHash \<and> tk_consumedAt row = None
        then jm_set ts (normalizeEmail email) (row\<lparr>tk_consumedAt := Some now\<rparr>)
        else ts)"

section \<open>Lemmas\<close>

definition wallets_unique :: "'a users \<Rightarrow> bool" where
  "wallets_unique us = distinct (map u_walletAddress us)"

lemma find_map_if:
  "(\<And>u. f (g u) = f u) \<Longrightarrow> find (\<lambda>u. f u = w) (map (\<lambda>u. if P u then g u else u) us) =
     map_option (\<lambda>u. if P u then g u else u) (find (\<lambda>u. f u = w) us)"
  by (induction us) auto

lemma version_after_update:
  "getSessionVersion (fst (update_where P us)) w =
     map_option (\<lambda>u. if P u then u_sessionVersion u + 1 else u_sessionVersion u) (find (\<lambda>u. u_walletAddress u = w) us)"
  by (auto simp: getSessionVersion_def update_where_def find_map_if [of u_walletAddress bump] bump_def
      option.map_comp comp_def if_distrib intro!: option.map_cong)

lemma find_unique:
  "wallets_unique us \<Longrightarrow> u \<in> set us \<Longrightarrow> find (\<lambda>x. u_walletAddress x = u_walletAddress u) us = Some u"
  by (induction us) (auto simp: wallets_unique_def)

lemma count_zero: "snd (update_where P us) = 0 \<longleftrightarrow> (\<forall>u \<in> set us. \<not> P u)"
  by (simp add: update_where_def filter_empty_conv)

text \<open>The scheme of the header is read in any case: a valid token is let in when its version is current.\<close>

lemma bearer_accepts:
  assumes "to_lower scheme = BEARER_PREFIX" "trim t \<noteq> []" "verifyToken (trim t) = Inr (P_object (Some w) sv)"
    and "STELLAR_ADDRESS_REGEX w" "lookup w = Inr (Some (default_to 0 sv))"
  shows "authJwtMiddleware verifyToken lookup (Some (scheme @ t)) = Authenticated w (default_to 0 sv)"
proof -
  have len: "length scheme = length BEARER_PREFIX" using assms(1) by (metis length_map to_lower_def)
  have ne: "scheme @ t \<noteq> []" using len by (auto simp: BEARER_PREFIX_def)
  have "to_lower (scheme @ t) = BEARER_PREFIX @ to_lower t" using assms(1) by (simp add: to_lower_def)
  then have "starts_with (to_lower (scheme @ t)) BEARER_PREFIX" by (simp add: starts_with_def)
  moreover have "drop (length BEARER_PREFIX) (scheme @ t) = t" using len by simp
  ultimately show ?thesis
    using assms ne unfolding authJwtMiddleware_def option.case isAuthenticatedUser_def
    by (simp only: if_False if_True Let_def simp_thms) (simp add: isAuthenticatedUser_def)
qed

lemma authenticated_version:
  "authJwtMiddleware verify (\<lambda>w. Inr (getSessionVersion us w)) header = Authenticated w v \<Longrightarrow>
     getSessionVersion us w = None \<or> getSessionVersion us w = Some v"
  by (auto simp: authJwtMiddleware_def Let_def split: option.splits if_splits sum.splits payload.splits)

lemma foldl_max_in: "foldl max (m :: int) xs \<in> set (m # xs)"
  by (induction xs arbitrary: m) (auto simp: max_def split: if_splits)

lemma max_version_row:
  assumes "getMaxSessionVersionForEmail us email = Some m"
  obtains u where "u \<in> set us" "u_email u = Some email" "u_sessionVersion u = m"
proof -
  define vs where "vs = map u_sessionVersion (filter (\<lambda>u. u_email u = Some email) us)"
  have "m \<in> set vs"
  proof (cases vs)
    case Nil
    with assms show ?thesis by (simp add: getMaxSessionVersionForEmail_def vs_def)
  next
    case (Cons v ws)
    with assms have "m = foldl max v ws" unfolding getMaxSessionVersionForEmail_def vs_def [symmetric] by simp
    with Cons foldl_max_in show ?thesis by simp
  qed
  then show thesis using that by (auto simp: vs_def)
qed

datatype token_op =
    Consume string string instant
  | Invalidate string string instant

fun token_step :: "tokens \<Rightarrow> token_op \<Rightarrow> tokens \<times> bool" where
  "token_step ts (Consume e h now) = consumeEmailVerificationToken ts e h now"
| "token_step ts (Invalidate e h now) = (invalidateEmailVerificationToken ts e h now, False)"

fun token_run :: "tokens \<Rightarrow> token_op list \<Rightarrow> tokens \<times> bool list" where
  "token_run ts [] = (ts, [])"
| "token_run ts (p # ps) = (let (ts1, b) = token_step ts p; (ts2, bs) = token_run ts1 ps in (ts2, b # bs))"

fun op_email :: "token_op \<Rightarrow> string" where
  "op_email (Consume e _ _) = normalizeEmail e"
| "op_email (Invalidate e _ _) = normalizeEmail e"

definition dead :: "tokens \<Rightarrow> string \<Rightarrow> bool" where
  "dead ts e = (case jm_get ts e of None \<Rightarrow> True | Some r \<Rightarrow> tk_consumedAt r \<noteq> None)"

lemma dead_step: "dead ts e \<Longrightarrow> dead (fst (token_step ts p)) e"
  by (cases p) (auto simp: dead_def consumeEmailVerificationToken_def invalidateEmailVerificationToken_def
      split: option.splits)

lemma success_kills: "snd (token_step ts p) \<Longrightarrow> dead (fst (token_step ts p)) (op_email p)"
  by (cases p) (auto simp: dead_def consumeEmailVerificationToken_def split: option.splits if_splits)

lemma dead_fails: "dead ts (op_email p) \<Longrightarrow> \<not> snd (token_step ts p)"
  by (cases p) (auto simp: dead_def consumeEmailVerificationToken_def split: option.splits if_splits)

text \<open>The number of successful confirmations of an address along a run.\<close>

definition successes :: "string \<Rightarrow> token_op list \<Rightarrow> bool list \<Rightarrow> nat" where
  "successes e ps bs = length (filter (\<lambda>(p, b). b \<and> op_email p = e) (zip ps bs))"

lemma dead_no_success: "dead ts e \<Longrightarrow> successes e ps (snd (token_run ts ps)) = 0"
proof (induction ps arbitrary: ts)
  case (Cons p ps)
  obtain ts1 b where s: "token_step ts p = (ts1, b)" by fastforce
  have "dead ts1 e" using dead_step [OF Cons.prems, of p] s by simp
  moreover have "\<not> (b \<and> op_email p = e)" using dead_fails [of ts p] Cons.prems s by auto
  ultimately show ?case using Cons.IH [of ts1] s by (auto simp: successes_def split: prod.splits)
qed (simp add: successes_def)

lemma at_most_one_success: "successes e ps (snd (token_run ts ps)) \<le> 1"
proof (induction ps arbitrary: ts)
  case (Cons p ps)
  obtain ts1 b where s: "token_step ts p = (ts1, b)" by fastforce
  have rest: "snd (token_run ts (p # ps)) = b # snd (token_run ts1 ps)" using s by (simp split: prod.splits)
  show ?case
  proof (cases "b \<and> op_email p = e")
    case True
    then have "dead ts1 e" using success_kills [of ts p] s by simp
    from dead_no_success [OF this, of ps] True show ?thesis unfolding rest by (simp add: successes_def)
  next
    case False
    with Cons.IH [of ts1] show ?thesis unfolding rest by (auto simp: successes_def)
  qed
qed (simp add: successes_def)

section \<open>Properties\<close>

text \<open>
  (C37) Logout revokes. When a logout with the version of the presented token reports that it revoked
  something, no header is authenticated afterwards as that wallet with that version, a repeated
  logout with the same token revokes nothing, and every other wallet keeps its session version.
\<close>

theorem logout_revokes_tokens:
  assumes "wallets_unique us" "revokeSessionForWallet us w v = (us', n)" "0 < n"
  shows "authJwtMiddleware verify (\<lambda>x. Inr (getSessionVersion us' x)) header \<noteq> Authenticated w v
    \<and> snd (revokeSessionForWallet us' w v) = 0
    \<and> (\<forall>x. x \<noteq> w \<longrightarrow> getSessionVersion us' x = getSessionVersion us x)"
proof -
  let ?P = "\<lambda>u. u_walletAddress u = w \<and> u_sessionVersion u = v"
  have us': "us' = fst (update_where ?P us)" "n = snd (update_where ?P us)"
    using assms(2) by (simp_all add: revokeSessionForWallet_def)
  with assms(3) obtain u where u: "u \<in> set us" "u_walletAddress u = w" "u_sessionVersion u = v"
    using count_zero [of ?P us] by auto
  have new: "getSessionVersion us' w = Some (v + 1)"
    using find_unique [OF assms(1) u(1)] u by (simp add: us'(1) version_after_update)
  have uniq': "wallets_unique us'"
  proof -
    have "map u_walletAddress us' = map u_walletAddress us"
      by (auto simp: us'(1) update_where_def bump_def)
    with assms(1) show ?thesis by (simp add: wallets_unique_def)
  qed
  have "u' \<in> set us' \<Longrightarrow> u_walletAddress u' = w \<Longrightarrow> u_sessionVersion u' = v + 1" for u'
    using find_unique [OF uniq', of u'] new by (auto simp: getSessionVersion_def)
  then have "snd (revokeSessionForWallet us' w v) = 0"
  proof -
    assume v1: "\<And>u'. \<lbrakk>u' \<in> set us'; u_walletAddress u' = w\<rbrakk> \<Longrightarrow> u_sessionVersion u' = v + 1"
    have "\<not> (u_walletAddress u' = w \<and> u_sessionVersion u' = v)" if "u' \<in> set us'" for u'
      using v1 [OF that] by auto
    then show ?thesis by (simp add: revokeSessionForWallet_def count_zero)
  qed
  moreover have "getSessionVersion us' x = getSessionVersion us x" if "x \<noteq> w" for x
  proof (cases "find (\<lambda>u. u_walletAddress u = x) us")
    case None
    then show ?thesis unfolding us'(1) version_after_update by (simp add: getSessionVersion_def)
  next
    case (Some y)
    then have "u_walletAddress y = x" using find_Some_mem by fastforce
    with Some that show ?thesis unfolding us'(1) version_after_update by (simp add: getSessionVersion_def)
  qed
  moreover have "authJwtMiddleware verify (\<lambda>x. Inr (getSessionVersion us' x)) header \<noteq> Authenticated w v"
    using authenticated_version [of verify us' header w v] new by auto
  ultimately show ?thesis by blast
qed

definition sample_users :: "unit users" where
  "sample_users = [\<lparr>u_walletAddress = ''GA'', u_email = Some ''a@x'', u_sessionVersion = 2\<rparr>,
     \<lparr>u_walletAddress = ''GB'', u_email = Some ''a@x'', u_sessionVersion = 3\<rparr>]"

theorem logout_revokes_tokens_witness:
  "\<exists>us'. revokeSessionForWallet sample_users ''GA'' 2 = (us', 1)
    \<and> snd (revokeSessionForWallet us' ''GA'' 2) = 0 \<and> getSessionVersion us' ''GB'' = getSessionVersion sample_users ''GB''"
proof -
  have u: "wallets_unique sample_users" by code_simp
  have "snd (revokeSessionForWallet sample_users ''GA'' 2) = 1" by code_simp
  then obtain us' where e: "revokeSessionForWallet sample_users ''GA'' 2 = (us', 1)"
    by (cases "revokeSessionForWallet sample_users ''GA'' 2") auto
  have "''GB'' \<noteq> ''GA''" by simp
  with logout_revokes_tokens [OF u e, of "\<lambda>_. Inl ()" None] e show ?thesis by auto
qed

text \<open>
  A password reset revokes every session of the address and its token works once. The token
  carries a version \<open>v\<close> no higher than the highest version of the address; a confirmation either
  revokes nothing and changes no row, or moves every account of the address past what it had, and
  a second confirmation with the same token then revokes nothing.
\<close>

theorem password_reset_single_use:
  assumes "getMaxSessionVersionForEmail us email = Some m" "v \<le> m"
    and "revokeSessionsForEmail us email v = (us', n)"
  shows "snd (revokeSessionsForEmail us' email v) = 0
    \<and> (if n = 0 then us' = us
       else us' = map (\<lambda>u. if u_email u = Some email then bump u else u) us)"
proof -
  let ?newer = "\<exists>x \<in> set us. u_email x = Some email \<and> u_sessionVersion x > v"
  let ?P = "\<lambda>u. u_email u = Some email \<and> u_sessionVersion u \<le> v \<and> \<not> ?newer"
  have r: "us' = map (\<lambda>u. if ?P u then bump u else u) us" "n = snd (update_where ?P us)"
    using assms(3) by (simp_all add: revokeSessionsForEmail_def update_where_def)
  obtain u where u: "u \<in> set us" "u_email u = Some email" "v \<le> u_sessionVersion u"
    using assms(1,2) by (auto elim: max_version_row)
  have moved: "\<exists>x \<in> set us'. u_email x = Some email \<and> u_sessionVersion x > v"
  proof (cases ?newer)
    case True
    then show ?thesis using r(1) by auto
  next
    case False
    with u have "?P u" by force
    then have "bump u \<in> set us'" unfolding r(1) using u(1) by force
    moreover have "u_email (bump u) = Some email" "u_sessionVersion (bump u) > v"
      using u by (simp_all add: bump_def)
    ultimately show ?thesis by blast
  qed
  then have "snd (revokeSessionsForEmail us' email v) = 0"
    by (simp add: revokeSessionsForEmail_def count_zero)
  moreover have "if n = 0 then us' = us else us' = map (\<lambda>u. if u_email u = Some email then bump u else u) us"
  proof (cases "n = 0")
    case True
    then have "\<forall>u \<in> set us. \<not> ?P u" using count_zero [of ?P us] r(2) by simp
    then have "us' = map (\<lambda>u. u) us" unfolding r(1) by (intro map_cong) auto
    with True show ?thesis by simp
  next
    case False
    then obtain x where "x \<in> set us" "?P x" using count_zero [of ?P us] r(2) by auto
    then have "\<not> ?newer" by simp
    then have "us' = map (\<lambda>u. if u_email u = Some email then bump u else u) us"
      unfolding r(1) by (intro map_cong) (auto simp: not_less)
    with False show ?thesis by simp
  qed
  ultimately show ?thesis by blast
qed

theorem password_reset_single_use_witness:
  "\<exists>us' n. revokeSessionsForEmail sample_users ''a@x'' 3 = (us', n) \<and> snd (revokeSessionsForEmail us' ''a@x'' 3) = 0"
proof -
  have m: "getMaxSessionVersionForEmail sample_users ''a@x'' = Some 3" by code_simp
  obtain us' n where e: "revokeSessionsForEmail sample_users ''a@x'' 3 = (us', n)" by fastforce
  from password_reset_single_use [OF m _ e] e show ?thesis by auto
qed

text \<open>
  A verification link works at most once. Along any interleaving of confirmations and
  invalidations (of any addresses, with any hashes, at any times) at most one confirmation of an
  address succeeds until its token is rotated; and after a rotation only the newly issued hash,
  before its expiry, can succeed.
\<close>

theorem verification_token_single_use:
  "successes (normalizeEmail email) ps (snd (token_run ts ps)) \<le> 1
   \<and> (snd (consumeEmailVerificationToken (rotateEmailVerificationToken ts email issued) email' h now)
        = (if normalizeEmail email' = normalizeEmail email
           then h = it_tokenHash issued \<and> now < it_expiresAt issued
           else snd (consumeEmailVerificationToken ts email' h now)))"
  using at_most_one_success
  by (auto simp: consumeEmailVerificationToken_def rotateEmailVerificationToken_def split: option.splits)

end
