(* ===== verification/Read_Cache.thy ===== *)
theory Read_Cache
  imports Js_Text Js_Map
begin

text \<open>
  The bounded read cache (\<open>backend/src/services/read-cache.ts\<close>). The two maps and the counters are
  the record \<open>ReadCache\<close>. A pending fetch is identified by a number that is drawn when it starts
  (the identity of its promise); \<open>getOrFetch\<close> is split at the await into the part that returns or
  joins a promise and the continuation that runs when the fetch settles, so that deletions and
  other fetches interleave.
\<close>

section \<open>Model\<close>

record 'v CacheEntry =
  ce_value :: 'v
  ce_expiresAt :: instant
  ce_lastAccessedAt :: instant

record 'v ReadCache =
  rc_defaultTtlMs :: int
  rc_maxEntries :: nat
  rc_store :: "(string, 'v CacheEntry) jmap"
  rc_inflight :: "(string, nat) jmap"
  rc_hits :: nat
  rc_misses :: nat

definition DEFAULT_TTL_MS :: int where
  "DEFAULT_TTL_MS = 30000"

definition DEFAULT_MAX_ENTRIES :: nat where
  "DEFAULT_MAX_ENTRIES = 500"

definition new_ReadCache :: "int option \<Rightarrow> nat option \<Rightarrow> 'v ReadCache" where
  "new_ReadCache defaultTtlMs maxEntries =
     \<lparr>rc_defaultTtlMs = default_to DEFAULT_TTL_MS defaultTtlMs,
      rc_maxEntries = default_to DEFAULT_MAX_ENTRIES maxEntries,
      rc_store = [], rc_inflight = [], rc_hits = 0, rc_misses = 0\<rparr>"

definition cache_get :: "instant \<Rightarrow> 'v ReadCache \<Rightarrow> string \<Rightarrow> 'v ReadCache \<times> 'v option" where
  "cache_get now c key =
     (case jm_get (rc_store c) key of
        None \<Rightarrow> (c\<lparr>rc_misses := rc_misses c + 1\<rparr>, None)
      | Some entry \<Rightarrow>
        if now > ce_expiresAt entry
        then (c\<lparr>rc_store := jm_delete (rc_store c) key, rc_misses := rc_misses c + 1\<rparr>, None)
        else (c\<lparr>rc_hits := rc_hits c + 1,
                rc_store := jm_set (jm_delete (rc_store c) key) key (entry\<lparr>ce_lastAccessedAt := now\<rparr>)\<rparr>,
              Some (ce_value entry)))"

text \<open>\<open>evictLRU\<close> removes the first key in insertion order.\<close>

definition evictLRU :: "'v ReadCache \<Rightarrow> 'v ReadCache" where
  "evictLRU c = (case jm_keys (rc_store c) of
     [] \<Rightarrow> c | lruKey # _ \<Rightarrow> c\<lparr>rc_store := jm_delete (rc_store c) lruKey\<rparr>)"

definition cache_set :: "instant \<Rightarrow> 'v ReadCache \<Rightarrow> string \<Rightarrow> 'v \<Rightarrow> int option \<Rightarrow> 'v ReadCache" where
  "cache_set now c key v ttlMs =
     (let ttl = default_to (rc_defaultTtlMs c) ttlMs;
          c1 = (if length (rc_store c) \<ge> rc_maxEntries c \<and> \<not> jm_has (rc_store c) key then evictLRU c else c)
      in c1\<lparr>rc_store := jm_set (rc_store c1) key
              \<lparr>ce_value = v, ce_expiresAt = now + ttl, ce_lastAccessedAt = now\<rparr>\<rparr>)"

datatype 'v fetch_answer = Cached 'v | Joined nat | Started nat

definition getOrFetch :: "instant \<Rightarrow> nat \<Rightarrow> 'v ReadCache \<Rightarrow> string \<Rightarrow> 'v ReadCache \<times> 'v fetch_answer" where
  "getOrFetch now promise c key =
     (case cache_get now c key of
        (c1, Some v) \<Rightarrow> (c1, Cached v)
      | (c1, None) \<Rightarrow>
        (case jm_get (rc_inflight c1) key of
           Some existing \<Rightarrow> (c1, Joined existing)
         | None \<Rightarrow> (c1\<lparr>rc_inflight := jm_set (rc_inflight c1) key promise\<rparr>, Started promise)))"

text \<open>
  The continuation of the fetch \<open>promise\<close> for \<open>key\<close>: \<open>then\<close> with a value, \<open>finally\<close> in both cases.
\<close>

definition fetch_settled :: "instant \<Rightarrow> nat \<Rightarrow> 'v ReadCache \<Rightarrow> string \<Rightarrow> 'v option \<Rightarrow> 'v ReadCache" where
  "fetch_settled now promise c key outcome =
     (let c1 = (case outcome of
            None \<Rightarrow> c
          | Some v \<Rightarrow> if jm_get (rc_inflight c) key = Some promise then cache_set now c key v None else c)
      in if jm_get (rc_inflight c1) key = Some promise
         then c1\<lparr>rc_inflight := jm_delete (rc_inflight c1) key\<rparr> else c1)"

definition cache_delete :: "'v ReadCache \<Rightarrow> string \<Rightarrow> 'v ReadCache \<times> bool" where
  "cache_delete c key =
     (c\<lparr>rc_store := jm_delete (rc_store c) key, rc_inflight := jm_delete (rc_inflight c) key\<rparr>,
      jm_has (rc_store c) key)"

definition deleteByPrefix :: "'v ReadCache \<Rightarrow> string \<Rightarrow> 'v ReadCache \<times> nat" where
  "deleteByPrefix c prefix =
     (c\<lparr>rc_store := filter (\<lambda>(k, e). \<not> starts_with k prefix) (rc_store c),
        rc_inflight := filter (\<lambda>(k, e). \<not> starts_with k prefix) (rc_inflight c)\<rparr>,
      length (filter (\<lambda>(k, e). starts_with k prefix) (rc_store c)))"

definition cache_clear :: "'v ReadCache \<Rightarrow> 'v ReadCache" where
  "cache_clear c = c\<lparr>rc_store := [], rc_inflight := []\<rparr>"

definition purgeExpired :: "instant \<Rightarrow> 'v ReadCache \<Rightarrow> 'v ReadCache" where
  "purgeExpired now c = c\<lparr>rc_store := filter (\<lambda>(k, e). \<not> now > ce_expiresAt e) (rc_store c)\<rparr>"

record ReadCacheStats =
  st_size :: nat
  st_keys :: "string list"
  st_hits :: nat
  st_misses :: nat

definition cache_stats :: "instant \<Rightarrow> 'v ReadCache \<Rightarrow> 'v ReadCache \<times> ReadCacheStats" where
  "cache_stats now c =
     (let c1 = purgeExpired now c
      in (c1, \<lparr>st_size = length (rc_store c1), st_keys = jm_keys (rc_store c1),
               st_hits = rc_hits c1, st_misses = rc_misses c1\<rparr>))"

section \<open>Histories\<close>

text \<open>
  A system of the cache, the next unused promise number, and the fetches still running with their
  key. A fetch may settle only once and only if it was started.
\<close>

record 'v cache_system =
  cs_cache :: "'v ReadCache"
  cs_next :: nat
  cs_running :: "(nat \<times> string) list"

datatype 'v cache_event =
    C_get instant string
  | C_fetch instant string
  | C_settle instant nat string "'v option"
  | C_set instant string 'v "int option"
  | C_delete string
  | C_prefix string
  | C_clear
  | C_stats instant

fun cache_event_ok :: "'v cache_system \<Rightarrow> 'v cache_event \<Rightarrow> bool" where
  "cache_event_ok s (C_settle _ p key _) = ((p, key) \<in> set (cs_running s))"
| "cache_event_ok s _ = True"

fun cache_step :: "'v cache_system \<Rightarrow> 'v cache_event \<Rightarrow> 'v cache_system" where
  "cache_step s (C_get now key) = s\<lparr>cs_cache := fst (cache_get now (cs_cache s) key)\<rparr>"
| "cache_step s (C_fetch now key) =
     (case getOrFetch now (cs_next s) (cs_cache s) key of
        (c, Started p) \<Rightarrow> s\<lparr>cs_cache := c, cs_next := Suc (cs_next s), cs_running := (p, key) # cs_running s\<rparr>
      | (c, _) \<Rightarrow> s\<lparr>cs_cache := c\<rparr>)"
| "cache_step s (C_settle now p key outcome) =
     s\<lparr>cs_cache := fetch_settled now p (cs_cache s) key outcome,
       cs_running := filter (\<lambda>(q, k). q \<noteq> p) (cs_running s)\<rparr>"
| "cache_step s (C_set now key v ttl) = s\<lparr>cs_cache := cache_set now (cs_cache s) key v ttl\<rparr>"
| "cache_step s (C_delete key) = s\<lparr>cs_cache := fst (cache_delete (cs_cache s) key)\<rparr>"
| "cache_step s (C_prefix prefix) = s\<lparr>cs_cache := fst (deleteByPrefix (cs_cache s) prefix)\<rparr>"
| "cache_step s C_clear = s\<lparr>cs_cache := cache_clear (cs_cache s)\<rparr>"
| "cache_step s (C_stats now) = s\<lparr>cs_cache := fst (cache_stats now (cs_cache s))\<rparr>"

inductive cache_reachable :: "int option \<Rightarrow> nat option \<Rightarrow> 'v cache_system \<Rightarrow> bool" for ttl cap where
  cache_init: "cache_reachable ttl cap \<lparr>cs_cache = new_ReadCache ttl cap, cs_next = 0, cs_running = []\<rparr>"
| cache_event: "cache_reachable ttl cap s \<Longrightarrow> cache_event_ok s e \<Longrightarrow> cache_reachable ttl cap (cache_step s e)"

section \<open>Lemmas\<close>

definition store_ok :: "'v ReadCache \<Rightarrow> bool" where
  "store_ok c \<longleftrightarrow> jm_ok (rc_store c) \<and> jm_ok (rc_inflight c)
     \<and> (rc_maxEntries c \<noteq> 0 \<longrightarrow> length (rc_store c) \<le> rc_maxEntries c)"

lemma store_ok_get: "store_ok c \<Longrightarrow> store_ok (fst (cache_get now c key))"
proof -
  assume c: "store_ok c"
  have "length (jm_set (jm_delete m key) key e) \<le> length m" if "jm_has m key" "jm_ok m"
    for m :: "(string, 'a CacheEntry) jmap" and e
    using jms.size_del_present [of m key] jms.size_put_le [of "jm_delete m key" key e] that
    by (simp add: jm_keys_def jm_has_get)
  with c show ?thesis
    using length_jm_delete [of "rc_store c" key]
    by (auto simp: cache_get_def store_ok_def jm_has_get split: option.splits intro: le_trans)
qed

lemma store_ok_set: "store_ok c \<Longrightarrow> store_ok (cache_set now c key v ttl)"
proof -
  assume c: "store_ok c"
  define c1 where "c1 = (if length (rc_store c) \<ge> rc_maxEntries c \<and> \<not> jm_has (rc_store c) key then evictLRU c else c)"
  have e: "store_ok (evictLRU c) \<and> rc_maxEntries (evictLRU c) = rc_maxEntries c
     \<and> (rc_store c \<noteq> [] \<longrightarrow> length (rc_store (evictLRU c)) < length (rc_store c))"
  proof (cases "rc_store c")
    case Nil
    with c show ?thesis by (simp add: evictLRU_def jm_keys_def)
  next
    case (Cons kv m)
    have "length (jm_delete (rc_store c) (fst kv)) < length (rc_store c)"
    proof -
      have "length (filter (\<lambda>(k', _). k' \<noteq> fst kv) m) < Suc (length m)"
        using length_filter_le [of "\<lambda>(k', _). k' \<noteq> fst kv" m] by linarith
      then show ?thesis using Cons by (cases kv) (simp add: jm_delete_def)
    qed
    with c Cons show ?thesis by (auto simp: evictLRU_def jm_keys_def store_ok_def)
  qed
  have c1: "store_ok c1" "rc_maxEntries c1 = rc_maxEntries c" using c e by (auto simp: c1_def)
  have "length (jm_set (rc_store c1) key w) \<le> rc_maxEntries c" if "rc_maxEntries c \<noteq> 0" for w
  proof (cases "jm_has (rc_store c1) key")
    case True
    with c1 that show ?thesis by (simp add: length_jm_set store_ok_def)
  next
    case False
    have "length (rc_store c1) < rc_maxEntries c"
    proof (cases "length (rc_store c) \<ge> rc_maxEntries c \<and> \<not> jm_has (rc_store c) key")
      case True
      with that have "rc_store c \<noteq> []" by auto
      with e True c that show ?thesis by (auto simp: c1_def store_ok_def)
    next
      case n: False
      then have "c1 = c" unfolding c1_def by (rule if_not_P)
      with n False show ?thesis by (simp add: not_le)
    qed
    with False show ?thesis by (simp add: length_jm_set)
  qed
  with c1 show ?thesis by (auto simp: cache_set_def Let_def c1_def [symmetric] store_ok_def)
qed

lemma set_frame: "rc_inflight (cache_set now c key v ttl) = rc_inflight c"
  "rc_maxEntries (cache_set now c key v ttl) = rc_maxEntries c"
  by (auto simp: cache_set_def evictLRU_def Let_def split: list.splits)

lemma get_frame: "rc_inflight (fst (cache_get now c key)) = rc_inflight c"
  "rc_maxEntries (fst (cache_get now c key)) = rc_maxEntries c"
  by (auto simp: cache_get_def split: option.splits)

lemma store_ok_filter:
  "store_ok c \<Longrightarrow> store_ok (c\<lparr>rc_store := filter P (rc_store c), rc_inflight := filter Q (rc_inflight c)\<rparr>)"
proof -
  assume c: "store_ok c"
  have "length (filter P (rc_store c)) \<le> rc_maxEntries c" if "rc_maxEntries c \<noteq> 0"
    using length_filter_le [of P "rc_store c"] c that unfolding store_ok_def by linarith
  with c show ?thesis by (simp add: store_ok_def)
qed

lemma store_ok_inflight: "store_ok c \<Longrightarrow> jm_ok m \<Longrightarrow> store_ok (c\<lparr>rc_inflight := m\<rparr>)"
  by (simp add: store_ok_def)

text \<open>The promises registered as in flight are exactly running ones, each under its own key.\<close>

definition cache_inv :: "nat option \<Rightarrow> 'v cache_system \<Rightarrow> bool" where
  "cache_inv cap s \<longleftrightarrow> store_ok (cs_cache s) \<and> rc_maxEntries (cs_cache s) = default_to DEFAULT_MAX_ENTRIES cap
     \<and> (\<forall>(p, k) \<in> set (cs_running s). p < cs_next s)
     \<and> distinct (map fst (cs_running s))
     \<and> (\<forall>k p. jm_get (rc_inflight (cs_cache s)) k = Some p \<longrightarrow> (p, k) \<in> set (cs_running s))"

lemma cache_inv_same_inflight:
  "\<lbrakk>cache_inv cap s; store_ok c; rc_inflight c = rc_inflight (cs_cache s); rc_maxEntries c = rc_maxEntries (cs_cache s)\<rbrakk>
     \<Longrightarrow> cache_inv cap (s\<lparr>cs_cache := c\<rparr>)"
  by (simp add: cache_inv_def)

lemma cache_inv_less_inflight:
  "\<lbrakk>cache_inv cap s; store_ok c; rc_maxEntries c = rc_maxEntries (cs_cache s);
    \<And>k p. jm_get (rc_inflight c) k = Some p \<Longrightarrow> jm_get (rc_inflight (cs_cache s)) k = Some p\<rbrakk>
     \<Longrightarrow> cache_inv cap (s\<lparr>cs_cache := c\<rparr>)"
  by (simp add: cache_inv_def)

lemma settled_cases:
  "fetch_settled now p c key outcome = c \<or>
   (jm_get (rc_inflight c) key = Some p \<and>
    fetch_settled now p c key outcome =
      (let c1 = (case outcome of None \<Rightarrow> c | Some v \<Rightarrow> cache_set now c key v None)
       in c1\<lparr>rc_inflight := jm_delete (rc_inflight c) key\<rparr>))"
  by (auto simp: fetch_settled_def Let_def set_frame split: option.splits)

lemma cache_inv_fetch: "cache_inv cap s \<Longrightarrow> cache_inv cap (cache_step s (C_fetch now key))"
proof -
  assume inv: "cache_inv cap s"
  let ?c = "fst (cache_get now (cs_cache s) key)"
  have ok: "store_ok ?c" "rc_inflight ?c = rc_inflight (cs_cache s)" "rc_maxEntries ?c = rc_maxEntries (cs_cache s)"
    using inv by (simp_all add: cache_inv_def store_ok_get get_frame)
  have same: "cache_inv cap (s\<lparr>cs_cache := ?c\<rparr>)" using cache_inv_same_inflight [OF inv ok] .
  show ?thesis
  proof (cases "snd (cache_get now (cs_cache s) key) = None \<and> jm_get (rc_inflight ?c) key = None")
    case False
    then have "cache_step s (C_fetch now key) = s\<lparr>cs_cache := ?c\<rparr>"
      by (auto simp: getOrFetch_def split: prod.splits option.splits)
    with same show ?thesis by simp
  next
    case True
    let ?c2 = "?c\<lparr>rc_inflight := jm_set (rc_inflight ?c) key (cs_next s)\<rparr>"
    have step: "cache_step s (C_fetch now key) =
        s\<lparr>cs_cache := ?c2, cs_next := Suc (cs_next s), cs_running := (cs_next s, key) # cs_running s\<rparr>"
      using True by (auto simp: getOrFetch_def split: prod.splits option.splits)
    have "store_ok ?c2" using ok(1) by (simp add: store_ok_def)
    with inv ok show ?thesis unfolding step by (fastforce simp: cache_inv_def)
  qed
qed

lemma cache_inv_settle:
  assumes inv: "cache_inv cap s" and run: "(p, key) \<in> set (cs_running s)"
  shows "cache_inv cap (cache_step s (C_settle now p key outcome))"
proof -
  let ?c = "fetch_settled now p (cs_cache s) key outcome"
  have ok: "store_ok ?c" "rc_maxEntries ?c = rc_maxEntries (cs_cache s)"
    using settled_cases [of now p "cs_cache s" key outcome] inv
    by (auto simp: cache_inv_def Let_def set_frame store_ok_set store_ok_inflight store_ok_def [of "cs_cache s"]
        split: option.splits)
  have infl: "jm_get (rc_inflight ?c) k = Some q \<Longrightarrow> jm_get (rc_inflight (cs_cache s)) k = Some q \<and> q \<noteq> p" for k q
  proof -
    assume g: "jm_get (rc_inflight ?c) k = Some q"
    have one: "k' = key" if "jm_get (rc_inflight (cs_cache s)) k' = Some p" for k'
    proof -
      have "(p, k') \<in> set (cs_running s)" using inv that by (auto simp: cache_inv_def)
      with run inv show ?thesis by (metis cache_inv_def eq_key_imp_eq_value)
    qed
    have "rc_inflight ?c = (if jm_get (rc_inflight (cs_cache s)) key = Some p
        then jm_delete (rc_inflight (cs_cache s)) key else rc_inflight (cs_cache s))"
      by (auto simp: fetch_settled_def Let_def set_frame split: option.splits)
    with g have q: "jm_get (rc_inflight (cs_cache s)) k = Some q"
      "k = key \<longrightarrow> jm_get (rc_inflight (cs_cache s)) key \<noteq> Some p" by (simp_all split: if_splits)
    with one [of k] show ?thesis by blast
  qed
  have "distinct (map fst (filter (\<lambda>(q, k). q \<noteq> p) (cs_running s)))"
    using inv by (simp add: cache_inv_def distinct_map_fst_filter)
  moreover have "(q, k) \<in> set (filter (\<lambda>(q, k). q \<noteq> p) (cs_running s))"
    if "jm_get (rc_inflight ?c) k = Some q" for k q
    using infl [OF that] inv by (auto simp: cache_inv_def)
  moreover have "\<forall>(q, k) \<in> set (filter (\<lambda>(q, k). q \<noteq> p) (cs_running s)). q < cs_next s"
    using inv by (auto simp: cache_inv_def)
  ultimately show ?thesis using inv ok by (simp add: cache_inv_def)
qed

lemma cache_inv_step: "cache_inv cap s \<Longrightarrow> cache_event_ok s e \<Longrightarrow> cache_inv cap (cache_step s e)"
proof (cases e)
  case (C_get now key)
  assume inv: "cache_inv cap s"
  then have "store_ok (cs_cache s)" by (simp add: cache_inv_def)
  from cache_inv_same_inflight [OF inv store_ok_get [OF this]] C_get show ?thesis by (simp add: get_frame)
next
  case (C_set now key v ttl)
  assume inv: "cache_inv cap s"
  then have "store_ok (cs_cache s)" by (simp add: cache_inv_def)
  from cache_inv_same_inflight [OF inv store_ok_set [OF this]] C_set show ?thesis by (simp add: set_frame)
next
  case (C_delete key)
  assume inv: "cache_inv cap s"
  then have "store_ok (fst (cache_delete (cs_cache s) key))"
    using store_ok_filter [of "cs_cache s"] by (simp add: cache_inv_def cache_delete_def jm_delete_def)
  from cache_inv_less_inflight [OF inv this] C_delete show ?thesis by (force simp: cache_delete_def split: if_splits)
next
  case (C_prefix prefix)
  assume inv: "cache_inv cap s"
  then have "store_ok (cs_cache s)" by (simp add: cache_inv_def)
  then have "store_ok (fst (deleteByPrefix (cs_cache s) prefix))" "jm_ok (rc_inflight (cs_cache s))"
    by (simp_all add: deleteByPrefix_def store_ok_filter) (simp add: store_ok_def)
  from cache_inv_less_inflight [OF inv this(1)] C_prefix this(2) show ?thesis
    by (force simp: deleteByPrefix_def jm_get_filter split: option.splits if_splits)
next
  case C_clear
  assume inv: "cache_inv cap s"
  then have "store_ok (cache_clear (cs_cache s))" by (simp add: cache_inv_def cache_clear_def store_ok_def)
  from cache_inv_less_inflight [OF inv this] C_clear show ?thesis by (simp add: cache_clear_def)
next
  case (C_stats now)
  assume inv: "cache_inv cap s"
  then have "store_ok (cs_cache s)" by (simp add: cache_inv_def)
  from store_ok_filter [OF this, where P = "\<lambda>(k, e). \<not> now > ce_expiresAt e" and Q = "\<lambda>_. True"]
  have "store_ok (fst (cache_stats now (cs_cache s)))"
    by (simp add: cache_stats_def purgeExpired_def store_ok_def Let_def)
  from cache_inv_less_inflight [OF inv this] C_stats show ?thesis
    by (simp add: cache_stats_def purgeExpired_def Let_def)
next
  case (C_fetch now key)
  assume "cache_inv cap s"
  then show ?thesis unfolding C_fetch by (rule cache_inv_fetch)
next
  case (C_settle now p key outcome)
  assume "cache_inv cap s" "cache_event_ok s e"
  then show ?thesis unfolding C_settle by (intro cache_inv_settle) auto
qed

lemma cache_reachable_inv: "cache_reachable ttl cap s \<Longrightarrow> cache_inv cap s"
proof (induction rule: cache_reachable.induct)
  case cache_init
  show ?case by (simp add: cache_inv_def store_ok_def new_ReadCache_def)
qed (simp add: cache_inv_step)

text \<open>A running fetch that is no longer registered: nothing can register it again.\<close>

definition discarded :: "nat \<Rightarrow> 'v cache_system \<Rightarrow> bool" where
  "discarded p s \<longleftrightarrow> p < cs_next s \<and> (\<forall>k. jm_get (rc_inflight (cs_cache s)) k \<noteq> Some p)"

lemma inflight_step:
  assumes "jm_get (rc_inflight (cs_cache (cache_step s e))) k = Some p" "cache_inv cap s"
  shows "jm_get (rc_inflight (cs_cache s)) k = Some p \<or> p = cs_next s"
proof (cases e)
  case (C_fetch now key)
  with assms get_frame(1) [of now "cs_cache s" key] show ?thesis
    by (auto simp: getOrFetch_def split: prod.splits option.splits if_splits)
next
  case (C_settle now q key outcome)
  with assms show ?thesis
    by (auto simp: fetch_settled_def Let_def set_frame split: option.splits if_splits)
next
  case (C_prefix prefix)
  have "jm_ok (rc_inflight (cs_cache s))" using assms(2) by (simp add: cache_inv_def store_ok_def)
  with assms C_prefix show ?thesis
    by (auto simp: deleteByPrefix_def jm_get_filter split: option.splits if_splits)
qed (use assms in \<open>auto simp: get_frame set_frame cache_delete_def cache_clear_def cache_stats_def purgeExpired_def
    Let_def split: if_splits\<close>)

lemma next_mono: "cs_next s \<le> cs_next (cache_step s e)"
  by (cases e) (auto split: prod.splits fetch_answer.splits)

lemma discarded_step: "discarded p s \<Longrightarrow> cache_inv cap s \<Longrightarrow> discarded p (cache_step s e)"
  using inflight_step [of s e _ p cap] next_mono [of s e] by (fastforce simp: discarded_def)

fun cache_run :: "'v cache_system \<Rightarrow> 'v cache_event list \<Rightarrow> 'v cache_system" where
  "cache_run s [] = s"
| "cache_run s (e # es) = cache_run (cache_step s e) es"

fun cache_events_ok :: "'v cache_system \<Rightarrow> 'v cache_event list \<Rightarrow> bool" where
  "cache_events_ok s [] = True"
| "cache_events_ok s (e # es) = (cache_event_ok s e \<and> cache_events_ok (cache_step s e) es)"

lemma discarded_run:
  "discarded p s \<Longrightarrow> cache_inv cap s \<Longrightarrow> cache_events_ok s es \<Longrightarrow> discarded p (cache_run s es)"
  by (induction es arbitrary: s) (auto simp: discarded_step cache_inv_step)

section \<open>Properties\<close>

text \<open>
  The cache stays bounded and coalesces. In every reachable state the store has at most the
  configured number of entries (for a bound of at least one), and the fetches registered as in
  flight are running ones, at most one per key: asking again for a key that is in flight and not
  cached joins that fetch instead of starting another.
\<close>

theorem read_cache_bounded:
  assumes "cache_reachable ttl (Some cap) s" "cap \<noteq> 0"
  shows "length (rc_store (cs_cache s)) \<le> cap
    \<and> (\<forall>k p. jm_get (rc_inflight (cs_cache s)) k = Some p \<longrightarrow> (p, k) \<in> set (cs_running s)
        \<and> (snd (cache_get now (cs_cache s) k) = None \<longrightarrow>
             snd (getOrFetch now (cs_next s) (cs_cache s) k) = Joined p))"
proof -
  have inv: "cache_inv (Some cap) s" using cache_reachable_inv [OF assms(1)] .
  have join: "snd (getOrFetch now (cs_next s) (cs_cache s) k) = Joined p"
    if "jm_get (rc_inflight (cs_cache s)) k = Some p" "snd (cache_get now (cs_cache s) k) = None" for k p
    using that get_frame(1) [of now "cs_cache s" k] by (auto simp: getOrFetch_def split: prod.splits)
  from inv assms(2) have "length (rc_store (cs_cache s)) \<le> cap" by (auto simp: cache_inv_def store_ok_def)
  with inv join show ?thesis by (simp add: cache_inv_def)
qed

definition sample_cache :: "nat cache_system" where
  "sample_cache = cache_step \<lparr>cs_cache = new_ReadCache (Some 50) (Some 2), cs_next = 0, cs_running = []\<rparr> (C_fetch 1 ''k:1'')"

lemma sample_cache_reachable: "cache_reachable (Some 50) (Some 2) sample_cache"
  unfolding sample_cache_def by (rule cache_event [OF cache_init]) simp

theorem read_cache_bounded_witness:
  "length (rc_store (cs_cache sample_cache)) \<le> 2"
  using read_cache_bounded [OF sample_cache_reachable] by simp

text \<open>The operations that drop a key: its deletion, the deletion of one of its prefixes, the clearing.\<close>

fun invalidates :: "'v cache_event \<Rightarrow> string \<Rightarrow> bool" where
  "invalidates (C_delete k) key = (k = key)"
| "invalidates (C_prefix prefix) key = starts_with key prefix"
| "invalidates C_clear key = True"
| "invalidates _ key = False"

lemma invalidates_drops:
  assumes "invalidates e key" "cache_inv cap s"
  shows "jm_get (rc_store (cs_cache (cache_step s e))) key = None"
    and "jm_get (rc_inflight (cs_cache (cache_step s e))) key = None"
    and "cs_next (cache_step s e) = cs_next s" "cs_running (cache_step s e) = cs_running s"
    and "cache_event_ok s e"
proof -
  have ok: "jm_ok (rc_store (cs_cache s))" "jm_ok (rc_inflight (cs_cache s))"
    using assms(2) by (simp_all add: cache_inv_def store_ok_def)
  show "jm_get (rc_store (cs_cache (cache_step s e))) key = None"
    using assms(1) ok(1)
    by (cases e) (auto simp: cache_delete_def deleteByPrefix_def cache_clear_def jm_get_filter split: option.splits)
  show "jm_get (rc_inflight (cs_cache (cache_step s e))) key = None"
    using assms(1) ok(2)
    by (cases e) (auto simp: cache_delete_def deleteByPrefix_def cache_clear_def jm_get_filter split: option.splits)
qed (use assms(1) in \<open>cases e; simp\<close>)+

text \<open>
  (C9) An invalidation takes the key out and cannot be undone by an older fetch. When a key is
  deleted, alone, by one of its prefixes or by clearing, while a fetch for it is running, then the
  key is no longer cached, and whatever happens afterwards, including new fetches of the same key,
  the older fetch leaves the cache unchanged when it finally resolves or rejects.
\<close>

theorem invalidated_fetch_discarded:
  assumes "cache_reachable ttl cap s" "(p, key) \<in> set (cs_running s)" "invalidates e key"
    and "cache_events_ok (cache_step s e) es"
  shows "jm_get (rc_store (cs_cache (cache_step s e))) key = None
    \<and> fetch_settled now p (cs_cache (cache_run (cache_step s e) es)) key outcome
        = cs_cache (cache_run (cache_step s e) es)"
proof -
  have inv: "cache_inv cap s" using cache_reachable_inv [OF assms(1)] .
  note drop = invalidates_drops [OF assms(3) inv]
  have one: "k = key" if "jm_get (rc_inflight (cs_cache s)) k = Some p" for k
  proof -
    have "(p, k) \<in> set (cs_running s)" using inv that by (auto simp: cache_inv_def)
    with assms(2) inv show ?thesis by (metis cache_inv_def eq_key_imp_eq_value)
  qed
  have p: "p < cs_next s" using inv assms(2) by (auto simp: cache_inv_def)
  have "discarded p (cache_step s e)"
    unfolding discarded_def
  proof (intro conjI allI)
    show "p < cs_next (cache_step s e)" using p drop(3) by simp
    show "jm_get (rc_inflight (cs_cache (cache_step s e))) k \<noteq> Some p" for k
      using inflight_step [of s e k p, OF _ inv] one [of k] drop(2) p by auto
  qed
  moreover have "cache_inv cap (cache_step s e)" by (rule cache_inv_step [OF inv drop(5)])
  ultimately have "discarded p (cache_run (cache_step s e) es)"
    using discarded_run assms(4) by blast
  then show ?thesis
    using drop(1) settled_cases [of now p "cs_cache (cache_run (cache_step s e) es)" key outcome]
    by (auto simp: discarded_def)
qed

theorem invalidated_fetch_discarded_witness:
  "fetch_settled 9 0 (cs_cache (cache_run (cache_step sample_cache (C_prefix ''k'')) [C_fetch 5 ''k:1''])) ''k:1'' (Some 7)
    = cs_cache (cache_run (cache_step sample_cache (C_prefix ''k'')) [C_fetch 5 ''k:1''])"
proof -
  have "(0, ''k:1'') \<in> set (cs_running sample_cache)" by code_simp
  moreover have "invalidates (C_prefix ''k'') ''k:1''" by (simp add: starts_with_def)
  ultimately show ?thesis
    using invalidated_fetch_discarded [OF sample_cache_reachable, of 0 "''k:1''" "C_prefix ''k''" "[C_fetch 5 ''k:1'']" 9 "Some 7"] by simp
qed

text \<open>
  Rewriting a key does not refresh its position: the entry written last can be the one evicted next.
\<close>

lemma rewritten_entry_evicted:
  "jm_keys (rc_store (cache_set 4 (cache_set 3 (cache_set 2 (cache_set 1 (new_ReadCache None (Some 2))
     ''a'' (0::nat) None) ''b'' 0 None) ''a'' 1 None) ''c'' 0 None)) = [''b'', ''c'']"
  by code_simp

end
