(* ===== verification/Csv_Export.thy ===== *)
theory Csv_Export
  imports Js_Text
begin

text \<open>
  Safe CSV formatting (\<open>backend/src/lib/csv.ts\<close>): cells are neutralised against formula injection
  and quoted as RFC 4180 asks. The reference is a reader of RFC 4180 records, \<open>read_record\<close>, one
  pass over the text; what is written is shown to be read back cell by cell, whatever follows.

  Numbers are the integers the callers pass; their text is the decimal one.
\<close>

section \<open>Writing\<close>

datatype csv_value = Text string | Number int | Null

definition quote_char :: char where "quote_char = CHR 0x22"
definition cr :: char where "cr = CHR 0x0D"
definition lf :: char where "lf = CHR 0x0A"
definition comma :: char where "comma = CHR 0x2C"
definition apostrophe :: char where "apostrophe = CHR 0x27"

lemmas csv_chars = quote_char_def cr_def lf_def comma_def apostrophe_def

definition number_text :: "int \<Rightarrow> string" where
  "number_text n = (if n < 0 then CHR ''-'' # nat_text (nat (- n)) else nat_text (nat n))"

definition value_text :: "csv_value \<Rightarrow> string" where
  "value_text v = (case v of Null \<Rightarrow> [] | Text s \<Rightarrow> s | Number n \<Rightarrow> number_text n)"

definition FORMULA_TRIGGER :: "string \<Rightarrow> bool" where
  "FORMULA_TRIGGER s = (case s of [] \<Rightarrow> False
     | c # _ \<Rightarrow> c \<in> {CHR ''='', CHR ''+'', CHR ''-'', CHR ''@'', CHR 0x09, CHR 0x0D})"

definition NEEDS_QUOTING :: "string \<Rightarrow> bool" where
  "NEEDS_QUOTING s = list_ex (\<lambda>c. c = quote_char \<or> c = comma \<or> c = lf \<or> c = cr) s"

definition neutralized :: "csv_value \<Rightarrow> string" where
  "neutralized v = (let raw = value_text v in if FORMULA_TRIGGER raw then apostrophe # raw else raw)"

text \<open>\<open>replace(/"/g, '""')\<close>.\<close>

fun double_quotes :: "string \<Rightarrow> string" where
  "double_quotes [] = []"
| "double_quotes (c # s) = (if c = quote_char then quote_char # quote_char # double_quotes s else c # double_quotes s)"

definition toSafeCsvCell :: "csv_value \<Rightarrow> string" where
  "toSafeCsvCell v =
     (if NEEDS_QUOTING (neutralized v) then quote_char # double_quotes (neutralized v) @ [quote_char]
      else neutralized v)"

definition toCsvRow :: "csv_value list \<Rightarrow> string" where
  "toCsvRow vals = join [comma] (map toSafeCsvCell vals) @ [cr, lf]"

section \<open>Reading\<close>

text \<open>
  Where the reader stands: at the start of a cell, inside an unquoted cell, inside a quoted one,
  or after a quote that either ends the quoted cell or is the first of a doubled pair.
\<close>

datatype read_state = At_start | In_plain | In_quoted | After_quote

text \<open>
  One record: the cells up to the line break, and the rest of the text. \<open>acc\<close> holds the cell read
  so far, last character first. \<open>None\<close>: the text is not a record.
\<close>

fun read_record :: "read_state \<Rightarrow> string \<Rightarrow> string \<Rightarrow> (string list \<times> string) option" where
  "read_record st acc [] = None"
| "read_record In_quoted acc (c # s) =
     (if c = quote_char then read_record After_quote acc s else read_record In_quoted (c # acc) s)"
| "read_record st acc (c # s) =
     (if c = comma then map_option (apfst ((#) (rev acc))) (read_record At_start [] s)
      else if c = cr then (case s of d # s' \<Rightarrow> if d = lf then Some ([rev acc], s') else None | [] \<Rightarrow> None)
      else if c = quote_char then
        (case st of At_start \<Rightarrow> read_record In_quoted [] s
         | After_quote \<Rightarrow> read_record In_quoted (quote_char # acc) s | _ \<Rightarrow> None)
      else if st = After_quote \<or> c = lf then None
      else read_record In_plain (c # acc) s)"

section \<open>Reading back what was written\<close>

lemma formula_neutralized: "\<not> FORMULA_TRIGGER (neutralized v)"
  by (auto simp: neutralized_def Let_def FORMULA_TRIGGER_def csv_chars)

definition ends_cell :: "string \<Rightarrow> bool" where
  "ends_cell s = (case s of c # _ \<Rightarrow> c = comma \<or> c = cr | [] \<Rightarrow> False)"

lemma read_plain:
  assumes "\<not> NEEDS_QUOTING t" "st = At_start \<or> st = In_plain" "ends_cell s"
  shows "read_record st acc (t @ s) = read_record In_plain (rev t @ acc) s"
  using assms
proof (induction t arbitrary: st acc)
  case Nil
  then show ?case by (cases s; cases st) (auto simp: ends_cell_def csv_chars)
next
  case (Cons c t)
  have c: "c \<noteq> quote_char" "c \<noteq> comma" "c \<noteq> lf" "c \<noteq> cr" and t: "\<not> NEEDS_QUOTING t"
    using Cons.prems(1) by (auto simp: NEEDS_QUOTING_def)
  show ?case using Cons.prems(2) Cons.IH [OF t _ Cons.prems(3), of In_plain "c # acc"] c by auto
qed

lemma read_quoted:
  assumes "ends_cell s"
  shows "read_record In_quoted acc (double_quotes t @ quote_char # s) = read_record In_plain (rev t @ acc) s"
proof (induction t arbitrary: acc)
  case Nil
  then show ?case using assms by (cases s) (auto simp: ends_cell_def csv_chars)
next
  case (Cons c t)
  then show ?case by (simp add: csv_chars)
qed

lemma read_cell:
  assumes "ends_cell s"
  shows "read_record At_start [] (toSafeCsvCell v @ s) = read_record In_plain (rev (neutralized v)) s"
proof (cases "NEEDS_QUOTING (neutralized v)")
  case True
  have "read_record At_start [] (quote_char # t) = read_record In_quoted [] t" for t
    by (simp add: csv_chars)
  with True show ?thesis
    by (simp add: toSafeCsvCell_def read_quoted [OF assms, of "[]", simplified])
next
  case False
  then show ?thesis using read_plain [OF False _ assms, of At_start "[]"] by (simp add: toSafeCsvCell_def)
qed

text \<open>
  (C36) A written row is read back cell by cell, whatever text follows it: separators, quotes and
  line breaks inside values never move a cell boundary, and no cell read back starts a formula.
\<close>

theorem csv_row_roundtrip:
  assumes "vals \<noteq> []"
  shows "read_record At_start [] (toCsvRow vals @ rest) = Some (map neutralized vals, rest)
    \<and> (\<forall>v \<in> set vals. \<not> FORMULA_TRIGGER (neutralized v))"
  using assms
proof (induction vals rule: list_nonempty_induct)
  case (single v)
  have "ends_cell ([cr, lf] @ rest)" by (simp add: ends_cell_def)
  from read_cell [OF this, of v] show ?case by (simp add: toCsvRow_def formula_neutralized csv_chars)
next
  case (cons v vs)
  then obtain w ws where vs: "vs = w # ws" by (cases vs) auto
  have "toCsvRow (v # vs) @ rest = toSafeCsvCell v @ comma # toCsvRow vs @ rest"
    unfolding vs by (simp add: toCsvRow_def)
  moreover have "ends_cell (comma # toCsvRow vs @ rest)" by (simp add: ends_cell_def)
  ultimately show ?case using cons.IH by (simp add: read_cell formula_neutralized)
qed

theorem csv_row_roundtrip_witness:
  "read_record At_start [] (toCsvRow [Text ''=SUM(A1,B1)'', Null, Text ''+1''] @ ''id'')
     = Some ([apostrophe # ''=SUM(A1,B1)'', [], apostrophe # ''+1''], ''id'')"
  using csv_row_roundtrip [of "[Text ''=SUM(A1,B1)'', Null, Text ''+1'']" "''id''"]
  by (simp add: neutralized_def value_text_def FORMULA_TRIGGER_def)

end
