(* ===== verification/Keyset_Pages.thy ===== *)
theory Keyset_Pages
  imports Prelude
begin

text \<open>
  Keyset pagination as the services use it: rows are read newest first by a key that is unique among
  them, and a page ends with a cursor that stands for the key of its last row. The locale
  \<open>keyset_pages\<close> states what one page promises about the table it is taken from; its theorem says
  what a client gets that follows the cursors while the table changes between its requests. It is
  interpreted on the payout history and on the notification feed.
\<close>

abbreviation newest_first_by :: "('r \<Rightarrow> 'k::linorder) \<Rightarrow> 'r list \<Rightarrow> bool" where
  "newest_first_by key rs \<equiv> sorted_wrt (\<lambda>a b. key b < key a) rs"

definition below :: "('r \<Rightarrow> 'k::linorder) \<Rightarrow> ('c \<Rightarrow> 'k) \<Rightarrow> 'c option \<Rightarrow> 'r \<Rightarrow> bool" where
  "below key ckey c r = (case c of None \<Rightarrow> True | Some c \<Rightarrow> key r < ckey c)"

text \<open>The pages a client receives that follows the cursors, one table state per request, and whether it was told that nothing follows.\<close>

fun keyset_walk :: "('t \<Rightarrow> 'c option \<Rightarrow> 'r list \<times> 'c option) \<Rightarrow> 'c option \<Rightarrow> 't list \<Rightarrow> 'r list list \<times> bool" where
  "keyset_walk page c [] = ([], False)"
| "keyset_walk page c (t # ts) =
     (case page t c of
        (rs, None) \<Rightarrow> ([rs], True)
      | (rs, Some c') \<Rightarrow> apfst ((#) rs) (keyset_walk page (Some c') ts))"

locale keyset_pages =
  fixes key :: "'r \<Rightarrow> 'k::linorder" and ckey :: "'c \<Rightarrow> 'k"
    and ok :: "'t \<Rightarrow> bool" and visible :: "'t \<Rightarrow> 'r \<Rightarrow> bool"
    and page :: "'t \<Rightarrow> 'c option \<Rightarrow> 'r list \<times> 'c option"
  assumes page_newest_first: "\<lbrakk>ok t; page t c = (rs, n)\<rbrakk> \<Longrightarrow> newest_first_by key rs"
    and page_visible: "\<lbrakk>ok t; page t c = (rs, n); r \<in> set rs\<rbrakk> \<Longrightarrow> visible t r \<and> below key ckey c r"
    and page_last: "\<lbrakk>ok t; page t c = (rs, None); visible t r; below key ckey c r\<rbrakk> \<Longrightarrow> r \<in> set rs"
    and page_next: "\<lbrakk>ok t; page t c = (rs, Some c')\<rbrakk> \<Longrightarrow> rs \<noteq> [] \<and> ckey c' = key (last rs)"
    and page_gap: "\<lbrakk>ok t; page t c = (rs, Some c'); visible t r; below key ckey c r; ckey c' \<le> key r\<rbrakk> \<Longrightarrow> r \<in> set rs"
begin

lemma last_smallest:
  assumes "newest_first_by key rs" "r \<in> set rs"
  shows "key (last rs) \<le> key r"
  using assms by (induction rs) (auto split: if_splits intro: less_imp_le)

lemma walk_stable:
  assumes "\<forall>t \<in> set ts. ok t" "keyset_walk page c ts = (pages, True)"
  shows "newest_first_by key (concat pages)
    \<and> (\<forall>r \<in> set (concat pages). below key ckey c r \<and> (\<exists>t \<in> set ts. visible t r))
    \<and> (\<forall>r. below key ckey c r \<and> (\<forall>t \<in> set ts. visible t r) \<longrightarrow> r \<in> set (concat pages))"
  using assms
proof (induction ts arbitrary: c pages)
  case (Cons t ts)
  then have ok: "ok t" "\<forall>t \<in> set ts. ok t" by auto
  obtain rs n where page: "page t c = (rs, n)" by fastforce
  show ?case
  proof (cases n)
    case None
    then have "pages = [rs]" using Cons.prems page by simp
    then show ?thesis
      using page_newest_first [OF ok(1) page] page_visible [OF ok(1) page] page_last [OF ok(1), of c rs] page None by auto
  next
    case (Some c')
    obtain pages' where pages: "pages = rs # pages'" and walk: "keyset_walk page (Some c') ts = (pages', True)"
      using Cons.prems page Some by (auto simp: apfst_def map_prod_def split: prod.splits)
    from Cons.IH [OF ok(2) walk] have IH: "newest_first_by key (concat pages')"
      "\<forall>r \<in> set (concat pages'). below key ckey (Some c') r \<and> (\<exists>t \<in> set ts. visible t r)"
      "\<forall>r. below key ckey (Some c') r \<and> (\<forall>t \<in> set ts. visible t r) \<longrightarrow> r \<in> set (concat pages')" by auto
    have n: "rs \<noteq> []" "ckey c' = key (last rs)" using page_next [OF ok(1)] page Some by auto
    have rs: "newest_first_by key rs" "\<forall>r \<in> set rs. visible t r \<and> below key ckey c r"
      using page_newest_first [OF ok(1) page] page_visible [OF ok(1) page] by auto
    have least: "\<forall>r \<in> set rs. ckey c' \<le> key r" using last_smallest [OF rs(1)] n(2) by simp
    have rest: "below key ckey c r" if "key r < ckey c'" for r
    proof -
      have "below key ckey c (last rs)" using rs(2) n(1) by simp
      then show ?thesis using that n(2) by (auto simp: below_def split: option.splits)
    qed
    have "newest_first_by key (concat pages)"
      using rs(1) IH(1,2) least by (auto simp: pages sorted_wrt_append below_def intro: less_le_trans)
    moreover have "\<forall>r \<in> set (concat pages). below key ckey c r \<and> (\<exists>t \<in> set (t # ts). visible t r)"
      using rs(2) IH(2) rest by (auto simp: pages below_def [of _ _ "Some c'"])
    moreover have "r \<in> set (concat pages)" if "below key ckey c r" "\<forall>t \<in> set (t # ts). visible t r" for r
    proof (cases "key r < ckey c'")
      case True
      then have "below key ckey (Some c') r" by (simp add: below_def)
      then show ?thesis using IH(3) that(2) by (auto simp: pages)
    next
      case False
      then show ?thesis using page_gap [OF ok(1), of c rs c' r] page Some that by (auto simp: pages)
    qed
    ultimately show ?thesis by blast
  qed
qed simp

end
text \<open>
  How the services make their pages: a window of the rows below the cursor, newest first, and the
  cursor of its last row when one more row was there. This contract gives the one above.
\<close>

locale keyset_window =
  fixes key :: "'r \<Rightarrow> 'k::linorder" and ckey :: "'c \<Rightarrow> 'k"
    and ok :: "'t \<Rightarrow> bool" and visible :: "'t \<Rightarrow> 'r \<Rightarrow> bool"
    and page :: "'t \<Rightarrow> 'c option \<Rightarrow> 'r list \<times> 'c option"
    and rows :: "'t \<Rightarrow> 'c option \<Rightarrow> 'r list" and cursor_at :: "'r \<Rightarrow> 'c" and limit :: nat
  assumes limit_pos: "ok t \<Longrightarrow> 0 < limit"
    and rows_sorted: "ok t \<Longrightarrow> newest_first_by key (rows t c)"
    and rows_set: "ok t \<Longrightarrow> r \<in> set (rows t c) \<longleftrightarrow> visible t r \<and> below key ckey c r"
    and cursor_key: "ckey (cursor_at r) = key r"
    and page_window: "ok t \<Longrightarrow> page t c = (take limit (rows t c),
      if limit < length (rows t c) then Some (cursor_at (last (take limit (rows t c)))) else None)"
begin

lemma window_split:
  assumes "ok t" "limit < length (rows t c)"
  obtains ys l zs where "rows t c = ys @ l # zs" "take limit (rows t c) = ys @ [l]"
proof -
  obtain n where n: "limit = Suc n" using limit_pos [OF assms(1)] by (cases limit) auto
  then have "take limit (rows t c) = take n (rows t c) @ [rows t c ! n]"
    "rows t c = take n (rows t c) @ rows t c ! n # drop (Suc n) (rows t c)"
    using assms(2) by (simp_all add: take_Suc_conv_app_nth id_take_nth_drop)
  then show thesis using that by metis
qed

lemma window_taken: "ok t \<Longrightarrow> newest_first_by key (take limit (rows t c))"
  using rows_sorted [of t c] by (metis append_take_drop_id sorted_wrt_append)

end

sublocale keyset_window \<subseteq> keyset_pages key ckey ok visible page
proof
  fix t c rs n assume t: "ok t" "page t c = (rs, n)"
  then have rs: "rs = take limit (rows t c)" by (simp add: page_window)
  show "newest_first_by key rs" using window_taken [OF t(1)] rs by simp
  fix r assume "r \<in> set rs"
  then show "visible t r \<and> below key ckey c r" using rows_set [OF t(1)] rs by (meson in_set_takeD)
next
  fix t c rs r assume "ok t" "page t c = (rs, None)" "visible t r" "below key ckey c r"
  then show "r \<in> set rs" using rows_set by (auto simp: page_window split: if_splits)
next
  fix t c rs c' assume t: "ok t" "page t c = (rs, Some c')"
  then have w: "rs = take limit (rows t c)" "limit < length (rows t c)" "c' = cursor_at (last rs)"
    by (auto simp: page_window split: if_splits)
  obtain ys l zs where s: "rows t c = ys @ l # zs" "rs = ys @ [l]" using window_split [OF t(1) w(2)] w(1) by metis
  then show "rs \<noteq> [] \<and> ckey c' = key (last rs)" using w(3) by (simp add: cursor_key)
  fix r assume r: "visible t r" "below key ckey c r" "ckey c' \<le> key r"
  have "r \<in> set (ys @ l # zs)" using r rows_set [OF t(1)] s(1) by metis
  moreover have "r \<notin> set zs"
    using rows_sorted [OF t(1), of c] r(3) s w(3) by (auto simp: sorted_wrt_append cursor_key)
  ultimately show "r \<in> set rs" using s(2) by auto
qed

text \<open>The rows of a table below a cursor, newest first.\<close>

lemma sorted_rows_newest_first:
  fixes key :: "'r \<Rightarrow> 'k::linorder"
  assumes "distinct (map key rows)"
  shows "newest_first_by key (rev (sort_key key (filter P rows)))"
proof -
  have "distinct (map key (sort_key key (filter P rows)))"
    using assms by (auto simp: distinct_map intro: inj_on_subset)
  then have "sorted_wrt (<) (map key (sort_key key (filter P rows)))" by (simp add: strict_sorted_iff)
  then show ?thesis by (simp add: sorted_wrt_rev sorted_wrt_map)
qed

end
