(* ===== verification/Payout_History.thy ===== *)
theory Payout_History
  imports Ledger_Entities Csv_Export Keyset_Pages
begin

text \<open>
  Payout history (\<open>backend/src/services/PayoutHistoryService.ts\<close>), the row of its cursor
  (\<open>backend/src/lib/keyset-cursor.ts\<close>), the page metadata and the CSV export of
  \<open>backend/src/routes/transactions.ts\<close>, and the ledger pages of
  \<open>backend/src/services/ledger.service.ts\<close>.

  The services build queries and hand them to the database. A query is a value (conditions, order,
  window) and the database is the parameter \<open>tx_repo\<close>; \<open>answers_from rows repo\<close> is what SQL
  promises of it: a \<open>SELECT\<close> returns the window of some arrangement of the matching rows that is
  sorted as asked, and a \<open>COUNT\<close> their number. Nothing is assumed of the order of ties, so the
  properties rest on the order being total on the primary keys. Ids are UUIDs, compared by
  their canonical lower-case text. The text of a cursor is in \<open>Transaction_Routes\<close>.
\<close>

section \<open>Queries\<close>

record TransactionCursor =
  cur_timestamp :: int
  cur_id :: string

datatype TxCond =
    Recipient_is string
  | Status_is TransactionStatus
  | Timestamp_from int
  | Timestamp_to int
  | After_cursor int string

datatype TxOrder = Stable_order | Export_order

record TxQuery =
  tq_where :: "TxCond list"
  tq_order :: "TxOrder option"
  tq_skip :: "int option"
  tq_take :: "int option"

definition new_query :: TxQuery where
  "new_query = \<lparr>tq_where = [], tq_order = None, tq_skip = None, tq_take = None\<rparr>"

definition andWhere :: "TxCond \<Rightarrow> TxQuery \<Rightarrow> TxQuery" where
  "andWhere c q = q\<lparr>tq_where := tq_where q @ [c]\<rparr>"

datatype db_error = DbError

datatype TxKey = By_id string | By_txHash string

text \<open>The entry points of the repository the service calls. \<open>find_like\<close> is \<open>find\<close> with the three patterns.\<close>

record tx_repo =
  getMany :: "TxQuery \<Rightarrow> db_error + TransactionRecord list"
  getCount :: "TxQuery \<Rightarrow> db_error + nat"
  getManyAndCount :: "TxQuery \<Rightarrow> db_error + TransactionRecord list \<times> nat"
  findOneBy :: "TxKey \<Rightarrow> db_error + TransactionRecord option"
  findBy_roundId :: "string \<Rightarrow> db_error + TransactionRecord list"
  find_like :: "string \<times> string \<times> string \<Rightarrow> db_error + TransactionRecord list"

record PayoutFilters =
  pf_startDate :: "int option"
  pf_endDate :: "int option"
  pf_recipient :: "string option"
  pf_status :: "TransactionStatus option"
  pf_limit :: "int option"
  pf_offset :: "int option"

record PayoutPageFilters = PayoutFilters +
  pf_cursor :: "TransactionCursor option"

record PayoutPage =
  pg_records :: "TransactionRecord list"
  pg_total :: nat
  pg_hasMore :: bool

definition no_filters :: PayoutFilters where
  "no_filters = \<lparr>pf_startDate = None, pf_endDate = None, pf_recipient = None, pf_status = None,
     pf_limit = None, pf_offset = None\<rparr>"

definition applyPayoutFilters :: "('a) PayoutFilters_scheme \<Rightarrow> TxQuery \<Rightarrow> TxQuery" where
  "applyPayoutFilters filters q0 =
     (let q1 = (case pf_recipient filters of Some r \<Rightarrow> if r \<noteq> [] then andWhere (Recipient_is r) q0 else q0
                | None \<Rightarrow> q0);
          q2 = (case pf_status filters of Some s \<Rightarrow> andWhere (Status_is s) q1 | None \<Rightarrow> q1);
          q3 = (case pf_startDate filters of Some d \<Rightarrow> andWhere (Timestamp_from d) q2 | None \<Rightarrow> q2)
      in case pf_endDate filters of Some d \<Rightarrow> andWhere (Timestamp_to d) q3 | None \<Rightarrow> q3)"

definition applyStableOrder :: "TxQuery \<Rightarrow> TxQuery" where
  "applyStableOrder q = q\<lparr>tq_order := Some Stable_order\<rparr>"

definition apply_window :: "('a) PayoutFilters_scheme \<Rightarrow> TxQuery \<Rightarrow> TxQuery" where
  "apply_window filters q =
     (let q1 = (case pf_offset filters of Some n \<Rightarrow> q\<lparr>tq_skip := Some n\<rparr> | None \<Rightarrow> q)
      in case pf_limit filters of Some n \<Rightarrow> q1\<lparr>tq_take := Some n\<rparr> | None \<Rightarrow> q1)"

section \<open>The service\<close>

definition getPayouts :: "tx_repo \<Rightarrow> ('a) PayoutFilters_scheme \<Rightarrow> TransactionRecord list" where
  "getPayouts repo filters =
     (case getMany repo (apply_window filters (applyStableOrder (applyPayoutFilters filters new_query))) of
        Inl e \<Rightarrow> [] | Inr records \<Rightarrow> records)"

definition getPayoutsWithCount :: "tx_repo \<Rightarrow> ('a) PayoutFilters_scheme \<Rightarrow> TransactionRecord list \<times> nat" where
  "getPayoutsWithCount repo filters =
     (case getManyAndCount repo (apply_window filters (applyStableOrder (applyPayoutFilters filters new_query))) of
        Inl e \<Rightarrow> ([], 0) | Inr answer \<Rightarrow> answer)"

definition page_query :: "PayoutPageFilters \<Rightarrow> TxQuery" where
  "page_query filters =
     (let limit = default_to 20 (pf_limit filters);
          q = applyStableOrder (applyPayoutFilters filters new_query);
          q1 = (case pf_cursor filters of
                  Some c \<Rightarrow> andWhere (After_cursor (cur_timestamp c) (cur_id c)) q
                | None \<Rightarrow> (case pf_offset filters of
                     Some n \<Rightarrow> if n > 0 then q\<lparr>tq_skip := Some n\<rparr> else q
                   | None \<Rightarrow> q))
      in q1\<lparr>tq_take := Some (limit + 1)\<rparr>)"

definition getPayoutsPage :: "tx_repo \<Rightarrow> PayoutPageFilters \<Rightarrow> PayoutPage" where
  "getPayoutsPage repo filters =
     (let limit = default_to 20 (pf_limit filters);
          failed = \<lparr>pg_records = [], pg_total = 0, pg_hasMore = False\<rparr>
      in case getCount repo (applyPayoutFilters filters new_query) of
           Inl e \<Rightarrow> failed
         | Inr cnt \<Rightarrow>
           (case getMany repo (page_query filters) of
              Inl e \<Rightarrow> failed
            | Inr rows \<Rightarrow>
              let hasMore = int (length rows) > limit
              in \<lparr>pg_records = (if hasMore then take (nat limit) rows else rows), pg_total = cnt,
                  pg_hasMore = hasMore\<rparr>))"

definition getPayoutById :: "tx_repo \<Rightarrow> string \<Rightarrow> TransactionRecord option" where
  "getPayoutById repo i = (case findOneBy repo (By_id i) of Inl e \<Rightarrow> None | Inr r \<Rightarrow> r)"

definition getPayoutByTxHash :: "tx_repo \<Rightarrow> string \<Rightarrow> db_error + TransactionRecord option" where
  "getPayoutByTxHash repo txHash = findOneBy repo (By_txHash txHash)"

definition getPayoutsByRound :: "tx_repo \<Rightarrow> string \<Rightarrow> db_error + TransactionRecord list" where
  "getPayoutsByRound repo roundId = findBy_roundId repo roundId"

definition getPayoutsByRecipient :: "tx_repo \<Rightarrow> string \<Rightarrow> TransactionRecord list" where
  "getPayoutsByRecipient repo recipient = getPayouts repo (no_filters\<lparr>pf_recipient := Some recipient\<rparr>)"

definition searchPayouts :: "tx_repo \<Rightarrow> string \<Rightarrow> TransactionRecord list" where
  "searchPayouts repo query =
     (let p = ''%'' @ query @ ''%'' in
      case find_like repo (p, p, p) of Inl e \<Rightarrow> [] | Inr records \<Rightarrow> records)"

text \<open>
  One turn of the \<open>while (true)\<close> loop of the generator \<open>iteratePayouts\<close>: the batch it yields, none being
  \<open>[]\<close>, and whether it asks for another one after that. A database error is logged and ends the walk.
\<close>

definition batch_query :: "('a) PayoutFilters_scheme \<Rightarrow> int \<Rightarrow> int \<Rightarrow> TxQuery" where
  "batch_query filters batchSize offset =
     (applyPayoutFilters filters new_query)\<lparr>tq_order := Some Export_order, tq_skip := Some offset, tq_take := Some batchSize\<rparr>"

definition next_batch :: "tx_repo \<Rightarrow> ('a) PayoutFilters_scheme \<Rightarrow> int \<Rightarrow> int \<Rightarrow> TransactionRecord list \<times> bool" where
  "next_batch repo filters batchSize offset =
     (case getMany repo (batch_query filters batchSize offset) of
        Inl e \<Rightarrow> ([], False)
      | Inr batch \<Rightarrow> (batch, batch \<noteq> [] \<and> \<not> int (length batch) < batchSize))"

section \<open>Routes over the service\<close>

text \<open>The metadata of a page: the cursor of the next one is the last row of this one.\<close>

definition buildPageMetadata :: "PayoutPage \<Rightarrow> TransactionCursor option" where
  "buildPageMetadata page =
     (if pg_hasMore page \<and> pg_records page \<noteq> []
      then Some \<lparr>cur_timestamp = tx_timestamp (last (pg_records page)), cur_id = tx_id (last (pg_records page))\<rparr>
      else None)"

definition EXPORT_MAX_ROWS :: nat where
  "EXPORT_MAX_ROWS = 50000"

definition status_text :: "TransactionStatus \<Rightarrow> string" where
  "status_text s = (case s of T_pending \<Rightarrow> ''pending'' | T_completed \<Rightarrow> ''completed'' | T_failed \<Rightarrow> ''failed'')"

definition formatTransactionRow :: "TransactionRecord \<Rightarrow> csv_value list" where
  "formatTransactionRow r =
     map Text [tx_id r, tx_roundId r, tx_recipient r, tx_amount r, tx_token r,
       iso_text (tx_timestamp r * 1000), tx_txHash r, status_text (tx_status r)]"

definition export_header :: "csv_value list" where
  "export_header = map Text [''id'', ''roundId'', ''recipient'', ''amount'', ''token'', ''timestamp'', ''txHash'', ''status'']"

text \<open>The inner and the outer loop of the export: rows written so far, the text, and whether the cap cut it.\<close>

fun write_batch :: "nat \<Rightarrow> TransactionRecord list \<Rightarrow> nat \<times> string \<times> bool" where
  "write_batch rowsWritten [] = (rowsWritten, [], False)"
| "write_batch rowsWritten (r # rs) =
     (if rowsWritten \<ge> EXPORT_MAX_ROWS then (rowsWritten, [], True)
      else case write_batch (rowsWritten + 1) rs of
        (n, text, truncated) \<Rightarrow> (n, toCsvRow (formatTransactionRow r) @ text, truncated))"

text \<open>
  The export pulls one batch after the other out of the generator, with its default batch size of 500.
  Each is a query of its own, with no transaction around them, so the \<open>k\<close>-th query is answered by the
  database as it is then, \<open>repos k\<close>. \<open>fuel\<close> bounds the number of queries; \<open>None\<close>: more are needed.
\<close>

fun export_from :: "nat \<Rightarrow> (nat \<Rightarrow> tx_repo) \<Rightarrow> ('a) PayoutFilters_scheme \<Rightarrow> nat \<Rightarrow> int \<Rightarrow> nat \<Rightarrow> (string \<times> bool) option" where
  "export_from 0 repos filters k offset rowsWritten = None"
| "export_from (Suc fuel) repos filters k offset rowsWritten =
     (case next_batch (repos k) filters 500 offset of (batch, again) \<Rightarrow>
      case write_batch rowsWritten batch of (n, text, truncated) \<Rightarrow>
        if truncated then Some (text, True)
        else if \<not> again then Some (text, False)
        else map_option (apfst ((@) text)) (export_from fuel repos filters (Suc k) (offset + int (length batch)) n))"

definition export_csv :: "nat \<Rightarrow> (nat \<Rightarrow> tx_repo) \<Rightarrow> string \<Rightarrow> ('a) PayoutFilters_scheme \<Rightarrow> (string \<times> bool) option" where
  "export_csv fuel repos walletAddress query =
     (let filters = no_filters\<lparr>pf_recipient := Some walletAddress, pf_startDate := pf_startDate query,
          pf_endDate := pf_endDate query, pf_status := pf_status query\<rparr>
      in map_option (apfst ((@) (toCsvRow export_header)))
           (export_from fuel repos filters 0 (default_to 0 (pf_offset filters)) 0))"

section \<open>Ledger pages\<close>

record LedgerBlocksPage =
  lp_blocks :: "LedgerBlock list"
  lp_nextCursor :: "string option"

datatype BlockColumn = Block_ledgerSeq | Block_id

text \<open>The query: the columns it is ordered by (all descending), \<open>block.id < :cursor\<close>, and \<open>take\<close>.\<close>

record BlockQuery =
  bq_order :: "BlockColumn list"
  bq_id_below :: "string option"
  bq_take :: int

definition getLedgerBlocks :: "(BlockQuery \<Rightarrow> db_error + LedgerBlock list) \<Rightarrow> int \<Rightarrow> string option \<Rightarrow> db_error + LedgerBlocksPage" where
  "getLedgerBlocks run limit cursor =
     (case run \<lparr>bq_order = [Block_ledgerSeq, Block_id],
                bq_id_below = (case cursor of Some c \<Rightarrow> if c = [] then None else Some c | None \<Rightarrow> None),
                bq_take = limit\<rparr> of
        Inl e \<Rightarrow> Inl e
      | Inr blocks \<Rightarrow>
        Inr \<lparr>lp_blocks = blocks,
             lp_nextCursor = (if int (length blocks) = limit \<and> blocks \<noteq> [] then Some (lb_id (last blocks)) else None)\<rparr>)"

section \<open>What the database promises\<close>

definition row_key :: "TransactionRecord \<Rightarrow> int \<times> string" where
  "row_key r = (tx_timestamp r, to_lower (tx_id r))"

definition export_key :: "TransactionRecord \<Rightarrow> int \<times> string" where
  "export_key r = (- tx_timestamp r, to_lower (tx_id r))"

fun row_matches :: "TransactionRecord \<Rightarrow> TxCond \<Rightarrow> bool" where
  "row_matches r (Recipient_is a) = (tx_recipient r = a)"
| "row_matches r (Status_is s) = (tx_status r = s)"
| "row_matches r (Timestamp_from t) = (t \<le> tx_timestamp r)"
| "row_matches r (Timestamp_to t) = (tx_timestamp r \<le> t)"
| "row_matches r (After_cursor t i) = (row_key r < (t, to_lower i))"

definition matching :: "TxQuery \<Rightarrow> TransactionRecord list \<Rightarrow> TransactionRecord list" where
  "matching q rows = filter (\<lambda>r. list_all (row_matches r) (tq_where q)) rows"

definition sorted_as :: "TxOrder option \<Rightarrow> TransactionRecord list \<Rightarrow> bool" where
  "sorted_as order ys = (case order of None \<Rightarrow> True
     | Some Stable_order \<Rightarrow> sorted (map row_key (rev ys))
     | Some Export_order \<Rightarrow> sorted (map export_key ys))"

definition sql_window :: "TxQuery \<Rightarrow> TransactionRecord list \<Rightarrow> TransactionRecord list" where
  "sql_window q ys =
     (let rest = drop (nat (default_to 0 (tq_skip q))) ys
      in case tq_take q of None \<Rightarrow> rest | Some n \<Rightarrow> take (nat n) rest)"

definition window_ok :: "TxQuery \<Rightarrow> bool" where
  "window_ok q = (0 \<le> default_to 0 (tq_skip q) \<and> 0 < default_to 1 (tq_take q))"

definition keyed :: "TransactionRecord list \<Rightarrow> bool" where
  "keyed rows = distinct (map (\<lambda>r. to_lower (tx_id r)) rows)"

definition answers_from :: "TransactionRecord list \<Rightarrow> tx_repo \<Rightarrow> bool" where
  "answers_from rows repo =
     (keyed rows \<and>
      (\<forall>q. window_ok q \<longrightarrow> (\<exists>ys. mset ys = mset (matching q rows) \<and> sorted_as (tq_order q) ys
          \<and> getMany repo q = Inr (sql_window q ys))) \<and>
      (\<forall>q. getCount repo q = Inr (length (matching q rows))))"

text \<open>A database that keeps its rows in a list.\<close>

definition arranged :: "TxOrder option \<Rightarrow> TransactionRecord list \<Rightarrow> TransactionRecord list" where
  "arranged order rows = (case order of None \<Rightarrow> rows
     | Some Stable_order \<Rightarrow> rev (sort_key row_key rows)
     | Some Export_order \<Rightarrow> sort_key export_key rows)"

definition table_repo :: "TransactionRecord list \<Rightarrow> tx_repo" where
  "table_repo rows =
     \<lparr>getMany = \<lambda>q. Inr (sql_window q (arranged (tq_order q) (matching q rows))),
      getCount = \<lambda>q. Inr (length (matching q rows)),
      getManyAndCount = \<lambda>q. Inr (sql_window q (arranged (tq_order q) (matching q rows)), length (matching q rows)),
      findOneBy = \<lambda>k. Inr (find (\<lambda>r. case k of By_id i \<Rightarrow> to_lower (tx_id r) = to_lower i | By_txHash h \<Rightarrow> tx_txHash r = h) rows),
      findBy_roundId = \<lambda>rid. Inr (filter (\<lambda>r. tx_roundId r = rid) rows),
      find_like = \<lambda>_. Inl DbError\<rparr>"

definition payout_matches :: "('a) PayoutFilters_scheme \<Rightarrow> TransactionRecord \<Rightarrow> bool" where
  "payout_matches f r =
     ((case pf_recipient f of Some a \<Rightarrow> a = [] \<or> tx_recipient r = a | None \<Rightarrow> True) \<and>
      (case pf_status f of Some s \<Rightarrow> tx_status r = s | None \<Rightarrow> True) \<and>
      (case pf_startDate f of Some d \<Rightarrow> d \<le> tx_timestamp r | None \<Rightarrow> True) \<and>
      (case pf_endDate f of Some d \<Rightarrow> tx_timestamp r \<le> d | None \<Rightarrow> True))"

definition after_cursor :: "TransactionCursor option \<Rightarrow> TransactionRecord \<Rightarrow> bool" where
  "after_cursor c r = (case c of None \<Rightarrow> True | Some c \<Rightarrow> row_key r < (cur_timestamp c, to_lower (cur_id c)))"

text \<open>The rows from a cursor on, newest first.\<close>

definition remaining :: "PayoutPageFilters \<Rightarrow> TransactionRecord list \<Rightarrow> TransactionRecord list" where
  "remaining f rows = rev (sort_key row_key (filter (\<lambda>r. payout_matches f r \<and> after_cursor (pf_cursor f) r) rows))"

text \<open>
  A client that follows \<open>nextCursor\<close> from page to page; each request finds the database as it is at
  that moment. The pages received, and whether the last one said that nothing follows.
\<close>

fun history_walk :: "PayoutPageFilters \<Rightarrow> tx_repo list \<Rightarrow> TransactionRecord list list \<times> bool" where
  "history_walk f [] = ([], False)"
| "history_walk f (repo # repos) =
     (let page = getPayoutsPage repo f in
      case buildPageMetadata page of
        None \<Rightarrow> ([pg_records page], True)
      | Some c \<Rightarrow> apfst ((#) (pg_records page)) (history_walk (f\<lparr>pf_cursor := Some c\<rparr>) repos))"

section \<open>Pages\<close>

lemma keyed_inj: "keyed rows \<Longrightarrow> inj_on row_key (set rows)" "keyed rows \<Longrightarrow> inj_on export_key (set rows)"
  by (auto simp: keyed_def distinct_map inj_on_def row_key_def export_key_def)

lemma inj_on_filter: "inj_on k (set rows) \<Longrightarrow> inj_on k {r \<in> set rows. P r}"
  by (rule inj_on_subset) auto

lemma arranged_unique:
  assumes "keyed rows" "mset ys = mset (filter P rows)" "sorted_as (Some order) ys"
  shows "ys = arranged (Some order) (filter P rows)"
proof (cases order)
  case Stable_order
  have "sort_key row_key (filter P rows) = rev ys"
    using assms keyed_inj(1) [OF assms(1)] Stable_order
    by (intro sort_key_inj_key_eq) (auto simp: sorted_as_def inj_on_filter)
  then show ?thesis by (simp add: arranged_def Stable_order)
next
  case Export_order
  have "sort_key export_key (filter P rows) = ys"
    using assms keyed_inj(2) [OF assms(1)] Export_order
    by (intro sort_key_inj_key_eq) (auto simp: sorted_as_def inj_on_filter)
  then show ?thesis by (simp add: arranged_def Export_order)
qed

lemma table_repo_answers:
  assumes "keyed rows"
  shows "answers_from rows (table_repo rows)"
proof -
  have "mset (arranged (tq_order q) (matching q rows)) = mset (matching q rows)
      \<and> sorted_as (tq_order q) (arranged (tq_order q) (matching q rows))" for q
    by (simp add: arranged_def sorted_as_def split: option.splits TxOrder.splits)
  with assms show ?thesis unfolding answers_from_def table_repo_def by fastforce
qed

lemma answers_getMany:
  assumes "answers_from rows repo" "window_ok q" "tq_order q = Some order"
  shows "getMany repo q = Inr (sql_window q (arranged (Some order) (matching q rows)))"
proof -
  from assms obtain ys where "mset ys = mset (matching q rows)" "sorted_as (Some order) ys"
    "getMany repo q = Inr (sql_window q ys)" unfolding answers_from_def by metis
  moreover from this assms(1) have "ys = arranged (Some order) (matching q rows)"
    unfolding matching_def by (intro arranged_unique) (auto simp: answers_from_def)
  ultimately show ?thesis by simp
qed

lemma filters_where:
  "list_all (row_matches r) (tq_where (applyPayoutFilters f q)) =
     (list_all (row_matches r) (tq_where q) \<and> payout_matches f r)"
  by (auto simp: applyPayoutFilters_def payout_matches_def andWhere_def Let_def split: option.splits)

lemma filters_window [simp]:
  "tq_order (applyPayoutFilters f q) = tq_order q"
  "tq_skip (applyPayoutFilters f q) = tq_skip q"
  "tq_take (applyPayoutFilters f q) = tq_take q"
  by (simp_all add: applyPayoutFilters_def andWhere_def Let_def split: option.splits)

lemma page_query_parts:
  assumes "pf_cursor f = None \<longrightarrow> default_to 0 (pf_offset f) \<le> 0"
  shows "tq_order (page_query f) = Some Stable_order" "tq_skip (page_query f) = None"
    "tq_take (page_query f) = Some (default_to 20 (pf_limit f) + 1)"
    "matching (page_query f) rows = filter (\<lambda>r. payout_matches f r \<and> after_cursor (pf_cursor f) r) rows"
  using assms filters_where [of _ f new_query]
  by (auto simp: page_query_def applyStableOrder_def andWhere_def new_query_def Let_def matching_def after_cursor_def
      split: option.splits intro!: filter_cong)

lemma getPayoutsPage_eq:
  assumes "answers_from rows repo" "0 \<le> limit" "default_to 20 (pf_limit f) = limit"
    "pf_cursor f = None \<longrightarrow> default_to 0 (pf_offset f) \<le> 0"
  shows "getPayoutsPage repo f =
    \<lparr>pg_records = take (nat limit) (remaining f rows), pg_total = length (filter (payout_matches f) rows),
     pg_hasMore = (limit < int (length (remaining f rows)))\<rparr>"
proof -
  note q = page_query_parts [OF assms(4)]
  have ok: "window_ok (page_query f)" using assms(2,3) q by (simp add: window_ok_def)
  have many: "getMany repo (page_query f) = Inr (take (nat (limit + 1)) (remaining f rows))"
    using answers_getMany [OF assms(1) ok q(1)] q assms(3)
    by (simp add: sql_window_def arranged_def remaining_def)
  have "getCount repo (applyPayoutFilters f new_query) = Inr (length (filter (payout_matches f) rows))"
    using assms(1) by (simp add: answers_from_def matching_def filters_where new_query_def)
  with many assms(2,3) show ?thesis
    by (auto simp: getPayoutsPage_def Let_def min_def)
qed

abbreviation newest_first :: "TransactionRecord list \<Rightarrow> bool" where
  "newest_first rs \<equiv> sorted_wrt (\<lambda>a b. row_key b < row_key a) rs"

lemma remaining_newest_first:
  assumes "keyed rows"
  shows "newest_first (remaining f rows)"
proof -
  have "distinct (map row_key rows)" using assms keyed_inj(1) [OF assms] by (simp add: keyed_def distinct_map)
  then show ?thesis unfolding remaining_def by (rule sorted_rows_newest_first)
qed

lemma set_remaining: "r \<in> set (remaining f rows) \<longleftrightarrow> r \<in> set rows \<and> payout_matches f r \<and> after_cursor (pf_cursor f) r"
  by (auto simp: remaining_def)

lemma filter_below:
  assumes "newest_first (ys @ l # zs)"
  shows "filter (\<lambda>r. row_key r < row_key l) (ys @ l # zs) = zs"
  using assms by (auto simp: sorted_wrt_append filter_empty_conv filter_id_conv)

lemma matches_cursor [simp]: "payout_matches (f\<lparr>pf_cursor := c\<rparr>) = payout_matches f"
  by (simp add: payout_matches_def fun_eq_iff)

definition cursor_of :: "TransactionRecord \<Rightarrow> TransactionCursor" where
  "cursor_of r = \<lparr>cur_timestamp = tx_timestamp r, cur_id = tx_id r\<rparr>"

lemma after_cursor_of: "after_cursor (Some (cursor_of l)) r \<longleftrightarrow> row_key r < row_key l"
  by (simp add: after_cursor_def cursor_of_def row_key_def)

lemma remaining_next:
  assumes "keyed rows" "remaining f rows = ys @ l # zs"
  shows "remaining (f\<lparr>pf_cursor := Some (cursor_of l)\<rparr>) rows = zs"
proof -
  have "after_cursor (pf_cursor f) l" using set_remaining [of l f rows] assms(2) by simp
  then have "row_key r < row_key l \<Longrightarrow> after_cursor (pf_cursor f) r" for r
    by (auto simp: after_cursor_def split: option.splits)
  then have "remaining (f\<lparr>pf_cursor := Some (cursor_of l)\<rparr>) rows = filter (\<lambda>r. row_key r < row_key l) (remaining f rows)"
    unfolding remaining_def rev_filter [symmetric] filter_sort filter_filter
    by (intro arg_cong [of _ _ "\<lambda>xs. rev (sort_key row_key xs)"] filter_cong) (auto simp: after_cursor_of)
  then show ?thesis using assms filter_below remaining_newest_first by metis
qed

text \<open>A page in terms of the rows that remain: either all of them, or a full page and a cursor at its end.\<close>

lemma page_cases:
  assumes "answers_from rows repo" "0 < limit" "default_to 20 (pf_limit f) = limit"
    "pf_cursor f = None \<longrightarrow> default_to 0 (pf_offset f) \<le> 0"
  obtains (finished) "pg_records (getPayoutsPage repo f) = remaining f rows" "buildPageMetadata (getPayoutsPage repo f) = None"
  | (more) ys l zs where "remaining f rows = ys @ l # zs" "pg_records (getPayoutsPage repo f) = ys @ [l]"
      "buildPageMetadata (getPayoutsPage repo f) = Some (cursor_of l)"
proof (cases "limit < int (length (remaining f rows))")
  note page = getPayoutsPage_eq [OF assms(1) less_imp_le [OF assms(2)] assms(3,4)]
  {
  case True
  define n where "n = nat limit - 1"
  have n: "n < length (remaining f rows)" "nat limit = Suc n" using True assms(2) by (auto simp: n_def)
  let ?xs = "remaining f rows"
  have "take (nat limit) ?xs = take n ?xs @ [?xs ! n]" using n by (simp add: take_Suc_conv_app_nth)
  moreover have "?xs = take n ?xs @ ?xs ! n # drop (Suc n) ?xs" using n by (rule_tac id_take_nth_drop)
  ultimately show thesis using True
    by (intro more [of "take n ?xs" "?xs ! n" "drop (Suc n) ?xs"]) (simp_all add: page buildPageMetadata_def cursor_of_def)
  next
  case False
  then show thesis by (intro finished) (simp_all add: page buildPageMetadata_def)
  }
qed

section \<open>The pages as keyset pages\<close>

definition cursor_key :: "TransactionCursor \<Rightarrow> int \<times> string" where
  "cursor_key c = (cur_timestamp c, to_lower (cur_id c))"

definition payout_page :: "PayoutPageFilters \<Rightarrow> TransactionRecord list \<times> tx_repo \<Rightarrow> TransactionCursor option
    \<Rightarrow> TransactionRecord list \<times> TransactionCursor option" where
  "payout_page f t c =
     (let page = getPayoutsPage (snd t) (f\<lparr>pf_cursor := c\<rparr>) in (pg_records page, buildPageMetadata page))"

definition payout_ok :: "PayoutPageFilters \<Rightarrow> TransactionRecord list \<times> tx_repo \<Rightarrow> bool" where
  "payout_ok f t = (answers_from (fst t) (snd t) \<and> 0 < default_to 20 (pf_limit f) \<and> default_to 0 (pf_offset f) \<le> 0)"

definition payout_visible :: "PayoutPageFilters \<Rightarrow> TransactionRecord list \<times> tx_repo \<Rightarrow> TransactionRecord \<Rightarrow> bool" where
  "payout_visible f t r = (r \<in> set (fst t) \<and> payout_matches f r)"

lemma after_below: "after_cursor c r = below row_key cursor_key c r"
  by (simp add: after_cursor_def below_def cursor_key_def split: option.split)

lemma visible_remaining:
  "r \<in> set (remaining (f\<lparr>pf_cursor := c\<rparr>) (fst t)) \<longleftrightarrow> payout_visible f t r \<and> below row_key cursor_key c r"
  by (auto simp: set_remaining payout_visible_def after_below)

interpretation history: keyset_window row_key cursor_key "payout_ok f" "payout_visible f" "payout_page f"
  "\<lambda>t c. remaining (f\<lparr>pf_cursor := c\<rparr>) (fst t)" cursor_of "nat (default_to 20 (pf_limit f))" for f
proof
  fix t c r assume t: "payout_ok f t"
  then show "0 < nat (default_to 20 (pf_limit f))" by (simp add: payout_ok_def)
  show "newest_first (remaining (f\<lparr>pf_cursor := c\<rparr>) (fst t))"
    using t by (intro remaining_newest_first) (simp add: payout_ok_def answers_from_def)
  show "r \<in> set (remaining (f\<lparr>pf_cursor := c\<rparr>) (fst t)) \<longleftrightarrow> payout_visible f t r \<and> below row_key cursor_key c r"
    by (rule visible_remaining)
  have "getPayoutsPage (snd t) (f\<lparr>pf_cursor := c\<rparr>) =
    \<lparr>pg_records = take (nat (default_to 20 (pf_limit f))) (remaining (f\<lparr>pf_cursor := c\<rparr>) (fst t)),
     pg_total = length (filter (payout_matches (f\<lparr>pf_cursor := c\<rparr>)) (fst t)),
     pg_hasMore = (default_to 20 (pf_limit f) < int (length (remaining (f\<lparr>pf_cursor := c\<rparr>) (fst t))))\<rparr>"
    using t by (intro getPayoutsPage_eq) (simp_all add: payout_ok_def)
  then show "payout_page f t c = (take (nat (default_to 20 (pf_limit f))) (remaining (f\<lparr>pf_cursor := c\<rparr>) (fst t)),
      if nat (default_to 20 (pf_limit f)) < length (remaining (f\<lparr>pf_cursor := c\<rparr>) (fst t))
      then Some (cursor_of (last (take (nat (default_to 20 (pf_limit f))) (remaining (f\<lparr>pf_cursor := c\<rparr>) (fst t))))) else None)"
    using t by (auto simp: payout_page_def buildPageMetadata_def cursor_of_def payout_ok_def nat_less_iff Let_def)
next
  fix r show "cursor_key (cursor_of r) = row_key r" by (simp add: cursor_key_def cursor_of_def row_key_def)
qed

lemma history_walk_keyset:
  "length tables = length repos \<Longrightarrow> history_walk f repos = keyset_walk (payout_page f) (pf_cursor f) (zip tables repos)"
proof (induction tables repos arbitrary: f rule: list_induct2)
  case (Cons rows tables repo repos)
  have "payout_page (f\<lparr>pf_cursor := c\<rparr>) = payout_page f" for c by (simp add: payout_page_def fun_eq_iff)
  then show ?case using Cons.IH by (simp add: payout_page_def Let_def split: option.split)
qed simp

section \<open>Batches and the export\<close>

lemma write_batch_eq:
  "n \<le> EXPORT_MAX_ROWS \<Longrightarrow> write_batch n rs =
     (min EXPORT_MAX_ROWS (n + length rs),
      concat (map (\<lambda>r. toCsvRow (formatTransactionRow r)) (take (EXPORT_MAX_ROWS - n) rs)),
      EXPORT_MAX_ROWS < n + length rs)"
proof (induction rs arbitrary: n)
  case (Cons r rs)
  show ?case
  proof (cases "n < EXPORT_MAX_ROWS")
    case True
    then obtain m where "EXPORT_MAX_ROWS - n = Suc m" by (metis Suc_diff_Suc)
    moreover from this have "EXPORT_MAX_ROWS - Suc n = m" by simp
    ultimately show ?thesis using Cons True by simp
  qed (use Cons.prems in simp)
qed simp

text \<open>What a query of the walk answers: part of a table, or nothing when the database fails.\<close>

definition answers_or_fails :: "TransactionRecord list \<Rightarrow> tx_repo \<Rightarrow> bool" where
  "answers_or_fails rows repo =
     (keyed rows \<and> (\<forall>q. window_ok q \<longrightarrow> (\<exists>e. getMany repo q = Inl e)
        \<or> (\<exists>ys. mset ys = mset (matching q rows) \<and> sorted_as (tq_order q) ys \<and> getMany repo q = Inr (sql_window q ys))))"

lemma answers_no_failure: "answers_from rows repo \<Longrightarrow> answers_or_fails rows repo"
  by (auto simp: answers_from_def answers_or_fails_def)

definition own_rows :: "('a) PayoutFilters_scheme \<Rightarrow> TransactionRecord list \<Rightarrow> TransactionRecord list" where
  "own_rows f rows = arranged (Some Export_order) (filter (payout_matches f) rows)"

lemma set_own_rows [simp]: "set (own_rows f rows) = {r \<in> set rows. payout_matches f r}"
  by (simp add: own_rows_def arranged_def)

lemma next_batch_answers:
  fixes repo :: tx_repo
  assumes "answers_or_fails rows repo" "0 < batchSize"
  shows "next_batch repo f batchSize (int offset) = ([], False)
    \<or> (let b = take (nat batchSize) (drop offset (own_rows f rows)) in
        next_batch repo f batchSize (int offset) = (b, b \<noteq> [] \<and> length b = nat batchSize))"
proof (cases "getMany repo (batch_query f batchSize (int offset))")
  case (Inr batch)
  have q: "matching (batch_query f batchSize (int offset)) rows = filter (payout_matches f) rows"
    "tq_order (batch_query f batchSize (int offset)) = Some Export_order" "window_ok (batch_query f batchSize (int offset))"
    using assms(2) by (simp_all add: matching_def batch_query_def filters_where new_query_def window_ok_def)
  with assms(1) Inr obtain ys where ys: "mset ys = mset (filter (payout_matches f) rows)" "sorted_as (Some Export_order) ys"
    "batch = sql_window (batch_query f batchSize (int offset)) ys" unfolding answers_or_fails_def by fastforce
  moreover have "keyed rows" using assms(1) by (simp add: answers_or_fails_def)
  ultimately have "ys = own_rows f rows" unfolding own_rows_def by (intro arranged_unique)
  with ys(3) have "batch = take (nat batchSize) (drop offset (own_rows f rows))" by (simp add: sql_window_def batch_query_def)
  moreover have "length batch \<le> nat batchSize" using calculation by simp
  ultimately show ?thesis using Inr assms(2) by (auto simp: next_batch_def Let_def not_less)
qed (simp add: next_batch_def)

lemma next_batch_no_failure:
  assumes "answers_from rows repo" "0 < batchSize" "offset < length (own_rows f rows)"
  shows "next_batch repo f batchSize (int offset) \<noteq> ([], False)"
proof -
  have "matching (batch_query f batchSize (int offset)) rows = filter (payout_matches f) rows"
    by (simp add: matching_def batch_query_def filters_where new_query_def)
  then have "getMany repo (batch_query f batchSize (int offset)) = Inr (take (nat batchSize) (drop offset (own_rows f rows)))"
    using answers_getMany [OF assms(1), of "batch_query f batchSize (int offset)" Export_order] assms(2)
    by (simp add: window_ok_def batch_query_def sql_window_def own_rows_def)
  then show ?thesis using assms(2,3) by (simp add: next_batch_def)
qed

abbreviation csv_lines :: "TransactionRecord list \<Rightarrow> string" where
  "csv_lines rs \<equiv> concat (map (\<lambda>r. toCsvRow (formatTransactionRow r)) rs)"

text \<open>The rows of the walk, before they are printed.\<close>

fun export_rows :: "nat \<Rightarrow> (nat \<Rightarrow> tx_repo) \<Rightarrow> ('a) PayoutFilters_scheme \<Rightarrow> nat \<Rightarrow> int \<Rightarrow> nat \<Rightarrow> (TransactionRecord list \<times> bool) option" where
  "export_rows 0 repos filters k offset n = None"
| "export_rows (Suc fuel) repos filters k offset n =
     (case next_batch (repos k) filters 500 offset of (batch, again) \<Rightarrow>
        if EXPORT_MAX_ROWS < n + length batch then Some (take (EXPORT_MAX_ROWS - n) batch, True)
        else if \<not> again then Some (batch, False)
        else map_option (apfst ((@) batch)) (export_rows fuel repos filters (Suc k) (offset + int (length batch)) (n + length batch)))"

lemma export_from_rows:
  "n \<le> EXPORT_MAX_ROWS \<Longrightarrow> export_from fuel repos f k offset n = map_option (apfst csv_lines) (export_rows fuel repos f k offset n)"
proof (induction fuel arbitrary: k offset n)
  case (Suc fuel)
  obtain batch again where b: "next_batch (repos k) f 500 offset = (batch, again)" by (cases "next_batch (repos k) f 500 offset")
  show ?case
  proof (cases "EXPORT_MAX_ROWS < n + length batch")
    case False
    then have "write_batch n batch = (n + length batch, csv_lines batch, False)" using Suc.prems by (simp add: write_batch_eq)
    with False Suc.IH [of "n + length batch"] show ?thesis by (simp add: b option.map_comp o_def apfst_def map_prod_def case_prod_unfold)
  qed (simp add: b write_batch_eq [OF Suc.prems])
qed simp

text \<open>
  The loop ends whatever the database does, since every turn but the last takes at least 500 rows and the
  cap stops it; and what it writes are rows the queries found.
\<close>

lemma export_rows_found:
  fixes repos :: "nat \<Rightarrow> tx_repo"
  assumes "n \<le> EXPORT_MAX_ROWS" "EXPORT_MAX_ROWS - n < 500 * fuel"
    and "\<And>j off. 0 \<le> off \<Longrightarrow> \<forall>r \<in> set (fst (next_batch (repos j) f 500 off)). Q r"
    and "0 \<le> offset"
  shows "\<exists>rs capped. export_rows fuel repos f k offset n = Some (rs, capped)
    \<and> n + length rs \<le> EXPORT_MAX_ROWS \<and> (capped \<longrightarrow> n + length rs = EXPORT_MAX_ROWS) \<and> (\<forall>r \<in> set rs. Q r)"
  using assms(1,2,4)
proof (induction fuel arbitrary: k offset n)
  case (Suc fuel)
  obtain batch again where b: "next_batch (repos k) f 500 offset = (batch, again)" by (cases "next_batch (repos k) f 500 offset")
  have Q: "\<forall>r \<in> set batch. Q r" using assms(3) [OF Suc.prems(3), of k] b by simp
  show ?case
  proof (cases "EXPORT_MAX_ROWS < n + length batch \<or> \<not> again")
    case True
    then show ?thesis using Q Suc.prems(1) by (auto simp: b dest: in_set_takeD)
  next
    case False
    with b have "500 \<le> length batch" by (auto simp: next_batch_def split: sum.splits)
    moreover have "n + length batch \<le> EXPORT_MAX_ROWS" using False by simp
    ultimately have "n + length batch \<le> EXPORT_MAX_ROWS" "EXPORT_MAX_ROWS - (n + length batch) < 500 * fuel" "0 \<le> offset + int (length batch)"
      using Suc.prems by simp_all
    from Suc.IH [OF this, of "Suc k"] False Q show ?thesis by (fastforce simp: b add.assoc)
  qed
qed simp

text \<open>On a table that stays the same it takes a beginning of the rows, all of them if no query fails.\<close>

lemma export_rows_table:
  fixes repos :: "nat \<Rightarrow> tx_repo"
  assumes "\<forall>j. answers_or_fails rows (repos j)" "n \<le> EXPORT_MAX_ROWS"
    and "export_rows fuel repos f k (int offset) n = Some (rs, capped)" "own = own_rows f rows"
  shows "(\<exists>m. rs = take m (drop offset own)) \<and> ((\<forall>j. answers_from rows (repos j)) \<longrightarrow>
      rs = take (EXPORT_MAX_ROWS - n) (drop offset own) \<and> capped = (EXPORT_MAX_ROWS - n < length (drop offset own)))"
  using assms(2,3)
proof (induction fuel arbitrary: k offset n rs)
  case (Suc fuel)
  let ?b = "take 500 (drop offset own)"
  consider (failed) "next_batch (repos k) f 500 (int offset) = ([], False)"
    | (batch) "next_batch (repos k) f 500 (int offset) = (?b, length ?b = 500)"
    using next_batch_answers [of rows "repos k" 500 f offset] assms(1,4) unfolding Let_def by fastforce
  then show ?case
  proof cases
    case failed
    have "offset \<ge> length own" if "\<forall>j. answers_from rows (repos j)"
      using next_batch_no_failure [of rows "repos k" 500 offset f] that failed assms(4) by fastforce
    with failed Suc.prems show ?thesis by (auto intro: exI [of _ 0])
  next
    case batch
    consider (cap) "EXPORT_MAX_ROWS < n + length ?b" | (short) "\<not> EXPORT_MAX_ROWS < n + length ?b" "length ?b \<noteq> 500"
      | (full) "\<not> EXPORT_MAX_ROWS < n + length ?b" "length ?b = 500" by blast
    then show ?thesis
    proof cases
      case cap
      then have "take (EXPORT_MAX_ROWS - n) ?b = take (EXPORT_MAX_ROWS - n) (drop offset own)" by (auto simp: min_def split: if_splits)
      moreover have "EXPORT_MAX_ROWS - n < length (drop offset own)" using cap Suc.prems(1) by (auto simp: min_def split: if_splits)
      ultimately show ?thesis using Suc.prems cap batch by auto
    next
      case short
      then have "?b = drop offset own" by simp
      with short batch Suc.prems show ?thesis by (auto intro: exI [of _ 500])
    next
      case full
      from Suc.prems(2) batch full obtain rs' where
        rest: "export_rows fuel repos f (Suc k) (int (offset + 500)) (n + 500) = Some (rs', capped)" "rs = ?b @ rs'" by auto
      have n: "n + 500 \<le> EXPORT_MAX_ROWS" using full by simp
      have IH: "(\<exists>m. rs' = take m (drop (offset + 500) own)) \<and> ((\<forall>j. answers_from rows (repos j)) \<longrightarrow>
          rs' = take (EXPORT_MAX_ROWS - (n + 500)) (drop (offset + 500) own)
          \<and> capped = (EXPORT_MAX_ROWS - (n + 500) < length (drop (offset + 500) own)))" by (rule Suc.IH [OF n rest(1)])
      have join: "?b @ take i (drop (offset + 500) own) = take (500 + i) (drop offset own)" for i
        using take_add [of 500 i "drop offset own"] by (simp add: add.commute)
      have "EXPORT_MAX_ROWS - n = 500 + (EXPORT_MAX_ROWS - (n + 500))" using n by simp
      moreover have "length (drop offset own) = 500 + length (drop (offset + 500) own)" using full(2) by simp
      ultimately show ?thesis using IH rest(2) join by (metis nat_add_left_cancel_less)
    qed
  qed
qed simp

section \<open>Sample rows\<close>

definition sample_row :: "int \<Rightarrow> string \<Rightarrow> string \<Rightarrow> TransactionRecord" where
  "sample_row t i recipient = \<lparr>tx_id = i, tx_roundId = ''p'', tx_recipient = recipient, tx_amount = ''1'', tx_token = ''T'',
     tx_timestamp = t, tx_txHash = i, tx_status = T_completed\<rparr>"

definition sample_rows :: "TransactionRecord list" where
  "sample_rows = [sample_row 5 ''a'' ''W'', sample_row 7 ''b'' ''V'', sample_row 5 ''c'' ''W'']"

definition sample_filters :: PayoutPageFilters where
  "sample_filters = \<lparr>pf_startDate = Some 5, pf_endDate = None, pf_recipient = None, pf_status = None,
     pf_limit = Some 2, pf_offset = None, pf_cursor = None\<rparr>"

lemma sample_keyed: "keyed sample_rows" "keyed (sample_row 9 ''d'' ''W'' # sample_rows)"
  by code_simp+

section \<open>Properties\<close>

text \<open>
  A client that follows the cursors while rows are inserted and removed between its
  requests: what it has received when told that nothing follows is strictly newest first, so no
  row twice; all of it matches the filters; and every matching row that was there all along is in it.
\<close>

theorem keyset_walk_stable:
  assumes "list_all2 answers_from tables repos" "0 < default_to 20 (pf_limit f)" "default_to 0 (pf_offset f) \<le> 0"
    "history_walk f repos = (pages, True)"
  shows "newest_first (concat pages)
    \<and> (\<forall>r \<in> set (concat pages). payout_matches f r \<and> after_cursor (pf_cursor f) r \<and> (\<exists>rows \<in> set tables. r \<in> set rows))
    \<and> (\<forall>r. payout_matches f r \<and> after_cursor (pf_cursor f) r \<and> (\<forall>rows \<in> set tables. r \<in> set rows) \<longrightarrow> r \<in> set (concat pages))"
proof -
  have len: "length tables = length repos" using assms(1) by (rule list_all2_lengthD)
  have ok: "\<forall>t \<in> set (zip tables repos). payout_ok f t"
    using assms(1-3) by (auto simp: payout_ok_def list_all2_iff)
  have "keyset_walk (payout_page f) (pf_cursor f) (zip tables repos) = (pages, True)"
    using assms(4) history_walk_keyset [OF len] by simp
  note walk = history.walk_stable [OF ok this]
  have "payout_matches f r \<and> after_cursor (pf_cursor f) r \<and> (\<exists>rows \<in> set tables. r \<in> set rows)" if r: "r \<in> set (concat pages)" for r
  proof -
    obtain t where "t \<in> set (zip tables repos)" "payout_visible f t r" "below row_key cursor_key (pf_cursor f) r"
      using walk r by blast
    then show ?thesis
      using set_zip_leftD [of "fst t" "snd t" tables repos] by (auto simp: payout_visible_def after_below)
  qed
  moreover have "r \<in> set (concat pages)"
    if r: "payout_matches f r" "after_cursor (pf_cursor f) r" "\<forall>rows \<in> set tables. r \<in> set rows" for r
  proof -
    have "\<forall>t \<in> set (zip tables repos). payout_visible f t r"
      using r(1,3) by (auto simp: payout_visible_def dest: set_zip_leftD)
    then show ?thesis using walk r(2) unfolding after_below by blast
  qed
  ultimately show ?thesis using walk by blast
qed

theorem keyset_walk_stable_witness:
  "set (concat [[sample_row 7 ''b'' ''V'', sample_row 5 ''c'' ''W''], [sample_row 5 ''a'' ''W'']]) \<supseteq> set sample_rows"
proof -
  let ?repos = "[table_repo sample_rows, table_repo (sample_row 9 ''d'' ''W'' # sample_rows)]"
  have "history_walk sample_filters ?repos
      = ([[sample_row 7 ''b'' ''V'', sample_row 5 ''c'' ''W''], [sample_row 5 ''a'' ''W'']], True)" by code_simp
  then show ?thesis
    using keyset_walk_stable [of "[sample_rows, sample_row 9 ''d'' ''W'' # sample_rows]" ?repos sample_filters]
    by (auto simp: table_repo_answers sample_keyed sample_filters_def payout_matches_def after_cursor_def
        sample_rows_def sample_row_def)
qed

text \<open>
  On a table that does not change, following the cursors ends after at most one request more
  than there are rows, and the pages are together exactly the matching rows, newest first.
\<close>

theorem keyset_walk_complete:
  assumes "answers_from rows repo" "0 < default_to 20 (pf_limit f)"
    "pf_cursor f = None \<longrightarrow> default_to 0 (pf_offset f) \<le> 0" "length rows < n"
  shows "snd (history_walk f (replicate n repo)) \<and> concat (fst (history_walk f (replicate n repo))) = remaining f rows"
proof -
  have "length (remaining f rows) < n"
    using le_less_trans [OF length_filter_le assms(4)] by (simp add: remaining_def)
  with assms(2,3) show ?thesis
  proof (induction n arbitrary: f)
    case (Suc n)
    from assms(1) Suc.prems(1) refl Suc.prems(2) show ?case
    proof (cases rule: page_cases)
      case (more ys l zs)
      have "remaining (f\<lparr>pf_cursor := Some (cursor_of l)\<rparr>) rows = zs"
        using assms(1) more(1) by (intro remaining_next) (auto simp: answers_from_def)
      with Suc.IH [of "f\<lparr>pf_cursor := Some (cursor_of l)\<rparr>"] Suc.prems more show ?thesis by simp
    qed simp
  qed simp
qed

theorem keyset_walk_complete_witness:
  "concat (fst (history_walk sample_filters (replicate 4 (table_repo sample_rows))))
     = [sample_row 7 ''b'' ''V'', sample_row 5 ''c'' ''W'', sample_row 5 ''a'' ''W'']"
proof -
  have "remaining sample_filters sample_rows = [sample_row 7 ''b'' ''V'', sample_row 5 ''c'' ''W'', sample_row 5 ''a'' ''W'']"
    by code_simp
  moreover have "length sample_rows < 4" by code_simp
  moreover have "0 < default_to 20 (pf_limit sample_filters)" "default_to 0 (pf_offset sample_filters) \<le> 0" by code_simp+
  ultimately show ?thesis
    using keyset_walk_complete [OF table_repo_answers [OF sample_keyed(1)], of sample_filters 4] by simp
qed

text \<open>
  (C39) The CSV export. Whatever the table and the database do between its batches, it ends within 101
  queries, writes at most 50,000 lines after the header, reports a cut only at that number, and every
  line is a row that belongs to the caller, matches the query and was in the table at one of the
  queries. On a table that stays as it is for the whole export it writes a beginning of the matching
  rows in a fixed order: all of them up to the cap, with the cut reported exactly when there are more,
  if no query fails, and possibly fewer, without a sign, if one does. Nothing more is shown for a table that
  changes: the walk is by offset, and \<open>export_skips_rows\<close> shows it losing a row.
\<close>

theorem export_own_rows:
  assumes "\<forall>k. answers_or_fails (tables k) (repos k)" "wallet \<noteq> []" "101 \<le> fuel"
  shows "\<exists>lines capped. export_csv fuel repos wallet query = Some (toCsvRow export_header @ csv_lines lines, capped)
    \<and> length lines \<le> 50000 \<and> (capped \<longrightarrow> length lines = 50000)
    \<and> (\<forall>r \<in> set lines. tx_recipient r = wallet \<and> payout_matches (query\<lparr>pf_recipient := None\<rparr>) r \<and> (\<exists>k. r \<in> set (tables k)))
    \<and> (\<forall>rows own. (\<forall>k. tables k = rows) \<and> own = arranged (Some Export_order)
          (filter (\<lambda>r. tx_recipient r = wallet \<and> payout_matches (query\<lparr>pf_recipient := None\<rparr>) r) rows) \<longrightarrow>
        (\<exists>m. lines = take m own)
      \<and> ((\<forall>k. answers_from rows (repos k)) \<longrightarrow> lines = take 50000 own \<and> capped = (50000 < length own)))"
proof -
  let ?f = "no_filters\<lparr>pf_recipient := Some wallet, pf_startDate := pf_startDate query,
          pf_endDate := pf_endDate query, pf_status := pf_status query\<rparr>"
  have match: "payout_matches ?f r \<longleftrightarrow> tx_recipient r = wallet \<and> payout_matches (query\<lparr>pf_recipient := None\<rparr>) r" for r
    by (auto simp: payout_matches_def assms(2))
  have found: "\<forall>r \<in> set (fst (next_batch (repos j) ?f 500 off)). payout_matches ?f r \<and> (\<exists>k. r \<in> set (tables k))" if off: "0 \<le> off" for j off
  proof -
    have "next_batch (repos j) ?f 500 (int (nat off)) = ([], False)
      \<or> fst (next_batch (repos j) ?f 500 (int (nat off))) = take 500 (drop (nat off) (own_rows ?f (tables j)))"
      using next_batch_answers [of "tables j" "repos j" 500 ?f "nat off"] assms(1) unfolding Let_def by auto
    then show ?thesis using off by (auto dest!: in_set_takeD in_set_dropD intro!: exI [of _ j])
  qed
  have cap: "EXPORT_MAX_ROWS = 50000" by (simp add: EXPORT_MAX_ROWS_def)
  then have "EXPORT_MAX_ROWS - 0 < 500 * fuel" using assms(3) by simp
  from export_rows_found [of 0 fuel repos ?f "\<lambda>r. payout_matches ?f r \<and> (\<exists>k. r \<in> set (tables k))" 0 0, OF _ this found] obtain lines capped where run:
    "export_rows fuel repos ?f 0 0 0 = Some (lines, capped)" "length lines \<le> 50000" "capped \<longrightarrow> length lines = 50000"
    "\<forall>r \<in> set lines. payout_matches ?f r \<and> (\<exists>k. r \<in> set (tables k))" unfolding cap by auto
  have "export_csv fuel repos wallet query = Some (toCsvRow export_header @ csv_lines lines, capped)"
    using run(1) by (simp add: export_csv_def no_filters_def export_from_rows)
  moreover have "(\<exists>m. lines = take m own)
      \<and> ((\<forall>k. answers_from rows (repos k)) \<longrightarrow> lines = take 50000 own \<and> capped = (50000 < length own))"
    if same: "\<forall>k. tables k = rows" and own: "own = arranged (Some Export_order)
          (filter (\<lambda>r. tx_recipient r = wallet \<and> payout_matches (query\<lparr>pf_recipient := None\<rparr>) r) rows)" for rows own
  proof -
    have "own = own_rows ?f rows" unfolding own own_rows_def match [symmetric] ..
    with export_rows_table [of rows repos 0 fuel ?f 0 0 lines capped own] assms(1) same run(1) show ?thesis
      unfolding cap by auto
  qed
  ultimately show ?thesis using run(2,3,4) unfolding match by blast
qed

theorem export_own_rows_witness:
  "fst (the (export_csv 101 (\<lambda>_. table_repo sample_rows) ''W'' no_filters)) =
     toCsvRow export_header @ toCsvRow (formatTransactionRow (sample_row 5 ''a'' ''W''))
       @ toCsvRow (formatTransactionRow (sample_row 5 ''c'' ''W''))"
proof -
  let ?own = "arranged (Some Export_order) (filter (\<lambda>r. tx_recipient r = ''W'' \<and> payout_matches (no_filters\<lparr>pf_recipient := None\<rparr>) r) sample_rows)"
  have own: "?own = [sample_row 5 ''a'' ''W'', sample_row 5 ''c'' ''W'']" by code_simp
  have ok: "\<forall>k :: nat. answers_from sample_rows (table_repo sample_rows)" using table_repo_answers [OF sample_keyed(1)] by simp
  then have fails: "\<forall>k :: nat. answers_or_fails sample_rows (table_repo sample_rows)" using answers_no_failure by blast
  have "(''W'' :: string) \<noteq> []" "(101 :: nat) \<le> 101" by simp_all
  from export_own_rows [of "\<lambda>_. sample_rows" "\<lambda>_. table_repo sample_rows", OF fails this, of no_filters] obtain lines capped where
    run: "export_csv 101 (\<lambda>_. table_repo sample_rows) ''W'' no_filters = Some (toCsvRow export_header @ csv_lines lines, capped)"
    and all: "\<forall>rows own. (\<forall>k :: nat. sample_rows = rows) \<and> own = arranged (Some Export_order)
        (filter (\<lambda>r. tx_recipient r = ''W'' \<and> payout_matches (no_filters\<lparr>pf_recipient := None\<rparr>) r) rows) \<longrightarrow>
      (\<exists>m. lines = take m own) \<and> ((\<forall>k :: nat. answers_from rows (table_repo sample_rows)) \<longrightarrow> lines = take 50000 own \<and> capped = (50000 < length own))"
    by blast
  from all [rule_format, of sample_rows ?own] ok have "lines = take 50000 ?own" by blast
  then show ?thesis unfolding run own by simp
qed

text \<open>
  The batches are cut out by offset. In batches of one: when the row of the first batch is gone before
  the second query, the walk ends without the row that was there all the time, and nothing is reported.
\<close>

lemma export_skips_rows:
  "let f = no_filters\<lparr>pf_recipient := Some ''W''\<rparr>; a = sample_row 7 ''a'' ''W''; b = sample_row 5 ''b'' ''W''
   in next_batch (table_repo [a, b]) f 1 0 = ([a], True) \<and> next_batch (table_repo [b]) f 1 1 = ([], False)"
  by code_simp

section \<open>Ledger pages\<close>

text \<open>
  The ledger cursor is an id while the order is by ledger first: the second page leaves out every
  older block whose id happens to be larger.
\<close>

definition block_repo :: "LedgerBlock list \<Rightarrow> BlockQuery \<Rightarrow> db_error + LedgerBlock list" where
  "block_repo rows q =
     Inr (take (nat (bq_take q)) (rev (sort_key (\<lambda>b. (lb_ledgerSeq b, lb_id b))
       (filter (\<lambda>b. case bq_id_below q of None \<Rightarrow> True | Some c \<Rightarrow> lb_id b < c) rows))))"

definition sample_block :: "int \<Rightarrow> string \<Rightarrow> LedgerBlock" where
  "sample_block seq i = \<lparr>lb_id = i, lb_ledgerSeq = seq, lb_txHash = i, lb_type = B_settlement, lb_projectId = None,
     lb_recipient = None, lb_amount = None, lb_ledgerClosedAt = 0\<rparr>"

lemma ledger_pages_skip:
  "getLedgerBlocks (block_repo [sample_block 1 ''b'', sample_block 2 ''a'']) 1 None
     = Inr \<lparr>lp_blocks = [sample_block 2 ''a''], lp_nextCursor = Some ''a''\<rparr>"
  "getLedgerBlocks (block_repo [sample_block 1 ''b'', sample_block 2 ''a'']) 1 (Some ''a'')
     = Inr \<lparr>lp_blocks = [], lp_nextCursor = None\<rparr>"
  by code_simp+

end
