(* ===== verification/Rpc_Resilience.thy ===== *)
theory Rpc_Resilience
  imports Complex_Main Js_Text
begin

text \<open>
  Calls to the Soroban RPC nodes: the health policy of the configured providers with its failover
  interceptors (\<open>backend/src/services/rpc-provider-health.ts\<close>), the retry budget
  (\<open>rpc-retry-budget.ts\<close>), the retry loop \<open>executeWithRetry\<close> of \<open>stellar.ts\<close>, and the failure
  classes of \<open>stellar-timeout.ts\<close>.

  The policy is a record passed in and returned; \<open>next\<close>, \<open>recordSuccess\<close> and \<open>recordFailure\<close> of
  requests in flight interleave as events. A retried call is a function from the attempt number to
  how that attempt settles; the delays slept and the metrics recorded are part of the result. The
  URL parser of the runtime is an argument. Log lines and message texts are not modelled, except
  where the code matches on the message.
\<close>

section \<open>Provider health\<close>

record RpcProviderStatus =
  ps_url :: string
  ps_consecutiveFailures :: int
  ps_unhealthyUntil :: instant

record RpcProviderHealthPolicy =
  hp_providers :: "RpcProviderStatus list"
  hp_failureThreshold :: int
  hp_cooldownMs :: int

datatype rpc_policy_error = No_provider | Invalid_url | Invalid_protocol | All_unavailable | Unknown_provider

text \<open>\<open>[...new Set(xs)]\<close>: the first occurrence of every element.\<close>

definition unique :: "'a list \<Rightarrow> 'a list" where
  "unique xs = rev (remdups (rev xs))"

definition trimmed :: "string list \<Rightarrow> string list" where
  "trimmed urls = filter (\<lambda>u. u \<noteq> []) (map trim urls)"

definition check_url :: "(string \<Rightarrow> string option) \<Rightarrow> string \<Rightarrow> rpc_policy_error + unit" where
  "check_url protocol_of url =
     (case protocol_of url of
        None \<Rightarrow> Inl Invalid_url
      | Some p \<Rightarrow> if p \<noteq> ''https:'' \<and> p \<noteq> ''http:'' then Inl Invalid_protocol else Inr ())"

definition new_policy :: "(string \<Rightarrow> string option) \<Rightarrow> string list \<Rightarrow> int option \<Rightarrow> int option \<Rightarrow> rpc_policy_error + RpcProviderHealthPolicy" where
  "new_policy protocol_of urls failureThreshold cooldownMs =
     (let uniqueUrls = unique (trimmed urls) in
      if uniqueUrls = [] then Inl No_provider
      else case map_result (check_url protocol_of) uniqueUrls of
        Inl e \<Rightarrow> Inl e
      | Inr _ \<Rightarrow>
        Inr \<lparr>hp_providers = map (\<lambda>u. \<lparr>ps_url = u, ps_consecutiveFailures = 0, ps_unhealthyUntil = 0\<rparr>) uniqueUrls,
             hp_failureThreshold = max 1 (default_to 1 failureThreshold),
             hp_cooldownMs = max 1 (default_to 30000 cooldownMs)\<rparr>)"

definition next_provider :: "instant \<Rightarrow> RpcProviderHealthPolicy \<Rightarrow> rpc_policy_error + string" where
  "next_provider now p =
     (case find (\<lambda>s. ps_unhealthyUntil s \<le> now) (hp_providers p) of
        Some s \<Rightarrow> Inr (ps_url s)
      | None \<Rightarrow> Inl All_unavailable)"

text \<open>The object found by its url is changed in place.\<close>

fun change_first :: "string \<Rightarrow> (RpcProviderStatus \<Rightarrow> RpcProviderStatus) \<Rightarrow> RpcProviderStatus list \<Rightarrow> RpcProviderStatus list" where
  "change_first url g [] = []"
| "change_first url g (s # ss) = (if ps_url s = url then g s # ss else s # change_first url g ss)"

definition find_provider :: "string \<Rightarrow> RpcProviderHealthPolicy \<Rightarrow> rpc_policy_error + RpcProviderStatus" where
  "find_provider url p =
     (case find (\<lambda>s. ps_url s = url) (hp_providers p) of None \<Rightarrow> Inl Unknown_provider | Some s \<Rightarrow> Inr s)"

definition recordSuccess :: "string \<Rightarrow> RpcProviderHealthPolicy \<Rightarrow> rpc_policy_error + RpcProviderHealthPolicy" where
  "recordSuccess url p =
     (case find_provider url p of
        Inl e \<Rightarrow> Inl e
      | Inr _ \<Rightarrow> Inr (p\<lparr>hp_providers := change_first url
          (\<lambda>s. s\<lparr>ps_consecutiveFailures := 0, ps_unhealthyUntil := 0\<rparr>) (hp_providers p)\<rparr>))"

definition failed_once :: "instant \<Rightarrow> RpcProviderHealthPolicy \<Rightarrow> RpcProviderStatus \<Rightarrow> RpcProviderStatus" where
  "failed_once now p s =
     (let s1 = s\<lparr>ps_consecutiveFailures := ps_consecutiveFailures s + 1\<rparr>
      in if ps_consecutiveFailures s1 \<ge> hp_failureThreshold p then s1\<lparr>ps_unhealthyUntil := now + hp_cooldownMs p\<rparr> else s1)"

definition recordFailure :: "instant \<Rightarrow> string \<Rightarrow> RpcProviderHealthPolicy \<Rightarrow> rpc_policy_error + RpcProviderHealthPolicy" where
  "recordFailure now url p =
     (case find_provider url p of
        Inl e \<Rightarrow> Inl e
      | Inr _ \<Rightarrow> Inr (p\<lparr>hp_providers := change_first url (failed_once now p) (hp_providers p)\<rparr>))"

definition parseRpcProviderUrls :: "string \<Rightarrow> string option \<Rightarrow> rpc_policy_error + string list" where
  "parseRpcProviderUrls primary backups =
     (let urls = unique (trimmed (primary # split_on (CHR '','') (default_to [] backups)))
      in if urls = [] then Inl No_provider else Inr urls)"

section \<open>Failover interceptors\<close>

text \<open>
  What passes the HTTP client: a request leaving, a validated response and a rejection coming
  back. A response carries the provider noted on its request; a rejection may carry neither
  request nor status (\<open>None\<close>: no response arrived).
\<close>

datatype http_event =
    Request_sent instant
  | Response_ok "string option"
  | Response_failed instant "string option" "int option"

definition transportFailure :: "int option \<Rightarrow> bool" where
  "transportFailure status = (case status of None \<Rightarrow> True | Some s \<Rightarrow> s = 429 \<or> s \<ge> 500)"

definition keep_on_error :: "RpcProviderHealthPolicy \<Rightarrow> rpc_policy_error + RpcProviderHealthPolicy \<Rightarrow> RpcProviderHealthPolicy" where
  "keep_on_error p r = (case r of Inl _ \<Rightarrow> p | Inr p' \<Rightarrow> p')"

text \<open>The provider of a request sent; the policy after an event. The tests on the url drop the empty one.\<close>

fun interceptor :: "RpcProviderHealthPolicy \<Rightarrow> http_event \<Rightarrow> RpcProviderHealthPolicy \<times> string option" where
  "interceptor p (Request_sent now) = (p, case next_provider now p of Inl _ \<Rightarrow> None | Inr url \<Rightarrow> Some url)"
| "interceptor p (Response_ok url) =
     (case url of Some u \<Rightarrow> if u \<noteq> [] then keep_on_error p (recordSuccess u p) else p | None \<Rightarrow> p, None)"
| "interceptor p (Response_failed now url status) =
     (case url of Some u \<Rightarrow> if u \<noteq> [] \<and> transportFailure status then keep_on_error p (recordFailure now u p) else p
      | None \<Rightarrow> p, None)"

text \<open>A run of events and the providers the requests went to, with their times.\<close>

fun run_http :: "RpcProviderHealthPolicy \<Rightarrow> http_event list \<Rightarrow> RpcProviderHealthPolicy \<times> (http_event \<times> string option) list" where
  "run_http p [] = (p, [])"
| "run_http p (e # es) =
     (case interceptor p e of (p1, url) \<Rightarrow> apsnd ((#) (e, url)) (run_http p1 es))"

section \<open>Retry budget\<close>

text \<open>Numbers as the language has them; finite doubles are rationals.\<close>

datatype js_number = NaN | Pos_infinity | Neg_infinity | Finite rat

definition DEFAULT_RPC_MAX_RETRIES :: nat where
  "DEFAULT_RPC_MAX_RETRIES = 3"

definition RPC_RETRY_BUDGET_MAX_RETRIES :: nat where
  "RPC_RETRY_BUDGET_MAX_RETRIES = 5"

definition boundRetryBudget :: "js_number option \<Rightarrow> nat" where
  "boundRetryBudget requested =
     (case requested of
        Some (Finite r) \<Rightarrow> nat (min (max 0 \<lfloor>r\<rfloor>) (int RPC_RETRY_BUDGET_MAX_RETRIES))
      | _ \<Rightarrow> DEFAULT_RPC_MAX_RETRIES)"

section \<open>Failures\<close>

text \<open>
  A thrown value: the classes the code tests for, and of an object the fields it reads. A message
  is kept because \<open>classifyStellarFailure\<close> matches on it. Primitives other than strings carry their
  truth value.
\<close>

datatype error_class = C_RequestValidationError | C_RpcTimeoutError | C_RpcError int | C_Error | C_not_an_Error

datatype js_value =
    Undefined
  | Text_value string
  | Primitive bool
  | Object_value error_class string (resultCode: js_value) (resultCodes: js_value) (errorResult: js_value) (cause: js_value)

definition TERMINAL_TX_ERROR_CODES :: "string list" where
  "TERMINAL_TX_ERROR_CODES =
     [''tx_bad_seq'', ''tx_failed'', ''tx_insufficient_fee'', ''tx_insufficient_balance'', ''tx_malformed'',
      ''tx_no_account'', ''tx_too_early'', ''tx_too_late'', ''tx_bad_auth'', ''tx_missing_operation'',
      ''tx_missing_required_fee'', ''tx_not_enough_signature_weight'', ''tx_bad_sponsorship'',
      ''tx_bad_min_seq_ledger_gap'']"

definition terminal_code :: "js_value \<Rightarrow> bool" where
  "terminal_code v = (case v of Text_value s \<Rightarrow> s \<in> set TERMINAL_TX_ERROR_CODES | _ \<Rightarrow> False)"

fun isTerminalTransactionError :: "js_value \<Rightarrow> bool" where
  "isTerminalTransactionError (Object_value k m rc rcs er c) =
     (list_ex terminal_code [rc, rcs, er] \<or> isTerminalTransactionError c)"
| "isTerminalTransactionError (Text_value s) = (s \<in> set TERMINAL_TX_ERROR_CODES)"
| "isTerminalTransactionError v = False"

definition is_class :: "error_class \<Rightarrow> js_value \<Rightarrow> bool" where
  "is_class k v = (case v of Object_value k' _ _ _ _ _ \<Rightarrow> k' = k | _ \<Rightarrow> False)"

definition falsy :: "js_value \<Rightarrow> bool" where
  "falsy v = (case v of Undefined \<Rightarrow> True | Text_value s \<Rightarrow> s = [] | Primitive b \<Rightarrow> \<not> b | Object_value _ _ _ _ _ _ \<Rightarrow> False)"

definition new_error :: "error_class \<Rightarrow> js_value" where
  "new_error k = Object_value k [] Undefined Undefined Undefined Undefined"

definition RpcTimeoutError :: js_value where
  "RpcTimeoutError = new_error C_RpcTimeoutError"

definition toTerminalTransactionError :: "js_value \<Rightarrow> js_value" where
  "toTerminalTransactionError e = new_error (C_RpcError 409)"

datatype StellarFailureKind = Timeout_failure | Permanent_failure | Transient_failure

definition permanent_codes :: "string list" where
  "permanent_codes =
     [''tx_bad_seq'', ''tx_failed'', ''tx_bad_auth'', ''tx_insufficient_balance'', ''tx_insufficient_fee'',
      ''tx_malformed'', ''tx_no_account'', ''tx_too_early'', ''tx_too_late'',
      ''tx_not_enough_signature_weight'', ''tx_bad_sponsorship'']"

definition classifyStellarFailure :: "js_value \<Rightarrow> StellarFailureKind" where
  "classifyStellarFailure e =
     (case e of
        Object_value k message _ _ _ _ \<Rightarrow>
          if k = C_RpcTimeoutError then Timeout_failure
          else if k \<noteq> C_not_an_Error \<and> list_ex (includes_str (to_lower message)) permanent_codes then Permanent_failure
          else Transient_failure
      | _ \<Rightarrow> Transient_failure)"

definition isStellarTimeoutFailure :: "js_value \<Rightarrow> bool" where
  "isStellarTimeoutFailure e = is_class C_RpcTimeoutError e"

text \<open>The outcome of the guarded call, and whether \<open>onTimeout\<close> was called.\<close>

definition withStellarTimeoutGuard :: "js_value + 'v \<Rightarrow> (js_value + 'v) \<times> bool" where
  "withStellarTimeoutGuard operation =
     (case operation of Inr v \<Rightarrow> (Inr v, False) | Inl e \<Rightarrow> (Inl e, is_class C_RpcTimeoutError e))"

section \<open>The retry loop\<close>

text \<open>How an attempt of the operation settles: after how long, and with what; \<open>None\<close>: never.\<close>

type_synonym 'v attempt = "(int \<times> (js_value + 'v)) option"

text \<open>\<open>Promise.race\<close> of the operation and the timer.\<close>

definition race_timeout :: "int \<Rightarrow> 'v attempt \<Rightarrow> js_value + 'v" where
  "race_timeout timeoutMs a =
     (case a of Some (d, r) \<Rightarrow> if d < timeoutMs then r else Inl RpcTimeoutError | None \<Rightarrow> Inl RpcTimeoutError)"

datatype RpcRetryOutcome = O_success | O_timeout | O_validation_error | O_exhausted

record RetryOptions =
  ro_maxRetries :: "js_number option"
  ro_initialDelayMs :: int
  ro_timeoutMs :: int

definition DEFAULT_RETRY_OPTIONS :: RetryOptions where
  "DEFAULT_RETRY_OPTIONS = \<lparr>ro_maxRetries = None, ro_initialDelayMs = 1000, ro_timeoutMs = 10000\<rparr>"

text \<open>What a call leaves behind: attempts made, delays slept, the outcome and the budget recorded, the settlement.\<close>

record 'v retry_run =
  rr_attempts :: nat
  rr_sleeps :: "int list"
  rr_outcome :: RpcRetryOutcome
  rr_budget :: "nat \<times> nat \<times> bool"
  rr_result :: "js_value + 'v"

definition backoff :: "int \<Rightarrow> nat \<Rightarrow> int" where
  "backoff initialDelayMs attempt = min (initialDelayMs * 2 ^ attempt) 30000"

definition stopped :: "nat \<Rightarrow> nat \<Rightarrow> RpcRetryOutcome \<Rightarrow> js_value + 'v \<Rightarrow> 'v retry_run" where
  "stopped maxRetries attempt out r =
     \<lparr>rr_attempts = attempt + 1, rr_sleeps = [], rr_outcome = out, rr_budget = (maxRetries, attempt, False), rr_result = r\<rparr>"

definition exhausted :: "nat \<Rightarrow> js_value \<Rightarrow> 'v retry_run" where
  "exhausted maxRetries lastError =
     \<lparr>rr_attempts = maxRetries + 1, rr_sleeps = [],
      rr_outcome = (if is_class C_RpcTimeoutError lastError then O_timeout else O_exhausted),
      rr_budget = (maxRetries, maxRetries, True),
      rr_result = Inl (if falsy lastError then new_error (C_RpcError 502) else lastError)\<rparr>"

text \<open>The loop from \<open>attempt\<close> on; \<open>left\<close> is \<open>maxRetries - attempt\<close>.\<close>

fun retry_loop :: "RetryOptions \<Rightarrow> (nat \<Rightarrow> 'v attempt) \<Rightarrow> nat \<Rightarrow> nat \<Rightarrow> 'v retry_run" where
  "retry_loop opts operation attempt left =
     (let maxRetries = attempt + left in
      case race_timeout (ro_timeoutMs opts) (operation attempt) of
        Inr v \<Rightarrow> stopped maxRetries attempt O_success (Inr v)
      | Inl e \<Rightarrow>
        if is_class C_RequestValidationError e then stopped maxRetries attempt O_validation_error (Inl e)
        else if isTerminalTransactionError e then
          stopped maxRetries attempt O_validation_error (Inl (toTerminalTransactionError e))
        else (case left of
            0 \<Rightarrow> exhausted maxRetries e
          | Suc left' \<Rightarrow>
            let run = retry_loop opts operation (attempt + 1) left'
            in run\<lparr>rr_sleeps := backoff (ro_initialDelayMs opts) attempt # rr_sleeps run\<rparr>))"

declare retry_loop.simps [simp del]

definition executeWithRetry :: "RetryOptions \<Rightarrow> (nat \<Rightarrow> 'v attempt) \<Rightarrow> 'v retry_run" where
  "executeWithRetry opts operation = retry_loop opts operation 0 (boundRetryBudget (ro_maxRetries opts))"

section \<open>Lemmas of the retry loop\<close>

definition decisive :: "RetryOptions \<Rightarrow> 'v attempt \<Rightarrow> bool" where
  "decisive opts a =
     (case race_timeout (ro_timeoutMs opts) a of
        Inr v \<Rightarrow> True | Inl e \<Rightarrow> is_class C_RequestValidationError e \<or> isTerminalTransactionError e)"

definition decision :: "js_value + 'v \<Rightarrow> RpcRetryOutcome \<times> (js_value + 'v)" where
  "decision r =
     (case r of Inr v \<Rightarrow> (O_success, Inr v)
      | Inl e \<Rightarrow> (O_validation_error, Inl (if is_class C_RequestValidationError e then e else toTerminalTransactionError e)))"

abbreviation sleeps_between :: "RetryOptions \<Rightarrow> nat \<Rightarrow> nat \<Rightarrow> int list" where
  "sleeps_between opts i j \<equiv> map (backoff (ro_initialDelayMs opts)) [i..<j]"

lemma retry_again:
  assumes "\<not> decisive opts (operation attempt)"
  shows "retry_loop opts operation attempt (Suc left) =
    (retry_loop opts operation (Suc attempt) left)\<lparr>rr_sleeps :=
       backoff (ro_initialDelayMs opts) attempt # rr_sleeps (retry_loop opts operation (Suc attempt) left)\<rparr>"
  using assms by (auto simp: retry_loop.simps [of _ _ _ "Suc left"] decisive_def Let_def split: sum.splits)

lemma retry_stops:
  assumes "decisive opts (operation k)" "\<forall>j. attempt \<le> j \<and> j < k \<longrightarrow> \<not> decisive opts (operation j)"
    "attempt \<le> k" "k \<le> attempt + left"
    and "decision (race_timeout (ro_timeoutMs opts) (operation k)) = (out, res)"
  shows "retry_loop opts operation attempt left =
    (stopped (attempt + left) k out res)\<lparr>rr_sleeps := sleeps_between opts attempt k\<rparr>"
  using assms(2-4)
proof (induction left arbitrary: attempt)
  case (Suc left)
  show ?case
  proof (cases "attempt = k")
    case True
    then show ?thesis using assms(1,5)
      by (auto simp: retry_loop.simps [of _ _ _ "Suc left"] decisive_def decision_def stopped_def split: sum.splits if_splits)
  next
    case False
    then have "\<not> decisive opts (operation attempt)" "Suc attempt \<le> k" using Suc.prems by auto
    moreover from this have "[attempt..<k] = attempt # [Suc attempt..<k]" by (simp add: upt_conv_Cons)
    ultimately show ?thesis using Suc.IH [of "Suc attempt"] Suc.prems by (simp add: retry_again stopped_def)
  qed
next
  case 0
  then have "attempt = k" by simp
  then show ?case using assms(1,5)
    by (auto simp: retry_loop.simps [of _ _ _ 0] decisive_def decision_def stopped_def split: sum.splits if_splits)
qed

lemma retry_exhausts:
  assumes "\<forall>j. attempt \<le> j \<and> j \<le> attempt + left \<longrightarrow> \<not> decisive opts (operation j)"
  shows "\<exists>e. race_timeout (ro_timeoutMs opts) (operation (attempt + left)) = Inl e
    \<and> retry_loop opts operation attempt left =
      (exhausted (attempt + left) e)\<lparr>rr_sleeps := sleeps_between opts attempt (attempt + left)\<rparr>"
  using assms
proof (induction left arbitrary: attempt)
  case 0
  then have "\<not> decisive opts (operation attempt)" by simp
  then show ?case
    by (auto simp: retry_loop.simps [of _ _ _ 0] decisive_def exhausted_def split: sum.splits)
next
  case (Suc left)
  have "\<not> decisive opts (operation attempt)" using Suc.prems by simp
  moreover have "[attempt..<Suc (attempt + left)] = attempt # [Suc attempt..<Suc (attempt + left)]" by (simp add: upt_conv_Cons)
  moreover obtain e where "race_timeout (ro_timeoutMs opts) (operation (Suc attempt + left)) = Inl e"
    "retry_loop opts operation (Suc attempt) left =
      (exhausted (Suc attempt + left) e)\<lparr>rr_sleeps := sleeps_between opts (Suc attempt) (Suc attempt + left)\<rparr>"
    using Suc.IH [of "Suc attempt"] Suc.prems by auto
  ultimately show ?case by (simp add: retry_again exhausted_def)
qed

lemma budget_bound: "boundRetryBudget r \<le> 5"
  by (auto simp: boundRetryBudget_def DEFAULT_RPC_MAX_RETRIES_def RPC_RETRY_BUDGET_MAX_RETRIES_def
      split: option.splits js_number.splits)

lemma sleeps_bound: "sum_list (sleeps_between opts 0 k) \<le> int k * 30000"
  using sum_list_bound_int [of "sleeps_between opts 0 k" 30000] by (simp add: backoff_def)

text \<open>
  A retried call always settles. Either some attempt within the budget is decisive (it
  succeeds, is a validation error or a rejection no retry can fix): then the first such attempt
  ends the call with its result and no attempt follows. Or none is: then the budget is spent and
  the last error is thrown. At most six attempts are made and at most 150 seconds slept, and the
  recorded budget is what was used.
\<close>

theorem retry_settles_within_budget:
  assumes "run = executeWithRetry opts operation"
  shows "rr_attempts run \<le> 6 \<and> sum_list (rr_sleeps run) \<le> 150000 \<and> fst (snd (rr_budget run)) + 1 = rr_attempts run
    \<and> ((\<exists>k \<le> boundRetryBudget (ro_maxRetries opts). decisive opts (operation k) \<and> (\<forall>j < k. \<not> decisive opts (operation j))
          \<and> rr_attempts run = k + 1
          \<and> (rr_outcome run, rr_result run) = decision (race_timeout (ro_timeoutMs opts) (operation k)))
       \<or> ((\<forall>j \<le> boundRetryBudget (ro_maxRetries opts). \<not> decisive opts (operation j))
          \<and> rr_attempts run = boundRetryBudget (ro_maxRetries opts) + 1 \<and> snd (snd (rr_budget run)) \<and> (\<exists>e. rr_result run = Inl e)))"
proof -
  let ?n = "boundRetryBudget (ro_maxRetries opts)"
  have n: "?n \<le> 5" by (rule budget_bound)
  show ?thesis
  proof (cases "\<exists>k \<le> ?n. decisive opts (operation k)")
    case True
    define k where "k = (LEAST k. decisive opts (operation k))"
    have k: "decisive opts (operation k)" "\<forall>j < k. \<not> decisive opts (operation j)" "k \<le> ?n"
      using True LeastI_ex [of "\<lambda>k. decisive opts (operation k)"] not_less_Least
      by (auto simp: k_def intro: Least_le order_trans)
    obtain out res where d: "decision (race_timeout (ro_timeoutMs opts) (operation k)) = (out, res)" by fastforce
    have run: "run = (stopped ?n k out res)\<lparr>rr_sleeps := sleeps_between opts 0 k\<rparr>"
      unfolding assms executeWithRetry_def using retry_stops [of opts operation k 0 ?n] k d by simp
    have "int k * 30000 \<le> 150000" using k(3) n by linarith
    then have "sum_list (sleeps_between opts 0 k) \<le> 150000" using sleeps_bound [of opts k] by linarith
    moreover have "\<exists>k' \<le> ?n. decisive opts (operation k') \<and> (\<forall>j < k'. \<not> decisive opts (operation j)) \<and> k + 1 = k' + 1
        \<and> (out, res) = decision (race_timeout (ro_timeoutMs opts) (operation k'))" using k d by metis
    ultimately show ?thesis using k(3) n unfolding run stopped_def by simp
  next
    case False
    then obtain e where run: "run = (exhausted ?n e)\<lparr>rr_sleeps := sleeps_between opts 0 ?n\<rparr>"
      using retry_exhausts [of 0 ?n opts operation] unfolding assms executeWithRetry_def by auto
    have "int ?n * 30000 \<le> 150000" using n by linarith
    then have "sum_list (sleeps_between opts 0 ?n) \<le> 150000" using sleeps_bound [of opts ?n] by linarith
    then show ?thesis using False n unfolding run exhausted_def by simp
  qed
qed

definition sample_call :: "nat \<Rightarrow> int attempt" where
  "sample_call k = (if k = 0 then None else if k = 1 then Some (5, Inl (new_error C_Error)) else Some (5, Inr 7))"

theorem retry_settles_within_budget_witness:
  "rr_attempts (executeWithRetry DEFAULT_RETRY_OPTIONS sample_call) = 3
    \<and> sum_list (rr_sleeps (executeWithRetry DEFAULT_RETRY_OPTIONS sample_call)) \<le> 150000"
proof -
  have "rr_attempts (executeWithRetry DEFAULT_RETRY_OPTIONS sample_call) = 3" by code_simp
  then show ?thesis using retry_settles_within_budget [OF refl, of DEFAULT_RETRY_OPTIONS sample_call] by simp
qed

section \<open>Lemmas of the provider policy\<close>

abbreviation provider_urls :: "RpcProviderHealthPolicy \<Rightarrow> string list" where
  "provider_urls p \<equiv> map ps_url (hp_providers p)"

lemma change_first_map:
  "distinct (map ps_url ss) \<Longrightarrow> change_first url g ss = map (\<lambda>s. if ps_url s = url then g s else s) ss"
proof (induction ss)
  case (Cons s ss)
  moreover have "map (\<lambda>s'. if ps_url s' = ps_url s then g s' else s') ss = ss"
    using Cons.prems by (intro map_idI) (auto simp: image_iff)
  ultimately show ?case by auto
qed simp

lemma urls_change_first: "(\<And>s. ps_url (g s) = ps_url s) \<Longrightarrow> map ps_url (change_first url g ss) = map ps_url ss"
  by (induction ss) auto

lemma failed_once_url [simp]: "ps_url (failed_once now p s) = ps_url s"
  by (simp add: failed_once_def Let_def)

lemma interceptor_frame:
  "provider_urls (fst (interceptor p e)) = provider_urls p"
  "hp_cooldownMs (fst (interceptor p e)) = hp_cooldownMs p"
  "hp_failureThreshold (fst (interceptor p e)) = hp_failureThreshold p"
  by (cases e; auto simp: keep_on_error_def recordSuccess_def recordFailure_def urls_change_first
      split: option.splits sum.splits)+

text \<open>Every event changes each provider on its own.\<close>

definition status_after :: "RpcProviderHealthPolicy \<Rightarrow> http_event \<Rightarrow> RpcProviderStatus \<Rightarrow> RpcProviderStatus" where
  "status_after p e s =
     (case e of
        Request_sent now \<Rightarrow> s
      | Response_ok url \<Rightarrow> if url = Some (ps_url s) \<and> ps_url s \<noteq> [] then s\<lparr>ps_consecutiveFailures := 0, ps_unhealthyUntil := 0\<rparr> else s
      | Response_failed now url status \<Rightarrow>
          if url = Some (ps_url s) \<and> ps_url s \<noteq> [] \<and> transportFailure status then failed_once now p s else s)"

lemma status_after_url [simp]: "ps_url (status_after p e s) = ps_url s"
  by (simp add: status_after_def split: http_event.splits)

lemma find_provider_cases:
  "find_provider url p = Inl e \<Longrightarrow> url \<notin> set (provider_urls p)"
  by (auto simp: find_provider_def find_None_all split: option.splits)

lemma interceptor_map:
  assumes "distinct (provider_urls p)"
  shows "hp_providers (fst (interceptor p e)) = map (status_after p e) (hp_providers p)"
proof (cases e)
  case (Request_sent now)
  then show ?thesis by (auto simp: status_after_def map_idI)
next
  case (Response_ok url)
  then show ?thesis using assms
    by (auto simp: status_after_def keep_on_error_def recordSuccess_def change_first_map
        split: option.splits sum.splits dest!: find_provider_cases intro!: map_idI [symmetric])
next
  case (Response_failed now url status)
  then show ?thesis using assms
    by (auto simp: status_after_def keep_on_error_def recordFailure_def change_first_map
        split: option.splits sum.splits dest!: find_provider_cases intro!: map_idI [symmetric])
qed

lemma run_http_Cons:
  "run_http p (e # es) = (fst (run_http (fst (interceptor p e)) es),
     (e, snd (interceptor p e)) # snd (run_http (fst (interceptor p e)) es))"
  by (simp add: split_beta prod_eq_iff)

text \<open>A provider of the policy that stays quarantined until \<open>L\<close>.\<close>

definition quarantined :: "string \<Rightarrow> instant \<Rightarrow> RpcProviderHealthPolicy \<Rightarrow> bool" where
  "quarantined url L p = (distinct (provider_urls p) \<and>
     list_all (\<lambda>s. ps_url s = url \<longrightarrow> L \<le> ps_unhealthyUntil s) (hp_providers p))"

text \<open>Events of a period of \<open>[t, L)\<close> in which the provider does not answer.\<close>

fun silent :: "string \<Rightarrow> instant \<Rightarrow> instant \<Rightarrow> http_event \<Rightarrow> bool" where
  "silent url t L (Request_sent now) = (now < L)"
| "silent url t L (Response_ok u) = (u \<noteq> Some url)"
| "silent url t L (Response_failed now u status) = (t \<le> now)"

lemma quarantined_step:
  assumes "quarantined url (t + hp_cooldownMs p) p" "silent url t (t + hp_cooldownMs p) e"
  shows "quarantined url (t + hp_cooldownMs p) (fst (interceptor p e)) \<and> snd (interceptor p e) \<noteq> Some url"
proof
  have "distinct (provider_urls p)" using assms(1) by (simp add: quarantined_def)
  then show "quarantined url (t + hp_cooldownMs p) (fst (interceptor p e))"
    using assms unfolding quarantined_def interceptor_map [OF \<open>distinct (provider_urls p)\<close>]
    by (cases e) (auto simp: status_after_def failed_once_def Let_def list_all_iff interceptor_frame comp_def distinct_map
        inj_on_def split: if_splits)
  show "snd (interceptor p e) \<noteq> Some url"
    using assms by (cases e) (auto simp: quarantined_def list_all_iff next_provider_def dest!: find_Some_mem split: option.splits sum.splits)
qed

lemma quarantined_run:
  assumes "quarantined url (t + hp_cooldownMs p) p" "list_all (silent url t (t + hp_cooldownMs p)) es"
  shows "\<forall>(e, target) \<in> set (snd (run_http p es)). target \<noteq> Some url"
  using assms
proof (induction es arbitrary: p)
  case (Cons e es)
  have cd: "hp_cooldownMs (fst (interceptor p e)) = hp_cooldownMs p" by (rule interceptor_frame(2))
  from quarantined_step [OF Cons.prems(1)] Cons.prems(2)
  have "quarantined url (t + hp_cooldownMs p) (fst (interceptor p e))" "snd (interceptor p e) \<noteq> Some url" by auto
  with Cons.IH [of "fst (interceptor p e)"] Cons.prems(2) show ?case by (simp add: run_http_Cons cd del: run_http.simps)
qed simp

text \<open>How long a provider can be quarantined, as long as no failure is later than \<open>T\<close>.\<close>

definition released_by :: "instant \<Rightarrow> RpcProviderHealthPolicy \<Rightarrow> bool" where
  "released_by T p = (distinct (provider_urls p) \<and> list_all (\<lambda>s. ps_unhealthyUntil s \<le> T + hp_cooldownMs p) (hp_providers p))"

fun failed_before :: "instant \<Rightarrow> http_event \<Rightarrow> bool" where
  "failed_before T (Response_failed now u status) = (now \<le> T)"
| "failed_before T e = True"

lemma released_run:
  assumes "released_by T p" "list_all (failed_before T) es" "0 \<le> T" "0 < hp_cooldownMs p"
  shows "released_by T (fst (run_http p es)) \<and> provider_urls (fst (run_http p es)) = provider_urls p
    \<and> hp_cooldownMs (fst (run_http p es)) = hp_cooldownMs p"
  using assms
proof (induction es arbitrary: p)
  case (Cons e es)
  have d: "distinct (provider_urls p)" using Cons.prems by (simp add: released_by_def)
  have "list_all (\<lambda>s. ps_unhealthyUntil (status_after p e s) \<le> T + hp_cooldownMs p) (hp_providers p)"
    using Cons.prems by (cases e) (auto simp: released_by_def status_after_def failed_once_def Let_def list_all_iff)
  then have "released_by T (fst (interceptor p e))"
    using interceptor_frame [of p e] d by (simp add: released_by_def interceptor_map [OF d] list_all_iff comp_def)
  then show ?case using Cons.IH [of "fst (interceptor p e)"] Cons.prems interceptor_frame [of p e]
    by (simp add: run_http_Cons del: run_http.simps)
qed simp

lemma set_unique [simp]: "set (unique xs) = set xs"
  by (simp add: unique_def)

lemma distinct_unique [simp]: "distinct (unique xs)"
  by (simp add: unique_def)

lemma new_policy_props:
  assumes "new_policy protocol_of urls threshold cooldown = Inr p"
  shows "provider_urls p = unique (trimmed urls)" "provider_urls p \<noteq> []" "0 < hp_cooldownMs p"
    "distinct (provider_urls p)" "0 \<le> T \<Longrightarrow> released_by T p"
  using assms
  by (auto simp: new_policy_def Let_def comp_def released_by_def list_all_iff split: if_splits sum.splits)

text \<open>
  A provider whose failure brings its streak to the threshold receives no request before its
  cooldown is over, whatever other requests do in the meantime, unless one of its own earlier
  requests is still answered.
\<close>

theorem provider_quarantine:
  assumes "distinct (provider_urls p)" "s \<in> set (hp_providers p)" "ps_url s \<noteq> []" "transportFailure status"
    "hp_failureThreshold p \<le> ps_consecutiveFailures s + 1"
    "list_all (silent (ps_url s) t (t + hp_cooldownMs p)) es"
  shows "Some (ps_url s) \<notin> snd ` set (snd (run_http p (Response_failed t (Some (ps_url s)) status # es)))"
proof -
  let ?e = "Response_failed t (Some (ps_url s)) status"
  let ?p = "fst (interceptor p ?e)"
  have "s' = s" if "s' \<in> set (hp_providers p)" "ps_url s' = ps_url s" for s'
    using assms(1,2) that by (auto simp: distinct_map inj_on_def)
  then have "ps_url s' = ps_url s \<longrightarrow> t + hp_cooldownMs p \<le> ps_unhealthyUntil (status_after p ?e s')"
    if "s' \<in> set (hp_providers p)" for s'
    using assms that by (auto simp: status_after_def failed_once_def Let_def)
  then have "quarantined (ps_url s) (t + hp_cooldownMs p) ?p"
    using assms(1) by (simp add: quarantined_def interceptor_map [OF assms(1)] list_all_iff comp_def del: interceptor.simps)
  then have "\<forall>(e, target) \<in> set (snd (run_http ?p es)). target \<noteq> Some (ps_url s)"
    using quarantined_run [of "ps_url s" t ?p es] assms(6) interceptor_frame(2) [of p ?e] by simp
  then show ?thesis by (auto simp: run_http_Cons simp del: run_http.simps)
qed

definition sample_policy :: RpcProviderHealthPolicy where
  "sample_policy = \<lparr>hp_providers = [\<lparr>ps_url = ''a'', ps_consecutiveFailures = 0, ps_unhealthyUntil = 0\<rparr>,
     \<lparr>ps_url = ''b'', ps_consecutiveFailures = 0, ps_unhealthyUntil = 0\<rparr>],
     hp_failureThreshold = 1, hp_cooldownMs = 30000\<rparr>"

theorem provider_quarantine_witness:
  "Some ''a'' \<notin> snd ` set (snd (run_http sample_policy
      [Response_failed 10 (Some ''a'') None, Request_sent 20, Response_ok (Some ''b''), Request_sent 30000]))"
  using provider_quarantine [of sample_policy "\<lparr>ps_url = ''a'', ps_consecutiveFailures = 0, ps_unhealthyUntil = 0\<rparr>" None 10
      "[Request_sent 20, Response_ok (Some ''b''), Request_sent 30000]"]
  by (simp add: sample_policy_def transportFailure_def del: run_http.simps)

text \<open>
  Quarantine is temporary: whatever the history of a policy, once no failure is more recent
  than the cooldown every provider is eligible again and requests go to the primary endpoint.
\<close>

theorem provider_recovery:
  assumes "new_policy protocol_of urls threshold cooldown = Inr p" "list_all (failed_before T) es" "0 \<le> T"
    "T + hp_cooldownMs p \<le> now"
  shows "next_provider now (fst (run_http p es)) = Inr (hd (unique (trimmed urls)))"
proof -
  note props = new_policy_props [OF assms(1)]
  let ?p = "fst (run_http p es)"
  have r: "released_by T ?p" "provider_urls ?p = provider_urls p" "hp_cooldownMs ?p = hp_cooldownMs p"
    using released_run [OF props(5) [OF assms(3)] assms(2,3) props(3)] by auto
  obtain s ss where ss: "hp_providers ?p = s # ss" using props(2) r(2) by (cases "hp_providers ?p") auto
  have "ps_unhealthyUntil s \<le> now" using r(1,3) ss assms(4) by (simp add: released_by_def)
  moreover have "ps_url s = hd (unique (trimmed urls))" using r(2) ss props(1) by (metis list.sel(1) list.simps(9))
  ultimately show ?thesis by (simp add: next_provider_def ss)
qed

theorem provider_recovery_witness:
  "next_provider 30010 (fst (run_http sample_policy [Response_failed 10 (Some ''a'') None])) = Inr ''a''"
proof -
  have "new_policy (\<lambda>_. Some ''https:'') ['' a '', ''b'', ''a''] (Some 1) (Some 30000) = Inr sample_policy"
    "hd (unique (trimmed ['' a '', ''b'', ''a''])) = ''a''"
    by code_simp+
  then show ?thesis
    using provider_recovery [of "\<lambda>_. Some ''https:''" "['' a '', ''b'', ''a'']" "Some 1" "Some 30000" sample_policy 10
        "[Response_failed 10 (Some ''a'') None]" 30010]
    by (simp add: sample_policy_def)
qed

section \<open>Failure classes\<close>

text \<open>
  A rejection the retry loop treats as terminal by its result code is classed as transient when the
  message does not carry the code, and codes missing from the list of \<open>classifyStellarFailure\<close> are
  classed as transient even then.
\<close>

lemma terminal_classed_transient:
  "isTerminalTransactionError (Object_value C_Error ''rejected'' (Text_value ''tx_bad_seq'') Undefined Undefined Undefined)"
  "classifyStellarFailure (Object_value C_Error ''rejected'' (Text_value ''tx_bad_seq'') Undefined Undefined Undefined) = Transient_failure"
  "''tx_missing_operation'' \<in> set TERMINAL_TX_ERROR_CODES"
  "classifyStellarFailure (Object_value C_Error ''tx_missing_operation'' Undefined Undefined Undefined Undefined) = Transient_failure"
  by code_simp+

text \<open>The timeout guard hands the outcome on unchanged; nothing is rolled back.\<close>

lemma timeout_guard_transparent: "fst (withStellarTimeoutGuard r) = r"
  by (cases r) (simp_all add: withStellarTimeoutGuard_def)

end
