(* ===== verification/Event_Listener.thy ===== *)
theory Event_Listener
  imports Ledger_Entities
begin

text \<open>
  The background worker that indexes contract events
  (\<open>backend/src/services/EventListenerService.ts\<close>): its module-level state, the polling cadence,
  start and stop, and \<open>pollEvents\<close> with the transaction that stores payments and cursor together.

  The worker's memory and the database are two records, because a restart loses the first and keeps
  the second. Both operations that wait are split at their awaits: \<open>startEventListenerService\<close> into
  the part up to the first read and \<open>start_resumed\<close> for each of its three waits, \<open>pollEvents\<close> into
  \<open>poll_begin\<close> (the reentrancy guard and the query) and \<open>poll_finish\<close> (what happens with the answer).
  The lookups and the commit after the answer are one step, since the reentrancy guard keeps the worker
  the only writer of its rows meanwhile. What the RPC node answers (after the
  schema checks), what the SDK decodes from an event, whether a database call fails, the token a
  project resolves to and generated row ids are arguments. An upsert is the database's
  \<open>INSERT ... ON CONFLICT DO UPDATE\<close>, which refuses a command that proposes two rows for one key.
  Log lines and metrics are not modelled.
\<close>

section \<open>State\<close>

definition NORMAL_POLL_INTERVAL_MS :: int where "NORMAL_POLL_INTERVAL_MS = 5000"
definition BACKOFF_POLL_INTERVAL_MS :: int where "BACKOFF_POLL_INTERVAL_MS = 30000"
definition ERROR_THRESHOLD :: nat where "ERROR_THRESHOLD = 3"
definition MAX_CATCHUP_LEDGERS :: int where "MAX_CATCHUP_LEDGERS = 10000"
definition STARTUP_LOOKBACK_LEDGERS :: int where "STARTUP_LOOKBACK_LEDGERS = 100"
definition EVENT_LISTENER_CURSOR_KEY :: string where "EVENT_LISTENER_CURSOR_KEY = ''event_listener_cursor''"
definition EVENT_LISTENER_LAST_PROCESSED_LEDGER_KEY :: string where
  "EVENT_LISTENER_LAST_PROCESSED_LEDGER_KEY = ''event_listener_last_processed_ledger''"

lemmas listener_constants = NORMAL_POLL_INTERVAL_MS_def BACKOFF_POLL_INTERVAL_MS_def ERROR_THRESHOLD_def
  MAX_CATCHUP_LEDGERS_def STARTUP_LOOKBACK_LEDGERS_def EVENT_LISTENER_CURSOR_KEY_def
  EVENT_LISTENER_LAST_PROCESSED_LEDGER_KEY_def

text \<open>\<open>el_pollInterval\<close>: the delay the interval timer was armed with, if it is armed.\<close>

record EventListener =
  el_pollInterval :: "int option"
  el_isPolling :: bool
  el_startLedger :: "int option"
  el_cursor :: "string option"
  el_consecutiveErrors :: nat
  el_lastSuccessfulPoll :: "instant option"
  el_currentPollDelayMs :: int
  el_latestObservedLedger :: "int option"
  el_lastProcessedLedger :: "int option"
  el_lastLedgerObservationAt :: "instant option"

definition fresh_listener :: EventListener where
  "fresh_listener = \<lparr>el_pollInterval = None, el_isPolling = False, el_startLedger = None, el_cursor = None,
     el_consecutiveErrors = 0, el_lastSuccessfulPoll = None, el_currentPollDelayMs = NORMAL_POLL_INTERVAL_MS,
     el_latestObservedLedger = None, el_lastProcessedLedger = None, el_lastLedgerObservationAt = None\<rparr>"

record listener_db =
  db_transactions :: "TransactionRecord list"
  db_serviceState :: "(string, string) jmap"

datatype ServiceStatus = S_stopped | S_healthy | S_degraded

record EventListenerLedgerLag =
  lag_latestLedger :: "int option"
  lag_lastProcessedLedger :: "int option"
  lag_lag :: "int option"
  lag_observedAt :: "instant option"

section \<open>Cadence and health\<close>

definition getLedgerLag :: "EventListener \<Rightarrow> EventListenerLedgerLag" where
  "getLedgerLag s =
     \<lparr>lag_latestLedger = el_latestObservedLedger s, lag_lastProcessedLedger = el_lastProcessedLedger s,
      lag_lag = (case (el_latestObservedLedger s, el_lastProcessedLedger s) of
          (Some l, Some p) \<Rightarrow> Some (max 0 (l - p)) | _ \<Rightarrow> None),
      lag_observedAt = el_lastLedgerObservationAt s\<rparr>"

definition schedulePolling :: "int \<Rightarrow> EventListener \<Rightarrow> EventListener" where
  "schedulePolling delayMs s =
     (if el_pollInterval s \<noteq> None \<and> el_currentPollDelayMs s = delayMs then s
      else s\<lparr>el_currentPollDelayMs := delayMs, el_pollInterval := Some delayMs\<rparr>)"

definition capCatchUpWindow :: "int \<Rightarrow> int \<Rightarrow> int" where
  "capCatchUpWindow latestLedger desiredStartLedger =
     (if latestLedger - desiredStartLedger > MAX_CATCHUP_LEDGERS then latestLedger - MAX_CATCHUP_LEDGERS
      else desiredStartLedger)"

definition stopEventListenerService :: "EventListener \<Rightarrow> EventListener" where
  "stopEventListenerService s =
     (if el_pollInterval s \<noteq> None
      then s\<lparr>el_pollInterval := None, el_currentPollDelayMs := NORMAL_POLL_INTERVAL_MS, el_consecutiveErrors := 0\<rparr>
      else s)"

definition getServiceHealth :: "EventListener \<Rightarrow> ServiceStatus \<times> instant option \<times> nat" where
  "getServiceHealth s =
     ((if el_pollInterval s = None then S_stopped
       else if el_consecutiveErrors s \<ge> ERROR_THRESHOLD then S_degraded else S_healthy),
      el_lastSuccessfulPoll s, el_consecutiveErrors s)"

definition recordPollFailure :: "EventListener \<Rightarrow> EventListener" where
  "recordPollFailure s =
     (let s1 = s\<lparr>el_consecutiveErrors := el_consecutiveErrors s + 1\<rparr>
      in if el_consecutiveErrors s1 \<ge> ERROR_THRESHOLD \<and> el_currentPollDelayMs s1 \<noteq> BACKOFF_POLL_INTERVAL_MS
         then schedulePolling BACKOFF_POLL_INTERVAL_MS s1 else s1)"

definition recordPollSuccess :: "instant \<Rightarrow> EventListener \<Rightarrow> EventListener" where
  "recordPollSuccess now s =
     (let s1 = s\<lparr>el_consecutiveErrors := 0, el_lastSuccessfulPoll := Some now\<rparr>
      in if el_currentPollDelayMs s1 \<noteq> NORMAL_POLL_INTERVAL_MS
         then schedulePolling NORMAL_POLL_INTERVAL_MS s1 else s1)"

section \<open>Start\<close>

text \<open>
  \<open>Number(value)\<close> of a stored ledger, accepted when it is a safe non-negative integer. The texts are
  the decimal ones \<open>pollEvents\<close> writes (and the empty text, which the language reads as 0).
\<close>

definition parse_ledger :: "string option \<Rightarrow> int option" where
  "parse_ledger v =
     (case v of None \<Rightarrow> None
      | Some t \<Rightarrow> if list_all is_digit t \<and> text_nat t \<le> 9007199254740991 then Some (int (text_nat t)) else None)"

text \<open>
  The places where a start waits: for the stored cursor, for the stored ledger (the cursor it has read
  so far is an argument), for the node's latest ledger.
\<close>

datatype start_phase = Reading_cursor | Reading_ledger "string option" | Asking_latest

text \<open>The synchronous part, up to the first read: the guard and the reset of the streak.\<close>

definition startEventListenerService :: "EventListener \<Rightarrow> EventListener \<times> start_phase option" where
  "startEventListenerService s =
     (if el_pollInterval s \<noteq> None then (s, None)
      else (s\<lparr>el_consecutiveErrors := 0\<rparr>, Some Reading_cursor))"

text \<open>
  One wait is over. \<open>fails\<close>: the awaited call throws, the catch logs it and the timer is armed with
  whatever position the memory has; \<open>latest\<close>: the ledger the node reports.
\<close>

fun start_resumed :: "bool \<Rightarrow> int \<Rightarrow> listener_db \<Rightarrow> start_phase \<Rightarrow> EventListener \<Rightarrow> EventListener \<times> start_phase option" where
  "start_resumed fails latest db Reading_cursor s =
     (if fails then (schedulePolling NORMAL_POLL_INTERVAL_MS s, None)
      else (s, Some (Reading_ledger (jm_get (db_serviceState db) EVENT_LISTENER_CURSOR_KEY))))"
| "start_resumed fails latest db (Reading_ledger persistedCursor) s =
     (if fails then (schedulePolling NORMAL_POLL_INTERVAL_MS s, None)
      else
        let s1 = s\<lparr>el_lastProcessedLedger :=
              parse_ledger (jm_get (db_serviceState db) EVENT_LISTENER_LAST_PROCESSED_LEDGER_KEY)\<rparr>
        in case persistedCursor of
            Some (c # cs) \<Rightarrow> (schedulePolling NORMAL_POLL_INTERVAL_MS (s1\<lparr>el_cursor := Some (c # cs), el_startLedger := None\<rparr>), None)
          | _ \<Rightarrow> (s1, Some Asking_latest))"
| "start_resumed fails latest db Asking_latest s =
     (schedulePolling NORMAL_POLL_INTERVAL_MS
        (if fails then s
         else s\<lparr>el_startLedger := Some (capCatchUpWindow latest (max 1 (latest - STARTUP_LOOKBACK_LEDGERS)))\<rparr>), None)"

section \<open>Polling\<close>

text \<open>
  An event as the checks leave it: \<open>ev_topic\<close> holds the decoded topics (\<open>None\<close>: not decodable),
  \<open>ev_payout\<close> recipient and amount (\<open>None\<close>: \<open>decodeContractValue\<close> throws).
\<close>

record ContractEvent =
  ev_txHash :: string
  ev_ledger :: "int option"
  ev_ledgerClosedAt :: instant
  ev_topic :: "string option list"
  ev_contractId :: "string option"
  ev_payout :: "(string \<times> int) option"

record GetEventsResponse =
  ge_events :: "ContractEvent list"
  ge_cursor :: "string option"
  ge_latestLedger :: "int option"

datatype poll_query = From_cursor string | From_ledger int

definition poll_begin :: "EventListener \<Rightarrow> EventListener \<times> poll_query option" where
  "poll_begin s =
     (if el_isPolling s then (s, None)
      else (s\<lparr>el_isPolling := True\<rparr>,
        Some (case el_cursor s of
            Some (c # cs) \<Rightarrow> From_cursor (c # cs)
          | _ \<Rightarrow> (case el_startLedger s of
                Some l \<Rightarrow> if l \<noteq> 0 then From_ledger l else From_cursor []
              | None \<Rightarrow> From_cursor []))))"

text \<open>\<open>contractSymbolSchema\<close>.\<close>

definition contract_symbol :: "string \<Rightarrow> bool" where
  "contract_symbol s = (1 \<le> length s \<and> length s \<le> 32 \<and>
     list_all (\<lambda>c. is_letter c \<or> is_digit c \<or> c = CHR ''_'') s)"

definition topic_at :: "nat \<Rightarrow> ContractEvent \<Rightarrow> string option" where
  "topic_at i e = (if i < length (ev_topic e) then Some (default_to [] (ev_topic e ! i)) else None)"

text \<open>The decoded payment: project, recipient, amount text, timestamp in seconds; \<open>None\<close>: a validation error is thrown.\<close>

definition decodePayoutEvent :: "string \<Rightarrow> ContractEvent \<Rightarrow> (string \<times> string \<times> string \<times> int) option" where
  "decodePayoutEvent expectedContractId e =
     (if ev_contractId e \<noteq> Some expectedContractId then None
      else case topic_at 1 e of
        None \<Rightarrow> None
      | Some projectId \<Rightarrow>
        if \<not> contract_symbol projectId then None
        else case ev_payout e of
          None \<Rightarrow> None
        | Some (recipient, amount) \<Rightarrow>
          Some (projectId, recipient, nat_text (nat amount), ev_ledgerClosedAt e div 1000))"

text \<open>What the services around the loop answer.\<close>

record poll_env =
  pe_contractId :: string
  pe_lookupFails :: "string \<Rightarrow> bool"
  pe_token :: "string \<Rightarrow> string option"
  pe_newId :: "string \<Rightarrow> string"

datatype event_outcome = Invalid_event | Not_recorded | New_record TransactionRecord

definition payout_event :: "ContractEvent \<Rightarrow> bool" where
  "payout_event e = (default_to [] (topic_at 0 e) = ''payment_sent'' \<or> default_to [] (topic_at 0 e) = ''collaborator_claimed'')"

definition process_event :: "poll_env \<Rightarrow> TransactionRecord list \<Rightarrow> ContractEvent \<Rightarrow> event_outcome" where
  "process_event env rows e =
     (if \<not> payout_event e then Not_recorded
      else case decodePayoutEvent (pe_contractId env) e of
        None \<Rightarrow> Invalid_event
      | Some (projectId, recipient, amount, timestamp) \<Rightarrow>
        if pe_lookupFails env (ev_txHash e) then Not_recorded
        else if list_ex (\<lambda>r. tx_txHash r = ev_txHash e) rows then Not_recorded
        else New_record \<lparr>tx_id = pe_newId env (ev_txHash e), tx_roundId = projectId, tx_recipient = recipient,
            tx_amount = amount, tx_token = default_to ''Native'' (pe_token env projectId), tx_timestamp = timestamp,
            tx_txHash = ev_txHash e, tx_status = T_completed\<rparr>)"

text \<open>The loop over the batch: \<open>None\<close> when a validation error ends it.\<close>

fun collect_records :: "poll_env \<Rightarrow> TransactionRecord list \<Rightarrow> ContractEvent list \<Rightarrow> TransactionRecord list option" where
  "collect_records env rows [] = Some []"
| "collect_records env rows (e # es) =
     (case process_event env rows e of
        Invalid_event \<Rightarrow> None
      | Not_recorded \<Rightarrow> collect_records env rows es
      | New_record r \<Rightarrow> map_option ((#) r) (collect_records env rows es))"

definition batch_last_ledger :: "EventListener \<Rightarrow> GetEventsResponse \<Rightarrow> int" where
  "batch_last_ledger s response =
     fold max (List.map_filter ev_ledger (ge_events response))
       (max (default_to 0 (el_lastProcessedLedger s))
         (if ge_events response = []
          then default_to 0 (or_else (ge_latestLedger response) (el_latestObservedLedger s)) else 0))"

text \<open>\<open>upsert\<close> with \<open>conflictPaths: ["txHash"]\<close>: one command, refused when it proposes a key twice.\<close>

definition upsert_record :: "TransactionRecord \<Rightarrow> TransactionRecord list \<Rightarrow> TransactionRecord list" where
  "upsert_record r rows =
     (if list_ex (\<lambda>x. tx_txHash x = tx_txHash r) rows
      then map (\<lambda>x. if tx_txHash x = tx_txHash r then r\<lparr>tx_id := tx_id x\<rparr> else x) rows
      else rows @ [r])"

definition upsert_records :: "TransactionRecord list \<Rightarrow> TransactionRecord list \<Rightarrow> TransactionRecord list option" where
  "upsert_records news rows =
     (if distinct (map tx_txHash news) then Some (fold upsert_record news rows) else None)"

definition truthy_text :: "string option \<Rightarrow> bool" where
  "truthy_text v = (case v of None \<Rightarrow> False | Some t \<Rightarrow> t \<noteq> [])"

text \<open>The transaction; \<open>None\<close>: rolled back.\<close>

definition commit_batch :: "TransactionRecord list \<Rightarrow> string option \<Rightarrow> int option \<Rightarrow> listener_db \<Rightarrow> listener_db option" where
  "commit_batch news nextCursor ledger db =
     (case (if news \<noteq> [] then upsert_records news (db_transactions db) else Some (db_transactions db)) of
        None \<Rightarrow> None
      | Some rows \<Rightarrow>
        let st1 = (if truthy_text nextCursor
              then jm_set (db_serviceState db) EVENT_LISTENER_CURSOR_KEY (default_to [] nextCursor)
              else db_serviceState db);
            st2 = (case ledger of None \<Rightarrow> st1
              | Some l \<Rightarrow> jm_set st1 EVENT_LISTENER_LAST_PROCESSED_LEDGER_KEY (nat_text (nat l)))
        in Some (db\<lparr>db_transactions := rows, db_serviceState := st2\<rparr>))"

definition observe_latest :: "instant \<Rightarrow> GetEventsResponse \<Rightarrow> EventListener \<Rightarrow> EventListener" where
  "observe_latest now response s =
     (case ge_latestLedger response of
        Some l \<Rightarrow> s\<lparr>el_latestObservedLedger := Some l, el_lastLedgerObservationAt := Some now\<rparr>
      | None \<Rightarrow> s)"

definition next_cursor :: "GetEventsResponse \<Rightarrow> EventListener \<Rightarrow> string option" where
  "next_cursor response s = or_else (ge_cursor response) (el_cursor s)"

definition ledger_advanced :: "GetEventsResponse \<Rightarrow> EventListener \<Rightarrow> int option" where
  "ledger_advanced response s =
     (let l = batch_last_ledger s response in if l > default_to 0 (el_lastProcessedLedger s) then Some l else None)"

text \<open>The memory after the commit: cursor and ledger move, the failure streak ends.\<close>

definition poll_done :: "instant \<Rightarrow> GetEventsResponse \<Rightarrow> EventListener \<Rightarrow> EventListener" where
  "poll_done now response s =
     (let s1 = observe_latest now response s;
          s2 = (if truthy_text (next_cursor response s)
                then s1\<lparr>el_cursor := next_cursor response s, el_startLedger := None\<rparr> else s1);
          s3 = (case ledger_advanced response s of Some l \<Rightarrow> s2\<lparr>el_lastProcessedLedger := Some l\<rparr> | None \<Rightarrow> s2)
      in (recordPollSuccess now s3)\<lparr>el_isPolling := False\<rparr>)"

definition poll_error :: "EventListener \<Rightarrow> EventListener" where
  "poll_error s = (recordPollFailure s)\<lparr>el_isPolling := False\<rparr>"

definition must_commit :: "TransactionRecord list \<Rightarrow> GetEventsResponse \<Rightarrow> EventListener \<Rightarrow> bool" where
  "must_commit newRecords response s =
     (newRecords \<noteq> [] \<or> truthy_text (next_cursor response s) \<and> next_cursor response s \<noteq> el_cursor s
      \<or> ledger_advanced response s \<noteq> None)"

text \<open>
  The rest of \<open>pollEvents\<close> from the answer on: the memory, the database, and the records published
  on the event buses. \<open>answer = None\<close>: the call or a schema check failed; \<open>dbFails\<close>: the transaction
  fails for a reason of its own.
\<close>

definition poll_finish :: "poll_env \<Rightarrow> instant \<Rightarrow> GetEventsResponse option \<Rightarrow> bool \<Rightarrow> listener_db \<Rightarrow> EventListener
    \<Rightarrow> EventListener \<times> listener_db \<times> TransactionRecord list" where
  "poll_finish env now answer dbFails db s =
     (case answer of
        None \<Rightarrow> (poll_error s, db, [])
      | Some response \<Rightarrow>
        (case collect_records env (db_transactions db) (ge_events response) of
           None \<Rightarrow> (poll_error s, db, [])
         | Some newRecords \<Rightarrow>
           if must_commit newRecords response s
           then (case (if dbFails then None
                 else commit_batch newRecords (next_cursor response s) (ledger_advanced response s) db) of
               None \<Rightarrow> (poll_error (observe_latest now response s), db, [])
             | Some db' \<Rightarrow> (poll_done now response s, db', newRecords))
           else (poll_done now response s, db, [])))"

section \<open>Lemmas of a batch\<close>

abbreviation hashes :: "TransactionRecord list \<Rightarrow> string set" where
  "hashes rows \<equiv> tx_txHash ` set rows"

definition payout_hashes :: "ContractEvent list \<Rightarrow> string set" where
  "payout_hashes es = ev_txHash ` set (filter payout_event es)"

text \<open>The payments of a batch whose lookup in the table fails: they are logged and left out.\<close>

definition failed_lookups :: "poll_env \<Rightarrow> ContractEvent list \<Rightarrow> string set" where
  "failed_lookups env es = {h \<in> payout_hashes es. pe_lookupFails env h}"

text \<open>A row that records the payment of an event of the contract named in it.\<close>

definition records_payment :: "TransactionRecord \<Rightarrow> ContractEvent \<Rightarrow> bool" where
  "records_payment r e =
     (payout_event e \<and> tx_txHash r = ev_txHash e \<and> tx_status r = T_completed
      \<and> decodePayoutEvent (default_to [] (ev_contractId e)) e = Some (tx_roundId r, tx_recipient r, tx_amount r, tx_timestamp r))"

lemma payout_hashes_simps [simp]:
  "payout_hashes [] = {}"
  "payout_hashes (e # es) = (if payout_event e then insert (ev_txHash e) (payout_hashes es) else payout_hashes es)"
  "payout_hashes (es @ fs) = payout_hashes es \<union> payout_hashes fs"
  by (auto simp: payout_hashes_def)

lemma hash_known: "list_ex (\<lambda>r. tx_txHash r = h) rows \<longleftrightarrow> h \<in> hashes rows"
  by (auto simp: list_ex_iff)

lemma new_record:
  assumes "process_event env rows e = New_record r"
  shows "records_payment r e" "tx_txHash r \<notin> hashes rows" "\<not> pe_lookupFails env (ev_txHash e)"
  using assms
  by (auto simp: process_event_def records_payment_def decodePayoutEvent_def hash_known split: if_splits option.splits prod.splits)

lemma not_recorded:
  "process_event env rows e = Not_recorded \<Longrightarrow> payout_event e \<Longrightarrow> ev_txHash e \<in> hashes rows \<or> pe_lookupFails env (ev_txHash e)"
  by (auto simp: process_event_def hash_known split: if_splits option.splits prod.splits)

lemma collect_fresh:
  assumes "collect_records env rows es = Some news" "r \<in> set news"
  shows "tx_txHash r \<notin> hashes rows \<and> (\<exists>e \<in> set es. records_payment r e)"
  using assms
proof (induction es arbitrary: news)
  case (Cons e es)
  show ?case
  proof (cases "process_event env rows e")
    case (New_record q)
    with Cons.prems obtain z where z: "collect_records env rows es = Some z" "news = q # z" by auto
    show ?thesis
    proof (cases "r = q")
      case True
      with new_record [OF New_record] show ?thesis by auto
    next
      case False
      with Cons.IH [OF z(1)] Cons.prems(2) z(2) show ?thesis by auto
    qed
  qed (use Cons in auto)
qed simp

lemma collect_hashes:
  assumes "collect_records env rows es = Some news"
  shows "hashes rows \<union> hashes news = hashes rows \<union> (payout_hashes es - failed_lookups env es)"
  using assms
proof (induction es arbitrary: news)
  case (Cons e es)
  have step: "payout_hashes (e # es) - failed_lookups env (e # es) = (payout_hashes es - failed_lookups env es)
      \<union> (if payout_event e \<and> \<not> pe_lookupFails env (ev_txHash e) then {ev_txHash e} else {})"
    by (auto simp: failed_lookups_def)
  show ?case
  proof (cases "process_event env rows e")
    case Not_recorded
    with Cons not_recorded [OF Not_recorded] show ?thesis unfolding step by auto
  next
    case (New_record r)
    note r = new_record [OF New_record]
    obtain z where z: "collect_records env rows es = Some z" "news = r # z"
      using New_record Cons.prems by auto
    then show ?thesis using Cons.IH [OF z(1)] r unfolding step by (auto simp: records_payment_def)
  qed (use Cons in simp)
qed (simp add: failed_lookups_def)

text \<open>An invalid payment anywhere in the batch fails the whole batch.\<close>

lemma collect_invalid:
  assumes "e \<in> set es" "payout_event e" "decodePayoutEvent (pe_contractId env) e = None"
  shows "collect_records env rows es = None"
  using assms
proof (induction es)
  case (Cons e' es)
  then show ?case
    by (cases "process_event env rows e'") (auto simp: process_event_def)
qed simp

lemma upsert_new:
  assumes "distinct (map tx_txHash news)" "\<forall>r \<in> set news. tx_txHash r \<notin> hashes rows"
  shows "fold upsert_record news rows = rows @ news"
  using assms
proof (induction news arbitrary: rows)
  case (Cons r news)
  have "upsert_record r rows = rows @ [r]" using Cons.prems(2) by (simp add: upsert_record_def hash_known)
  moreover have "fold upsert_record news (rows @ [r]) = (rows @ [r]) @ news"
    using Cons.prems by (intro Cons.IH) (auto, metis image_eqI)
  ultimately show ?case by simp
qed simp

lemma commit_batch_cases:
  assumes "commit_batch news next ledger db = Some db'" "\<forall>r \<in> set news. tx_txHash r \<notin> hashes (db_transactions db)"
  shows "distinct (map tx_txHash news)" "db_transactions db' = db_transactions db @ news"
    "jm_get (db_serviceState db') EVENT_LISTENER_CURSOR_KEY =
      (if truthy_text next then next else jm_get (db_serviceState db) EVENT_LISTENER_CURSOR_KEY)"
  using assms
  by (auto simp: commit_batch_def upsert_records_def upsert_new Let_def truthy_text_def listener_constants
      split: if_splits option.splits)

lemma failure_frame [simp]:
  "el_cursor (recordPollFailure s) = el_cursor s" "el_startLedger (recordPollFailure s) = el_startLedger s"
  "el_lastProcessedLedger (recordPollFailure s) = el_lastProcessedLedger s"
  "el_consecutiveErrors (recordPollFailure s) = el_consecutiveErrors s + 1"
  by (simp_all add: recordPollFailure_def schedulePolling_def Let_def)

lemma success_frame [simp]:
  "el_cursor (recordPollSuccess now s) = el_cursor s"
  "el_lastProcessedLedger (recordPollSuccess now s) = el_lastProcessedLedger s"
  "el_consecutiveErrors (recordPollSuccess now s) = 0"
  by (simp_all add: recordPollSuccess_def schedulePolling_def Let_def)

lemma poll_done_frame [simp]:
  "el_cursor (poll_done now response s) = (if truthy_text (next_cursor response s) then next_cursor response s else el_cursor s)"
  "el_consecutiveErrors (poll_done now response s) = 0"
  "\<not> el_isPolling (poll_done now response s)"
  by (simp_all add: poll_done_def observe_latest_def Let_def split: option.splits)

lemma poll_error_frame [simp]:
  "el_cursor (poll_error s) = el_cursor s" "el_lastProcessedLedger (poll_error s) = el_lastProcessedLedger s"
  "el_consecutiveErrors (poll_error s) = el_consecutiveErrors s + 1" "\<not> el_isPolling (poll_error s)"
  by (simp_all add: poll_error_def)

lemma observe_latest_frame [simp]:
  "el_cursor (observe_latest now response s) = el_cursor s"
  "el_lastProcessedLedger (observe_latest now response s) = el_lastProcessedLedger s"
  "el_consecutiveErrors (observe_latest now response s) = el_consecutiveErrors s"
  by (simp_all add: observe_latest_def split: option.splits)

text \<open>The two ways a poll ends.\<close>

definition poll_failed :: "listener_db \<Rightarrow> EventListener \<Rightarrow> EventListener \<times> listener_db \<times> TransactionRecord list \<Rightarrow> bool" where
  "poll_failed db s r = (case r of (s', db', published) \<Rightarrow>
     db' = db \<and> published = [] \<and> el_cursor s' = el_cursor s \<and> el_lastProcessedLedger s' = el_lastProcessedLedger s
     \<and> el_consecutiveErrors s' = el_consecutiveErrors s + 1 \<and> \<not> el_isPolling s')"

definition stored_cursor :: "listener_db \<Rightarrow> string option" where
  "stored_cursor db = jm_get (db_serviceState db) EVENT_LISTENER_CURSOR_KEY"

definition poll_stored :: "poll_env \<Rightarrow> GetEventsResponse \<Rightarrow> listener_db \<Rightarrow> EventListener
    \<Rightarrow> EventListener \<times> listener_db \<times> TransactionRecord list \<Rightarrow> bool" where
  "poll_stored env response db s r = (case r of (s', db', published) \<Rightarrow>
     db_transactions db' = db_transactions db @ published
     \<and> (\<forall>p \<in> set published. tx_txHash p \<notin> hashes (db_transactions db) \<and> (\<exists>e \<in> set (ge_events response). records_payment p e))
     \<and> distinct (map tx_txHash published)
     \<and> hashes (db_transactions db') =
         hashes (db_transactions db) \<union> (payout_hashes (ge_events response) - failed_lookups env (ge_events response))
     \<and> el_consecutiveErrors s' = 0 \<and> \<not> el_isPolling s'
     \<and> el_cursor s' = (if truthy_text (next_cursor response s) then next_cursor response s else el_cursor s)
     \<and> (stored_cursor db' = (if truthy_text (next_cursor response s) then next_cursor response s else stored_cursor db)
        \<or> next_cursor response s = el_cursor s \<and> stored_cursor db' = stored_cursor db))"

lemma poll_finish_cases:
  "poll_failed db s (poll_finish env now answer dbFails db s)
    \<or> (\<exists>response. answer = Some response \<and> poll_stored env response db s (poll_finish env now answer dbFails db s))"
proof (cases answer)
  case None
  then show ?thesis by (simp add: poll_finish_def poll_failed_def)
next
  case (Some response)
  show ?thesis
  proof (cases "collect_records env (db_transactions db) (ge_events response)")
    case None
    with Some show ?thesis by (simp add: poll_finish_def poll_failed_def)
  next
    case news: (Some news)
    note fresh = collect_fresh [OF news] and hs = collect_hashes [OF news]
    let ?commit = "if dbFails then None else commit_batch news (next_cursor response s) (ledger_advanced response s) db"
    consider (quiet) "\<not> must_commit news response s" | (rolled_back) "must_commit news response s" "?commit = None"
      | (committed) db' where "must_commit news response s" "?commit = Some db'" by (cases ?commit) auto
    then show ?thesis
    proof cases
      case quiet
      then have "news = []" "truthy_text (next_cursor response s) \<longrightarrow> next_cursor response s = el_cursor s"
        by (auto simp: must_commit_def)
      then have "poll_stored env response db s (poll_finish env now answer dbFails db s)"
        using Some news hs quiet by (simp add: poll_finish_def poll_stored_def)
      then show ?thesis using Some by blast
    next
      case rolled_back
      then show ?thesis using Some news by (simp add: poll_finish_def poll_failed_def)
    next
      case committed
      have "commit_batch news (next_cursor response s) (ledger_advanced response s) db = Some db'"
        using committed(2) by (simp split: if_splits)
      from commit_batch_cases [OF this] fresh
      have "poll_stored env response db s (poll_finish env now answer dbFails db s)"
        using Some news hs committed by (simp add: poll_finish_def poll_stored_def stored_cursor_def image_Un)
      then show ?thesis using Some by blast
    qed
  qed
qed

section \<open>The worker over an event log\<close>

definition these_phases :: "start_phase option \<Rightarrow> start_phase list" where
  "these_phases ph = (case ph of None \<Rightarrow> [] | Some x \<Rightarrow> [x])"

text \<open>
  The contract's events form a log; \<open>cur p\<close> is the cursor text of position \<open>p\<close>. A node answers with
  a stretch \<open>[p, q)\<close> of the log and the cursor of its end; asked from the cursor of a position, the
  stretch begins there. Asked from a ledger or with the empty cursor it may begin anywhere.
\<close>

definition log_segment :: "ContractEvent list \<Rightarrow> nat \<Rightarrow> nat \<Rightarrow> ContractEvent list" where
  "log_segment log p q = take (q - p) (drop p log)"

definition answers_log :: "ContractEvent list \<Rightarrow> (nat \<Rightarrow> string) \<Rightarrow> poll_query \<Rightarrow> nat \<Rightarrow> nat \<Rightarrow> GetEventsResponse \<Rightarrow> bool" where
  "answers_log log cur query p q response =
     (p \<le> q \<and> q \<le> length log \<and> ge_events response = log_segment log p q \<and> ge_cursor response = Some (cur q)
      \<and> (\<forall>c. query = From_cursor (cur c) \<and> cur c \<noteq> [] \<and> c \<le> length log \<longrightarrow> p = c))"

text \<open>
  Beside the database, the memory, the poll in flight and the starts in flight, the world remembers
  what the outside has seen: the log positions of the polls that succeeded, the payments of those
  polls whose lookup failed, and whether one of them was asked without a cursor.
\<close>

record listener_world =
  lw_db :: listener_db
  lw_mem :: EventListener
  lw_pending :: "poll_query option"
  lw_starts :: "start_phase list"
  lw_read :: "nat set"
  lw_skipped :: "string set"
  lw_blind :: bool

definition has_cursor :: "poll_query \<Rightarrow> bool" where
  "has_cursor query = (case query of From_cursor t \<Rightarrow> t \<noteq> [] | From_ledger l \<Rightarrow> False)"

definition poll_succeeded :: "EventListener \<Rightarrow> bool" where
  "poll_succeeded m = (el_consecutiveErrors m = 0)"

definition account_poll :: "poll_env \<Rightarrow> poll_query \<Rightarrow> nat \<Rightarrow> nat \<Rightarrow> GetEventsResponse \<Rightarrow> EventListener \<Rightarrow> listener_world \<Rightarrow> listener_world" where
  "account_poll env query p q response m w =
     (if poll_succeeded m
      then w\<lparr>lw_read := lw_read w \<union> {p..<q}, lw_skipped := lw_skipped w \<union> failed_lookups env (ge_events response),
             lw_blind := (lw_blind w \<or> \<not> has_cursor query)\<rparr>
      else w)"

text \<open>
  What can happen to the worker: a start begins, one of the starts in flight gets or fails to get what
  it waits for, the worker is stopped, its timer fires, a poll in flight ends without or with an
  answer of the node, or the process dies and loses its memory. \<open>overlap\<close>: whether a start may begin
  while another one is still waiting.
\<close>

inductive listener_step :: "bool \<Rightarrow> ContractEvent list \<Rightarrow> (nat \<Rightarrow> string) \<Rightarrow> listener_world \<Rightarrow> listener_world \<Rightarrow> bool"
  for overlap log cur where
  start: "\<lbrakk>overlap \<or> lw_starts w = []; startEventListenerService (lw_mem w) = (m, ph)\<rbrakk>
    \<Longrightarrow> listener_step overlap log cur w (w\<lparr>lw_mem := m, lw_starts := lw_starts w @ these_phases ph\<rparr>)"
| resume: "\<lbrakk>lw_starts w = xs @ ph # ys; start_resumed fails latest (lw_db w) ph (lw_mem w) = (m, ph')\<rbrakk>
    \<Longrightarrow> listener_step overlap log cur w (w\<lparr>lw_mem := m, lw_starts := xs @ these_phases ph' @ ys\<rparr>)"
| stop: "listener_step overlap log cur w (w\<lparr>lw_mem := stopEventListenerService (lw_mem w)\<rparr>)"
| timer: "\<lbrakk>el_pollInterval (lw_mem w) \<noteq> None; poll_begin (lw_mem w) = (m, Some query)\<rbrakk>
    \<Longrightarrow> listener_step overlap log cur w (w\<lparr>lw_mem := m, lw_pending := Some query\<rparr>)"
| no_answer: "\<lbrakk>lw_pending w = Some query; poll_finish env now None dbFails (lw_db w) (lw_mem w) = (m, db, published)\<rbrakk>
    \<Longrightarrow> listener_step overlap log cur w (w\<lparr>lw_db := db, lw_mem := m, lw_pending := None\<rparr>)"
| answered: "\<lbrakk>lw_pending w = Some query; answers_log log cur query p q response;
      poll_finish env now (Some response) dbFails (lw_db w) (lw_mem w) = (m, db, published)\<rbrakk>
    \<Longrightarrow> listener_step overlap log cur w
      (account_poll env query p q response m (w\<lparr>lw_db := db, lw_mem := m, lw_pending := None\<rparr>))"
| crash: "listener_step overlap log cur w (w\<lparr>lw_mem := fresh_listener, lw_pending := None, lw_starts := []\<rparr>)"

definition started_from :: "listener_db \<Rightarrow> listener_world" where
  "started_from db = \<lparr>lw_db = db, lw_mem = fresh_listener, lw_pending = None, lw_starts = [], lw_read = {}, lw_skipped = {},
     lw_blind = False\<rparr>"

text \<open>The transactions with a payment at some of the given log positions.\<close>

definition payments_at :: "ContractEvent list \<Rightarrow> nat set \<Rightarrow> string set" where
  "payments_at log R = {ev_txHash (log ! i) | i. i \<in> R \<and> i < length log \<and> payout_event (log ! i)}"

lemma payments_at_simps [simp]:
  "payments_at log {} = {}" "payments_at log (R \<union> S) = payments_at log R \<union> payments_at log S"
  by (auto simp: payments_at_def)

lemma payments_at_mono: "R \<subseteq> S \<Longrightarrow> payments_at log R \<subseteq> payments_at log S"
  by (auto simp: payments_at_def)

lemma segment_nth: "\<lbrakk>p \<le> q; q \<le> length log\<rbrakk> \<Longrightarrow> set (log_segment log p q) = {log ! i | i. i \<in> {p..<q}}"
proof -
  assume pq: "p \<le> q" "q \<le> length log"
  then have "log_segment log p q = map ((!) log) [p..<q]"
    by (intro nth_equalityI) (auto simp: log_segment_def)
  then show ?thesis by (auto simp del: upt_Suc)
qed

lemma payout_segment: "\<lbrakk>p \<le> q; q \<le> length log\<rbrakk> \<Longrightarrow> payout_hashes (log_segment log p q) = payments_at log {p..<q}"
  by (fastforce simp: payout_hashes_def payments_at_def segment_nth)

text \<open>The rows: earlier ones are kept, and the added ones record payments of positions that were read.\<close>

definition rows_sound :: "ContractEvent list \<Rightarrow> nat set \<Rightarrow> TransactionRecord list \<Rightarrow> TransactionRecord list \<Rightarrow> bool" where
  "rows_sound log R rows0 rows =
     (\<exists>added. rows = rows0 @ added \<and> distinct (map tx_txHash added)
        \<and> (\<forall>r \<in> set added. tx_txHash r \<notin> hashes rows0 \<and> (\<exists>i \<in> R. i < length log \<and> records_payment r (log ! i))))"

text \<open>A cursor text that stands for a position up to which everything from \<open>b\<close> on has been read.\<close>

definition caught_up :: "ContractEvent list \<Rightarrow> (nat \<Rightarrow> string) \<Rightarrow> nat \<Rightarrow> nat set \<Rightarrow> string \<Rightarrow> bool" where
  "caught_up log cur b R t = (\<exists>c. b \<le> c \<and> c \<le> length log \<and> t = cur c \<and> {b..<c} \<subseteq> R)"

text \<open>Every place that holds a cursor: the database, the memory, the query in flight, the starts in flight.\<close>

definition cursor_places :: "listener_world \<Rightarrow> string set" where
  "cursor_places w =
     {t. stored_cursor (lw_db w) = Some t \<or> el_cursor (lw_mem w) = Some t \<or> lw_pending w = Some (From_cursor t)
       \<or> Reading_ledger (Some t) \<in> set (lw_starts w)} - {[]}"

definition listener_inv :: "ContractEvent list \<Rightarrow> (nat \<Rightarrow> string) \<Rightarrow> nat \<Rightarrow> listener_db \<Rightarrow> listener_world \<Rightarrow> bool" where
  "listener_inv log cur b db0 w =
     (rows_sound log (lw_read w) (db_transactions db0) (db_transactions (lw_db w))
      \<and> payments_at log (lw_read w) \<subseteq> hashes (db_transactions (lw_db w)) \<union> lw_skipped w
      \<and> (lw_blind w \<or> (\<exists>t. stored_cursor (lw_db w) = Some t \<and> caught_up log cur b (lw_read w) t)
           \<and> (\<forall>t \<in> cursor_places w. caught_up log cur b (lw_read w) t)))"

lemma schedule_frame [simp]: "el_cursor (schedulePolling d s) = el_cursor s"
  by (simp add: schedulePolling_def)

lemma caught_up_mono: "caught_up log cur b R t \<Longrightarrow> R \<subseteq> S \<Longrightarrow> caught_up log cur b S t"
  unfolding caught_up_def by blast

text \<open>Steps that neither commit nor read: the only cursors afterwards are ones that were there before.\<close>

lemma inv_quiet:
  assumes "listener_inv log cur b db0 w" "lw_db w' = lw_db w" "lw_read w' = lw_read w" "lw_skipped w' = lw_skipped w"
    "lw_blind w' = lw_blind w" "cursor_places w' \<subseteq> cursor_places w"
  shows "listener_inv log cur b db0 w'"
  using assms unfolding listener_inv_def by auto

lemma start_places:
  "startEventListenerService s = (m, ph) \<Longrightarrow> el_cursor m = el_cursor s \<and> (ph = None \<or> ph = Some Reading_cursor)"
  by (auto simp: startEventListenerService_def split: if_splits)

lemma resume_places:
  assumes "start_resumed fails latest db ph s = (m, ph')"
  shows "el_cursor m = el_cursor s \<or> (\<exists>t. ph = Reading_ledger (Some t) \<and> el_cursor m = Some t)"
    "ph' = Some (Reading_ledger (Some t)) \<Longrightarrow> stored_cursor db = Some t"
  using assms
  by (cases ph; auto simp: Let_def stored_cursor_def split: if_splits option.splits list.splits)+

lemma stop_cursor: "el_cursor (stopEventListenerService s) = el_cursor s"
  by (simp add: stopEventListenerService_def)

lemma begin_query:
  assumes "poll_begin s = (m, Some query)"
  shows "el_cursor m = el_cursor s" "query = From_cursor t \<Longrightarrow> t \<noteq> [] \<Longrightarrow> el_cursor s = Some t"
  using assms by (auto simp: poll_begin_def split: if_splits option.splits list.splits)

lemma rows_sound_more:
  assumes "rows_sound log R rows0 rows" "distinct (map tx_txHash news)"
    "\<forall>r \<in> set news. tx_txHash r \<notin> hashes rows \<and> (\<exists>i \<in> S. i < length log \<and> records_payment r (log ! i))"
  shows "rows_sound log (R \<union> S) rows0 (rows @ news)"
proof -
  obtain added where added: "rows = rows0 @ added" "distinct (map tx_txHash added)"
    "\<forall>r \<in> set added. tx_txHash r \<notin> hashes rows0 \<and> (\<exists>i \<in> R. i < length log \<and> records_payment r (log ! i))"
    using assms(1) unfolding rows_sound_def by blast
  have "hashes added \<inter> hashes news = {}" using assms(3) unfolding added(1) by (auto simp: image_Un) (metis image_eqI)
  then have "distinct (map tx_txHash (added @ news))" using added(2) assms(2) by simp
  moreover have "\<forall>r \<in> set (added @ news). tx_txHash r \<notin> hashes rows0 \<and> (\<exists>i \<in> R \<union> S. i < length log \<and> records_payment r (log ! i))"
    using added(1,3) assms(3) by auto
  ultimately show ?thesis using added(1) unfolding rows_sound_def by (intro exI [of _ "added @ news"]) simp
qed

lemma inv_answered:
  assumes inv: "listener_inv log cur b db0 w" and pending: "lw_pending w = Some query"
    and log: "answers_log log cur query p q response"
    and stored: "poll_stored env response (lw_db w) (lw_mem w) (m, db, published)"
  shows "listener_inv log cur b db0 (account_poll env query p q response m (w\<lparr>lw_db := db, lw_mem := m, lw_pending := None\<rparr>))"
    (is "listener_inv log cur b db0 ?w'")
proof -
  note st = stored [unfolded poll_stored_def, simplified] and lg = log [unfolded answers_log_def]
  let ?R = "lw_read w \<union> {p..<q}" and ?rows = "db_transactions (lw_db w)"
  have w': "lw_db ?w' = db" "lw_mem ?w' = m" "lw_read ?w' = ?R" "lw_pending ?w' = None" "lw_starts ?w' = lw_starts w"
    "lw_skipped ?w' = lw_skipped w \<union> failed_lookups env (ge_events response)" "lw_blind ?w' = (lw_blind w \<or> \<not> has_cursor query)"
    using st by (simp_all add: account_poll_def poll_succeeded_def)
  have seg: "ge_events response = log_segment log p q" "payout_hashes (ge_events response) = payments_at log {p..<q}"
    using lg payout_segment by auto
  have events: "\<exists>i \<in> {p..<q}. i < length log \<and> records_payment r (log ! i)" if "r \<in> set published" for r
    using st that lg unfolding seg(1) by (fastforce simp: segment_nth)
  have rows: "rows_sound log ?R (db_transactions db0) (?rows @ published)"
    using inv st events by (intro rows_sound_more) (auto simp: listener_inv_def)
  have cover: "payments_at log ?R \<subseteq> hashes (?rows @ published) \<union> (lw_skipped w \<union> failed_lookups env (ge_events response))"
  proof -
    have "payments_at log (lw_read w) \<subseteq> hashes ?rows \<union> lw_skipped w" using inv by (simp add: listener_inv_def)
    moreover have "hashes (?rows @ published) = hashes ?rows \<union> (payout_hashes (ge_events response) - failed_lookups env (ge_events response))"
      using st by metis
    ultimately show ?thesis unfolding seg(2) [symmetric] payments_at_simps by blast
  qed
  have "(\<exists>t. stored_cursor db = Some t \<and> caught_up log cur b ?R t) \<and> (\<forall>t \<in> cursor_places ?w'. caught_up log cur b ?R t)"
    if nb: "\<not> lw_blind w" "has_cursor query"
  proof -
    have before: "\<exists>t. stored_cursor (lw_db w) = Some t \<and> caught_up log cur b ?R t"
      "\<And>t. t \<in> cursor_places w \<Longrightarrow> caught_up log cur b (lw_read w) t"
      using inv nb(1) caught_up_mono unfolding listener_inv_def by blast+
    obtain t where t: "query = From_cursor t" "t \<noteq> []"
      using nb(2) by (auto simp: has_cursor_def split: poll_query.splits)
    then have "t \<in> cursor_places w" using pending by (simp add: cursor_places_def)
    then obtain c where c: "b \<le> c" "c \<le> length log" "t = cur c" "{b..<c} \<subseteq> lw_read w"
      using before(2) by (auto simp: caught_up_def)
    then have "p = c" using lg t by blast
    with c lg have q: "caught_up log cur b ?R (cur q)" unfolding caught_up_def by (intro exI [of _ q]) auto
    have nxt: "next_cursor response (lw_mem w) = Some (cur q)" using lg by (simp add: next_cursor_def)
    have "stored_cursor db = stored_cursor (lw_db w) \<or> stored_cursor db = Some (cur q)"
      "el_cursor m = el_cursor (lw_mem w) \<or> el_cursor m = Some (cur q)"
      using st unfolding nxt by (auto split: if_splits)
    moreover from this have "t \<in> cursor_places w \<or> t = cur q" if "t \<in> cursor_places ?w'" for t
      using that unfolding cursor_places_def w' by auto
    ultimately show ?thesis using before q caught_up_mono [OF before(2), of _ ?R] by auto
  qed
  then show ?thesis using rows cover st unfolding listener_inv_def w' by auto
qed

lemma listener_inv_step:
  assumes "listener_step overlap log cur w w'" "listener_inv log cur b db0 w"
  shows "listener_inv log cur b db0 w'"
  using assms(1)
proof cases
  case (start m ph)
  then show ?thesis
    by (intro inv_quiet [OF assms(2)]) (auto simp: cursor_places_def these_phases_def dest!: start_places)
next
  case (resume xs ph ys fails latest m ph')
  note r = resume_places [OF resume(3)]
  have "cursor_places w' \<subseteq> cursor_places w"
    using r unfolding resume(1) cursor_places_def resume(2) by (auto simp: these_phases_def resume(2) split: option.splits)
  with resume(1) show ?thesis by (intro inv_quiet [OF assms(2)]) auto
next
  case stop
  then show ?thesis by (intro inv_quiet [OF assms(2)]) (auto simp: cursor_places_def stop_cursor)
next
  case (timer m query)
  with begin_query [OF timer(3)] have "cursor_places w' \<subseteq> cursor_places w" unfolding cursor_places_def by auto
  with timer(1) show ?thesis by (intro inv_quiet [OF assms(2)]) auto
next
  case (no_answer query env now dbFails m db published)
  then have "db = lw_db w" "el_cursor m = el_cursor (lw_mem w)" by (auto simp: poll_finish_def)
  with no_answer(1) show ?thesis by (intro inv_quiet [OF assms(2)]) (auto simp: cursor_places_def)
next
  case (answered query p q response env now dbFails m db published)
  from poll_finish_cases [of "lw_db w" "lw_mem w" env now "Some response" dbFails]
  consider (failed) "poll_failed (lw_db w) (lw_mem w) (m, db, published)"
    | (stored) "poll_stored env response (lw_db w) (lw_mem w) (m, db, published)"
    unfolding answered(4) by blast
  then show ?thesis
  proof cases
    case failed
    with answered(1) show ?thesis
      by (intro inv_quiet [OF assms(2)]) (auto simp: poll_failed_def cursor_places_def account_poll_def poll_succeeded_def)
  qed (use inv_answered [OF assms(2) answered(2,3)] answered(1) in simp)
next
  case crash
  then show ?thesis by (intro inv_quiet [OF assms(2)]) (auto simp: cursor_places_def fresh_listener_def)
qed

section \<open>Cadence\<close>

text \<open>
  The timer runs at the slow pace exactly during a failure streak, and a stopped worker has too few
  failures on record for a poll still in flight to arm it again.
\<close>

definition cadence_ok :: "EventListener \<Rightarrow> bool" where
  "cadence_ok s =
     (case el_pollInterval s of
        Some d \<Rightarrow> d = el_currentPollDelayMs s
          \<and> d = (if ERROR_THRESHOLD \<le> el_consecutiveErrors s then BACKOFF_POLL_INTERVAL_MS else NORMAL_POLL_INTERVAL_MS)
      | None \<Rightarrow> el_currentPollDelayMs s = NORMAL_POLL_INTERVAL_MS
          \<and> el_consecutiveErrors s + (if el_isPolling s then 1 else 0) < ERROR_THRESHOLD)"

lemma cadence_frame [simp]:
  "cadence_ok (s\<lparr>el_cursor := c\<rparr>) = cadence_ok s" "cadence_ok (s\<lparr>el_startLedger := l\<rparr>) = cadence_ok s"
  "cadence_ok (s\<lparr>el_lastProcessedLedger := l\<rparr>) = cadence_ok s"
  by (simp_all add: cadence_ok_def split: option.split)

lemma cadence_fresh: "cadence_ok fresh_listener"
  by (simp add: cadence_ok_def fresh_listener_def listener_constants)

text \<open>A start begins and ends on a disarmed timer when no other start is in flight.\<close>

lemma cadence_start:
  assumes "cadence_ok s" "startEventListenerService s = (m, ph)"
  shows "cadence_ok m" "el_isPolling m = el_isPolling s" "ph \<noteq> None \<Longrightarrow> el_pollInterval m = None"
  using assms by (auto simp: cadence_ok_def startEventListenerService_def listener_constants split: option.splits if_splits)

lemma cadence_schedule:
  "cadence_ok s \<Longrightarrow> el_pollInterval s = None \<Longrightarrow> cadence_ok (schedulePolling NORMAL_POLL_INTERVAL_MS s)"
  "el_isPolling (schedulePolling d s) = el_isPolling s"
  by (auto simp: cadence_ok_def schedulePolling_def listener_constants)

lemma cadence_resume:
  assumes "cadence_ok s" "el_pollInterval s = None" "start_resumed fails latest db ph s = (m, ph')"
  shows "cadence_ok m" "el_isPolling m = el_isPolling s" "ph' \<noteq> None \<Longrightarrow> el_pollInterval m = None"
  using assms
  by (cases ph; auto simp: Let_def cadence_schedule split: if_splits option.splits list.splits)+

lemma cadence_stop:
  "cadence_ok s \<Longrightarrow> cadence_ok (stopEventListenerService s) \<and> el_isPolling (stopEventListenerService s) = el_isPolling s"
  by (auto simp: cadence_ok_def stopEventListenerService_def listener_constants split: option.splits if_splits)

lemma cadence_error: "cadence_ok s \<Longrightarrow> el_isPolling s \<Longrightarrow> cadence_ok (poll_error s)"
  by (auto simp: cadence_ok_def poll_error_def recordPollFailure_def schedulePolling_def listener_constants Let_def
      split: option.splits if_splits)

lemma cadence_observe:
  "cadence_ok (observe_latest now response s) = cadence_ok s"
  "el_isPolling (observe_latest now response s) = el_isPolling s"
  by (simp_all add: cadence_ok_def observe_latest_def split: option.splits)

lemma cadence_success: "cadence_ok s \<Longrightarrow> cadence_ok ((recordPollSuccess now s)\<lparr>el_isPolling := False\<rparr>)"
  by (auto simp: cadence_ok_def recordPollSuccess_def schedulePolling_def listener_constants Let_def
      split: option.splits if_splits)

lemma cadence_done: "cadence_ok s \<Longrightarrow> cadence_ok (poll_done now response s)"
  unfolding poll_done_def Let_def
  by (rule cadence_success) (simp add: cadence_observe split: option.splits)

lemma cadence_finish:
  assumes "cadence_ok s" "el_isPolling s" "poll_finish env now answer dbFails db s = (s', db', published)"
  shows "cadence_ok s' \<and> \<not> el_isPolling s'"
proof -
  have "s' = poll_error s \<or> (\<exists>response. s' = poll_error (observe_latest now response s) \<or> s' = poll_done now response s)"
    using assms(3) unfolding poll_finish_def by (auto split: option.splits if_splits)
  then show ?thesis using assms(1,2) by (auto intro: cadence_error cadence_done simp: cadence_observe)
qed

lemma finish_disarmed:
  assumes "cadence_ok s" "el_isPolling s" "el_pollInterval s = None" "poll_finish env now answer dbFails db s = (s', db', published)"
  shows "el_pollInterval s' = None"
proof -
  have "el_pollInterval (poll_error t) = None" if "cadence_ok t" "el_isPolling t" "el_pollInterval t = None" for t
    using that by (auto simp: poll_error_def recordPollFailure_def cadence_ok_def Let_def listener_constants)
  moreover have "el_pollInterval (poll_done now response s) = None" for response
    using assms(1,3) by (auto simp: poll_done_def recordPollSuccess_def observe_latest_def cadence_ok_def Let_def split: option.splits)
  moreover have "el_pollInterval (observe_latest now response s) = None" for response
    using assms(3) by (simp add: observe_latest_def split: option.splits)
  ultimately show ?thesis using assms unfolding poll_finish_def
    by (auto simp: cadence_observe split: option.splits if_splits)
qed

definition cadence_inv :: "listener_world \<Rightarrow> bool" where
  "cadence_inv w =
     (cadence_ok (lw_mem w) \<and> el_isPolling (lw_mem w) = (lw_pending w \<noteq> None)
      \<and> (lw_starts w = [] \<or> (\<exists>ph. lw_starts w = [ph]) \<and> el_pollInterval (lw_mem w) = None))"

lemma account_frame [simp]:
  "lw_mem (account_poll env query p q response m w) = lw_mem w" "lw_pending (account_poll env query p q response m w) = lw_pending w"
  "lw_starts (account_poll env query p q response m w) = lw_starts w" "lw_db (account_poll env query p q response m w) = lw_db w"
  by (simp_all add: account_poll_def)

lemma cadence_step:
  assumes "listener_step False log cur w w'" "cadence_inv w"
  shows "cadence_inv w'"
  using assms(1)
proof cases
  case (start m ph)
  then show ?thesis using cadence_start [OF _ start(3)] assms(2)
    by (auto simp: cadence_inv_def these_phases_def split: option.splits)
next
  case (resume xs ph ys fails latest m ph')
  then have "xs = []" "ys = []" "el_pollInterval (lw_mem w) = None" using assms(2) by (auto simp: cadence_inv_def append_eq_Cons_conv)
  with resume show ?thesis using cadence_resume [OF _ _ resume(3)] assms(2)
    by (auto simp: cadence_inv_def these_phases_def split: option.splits)
next
  case (timer m query)
  then have "m = (lw_mem w)\<lparr>el_isPolling := True\<rparr>" by (auto simp: poll_begin_def split: if_splits)
  with timer assms(2) show ?thesis by (auto simp: cadence_inv_def cadence_ok_def split: option.splits)
next
  case (no_answer query env now dbFails m db published)
  then show ?thesis using cadence_finish [OF _ _ no_answer(3)] finish_disarmed [OF _ _ _ no_answer(3)] assms(2)
    by (auto simp: cadence_inv_def)
next
  case (answered query p q response env now dbFails m db published)
  then show ?thesis using cadence_finish [OF _ _ answered(4)] finish_disarmed [OF _ _ _ answered(4)] assms(2)
    by (auto simp: cadence_inv_def)
next
  case stop
  then show ?thesis using cadence_stop assms(2) by (auto simp: cadence_inv_def stopEventListenerService_def)
next
  case crash
  then show ?thesis using cadence_fresh by (simp add: cadence_inv_def fresh_listener_def)
qed

section \<open>Properties\<close>

text \<open>
  (C18) A poll is all or nothing, up to payments whose own lookup fails. Either it fails, and then
  nothing is stored or published and cursor and ledger position stay where they are; or it succeeds,
  and then the rows appended and published record payments of the batch, one for every transaction
  that was not yet indexed and whose lookup did not fail, and the cursor is stored with them. A payment
  that fails validation anywhere in the batch fails the poll; one whose lookup fails does not, and the
  cursor passes it (\<open>failed_lookup_skips_payment\<close>).
\<close>

theorem poll_all_or_nothing:
  "(poll_failed db s (poll_finish env now answer dbFails db s)
      \<or> (\<exists>response. answer = Some response \<and> poll_stored env response db s (poll_finish env now answer dbFails db s)))
    \<and> (\<forall>response. answer = Some response
        \<and> (\<exists>e \<in> set (ge_events response). payout_event e \<and> decodePayoutEvent (pe_contractId env) e = None)
        \<longrightarrow> poll_finish env now answer dbFails db s = (poll_error s, db, []))"
  using poll_finish_cases collect_invalid by (auto simp: poll_finish_def)

definition sample_event :: "string \<Rightarrow> ContractEvent" where
  "sample_event h = \<lparr>ev_txHash = h, ev_ledger = Some 7, ev_ledgerClosedAt = 9000,
     ev_topic = [Some ''payment_sent'', Some ''proj''], ev_contractId = Some ''C'', ev_payout = Some (''GA'', 5)\<rparr>"

definition sample_env :: poll_env where
  "sample_env = \<lparr>pe_contractId = ''C'', pe_lookupFails = (\<lambda>_. False), pe_token = (\<lambda>_. None), pe_newId = (\<lambda>h. h)\<rparr>"

definition sample_db :: listener_db where
  "sample_db = \<lparr>db_transactions = [], db_serviceState = [(EVENT_LISTENER_CURSOR_KEY, ''0'')]\<rparr>"

definition sample_answer :: GetEventsResponse where
  "sample_answer = \<lparr>ge_events = [sample_event ''h''], ge_cursor = Some ''1'', ge_latestLedger = Some 8\<rparr>"

theorem poll_all_or_nothing_witness:
  "poll_finish sample_env 0 (Some (sample_answer\<lparr>ge_events := [sample_event ''h'', (sample_event ''k'')\<lparr>ev_payout := None\<rparr>]\<rparr>))
     False sample_db fresh_listener = (poll_error fresh_listener, sample_db, [])"
proof -
  have "payout_event ((sample_event ''k'')\<lparr>ev_payout := None\<rparr>)"
    "decodePayoutEvent (pe_contractId sample_env) ((sample_event ''k'')\<lparr>ev_payout := None\<rparr>) = None" by code_simp+
  then show ?thesis
    using poll_all_or_nothing [of sample_db fresh_listener sample_env 0
        "Some (sample_answer\<lparr>ge_events := [sample_event ''h'', (sample_event ''k'')\<lparr>ev_payout := None\<rparr>]\<rparr>)" False] by simp
qed

text \<open>
  (C3) The worker refines a reader of the event log. Take any sequence of steps of the worker: starts
  that wait, overlap and fail, stops, timers, polls that fail or succeed, process crashes. Earlier
  rows are kept, the rows added have distinct transactions and each records a payment of a position
  that a successful poll has read. And unless a poll was asked without a cursor (which the worker does
  when a start could not read its stored one), the stored cursor stands at a position of the log, not
  before where it was, and every transaction with a payment up to there has its row, except those whose
  lookup failed in a successful poll.
\<close>

theorem listener_refines_log:
  assumes "(listener_step overlap log cur)\<^sup>*\<^sup>* (started_from db0) w" "stored_cursor db0 = Some (cur b)" "b \<le> length log"
  shows "rows_sound log (lw_read w) (db_transactions db0) (db_transactions (lw_db w))
    \<and> (lw_blind w \<or> (\<exists>p. b \<le> p \<and> p \<le> length log \<and> stored_cursor (lw_db w) = Some (cur p)
          \<and> payments_at log {b..<p} \<subseteq> hashes (db_transactions (lw_db w)) \<union> lw_skipped w))"
proof -
  have "listener_inv log cur b db0 (started_from db0)"
    using assms(2,3) by (auto simp: listener_inv_def started_from_def rows_sound_def caught_up_def cursor_places_def fresh_listener_def)
  with assms(1) have inv: "listener_inv log cur b db0 w"
    by (induction rule: rtranclp_induct) (auto intro: listener_inv_step)
  moreover have "payments_at log {b..<p} \<subseteq> hashes (db_transactions (lw_db w)) \<union> lw_skipped w" if "{b..<p} \<subseteq> lw_read w" for p
    using inv payments_at_mono [OF that, of log] unfolding listener_inv_def by (meson subset_trans)
  ultimately show ?thesis unfolding listener_inv_def caught_up_def by metis
qed

definition sample_cur :: "nat \<Rightarrow> string" where
  "sample_cur p = (if p = 0 then ''0'' else ''1'')"

definition sample_mem :: EventListener where
  "sample_mem = fst (start_resumed False 0 sample_db (Reading_ledger (Some ''0'')) (fst (startEventListenerService fresh_listener)))"

definition sample_polled :: listener_world where
  "sample_polled =
     (let (m, db, published) = poll_finish sample_env 0 (Some sample_answer) False sample_db (fst (poll_begin sample_mem))
      in (started_from db)\<lparr>lw_mem := m, lw_read := {0..<1}\<rparr>)"

lemma sample_listener_run:
  "(listener_step False [sample_event ''h''] sample_cur)\<^sup>*\<^sup>* (started_from sample_db) sample_polled"
  (is "?R\<^sup>*\<^sup>* _ _")
proof -
  let ?w0 = "started_from sample_db"
  let ?m = "fst (startEventListenerService fresh_listener)"
  let ?w1 = "?w0\<lparr>lw_mem := ?m, lw_starts := [Reading_cursor]\<rparr>"
  let ?w2 = "?w1\<lparr>lw_starts := [Reading_ledger (Some ''0'')]\<rparr>"
  let ?w3 = "?w2\<lparr>lw_mem := sample_mem, lw_starts := []\<rparr>"
  let ?w4 = "?w3\<lparr>lw_mem := fst (poll_begin sample_mem), lw_pending := Some (From_cursor ''0'')\<rparr>"
  let ?f = "poll_finish sample_env 0 (Some sample_answer) False sample_db (fst (poll_begin sample_mem))"
  have "?R ?w0 ?w1"
    using start [of False ?w0 ?m "Some Reading_cursor" "[sample_event ''h'']" sample_cur]
    by (simp add: started_from_def startEventListenerService_def fresh_listener_def these_phases_def)
  moreover have "jm_get (db_serviceState sample_db) EVENT_LISTENER_CURSOR_KEY = Some ''0''" by code_simp
  then have "?R ?w1 ?w2"
    using resume [of ?w1 "[]" Reading_cursor "[]" False 0 ?m "Some (Reading_ledger (Some ''0''))" False "[sample_event ''h'']" sample_cur]
    by (simp add: started_from_def these_phases_def)
  moreover have "start_resumed False 0 sample_db (Reading_ledger (Some ''0'')) ?m = (sample_mem, None)" by code_simp
  then have "?R ?w2 ?w3"
    using resume [of ?w2 "[]" "Reading_ledger (Some ''0'')" "[]" False 0 sample_mem None False "[sample_event ''h'']" sample_cur]
    by (simp add: started_from_def these_phases_def)
  moreover have "el_pollInterval sample_mem \<noteq> None" "poll_begin sample_mem = (fst (poll_begin sample_mem), Some (From_cursor ''0''))"
    by code_simp+
  then have "?R ?w3 ?w4" using timer [of ?w3 "fst (poll_begin sample_mem)" "From_cursor ''0''" False] by simp
  moreover have "?R ?w4 sample_polled"
  proof -
    have "answers_log [sample_event ''h''] sample_cur (From_cursor ''0'') 0 1 sample_answer"
      by (auto simp: answers_log_def sample_cur_def log_segment_def sample_answer_def split: if_splits)
    moreover have "poll_succeeded (fst ?f)" "failed_lookups sample_env (ge_events sample_answer) = {}"
      by (code_simp, simp add: failed_lookups_def sample_env_def)
    ultimately show ?thesis
      using answered [of ?w4 "From_cursor ''0''" "[sample_event ''h'']" sample_cur 0 1 sample_answer sample_env 0 False
          "fst ?f" "fst (snd ?f)" "snd (snd ?f)" False]
      by (simp add: started_from_def account_poll_def has_cursor_def sample_polled_def case_prod_beta)
  qed
  ultimately show ?thesis by (meson rtranclp.rtrancl_into_rtrancl rtranclp.rtrancl_refl)
qed

theorem listener_refines_log_witness:
  "\<exists>p. stored_cursor (lw_db sample_polled) = Some (sample_cur p)
     \<and> payments_at [sample_event ''h''] {0..<p} \<subseteq> hashes (db_transactions (lw_db sample_polled))"
proof -
  have "stored_cursor sample_db = Some (sample_cur 0)" by code_simp
  moreover have "\<not> lw_blind sample_polled" "lw_skipped sample_polled = {}"
    by (simp_all add: sample_polled_def started_from_def split: prod.split)
  ultimately show ?thesis using listener_refines_log [OF sample_listener_run, of 0] by auto
qed

text \<open>
  As long as starts do not overlap, the timer, when armed, runs at 30 seconds during a failure streak
  of three or more and at 5 seconds otherwise; a worker that was stopped stays stopped, also when a
  poll in flight fails after the stop.
\<close>

theorem listener_cadence:
  assumes "(listener_step False log cur)\<^sup>*\<^sup>* (started_from db0) w"
  shows "cadence_ok (lw_mem w) \<and> (fst (getServiceHealth (lw_mem w)) = S_degraded \<longleftrightarrow> el_pollInterval (lw_mem w) = Some 30000)"
proof -
  have "cadence_inv w"
    using assms
    by (induction rule: rtranclp_induct)
      (simp add: started_from_def cadence_inv_def cadence_fresh, simp add: fresh_listener_def, blast dest: cadence_step)
  then show ?thesis
    by (auto simp: cadence_inv_def getServiceHealth_def cadence_ok_def listener_constants split: option.splits if_splits)
qed

theorem listener_cadence_witness: "cadence_ok (lw_mem sample_polled)"
  using listener_cadence [OF sample_listener_run] by simp

section \<open>Payments that are not stored\<close>

text \<open>
  A distribution emits one payment event per collaborator under one transaction hash. Such a batch
  proposes the hash twice, so its transaction is refused on every attempt and the cursor never passes it.
\<close>

lemma shared_hash_never_commits:
  assumes "collect_records env (db_transactions db) (ge_events response) = Some news" "\<not> distinct (map tx_txHash news)"
  shows "poll_finish env now (Some response) dbFails db s = (poll_error (observe_latest now response s), db, [])"
proof -
  have "news \<noteq> []" using assms(2) by auto
  then have "must_commit news response s" "commit_batch news c l db = None" for c l
    using assms(2) by (auto simp: must_commit_def commit_batch_def upsert_records_def)
  then show ?thesis using assms(1) by (simp add: poll_finish_def)
qed

lemma shared_hash_example:
  "collect_records sample_env [] [sample_event ''h'', (sample_event ''h'')\<lparr>ev_payout := Some (''GB'', 6)\<rparr>] \<noteq> None"
  "\<not> distinct (map tx_txHash (the (collect_records sample_env [] [sample_event ''h'', (sample_event ''h'')\<lparr>ev_payout := Some (''GB'', 6)\<rparr>])))"
  by code_simp+

text \<open>When the lookup of a payment fails in the database, the payment is skipped and the cursor still moves past it.\<close>

lemma failed_lookup_skips_payment:
  "let (s, db, published) = poll_finish (sample_env\<lparr>pe_lookupFails := (\<lambda>_. True)\<rparr>) 0 (Some sample_answer) False sample_db fresh_listener
   in published = [] \<and> db_transactions db = [] \<and> stored_cursor db = Some ''1''"
  by code_simp

text \<open>
  A start whose read fails arms the timer without a cursor; the next poll asks the node without one,
  and its success stores a cursor past everything the worker had not read.
\<close>

lemma failed_start_polls_blind:
  "fst (start_resumed True latest db Reading_cursor fresh_listener) = schedulePolling NORMAL_POLL_INTERVAL_MS fresh_listener"
  "snd (poll_begin (schedulePolling NORMAL_POLL_INTERVAL_MS fresh_listener)) = Some (From_cursor [])"
  by (simp_all add: schedulePolling_def poll_begin_def fresh_listener_def)

end
