(* ===== verification/Notifications.thy ===== *)
theory Notifications
  imports Js_Text Js_Map Keyset_Pages
begin

text \<open>
  Notifications (\<open>backend/src/services/notifications.service.ts\<close>), their preferences
  (\<open>backend/src/services/notification-preferences.service.ts\<close>) and the two tables
  (\<open>entities/Notification.ts\<close>, \<open>entities/NotificationPreference.ts\<close>).

  The tables are lists of rows on which the statements of the services run atomically: an insert
  that would break the unique index on (recipient, eventKey) is refused, an upsert on (wallet,
  category) updates or inserts, a conditional update changes the rows its condition selects. Row ids
  are arguments; \<open>save_ok = False\<close> stands for any other failure of an insert. A cursor stands for its
  encoded text. Metadata is an opaque text.
\<close>

section \<open>Tables\<close>

datatype NotificationCategory = NC_security | NC_payment | NC_project | NC_participant | NC_system

datatype PreferenceCategory = PC_security | PC_payment | PC_project_activity | PC_participant_activity | PC_marketing

definition PREFERENCE_CATEGORIES :: "PreferenceCategory list" where
  "PREFERENCE_CATEGORIES = [PC_security, PC_payment, PC_project_activity, PC_participant_activity, PC_marketing]"

definition MANDATORY_CATEGORIES :: "PreferenceCategory list" where
  "MANDATORY_CATEGORIES = [PC_security, PC_payment]"

definition isMandatoryCategory :: "PreferenceCategory \<Rightarrow> bool" where
  "isMandatoryCategory c = (c \<in> set MANDATORY_CATEGORIES)"

definition optionalCategories :: "PreferenceCategory list" where
  "optionalCategories = filter (\<lambda>c. \<not> isMandatoryCategory c) PREFERENCE_CATEGORIES"

record Notification =
  nt_id :: string
  nt_recipient :: string
  nt_category :: NotificationCategory
  nt_title :: string
  nt_body :: string
  nt_eventKey :: string
  nt_source :: string
  nt_resourceType :: "string option"
  nt_resourceId :: "string option"
  nt_metadata :: "string option"
  nt_readAt :: "instant option"
  nt_createdAt :: instant

record NotificationPreference =
  np_wallet :: string
  np_category :: PreferenceCategory
  np_enabled :: bool
  np_updatedAt :: instant

record notif_db =
  nd_notifications :: "Notification list"
  nd_preferences :: "NotificationPreference list"

datatype notif_error =
    Recipient_required | EventKey_required | EventType_required | Wallet_required
  | Mandatory_category PreferenceCategory | Unique_violation | Database_failure

section \<open>Preferences\<close>

record ResolvedPreference =
  rp_category :: PreferenceCategory
  rp_enabled :: bool
  rp_mandatory :: bool

text \<open>\<open>new Map(rows.map(...))\<close>: a later row of the same category wins.\<close>

definition stored_preferences :: "NotificationPreference list \<Rightarrow> (PreferenceCategory, bool) jmap" where
  "stored_preferences rows = foldl (\<lambda>m row. jm_set m (np_category row) (np_enabled row)) [] rows"

definition getPreferences :: "NotificationPreference list \<Rightarrow> string \<Rightarrow> notif_error + ResolvedPreference list" where
  "getPreferences prefs wallet =
     (if trim wallet = [] then Inl Wallet_required
      else let stored = stored_preferences (filter (\<lambda>row. np_wallet row = trim wallet) prefs)
       in Inr (map (\<lambda>c. \<lparr>rp_category = c,
            rp_enabled = (if isMandatoryCategory c then True else default_to True (jm_get stored c)),
            rp_mandatory = isMandatoryCategory c\<rparr>) PREFERENCE_CATEGORIES))"

definition upsert_preference :: "NotificationPreference \<Rightarrow> NotificationPreference list \<Rightarrow> NotificationPreference list" where
  "upsert_preference p rows =
     (if list_ex (\<lambda>r. np_wallet r = np_wallet p \<and> np_category r = np_category p) rows
      then map (\<lambda>r. if np_wallet r = np_wallet p \<and> np_category r = np_category p then p else r) rows
      else rows @ [p])"

definition updatePreferences :: "instant \<Rightarrow> NotificationPreference list \<Rightarrow> string \<Rightarrow> (PreferenceCategory \<times> bool) list
    \<Rightarrow> NotificationPreference list \<times> (notif_error + ResolvedPreference list)" where
  "updatePreferences now prefs wallet updates =
     (if trim wallet = [] then (prefs, Inl Wallet_required)
      else case find (\<lambda>(c, enabled). \<not> enabled \<and> isMandatoryCategory c) updates of
        Some (c, _) \<Rightarrow> (prefs, Inl (Mandatory_category c))
      | None \<Rightarrow>
        let prefs' = fold (\<lambda>(c, enabled). upsert_preference
              \<lparr>np_wallet = trim wallet, np_category = c, np_enabled = enabled, np_updatedAt = now\<rparr>) updates prefs
        in (prefs', getPreferences prefs' (trim wallet)))"

definition PREFERENCE_FOR_NOTIFICATION_CATEGORY :: "NotificationCategory \<Rightarrow> PreferenceCategory option" where
  "PREFERENCE_FOR_NOTIFICATION_CATEGORY c =
     (case c of NC_security \<Rightarrow> Some PC_security | NC_payment \<Rightarrow> Some PC_payment | NC_project \<Rightarrow> Some PC_project_activity
      | NC_participant \<Rightarrow> Some PC_participant_activity | NC_system \<Rightarrow> None)"

definition preferenceCategoryForNotification :: "NotificationCategory \<Rightarrow> PreferenceCategory option" where
  "preferenceCategoryForNotification c = PREFERENCE_FOR_NOTIFICATION_CATEGORY c"

definition shouldDeliver :: "NotificationPreference list \<Rightarrow> string \<Rightarrow> PreferenceCategory \<Rightarrow> notif_error + bool" where
  "shouldDeliver prefs wallet category =
     (if isMandatoryCategory category then Inr True
      else case getPreferences prefs wallet of
        Inl e \<Rightarrow> Inl e
      | Inr ps \<Rightarrow> Inr (case find (\<lambda>p. rp_category p = category) ps of Some p \<Rightarrow> rp_enabled p | None \<Rightarrow> True))"

section \<open>Event keys\<close>

definition buildEventKey :: "string \<Rightarrow> string option \<Rightarrow> string option \<Rightarrow> string option \<Rightarrow> notif_error + string" where
  "buildEventKey eventType resourceType resourceId discriminator =
     (let segments = map (\<lambda>s. to_lower (trim s))
            [eventType, default_to ''-'' resourceType, default_to ''-'' resourceId, default_to ''-'' discriminator]
      in if segments ! 0 = [] \<or> segments ! 0 = ''-'' then Inl EventType_required else Inr (join '':'' segments))"

definition NOTIFICATION_EVENT_TYPES :: "string list" where
  "NOTIFICATION_EVENT_TYPES =
     [''payment.settled'', ''payment.failed'', ''payment.claimed'', ''split.created'', ''split.funded'', ''split.locked'',
      ''split.updated'', ''split.cancelled'', ''split.completed'', ''participant.invited'', ''participant.joined'',
      ''participant.removed'', ''security.alert'', ''security.preference_updated'', ''system.announcement'']"

definition isNotificationEventType :: "string \<Rightarrow> bool" where
  "isNotificationEventType t = (t \<in> set NOTIFICATION_EVENT_TYPES)"

definition buildSplitEventKey :: "string \<Rightarrow> string \<Rightarrow> string option \<Rightarrow> notif_error + string" where
  "buildSplitEventKey eventType projectId d = buildEventKey eventType (Some ''split'') (Some projectId) d"

definition buildPaymentEventKey :: "string \<Rightarrow> string \<Rightarrow> string option \<Rightarrow> notif_error + string" where
  "buildPaymentEventKey eventType txHash d = buildEventKey eventType (Some ''payment'') (Some txHash) d"

definition buildParticipantEventKey :: "string \<Rightarrow> string \<Rightarrow> string option \<Rightarrow> notif_error + string" where
  "buildParticipantEventKey eventType resourceId d = buildEventKey eventType (Some ''participant'') (Some resourceId) d"

section \<open>Creating and delivering\<close>

record CreateNotificationInput =
  ci_recipient :: string
  ci_category :: NotificationCategory
  ci_title :: string
  ci_body :: string
  ci_eventKey :: string
  ci_source :: string
  ci_resourceType :: "string option"
  ci_resourceId :: "string option"
  ci_metadata :: "string option"
  ci_occurredAt :: "instant option"

definition new_notification :: "string \<Rightarrow> instant \<Rightarrow> CreateNotificationInput \<Rightarrow> Notification" where
  "new_notification newId now input =
     \<lparr>nt_id = newId, nt_recipient = trim (ci_recipient input), nt_category = ci_category input, nt_title = ci_title input,
      nt_body = ci_body input, nt_eventKey = trim (ci_eventKey input), nt_source = ci_source input,
      nt_resourceType = ci_resourceType input, nt_resourceId = ci_resourceId input, nt_metadata = ci_metadata input,
      nt_readAt = None, nt_createdAt = default_to now (ci_occurredAt input)\<rparr>"

definition same_event :: "string \<Rightarrow> string \<Rightarrow> Notification \<Rightarrow> bool" where
  "same_event recipient eventKey n = (nt_recipient n = recipient \<and> nt_eventKey n = eventKey)"

text \<open>\<open>repository.save\<close> of a new row.\<close>

definition save_notification :: "bool \<Rightarrow> Notification \<Rightarrow> Notification list \<Rightarrow> notif_error + Notification list" where
  "save_notification save_ok n rows =
     (if \<not> save_ok then Inl Database_failure
      else if list_ex (same_event (nt_recipient n) (nt_eventKey n)) rows then Inl Unique_violation
      else Inr (rows @ [n]))"

definition createNotification :: "bool \<Rightarrow> string \<Rightarrow> instant \<Rightarrow> Notification list \<Rightarrow> CreateNotificationInput
    \<Rightarrow> Notification list \<times> (notif_error + Notification \<times> bool)" where
  "createNotification save_ok newId now rows input =
     (if trim (ci_recipient input) = [] then (rows, Inl Recipient_required)
      else if trim (ci_eventKey input) = [] then (rows, Inl EventKey_required)
      else let entity = new_notification newId now input in
       case save_notification save_ok entity rows of
         Inr rows' \<Rightarrow> (rows', Inr (entity, True))
       | Inl e \<Rightarrow>
         if e \<noteq> Unique_violation then (rows, Inl e)
         else case find (same_event (trim (ci_recipient input)) (trim (ci_eventKey input))) rows of
           None \<Rightarrow> (rows, Inl e)
         | Some existing \<Rightarrow> (rows, Inr (existing, False)))"

text \<open>The loop over several inputs; an input comes with what the database does with it. An error ends it.\<close>

fun createNotifications :: "instant \<Rightarrow> Notification list \<Rightarrow> (bool \<times> string \<times> CreateNotificationInput) list
    \<Rightarrow> Notification list \<times> (notif_error + (Notification \<times> bool) list)" where
  "createNotifications now rows [] = (rows, Inr [])"
| "createNotifications now rows ((save_ok, newId, input) # inputs) =
     (case createNotification save_ok newId now rows input of
        (rows', Inl e) \<Rightarrow> (rows', Inl e)
      | (rows', Inr r) \<Rightarrow>
        (case createNotifications now rows' inputs of
           (rows'', Inl e) \<Rightarrow> (rows'', Inl e)
         | (rows'', Inr rs) \<Rightarrow> (rows'', Inr (r # rs))))"

definition getNotificationByEventKey :: "Notification list \<Rightarrow> string \<Rightarrow> string \<Rightarrow> Notification option" where
  "getNotificationByEventKey rows recipient eventKey =
     (if trim recipient = [] \<or> trim eventKey = [] then None else find (same_event (trim recipient) (trim eventKey)) rows)"

definition hasNotificationForEvent :: "Notification list \<Rightarrow> string \<Rightarrow> string \<Rightarrow> bool" where
  "hasNotificationForEvent rows recipient eventKey =
     (if trim recipient = [] \<or> trim eventKey = [] then False
      else length (filter (same_event (trim recipient) (trim eventKey)) rows) > 0)"

definition toPreferenceCategory :: "NotificationCategory \<Rightarrow> PreferenceCategory" where
  "toPreferenceCategory c =
     (case c of NC_project \<Rightarrow> PC_project_activity | NC_participant \<Rightarrow> PC_participant_activity | NC_system \<Rightarrow> PC_marketing
      | NC_security \<Rightarrow> PC_security | NC_payment \<Rightarrow> PC_payment)"

datatype delivery = Delivered Notification bool | Suppressed "PreferenceCategory option"

definition deliverNotification :: "bool \<Rightarrow> string \<Rightarrow> instant \<Rightarrow> notif_db \<Rightarrow> CreateNotificationInput
    \<Rightarrow> notif_db \<times> (notif_error + delivery)" where
  "deliverNotification save_ok newId now db input =
     (case shouldDeliver (nd_preferences db) (ci_recipient input) (toPreferenceCategory (ci_category input)) of
        Inl e \<Rightarrow> (db, Inl e)
      | Inr allowed \<Rightarrow>
        if \<not> allowed then (db, Inr (Suppressed None))
        else case createNotification save_ok newId now (nd_notifications db) input of
          (rows, Inl e) \<Rightarrow> (db\<lparr>nd_notifications := rows\<rparr>, Inl e)
        | (rows, Inr (n, created)) \<Rightarrow> (db\<lparr>nd_notifications := rows\<rparr>, Inr (Delivered n created)))"

definition enqueueNotification :: "bool \<Rightarrow> string \<Rightarrow> instant \<Rightarrow> notif_db \<Rightarrow> CreateNotificationInput
    \<Rightarrow> notif_db \<times> (notif_error + delivery)" where
  "enqueueNotification save_ok newId now db input =
     (let recipient = trim (ci_recipient input); category = preferenceCategoryForNotification (ci_category input);
          deliver = (case createNotification save_ok newId now (nd_notifications db) (input\<lparr>ci_recipient := recipient\<rparr>) of
              (rows, Inl e) \<Rightarrow> (db\<lparr>nd_notifications := rows\<rparr>, Inl e)
            | (rows, Inr (n, created)) \<Rightarrow> (db\<lparr>nd_notifications := rows\<rparr>, Inr (Delivered n created)))
      in if recipient = [] then (db, Inl Recipient_required)
         else case category of
           None \<Rightarrow> deliver
         | Some c \<Rightarrow>
           (case shouldDeliver (nd_preferences db) recipient c of
              Inl e \<Rightarrow> (db, Inl e)
            | Inr allowed \<Rightarrow> if \<not> allowed then (db, Inr (Suppressed (Some c))) else deliver))"

section \<open>Reading\<close>

record NotificationCursor =
  nc_createdAt :: instant
  nc_id :: string

record ListNotificationsResult =
  ln_items :: "Notification list"
  ln_nextCursor :: "NotificationCursor option"
  ln_unreadCount :: nat

definition DEFAULT_LIMIT :: int where "DEFAULT_LIMIT = 20"
definition MAX_LIMIT :: int where "MAX_LIMIT = 100"

definition notification_key :: "Notification \<Rightarrow> instant \<times> string" where
  "notification_key n = (nt_createdAt n, to_lower (nt_id n))"

definition list_limit :: "int option \<Rightarrow> int" where
  "list_limit limit = min (max (case limit of Some n \<Rightarrow> if n \<noteq> 0 then n else DEFAULT_LIMIT | None \<Rightarrow> DEFAULT_LIMIT) 1) MAX_LIMIT"

definition countUnread :: "Notification list \<Rightarrow> string \<Rightarrow> nat" where
  "countUnread rows recipient = length (filter (\<lambda>n. nt_recipient n = trim recipient \<and> nt_readAt n = None) rows)"

definition notification_query :: "string \<Rightarrow> bool \<Rightarrow> NotificationCursor option \<Rightarrow> Notification \<Rightarrow> bool" where
  "notification_query recipient unreadOnly cursor n =
     (nt_recipient n = recipient \<and> (unreadOnly \<longrightarrow> nt_readAt n = None) \<and>
      (case cursor of None \<Rightarrow> True | Some c \<Rightarrow> notification_key n < (nc_createdAt c, to_lower (nc_id c))))"

definition listNotifications :: "Notification list \<Rightarrow> string \<Rightarrow> int option \<Rightarrow> NotificationCursor option \<Rightarrow> bool
    \<Rightarrow> notif_error + ListNotificationsResult" where
  "listNotifications table recipient0 limit0 cursor unreadOnly =
     (let recipient = trim recipient0; limit = list_limit limit0 in
      if recipient = [] then Inl Recipient_required
      else
        let rows = take (nat (limit + 1)) (rev (sort_key notification_key (filter (notification_query recipient unreadOnly cursor) table)));
            hasMore = int (length rows) > limit;
            items = (if hasMore then take (nat limit) rows else rows)
        in Inr \<lparr>ln_items = items,
             ln_nextCursor = (if hasMore \<and> items \<noteq> []
               then Some \<lparr>nc_createdAt = nt_createdAt (last items), nc_id = nt_id (last items)\<rparr> else None),
             ln_unreadCount = countUnread table recipient\<rparr>)"

definition markRead :: "Notification list \<Rightarrow> string \<Rightarrow> string \<Rightarrow> instant \<Rightarrow> Notification list \<times> Notification option" where
  "markRead rows recipient i now =
     (let rows' = map (\<lambda>n. if nt_id n = i \<and> nt_recipient n = trim recipient \<and> nt_readAt n = None
            then n\<lparr>nt_readAt := Some now\<rparr> else n) rows
      in (rows', find (\<lambda>n. nt_id n = i \<and> nt_recipient n = trim recipient) rows'))"

definition markAllRead :: "Notification list \<Rightarrow> string \<Rightarrow> instant \<Rightarrow> Notification list \<times> nat" where
  "markAllRead rows recipient now =
     (map (\<lambda>n. if nt_recipient n = trim recipient \<and> nt_readAt n = None then n\<lparr>nt_readAt := Some now\<rparr> else n) rows,
      length (filter (\<lambda>n. nt_recipient n = trim recipient \<and> nt_readAt n = None) rows))"

section \<open>Lemmas of the preferences\<close>

abbreviation pref_key :: "NotificationPreference \<Rightarrow> string \<times> PreferenceCategory" where
  "pref_key p \<equiv> (np_wallet p, np_category p)"

lemma stored_preferences_get:
  "jm_get (stored_preferences rows) c = map_option np_enabled (find (\<lambda>r. np_category r = c) (rev rows))"
proof (induction rows rule: rev_induct)
  case Nil
  show ?case by (simp add: stored_preferences_def)
next
  case (snoc r rows)
  have "stored_preferences (rows @ [r]) = jm_set (stored_preferences rows) (np_category r) (np_enabled r)"
    by (simp add: stored_preferences_def)
  with snoc show ?case by simp
qed

text \<open>What the table says about a wallet and a category, when its rows agree.\<close>

definition stored_choice :: "NotificationPreference list \<Rightarrow> string \<Rightarrow> PreferenceCategory \<Rightarrow> bool \<Rightarrow> bool" where
  "stored_choice prefs wallet c b =
     ((\<exists>r \<in> set prefs. pref_key r = (wallet, c)) \<and> (\<forall>r \<in> set prefs. pref_key r = (wallet, c) \<longrightarrow> np_enabled r = b))"

lemma shouldDeliver_choice:
  assumes "stored_choice prefs (trim wallet) c b" "\<not> isMandatoryCategory c" "trim wallet \<noteq> []"
  shows "shouldDeliver prefs wallet c = Inr b"
proof -
  let ?rows = "filter (\<lambda>row. np_wallet row = trim wallet) prefs"
  obtain r where r: "find (\<lambda>r. np_category r = c) (rev ?rows) = Some r"
    using assms(1) by (cases "find (\<lambda>r. np_category r = c) (rev ?rows)") (auto simp: stored_choice_def find_None_all)
  then have "np_enabled r = b" using assms(1) by (auto simp: stored_choice_def dest!: find_Some_mem)
  then have "jm_get (stored_preferences ?rows) c = Some b" using r by (simp add: stored_preferences_get)
  with assms(2,3) show ?thesis
    by (cases c) (simp_all add: shouldDeliver_def getPreferences_def PREFERENCE_CATEGORIES_def isMandatoryCategory_def
        MANDATORY_CATEGORIES_def Let_def)
qed

lemma upsert_preference_same: "stored_choice (upsert_preference p prefs) (np_wallet p) (np_category p) (np_enabled p)"
  by (auto simp: stored_choice_def upsert_preference_def list_ex_iff)

lemma upsert_preference_other:
  "pref_key p \<noteq> (w, c) \<Longrightarrow> stored_choice (upsert_preference p prefs) w c b = stored_choice prefs w c b"
  by (auto simp: stored_choice_def upsert_preference_def)

lemma updates_other:
  assumes "c \<notin> fst ` set updates"
  shows "stored_choice (fold (\<lambda>(c, enabled). upsert_preference
      \<lparr>np_wallet = w, np_category = c, np_enabled = enabled, np_updatedAt = now\<rparr>) updates prefs) w c b = stored_choice prefs w c b"
  using assms by (induction updates arbitrary: prefs) (auto simp: upsert_preference_other)

section \<open>Lemmas of the notifications\<close>

definition events_once :: "Notification list \<Rightarrow> bool" where
  "events_once rows = distinct (map (\<lambda>n. (nt_recipient n, nt_eventKey n)) rows)"

text \<open>A row as it was, or read in the meantime.\<close>

definition same_or_read :: "Notification \<Rightarrow> Notification \<Rightarrow> bool" where
  "same_or_read n n' = (n' = n \<or> (nt_readAt n = None \<and> (\<exists>t. n' = n\<lparr>nt_readAt := Some t\<rparr>)))"

definition grown :: "Notification list \<Rightarrow> Notification list \<Rightarrow> bool" where
  "grown rows rows' = (\<exists>kept added. rows' = kept @ added \<and> list_all2 same_or_read rows kept)"

lemma same_or_read_refl [simp]: "same_or_read n n"
  by (simp add: same_or_read_def)

lemma same_or_read_trans: "same_or_read a b \<Longrightarrow> same_or_read b c \<Longrightarrow> same_or_read a c"
  by (auto simp: same_or_read_def)

lemma same_or_read_event: "same_or_read n n' \<Longrightarrow> nt_recipient n' = nt_recipient n \<and> nt_eventKey n' = nt_eventKey n"
  by (auto simp: same_or_read_def)

lemma grown_append: "grown rows (rows @ added)"
  unfolding grown_def by (intro exI [of _ rows] exI [of _ added]) (simp add: list_all2_refl)

lemma grown_refl [simp]: "grown rows rows"
  using grown_append [of rows "[]"] by simp

lemma grown_trans:
  assumes "grown a b" "grown b c"
  shows "grown a c"
proof -
  obtain k1 e1 where b: "b = k1 @ e1" "list_all2 same_or_read a k1" using assms(1) by (auto simp: grown_def)
  obtain k2 e2 where c: "c = k2 @ e2" "list_all2 same_or_read b k2" using assms(2) by (auto simp: grown_def)
  from c(2) b(1) obtain k21 k22 where k2: "k2 = k21 @ k22" "list_all2 same_or_read k1 k21"
    by (auto simp: list_all2_append1)
  have "list_all2 same_or_read a k21" by (rule list_all2_trans [OF same_or_read_trans b(2) k2(2)])
  then show ?thesis unfolding grown_def c(1) k2(1) by auto
qed

lemma grown_member:
  assumes "grown rows rows'" "n \<in> set rows"
  obtains n' where "n' \<in> set rows'" "same_or_read n n'"
proof -
  from assms obtain kept added where k: "rows' = kept @ added" "list_all2 same_or_read rows kept" by (auto simp: grown_def)
  from assms(2) obtain i where "i < length rows" "n = rows ! i" by (auto simp: in_set_conv_nth)
  then have "kept ! i \<in> set rows'" "same_or_read n (kept ! i)" using k by (auto simp: list_all2_conv_all_nth)
  then show thesis by (rule that)
qed

lemma createNotification_rows:
  assumes "createNotification save_ok i now rows input = (rows', res)"
  shows "rows' = rows \<or> (\<exists>n. rows' = rows @ [n] \<and> \<not> list_ex (same_event (nt_recipient n) (nt_eventKey n)) rows)"
  using assms by (auto simp: createNotification_def save_notification_def Let_def split: if_splits sum.splits option.splits)

lemma events_once_append:
  "events_once (rows @ [n]) = (events_once rows \<and> \<not> list_ex (same_event (nt_recipient n) (nt_eventKey n)) rows)"
  by (auto simp: events_once_def list_ex_iff same_event_def image_iff)

definition advances :: "Notification list \<Rightarrow> Notification list \<Rightarrow> bool" where
  "advances rows rows' = (grown rows rows' \<and> (events_once rows \<longrightarrow> events_once rows'))"

lemma advances_refl [simp]: "advances rows rows"
  by (simp add: advances_def)

lemma advances_trans: "advances a b \<Longrightarrow> advances b c \<Longrightarrow> advances a c"
  using grown_trans by (auto simp: advances_def)

lemma create_advances:
  assumes "createNotification save_ok i now rows input = (rows', res)"
  shows "advances rows rows'"
  using createNotification_rows [OF assms] by (auto simp: advances_def grown_append events_once_append)

lemma create_many_advances: "createNotifications now rows inputs = (rows', res) \<Longrightarrow> advances rows rows'"
proof (induction now rows inputs arbitrary: rows' res rule: createNotifications.induct)
  case (2 now rows save_ok newId input inputs)
  obtain r1 x where c: "createNotification save_ok newId now rows input = (r1, x)" by fastforce
  note adv = create_advances [OF c]
  show ?case
  proof (cases x)
    case (Inl e)
    then show ?thesis using "2.prems" c adv by simp
  next
    case (Inr y)
    obtain r2 z where m: "createNotifications now r1 inputs = (r2, z)" by fastforce
    then have "rows' = r2" using "2.prems" c Inr by (auto split: sum.splits)
    with "2.IH" [OF c [symmetric] Inr m] adv show ?thesis by (blast intro: advances_trans)
  qed
qed simp

lemma read_once: "same_or_read n (if P \<and> nt_readAt n = None then n\<lparr>nt_readAt := Some now\<rparr> else n)"
  unfolding same_or_read_def by (cases "P \<and> nt_readAt n = None") (simp_all, blast)

lemma map_read_advances:
  "advances rows (map (\<lambda>n. if P n \<and> nt_readAt n = None then n\<lparr>nt_readAt := Some now\<rparr> else n) rows)"
proof -
  let ?f = "\<lambda>n. if P n \<and> nt_readAt n = None then n\<lparr>nt_readAt := Some now\<rparr> else n"
  have "list_all2 same_or_read rows (map ?f rows)"
    by (intro list_all2_all_nthI) (simp_all only: length_map nth_map read_once)
  then have "grown rows (map ?f rows)" unfolding grown_def by (intro exI [of _ "map ?f rows"] exI [of _ "[]"]) simp
  moreover have "(\<lambda>n. (nt_recipient n, nt_eventKey n)) \<circ> ?f = (\<lambda>n. (nt_recipient n, nt_eventKey n))"
    by (simp add: fun_eq_iff)
  ultimately show ?thesis by (simp only: advances_def events_once_def map_map simp_thms)
qed

section \<open>Histories\<close>

datatype notif_op =
    Op_create bool string instant CreateNotificationInput
  | Op_many instant "(bool \<times> string \<times> CreateNotificationInput) list"
  | Op_deliver bool string instant CreateNotificationInput
  | Op_enqueue bool string instant CreateNotificationInput
  | Op_mark string string instant
  | Op_mark_all string instant
  | Op_preferences instant string "(PreferenceCategory \<times> bool) list"

fun run_op :: "notif_db \<Rightarrow> notif_op \<Rightarrow> notif_db" where
  "run_op db (Op_create ok i now input) = db\<lparr>nd_notifications := fst (createNotification ok i now (nd_notifications db) input)\<rparr>"
| "run_op db (Op_many now inputs) = db\<lparr>nd_notifications := fst (createNotifications now (nd_notifications db) inputs)\<rparr>"
| "run_op db (Op_deliver ok i now input) = fst (deliverNotification ok i now db input)"
| "run_op db (Op_enqueue ok i now input) = fst (enqueueNotification ok i now db input)"
| "run_op db (Op_mark recipient i now) = db\<lparr>nd_notifications := fst (markRead (nd_notifications db) recipient i now)\<rparr>"
| "run_op db (Op_mark_all recipient now) = db\<lparr>nd_notifications := fst (markAllRead (nd_notifications db) recipient now)\<rparr>"
| "run_op db (Op_preferences now wallet updates) = db\<lparr>nd_preferences := fst (updatePreferences now (nd_preferences db) wallet updates)\<rparr>"

lemma deliver_advances: "advances (nd_notifications db) (nd_notifications (fst (deliverNotification ok i now db input)))"
  by (auto simp: deliverNotification_def intro: create_advances split: sum.splits prod.splits)

lemma enqueue_advances: "advances (nd_notifications db) (nd_notifications (fst (enqueueNotification ok i now db input)))"
  by (auto simp: enqueueNotification_def Let_def intro: create_advances split: sum.splits prod.splits option.splits)

lemma run_op_advances: "advances (nd_notifications db) (nd_notifications (run_op db oper))"
proof (cases oper)
  case (Op_create ok i now input)
  then show ?thesis using create_advances [OF prod.collapse [symmetric]] by simp
next
  case (Op_many now inputs)
  then show ?thesis using create_many_advances [OF prod.collapse [symmetric]] by simp
next
  case (Op_mark recipient i now)
  then show ?thesis
    using map_read_advances [of "nd_notifications db" "\<lambda>n. nt_id n = i \<and> nt_recipient n = trim recipient" now]
    by (simp add: markRead_def Let_def conj_assoc)
next
  case (Op_mark_all recipient now)
  then show ?thesis
    using map_read_advances [of "nd_notifications db" "\<lambda>n. nt_recipient n = trim recipient" now]
    by (simp add: markAllRead_def)
qed (simp_all add: deliver_advances enqueue_advances)

lemma run_ops_advances: "advances (nd_notifications db) (nd_notifications (foldl run_op db ops))"
  by (induction ops rule: rev_induct) (auto intro: advances_trans run_op_advances)

section \<open>The feed as keyset pages\<close>

definition feed_cursor_key :: "NotificationCursor \<Rightarrow> instant \<times> string" where
  "feed_cursor_key c = (nc_createdAt c, to_lower (nc_id c))"

definition feed_cursor_at :: "Notification \<Rightarrow> NotificationCursor" where
  "feed_cursor_at n = \<lparr>nc_createdAt = nt_createdAt n, nc_id = nt_id n\<rparr>"

definition feed_ok :: "string \<Rightarrow> Notification list \<Rightarrow> bool" where
  "feed_ok recipient table = (trim recipient \<noteq> [] \<and> distinct (map (\<lambda>n. to_lower (nt_id n)) table))"

definition feed_visible :: "string \<Rightarrow> bool \<Rightarrow> Notification list \<Rightarrow> Notification \<Rightarrow> bool" where
  "feed_visible recipient unreadOnly table n =
     (n \<in> set table \<and> nt_recipient n = trim recipient \<and> (unreadOnly \<longrightarrow> nt_readAt n = None))"

definition feed_rows :: "string \<Rightarrow> bool \<Rightarrow> Notification list \<Rightarrow> NotificationCursor option \<Rightarrow> Notification list" where
  "feed_rows recipient unreadOnly table c =
     rev (sort_key notification_key (filter (notification_query (trim recipient) unreadOnly c) table))"

definition feed_page :: "string \<Rightarrow> int option \<Rightarrow> bool \<Rightarrow> Notification list \<Rightarrow> NotificationCursor option
    \<Rightarrow> Notification list \<times> NotificationCursor option" where
  "feed_page recipient limit unreadOnly table c =
     (case listNotifications table recipient limit c unreadOnly of Inl e \<Rightarrow> ([], None) | Inr r \<Rightarrow> (ln_items r, ln_nextCursor r))"

lemma list_limit_range: "1 \<le> list_limit limit" "list_limit limit \<le> 100"
  by (auto simp: list_limit_def MAX_LIMIT_def DEFAULT_LIMIT_def)

lemma distinct_feed_keys: "feed_ok recipient table \<Longrightarrow> distinct (map notification_key table)"
  by (auto simp: feed_ok_def distinct_map inj_on_def notification_key_def)

interpretation feed: keyset_window notification_key feed_cursor_key "feed_ok recipient" "feed_visible recipient unreadOnly"
  "feed_page recipient limit unreadOnly" "feed_rows recipient unreadOnly" feed_cursor_at "nat (list_limit limit)"
  for recipient unreadOnly limit
proof
  fix t c r assume t: "feed_ok recipient t"
  show "0 < nat (list_limit limit)" using list_limit_range(1) [of limit] by linarith
  show "newest_first_by notification_key (feed_rows recipient unreadOnly t c)"
    unfolding feed_rows_def by (rule sorted_rows_newest_first) (rule distinct_feed_keys [OF t])
  show "r \<in> set (feed_rows recipient unreadOnly t c) \<longleftrightarrow> feed_visible recipient unreadOnly t r \<and> below notification_key feed_cursor_key c r"
    by (auto simp: feed_rows_def notification_query_def feed_visible_def below_def feed_cursor_key_def split: option.splits)
  have lim: "list_limit limit < int (length xs) \<longleftrightarrow> nat (list_limit limit) < length xs" for xs :: "Notification list"
    using list_limit_range(1) [of limit] by linarith
  have more: "int (length (take (nat (list_limit limit + 1)) xs)) > list_limit limit \<longleftrightarrow> nat (list_limit limit) < length xs"
    for xs :: "Notification list" using list_limit_range(1) [of limit] by (auto simp: min_def)
  show "feed_page recipient limit unreadOnly t c = (take (nat (list_limit limit)) (feed_rows recipient unreadOnly t c),
      if nat (list_limit limit) < length (feed_rows recipient unreadOnly t c)
      then Some (feed_cursor_at (last (take (nat (list_limit limit)) (feed_rows recipient unreadOnly t c)))) else None)"
    using t list_limit_range(1) [of limit]
    by (auto simp: feed_page_def listNotifications_def Let_def more feed_rows_def [symmetric] feed_ok_def feed_cursor_at_def min_def)
next
  fix r show "feed_cursor_key (feed_cursor_at r) = notification_key r"
    by (simp add: feed_cursor_key_def feed_cursor_at_def notification_key_def)
qed

section \<open>Properties\<close>

text \<open>
  (C24) An event notifies a recipient once. After a notification was created, whatever deliveries,
  retries, reads and preference changes follow, creating one for the same recipient and event again
  adds no row and returns the first one: same id, text, source and time, at most read in the meantime.
\<close>

theorem notification_exactly_once:
  assumes "events_once (nd_notifications db)"
    and "createNotification ok1 id1 t1 (nd_notifications db) input1 = (rows1, Inr (n1, created1))"
    and "rows2 = nd_notifications (foldl run_op (db\<lparr>nd_notifications := rows1\<rparr>) ops)"
    and "createNotification ok2 id2 t2 rows2 input2 = (rows3, Inr (n2, created2))"
    and "trim (ci_recipient input2) = trim (ci_recipient input1)" "trim (ci_eventKey input2) = trim (ci_eventKey input1)"
  shows "\<not> created2 \<and> rows3 = rows2 \<and> same_or_read n1 n2 \<and> events_once rows3"
proof -
  let ?same = "same_event (trim (ci_recipient input1)) (trim (ci_eventKey input1))"
  have n1: "n1 \<in> set rows1" "?same n1"
    using assms(2) by (auto simp: createNotification_def save_notification_def new_notification_def same_event_def Let_def
        dest!: find_Some_mem split: if_splits sum.splits option.splits)
  have once1: "events_once rows1" using create_advances [OF assms(2)] assms(1) by (simp add: advances_def)
  have adv: "advances rows1 rows2" using run_ops_advances [of "db\<lparr>nd_notifications := rows1\<rparr>" ops] by (simp add: assms(3))
  then have once2: "events_once rows2" using once1 by (simp add: advances_def)
  have "grown rows1 rows2" using adv by (simp add: advances_def)
  then obtain m where m: "m \<in> set rows2" "same_or_read n1 m" using n1(1) by (rule grown_member)
  have same_m: "?same m" using same_or_read_event [OF m(2)] n1(2) by (simp add: same_event_def)
  then have known: "list_ex ?same rows2" using m(1) by (auto simp: list_ex_iff)
  have r: "rows3 = rows2" "\<not> created2" "find ?same rows2 = Some n2"
    using assms(4) known unfolding createNotification_def save_notification_def new_notification_def
    by (auto simp: Let_def assms(5,6) split: if_splits option.splits)
  have "n2 = m"
    using find_Some_mem [OF r(3)] m(1) same_m once2
    by (auto simp: events_once_def distinct_map inj_on_def same_event_def)
  with r once2 m(2) show ?thesis by simp
qed

definition sample_input :: CreateNotificationInput where
  "sample_input = \<lparr>ci_recipient = ''GA '', ci_category = NC_payment, ci_title = ''t'', ci_body = ''b'', ci_eventKey = ''k'',
     ci_source = ''ledger'', ci_resourceType = None, ci_resourceId = None, ci_metadata = None, ci_occurredAt = Some 5\<rparr>"

definition empty_notif_db :: notif_db where
  "empty_notif_db = \<lparr>nd_notifications = [], nd_preferences = []\<rparr>"

theorem notification_exactly_once_witness:
  "let rows = nd_notifications (foldl run_op (empty_notif_db\<lparr>nd_notifications := [new_notification ''1'' 0 sample_input]\<rparr>) [Op_mark_all ''GA'' 9])
   in createNotification True ''2'' 7 rows (sample_input\<lparr>ci_source := ''api''\<rparr>)
      = (rows, Inr ((new_notification ''1'' 0 sample_input)\<lparr>nt_readAt := Some 9\<rparr>, False)) \<and> events_once rows"
proof -
  let ?rows = "nd_notifications (foldl run_op (empty_notif_db\<lparr>nd_notifications := [new_notification ''1'' 0 sample_input]\<rparr>) [Op_mark_all ''GA'' 9])"
  have first: "createNotification True ''1'' 0 (nd_notifications empty_notif_db) sample_input
      = ([new_notification ''1'' 0 sample_input], Inr (new_notification ''1'' 0 sample_input, True))" by code_simp
  have again: "createNotification True ''2'' 7 ?rows (sample_input\<lparr>ci_source := ''api''\<rparr>)
      = (?rows, Inr ((new_notification ''1'' 0 sample_input)\<lparr>nt_readAt := Some 9\<rparr>, False))" by code_simp
  have "events_once (nd_notifications empty_notif_db)" by code_simp
  from notification_exactly_once [OF this first refl again] again show ?thesis by (simp only: Let_def) (simp add: sample_input_def)
qed

lemma create_succeeds:
  assumes "trim (ci_recipient inp) \<noteq> []" "trim (ci_eventKey inp) \<noteq> []"
  obtains rows n created where "createNotification True i now rows0 inp = (rows, Inr (n, created))"
proof (cases "find (same_event (trim (ci_recipient inp)) (trim (ci_eventKey inp))) rows0")
  case None
  then have "\<not> list_ex (same_event (trim (ci_recipient inp)) (trim (ci_eventKey inp))) rows0"
    by (simp add: find_None_all list_ex_iff)
  with assms that show thesis by (simp add: createNotification_def save_notification_def new_notification_def Let_def)
next
  case (Some n)
  then have "list_ex (same_event (trim (ci_recipient inp)) (trim (ci_eventKey inp))) rows0"
    by (auto simp: list_ex_iff dest!: find_Some_mem)
  with assms Some that show thesis by (simp add: createNotification_def save_notification_def new_notification_def Let_def)
qed

text \<open>
  Security and payment notices cannot be silenced: a delivery of either is stored whatever the
  preference table holds, and an update that would switch one off is refused and changes nothing. Every
  other category follows the last choice its owner saved.
\<close>

theorem mandatory_never_silenced:
  assumes "trim wallet \<noteq> []"
  shows "(ci_category input \<in> {NC_security, NC_payment} \<and> ci_recipient input = wallet \<and> trim (ci_eventKey input) \<noteq> []
        \<longrightarrow> (\<exists>n created. snd (enqueueNotification True i now db input) = Inr (Delivered n created))
          \<and> (\<exists>n created. snd (deliverNotification True i now db input) = Inr (Delivered n created)))
    \<and> (isMandatoryCategory c \<and> (c, False) \<in> set updates
        \<longrightarrow> (\<exists>c'. updatePreferences now prefs wallet updates = (prefs, Inl (Mandatory_category c'))))
    \<and> (\<not> isMandatoryCategory c \<and> updates = us @ (c, b) # vs \<and> c \<notin> fst ` set vs
        \<and> updatePreferences now prefs wallet updates = (prefs', Inr resolved)
        \<longrightarrow> shouldDeliver prefs' wallet c = Inr b)"
proof (intro conjI impI)
  assume i: "ci_category input \<in> {NC_security, NC_payment} \<and> ci_recipient input = wallet \<and> trim (ci_eventKey input) \<noteq> []"
  then obtain rows n created where c: "createNotification True i now (nd_notifications db) (input\<lparr>ci_recipient := trim wallet\<rparr>) = (rows, Inr (n, created))"
    using assms by (auto intro: create_succeeds [of "input\<lparr>ci_recipient := trim wallet\<rparr>" i now "nd_notifications db"])
  then show "\<exists>n created. snd (enqueueNotification True i now db input) = Inr (Delivered n created)"
    using i assms by (auto simp: enqueueNotification_def Let_def preferenceCategoryForNotification_def
        PREFERENCE_FOR_NOTIFICATION_CATEGORY_def shouldDeliver_def isMandatoryCategory_def MANDATORY_CATEGORIES_def)
  obtain rows n created where "createNotification True i now (nd_notifications db) input = (rows, Inr (n, created))"
    using i assms by (auto intro: create_succeeds [of input i now "nd_notifications db"])
  then show "\<exists>n created. snd (deliverNotification True i now db input) = Inr (Delivered n created)"
    using i by (auto simp: deliverNotification_def toPreferenceCategory_def shouldDeliver_def isMandatoryCategory_def MANDATORY_CATEGORIES_def)
next
  assume u: "isMandatoryCategory c \<and> (c, False) \<in> set updates"
  then obtain c' e' where "find (\<lambda>(c, enabled). \<not> enabled \<and> isMandatoryCategory c) updates = Some (c', e')"
    by (cases "find (\<lambda>(c, enabled). \<not> enabled \<and> isMandatoryCategory c) updates") (auto simp: find_None_all)
  then show "\<exists>c'. updatePreferences now prefs wallet updates = (prefs, Inl (Mandatory_category c'))"
    using assms by (simp add: updatePreferences_def)
next
  assume u: "\<not> isMandatoryCategory c \<and> updates = us @ (c, b) # vs \<and> c \<notin> fst ` set vs
        \<and> updatePreferences now prefs wallet updates = (prefs', Inr resolved)"
  let ?up = "\<lambda>(c, enabled). upsert_preference \<lparr>np_wallet = trim wallet, np_category = c, np_enabled = enabled, np_updatedAt = now\<rparr>"
  have "prefs' = fold ?up vs (?up (c, b) (fold ?up us prefs))"
    using u assms by (auto simp: updatePreferences_def Let_def split: option.splits)
  then have "stored_choice prefs' (trim wallet) c b"
    using updates_other [of c vs] u upsert_preference_same [of "\<lparr>np_wallet = trim wallet, np_category = c, np_enabled = b, np_updatedAt = now\<rparr>"]
    by simp
  then show "shouldDeliver prefs' wallet c = Inr b" using u assms by (intro shouldDeliver_choice) auto
qed

theorem mandatory_never_silenced_witness:
  "(\<exists>n created. snd (enqueueNotification True ''1'' 0 (empty_notif_db\<lparr>nd_preferences :=
        [\<lparr>np_wallet = ''GA'', np_category = PC_payment, np_enabled = False, np_updatedAt = 0\<rparr>]\<rparr>) sample_input) = Inr (Delivered n created))
    \<and> (\<exists>c'. updatePreferences 0 [] ''GA '' [(PC_marketing, True), (PC_security, False)] = ([], Inl (Mandatory_category c')))"
proof -
  have "trim ''GA '' \<noteq> []" "trim ''k'' \<noteq> []" "isMandatoryCategory PC_security" by code_simp+
  then show ?thesis
    using mandatory_never_silenced [of "''GA ''" sample_input "''1''" 0 "empty_notif_db\<lparr>nd_preferences :=
        [\<lparr>np_wallet = ''GA'', np_category = PC_payment, np_enabled = False, np_updatedAt = 0\<rparr>]\<rparr>"
        PC_security "[(PC_marketing, True), (PC_security, False)]" "[]"]
    by (simp add: sample_input_def)
qed

text \<open>The pages of the feed, taken while notifications arrive and are read.\<close>

lemma feed_walk_stable:
  assumes "\<forall>t \<in> set tables. feed_ok recipient t" "keyset_walk (feed_page recipient limit unreadOnly) None tables = (pages, True)"
  shows "newest_first_by notification_key (concat pages)
    \<and> (\<forall>n. (\<forall>t \<in> set tables. feed_visible recipient unreadOnly t n) \<longrightarrow> n \<in> set (concat pages))"
  using feed.walk_stable [OF assms] by (simp add: below_def)

section \<open>Where the comments differ\<close>

text \<open>A failing input ends \<open>createNotifications\<close>: the inputs after it are not processed.\<close>

lemma failure_aborts_fanout:
  "createNotifications 0 [] [(True, ''1'', sample_input\<lparr>ci_recipient := '' ''\<rparr>), (True, ''2'', sample_input)] = ([], Inl Recipient_required)"
  by code_simp

text \<open>A system notice goes out whatever its owner chose on one entry point, and follows the marketing choice on the other.\<close>

lemma system_notice_two_policies:
  "let db = empty_notif_db\<lparr>nd_preferences := [\<lparr>np_wallet = ''GA'', np_category = PC_marketing, np_enabled = False, np_updatedAt = 0\<rparr>]\<rparr>
   in snd (deliverNotification True ''1'' 0 db (sample_input\<lparr>ci_category := NC_system\<rparr>)) = Inr (Suppressed None)
     \<and> nd_notifications (fst (enqueueNotification True ''1'' 0 db (sample_input\<lparr>ci_category := NC_system\<rparr>))) \<noteq> []"
  by code_simp

end
