(* ===== verification/Reconciliation.thy ===== *)
theory Reconciliation
  imports Ledger_Invariants Sessions Js_Number
begin

text \<open>
  The read-only operator commands over the ledger tables: the orphan check
  (\<open>backend/src/scripts/check-orphaned-transactions.ts\<close>), the reconciliation dry run
  (\<open>scripts/reconcile-dry-run.ts\<close>) and the aging report of pending payouts
  (\<open>scripts/pending-transaction-aging-report.ts\<close>).

  A \<open>DataSource\<close> holds what the \<open>find()\<close> of each table returns: its rows, or the error it throws.
  Two reads of the same table are two data sources. Messages that only repeat the fields of a
  finding are left out. Hours are exact rationals: the rounding of a double is not modelled.
\<close>

section \<open>Reads\<close>

datatype read_error = ReadError (re_code: "string option")

record DataSource =
  ds_transactions :: "read_error + TransactionRecord list"
  ds_ledgerBlocks :: "read_error + LedgerBlock list"
  ds_users :: "read_error + user_row list"

definition UNDEFINED_TABLE_ERROR_CODE :: string where
  "UNDEFINED_TABLE_ERROR_CODE = ''42P01''"

definition isUndefinedTableError :: "read_error \<Rightarrow> bool" where
  "isUndefinedTableError e = (re_code e = Some UNDEFINED_TABLE_ERROR_CODE)"

text \<open>\<open>new Set(xs)\<close>, in insertion order.\<close>

definition set_add :: "'a list \<Rightarrow> 'a \<Rightarrow> 'a list" where
  "set_add s x = (if x \<in> set s then s else s @ [x])"

definition js_set :: "'a list \<Rightarrow> 'a list" where
  "js_set xs = foldl set_add [] xs"

section \<open>The orphan check\<close>

definition maskWalletAddress :: "string \<Rightarrow> string" where
  "maskWalletAddress address =
     (if address = [] then ''(none)''
      else if length address \<le> 10 then address
      else take 6 address @ ''...'' @ drop (length address - 4) address)"

record CompletedTransactionMissingLedgerBlock =
  cm_id :: string
  cm_roundId :: string
  cm_txHash :: string
  cm_recipientMasked :: string
  cm_timestamp :: int

record SettlementLedgerBlockMissingTransaction =
  sm_id :: string
  sm_ledgerSeq :: int
  sm_txHash :: string
  sm_projectId :: "string option"
  sm_recipientMasked :: "string option"
  sm_ledgerClosedAt :: instant

record UnregisteredRecipientsSummary =
  ur_count :: nat
  ur_sampleMasked :: "string list"

datatype report_warning = LEDGER_BLOCKS_MISSING_WARNING

record OrphanedTransactionsReport =
  or_ledgerBlocksTableAvailable :: bool
  or_completedMissing :: "CompletedTransactionMissingLedgerBlock list"
  or_settlementMissing :: "SettlementLedgerBlockMissingTransaction list"
  or_unregisteredRecipients :: UnregisteredRecipientsSummary
  or_warnings :: "report_warning list"

definition WALLET_LOOKUP_CHUNK_SIZE :: nat where
  "WALLET_LOOKUP_CHUNK_SIZE = 1000"

definition DISABLED_DESTRUCTIVE_FLAGS :: "string list" where
  "DISABLED_DESTRUCTIVE_FLAGS = [''--apply'', ''--cleanup'', ''--delete'']"

datatype cli_error = Destructive_flag string | Unsupported_options "string list"

text \<open>The result is the field \<open>cleanupPreview\<close> of the options.\<close>

definition parseOrphanedTransactionsCliOptions :: "string list \<Rightarrow> cli_error + bool" where
  "parseOrphanedTransactionsCliOptions args =
     (case find (\<lambda>arg. arg \<in> set DISABLED_DESTRUCTIVE_FLAGS) args of
        Some flag \<Rightarrow> Inl (Destructive_flag flag)
      | None \<Rightarrow>
        if length args = 0 then Inr False
        else if length args = 1 \<and> args ! 0 = ''--cleanup-preview'' then Inr True
        else Inl (Unsupported_options args))"

text \<open>One query per chunk of the addresses: the rows whose wallet is in the chunk.\<close>

function wallet_lookup :: "user_row list \<Rightarrow> string list \<Rightarrow> string list \<Rightarrow> string list" where
  "wallet_lookup users [] found = found"
| "wallet_lookup users (a # as) found =
     (let chunk = take WALLET_LOOKUP_CHUNK_SIZE (a # as);
          rows = filter (\<lambda>u. u_walletAddress u \<in> set chunk) users
      in wallet_lookup users (drop WALLET_LOOKUP_CHUNK_SIZE (a # as))
           (foldl set_add found (map u_walletAddress rows)))"
  by pat_completeness auto
termination by (relation "measure (\<lambda>(_, addresses, _). length addresses)") (auto simp: WALLET_LOOKUP_CHUNK_SIZE_def)

definition findExistingWalletAddresses :: "DataSource \<Rightarrow> string list \<Rightarrow> read_error + string list" where
  "findExistingWalletAddresses ds addresses =
     (if addresses = [] then Inr []
      else case ds_users ds of Inl e \<Rightarrow> Inl e | Inr users \<Rightarrow> Inr (wallet_lookup users addresses []))"

definition completed_missing :: "TransactionRecord list \<Rightarrow> LedgerBlock list \<Rightarrow> TransactionRecord list" where
  "completed_missing transactions ledgerBlocks =
     filter (\<lambda>t. tx_status t = T_completed \<and> tx_txHash t \<notin> set (js_set (map lb_txHash ledgerBlocks))) transactions"

definition settlement_missing :: "TransactionRecord list \<Rightarrow> LedgerBlock list \<Rightarrow> LedgerBlock list" where
  "settlement_missing transactions ledgerBlocks =
     filter (\<lambda>b. lb_type b = B_settlement \<and> lb_txHash b \<notin> set (js_set (map tx_txHash transactions))) ledgerBlocks"

definition distinctRecipients :: "TransactionRecord list \<Rightarrow> LedgerBlock list \<Rightarrow> string list" where
  "distinctRecipients transactions ledgerBlocks =
     js_set (map tx_recipient transactions
       @ concat (map (\<lambda>b. case lb_recipient b of None \<Rightarrow> [] | Some r \<Rightarrow> if r = [] then [] else [r]) ledgerBlocks))"

definition checkOrphanedTransactions :: "DataSource \<Rightarrow> read_error + OrphanedTransactionsReport" where
  "checkOrphanedTransactions ds =
     (case ds_transactions ds of
        Inl e \<Rightarrow> Inl e
      | Inr transactions \<Rightarrow>
        (case (case ds_ledgerBlocks ds of
                 Inr bs \<Rightarrow> Inr (True, bs, [])
               | Inl e \<Rightarrow> if isUndefinedTableError e then Inr (False, [], [LEDGER_BLOCKS_MISSING_WARNING]) else Inl e) of
           Inl e \<Rightarrow> Inl e
         | Inr (available, ledgerBlocks, warnings) \<Rightarrow>
           (case findExistingWalletAddresses ds (distinctRecipients transactions ledgerBlocks) of
              Inl e \<Rightarrow> Inl e
            | Inr existingWallets \<Rightarrow>
              let unregistered = filter (\<lambda>r. r \<notin> set existingWallets) (distinctRecipients transactions ledgerBlocks)
              in Inr \<lparr>or_ledgerBlocksTableAvailable = available,
                   or_completedMissing =
                     (if available then map (\<lambda>t. \<lparr>cm_id = tx_id t, cm_roundId = tx_roundId t,
                          cm_txHash = tx_txHash t, cm_recipientMasked = maskWalletAddress (tx_recipient t),
                          cm_timestamp = tx_timestamp t\<rparr>) (completed_missing transactions ledgerBlocks)
                      else []),
                   or_settlementMissing =
                     (if available then map (\<lambda>b. \<lparr>sm_id = lb_id b, sm_ledgerSeq = lb_ledgerSeq b,
                          sm_txHash = lb_txHash b, sm_projectId = lb_projectId b,
                          sm_recipientMasked = (case lb_recipient b of None \<Rightarrow> None
                            | Some r \<Rightarrow> if r = [] then None else Some (maskWalletAddress r)),
                          sm_ledgerClosedAt = lb_ledgerClosedAt b\<rparr>) (settlement_missing transactions ledgerBlocks)
                      else []),
                   or_unregisteredRecipients = \<lparr>ur_count = length unregistered,
                     ur_sampleMasked = map maskWalletAddress (take 5 unregistered)\<rparr>,
                   or_warnings = warnings\<rparr>)))"

text \<open>The exit code of the command; \<open>db_ok = False\<close> is a failing \<open>initDatabase\<close>.\<close>

definition orphan_check_cli :: "string list \<Rightarrow> bool \<Rightarrow> DataSource \<Rightarrow> int" where
  "orphan_check_cli args db_ok ds =
     (case parseOrphanedTransactionsCliOptions args of
        Inl _ \<Rightarrow> 2
      | Inr _ \<Rightarrow>
        if \<not> db_ok then 1
        else case checkOrphanedTransactions ds of
            Inl _ \<Rightarrow> 1
          | Inr report \<Rightarrow>
            if length (or_completedMissing report) > 0 \<or> length (or_settlementMissing report) > 0 then 1 else 0)"

subsection \<open>Redaction of connection strings\<close>

definition is_scheme_char :: "char \<Rightarrow> bool" where
  "is_scheme_char c = (is_letter c \<or> is_digit c \<or> c \<in> set ''+.-'')"

text \<open>
  A match of the pattern at the start of the text, with what follows it: a scheme, \<open>://\<close>, and a run
  without white space that contains an \<open>@\<close>; both repetitions after \<open>://\<close> are greedy, so the match
  ends with the run.
\<close>

definition connection_match :: "string \<Rightarrow> string option" where
  "connection_match s =
     (case s of
        [] \<Rightarrow> None
      | c # cs \<Rightarrow>
        let rest = dropWhile is_scheme_char cs
        in if is_letter c \<and> starts_with rest ''://''
              \<and> CHR ''@'' \<in> set (takeWhile (\<lambda>x. \<not> is_js_space x) (drop 3 rest))
           then Some (dropWhile (\<lambda>x. \<not> is_js_space x) (drop 3 rest)) else None)"

lemma connection_match_shorter: "connection_match s = Some rest \<Longrightarrow> length rest < length s"
proof -
  assume m: "connection_match s = Some rest"
  then obtain c cs where s: "s = c # cs"
    and rest: "rest = dropWhile (\<lambda>x. \<not> is_js_space x) (drop 3 (dropWhile is_scheme_char cs))"
    by (auto simp: connection_match_def Let_def split: list.splits if_splits)
  have "length rest \<le> length cs" unfolding rest
    by (rule order_trans [OF length_dropWhile_le]) (simp add: length_dropWhile_le le_trans [OF diff_le_self])
  with s show ?thesis by simp
qed

definition REDACTED :: string where
  "REDACTED = ''[CONNECTION_STRING_REDACTED]''"

function sanitizeErrorMessage :: "string \<Rightarrow> string" where
  "sanitizeErrorMessage [] = []"
| "sanitizeErrorMessage (c # cs) =
     (case connection_match (c # cs) of
        Some rest \<Rightarrow> REDACTED @ sanitizeErrorMessage rest
      | None \<Rightarrow> c # sanitizeErrorMessage cs)"
  by pat_completeness auto
termination by (relation "measure length") (auto dest: connection_match_shorter)

section \<open>The reconciliation dry run\<close>

record ReconciliationFinding =
  rf_checkId :: string
  rf_severity :: InvariantSeverity
  rf_count :: "nat option"
  rf_sampleIds :: "string list option"

record ReconciliationDryRunReport =
  rr_generatedAt :: instant
  rr_checksRun :: "string list"
  rr_findings :: "ReconciliationFinding list"
  rr_ok :: bool

definition SAMPLE_LIMIT :: nat where
  "SAMPLE_LIMIT = 5"

definition finding :: "string \<Rightarrow> InvariantSeverity \<Rightarrow> nat option \<Rightarrow> string list option \<Rightarrow> ReconciliationFinding" where
  "finding checkId sev n ids = \<lparr>rf_checkId = checkId, rf_severity = sev, rf_count = n, rf_sampleIds = ids\<rparr>"

definition orphanFindings :: "OrphanedTransactionsReport \<Rightarrow> ReconciliationFinding list" where
  "orphanFindings report =
     (if length (or_completedMissing report) > 0
      then [finding ''completed-missing-settlement'' Critical (Some (length (or_completedMissing report)))
              (Some (map cm_txHash (take SAMPLE_LIMIT (or_completedMissing report))))] else [])
     @ (if length (or_settlementMissing report) > 0
        then [finding ''settlement-missing-transaction'' Critical (Some (length (or_settlementMissing report)))
                (Some (map sm_txHash (take SAMPLE_LIMIT (or_settlementMissing report))))] else [])
     @ (if ur_count (or_unregisteredRecipients report) > 0
        then [finding ''unregistered-recipients'' Warning (Some (ur_count (or_unregisteredRecipients report)))
                (Some (ur_sampleMasked (or_unregisteredRecipients report)))] else [])
     @ map (\<lambda>_. finding ''ledger-blocks-unavailable'' Warning None None) (or_warnings report)"

definition invariantFindings :: "LedgerBalanceReport \<Rightarrow> ReconciliationFinding list" where
  "invariantFindings report =
     map (\<lambda>(invariantId, violations).
       finding invariantId (if list_ex (\<lambda>v. iv_severity v = Critical) violations then Critical else Warning)
         (Some (length violations))
         (Some (map (\<lambda>v. default_to ''(unknown)'' (or_else (iv_txHash v) (iv_rowId v)))
            (take SAMPLE_LIMIT violations))))
       (group_by iv_invariantId (lr_violations report))"

datatype run_error = Read_failed read_error | Amount_failed amount_error

text \<open>
  The command reads both tables for the invariant engine (\<open>ds\<close>); the orphan check then reads them
  again (\<open>ds2\<close>).
\<close>

definition runReconciliationDryRun ::
  "(string \<Rightarrow> string \<Rightarrow> bool) \<Rightarrow> instant \<Rightarrow> DataSource \<Rightarrow> DataSource \<Rightarrow> run_error + ReconciliationDryRunReport" where
  "runReconciliationDryRun locale_le now ds ds2 =
     (case ds_transactions ds of
        Inl e \<Rightarrow> Inl (Read_failed e)
      | Inr transactions \<Rightarrow>
        (case (case ds_ledgerBlocks ds of
                 Inr bs \<Rightarrow> Inr (bs, [])
               | Inl e \<Rightarrow> if re_code e \<noteq> Some ''42P01'' then Inl e else Inr ([], [LEDGER_BLOCKS_MISSING_WARNING])) of
           Inl e \<Rightarrow> Inl (Read_failed e)
         | Inr (ledgerBlocks, warnings) \<Rightarrow>
           (case evaluateLedgerBalance locale_le transactions ledgerBlocks of
              Inl e \<Rightarrow> Inl (Amount_failed e)
            | Inr balanceReport \<Rightarrow>
              (case (if length warnings > 0
                     then Inr (map (\<lambda>_. finding ''ledger-blocks-unavailable'' Warning None None) warnings)
                     else case checkOrphanedTransactions ds2 of
                         Inl e \<Rightarrow> Inl (Read_failed e) | Inr r \<Rightarrow> Inr (orphanFindings r)) of
                 Inl e \<Rightarrow> Inl e
               | Inr others \<Rightarrow>
                 let findings = invariantFindings balanceReport @ others
                 in Inr \<lparr>rr_generatedAt = now,
                      rr_checksRun = ''ledger-balancing-invariants''
                        # (if length warnings > 0 then [] else [''transaction-ledger-reconciliation'']),
                      rr_findings = findings,
                      rr_ok = (\<not> list_ex (\<lambda>f. rf_severity f = Critical) findings)\<rparr>))))"

definition reconcile_exitCodeForReport :: "ReconciliationDryRunReport \<Rightarrow> int" where
  "reconcile_exitCodeForReport report = (if rr_ok report then 0 else 1)"

definition reconcile_cli ::
  "(string \<Rightarrow> string \<Rightarrow> bool) \<Rightarrow> instant \<Rightarrow> bool \<Rightarrow> DataSource \<Rightarrow> DataSource \<Rightarrow> int" where
  "reconcile_cli locale_le now db_ok ds ds2 =
     (if \<not> db_ok then 1
      else case runReconciliationDryRun locale_le now ds ds2 of
          Inl _ \<Rightarrow> 1 | Inr report \<Rightarrow> reconcile_exitCodeForReport report)"

section \<open>The aging report\<close>

record AgingThresholds =
  warningHours :: rat
  criticalHours :: rat

definition DEFAULT_AGING_THRESHOLDS :: AgingThresholds where
  "DEFAULT_AGING_THRESHOLDS = \<lparr>warningHours = 24, criticalHours = 72\<rparr>"

datatype AgingBucketName = Fresh | Aged_warning | Aged_critical

record AgingBucket =
  ab_count :: nat
  ab_oldestAgeHours :: rat
  ab_totalAmount :: string
  ab_sampleRecipientsMasked :: "string list"

record StuckTransactionSummary =
  st_id :: string
  st_txHash :: string
  st_roundId :: string
  st_recipientMasked :: string
  st_ageHours :: rat
  st_amount :: "string option"

datatype aging_warning = Future_timestamp string int | Invalid_amount string string

record PendingTransactionAgingReport =
  ar_generatedAt :: instant
  ar_thresholds :: AgingThresholds
  ar_totalPending :: nat
  ar_buckets :: "AgingBucketName \<Rightarrow> AgingBucket"
  ar_criticalTransactions :: "StuckTransactionSummary list"
  ar_warnings :: "aging_warning list"

datatype ThresholdConfigurationError = Not_positive string | Not_ordered rat rat

definition parse_threshold ::
  "string option \<Rightarrow> rat \<Rightarrow> string \<Rightarrow> ThresholdConfigurationError + rat" where
  "parse_threshold raw fallback name =
     (case raw of
        None \<Rightarrow> Inr fallback
      | Some t \<Rightarrow>
        if t = [] then Inr fallback
        else case number_text t of
            None \<Rightarrow> Inl (Not_positive name)
          | Some v \<Rightarrow> if v \<le> 0 then Inl (Not_positive name) else Inr v)"

definition resolveAgingThresholds ::
  "(string \<Rightarrow> string option) \<Rightarrow> ThresholdConfigurationError + AgingThresholds" where
  "resolveAgingThresholds env =
     (case parse_threshold (env ''PENDING_TX_AGING_WARNING_HOURS'')
             (warningHours DEFAULT_AGING_THRESHOLDS) ''PENDING_TX_AGING_WARNING_HOURS'' of
        Inl e \<Rightarrow> Inl e
      | Inr w \<Rightarrow>
        (case parse_threshold (env ''PENDING_TX_AGING_CRITICAL_HOURS'')
                (criticalHours DEFAULT_AGING_THRESHOLDS) ''PENDING_TX_AGING_CRITICAL_HOURS'' of
           Inl e \<Rightarrow> Inl e
         | Inr c \<Rightarrow> if c \<le> w then Inl (Not_ordered c w) else Inr \<lparr>warningHours = w, criticalHours = c\<rparr>))"

definition classifyAge :: "rat \<Rightarrow> AgingThresholds \<Rightarrow> AgingBucketName" where
  "classifyAge ageHours thresholds =
     (if criticalHours thresholds \<le> ageHours then Aged_critical
      else if warningHours thresholds \<le> ageHours then Aged_warning
      else Fresh)"

definition ageSeconds :: "instant \<Rightarrow> TransactionRecord \<Rightarrow> int" where
  "ageSeconds nowMs tx = nowMs div 1000 - tx_timestamp tx"

definition ageHours :: "instant \<Rightarrow> TransactionRecord \<Rightarrow> rat" where
  "ageHours nowMs tx = of_int (max 0 (ageSeconds nowMs tx)) / 3600"

definition future_warnings :: "instant \<Rightarrow> TransactionRecord list \<Rightarrow> aging_warning list" where
  "future_warnings nowMs txs =
     concat (map (\<lambda>tx. if ageSeconds nowMs tx < 0
       then [Future_timestamp (tx_txHash tx) (- ageSeconds nowMs tx)] else []) txs)"

definition aged :: "instant \<Rightarrow> TransactionRecord list \<Rightarrow> TransactionRecord list" where
  "aged nowMs txs = sort_by (\<lambda>a b. ageHours nowMs b \<le> ageHours nowMs a) txs"

record aging_state =
  as_buckets :: "AgingBucketName \<Rightarrow> AgingBucket"
  as_amounts :: "AgingBucketName \<Rightarrow> string list"
  as_critical :: "StuckTransactionSummary list"
  as_warnings :: "aging_warning list"

definition empty_bucket :: AgingBucket where
  "empty_bucket = \<lparr>ab_count = 0, ab_oldestAgeHours = 0, ab_totalAmount = ''0'', ab_sampleRecipientsMasked = []\<rparr>"

definition round_hundredths :: "rat \<Rightarrow> rat" where
  "round_hundredths h = of_int \<lfloor>h * 100 + 1 / 2\<rfloor> / 100"

definition add_to_bucket :: "rat \<Rightarrow> TransactionRecord \<Rightarrow> AgingBucket \<Rightarrow> AgingBucket" where
  "add_to_bucket hours tx bucket =
     bucket\<lparr>ab_count := ab_count bucket + 1,
       ab_oldestAgeHours := (if ab_oldestAgeHours bucket < hours then hours else ab_oldestAgeHours bucket),
       ab_sampleRecipientsMasked := (if length (ab_sampleRecipientsMasked bucket) < SAMPLE_LIMIT
          then ab_sampleRecipientsMasked bucket @ [maskWalletAddress (tx_recipient tx)]
          else ab_sampleRecipientsMasked bucket)\<rparr>"

definition stuck_summary :: "rat \<Rightarrow> TransactionRecord \<Rightarrow> StuckTransactionSummary" where
  "stuck_summary hours tx = \<lparr>st_id = tx_id tx, st_txHash = tx_txHash tx, st_roundId = tx_roundId tx,
     st_recipientMasked = maskWalletAddress (tx_recipient tx), st_ageHours = round_hundredths hours,
     st_amount = (if isValidAmountString (tx_amount tx) then Some (tx_amount tx) else None)\<rparr>"

definition aging_step :: "AgingThresholds \<Rightarrow> instant \<Rightarrow> aging_state \<Rightarrow> TransactionRecord \<Rightarrow> aging_state" where
  "aging_step thresholds nowMs s tx =
     (let hours = ageHours nowMs tx; name = classifyAge hours thresholds; ok = isValidAmountString (tx_amount tx)
      in \<lparr>as_buckets = (as_buckets s)(name := add_to_bucket hours tx (as_buckets s name)),
          as_amounts = (if ok then (as_amounts s)(name := as_amounts s name @ [tx_amount tx]) else as_amounts s),
          as_critical = (if name = Aged_critical then as_critical s @ [stuck_summary hours tx] else as_critical s),
          as_warnings = (if ok then as_warnings s else as_warnings s @ [Invalid_amount (tx_txHash tx) (tx_amount tx)])\<rparr>)"

definition buildPendingTransactionAgingReport ::
  "TransactionRecord list \<Rightarrow> AgingThresholds \<Rightarrow> instant \<Rightarrow> amount_error + PendingTransactionAgingReport" where
  "buildPendingTransactionAgingReport pending thresholds nowMs =
     (let s = foldl (aging_step thresholds nowMs)
            \<lparr>as_buckets = (\<lambda>_. empty_bucket), as_amounts = (\<lambda>_. []), as_critical = [],
             as_warnings = future_warnings nowMs pending\<rparr> (aged nowMs pending)
      in case map_result (\<lambda>name. sumAmounts (as_amounts s name)) [Fresh, Aged_warning, Aged_critical] of
        Inl e \<Rightarrow> Inl e
      | Inr totals \<Rightarrow>
        Inr \<lparr>ar_generatedAt = nowMs, ar_thresholds = thresholds, ar_totalPending = length pending,
          ar_buckets = (\<lambda>name. (as_buckets s name)\<lparr>ab_totalAmount :=
            (case name of Fresh \<Rightarrow> totals ! 0 | Aged_warning \<Rightarrow> totals ! 1 | Aged_critical \<Rightarrow> totals ! 2)\<rparr>),
          ar_criticalTransactions = as_critical s,
          ar_warnings = as_warnings s\<rparr>)"

definition reportPendingTransactionAging ::
  "DataSource \<Rightarrow> AgingThresholds \<Rightarrow> instant \<Rightarrow> run_error + PendingTransactionAgingReport" where
  "reportPendingTransactionAging ds thresholds nowMs =
     (case ds_transactions ds of
        Inl e \<Rightarrow> Inl (Read_failed e)
      | Inr txs \<Rightarrow>
        (case buildPendingTransactionAgingReport (with_status T_pending txs) thresholds nowMs of
           Inl e \<Rightarrow> Inl (Amount_failed e) | Inr r \<Rightarrow> Inr r))"

definition aging_exitCodeForReport :: "PendingTransactionAgingReport \<Rightarrow> int" where
  "aging_exitCodeForReport report = (if ab_count (ar_buckets report Aged_critical) > 0 then 1 else 0)"

definition aging_cli ::
  "(string \<Rightarrow> string option) \<Rightarrow> instant \<Rightarrow> bool \<Rightarrow> DataSource \<Rightarrow> int" where
  "aging_cli env nowMs db_ok ds =
     (if \<not> db_ok then 1
      else case resolveAgingThresholds env of
          Inl _ \<Rightarrow> 1
        | Inr thresholds \<Rightarrow>
          (case reportPendingTransactionAging ds thresholds nowMs of
             Inl _ \<Rightarrow> 1 | Inr report \<Rightarrow> aging_exitCodeForReport report))"

section \<open>Lemmas\<close>

lemma set_foldl_add [simp]: "set (foldl set_add s xs) = set s \<union> set xs"
  by (induction xs arbitrary: s) (auto simp: set_add_def)

lemma set_js_set [simp]: "set (js_set xs) = set xs"
  by (simp add: js_set_def)

lemma distinct_js_set: "distinct (js_set xs)"
proof -
  have "distinct s \<Longrightarrow> distinct (foldl set_add s xs)" for s
    by (induction xs arbitrary: s) (auto simp: set_add_def)
  then show ?thesis by (simp add: js_set_def)
qed

lemma set_wallet_lookup:
  "set (wallet_lookup users addresses found) = set found \<union> (u_walletAddress ` set users \<inter> set addresses)"
proof (induction users addresses found rule: wallet_lookup.induct)
  case (2 users a as found)
  let ?n = WALLET_LOOKUP_CHUNK_SIZE
  have split: "set (a # as) = set (take ?n (a # as)) \<union> set (drop ?n (a # as))"
    by (metis append_take_drop_id set_append)
  show ?case
    unfolding wallet_lookup.simps Let_def 2 [OF refl refl] set_foldl_add split by auto
qed simp

text \<open>The two tables record the same settled payouts.\<close>

definition cross_matched :: "TransactionRecord list \<Rightarrow> LedgerBlock list \<Rightarrow> bool" where
  "cross_matched txs blocks \<longleftrightarrow>
     tx_txHash ` set (with_status T_completed txs) \<subseteq> lb_txHash ` set blocks \<and>
     lb_txHash ` set (settlements blocks) \<subseteq> tx_txHash ` set txs"

lemma completed_missing_Nil:
  "completed_missing txs blocks = [] \<and> settlement_missing txs blocks = [] \<longleftrightarrow> cross_matched txs blocks"
  by (auto simp: completed_missing_def settlement_missing_def cross_matched_def with_status_def
      settlements_def filter_empty_conv)

text \<open>What the reads of an orphan check can answer, and when they leave no finding.\<close>

definition orphan_reads :: "DataSource \<Rightarrow> (TransactionRecord list \<times> LedgerBlock list option) option" where
  "orphan_reads ds =
     (case ds_transactions ds of
        Inl _ \<Rightarrow> None
      | Inr txs \<Rightarrow>
        (case ds_ledgerBlocks ds of
           Inr blocks \<Rightarrow> Some (txs, Some blocks)
         | Inl e \<Rightarrow> if isUndefinedTableError e then Some (txs, None) else None))"

definition users_readable :: "DataSource \<Rightarrow> string list \<Rightarrow> bool" where
  "users_readable ds addresses \<longleftrightarrow> addresses = [] \<or> (\<exists>us. ds_users ds = Inr us)"

definition orphan_free :: "DataSource \<Rightarrow> bool" where
  "orphan_free ds =
     (case orphan_reads ds of
        None \<Rightarrow> False
      | Some (txs, None) \<Rightarrow> users_readable ds (distinctRecipients txs [])
      | Some (txs, Some blocks) \<Rightarrow> users_readable ds (distinctRecipients txs blocks) \<and> cross_matched txs blocks)"

lemma findExisting_total: "(\<exists>ws. findExistingWalletAddresses ds as = Inr ws) \<longleftrightarrow> users_readable ds as"
  by (auto simp: findExistingWalletAddresses_def users_readable_def split: sum.splits)

lemma check_orphan_free:
  "orphan_free ds \<longleftrightarrow>
     (\<exists>r. checkOrphanedTransactions ds = Inr r \<and> or_completedMissing r = [] \<and> or_settlementMissing r = [])"
  using completed_missing_Nil
  by (fastforce simp: orphan_free_def orphan_reads_def checkOrphanedTransactions_def Let_def
      findExisting_total [symmetric] split: sum.splits prod.splits if_splits)

lemma orphan_findings_critical:
  "list_ex (\<lambda>f. rf_severity f = Critical) (orphanFindings r)
     \<longleftrightarrow> or_completedMissing r \<noteq> [] \<or> or_settlementMissing r \<noteq> []"
  by (auto simp: orphanFindings_def finding_def list_ex_iff)

lemma violation_critical [simp]: "iv_severity (violation i h r) = Critical"
  by (simp add: violation_def)

lemma row_severities:
  assumes "v \<in> set vs"
  shows "inv2_row tx = Inr vs \<Longrightarrow> iv_severity v = Critical"
    and "inv34_row m tx = Inr vs \<Longrightarrow> iv_severity v = Critical"
    and "aggregate_check a b = Inr vs \<Longrightarrow> iv_severity v = Critical"
    and "guarded_total xs = (t, vs) \<Longrightarrow> iv_severity v = Critical"
  using assms
  by (auto simp: inv2_row_def inv34_row_def aggregate_check_def guarded_total_def
      split: if_splits sum.splits list.splits option.splits)

lemma map_result_severities:
  assumes "map_result f xs = Inr rows" "\<And>x vs v. f x = Inr vs \<Longrightarrow> v \<in> set vs \<Longrightarrow> P v" "v \<in> set (concat rows)"
  shows "P v"
proof -
  from assms(3) obtain vs where vs: "vs \<in> set rows" "v \<in> set vs" by auto
  then obtain i where "i < length rows" "rows ! i = vs" by (metis in_set_conv_nth)
  with vs assms(1) assms(2) [of "xs ! i" vs v] show ?thesis by (auto simp: map_result_Inr list_all2_conv_all_nth)
qed

lemma evaluate_severities:
  assumes "evaluateLedgerBalance le txs blocks = Inr rep" "v \<in> set (lr_violations rep)"
  shows "iv_severity v = Critical"
proof -
  let ?m = "settlementByTxHash blocks"
  obtain rows2 rows34 ct v5 st v5' agg where parts:
    "map_result inv2_row (default_to [] (jm_get (txByStatus txs) T_completed)) = Inr rows2"
    "map_result (inv34_row ?m) txs = Inr rows34" "guarded_total (completedAmounts txs) = (ct, v5)"
    "guarded_total (settledAmounts ?m) = (st, v5')" "aggregate_check ct st = Inr agg"
    "lr_violations rep = (duplicate_settlements ?m @ inv1_transactions txs @ inv1_blocks blocks)
       @ concat rows2 @ concat rows34 @ v5 @ v5' @ agg"
    using assms(1) by (auto simp: evaluateLedgerBalance_def Let_def split: sum.splits prod.splits)
  have "iv_severity v = Critical"
    if "v \<in> set (duplicate_settlements ?m @ inv1_transactions txs @ inv1_blocks blocks)"
    using that by (auto simp: duplicate_settlements_def inv1_transactions_def inv1_blocks_def
        split: prod.splits if_splits option.splits)
  moreover have "iv_severity v = Critical" if "v \<in> set (concat rows2)"
    by (rule map_result_severities [OF parts(1) _ that]) (rule row_severities(1))
  moreover have "iv_severity v = Critical" if "v \<in> set (concat rows34)"
    by (rule map_result_severities [OF parts(2) _ that]) (rule row_severities(2))
  ultimately show ?thesis
    using assms(2) row_severities(3) [OF _ parts(5)] row_severities(4) [OF _ parts(3)] row_severities(4) [OF _ parts(4)]
    unfolding parts(6) by auto
qed

lemma invariant_findings_critical:
  assumes "evaluateLedgerBalance le txs blocks = Inr rep"
  shows "list_ex (\<lambda>f. rf_severity f = Critical) (invariantFindings rep) \<longleftrightarrow> \<not> ledger_balanced txs blocks"
proof -
  have bal: "lr_balanced rep \<longleftrightarrow> ledger_balanced txs blocks"
    using evaluate_total [of le txs blocks] assms by auto
  have "lr_balanced rep \<longleftrightarrow> lr_violations rep = []"
    using assms by (auto simp: evaluateLedgerBalance_def Let_def split: sum.splits prod.splits)
  moreover have "list_ex (\<lambda>f. rf_severity f = Critical) (invariantFindings rep) \<longleftrightarrow> lr_violations rep \<noteq> []"
  proof
    assume "lr_violations rep \<noteq> []"
    then obtain v vs where v: "lr_violations rep = v # vs" by (cases "lr_violations rep") auto
    let ?g = "filter (\<lambda>x. iv_invariantId x = iv_invariantId v) (lr_violations rep)"
    have "(iv_invariantId v, ?g) \<in> set (group_by iv_invariantId (lr_violations rep))"
      unfolding group_by_mem using v by simp
    moreover have "list_ex (\<lambda>v. iv_severity v = Critical) ?g"
      using evaluate_severities [OF assms, of v] v by (simp add: list_ex_iff)
    ultimately show "list_ex (\<lambda>f. rf_severity f = Critical) (invariantFindings rep)"
      by (force simp: invariantFindings_def finding_def list_ex_iff)
  qed (auto simp: invariantFindings_def group_by_def)
  ultimately show ?thesis using bal by simp
qed

lemma reconcile_cli_eq:
  "reconcile_cli le now db_ok ds ds2 =
     (if db_ok \<and> (case orphan_reads ds of
          None \<Rightarrow> False
        | Some (txs, None) \<Rightarrow> ledger_balanced txs []
        | Some (txs, Some blocks) \<Rightarrow> ledger_balanced txs blocks \<and> orphan_free ds2)
      then 0 else 1)"
proof (cases "orphan_reads ds")
  case None
  then show ?thesis
    by (auto simp: orphan_reads_def reconcile_cli_def runReconciliationDryRun_def isUndefinedTableError_def
        UNDEFINED_TABLE_ERROR_CODE_def split: sum.splits if_splits)
next
  case (Some p)
  obtain txs mb where p: "p = (txs, mb)" by (cases p)
  obtain rep where rep: "evaluateLedgerBalance le txs (default_to [] mb) = Inr rep"
    using evaluate_total [of le txs "default_to [] mb"] by blast
  note crit = invariant_findings_critical [OF rep]
  show ?thesis
  proof (cases mb)
    case N: None
    with Some p crit rep show ?thesis
      by (auto simp: orphan_reads_def reconcile_cli_def runReconciliationDryRun_def isUndefinedTableError_def
          UNDEFINED_TABLE_ERROR_CODE_def Let_def reconcile_exitCodeForReport_def finding_def
          split: sum.splits if_splits)
  next
    case S: (Some blocks)
    have ds: "ds_transactions ds = Inr txs" "ds_ledgerBlocks ds = Inr blocks"
      using Some p S by (auto simp: orphan_reads_def split: sum.splits if_splits)
    show ?thesis
    proof (cases "checkOrphanedTransactions ds2")
      case (Inl e)
      then have "\<not> orphan_free ds2" by (simp add: check_orphan_free)
      with Some p S ds rep Inl show ?thesis by (simp add: reconcile_cli_def runReconciliationDryRun_def)
    next
      case (Inr r)
      then have "orphan_free ds2 \<longleftrightarrow> or_completedMissing r = [] \<and> or_settlementMissing r = []"
        by (simp add: check_orphan_free)
      with Some p S ds rep Inr crit orphan_findings_critical [of r] show ?thesis
        by (simp add: reconcile_cli_def runReconciliationDryRun_def Let_def reconcile_exitCodeForReport_def)
    qed
  qed
qed

subsection \<open>Redaction\<close>

abbreviation nonspace :: "char \<Rightarrow> bool" where
  "nonspace c \<equiv> \<not> is_js_space c"

lemma connection_match_Some:
  "connection_match s = Some rest \<longleftrightarrow>
     (\<exists>c cs. s = c # cs \<and> is_letter c \<and> starts_with (dropWhile is_scheme_char cs) ''://''
        \<and> CHR ''@'' \<in> set (takeWhile nonspace (drop 3 (dropWhile is_scheme_char cs)))
        \<and> rest = dropWhile nonspace (drop 3 (dropWhile is_scheme_char cs)))"
  by (cases s) (auto simp: connection_match_def Let_def)

lemma redacted_chars:
  "list_all (\<lambda>c. nonspace c \<and> c \<noteq> CHR ''@'' \<and> c \<noteq> CHR '':'') REDACTED" "REDACTED \<noteq> []" "hd REDACTED = CHR ''[''"
  by code_simp+

lemma letter_not_space: "is_letter c \<Longrightarrow> nonspace c"
  by (auto simp: is_letter_def is_js_space_def Let_def)

lemma match_rest: 
  assumes "connection_match s = Some rest"
  shows "rest = [] \<or> is_js_space (hd rest)"
proof -
  from assms obtain x where "rest = dropWhile nonspace x" by (auto simp: connection_match_Some)
  then show ?thesis using hd_dropWhile [of nonspace x] by auto
qed

lemma sanitize_at_space:
  assumes "s = [] \<or> is_js_space (hd s)"
  shows "takeWhile nonspace (sanitizeErrorMessage s) = []"
proof (cases s)
  case (Cons c cs)
  with assms letter_not_space [of c] have "connection_match s = None"
    by (auto simp: connection_match_def Let_def)
  with Cons assms show ?thesis by auto
qed simp

lemma sanitize_run:
  "CHR ''@'' \<in> set (takeWhile nonspace (sanitizeErrorMessage s)) \<Longrightarrow> CHR ''@'' \<in> set (takeWhile nonspace s)"
proof (induction s rule: sanitizeErrorMessage.induct)
  case (2 c cs)
  show ?case
  proof (cases "connection_match (c # cs)")
    case None
    with 2 show ?thesis by (auto split: if_splits)
  next
    case (Some rest)
    have "takeWhile nonspace (REDACTED @ sanitizeErrorMessage rest) = REDACTED"
      using redacted_chars(1) sanitize_at_space [OF match_rest [OF Some]]
      by (simp add: takeWhile_append2 list_all_iff)
    with 2(3) Some redacted_chars(1) show ?thesis by (auto simp: list_all_iff)
  qed
qed simp

lemma sanitize_prefix:
  "sanitizeErrorMessage s = p @ t \<Longrightarrow> CHR ''['' \<notin> set p \<Longrightarrow> \<exists>s'. s = p @ s' \<and> sanitizeErrorMessage s' = t"
proof (induction p arbitrary: s)
  case (Cons c p)
  from Cons.prems obtain d ds where s: "s = d # ds" by (cases s) auto
  show ?case
  proof (cases "connection_match s")
    case None
    with s Cons.prems have "d = c" "sanitizeErrorMessage ds = p @ t" by auto
    with Cons s show ?thesis by auto
  next
    case (Some rest)
    with s Cons.prems(1) have "REDACTED @ sanitizeErrorMessage rest = c # p @ t" by simp
    with redacted_chars(2,3) have "c = CHR ''[''" by (metis hd_append2 list.sel(1))
    with Cons.prems(2) show ?thesis by simp
  qed
qed simp

lemma sanitize_scheme:
  assumes "starts_with (dropWhile is_scheme_char (sanitizeErrorMessage s)) ''://''"
  shows "starts_with (dropWhile is_scheme_char s) ''://''"
    and "drop 3 (dropWhile is_scheme_char (sanitizeErrorMessage s)) = sanitizeErrorMessage (drop 3 (dropWhile is_scheme_char s))"
proof -
  let ?out = "sanitizeErrorMessage s"
  let ?u = "takeWhile is_scheme_char ?out" and ?body = "drop 3 (dropWhile is_scheme_char ?out)"
  have d: "dropWhile is_scheme_char ?out = ''://'' @ ?body"
  proof -
    have "take 3 (dropWhile is_scheme_char ?out) = ''://''"
      using assms by (simp add: starts_with_def numeral_3_eq_3)
    then show ?thesis by (metis append_take_drop_id)
  qed
  then have out: "?out = (?u @ ''://'') @ ?body" by (metis append_assoc takeWhile_dropWhile_id)
  have bracket: "\<not> is_scheme_char CHR ''[''" "\<not> is_scheme_char CHR '':''" by code_simp+
  then have "CHR ''['' \<notin> set (?u @ ''://'')" by (auto dest: set_takeWhileD)
  from sanitize_prefix [OF out this] obtain s' where s': "s = (?u @ ''://'') @ s'" "sanitizeErrorMessage s' = ?body"
    by blast
  have "\<forall>c \<in> set ?u. is_scheme_char c" by (auto dest: set_takeWhileD)
  then have "dropWhile is_scheme_char ((?u @ ''://'') @ s') = ''://'' @ s'"
    using bracket(2) by (simp add: dropWhile_append2)
  then have "dropWhile is_scheme_char s = ''://'' @ s'" unfolding s'(1) [symmetric] .
  then show "starts_with (dropWhile is_scheme_char s) ''://''" "?body = sanitizeErrorMessage (drop 3 (dropWhile is_scheme_char s))"
    using s'(2) by (simp_all add: starts_with_def)
qed

lemma redacted_no_scheme:
  "list_all (\<lambda>n. \<not> is_letter (REDACTED ! n) \<or>
     (let r = dropWhile is_scheme_char (drop (Suc n) REDACTED) in r \<noteq> [] \<and> hd r \<noteq> CHR '':''))
   [0..<length REDACTED]"
  by code_simp

lemma redacted_no_match:
  assumes "n < length REDACTED"
  shows "connection_match (drop n REDACTED @ t) = None"
proof -
  let ?q = "drop (Suc n) REDACTED"
  have "\<not> is_letter (REDACTED ! n) \<or> (dropWhile is_scheme_char ?q \<noteq> [] \<and> hd (dropWhile is_scheme_char ?q) \<noteq> CHR '':'')"
    using redacted_no_scheme assms by (auto simp: list_all_iff Let_def)
  moreover have "dropWhile is_scheme_char (?q @ t) = dropWhile is_scheme_char ?q @ t"
    if "dropWhile is_scheme_char ?q \<noteq> []" using that by (auto simp: dropWhile_append)
  ultimately have "\<not> is_letter (REDACTED ! n) \<or> \<not> starts_with (dropWhile is_scheme_char (?q @ t)) ''://''"
    by (cases "dropWhile is_scheme_char ?q") (auto simp: starts_with_def)
  then show ?thesis
    by (auto simp: connection_match_def Cons_nth_drop_Suc [OF assms, symmetric] Let_def)
qed

lemma sanitize_no_match: "connection_match (drop n (sanitizeErrorMessage s)) = None"
proof (induction s arbitrary: n rule: sanitizeErrorMessage.induct)
  case 1
  then show ?case by (simp add: connection_match_def)
next
  case (2 c cs)
  show ?case
  proof (cases "connection_match (c # cs)")
    case (Some rest)
    show ?thesis
    proof (cases "n < length REDACTED")
      case True
      with Some redacted_no_match show ?thesis by simp
    qed (use 2(2) [OF Some] Some in simp)
  next
    case None
    show ?thesis
    proof (cases n)
      case 0
      have "connection_match (c # sanitizeErrorMessage cs) = None"
      proof (rule ccontr)
        assume "connection_match (c # sanitizeErrorMessage cs) \<noteq> None"
        then have "is_letter c" "starts_with (dropWhile is_scheme_char (sanitizeErrorMessage cs)) ''://''"
          "CHR ''@'' \<in> set (takeWhile nonspace (drop 3 (dropWhile is_scheme_char (sanitizeErrorMessage cs))))"
          by (auto simp: connection_match_Some)
        with sanitize_scheme [of cs] sanitize_run have "connection_match (c # cs) \<noteq> None"
          by (auto simp: connection_match_Some)
        with None show False by simp
      qed
      with None 0 show ?thesis by simp
    qed (use 2(1) [OF None] None in simp)
  qed
qed

text \<open>
  No error message that the operator commands log after redaction contains a
  credential-bearing connection string: at no position of the result does the pattern match, also
  not across the placeholders, and a text with no match is left as it is.
\<close>

theorem redaction_complete:
  "(\<forall>n. connection_match (drop n (sanitizeErrorMessage s)) = None)
   \<and> ((\<forall>n. connection_match (drop n s) = None) \<longleftrightarrow> sanitizeErrorMessage s = s)"
proof -
  have keep: "\<forall>n. connection_match (drop n s) = None \<Longrightarrow> sanitizeErrorMessage s = s" for s
  proof (induction s)
    case (Cons c cs)
    from Cons.prems have "connection_match (drop n cs) = None" for n by (metis drop_Suc_Cons)
    with Cons.IH Cons.prems [rule_format, of 0] show ?case by simp
  qed simp
  with sanitize_no_match [of _ s] show ?thesis by auto
qed

subsection \<open>Aging\<close>

definition in_bucket :: "AgingThresholds \<Rightarrow> instant \<Rightarrow> AgingBucketName \<Rightarrow> TransactionRecord list \<Rightarrow> TransactionRecord list" where
  "in_bucket th nowMs name txs = filter (\<lambda>t. classifyAge (ageHours nowMs t) th = name) txs"

definition bucket_units :: "AgingThresholds \<Rightarrow> instant \<Rightarrow> AgingBucketName \<Rightarrow> TransactionRecord list \<Rightarrow> int" where
  "bucket_units th nowMs name txs =
     sum_list (map units_of (filter (\<lambda>t. isValidAmountString (tx_amount t)) (in_bucket th nowMs name txs)))"

lemma aging_fold:
  "ab_count (as_buckets (foldl (aging_step th now) s xs) n) = ab_count (as_buckets s n) + length (in_bucket th now n xs)"
  "as_amounts (foldl (aging_step th now) s xs) n = as_amounts s n
     @ map tx_amount (filter (\<lambda>t. isValidAmountString (tx_amount t)) (in_bucket th now n xs))"
  "as_critical (foldl (aging_step th now) s xs) = as_critical s
     @ map (\<lambda>t. stuck_summary (ageHours now t) t) (in_bucket th now Aged_critical xs)"
  by (induction xs arbitrary: s) (simp_all add: aging_step_def add_to_bucket_def in_bucket_def Let_def)

lemma map_result_Inl:
  assumes "x \<in> set xs" "f x = Inl e" and only: "\<And>y e'. f y = Inl e' \<Longrightarrow> e' = e"
  shows "map_result f xs = Inl e"
  using assms(1)
proof (induction xs)
  case (Cons y ys)
  show ?case
  proof (cases "f y")
    case (Inl e')
    with only show ?thesis by simp
  next
    case (Inr v)
    with Cons assms(2) have "map_result f ys = Inl e" by auto
    with Inr show ?thesis by simp
  qed
qed simp

lemma mset_in_bucket: "mset xs = mset ys \<Longrightarrow> mset (in_bucket th now n xs) = mset (in_bucket th now n ys)"
  by (simp add: in_bucket_def)

lemma bucket_units_perm:
  assumes "mset xs = mset ys"
  shows "bucket_units th now n xs = bucket_units th now n ys"
proof -
  have "mset (map units_of (filter P (in_bucket th now n xs))) = mset (map units_of (filter P (in_bucket th now n ys)))" for P
    using mset_in_bucket [OF assms, of th now n] by simp
  then show ?thesis unfolding bucket_units_def by (metis sum_mset_sum_list)
qed

lemma bucket_total:
  assumes "as_amounts s n = map tx_amount (filter (\<lambda>t. isValidAmountString (tx_amount t)) (in_bucket th now n xs))"
  shows "bucket_units th now n xs \<le> MAX_AMOUNT_UNITS \<Longrightarrow>
      \<exists>t. sumAmounts (as_amounts s n) = Inr t \<and> toUnits t = Inr (bucket_units th now n xs)"
    and "\<not> bucket_units th now n xs \<le> MAX_AMOUNT_UNITS \<Longrightarrow> sumAmounts (as_amounts s n) = Inl AmountOverflow"
proof -
  have v: "\<forall>v \<in> set (as_amounts s n). isValidAmountString v" using assms by auto
  have u: "sum_list (map toUnitsUnchecked (as_amounts s n)) = bucket_units th now n xs"
    unfolding assms bucket_units_def by (simp add: comp_def units_of_def [abs_def])
  show "bucket_units th now n xs \<le> MAX_AMOUNT_UNITS \<Longrightarrow>
      \<exists>t. sumAmounts (as_amounts s n) = Inr t \<and> toUnits t = Inr (bucket_units th now n xs)"
    using sumAmounts_in_range [OF v] unfolding u .
  show "\<not> bucket_units th now n xs \<le> MAX_AMOUNT_UNITS \<Longrightarrow> sumAmounts (as_amounts s n) = Inl AmountOverflow"
    using sumAmounts_overflow [OF v] unfolding u .
qed

lemma buckets_partition:
  "length (in_bucket th now Fresh xs) + length (in_bucket th now Aged_warning xs)
     + length (in_bucket th now Aged_critical xs) = length xs"
proof (induction xs)
  case (Cons x xs)
  then show ?case by (cases "classifyAge (ageHours now x) th") (simp_all add: in_bucket_def)
qed (simp add: in_bucket_def)

lemma aged_sorted: "sorted_wrt (\<lambda>a b. ageHours now b \<le> ageHours now a) (aged now xs)"
  unfolding aged_def by (rule sorted_sort_by) auto

lemma round_mono: "a \<le> b \<Longrightarrow> round_hundredths a \<le> round_hundredths b"
  by (simp add: round_hundredths_def divide_right_mono floor_mono)

text \<open>
  The aging report is exact: it fails only when the amounts of a bucket exceed the ledger's
  range; otherwise every pending payout is counted in exactly one bucket, a bucket's total reads
  back as the exact sum of its well-formed amounts, the alert list holds exactly the critically
  old payouts, oldest first, and the exit code is 1 exactly when there is one.
\<close>

theorem aging_report_exact:
  "if \<exists>n. MAX_AMOUNT_UNITS < bucket_units th now n pending
   then buildPendingTransactionAgingReport pending th now = Inl AmountOverflow
   else \<exists>rep. buildPendingTransactionAgingReport pending th now = Inr rep
     \<and> (\<forall>n. ab_count (ar_buckets rep n) = length (in_bucket th now n pending)
          \<and> toUnits (ab_totalAmount (ar_buckets rep n)) = Inr (bucket_units th now n pending))
     \<and> ab_count (ar_buckets rep Fresh) + ab_count (ar_buckets rep Aged_warning)
         + ab_count (ar_buckets rep Aged_critical) = ar_totalPending rep
     \<and> mset (map st_txHash (ar_criticalTransactions rep))
         = mset (map tx_txHash (filter (\<lambda>t. criticalHours th \<le> ageHours now t) pending))
     \<and> sorted_wrt (\<lambda>a b. st_ageHours b \<le> st_ageHours a) (ar_criticalTransactions rep)
     \<and> aging_exitCodeForReport rep = (if filter (\<lambda>t. criticalHours th \<le> ageHours now t) pending = [] then 0 else 1)"
proof -
  define s where "s = foldl (aging_step th now) \<lparr>as_buckets = (\<lambda>_. empty_bucket), as_amounts = (\<lambda>_. []),
     as_critical = [], as_warnings = future_warnings now pending\<rparr> (aged now pending)"
  have perm: "mset (aged now pending) = mset pending" by (simp add: aged_def)
  have counts: "ab_count (as_buckets s n) = length (in_bucket th now n pending)" for n
    using mset_eq_length [OF mset_in_bucket [OF perm, of th now n]]
    by (simp add: s_def aging_fold(1) empty_bucket_def)
  have amounts: "as_amounts s n = map tx_amount (filter (\<lambda>t. isValidAmountString (tx_amount t))
      (in_bucket th now n (aged now pending)))" for n by (simp add: s_def aging_fold(2))
  note totals = bucket_total [OF amounts, unfolded bucket_units_perm [OF perm]]
  have critical: "as_critical s = map (\<lambda>t. stuck_summary (ageHours now t) t) (in_bucket th now Aged_critical (aged now pending))"
    by (simp add: s_def aging_fold(3))
  have crit_iff: "in_bucket th now Aged_critical xs = filter (\<lambda>t. criticalHours th \<le> ageHours now t) xs" for xs
    by (simp add: in_bucket_def classifyAge_def)
  have sorted: "sorted_wrt (\<lambda>a b. st_ageHours b \<le> st_ageHours a) (as_critical s)"
    unfolding critical sorted_wrt_map crit_iff
    using sorted_wrt_filter [OF aged_sorted] by (rule sorted_wrt_mono_rel [rotated]) (simp add: stuck_summary_def round_mono)
  have crit_rows: "mset (map st_txHash (as_critical s))
      = mset (map tx_txHash (filter (\<lambda>t. criticalHours th \<le> ageHours now t) pending))"
    unfolding critical crit_iff by (simp add: comp_def stuck_summary_def perm)
  show ?thesis
  proof (cases "\<exists>n. MAX_AMOUNT_UNITS < bucket_units th now n pending")
    case True
    then obtain n where n: "sumAmounts (as_amounts s n) = Inl AmountOverflow" using totals(2) by (meson not_le)
    have only: "sumAmounts (as_amounts s k) = Inl e \<Longrightarrow> e = AmountOverflow" for k e
      using totals [of k] by (cases "bucket_units th now k pending \<le> MAX_AMOUNT_UNITS") auto
    have "n \<in> set [Fresh, Aged_warning, Aged_critical]" by (cases n) auto
    then have "map_result (\<lambda>name. sumAmounts (as_amounts s name)) [Fresh, Aged_warning, Aged_critical] = Inl AmountOverflow"
      by (rule map_result_Inl) (use n only in auto)
    with True show ?thesis by (simp add: buildPendingTransactionAgingReport_def Let_def flip: s_def)
  next
    case False
    then have ok: "\<exists>t. sumAmounts (as_amounts s n) = Inr t \<and> toUnits t = Inr (bucket_units th now n pending)" for n
      using totals(1) [of n] by (meson not_le)
    then obtain f where f: "sumAmounts (as_amounts s n) = Inr (f n) \<and> toUnits (f n) = Inr (bucket_units th now n pending)" for n
      by metis
    have build: "buildPendingTransactionAgingReport pending th now =
        Inr \<lparr>ar_generatedAt = now, ar_thresholds = th, ar_totalPending = length pending,
          ar_buckets = (\<lambda>name. (as_buckets s name)\<lparr>ab_totalAmount := f name\<rparr>),
          ar_criticalTransactions = as_critical s, ar_warnings = as_warnings s\<rparr>"
      using f by (auto simp: buildPendingTransactionAgingReport_def Let_def fun_eq_iff simp flip: s_def split: AgingBucketName.splits)
    show ?thesis
      using False f counts crit_rows sorted buckets_partition [of th now pending] crit_iff [of pending]
      by (simp add: build aging_exitCodeForReport_def)
  qed
qed

subsection \<open>The dry run\<close>

text \<open>
  The exit code of the reconciliation dry run, for every outcome of its reads: it is 0 exactly
  when the database answers, the books read first balance, and the orphan check over the tables as
  read the second time finds every completed payout settled and every settlement backed by a payout;
  without the settlement table, exactly when the payouts balance an empty ledger. Every other run
  exits 1.
\<close>

theorem dry_run_exit_decided:
  "reconcile_cli le now db_ok ds ds2 =
     (if db_ok \<and> (case orphan_reads ds of
          None \<Rightarrow> False
        | Some (txs, None) \<Rightarrow> ledger_balanced txs []
        | Some (txs, Some blocks) \<Rightarrow> ledger_balanced txs blocks \<and> orphan_free ds2)
      then 0 else 1)"
  by (rule reconcile_cli_eq)

text \<open>The exit code of the orphan check.\<close>

lemma orphan_check_cli_eq:
  "orphan_check_cli args db_ok ds =
     (if args \<noteq> [] \<and> args \<noteq> [''--cleanup-preview''] then 2 else if db_ok \<and> orphan_free ds then 0 else 1)"
proof -
  have "(\<exists>b. parseOrphanedTransactionsCliOptions args = Inr b) \<longleftrightarrow> args = [] \<or> args = [''--cleanup-preview'']"
  proof
    assume "\<exists>b. parseOrphanedTransactionsCliOptions args = Inr b"
    then have "length args = 0 \<or> (length args = 1 \<and> args ! 0 = ''--cleanup-preview'')"
      unfolding parseOrphanedTransactionsCliOptions_def
      by (simp only: split: option.splits if_splits) simp_all
    then show "args = [] \<or> args = [''--cleanup-preview'']" by (cases args) auto
  next
    have "parseOrphanedTransactionsCliOptions [] = Inr False"
      "parseOrphanedTransactionsCliOptions [''--cleanup-preview''] = Inr True" by code_simp+
    then show "args = [] \<or> args = [''--cleanup-preview''] \<Longrightarrow> \<exists>b. parseOrphanedTransactionsCliOptions args = Inr b"
      by blast
  qed
  then show ?thesis
    by (auto simp: orphan_check_cli_def check_orphan_free split: sum.splits)
qed

text \<open>
  Without the settlement table the invariant engine compares the payouts with an empty ledger, so
  any completed payout makes the run exit 1 (the documentation promises 0).
\<close>

lemma missing_table_alarm:
  assumes "ds_transactions ds = Inr txs" "ds_ledgerBlocks ds = Inl e" "isUndefinedTableError e"
    "t \<in> set txs" "tx_status t = T_completed"
  shows "reconcile_cli le now db_ok ds ds2 = 1"
proof -
  let ?c = "with_status T_completed txs"
  have t: "t \<in> set ?c" using assms(4,5) by (simp add: with_status_def)
  have "\<not> ledger_balanced txs []"
  proof
    assume b: "ledger_balanced txs []"
    then have pos: "\<forall>t \<in> set ?c. 0 < units_of t" and zero: "sum_list (map units_of ?c) = 0"
      by (auto simp: ledger_balanced_def settlements_def)
    then have "units_of t \<le> sum_list (map units_of ?c)"
      using t by (intro sum_list_member_le) auto
    with pos t zero show False by force
  qed
  then show ?thesis using assms(1-3) by (simp add: reconcile_cli_eq orphan_reads_def)
qed

text \<open>
  The two engines read the tables separately, so a run can exit 0 although neither view was
  consistent: first a settlement under another hash, then the right hash with a wrong amount.
\<close>

definition drift_source :: "string \<Rightarrow> string \<Rightarrow> DataSource" where
  "drift_source settledHash settledAmount =
     \<lparr>ds_transactions = Inr [\<lparr>tx_id = ''1'', tx_roundId = ''r'', tx_recipient = ''G'', tx_amount = ''5'',
        tx_token = ''T'', tx_timestamp = 0, tx_txHash = ''a'', tx_status = T_completed\<rparr>],
      ds_ledgerBlocks = Inr [\<lparr>lb_id = ''1'', lb_ledgerSeq = 1, lb_txHash = settledHash, lb_type = B_settlement,
        lb_projectId = None, lb_recipient = None, lb_amount = Some settledAmount, lb_ledgerClosedAt = 0\<rparr>],
      ds_users = Inr []\<rparr>"

lemma drift_amounts:
  "isValidAmountString ''5''" "isValidAmountString ''6''" "toUnitsUnchecked ''5'' = 50000000"
  "toUnitsUnchecked ''6'' = 60000000" "50000000 \<le> MAX_AMOUNT_UNITS"
  by code_simp+

lemmas drift_defs = drift_source_def reconcile_cli_eq orphan_reads_def orphan_free_def users_readable_def
  cross_matched_def ledger_balanced_def amounts_well_formed_def settled_once_def rows_agree_def
  with_status_def settlements_def units_of_def settled_units_def drift_amounts

lemma two_views_hide_drift:
  "reconcile_cli le now True (drift_source ''b'' ''5'') (drift_source ''b'' ''5'') = 1"
  "reconcile_cli le now True (drift_source ''a'' ''6'') (drift_source ''a'' ''6'') = 1"
  "reconcile_cli le now True (drift_source ''b'' ''5'') (drift_source ''a'' ''6'') = 0"
  by (simp_all add: drift_defs del: set_filter)

end
