(* ===== verification/Database_Audit.thy ===== *)
theory Database_Audit
  imports Reconciliation Notifications Split_Lifecycle
begin

text \<open>
  The database consistency audit (\<open>backend/src/scripts/audit-database-consistency.ts\<close>): the orphan
  check of \<open>Reconciliation\<close>, the uniqueness checks over users, payouts, notifications, preferences and
  cancellations, and the check that no mandatory preference is disabled.

  The audit is compared with what the services guarantee: rows written by the preference service
  always pass, the rows of a notification fan-out do not.
\<close>

section \<open>Model\<close>

record AuditSource = DataSource +
  ds_notifications :: "read_error + Notification list"
  ds_preferences :: "read_error + NotificationPreference list"
  ds_cancellations :: "read_error + SplitCancellation list"

type_synonym ConsistencyFinding = ReconciliationFinding

record ConsistencyAuditReport =
  au_generatedAt :: instant
  au_checksRun :: "string list"
  au_findings :: "ConsistencyFinding list"
  au_ok :: bool

definition duplicate_step :: "string list \<times> string list \<Rightarrow> string \<Rightarrow> string list \<times> string list" where
  "duplicate_step s v =
     (case s of (seen, duplicates) \<Rightarrow>
        if v \<in> set seen then (seen, set_add duplicates v) else (set_add seen v, duplicates))"

definition findDuplicateValues :: "string list \<Rightarrow> string list" where
  "findDuplicateValues vs = snd (foldl duplicate_step ([], []) vs)"

text \<open>The finding of a check that counts the values \<open>vs\<close>, none when there are none.\<close>

definition count_finding :: "string \<Rightarrow> string list \<Rightarrow> string list \<Rightarrow> ConsistencyFinding list" where
  "count_finding checkId vs sample =
     (if length vs = 0 then [] else [finding checkId Critical (Some (length vs)) (Some sample)])"

definition runOrphanedTransactionsCheck :: "AuditSource \<Rightarrow> read_error + ConsistencyFinding list" where
  "runOrphanedTransactionsCheck src =
     (let checkId = ''transaction-ledger-reconciliation''
      in case checkOrphanedTransactions (DataSource.truncate src) of
        Inl e \<Rightarrow> Inl e
      | Inr report \<Rightarrow> Inr
         ((if length (or_completedMissing report) > 0
           then [finding checkId Critical (Some (length (or_completedMissing report)))
                   (Some (map cm_txHash (take SAMPLE_LIMIT (or_completedMissing report))))] else [])
          @ (if length (or_settlementMissing report) > 0
             then [finding checkId Critical (Some (length (or_settlementMissing report)))
                     (Some (map sm_txHash (take SAMPLE_LIMIT (or_settlementMissing report))))] else [])
          @ (if \<not> or_ledgerBlocksTableAvailable report then [finding checkId Warning None None] else [])
          @ (if ur_count (or_unregisteredRecipients report) > 0
             then [finding checkId Warning (Some (ur_count (or_unregisteredRecipients report)))
                     (Some (ur_sampleMasked (or_unregisteredRecipients report)))] else [])))"

definition checkDuplicateWalletAddresses :: "AuditSource \<Rightarrow> read_error + ConsistencyFinding list" where
  "checkDuplicateWalletAddresses src =
     (case ds_users src of Inl e \<Rightarrow> Inl e | Inr users \<Rightarrow>
        let duplicates = findDuplicateValues (map u_walletAddress users)
        in Inr (count_finding ''duplicate-wallet-address'' duplicates (map maskWalletAddress (take SAMPLE_LIMIT duplicates))))"

definition checkDuplicateTransactionHashes :: "AuditSource \<Rightarrow> read_error + ConsistencyFinding list" where
  "checkDuplicateTransactionHashes src =
     (case ds_transactions src of Inl e \<Rightarrow> Inl e | Inr transactions \<Rightarrow>
        let duplicates = findDuplicateValues (map tx_txHash transactions)
        in Inr (count_finding ''duplicate-transaction-hash'' duplicates (take SAMPLE_LIMIT duplicates)))"

text \<open>The entity has no column \<open>externalReference\<close>, so the field the check reads is undefined on every row.\<close>

definition externalReference :: "TransactionRecord \<Rightarrow> string option" where
  "externalReference t = None"

definition checkDuplicateExternalTransactionReferences :: "AuditSource \<Rightarrow> read_error + ConsistencyFinding list" where
  "checkDuplicateExternalTransactionReferences src =
     (case ds_transactions src of Inl e \<Rightarrow> Inl e | Inr transactions \<Rightarrow>
        let extRefs = concat (map (\<lambda>t. case externalReference t of None \<Rightarrow> [] | Some r \<Rightarrow> if r = [] then [] else [r]) transactions);
            duplicates = findDuplicateValues extRefs
        in Inr (count_finding ''duplicate-external-transaction-reference'' duplicates (take SAMPLE_LIMIT duplicates)))"

definition checkDuplicateNotificationEventKeys :: "AuditSource \<Rightarrow> read_error + ConsistencyFinding list" where
  "checkDuplicateNotificationEventKeys src =
     (case ds_notifications src of Inl e \<Rightarrow> Inl e | Inr notifications \<Rightarrow>
        let duplicates = findDuplicateValues (map nt_eventKey notifications)
        in Inr (count_finding ''duplicate-notification-event-key'' duplicates (take SAMPLE_LIMIT duplicates)))"

fun preference_text :: "PreferenceCategory \<Rightarrow> string" where
  "preference_text PC_security = ''security''"
| "preference_text PC_payment = ''payment''"
| "preference_text PC_project_activity = ''project_activity''"
| "preference_text PC_participant_activity = ''participant_activity''"
| "preference_text PC_marketing = ''marketing''"

definition preference_key :: "NotificationPreference \<Rightarrow> string" where
  "preference_key p = np_wallet p @ ''::'' @ preference_text (np_category p)"

text \<open>\<open>key.split("::")\<close>.\<close>

fun split_colons :: "string \<Rightarrow> string list" where
  "split_colons [] = [[]]"
| "split_colons [c] = [[c]]"
| "split_colons (c # d # s) =
     (if c = CHR '':'' \<and> d = CHR '':'' then [] # split_colons s
      else case split_colons (d # s) of [] \<Rightarrow> [[c]] | p # ps \<Rightarrow> (c # p) # ps)"

definition masked_key :: "string \<Rightarrow> string" where
  "masked_key key = (let parts = split_colons key in maskWalletAddress (parts ! 0) @ ''::'' @ parts ! 1)"

definition checkDuplicateNotificationPreferences :: "AuditSource \<Rightarrow> read_error + ConsistencyFinding list" where
  "checkDuplicateNotificationPreferences src =
     (case ds_preferences src of Inl e \<Rightarrow> Inl e | Inr preferences \<Rightarrow>
        let duplicates = findDuplicateValues (map preference_key preferences)
        in Inr (count_finding ''duplicate-notification-preference'' duplicates (map masked_key (take SAMPLE_LIMIT duplicates))))"

definition checkDuplicateSplitCancellationProjects :: "AuditSource \<Rightarrow> read_error + ConsistencyFinding list" where
  "checkDuplicateSplitCancellationProjects src =
     (case ds_cancellations src of Inl e \<Rightarrow> Inl e | Inr cancellations \<Rightarrow>
        let duplicates = findDuplicateValues (map sx_projectId cancellations)
        in Inr (count_finding ''duplicate-split-cancellation-project'' duplicates (take SAMPLE_LIMIT duplicates)))"

definition checkMandatoryPreferencesNotDisabled :: "AuditSource \<Rightarrow> read_error + ConsistencyFinding list" where
  "checkMandatoryPreferencesNotDisabled src =
     (case ds_preferences src of Inl e \<Rightarrow> Inl e | Inr preferences \<Rightarrow>
        let violations = filter (\<lambda>p. isMandatoryCategory (np_category p) \<and> \<not> np_enabled p) preferences;
            ids = map (\<lambda>p. maskWalletAddress (np_wallet p) @ ''::'' @ preference_text (np_category p)) violations
        in Inr (count_finding ''mandatory-notification-preference-disabled'' ids (take SAMPLE_LIMIT ids)))"

definition audit_checks :: "(string \<times> (AuditSource \<Rightarrow> read_error + ConsistencyFinding list)) list" where
  "audit_checks =
     [(''transaction-ledger-reconciliation'', runOrphanedTransactionsCheck),
      (''duplicate-wallet-address'', checkDuplicateWalletAddresses),
      (''duplicate-transaction-hash'', checkDuplicateTransactionHashes),
      (''duplicate-external-transaction-reference'', checkDuplicateExternalTransactionReferences),
      (''duplicate-notification-event-key'', checkDuplicateNotificationEventKeys),
      (''duplicate-notification-preference'', checkDuplicateNotificationPreferences),
      (''duplicate-split-cancellation-project'', checkDuplicateSplitCancellationProjects),
      (''mandatory-notification-preference-disabled'', checkMandatoryPreferencesNotDisabled)]"

definition runDatabaseConsistencyAudit :: "instant \<Rightarrow> AuditSource \<Rightarrow> read_error + ConsistencyAuditReport" where
  "runDatabaseConsistencyAudit now src =
     (case map_result (\<lambda>(checkId, run). run src) audit_checks of
        Inl e \<Rightarrow> Inl e
      | Inr results \<Rightarrow>
        let findings = concat results
        in Inr \<lparr>au_generatedAt = now, au_checksRun = map fst audit_checks, au_findings = findings,
             au_ok = (\<not> list_ex (\<lambda>f. rf_severity f = Critical) findings)\<rparr>)"

definition audit_cli :: "instant \<Rightarrow> bool \<Rightarrow> AuditSource \<Rightarrow> int" where
  "audit_cli now db_ok src =
     (if \<not> db_ok then 1
      else case runDatabaseConsistencyAudit now src of Inl _ \<Rightarrow> 1 | Inr report \<Rightarrow> if au_ok report then 0 else 1)"

section \<open>Lemmas\<close>

lemma duplicate_fold:
  assumes "foldl duplicate_step ([], []) vs = (seen, dups)"
  shows "set seen = set vs \<and> distinct dups \<and> (\<forall>v. v \<in> set dups \<longleftrightarrow> 2 \<le> count_list vs v)"
  using assms
proof (induction vs arbitrary: seen dups rule: rev_induct)
  case (snoc x vs)
  obtain seen0 dups0 where st: "foldl duplicate_step ([], []) vs = (seen0, dups0)" by fastforce
  note IH = snoc.IH [OF st]
  have step: "duplicate_step (seen0, dups0) x = (seen, dups)" using snoc.prems st by simp
  have c: "count_list vs v = 0 \<longleftrightarrow> v \<notin> set vs" for v by (simp add: count_list_0_iff)
  show ?case
  proof (cases "x \<in> set vs")
    case True
    with IH have "seen = seen0" "dups = set_add dups0 x"
      using step by (simp_all add: duplicate_step_def)
    moreover have "1 \<le> count_list vs x" using True c [of x] by linarith
    ultimately show ?thesis using IH True by (auto simp: set_add_def)
  next
    case False
    with IH have "seen = set_add seen0 x" "dups = dups0"
      using step by (simp_all add: duplicate_step_def)
    moreover have "count_list vs x = 0" using False c by simp
    ultimately show ?thesis using IH False by (auto simp: set_add_def)
  qed
qed auto

lemma findDuplicateValues_set: "set (findDuplicateValues vs) = {v. 2 \<le> count_list vs v}"
  using duplicate_fold [of vs] by (cases "foldl duplicate_step ([], []) vs") (auto simp: findDuplicateValues_def)

lemma findDuplicateValues_Nil: "findDuplicateValues vs = [] \<longleftrightarrow> distinct vs"
proof -
  have "distinct vs \<longleftrightarrow> (\<forall>v. count_list vs v \<le> 1)"
    by (induction vs) (auto simp: count_list_0_iff le_Suc_eq)
  moreover have "findDuplicateValues vs = [] \<longleftrightarrow> {v. 2 \<le> count_list vs v} = {}"
    by (metis findDuplicateValues_set set_empty)
  ultimately show ?thesis by (auto simp: not_less_eq_eq numeral_2_eq_2)
qed

lemma preference_text_colon: "CHR '':'' \<notin> set (preference_text c)"
  by (cases c) simp_all

lemma preference_text_inj: "preference_text c = preference_text d \<longleftrightarrow> c = d"
  by (cases c; cases d) simp_all

lemma rev_key_split:
  assumes "CHR '':'' \<notin> set a" "CHR '':'' \<notin> set b" "v @ CHR '':'' # a = w @ CHR '':'' # b"
  shows "v = w \<and> a = b"
proof -
  have t: "takeWhile (\<lambda>c. c \<noteq> CHR '':'') (rev (v @ CHR '':'' # a)) = rev a" if "CHR '':'' \<notin> set a" for v a
  proof -
    have "\<forall>c \<in> set (rev a). c \<noteq> CHR '':''" using that by auto
    then show ?thesis using takeWhile_append2 [of "rev a" "\<lambda>c. c \<noteq> CHR '':''" "CHR '':'' # rev v"] by auto
  qed
  from t [OF assms(1), of v] t [OF assms(2), of w] assms(3) have "rev a = rev b" by simp
  with assms(3) show ?thesis by simp
qed

lemma preference_key_eq: "preference_key p = preference_key q \<longleftrightarrow> np_wallet p = np_wallet q \<and> np_category p = np_category q"
proof
  assume "preference_key p = preference_key q"
  then have "(np_wallet p @ '':'') @ CHR '':'' # preference_text (np_category p)
      = (np_wallet q @ '':'') @ CHR '':'' # preference_text (np_category q)" by (simp add: preference_key_def)
  from rev_key_split [OF preference_text_colon preference_text_colon this]
  show "np_wallet p = np_wallet q \<and> np_category p = np_category q" by (simp add: preference_text_inj)
qed (simp add: preference_key_def)

definition preferences_once :: "NotificationPreference list \<Rightarrow> bool" where
  "preferences_once rows = distinct (map (\<lambda>p. (np_wallet p, np_category p)) rows)"

lemma preference_keys_distinct: "distinct (map preference_key rows) \<longleftrightarrow> preferences_once rows"
  by (auto simp: preferences_once_def distinct_map inj_on_def preference_key_eq)

definition none_silenced :: "NotificationPreference list \<Rightarrow> bool" where
  "none_silenced rows = list_all (\<lambda>p. isMandatoryCategory (np_category p) \<longrightarrow> np_enabled p) rows"

lemma count_finding_critical [simp]:
  "list_ex (\<lambda>f. rf_severity f = Critical) (count_finding i vs sample) \<longleftrightarrow> vs \<noteq> []"
  by (simp add: count_finding_def finding_def)

lemma orphan_check_eq:
  "case runOrphanedTransactionsCheck src of
     Inl _ \<Rightarrow> \<not> orphan_free (DataSource.truncate src)
   | Inr fs \<Rightarrow> list_ex (\<lambda>f. rf_severity f = Critical) fs \<longleftrightarrow> \<not> orphan_free (DataSource.truncate src)"
  by (cases "checkOrphanedTransactions (DataSource.truncate src)")
    (auto simp: runOrphanedTransactionsCheck_def check_orphan_free finding_def Let_def)

text \<open>The audit reads every table, and what it calls consistent.\<close>

definition audit_consistent :: "AuditSource \<Rightarrow> bool" where
  "audit_consistent src \<longleftrightarrow> orphan_free (DataSource.truncate src)
     \<and> (case ds_users src of Inl _ \<Rightarrow> False | Inr us \<Rightarrow> distinct (map u_walletAddress us))
     \<and> (case ds_transactions src of Inl _ \<Rightarrow> False | Inr ts \<Rightarrow> distinct (map tx_txHash ts))
     \<and> (case ds_notifications src of Inl _ \<Rightarrow> False | Inr ns \<Rightarrow> distinct (map nt_eventKey ns))
     \<and> (case ds_preferences src of Inl _ \<Rightarrow> False | Inr ps \<Rightarrow> preferences_once ps \<and> none_silenced ps)
     \<and> (case ds_cancellations src of Inl _ \<Rightarrow> False | Inr cs \<Rightarrow> distinct (map sx_projectId cs))"

abbreviation quiet :: "read_error + ConsistencyFinding list \<Rightarrow> bool" where
  "quiet r \<equiv> (case r of Inl _ \<Rightarrow> False | Inr fs \<Rightarrow> \<not> list_ex (\<lambda>f. rf_severity f = Critical) fs)"

lemma concat_no_values [simp]: "concat (map (\<lambda>_. []) xs) = []"
  by (induction xs) simp_all

lemma checks_quiet:
  "quiet (runOrphanedTransactionsCheck src) \<longleftrightarrow> orphan_free (DataSource.truncate src)"
  "quiet (checkDuplicateWalletAddresses src) \<longleftrightarrow>
     (case ds_users src of Inl _ \<Rightarrow> False | Inr us \<Rightarrow> distinct (map u_walletAddress us))"
  "quiet (checkDuplicateTransactionHashes src) \<longleftrightarrow>
     (case ds_transactions src of Inl _ \<Rightarrow> False | Inr ts \<Rightarrow> distinct (map tx_txHash ts))"
  "quiet (checkDuplicateExternalTransactionReferences src) \<longleftrightarrow>
     (case ds_transactions src of Inl _ \<Rightarrow> False | Inr ts \<Rightarrow> True)"
  "quiet (checkDuplicateNotificationEventKeys src) \<longleftrightarrow>
     (case ds_notifications src of Inl _ \<Rightarrow> False | Inr ns \<Rightarrow> distinct (map nt_eventKey ns))"
  "quiet (checkDuplicateNotificationPreferences src) \<longleftrightarrow>
     (case ds_preferences src of Inl _ \<Rightarrow> False | Inr ps \<Rightarrow> preferences_once ps)"
  "quiet (checkDuplicateSplitCancellationProjects src) \<longleftrightarrow>
     (case ds_cancellations src of Inl _ \<Rightarrow> False | Inr cs \<Rightarrow> distinct (map sx_projectId cs))"
  "quiet (checkMandatoryPreferencesNotDisabled src) \<longleftrightarrow>
     (case ds_preferences src of Inl _ \<Rightarrow> False | Inr ps \<Rightarrow> none_silenced ps)"
  using orphan_check_eq [of src]
  by (auto simp: checkDuplicateWalletAddresses_def checkDuplicateTransactionHashes_def
      checkDuplicateExternalTransactionReferences_def checkDuplicateNotificationEventKeys_def
      checkDuplicateNotificationPreferences_def checkDuplicateSplitCancellationProjects_def
      checkMandatoryPreferencesNotDisabled_def findDuplicateValues_Nil preference_keys_distinct none_silenced_def
      list_all_iff filter_empty_conv externalReference_def Let_def split: sum.splits)

lemma map_result_quiet:
  "(\<exists>rs. map_result (\<lambda>(i, run). run src) cs = Inr rs \<and> \<not> list_ex (\<lambda>f. rf_severity f = Critical) (concat rs))
     \<longleftrightarrow> (\<forall>(i, run) \<in> set cs. quiet (run src))"
proof (induction cs)
  case (Cons c cs)
  obtain i run where c: "c = (i, run)" by (cases c)
  show ?case
  proof (cases "run src")
    case (Inr fs)
    with Cons c show ?thesis by (cases "map_result (\<lambda>(i, run). run src) cs") auto
  qed (simp add: c)
qed simp

text \<open>
  The consistency audit exits 0 exactly when every table answers (the settlement table may be
  missing), payouts and settlements match, and every uniqueness and preference invariant holds;
  every other run exits 1.
\<close>

theorem audit_exit_decided: "audit_cli now db_ok src = (if db_ok \<and> audit_consistent src then 0 else 1)"
proof -
  have "(\<exists>rep. runDatabaseConsistencyAudit now src = Inr rep \<and> au_ok rep) \<longleftrightarrow>
      (\<exists>rs. map_result (\<lambda>(i, run). run src) audit_checks = Inr rs \<and> \<not> list_ex (\<lambda>f. rf_severity f = Critical) (concat rs))"
    by (auto simp: runDatabaseConsistencyAudit_def Let_def split: sum.splits)
  also have "\<dots> \<longleftrightarrow> audit_consistent src"
    unfolding map_result_quiet
    by (auto simp: audit_checks_def checks_quiet audit_consistent_def split: sum.splits)
  finally show ?thesis by (auto simp: audit_cli_def split: sum.splits)
qed

section \<open>The audit against the services\<close>

lemma upsert_once: "preferences_once rows \<Longrightarrow> preferences_once (upsert_preference p rows)"
proof (cases "list_ex (\<lambda>r. np_wallet r = np_wallet p \<and> np_category r = np_category p) rows")
  case True
  have "map (\<lambda>p. (np_wallet p, np_category p)) (upsert_preference p rows) = map (\<lambda>p. (np_wallet p, np_category p)) rows"
    using True by (auto simp: upsert_preference_def)
  then show "preferences_once rows \<Longrightarrow> preferences_once (upsert_preference p rows)" by (simp add: preferences_once_def)
next
  case False
  then show "preferences_once rows \<Longrightarrow> preferences_once (upsert_preference p rows)"
    by (auto simp: upsert_preference_def preferences_once_def list_ex_iff)
qed

lemma upsert_none_silenced:
  "\<lbrakk>none_silenced rows; isMandatoryCategory (np_category p) \<Longrightarrow> np_enabled p\<rbrakk> \<Longrightarrow> none_silenced (upsert_preference p rows)"
  by (auto simp: upsert_preference_def none_silenced_def list_all_iff)

lemma update_preferences_ok:
  assumes "preferences_once rows" "none_silenced rows"
  shows "preferences_once (fst (updatePreferences now rows wallet updates))
    \<and> none_silenced (fst (updatePreferences now rows wallet updates))"
proof -
  let ?put = "\<lambda>(c, enabled). upsert_preference \<lparr>np_wallet = trim wallet, np_category = c, np_enabled = enabled, np_updatedAt = now\<rparr>"
  have "preferences_once (fold ?put us rows) \<and> none_silenced (fold ?put us rows)"
    if "\<forall>(c, enabled) \<in> set us. \<not> (\<not> enabled \<and> isMandatoryCategory c)" for us
    using assms that
  proof (induction us arbitrary: rows)
    case (Cons u us)
    obtain c b where u: "u = (c, b)" by (cases u)
    let ?p = "\<lparr>np_wallet = trim wallet, np_category = c, np_enabled = b, np_updatedAt = now\<rparr>"
    have "preferences_once (upsert_preference ?p rows)" "none_silenced (upsert_preference ?p rows)"
      using Cons.prems u by (auto intro: upsert_once upsert_none_silenced)
    with Cons.IH Cons.prems(3) u show ?case by simp
  qed simp
  then show ?thesis
    using assms by (auto simp: updatePreferences_def Let_def find_None_all split: option.splits)
qed

lemma run_op_preferences:
  assumes "preferences_once (nd_preferences db)" "none_silenced (nd_preferences db)"
  shows "preferences_once (nd_preferences (run_op db oper)) \<and> none_silenced (nd_preferences (run_op db oper))"
proof (cases oper)
  case (Op_preferences now wallet updates)
  then show ?thesis using update_preferences_ok [OF assms] by simp
qed (use assms in \<open>auto simp: deliverNotification_def enqueueNotification_def Let_def split: sum.splits prod.splits option.splits\<close>)

text \<open>
  Whatever the notification services do from an empty database, the preference rows they write
  pass both preference checks of the audit: no (wallet, category) pair twice, no mandatory category
  disabled.
\<close>

theorem service_preferences_pass_audit:
  "let rows = nd_preferences (foldl run_op empty_notif_db ops)
   in checkDuplicateNotificationPreferences (src\<lparr>ds_preferences := Inr rows\<rparr>) = Inr []
    \<and> checkMandatoryPreferencesNotDisabled (src\<lparr>ds_preferences := Inr rows\<rparr>) = Inr []"
proof -
  have "preferences_once (nd_preferences (foldl run_op empty_notif_db ops))
      \<and> none_silenced (nd_preferences (foldl run_op empty_notif_db ops))"
  proof (induction ops rule: rev_induct)
    case Nil
    then show ?case by (simp add: empty_notif_db_def preferences_once_def none_silenced_def)
  next
    case (snoc oper ops)
    then show ?case using run_op_preferences by simp
  qed
  then show ?thesis
    by (simp add: checkDuplicateNotificationPreferences_def checkMandatoryPreferencesNotDisabled_def count_finding_def
        findDuplicateValues_Nil preference_keys_distinct none_silenced_def list_all_iff filter_empty_conv Let_def)
qed

text \<open>
  A notification sent to two recipients of one event is what the service's unique index (recipient,
  eventKey) allows, and the audit reports it as critical.
\<close>

definition fanout_rows :: "Notification list" where
  "fanout_rows = fst (createNotification True ''2'' 0 (fst (createNotification True ''1'' 0 [] sample_input))
     (sample_input\<lparr>ci_recipient := ''GB''\<rparr>))"

lemma fanout_flagged:
  "events_once fanout_rows" "length fanout_rows = 2"
  "checkDuplicateNotificationEventKeys (src\<lparr>ds_notifications := Inr fanout_rows\<rparr>)
     = Inr [finding ''duplicate-notification-event-key'' Critical (Some 1) (Some [''k''])]"
proof -
  show "events_once fanout_rows" "length fanout_rows = 2" by code_simp+
  have "findDuplicateValues (map nt_eventKey fanout_rows) = [''k'']" by code_simp
  then show "checkDuplicateNotificationEventKeys (src\<lparr>ds_notifications := Inr fanout_rows\<rparr>)
     = Inr [finding ''duplicate-notification-event-key'' Critical (Some 1) (Some [''k''])]"
    by (simp add: checkDuplicateNotificationEventKeys_def count_finding_def SAMPLE_LIMIT_def Let_def)
qed

text \<open>The check of external references can never report anything.\<close>

lemma external_check_vacuous: "checkDuplicateExternalTransactionReferences src \<in> {Inr []} \<union> range Inl"
  by (auto simp: checkDuplicateExternalTransactionReferences_def externalReference_def count_finding_def
      findDuplicateValues_Nil Let_def split: sum.splits)

end
