(* ===== verification/Client_Amounts.thy ===== *)
theory Client_Amounts
  imports Complex_Main Decimal_Amounts
begin

text \<open>
  Amounts in the browser (\<open>frontend/src/lib/amounts.ts\<close>): reading what the user types into stroops,
  printing stroops, and the preview of a distribution with the contract's rules. The module is meant
  to mirror \<open>backend/src/lib/decimal-amounts.ts\<close> (theory \<open>Decimal_Amounts\<close>); that it reads and prints
  the backend's amounts alike is proved here.
\<close>

section \<open>Model\<close>

definition TOKEN_DECIMALS :: nat where
  "TOKEN_DECIMALS = 7"

definition STROOPS_PER_TOKEN :: int where
  "STROOPS_PER_TOKEN = 10 ^ TOKEN_DECIMALS"

definition BASIS_POINTS_TOTAL :: int where
  "BASIS_POINTS_TOTAL = 10000"

definition MAX_SAFE_INTEGER :: int where
  "MAX_SAFE_INTEGER = 2 ^ 53 - 1"

datatype AmountParseError = Enter_amount | Plain_decimal | Too_many_decimals | Too_large

text \<open>The two groups of \<open>DECIMAL_PATTERN\<close>, when it matches; a missing fraction is empty.\<close>

definition DECIMAL_PATTERN :: "string \<Rightarrow> (string \<times> string) option" where
  "DECIMAL_PATTERN v =
     (let whole = takeWhile is_digit v; rest = dropWhile is_digit v
      in if whole \<noteq> [] \<and> (rest = [] \<or> (hd rest = CHR ''.'' \<and> list_all is_digit (tl rest)))
         then Some (whole, drop 1 rest) else None)"

definition parseTokenAmount :: "string \<Rightarrow> AmountParseError + int" where
  "parseTokenAmount raw =
     (let v = trim raw
      in if v = [] then Inl Enter_amount
         else case DECIMAL_PATTERN v of
             None \<Rightarrow> Inl Plain_decimal
           | Some (whole, fraction) \<Rightarrow>
             if length fraction > TOKEN_DECIMALS then Inl Too_many_decimals
             else Inr (int (text_nat whole) * STROOPS_PER_TOKEN
                    + int (text_nat (pad_end TOKEN_DECIMALS CHR ''0'' fraction))))"

definition stroopsToSafeNumber :: "int \<Rightarrow> AmountParseError + int" where
  "stroopsToSafeNumber stroops = (if stroops > MAX_SAFE_INTEGER then Inl Too_large else Inr stroops)"

text \<open>An API value; a number is \<open>None\<close> when it is NaN or infinite.\<close>

datatype api_amount = V_bigint int | V_number "rat option" | V_string string | V_null

definition integer_text :: "string \<Rightarrow> bool" where
  "integer_text t = (let d = (if starts_with t ''-'' then drop 1 t else t) in d \<noteq> [] \<and> list_all is_digit d)"

definition isSafeInteger :: "rat option \<Rightarrow> bool" where
  "isSafeInteger r = (case r of None \<Rightarrow> False | Some x \<Rightarrow> of_int \<lfloor>x\<rfloor> = x \<and> \<bar>\<lfloor>x\<rfloor>\<bar> \<le> MAX_SAFE_INTEGER)"

definition toBigIntAmount :: "api_amount \<Rightarrow> int" where
  "toBigIntAmount v =
     (case v of
        V_bigint n \<Rightarrow> n
      | V_number r \<Rightarrow> if isSafeInteger r then (case r of Some x \<Rightarrow> \<lfloor>x\<rfloor> | None \<Rightarrow> 0) else 0
      | V_string s \<Rightarrow> if integer_text (trim s) then default_to 0 (bigint_text (trim s)) else 0
      | V_null \<Rightarrow> 0)"

text \<open>A comma before every group of three digits that ends the text.\<close>

fun group_digits :: "string \<Rightarrow> string" where
  "group_digits [] = []"
| "group_digits (c # s) = (if s \<noteq> [] \<and> length s mod 3 = 0 then c # CHR '','' # group_digits s else c # group_digits s)"

definition formatStroops :: "api_amount \<Rightarrow> int \<Rightarrow> string" where
  "formatStroops v maxDecimals =
     (let stroops = toBigIntAmount v;
          negative = stroops < 0;
          a = (if negative then - stroops else stroops);
          whole = a div STROOPS_PER_TOKEN;
          fraction = strip_end CHR ''0'' (take (nat (max 0 (min maxDecimals (int TOKEN_DECIMALS))))
             (pad_start TOKEN_DECIMALS CHR ''0'' (nat_text (nat (a mod STROOPS_PER_TOKEN)))));
          grouped = group_digits (nat_text (nat whole))
      in (if negative then ''-'' else '''') @ grouped @ (if fraction \<noteq> [] then ''.'' @ fraction else ''''))"

record preview_collaborator =
  pc_address :: string
  pc_alias :: string
  pc_basisPoints :: int

record DistributionShare = preview_collaborator +
  ps_amount :: int

text \<open>Division of \<open>bigint\<close>s truncates toward zero.\<close>

definition bigint_div :: "int \<Rightarrow> int \<Rightarrow> int" where
  "bigint_div a b = sgn a * sgn b * (\<bar>a\<bar> div \<bar>b\<bar>)"

definition share_of :: "preview_collaborator \<Rightarrow> int \<Rightarrow> DistributionShare" where
  "share_of c amount = \<lparr>pc_address = pc_address c, pc_alias = pc_alias c, pc_basisPoints = pc_basisPoints c,
     ps_amount = amount\<rparr>"

fun preview_from :: "int \<Rightarrow> int \<Rightarrow> preview_collaborator list \<Rightarrow> DistributionShare list" where
  "preview_from balance sent [] = []"
| "preview_from balance sent (c # cs) =
     (let amount = (if cs = [] then balance - sent
          else bigint_div (balance * pc_basisPoints c) BASIS_POINTS_TOTAL)
      in share_of c amount # preview_from balance (sent + amount) cs)"

definition previewDistribution :: "int \<Rightarrow> preview_collaborator list \<Rightarrow> DistributionShare list option" where
  "previewDistribution balance cs =
     (if length cs = 0 \<or> balance \<le> 0 then None
      else if balance < int (length cs) then None
      else Some (preview_from balance 0 cs))"

section \<open>Reading and printing\<close>

lemma scale_units: "STROOPS_PER_TOKEN = AMOUNT_SCALE"
  by (simp add: STROOPS_PER_TOKEN_def TOKEN_DECIMALS_def)

lemma digit_not_space: "is_digit c \<Longrightarrow> \<not> is_js_space c"
  by (auto simp: is_digit_def is_js_space_def Let_def)

lemma trim_no_space:
  assumes "list_all (\<lambda>c. \<not> is_js_space c) s"
  shows "trim s = s"
proof -
  have drop: "list_all (\<lambda>c. \<not> is_js_space c) t \<Longrightarrow> dropWhile is_js_space t = t" for t by (cases t) auto
  from assms have "list_all (\<lambda>c. \<not> is_js_space c) (rev s)" by simp
  with assms show ?thesis by (simp add: trim_def trim_start_def drop)
qed

lemma pattern_digits:
  assumes "list_all is_digit w" "w \<noteq> []"
  shows "DECIMAL_PATTERN w = Some (w, [])"
    and "list_all is_digit f \<Longrightarrow> DECIMAL_PATTERN (w @ CHR ''.'' # f) = Some (w, f)"
proof -
  have t: "takeWhile is_digit w = w" "dropWhile is_digit w = []" and all: "\<forall>c \<in> set w. is_digit c"
    using assms(1) by (auto simp: list_all_iff takeWhile_eq_all_conv)
  show "DECIMAL_PATTERN w = Some (w, [])" by (simp add: DECIMAL_PATTERN_def t assms(2))
  show "list_all is_digit f \<Longrightarrow> DECIMAL_PATTERN (w @ CHR ''.'' # f) = Some (w, f)"
    using assms(2) all by (simp add: DECIMAL_PATTERN_def takeWhile_append2 dropWhile_append2)
qed

lemma split_on_join: "join [sep] (split_on sep s) = s"
proof (induction s)
  case (Cons c s)
  show ?case
  proof (cases "split_on sep s")
    case Nil
    then show ?thesis by simp
  next
    case (Cons p ps)
    with \<open>join [sep] (split_on sep s) = s\<close> show ?thesis by (cases ps) auto
  qed
qed simp

lemma amount_pattern_cases:
  assumes "AMOUNT_PATTERN s"
  obtains "list_all is_digit s" "s \<noteq> []"
  | w f where "s = w @ CHR ''.'' # f" "list_all is_digit w" "w \<noteq> []" "list_all is_digit f" "length f \<le> 7"
proof -
  from assms consider w where "split_on CHR ''.'' s = [w]" "whole_ok w"
    | w f where "split_on CHR ''.'' s = [w, f]" "whole_ok w" "fraction_ok f"
    by (auto simp: AMOUNT_PATTERN_def split: list.splits)
  then show thesis
  proof cases
    case 1
    then have "s = w" using split_on_join [of "CHR ''.''" s] by simp
    with 1 that(1) whole_ok_digits show thesis by (auto simp: whole_ok_def)
  next
    case 2
    then have "s = w @ CHR ''.'' # f" using split_on_join [of "CHR ''.''" s] by simp
    with 2 that(2) whole_ok_digits show thesis by (auto simp: whole_ok_def fraction_ok_def)
  qed
qed

lemma parse_backend_amount:
  assumes "toUnits s = Inr u"
  shows "parseTokenAmount s = Inr u"
proof -
  have u: "u = toUnitsUnchecked s" and p: "AMOUNT_PATTERN s" using assms by (auto simp: toUnits_valid isValidAmountString_def split: if_splits)
  have dot: "\<not> is_js_space CHR ''.''" by code_simp
  from p show ?thesis
  proof (cases rule: amount_pattern_cases)
    case 1
    have "trim s = s" using 1(1) by (intro trim_no_space) (auto simp: list_all_iff digit_not_space)
    with 1 u pattern_digits(1) [OF 1] show ?thesis
      by (simp add: parseTokenAmount_def scale_units TOKEN_DECIMALS_def pad_end_def)
  next
    case (2 w f)
    have "trim s = s" unfolding 2(1) using 2 dot by (intro trim_no_space) (auto simp: list_all_iff digit_not_space)
    with 2 u pattern_digits(2) [OF 2(2,3,4)] units_fraction [OF 2(2,4,5)] show ?thesis
      by (simp add: parseTokenAmount_def scale_units TOKEN_DECIMALS_def)
  qed
qed

text \<open>Removing the grouping gives the digits back.\<close>

abbreviation ungrouped :: "string \<Rightarrow> string" where
  "ungrouped \<equiv> filter (\<lambda>c. c \<noteq> CHR '','')"

lemma ungroup: "CHR '','' \<notin> set s \<Longrightarrow> ungrouped (group_digits s) = s"
  by (induction s) auto

lemma digits_ungrouped: "list_all is_digit s \<Longrightarrow> ungrouped s = s \<and> CHR '','' \<notin> set s"
proof -
  have "\<not> is_digit CHR '',''" by code_simp
  then show "list_all is_digit s \<Longrightarrow> ungrouped s = s \<and> CHR '','' \<notin> set s" by (induction s) auto
qed

lemma format_is_fromUnits:
  assumes "0 \<le> u" "u \<le> MAX_AMOUNT_UNITS"
  shows "fromUnits u = Inr (ungrouped (formatStroops (V_bigint u) 7))"
proof -
  let ?w = "nat_text (nat (u div AMOUNT_SCALE))" and ?n = "nat (u mod AMOUNT_SCALE)"
  have n: "?n < 10000000" by simp
  have "take 7 (pad_start 7 CHR ''0'' (nat_text ?n)) = pad_start 7 CHR ''0'' (nat_text ?n)"
    using padded_fraction(1) [OF n] by simp
  then have fmt: "formatStroops (V_bigint u) 7 = group_digits ?w
      @ (if fraction_text ?n \<noteq> [] then CHR ''.'' # fraction_text ?n else [])"
    using assms by (simp add: formatStroops_def toBigIntAmount_def scale_units TOKEN_DECIMALS_def fraction_text_def Let_def)
  have zero: "fraction_text ?n = [] \<longleftrightarrow> u mod AMOUNT_SCALE = 0"
  proof
    assume "fraction_text ?n = []"
    with fraction_text_props(4) [OF n] have "\<not> 0 < ?n" by blast
    moreover have "0 \<le> u mod AMOUNT_SCALE" by simp
    ultimately show "u mod AMOUNT_SCALE = 0" by linarith
  next
    assume z: "u mod AMOUNT_SCALE = 0"
    have "fraction_text 0 = []" by code_simp
    with z show "fraction_text ?n = []" by simp
  qed
  show ?thesis
    using digits_ungrouped [OF nat_text_digits] digits_ungrouped [OF fraction_text_props(1) [OF n]] zero assms
    by (auto simp: fmt fromUnits_def' ungroup)
qed

text \<open>
  (C33) The browser and the backend agree on money: every amount string the backend accepts is read
  by the browser as the same number of stroops, and stroops in the ledger's range are printed by the
  browser, up to the digit grouping, as the backend's canonical amount, which both read back exactly.
\<close>

theorem client_mirrors_backend:
  assumes "toUnits s = Inr u"
  shows "parseTokenAmount s = Inr u
    \<and> fromUnits u = Inr (ungrouped (formatStroops (V_bigint u) 7))
    \<and> parseTokenAmount (ungrouped (formatStroops (V_bigint u) 7)) = Inr u"
proof -
  have r: "0 \<le> u" "u \<le> MAX_AMOUNT_UNITS" using toUnits_range [OF assms] by auto
  from format_is_fromUnits [OF r] have f: "fromUnits u = Inr (ungrouped (formatStroops (V_bigint u) 7))" .
  with fromUnits_units [OF f] parse_backend_amount assms show ?thesis by simp
qed

theorem client_mirrors_backend_witness:
  "parseTokenAmount ''1234.0000500'' = Inr 12340000500
    \<and> formatStroops (V_bigint 12340000500) 7 = ''1,234.00005''
    \<and> fromUnits 12340000500 = Inr ''1234.00005''"
proof -
  have "toUnits ''1234.0000500'' = Inr 12340000500" by code_simp
  moreover have f: "formatStroops (V_bigint 12340000500) 7 = ''1,234.00005''" by code_simp
  ultimately show ?thesis using client_mirrors_backend [of "''1234.0000500''" 12340000500] by simp
qed

section \<open>The preview\<close>

definition floor_share :: "int \<Rightarrow> preview_collaborator \<Rightarrow> int" where
  "floor_share balance c = balance * pc_basisPoints c div BASIS_POINTS_TOTAL"

lemma preview_from_sum: "cs \<noteq> [] \<Longrightarrow> sum_list (map ps_amount (preview_from balance sent cs)) = balance - sent"
  by (induction cs arbitrary: sent) (auto simp: Let_def share_of_def)

lemma preview_from_who: "map preview_collaborator.truncate (preview_from balance sent cs) = map preview_collaborator.truncate cs"
  by (induction cs arbitrary: sent) (auto simp: Let_def share_of_def preview_collaborator.defs)

lemma bigint_div_floor: "0 \<le> a \<Longrightarrow> bigint_div a BASIS_POINTS_TOTAL = a div BASIS_POINTS_TOTAL"
  by (cases "a = 0") (simp_all add: bigint_div_def BASIS_POINTS_TOTAL_def sgn_if)

lemma preview_from_shares:
  assumes "0 \<le> balance" "list_all (\<lambda>c. 0 \<le> pc_basisPoints c) (cs @ [l])"
  shows "map ps_amount (preview_from balance sent (cs @ [l]))
    = map (floor_share balance) cs @ [balance - sent - sum_list (map (floor_share balance) cs)]"
  using assms(2) by (induction cs arbitrary: sent) (auto simp: Let_def share_of_def floor_share_def bigint_div_floor assms(1))

lemma floor_shares_bounds:
  assumes "0 \<le> balance" "list_all (\<lambda>c. 0 \<le> pc_basisPoints c) cs"
  shows "sum_list (map (floor_share balance) cs) * BASIS_POINTS_TOTAL \<le> balance * sum_list (map pc_basisPoints cs)"
    and "balance * sum_list (map pc_basisPoints cs)
      \<le> sum_list (map (floor_share balance) cs) * BASIS_POINTS_TOTAL + int (length cs) * (BASIS_POINTS_TOTAL - 1)"
proof -
  have one: "floor_share balance c * BASIS_POINTS_TOTAL \<le> balance * pc_basisPoints c"
    "balance * pc_basisPoints c \<le> floor_share balance c * BASIS_POINTS_TOTAL + (BASIS_POINTS_TOTAL - 1)" for c
    unfolding floor_share_def BASIS_POINTS_TOTAL_def by presburger+
  show "sum_list (map (floor_share balance) cs) * BASIS_POINTS_TOTAL \<le> balance * sum_list (map pc_basisPoints cs)"
    by (induction cs) (use one(1) in \<open>auto simp: algebra_simps intro: add_mono\<close>)
  show "balance * sum_list (map pc_basisPoints cs)
      \<le> sum_list (map (floor_share balance) cs) * BASIS_POINTS_TOTAL + int (length cs) * (BASIS_POINTS_TOTAL - 1)"
  proof (induction cs)
    case (Cons c cs)
    with one(2) [of c] show ?case by (simp add: algebra_simps)
  qed simp
qed

text \<open>
  The preview of a distribution pays out exactly the balance: one share per collaborator in
  their order, every share but the last the floor of its percentage, and when the percentages add
  up to 100% the last share is never below its own percentage and exceeds it by less than one
  stroop per collaborator. It is refused exactly when the contract would refuse.
\<close>

theorem preview_pays_balance:
  assumes "list_all (\<lambda>c. 0 \<le> pc_basisPoints c) (cs @ [l])" "sum_list (map pc_basisPoints (cs @ [l])) = BASIS_POINTS_TOTAL"
  shows "case previewDistribution balance (cs @ [l]) of
      None \<Rightarrow> balance \<le> int (length cs)
    | Some shares \<Rightarrow> int (length cs) < balance
        \<and> sum_list (map ps_amount shares) = balance
        \<and> map preview_collaborator.truncate shares = cs @ [l]
        \<and> map ps_amount (butlast shares) = map (floor_share balance) cs
        \<and> floor_share balance l \<le> ps_amount (last shares)
        \<and> ps_amount (last shares) \<le> floor_share balance l + int (length cs)"
proof (cases "balance \<le> int (length cs)")
  case True
  then show ?thesis by (simp add: previewDistribution_def)
next
  case False
  let ?s = "preview_from balance 0 (cs @ [l])" and ?f = "sum_list (map (floor_share balance) cs)"
  have pos: "0 \<le> balance" using False by linarith
  have preview: "previewDistribution balance (cs @ [l]) = Some ?s" using False by (simp add: previewDistribution_def)
  note shares = preview_from_shares [OF pos assms(1), of 0]
  have amounts: "map ps_amount (butlast ?s) = map (floor_share balance) cs" "ps_amount (last ?s) = balance - ?f"
  proof -
    have ne: "?s \<noteq> []" by (cases cs) (auto simp: Let_def)
    show "map ps_amount (butlast ?s) = map (floor_share balance) cs" using shares by (simp add: map_butlast)
    show "ps_amount (last ?s) = balance - ?f" using shares ne last_map [OF ne, of ps_amount] by simp
  qed
  have bps: "sum_list (map pc_basisPoints cs) = 10000 - pc_basisPoints l" using assms(2) by (simp add: BASIS_POINTS_TOTAL_def)
  have l: "floor_share balance l * 10000 \<le> balance * pc_basisPoints l" "balance * pc_basisPoints l < floor_share balance l * 10000 + 10000"
    unfolding floor_share_def BASIS_POINTS_TOTAL_def by presburger+
  have cs: "list_all (\<lambda>c. 0 \<le> pc_basisPoints c) cs" using assms(1) by simp
  note f = floor_shares_bounds [OF pos cs, unfolded bps BASIS_POINTS_TOTAL_def right_diff_distrib]
  have "floor_share balance l \<le> balance - ?f" using f(1) l(1) by linarith
  moreover have "balance - ?f \<le> floor_share balance l + int (length cs)" using f(2) l(2) by linarith
  moreover have "map preview_collaborator.truncate ?s = cs @ [l]"
    unfolding preview_from_who by (rule map_idI) (simp add: preview_collaborator.defs)
  ultimately show ?thesis using False preview amounts preview_from_sum [of "cs @ [l]" balance 0] by simp
qed

theorem preview_pays_balance_witness:
  "let cs = [\<lparr>pc_address = ''GA'', pc_alias = ''a'', pc_basisPoints = 3333\<rparr>, \<lparr>pc_address = ''GB'', pc_alias = ''b'', pc_basisPoints = 3333\<rparr>];
       l = \<lparr>pc_address = ''GC'', pc_alias = ''c'', pc_basisPoints = 3334\<rparr>
   in map_option (map ps_amount) (previewDistribution 100 (cs @ [l])) = Some [33, 33, 34]
     \<and> floor_share 100 l = 33"
proof -
  let ?cs = "[\<lparr>pc_address = ''GA'', pc_alias = ''a'', pc_basisPoints = 3333\<rparr>, \<lparr>pc_address = ''GB'', pc_alias = ''b'', pc_basisPoints = 3333\<rparr>]"
  let ?l = "\<lparr>pc_address = ''GC'', pc_alias = ''c'', pc_basisPoints = 3334\<rparr>"
  have h: "list_all (\<lambda>c. 0 \<le> pc_basisPoints c) (?cs @ [?l])" "sum_list (map pc_basisPoints (?cs @ [?l])) = BASIS_POINTS_TOTAL"
    by (simp_all add: BASIS_POINTS_TOTAL_def)
  have "map_option (map ps_amount) (previewDistribution 100 (?cs @ [?l])) = Some [33, 33, 34]" by code_simp
  moreover have "floor_share 100 ?l = 33" by (simp add: floor_share_def BASIS_POINTS_TOTAL_def)
  ultimately show ?thesis using preview_pays_balance [OF h, of 100] by (simp only: Let_def)
qed

end
