(* ===== verification/Payment_Client.thy ===== *)
theory Payment_Client
  imports Js_Text Js_Map
begin

text \<open>
  Payment actions in the browser: submitting a signed transaction and following it
  (\<open>frontend/src/lib/soroban-transaction.ts\<close>, \<open>lib/stellar-rpc-validation.ts\<close>), the guard against
  double submission (\<open>lib/submission-guard.ts\<close>, \<open>hooks/useSubmissionGuard.ts\<close> and the handlers of
  \<open>components/split-app-legacy.tsx\<close> that use it), and the automatic retries of API requests
  (\<open>lib/retry.ts\<close>, \<open>lib/retry-policy.ts\<close>, \<open>lib/api-client.ts\<close>).

  What the RPC node, the backend and the wallet answer is an argument. The guard is a state machine
  whose events are the start and the end of an action and the check of an unconfirmed one; the rendered
  copies of the guard's two references are identified with them.
\<close>

section \<open>Answers of the RPC node\<close>

text \<open>A field of an untrusted object: absent, of another type, or a string.\<close>

datatype field = F_absent | F_other | F_string string

record SendTransactionResponse =
  sr_status :: field
  sr_hash :: field

datatype GetTransactionResponse = GetTransactionResponse (gr_status: field)

text \<open>What can be thrown: the classes the code tests, any other \<open>Error\<close> by its name, and other values.\<close>

datatype thrown = RpcResponseValidationError | ApiError_status int | Error_named string | Not_an_error

fun error_name :: "thrown \<Rightarrow> string option" where
  "error_name RpcResponseValidationError = Some ''RpcResponseValidationError''"
| "error_name (ApiError_status _) = Some ''ApiError''"
| "error_name (Error_named n) = Some n"
| "error_name Not_an_error = None"

definition txHashSchema :: "field \<Rightarrow> bool" where
  "txHashSchema f = (case f of F_string h \<Rightarrow> length h = 64 \<and> list_all (\<lambda>c. hex_val c \<noteq> None) h | _ \<Rightarrow> False)"

definition SEND_TRANSACTION_STATUSES :: "string list" where
  "SEND_TRANSACTION_STATUSES = [''PENDING'', ''DUPLICATE'', ''TRY_AGAIN_LATER'', ''ERROR'']"

definition GET_TRANSACTION_STATUSES :: "string list" where
  "GET_TRANSACTION_STATUSES = [''SUCCESS'', ''FAILED'', ''NOT_FOUND'']"

definition acceptedSendStatuses :: "string list" where
  "acceptedSendStatuses = [''PENDING'', ''DUPLICATE'']"

definition parseSendTransactionResponse :: "SendTransactionResponse \<Rightarrow> thrown + (string \<times> string option)" where
  "parseSendTransactionResponse r =
     (case sr_status r of
        F_string st \<Rightarrow>
          if st \<notin> set SEND_TRANSACTION_STATUSES \<or> sr_hash r = F_other
             \<or> (st \<in> set acceptedSendStatuses \<and> \<not> txHashSchema (sr_hash r))
          then Inl RpcResponseValidationError
          else Inr (st, case sr_hash r of F_string h \<Rightarrow> Some h | _ \<Rightarrow> None)
      | _ \<Rightarrow> Inl RpcResponseValidationError)"

definition parseGetTransactionResponse :: "GetTransactionResponse \<Rightarrow> thrown + string" where
  "parseGetTransactionResponse r =
     (case gr_status r of
        F_string st \<Rightarrow> if st \<in> set GET_TRANSACTION_STATUSES then Inr st else Inl RpcResponseValidationError
      | _ \<Rightarrow> Inl RpcResponseValidationError)"

section \<open>Submitting a transaction\<close>

definition unconfirmedSubmissionError :: thrown where
  "unconfirmedSubmissionError = Error_named ''TimeoutError''"

definition assertSubmissionAccepted :: "string \<Rightarrow> thrown + unit" where
  "assertSubmissionAccepted st = (if st = ''ERROR'' \<or> st = ''TRY_AGAIN_LATER'' then Inl (Error_named ''Error'') else Inr ())"

text \<open>\<open>await server.sendTransaction(...)\<close> followed by the check of the answer.\<close>

definition checked_send :: "thrown + SendTransactionResponse \<Rightarrow> thrown + (string \<times> string option)" where
  "checked_send send = (case send of Inl e \<Rightarrow> Inl e | Inr r \<Rightarrow> parseSendTransactionResponse r)"

definition checked_get :: "thrown + GetTransactionResponse \<Rightarrow> thrown + string" where
  "checked_get reply = (case reply of Inl e \<Rightarrow> Inl e | Inr r \<Rightarrow> parseGetTransactionResponse r)"

definition sendSorobanTransaction :: "thrown + SendTransactionResponse \<Rightarrow> thrown + string" where
  "sendSorobanTransaction send =
     (case checked_send send of
        Inl e \<Rightarrow> Inl e
      | Inr (st, h) \<Rightarrow> (case assertSubmissionAccepted st of Inl e \<Rightarrow> Inl e | Inr _ \<Rightarrow> Inr (default_to [] h)))"

text \<open>
  The result is the hash passed to \<open>afterSubmitted\<close>, if it was called, and what the call returns or
  throws. \<open>localHash\<close> is the hash computed from the signed transaction.
\<close>

definition submitSorobanTransactionAndPoll ::
  "string option \<Rightarrow> thrown + SendTransactionResponse \<Rightarrow> thrown + GetTransactionResponse
     \<Rightarrow> string option \<times> (thrown + string)" where
  "submitSorobanTransactionAndPoll localHash send poll =
     (case checked_send send of
        Inl e \<Rightarrow>
          if e \<noteq> RpcResponseValidationError then (None, Inl e)
          else (case localHash of
              None \<Rightarrow> (None, Inl e)
            | Some h \<Rightarrow> if h = [] then (None, Inl e) else (Some h, Inl unconfirmedSubmissionError))
      | Inr (st, h) \<Rightarrow>
        (case assertSubmissionAccepted st of
           Inl e \<Rightarrow> (None, Inl e)
         | Inr _ \<Rightarrow>
           let hash = default_to [] h
           in (Some hash,
               case checked_get poll of
                 Inl e \<Rightarrow> if e \<noteq> RpcResponseValidationError then Inl e else Inl unconfirmedSubmissionError
               | Inr s \<Rightarrow>
                 if s = ''NOT_FOUND'' then Inl (Error_named ''TimeoutError'')
                 else if s = ''FAILED'' then Inl (Error_named ''Error'')
                 else if s = ''SUCCESS'' then Inr hash
                 else Inl unconfirmedSubmissionError)))"

section \<open>The submission guard\<close>

definition TX_VALIDITY_WINDOW_MS :: int where
  "TX_VALIDITY_WINDOW_MS = 300000"

definition TX_EXPIRY_MARGIN_MS :: int where
  "TX_EXPIRY_MARGIN_MS = 60000"

record UnconfirmedSubmission =
  us_hash :: string
  us_submittedAt :: instant

definition isUnconfirmedSubmission :: "thrown \<Rightarrow> bool" where
  "isUnconfirmedSubmission e = (error_name e = Some ''TimeoutError'')"

datatype UnconfirmedResolution = Succeeded | Failed | Expired | Pending

definition resolveUnconfirmedSubmission ::
  "thrown + GetTransactionResponse \<Rightarrow> UnconfirmedSubmission \<Rightarrow> instant \<Rightarrow> UnconfirmedResolution" where
  "resolveUnconfirmedSubmission reply submission now =
     (case checked_get reply of
        Inl _ \<Rightarrow> Pending
      | Inr st \<Rightarrow>
        if st = ''SUCCESS'' then Succeeded
        else if st = ''FAILED'' then Failed
        else if now - us_submittedAt submission \<ge> TX_VALIDITY_WINDOW_MS + TX_EXPIRY_MARGIN_MS then Expired
        else Pending)"

record submission_guard =
  sg_inFlight :: "string list"
  sg_unconfirmed :: "(string, UnconfirmedSubmission) jmap"

text \<open>\<open>run\<close>, up to the start of the task (\<open>None\<close>: refused) and in its \<open>finally\<close>.\<close>

definition run_begin :: "submission_guard \<Rightarrow> string \<Rightarrow> submission_guard option" where
  "run_begin g action =
     (if action \<in> set (sg_inFlight g) \<or> jm_has (sg_unconfirmed g) action then None
      else Some (g\<lparr>sg_inFlight := sg_inFlight g @ [action]\<rparr>))"

definition run_finally :: "submission_guard \<Rightarrow> string \<Rightarrow> submission_guard" where
  "run_finally g action = g\<lparr>sg_inFlight := filter (\<lambda>a. a \<noteq> action) (sg_inFlight g)\<rparr>"

definition markUnconfirmed :: "submission_guard \<Rightarrow> string \<Rightarrow> UnconfirmedSubmission \<Rightarrow> submission_guard" where
  "markUnconfirmed g action submission = g\<lparr>sg_unconfirmed := jm_set (sg_unconfirmed g) action submission\<rparr>"

definition clearUnconfirmed :: "submission_guard \<Rightarrow> string \<Rightarrow> submission_guard" where
  "clearUnconfirmed g action = g\<lparr>sg_unconfirmed := jm_delete (sg_unconfirmed g) action\<rparr>"

definition isBlocked :: "submission_guard \<Rightarrow> string \<Rightarrow> bool" where
  "isBlocked g action = (action \<in> set (sg_inFlight g) \<or> jm_has (sg_unconfirmed g) action)"

definition hasPendingWork :: "submission_guard \<Rightarrow> bool" where
  "hasPendingWork g = (length (sg_inFlight g) > 0 \<or> length (sg_unconfirmed g) > 0)"

section \<open>The handlers\<close>

definition blockIfUnconfirmed ::
  "submission_guard \<Rightarrow> string \<Rightarrow> thrown \<Rightarrow> UnconfirmedSubmission option \<Rightarrow> submission_guard" where
  "blockIfUnconfirmed g action e submitted =
     (case submitted of
        None \<Rightarrow> g
      | Some s \<Rightarrow> if isUnconfirmedSubmission e then markUnconfirmed g action s else g)"

text \<open>
  The end of an action such as \<open>runDistribute\<close>: \<open>afterSubmitted\<close> recorded the hash at \<open>submittedAt\<close>,
  an error goes through \<open>blockIfUnconfirmed\<close>, and the guard releases the action.
\<close>

definition action_settled ::
  "submission_guard \<Rightarrow> string \<Rightarrow> instant \<Rightarrow> string option \<times> (thrown + string) \<Rightarrow> submission_guard" where
  "action_settled g action submittedAt outcome =
     (let submitted = map_option (\<lambda>h. \<lparr>us_hash = h, us_submittedAt = submittedAt\<rparr>) (fst outcome)
      in case snd outcome of
        Inl e \<Rightarrow> run_finally (blockIfUnconfirmed g action e submitted) action
      | Inr _ \<Rightarrow> run_finally g action)"

definition onCheckUnconfirmed ::
  "submission_guard \<Rightarrow> string \<Rightarrow> thrown + GetTransactionResponse \<Rightarrow> instant \<Rightarrow> submission_guard" where
  "onCheckUnconfirmed g action reply now =
     (case jm_get (sg_unconfirmed g) action of
        None \<Rightarrow> g
      | Some submission \<Rightarrow>
        if resolveUnconfirmedSubmission reply submission now = Pending then g else clearUnconfirmed g action)"

section \<open>Histories against a ledger\<close>

text \<open>
  The ledger decides every transaction: \<open>fate h\<close> is the time at which \<open>h\<close> is applied and whether it
  succeeds, \<open>None\<close> when it never is. A built transaction is valid for 300 seconds, so one submitted at
  \<open>s\<close> is applied by \<open>s + TX_VALIDITY_WINDOW_MS\<close> or never. A node reports an outcome only after the fact;
  it may also fail, answer nonsense, or not know the transaction.
\<close>

type_synonym ledger_fate = "string \<Rightarrow> (instant \<times> bool) option"

definition window_ok :: "ledger_fate \<Rightarrow> string option \<Rightarrow> instant \<Rightarrow> bool" where
  "window_ok fate h submittedAt \<longleftrightarrow>
     (\<forall>x t ok. h = Some x \<and> fate x = Some (t, ok) \<longrightarrow> t \<le> submittedAt + TX_VALIDITY_WINDOW_MS)"

definition honest_reply :: "ledger_fate \<Rightarrow> string \<Rightarrow> instant \<Rightarrow> thrown + GetTransactionResponse \<Rightarrow> bool" where
  "honest_reply fate h now reply \<longleftrightarrow>
     (checked_get reply = Inr ''SUCCESS'' \<longrightarrow> (\<exists>t \<le> now. fate h = Some (t, True))) \<and>
     (checked_get reply = Inr ''FAILED'' \<longrightarrow> (\<exists>t \<le> now. fate h = Some (t, False)))"

record client_world =
  cw_guard :: submission_guard
  cw_clock :: instant
  cw_open :: "(string \<times> UnconfirmedSubmission) list"

definition fresh_client :: client_world where
  "fresh_client = \<lparr>cw_guard = \<lparr>sg_inFlight = [], sg_unconfirmed = []\<rparr>, cw_clock = 0, cw_open = []\<rparr>"

text \<open>
  The transaction a submission leaves without a verdict, as the node's answers tell: the node answered
  the submission without refusing it (it took it, or the answer is malformed and then only the locally
  computed hash is known), and polling was answered, but with neither success nor failure. When the
  network gives no answer at all, this says nothing.
\<close>

definition known_hash :: "string option \<Rightarrow> string option" where
  "known_hash h = (if h = Some [] then None else h)"

definition verdict_missing :: "thrown + GetTransactionResponse \<Rightarrow> bool" where
  "verdict_missing poll = (case poll of
     Inl e \<Rightarrow> e = RpcResponseValidationError
   | Inr r \<Rightarrow> gr_status r \<noteq> F_string ''SUCCESS'' \<and> gr_status r \<noteq> F_string ''FAILED'')"

definition left_open :: "string option \<Rightarrow> thrown + SendTransactionResponse \<Rightarrow> thrown + GetTransactionResponse \<Rightarrow> string option" where
  "left_open localHash send poll =
     (case send of
        Inl e \<Rightarrow> if e = RpcResponseValidationError then known_hash localHash else None
      | Inr r \<Rightarrow>
        if sr_status r \<in> {F_string ''ERROR'', F_string ''TRY_AGAIN_LATER''} \<and> sr_hash r \<noteq> F_other then None
        else if sr_status r \<in> {F_string ''PENDING'', F_string ''DUPLICATE''} \<and> txHashSchema (sr_hash r)
        then (if verdict_missing poll then (case sr_hash r of F_string h \<Rightarrow> Some h | _ \<Rightarrow> None) else None)
        else known_hash localHash)"

definition open_submissions :: "string \<Rightarrow> instant \<Rightarrow> string option \<Rightarrow> (string \<times> UnconfirmedSubmission) list" where
  "open_submissions action submittedAt h =
     (case h of None \<Rightarrow> [] | Some x \<Rightarrow> [(action, \<lparr>us_hash = x, us_submittedAt = submittedAt\<rparr>)])"

inductive client_step :: "ledger_fate \<Rightarrow> client_world \<Rightarrow> client_world \<Rightarrow> bool" for fate where
  start: "\<lbrakk>cw_clock w \<le> now; run_begin (cw_guard w) action = Some g\<rbrakk>
    \<Longrightarrow> client_step fate w (w\<lparr>cw_guard := g, cw_clock := now\<rparr>)"
| not_submitted: "\<lbrakk>cw_clock w \<le> now; action \<in> set (sg_inFlight (cw_guard w))\<rbrakk>
    \<Longrightarrow> client_step fate w (w\<lparr>cw_guard := action_settled (cw_guard w) action now (None, Inl e), cw_clock := now\<rparr>)"
| submitted: "\<lbrakk>cw_clock w \<le> now; action \<in> set (sg_inFlight (cw_guard w)); submittedAt \<le> now;
     outcome = submitSorobanTransactionAndPoll localHash send poll; window_ok fate (left_open localHash send poll) submittedAt\<rbrakk>
    \<Longrightarrow> client_step fate w (w\<lparr>cw_guard := action_settled (cw_guard w) action submittedAt outcome, cw_clock := now,
          cw_open := cw_open w @ open_submissions action submittedAt (left_open localHash send poll)\<rparr>)"
| check: "\<lbrakk>cw_clock w \<le> now; jm_get (sg_unconfirmed (cw_guard w)) action = Some s; honest_reply fate (us_hash s) now reply\<rbrakk>
    \<Longrightarrow> client_step fate w (w\<lparr>cw_guard := onCheckUnconfirmed (cw_guard w) action reply now, cw_clock := now\<rparr>)"

inductive client_reachable :: "ledger_fate \<Rightarrow> client_world \<Rightarrow> bool" for fate where
  init: "client_reachable fate fresh_client"
| step: "\<lbrakk>client_reachable fate w; client_step fate w w'\<rbrakk> \<Longrightarrow> client_reachable fate w'"

inductive_cases client_stepE: "client_step fate w w'"

section \<open>Invariant\<close>

definition decided_by :: "ledger_fate \<Rightarrow> instant \<Rightarrow> UnconfirmedSubmission \<Rightarrow> bool" where
  "decided_by fate now s \<longleftrightarrow> (case fate (us_hash s) of None \<Rightarrow> True | Some (t, _) \<Rightarrow> t \<le> now)"

definition windowed :: "ledger_fate \<Rightarrow> UnconfirmedSubmission \<Rightarrow> bool" where
  "windowed fate s \<longleftrightarrow> (case fate (us_hash s) of None \<Rightarrow> True | Some (t, _) \<Rightarrow> t \<le> us_submittedAt s + TX_VALIDITY_WINDOW_MS)"

definition client_inv :: "ledger_fate \<Rightarrow> client_world \<Rightarrow> bool" where
  "client_inv fate w \<longleftrightarrow>
     distinct (sg_inFlight (cw_guard w)) \<and>
     (\<forall>a \<in> set (sg_inFlight (cw_guard w)). jm_get (sg_unconfirmed (cw_guard w)) a = None) \<and>
     (\<forall>(a, s) \<in> set (cw_open w). windowed fate s \<and>
        (jm_get (sg_unconfirmed (cw_guard w)) a = Some s \<or> decided_by fate (cw_clock w) s))"

lemma decided_mono: "\<lbrakk>decided_by fate now s; now \<le> later\<rbrakk> \<Longrightarrow> decided_by fate later s"
  by (auto simp: decided_by_def split: option.splits)

lemma settled_guard:
  "sg_inFlight (action_settled g a at out) = filter (\<lambda>x. x \<noteq> a) (sg_inFlight g)"
  "b \<noteq> a \<Longrightarrow> jm_get (sg_unconfirmed (action_settled g a at out)) b = jm_get (sg_unconfirmed g) b"
  "out = (Some h, Inl e) \<Longrightarrow> isUnconfirmedSubmission e \<Longrightarrow>
     jm_get (sg_unconfirmed (action_settled g a at out)) a = Some \<lparr>us_hash = h, us_submittedAt = at\<rparr>"
  by (auto simp: action_settled_def run_finally_def blockIfUnconfirmed_def markUnconfirmed_def Let_def
      split: option.splits sum.splits prod.splits)

text \<open>A submission that is left open ends the action with its hash recorded and an error the guard keeps it for.\<close>

lemma left_open_unconfirmed:
  assumes "left_open localHash send poll = Some h"
  shows "\<exists>e. submitSorobanTransactionAndPoll localHash send poll = (Some h, Inl e) \<and> isUnconfirmedSubmission e"
proof (cases "\<exists>r. send = Inr r \<and> sr_status r \<in> {F_string ''PENDING'', F_string ''DUPLICATE''} \<and> txHashSchema (sr_hash r)")
  case True
  then obtain r st where r: "send = Inr r" "sr_status r = F_string st" "st = ''PENDING'' \<or> st = ''DUPLICATE''" "txHashSchema (sr_hash r)" by auto
  then obtain x where x: "sr_hash r = F_string x" by (auto simp: txHashSchema_def split: field.splits)
  have "checked_send send = Inr (st, Some x)"
    using r x by (auto simp: checked_send_def parseSendTransactionResponse_def SEND_TRANSACTION_STATUSES_def)
  moreover have "h = x" "verdict_missing poll" using assms r x by (auto simp: left_open_def split: if_splits)
  ultimately show ?thesis using r(3)
    by (auto simp: submitSorobanTransactionAndPoll_def assertSubmissionAccepted_def verdict_missing_def checked_get_def
        parseGetTransactionResponse_def GET_TRANSACTION_STATUSES_def unconfirmedSubmissionError_def isUnconfirmedSubmission_def
        split: sum.splits field.splits if_splits)
next
  case False
  then have h: "localHash = Some h" "h \<noteq> []" "checked_send send = Inl RpcResponseValidationError"
    using assms
    by (auto simp: left_open_def known_hash_def checked_send_def parseSendTransactionResponse_def SEND_TRANSACTION_STATUSES_def
        acceptedSendStatuses_def split: sum.splits field.splits if_splits)
  then show ?thesis by (simp add: submitSorobanTransactionAndPoll_def unconfirmedSubmissionError_def isUnconfirmedSubmission_def)
qed

lemma resolved_decided:
  assumes "resolveUnconfirmedSubmission reply s now \<noteq> Pending" "honest_reply fate (us_hash s) now reply" "windowed fate s"
  shows "decided_by fate now s"
proof (cases "checked_get reply")
  case (Inr st)
  have margin: "0 \<le> TX_EXPIRY_MARGIN_MS" by (simp add: TX_EXPIRY_MARGIN_MS_def)
  consider "st = ''SUCCESS''" | "st = ''FAILED''"
    | "us_submittedAt s + TX_VALIDITY_WINDOW_MS + TX_EXPIRY_MARGIN_MS \<le> now"
    using assms(1) Inr by (auto simp: resolveUnconfirmedSubmission_def split: if_splits)
  then show ?thesis
  proof cases
    case 3
    with assms(3) margin show ?thesis by (auto simp: windowed_def decided_by_def split: option.splits)
  qed (use assms(2) Inr in \<open>auto simp: honest_reply_def decided_by_def\<close>)
qed (use assms(1) in \<open>simp add: resolveUnconfirmedSubmission_def\<close>)

lemma client_inv_settle:
  assumes inv: "client_inv fate w" and "cw_clock w \<le> now" "a \<in> set (sg_inFlight (cw_guard w))" "window_ok fate h at"
    and open_h: "\<And>x. h = Some x \<Longrightarrow> \<exists>e. out = (Some x, Inl e) \<and> isUnconfirmedSubmission e"
  shows "client_inv fate (w\<lparr>cw_guard := action_settled (cw_guard w) a at out, cw_clock := now,
          cw_open := cw_open w @ open_submissions a at h\<rparr>)"
proof -
  have none: "jm_get (sg_unconfirmed (cw_guard w)) a = None" using inv assms(3) by (auto simp: client_inv_def)
  have old: "\<forall>(b, s) \<in> set (cw_open w). windowed fate s \<and>
      (jm_get (sg_unconfirmed (cw_guard w)) b = Some s \<and> b \<noteq> a \<or> decided_by fate now s)"
    using inv none decided_mono [OF _ assms(2)] by (fastforce simp: client_inv_def)
  have new: "\<forall>(b, s) \<in> set (open_submissions a at h). b = a \<and> windowed fate s
      \<and> jm_get (sg_unconfirmed (action_settled (cw_guard w) a at out)) a = Some s"
    using open_h assms(4) settled_guard(3) by (fastforce simp: open_submissions_def windowed_def window_ok_def split: option.splits)
  show ?thesis using inv old new by (auto simp: client_inv_def settled_guard(1,2))
qed

lemma client_inv_step: "client_inv fate w \<Longrightarrow> client_step fate w w' \<Longrightarrow> client_inv fate w'"
proof -
  assume inv: "client_inv fate w" and st: "client_step fate w w'"
  from st show "client_inv fate w'"
  proof (cases rule: client_step.cases)
    case (start now action g)
    with inv show ?thesis
      by (fastforce simp: client_inv_def run_begin_def jm_has_get split: if_splits dest: decided_mono)
  next
    case (not_submitted now action e)
    from client_inv_settle [OF inv not_submitted(2,3), of None now] not_submitted(1) show ?thesis
      by (simp add: window_ok_def open_submissions_def)
  next
    case (submitted now action submittedAt outcome localHash send poll)
    with client_inv_settle [OF inv] left_open_unconfirmed show ?thesis by simp
  next
    case (check now action s reply)
    show ?thesis
    proof (cases "resolveUnconfirmedSubmission reply s now = Pending")
      case True
      with check inv show ?thesis by (fastforce simp: client_inv_def onCheckUnconfirmed_def dest: decided_mono)
    next
      case False
      have "decided_by fate now s" if "windowed fate s" using resolved_decided [OF False check(4) that] .
      with False check inv show ?thesis
        by (fastforce simp: client_inv_def onCheckUnconfirmed_def clearUnconfirmed_def dest: decided_mono)
    qed
  qed
qed

lemma client_reachable_inv: "client_reachable fate w \<Longrightarrow> client_inv fate w"
proof (induction rule: client_reachable.induct)
  case init
  then show ?case by (simp add: client_inv_def fresh_client_def)
qed (rule client_inv_step)

text \<open>
  (C17) No double payment through a retry while the node answers. Take any history of the client against
  a ledger whose transactions expire with their validity window and whose node reports verdicts only
  after the fact. If an action can be started, then it is not in flight, and every transaction an earlier
  run of it has left open (the node answered the submission without refusing it, and polling was
  answered without a verdict) is decided, so it can no longer be applied afterwards; the action is then
  blocked again. A submission or a poll that gets no answer at all is released instead
  (\<open>lost_answer_releases\<close>).
\<close>

theorem retry_only_after_decision:
  assumes "client_reachable fate w" "run_begin (cw_guard w) action = Some g"
    and "(action, s) \<in> set (cw_open w)" "fate (us_hash s) = Some (t, ok)"
  shows "t \<le> cw_clock w \<and> action \<notin> set (sg_inFlight (cw_guard w)) \<and> isBlocked g action"
proof -
  have "client_inv fate w" by (rule client_reachable_inv [OF assms(1)])
  moreover have "jm_get (sg_unconfirmed (cw_guard w)) action = None" "action \<notin> set (sg_inFlight (cw_guard w))" "isBlocked g action"
    using assms(2) by (auto simp: run_begin_def jm_has_get isBlocked_def split: if_splits)
  ultimately show ?thesis using assms(3,4) by (fastforce simp: client_inv_def decided_by_def)
qed

definition sample_hash :: string where
  "sample_hash = replicate 64 CHR ''a''"

definition sample_fate :: ledger_fate where
  "sample_fate h = (if h = sample_hash then Some (8000, True) else None)"

definition accepted :: SendTransactionResponse where
  "accepted = \<lparr>sr_status = F_string ''PENDING'', sr_hash = F_string sample_hash\<rparr>"

definition sample_outcome :: "string option \<times> (thrown + string)" where
  "sample_outcome = submitSorobanTransactionAndPoll None (Inr accepted) (Inr (GetTransactionResponse (F_string ''NOT_FOUND'')))"

definition sample_submission :: UnconfirmedSubmission where
  "sample_submission = \<lparr>us_hash = sample_hash, us_submittedAt = 10\<rparr>"

lemma sample_outcome_eq: "sample_outcome = (Some sample_hash, Inl (Error_named ''TimeoutError''))"
  by code_simp

lemma sample_open: "left_open None (Inr accepted) (Inr (GetTransactionResponse (F_string ''NOT_FOUND''))) = Some sample_hash"
  by code_simp

lemma sample_client_reachable:
  "client_reachable sample_fate \<lparr>cw_guard = \<lparr>sg_inFlight = [], sg_unconfirmed = []\<rparr>, cw_clock = 9000,
     cw_open = [(''distribute'', sample_submission)]\<rparr>" (is "client_reachable _ ?w3")
proof -
  let ?w1 = "\<lparr>cw_guard = \<lparr>sg_inFlight = [''distribute''], sg_unconfirmed = []\<rparr>, cw_clock = 5, cw_open = []\<rparr>"
  let ?w2 = "\<lparr>cw_guard = \<lparr>sg_inFlight = [], sg_unconfirmed = [(''distribute'', sample_submission)]\<rparr>, cw_clock = 20,
     cw_open = [(''distribute'', sample_submission)]\<rparr>"
  let ?yes = "Inr (GetTransactionResponse (F_string ''SUCCESS'')) :: thrown + GetTransactionResponse"
  have "client_step sample_fate fresh_client ?w1"
    using client_step.start [of fresh_client 5 "''distribute''"] by (simp add: fresh_client_def run_begin_def jm_has_def)
  moreover have "client_step sample_fate ?w1 ?w2"
    using client_step.submitted [of ?w1 20 "''distribute''" 10 sample_outcome None "Inr accepted"
        "Inr (GetTransactionResponse (F_string ''NOT_FOUND''))" sample_fate]
    by (simp add: sample_outcome_def [symmetric] sample_outcome_eq window_ok_def sample_fate_def TX_VALIDITY_WINDOW_MS_def
        action_settled_def blockIfUnconfirmed_def isUnconfirmedSubmission_def markUnconfirmed_def run_finally_def
        sample_open open_submissions_def sample_submission_def)
  moreover have "client_step sample_fate ?w2 ?w3"
    using client_step.check [of ?w2 9000 "''distribute''" sample_submission sample_fate ?yes]
    by (simp add: honest_reply_def sample_fate_def sample_submission_def onCheckUnconfirmed_def clearUnconfirmed_def
        resolveUnconfirmedSubmission_def checked_get_def parseGetTransactionResponse_def GET_TRANSACTION_STATUSES_def
        jm_get_def jm_delete_def)
  ultimately show ?thesis by (blast intro: client_reachable.intros)
qed

theorem retry_only_after_decision_witness:
  "\<exists>w g. client_reachable sample_fate w \<and> run_begin (cw_guard w) ''distribute'' = Some g
    \<and> map fst (cw_open w) = [''distribute''] \<and> 8000 \<le> cw_clock w \<and> isBlocked g ''distribute''"
proof -
  let ?w = "\<lparr>cw_guard = \<lparr>sg_inFlight = [], sg_unconfirmed = []\<rparr>, cw_clock = 9000,
     cw_open = [(''distribute'', sample_submission)]\<rparr>"
  have g: "run_begin (cw_guard ?w) ''distribute'' = Some \<lparr>sg_inFlight = [''distribute''], sg_unconfirmed = []\<rparr>"
    by (simp add: run_begin_def jm_has_def)
  have f: "fate = sample_fate \<Longrightarrow> fate (us_hash sample_submission) = Some (8000, True)" for fate
    by (simp add: sample_fate_def sample_submission_def)
  from retry_only_after_decision [OF sample_client_reachable g _ f [OF refl]] g sample_client_reachable
  show ?thesis by fastforce
qed

text \<open>
  An answer that never arrives is not treated as unconfirmed: when the node accepted the transaction
  and polling it then fails with a network error, the action is released although the transaction
  can still be applied, and so it is when the connection breaks while the transaction is sent.
\<close>

lemma lost_answer_releases:
  assumes "e \<noteq> RpcResponseValidationError" "error_name e \<noteq> Some ''TimeoutError''"
    "jm_get (sg_unconfirmed g) action = None"
  shows "\<not> isBlocked (action_settled g action at (submitSorobanTransactionAndPoll localHash (Inr accepted) (Inl e))) action"
    and "fst (submitSorobanTransactionAndPoll localHash (Inr accepted) (Inl e)) = Some sample_hash"
    and "\<not> isBlocked (action_settled g action at (submitSorobanTransactionAndPoll localHash (Inl e) poll)) action"
proof -
  have "checked_send (Inr accepted) = Inr (''PENDING'', Some sample_hash)" by code_simp
  then have s: "submitSorobanTransactionAndPoll localHash (Inr accepted) (Inl e) = (Some sample_hash, Inl e)"
    using assms(1) by (simp add: submitSorobanTransactionAndPoll_def assertSubmissionAccepted_def checked_get_def)
  have s': "submitSorobanTransactionAndPoll localHash (Inl e) poll = (None, Inl e)"
    using assms(1) by (simp add: submitSorobanTransactionAndPoll_def checked_send_def)
  show "\<not> isBlocked (action_settled g action at (submitSorobanTransactionAndPoll localHash (Inr accepted) (Inl e))) action"
    "fst (submitSorobanTransactionAndPoll localHash (Inr accepted) (Inl e)) = Some sample_hash"
    "\<not> isBlocked (action_settled g action at (submitSorobanTransactionAndPoll localHash (Inl e) poll)) action"
    using assms(2,3)
    by (simp_all add: s s' isBlocked_def action_settled_def run_finally_def blockIfUnconfirmed_def isUnconfirmedSubmission_def jm_has_get)
qed

section \<open>Automatic retries of API requests\<close>

record RetryableInit =
  ri_method :: "string option"
  ri_headers :: "(string \<times> string) list"
  ri_idempotent :: "bool option"

definition SAFE_METHODS :: "string list" where
  "SAFE_METHODS = [''GET'', ''HEAD'', ''OPTIONS'']"

definition hasIdempotencyKey :: "(string \<times> string) list \<Rightarrow> bool" where
  "hasIdempotencyKey headers = list_ex (\<lambda>(name, v). to_lower name = ''idempotency-key'' \<and> v \<noteq> []) headers"

definition isIdempotentRequest :: "RetryableInit \<Rightarrow> bool" where
  "isIdempotentRequest init =
     (case ri_idempotent init of
        Some b \<Rightarrow> b
      | None \<Rightarrow> to_upper (default_to ''GET'' (ri_method init)) \<in> set SAFE_METHODS \<or> hasIdempotencyKey (ri_headers init))"

text \<open>
  A failed attempt: an answer that is not 2xx, an \<open>Error\<close> whose message says "timed out", or any other
  failure.
\<close>

datatype request_error = Http_status int | Timed_out | Network_failure

definition client_shouldRetry :: "request_error \<Rightarrow> bool" where
  "client_shouldRetry e = (case e of Http_status st \<Rightarrow> st = 429 \<or> 500 \<le> st | Timed_out \<Rightarrow> False | Network_failure \<Rightarrow> True)"

record 'v retry_log =
  rl_attempts :: nat
  rl_sleeps :: "int list"
  rl_result :: "request_error option + 'v"

text \<open>
  The loop of \<open>withRetry\<close> from attempt \<open>k\<close> on, where \<open>fn i\<close> is what the i-th call answers. Without a
  single attempt the initial \<open>undefined\<close> is thrown, which is \<open>Inl None\<close>.
\<close>

function withRetry_from ::
  "(nat \<Rightarrow> request_error + 'v) \<Rightarrow> nat \<Rightarrow> int \<Rightarrow> (request_error \<Rightarrow> bool) \<Rightarrow> nat \<Rightarrow> request_error option \<Rightarrow> 'v retry_log" where
  "withRetry_from fn maxAttempts delayMs shouldRetry k lastError =
     (if maxAttempts < k then \<lparr>rl_attempts = k - 1, rl_sleeps = [], rl_result = Inl lastError\<rparr>
      else case fn k of
          Inr v \<Rightarrow> \<lparr>rl_attempts = k, rl_sleeps = [], rl_result = Inr v\<rparr>
        | Inl e \<Rightarrow>
          if \<not> shouldRetry e then \<lparr>rl_attempts = k, rl_sleeps = [], rl_result = Inl (Some e)\<rparr>
          else let r = withRetry_from fn maxAttempts delayMs shouldRetry (k + 1) (Some e)
            in r\<lparr>rl_sleeps := (if k < maxAttempts then [delayMs * int k] else []) @ rl_sleeps r\<rparr>)"
  by pat_completeness auto
termination by (relation "measure (\<lambda>(fn, m, d, p, k, e). Suc m - k)") auto

declare withRetry_from.simps [simp del]

definition withRetry :: "(nat \<Rightarrow> request_error + 'v) \<Rightarrow> nat \<Rightarrow> int \<Rightarrow> (request_error \<Rightarrow> bool) \<Rightarrow> 'v retry_log" where
  "withRetry fn maxAttempts delayMs shouldRetry = withRetry_from fn maxAttempts delayMs shouldRetry 1 None"

definition requestJson :: "RetryableInit \<Rightarrow> (nat \<Rightarrow> request_error + 'v) \<Rightarrow> 'v retry_log" where
  "requestJson init fn =
     (let retryable = isIdempotentRequest init
      in withRetry fn (if retryable then 3 else 1) 500 (\<lambda>e. retryable \<and> client_shouldRetry e))"

lemma retry_from_attempts:
  assumes "1 \<le> k" "k \<le> m"
  shows "k \<le> rl_attempts (withRetry_from fn m d p k l) \<and> rl_attempts (withRetry_from fn m d p k l) \<le> m
    \<and> (\<forall>i. k \<le> i \<and> i < rl_attempts (withRetry_from fn m d p k l) \<longrightarrow> (\<exists>e. fn i = Inl e \<and> p e))
    \<and> (case rl_result (withRetry_from fn m d p k l) of
         Inr v \<Rightarrow> fn (rl_attempts (withRetry_from fn m d p k l)) = Inr v
       | Inl l' \<Rightarrow> (\<exists>e. l' = Some e \<and> fn (rl_attempts (withRetry_from fn m d p k l)) = Inl e
            \<and> (p e \<longrightarrow> rl_attempts (withRetry_from fn m d p k l) = m)))"
  using assms
proof (induction fn m d p k l rule: withRetry_from.induct)
  case (1 fn m d p k l)
  show ?case
  proof (cases "fn k")
    case (Inr v)
    with 1(2,3) show ?thesis by (auto simp: withRetry_from.simps [of fn m d p k l])
  next
    case (Inl e)
    show ?thesis
    proof (cases "p e")
      case False
      with Inl 1(2,3) show ?thesis by (auto simp: withRetry_from.simps [of fn m d p k l])
    next
      case True
      let ?r = "withRetry_from fn m d p (k + 1) (Some e)"
      have eq: "rl_attempts (withRetry_from fn m d p k l) = rl_attempts ?r" "rl_result (withRetry_from fn m d p k l) = rl_result ?r"
        using Inl True 1(3) by (simp_all add: withRetry_from.simps [of fn m d p k l] Let_def)
      show ?thesis
      proof (cases "k < m")
        case True
        note IH = 1(1) [OF _ Inl, simplified, OF \<open>p e\<close> Suc_leI [OF True]]
        have "\<exists>e. fn i = Inl e \<and> p e" if "k \<le> i" "i < rl_attempts ?r" for i
        proof (cases "i = k")
          case False
          with that IH show ?thesis by simp
        qed (use Inl \<open>p e\<close> in simp)
        with IH True show ?thesis unfolding eq by (simp split: sum.splits)
      next
        case False
        with 1(3) have "k = m" by simp
        with \<open>p e\<close> Inl 1(2) show ?thesis unfolding eq by (auto simp: withRetry_from.simps [of fn m d p "Suc m"])
      qed
    qed
  qed
qed

text \<open>
  A request is sent once unless it is known to be idempotent, then at most three times, and again
  only after a failure that may be transient; the last answer is the result.
\<close>

lemma request_sends:
  fixes init :: RetryableInit and fn :: "nat \<Rightarrow> request_error + 'v"
  defines "r \<equiv> requestJson init fn"
  shows "1 \<le> rl_attempts r \<and> rl_attempts r \<le> (if isIdempotentRequest init then 3 else 1)
    \<and> (\<forall>i. 1 \<le> i \<and> i < rl_attempts r \<longrightarrow> (\<exists>e. fn i = Inl e \<and> client_shouldRetry e))
    \<and> (case rl_result r of Inr v \<Rightarrow> fn (rl_attempts r) = Inr v | Inl l \<Rightarrow> fn (rl_attempts r) = Inl (the l))"
  using retry_from_attempts [of 1 "if isIdempotentRequest init then 3 else 1" fn 500
      "\<lambda>e. isIdempotentRequest init \<and> client_shouldRetry e" None]
  unfolding r_def requestJson_def withRetry_def Let_def by (auto split: sum.splits)

end
