(* ===== verification/Project_Records.thy ===== *)
theory Project_Records
  imports Js_Text
begin

text \<open>
  The database-backed records of a project: archival (\<open>backend/src/services/project-archival.service.ts\<close>,
  \<open>entities/ProjectArchival.ts\<close>), the edit history with the persisted deadline
  (\<open>services/project-history.ts\<close>, \<open>services/project-expiration.ts\<close>, \<open>entities/ProjectEditHistory.ts\<close>) and
  the retention of soft-deleted users (\<open>lib/soft-delete.ts\<close>).

  A table is the list of its rows. The rows a query returns are in the order the query asks for;
  which of several rows with the same instant comes first is left to the database, so the ordering
  is a parameter (\<open>asc\<close>, \<open>desc\<close>) with the laws \<open>ascending\<close> and \<open>descending\<close>.
\<close>

definition ascending :: "('r \<Rightarrow> instant) \<Rightarrow> ('r list \<Rightarrow> 'r list) \<Rightarrow> bool" where
  "ascending key asc \<longleftrightarrow> (\<forall>rows. mset (asc rows) = mset rows \<and> sorted (map key (asc rows)))"

definition descending :: "('r \<Rightarrow> instant) \<Rightarrow> ('r list \<Rightarrow> 'r list) \<Rightarrow> bool" where
  "descending key desc \<longleftrightarrow> ascending key (\<lambda>rows. rev (desc rows))"

section \<open>Archival\<close>

record ProjectArchival =
  pa_id :: string
  pa_projectId :: string
  pa_archivedBy :: string
  pa_reason :: "string option"
  pa_archivedAt :: instant
  pa_restoredBy :: "string option"
  pa_restoredAt :: "instant option"

datatype archival_error = AlreadyArchivedError | NotArchivedError | Archived_action instant

datatype ProjectAction = PA_fund | PA_edit_collaborators | PA_distribute | PA_cancel

definition BLOCKED_WHEN_ARCHIVED :: "ProjectAction list" where
  "BLOCKED_WHEN_ARCHIVED = [PA_fund, PA_edit_collaborators, PA_distribute, PA_cancel]"

type_synonym archival_order = "ProjectArchival list \<Rightarrow> ProjectArchival list"

definition getLatestArchivalEvent :: "archival_order \<Rightarrow> ProjectArchival list \<Rightarrow> string \<Rightarrow> ProjectArchival option" where
  "getLatestArchivalEvent desc rows projectId =
     (case desc (filter (\<lambda>r. pa_projectId r = trim projectId) rows) of [] \<Rightarrow> None | r # _ \<Rightarrow> Some r)"

definition isProjectArchived :: "archival_order \<Rightarrow> ProjectArchival list \<Rightarrow> string \<Rightarrow> bool" where
  "isProjectArchived desc rows projectId =
     (case getLatestArchivalEvent desc rows projectId of None \<Rightarrow> False | Some r \<Rightarrow> pa_restoredAt r = None)"

text \<open>
  Archiving and restoring read the table and wait before they save. The functions here end at the call
  of \<open>save\<close> and give the record it gets; \<open>rowId\<close> is the primary key the insert will generate. The save
  is a step of its own: a new record is inserted, one that was read is updated in the two columns that
  changed. No unique index ties a project to one open row.
\<close>

definition archiveProject ::
  "archival_order \<Rightarrow> string \<Rightarrow> instant \<Rightarrow> ProjectArchival list \<Rightarrow> string \<Rightarrow> string \<Rightarrow> string option
     \<Rightarrow> archival_error + ProjectArchival" where
  "archiveProject desc rowId now rows rawProjectId archivedBy reason =
     (let projectId = trim rawProjectId
      in if isProjectArchived desc rows projectId then Inl AlreadyArchivedError
         else Inr \<lparr>pa_id = rowId, pa_projectId = projectId, pa_archivedBy = trim archivedBy,
                pa_reason = (case reason of None \<Rightarrow> None | Some t \<Rightarrow> if trim t = [] then None else Some (trim t)),
                pa_archivedAt = now, pa_restoredBy = None, pa_restoredAt = None\<rparr>)"

definition restoreProject ::
  "archival_order \<Rightarrow> instant \<Rightarrow> ProjectArchival list \<Rightarrow> string \<Rightarrow> string \<Rightarrow> archival_error + ProjectArchival" where
  "restoreProject desc now rows rawProjectId restoredBy =
     (let projectId = trim rawProjectId
      in case getLatestArchivalEvent desc rows projectId of
        None \<Rightarrow> Inl NotArchivedError
      | Some latest \<Rightarrow>
        if pa_restoredAt latest \<noteq> None then Inl NotArchivedError
        else Inr (latest\<lparr>pa_restoredBy := Some (trim restoredBy), pa_restoredAt := Some now\<rparr>))"

datatype pending_save = Insert_row ProjectArchival | Update_row ProjectArchival

definition stamp_restored :: "ProjectArchival \<Rightarrow> ProjectArchival \<Rightarrow> ProjectArchival" where
  "stamp_restored r x =
     (if pa_id x = pa_id r then x\<lparr>pa_restoredBy := pa_restoredBy r, pa_restoredAt := pa_restoredAt r\<rparr> else x)"

fun save_archival :: "pending_save \<Rightarrow> ProjectArchival list \<Rightarrow> ProjectArchival list" where
  "save_archival (Insert_row r) rows = rows @ [r]"
| "save_archival (Update_row r) rows = map (stamp_restored r) rows"

definition archival_assertActionAllowed ::
  "archival_order \<Rightarrow> ProjectArchival list \<Rightarrow> string \<Rightarrow> ProjectAction \<Rightarrow> archival_error + unit" where
  "archival_assertActionAllowed desc rows projectId action =
     (if action \<notin> set BLOCKED_WHEN_ARCHIVED then Inr ()
      else case getLatestArchivalEvent desc rows projectId of
          None \<Rightarrow> Inr ()
        | Some latest \<Rightarrow> if pa_restoredAt latest = None then Inl (Archived_action (pa_archivedAt latest)) else Inr ())"

section \<open>Edit history and deadlines\<close>

text \<open>
  The \<open>changes\<close> column is a JSON object. The expiration functions store and read two ISO texts in it, of
  which the deadline may be null; the fields other edits store are kept apart, in \<open>eh_changes\<close>.
\<close>

datatype edit_value =
    E_bool bool
  | E_text string
  | E_number int
  | E_array "edit_value list"
  | E_object "(string \<times> edit_value) list"

record ProjectEditHistory =
  eh_projectId :: string
  eh_actor :: string
  eh_action :: string
  eh_createdAt :: instant
  eh_changes_createdAt :: "instant option"
  eh_changes_expiresAt :: "instant option"
  eh_changes :: "(string \<times> edit_value) list"

definition EXPIRATION_ACTIONS :: "string list" where
  "EXPIRATION_ACTIONS = [''expiration.configured'', ''expiration.updated'', ''expiration.cleared'']"

record ProjectExpiration =
  pe_projectId :: string
  pe_createdAt :: instant
  pe_expiresAt :: "instant option"

type_synonym history_order = "ProjectEditHistory list \<Rightarrow> ProjectEditHistory list"

text \<open>\<open>at\<close> is the \<open>created_at\<close> the database stamps on the row.\<close>

definition recordExpirationEvent ::
  "instant \<Rightarrow> ProjectEditHistory list \<Rightarrow> string \<Rightarrow> string \<Rightarrow> string \<Rightarrow> instant option \<Rightarrow> instant option
     \<Rightarrow> ProjectEditHistory list" where
  "recordExpirationEvent at rows projectId actor action createdAt expiresAt =
     rows @ [\<lparr>eh_projectId = projectId, eh_actor = actor, eh_action = action, eh_createdAt = at,
       eh_changes_createdAt = createdAt, eh_changes_expiresAt = expiresAt, eh_changes = []\<rparr>]"

definition getProjectExpiration :: "history_order \<Rightarrow> ProjectEditHistory list \<Rightarrow> string \<Rightarrow> ProjectExpiration option" where
  "getProjectExpiration asc rows projectId =
     (let history = asc (filter (\<lambda>r. eh_projectId r = projectId
            \<and> eh_action r \<in> set (''split.created'' # EXPIRATION_ACTIONS)) rows)
      in case history of
        [] \<Rightarrow> None
      | first # _ \<Rightarrow>
        let creation = find (\<lambda>r. eh_action r = ''split.created'') history;
            createdAt = (case creation of
                Some r \<Rightarrow> (case eh_changes_createdAt r of Some t \<Rightarrow> t | None \<Rightarrow> eh_createdAt first)
              | None \<Rightarrow> eh_createdAt first);
            expirations = filter (\<lambda>r. eh_action r \<in> set EXPIRATION_ACTIONS) history
        in Some \<lparr>pe_projectId = projectId, pe_createdAt = createdAt,
             pe_expiresAt = (if expirations = [] then None else eh_changes_expiresAt (last expirations))\<rparr>)"

text \<open>The deadline the caller sends is a parsed date: \<open>Some None\<close> is an invalid one, \<open>None\<close> is null.\<close>

definition configureProjectExpiration ::
  "history_order \<Rightarrow> instant \<Rightarrow> instant \<Rightarrow> ProjectEditHistory list \<Rightarrow> string \<Rightarrow> string \<Rightarrow> js_date option \<Rightarrow> instant option
     \<Rightarrow> api_error + (ProjectEditHistory list \<times> ProjectExpiration)" where
  "configureProjectExpiration asc at now rows projectId actor expiresAt createdAtOverride =
     (let existing = getProjectExpiration asc rows projectId;
          createdAt = default_to (case existing of Some x \<Rightarrow> pe_createdAt x | None \<Rightarrow> now) createdAtOverride
      in case (case expiresAt of
          None \<Rightarrow> Inr None
        | Some None \<Rightarrow> Inl (ApiError ''INVALID_EXPIRATION'' 400)
        | Some (Some deadline) \<Rightarrow>
          if deadline \<le> createdAt then Inl (ApiError ''EXPIRATION_BEFORE_CREATION'' 400)
          else if deadline \<le> now then Inl (ApiError ''EXPIRATION_IN_PAST'' 400)
          else Inr (Some deadline)) of
        Inl e \<Rightarrow> Inl e
      | Inr normalized \<Rightarrow>
        let action = (if normalized = None then ''expiration.cleared''
              else if (case existing of Some x \<Rightarrow> pe_expiresAt x \<noteq> None | None \<Rightarrow> False) then ''expiration.updated''
              else ''expiration.configured'')
        in Inr (recordExpirationEvent at rows projectId actor action (Some createdAt) normalized,
             \<lparr>pe_projectId = projectId, pe_createdAt = createdAt, pe_expiresAt = normalized\<rparr>))"

text \<open>An empty deadline text is skipped like a missing one, so \<open>None\<close> stands for both here.\<close>

definition recordSplitCreated ::
  "history_order \<Rightarrow> instant \<Rightarrow> instant \<Rightarrow> instant \<Rightarrow> instant \<Rightarrow> ProjectEditHistory list \<Rightarrow> string \<Rightarrow> string \<Rightarrow> js_date option
     \<Rightarrow> ProjectEditHistory list \<times> api_error option" where
  "recordSplitCreated asc at at2 createdAt now rows projectId actor expiresAt =
     (let rows1 = recordExpirationEvent at rows projectId actor ''split.created'' (Some createdAt) None
      in case expiresAt of
        None \<Rightarrow> (rows1, None)
      | Some d \<Rightarrow>
        (case configureProjectExpiration asc at2 now rows1 projectId actor (Some d) (Some createdAt) of
           Inl e \<Rightarrow> (rows1, Some e)
         | Inr (rows2, _) \<Rightarrow> (rows2, None)))"

definition assertProjectNotExpired ::
  "history_order \<Rightarrow> instant \<Rightarrow> instant \<Rightarrow> ProjectEditHistory list \<Rightarrow> string \<Rightarrow> ProjectEditHistory list \<times> api_error option" where
  "assertProjectNotExpired asc at now rows projectId =
     (case getProjectExpiration asc rows projectId of
        None \<Rightarrow> (rows, None)
      | Some expiration \<Rightarrow>
        (case pe_expiresAt expiration of
           None \<Rightarrow> (rows, None)
         | Some deadline \<Rightarrow>
           if now < deadline then (rows, None)
           else (if find (\<lambda>r. eh_projectId r = projectId \<and> eh_action r = ''expiration.reached'') rows = None
                 then recordExpirationEvent at rows projectId ''system'' ''expiration.reached''
                        (Some (pe_createdAt expiration)) (Some deadline)
                 else rows,
                 Some (ApiError ''SPLIT_EXPIRED'' 410))))"

text \<open>
  \<open>recordProjectEdit\<close> stores the other edits, without the member \<open>owner\<close>; a failing insert is only
  logged, so its callers do not learn of it.
\<close>

definition recordProjectEdit ::
  "bool \<Rightarrow> instant \<Rightarrow> ProjectEditHistory list \<Rightarrow> string \<Rightarrow> string \<Rightarrow> string \<Rightarrow> (string \<times> edit_value) list
     \<Rightarrow> ProjectEditHistory list" where
  "recordProjectEdit insert_ok at rows projectId actor action changes =
     (let sanitizedChanges = filter (\<lambda>(k, v). k \<noteq> ''owner'') changes
      in if insert_ok then rows @ [\<lparr>eh_projectId = projectId, eh_actor = actor, eh_action = action, eh_createdAt = at,
        eh_changes_createdAt = None, eh_changes_expiresAt = None, eh_changes = sanitizedChanges\<rparr>] else rows)"

section \<open>Retention\<close>

definition SOFT_DELETE_RETENTION_DAYS :: int where
  "SOFT_DELETE_RETENTION_DAYS = 30"

definition MS_PER_DAY :: int where
  "MS_PER_DAY = 24 * 60 * 60 * 1000"

definition purgeEligibleAt :: "instant \<Rightarrow> instant" where
  "purgeEligibleAt deletedAt = deletedAt + SOFT_DELETE_RETENTION_DAYS * MS_PER_DAY"

definition isPastRetention :: "instant \<Rightarrow> instant \<Rightarrow> bool" where
  "isPastRetention deletedAt now = (purgeEligibleAt deletedAt \<le> now)"

section \<open>Order of rows\<close>

lemma ascending_unique:
  assumes "ascending key asc" "sorted_wrt (\<lambda>a b. key a < key b) rows"
  shows "asc rows = rows"
proof -
  have "sorted_wrt (<) (map key rows)" using assms(2) by (simp add: sorted_wrt_map)
  then have strict: "sorted (map key rows)" "distinct (map key rows)" by (simp_all add: strict_sorted_iff)
  have perm: "mset (asc rows) = mset rows" "sorted (map key (asc rows))" using assms(1) by (auto simp: ascending_def)
  then have "distinct (map key (asc rows))" using strict(2) by (metis mset_eq_imp_distinct_iff mset_map)
  moreover have "set (asc rows) = set rows" using perm(1) by (rule mset_eq_setD)
  moreover have "inj_on key (set (asc rows) \<union> set rows)" using strict(2) calculation(2) by (simp add: distinct_map)
  ultimately show ?thesis using map_sorted_distinct_set_unique [of key "asc rows" rows] perm(2) strict by simp
qed

lemma descending_unique:
  "\<lbrakk>descending key desc; sorted_wrt (\<lambda>a b. key a < key b) rows\<rbrakk> \<Longrightarrow> desc rows = rev rows"
  using ascending_unique [of key "\<lambda>rows. rev (desc rows)" rows] by (metis descending_def rev_rev_ident)

section \<open>Archival as a flag\<close>

text \<open>
  What happens to the table: an archival or a restoration (numbered by the caller) is asked for, one of
  those under way saves, an action asks the guard. The Boolean is whether it was let through.
\<close>

datatype archival_op =
    Op_archive nat string instant string string "string option"
  | Op_restore nat instant string string
  | Op_save nat
  | Op_action string ProjectAction

record archival_world =
  aw_rows :: "ProjectArchival list"
  aw_saves :: "nat \<rightharpoonup> pending_save"

fun archival_step :: "archival_order \<Rightarrow> archival_world \<Rightarrow> archival_op \<Rightarrow> archival_world \<times> bool" where
  "archival_step desc w (Op_archive k i now p who reason) =
     (case archiveProject desc i now (aw_rows w) p who reason of
        Inl _ \<Rightarrow> (w, False)
      | Inr r \<Rightarrow> (w\<lparr>aw_saves := (aw_saves w)(k \<mapsto> Insert_row r)\<rparr>, True))"
| "archival_step desc w (Op_restore k now p who) =
     (case restoreProject desc now (aw_rows w) p who of
        Inl _ \<Rightarrow> (w, False)
      | Inr r \<Rightarrow> (w\<lparr>aw_saves := (aw_saves w)(k \<mapsto> Update_row r)\<rparr>, True))"
| "archival_step desc w (Op_save k) =
     (case aw_saves w k of
        None \<Rightarrow> (w, False)
      | Some sv \<Rightarrow> (w\<lparr>aw_rows := save_archival sv (aw_rows w), aw_saves := (aw_saves w)(k := None)\<rparr>, True))"
| "archival_step desc w (Op_action p action) = (w, archival_assertActionAllowed desc (aw_rows w) p action = Inr ())"

fun archival_run :: "archival_order \<Rightarrow> archival_world \<Rightarrow> archival_op list \<Rightarrow> archival_world \<times> bool list" where
  "archival_run desc w [] = (w, [])"
| "archival_run desc w (e # es) = (let (w1, b) = archival_step desc w e in apsnd ((#) b) (archival_run desc w1 es))"

definition no_archivals :: archival_world where
  "no_archivals = \<lparr>aw_rows = [], aw_saves = Map.empty\<rparr>"

text \<open>The specification: the set of archived projects, and the flags that are being set (or cleared).\<close>

type_synonym archival_flags = "string set \<times> (nat \<rightharpoonup> bool \<times> string)"

fun flag_step :: "archival_flags \<Rightarrow> archival_op \<Rightarrow> archival_flags \<times> bool" where
  "flag_step (S, P) (Op_archive k i now p who reason) =
     (if trim p \<in> S then ((S, P), False) else ((S, P(k \<mapsto> (True, trim p))), True))"
| "flag_step (S, P) (Op_restore k now p who) =
     (if trim p \<in> S then ((S, P(k \<mapsto> (False, trim p))), True) else ((S, P), False))"
| "flag_step (S, P) (Op_save k) =
     (case P k of
        None \<Rightarrow> ((S, P), False)
      | Some (b, p) \<Rightarrow> ((if b then insert p S else S - {p}, P(k := None)), True))"
| "flag_step (S, P) (Op_action p action) = ((S, P), trim p \<notin> S)"

fun flag_run :: "archival_flags \<Rightarrow> archival_op list \<Rightarrow> archival_flags \<times> bool list" where
  "flag_run f [] = (f, [])"
| "flag_run f (e # es) = (let (f1, b) = flag_step f e in apsnd ((#) b) (flag_run f1 es))"

text \<open>The requests on one project take turns: none is asked for while another one on it has still to save.\<close>

definition idle :: "(nat \<rightharpoonup> bool \<times> string) \<Rightarrow> nat \<Rightarrow> string \<Rightarrow> bool" where
  "idle P k p \<longleftrightarrow> P k = None \<and> (\<forall>k' b. P k' \<noteq> Some (b, trim p))"

fun takes_turn :: "archival_flags \<Rightarrow> archival_op \<Rightarrow> bool" where
  "takes_turn (S, P) (Op_archive k i now p who reason) = idle P k p"
| "takes_turn (S, P) (Op_restore k now p who) = idle P k p"
| "takes_turn (S, P) _ = True"

fun take_turns :: "archival_flags \<Rightarrow> archival_op list \<Rightarrow> bool" where
  "take_turns f [] = True"
| "take_turns f (e # es) = (takes_turn f e \<and> take_turns (fst (flag_step f e)) es)"

fun archive_times :: "archival_op list \<Rightarrow> (string \<times> instant) list" where
  "archive_times [] = []"
| "archive_times (Op_archive k i now p who reason # ops) = (i, now) # archive_times ops"
| "archive_times (_ # ops) = archive_times ops"

text \<open>Rows are never lost: they keep everything but their stamp of restoration, and that is never taken back.\<close>

definition kept_row :: "ProjectArchival \<Rightarrow> ProjectArchival \<Rightarrow> bool" where
  "kept_row x y \<longleftrightarrow> y\<lparr>pa_restoredBy := None, pa_restoredAt := None\<rparr> = x\<lparr>pa_restoredBy := None, pa_restoredAt := None\<rparr>
     \<and> (pa_restoredAt x \<noteq> None \<longrightarrow> pa_restoredAt y \<noteq> None)"

definition history_kept :: "ProjectArchival list \<Rightarrow> ProjectArchival list \<Rightarrow> bool" where
  "history_kept rows rows' \<longleftrightarrow> (\<exists>f added. rows' = map f rows @ added \<and> (\<forall>x \<in> set rows. kept_row x (f x)))"

definition saves_ok :: "archival_world \<Rightarrow> bool" where
  "saves_ok w \<longleftrightarrow> (\<forall>k r. aw_saves w k = Some (Update_row r) \<longrightarrow> pa_restoredAt r \<noteq> None)"

lemma kept_row_refl: "kept_row x x"
  by (simp add: kept_row_def)

lemma history_kept_refl: "history_kept rows rows"
  unfolding history_kept_def by (intro exI [of _ id] exI [of _ "[]"]) (simp add: kept_row_refl)

lemma history_kept_trans:
  assumes "history_kept a b" "history_kept b c"
  shows "history_kept a c"
proof -
  obtain f xs where f: "b = map f a @ xs" "\<forall>x \<in> set a. kept_row x (f x)" using assms(1) by (auto simp: history_kept_def)
  obtain g ys where g: "c = map g b @ ys" "\<forall>x \<in> set b. kept_row x (g x)" using assms(2) by (auto simp: history_kept_def)
  have "c = map (g \<circ> f) a @ (map g xs @ ys)" using f(1) g(1) by simp
  moreover have "\<forall>x \<in> set a. kept_row x ((g \<circ> f) x)" using f g(2) by (auto simp: kept_row_def)
  ultimately show ?thesis unfolding history_kept_def by blast
qed

lemma save_kept:
  assumes "\<forall>r. sv = Update_row r \<longrightarrow> pa_restoredAt r \<noteq> None"
  shows "history_kept rows (save_archival sv rows)"
proof (cases sv)
  case (Insert_row r)
  then show ?thesis unfolding history_kept_def by (intro exI [of _ id] exI [of _ "[r]"]) (simp add: kept_row_refl)
next
  case (Update_row r)
  with assms have "kept_row x (stamp_restored r x)" for x by (simp add: kept_row_def stamp_restored_def)
  then show ?thesis using Update_row unfolding history_kept_def by (intro exI [of _ "stamp_restored r"] exI [of _ "[]"]) simp
qed

lemma step_kept:
  assumes "archival_step desc w e = (w', b)" "saves_ok w"
  shows "history_kept (aw_rows w) (aw_rows w') \<and> saves_ok w'"
proof (cases e)
  case (Op_save k)
  show ?thesis
  proof (cases "aw_saves w k")
    case (Some sv)
    then have "history_kept (aw_rows w) (save_archival sv (aw_rows w))" using assms(2) by (intro save_kept) (auto simp: saves_ok_def)
    then show ?thesis using Some Op_save assms by (auto simp: saves_ok_def split: if_splits)
  qed (use Op_save assms history_kept_refl in auto)
qed (use assms in \<open>auto simp: saves_ok_def history_kept_refl restoreProject_def Let_def split: sum.splits option.splits if_splits\<close>)

lemma run_kept:
  assumes "archival_run desc w es = (w', bs)" "saves_ok w"
  shows "history_kept (aw_rows w) (aw_rows w') \<and> saves_ok w'"
  using assms
proof (induction es arbitrary: w bs)
  case (Cons e es)
  obtain w1 b where st: "archival_step desc w e = (w1, b)" by fastforce
  obtain bs1 where run: "archival_run desc w1 es = (w', bs1)"
    using Cons.prems(1) st by (cases "archival_run desc w1 es") auto
  show ?case using step_kept [OF st Cons.prems(2)] Cons.IH [OF run] by (blast intro: history_kept_trans)
qed (simp add: history_kept_refl)

text \<open>The rows of a project, and what they say when their times increase.\<close>

abbreviation of_project :: "ProjectArchival list \<Rightarrow> string \<Rightarrow> ProjectArchival list" where
  "of_project rows p \<equiv> filter (\<lambda>r. pa_projectId r = p) rows"

definition archived_set :: "ProjectArchival list \<Rightarrow> string set" where
  "archived_set rows = {p. of_project rows p \<noteq> [] \<and> pa_restoredAt (last (of_project rows p)) = None}"

definition rows_in_order :: "ProjectArchival list \<Rightarrow> bool" where
  "rows_in_order rows \<longleftrightarrow> distinct (map pa_id rows) \<and> (\<forall>p. sorted_wrt (\<lambda>a b. pa_archivedAt a < pa_archivedAt b) (of_project rows p))"

lemma latest_eq:
  assumes "descending pa_archivedAt desc" "rows_in_order rows"
  shows "getLatestArchivalEvent desc rows p =
    (if of_project rows (trim p) = [] then None else Some (last (of_project rows (trim p))))"
proof -
  have "desc (of_project rows (trim p)) = rev (of_project rows (trim p))"
    using assms(2) by (intro descending_unique [OF assms(1)]) (simp add: rows_in_order_def)
  then show ?thesis by (cases "of_project rows (trim p)" rule: rev_cases) (simp_all add: getLatestArchivalEvent_def)
qed

lemma archive_cases:
  assumes "descending pa_archivedAt desc" "rows_in_order rows"
  shows "trim p \<in> archived_set rows \<Longrightarrow> archiveProject desc i now rows p who reason = Inl AlreadyArchivedError"
    "trim p \<notin> archived_set rows \<Longrightarrow> \<exists>r. archiveProject desc i now rows p who reason = Inr r
       \<and> pa_id r = i \<and> pa_projectId r = trim p \<and> pa_archivedAt r = now \<and> pa_restoredAt r = None"
  using latest_eq [OF assms]
  by (auto simp: archiveProject_def isProjectArchived_def archived_set_def Let_def)

lemma restore_cases:
  assumes "descending pa_archivedAt desc" "rows_in_order rows"
  shows "trim p \<notin> archived_set rows \<Longrightarrow> restoreProject desc now rows p who = Inl NotArchivedError"
    "trim p \<in> archived_set rows \<Longrightarrow> \<exists>r. restoreProject desc now rows p who = Inr r
       \<and> pa_id r = pa_id (last (of_project rows (trim p))) \<and> of_project rows (trim p) \<noteq> [] \<and> pa_projectId r = trim p
       \<and> pa_restoredAt r \<noteq> None"
  using latest_eq [OF assms] last_in_set [of "of_project rows (trim p)"]
  by (auto simp: restoreProject_def archived_set_def Let_def)

lemma action_cases:
  assumes "descending pa_archivedAt desc" "rows_in_order rows"
  shows "archival_assertActionAllowed desc rows p action = Inr () \<longleftrightarrow> trim p \<notin> archived_set rows"
proof -
  have "action \<in> set BLOCKED_WHEN_ARCHIVED" by (cases action) (simp_all add: BLOCKED_WHEN_ARCHIVED_def)
  then show ?thesis using latest_eq [OF assms] by (auto simp: archival_assertActionAllowed_def archived_set_def)
qed

text \<open>Saving: the rows of the other projects do not change.\<close>

lemma insert_saved:
  assumes "rows_in_order rows" "pa_id r \<notin> pa_id ` set rows" "\<forall>x \<in> set (of_project rows (pa_projectId r)). pa_archivedAt x < pa_archivedAt r"
  shows "rows_in_order (rows @ [r])" "pa_restoredAt r = None \<Longrightarrow> archived_set (rows @ [r]) = insert (pa_projectId r) (archived_set rows)"
  using assms by (auto simp: rows_in_order_def sorted_wrt_append archived_set_def)

lemma update_saved:
  assumes "rows_in_order rows" "of_project rows p \<noteq> []" "pa_id r = pa_id (last (of_project rows p))" "pa_restoredAt r \<noteq> None"
  shows "rows_in_order (map (stamp_restored r) rows)" "archived_set (map (stamp_restored r) rows) = archived_set rows - {p}"
    "map pa_id (map (stamp_restored r) rows) = map pa_id rows"
    "\<And>q. of_project (map (stamp_restored r) rows) q = map (stamp_restored r) (of_project rows q)"
proof -
  let ?u = "stamp_restored r" and ?l = "last (of_project rows p)"
  have l: "?l \<in> set rows" "pa_projectId ?l = p" using last_in_set [OF assms(2)] by auto
  have d: "distinct (map pa_id rows)" using assms(1) by (simp add: rows_in_order_def)
  have same: "x = ?l" if "x \<in> set rows" "pa_id x = pa_id r" for x
    using that l(1) d assms(3) by (auto simp: distinct_map inj_on_def)
  have cols: "pa_id (?u x) = pa_id x" "pa_projectId (?u x) = pa_projectId x" "pa_archivedAt (?u x) = pa_archivedAt x" for x
    by (simp_all add: stamp_restored_def)
  show ids: "map pa_id (map ?u rows) = map pa_id rows" by (simp add: cols comp_def)
  show fm: "of_project (map ?u rows) q = map ?u (of_project rows q)" for q by (induction rows) (auto simp: cols)
  show "rows_in_order (map ?u rows)"
    unfolding rows_in_order_def ids fm using assms(1) by (simp add: rows_in_order_def sorted_wrt_map cols)
  have other: "map ?u (of_project rows q) = of_project rows q" if "q \<noteq> p" for q
    using that same l(2) by (intro map_idI) (auto simp: stamp_restored_def)
  have "pa_restoredAt (last (map ?u (of_project rows p))) \<noteq> None"
    using assms(2-4) by (simp add: last_map stamp_restored_def)
  then have gone: "p \<notin> archived_set (map ?u rows)" by (simp add: archived_set_def fm)
  have kept: "q \<in> archived_set (map ?u rows) \<longleftrightarrow> q \<in> archived_set rows" if "q \<noteq> p" for q
    using other [OF that] by (simp add: archived_set_def fm)
  show "archived_set (map ?u rows) = archived_set rows - {p}"
  proof (rule set_eqI)
    show "q \<in> archived_set (map ?u rows) \<longleftrightarrow> q \<in> archived_set rows - {p}" for q
      using gone kept [of q] by (cases "q = p") simp_all
  qed
qed

text \<open>
  The simulation: the flags are those of the rows and the saves under way, and every save under way
  still fits the table, whatever the other projects do.
\<close>

fun pending_flag :: "pending_save \<Rightarrow> bool \<times> string" where
  "pending_flag (Insert_row r) = (True, pa_projectId r)"
| "pending_flag (Update_row r) = (False, pa_projectId r)"

definition later_than :: "(string \<times> instant) list \<Rightarrow> ProjectArchival \<Rightarrow> bool" where
  "later_than due x \<longleftrightarrow> (\<forall>(i, t) \<in> set due. i \<noteq> pa_id x \<and> pa_archivedAt x < t)"

fun save_fits :: "(string \<times> instant) list \<Rightarrow> ProjectArchival list \<Rightarrow> pending_save \<Rightarrow> bool" where
  "save_fits due rows (Insert_row r) \<longleftrightarrow> pa_restoredAt r = None \<and> pa_id r \<notin> pa_id ` set rows
     \<and> (\<forall>x \<in> set (of_project rows (pa_projectId r)). pa_archivedAt x < pa_archivedAt r) \<and> later_than due r"
| "save_fits due rows (Update_row r) \<longleftrightarrow> pa_restoredAt r \<noteq> None \<and> of_project rows (pa_projectId r) \<noteq> []
     \<and> pa_id r = pa_id (last (of_project rows (pa_projectId r)))"

fun inserted_id :: "pending_save \<Rightarrow> string option" where
  "inserted_id (Insert_row r) = Some (pa_id r)"
| "inserted_id (Update_row r) = None"

definition apart :: "(nat \<rightharpoonup> pending_save) \<Rightarrow> bool" where
  "apart saves \<longleftrightarrow> (\<forall>k k' sv sv'. saves k = Some sv \<and> saves k' = Some sv' \<and> k \<noteq> k' \<longrightarrow>
     snd (pending_flag sv) \<noteq> snd (pending_flag sv') \<and> (inserted_id sv = None \<or> inserted_id sv \<noteq> inserted_id sv'))"

definition flag_sim :: "(string \<times> instant) list \<Rightarrow> archival_world \<Rightarrow> archival_flags \<Rightarrow> bool" where
  "flag_sim due w f \<longleftrightarrow> rows_in_order (aw_rows w) \<and> fst f = archived_set (aw_rows w)
     \<and> snd f = map_option pending_flag \<circ> aw_saves w \<and> apart (aw_saves w)
     \<and> (\<forall>k sv. aw_saves w k = Some sv \<longrightarrow> save_fits due (aw_rows w) sv)
     \<and> (\<forall>x \<in> set (aw_rows w). later_than due x)
     \<and> distinct (map fst due) \<and> sorted_wrt (<) (map snd due)"

lemma fits_later: "save_fits (t # due) rows sv \<Longrightarrow> save_fits due rows sv"
  by (cases sv) (auto simp: later_than_def)

lemma sim_later: "flag_sim (t # due) w f \<Longrightarrow> flag_sim due w f"
  unfolding flag_sim_def using fits_later [of t due "aw_rows w"] by (auto simp: later_than_def)

text \<open>A request that is let through only adds a save that fits.\<close>

lemma sim_pending:
  assumes "flag_sim due w f" "idle (snd f) k p" "snd (pending_flag sv) = trim p" "save_fits due (aw_rows w) sv"
    and "\<forall>k' sv'. aw_saves w k' = Some sv' \<longrightarrow> inserted_id sv = None \<or> inserted_id sv \<noteq> inserted_id sv'"
  shows "flag_sim due (w\<lparr>aw_saves := (aw_saves w)(k \<mapsto> sv)\<rparr>) (fst f, (snd f)(k \<mapsto> pending_flag sv))"
proof -
  have P: "snd f = map_option pending_flag \<circ> aw_saves w" using assms(1) by (simp add: flag_sim_def)
  have free: "snd (pending_flag sv') \<noteq> trim p" if "aw_saves w k' = Some sv'" for k' sv'
    using assms(2) that unfolding idle_def P by (cases "pending_flag sv'") (auto dest!: spec [of _ k'])
  have "apart ((aw_saves w)(k \<mapsto> sv))"
    using assms(1,3,5) free unfolding apart_def flag_sim_def
    by (simp split: if_splits) (metis option.distinct(1))
  moreover have "(snd f)(k \<mapsto> pending_flag sv) = map_option pending_flag \<circ> (aw_saves w)(k \<mapsto> sv)" unfolding P by auto
  ultimately show ?thesis using assms(1,4) by (auto simp: flag_sim_def)
qed

text \<open>A save changes the rows of its project only, so the other saves still fit.\<close>

lemma fits_insert:
  assumes "save_fits due rows sv" "snd (pending_flag sv) \<noteq> pa_projectId r" "inserted_id sv \<noteq> Some (pa_id r)"
  shows "save_fits due (rows @ [r]) sv"
  using assms by (cases sv) auto

lemma fits_update:
  assumes "save_fits due rows sv" "snd (pending_flag sv) \<noteq> p" "rows_in_order rows" "of_project rows p \<noteq> []"
    "pa_id r = pa_id (last (of_project rows p))" "pa_restoredAt r \<noteq> None"
  shows "save_fits due (map (stamp_restored r) rows) sv"
proof -
  note u = update_saved [OF assms(3-6)]
  have ids: "pa_id (stamp_restored r x) = pa_id x" "pa_archivedAt (stamp_restored r x) = pa_archivedAt x" for x
    by (simp_all add: stamp_restored_def)
  have "pa_id ` set (map (stamp_restored r) rows) = pa_id ` set rows" by (metis u(3) set_map)
  then show ?thesis using assms(1) by (cases sv) (auto simp: u(4) ids last_map)
qed

lemma sim_save:
  assumes sim: "flag_sim due w f" and sv: "aw_saves w k = Some sv"
  shows "flag_sim due (w\<lparr>aw_rows := save_archival sv (aw_rows w), aw_saves := (aw_saves w)(k := None)\<rparr>)
    (case pending_flag sv of (b, p) \<Rightarrow> (if b then insert p (fst f) else fst f - {p}, (snd f)(k := None)))"
proof -
  let ?rows = "aw_rows w"
  have ord: "rows_in_order ?rows" and S: "fst f = archived_set ?rows" and P: "snd f = map_option pending_flag \<circ> aw_saves w"
    and ap: "apart (aw_saves w)" and fits: "\<And>k sv. aw_saves w k = Some sv \<Longrightarrow> save_fits due ?rows sv"
    and lt: "\<forall>x \<in> set ?rows. later_than due x"
    using sim by (auto simp: flag_sim_def)
  have other: "snd (pending_flag sv') \<noteq> snd (pending_flag sv) \<and> (inserted_id sv = None \<or> inserted_id sv \<noteq> inserted_id sv')"
    if "aw_saves w k' = Some sv'" "k' \<noteq> k" for k' sv'
    using ap sv that unfolding apart_def by metis
  have P': "(snd f)(k := None) = map_option pending_flag \<circ> (aw_saves w)(k := None)" unfolding P by auto
  have ap': "apart ((aw_saves w)(k := None))" using ap unfolding apart_def by auto
  show ?thesis
  proof (cases sv)
    case (Insert_row r)
    note r = fits [OF sv, unfolded Insert_row, simplified]
    have "save_fits due (?rows @ [r]) sv'" if "aw_saves w k' = Some sv'" "k' \<noteq> k" for k' sv'
      using fits [OF that(1)] other [OF that] Insert_row by (intro fits_insert) auto
    moreover have "rows_in_order (?rows @ [r])" "archived_set (?rows @ [r]) = insert (pa_projectId r) (archived_set ?rows)"
      using insert_saved [OF ord, of r] r by auto
    ultimately show ?thesis using sim Insert_row S P' ap' r lt by (auto simp: flag_sim_def split: if_splits)
  next
    case (Update_row r)
    note r = fits [OF sv, unfolded Update_row, simplified]
    have r': "of_project ?rows (pa_projectId r) \<noteq> []" "pa_id r = pa_id (last (of_project ?rows (pa_projectId r)))" "pa_restoredAt r \<noteq> None"
      using r by auto
    have "save_fits due (map (stamp_restored r) ?rows) sv'" if "aw_saves w k' = Some sv'" "k' \<noteq> k" for k' sv'
      using fits [OF that(1)] other [OF that] Update_row by (intro fits_update [OF _ _ ord r']) auto
    moreover have "later_than due (stamp_restored r x)" if "later_than due x" for x
      using that by (auto simp: later_than_def stamp_restored_def)
    ultimately show ?thesis using sim Update_row S P' ap' lt update_saved [OF ord r']
      by (auto simp: flag_sim_def split: if_splits)
  qed
qed

lemma rows_of_sim: "flag_sim due w f \<Longrightarrow> rows_in_order (aw_rows w)" "flag_sim due w f \<Longrightarrow> fst f = archived_set (aw_rows w)"
  by (simp_all add: flag_sim_def)

lemma sim_archive:
  assumes d: "descending pa_archivedAt desc" and sim: "flag_sim ((i, now) # due) w f" and idl: "idle (snd f) k p"
    and st: "archival_step desc w (Op_archive k i now p who reason) = (w', b)"
  shows "flag_sim due w' (fst (flag_step f (Op_archive k i now p who reason))) \<and> b = (trim p \<notin> fst f)"
proof (cases "trim p \<in> fst f")
  case True
  then have "archiveProject desc i now (aw_rows w) p who reason = Inl AlreadyArchivedError"
    using archive_cases(1) [OF d] sim by (simp add: flag_sim_def)
  then show ?thesis using st sim_later [OF sim] True by (cases f) simp
next
  case False
  then obtain r where r: "archiveProject desc i now (aw_rows w) p who reason = Inr r"
    "pa_id r = i" "pa_projectId r = trim p" "pa_archivedAt r = now" "pa_restoredAt r = None"
    using archive_cases(2) [OF d rows_of_sim(1) [OF sim], of p] rows_of_sim(2) [OF sim] by blast
  have "distinct (i # map fst due)" "sorted_wrt (<) (now # map snd due)" using sim by (simp_all add: flag_sim_def)
  then have "later_than due r" unfolding later_than_def r(2,4) by force
  moreover have "pa_id r \<notin> pa_id ` set (aw_rows w)" "\<forall>x \<in> set (aw_rows w). pa_archivedAt x < pa_archivedAt r"
    using sim r(2,4) by (auto simp: later_than_def flag_sim_def)
  ultimately have "save_fits due (aw_rows w) (Insert_row r)" using r(5) by simp
  moreover have "inserted_id (Insert_row r) \<noteq> inserted_id sv'" if "aw_saves w k' = Some sv'" for k' sv'
  proof -
    have "save_fits ((i, now) # due) (aw_rows w) sv'" using sim that by (auto simp: flag_sim_def)
    then show ?thesis using r(2) by (cases sv') (auto simp: later_than_def)
  qed
  ultimately have "flag_sim due (w\<lparr>aw_saves := (aw_saves w)(k \<mapsto> Insert_row r)\<rparr>) (fst f, (snd f)(k \<mapsto> (True, trim p)))"
    using sim_pending [OF sim_later [OF sim] idl, of "Insert_row r"] r by auto
  then show ?thesis using False r st by (cases f) auto
qed

lemma sim_restore:
  assumes d: "descending pa_archivedAt desc" and sim: "flag_sim due w f" and idl: "idle (snd f) k p"
    and st: "archival_step desc w (Op_restore k now p who) = (w', b)"
  shows "flag_sim due w' (fst (flag_step f (Op_restore k now p who))) \<and> b = (trim p \<in> fst f)"
proof (cases "trim p \<in> fst f")
  case False
  then have "restoreProject desc now (aw_rows w) p who = Inl NotArchivedError"
    using restore_cases(1) [OF d] sim by (simp add: flag_sim_def)
  then show ?thesis using st sim False by (cases f) simp
next
  case True
  then obtain r where r: "restoreProject desc now (aw_rows w) p who = Inr r"
    "pa_id r = pa_id (last (of_project (aw_rows w) (trim p)))" "of_project (aw_rows w) (trim p) \<noteq> []"
    "pa_projectId r = trim p" "pa_restoredAt r \<noteq> None"
    using restore_cases(2) [OF d rows_of_sim(1) [OF sim], of p] rows_of_sim(2) [OF sim] by blast
  then have "flag_sim due (w\<lparr>aw_saves := (aw_saves w)(k \<mapsto> Update_row r)\<rparr>) (fst f, (snd f)(k \<mapsto> (False, trim p)))"
    using sim_pending [OF sim idl, of "Update_row r"] by auto
  then show ?thesis using True r st by (cases f) auto
qed

lemma sim_step:
  assumes d: "descending pa_archivedAt desc" and sim: "flag_sim (archive_times (e # es)) w f" and turn: "takes_turn f e"
    and st: "archival_step desc w e = (w', b)"
  shows "flag_sim (archive_times es) w' (fst (flag_step f e)) \<and> b = snd (flag_step f e)"
proof -
  obtain S P where f: "f = (S, P)" by fastforce
  have S: "S = archived_set (aw_rows w)" "P = map_option pending_flag \<circ> aw_saves w" using sim f by (simp_all add: flag_sim_def)
  show ?thesis
  proof (cases e)
    case (Op_archive k i now p who reason)
    then have "idle (snd f) k p" "flag_sim ((i, now) # archive_times es) w f" using turn f sim by simp_all
    from sim_archive [OF d this(2,1), of who reason] st Op_archive f show ?thesis by simp
  next
    case (Op_restore k now p who)
    then have "idle (snd f) k p" "flag_sim (archive_times es) w f" using turn f sim by simp_all
    from sim_restore [OF d this(2,1), of now who] st Op_restore f show ?thesis by simp
  next
    case (Op_save k)
    show ?thesis
    proof (cases "aw_saves w k")
      case None
      then show ?thesis using st Op_save f S sim by simp
    next
      case (Some sv)
      obtain c p where c: "pending_flag sv = (c, p)" by fastforce
      then have "P k = Some (c, p)" using Some S by simp
      then show ?thesis using sim_save [OF sim Some] st Op_save f Some c by auto
    qed
  next
    case (Op_action p action)
    then show ?thesis using action_cases [OF d, of "aw_rows w" p action] S st f sim by (auto simp: flag_sim_def)
  qed
qed

lemma sim_run:
  assumes "descending pa_archivedAt desc" "flag_sim (archive_times ops) w f" "take_turns f ops" "archival_run desc w ops = (w', bs)"
  shows "bs = snd (flag_run f ops) \<and> archived_set (aw_rows w') = fst (fst (flag_run f ops))"
  using assms(2-)
proof (induction ops arbitrary: w f bs)
  case Nil
  then show ?case by (simp add: flag_sim_def)
next
  case (Cons e es)
  obtain w1 b where st: "archival_step desc w e = (w1, b)" by fastforce
  obtain bs1 where run: "archival_run desc w1 es = (w', bs1)" "bs = b # bs1"
    using Cons.prems(3) st by (cases "archival_run desc w1 es") auto
  have turn: "takes_turn f e" using Cons.prems(2) by simp
  note step = sim_step [OF assms(1) Cons.prems(1) turn st]
  obtain f1 b1 where f1: "flag_step f e = (f1, b1)" by fastforce
  have "flag_sim (archive_times es) w1 f1" "take_turns f1 es" "b = b1" using step Cons.prems(2) f1 by auto
  from Cons.IH [OF this(1,2) run(1)] this(3) run(2) f1 show ?case by (cases "flag_run f1 es") simp
qed

text \<open>
  (C34) Archival behaves as one flag per project when the requests on a project take turns. However
  archivals, restorations and their saves interleave, no row is lost or changed except for a stamp of
  restoration, which is never taken back. And in every history in which no request on a project is made
  while another one on it has still to save, with fresh ids and increasing times of archival, an
  archival is let through exactly when the project is not archived, a restoration exactly when it is,
  state-changing actions are refused exactly in between, and the flag changes when the save is done.
  Without taking turns an archival that was let through can be without effect (\<open>overtaken_archival_lost\<close>).
\<close>

theorem archival_refines_flag:
  assumes "archival_run desc no_archivals ops = (w, outcomes)"
  shows "(archival_run desc w ops' = (w', outcomes') \<longrightarrow> history_kept (aw_rows w) (aw_rows w'))
    \<and> (descending pa_archivedAt desc \<and> take_turns ({}, Map.empty) ops
        \<and> distinct (map fst (archive_times ops)) \<and> sorted_wrt (<) (map snd (archive_times ops))
      \<longrightarrow> outcomes = snd (flag_run ({}, Map.empty) ops) \<and> archived_set (aw_rows w) = fst (fst (flag_run ({}, Map.empty) ops)))"
proof -
  have "saves_ok no_archivals" by (simp add: saves_ok_def no_archivals_def)
  with run_kept [OF assms] have "saves_ok w" by blast
  moreover have "flag_sim (archive_times ops) no_archivals ({}, Map.empty)"
    if "distinct (map fst (archive_times ops))" "sorted_wrt (<) (map snd (archive_times ops))"
    using that by (auto simp: flag_sim_def no_archivals_def rows_in_order_def archived_set_def apart_def)
  ultimately show ?thesis using run_kept sim_run [OF _ _ _ assms] by blast
qed

definition newest_first :: archival_order where
  "newest_first rows = rev (sort_by (\<lambda>a b. pa_archivedAt a \<le> pa_archivedAt b) rows)"

lemma newest_first_law: "descending pa_archivedAt newest_first"
proof -
  have "sorted_wrt (\<lambda>a b. pa_archivedAt a \<le> pa_archivedAt b) (sort_by (\<lambda>a b. pa_archivedAt a \<le> pa_archivedAt b) rows)" for rows
    by (rule sorted_sort_by) auto
  then show ?thesis by (auto simp: descending_def ascending_def newest_first_def sorted_map)
qed

definition sample_ops :: "archival_op list" where
  "sample_ops = [Op_archive 0 ''1'' 5 ''p '' ''GA'' None, Op_archive 1 ''2'' 6 ''q'' ''GB'' None, Op_action ''p'' PA_fund, Op_save 0,
     Op_action ''p'' PA_fund, Op_restore 2 7 ''p'' ''GA'', Op_save 1, Op_save 2, Op_action ''p'' PA_cancel]"

theorem archival_refines_flag_witness:
  "snd (archival_run newest_first no_archivals sample_ops) = [True, True, True, True, False, True, True, True, True]"
proof -
  obtain w outcomes where run: "archival_run newest_first no_archivals sample_ops = (w, outcomes)" by fastforce
  have t: "trim ''p '' = ''p''" "trim ''p'' = ''p''" "trim ''q'' = ''q''" by code_simp+
  have "take_turns ({}, Map.empty) sample_ops" "distinct (map fst (archive_times sample_ops))"
    "sorted_wrt (<) (map snd (archive_times sample_ops))"
    by (simp_all add: sample_ops_def idle_def t)
  with archival_refines_flag [OF run] newest_first_law have "outcomes = snd (flag_run ({}, Map.empty) sample_ops)" by blast
  then show ?thesis using run by (simp add: sample_ops_def t)
qed

text \<open>
  Two archivals overlap: the second saves first and is restored; the first then saves with its earlier
  time. It was let through and is stored, but the project counts as active.
\<close>

lemma overtaken_archival_lost:
  "let (w, outcomes) = archival_run newest_first no_archivals
       [Op_archive 0 ''1'' 5 ''p'' ''GA'' None, Op_archive 1 ''2'' 6 ''p'' ''GA'' None, Op_save 1,
        Op_restore 2 7 ''p'' ''GA'', Op_save 2, Op_save 0]
   in outcomes = [True, True, True, True, True, True] \<and> length (aw_rows w) = 2 \<and> \<not> isProjectArchived newest_first (aw_rows w) ''p''"
  by code_simp

section \<open>The persisted deadline\<close>

lemma deadline_rows:
  assumes "ascending eh_createdAt asc" "sorted_wrt (\<lambda>a b. eh_createdAt a < eh_createdAt b) rows"
    and "filter (\<lambda>r. eh_projectId r = p \<and> eh_action r \<in> set EXPIRATION_ACTIONS) rows = es" "es \<noteq> []"
  shows "\<exists>x. getProjectExpiration asc rows p = Some x \<and> pe_expiresAt x = eh_changes_expiresAt (last es)"
proof -
  let ?h = "filter (\<lambda>r. eh_projectId r = p \<and> eh_action r \<in> set (''split.created'' # EXPIRATION_ACTIONS)) rows"
  have asc: "asc ?h = ?h" by (rule ascending_unique [OF assms(1)]) (rule sorted_wrt_filter [OF assms(2)])
  have es: "filter (\<lambda>r. eh_action r \<in> set EXPIRATION_ACTIONS) ?h = es"
    unfolding assms(3) [symmetric] filter_filter by (rule filter_cong) auto
  have "?h \<noteq> []" using es assms(4) by (metis filter.simps(1))
  then show ?thesis
    unfolding getProjectExpiration_def Let_def asc es using assms(4) by (cases ?h) (simp_all only: list.case, auto)
qed

lemma configure_cases:
  assumes "configureProjectExpiration asc at now rows p actor d created = Inr (rows', x)"
  obtains r where "rows' = rows @ [r]" "eh_projectId r = p" "eh_action r \<in> set EXPIRATION_ACTIONS"
    "eh_changes_expiresAt r = pe_expiresAt x" "eh_createdAt r = at"
    "case pe_expiresAt x of None \<Rightarrow> d = None | Some t \<Rightarrow> d = Some (Some t) \<and> now < t \<and> pe_createdAt x < t"
  using assms
  by (auto simp: configureProjectExpiration_def recordExpirationEvent_def EXPIRATION_ACTIONS_def Let_def
      split: option.splits if_splits sum.splits)

text \<open>
  A deadline the service accepted stays in force: whatever is appended to the history
  afterwards short of another deadline for the project, the guard of funding and distribution lets
  requests pass before the deadline and refuses them with status 410 from it on, and never refuses
  when the deadline was cleared; an accepted deadline lies after the creation and in the future.
\<close>

theorem deadline_in_force:
  assumes "ascending eh_createdAt asc"
    and "configureProjectExpiration asc at now rows p actor d created = Inr (rows1, x)"
    and "sorted_wrt (\<lambda>a b. eh_createdAt a < eh_createdAt b) (rows1 @ later)"
    and "filter (\<lambda>r. eh_projectId r = p \<and> eh_action r \<in> set EXPIRATION_ACTIONS) later = []"
  shows "snd (assertProjectNotExpired asc at2 t (rows1 @ later) p) =
      (case pe_expiresAt x of None \<Rightarrow> None | Some deadline \<Rightarrow> if t < deadline then None else Some (ApiError ''SPLIT_EXPIRED'' 410))
    \<and> (case pe_expiresAt x of None \<Rightarrow> d = None | Some deadline \<Rightarrow> d = Some (Some deadline) \<and> now < deadline \<and> pe_createdAt x < deadline)"
proof -
  from assms(2) obtain r where r: "rows1 = rows @ [r]" "eh_projectId r = p" "eh_action r \<in> set EXPIRATION_ACTIONS"
    "eh_changes_expiresAt r = pe_expiresAt x"
    and ok: "case pe_expiresAt x of None \<Rightarrow> d = None | Some t \<Rightarrow> d = Some (Some t) \<and> now < t \<and> pe_createdAt x < t"
    by (rule configure_cases)
  let ?es = "filter (\<lambda>r. eh_projectId r = p \<and> eh_action r \<in> set EXPIRATION_ACTIONS) (rows1 @ later)"
  have es: "?es \<noteq> []" "last ?es = r" using r assms(4) by simp_all
  obtain y where y: "getProjectExpiration asc (rows1 @ later) p = Some y" "pe_expiresAt y = pe_expiresAt x"
    using deadline_rows [OF assms(1,3) refl es(1)] es(2) r(4) by auto
  then have "snd (assertProjectNotExpired asc at2 t (rows1 @ later) p) =
      (case pe_expiresAt x of None \<Rightarrow> None | Some deadline \<Rightarrow> if t < deadline then None else Some (ApiError ''SPLIT_EXPIRED'' 410))"
    by (simp add: assertProjectNotExpired_def split: option.splits)
  with ok show ?thesis by simp
qed

definition oldest_first :: history_order where
  "oldest_first rows = sort_by (\<lambda>a b. eh_createdAt a \<le> eh_createdAt b) rows"

lemma oldest_first_law: "ascending eh_createdAt oldest_first"
proof -
  have "sorted_wrt (\<lambda>a b. eh_createdAt a \<le> eh_createdAt b) (oldest_first rows)" for rows
    unfolding oldest_first_def by (rule sorted_sort_by) auto
  then show ?thesis by (simp add: ascending_def oldest_first_def sorted_map)
qed

theorem deadline_in_force_witness:
  "\<exists>rows1 x. configureProjectExpiration oldest_first 3 3 [] ''p'' ''GA'' (Some (Some 9)) None = Inr (rows1, x)
    \<and> snd (assertProjectNotExpired oldest_first 8 8 rows1 ''p'') = None
    \<and> snd (assertProjectNotExpired oldest_first 9 9 rows1 ''p'') = Some (ApiError ''SPLIT_EXPIRED'' 410)"
proof -
  let ?rows = "fst (projr (configureProjectExpiration oldest_first 3 3 [] ''p'' ''GA'' (Some (Some 9)) None))"
  let ?x = "\<lparr>pe_projectId = ''p'', pe_createdAt = 3, pe_expiresAt = Some 9\<rparr>"
  have c: "configureProjectExpiration oldest_first 3 3 [] ''p'' ''GA'' (Some (Some 9)) None = Inr (?rows, ?x)" by code_simp
  have s: "sorted_wrt (\<lambda>a b. eh_createdAt a < eh_createdAt b) (?rows @ [])" by code_simp
  show ?thesis
    using deadline_in_force [OF oldest_first_law c s, of 8 8] deadline_in_force [OF oldest_first_law c s, of 9 9] c by auto
qed

text \<open>The crossing of a deadline is recorded once, also when the guard is called again or after a new deadline.\<close>

lemma reached_recorded_once:
  assumes "length (filter (\<lambda>r. eh_projectId r = p \<and> eh_action r = ''expiration.reached'') rows) \<le> 1"
  shows "length (filter (\<lambda>r. eh_projectId r = p \<and> eh_action r = ''expiration.reached'')
     (fst (assertProjectNotExpired asc at now rows p))) \<le> 1"
  using assms
  by (auto simp: assertProjectNotExpired_def recordExpirationEvent_def find_None_all split: option.splits)

end
