(* ===== verification/Request_Schemas.thy ===== *)
theory Request_Schemas
  imports Client_Amounts
begin

text \<open>
  The request schemas of the split API (\<open>backend/src/schemas/splits.ts\<close>) with the text cleaning of
  \<open>lib/sanitize.ts\<close>. A body arrives with the JSON types its schema declares; the model holds the
  constraints the schemas put on the values. Validation of Stellar addresses is the parser of the
  SDK and a parameter. A schema either refuses the body (\<open>None\<close>) or returns the value the handler
  goes on with, which differs from the input where the schema transforms it.
\<close>

section \<open>Cleaning of texts\<close>

fun find_from :: "string \<Rightarrow> string \<Rightarrow> (string \<times> string) option" where
  "find_from p [] = (if p = [] then Some ([], []) else None)"
| "find_from p (c # s) =
     (if starts_with (to_lower (c # s)) p then Some ([], drop (length p) (c # s))
      else map_option (apfst ((#) c)) (find_from p s))"

lemma find_from_length: "find_from p s = Some (a, b) \<Longrightarrow> length b \<le> length s"
  by (induction s arbitrary: a b) (auto split: if_splits)

text \<open>
  \<open>replace(/<script[\s\S]*?>([\s\S]*?)<\/script>/gi, "$1")\<close>: from an opening tag, the first closing
  angle bracket and then the first closing tag end the match.
\<close>

function strip_scripts :: "string \<Rightarrow> string" where
  "strip_scripts [] = []"
| "strip_scripts (c # s) =
     (if starts_with (to_lower (c # s)) ''<script''
      then case find_from ''>'' (drop 7 (c # s)) of
          None \<Rightarrow> c # strip_scripts s
        | Some (_, body) \<Rightarrow>
          (case find_from ''</script>'' body of
             None \<Rightarrow> c # strip_scripts s
           | Some (inner, rest) \<Rightarrow> inner @ strip_scripts rest)
      else c # strip_scripts s)"
  by pat_completeness auto
termination
  by (relation "measure length") (auto dest!: find_from_length)

text \<open>\<open>replace(/<[^>]+>/g, " ")\<close>.\<close>

function strip_tags :: "string \<Rightarrow> string" where
  "strip_tags [] = []"
| "strip_tags (c # s) =
     (let body = takeWhile (\<lambda>x. x \<noteq> CHR ''>'') s; rest = dropWhile (\<lambda>x. x \<noteq> CHR ''>'') s
      in if c = CHR ''<'' \<and> body \<noteq> [] \<and> rest \<noteq> [] then CHR '' '' # strip_tags (tl rest)
         else c # strip_tags s)"
  by pat_completeness auto
termination
proof (relation "measure length", goal_cases)
  case (2 c s body rest)
  have "length (dropWhile (\<lambda>x. x \<noteq> CHR ''>'') s) \<le> length s" by (rule length_dropWhile_le)
  with 2 show ?case by simp
qed auto

text \<open>\<open>replace(/\s+/g, " ")\<close>.\<close>

fun collapse_spaces :: "string \<Rightarrow> string" where
  "collapse_spaces [] = []"
| "collapse_spaces [c] = [if is_js_space c then CHR '' '' else c]"
| "collapse_spaces (c # d # s) =
     (if is_js_space c then if is_js_space d then collapse_spaces (d # s) else CHR '' '' # collapse_spaces (d # s)
      else c # collapse_spaces (d # s))"

definition sanitizeString :: "string \<Rightarrow> string" where
  "sanitizeString input = trim (collapse_spaces (strip_tags (strip_scripts input)))"

section \<open>Fields\<close>

definition safe_char :: "char \<Rightarrow> bool" where
  "safe_char c = (is_letter c \<or> is_digit c \<or> is_js_space c \<or> c \<in> set ''-_.,&()'' \<or> c = CHR 0x27)"

definition dangerousPatterns :: "string list" where
  "dangerousPatterns = [''<script'', ''onclick'', ''onerror'', ''onload'', ''javascript:'', ''on[a-z]+='',
     ''eval('', ''expression('', ''vbscript:'', ''data:text/html'']"

definition validateSafeText :: "string \<Rightarrow> bool" where
  "validateSafeText value = (list_all safe_char value
     \<and> \<not> list_ex (includes_str (to_lower value)) dangerousPatterns)"

definition safe_text :: "nat \<Rightarrow> string \<Rightarrow> bool" where
  "safe_text max_length value = (validateSafeText value \<and> 1 \<le> length value \<and> length value \<le> max_length)"

definition sanitized_field :: "nat \<Rightarrow> string \<Rightarrow> string option" where
  "sanitized_field max_length value =
     (let clean = sanitizeString value in if safe_text max_length clean then Some clean else None)"

definition titleField :: "string \<Rightarrow> string option" where
  "titleField = sanitized_field 128"

definition projectTypeField :: "string \<Rightarrow> string option" where
  "projectTypeField = sanitized_field 32"

definition stellarAddressSchema :: "(string \<Rightarrow> bool) \<Rightarrow> string \<Rightarrow> bool" where
  "stellarAddressSchema address_ok value = (1 \<le> length value \<and> address_ok value)"

definition projectIdParamSchema :: "string \<Rightarrow> bool" where
  "projectIdParamSchema value = (1 \<le> length value \<and> length value \<le> 32
     \<and> list_all (\<lambda>c. is_letter c \<or> is_digit c \<or> c = CHR ''_'') value)"

section \<open>Bodies\<close>

text \<open>A number of the JSON body: the basis points and the amounts need not be integers.\<close>

definition is_integer :: "rat \<Rightarrow> bool" where
  "is_integer q = (of_int \<lfloor>q\<rfloor> = q)"

lemma is_integer_of_int [simp]: "is_integer (of_int i)"
  by (simp add: is_integer_def)

record collaborator_body =
  cb_address :: string
  cb_alias :: string
  cb_basisPoints :: rat

definition collaboratorSchema :: "(string \<Rightarrow> bool) \<Rightarrow> collaborator_body \<Rightarrow> preview_collaborator option" where
  "collaboratorSchema address_ok c =
     (if stellarAddressSchema address_ok (cb_address c) \<and> safe_text 100 (cb_alias c)
         \<and> is_integer (cb_basisPoints c) \<and> 0 < cb_basisPoints c \<and> cb_basisPoints c \<le> 10000
      then Some \<lparr>pc_address = cb_address c, pc_alias = cb_alias c, pc_basisPoints = \<lfloor>cb_basisPoints c\<rfloor>\<rparr>
      else None)"

text \<open>The refinement both schemas with collaborators share.\<close>

definition split_refinement :: "preview_collaborator list \<Rightarrow> bool" where
  "split_refinement cs \<longleftrightarrow> sum_list (map pc_basisPoints cs) = 10000 \<and> distinct (map pc_address cs)"

definition collaborators_field :: "(string \<Rightarrow> bool) \<Rightarrow> collaborator_body list \<Rightarrow> preview_collaborator list option" where
  "collaborators_field address_ok cs =
     (case those (map (collaboratorSchema address_ok) cs) of
        None \<Rightarrow> None
      | Some parsed \<Rightarrow> if 2 \<le> length cs \<and> split_refinement parsed then Some parsed else None)"

record create_body =
  cr_owner :: string
  cr_projectId :: string
  cr_title :: string
  cr_projectType :: string
  cr_token :: string
  cr_collaborators :: "collaborator_body list"
  cr_expiresAt :: "instant option"

record create_input =
  ci_owner :: string
  ci_projectId :: string
  ci_title :: string
  ci_projectType :: string
  ci_token :: string
  ci_collaborators :: "preview_collaborator list"
  ci_expiresAt :: "instant option"

text \<open>A deadline text that is a well-formed instant; \<open>None\<close> when it is left out.\<close>

definition createSplitSchema :: "(string \<Rightarrow> bool) \<Rightarrow> instant \<Rightarrow> create_body \<Rightarrow> create_input option" where
  "createSplitSchema address_ok now b =
     (case (titleField (cr_title b), projectTypeField (cr_projectType b), collaborators_field address_ok (cr_collaborators b)) of
        (Some title, Some ptype, Some cs) \<Rightarrow>
          if stellarAddressSchema address_ok (cr_owner b) \<and> projectIdParamSchema (cr_projectId b)
             \<and> stellarAddressSchema address_ok (cr_token b)
             \<and> (case cr_expiresAt b of None \<Rightarrow> True | Some d \<Rightarrow> now < d)
          then Some \<lparr>ci_owner = cr_owner b, ci_projectId = cr_projectId b, ci_title = title, ci_projectType = ptype,
            ci_token = cr_token b, ci_collaborators = cs, ci_expiresAt = cr_expiresAt b\<rparr>
          else None
      | _ \<Rightarrow> None)"

definition updateCollaboratorsSchema ::
  "(string \<Rightarrow> bool) \<Rightarrow> string \<Rightarrow> collaborator_body list \<Rightarrow> preview_collaborator list option" where
  "updateCollaboratorsSchema address_ok owner cs =
     (if stellarAddressSchema address_ok owner then collaborators_field address_ok cs else None)"

definition updateMetadataSchema :: "(string \<Rightarrow> bool) \<Rightarrow> string \<Rightarrow> string \<Rightarrow> string \<Rightarrow> (string \<times> string) option" where
  "updateMetadataSchema address_ok owner title projectType =
     (case (titleField title, projectTypeField projectType) of
        (Some t, Some p) \<Rightarrow> if stellarAddressSchema address_ok owner then Some (t, p) else None
      | _ \<Rightarrow> None)"

definition depositSchema :: "(string \<Rightarrow> bool) \<Rightarrow> string \<Rightarrow> rat \<Rightarrow> string \<Rightarrow> bool" where
  "depositSchema address_ok sender amount token =
     (stellarAddressSchema address_ok sender \<and> 0 < amount \<and> stellarAddressSchema address_ok token)"

definition withdrawUnallocatedSchema :: "(string \<Rightarrow> bool) \<Rightarrow> string \<Rightarrow> string \<Rightarrow> string \<Rightarrow> rat \<Rightarrow> bool" where
  "withdrawUnallocatedSchema address_ok admin token dest amount =
     (list_all (stellarAddressSchema address_ok) [admin, token, dest] \<and> 0 < amount)"

text \<open>Window of a listing: an optional start and limit with their defaults and the maximal limit. An integer is a safe one.\<close>

definition window_schema :: "int \<Rightarrow> int \<Rightarrow> rat option \<Rightarrow> rat option \<Rightarrow> (int \<times> int) option" where
  "window_schema max_limit default_limit start limit =
     (let s = default_to 0 start; l = default_to (of_int default_limit) limit
      in if is_integer s \<and> 0 \<le> s \<and> s \<le> 2 ^ 53 - 1 \<and> is_integer l \<and> 1 \<le> l \<and> l \<le> of_int max_limit then Some (\<lfloor>s\<rfloor>, \<lfloor>l\<rfloor>) else None)"

definition listProjectsSchema :: "rat option \<Rightarrow> rat option \<Rightarrow> (int \<times> int) option" where
  "listProjectsSchema = window_schema 100 10"

definition allowlistQuerySchema :: "rat option \<Rightarrow> rat option \<Rightarrow> (int \<times> int) option" where
  "allowlistQuerySchema = window_schema 200 100"

section \<open>Cleaned texts\<close>

lemma strip_scripts_clean: "CHR ''<'' \<notin> set s \<Longrightarrow> strip_scripts s = s"
proof (induction s)
  case (Cons c s)
  have "lower_char c \<noteq> CHR ''<''"
  proof
    assume "lower_char c = CHR ''<''"
    then have "of_char (lower_char c) = (60 :: nat)" by simp
    then have "of_char c = (60 :: nat)" by (auto simp: lower_char_def Let_def split: if_splits)
    then have "c = char_of (60 :: nat)" by (metis char_of_char)
    moreover have "char_of (60 :: nat) = CHR ''<''" by code_simp
    ultimately show False using Cons.prems by simp
  qed
  then have "\<not> starts_with (to_lower (c # s)) ''<script''" by (simp add: starts_with_def to_lower_def)
  with Cons show ?case by simp
qed simp

lemma strip_tags_clean: "CHR ''<'' \<notin> set s \<Longrightarrow> strip_tags s = s"
  by (induction s) (auto simp: Let_def)

definition collapsed :: "string \<Rightarrow> bool" where
  "collapsed s \<longleftrightarrow> successively (\<lambda>c d. \<not> (is_js_space c \<and> is_js_space d)) s
     \<and> (\<forall>c \<in> set s. is_js_space c \<longrightarrow> c = CHR '' '')"

lemma space_is_space [simp]: "is_js_space CHR '' ''"
  by (simp add: is_js_space_def)

lemma collapse_hd:
  "collapse_spaces (d # s) \<noteq> [] \<and> hd (collapse_spaces (d # s)) = (if is_js_space d then CHR '' '' else d)"
proof (induction s arbitrary: d)
  case (Cons c s)
  show ?case using Cons.IH [of c] by auto
qed simp

lemma collapsed_collapse: "collapsed (collapse_spaces s)"
proof (induction s rule: collapse_spaces.induct)
  case (3 c d s)
  have hd: "hd (collapse_spaces (d # s)) = (if is_js_space d then CHR '' '' else d)" "collapse_spaces (d # s) \<noteq> []"
    using collapse_hd [of d s] by auto
  show ?case
    using 3 hd by (auto simp: collapsed_def successively_Cons)
qed (auto simp: collapsed_def)

lemma collapse_collapsed: "collapsed s \<Longrightarrow> collapse_spaces s = s"
  by (induction s rule: collapse_spaces.induct) (auto simp: collapsed_def)

lemma collapsed_append: "collapsed (a @ b) \<Longrightarrow> collapsed a \<and> collapsed b"
  by (auto simp: collapsed_def successively_append_iff)

lemma collapsed_drop: "collapsed s \<Longrightarrow> collapsed (dropWhile P s)"
  using collapsed_append [of "takeWhile P s" "dropWhile P s"] by simp

lemma collapsed_rev: "collapsed (rev s) = collapsed s"
proof -
  have "(\<lambda>x y. \<not> (is_js_space y \<and> is_js_space x)) = (\<lambda>x y. \<not> (is_js_space x \<and> is_js_space y))" by auto
  then show ?thesis by (simp only: collapsed_def successively_rev set_rev)
qed

lemma collapsed_trim: "collapsed s \<Longrightarrow> collapsed (trim s)"
  by (simp add: trim_def trim_start_def collapsed_rev collapsed_drop)

lemma safe_no_tag: "validateSafeText s \<Longrightarrow> CHR ''<'' \<notin> set s"
  by (auto simp: validateSafeText_def list_all_iff safe_char_def is_letter_def is_digit_def is_js_space_def Let_def)

text \<open>A text the fields accept is one they accept again and leave alone.\<close>

lemma sanitized_again:
  assumes "sanitized_field n v = Some t"
  shows "sanitized_field n t = Some t"
proof -
  have t: "t = sanitizeString v" "safe_text n t" using assms by (auto simp: sanitized_field_def Let_def split: if_splits)
  then have tag: "CHR ''<'' \<notin> set t" by (intro safe_no_tag) (simp add: safe_text_def)
  have "collapsed t" unfolding t(1) sanitizeString_def by (intro collapsed_trim collapsed_collapse)
  moreover have "trim t = t" using t(1) by (simp add: sanitizeString_def)
  ultimately have "sanitizeString t = t"
    by (simp add: sanitizeString_def strip_scripts_clean [OF tag] strip_tags_clean [OF tag] collapse_collapsed)
  with t(2) show ?thesis by (simp add: sanitized_field_def)
qed

section \<open>Accepted collaborators\<close>

lemma those_map: "those (map f xs) = Some ys \<longleftrightarrow> list_all2 (\<lambda>x y. f x = Some y) xs ys"
proof (induction xs arbitrary: ys)
  case (Cons x xs)
  then show ?case by (cases ys) (auto split: option.splits)
qed auto

definition accepted_collaborators :: "(string \<Rightarrow> bool) \<Rightarrow> preview_collaborator list \<Rightarrow> bool" where
  "accepted_collaborators address_ok ps \<longleftrightarrow> 2 \<le> length ps \<and> sum_list (map pc_basisPoints ps) = 10000
     \<and> distinct (map pc_address ps)
     \<and> list_all (\<lambda>p. address_ok (pc_address p) \<and> safe_text 100 (pc_alias p) \<and> 0 < pc_basisPoints p \<and> pc_basisPoints p \<le> 10000) ps"

definition as_body :: "preview_collaborator \<Rightarrow> collaborator_body" where
  "as_body p = \<lparr>cb_address = pc_address p, cb_alias = pc_alias p, cb_basisPoints = of_int (pc_basisPoints p)\<rparr>"

lemma collaborator_parsed:
  "collaboratorSchema address_ok c = Some p \<longleftrightarrow> c = as_body p \<and> pc_address p \<noteq> [] \<and> address_ok (pc_address p)
     \<and> safe_text 100 (pc_alias p) \<and> 0 < pc_basisPoints p \<and> pc_basisPoints p \<le> 10000"
proof -
  show ?thesis
  proof
    assume s: "collaboratorSchema address_ok c = Some p"
    then have p: "p = \<lparr>pc_address = cb_address c, pc_alias = cb_alias c, pc_basisPoints = \<lfloor>cb_basisPoints c\<rfloor>\<rparr>"
      and ok: "is_integer (cb_basisPoints c)" "0 < cb_basisPoints c" "cb_basisPoints c \<le> 10000"
        "stellarAddressSchema address_ok (cb_address c)" "safe_text 100 (cb_alias c)"
      by (auto simp: collaboratorSchema_def split: if_splits)
    obtain k where k: "cb_basisPoints c = of_int k" using ok(1) by (metis is_integer_def)
    with ok p show "c = as_body p \<and> pc_address p \<noteq> [] \<and> address_ok (pc_address p)
       \<and> safe_text 100 (pc_alias p) \<and> 0 < pc_basisPoints p \<and> pc_basisPoints p \<le> 10000"
      by (auto simp: as_body_def stellarAddressSchema_def)
  next
    assume "c = as_body p \<and> pc_address p \<noteq> [] \<and> address_ok (pc_address p)
       \<and> safe_text 100 (pc_alias p) \<and> 0 < pc_basisPoints p \<and> pc_basisPoints p \<le> 10000"
    then show "collaboratorSchema address_ok c = Some p"
      by (auto simp: collaboratorSchema_def as_body_def stellarAddressSchema_def Suc_le_eq)
  qed
qed

lemma collaborators_field_Some:
  "collaborators_field address_ok cs = Some ps \<longleftrightarrow>
     cs = map as_body ps \<and> accepted_collaborators address_ok ps \<and> list_all (\<lambda>p. pc_address p \<noteq> []) ps"
proof -
  have each: "list_all2 (\<lambda>c p. collaboratorSchema address_ok c = Some p) cs qs \<longleftrightarrow>
    cs = map as_body qs \<and> list_all (\<lambda>p. pc_address p \<noteq> [] \<and> address_ok (pc_address p)
      \<and> safe_text 100 (pc_alias p) \<and> 0 < pc_basisPoints p \<and> pc_basisPoints p \<le> 10000) qs" for qs
  proof (induction cs arbitrary: qs)
    case (Cons c cs)
    then show ?case by (cases qs) (auto simp: collaborator_parsed)
  qed auto
  have "collaborators_field address_ok cs = Some ps \<longleftrightarrow>
     list_all2 (\<lambda>c p. collaboratorSchema address_ok c = Some p) cs ps \<and> 2 \<le> length cs \<and> split_refinement ps"
    unfolding those_map [symmetric] by (auto simp: collaborators_field_def split: option.splits if_splits)
  then show ?thesis
    unfolding each by (auto simp: accepted_collaborators_def split_refinement_def list_all_iff)
qed

end
