(* ===== verification/Error_Translation.thy ===== *)
theory Error_Translation
  imports Js_Text
begin

text \<open>
  Errors of the API: the translation of Soroban failures (\<open>backend/src/lib/errors.ts\<close>) and the
  status and code the error middleware answers with (\<open>backend/src/middleware/error.ts\<close>). The texts
  for people (messages, remediation hints) and the log lines are left out.
\<close>

section \<open>Translation of Soroban failures\<close>

record AppError =
  ae_type :: string
  ae_code :: string
  ae_statusCode :: "int option"

definition app_error :: "string \<Rightarrow> string \<Rightarrow> AppError" where
  "app_error t c = \<lparr>ae_type = t, ae_code = c, ae_statusCode = None\<rparr>"

text \<open>
  A caught value: one of the two typed errors of the RPC boundary, or anything else, by its message
  and the error text of a simulation result when it carries one.
\<close>

datatype soroban_failure =
    F_RpcResponseValidation
  | F_RpcJsonRpc
  | F_other string "string option"

definition RpcResponseValidationError :: AppError where
  "RpcResponseValidationError = \<lparr>ae_type = ''RPC'', ae_code = ''RPC_RESPONSE_INVALID'', ae_statusCode = Some 502\<rparr>"

definition RpcJsonRpcError :: AppError where
  "RpcJsonRpcError = \<lparr>ae_type = ''RPC'', ae_code = ''RPC_UPSTREAM_ERROR'', ae_statusCode = Some 502\<rparr>"

definition CONTRACT_ERROR_MAP :: "(nat \<times> string) list" where
  "CONTRACT_ERROR_MAP =
     [(1, ''PROJECT_EXISTS''), (2, ''NOT_FOUND''), (3, ''UNAUTHORIZED''), (4, ''INVALID_SPLIT''),
      (5, ''TOO_FEW_COLLABORATORS''), (6, ''ZERO_SHARE''), (7, ''NO_BALANCE''), (8, ''ALREADY_LOCKED''),
      (9, ''PROJECT_LOCKED''), (10, ''DUPLICATE_COLLABORATOR''), (11, ''INVALID_AMOUNT''), (12, ''TOKEN_NOT_ALLOWED''),
      (13, ''ADMIN_NOT_SET''), (14, ''ARITHMETIC_OVERFLOW''), (15, ''INSUFFICIENT_UNALLOCATED''),
      (16, ''DISTRIBUTIONS_PAUSED'')]"

definition code_prefix :: string where
  "code_prefix = ''Error(Contract, Code(''"

text \<open>The first match of \<open>/Error\(Contract, Code\((\d+)\)\)/\<close>.\<close>

definition code_here :: "string \<Rightarrow> nat option" where
  "code_here s =
     (if starts_with s code_prefix
      then let rest = drop (length code_prefix) s; digits = takeWhile is_digit rest
        in if digits \<noteq> [] \<and> starts_with (drop (length digits) rest) ''))'' then Some (text_nat digits) else None
      else None)"

fun CONTRACT_ERROR_PATTERN :: "string \<Rightarrow> nat option" where
  "CONTRACT_ERROR_PATTERN [] = None"
| "CONTRACT_ERROR_PATTERN (c # s) = or_else (code_here (c # s)) (CONTRACT_ERROR_PATTERN s)"

definition translateRawSorobanError :: "string \<Rightarrow> AppError option" where
  "translateRawSorobanError raw =
     (case Option.bind (CONTRACT_ERROR_PATTERN raw) (map_of CONTRACT_ERROR_MAP) of
        Some code \<Rightarrow> Some (app_error ''CONTRACT'' code)
      | None \<Rightarrow>
        if includes_str raw ''Error(Auth,'' then Some (app_error ''AUTH'' ''UNAUTHORIZED'')
        else if includes_str raw ''Error(Storage, Code(MissingValue))'' then Some (app_error ''ACCOUNT_STATE'' ''CONTRACT_NOT_FOUND'')
        else if includes_str raw ''Error(Budget,'' then Some (app_error ''RPC'' ''RESOURCE_LIMIT_EXCEEDED'')
        else None)"

definition translateSorobanError :: "soroban_failure \<Rightarrow> AppError" where
  "translateSorobanError err =
     (case err of
        F_RpcResponseValidation \<Rightarrow> RpcResponseValidationError
      | F_RpcJsonRpc \<Rightarrow> RpcJsonRpcError
      | F_other message simulation \<Rightarrow>
        if list_ex (includes_str message) [''fetch failed'', ''ECONNREFUSED'', ''Network Error'']
        then app_error ''RPC'' ''RPC_CONNECTIVITY''
        else let simulationError = (case simulation of Some t \<Rightarrow> t | None \<Rightarrow> []);
                 raw = (if simulationError \<noteq> [] then simulationError else message)
          in case (if raw \<noteq> [] then translateRawSorobanError raw else None) of
               Some e \<Rightarrow> e
             | None \<Rightarrow>
               if raw \<noteq> [] \<and> simulationError \<noteq> [] then app_error ''RPC'' ''SIMULATION_FAILED''
               else if list_ex (includes_str message) [''account not found'', ''op_no_trust'']
                 then app_error ''ACCOUNT_STATE'' ''ACCOUNT_NOT_FOUND''
               else if includes_str message ''not found'' then app_error ''ACCOUNT_STATE'' ''CONTRACT_NOT_FOUND''
               else app_error ''INTERNAL'' ''INTERNAL_ERROR'')"

section \<open>The error middleware\<close>

definition resolveAppErrorStatus :: "AppError \<Rightarrow> int" where
  "resolveAppErrorStatus e =
     (case ae_statusCode e of
        Some s \<Rightarrow> s
      | None \<Rightarrow>
        if ae_code e = ''NOT_FOUND'' then 404
        else if ae_type e = ''VALIDATION'' then 400
        else if ae_type e = ''AUTH'' then 401
        else if ae_type e = ''CONFLICT'' then 409
        else 500)"

text \<open>A thrown value as the middleware tells them apart: the last case by its fields \<open>type\<close>, \<open>status\<close>, \<open>code\<close>.\<close>

datatype raised =
    Raised_zod
  | Raised_app AppError
  | Raised_timeout
  | Raised_rpc int
  | Raised_other "string option" "int option" "string option"

definition errorHandler :: "bool \<Rightarrow> raised \<Rightarrow> (int \<times> string) option" where
  "errorHandler headersSent err =
     (if headersSent then None
      else Some (case err of
        Raised_zod \<Rightarrow> (400, ''VALIDATION_ERROR'')
      | Raised_app e \<Rightarrow> (resolveAppErrorStatus e, ae_code e)
      | Raised_timeout \<Rightarrow> (504, ''RPC_TIMEOUT'')
      | Raised_rpc status \<Rightarrow> (status, ''RPC_ERROR'')
      | Raised_other type status code \<Rightarrow>
        if type = Some ''entity.parse.failed'' then (400, ''INVALID_JSON'')
        else if type = Some ''entity.too.large'' \<and> status = Some 413 then (413, ''PAYLOAD_TOO_LARGE'')
        else if code = Some ''23505'' then (409, ''DUPLICATE_RESOURCE'')
        else (500, ''INTERNAL_ERROR'')))"

section \<open>What is recognised\<close>

lemma starts_with_append [simp]: "starts_with (p @ s) p"
  by (simp add: starts_with_def)

lemma starts_with_drop: "starts_with s (p @ q) \<Longrightarrow> starts_with (drop (length p) s) q"
proof -
  assume "starts_with s (p @ q)"
  then have "drop (length p) (take (length p + length q) s) = q" by (simp add: starts_with_def)
  then show ?thesis by (simp add: starts_with_def take_drop add.commute)
qed

lemma code_here_exact:
  assumes "digits \<noteq> []" "list_all is_digit digits"
  shows "code_here (code_prefix @ digits @ ''))'' @ s) = Some (text_nat digits)"
proof -
  have "takeWhile is_digit (digits @ ''))'' @ s) = digits"
    using assms(2) by (simp add: takeWhile_append2 list_all_iff is_digit_def)
  with assms(1) show ?thesis by (simp add: code_here_def Let_def starts_with_def)
qed

text \<open>A contract error is found behind any text that holds no match of its own.\<close>

lemma pattern_found:
  assumes "digits \<noteq> []" "list_all is_digit digits"
    and "\<And>i. i < length pre \<Longrightarrow> code_here (drop i (pre @ code_prefix @ digits @ ''))'' @ post)) = None"
  shows "CONTRACT_ERROR_PATTERN (pre @ code_prefix @ digits @ ''))'' @ post) = Some (text_nat digits)"
  using assms(3)
proof (induction pre)
  case Nil
  have "CONTRACT_ERROR_PATTERN (code_prefix @ t) = or_else (code_here (code_prefix @ t)) (CONTRACT_ERROR_PATTERN (tl (code_prefix @ t)))" for t
    by (simp add: code_prefix_def)
  then show ?case using code_here_exact [OF assms(1,2), of post] by simp
next
  case (Cons c pre)
  from Cons.prems [of 0] have "code_here (c # pre @ code_prefix @ digits @ ''))'' @ post) = None" by simp
  moreover have "CONTRACT_ERROR_PATTERN (pre @ code_prefix @ digits @ ''))'' @ post) = Some (text_nat digits)"
  proof (rule Cons.IH)
    fix i assume "i < length pre"
    then show "code_here (drop i (pre @ code_prefix @ digits @ ''))'' @ post)) = None" using Cons.prems [of "Suc i"] by simp
  qed
  ultimately show ?case by simp
qed

text \<open>Without the text \<open>Code(\<close> there is no match.\<close>

lemma includes_suffix: "includes_str (drop n s) p \<Longrightarrow> includes_str s p"
proof (induction s arbitrary: n)
  case (Cons c s)
  then show ?case by (cases n) auto
qed simp

lemma includes_prefix: "starts_with s p \<Longrightarrow> includes_str s p"
  by (cases s) (auto simp: starts_with_def)

lemma pattern_needs_code:
  assumes "CONTRACT_ERROR_PATTERN s = Some n"
  shows "includes_str s ''Code(''"
  using assms
proof (induction s)
  case (Cons c s)
  show ?case
  proof (cases "code_here (c # s)")
    case None
    with Cons show ?thesis by simp
  next
    case (Some m)
    then have "starts_with (c # s) code_prefix" by (auto simp: code_here_def split: if_splits)
    then have "starts_with (c # s) (''Error(Contract, '' @ ''Code('')" by (simp add: code_prefix_def)
    then have "starts_with (drop (length ''Error(Contract, '') (c # s)) ''Code(''" by (rule starts_with_drop)
    then have "includes_str (drop (length ''Error(Contract, '') (c # s)) ''Code(''" by (rule includes_prefix)
    then show ?thesis by (rule includes_suffix)
  qed
qed simp

text \<open>
  The translation knows the contract errors only in the form \<open>Code(n)\<close>: a failure whose texts do not
  hold that form, such as \<open>Error(Contract, #1)\<close>, is never reported as a contract error.
\<close>

lemma hash_codes_unmapped:
  assumes "\<not> includes_str message ''Code(''" "\<forall>t. simulation = Some t \<longrightarrow> \<not> includes_str t ''Code(''"
  shows "ae_type (translateSorobanError (F_other message simulation)) \<noteq> ''CONTRACT''"
proof -
  let ?raw = "if (case simulation of Some t \<Rightarrow> t | None \<Rightarrow> []) \<noteq> [] then (case simulation of Some t \<Rightarrow> t | None \<Rightarrow> []) else message"
  have "\<not> includes_str ?raw ''Code(''" using assms by (auto split: option.splits)
  then have "CONTRACT_ERROR_PATTERN ?raw = None" using pattern_needs_code [of ?raw] by (cases "CONTRACT_ERROR_PATTERN ?raw") auto
  then have raw: "translateRawSorobanError ?raw = None \<or> (\<exists>e. translateRawSorobanError ?raw = Some e \<and> ae_type e \<noteq> ''CONTRACT'')"
    unfolding translateRawSorobanError_def by (simp add: app_error_def)
  show ?thesis
    using raw unfolding translateSorobanError_def soroban_failure.case Let_def
    by (auto simp: app_error_def split: option.splits)
qed

lemma documented_form_lost:
  "ae_code (translateSorobanError (F_other ''HostError: Error(Contract, #1)'' (Some ''HostError: Error(Contract, #1)''))) = ''SIMULATION_FAILED''"
  "ae_code (translateSorobanError (F_other ''simulation failed'' (Some ''HostError: Error(Contract, Code(1))''))) = ''PROJECT_EXISTS''"
  by code_simp+

text \<open>
  A contract error keeps its code but is answered as an internal failure, except for a missing project:
  the status depends on the type, and the type \<open>CONTRACT\<close> has none.
\<close>

lemma contract_errors_status:
  assumes "(n, code) \<in> set CONTRACT_ERROR_MAP"
  shows "errorHandler False (Raised_app (app_error ''CONTRACT'' code)) = Some (if n = 2 then 404 else 500, code)"
  using assms by (auto simp: CONTRACT_ERROR_MAP_def errorHandler_def resolveAppErrorStatus_def app_error_def)

end
