(* ===== verification/Split_Builders.thy ===== *)
theory Split_Builders
  imports Request_Schemas Read_Cache Project_Records Error_Translation "HOL-Library.Monad_Syntax"
begin

text \<open>
  Building the unsigned contract transactions of the split API
  (\<open>backend/src/services/splits.service.ts\<close>, \<open>services/contract-helpers.ts\<close>) with the reading of
  simulation results (\<open>services/rpc-response-validation.ts\<close>).

  The Stellar SDK is the parameter \<open>sdk\<close> (address parser, conversions, configuration), what the
  network answers is the parameter \<open>chain\<close>. A function that reads the network more than once, with
  other requests in between, takes one \<open>moment\<close> per read: what other requests did to the state
  before it, the instant, the answers of the network, the promise a new fetch gets, what a joined
  fetch of another request turns out to give, and whether the database answers. The state is the
  read cache and the edit history of the projects.
\<close>

section \<open>Values\<close>

datatype ScVal =
    Sc_symbol string | Sc_string string | Sc_address string | Sc_u32 int | Sc_i128 int
  | Sc_vec "ScVal list" | Sc_map "(ScVal \<times> ScVal) list" | Sc_other string

datatype native =
    N_null | N_undefined | N_bool bool | N_number rat | N_bigint int | N_string string
  | N_array "native list" | N_object "(string \<times> native) list"

primrec serializeBigInts :: "native \<Rightarrow> native" where
  "serializeBigInts N_null = N_null"
| "serializeBigInts N_undefined = N_undefined"
| "serializeBigInts (N_bool b) = N_bool b"
| "serializeBigInts (N_number n) = N_number n"
| "serializeBigInts (N_bigint i) = N_string ((if i < 0 then ''-'' else '''') @ nat_text (nat \<bar>i\<bar>))"
| "serializeBigInts (N_string s) = N_string s"
| "serializeBigInts (N_array vs) = N_array (map serializeBigInts vs)"
| "serializeBigInts (N_object kvs) = N_object (map (map_prod id serializeBigInts) kvs)"

text \<open>The entries a spread \<open>{...value}\<close> copies.\<close>

fun own_entries :: "native \<Rightarrow> (string, native) jmap" where
  "own_entries (N_object kvs) = kvs"
| "own_entries (N_array vs) = zip (map nat_text [0..<length vs]) vs"
| "own_entries (N_string s) = zip (map nat_text [0..<length s]) (map (\<lambda>c. N_string [c]) s)"
| "own_entries _ = []"

definition get_field :: "native \<Rightarrow> string \<Rightarrow> native" where
  "get_field v k = (case v of N_object kvs \<Rightarrow> default_to N_undefined (jm_get kvs k) | _ \<Rightarrow> N_undefined)"

definition is_object :: "native \<Rightarrow> bool" where
  "is_object v = (case v of N_object _ \<Rightarrow> True | N_array _ \<Rightarrow> True | _ \<Rightarrow> False)"

definition nullish :: "native \<Rightarrow> bool" where
  "nullish v = (v = N_null \<or> v = N_undefined)"

lemma nullish_simps [simp]: "nullish N_null" "nullish N_undefined"
  by (simp_all add: nullish_def)

section \<open>The SDK and the network\<close>

datatype split_error =
    Request_validation string
  | App_error string string
  | Project_error api_error
  | Rpc_failure soroban_failure
  | Thrown string

record contract_call =
  cc_source :: string
  cc_operation :: string
  cc_args :: "ScVal list"

datatype sim_response =
    Sim_not_object
  | Sim_error_text string
  | Sim_error_other
  | Sim_no_retval
  | Sim_retval ScVal

record prepared_tx =
  pt_xdr :: string
  pt_sequence :: string
  pt_fee :: string

record sdk =
  sdk_contractId :: string
  sdk_networkPassphrase :: string
  sdk_simulatorAccount :: string
  address_ok :: "string \<Rightarrow> bool"
  to_i128 :: "rat \<Rightarrow> int option"
  scValToNative :: "ScVal \<Rightarrow> native option"
  js_String :: "native \<Rightarrow> string"

record chain =
  ch_account :: "string \<Rightarrow> bool"
  ch_prepare :: "contract_call \<Rightarrow> soroban_failure + prepared_tx"
  ch_simulate :: "contract_call \<Rightarrow> soroban_failure + sim_response"

record split_state =
  ss_cache :: "native ReadCache"
  ss_history :: "ProjectEditHistory list"

record moment =
  mo_before :: "split_state \<Rightarrow> split_state"
  mo_now :: instant
  mo_chain :: chain
  mo_promise :: nat
  mo_joined :: "nat \<Rightarrow> split_error + native"
  mo_db_up :: bool

record UnsignedTxResponse =
  ut_xdr :: string
  ut_contractId :: string
  ut_networkPassphrase :: string
  ut_sourceAccount :: string
  ut_sequenceNumber :: string
  ut_fee :: string
  ut_operation :: string

definition readSimulationRetval :: "sim_response \<Rightarrow> split_error + ScVal option" where
  "readSimulationRetval r =
     (case r of
        Sim_not_object \<Rightarrow> Inl (Rpc_failure F_RpcResponseValidation)
      | Sim_error_text t \<Rightarrow> if t \<noteq> [] then Inr None else Inl (Rpc_failure F_RpcResponseValidation)
      | Sim_error_other \<Rightarrow> Inl (Rpc_failure F_RpcResponseValidation)
      | Sim_no_retval \<Rightarrow> Inl (Rpc_failure F_RpcResponseValidation)
      | Sim_retval v \<Rightarrow> Inr (Some v))"

definition decodeContractValue :: "sdk \<Rightarrow> (native \<Rightarrow> 'a option) \<Rightarrow> ScVal \<Rightarrow> split_error + 'a" where
  "decodeContractValue K schema v =
     (case scValToNative K v of
        None \<Rightarrow> Inl (Rpc_failure F_RpcResponseValidation)
      | Some n \<Rightarrow> (case schema n of None \<Rightarrow> Inl (Rpc_failure F_RpcResponseValidation) | Some x \<Rightarrow> Inr x))"

definition I128_MAX :: int where
  "I128_MAX = 2 ^ 127 - 1"

definition integer_of :: "native \<Rightarrow> int option" where
  "integer_of n = (case n of N_bigint i \<Rightarrow> Some i | N_number q \<Rightarrow> if is_integer q then Some \<lfloor>q\<rfloor> else None | _ \<Rightarrow> None)"

definition stroopAmountSchema :: "native \<Rightarrow> int option" where
  "stroopAmountSchema n =
     (case integer_of n of Some i \<Rightarrow> if 0 \<le> i \<and> i \<le> I128_MAX then Some i else None | None \<Rightarrow> None)"

definition contractU32Schema :: "native \<Rightarrow> int option" where
  "contractU32Schema n =
     (case integer_of n of Some i \<Rightarrow> if 0 \<le> i \<and> i \<le> 4294967295 then Some i else None | None \<Rightarrow> None)"

definition contractBoolSchema :: "native \<Rightarrow> bool option" where
  "contractBoolSchema n = (case n of N_bool b \<Rightarrow> Some b | _ \<Rightarrow> None)"

definition simulateReadOnlyContractCall :: "sdk \<Rightarrow> chain \<Rightarrow> string \<Rightarrow> ScVal list \<Rightarrow> split_error + ScVal option" where
  "simulateReadOnlyContractCall K ch method args =
     (if \<not> ch_account ch (sdk_simulatorAccount K)
      then Inl (Request_validation ''simulator account not found on selected network'')
      else case ch_simulate ch \<lparr>cc_source = sdk_simulatorAccount K, cc_operation = method, cc_args = args\<rparr> of
          Inl e \<Rightarrow> Inl (Rpc_failure e)
        | Inr r \<Rightarrow> readSimulationRetval r)"

section \<open>Arguments of the calls\<close>

text \<open>\<open>Address.fromString(text).toScVal()\<close>, which throws on an invalid address.\<close>

definition address_ScVal :: "sdk \<Rightarrow> string \<Rightarrow> ScVal option" where
  "address_ScVal K a = (if address_ok K a then Some (Sc_address a) else None)"

definition toCollaboratorScVal :: "sdk \<Rightarrow> preview_collaborator \<Rightarrow> ScVal option" where
  "toCollaboratorScVal K c =
     (if length (pc_alias c) > 100 then None
      else map_option (\<lambda>a. Sc_map [(Sc_symbol ''address'', a), (Sc_symbol ''alias'', Sc_string (pc_alias c)),
             (Sc_symbol ''basis_points'', Sc_u32 (pc_basisPoints c))]) (address_ScVal K (pc_address c)))"

definition buildCreateProjectContractArgs :: "sdk \<Rightarrow> create_input \<Rightarrow> ScVal list option" where
  "buildCreateProjectContractArgs K i =
     (case (address_ScVal K (ci_owner i), address_ScVal K (ci_token i), those (map (toCollaboratorScVal K) (ci_collaborators i))) of
        (Some owner, Some token, Some cs) \<Rightarrow>
          Some [owner, Sc_symbol (ci_projectId i), Sc_string (ci_title i), Sc_string (ci_projectType i), token, Sc_vec cs]
      | _ \<Rightarrow> None)"

definition buildUpdateCollaboratorsContractArgs ::
  "sdk \<Rightarrow> string \<Rightarrow> string \<Rightarrow> preview_collaborator list \<Rightarrow> ScVal list option" where
  "buildUpdateCollaboratorsContractArgs K projectId owner cs =
     (case (address_ScVal K owner, those (map (toCollaboratorScVal K) cs)) of
        (Some o', Some vs) \<Rightarrow> Some [Sc_symbol projectId, o', Sc_vec vs]
      | _ \<Rightarrow> None)"

definition buildLockProjectContractArgs :: "sdk \<Rightarrow> string \<Rightarrow> string \<Rightarrow> ScVal list option" where
  "buildLockProjectContractArgs K projectId owner =
     map_option (\<lambda>a. [Sc_symbol projectId, a]) (address_ScVal K owner)"

definition buildDepositContractArgs :: "sdk \<Rightarrow> string \<Rightarrow> string \<Rightarrow> rat \<Rightarrow> ScVal list option" where
  "buildDepositContractArgs K projectId sender amount =
     (case (address_ScVal K sender, to_i128 K amount) of
        (Some a, Some n) \<Rightarrow> Some [Sc_symbol projectId, a, Sc_i128 n]
      | _ \<Rightarrow> None)"

definition buildAdminTokenContractArgs :: "sdk \<Rightarrow> string \<Rightarrow> string \<Rightarrow> ScVal list option" where
  "buildAdminTokenContractArgs K admin token =
     (case (address_ScVal K admin, address_ScVal K token) of
        (Some a, Some t) \<Rightarrow> Some [a, t]
      | _ \<Rightarrow> None)"

definition parseStellarAddress :: "sdk \<Rightarrow> string \<Rightarrow> string \<Rightarrow> split_error + ScVal" where
  "parseStellarAddress K a label =
     (case address_ScVal K a of
        None \<Rightarrow> Inl (Request_validation (label @ '' must be a valid Stellar address''))
      | Some v \<Rightarrow> Inr v)"

section \<open>Building a transaction\<close>

text \<open>The tail every builder shares: transaction, preparation, answer.\<close>

definition finish_build :: "sdk \<Rightarrow> chain \<Rightarrow> string \<Rightarrow> string \<Rightarrow> ScVal list \<Rightarrow> split_error + UnsignedTxResponse" where
  "finish_build K ch source operation args =
     (case ch_prepare ch \<lparr>cc_source = source, cc_operation = operation, cc_args = args\<rparr> of
        Inl e \<Rightarrow> Inl (Rpc_failure e)
      | Inr p \<Rightarrow> Inr \<lparr>ut_xdr = pt_xdr p, ut_contractId = sdk_contractId K,
          ut_networkPassphrase = sdk_networkPassphrase K, ut_sourceAccount = source,
          ut_sequenceNumber = pt_sequence p, ut_fee = pt_fee p, ut_operation = operation\<rparr>)"

definition buildUnsignedContractCall ::
  "sdk \<Rightarrow> chain \<Rightarrow> string \<Rightarrow> string \<Rightarrow> string \<Rightarrow> ScVal list \<Rightarrow> split_error + UnsignedTxResponse" where
  "buildUnsignedContractCall K ch sourceAddress sourceRoleLabel operation args =
     (if \<not> ch_account ch sourceAddress
      then Inl (Request_validation (sourceRoleLabel @ '' account not found on selected network''))
      else finish_build K ch sourceAddress operation args)"

text \<open>The builders that look up the account first and build the arguments in a \<open>try\<close>.\<close>

definition build_with_args ::
  "sdk \<Rightarrow> chain \<Rightarrow> string \<Rightarrow> string \<Rightarrow> string \<Rightarrow> ScVal list option \<Rightarrow> string \<Rightarrow> split_error + UnsignedTxResponse" where
  "build_with_args K ch source label operation args args_message =
     (if \<not> ch_account ch source then Inl (Request_validation (label @ '' account not found on selected network''))
      else case args of
          None \<Rightarrow> Inl (Request_validation args_message)
        | Some as \<Rightarrow> finish_build K ch source operation as)"

definition buildCreateProjectUnsignedXdr :: "sdk \<Rightarrow> chain \<Rightarrow> create_input \<Rightarrow> split_error + UnsignedTxResponse" where
  "buildCreateProjectUnsignedXdr K ch i =
     (case simulateReadOnlyContractCall K ch ''project_exists'' [Sc_symbol (ci_projectId i)] of
        Inl e \<Rightarrow> Inl e
      | Inr existing \<Rightarrow>
        (case (case existing of None \<Rightarrow> Inr False | Some v \<Rightarrow> decodeContractValue K contractBoolSchema v) of
           Inl e \<Rightarrow> Inl e
         | Inr True \<Rightarrow> Inl (App_error ''CONFLICT'' ''PROJECT_EXISTS'')
         | Inr False \<Rightarrow> build_with_args K ch (ci_owner i) ''owner'' ''create_project'' (buildCreateProjectContractArgs K i)
             ''owner/token/collaborator addresses must be valid Stellar addresses''))"

section \<open>Reading a project\<close>

text \<open>The function handed to the cache.\<close>

definition load_project :: "sdk \<Rightarrow> chain \<Rightarrow> string \<Rightarrow> split_error + native" where
  "load_project K ch projectId =
     (case simulateReadOnlyContractCall K ch ''get_project'' [Sc_symbol projectId] of
        Inl e \<Rightarrow> Inl e
      | Inr None \<Rightarrow> Inr N_null
      | Inr (Some retval) \<Rightarrow>
        (case simulateReadOnlyContractCall K ch ''get_balance'' [Sc_symbol projectId] of
           Inl e \<Rightarrow> Inl e
         | Inr balanceRetval \<Rightarrow>
           (case (case balanceRetval of None \<Rightarrow> Inr ''0''
                | Some v \<Rightarrow> map_sum id (\<lambda>i. nat_text (nat i)) (decodeContractValue K stroopAmountSchema v)) of
              Inl e \<Rightarrow> Inl e
            | Inr balance \<Rightarrow>
              (case scValToNative K retval of
                 None \<Rightarrow> Inl (Thrown ''undecodable value'')
               | Some project \<Rightarrow>
                 Inr (if nullish project then N_null
                      else N_object (jm_set (own_entries project) ''balance'' (N_string balance)))))))"

text \<open>
  \<open>getCachedOrFetch\<close>: a hit, a fetch of another request that is joined, or an own fetch that settles
  at once from the point of view of this request.
\<close>

definition getCachedOrFetch ::
  "moment \<Rightarrow> native ReadCache \<Rightarrow> string \<Rightarrow> (split_error + native) \<Rightarrow> native ReadCache \<times> (split_error + native)" where
  "getCachedOrFetch m c key fetched =
     (case getOrFetch (mo_now m) (mo_promise m) c key of
        (c1, Cached v) \<Rightarrow> (c1, Inr v)
      | (c1, Joined p) \<Rightarrow> (c1, mo_joined m p)
      | (c1, Started p) \<Rightarrow>
        (fetch_settled (mo_now m) p c1 key (case fetched of Inr v \<Rightarrow> Some v | Inl _ \<Rightarrow> None), fetched))"

definition project_key :: "string \<Rightarrow> string" where
  "project_key projectId = ''project:'' @ projectId"

definition fetchProjectById ::
  "sdk \<Rightarrow> history_order \<Rightarrow> moment \<Rightarrow> split_state \<Rightarrow> string \<Rightarrow> split_state \<times> (split_error + native)" where
  "fetchProjectById K asc m st projectId =
     (let (c, r) = getCachedOrFetch m (ss_cache st) (project_key projectId) (load_project K (mo_chain m) projectId);
          st1 = st\<lparr>ss_cache := c\<rparr>
      in case r of
           Inl e \<Rightarrow> (st1, Inl e)
         | Inr project \<Rightarrow>
           if \<not> is_object project then (st1, Inr project)
           else let expiresAt = (if mo_db_up m
                  then (case getProjectExpiration asc (ss_history st) projectId of
                          None \<Rightarrow> N_null
                        | Some x \<Rightarrow> (case pe_expiresAt x of None \<Rightarrow> N_null | Some t \<Rightarrow> N_string (iso_text t)))
                  else N_null)
             in (st1, Inr (N_object (jm_set (own_entries project) ''expiresAt'' expiresAt))))"

definition invalidateCache :: "split_state \<Rightarrow> string \<Rightarrow> split_state" where
  "invalidateCache st key = st\<lparr>ss_cache := fst (cache_delete (ss_cache st) key)\<rparr>"

definition invalidateCacheByPrefix :: "split_state \<Rightarrow> string \<Rightarrow> split_state" where
  "invalidateCacheByPrefix st prefix = st\<lparr>ss_cache := fst (deleteByPrefix (ss_cache st) prefix)\<rparr>"

section \<open>Ownership\<close>

text \<open>Truthiness of a value read from the cache.\<close>

definition falsy :: "native \<Rightarrow> bool" where
  "falsy v = (case v of N_null \<Rightarrow> True | N_undefined \<Rightarrow> True | N_bool b \<Rightarrow> \<not> b | N_number q \<Rightarrow> q = 0
     | N_bigint i \<Rightarrow> i = 0 | N_string s \<Rightarrow> s = [] | _ \<Rightarrow> False)"

text \<open>\<open>String(value)\<close>; the texts of numbers and objects are left to the language.\<close>

definition native_text :: "sdk \<Rightarrow> native \<Rightarrow> string" where
  "native_text K v = (case v of N_string s \<Rightarrow> s | N_null \<Rightarrow> ''null'' | N_undefined \<Rightarrow> ''undefined''
     | N_bool b \<Rightarrow> (if b then ''true'' else ''false'') | _ \<Rightarrow> js_String K v)"

definition owner_text :: "sdk \<Rightarrow> native \<Rightarrow> string" where
  "owner_text K v = (if nullish v then [] else native_text K v)"

definition readOwner ::
  "sdk \<Rightarrow> history_order \<Rightarrow> moment \<Rightarrow> split_state \<Rightarrow> string \<Rightarrow> split_state \<times> (split_error + string)" where
  "readOwner K asc m st projectId =
     (case fetchProjectById K asc m st projectId of
        (st1, Inl e) \<Rightarrow> (st1, Inl e)
      | (st1, Inr project) \<Rightarrow>
        if falsy project then (st1, Inl (App_error ''CONTRACT'' ''NOT_FOUND''))
        else (st1, Inr (owner_text K (get_field project ''owner''))))"

definition assertProjectOwner ::
  "sdk \<Rightarrow> history_order \<Rightarrow> moment \<Rightarrow> moment \<Rightarrow> split_state \<Rightarrow> string \<Rightarrow> string \<Rightarrow> split_state \<times> split_error option" where
  "assertProjectOwner K asc m1 m2 st projectId owner =
     (case readOwner K asc m1 st projectId of
        (st1, Inl e) \<Rightarrow> (st1, Some e)
      | (st1, Inr o1) \<Rightarrow>
        if o1 = owner then (st1, None)
        else case readOwner K asc m2 (invalidateCache (mo_before m2 st1) (project_key projectId)) projectId of
            (st2, Inl e) \<Rightarrow> (st2, Some e)
          | (st2, Inr o2) \<Rightarrow>
            if o2 = owner then (st2, None) else (st2, Some (App_error ''AUTH'' ''UNAUTHORIZED'')))"

section \<open>The builders behind a gate\<close>

text \<open>A database that does not answer makes the deadline check throw.\<close>

definition check_not_expired ::
  "history_order \<Rightarrow> moment \<Rightarrow> split_state \<Rightarrow> string \<Rightarrow> split_state \<times> split_error option" where
  "check_not_expired asc m st projectId =
     (if \<not> mo_db_up m then (st, Some (Thrown ''database unavailable''))
      else let (rows, e) = assertProjectNotExpired asc (mo_now m) (mo_now m) (ss_history st) projectId
        in (st\<lparr>ss_history := rows\<rparr>, map_option Project_error e))"

text \<open>
  The moments of a request: 0 the deadline check, 1 the reading of the project, 2 the second reading
  after a mismatch, 3 the account lookup and the preparation.
\<close>

type_synonym moments = "nat \<Rightarrow> moment"

definition owner_gate ::
  "sdk \<Rightarrow> history_order \<Rightarrow> moments \<Rightarrow> split_state \<Rightarrow> string \<Rightarrow> string \<Rightarrow> split_state \<times> split_error option" where
  "owner_gate K asc ms st projectId owner =
     (case check_not_expired asc (ms 0) st projectId of
        (st1, Some e) \<Rightarrow> (st1, Some e)
      | (st1, None) \<Rightarrow> assertProjectOwner K asc (ms 1) (ms 2) (mo_before (ms 1) st1) projectId owner)"

definition buildLockProjectUnsignedXdr ::
  "sdk \<Rightarrow> history_order \<Rightarrow> moments \<Rightarrow> split_state \<Rightarrow> string \<Rightarrow> string \<Rightarrow> split_state \<times> (split_error + UnsignedTxResponse)" where
  "buildLockProjectUnsignedXdr K asc ms st projectId owner =
     (case owner_gate K asc ms st projectId owner of
        (st1, Some e) \<Rightarrow> (st1, Inl e)
      | (st1, None) \<Rightarrow> (st1, build_with_args K (mo_chain (ms 3)) owner ''owner'' ''lock_project''
          (buildLockProjectContractArgs K projectId owner) ''owner address must be a valid Stellar address''))"

definition buildUpdateCollaboratorsUnsignedXdr ::
  "sdk \<Rightarrow> history_order \<Rightarrow> moments \<Rightarrow> split_state \<Rightarrow> string \<Rightarrow> string \<Rightarrow> preview_collaborator list
     \<Rightarrow> split_state \<times> (split_error + UnsignedTxResponse)" where
  "buildUpdateCollaboratorsUnsignedXdr K asc ms st projectId owner cs =
     (case owner_gate K asc ms st projectId owner of
        (st1, Some e) \<Rightarrow> (st1, Inl e)
      | (st1, None) \<Rightarrow> (st1, build_with_args K (mo_chain (ms 3)) owner ''owner'' ''update_collaborators''
          (buildUpdateCollaboratorsContractArgs K projectId owner cs)
          ''owner/token/collaborator addresses must be valid Stellar addresses''))"

definition buildUpdateMetadataUnsignedXdr ::
  "sdk \<Rightarrow> history_order \<Rightarrow> moments \<Rightarrow> split_state \<Rightarrow> string \<Rightarrow> string \<Rightarrow> string \<Rightarrow> string
     \<Rightarrow> split_state \<times> (split_error + UnsignedTxResponse)" where
  "buildUpdateMetadataUnsignedXdr K asc ms st projectId owner title projectType =
     (case owner_gate K asc ms st projectId owner of
        (st1, Some e) \<Rightarrow> (st1, Inl e)
      | (st1, None) \<Rightarrow> (st1, build_with_args K (mo_chain (ms 3)) owner ''owner'' ''update_project_metadata''
          (map_option (\<lambda>a. [Sc_symbol projectId, a, Sc_string title, Sc_string projectType]) (address_ScVal K owner))
          ''owner address must be a valid Stellar address''))"

definition buildDepositUnsignedXdr ::
  "sdk \<Rightarrow> history_order \<Rightarrow> moments \<Rightarrow> split_state \<Rightarrow> string \<Rightarrow> string \<Rightarrow> rat \<Rightarrow> string
     \<Rightarrow> split_state \<times> (split_error + UnsignedTxResponse)" where
  "buildDepositUnsignedXdr K asc ms st projectId sender amount token =
     (case check_not_expired asc (ms 0) st projectId of
        (st1, Some e) \<Rightarrow> (st1, Inl e)
      | (st1, None) \<Rightarrow>
        (case fetchProjectById K asc (ms 1) (mo_before (ms 1) st1) projectId of
           (st2, Inl e) \<Rightarrow> (st2, Inl e)
         | (st2, Inr project) \<Rightarrow>
           if falsy project then (st2, Inl (Request_validation ''Project not found''))
           else if get_field project ''token'' \<noteq> N_string token
             then (st2, Inl (Request_validation ''Token address does not match project token address''))
           else (st2, build_with_args K (mo_chain (ms 3)) sender ''from'' ''deposit''
             (buildDepositContractArgs K projectId sender amount) ''from address must be a valid Stellar address'')))"

definition buildClaimUnsignedXdr ::
  "sdk \<Rightarrow> history_order \<Rightarrow> moments \<Rightarrow> split_state \<Rightarrow> string \<Rightarrow> string \<Rightarrow> split_state \<times> (split_error + UnsignedTxResponse)" where
  "buildClaimUnsignedXdr K asc ms st projectId claimer =
     (case check_not_expired asc (ms 0) st projectId of
        (st1, Some e) \<Rightarrow> (st1, Inl e)
      | (st1, None) \<Rightarrow>
        (case parseStellarAddress K claimer ''claimer address'' of
           Inl e \<Rightarrow> (st1, Inl e)
         | Inr a \<Rightarrow> (st1, buildUnsignedContractCall K (mo_chain (ms 3)) claimer ''claimer'' ''claim'' [Sc_symbol projectId, a])))"

section \<open>The builders of the administrator\<close>

text \<open>Here an invalid address is not caught: the error of the parser is passed on.\<close>

definition buildPauseDistributionsUnsignedXdr :: "sdk \<Rightarrow> chain \<Rightarrow> string \<Rightarrow> split_error + UnsignedTxResponse" where
  "buildPauseDistributionsUnsignedXdr K ch admin =
     (if \<not> ch_account ch admin then Inl (Request_validation ''admin account not found on selected network'')
      else case address_ScVal K admin of
          None \<Rightarrow> Inl (Thrown ''Unsupported address type'')
        | Some a \<Rightarrow> finish_build K ch admin ''pause_distributions'' [a])"

definition buildUnpauseDistributionsUnsignedXdr :: "sdk \<Rightarrow> chain \<Rightarrow> string \<Rightarrow> split_error + UnsignedTxResponse" where
  "buildUnpauseDistributionsUnsignedXdr K ch admin =
     (if \<not> ch_account ch admin then Inl (Request_validation ''admin account not found on selected network'')
      else case address_ScVal K admin of
          None \<Rightarrow> Inl (Thrown ''Unsupported address type'')
        | Some a \<Rightarrow> finish_build K ch admin ''unpause_distributions'' [a])"

definition admin_token_call :: "sdk \<Rightarrow> chain \<Rightarrow> string \<Rightarrow> string \<Rightarrow> string \<Rightarrow> split_error + UnsignedTxResponse" where
  "admin_token_call K ch operation admin token =
     (case parseStellarAddress K admin ''admin address'' of
        Inl e \<Rightarrow> Inl e
      | Inr _ \<Rightarrow>
        (case parseStellarAddress K token ''token address'' of
           Inl e \<Rightarrow> Inl e
         | Inr _ \<Rightarrow>
           (case buildAdminTokenContractArgs K admin token of
              None \<Rightarrow> Inl (Thrown ''Unsupported address type'')
            | Some as \<Rightarrow> buildUnsignedContractCall K ch admin ''admin'' operation as)))"

definition buildAllowTokenUnsignedXdr :: "sdk \<Rightarrow> chain \<Rightarrow> string \<Rightarrow> string \<Rightarrow> split_error + UnsignedTxResponse" where
  "buildAllowTokenUnsignedXdr K ch = admin_token_call K ch ''allow_token''"

definition buildDisallowTokenUnsignedXdr :: "sdk \<Rightarrow> chain \<Rightarrow> string \<Rightarrow> string \<Rightarrow> split_error + UnsignedTxResponse" where
  "buildDisallowTokenUnsignedXdr K ch = admin_token_call K ch ''disallow_token''"

text \<open>An amount that is no 128-bit integer throws while the call is put together.\<close>

definition buildWithdrawUnallocatedUnsignedXdr ::
  "sdk \<Rightarrow> chain \<Rightarrow> string \<Rightarrow> string \<Rightarrow> string \<Rightarrow> rat \<Rightarrow> split_error + UnsignedTxResponse" where
  "buildWithdrawUnallocatedUnsignedXdr K ch admin token dest amount =
     (case (parseStellarAddress K admin ''admin address'', parseStellarAddress K token ''token address'',
            parseStellarAddress K dest ''destination address'') of
        (Inl e, _, _) \<Rightarrow> Inl e
      | (Inr _, Inl e, _) \<Rightarrow> Inl e
      | (Inr _, Inr _, Inl e) \<Rightarrow> Inl e
      | (Inr a, Inr t, Inr d) \<Rightarrow>
        if \<not> ch_account ch admin then Inl (Request_validation ''admin account not found on selected network'')
        else case to_i128 K amount of
            None \<Rightarrow> Inl (Thrown ''not a 128-bit integer'')
          | Some n \<Rightarrow> finish_build K ch admin ''withdraw_unallocated'' [a, t, d, Sc_i128 n])"

section \<open>What goes into the arguments comes out\<close>

definition read_address :: "ScVal \<Rightarrow> string option" where
  "read_address v = (case v of Sc_address a \<Rightarrow> Some a | _ \<Rightarrow> None)"

definition read_text :: "ScVal \<Rightarrow> string option" where
  "read_text v = (case v of Sc_string s \<Rightarrow> Some s | _ \<Rightarrow> None)"

definition read_symbol :: "ScVal \<Rightarrow> string option" where
  "read_symbol v = (case v of Sc_symbol s \<Rightarrow> Some s | _ \<Rightarrow> None)"

definition read_u32 :: "ScVal \<Rightarrow> int option" where
  "read_u32 v = (case v of Sc_u32 n \<Rightarrow> if 0 \<le> n \<and> n < 2 ^ 32 then Some n else None | _ \<Rightarrow> None)"

definition read_field :: "ScVal \<Rightarrow> string \<Rightarrow> ScVal option" where
  "read_field v k = (case v of Sc_map kvs \<Rightarrow> jm_get kvs (Sc_symbol k) | _ \<Rightarrow> None)"

definition read_collaborator :: "ScVal \<Rightarrow> preview_collaborator option" where
  "read_collaborator v =
     do { a \<leftarrow> Option.bind (read_field v ''address'') read_address;
          n \<leftarrow> Option.bind (read_field v ''alias'') read_text;
          b \<leftarrow> Option.bind (read_field v ''basis_points'') read_u32;
          Some \<lparr>pc_address = a, pc_alias = n, pc_basisPoints = b\<rparr> }"

text \<open>The contract's view of the arguments of \<open>create_project\<close>.\<close>

definition read_create :: "ScVal list \<Rightarrow> (string \<times> string \<times> string \<times> string \<times> string \<times> preview_collaborator list) option" where
  "read_create args =
     (if length args \<noteq> 6 then None
      else do { owner \<leftarrow> read_address (args ! 0); projectId \<leftarrow> read_symbol (args ! 1); title \<leftarrow> read_text (args ! 2);
        ptype \<leftarrow> read_text (args ! 3); token \<leftarrow> read_address (args ! 4);
        ps \<leftarrow> (case args ! 5 of Sc_vec cs \<Rightarrow> those (map read_collaborator cs) | _ \<Rightarrow> None);
        Some (owner, projectId, title, ptype, token, ps) })"

lemmas read_defs = read_address_def read_text_def read_symbol_def read_u32_def read_field_def read_collaborator_def

lemma encode_collaborators:
  assumes "accepted_collaborators (address_ok K) ps"
  shows "\<exists>vs. those (map (toCollaboratorScVal K) ps) = Some vs \<and> those (map read_collaborator vs) = Some ps"
proof -
  have "list_all (\<lambda>p. address_ok K (pc_address p) \<and> safe_text 100 (pc_alias p) \<and> 0 < pc_basisPoints p \<and> pc_basisPoints p \<le> 10000) ps"
    using assms by (simp add: accepted_collaborators_def)
  then show ?thesis
  proof (induction ps)
    case (Cons p ps)
    then obtain vs where vs: "those (map (toCollaboratorScVal K) ps) = Some vs" "those (map read_collaborator vs) = Some ps" by auto
    obtain v where "toCollaboratorScVal K p = Some v" "read_collaborator v = Some p"
      using Cons.prems by (auto simp: toCollaboratorScVal_def address_ScVal_def safe_text_def read_defs jm_get_def)
    with vs show ?case by (intro exI [of _ "v # vs"]) simp
  qed simp
qed

lemma create_parsed:
  assumes "createSplitSchema ok now b = Some i"
  shows "ok (ci_owner i)" "ok (ci_token i)" "accepted_collaborators ok (ci_collaborators i)"
    "cr_collaborators b = map as_body (ci_collaborators i)" "ci_projectId i = cr_projectId b"
    "projectIdParamSchema (ci_projectId i)" "safe_text 128 (ci_title i)" "safe_text 32 (ci_projectType i)"
    "ci_owner i = cr_owner b" "ci_token i = cr_token b"
proof -
  from assms have f: "titleField (cr_title b) = Some (ci_title i)" "projectTypeField (cr_projectType b) = Some (ci_projectType i)"
    "collaborators_field ok (cr_collaborators b) = Some (ci_collaborators i)"
    "stellarAddressSchema ok (ci_owner i)" "stellarAddressSchema ok (ci_token i)" "projectIdParamSchema (ci_projectId i)"
    "ci_projectId i = cr_projectId b" "ci_owner i = cr_owner b" "ci_token i = cr_token b"
    by (auto simp: createSplitSchema_def split: option.splits if_splits)
  then show "ok (ci_owner i)" "ok (ci_token i)" "accepted_collaborators ok (ci_collaborators i)"
    "cr_collaborators b = map as_body (ci_collaborators i)" "ci_projectId i = cr_projectId b"
    "projectIdParamSchema (ci_projectId i)" "ci_owner i = cr_owner b" "ci_token i = cr_token b"
    by (simp_all add: stellarAddressSchema_def collaborators_field_Some)
  show "safe_text 128 (ci_title i)" "safe_text 32 (ci_projectType i)"
    using f(1,2) by (auto simp: titleField_def projectTypeField_def sanitized_field_def Let_def split: if_splits)
qed

text \<open>
  (C11) A creation request that the schema accepts always encodes, and the contract reads back exactly
  what was accepted: owner, project id, cleaned title and type, token, and the collaborators of the
  body in their order, at least two of them with distinct addresses and positive shares that sum to
  100%; every share fits the 32 bits it is sent in.
\<close>

theorem create_request_roundtrip:
  assumes "createSplitSchema (address_ok K) now b = Some i"
  shows "\<exists>args. buildCreateProjectContractArgs K i = Some args
    \<and> read_create args = Some (cr_owner b, cr_projectId b, ci_title i, ci_projectType i, cr_token b, ci_collaborators i)
    \<and> cr_collaborators b = map as_body (ci_collaborators i)
    \<and> 2 \<le> length (ci_collaborators i) \<and> distinct (map pc_address (ci_collaborators i))
    \<and> list_all (\<lambda>p. 0 < pc_basisPoints p) (ci_collaborators i)
    \<and> sum_list (map pc_basisPoints (ci_collaborators i)) = BASIS_POINTS_TOTAL"
proof -
  note p = create_parsed [OF assms]
  obtain vs where vs: "those (map (toCollaboratorScVal K) (ci_collaborators i)) = Some vs"
    "those (map read_collaborator vs) = Some (ci_collaborators i)" using encode_collaborators [OF p(3)] by blast
  have "list_all (\<lambda>p. 0 < pc_basisPoints p) (ci_collaborators i)"
    using p(3) by (auto simp: accepted_collaborators_def list_all_iff)
  then show ?thesis
    using p vs by (auto simp: read_create_def read_address_def read_text_def read_symbol_def buildCreateProjectContractArgs_def address_ScVal_def accepted_collaborators_def BASIS_POINTS_TOTAL_def)
qed

section \<open>The owner gate\<close>

text \<open>What the network says, without the cache.\<close>

definition chain_owner :: "sdk \<Rightarrow> chain \<Rightarrow> string \<Rightarrow> split_error + string" where
  "chain_owner K ch projectId =
     (case load_project K ch projectId of
        Inl e \<Rightarrow> Inl e
      | Inr (N_object kvs) \<Rightarrow> Inr (owner_text K (default_to N_undefined (jm_get kvs ''owner'')))
      | Inr _ \<Rightarrow> Inl (App_error ''CONTRACT'' ''NOT_FOUND''))"

lemma load_project_shape: "load_project K ch p = Inr v \<Longrightarrow> v = N_null \<or> (\<exists>kvs. v = N_object kvs)"
  by (auto simp: load_project_def split: sum.splits option.splits if_splits)

text \<open>How the owner is read from the value the cache or the network gave.\<close>

definition owner_of_read :: "sdk \<Rightarrow> (split_error + native) \<Rightarrow> split_error + string" where
  "owner_of_read K r =
     (case r of Inl e \<Rightarrow> Inl e
      | Inr v \<Rightarrow> if falsy v then Inl (App_error ''CONTRACT'' ''NOT_FOUND'')
          else Inr (if is_object v then owner_text K (default_to N_undefined (jm_get (own_entries v) ''owner'')) else []))"

lemma readOwner_result:
  "snd (readOwner K asc m st p) =
     owner_of_read K (snd (getCachedOrFetch m (ss_cache st) (project_key p) (load_project K (mo_chain m) p)))"
proof -
  obtain c r where cr: "getCachedOrFetch m (ss_cache st) (project_key p) (load_project K (mo_chain m) p) = (c, r)" by fastforce
  show ?thesis
  proof (cases r)
    case (Inr v)
    show ?thesis
    proof (cases "is_object v")
      case True
      then show ?thesis using Inr cr
        by (cases v) (auto simp: readOwner_def fetchProjectById_def owner_of_read_def falsy_def is_object_def get_field_def Let_def)
    next
      case False
      then show ?thesis using Inr cr
        by (cases v) (auto simp: readOwner_def fetchProjectById_def owner_of_read_def falsy_def is_object_def get_field_def
            owner_text_def Let_def)
    qed
  qed (simp add: readOwner_def fetchProjectById_def owner_of_read_def cr)
qed

lemma chain_owner_read: "owner_of_read K (load_project K ch p) = chain_owner K ch p"
proof (cases "load_project K ch p")
  case (Inr v)
  from load_project_shape [OF this] show ?thesis
    by (auto simp: chain_owner_def owner_of_read_def falsy_def is_object_def Inr)
qed (simp add: chain_owner_def owner_of_read_def)

text \<open>After an invalidation the next reading is an own fetch, whatever the cache held.\<close>

lemma fresh_after_invalidation:
  "snd (getCachedOrFetch m (ss_cache (invalidateCache st k)) k fetched) = fetched"
  by (simp add: getCachedOrFetch_def getOrFetch_def cache_get_def invalidateCache_def cache_delete_def)

text \<open>The first reading: a live cached value, else a fetch in flight, else the network.\<close>

definition cached_project :: "instant \<Rightarrow> native ReadCache \<Rightarrow> string \<Rightarrow> native option" where
  "cached_project now c projectId =
     (case jm_get (rc_store c) (project_key projectId) of
        None \<Rightarrow> None | Some entry \<Rightarrow> if now > ce_expiresAt entry then None else Some (ce_value entry))"

lemma getCachedOrFetch_result:
  "snd (getCachedOrFetch m c (project_key p) fetched) =
     (case cached_project (mo_now m) c p of
        Some v \<Rightarrow> Inr v
      | None \<Rightarrow> (case jm_get (rc_inflight c) (project_key p) of Some q \<Rightarrow> mo_joined m q | None \<Rightarrow> fetched))"
  by (auto simp: getCachedOrFetch_def getOrFetch_def cache_get_def cached_project_def split: option.splits)

definition first_reading :: "sdk \<Rightarrow> moment \<Rightarrow> native ReadCache \<Rightarrow> string \<Rightarrow> split_error + string" where
  "first_reading K m c projectId =
     (case cached_project (mo_now m) c projectId of
        Some v \<Rightarrow> owner_of_read K (Inr v)
      | None \<Rightarrow> (case jm_get (rc_inflight c) (project_key projectId) of
          Some q \<Rightarrow> owner_of_read K (mo_joined m q)
        | None \<Rightarrow> chain_owner K (mo_chain m) projectId))"

lemma assertProjectOwner_result:
  "snd (assertProjectOwner K asc m1 m2 st projectId owner) =
     (case first_reading K m1 (ss_cache st) projectId of
        Inl e \<Rightarrow> Some e
      | Inr o1 \<Rightarrow>
        if o1 = owner then None
        else case chain_owner K (mo_chain m2) projectId of
            Inl e \<Rightarrow> Some e
          | Inr o2 \<Rightarrow> if o2 = owner then None else Some (App_error ''AUTH'' ''UNAUTHORIZED''))"
proof -
  have first: "snd (readOwner K asc m1 st projectId) = first_reading K m1 (ss_cache st) projectId"
    unfolding readOwner_result getCachedOrFetch_result first_reading_def
    by (auto simp: chain_owner_read split: option.splits)
  have second: "snd (readOwner K asc m2 (invalidateCache s (project_key projectId)) projectId) = chain_owner K (mo_chain m2) projectId" for s
    unfolding readOwner_result fresh_after_invalidation by (rule chain_owner_read)
  obtain s1 r1 where r1: "readOwner K asc m1 st projectId = (s1, r1)" by fastforce
  obtain s2 r2 where r2: "readOwner K asc m2 (invalidateCache (mo_before m2 s1) (project_key projectId)) projectId = (s2, r2)" by fastforce
  have "r1 = first_reading K m1 (ss_cache st) projectId" "r2 = chain_owner K (mo_chain m2) projectId"
    using first second [of "mo_before m2 s1"] r1 r2 by simp_all
  then show ?thesis using r1 r2 by (simp add: assertProjectOwner_def split: sum.splits)
qed

text \<open>
  The owner check is decided by at most two readings. The first may be stale (a cached value or
  a fetch in flight); when it names another owner, the second is always the network's present
  answer, whatever other requests did to the cache in between, and the request is refused as
  unauthorized only if that answer names another owner too.
\<close>

theorem owner_check_decided:
  "snd (assertProjectOwner K asc m1 m2 st projectId owner) =
     (case first_reading K m1 (ss_cache st) projectId of
        Inl e \<Rightarrow> Some e
      | Inr o1 \<Rightarrow>
        if o1 = owner then None
        else case chain_owner K (mo_chain m2) projectId of
            Inl e \<Rightarrow> Some e
          | Inr o2 \<Rightarrow> if o2 = owner then None else Some (App_error ''AUTH'' ''UNAUTHORIZED''))"
  by (rule assertProjectOwner_result)

text \<open>
  A cached absence is not read again: for as long as the entry lives, the owner of a project that has
  been created since is told that it does not exist.
\<close>

lemma cached_absence_hides_project:
  assumes "cached_project (mo_now m1) (ss_cache st) projectId = Some N_null"
  shows "snd (assertProjectOwner K asc m1 m2 st projectId owner) = Some (App_error ''CONTRACT'' ''NOT_FOUND'')"
  using assms by (simp add: assertProjectOwner_result first_reading_def owner_of_read_def falsy_def)

text \<open>Nobody passes the gate without one reading that names them.\<close>

lemma owner_gate_passed:
  assumes "owner_gate K asc ms st projectId owner = (st', None)"
  obtains st1 where "mo_db_up (ms 0)" "check_not_expired asc (ms 0) st projectId = (st1, None)"
    and "first_reading K (ms 1) (ss_cache (mo_before (ms 1) st1)) projectId = Inr owner
      \<or> chain_owner K (mo_chain (ms 2)) projectId = Inr owner"
proof -
  from assms obtain st1 where c: "check_not_expired asc (ms 0) st projectId = (st1, None)"
    and o: "assertProjectOwner K asc (ms 1) (ms 2) (mo_before (ms 1) st1) projectId owner = (st', None)"
    by (auto simp: owner_gate_def split: prod.splits option.splits)
  have "mo_db_up (ms 0)" using c by (auto simp: check_not_expired_def split: if_splits)
  moreover have "first_reading K (ms 1) (ss_cache (mo_before (ms 1) st1)) projectId = Inr owner
      \<or> chain_owner K (mo_chain (ms 2)) projectId = Inr owner"
    using assertProjectOwner_result [of K asc "ms 1" "ms 2" "mo_before (ms 1) st1" projectId owner] o
    by (auto split: sum.splits if_splits)
  ultimately show ?thesis using c that by blast
qed

lemma not_expired_passed:
  assumes "check_not_expired asc m st projectId = (st', None)"
  shows "st' = st \<and> (case getProjectExpiration asc (ss_history st) projectId of None \<Rightarrow> True
    | Some x \<Rightarrow> (case pe_expiresAt x of None \<Rightarrow> True | Some deadline \<Rightarrow> mo_now m < deadline))"
  using assms by (auto simp: check_not_expired_def assertProjectNotExpired_def split: if_splits option.splits prod.splits)

section \<open>The owner-gated mutations\<close>

datatype owner_mutation = M_lock | M_collaborators "preview_collaborator list" | M_metadata string string

fun build_mutation ::
  "sdk \<Rightarrow> history_order \<Rightarrow> moments \<Rightarrow> split_state \<Rightarrow> string \<Rightarrow> string \<Rightarrow> owner_mutation
     \<Rightarrow> split_state \<times> (split_error + UnsignedTxResponse)" where
  "build_mutation K asc ms st projectId owner M_lock = buildLockProjectUnsignedXdr K asc ms st projectId owner"
| "build_mutation K asc ms st projectId owner (M_collaborators cs) =
     buildUpdateCollaboratorsUnsignedXdr K asc ms st projectId owner cs"
| "build_mutation K asc ms st projectId owner (M_metadata title ptype) =
     buildUpdateMetadataUnsignedXdr K asc ms st projectId owner title ptype"

fun mutation_operation :: "owner_mutation \<Rightarrow> string" where
  "mutation_operation M_lock = ''lock_project''"
| "mutation_operation (M_collaborators cs) = ''update_collaborators''"
| "mutation_operation (M_metadata title ptype) = ''update_project_metadata''"

definition prepared_from :: "sdk \<Rightarrow> chain \<Rightarrow> contract_call \<Rightarrow> UnsignedTxResponse \<Rightarrow> bool" where
  "prepared_from K ch call tx \<longleftrightarrow> ch_account ch (cc_source call) \<and> ut_sourceAccount tx = cc_source call
     \<and> ut_operation tx = cc_operation call \<and> ut_contractId tx = sdk_contractId K
     \<and> (\<exists>p. ch_prepare ch call = Inr p \<and> ut_xdr tx = pt_xdr p \<and> ut_sequenceNumber tx = pt_sequence p \<and> ut_fee tx = pt_fee p)"

lemma build_with_args_Inr:
  assumes "build_with_args K ch source label operation args msg = Inr tx"
  obtains as where "args = Some as" "prepared_from K ch \<lparr>cc_source = source, cc_operation = operation, cc_args = as\<rparr> tx"
  using assms by (auto simp: build_with_args_def finish_build_def prepared_from_def split: if_splits option.splits sum.splits)

lemma build_mutation_Inr:
  assumes "build_mutation K asc ms st projectId owner mu = (st', Inr tx)"
  obtains args where "owner_gate K asc ms st projectId owner = (st', None)"
    and "prepared_from K (mo_chain (ms 3)) \<lparr>cc_source = owner, cc_operation = mutation_operation mu, cc_args = args\<rparr> tx"
    and "take 2 args = [Sc_symbol projectId, Sc_address owner]"
  using assms
  by (cases mu) (auto simp: buildLockProjectUnsignedXdr_def buildUpdateCollaboratorsUnsignedXdr_def
      buildUpdateMetadataUnsignedXdr_def buildLockProjectContractArgs_def buildUpdateCollaboratorsContractArgs_def
      address_ScVal_def split: prod.splits option.splits if_splits elim!: build_with_args_Inr)

text \<open>
  (C10) A lock, a change of collaborators or a change of metadata is only ever built for the owner and
  before the deadline: when a transaction is returned, the persisted deadline had not passed, one
  of the two readings of the project named the requester as its owner, and the transaction is the
  prepared call of that operation with the requester as its source and with the project and the
  requester as its first arguments.
\<close>

theorem owner_mutation_sound:
  assumes "build_mutation K asc ms st projectId owner mu = (st', Inr tx)"
  shows "(case getProjectExpiration asc (ss_history st) projectId of None \<Rightarrow> True
      | Some x \<Rightarrow> (case pe_expiresAt x of None \<Rightarrow> True | Some deadline \<Rightarrow> mo_now (ms 0) < deadline))
    \<and> (first_reading K (ms 1) (ss_cache (mo_before (ms 1) st)) projectId = Inr owner
        \<or> chain_owner K (mo_chain (ms 2)) projectId = Inr owner)
    \<and> (\<exists>args. prepared_from K (mo_chain (ms 3)) \<lparr>cc_source = owner, cc_operation = mutation_operation mu, cc_args = args\<rparr> tx
        \<and> take 2 args = [Sc_symbol projectId, Sc_address owner])"
proof -
  from assms obtain args where g: "owner_gate K asc ms st projectId owner = (st', None)"
    and tx: "prepared_from K (mo_chain (ms 3)) \<lparr>cc_source = owner, cc_operation = mutation_operation mu, cc_args = args\<rparr> tx"
      "take 2 args = [Sc_symbol projectId, Sc_address owner]" by (rule build_mutation_Inr)
  from g obtain st1 where st1: "check_not_expired asc (ms 0) st projectId = (st1, None)"
    and reading: "first_reading K (ms 1) (ss_cache (mo_before (ms 1) st1)) projectId = Inr owner
      \<or> chain_owner K (mo_chain (ms 2)) projectId = Inr owner" by (rule owner_gate_passed)
  from not_expired_passed [OF st1] reading tx show ?thesis by blast
qed

section \<open>Instances\<close>

definition sample_sdk :: sdk where
  "sample_sdk = \<lparr>sdk_contractId = ''C1'', sdk_networkPassphrase = ''net'', sdk_simulatorAccount = ''GS'',
     address_ok = (\<lambda>a. a \<noteq> [] \<and> hd a \<in> set ''GC''), to_i128 = (\<lambda>q. if is_integer q then Some \<lfloor>q\<rfloor> else None),
     scValToNative = (\<lambda>v. case v of
        Sc_other k \<Rightarrow> Some (N_object [(''owner'', N_string k), (''token'', N_string ''CT'')])
      | Sc_i128 n \<Rightarrow> Some (N_bigint n)
      | _ \<Rightarrow> None),
     js_String = (\<lambda>_. ''?'')\<rparr>"

text \<open>A network on which every project belongs to \<open>owner\<close>.\<close>

definition sample_chain :: "string \<Rightarrow> chain" where
  "sample_chain owner = \<lparr>ch_account = (\<lambda>a. a \<in> {''GS'', owner}),
     ch_prepare = (\<lambda>c. Inr \<lparr>pt_xdr = cc_operation c, pt_sequence = ''7'', pt_fee = ''100''\<rparr>),
     ch_simulate = (\<lambda>c. if cc_operation c = ''get_project'' then Inr (Sim_retval (Sc_other owner))
        else if cc_operation c = ''get_balance'' then Inr (Sim_retval (Sc_i128 5))
        else Inr (Sim_error_text ''unknown''))\<rparr>"

definition sample_moment :: "instant \<Rightarrow> string \<Rightarrow> moment" where
  "sample_moment now owner = \<lparr>mo_before = id, mo_now = now, mo_chain = sample_chain owner, mo_promise = 1,
     mo_joined = (\<lambda>_. Inl (Thrown ''lost'')), mo_db_up = True\<rparr>"

text \<open>A cache that still holds the previous owner \<open>GA\<close> of the project.\<close>

definition stale_state :: split_state where
  "stale_state = \<lparr>ss_cache = cache_set 1 (new_ReadCache None None) (project_key ''p'') (N_object [(''owner'', N_string ''GA'')]) None,
     ss_history = []\<rparr>"

definition oldest_first :: history_order where
  "oldest_first rows = sort_by (\<lambda>a b. eh_createdAt a \<le> eh_createdAt b) rows"

lemma stale_owner_change:
  "snd (build_mutation sample_sdk oldest_first (\<lambda>_. sample_moment 2 ''GB'') stale_state ''p'' ''GB'' (M_metadata ''T'' ''t''))
     = Inr \<lparr>ut_xdr = ''update_project_metadata'', ut_contractId = ''C1'', ut_networkPassphrase = ''net'',
         ut_sourceAccount = ''GB'', ut_sequenceNumber = ''7'', ut_fee = ''100'', ut_operation = ''update_project_metadata''\<rparr>"
  by code_simp

theorem owner_mutation_sound_witness:
  "\<exists>tx. snd (build_mutation sample_sdk oldest_first (\<lambda>_. sample_moment 2 ''GB'') stale_state ''p'' ''GB'' (M_metadata ''T'' ''t'')) = Inr tx
     \<and> ut_sourceAccount tx = ''GB''
     \<and> (first_reading sample_sdk (sample_moment 2 ''GB'') (ss_cache stale_state) ''p'' = Inr ''GB''
        \<or> chain_owner sample_sdk (sample_chain ''GB'') ''p'' = Inr ''GB'')"
proof -
  obtain st' tx where b: "build_mutation sample_sdk oldest_first (\<lambda>_. sample_moment 2 ''GB'') stale_state ''p'' ''GB''
      (M_metadata ''T'' ''t'') = (st', Inr tx)"
    using stale_owner_change by (metis prod.collapse)
  from owner_mutation_sound [OF b] b show ?thesis
    by (auto simp: prepared_from_def sample_moment_def)
qed

definition sample_create :: create_body where
  "sample_create = \<lparr>cr_owner = ''GA'', cr_projectId = ''p_1'', cr_title = '' My <b>album</b>'', cr_projectType = ''music'',
     cr_token = ''CT'', cr_collaborators = [\<lparr>cb_address = ''GA'', cb_alias = ''a'', cb_basisPoints = 2500\<rparr>,
       \<lparr>cb_address = ''GB'', cb_alias = ''b'', cb_basisPoints = 7500\<rparr>], cr_expiresAt = None\<rparr>"

lemma sample_create_accepted:
  "createSplitSchema (address_ok sample_sdk) 0 sample_create = Some \<lparr>ci_owner = ''GA'', ci_projectId = ''p_1'',
     ci_title = ''My album'', ci_projectType = ''music'', ci_token = ''CT'',
     ci_collaborators = [\<lparr>pc_address = ''GA'', pc_alias = ''a'', pc_basisPoints = 2500\<rparr>,
       \<lparr>pc_address = ''GB'', pc_alias = ''b'', pc_basisPoints = 7500\<rparr>], ci_expiresAt = None\<rparr>"
  by code_simp

theorem create_request_roundtrip_witness:
  "\<exists>args. buildCreateProjectContractArgs sample_sdk (the (createSplitSchema (address_ok sample_sdk) 0 sample_create)) = Some args
     \<and> read_create args = Some (''GA'', ''p_1'', ''My album'', ''music'', ''CT'',
         [\<lparr>pc_address = ''GA'', pc_alias = ''a'', pc_basisPoints = 2500\<rparr>, \<lparr>pc_address = ''GB'', pc_alias = ''b'', pc_basisPoints = 7500\<rparr>])"
proof -
  have f: "cr_owner sample_create = ''GA''" "cr_projectId sample_create = ''p_1''" "cr_token sample_create = ''CT''"
    by (simp_all add: sample_create_def)
  show ?thesis
    using create_request_roundtrip [OF sample_create_accepted] unfolding sample_create_accepted f option.sel
    by (elim exE conjE) (simp only: create_input.simps, blast)
qed

text \<open>
  A fractional amount passes the schema of a deposit and is then answered with a complaint about the
  address; on a withdrawal it surfaces as an unexpected error.
\<close>

lemma fractional_deposit_blames_address:
  assumes "to_i128 K amount = None" "ch_account (mo_chain (ms 3)) sender"
    and "check_not_expired asc (ms 0) st p = (st1, None)"
    and "fetchProjectById K asc (ms 1) (mo_before (ms 1) st1) p = (st2, Inr project)"
    and "\<not> falsy project" "get_field project ''token'' = N_string token"
  shows "buildDepositUnsignedXdr K asc ms st p sender amount token
    = (st2, Inl (Request_validation ''from address must be a valid Stellar address''))"
  using assms by (simp add: buildDepositUnsignedXdr_def build_with_args_def buildDepositContractArgs_def split: option.splits)

section \<open>Answers\<close>

primrec no_bigint :: "native \<Rightarrow> bool" where
  "no_bigint N_null = True"
| "no_bigint N_undefined = True"
| "no_bigint (N_bool b) = True"
| "no_bigint (N_number n) = True"
| "no_bigint (N_bigint i) = False"
| "no_bigint (N_string s) = True"
| "no_bigint (N_array vs) = list_all id (map no_bigint vs)"
| "no_bigint (N_object kvs) = list_all snd (map (map_prod id no_bigint) kvs)"

lemma serialize_no_bigint: "no_bigint (serializeBigInts v)"
  by (induction v) (auto simp: list_all_iff)

lemma serialize_id: "no_bigint v \<Longrightarrow> serializeBigInts v = v"
  by (induction v) (auto simp: list_all_iff intro!: map_idI)

end
