(* ===== verification/Split_Routes.thy ===== *)
theory Split_Routes
  imports Split_Builders
begin

text \<open>
  The handlers of the split API (\<open>backend/src/routes/splits.ts\<close>, \<open>controllers/splits.controller.ts\<close>):
  validation, building, what they write to the edit history and drop from the cache, and the answer.
  An answer is the response a handler sends itself or the error it passes to the error middleware.
  \<open>insert_ok\<close> says whether the insert of an edit row succeeds (a failure is only logged).
\<close>

section \<open>Answers\<close>

datatype split_response =
    R_tx UnsignedTxResponse
  | R_value native
  | R_expiration ProjectExpiration
  | R_validation_error string
  | R_rpc_error
  | R_distributions_paused
  | R_next split_error

definition invalid_payload :: split_response where
  "invalid_payload = R_validation_error ''Invalid request payload.''"

text \<open>The inner \<open>catch\<close>: a validation error is answered here, every other error goes to the middleware.\<close>

definition answer_error :: "split_error \<Rightarrow> split_response" where
  "answer_error e = (case e of Request_validation m \<Rightarrow> R_validation_error m | _ \<Rightarrow> R_next e)"

definition answer_build :: "split_error + UnsignedTxResponse \<Rightarrow> split_response" where
  "answer_build r = (case r of Inl e \<Rightarrow> answer_error e | Inr tx \<Rightarrow> R_tx tx)"

text \<open>
  The insert waits for the database, so other requests may have run since the transaction was built.
  The changes are the parsed fields of the body.
\<close>

definition record_edit ::
  "bool \<Rightarrow> moment \<Rightarrow> split_state \<Rightarrow> string \<Rightarrow> string \<Rightarrow> string \<Rightarrow> (string \<times> edit_value) list \<Rightarrow> split_state" where
  "record_edit insert_ok m st projectId actor action changes =
     (let st1 = mo_before m st
      in st1\<lparr>ss_history := recordProjectEdit insert_ok (mo_now m) (ss_history st1) projectId actor action changes\<rparr>)"

definition lock_changes :: "(string \<times> edit_value) list" where
  "lock_changes = [(''locked'', E_bool True)]"

definition metadata_changes :: "string \<Rightarrow> string \<Rightarrow> (string \<times> edit_value) list" where
  "metadata_changes title projectType = [(''title'', E_text title), (''projectType'', E_text projectType)]"

definition collaborators_changes :: "preview_collaborator list \<Rightarrow> (string \<times> edit_value) list" where
  "collaborators_changes cs = [(''collaborators'', E_array (map (\<lambda>c. E_object
     [(''address'', E_text (pc_address c)), (''alias'', E_text (pc_alias c)), (''basisPoints'', E_number (pc_basisPoints c))]) cs))]"

definition evict_project :: "split_state \<Rightarrow> string \<Rightarrow> split_state" where
  "evict_project st projectId = invalidateCacheByPrefix (invalidateCache st (project_key projectId)) ''list_projects:''"

section \<open>Mutations\<close>

definition zod_error :: split_error where
  "zod_error = Thrown ''ZodError''"

definition lockProject ::
  "sdk \<Rightarrow> history_order \<Rightarrow> bool \<Rightarrow> moments \<Rightarrow> split_state \<Rightarrow> string \<Rightarrow> string \<Rightarrow> split_state \<times> split_response" where
  "lockProject K asc insert_ok ms st projectId owner =
     (if \<not> projectIdParamSchema projectId \<or> \<not> stellarAddressSchema (address_ok K) owner then (st, R_next zod_error)
      else case buildLockProjectUnsignedXdr K asc ms st projectId owner of
          (st1, Inl e) \<Rightarrow> (st1, R_next e)
        | (st1, Inr tx) \<Rightarrow> (record_edit insert_ok (ms 3) st1 projectId owner ''lock'' lock_changes, R_tx tx))"

definition patch_metadata ::
  "sdk \<Rightarrow> history_order \<Rightarrow> bool \<Rightarrow> moments \<Rightarrow> split_state \<Rightarrow> string \<Rightarrow> string \<Rightarrow> string \<Rightarrow> string
     \<Rightarrow> split_state \<times> split_response" where
  "patch_metadata K asc insert_ok ms st projectId owner title projectType =
     (case updateMetadataSchema (address_ok K) owner title projectType of
        None \<Rightarrow> (st, invalid_payload)
      | Some (t, p) \<Rightarrow>
        if \<not> projectIdParamSchema projectId then (st, invalid_payload)
        else case buildUpdateMetadataUnsignedXdr K asc ms st projectId owner t p of
            (st1, Inl e) \<Rightarrow> (st1, answer_error e)
          | (st1, Inr tx) \<Rightarrow> (record_edit insert_ok (ms 3) st1 projectId owner ''update_metadata'' (metadata_changes t p), R_tx tx))"

definition put_collaborators ::
  "sdk \<Rightarrow> history_order \<Rightarrow> bool \<Rightarrow> moments \<Rightarrow> split_state \<Rightarrow> string \<Rightarrow> string \<Rightarrow> collaborator_body list
     \<Rightarrow> split_state \<times> split_response" where
  "put_collaborators K asc insert_ok ms st projectId owner cs =
     (case updateCollaboratorsSchema (address_ok K) owner cs of
        None \<Rightarrow> (st, invalid_payload)
      | Some ps \<Rightarrow>
        if \<not> projectIdParamSchema projectId then (st, invalid_payload)
        else case buildUpdateCollaboratorsUnsignedXdr K asc ms st projectId owner ps of
            (st1, Inl e) \<Rightarrow> (st1, answer_error e)
          | (st1, Inr tx) \<Rightarrow> 
              (record_edit insert_ok (ms 3) st1 projectId owner ''update_collaborators'' (collaborators_changes ps), R_tx tx))"

definition patch_expiration ::
  "sdk \<Rightarrow> history_order \<Rightarrow> moments \<Rightarrow> split_state \<Rightarrow> string \<Rightarrow> string \<Rightarrow> instant option \<Rightarrow> split_state \<times> split_response" where
  "patch_expiration K asc ms st projectId owner expiresAt =
     (if \<not> projectIdParamSchema projectId \<or> \<not> stellarAddressSchema (address_ok K) owner then (st, invalid_payload)
      else case assertProjectOwner K asc (ms 1) (ms 2) (mo_before (ms 1) st) projectId owner of
          (st1, Some e) \<Rightarrow> (st1, R_next e)
        | (st1, None) \<Rightarrow>
          (case check_not_expired asc (ms 3) (mo_before (ms 3) st1) projectId of
             (st2, Some e) \<Rightarrow> (st2, R_next e)
           | (st2, None) \<Rightarrow>
             (case configureProjectExpiration asc (mo_now (ms 3)) (mo_now (ms 3)) (ss_history st2) projectId owner
                     (map_option Some expiresAt) None of
                Inl e \<Rightarrow> (st2, R_next (Project_error e))
              | Inr (rows, x) \<Rightarrow> (evict_project (st2\<lparr>ss_history := rows\<rparr>) projectId, R_expiration x))))"

definition post_split ::
  "sdk \<Rightarrow> history_order \<Rightarrow> moments \<Rightarrow> split_state \<Rightarrow> create_body \<Rightarrow> split_state \<times> split_response" where
  "post_split K asc ms st body =
     (case createSplitSchema (address_ok K) (mo_now (ms 0)) body of
        None \<Rightarrow> (st, invalid_payload)
      | Some i \<Rightarrow>
        (case buildCreateProjectUnsignedXdr K (mo_chain (ms 3)) i of
           Inl e \<Rightarrow> (st, answer_error e)
         | Inr tx \<Rightarrow>
           if \<not> mo_db_up (ms 4) then (st, R_next (Thrown ''database unavailable''))
           else let t1 = mo_now (ms 4); t2 = mo_now (ms 5); st1 = mo_before (ms 4) st;
                    (rows, e) = recordSplitCreated asc t1 t2 t1 t2 (ss_history st1) (ci_projectId i) (ci_owner i)
                      (map_option Some (ci_expiresAt i));
                    st2 = st1\<lparr>ss_history := rows\<rparr>
             in case e of
                  Some err \<Rightarrow> (st2, R_next (Project_error err))
                | None \<Rightarrow> (invalidateCacheByPrefix st2 ''list_projects:'', R_tx tx)))"

definition deposit ::
  "sdk \<Rightarrow> history_order \<Rightarrow> moments \<Rightarrow> split_state \<Rightarrow> string \<Rightarrow> string \<Rightarrow> rat \<Rightarrow> string \<Rightarrow> split_state \<times> split_response" where
  "deposit K asc ms st projectId sender amount token =
     (if \<not> projectIdParamSchema projectId \<or> \<not> depositSchema (address_ok K) sender amount token then (st, R_next zod_error)
      else case buildDepositUnsignedXdr K asc ms st projectId sender amount token of
          (st1, Inl e) \<Rightarrow> (st1, R_next e)
        | (st1, Inr tx) \<Rightarrow> (evict_project st1 projectId, R_tx tx))"

definition post_claim ::
  "sdk \<Rightarrow> history_order \<Rightarrow> moments \<Rightarrow> split_state \<Rightarrow> string \<Rightarrow> string \<Rightarrow> split_state \<times> split_response" where
  "post_claim K asc ms st projectId claimer =
     (if \<not> projectIdParamSchema projectId \<or> \<not> stellarAddressSchema (address_ok K) claimer then (st, invalid_payload)
      else case buildClaimUnsignedXdr K asc ms st projectId claimer of
          (st1, Inl e) \<Rightarrow> (st1, answer_error e)
        | (st1, Inr tx) \<Rightarrow> (evict_project st1 projectId, R_tx tx))"

text \<open>The failure the \<open>catch\<close> of a distribution hands to the translation.\<close>

definition failure_of :: "split_error \<Rightarrow> soroban_failure" where
  "failure_of e = (case e of Rpc_failure f \<Rightarrow> f | Thrown m \<Rightarrow> F_other m None | _ \<Rightarrow> F_other [] None)"

definition distribution_error :: "split_error \<Rightarrow> split_error" where
  "distribution_error e =
     (case e of
        Request_validation _ \<Rightarrow> App_error ''ACCOUNT_STATE'' ''ACCOUNT_NOT_FOUND''
      | _ \<Rightarrow> (let t = translateSorobanError (failure_of e) in App_error (ae_type t) (ae_code t)))"

definition post_distribute ::
  "sdk \<Rightarrow> history_order \<Rightarrow> moments \<Rightarrow> split_state \<Rightarrow> string \<Rightarrow> string option \<Rightarrow> split_state \<times> split_response" where
  "post_distribute K asc ms st projectId sourceAddress =
     (if \<not> projectIdParamSchema projectId then (st, R_next (App_error ''VALIDATION'' ''VALIDATION_ERROR''))
      else case check_not_expired asc (ms 0) st projectId of
          (st1, Some e) \<Rightarrow> (st1, R_next e)
        | (st1, None) \<Rightarrow>
          if sourceAddress = Some [] then (st1, R_next (App_error ''VALIDATION'' ''VALIDATION_ERROR''))
          else let source = default_to (sdk_simulatorAccount K) sourceAddress in
            case simulateReadOnlyContractCall K (mo_chain (ms 1)) ''is_distributions_paused'' [] of
              Inl e \<Rightarrow> (st1, R_next (distribution_error e))
            | Inr retval \<Rightarrow>
              (case (case retval of None \<Rightarrow> Inr False | Some v \<Rightarrow> decodeContractValue K contractBoolSchema v) of
                 Inl e \<Rightarrow> (st1, R_next (distribution_error e))
               | Inr True \<Rightarrow> (st1, R_distributions_paused)
               | Inr False \<Rightarrow>
                 (case buildUnsignedContractCall K (mo_chain (ms 3)) source ''source'' ''distribute'' [Sc_symbol projectId] of
                    Inl e \<Rightarrow> (st1, R_next (distribution_error e))
                  | Inr tx \<Rightarrow> (evict_project (mo_before (ms 3) st1) projectId, R_tx tx))))"

section \<open>Administration\<close>

datatype admin_request =
    A_allow string string
  | A_disallow string string
  | A_pause string
  | A_unpause string
  | A_withdraw string string string rat

fun admin_request_ok :: "(string \<Rightarrow> bool) \<Rightarrow> admin_request \<Rightarrow> bool" where
  "admin_request_ok ok (A_allow admin token) = (stellarAddressSchema ok admin \<and> stellarAddressSchema ok token)"
| "admin_request_ok ok (A_disallow admin token) = (stellarAddressSchema ok admin \<and> stellarAddressSchema ok token)"
| "admin_request_ok ok (A_pause admin) = stellarAddressSchema ok admin"
| "admin_request_ok ok (A_unpause admin) = stellarAddressSchema ok admin"
| "admin_request_ok ok (A_withdraw admin token dest amount) = withdrawUnallocatedSchema ok admin token dest amount"

fun admin_build :: "sdk \<Rightarrow> chain \<Rightarrow> admin_request \<Rightarrow> split_error + UnsignedTxResponse" where
  "admin_build K ch (A_allow admin token) = buildAllowTokenUnsignedXdr K ch admin token"
| "admin_build K ch (A_disallow admin token) = buildDisallowTokenUnsignedXdr K ch admin token"
| "admin_build K ch (A_pause admin) = buildPauseDistributionsUnsignedXdr K ch admin"
| "admin_build K ch (A_unpause admin) = buildUnpauseDistributionsUnsignedXdr K ch admin"
| "admin_build K ch (A_withdraw admin token dest amount) = buildWithdrawUnallocatedUnsignedXdr K ch admin token dest amount"

definition post_admin :: "sdk \<Rightarrow> chain \<Rightarrow> admin_request \<Rightarrow> split_response" where
  "post_admin K ch r = (if \<not> admin_request_ok (address_ok K) r then invalid_payload else answer_build (admin_build K ch r))"

text \<open>The read routes of the administrator: a missing return value has a default.\<close>

definition read_default ::
  "sdk \<Rightarrow> chain \<Rightarrow> (native \<Rightarrow> 'a option) \<Rightarrow> 'a \<Rightarrow> string \<Rightarrow> ScVal list \<Rightarrow> split_error + 'a" where
  "read_default K ch schema d method args =
     (case simulateReadOnlyContractCall K ch method args of
        Inl e \<Rightarrow> Inl e
      | Inr None \<Rightarrow> Inr d
      | Inr (Some v) \<Rightarrow> decodeContractValue K schema v)"

definition get_is_token_allowed :: "sdk \<Rightarrow> chain \<Rightarrow> string \<Rightarrow> split_response" where
  "get_is_token_allowed K ch token =
     (if \<not> stellarAddressSchema (address_ok K) token then invalid_payload
      else case read_default K ch contractBoolSchema False ''is_token_allowed'' [Sc_address token] of
          Inl e \<Rightarrow> answer_error e
        | Inr b \<Rightarrow> R_value (N_object [(''token'', N_string token), (''isAllowed'', N_bool b)]))"

definition get_token_count :: "sdk \<Rightarrow> chain \<Rightarrow> split_response" where
  "get_token_count K ch =
     (case read_default K ch contractU32Schema 0 ''get_allowed_token_count'' [] of
        Inl e \<Rightarrow> answer_error e
      | Inr n \<Rightarrow> R_value (N_object [(''count'', N_number (of_int n))]))"

definition get_unallocated :: "sdk \<Rightarrow> chain \<Rightarrow> string \<Rightarrow> split_response" where
  "get_unallocated K ch token =
     (if \<not> stellarAddressSchema (address_ok K) token then invalid_payload
      else case read_default K ch stroopAmountSchema 0 ''get_unallocated_balance'' [Sc_address token] of
          Inl e \<Rightarrow> answer_error e
        | Inr n \<Rightarrow> R_value (N_object [(''token'', N_string token), (''unallocated'', N_string (nat_text (nat n)))]))"

text \<open>
  Reads awaited together: when several fail, \<open>earliest\<close> says which failure came first.
\<close>

definition all_reads :: "(split_error list \<Rightarrow> split_error) \<Rightarrow> (split_error + 'a) list \<Rightarrow> split_error + 'a list" where
  "all_reads earliest rs =
     (let errors = concat (map (\<lambda>r. case r of Inl e \<Rightarrow> [e] | Inr _ \<Rightarrow> []) rs)
      in if errors \<noteq> [] then Inl (earliest errors)
         else Inr (concat (map (\<lambda>r. case r of Inl _ \<Rightarrow> [] | Inr x \<Rightarrow> [x]) rs)))"

definition get_admin_status :: "sdk \<Rightarrow> (split_error list \<Rightarrow> split_error) \<Rightarrow> chain \<Rightarrow> split_response" where
  "get_admin_status K earliest ch =
     (case all_reads earliest [simulateReadOnlyContractCall K ch ''get_admin'' [],
             simulateReadOnlyContractCall K ch ''is_distributions_paused'' []] of
        Inl e \<Rightarrow> answer_error e
      | Inr vs \<Rightarrow>
        (case (case vs ! 0 of None \<Rightarrow> Some N_null | Some v \<Rightarrow> map_option (\<lambda>n. N_string (native_text K n)) (scValToNative K v)) of
           None \<Rightarrow> R_next (Thrown ''undecodable value'')
         | Some admin \<Rightarrow>
           (case (case vs ! 1 of None \<Rightarrow> Inr False | Some v \<Rightarrow> decodeContractValue K contractBoolSchema v) of
              Inl e \<Rightarrow> answer_error e
            | Inr paused \<Rightarrow> R_value (N_object [(''admin'', admin), (''isPaused'', N_bool paused)]))))"

definition get_allowlist ::
  "sdk \<Rightarrow> (split_error list \<Rightarrow> split_error) \<Rightarrow> chain \<Rightarrow> rat option \<Rightarrow> rat option \<Rightarrow> split_response" where
  "get_allowlist K earliest ch start limit =
     (case allowlistQuerySchema start limit of
        None \<Rightarrow> invalid_payload
      | Some (s, l) \<Rightarrow>
        (case all_reads earliest [simulateReadOnlyContractCall K ch ''get_admin'' [],
                simulateReadOnlyContractCall K ch ''get_allowed_token_count'' [],
                simulateReadOnlyContractCall K ch ''get_allowed_tokens'' [Sc_u32 s, Sc_u32 l]] of
           Inl e \<Rightarrow> answer_error e
         | Inr vs \<Rightarrow>
           (case (case vs ! 0 of None \<Rightarrow> Some N_null | Some v \<Rightarrow> scValToNative K v) of
              None \<Rightarrow> R_next (Thrown ''undecodable value'')
            | Some admin \<Rightarrow>
              (case (case vs ! 1 of None \<Rightarrow> Inr 0 | Some v \<Rightarrow> decodeContractValue K contractU32Schema v) of
                 Inl e \<Rightarrow> answer_error e
               | Inr n \<Rightarrow>
                 (case (case vs ! 2 of None \<Rightarrow> Some (N_array []) | Some v \<Rightarrow> scValToNative K v) of
                    None \<Rightarrow> R_next (Thrown ''undecodable value'')
                  | Some tokens \<Rightarrow>
                    R_value (serializeBigInts (N_object [(''admin'', admin), (''count'', N_number (of_int n)), (''tokens'', tokens)])))))))"

definition claimableInfoSchema :: "native \<Rightarrow> native option" where
  "claimableInfoSchema n =
     (case n of
        N_object kvs \<Rightarrow>
          (case (stroopAmountSchema (get_field n ''claimed''), contractU32Schema (get_field n ''distribution_round''),
                 stroopAmountSchema (get_field n ''last_claim_amount'')) of
             (Some c, Some r, Some l) \<Rightarrow>
               Some (N_object (jm_set (jm_set (jm_set kvs ''claimed'' (N_bigint c)) ''distribution_round'' (N_number (of_int r)))
                 ''last_claim_amount'' (N_bigint l)))
           | _ \<Rightarrow> None)
      | _ \<Rightarrow> None)"

text \<open>The account of the simulator and the simulation are looked up separately here.\<close>

definition get_claimable :: "sdk \<Rightarrow> chain \<Rightarrow> string \<Rightarrow> string \<Rightarrow> split_response" where
  "get_claimable K ch projectId address =
     (if \<not> projectIdParamSchema projectId \<or> \<not> stellarAddressSchema (address_ok K) address then invalid_payload
      else if \<not> ch_account ch (sdk_simulatorAccount K) then R_rpc_error
      else case ch_simulate ch \<lparr>cc_source = sdk_simulatorAccount K, cc_operation = ''get_claimable'',
                 cc_args = [Sc_symbol projectId, Sc_address address]\<rparr> of
          Inl f \<Rightarrow> (let t = translateSorobanError f in R_next (App_error (ae_type t) (ae_code t)))
        | Inr r \<Rightarrow>
          (case readSimulationRetval r of
             Inl e \<Rightarrow> R_next e
           | Inr None \<Rightarrow> R_rpc_error
           | Inr (Some v) \<Rightarrow>
             (case decodeContractValue K claimableInfoSchema v of
                Inl e \<Rightarrow> R_next e
              | Inr claimable \<Rightarrow>
                R_value (N_object [(''projectId'', N_string projectId), (''address'', N_string address),
                  (''claimable'', serializeBigInts claimable)]))))"

section \<open>Listing\<close>

definition list_key :: "int \<Rightarrow> int \<Rightarrow> string" where
  "list_key start limit = ''list_projects:'' @ nat_text (nat start) @ '':'' @ nat_text (nat limit)"

definition load_list :: "sdk \<Rightarrow> chain \<Rightarrow> int \<Rightarrow> int \<Rightarrow> split_error + native" where
  "load_list K ch start limit =
     (case simulateReadOnlyContractCall K ch ''list_projects'' [Sc_u32 start, Sc_u32 limit] of
        Inl e \<Rightarrow> Inl e
      | Inr None \<Rightarrow> Inr (N_array [])
      | Inr (Some v) \<Rightarrow> (case scValToNative K v of None \<Rightarrow> Inl (Thrown ''undecodable value'') | Some n \<Rightarrow> Inr n))"

definition fetchProjectsFromContract ::
  "sdk \<Rightarrow> moment \<Rightarrow> split_state \<Rightarrow> int \<Rightarrow> int \<Rightarrow> split_state \<times> (split_error + native list)" where
  "fetchProjectsFromContract K m st start limit =
     (let (c, r) = getCachedOrFetch m (ss_cache st) (list_key start limit) (load_list K (mo_chain m) start limit)
      in (st\<lparr>ss_cache := c\<rparr>,
          case r of Inl e \<Rightarrow> Inl e | Inr (N_array ps) \<Rightarrow> Inr ps | Inr _ \<Rightarrow> Inl (Thrown ''not an array'')))"

text \<open>\<open>String(row.field ?? "").toLowerCase()\<close>.\<close>

definition field_text :: "sdk \<Rightarrow> native \<Rightarrow> string \<Rightarrow> string" where
  "field_text K row k = to_lower (owner_text K (get_field row k))"

definition project_filter :: "sdk \<Rightarrow> string option \<Rightarrow> string option \<Rightarrow> native list \<Rightarrow> native list" where
  "project_filter K search type ps =
     (let searched = (case search of None \<Rightarrow> ps | Some [] \<Rightarrow> ps
            | Some q \<Rightarrow> filter (\<lambda>p. includes_str (field_text K p ''title'') (to_lower q)
                \<or> includes_str (field_text K p ''projectId'') (to_lower q)) ps)
      in case type of None \<Rightarrow> searched | Some [] \<Rightarrow> searched
         | Some t \<Rightarrow> filter (\<lambda>p. field_text K p ''projectType'' = to_lower t) searched)"

definition absent :: "string option \<Rightarrow> bool" where
  "absent s = (s = None \<or> s = Some [])"

definition listProjects_service ::
  "sdk \<Rightarrow> moment \<Rightarrow> split_state \<Rightarrow> int \<Rightarrow> int \<Rightarrow> string option \<Rightarrow> string option \<Rightarrow> split_state \<times> (split_error + native list)" where
  "listProjects_service K m st start limit search type =
     (if absent search \<and> absent type then fetchProjectsFromContract K m st start limit
      else case fetchProjectsFromContract K m st 0 1000 of
          (st1, Inl e) \<Rightarrow> (st1, Inl e)
        | (st1, Inr ps) \<Rightarrow> (st1, Inr (take (nat limit) (drop (nat start) (project_filter K search type ps)))))"

record project_page =
  pp_projects :: "native list"
  pp_total :: int
  pp_start :: int
  pp_limit :: int
  pp_hasMore :: bool
  pp_nextCursor :: "int option"

text \<open>
  The page of the controller; a cursor stands for the start it encodes, \<open>Some None\<close> for a text that
  does not decode.
\<close>

definition listProjects ::
  "sdk \<Rightarrow> moments \<Rightarrow> split_state \<Rightarrow> rat option \<Rightarrow> rat option \<Rightarrow> string option \<Rightarrow> string option \<Rightarrow> int option option
     \<Rightarrow> split_state \<times> (split_error + project_page)" where
  "listProjects K ms st start limit search type cursor =
     (case listProjectsSchema start limit of
        None \<Rightarrow> (st, Inl (App_error ''VALIDATION'' ''VALIDATION_ERROR''))
      | Some (s0, l) \<Rightarrow>
        if cursor = Some None then (st, Inl (App_error ''VALIDATION'' ''VALIDATION_ERROR''))
        else let s = (case cursor of Some (Some c) \<Rightarrow> c | _ \<Rightarrow> s0) in
          case listProjects_service K (ms 1) st s l search type of
            (st1, Inl e) \<Rightarrow> (st1, Inl e)
          | (st1, Inr projects) \<Rightarrow>
            (case read_default K (mo_chain (ms 2)) contractU32Schema 0 ''get_project_count'' [] of
               Inl e \<Rightarrow> (st1, Inl e)
             | Inr totalCount \<Rightarrow>
               let hasMore = (s + int (length projects) < totalCount)
               in (st1, Inr \<lparr>pp_projects = map serializeBigInts projects, pp_total = totalCount, pp_start = s, pp_limit = l,
                    pp_hasMore = hasMore, pp_nextCursor = (if hasMore then Some (s + l) else None)\<rparr>)))"

section \<open>On-chain history\<close>

record chain_event =
  ev_id :: string
  ev_txHash :: string
  ev_ledgerClosedAt :: string
  ev_value :: ScVal

record events_response =
  er_events :: "chain_event list"
  er_cursor :: "string option"

datatype history_item =
    H_round int string string string string
  | H_payment string string string string string

fun item_time :: "history_item \<Rightarrow> string" where
  "item_time (H_round _ _ _ t _) = t"
| "item_time (H_payment _ _ _ t _) = t"

definition distributionCompleteEventValueSchema :: "native \<Rightarrow> (int \<times> int) option" where
  "distributionCompleteEventValueSchema n =
     (case n of N_array (r # a # _) \<Rightarrow>
        (case (contractU32Schema r, stroopAmountSchema a) of (Some x, Some y) \<Rightarrow> Some (x, y) | _ \<Rightarrow> None)
      | _ \<Rightarrow> None)"

definition payoutEventValueSchema :: "(string \<Rightarrow> bool) \<Rightarrow> native \<Rightarrow> (string \<times> int) option" where
  "payoutEventValueSchema ok n =
     (case n of N_array (N_string r # a # _) \<Rightarrow>
        if stellarAddressSchema ok r \<and> (starts_with r ''G'' \<or> starts_with r ''C'')
        then (case stroopAmountSchema a of Some y \<Rightarrow> if 0 < y then Some (r, y) else None | None \<Rightarrow> None)
        else None
      | _ \<Rightarrow> None)"

definition decodeRoundHistoryEventValue :: "sdk \<Rightarrow> ScVal \<Rightarrow> split_error + (int \<times> string)" where
  "decodeRoundHistoryEventValue K v =
     map_sum id (\<lambda>(r, a). (r, nat_text (nat a))) (decodeContractValue K distributionCompleteEventValueSchema v)"

definition decodePaymentHistoryEventValue :: "sdk \<Rightarrow> ScVal \<Rightarrow> split_error + (string \<times> string)" where
  "decodePaymentHistoryEventValue K v =
     map_sum id (\<lambda>(r, a). (r, nat_text (nat a))) (decodeContractValue K (payoutEventValueSchema (address_ok K)) v)"

definition round_item :: "sdk \<Rightarrow> chain_event \<Rightarrow> split_error + history_item" where
  "round_item K e = map_sum id (\<lambda>(r, a). H_round r a (ev_txHash e) (ev_ledgerClosedAt e) (ev_id e))
     (decodeRoundHistoryEventValue K (ev_value e))"

definition payment_item :: "sdk \<Rightarrow> chain_event \<Rightarrow> split_error + history_item" where
  "payment_item K e = map_sum id (\<lambda>(r, a). H_payment r a (ev_txHash e) (ev_ledgerClosedAt e) (ev_id e))
     (decodePaymentHistoryEventValue K (ev_value e))"

text \<open>
  \<open>getEvents topic cursor limit\<close> is the answer of the node for the two topics; times are compared with
  the collation \<open>locale_le\<close>, newest first.
\<close>

definition get_history ::
  "sdk \<Rightarrow> (string \<Rightarrow> string \<Rightarrow> bool) \<Rightarrow> (string \<Rightarrow> string \<Rightarrow> int \<Rightarrow> soroban_failure + events_response)
     \<Rightarrow> string \<Rightarrow> string \<Rightarrow> rat option \<Rightarrow> split_error + (history_item list \<times> string option)" where
  "get_history K locale_le getEvents projectId cursor limit =
     (case window_schema 200 100 None limit of
        None \<Rightarrow> Inl (App_error ''VALIDATION'' ''VALIDATION_ERROR'')
      | Some (_, l) \<Rightarrow>
        if \<not> projectIdParamSchema projectId then Inl (App_error ''VALIDATION'' ''VALIDATION_ERROR'')
        else case (getEvents ''distribution_complete'' cursor l, getEvents ''payment_sent'' cursor l) of
            (Inl e, _) \<Rightarrow> Inl (Rpc_failure e)
          | (Inr _, Inl e) \<Rightarrow> Inl (Rpc_failure e)
          | (Inr rounds, Inr payments) \<Rightarrow>
            (case map_result (round_item K) (er_events rounds) of
               Inl e \<Rightarrow> Inl e
             | Inr rs \<Rightarrow>
               (case map_result (payment_item K) (er_events payments) of
                  Inl e \<Rightarrow> Inl e
                | Inr ps \<Rightarrow>
                  Inr (sort_by (\<lambda>a b. locale_le (item_time b) (item_time a)) (rs @ ps),
                    (case er_cursor rounds of Some (c # cs) \<Rightarrow> Some (c # cs)
                     | _ \<Rightarrow> (case er_cursor payments of Some (c # cs) \<Rightarrow> Some (c # cs) | _ \<Rightarrow> None))))))"

section \<open>The edit history\<close>

text \<open>
  Other requests may insert rows meanwhile: \<open>appends Q ms\<close> says that all they do to the table is to
  append rows of the set \<open>Q\<close>. The edits of a table apart from theirs, and without the markers of a
  deadline that was reached:
\<close>

definition appends :: "ProjectEditHistory set \<Rightarrow> moments \<Rightarrow> bool" where
  "appends Q ms \<longleftrightarrow> (\<forall>i s. \<exists>rows. ss_history (mo_before (ms i) s) = ss_history s @ rows \<and> set rows \<subseteq> Q)"

definition own_edits :: "ProjectEditHistory set \<Rightarrow> ProjectEditHistory list \<Rightarrow> ProjectEditHistory list" where
  "own_edits Q rows = filter (\<lambda>r. eh_action r \<noteq> ''expiration.reached'' \<and> r \<notin> Q) rows"

text \<open>\<open>records_grown Q rows rows'\<close>: rows were only appended, and no edits apart from those of \<open>Q\<close>.\<close>

definition records_grown :: "ProjectEditHistory set \<Rightarrow> ProjectEditHistory list \<Rightarrow> ProjectEditHistory list \<Rightarrow> bool" where
  "records_grown Q rows rows' \<longleftrightarrow> (\<exists>more_rows. rows' = rows @ more_rows \<and> own_edits Q more_rows = [])"

lemma records_grown_refl [simp]: "records_grown Q rows rows"
  by (simp add: records_grown_def own_edits_def)

lemma records_grown_trans: "records_grown Q a b \<Longrightarrow> records_grown Q b c \<Longrightarrow> records_grown Q a c"
  by (auto simp: records_grown_def own_edits_def)

lemma grown_edits: "records_grown Q a b \<Longrightarrow> own_edits Q b = own_edits Q a"
  by (auto simp: records_grown_def own_edits_def)

lemma grown_before: "appends Q ms \<Longrightarrow> records_grown Q (ss_history s) (ss_history (mo_before (ms i) s))"
  unfolding appends_def records_grown_def own_edits_def by (auto simp: filter_empty_conv dest!: spec [of _ i] spec [of _ s])

datatype owner_request = Req_lock | Req_collaborators "collaborator_body list" | Req_metadata string string

fun owner_route ::
  "sdk \<Rightarrow> history_order \<Rightarrow> bool \<Rightarrow> moments \<Rightarrow> split_state \<Rightarrow> string \<Rightarrow> string \<Rightarrow> owner_request \<Rightarrow> split_state \<times> split_response" where
  "owner_route K asc ok ms st p owner Req_lock = lockProject K asc ok ms st p owner"
| "owner_route K asc ok ms st p owner (Req_collaborators cs) = put_collaborators K asc ok ms st p owner cs"
| "owner_route K asc ok ms st p owner (Req_metadata title ptype) = patch_metadata K asc ok ms st p owner title ptype"

fun route_action :: "owner_request \<Rightarrow> string" where
  "route_action Req_lock = ''lock''"
| "route_action (Req_collaborators cs) = ''update_collaborators''"
| "route_action (Req_metadata title ptype) = ''update_metadata''"

fun parsed_request :: "(string \<Rightarrow> bool) \<Rightarrow> string \<Rightarrow> owner_request \<Rightarrow> owner_mutation option" where
  "parsed_request ok owner Req_lock = (if stellarAddressSchema ok owner then Some M_lock else None)"
| "parsed_request ok owner (Req_collaborators cs) = map_option M_collaborators (updateCollaboratorsSchema ok owner cs)"
| "parsed_request ok owner (Req_metadata t p) = map_option (\<lambda>(t', p'). M_metadata t' p') (updateMetadataSchema ok owner t p)"

fun mutation_changes :: "owner_mutation \<Rightarrow> (string \<times> edit_value) list" where
  "mutation_changes M_lock = lock_changes"
| "mutation_changes (M_collaborators cs) = collaborators_changes cs"
| "mutation_changes (M_metadata t p) = metadata_changes t p"

definition edit_row :: "instant \<Rightarrow> string \<Rightarrow> string \<Rightarrow> owner_request \<Rightarrow> owner_mutation \<Rightarrow> ProjectEditHistory" where
  "edit_row stamp p owner req mu = \<lparr>eh_projectId = p, eh_actor = owner, eh_action = route_action req, eh_createdAt = stamp,
     eh_changes_createdAt = None, eh_changes_expiresAt = None, eh_changes = mutation_changes mu\<rparr>"

lemma getCachedOrFetch_history: "fetchProjectById K asc m st p = (st1, r) \<Longrightarrow> ss_history st1 = ss_history st"
  by (auto simp: fetchProjectById_def Let_def split: prod.splits sum.splits if_splits)

lemma readOwner_history: "readOwner K asc m st p = (st1, r) \<Longrightarrow> ss_history st1 = ss_history st"
  by (auto simp: readOwner_def split: prod.splits sum.splits if_splits dest: getCachedOrFetch_history)

lemma owner_check_history:
  assumes "appends Q ms" "assertProjectOwner K asc m1 (ms i) st p owner = (st1, r)"
  shows "records_grown Q (ss_history st) (ss_history st1)"
proof -
  obtain s1 r1 where r1: "readOwner K asc m1 st p = (s1, r1)" by fastforce
  obtain s2 r2 where r2: "readOwner K asc (ms i) (invalidateCache (mo_before (ms i) s1) (project_key p)) p = (s2, r2)" by fastforce
  have "records_grown Q (ss_history s1) (ss_history s2)"
    using readOwner_history [OF r2] grown_before [OF assms(1), of s1 i] by (simp add: invalidateCache_def)
  with readOwner_history [OF r1] show ?thesis
    using assms r1 r2 by (auto simp: assertProjectOwner_def split: sum.splits if_splits)
qed

lemma not_expired_grown:
  "check_not_expired asc m st p = (st1, r) \<Longrightarrow> records_grown Q (ss_history st) (ss_history st1)"
  by (auto simp: check_not_expired_def assertProjectNotExpired_def recordExpirationEvent_def records_grown_def own_edits_def
      split: if_splits option.splits prod.splits)

lemma gate_grown:
  assumes "appends Q ms" "owner_gate K asc ms st p owner = (st1, r)"
  shows "records_grown Q (ss_history st) (ss_history st1)"
proof -
  obtain s e where c: "check_not_expired asc (ms 0) st p = (s, e)" by fastforce
  note checked = not_expired_grown [OF c, of Q]
  show ?thesis
  proof (cases e)
    case None
    then have "assertProjectOwner K asc (ms 1) (ms 2) (mo_before (ms 1) s) p owner = (st1, r)"
      using assms c by (simp add: owner_gate_def)
    from owner_check_history [OF assms(1) this] grown_before [OF assms(1), of s 1] checked show ?thesis
      by (blast intro: records_grown_trans)
  next
    case (Some x)
    with assms(2) c checked show ?thesis by (simp add: owner_gate_def)
  qed
qed

lemma mutation_grown:
  assumes "appends Q ms" "build_mutation K asc ms st p owner mu = (st1, r)"
  shows "records_grown Q (ss_history st) (ss_history st1)"
proof -
  obtain s e where g: "owner_gate K asc ms st p owner = (s, e)" by fastforce
  have "st1 = s" using assms(2) g
    by (cases mu; cases e) (simp_all add: buildLockProjectUnsignedXdr_def buildUpdateCollaboratorsUnsignedXdr_def
        buildUpdateMetadataUnsignedXdr_def)
  with gate_grown [OF assms(1) g] show ?thesis by simp
qed

lemma answer_error_no_tx [simp]: "answer_error e \<noteq> R_tx tx"
  by (cases e) (simp_all add: answer_error_def)

definition owner_refusal :: "owner_request \<Rightarrow> split_response" where
  "owner_refusal req = (if req = Req_lock then R_next zod_error else invalid_payload)"

definition owner_failure :: "owner_request \<Rightarrow> split_error \<Rightarrow> split_response" where
  "owner_failure req e = (if req = Req_lock then R_next e else answer_error e)"

text \<open>Each of the three routes builds one mutation and writes its row exactly when it has a transaction.\<close>

lemma owner_route_shape:
  "owner_route K asc ok ms st p owner req =
     (case if projectIdParamSchema p then parsed_request (address_ok K) owner req else None of
        None \<Rightarrow> (st, owner_refusal req)
      | Some mu \<Rightarrow>
        (case build_mutation K asc ms st p owner mu of
           (st1, Inl e) \<Rightarrow> (st1, owner_failure req e)
         | (st1, Inr tx) \<Rightarrow> (record_edit ok (ms 3) st1 p owner (route_action req) (mutation_changes mu), R_tx tx)))"
proof (cases req)
  case (Req_collaborators cs)
  then show ?thesis
    by (cases "updateCollaboratorsSchema (address_ok K) owner cs")
       (simp_all add: put_collaborators_def owner_refusal_def owner_failure_def)
next
  case (Req_metadata t q)
  then show ?thesis
    by (cases "updateMetadataSchema (address_ok K) owner t q")
       (auto simp add: patch_metadata_def owner_refusal_def owner_failure_def)
qed (simp add: lockProject_def owner_refusal_def owner_failure_def)

text \<open>
  (C13) The edit history records the answered mutations. Whatever other requests append meanwhile, a
  lock, a change of collaborators or a change of metadata keeps the rows that were there, and apart
  from the rows of others it adds exactly one, with its project, actor, action, time and the parsed
  changes, when it answers with a transaction and the insert succeeds. When the request is refused or
  fails it adds none (a reached deadline leaves its marker, which is no edit), and none either when the
  insert fails: the caller is answered all the same.
\<close>

theorem edits_recorded_iff_answered:
  assumes "appends Q ms" "owner_route K asc insert_ok ms st projectId owner body = (st', answer)"
    and "\<forall>mu. edit_row (mo_now (ms 3)) projectId owner body mu \<notin> Q"
  shows "(\<exists>added. ss_history st' = ss_history st @ added)
    \<and> own_edits Q (ss_history st') = own_edits Q (ss_history st) @
      (case (answer, parsed_request (address_ok K) owner body) of
         (R_tx tx, Some mu) \<Rightarrow> if insert_ok then [edit_row (mo_now (ms 3)) projectId owner body mu] else []
       | _ \<Rightarrow> [])"
proof (cases "if projectIdParamSchema projectId then parsed_request (address_ok K) owner body else None")
  case None
  with assms(2) show ?thesis by (auto simp: owner_route_shape owner_refusal_def invalid_payload_def split: if_splits)
next
  case (Some mu)
  then have parsed: "parsed_request (address_ok K) owner body = Some mu" by (simp split: if_splits)
  obtain st1 r where b: "build_mutation K asc ms st projectId owner mu = (st1, r)" by fastforce
  note built = mutation_grown [OF assms(1) b]
  show ?thesis
  proof (cases r)
    case (Inl e)
    have "owner_failure body e \<noteq> R_tx tx" for tx by (simp add: owner_failure_def)
    with Inl Some b assms(2) built grown_edits [OF built] show ?thesis
      by (cases answer) (auto simp: owner_route_shape records_grown_def)
  next
    case (Inr tx)
    let ?row = "edit_row (mo_now (ms 3)) projectId owner body mu"
    have row: "own_edits Q [?row] = [?row]"
      using assms(3) by (cases body) (simp_all add: own_edits_def edit_row_def)
    have "filter (\<lambda>(k, v). k \<noteq> ''owner'') (mutation_changes mu) = mutation_changes mu"
      by (cases mu) (simp_all add: lock_changes_def collaborators_changes_def metadata_changes_def)
    then have st': "ss_history st' = ss_history (mo_before (ms 3) st1) @ (if insert_ok then [?row] else [])"
      and ans: "answer = R_tx tx"
      using Inr Some b assms(2) by (auto simp: owner_route_shape record_edit_def recordProjectEdit_def edit_row_def Let_def)
    have g: "records_grown Q (ss_history st) (ss_history (mo_before (ms 3) st1))"
      by (rule records_grown_trans [OF built grown_before [OF assms(1)]])
    from grown_edits [OF g] st' have "own_edits Q (ss_history st') = own_edits Q (ss_history st) @ (if insert_ok then [?row] else [])"
      using row by (simp add: own_edits_def)
    moreover have "\<exists>added. ss_history st' = ss_history st @ added" using g st' by (auto simp: records_grown_def)
    ultimately show ?thesis using ans parsed by simp
  qed
qed

definition empty_state :: split_state where
  "empty_state = \<lparr>ss_cache = new_ReadCache None None, ss_history = []\<rparr>"

text \<open>A foreign row arrives before the insert.\<close>

definition foreign_row :: ProjectEditHistory where
  "foreign_row = \<lparr>eh_projectId = ''q'', eh_actor = ''GX'', eh_action = ''lock'', eh_createdAt = 1,
     eh_changes_createdAt = None, eh_changes_expiresAt = None, eh_changes = lock_changes\<rparr>"

definition busy_moment :: moment where
  "busy_moment = (sample_moment 2 ''GB'')\<lparr>mo_before := (\<lambda>s. s\<lparr>ss_history := ss_history s @ [foreign_row]\<rparr>)\<rparr>"

theorem edits_recorded_iff_answered_witness:
  "map (\<lambda>r. (eh_action r, eh_changes r)) (own_edits {foreign_row} (ss_history (fst (owner_route sample_sdk oldest_first True
     (\<lambda>_. busy_moment) stale_state ''p'' ''GB'' (Req_metadata ''T'' ''t'')))))
   = [(''update_metadata'', [(''title'', E_text ''T''), (''projectType'', E_text ''t'')])]"
proof -
  let ?route = "owner_route sample_sdk oldest_first True (\<lambda>_. busy_moment) stale_state ''p'' ''GB'' (Req_metadata ''T'' ''t'')"
  have q: "appends {foreign_row} (\<lambda>_. busy_moment)" by (simp add: appends_def busy_moment_def)
  obtain st' answer where e: "?route = (st', answer)" by fastforce
  have "(case snd ?route of R_tx tx \<Rightarrow> True | _ \<Rightarrow> False)" by code_simp
  then obtain tx where "answer = R_tx tx" using e by (cases answer) auto
  moreover have "own_edits {foreign_row} (ss_history stale_state) = []" by code_simp
  moreover have "parsed_request (address_ok sample_sdk) ''GB'' (Req_metadata ''T'' ''t'') = Some (M_metadata ''T'' ''t'')" by code_simp
  moreover have "\<forall>mu. edit_row t ''p'' ''GB'' (Req_metadata ''T'' ''t'') mu \<notin> {foreign_row}" for t
    by (simp add: edit_row_def foreign_row_def)
  ultimately show ?thesis using edits_recorded_iff_answered [OF q e] e by (simp add: edit_row_def metadata_changes_def)
qed

section \<open>Deadlines of projects that were never created\<close>

text \<open>
  A creation is recorded, with its deadline, when the transaction is built, whoever signs it or not.
  Here \<open>GM\<close> asks for the id \<open>p\<close> with the deadline 10 and never submits; \<open>GA\<close> then creates \<open>p\<close>
  without a deadline. From the instant 10 on the owner is refused, and so is every attempt to change
  the deadline.
\<close>

definition create_p :: "string \<Rightarrow> instant option \<Rightarrow> create_body" where
  "create_p owner deadline = sample_create\<lparr>cr_owner := owner, cr_projectId := ''p'', cr_expiresAt := deadline\<rparr>"

definition after_creations :: split_state where
  "after_creations =
     fst (post_split sample_sdk oldest_first (\<lambda>i. sample_moment (6 + int i) ''GA'')
       (fst (post_split sample_sdk oldest_first (\<lambda>i. sample_moment (int i) ''GM'') empty_state (create_p ''GM'' (Some 10))))
       (create_p ''GA'' None))"

lemma abandoned_creation_expires_project:
  "snd (lockProject sample_sdk oldest_first True (\<lambda>_. sample_moment 12 ''GA'') after_creations ''p'' ''GA'')
     = R_next (Project_error (ApiError ''SPLIT_EXPIRED'' 410))"
  "snd (patch_expiration sample_sdk oldest_first (\<lambda>_. sample_moment 12 ''GA'') after_creations ''p'' ''GA'' (Some 99))
     = R_next (Project_error (ApiError ''SPLIT_EXPIRED'' 410))"
  by code_simp+

section \<open>Filters and pages\<close>

text \<open>
  The rows of the contract call their fields \<open>project_id\<close> and \<open>project_type\<close>. The filter reads
  \<open>projectId\<close> and \<open>projectType\<close>, so a type filter finds nothing and a search sees titles only.
\<close>

definition contract_row :: "native \<Rightarrow> bool" where
  "contract_row row \<longleftrightarrow> get_field row ''projectId'' = N_undefined \<and> get_field row ''projectType'' = N_undefined"

lemma type_filter_empty:
  assumes "\<forall>p \<in> set ps. contract_row p" "t \<noteq> []"
  shows "project_filter K search (Some t) ps = []"
proof -
  have "field_text K p ''projectType'' = []" if "p \<in> set ps" for p
    using assms(1) that by (simp add: contract_row_def field_text_def owner_text_def to_lower_def)
  moreover have "to_lower t \<noteq> []" using assms(2) by (simp add: to_lower_def)
  ultimately have none: "\<forall>p \<in> set ps. field_text K p ''projectType'' \<noteq> to_lower t" by auto
  obtain c cs where t: "t = c # cs" using assms(2) by (cases t) auto
  show ?thesis
    using none by (auto simp: project_filter_def t Let_def filter_empty_conv split: option.splits list.splits)
qed

lemma search_sees_titles_only:
  assumes "\<forall>p \<in> set ps. contract_row p" "q \<noteq> []"
  shows "project_filter K (Some q) None ps = filter (\<lambda>p. includes_str (field_text K p ''title'') (to_lower q)) ps"
proof -
  obtain c cs where q: "q = c # cs" using assms(2) by (cases q) auto
  have "\<not> includes_str (field_text K p ''projectId'') (to_lower q)" if "p \<in> set ps" for p
    using assms that by (simp add: contract_row_def field_text_def owner_text_def to_lower_def)
  then show ?thesis by (auto simp: project_filter_def q intro!: filter_cong)
qed

text \<open>
  The pages of a filtered list are counted against all projects: a page past the last match still
  announces another page whenever the contract holds more projects than the position.
\<close>

lemma filtered_pages_trail:
  assumes "listProjectsSchema start limit = Some (s, l)" "absent type" "\<not> absent search"
    and "fetchProjectsFromContract K (ms 1) st 0 1000 = (st1, Inr ps)"
    and "int (length (project_filter K search type ps)) \<le> s" "0 \<le> s"
    and "read_default K (mo_chain (ms 2)) contractU32Schema 0 ''get_project_count'' [] = Inr n" "s < n"
  shows "\<exists>page. snd (listProjects K ms st start limit search type None) = Inr page \<and> pp_projects page = []
    \<and> pp_nextCursor page = Some (s + l)"
  using assms by (auto simp: listProjects_def listProjects_service_def)

text \<open>Without filters a page is the window the contract returns, and the cursor is the next window.\<close>

lemma plain_page:
  assumes "listProjectsSchema start limit = Some (s, l)" "absent type" "absent search"
    and "fetchProjectsFromContract K (ms 1) st s l = (st1, Inr ps)"
    and "read_default K (mo_chain (ms 2)) contractU32Schema 0 ''get_project_count'' [] = Inr n"
  shows "\<exists>page. snd (listProjects K ms st start limit search type None) = Inr page
    \<and> pp_projects page = map serializeBigInts ps
    \<and> pp_nextCursor page = (if s + int (length ps) < n then Some (s + l) else None)"
  using assms by (auto simp: listProjects_def listProjects_service_def Let_def)

section \<open>The history cursor\<close>

text \<open>
  A node as the documentation of \<open>getEvents\<close> describes it: the events of the topic after the cursor,
  at most \<open>limit\<close> of them, and as the cursor the last one returned on a full page and the end of the
  scanned range otherwise. Positions are numbers, written as texts.
\<close>

definition node_events :: "nat \<Rightarrow> (nat \<times> string \<times> ScVal) list \<Rightarrow> string \<Rightarrow> string \<Rightarrow> int \<Rightarrow> soroban_failure + events_response" where
  "node_events latest entries topic cursor limit =
     (let after = (if cursor = [] then 0 else text_nat cursor);
          matching = filter (\<lambda>(pos, t, v). t = topic \<and> after < pos) entries;
          page = take (nat limit) matching
      in Inr \<lparr>er_events = map (\<lambda>(pos, t, v). \<lparr>ev_id = nat_text pos, ev_txHash = ''h'', ev_ledgerClosedAt = nat_text pos, ev_value = v\<rparr>) page,
           er_cursor = Some (nat_text (if length page = nat limit then fst (last page) else latest))\<rparr>)"

definition event_sdk :: sdk where
  "event_sdk = sample_sdk\<lparr>scValToNative := (\<lambda>v. case v of
      Sc_vec [Sc_address r, Sc_i128 a] \<Rightarrow> Some (N_array [N_string r, N_bigint a])
    | Sc_vec [Sc_u32 r, Sc_i128 a] \<Rightarrow> Some (N_array [N_number (of_int r), N_bigint a])
    | _ \<Rightarrow> None)\<rparr>"

definition sample_log :: "(nat \<times> string \<times> ScVal) list" where
  "sample_log = [(1, ''payment_sent'', Sc_vec [Sc_address ''GA'', Sc_i128 5]),
     (2, ''payment_sent'', Sc_vec [Sc_address ''GB'', Sc_i128 6]),
     (3, ''distribution_complete'', Sc_vec [Sc_u32 1, Sc_i128 11])]"

text \<open>
  The cursor handed out is that of the rounds. With one event per page, the first page shows the round
  and the first payment and points behind the round; the second payment is on no page.
\<close>

lemma history_skips_payment:
  "get_history event_sdk (\<le>) (node_events 9 sample_log) ''p'' [] (Some 1)
     = Inr ([H_round 1 ''11'' ''h'' ''3'' ''3'', H_payment ''GA'' ''5'' ''h'' ''1'' ''1''], Some ''3'')"
  "get_history event_sdk (\<le>) (node_events 9 sample_log) ''p'' ''3'' (Some 1) = Inr ([], Some ''9'')"
  by code_simp+

end
