(* ===== verification/Account_Routes.thy ===== *)
theory Account_Routes
  imports Sessions Access_Throttling Invitations
begin

text \<open>
  Accounts and their mail links: the handlers of \<open>backend/src/routes/users.ts\<close>,
  \<open>routes/auth-account.ts\<close> and \<open>routes/auth-email.ts\<close> over the session versions, the verification
  tokens, the throttles and the invitation registry, with the signed mail tokens of
  \<open>services/email-provider.ts\<close>.

  Signing and verifying a JWT, the SHA-256 hash and whether a mail or a query fails are parameters.
  A handler that reads a row and then updates it takes what other requests did to the table in
  between (\<open>between\<close>). An answer is its status and the error code of its body.
\<close>

section \<open>Accounts\<close>

record account = user_row +
  ac_id :: string
  ac_alias :: "string option"
  ac_role :: string
  ac_isActive :: bool
  ac_deletedAt :: "instant option"
  ac_emailVerifiedAt :: "instant option"

type_synonym accounts = "account list"

datatype mail =
    Mail_reset string string
  | Mail_verification string string
  | Mail_invitation string string
  | Mail_change_confirmation string string
  | Mail_change_notice string bool string

record account_state =
  ax_accounts :: accounts
  ax_tokens :: tokens
  ax_cooldown :: ResendCooldown
  ax_logins :: attempt_entries
  ax_invitations :: registry
  ax_mail :: "mail list"

datatype account_answer =
    Answer int string
  | Session_token string int
  | Failed

definition invalid_or_expired_token :: account_answer where
  "invalid_or_expired_token = Answer 400 ''invalid_or_expired_token''"

definition live :: "account \<Rightarrow> bool" where
  "live a = (ac_deletedAt a = None)"

definition find_wallet :: "accounts \<Rightarrow> string \<Rightarrow> account option" where
  "find_wallet us w = find (\<lambda>a. u_walletAddress a = w \<and> live a) us"

definition send_mail :: "mail \<Rightarrow> account_state \<Rightarrow> account_state" where
  "send_mail m st = st\<lparr>ax_mail := ax_mail st @ [m]\<rparr>"

text \<open>The notice to the prior address of an account, if it has one; its failure is only logged.\<close>

definition send_notice :: "bool \<Rightarrow> string option \<Rightarrow> bool \<Rightarrow> string \<Rightarrow> account_state \<Rightarrow> account_state" where
  "send_notice ok prior completed masked st =
     (if ok \<and> default_to [] prior \<noteq> [] then send_mail (Mail_change_notice (default_to [] prior) completed masked) st else st)"

section \<open>Mail tokens\<close>

datatype EmailTokenPurpose = Password_reset | Invitation | Email_verification | Email_change

record EmailFlowTokenClaims =
  cl_email :: string
  cl_purpose :: EmailTokenPurpose
  cl_sv :: "int option"
  cl_jti :: "string option"
  cl_uid :: "string option"
  cl_prev :: "string option"

record jwt =
  jw_sign :: "EmailFlowTokenClaims \<Rightarrow> string"
  jw_verify :: "instant \<Rightarrow> string \<Rightarrow> EmailFlowTokenClaims option"

definition no_claims :: "string \<Rightarrow> EmailTokenPurpose \<Rightarrow> EmailFlowTokenClaims" where
  "no_claims email purpose = \<lparr>cl_email = email, cl_purpose = purpose, cl_sv = None, cl_jti = None, cl_uid = None, cl_prev = None\<rparr>"

definition verifyEmailFlowToken :: "jwt \<Rightarrow> instant \<Rightarrow> string \<Rightarrow> EmailTokenPurpose \<Rightarrow> EmailFlowTokenClaims option" where
  "verifyEmailFlowToken J now token expectedPurpose =
     (case jw_verify J now token of
        None \<Rightarrow> None
      | Some c \<Rightarrow> if cl_purpose c \<noteq> expectedPurpose \<or> cl_email c = [] then None else Some c)"

definition maskEmail :: "string \<Rightarrow> string" where
  "maskEmail email =
     (if \<not> list_ex (\<lambda>c. c = CHR ''@'') (tl email) then ''***''
      else hd email # ''***@'' @ rev (takeWhile (\<lambda>c. c \<noteq> CHR ''@'') (rev email)))"

section \<open>Users\<close>

text \<open>The unique index refuses an insert that lost a race; the error middleware answers it with 409.\<close>

definition register ::
  "string \<Rightarrow> (accounts \<Rightarrow> accounts) \<Rightarrow> account_state \<Rightarrow> string \<Rightarrow> string option \<Rightarrow> string option \<Rightarrow> string
     \<Rightarrow> account_state \<times> account_answer" where
  "register newId between st walletAddress email alias role =
     (if list_ex (\<lambda>a. u_walletAddress a = walletAddress) (ax_accounts st) then (st, Answer 409 ''conflict'')
      else let us = between (ax_accounts st)
        in if list_ex (\<lambda>a. u_walletAddress a = walletAddress) us then (st\<lparr>ax_accounts := us\<rparr>, Answer 409 ''DUPLICATE_RESOURCE'')
           else (st\<lparr>ax_accounts := us @ [\<lparr>u_walletAddress = walletAddress, u_email = email, u_sessionVersion = 0,
                  ac_id = newId, ac_alias = alias, ac_role = role, ac_isActive = True, ac_deletedAt = None, ac_emailVerifiedAt = None\<rparr>]\<rparr>,
                 Answer 201 []))"

text \<open>A login is two steps around its query, like the attempts it goes through; \<open>key\<close> hashes the wallet.\<close>

definition login_begin :: "nat \<Rightarrow> (string \<Rightarrow> string) \<Rightarrow> instant \<Rightarrow> account_state \<Rightarrow> string \<Rightarrow> account_state \<times> bool" where
  "login_begin capacity key now st w =
     (let (es, ok) = attempt_begin capacity now (ax_logins st) (key w) in (st\<lparr>ax_logins := es\<rparr>, ok))"

definition login_finish :: "(string \<Rightarrow> string) \<Rightarrow> instant \<Rightarrow> account_state \<Rightarrow> string \<Rightarrow> account_state \<times> account_answer" where
  "login_finish key now st w =
     (case find_wallet (ax_accounts st) w of
        Some a \<Rightarrow>
          if ac_isActive a
          then (st\<lparr>ax_logins := attempt_finish now Auth_ok (ax_logins st) (key w)\<rparr>, Session_token w (u_sessionVersion a))
          else (st\<lparr>ax_logins := attempt_finish now Auth_rejected (ax_logins st) (key w)\<rparr>, Answer 401 ''UNAUTHORIZED'')
      | None \<Rightarrow> (st\<lparr>ax_logins := attempt_finish now Auth_rejected (ax_logins st) (key w)\<rparr>, Answer 401 ''UNAUTHORIZED''))"

definition get_me :: "account_state \<Rightarrow> string \<Rightarrow> account_answer \<times> account option" where
  "get_me st w = (case find_wallet (ax_accounts st) w of None \<Rightarrow> (Answer 404 ''NOT_FOUND'', None) | Some a \<Rightarrow> (Answer 200 [], Some a))"

text \<open>The public profile; \<open>address_ok\<close> is the SDK's check of an account id.\<close>

definition get_user :: "(string \<Rightarrow> bool) \<Rightarrow> account_state \<Rightarrow> string \<Rightarrow> account_answer \<times> account option" where
  "get_user address_ok st w =
     (if w = [] \<or> \<not> address_ok w then (Answer 400 ''VALIDATION_ERROR'', None)
      else case find_wallet (ax_accounts st) w of None \<Rightarrow> (Answer 404 ''NOT_FOUND'', None) | Some a \<Rightarrow> (Answer 200 [], Some a))"

definition email_text :: "string option \<Rightarrow> string" where
  "email_text e = normalizeEmail (default_to [] e)"

definition update_account :: "(account \<Rightarrow> bool) \<Rightarrow> (account \<Rightarrow> account) \<Rightarrow> accounts \<Rightarrow> accounts" where
  "update_account P f us = map (\<lambda>a. if P a then f a else a) us"

definition patch_me :: "account_state \<Rightarrow> string \<Rightarrow> string option \<Rightarrow> string option \<Rightarrow> account_state \<times> account_answer" where
  "patch_me st w email alias =
     (case find_wallet (ax_accounts st) w of
        None \<Rightarrow> (st, Answer 404 ''NOT_FOUND'')
      | Some a \<Rightarrow>
        if (case email of None \<Rightarrow> False | Some e \<Rightarrow> normalizeEmail e \<noteq> email_text (u_email a))
        then (st, Answer 400 ''VALIDATION_ERROR'')
        else (st\<lparr>ax_accounts := update_account (\<lambda>x. ac_id x = ac_id a)
                (\<lambda>x. x\<lparr>ac_alias := or_else alias (ac_alias x)\<rparr>) (ax_accounts st)\<rparr>, Answer 200 []))"

definition delete_me :: "instant \<Rightarrow> account_state \<Rightarrow> string \<Rightarrow> account_state \<times> account_answer" where
  "delete_me now st w =
     (case find_wallet (ax_accounts st) w of
        None \<Rightarrow> (st, Answer 404 ''NOT_FOUND'')
      | Some a \<Rightarrow> (st\<lparr>ax_accounts := update_account (\<lambda>x. ac_id x = ac_id a) (\<lambda>x. x\<lparr>ac_deletedAt := Some now\<rparr>) (ax_accounts st)\<rparr>,
          Answer 200 []))"

section \<open>Logout and email change\<close>

definition logout :: "account_state \<Rightarrow> string \<Rightarrow> int \<Rightarrow> account_state \<times> bool" where
  "logout st w v = (let (us, n) = revokeSessionForWallet (ax_accounts st) w v in (st\<lparr>ax_accounts := us\<rparr>, 0 < n))"

text \<open>\<open>confirm_ok\<close>, \<open>notice_ok\<close>: whether the two mails go out; only the first can fail the request.\<close>

definition email_change_request ::
  "jwt \<Rightarrow> bool \<Rightarrow> bool \<Rightarrow> account_state \<Rightarrow> string \<Rightarrow> string \<Rightarrow> account_state \<times> account_answer" where
  "email_change_request J confirm_ok notice_ok st w newEmail =
     (let nextEmail = normalizeEmail newEmail in
      case find_wallet (ax_accounts st) w of
        None \<Rightarrow> (st, Answer 404 ''NOT_FOUND'')
      | Some a \<Rightarrow>
        let prevEmail = email_text (u_email a) in
        if nextEmail = prevEmail then (st, Answer 400 ''EMAIL_UNCHANGED'')
        else let token = jw_sign J ((no_claims nextEmail Email_change)
                   \<lparr>cl_sv := Some (u_sessionVersion a), cl_uid := Some (ac_id a), cl_prev := Some prevEmail\<rparr>)
          in if \<not> confirm_ok then (st, Failed)
             else let st1 = send_mail (Mail_change_confirmation nextEmail token) st
               in (send_notice notice_ok (u_email a) False (maskEmail nextEmail) st1, Answer 202 []))"

text \<open>
  The confirmation reads the account, compares, and updates under the condition that id, version and
  address are still those it read.
\<close>

definition as_read :: "account \<Rightarrow> account \<Rightarrow> bool" where
  "as_read a x = (ac_id x = ac_id a \<and> u_sessionVersion x = u_sessionVersion a
     \<and> (if default_to [] (u_email a) \<noteq> [] then u_email x = u_email a else u_email x = None))"

definition email_change_confirm ::
  "jwt \<Rightarrow> (accounts \<Rightarrow> accounts) \<Rightarrow> bool \<Rightarrow> instant \<Rightarrow> account_state \<Rightarrow> string \<Rightarrow> account_state \<times> account_answer" where
  "email_change_confirm J between notice_ok now st token =
     (case verifyEmailFlowToken J now token Email_change of
        None \<Rightarrow> (st, invalid_or_expired_token)
      | Some c \<Rightarrow>
        (case (cl_uid c, cl_prev c, cl_sv c) of
           (Some (u # us), Some prev, Some sv) \<Rightarrow>
             (case find (\<lambda>a. ac_id a = u # us \<and> live a) (ax_accounts st) of
                None \<Rightarrow> (st, invalid_or_expired_token)
              | Some a \<Rightarrow>
                if u_sessionVersion a \<noteq> sv \<or> email_text (u_email a) \<noteq> prev then (st, invalid_or_expired_token)
                else let accs = between (ax_accounts st)
                  in if \<not> list_ex (as_read a) accs then (st\<lparr>ax_accounts := accs\<rparr>, invalid_or_expired_token)
                     else (send_notice notice_ok (u_email a) True (maskEmail (cl_email c))
                             (st\<lparr>ax_accounts := update_account (as_read a)
                                (\<lambda>x. x\<lparr>u_email := Some (cl_email c), ac_emailVerifiedAt := Some now\<rparr>) accs\<rparr>), Answer 200 []))
         | _ \<Rightarrow> (st, invalid_or_expired_token)))"

section \<open>Password reset\<close>

definition password_reset_request :: "jwt \<Rightarrow> bool \<Rightarrow> account_state \<Rightarrow> string \<Rightarrow> account_state \<times> account_answer" where
  "password_reset_request J mail_ok st email =
     (if \<not> list_ex (\<lambda>a. u_email a = Some email) (ax_accounts st) then (st, Answer 202 [])
      else let sv = default_to 0 (getMaxSessionVersionForEmail (ax_accounts st) email);
               token = jw_sign J ((no_claims email Password_reset)\<lparr>cl_sv := Some sv\<rparr>)
        in if mail_ok then (send_mail (Mail_reset email token) st, Answer 202 []) else (st, Failed))"

definition password_reset_confirm :: "jwt \<Rightarrow> instant \<Rightarrow> account_state \<Rightarrow> string \<Rightarrow> account_state \<times> account_answer" where
  "password_reset_confirm J now st token =
     (case verifyEmailFlowToken J now token Password_reset of
        None \<Rightarrow> (st, invalid_or_expired_token)
      | Some c \<Rightarrow>
        let (us, n) = revokeSessionsForEmail (ax_accounts st) (cl_email c) (default_to 0 (cl_sv c))
        in if n = 0 then (st\<lparr>ax_accounts := us\<rparr>, invalid_or_expired_token) else (st\<lparr>ax_accounts := us\<rparr>, Answer 200 []))"

section \<open>Email verification\<close>

text \<open>
  \<open>query_ok\<close>: the lookup answers; \<open>jti\<close> is the random id of the new token, \<open>exp\<close> the expiry the signed
  token carries; \<open>mail_ok\<close>: the mail goes out.
\<close>

definition resend_verification ::
  "jwt \<Rightarrow> (string \<Rightarrow> string) \<Rightarrow> bool \<Rightarrow> bool \<Rightarrow> string \<Rightarrow> (string \<Rightarrow> int option) \<Rightarrow> instant \<Rightarrow> account_state \<Rightarrow> string
     \<Rightarrow> account_state \<times> account_answer" where
  "resend_verification J sha256 query_ok mail_ok jti exp now st email =
     (let (cd, slot) = tryAcquire now (ax_cooldown st) email; st1 = st\<lparr>ax_cooldown := cd\<rparr> in
      case slot of
        RetryAfter ms \<Rightarrow> (st1, Answer 429 ''RESEND_COOLDOWN'')
      | Acquired \<Rightarrow>
        let given_back = (\<lambda>s. s\<lparr>ax_cooldown := release (ax_cooldown s) email\<rparr>) in
        if \<not> query_ok then (given_back st1, Failed)
        else case find (\<lambda>a. u_email a = Some email \<and> live a) (ax_accounts st1) of
            None \<Rightarrow> (st1, Answer 202 [])
          | Some a \<Rightarrow>
            if ac_emailVerifiedAt a \<noteq> None then (st1, Answer 202 [])
            else case issueEmailVerificationToken (\<lambda>e. jw_sign J ((no_claims e Email_verification)\<lparr>cl_jti := Some jti\<rparr>)) exp sha256 email of
                Inl _ \<Rightarrow> (given_back st1, Failed)
              | Inr issued \<Rightarrow>
                let st2 = st1\<lparr>ax_tokens := rotateEmailVerificationToken (ax_tokens st1) email issued\<rparr>
                in if mail_ok then (send_mail (Mail_verification email (it_token issued)) st2, Answer 202 [])
                   else (given_back (st2\<lparr>ax_tokens := invalidateEmailVerificationToken (ax_tokens st2) email (it_tokenHash issued) now\<rparr>),
                         Failed))"

text \<open>
  A confirmation consumes the token and then updates the accounts, two statements with no transaction
  around them: \<open>between\<close> is what other requests do to the table in the meantime, \<open>update_ok\<close> whether
  the second statement succeeds.
\<close>

definition confirm_verification ::
  "jwt \<Rightarrow> (string \<Rightarrow> string) \<Rightarrow> (accounts \<Rightarrow> accounts) \<Rightarrow> bool \<Rightarrow> instant \<Rightarrow> account_state \<Rightarrow> string
     \<Rightarrow> account_state \<times> account_answer" where
  "confirm_verification J sha256 between update_ok now st token =
     (case verifyEmailFlowToken J now token Email_verification of
        None \<Rightarrow> (st, invalid_or_expired_token)
      | Some c \<Rightarrow>
        let (ts, consumed) = consumeEmailVerificationToken (ax_tokens st) (cl_email c) (hashEmailVerificationToken sha256 token) now;
            st1 = st\<lparr>ax_tokens := ts\<rparr>
        in if \<not> consumed then (st1, invalid_or_expired_token)
           else let st2 = st1\<lparr>ax_accounts := between (ax_accounts st1)\<rparr>
             in if \<not> update_ok then (st2, Failed)
                else (st2\<lparr>ax_accounts := update_account (\<lambda>a. u_email a = Some (cl_email c) \<and> ac_emailVerifiedAt a = None)
                        (\<lambda>a. a\<lparr>ac_emailVerifiedAt := Some now\<rparr>) (ax_accounts st2)\<rparr>, Answer 200 []))"

section \<open>Invitations by mail\<close>

text \<open>The id of an invitation token: the first 32 characters of its hash.\<close>

definition token_jti :: "(string \<Rightarrow> string) \<Rightarrow> string \<Rightarrow> string" where
  "token_jti sha256 token = take 32 (sha256 token)"

definition invite ::
  "jwt \<Rightarrow> (string \<Rightarrow> string) \<Rightarrow> string \<Rightarrow> bool \<Rightarrow> instant \<Rightarrow> account_state \<Rightarrow> string \<Rightarrow> string option \<Rightarrow> string option
     \<Rightarrow> account_state \<times> account_answer" where
  "invite J sha256 newId mail_ok now st email inviter projectId =
     (let token = jw_sign J (no_claims email Invitation) in
      case registerInvitation newId now (ax_invitations st)
             \<lparr>ri_email = email, ri_tokenJti = token_jti sha256 token, ri_projectId = projectId,
              ri_inviterWalletAddress = inviter, ri_ttlMs = None, ri_expiresAt = None, ri_now = None\<rparr> of
        (reg, Inl e) \<Rightarrow> (st\<lparr>ax_invitations := reg\<rparr>, Failed)
      | (reg, Inr record) \<Rightarrow>
        let st1 = st\<lparr>ax_invitations := reg\<rparr>
        in if mail_ok then (send_mail (Mail_invitation email token) st1, Answer 202 []) else (st1, Failed))"

definition invite_accept ::
  "jwt \<Rightarrow> (string \<Rightarrow> string) \<Rightarrow> instant \<Rightarrow> account_state \<Rightarrow> string \<Rightarrow> account_state \<times> account_answer" where
  "invite_accept J sha256 now st token =
     (case verifyEmailFlowToken J now token Invitation of
        None \<Rightarrow> (st, invalid_or_expired_token)
      | Some c \<Rightarrow>
        (case acceptInvitationByTokenJti now (ax_invitations st) (token_jti sha256 token) now of
           (reg, Inr _) \<Rightarrow> (st\<lparr>ax_invitations := reg\<rparr>, Answer 200 [])
         | (reg, Inl e) \<Rightarrow>
           (st\<lparr>ax_invitations := reg\<rparr>,
            if err_code e = ''invitation_cancelled'' then Answer 410 ''invitation_cancelled''
            else if err_code e \<noteq> ''invitation_not_tracked'' then Answer (err_status e) (err_code e)
            else Answer 200 [])))"

definition invite_pending ::
  "instant \<Rightarrow> account_state \<Rightarrow> string option \<Rightarrow> string option
     \<Rightarrow> account_state \<times> (string \<times> string \<times> string option \<times> string option \<times> instant) list" where
  "invite_pending now st projectId inviter =
     (let (reg, rs) = listPendingInvitations now (ax_invitations st) projectId inviter None
      in (st\<lparr>ax_invitations := reg\<rparr>,
          map (\<lambda>r. (in_id r, in_email r, in_projectId r, in_inviterWalletAddress r, in_createdAt r)) rs))"

text \<open>The acting wallet is a field of the request body.\<close>

definition invite_cancel :: "instant \<Rightarrow> account_state \<Rightarrow> string \<Rightarrow> string \<Rightarrow> account_state \<times> account_answer" where
  "invite_cancel now st invitationId actorWalletAddress =
     (case cancelInvitation now (ax_invitations st) invitationId actorWalletAddress None of
        (reg, Inr _) \<Rightarrow> (st\<lparr>ax_invitations := reg\<rparr>, Answer 200 [])
      | (reg, Inl e) \<Rightarrow> (st\<lparr>ax_invitations := reg\<rparr>,
          if err_code e = ''inviter_unknown'' then Answer 403 ''inviter_unknown'' else Answer (err_status e) (err_code e)))"

section \<open>Tables\<close>

lemma update_account_nth:
  "i < length us \<Longrightarrow> update_account P f us ! i = (if P (us ! i) then f (us ! i) else us ! i)"
  by (simp add: update_account_def)

lemma length_update_account [simp]: "length (update_account P f us) = length us"
  by (simp add: update_account_def)

lemma distinct_key_index:
  "\<lbrakk>distinct (map f us); i < length us; j < length us; f (us ! i) = f (us ! j)\<rbrakk> \<Longrightarrow> i = j"
  using nth_eq_iff_index_eq [of "map f us" i j] by simp

lemma as_read_email: "as_read a x \<Longrightarrow> email_text (u_email x) = email_text (u_email a)"
  by (auto simp: as_read_def email_text_def split: if_splits)

lemma send_notice_accounts [simp]: "ax_accounts (send_notice ok prior completed masked st) = ax_accounts st"
  by (simp add: send_notice_def send_mail_def)

lemma normalize_idem [simp]: "normalizeEmail (normalizeEmail e) = normalizeEmail e"
  by (simp add: normalizeEmail_def trim_to_lower)

section \<open>A link to change the address\<close>

definition change_claims :: "account \<Rightarrow> string \<Rightarrow> EmailFlowTokenClaims" where
  "change_claims a newEmail = (no_claims (normalizeEmail newEmail) Email_change)
     \<lparr>cl_sv := Some (u_sessionVersion a), cl_uid := Some (ac_id a), cl_prev := Some (email_text (u_email a))\<rparr>"

text \<open>What a successful confirmation did, to the table as it was when the update ran.\<close>

lemma confirm_effect:
  assumes "email_change_confirm J between ok now st token = (st', Answer 200 [])"
    and "jw_verify J now token = Some (change_claims a newEmail)"
  shows "let same = (\<lambda>x. ac_id x = ac_id a \<and> u_sessionVersion x = u_sessionVersion a
        \<and> email_text (u_email x) = email_text (u_email a)) in
    \<exists>P. ax_accounts st' = update_account P
        (\<lambda>x. x\<lparr>u_email := Some (normalizeEmail newEmail), ac_emailVerifiedAt := Some now\<rparr>) (between (ax_accounts st))
      \<and> (\<forall>x. P x \<longrightarrow> same x) \<and> list_ex P (between (ax_accounts st))"
proof -
  let ?c = "change_claims a newEmail"
  have claims: "cl_uid ?c = Some (ac_id a)" "cl_prev ?c = Some (email_text (u_email a))" "cl_sv ?c = Some (u_sessionVersion a)"
    "cl_email ?c = normalizeEmail newEmail" "cl_purpose ?c = Email_change"
    by (simp_all add: change_claims_def no_claims_def)
  have v: "verifyEmailFlowToken J now token Email_change = (if normalizeEmail newEmail = [] then None else Some ?c)"
    using assms(2) by (simp add: verifyEmailFlowToken_def claims)
  from assms(1) v have ne: "normalizeEmail newEmail \<noteq> []"
    by (auto simp: email_change_confirm_def invalid_or_expired_token_def split: if_splits)
  obtain u us where id: "ac_id a = u # us"
    using assms(1) v claims by (cases "ac_id a") (auto simp: email_change_confirm_def invalid_or_expired_token_def split: if_splits)
  from assms(1) v ne claims id obtain r where
    r: "find (\<lambda>x. ac_id x = u # us \<and> live x) (ax_accounts st) = Some r" "u_sessionVersion r = u_sessionVersion a"
      "email_text (u_email r) = email_text (u_email a)"
    by (auto simp: email_change_confirm_def invalid_or_expired_token_def split: option.splits if_splits)
  have rid: "ac_id r = ac_id a" using r(1) id by (auto simp: find_Some_iff)
  have "list_ex (as_read r) (between (ax_accounts st)) \<and> ax_accounts st' = update_account (as_read r)
      (\<lambda>x. x\<lparr>u_email := Some (normalizeEmail newEmail), ac_emailVerifiedAt := Some now\<rparr>) (between (ax_accounts st))"
    using assms(1) v ne claims id r
    by (auto simp: email_change_confirm_def Let_def invalid_or_expired_token_def split: if_splits)
  moreover have "as_read r x \<Longrightarrow> ac_id x = ac_id a \<and> u_sessionVersion x = u_sessionVersion a
      \<and> email_text (u_email x) = email_text (u_email a)" for x
    using as_read_email [of r x] r(2,3) rid by (simp add: as_read_def)
  ultimately show ?thesis unfolding Let_def by blast
qed

lemma request_mails_link:
  assumes "email_change_request J True ok st w newEmail = (st1, Answer 202 [])"
  obtains a where "find_wallet (ax_accounts st) w = Some a" "normalizeEmail newEmail \<noteq> email_text (u_email a)"
    and "Mail_change_confirmation (normalizeEmail newEmail) (jw_sign J (change_claims a newEmail)) \<in> set (ax_mail st1)"
    and "ax_accounts st1 = ax_accounts st"
  using assms by (auto simp: email_change_request_def Let_def change_claims_def send_mail_def send_notice_def split: option.splits if_splits)

text \<open>
  (C21) A link to change the address does what it says or nothing. Take the link a request mailed, for
  the account \<open>a\<close> it was made for, and any later state: when the confirmation succeeds, the table
  at the moment of the update, whatever other requests did meanwhile, held that account with the
  session version and the address it had when the link was made; it gets the new address, marked as
  confirmed, and every other row stays as it was. The link is then refused on the table it left, and in
  every state in which no live account with that id has both the address and the session version of
  the link, and changes nothing there. It is not refused for good: \<open>change_link_replayed\<close>
  shows the address changed back and the link working again.
\<close>

theorem email_change_link:
  assumes "\<forall>t. jw_verify J t (jw_sign J (change_claims a newEmail)) \<in> {None, Some (change_claims a newEmail)}"
    and "find_wallet (ax_accounts st0) w = Some a" "normalizeEmail newEmail \<noteq> email_text (u_email a)"
    and "distinct (map ac_id (between (ax_accounts st)))"
    and "email_change_confirm J between ok now st (jw_sign J (change_claims a newEmail)) = (st', Answer 200 [])"
  shows "(\<exists>i < length (between (ax_accounts st)). let x = between (ax_accounts st) ! i in
      ac_id x = ac_id a \<and> u_sessionVersion x = u_sessionVersion a \<and> email_text (u_email x) = email_text (u_email a)
      \<and> ax_accounts st' = (between (ax_accounts st))[i := x\<lparr>u_email := Some (normalizeEmail newEmail), ac_emailVerifiedAt := Some now\<rparr>])
    \<and> snd (email_change_confirm J between' ok' now' st' (jw_sign J (change_claims a newEmail))) = invalid_or_expired_token
    \<and> (\<forall>s. (\<forall>x \<in> set (ax_accounts s). \<not> (ac_id x = ac_id a \<and> live x \<and> u_sessionVersion x = u_sessionVersion a
              \<and> email_text (u_email x) = email_text (u_email a))) \<longrightarrow>
          email_change_confirm J between' ok' now' s (jw_sign J (change_claims a newEmail)) = (s, invalid_or_expired_token))"
proof -
  let ?t = "jw_sign J (change_claims a newEmail)" and ?us = "between (ax_accounts st)"
  let ?f = "\<lambda>x :: account. x\<lparr>u_email := Some (normalizeEmail newEmail), ac_emailVerifiedAt := Some now\<rparr>"
  have "jw_verify J now ?t \<noteq> None"
    using assms(5) by (auto simp: email_change_confirm_def verifyEmailFlowToken_def invalid_or_expired_token_def split: option.splits)
  then have v: "jw_verify J now ?t = Some (change_claims a newEmail)" using assms(1) [rule_format, of now] by auto
  from confirm_effect [OF assms(5) v] obtain P where P: "ax_accounts st' = update_account P ?f ?us"
    "\<And>x. P x \<Longrightarrow> ac_id x = ac_id a \<and> u_sessionVersion x = u_sessionVersion a \<and> email_text (u_email x) = email_text (u_email a)"
    "list_ex P ?us" unfolding Let_def by blast
  then obtain i where i: "i < length ?us" "P (?us ! i)" by (auto simp: list_ex_length)
  have only: "\<not> P (?us ! j)" if "j < length ?us" "j \<noteq> i" for j
    using that i P(2) [of "?us ! i"] P(2) [of "?us ! j"] distinct_key_index [OF assms(4), of i j] by auto
  have upd: "ax_accounts st' = ?us[i := ?f (?us ! i)]"
    unfolding P(1) by (rule nth_equalityI) (use i only in \<open>auto simp: update_account_nth nth_list_update\<close>)
  with i P(2) have row: "\<exists>i < length ?us. let x = ?us ! i in
      ac_id x = ac_id a \<and> u_sessionVersion x = u_sessionVersion a \<and> email_text (u_email x) = email_text (u_email a)
      \<and> ax_accounts st' = ?us[i := x\<lparr>u_email := Some (normalizeEmail newEmail), ac_emailVerifiedAt := Some now\<rparr>]"
    unfolding Let_def by blast
  have gone: "email_text (u_email x) \<noteq> email_text (u_email a)" if m: "x \<in> set (ax_accounts st')" "ac_id x = ac_id a" for x
  proof -
    have len: "length (ax_accounts st') = length ?us" by (simp add: upd)
    obtain j where j: "j < length ?us" "x = ax_accounts st' ! j" using m(1) len by (auto simp: in_set_conv_nth)
    have "ac_id (?us ! j) = ac_id a" using m(2) j upd P(2) [OF i(2)] i(1) by (cases "j = i") simp_all
    then have "j = i" using i P(2) [OF i(2)] j(1) distinct_key_index [OF assms(4), of j i] by simp
    with j upd i(1) show ?thesis using assms(3) by (simp add: email_text_def)
  qed
  have "jw_verify J now' ?t = None \<or> jw_verify J now' ?t = Some (change_claims a newEmail)" using assms(1) [rule_format, of now'] by simp
  then have stale: "email_change_confirm J between' ok' now' s ?t = (s, invalid_or_expired_token)"
    if "\<forall>x \<in> set (ax_accounts s). \<not> (ac_id x = ac_id a \<and> live x \<and> u_sessionVersion x = u_sessionVersion a
        \<and> email_text (u_email x) = email_text (u_email a))" for s
    using that by (auto simp: email_change_confirm_def verifyEmailFlowToken_def change_claims_def no_claims_def find_Some_iff Let_def
        split: option.splits list.splits dest: nth_mem)
  have "email_change_confirm J between' ok' now' st' ?t = (st', invalid_or_expired_token)"
    by (rule stale) (use gone in blast)
  with row stale show ?thesis by simp
qed

definition example_account :: account where
  "example_account = \<lparr>u_walletAddress = ''GA'', u_email = Some ''a@x'', u_sessionVersion = 3, ac_id = ''u1'', ac_alias = None, ac_role = ''customer'',
     ac_isActive = True, ac_deletedAt = None, ac_emailVerifiedAt = None\<rparr>"

definition example_other :: account where
  "example_other = \<lparr>u_walletAddress = ''GB'', u_email = Some ''b@x'', u_sessionVersion = 0, ac_id = ''u2'', ac_alias = None, ac_role = ''customer'',
     ac_isActive = True, ac_deletedAt = None, ac_emailVerifiedAt = Some 1\<rparr>"

definition example_accounts :: account_state where
  "example_accounts = \<lparr>ax_accounts = [example_account, example_other], ax_tokens = [],
     ax_cooldown = \<lparr>rc_cooldownMs = 60000, rc_nextAllowedAt = []\<rparr>, ax_logins = [],
     ax_invitations = resetInvitationRegistry, ax_mail = []\<rparr>"

text \<open>One token, good until the time 1000.\<close>

definition example_jwt :: "EmailFlowTokenClaims \<Rightarrow> jwt" where
  "example_jwt c = \<lparr>jw_sign = (\<lambda>_. ''tok''), jw_verify = (\<lambda>t s. if s = ''tok'' \<and> t < 1000 then Some c else None)\<rparr>"

theorem email_change_link_witness:
  "ax_accounts (fst (email_change_confirm (example_jwt (change_claims example_account ''N@x'')) rev True 100 example_accounts ''tok''))
     = [example_other, example_account\<lparr>u_email := Some ''n@x'', ac_emailVerifiedAt := Some 100\<rparr>]"
proof -
  let ?J = "example_jwt (change_claims example_account ''N@x'')"
  have tok: "jw_sign ?J (change_claims example_account ''N@x'') = ''tok''" by (simp add: example_jwt_def)
  have ok: "\<forall>t. jw_verify ?J t (jw_sign ?J (change_claims example_account ''N@x'')) \<in> {None, Some (change_claims example_account ''N@x'')}"
    by (simp add: example_jwt_def)
  have found: "find_wallet (ax_accounts example_accounts) ''GA'' = Some example_account" by code_simp
  have ne: "normalizeEmail ''N@x'' \<noteq> email_text (u_email example_account)" by code_simp
  have dist: "distinct (map ac_id (rev (ax_accounts example_accounts)))" by code_simp
  have run: "email_change_confirm ?J rev True 100 example_accounts (jw_sign ?J (change_claims example_account ''N@x''))
      = (fst (email_change_confirm ?J rev True 100 example_accounts ''tok''), Answer 200 [])" by code_simp
  have norm: "normalizeEmail ''N@x'' = ''n@x''" by code_simp
  from email_change_link [OF ok found ne dist run] obtain i where i: "i < length (rev (ax_accounts example_accounts))"
    "ac_id (rev (ax_accounts example_accounts) ! i) = ac_id example_account"
    "ax_accounts (fst (email_change_confirm ?J rev True 100 example_accounts ''tok'')) = (rev (ax_accounts example_accounts))
       [i := (rev (ax_accounts example_accounts) ! i)\<lparr>u_email := Some (normalizeEmail ''N@x''), ac_emailVerifiedAt := Some 100\<rparr>]"
    unfolding Let_def by blast
  have rows: "rev (ax_accounts example_accounts) = [example_other, example_account]" by (simp add: example_accounts_def)
  have "i = 0 \<or> i = 1" using i(1) unfolding rows by (simp add: less_Suc_eq)
  then have "i = 1" using i(2) unfolding rows by (auto simp: example_other_def example_account_def)
  with i(3) show ?thesis unfolding rows norm by simp
qed

section \<open>Verification links\<close>

text \<open>
  (C23) A resend tells nobody whether an address has an account. For two tables of accounts that
  differ in any way, and the same cooldowns, the answer to a resend and the cooldowns it leaves are
  the same, as long as the query is answered, a signed token carries an expiry and the mail goes out.
\<close>

theorem resend_reveals_nothing:
  assumes "ax_cooldown st = ax_cooldown st'" "\<forall>t. exp t \<noteq> None \<and> exp t \<noteq> Some 0"
  shows "snd (resend_verification J sha256 True True jti exp now st email)
      = snd (resend_verification J sha256 True True jti exp now st' email)
    \<and> ax_cooldown (fst (resend_verification J sha256 True True jti exp now st email))
      = ax_cooldown (fst (resend_verification J sha256 True True jti exp now st' email))"
proof -
  obtain e where e: "exp (jw_sign J ((no_claims email Email_verification)\<lparr>cl_jti := Some jti\<rparr>)) = Some e" "e \<noteq> 0"
    using assms(2) by (metis not_None_eq)
  obtain cd slot where acq: "tryAcquire now (ax_cooldown st') email = (cd, slot)" by (cases "tryAcquire now (ax_cooldown st') email")
  have "snd (resend_verification J sha256 True True jti exp now s email) = (case slot of Acquired \<Rightarrow> Answer 202 [] | RetryAfter _ \<Rightarrow> Answer 429 ''RESEND_COOLDOWN'')
      \<and> ax_cooldown (fst (resend_verification J sha256 True True jti exp now s email)) = cd"
    if "ax_cooldown s = ax_cooldown st'" for s
    using that acq e by (simp add: resend_verification_def issueEmailVerificationToken_def Let_def send_mail_def
        split: CooldownResult.split option.split)
  from this [OF assms(1)] this [OF refl] show ?thesis by simp
qed

theorem resend_reveals_nothing_witness:
  "snd (resend_verification (example_jwt (no_claims ''a@x'' Email_verification)) (\<lambda>s. s) True True ''j'' (\<lambda>_. Some 9) 5 example_accounts ''a@x'')
    = snd (resend_verification (example_jwt (no_claims ''a@x'' Email_verification)) (\<lambda>s. s) True True ''j'' (\<lambda>_. Some 9) 5
        (example_accounts\<lparr>ax_accounts := []\<rparr>) ''a@x'')"
proof -
  have "ax_cooldown example_accounts = ax_cooldown (example_accounts\<lparr>ax_accounts := []\<rparr>)"
    and "\<forall>t. (\<lambda>_ :: string. Some (9 :: int)) t \<noteq> None \<and> (\<lambda>_. Some 9) t \<noteq> Some (0 :: int)" by simp_all
  from resend_reveals_nothing [OF this] show ?thesis by blast
qed

lemma invalid_not_ok [simp]: "invalid_or_expired_token \<noteq> Answer 200 []"
  by (simp add: invalid_or_expired_token_def)

definition verification_claims :: "string \<Rightarrow> string \<Rightarrow> EmailFlowTokenClaims" where
  "verification_claims email jti = (no_claims email Email_verification)\<lparr>cl_jti := Some jti\<rparr>"

lemma resend_issues:
  assumes "find (\<lambda>a. u_email a = Some email \<and> live a) (ax_accounts st) = Some a" "ac_emailVerifiedAt a = None"
    and "snd (tryAcquire now (ax_cooldown st) email) = Acquired"
    and "exp (jw_sign J (verification_claims email jti)) = Some e" "e \<noteq> 0"
    and "resend_verification J sha256 True True jti exp now st email = (st1, r)"
  shows "r = Answer 202 []" "ax_mail st1 = ax_mail st @ [Mail_verification email (jw_sign J (verification_claims email jti))]"
    and "jm_get (ax_tokens st1) (normalizeEmail email) = Some \<lparr>tk_tokenHash = sha256 (jw_sign J (verification_claims email jti)),
        tk_expiresAt = e * 1000, tk_consumedAt = None\<rparr>"
    and "ax_accounts st1 = ax_accounts st"
  using assms by (auto simp: resend_verification_def issueEmailVerificationToken_def rotateEmailVerificationToken_def verification_claims_def
      hashEmailVerificationToken_def send_mail_def Let_def split: prod.splits)

text \<open>
  (C22) A verification link works, once. When an unverified account asks for a link outside the
  cooldown, the request is accepted and mails a token; from then on, whatever else happens, as long
  as no other link is issued or spent for the address, confirming the token before it expires succeeds
  if the accounts can be updated, and then leaves every account with the address verified, whatever
  happened to the table in between; confirming it again is refused, also after the update failed.
\<close>

theorem verification_link_works:
  assumes "find (\<lambda>a. u_email a = Some email \<and> live a) (ax_accounts st) = Some a" "ac_emailVerifiedAt a = None" "email \<noteq> []"
    and "snd (tryAcquire now (ax_cooldown st) email) = Acquired"
    and "\<forall>c. exp (jw_sign J c) = Some e" "e \<noteq> 0"
    and "\<forall>t. t < e * 1000 \<longrightarrow> jw_verify J t (jw_sign J (verification_claims email jti)) = Some (verification_claims email jti)"
    and "resend_verification J sha256 True True jti exp now st email = (st1, r)"
    and "jm_get (ax_tokens st2) (normalizeEmail email) = jm_get (ax_tokens st1) (normalizeEmail email)" "later < e * 1000"
  shows "\<exists>tok. r = Answer 202 [] \<and> ax_mail st1 = ax_mail st @ [Mail_verification email tok]
    \<and> (let (st3, r3) = confirm_verification J sha256 between update_ok later st2 tok
       in r3 = (if update_ok then Answer 200 [] else Failed)
        \<and> (update_ok \<longrightarrow> (\<forall>b \<in> set (ax_accounts st3). u_email b = Some email \<longrightarrow> ac_emailVerifiedAt b \<noteq> None))
        \<and> (\<forall>t between' ok'. t < e * 1000 \<longrightarrow> snd (confirm_verification J sha256 between' ok' t st3 tok) = invalid_or_expired_token))"
proof -
  let ?c = "verification_claims email jti" and ?tok = "jw_sign J (verification_claims email jti)"
  note issued = resend_issues [OF assms(1,2,4) assms(5) [rule_format] assms(6,8)]
  have v: "verifyEmailFlowToken J t ?tok Email_verification = Some ?c" if "t < e * 1000" for t
    using assms(3) assms(7) [rule_format, OF that] by (simp add: verifyEmailFlowToken_def verification_claims_def no_claims_def)
  have em: "cl_email ?c = email" by (simp add: verification_claims_def no_claims_def)
  let ?ts = "jm_set (ax_tokens st2) (normalizeEmail email)
      \<lparr>tk_tokenHash = sha256 ?tok, tk_expiresAt = e * 1000, tk_consumedAt = Some later\<rparr>"
  let ?us = "update_account (\<lambda>a. u_email a = Some email \<and> ac_emailVerifiedAt a = None) (\<lambda>a. a\<lparr>ac_emailVerifiedAt := Some later\<rparr>) (between (ax_accounts st2))"
  let ?rows = "if update_ok then ?us else between (ax_accounts st2)"
  have conf: "confirm_verification J sha256 between update_ok later st2 ?tok
      = (st2\<lparr>ax_tokens := ?ts, ax_accounts := ?rows\<rparr>, if update_ok then Answer 200 [] else Failed)"
    using assms(9,10) issued(3) v [OF assms(10)] em
    by (simp add: confirm_verification_def consumeEmailVerificationToken_def hashEmailVerificationToken_def)
  have "\<forall>b \<in> set ?us. u_email b = Some email \<longrightarrow> ac_emailVerifiedAt b \<noteq> None" by (auto simp: update_account_def)
  moreover have "snd (confirm_verification J sha256 between' ok' t (st2\<lparr>ax_tokens := ?ts, ax_accounts := ?rows\<rparr>) ?tok) = invalid_or_expired_token"
    if "t < e * 1000" for t between' ok'
    using v [OF that] em by (simp add: confirm_verification_def consumeEmailVerificationToken_def)
  ultimately show ?thesis using issued(1,2) conf by (intro exI [of _ ?tok]) simp
qed

theorem verification_link_works_witness:
  "snd (confirm_verification (example_jwt (verification_claims ''a@x'' ''j'')) (\<lambda>s. s) rev True 400
      (fst (resend_verification (example_jwt (verification_claims ''a@x'' ''j'')) (\<lambda>s. s) True True ''j'' (\<lambda>_. Some (1 :: int)) 5 example_accounts ''a@x''))
      ''tok'') = Answer 200 []"
proof -
  let ?J = "example_jwt (verification_claims ''a@x'' ''j'')"
  let ?run = "resend_verification ?J (\<lambda>s. s) True True ''j'' (\<lambda>_. Some (1 :: int)) 5 example_accounts ''a@x''"
  have found: "find (\<lambda>a. u_email a = Some ''a@x'' \<and> live a) (ax_accounts example_accounts) = Some example_account" by code_simp
  have unverified: "ac_emailVerifiedAt example_account = None" by (simp add: example_account_def)
  have slot: "snd (tryAcquire 5 (ax_cooldown example_accounts) ''a@x'') = Acquired" by code_simp
  have exp: "\<forall>c. (\<lambda>_ :: string. Some (1 :: int)) (jw_sign ?J c) = Some 1" by simp
  have tok: "jw_sign ?J c = ''tok''" for c by (simp add: example_jwt_def)
  have ver: "\<forall>t. t < 1 * 1000 \<longrightarrow> jw_verify ?J t (jw_sign ?J (verification_claims ''a@x'' ''j'')) = Some (verification_claims ''a@x'' ''j'')"
    by (simp add: example_jwt_def)
  have run: "?run = (fst ?run, snd ?run)" by simp
  have mail: "ax_mail (fst ?run) = [Mail_verification ''a@x'' ''tok'']" by code_simp
  have none: "ax_mail example_accounts = []" by (simp add: example_accounts_def)
  from verification_link_works [OF found unverified _ slot exp _ ver run refl, of 400 rev True] obtain t
    where "ax_mail (fst ?run) = [Mail_verification ''a@x'' t]" "snd (confirm_verification ?J (\<lambda>s. s) rev True 400 (fst ?run) t) = Answer 200 []"
    by (auto simp: none case_prod_unfold Let_def)
  with mail show ?thesis by simp
qed

section \<open>What the links and sessions allow\<close>

text \<open>
  A link to change the address is bound to the address and the session version, which may both come
  back: after the change is undone through a second link, the first one works again.
\<close>

lemma change_link_replayed:
  "let J = \<lparr>jw_sign = (\<lambda>c. cl_email c), jw_verify = (\<lambda>_ s. Some (change_claims
         (if s = ''n@x'' then example_account else example_account\<lparr>u_email := Some ''n@x''\<rparr>) s))\<rparr>;
       go = (\<lambda>st s. fst (email_change_confirm J id True 100 st s));
       first = ''n@x''; back = ''a@x''
   in map (\<lambda>st. u_email (hd (ax_accounts st))) [go example_accounts first, go (go example_accounts first) back,
        go (go (go example_accounts first) back) first] = [Some ''n@x'', Some ''a@x'', Some ''n@x'']"
  by code_simp

text \<open>
  A confirmation whose account update fails answers an error and has spent its token: the address stays
  unverified and the link is refused from then on.
\<close>

lemma failed_update_spends_link:
  "let J = example_jwt (verification_claims ''a@x'' ''j'');
       st = fst (resend_verification J (\<lambda>s. s) True True ''j'' (\<lambda>_. Some (1 :: int)) 5 example_accounts ''a@x'');
       (st1, first) = confirm_verification J (\<lambda>s. s) id False 400 st ''tok''
   in first = Failed \<and> ac_emailVerifiedAt (hd (ax_accounts st1)) = None
     \<and> snd (confirm_verification J (\<lambda>s. s) id True 500 st1 ''tok'') = invalid_or_expired_token"
  by code_simp

text \<open>Deleting an account leaves its session version, so its bearer tokens stay good.\<close>

lemma deletion_keeps_sessions:
  "getSessionVersion (ax_accounts (fst (delete_me now st w))) v = getSessionVersion (ax_accounts st) v"
proof -
  have "map_option u_sessionVersion (find (\<lambda>u. u_walletAddress u = v) (update_account P (\<lambda>x. x\<lparr>ac_deletedAt := Some now\<rparr>) us))
      = map_option u_sessionVersion (find (\<lambda>u. u_walletAddress u = v) us)" for P us
    by (induction us) (auto simp: update_account_def)
  then show ?thesis by (simp add: delete_me_def getSessionVersion_def split: option.split)
qed

text \<open>
  The public list of pending invitations names everything the public cancellation asks for: an
  invitation on the list is cancelled by sending back its id and its inviter.
\<close>

lemma pending_list_cancels:
  "let (st1, _) = invite (example_jwt (no_claims ''c@x'' Invitation)) (\<lambda>s. s) ''i1'' True 0 example_accounts ''c@x'' (Some ''GA'') (Some ''p'');
       (st2, listed) = invite_pending 10 st1 None None
   in map (\<lambda>(i, e, p, inviter, t). snd (invite_cancel 20 st2 i (the inviter))) listed = [Answer 200 []]"
  by code_simp

text \<open>
  The answer of a resend is only independent of the account while mail goes out: when it does not, an
  address with an unverified account fails and any other is accepted.
\<close>

lemma mail_failure_reveals_account:
  "let ask = (\<lambda>st. snd (resend_verification (example_jwt (no_claims ''a@x'' Email_verification)) (\<lambda>s. s) True False ''j'' (\<lambda>_. Some 9) 5 st ''a@x''))
   in ask example_accounts = Failed \<and> ask (example_accounts\<lparr>ax_accounts := []\<rparr>) = Answer 202 []"
  by code_simp

text \<open>
  Invitation tokens carry no id of their own: two invitations signed alike share the hash they are
  registered under, so the link goes on working after the first of them is cancelled.
\<close>

lemma equal_links_survive_cancel:
  "let J = example_jwt (no_claims ''c@x'' Invitation);
       inv = (\<lambda>i st. fst (invite J (\<lambda>s. s) i True 0 st ''c@x'' (Some ''GA'') (Some ''p'')));
       st = inv ''i2'' (inv ''i1'' example_accounts);
       (st1, cancelled) = invite_cancel 20 st ''i1'' ''GA''
   in cancelled = Answer 200 [] \<and> snd (invite_accept J (\<lambda>s. s) 30 st1 ''tok'') = Answer 200 []"
  by code_simp

end
