(* ===== verification/Collaboration_Routes.thy ===== *)
theory Collaboration_Routes
  imports Permissions Project_Governance Invitations Error_Translation
begin

text \<open>
  The collaboration routes (\<open>backend/src/routes/collaboration.ts\<close>) over the permission guard, the
  deletion safeguards, the invitation registry and the ownership registry, with the error middleware
  behind them.

  The two resolvers a deployment registers are optional arguments: what the stored collaboration
  record and the financial snapshot of a project are at the time of the request, or a failure.
\<close>

section \<open>Answers\<close>

record collaboration_state =
  co_invitations :: registry
  co_ownership :: ownership
  co_deletions :: "ProjectDeletionAuditEvent list"

datatype 'a collaboration_answer =
    Success int 'a
  | Refused int string
  | Denied "CollaboratorRole option" string

fun answer_status :: "'a collaboration_answer \<Rightarrow> int" where
  "answer_status (Success s _) = s"
| "answer_status (Refused s _) = s"
| "answer_status (Denied _ _) = 403"

type_synonym role_resolver = "(string \<Rightarrow> unit + ProjectRoleContext option) option"

type_synonym snapshot_resolver = "(string \<Rightarrow> unit + ProjectFinancialSnapshot option) option"

definition resolveRoleContext :: "role_resolver \<Rightarrow> string \<Rightarrow> unit + ProjectRoleContext option" where
  "resolveRoleContext resolver projectId = (case resolver of Some r \<Rightarrow> r projectId | None \<Rightarrow> Inr None)"

text \<open>\<open>next(error)\<close>: what the error middleware answers.\<close>

definition to_error_handler :: "raised \<Rightarrow> 'a collaboration_answer" where
  "to_error_handler err = (case errorHandler False err of Some (s, code) \<Rightarrow> Refused s code | None \<Rightarrow> Refused 500 [])"

definition header_error :: "app_error \<Rightarrow> AppError" where
  "header_error e = (case e of AppAuthUnauthorized \<Rightarrow> app_error ''AUTH'' ''UNAUTHORIZED''
     | AppValidationError \<Rightarrow> app_error ''VALIDATION'' ''VALIDATION_ERROR'')"

definition thrown_api_error :: "api_error \<Rightarrow> raised" where
  "thrown_api_error e = Raised_other None (Some (err_status e)) (Some (err_code e))"

text \<open>The two guards in front of a handler.\<close>

definition with_requester ::
  "(string \<Rightarrow> bool) \<Rightarrow> header_value \<Rightarrow> 's \<Rightarrow> (string \<Rightarrow> 's \<times> 'a collaboration_answer) \<Rightarrow> 's \<times> 'a collaboration_answer" where
  "with_requester address_ok raw st handler =
     (case requireStellarAddress address_ok raw of
        (Some address, Pass) \<Rightarrow> handler address
      | (_, PassAppError e) \<Rightarrow> (st, to_error_handler (Raised_app (header_error e)))
      | _ \<Rightarrow> (st, to_error_handler (Raised_other None None None)))"

definition with_permission ::
  "ProjectPermission \<Rightarrow> role_resolver \<Rightarrow> string \<Rightarrow> string \<Rightarrow> 's \<Rightarrow> (CollaboratorRole \<Rightarrow> 's \<times> 'a collaboration_answer)
     \<Rightarrow> 's \<times> 'a collaboration_answer" where
  "with_permission permission resolver requester projectId st handler =
     (case createProjectPermissionMiddleware permission (resolveRoleContext resolver) (Some requester) (Some projectId) of
        Allowed role \<Rightarrow> handler role
      | Respond401 \<Rightarrow> (st, Refused 401 ''unauthorized'')
      | Respond400 \<Rightarrow> (st, Refused 400 ''project_id_required'')
      | Respond403 role reason \<Rightarrow> (st, Denied role reason))"

section \<open>Handlers\<close>

text \<open>A body that fails its schema is \<open>None\<close>.\<close>

definition delete_project ::
  "(string \<Rightarrow> bool) \<Rightarrow> role_resolver \<Rightarrow> snapshot_resolver \<Rightarrow> instant \<Rightarrow> collaboration_state \<Rightarrow> header_value \<Rightarrow> string
     \<Rightarrow> (bool \<times> string option) option \<Rightarrow> collaboration_state \<times> (CollaboratorRole \<times> DeletionDecision) collaboration_answer" where
  "delete_project address_ok resolver snapshots at st raw projectId body =
     with_requester address_ok raw st (\<lambda>requester.
       with_permission Project_delete resolver requester projectId st (\<lambda>role.
         case body of
           None \<Rightarrow> (st, to_error_handler Raised_zod)
         | Some (confirmed, confirmationText) \<Rightarrow>
           (case snapshots of
              None \<Rightarrow> (st, Refused 503 ''deletion_state_unavailable'')
            | Some resolve \<Rightarrow>
              (case resolve projectId of
                 Inl _ \<Rightarrow> (st, to_error_handler (Raised_other None None None))
               | Inr None \<Rightarrow> (st, Refused 404 ''project_not_found'')
               | Inr (Some snapshot) \<Rightarrow>
                 if fs_projectId snapshot \<noteq> projectId then (st, Refused 404 ''project_not_found'')
                 else let (events, decision) = requestProjectDeletion at (co_deletions st) snapshot requester confirmed confirmationText;
                          st1 = st\<lparr>co_deletions := events\<rparr>
                   in if \<not> dd_allowed decision then (st1, Refused 409 ''deletion_blocked'')
                      else (st1, Success 200 (role, decision))))))"

record invite_body =
  ib_email :: string
  ib_tokenJti :: string
  ib_ttlMs :: "int option"
  ib_expiresAt :: "js_date option"

definition invite_collaborator ::
  "(string \<Rightarrow> bool) \<Rightarrow> role_resolver \<Rightarrow> string \<Rightarrow> instant \<Rightarrow> collaboration_state \<Rightarrow> header_value \<Rightarrow> string
     \<Rightarrow> invite_body option \<Rightarrow> collaboration_state \<times> InvitationRecord collaboration_answer" where
  "invite_collaborator address_ok resolver newId clock st raw projectId body =
     with_requester address_ok raw st (\<lambda>requester.
       with_permission Project_invite resolver requester projectId st (\<lambda>role.
         case body of
           None \<Rightarrow> (st, to_error_handler Raised_zod)
         | Some b \<Rightarrow>
           (case reinvite newId clock (co_invitations st)
                   \<lparr>ri_email = ib_email b, ri_tokenJti = ib_tokenJti b, ri_projectId = Some projectId,
                    ri_inviterWalletAddress = Some requester, ri_ttlMs = ib_ttlMs b, ri_expiresAt = ib_expiresAt b, ri_now = None\<rparr> of
              (reg, Inl e) \<Rightarrow> (st\<lparr>co_invitations := reg\<rparr>, to_error_handler (thrown_api_error e))
            | (reg, Inr record) \<Rightarrow> (st\<lparr>co_invitations := reg\<rparr>, Success 201 record))))"

text \<open>A thrown error with a status is answered with it, any other goes to the error middleware.\<close>

definition answer_thrown :: "api_error \<Rightarrow> 'a collaboration_answer" where
  "answer_thrown e = (if err_status e \<noteq> 0 then Refused (err_status e) (err_code e) else to_error_handler (thrown_api_error e))"

definition accept_invitation ::
  "instant \<Rightarrow> collaboration_state \<Rightarrow> string option \<Rightarrow> collaboration_state \<times> InvitationRecord collaboration_answer" where
  "accept_invitation clock st tokenJti =
     (case tokenJti of
        None \<Rightarrow> (st, to_error_handler Raised_zod)
      | Some jti \<Rightarrow>
        (case acceptInvitationByTokenJti clock (co_invitations st) jti clock of
           (reg, Inl e) \<Rightarrow> (st\<lparr>co_invitations := reg\<rparr>, answer_thrown e)
         | (reg, Inr record) \<Rightarrow> (st\<lparr>co_invitations := reg\<rparr>, Success 200 record)))"

text \<open>The clock is read again after the resolver answered (\<open>clock2\<close>).\<close>

definition cancel_invitation ::
  "(string \<Rightarrow> bool) \<Rightarrow> role_resolver \<Rightarrow> instant \<Rightarrow> instant \<Rightarrow> collaboration_state \<Rightarrow> header_value \<Rightarrow> string
     \<Rightarrow> collaboration_state \<times> InvitationRecord collaboration_answer" where
  "cancel_invitation address_ok resolver clock clock2 st raw invitationId =
     with_requester address_ok raw st (\<lambda>requester.
       case getInvitationById clock (co_invitations st) invitationId of
         (reg, None) \<Rightarrow> (st\<lparr>co_invitations := reg\<rparr>, Refused 404 ''invitation_not_found'')
       | (reg, Some invitation) \<Rightarrow>
         (case (if truthy (in_projectId invitation) then resolveRoleContext resolver (default_to [] (in_projectId invitation)) else Inr None) of
            Inl _ \<Rightarrow> (st\<lparr>co_invitations := reg\<rparr>, to_error_handler (Raised_other None None None))
          | Inr context \<Rightarrow>
            (case cancelInvitation clock2 reg invitationId requester (map_option rc_owner context) of
               (reg2, Inl e) \<Rightarrow> (st\<lparr>co_invitations := reg2\<rparr>, answer_thrown e)
             | (reg2, Inr record) \<Rightarrow> (st\<lparr>co_invitations := reg2\<rparr>, Success 200 record))))"

definition transfer_ownership ::
  "(string \<Rightarrow> bool) \<Rightarrow> role_resolver \<Rightarrow> string \<Rightarrow> instant \<Rightarrow> collaboration_state \<Rightarrow> header_value \<Rightarrow> string \<Rightarrow> string option
     \<Rightarrow> collaboration_state \<times> (OwnershipTransferRecord \<times> bool \<times> OwnershipAuditEntry list) collaboration_answer" where
  "transfer_ownership address_ok resolver newId at st raw projectId newOwner =
     with_requester address_ok raw st (\<lambda>requester.
       case newOwner of
         None \<Rightarrow> (st, to_error_handler Raised_zod)
       | Some new \<Rightarrow>
         (case resolveRoleContext resolver projectId of
            Inl _ \<Rightarrow> (st, to_error_handler (Raised_other None None None))
          | Inr None \<Rightarrow> (st, Refused 404 ''project_owner_unknown'')
          | Inr (Some context) \<Rightarrow>
            (case transferOwnership newId at (setProjectOwner (co_ownership st) projectId (rc_owner context)) projectId requester new of
               (own, Inl e) \<Rightarrow> (st\<lparr>co_ownership := own\<rparr>, answer_thrown e)
             | (own, Inr record) \<Rightarrow> (st\<lparr>co_ownership := own\<rparr>,
                 Success 200 (record, isCurrentOwner own projectId new, listOwnershipAudit own (Some projectId))))))"

section \<open>Guards\<close>


lemma with_requester_Inr: "parseStellarAddressHeader ok raw = Inr a \<Longrightarrow> with_requester ok raw st h = h a"
  by (simp add: with_requester_def requireStellarAddress_def)

lemma requester_nonempty: "parseStellarAddressHeader ok raw = Inr a \<Longrightarrow> a \<noteq> [] \<and> trim a = a \<and> ok a"
  by (auto simp: parseStellarAddressHeader_def Let_def split: if_splits header_value.splits)


lemma with_permission_refused:
  assumes "a \<noteq> []" "p \<noteq> []" "resolveRoleContext resolver p = Inr c"
    "\<And>r. resolveRequesterRole c a = Some r \<Longrightarrow> \<not> roleHasPermission r perm"
  shows "with_permission perm resolver a p st h = (st, Denied (resolveRequesterRole c a)
    (if resolveRequesterRole c a = None then ''project_role_unknown'' else ''insufficient_role''))"
proof -
  have "assertProjectPermission c a perm = Inl (PermissionDenied (resolveRequesterRole c a)
      (if resolveRequesterRole c a = None then Some ''project_role_unknown'' else None))"
    using assms(4) by (auto simp: assertProjectPermission_Inl split: option.split)
  with assms(1-3) show ?thesis by (simp add: with_permission_def createProjectPermissionMiddleware_def Let_def)
qed

lemma delete_granted [simp]: "roleHasPermission r Project_delete \<longleftrightarrow> r = Role_owner"
  by (cases r) (simp_all add: roleHasPermission_def)

lemma invite_granted [simp]: "roleHasPermission r Project_invite \<longleftrightarrow> r = Role_owner \<or> r = Role_admin"
  by (cases r) (simp_all add: roleHasPermission_def)

section \<open>Who may do what\<close>


lemma handler_status [simp]:
  "answer_status (to_error_handler (thrown_api_error e)) \<noteq> 403" "answer_status (to_error_handler Raised_zod) \<noteq> 403"
  by (simp_all add: to_error_handler_def thrown_api_error_def errorHandler_def)








lemmas collaboration_handlers = delete_project_def invite_collaborator_def cancel_invitation_def transfer_ownership_def


definition example_context :: ProjectRoleContext where
  "example_context = \<lparr>rc_owner = ''GOWN'', rc_collaborators = [\<lparr>ce_address = ''GADM'', ce_role = Some Role_admin\<rparr>, \<lparr>ce_address = ''GVIE'', ce_role = None\<rparr>]\<rparr>"


definition example_invite :: "invite_body" where
  "example_invite = \<lparr>ib_email = ''n@x'', ib_tokenJti = ''t1'', ib_ttlMs = None, ib_expiresAt = None\<rparr>"

definition example_resolver :: "string \<Rightarrow> unit + ProjectRoleContext option" where
  "example_resolver q = Inr (if q = ''p'' then Some example_context else None)"

definition example_collaboration :: collaboration_state where
  "example_collaboration = fst (invite_collaborator (\<lambda>_. True) (Some example_resolver) ''i1'' 0
     \<lparr>co_invitations = resetInvitationRegistry, co_ownership = resetOwnershipTransfer, co_deletions = []\<rparr> (H_single ''GADM'') ''p'' (Some example_invite))"


section \<open>Boundaries\<close>

text \<open>Until a resolver is registered every project route refuses everybody.\<close>

lemma with_permission_unwired:
  "a \<noteq> [] \<Longrightarrow> p \<noteq> [] \<Longrightarrow> with_permission perm None a p st h = (st, Denied None ''project_role_unknown'')"
  using with_permission_refused [of a p None None perm st h] by (simp add: resolveRoleContext_def resolveRequesterRole_def)

lemma unwired_refuses:
  assumes "parseStellarAddressHeader ok raw = Inr a" "p \<noteq> []"
  shows "snd (delete_project ok None snaps at st raw p body) = Denied None ''project_role_unknown''"
    and "snd (invite_collaborator ok None newId clock st raw p b) = Denied None ''project_role_unknown''"
    and "snd (transfer_ownership ok None newId at st raw p (Some new)) = Refused 404 ''project_owner_unknown''"
  using assms requester_nonempty [OF assms(1)]
  by (simp_all add: collaboration_handlers with_requester_Inr resolveRoleContext_def with_permission_unwired)

text \<open>
  A hand-over lasts until the next request: the route first resets the recorded owner to what the
  resolver says. With a resolver that does not read this registry the new owner is refused and the
  old one may hand the project over again.
\<close>

lemma transfer_undone:
  "let go = (\<lambda>st who to. transfer_ownership (\<lambda>_. True) (Some example_resolver) ''t'' 5 st (H_single who) ''p'' (Some to));
       st1 = fst (go example_collaboration ''GOWN'' ''GNEW'')
   in map answer_status [snd (go example_collaboration ''GOWN'' ''GNEW''), snd (go st1 ''GNEW'' ''GTHI''), snd (go st1 ''GOWN'' ''GTHI'')] = [200, 403, 200]"
  by code_simp

text \<open>
  Failures of the registry reach the error middleware as plain errors: an invitation that expires in
  the past, or one to an address another member has invited, is answered with 500.
\<close>

lemma invitation_failures_internal:
  "let send = (\<lambda>who body. snd (invite_collaborator (\<lambda>_. True) (Some example_resolver) ''i2'' 10 example_collaboration (H_single who) ''p'' (Some body)))
   in send ''GADM'' (example_invite\<lparr>ib_email := ''m@x'', ib_expiresAt := Some (Some 3)\<rparr>) = Refused 500 ''INTERNAL_ERROR''
    \<and> send ''GOWN'' example_invite = Refused 500 ''INTERNAL_ERROR''"
  by code_simp

end
