(* ===== verification/Rpc_Validation.thy ===== *)
theory Rpc_Validation
  imports Split_Builders
begin

text \<open>
  Checking what the RPC nodes answer before anything reads it: the wire schemas
  (\<open>backend/src/schemas/stellar-rpc.schemas.ts\<close>), the JSON-RPC check and its interceptor
  (\<open>services/rpc-response-validation.ts\<close>), and their mirror in the browser
  (\<open>frontend/src/lib/stellar-rpc-validation.ts\<close>).

  A schema is a value of the datatype \<open>schema\<close>, one constructor per combinator the code uses, and
  \<open>conforms\<close> says which values it accepts. The recognition of an ISO timestamp, which the schema
  library brings, is a parameter, as is \<open>JSON.parse\<close>. Messages of issues are left out.
\<close>

section \<open>Schemas\<close>

text \<open>
  \<open>S_object\<close> lists fields with whether they are optional; \<open>S_variant\<close> chooses by the presence of a
  field; \<open>S_refine\<close> adds a condition on the named fields.
\<close>

datatype schema =
    S_any
  | S_defined
  | S_null
  | S_number
  | S_integer int int
  | S_text "string \<Rightarrow> bool"
  | S_array "nat option" schema
  | S_object "(string \<times> bool \<times> schema) list"
  | S_nullish schema
  | S_union "schema list"
  | S_variant string schema schema
  | S_refine schema "string list" "native list \<Rightarrow> bool"

definition isRecord :: "native \<Rightarrow> bool" where
  "isRecord v = (case v of N_object _ \<Rightarrow> True | _ \<Rightarrow> False)"

definition integer_in :: "int \<Rightarrow> int \<Rightarrow> native \<Rightarrow> bool" where
  "integer_in lo hi v = (case v of N_number q \<Rightarrow> is_integer q \<and> lo \<le> \<lfloor>q\<rfloor> \<and> \<lfloor>q\<rfloor> \<le> hi | _ \<Rightarrow> False)"

definition array_of :: "nat option \<Rightarrow> (native \<Rightarrow> bool) \<Rightarrow> native \<Rightarrow> bool" where
  "array_of bound ok v = (case v of N_array vs \<Rightarrow> list_all ok vs \<and> (case bound of None \<Rightarrow> True | Some n \<Rightarrow> length vs \<le> n) | _ \<Rightarrow> False)"

definition object_with :: "(string \<times> bool \<times> (native \<Rightarrow> bool)) list \<Rightarrow> native \<Rightarrow> bool" where
  "object_with fs v = (isRecord v \<and>
     list_all (\<lambda>(name, opt, ok). opt \<and> get_field v name = N_undefined \<or> ok (get_field v name)) fs)"

primrec conforms :: "schema \<Rightarrow> native \<Rightarrow> bool" where
  "conforms S_any v = True"
| "conforms S_defined v = (\<not> nullish v)"
| "conforms S_null v = (v = N_null)"
| "conforms S_number v = (case v of N_number _ \<Rightarrow> True | _ \<Rightarrow> False)"
| "conforms (S_integer lo hi) v = integer_in lo hi v"
| "conforms (S_text P) v = (case v of N_string s \<Rightarrow> P s | _ \<Rightarrow> False)"
| "conforms (S_array bound s) v = array_of bound (conforms s) v"
| "conforms (S_object fs) v = object_with (map (map_prod id (map_prod id conforms)) fs) v"
| "conforms (S_nullish s) v = (nullish v \<or> conforms s v)"
| "conforms (S_union ss) v = list_ex (\<lambda>ok. ok v) (map conforms ss)"
| "conforms (S_variant name s1 s2) v = (isRecord v \<and> (if get_field v name \<noteq> N_undefined then conforms s1 v else conforms s2 v))"
| "conforms (S_refine s names P) v = (conforms s v \<and> P (map (get_field v) names))"

section \<open>The schemas of the backend\<close>

definition U32_MAX :: int where
  "U32_MAX = 4294967295"

definition MAX_SAFE :: int where
  "MAX_SAFE = 9007199254740991"

definition ledgerSequenceSchema :: schema where
  "ledgerSequenceSchema = S_integer 0 U32_MAX"

definition hex_char :: "char \<Rightarrow> bool" where
  "hex_char c = (is_digit c \<or> (CHR ''a'' \<le> c \<and> c \<le> CHR ''f'') \<or> (CHR ''A'' \<le> c \<and> c \<le> CHR ''F''))"

definition tx_hash_text :: "string \<Rightarrow> bool" where
  "tx_hash_text s = (length s = 64 \<and> list_all hex_char s)"

definition txHashSchema :: schema where
  "txHashSchema = S_text tx_hash_text"

definition base64_char :: "char \<Rightarrow> bool" where
  "base64_char c = (is_letter c \<or> is_digit c \<or> c = CHR ''+'' \<or> c = CHR ''/'')"

definition base64_text :: "string \<Rightarrow> bool" where
  "base64_text s =
     (let pad = takeWhile (\<lambda>c. c = CHR ''='') (rev s); body = rev (dropWhile (\<lambda>c. c = CHR ''='') (rev s))
      in 1 \<le> length s \<and> body \<noteq> [] \<and> list_all base64_char body \<and> length pad \<le> 2 \<and> length s mod 4 = 0)"

definition base64XdrSchema :: schema where
  "base64XdrSchema = S_text base64_text"

definition contractStrKeySchema :: schema where
  "contractStrKeySchema = S_text (\<lambda>s. case s of [] \<Rightarrow> False
     | c # cs \<Rightarrow> c = CHR ''C'' \<and> length cs = 55 \<and> list_all (\<lambda>x. (CHR ''A'' \<le> x \<and> x \<le> CHR ''Z'') \<or> (CHR ''2'' \<le> x \<and> x \<le> CHR ''7'')) cs)"

definition jsonRpcEnvelopeSchema :: schema where
  "jsonRpcEnvelopeSchema = S_object [(''jsonrpc'', False, S_text (\<lambda>s. s = ''2.0'')),
     (''id'', False, S_union [S_text (\<lambda>_. True), S_number, S_null])]"

definition jsonRpcErrorObjectSchema :: schema where
  "jsonRpcErrorObjectSchema = S_object [(''code'', False, S_integer (- MAX_SAFE) MAX_SAFE), (''message'', False, S_text (\<lambda>_. True))]"

definition rawGetLatestLedgerResultSchema :: schema where
  "rawGetLatestLedgerResultSchema = S_object [(''sequence'', False, ledgerSequenceSchema)]"

definition rawEventSchema :: "(string \<Rightarrow> bool) \<Rightarrow> schema" where
  "rawEventSchema datetime = S_object [(''id'', False, S_text (\<lambda>s. s \<noteq> [])), (''txHash'', False, txHashSchema),
     (''ledger'', True, ledgerSequenceSchema), (''ledgerClosedAt'', False, S_text datetime),
     (''contractId'', False, S_union [S_text (\<lambda>s. s = []), contractStrKeySchema]),
     (''topic'', True, S_array None base64XdrSchema), (''value'', False, base64XdrSchema)]"

definition rawGetEventsResultSchema :: "(string \<Rightarrow> bool) \<Rightarrow> schema" where
  "rawGetEventsResultSchema datetime = S_object [(''events'', False, S_array None (rawEventSchema datetime)),
     (''cursor'', True, S_text (\<lambda>_. True)), (''latestLedger'', True, ledgerSequenceSchema)]"

definition rawSimulationErrorSchema :: schema where
  "rawSimulationErrorSchema = S_object [(''error'', False, S_text (\<lambda>s. s \<noteq> []))]"

definition rawSimulationSuccessSchema :: schema where
  "rawSimulationSuccessSchema = S_object [(''transactionData'', False, base64XdrSchema),
     (''minResourceFee'', False, S_text (\<lambda>s. s \<noteq> [] \<and> list_all is_digit s)),
     (''results'', True, S_array (Some 1) (S_object [(''xdr'', False, S_union [S_text (\<lambda>s. s = []), base64XdrSchema]),
        (''auth'', True, S_array None base64XdrSchema)]))]"

definition rawSimulateTransactionResultSchema :: schema where
  "rawSimulateTransactionResultSchema = S_variant ''error'' rawSimulationErrorSchema rawSimulationSuccessSchema"

definition rawGetLedgerEntriesResultSchema :: schema where
  "rawGetLedgerEntriesResultSchema = S_object [(''entries'', True, S_nullish (S_array None (S_object
     [(''key'', False, base64XdrSchema), (''xdr'', False, base64XdrSchema), (''lastModifiedLedgerSeq'', True, ledgerSequenceSchema),
      (''liveUntilLedgerSeq'', True, ledgerSequenceSchema)])))]"

definition rawRpcResultSchemas :: "(string \<Rightarrow> bool) \<Rightarrow> (string, schema) jmap" where
  "rawRpcResultSchemas datetime = [(''getLatestLedger'', rawGetLatestLedgerResultSchema), (''getEvents'', rawGetEventsResultSchema datetime),
     (''simulateTransaction'', rawSimulateTransactionResultSchema), (''getLedgerEntries'', rawGetLedgerEntriesResultSchema)]"

definition contractEventSchema :: "(string \<Rightarrow> bool) \<Rightarrow> schema" where
  "contractEventSchema datetime = S_object [(''id'', False, S_text (\<lambda>s. s \<noteq> [])), (''txHash'', False, txHashSchema),
     (''ledger'', True, ledgerSequenceSchema), (''ledgerClosedAt'', False, S_text datetime),
     (''topic'', True, S_array None S_defined), (''value'', False, S_defined), (''contractId'', True, S_any)]"

definition getEventsResponseSchema :: "(string \<Rightarrow> bool) \<Rightarrow> schema" where
  "getEventsResponseSchema datetime = S_object [(''events'', False, S_array None (contractEventSchema datetime)),
     (''cursor'', True, S_text (\<lambda>_. True)), (''latestLedger'', True, ledgerSequenceSchema)]"

definition getLatestLedgerResponseSchema :: schema where
  "getLatestLedgerResponseSchema = S_object [(''sequence'', False, ledgerSequenceSchema)]"

section \<open>The schemas of the browser\<close>

definition SEND_TRANSACTION_STATUSES :: "string list" where
  "SEND_TRANSACTION_STATUSES = [''PENDING'', ''DUPLICATE'', ''TRY_AGAIN_LATER'', ''ERROR'']"

definition GET_TRANSACTION_STATUSES :: "string list" where
  "GET_TRANSACTION_STATUSES = [''SUCCESS'', ''FAILED'', ''NOT_FOUND'']"

definition acceptedSendStatuses :: "string list" where
  "acceptedSendStatuses = [''PENDING'', ''DUPLICATE'']"

definition accepted_has_hash :: "native list \<Rightarrow> bool" where
  "accepted_has_hash vs =
     (case vs of [N_string status, h] \<Rightarrow> List.member acceptedSendStatuses status \<longrightarrow> conforms txHashSchema h | _ \<Rightarrow> True)"

definition rawSendTransactionResultSchema :: schema where
  "rawSendTransactionResultSchema = S_refine (S_object [(''status'', False, S_text (List.member SEND_TRANSACTION_STATUSES)),
     (''hash'', True, S_text (\<lambda>_. True)), (''errorResultXdr'', True, base64XdrSchema), (''diagnosticEventsXdr'', True, S_array None base64XdrSchema)])
     [''status'', ''hash''] accepted_has_hash"

definition rawGetTransactionResultSchema :: schema where
  "rawGetTransactionResultSchema = S_object [(''status'', False, S_text (List.member GET_TRANSACTION_STATUSES)), (''resultXdr'', True, base64XdrSchema)]"

definition client_rawRpcResultSchemas :: "(string, schema) jmap" where
  "client_rawRpcResultSchemas = [(''sendTransaction'', rawSendTransactionResultSchema), (''getTransaction'', rawGetTransactionResultSchema)]"

definition sendTransactionResponseSchema :: schema where
  "sendTransactionResponseSchema = S_refine (S_object [(''status'', False, S_text (List.member SEND_TRANSACTION_STATUSES)),
     (''hash'', True, S_text (\<lambda>_. True)), (''errorResult'', True, S_any)]) [''status'', ''hash''] accepted_has_hash"

definition getTransactionResponseSchema :: schema where
  "getTransactionResponseSchema = S_object [(''status'', False, S_text (List.member GET_TRANSACTION_STATUSES)), (''resultXdr'', True, S_any)]"

section \<open>Issues\<close>

text \<open>An issue is its path, or a union with the issues of each of its branches.\<close>

datatype zod_issue = Issue "string list" | Union_issue "string list" "zod_issue list list"

definition ROOT_PATH :: string where
  "ROOT_PATH = ''(root)''"

definition formatPath :: "string list \<Rightarrow> string" where
  "formatPath path = (if path \<noteq> [] then join ''.'' path else ROOT_PATH)"

definition closest :: "'a list list \<Rightarrow> 'a list" where
  "closest branches = (case branches of [] \<Rightarrow> [] | b # bs \<Rightarrow> foldl (\<lambda>best branch. if length branch < length best then branch else best) b bs)"

lemma closest_in: "bs \<noteq> [] \<Longrightarrow> closest bs \<in> set bs"
proof (cases bs)
  case (Cons b bs')
  have "foldl (\<lambda>best branch. if length branch < length best then branch else best) b bs' \<in> set (b # bs')"
    by (induction bs' arbitrary: b) force+
  with Cons show ?thesis by (simp add: closest_def)
qed simp

fun issue_size :: "zod_issue \<Rightarrow> nat" where
  "issue_size (Issue p) = 1"
| "issue_size (Union_issue p bs) = Suc (sum_list (map (\<lambda>b. sum_list (map issue_size b)) bs))"

function flattenIssues :: "string list \<Rightarrow> zod_issue list \<Rightarrow> string list list" where
  "flattenIssues base [] = []"
| "flattenIssues base (Issue p # issues) = (base @ p) # flattenIssues base issues"
| "flattenIssues base (Union_issue p bs # issues) =
     (if bs \<noteq> [] then flattenIssues (base @ p) (closest bs) else [base @ p]) @ flattenIssues base issues"
  by pat_completeness auto
termination
proof (relation "measure (\<lambda>(_, issues). sum_list (map issue_size issues))", goal_cases)
  case (3 base p bs issues)
  then have "sum_list (map issue_size (closest bs)) \<le> sum_list (map (\<lambda>b. sum_list (map issue_size b)) bs)"
    using closest_in [of bs] by (intro member_le_sum_list) auto
  then show ?case by simp
qed simp_all

definition MAX_REPORTED_ISSUES :: nat where
  "MAX_REPORTED_ISSUES = 10"

text \<open>The paths an error reports.\<close>

definition rpcResponseValidationError :: "string list list \<Rightarrow> string list" where
  "rpcResponseValidationError paths = take MAX_REPORTED_ISSUES (map formatPath paths)"

section \<open>Messages of the node\<close>

function redact_xdr :: "string \<Rightarrow> string" where
  "redact_xdr s =
     (let run = takeWhile base64_char s; rest = dropWhile base64_char s
      in if 64 \<le> length run
         then ''[REDACTED_XDR]'' @ redact_xdr (if take 2 rest = ''=='' then drop 2 rest else if take 1 rest = ''='' then drop 1 rest else rest)
         else run @ (case rest of [] \<Rightarrow> [] | c # cs \<Rightarrow> c # redact_xdr cs))"
  by pat_completeness auto
termination
proof (relation "measure length", goal_cases)
  case (2 s run rest)
  then have "length s = length run + length rest" using takeWhile_dropWhile_id [of base64_char s] by (metis length_append)
  with 2(3) show ?case by (cases run) auto
next
  case (3 s run rest c cs)
  then have "dropWhile base64_char s = c # cs" by simp
  with length_dropWhile_le [of base64_char s] show ?case by simp
qed simp_all

declare redact_xdr.simps [simp del]

definition newline :: char where
  "newline = CHR 0x0A"

definition DEFAULT_UPSTREAM_MESSAGE :: string where
  "DEFAULT_UPSTREAM_MESSAGE = ''Soroban RPC returned an error.''"

definition sanitizeUpstreamMessage :: "string \<Rightarrow> string" where
  "sanitizeUpstreamMessage message =
     (let text = take 512 (redact_xdr (trim (hd (split_on newline message))))
      in if text \<noteq> [] then text else DEFAULT_UPSTREAM_MESSAGE)"

definition client_message :: "string \<Rightarrow> string" where
  "client_message message =
     (let text = take 512 (trim (hd (split_on newline message))) in if text \<noteq> [] then text else DEFAULT_UPSTREAM_MESSAGE)"

section \<open>The check of a response\<close>

datatype rpc_verdict = Accepted | Invalid_response | Json_rpc_error int string

definition has_own :: "native \<Rightarrow> string \<Rightarrow> bool" where
  "has_own v k = (case v of N_object kvs \<Rightarrow> jm_get kvs k \<noteq> None | _ \<Rightarrow> False)"

text \<open>The body both checks have, over the table of the wire schemas and the cleaning of messages.\<close>

definition check_json_rpc :: "(string, schema) jmap \<Rightarrow> (string \<Rightarrow> string) \<Rightarrow> string \<Rightarrow> native \<Rightarrow> native \<Rightarrow> rpc_verdict" where
  "check_json_rpc schemas clean method requestId body =
     (if \<not> isRecord body then Invalid_response
      else if \<not> conforms jsonRpcEnvelopeSchema body then Invalid_response
      else if get_field body ''id'' \<noteq> requestId then Invalid_response
      else let hasError = has_own body ''error''; hasResult = has_own body ''result''
        in if hasError \<and> hasResult then Invalid_response
           else if hasError
           then (let err = get_field body ''error'' in
                 if \<not> conforms jsonRpcErrorObjectSchema err then Invalid_response
                 else Json_rpc_error (default_to 0 (integer_of (get_field err ''code'')))
                        (clean (case get_field err ''message'' of N_string m \<Rightarrow> m | _ \<Rightarrow> [])))
           else if \<not> hasResult \<or> nullish (get_field body ''result'') then Invalid_response
           else case jm_get schemas method of
               None \<Rightarrow> Accepted
             | Some s \<Rightarrow> if conforms s (get_field body ''result'') then Accepted else Invalid_response)"

definition validateJsonRpcResponse :: "(string \<Rightarrow> bool) \<Rightarrow> string \<Rightarrow> native \<Rightarrow> native \<Rightarrow> rpc_verdict" where
  "validateJsonRpcResponse datetime = check_json_rpc (rawRpcResultSchemas datetime) sanitizeUpstreamMessage"

definition client_validateJsonRpcResponse :: "string \<Rightarrow> native \<Rightarrow> native \<Rightarrow> rpc_verdict" where
  "client_validateJsonRpcResponse = check_json_rpc client_rawRpcResultSchemas client_message"

definition readJsonRpcRequest :: "(string \<Rightarrow> native option) \<Rightarrow> native \<Rightarrow> (string \<times> native) option" where
  "readJsonRpcRequest parse payload =
     (case (case payload of N_string s \<Rightarrow> parse s | v \<Rightarrow> Some v) of
        None \<Rightarrow> None
      | Some body \<Rightarrow>
        if \<not> isRecord body \<or> get_field body ''jsonrpc'' \<noteq> N_string ''2.0'' then None
        else case get_field body ''method'' of N_string method \<Rightarrow> Some (method, get_field body ''id'') | _ \<Rightarrow> None)"

text \<open>The interceptor: \<open>None\<close> passes the response on, otherwise the error it throws.\<close>

definition intercept_response ::
  "(string \<Rightarrow> native option) \<Rightarrow> (string \<Rightarrow> native \<Rightarrow> native \<Rightarrow> rpc_verdict) \<Rightarrow> native \<Rightarrow> native \<Rightarrow> rpc_verdict" where
  "intercept_response parse check request response =
     (case readJsonRpcRequest parse request of None \<Rightarrow> Accepted | Some (method, i) \<Rightarrow> check method i response)"

text \<open>
  Installing it: clients by their identity, with how many interceptors each has; \<open>None\<close> for a server
  without a client.
\<close>

record instrumented =
  im_clients :: "string list"
  im_interceptors :: "string list"

definition installRpcResponseValidation :: "instrumented \<Rightarrow> string option \<Rightarrow> instrumented \<times> bool" where
  "installRpcResponseValidation st client =
     (case client of
        None \<Rightarrow> (st, False)
      | Some c \<Rightarrow>
        if List.member (im_clients st) c then (st, True)
        else (st\<lparr>im_clients := im_clients st @ [c], im_interceptors := im_interceptors st @ [c]\<rparr>, True))"

section \<open>What a schema looks at\<close>

text \<open>Two values are the same to a schema when they agree wherever it looks.\<close>

definition arrays_agree :: "(native \<Rightarrow> native \<Rightarrow> bool) \<Rightarrow> native \<Rightarrow> native \<Rightarrow> bool" where
  "arrays_agree R v w = (case (v, w) of (N_array vs, N_array ws) \<Rightarrow> list_all2 R vs ws | _ \<Rightarrow> v = w)"

primrec agree :: "schema \<Rightarrow> native \<Rightarrow> native \<Rightarrow> bool" where
  "agree S_any v w = True"
| "agree S_defined v w = (nullish v = nullish w)"
| "agree S_null v w = (v = w)"
| "agree S_number v w = (v = w)"
| "agree (S_integer lo hi) v w = (v = w)"
| "agree (S_text P) v w = (v = w)"
| "agree (S_array bound s) v w = arrays_agree (agree s) v w"
| "agree (S_object fs) v w = (isRecord v = isRecord w \<and>
     list_all (\<lambda>(name, opt, R). (get_field v name = N_undefined) = (get_field w name = N_undefined) \<and> R (get_field v name) (get_field w name))
       (map (map_prod id (map_prod id agree)) fs))"
| "agree (S_nullish s) v w = (nullish v = nullish w \<and> agree s v w)"
| "agree (S_union ss) v w = list_all (\<lambda>R. R v w) (map agree ss)"
| "agree (S_variant name s1 s2) v w = (isRecord v = isRecord w \<and> (get_field v name = N_undefined) = (get_field w name = N_undefined)
     \<and> agree s1 v w \<and> agree s2 v w)"
| "agree (S_refine s names P) v w = (agree s v w \<and> map (get_field v) names = map (get_field w) names)"

lemma arrays_agree_conform:
  assumes "arrays_agree R v w" "\<And>x y. R x y \<Longrightarrow> ok x = ok y"
  shows "array_of bound ok v = array_of bound ok w"
proof -
  have "list_all ok vs = list_all ok ws" if "list_all2 R vs ws" for vs ws
    using that assms(2) by (induction rule: list_all2_induct) auto
  with assms(1) show ?thesis
    by (auto simp: arrays_agree_def array_of_def dest: list_all2_lengthD split: native.splits option.splits)
qed

lemma all_fields:
  "list_all P (map (map_prod id (map_prod id f)) fs) \<longleftrightarrow> (\<forall>n opt s. (n, opt, s) \<in> set fs \<longrightarrow> P (n, opt, f s))"
  by (induction fs) auto

lemma conforms_agree: "agree s v w \<Longrightarrow> conforms s v = conforms s w"
proof (induction s arbitrary: v w)
  case (S_array bound s)
  then show ?case using arrays_agree_conform [of "agree s" v w "conforms s" bound] by simp
next
  case (S_object fs)
  have "(opt \<and> get_field v n = N_undefined \<or> conforms s (get_field v n)) = (opt \<and> get_field w n = N_undefined \<or> conforms s (get_field w n))"
    if "(n, opt, s) \<in> set fs" for n opt s
  proof -
    have "(get_field v n = N_undefined) = (get_field w n = N_undefined) \<and> agree s (get_field v n) (get_field w n)"
      using S_object.prems that by (auto simp: all_fields)
    then show ?thesis using S_object.IH [OF that, of "(opt, s)" s "get_field v n" "get_field w n"] by simp
  qed
  then show ?case using S_object.prems by (simp add: object_with_def all_fields)
next
  case (S_union ss)
  then have "\<forall>s \<in> set ss. conforms s v = conforms s w" by (simp add: list_all_iff)
  then show ?case by (auto simp: list_ex_iff)
next
  case (S_refine s names P)
  then have "map (get_field v) names = map (get_field w) names" "conforms s v = conforms s w" by simp_all
  then show ?case by (simp only: conforms.simps)
qed auto

section \<open>Redaction\<close>

definition long_run :: "string \<Rightarrow> bool" where
  "long_run s = (\<exists>i. i + 64 \<le> length s \<and> list_all base64_char (take 64 (drop i s)))"

lemma long_run_nth: "long_run s \<longleftrightarrow> (\<exists>i. i + 64 \<le> length s \<and> (\<forall>j < 64. base64_char (s ! (i + j))))"
  unfolding long_run_def list_all_length by (intro ex_cong1) auto

lemma long_run_split:
  assumes "\<not> long_run xs" "\<not> long_run ys" "\<not> base64_char c"
  shows "\<not> long_run (xs @ c # ys)"
proof
  assume "long_run (xs @ c # ys)"
  then obtain i where i: "i + 64 \<le> length (xs @ c # ys)" "\<And>j. j < 64 \<Longrightarrow> base64_char ((xs @ c # ys) ! (i + j))"
    by (auto simp: long_run_nth)
  consider "i + 64 \<le> length xs" | "i \<le> length xs" "length xs < i + 64" | "length xs < i" by linarith
  then show False
  proof cases
    case 1
    then have "\<forall>j < 64. base64_char (xs ! (i + j))" using i(2) by (simp add: nth_append)
    with 1 assms(1) show False by (auto simp: long_run_nth)
  next
    case 2
    then have "length xs - i < 64" "i + (length xs - i) = length xs" by simp_all
    with i(2) [of "length xs - i"] assms(3) show False by simp
  next
    case 3
    then have "\<forall>j < 64. base64_char (ys ! (i - Suc (length xs) + j))"
      using i(2) by (force simp: nth_append Suc_diff_Suc nth_Cons')
    moreover have "i - Suc (length xs) + 64 \<le> length ys" using i(1) 3 by simp
    ultimately show False using assms(2) unfolding long_run_nth by blast
  qed
qed

lemma short_no_run: "length s < 64 \<Longrightarrow> \<not> long_run s"
  by (simp add: long_run_def)

lemma take_no_run: "\<not> long_run s \<Longrightarrow> \<not> long_run (take n s)"
  unfolding long_run_nth by (metis add_le_cancel_left le_trans length_take min.boundedE nth_take add_less_le_mono less_le_trans nat_add_left_cancel_less)

lemma redact_no_run: "\<not> long_run (redact_xdr s)"
proof (induction s rule: redact_xdr.induct)
  case (1 s)
  let ?run = "takeWhile base64_char s" and ?rest = "dropWhile base64_char s"
  show ?case
  proof (cases "64 \<le> length ?run")
    case True
    let ?t = "if take 2 ?rest = ''=='' then drop 2 ?rest else if take 1 ?rest = ''='' then drop 1 ?rest else ?rest"
    have "redact_xdr s = ''[REDACTED_XDR'' @ CHR '']'' # redact_xdr ?t"
      using True by (subst redact_xdr.simps) (simp add: Let_def)
    moreover have "\<not> long_run (redact_xdr ?t)" using "1.IH"(1) [OF refl refl] True by simp
    moreover have "\<not> base64_char CHR '']''" by (simp add: base64_char_def is_letter_def is_digit_def)
    ultimately show ?thesis using long_run_split [of "''[REDACTED_XDR''"] by (simp add: short_no_run)
  next
    case False
    then have short: "\<not> long_run ?run" by (simp add: short_no_run)
    show ?thesis
    proof (cases ?rest)
      case Nil
      have "redact_xdr s = ?run" using False Nil by (subst redact_xdr.simps) (simp only: Let_def if_False list.case append_Nil2)
      then show ?thesis using short by simp
    next
      case (Cons c cs)
      then have "\<not> base64_char c" by (metis hd_dropWhile list.distinct(1) list.sel(1))
      moreover have "redact_xdr s = ?run @ c # redact_xdr cs" using False Cons by (subst redact_xdr.simps) (simp add: Let_def)
      ultimately show ?thesis using long_run_split [OF short] "1.IH"(2) [OF refl refl _ Cons] False by simp
    qed
  qed
qed

section \<open>The interface of both checks\<close>

text \<open>
  What a check promises for every table of wire schemas, as long as its cleaning of messages never
  gives an empty or an overlong one.
\<close>

locale json_rpc_check =
  fixes schemas :: "(string, schema) jmap" and clean :: "string \<Rightarrow> string"
  assumes clean_bounded: "clean m \<noteq> [] \<and> length (clean m) \<le> 512"
begin

lemma accepted_iff:
  "check_json_rpc schemas clean method i body = Accepted \<longleftrightarrow>
     conforms jsonRpcEnvelopeSchema body \<and> get_field body ''id'' = i \<and> \<not> has_own body ''error'' \<and> has_own body ''result''
     \<and> \<not> nullish (get_field body ''result'') \<and> (\<forall>s. jm_get schemas method = Some s \<longrightarrow> conforms s (get_field body ''result''))"
proof -
  have "conforms jsonRpcEnvelopeSchema body \<Longrightarrow> isRecord body" by (simp add: jsonRpcEnvelopeSchema_def object_with_def)
  then show ?thesis by (auto simp: check_json_rpc_def Let_def split: option.split)
qed

lemma error_bounded:
  "check_json_rpc schemas clean method i body = Json_rpc_error code m \<Longrightarrow> m \<noteq> [] \<and> length m \<le> 512 \<and> has_own body ''error''"
  using clean_bounded by (auto simp: check_json_rpc_def Let_def split: if_splits option.splits)

lemma additive:
  assumes "check_json_rpc schemas clean method i (N_object kvs) = Accepted" "k \<notin> {''jsonrpc'', ''id'', ''error'', ''result''}"
    and "\<not> nullish r" "\<And>s. jm_get schemas method = Some s \<Longrightarrow> agree s (get_field (N_object kvs) ''result'') r"
  shows "check_json_rpc schemas clean method i (N_object (jm_set (jm_set kvs ''result'' r) k x)) = Accepted"
proof -
  let ?b = "N_object kvs" and ?b' = "N_object (jm_set (jm_set kvs ''result'' r) k x)"
  have same: "get_field ?b' n = get_field ?b n" "has_own ?b' n = has_own ?b n" if "n \<in> {''jsonrpc'', ''id'', ''error''}" for n
    using that assms(2) by (auto simp: get_field_def has_own_def)
  have res: "get_field ?b' ''result'' = r" "has_own ?b' ''result''" using assms(2) by (auto simp: get_field_def has_own_def default_to_def)
  have "agree jsonRpcEnvelopeSchema ?b ?b'" by (simp add: jsonRpcEnvelopeSchema_def isRecord_def same)
  then have env: "conforms jsonRpcEnvelopeSchema ?b' = conforms jsonRpcEnvelopeSchema ?b" by (rule conforms_agree [symmetric])
  have "conforms s r" if "jm_get schemas method = Some s" for s
    using conforms_agree [OF assms(4) [OF that]] assms(1) that unfolding accepted_iff by simp
  with assms(1,3) env same res show ?thesis unfolding accepted_iff by simp
qed

end

lemma sanitize_bounded: "sanitizeUpstreamMessage m \<noteq> [] \<and> length (sanitizeUpstreamMessage m) \<le> 512"
  by (simp add: sanitizeUpstreamMessage_def Let_def DEFAULT_UPSTREAM_MESSAGE_def)

interpretation server: json_rpc_check "rawRpcResultSchemas datetime" sanitizeUpstreamMessage for datetime
  by unfold_locales (rule sanitize_bounded)

interpretation browser: json_rpc_check client_rawRpcResultSchemas client_message
  by unfold_locales (simp add: client_message_def Let_def DEFAULT_UPSTREAM_MESSAGE_def)

section \<open>What is accepted\<close>

text \<open>
  Additive changes of the nodes keep working. Take an accepted response and change it wherever
  the schemas do not look, at any depth of its result, and give it any further field: it is
  accepted as before, by the backend and by the browser.
\<close>

theorem additive_changes_accepted:
  assumes "validateJsonRpcResponse datetime method i (N_object kvs) = Accepted"
    and "client_validateJsonRpcResponse method i (N_object kvs) = Accepted"
    and "k \<notin> {''jsonrpc'', ''id'', ''error'', ''result''}" "\<not> nullish r"
    and "\<forall>s \<in> set (rawRpcResultSchemas datetime @ client_rawRpcResultSchemas).
        fst s = method \<longrightarrow> agree (snd s) (get_field (N_object kvs) ''result'') r"
  shows "validateJsonRpcResponse datetime method i (N_object (jm_set (jm_set kvs ''result'' r) k x)) = Accepted
    \<and> client_validateJsonRpcResponse method i (N_object (jm_set (jm_set kvs ''result'' r) k x)) = Accepted"
proof -
  have "agree s (get_field (N_object kvs) ''result'') r"
    if "jm_get (rawRpcResultSchemas datetime) method = Some s \<or> jm_get client_rawRpcResultSchemas method = Some s" for s
    using that assms(5) by (force dest: jm_get_mem)
  then show ?thesis using assms(1-4) unfolding validateJsonRpcResponse_def client_validateJsonRpcResponse_def
    by (intro conjI server.additive browser.additive) simp_all
qed

definition sample_event :: "native list \<Rightarrow> native" where
  "sample_event extra = N_object ([(''id'', N_string ''e1''), (''txHash'', N_string (replicate 64 CHR ''a'')), (''ledgerClosedAt'', N_string ''t''),
     (''contractId'', N_string []), (''value'', N_string ''AAAA'')] @ map (\<lambda>v. (''opIndex'', v)) extra)"

definition sample_events :: "native list \<Rightarrow> native" where
  "sample_events extra = N_object [(''events'', N_array [sample_event extra])]"

theorem additive_changes_accepted_witness:
  "validateJsonRpcResponse (\<lambda>_. True) ''getEvents'' (N_number 1)
     (N_object [(''jsonrpc'', N_string ''2.0''), (''id'', N_number 1), (''result'', sample_events [N_number 4]), (''trace'', N_null)]) = Accepted"
proof -
  let ?b = "[(''jsonrpc'', N_string ''2.0''), (''id'', N_number 1), (''result'', sample_events [])]"
  have a: "validateJsonRpcResponse (\<lambda>_. True) ''getEvents'' (N_number 1) (N_object ?b) = Accepted"
    "client_validateJsonRpcResponse ''getEvents'' (N_number 1) (N_object ?b) = Accepted" by code_simp+
  have k: "''trace'' \<notin> {''jsonrpc'', ''id'', ''error'', ''result''}" "\<not> nullish (sample_events [N_number 4])"
    by (simp_all add: sample_events_def nullish_def)
  have "agree (rawGetEventsResultSchema (\<lambda>_. True)) (sample_events []) (sample_events [N_number 4])" by code_simp
  then have ag: "\<forall>s \<in> set (rawRpcResultSchemas (\<lambda>_. True) @ client_rawRpcResultSchemas).
      fst s = ''getEvents'' \<longrightarrow> agree (snd s) (get_field (N_object ?b) ''result'') (sample_events [N_number 4])"
    by (simp add: rawRpcResultSchemas_def client_rawRpcResultSchemas_def get_field_def default_to_def jm_get_def)
  from additive_changes_accepted [OF a k ag, of N_null] show ?thesis by simp
qed

text \<open>
  What the listener indexes is well formed: the events of an accepted response are an array,
  and every event carries a transaction hash of 64 hexadecimal digits, a non-empty id, a readable
  closing time and, when it names a ledger, one in the range of 32 bits.
\<close>

theorem accepted_events_well_formed:
  assumes "validateJsonRpcResponse datetime ''getEvents'' i body = Accepted"
  shows "\<exists>es. get_field (get_field body ''result'') ''events'' = N_array es \<and> (\<forall>e \<in> set es.
      (\<exists>h. get_field e ''txHash'' = N_string h \<and> length h = 64 \<and> list_all hex_char h)
    \<and> (\<exists>t. get_field e ''id'' = N_string t \<and> t \<noteq> [])
    \<and> (\<exists>t. get_field e ''ledgerClosedAt'' = N_string t \<and> datetime t)
    \<and> (get_field e ''ledger'' = N_undefined \<or> (\<exists>q. get_field e ''ledger'' = N_number q \<and> is_integer q \<and> 0 \<le> q \<and> q \<le> 4294967295)))"
proof -
  have s: "jm_get (rawRpcResultSchemas datetime) ''getEvents'' = Some (rawGetEventsResultSchema datetime)"
    by (simp add: rawRpcResultSchemas_def jm_get_def)
  have "conforms (rawGetEventsResultSchema datetime) (get_field body ''result'')"
    using assms s unfolding validateJsonRpcResponse_def server.accepted_iff by blast
  then obtain es where es: "get_field (get_field body ''result'') ''events'' = N_array es" "\<forall>e \<in> set es. conforms (rawEventSchema datetime) e"
    by (auto simp: rawGetEventsResultSchema_def object_with_def array_of_def list_all_iff split: native.splits)
  have as_text: "conforms (S_text P) v \<longleftrightarrow> (\<exists>t. v = N_string t \<and> P t)" for P v by (cases v) simp_all
  have seq: "\<exists>q. v = N_number q \<and> is_integer q \<and> 0 \<le> q \<and> q \<le> 4294967295" if v: "conforms (S_integer 0 U32_MAX) v" for v
  proof -
    from v obtain q where q: "v = N_number q" "is_integer q" "0 \<le> \<lfloor>q\<rfloor>" "\<lfloor>q\<rfloor> \<le> 4294967295"
      by (auto simp: integer_in_def U32_MAX_def split: native.splits)
    obtain n where n: "q = of_int n" using q(2) unfolding is_integer_def by metis
    with q(3,4) have "0 \<le> n" "n \<le> 4294967295" by simp_all
    then have "0 \<le> q" "q \<le> of_int 4294967295" unfolding n by (simp_all only: of_int_le_iff of_int_0_le_iff)
    with q(1,2) show ?thesis by simp
  qed
  have "(\<exists>h. get_field e ''txHash'' = N_string h \<and> length h = 64 \<and> list_all hex_char h)
    \<and> (\<exists>t. get_field e ''id'' = N_string t \<and> t \<noteq> [])
    \<and> (\<exists>t. get_field e ''ledgerClosedAt'' = N_string t \<and> datetime t)
    \<and> (get_field e ''ledger'' = N_undefined \<or> (\<exists>q. get_field e ''ledger'' = N_number q \<and> is_integer q \<and> 0 \<le> q \<and> q \<le> 4294967295))"
    if "e \<in> set es" for e
    using es(2) [rule_format, OF that] seq [of "get_field e ''ledger''"]
    by (simp del: conforms.simps(5,6) add: rawEventSchema_def object_with_def txHashSchema_def tx_hash_text_def ledgerSequenceSchema_def as_text) blast
  with es(1) show ?thesis by blast
qed

theorem accepted_events_well_formed_witness:
  "get_field (get_field (N_object [(''jsonrpc'', N_string ''2.0''), (''id'', N_null), (''result'', sample_events [])]) ''result'') ''events''
      = N_array [sample_event []]
    \<and> (\<exists>h. get_field (sample_event []) ''txHash'' = N_string h \<and> length h = 64 \<and> list_all hex_char h)"
proof -
  let ?b = "N_object [(''jsonrpc'', N_string ''2.0''), (''id'', N_null), (''result'', sample_events [])]"
  have "validateJsonRpcResponse (\<lambda>_. True) ''getEvents'' N_null ?b = Accepted" by code_simp
  from accepted_events_well_formed [OF this] obtain es where es: "get_field (get_field ?b ''result'') ''events'' = N_array es"
    "\<forall>e \<in> set es. \<exists>h. get_field e ''txHash'' = N_string h \<and> length h = 64 \<and> list_all hex_char h" by blast
  have "get_field (get_field ?b ''result'') ''events'' = N_array [sample_event []]" by code_simp
  with es(1) have "es = [sample_event []]" by simp
  with es show ?thesis by simp
qed

lemma long_run_append: "long_run xs \<Longrightarrow> long_run (xs @ ys)" "long_run ys \<Longrightarrow> long_run (xs @ ys)"
proof -
  assume "long_run xs"
  then obtain i where "i + 64 \<le> length xs" "\<forall>j < 64. base64_char (xs ! (i + j))" by (auto simp: long_run_nth)
  then show "long_run (xs @ ys)" unfolding long_run_nth by (intro exI [of _ i]) (simp add: nth_append)
next
  assume "long_run ys"
  then obtain i where "i + 64 \<le> length ys" "\<forall>j < 64. base64_char (ys ! (i + j))" by (auto simp: long_run_nth)
  then show "long_run (xs @ ys)" unfolding long_run_nth
    by (intro exI [of _ "length xs + i"]) (simp add: nth_append add.assoc)
qed

lemma redact_unchanged: "\<not> long_run s \<Longrightarrow> redact_xdr s = s"
proof (induction s rule: redact_xdr.induct)
  case (1 s)
  let ?run = "takeWhile base64_char s" and ?rest = "dropWhile base64_char s"
  have "long_run ?run" if "64 \<le> length ?run"
  proof -
    have "base64_char (?run ! j)" if "j < length ?run" for j using nth_mem [OF that] by (auto dest: set_takeWhileD)
    with that show ?thesis unfolding long_run_nth by (intro exI [of _ 0]) auto
  qed
  then have short: "\<not> 64 \<le> length ?run"
    using "1.prems" long_run_append(1) [of ?run ?rest] by (metis takeWhile_dropWhile_id)
  show ?case
  proof (cases ?rest)
    case Nil
    then have "?run = s" by (metis append_Nil2 takeWhile_dropWhile_id)
    moreover have "redact_xdr s = ?run" using short Nil by (subst redact_xdr.simps) (simp only: Let_def if_False list.case append_Nil2)
    ultimately show ?thesis by simp
  next
    case (Cons c cs)
    then have s: "s = (?run @ [c]) @ cs" by (metis append.assoc append_Cons append_Nil takeWhile_dropWhile_id)
    then have "\<not> long_run cs" using "1.prems" long_run_append(2) by metis
    then have "redact_xdr cs = cs" using "1.IH"(2) [OF refl refl short Cons] by simp
    moreover have "redact_xdr s = ?run @ c # redact_xdr cs" using short Cons by (subst redact_xdr.simps) (simp add: Let_def)
    ultimately show ?thesis using s by simp
  qed
qed

text \<open>
  (C19) No encoded transaction leaves through an error message. Whatever body the node sends, when
  the check reports it as an error, the message of the report is not empty, at most 512 characters
  long, and holds no run of 64 characters of the base64 alphabet; and a message of the node that is
  one trimmed line of that length without such a run is reported as it is.
\<close>

theorem upstream_message_redacted:
  assumes "validateJsonRpcResponse datetime method i body = Json_rpc_error code m"
  shows "m \<noteq> [] \<and> length m \<le> 512
    \<and> (\<nexists>a run b. m = a @ run @ b \<and> length run = 64 \<and> list_all base64_char run)
    \<and> (\<exists>sent. get_field (get_field body ''error'') ''message'' = N_string sent
        \<and> (sent \<noteq> [] \<and> length sent \<le> 512 \<and> newline \<notin> set sent \<and> trim sent = sent \<and> \<not> long_run sent \<longrightarrow> m = sent))"
proof -
  obtain sent where sent: "get_field (get_field body ''error'') ''message'' = N_string sent" "m = sanitizeUpstreamMessage sent"
    using assms by (auto simp: validateJsonRpcResponse_def check_json_rpc_def Let_def jsonRpcErrorObjectSchema_def object_with_def
        split: if_splits option.splits native.splits)
  have "\<not> long_run DEFAULT_UPSTREAM_MESSAGE" by (simp add: short_no_run DEFAULT_UPSTREAM_MESSAGE_def)
  then have "\<not> long_run m"
    using take_no_run [OF redact_no_run] sent(2) by (simp add: sanitizeUpstreamMessage_def Let_def)
  moreover have "long_run (a @ run @ b)" if "length run = 64" "list_all base64_char run" for a run b
    unfolding long_run_def using that by (intro exI [of _ "length a"]) simp
  moreover have "split_on newline sent = [sent]" if "newline \<notin> set sent" using that by (simp add: split_on_absent)
  then have "m = sent" if "sent \<noteq> []" "length sent \<le> 512" "newline \<notin> set sent" "trim sent = sent" "\<not> long_run sent"
    using that sent(2) redact_unchanged by (simp add: sanitizeUpstreamMessage_def Let_def)
  ultimately show ?thesis using sanitize_bounded [of sent] sent by metis
qed

definition failed_body :: "string \<Rightarrow> native" where
  "failed_body m = N_object [(''jsonrpc'', N_string ''2.0''), (''id'', N_null), (''error'', N_object [(''code'', N_number 1), (''message'', N_string m)])]"

theorem upstream_message_redacted_witness:
  "validateJsonRpcResponse (\<lambda>_. True) ''getEvents'' N_null (failed_body (replicate 80 CHR ''A'')) = Json_rpc_error 1 ''[REDACTED_XDR]''
    \<and> (\<nexists>a run b. ''[REDACTED_XDR]'' = a @ run @ b \<and> length run = 64 \<and> list_all base64_char run)"
proof -
  have "validateJsonRpcResponse (\<lambda>_. True) ''getEvents'' N_null (failed_body (replicate 80 CHR ''A'')) = Json_rpc_error 1 ''[REDACTED_XDR]''"
    by code_simp
  with upstream_message_redacted [OF this] show ?thesis by blast
qed

text \<open>The browser copies the message of the node without redacting it.\<close>

lemma browser_keeps_xdr:
  "client_validateJsonRpcResponse ''getHealth'' N_null (N_object [(''jsonrpc'', N_string ''2.0''), (''id'', N_null),
      (''error'', N_object [(''code'', N_number 1), (''message'', N_string (replicate 80 CHR ''A''))])])
    = Json_rpc_error 1 (replicate 80 CHR ''A'')"
  by code_simp

lemma verdicts_alike:
  assumes "jm_get s1 method = jm_get s2 method \<or> has_own body ''error''"
  shows "(check_json_rpc s1 c1 method i body = Accepted \<longleftrightarrow> check_json_rpc s2 c2 method i body = Accepted)
    \<and> ((\<exists>m. check_json_rpc s1 c1 method i body = Json_rpc_error code m) \<longleftrightarrow> (\<exists>m. check_json_rpc s2 c2 method i body = Json_rpc_error code m))"
  using assms by (auto simp: check_json_rpc_def Let_def split: option.split)

text \<open>
  The browser's check mirrors the backend's: on every error body, and on every body for a method
  neither has a wire schema for, the two give the same verdict, errors with the same code.
\<close>

theorem browser_mirrors_backend:
  assumes "has_own body ''error'' \<or> method \<notin> {''getLatestLedger'', ''getEvents'', ''simulateTransaction'', ''getLedgerEntries'', ''sendTransaction'', ''getTransaction''}"
  shows "(client_validateJsonRpcResponse method i body = Accepted \<longleftrightarrow> validateJsonRpcResponse datetime method i body = Accepted)
    \<and> ((\<exists>m. client_validateJsonRpcResponse method i body = Json_rpc_error code m)
       \<longleftrightarrow> (\<exists>m. validateJsonRpcResponse datetime method i body = Json_rpc_error code m))"
  unfolding client_validateJsonRpcResponse_def validateJsonRpcResponse_def using assms
  by (intro verdicts_alike) (auto simp: client_rawRpcResultSchemas_def rawRpcResultSchemas_def jm_get_def)

theorem browser_mirrors_backend_witness:
  "\<exists>m. validateJsonRpcResponse (\<lambda>_. True) ''getHealth'' N_null (N_object [(''jsonrpc'', N_string ''2.0''), (''id'', N_null),
      (''error'', N_object [(''code'', N_number 1), (''message'', N_string (replicate 80 CHR ''A''))])]) = Json_rpc_error 1 m"
proof -
  let ?b = "N_object [(''jsonrpc'', N_string ''2.0''), (''id'', N_null), (''error'', N_object [(''code'', N_number 1), (''message'', N_string (replicate 80 CHR ''A''))])]"
  have h: "has_own ?b ''error'' \<or> ''getHealth'' \<notin> {''getLatestLedger'', ''getEvents'', ''simulateTransaction'', ''getLedgerEntries'', ''sendTransaction'', ''getTransaction''}"
    by simp
  show ?thesis using browser_mirrors_backend [OF h, of N_null "\<lambda>_. True" 1] browser_keeps_xdr by blast
qed

text \<open>Installing the interceptor again changes nothing.\<close>

lemma install_once:
  "installRpcResponseValidation (fst (installRpcResponseValidation st client)) client
     = (fst (installRpcResponseValidation st client), client \<noteq> None)"
  by (simp add: installRpcResponseValidation_def split: option.split)

text \<open>Every path an error reports lies below the base it was found under.\<close>

lemma flatten_below: "p \<in> set (flattenIssues base issues) \<Longrightarrow> \<exists>q. p = base @ q"
  by (induction base issues rule: flattenIssues.induct) (auto split: if_splits)

end
