(* ===== verification/Http_Guards.thy ===== *)
theory Http_Guards
  imports Split_Builders Js_Number
begin

text \<open>
  The guards every request passes: correlation ids (\<open>backend/src/middleware/request-id.ts\<close>), rate
  limit policies and where they are mounted (\<open>middleware/rate-limit.ts\<close>, \<open>index.ts\<close>), the payments
  administrator and its audit log (\<open>middleware/payments-admin.ts\<close>, \<open>middleware/audit-log.ts\<close>), checks
  of responses (\<open>middleware/validateResponse.ts\<close>), the answer of the request timer (\<open>middleware/timeout.ts\<close>), deprecations (\<open>middleware/deprecation.ts\<close>) and the
  configuration behind them (\<open>config/env.ts\<close>, \<open>config/cors.ts\<close>).

  The environment is a function from names to optional texts. Recognising a URL, the checksum of a
  contract id, SHA-256 and the printing of a date are parameters, and so is whether the limiter of
  the library lets a request through.
\<close>

type_synonym env = "string \<Rightarrow> string option"

section \<open>Correlation ids\<close>

definition MAX_REQUEST_ID_LENGTH :: nat where
  "MAX_REQUEST_ID_LENGTH = 64"

definition alnum :: "char \<Rightarrow> bool" where
  "alnum c = (is_letter c \<or> is_digit c)"

definition SAFE_REQUEST_ID :: "string \<Rightarrow> bool" where
  "SAFE_REQUEST_ID s = (s \<noteq> [] \<and> list_all (\<lambda>c. alnum c \<or> c = CHR ''.'' \<or> c = CHR ''_'' \<or> c = CHR '':'' \<or> c = CHR ''-'') s)"

definition JWT_SHAPED :: "string \<Rightarrow> bool" where
  "JWT_SHAPED s = (let url = list_all (\<lambda>c. alnum c \<or> c = CHR ''_'' \<or> c = CHR ''-'') in
     starts_with s ''eyJ'' \<and> (case split_on CHR ''.'' s of [a, b, c] \<Rightarrow> url a \<and> url b \<and> b \<noteq> [] \<and> url c | _ \<Rightarrow> False))"

definition sanitizeInboundRequestId :: "string option \<Rightarrow> string option" where
  "sanitizeInboundRequestId raw =
     (case raw of
        None \<Rightarrow> None
      | Some r \<Rightarrow> let value = trim r in
        if value = [] \<or> MAX_REQUEST_ID_LENGTH < length value then None
        else if \<not> SAFE_REQUEST_ID value \<or> JWT_SHAPED value then None
        else Some value)"

definition requestIdMiddleware :: "string \<Rightarrow> string option \<Rightarrow> string option \<Rightarrow> string" where
  "requestIdMiddleware newId xRequestId xCorrelationId =
     default_to (default_to newId (sanitizeInboundRequestId xCorrelationId)) (sanitizeInboundRequestId xRequestId)"

section \<open>Wallet addresses in log lines\<close>

definition word_char :: "char \<Rightarrow> bool" where
  "word_char c = (alnum c \<or> c = CHR ''_'')"

definition wallet_word :: "string \<Rightarrow> bool" where
  "wallet_word w = (case w of [] \<Rightarrow> False
     | c # cs \<Rightarrow> (c = CHR ''G'' \<or> c = CHR ''C'') \<and> length cs = 55
         \<and> list_all (\<lambda>x. (CHR ''A'' \<le> x \<and> x \<le> CHR ''Z'') \<or> (CHR ''2'' \<le> x \<and> x \<le> CHR ''7'')) cs)"

text \<open>\<open>replace(/\b[GC][A-Z2-7]{55}\b/g, ...)\<close>: a match is a whole run of word characters.\<close>

function scrubWalletAddresses :: "string \<Rightarrow> string" where
  "scrubWalletAddresses s =
     (let run = takeWhile word_char s
      in (if wallet_word run then ''[WALLET_REDACTED]'' else run) @
         (case dropWhile word_char s of [] \<Rightarrow> [] | c # cs \<Rightarrow> c # scrubWalletAddresses cs))"
  by pat_completeness auto
termination
proof (relation "measure length", goal_cases)
  case (2 s run c cs)
  then have "dropWhile word_char s = c # cs" by simp
  with length_dropWhile_le [of word_char s] show ?case by simp
qed simp

declare scrubWalletAddresses.simps [simp del]

section \<open>Rate limits\<close>

datatype RateLimitPolicyName = Policy_global | Policy_read | Policy_write | Policy_admin | Policy_auth | Policy_sse

record RateLimitPolicy =
  rl_name :: RateLimitPolicyName
  rl_windowMs :: int
  rl_limit :: int

definition readPositiveInt :: "env \<Rightarrow> string \<Rightarrow> int \<Rightarrow> int" where
  "readPositiveInt env envVar fallback =
     (case env envVar of
        None \<Rightarrow> fallback
      | Some raw \<Rightarrow> if raw = [] then fallback
          else case number_text raw of Some q \<Rightarrow> if 0 < q then \<lfloor>q\<rfloor> else fallback | None \<Rightarrow> fallback)"

definition DEFAULT_WINDOW_MS :: int where
  "DEFAULT_WINDOW_MS = 15 * 60 * 1000"

definition DEFAULT_AUTH_WINDOW_MS :: int where
  "DEFAULT_AUTH_WINDOW_MS = 5 * 60 * 1000"

fun policy_env :: "RateLimitPolicyName \<Rightarrow> (string \<times> int) \<times> (string \<times> int)" where
  "policy_env Policy_global = ((''RATE_LIMIT_WINDOW_MS'', DEFAULT_WINDOW_MS), (''RATE_LIMIT_GLOBAL_MAX'', 500))"
| "policy_env Policy_read = ((''RATE_LIMIT_WINDOW_MS'', DEFAULT_WINDOW_MS), (''RATE_LIMIT_MAX'', 100))"
| "policy_env Policy_write = ((''RATE_LIMIT_WINDOW_MS'', DEFAULT_WINDOW_MS), (''RATE_LIMIT_WRITE_MAX'', 30))"
| "policy_env Policy_admin = ((''RATE_LIMIT_WINDOW_MS'', DEFAULT_WINDOW_MS), (''RATE_LIMIT_ADMIN_MAX'', 20))"
| "policy_env Policy_auth = ((''RATE_LIMIT_AUTH_WINDOW_MS'', DEFAULT_AUTH_WINDOW_MS), (''RATE_LIMIT_AUTH_MAX'', 10))"
| "policy_env Policy_sse = ((''RATE_LIMIT_WINDOW_MS'', DEFAULT_WINDOW_MS), (''RATE_LIMIT_SSE_MAX'', 20))"

definition getRateLimitPolicy :: "env \<Rightarrow> RateLimitPolicyName \<Rightarrow> RateLimitPolicy" where
  "getRateLimitPolicy env name =
     (case policy_env name of ((w, dw), (l, dl)) \<Rightarrow>
        \<lparr>rl_name = name, rl_windowMs = readPositiveInt env w dw, rl_limit = readPositiveInt env l dl\<rparr>)"

definition listRateLimitPolicies :: "env \<Rightarrow> RateLimitPolicy list" where
  "listRateLimitPolicies env = map (getRateLimitPolicy env) [Policy_global, Policy_read, Policy_write, Policy_admin, Policy_auth, Policy_sse]"

text \<open>The limiters a request passes, in order; paths are matched without regard to case.\<close>

definition mounted :: "string \<Rightarrow> string \<Rightarrow> bool" where
  "mounted path mount = (let p = to_lower path in p = mount \<or> starts_with p (mount @ ''/''))"

definition global_skip :: "string \<Rightarrow> string \<Rightarrow> bool" where
  "global_skip verb path = (path = ''/health'' \<and> verb = ''GET'')"

definition read_or_write :: "string \<Rightarrow> RateLimitPolicyName" where
  "read_or_write verb = (if verb = ''GET'' then Policy_read else Policy_write)"

definition limiters_of :: "string \<Rightarrow> string \<Rightarrow> RateLimitPolicyName list" where
  "limiters_of verb path =
     (if global_skip verb path then [] else [Policy_global]) @
     (if mounted path ''/health'' then [Policy_read] else []) @
     (if mounted path ''/splits/admin'' then [Policy_admin] else []) @
     (if mounted path ''/splits'' then [read_or_write verb] else []) @
     (if mounted path ''/users/register'' then [Policy_auth] else []) @
     (if mounted path ''/users/login'' then [Policy_auth] else []) @
     (if mounted path ''/auth'' then [Policy_auth] else []) @
     (if mounted path ''/users'' then [read_or_write verb] else []) @
     (if mounted path ''/transactions'' then [Policy_read] else []) @
     (if mounted path ''/notifications'' then [Policy_read] else []) @
     (if mounted path ''/api/ledger'' then [Policy_read] else []) @
     (if mounted path ''/events'' then [Policy_sse] else [])"

section \<open>Configuration\<close>

record BackendEnv =
  NODE_ENV :: string
  PORT :: string
  CORS_ORIGIN :: "string option"
  LOG_LEVEL :: string
  LOG_FORMAT :: string
  SENTRY_DSN :: "string option"
  SENTRY_SCRUB_WALLET_ADDRESSES :: string
  LOG_SCRUB_WALLET_ADDRESSES :: string
  PAYMENTS_ADMIN_API_KEY :: "string option"
  PAYMENTS_ADMIN_WRITE_ENABLED :: string
  STRICT_RESPONSE_VALIDATION :: string
  DATABASE_URL :: string
  HORIZON_URL :: string
  SOROBAN_RPC_URL :: string
  SOROBAN_RPC_BACKUP_URLS :: string
  SOROBAN_NETWORK_PASSPHRASE :: string
  CONTRACT_ID :: string
  SIMULATOR_ACCOUNT :: string

definition one_of :: "string list \<Rightarrow> string \<Rightarrow> bool" where
  "one_of xs s = List.member xs s"

text \<open>An optional variable with a default, and with a check on what it is set to.\<close>

definition checked :: "(string \<Rightarrow> bool) \<Rightarrow> string option \<Rightarrow> bool" where
  "checked ok v = (case v of None \<Rightarrow> True | Some s \<Rightarrow> ok s)"

definition required :: "(string \<Rightarrow> bool) \<Rightarrow> string option \<Rightarrow> bool" where
  "required ok v = (case v of None \<Rightarrow> False | Some s \<Rightarrow> ok s)"

definition port_text :: "string \<Rightarrow> bool" where
  "port_text s = (case whole_number (number_text s) of Some n \<Rightarrow> 1 \<le> n \<and> n \<le> 65535 | None \<Rightarrow> False)"

definition positive_whole :: "string \<Rightarrow> bool" where
  "positive_whole s = (case whole_number (number_text s) of Some n \<Rightarrow> 0 < n | None \<Rightarrow> False)"

definition contract_id_text :: "(string \<Rightarrow> bool) \<Rightarrow> string \<Rightarrow> bool" where
  "contract_id_text strkey_ok s = (s \<noteq> [] \<and> hd s = CHR ''C'' \<and> wallet_word s \<and> strkey_ok s)"

definition production_ok :: "env \<Rightarrow> bool" where
  "production_ok env =
     (required (\<lambda>s. trim s \<noteq> [] \<and> \<not> List.member (map trim (split_on CHR '','' s)) ''*'') (env ''CORS_ORIGIN'')
      \<and> required (\<lambda>s. trim s \<noteq> []) (env ''PAYMENTS_ADMIN_API_KEY''))"

definition backendEnvSchema :: "(string \<Rightarrow> bool) \<Rightarrow> (string \<Rightarrow> bool) \<Rightarrow> env \<Rightarrow> bool" where
  "backendEnvSchema url_ok strkey_ok env =
     (let boolean = one_of [''true'', ''false''] in
      checked (one_of [''development'', ''production'', ''test'']) (env ''NODE_ENV'')
      \<and> checked port_text (env ''PORT'') \<and> checked (one_of [''json'', ''pretty'']) (env ''LOG_FORMAT'')
      \<and> checked url_ok (env ''SENTRY_DSN'')
      \<and> list_all (\<lambda>k. checked boolean (env k)) [''SENTRY_SCRUB_WALLET_ADDRESSES'', ''LOG_SCRUB_WALLET_ADDRESSES'',
          ''PAYMENTS_ADMIN_WRITE_ENABLED'', ''STRICT_RESPONSE_VALIDATION'']
      \<and> list_all (\<lambda>k. required url_ok (env k)) [''DATABASE_URL'', ''HORIZON_URL'', ''SOROBAN_RPC_URL'']
      \<and> list_all (\<lambda>k. required (\<lambda>s. s \<noteq> []) (env k)) [''HORIZON_URL'', ''SOROBAN_RPC_URL'', ''SOROBAN_NETWORK_PASSPHRASE'', ''SIMULATOR_ACCOUNT'']
      \<and> required (contract_id_text strkey_ok) (env ''CONTRACT_ID'') \<and> checked (contract_id_text strkey_ok) (env ''MAINNET_CONTRACT_ID'')
      \<and> list_all (\<lambda>k. checked positive_whole (env k)) [''READ_CACHE_TTL_MS'', ''READ_CACHE_MAX_ENTRIES'', ''DATABASE_POOL_MAX'',
          ''DATABASE_POOL_IDLE_MS'', ''DATABASE_POOL_CONN_TIMEOUT_MS'']
      \<and> checked url_ok (env ''RENDER_BACKEND_DEPLOY_HOOK_URL'')
      \<and> (env ''NODE_ENV'' = Some ''production'' \<longrightarrow> production_ok env))"

definition parsed_env :: "env \<Rightarrow> BackendEnv" where
  "parsed_env env = (let read = (\<lambda>k d. default_to d (env k)) in
     \<lparr>NODE_ENV = read ''NODE_ENV'' ''development'', PORT = read ''PORT'' ''3001'', CORS_ORIGIN = env ''CORS_ORIGIN'',
      LOG_LEVEL = read ''LOG_LEVEL'' ''info'', LOG_FORMAT = read ''LOG_FORMAT'' ''pretty'', SENTRY_DSN = env ''SENTRY_DSN'',
      SENTRY_SCRUB_WALLET_ADDRESSES = read ''SENTRY_SCRUB_WALLET_ADDRESSES'' ''true'',
      LOG_SCRUB_WALLET_ADDRESSES = read ''LOG_SCRUB_WALLET_ADDRESSES'' (if env ''NODE_ENV'' = Some ''production'' then ''true'' else ''false''),
      PAYMENTS_ADMIN_API_KEY = env ''PAYMENTS_ADMIN_API_KEY'', PAYMENTS_ADMIN_WRITE_ENABLED = read ''PAYMENTS_ADMIN_WRITE_ENABLED'' ''true'',
      STRICT_RESPONSE_VALIDATION = read ''STRICT_RESPONSE_VALIDATION'' ''false'', DATABASE_URL = read ''DATABASE_URL'' [],
      HORIZON_URL = read ''HORIZON_URL'' [], SOROBAN_RPC_URL = read ''SOROBAN_RPC_URL'' [], SOROBAN_RPC_BACKUP_URLS = read ''SOROBAN_RPC_BACKUP_URLS'' [],
      SOROBAN_NETWORK_PASSPHRASE = read ''SOROBAN_NETWORK_PASSPHRASE'' [], CONTRACT_ID = read ''CONTRACT_ID'' [],
      SIMULATOR_ACCOUNT = read ''SIMULATOR_ACCOUNT'' []\<rparr>)"

text \<open>\<open>None\<close>: the start fails.\<close>

definition validateEnv :: "(string \<Rightarrow> bool) \<Rightarrow> (string \<Rightarrow> bool) \<Rightarrow> env \<Rightarrow> BackendEnv option" where
  "validateEnv url_ok strkey_ok env = (if backendEnvSchema url_ok strkey_ok env then Some (parsed_env env) else None)"

text \<open>The first successful reading is kept; a failed one is not.\<close>

definition getEnv :: "(string \<Rightarrow> bool) \<Rightarrow> (string \<Rightarrow> bool) \<Rightarrow> env \<Rightarrow> BackendEnv option \<Rightarrow> BackendEnv option \<times> BackendEnv option" where
  "getEnv url_ok strkey_ok env cachedEnv =
     (case cachedEnv of Some e \<Rightarrow> (cachedEnv, Some e)
      | None \<Rightarrow> let e = validateEnv url_ok strkey_ok env in (e, e))"

definition getEnvDiagnostics :: "(string \<Rightarrow> bool) \<Rightarrow> (string \<Rightarrow> bool) \<Rightarrow> env \<Rightarrow> bool" where
  "getEnvDiagnostics url_ok strkey_ok env = backendEnvSchema url_ok strkey_ok env"

definition DEFAULT_DEV_ORIGIN :: string where
  "DEFAULT_DEV_ORIGIN = ''http://localhost:3000''"

text \<open>\<open>Inl\<close>: it throws; \<open>Inr None\<close>: no origin is allowed (\<open>false\<close>).\<close>

definition resolveCorsOrigins :: "env \<Rightarrow> unit + string list option" where
  "resolveCorsOrigins env =
     (let configured = default_to [] (env ''CORS_ORIGIN'');
          origins = (if configured \<noteq> [] then filter (\<lambda>o'. o' \<noteq> []) (map trim (split_on CHR '','' configured)) else [DEFAULT_DEV_ORIGIN])
      in if env ''NODE_ENV'' = Some ''production'' \<and> List.member origins ''*'' then Inl ()
         else Inr (if origins \<noteq> [] then Some origins else None))"

section \<open>The payments administrator\<close>

definition hashIp :: "(string \<Rightarrow> string) \<Rightarrow> string option \<Rightarrow> string" where
  "hashIp sha256 ip = (case ip of None \<Rightarrow> ''unknown'' | Some i \<Rightarrow> if i = [] then ''unknown'' else take 16 (sha256 i))"

definition hasMatchingApiKey :: "string \<Rightarrow> string \<Rightarrow> bool" where
  "hasMatchingApiKey expected provided = (length expected = length provided \<and> list_all2 (=) expected provided)"

text \<open>A guard either passes the request on or answers.\<close>

datatype guard = Continue | Answer_with int string

definition requirePaymentsAdminAccess :: "BackendEnv \<Rightarrow> string option \<Rightarrow> guard" where
  "requirePaymentsAdminAccess E key_header =
     (let expectedKey = trim (default_to [] (PAYMENTS_ADMIN_API_KEY E));
          providedKey = trim (default_to [] key_header)
      in if expectedKey = [] then Continue
         else if providedKey = [] \<or> \<not> hasMatchingApiKey expectedKey providedKey then Answer_with 401 ''admin_auth_required''
         else Continue)"

definition enforcePaymentsAdminWriteEnabled :: "BackendEnv \<Rightarrow> string \<Rightarrow> guard" where
  "enforcePaymentsAdminWriteEnabled E verb =
     (if verb = ''GET'' \<or> verb = ''HEAD'' \<or> verb = ''OPTIONS'' then Continue
      else if PAYMENTS_ADMIN_WRITE_ENABLED E \<noteq> ''false'' then Continue
      else Answer_with 503 ''payments_admin_writes_disabled'')"

section \<open>The audit log\<close>

definition REDACTED_KEYS :: "string list" where
  "REDACTED_KEYS = [''apikey'', ''api_key'', ''secret'', ''token'', ''password'', ''privatekey'', ''private_key'', ''seed'', ''xdr'',
     ''signature'', ''sig'', ''secretkey'', ''secret_key'', ''mnemonic'']"

definition isRedactedKey :: "string \<Rightarrow> bool" where
  "isRedactedKey key = List.member REDACTED_KEYS (filter (\<lambda>c. c \<noteq> CHR ''-'' \<and> c \<noteq> CHR ''_'') (to_lower key))"

definition REDACTED :: native where
  "REDACTED = N_string ''[REDACTED]''"

definition redact_entries :: "(native \<Rightarrow> native) \<Rightarrow> (string \<times> native) list \<Rightarrow> (string \<times> native) list" where
  "redact_entries inner kvs = map (\<lambda>(k, v). (k, if isRedactedKey k then REDACTED else inner v)) kvs"

definition redact_nested :: "native \<Rightarrow> native" where
  "redact_nested v = (case v of N_object kvs \<Rightarrow> N_object (redact_entries id kvs) | _ \<Rightarrow> v)"

definition redactSensitivePayload :: "(string \<times> native) list \<Rightarrow> (string \<times> native) list" where
  "redactSensitivePayload payload = redact_entries redact_nested payload"

definition deriveEventName :: "string \<Rightarrow> string" where
  "deriveEventName path =
     (let segments = filter (\<lambda>s. s \<noteq> []) (split_on CHR ''/'' (dropWhile (\<lambda>c. c = CHR ''/'') path));
          resource = (if segments = [] then ''unknown'' else last segments)
      in to_lower (map (\<lambda>c. if c = CHR ''-'' then CHR ''_'' else c) resource))"

definition extractActor :: "string option \<Rightarrow> native \<Rightarrow> string option" where
  "extractActor user body =
     (if default_to [] user \<noteq> [] then user
      else case get_field body ''admin'' of N_string s \<Rightarrow> if s \<noteq> [] then Some s else None | _ \<Rightarrow> None)"

definition buildPayload :: "native \<Rightarrow> (string \<times> native) list option" where
  "buildPayload body =
     (if nullish body then None
      else Some (redactSensitivePayload (case body of N_object kvs \<Rightarrow> kvs | _ \<Rightarrow> [(''value'', body)])))"

datatype audit_outcome = Outcome_success | Outcome_failure | Outcome_blocked

record audit_row =
  al_action :: string
  al_ipHash :: string
  al_requestId :: string
  al_actor :: "string option"
  al_outcome :: audit_outcome
  al_payload :: "(string \<times> native) list option"

record http_request =
  hq_method :: string
  hq_path :: string
  hq_url :: string
  hq_ip :: "string option"
  hq_user :: "string option"
  hq_adminKey :: "string option"
  hq_body :: native

definition outcome_of :: "int \<Rightarrow> audit_outcome" where
  "outcome_of status = (if 200 \<le> status \<and> status < 300 then Outcome_success else if status = 503 then Outcome_blocked else Outcome_failure)"

definition buildFailureMetadata :: "http_request \<Rightarrow> string \<Rightarrow> int \<Rightarrow> (string \<times> native) list" where
  "buildFailureMetadata q requestId status = [(''action'', N_string (deriveEventName (hq_path q))), (''requestId'', N_string requestId),
     (''route'', N_string (hq_url q)), (''statusCode'', N_number (of_int status))]"

definition audit_entry :: "(string \<Rightarrow> string) \<Rightarrow> http_request \<Rightarrow> string \<Rightarrow> int \<Rightarrow> audit_row" where
  "audit_entry sha256 q requestId status =
     \<lparr>al_action = deriveEventName (hq_path q), al_ipHash = hashIp sha256 (hq_ip q), al_requestId = requestId,
      al_actor = extractActor (hq_user q) (hq_body q), al_outcome = outcome_of status,
      al_payload = (if outcome_of status = Outcome_success then buildPayload (hq_body q)
                    else Some (buildFailureMetadata q requestId status))\<rparr>"

definition MUTATION_METHODS :: "string list" where
  "MUTATION_METHODS = [''POST'', ''PUT'', ''PATCH'', ''DELETE'']"

text \<open>
  A handler that has not answered when the timer of the request fires (\<open>None\<close>) is answered for
  (\<open>middleware/timeout.ts\<close>); it goes on running.
\<close>

definition requestTimeout :: "int option \<Rightarrow> int" where
  "requestTimeout handler = (case handler of None \<Rightarrow> 504 | Some status \<Rightarrow> status)"

text \<open>
  The chain mounted on \<open>/splits/admin\<close>: the status of the answer and whether the handler was reached,
  where \<open>handler\<close> is the status it gives. \<open>admitted\<close>: the limiters before the chain let the request
  through, \<open>write_admitted\<close>: so does the limiter mounted on \<open>/splits\<close> after it. The audit row is written
  when the response emits \<open>finish\<close> (\<open>finished\<close>; a connection the client drops only emits \<open>close\<close>), and
  a row that cannot be saved (\<open>save_ok\<close>) is logged and dropped.
\<close>

definition admin_decision :: "BackendEnv \<Rightarrow> http_request \<Rightarrow> bool \<Rightarrow> int option \<Rightarrow> int \<times> bool" where
  "admin_decision E q write_admitted handler =
     (case requirePaymentsAdminAccess E (hq_adminKey q) of
        Answer_with s _ \<Rightarrow> (s, False)
      | Continue \<Rightarrow> (case enforcePaymentsAdminWriteEnabled E (hq_method q) of
          Answer_with s _ \<Rightarrow> (s, False)
        | Continue \<Rightarrow> if write_admitted then (requestTimeout handler, True) else (429, False)))"

definition admin_chain ::
  "(string \<Rightarrow> string) \<Rightarrow> bool \<Rightarrow> bool \<Rightarrow> bool \<Rightarrow> bool \<Rightarrow> BackendEnv \<Rightarrow> http_request \<Rightarrow> string \<Rightarrow> int option \<Rightarrow> audit_row list
     \<Rightarrow> audit_row list \<times> int \<times> bool" where
  "admin_chain sha256 admitted write_admitted finished save_ok E q requestId handler rows =
     (if \<not> admitted then (rows, 429, False)
      else let (status, reached) = admin_decision E q write_admitted handler
        in (if List.member MUTATION_METHODS (hq_method q) \<and> finished \<and> save_ok
            then rows @ [audit_entry sha256 q requestId status] else rows,
            status, reached))"

section \<open>Checks of responses\<close>

definition isStrictMode :: "env \<Rightarrow> bool" where
  "isStrictMode env =
     (if env ''STRICT_RESPONSE_VALIDATION'' = Some ''true'' then True
      else if env ''STRICT_RESPONSE_VALIDATION'' = Some ''false'' then False
      else env ''NODE_ENV'' = Some ''production'')"

text \<open>
  The wrapped \<open>res.json\<close>: from the status and the body the handler set to the count of mismatches and
  what is sent; \<open>Inl ()\<close> is the error envelope of a mismatch.
\<close>

definition withResponseValidation :: "('b \<Rightarrow> bool) \<Rightarrow> env \<Rightarrow> nat \<Rightarrow> int \<Rightarrow> 'b \<Rightarrow> nat \<times> int \<times> (unit + 'b)" where
  "withResponseValidation schema env failures status body =
     (if 400 \<le> status then (failures, status, Inr body)
      else if \<not> schema body
      then if isStrictMode env then (failures + 1, 500, Inl ()) else (failures + 1, status, Inr body)
      else (failures, status, Inr body))"

section \<open>Deprecations\<close>

record DeprecationPolicy =
  dp_key :: string
  dp_deprecatedAt :: js_date
  dp_sunset :: js_date
  dp_replacement :: string

datatype deprecation_error = Invalid_deprecation_date | Sunset_not_after | Unknown_deprecation_policy

definition API_DEPRECATIONS :: "(string, DeprecationPolicy) jmap" where
  "API_DEPRECATIONS = [(''health-alias'', \<lparr>dp_key = ''health-alias'', dp_deprecatedAt = Some 1767225600000,
     dp_sunset = Some 1798761600000, dp_replacement = ''/health/ready''\<rparr>)]"

definition toHttpDate :: "(instant \<Rightarrow> string) \<Rightarrow> js_date \<Rightarrow> deprecation_error + string" where
  "toHttpDate utc value = (case value of None \<Rightarrow> Inl Invalid_deprecation_date | Some t \<Rightarrow> Inr (utc t))"

definition buildDeprecationHeaders :: "(instant \<Rightarrow> string) \<Rightarrow> DeprecationPolicy \<Rightarrow> deprecation_error + (string, string) jmap" where
  "buildDeprecationHeaders utc policy =
     (case (toHttpDate utc (dp_deprecatedAt policy), toHttpDate utc (dp_sunset policy)) of
        (Inr deprecatedAt, Inr sunset) \<Rightarrow>
          if default_to 0 (dp_sunset policy) \<le> default_to 0 (dp_deprecatedAt policy) then Inl Sunset_not_after
          else Inr [(''Deprecation'', deprecatedAt), (''Sunset'', sunset), (''Link'', ''<'' @ dp_replacement policy @ ''>; rel=\"deprecation\"'')]
      | (Inl e, _) \<Rightarrow> Inl e
      | (_, Inl e) \<Rightarrow> Inl e)"

text \<open>Building the middleware from a key of the registry, and what it adds to the headers of a response.\<close>

definition deprecationHeaders :: "(instant \<Rightarrow> string) \<Rightarrow> string \<Rightarrow> deprecation_error + ((string, string) jmap \<Rightarrow> (string, string) jmap)" where
  "deprecationHeaders utc key =
     (case jm_get API_DEPRECATIONS key of
        None \<Rightarrow> Inl Unknown_deprecation_policy
      | Some policy \<Rightarrow> map_sum id (\<lambda>hs present. foldl (\<lambda>m (k, v). jm_set m k v) present hs) (buildDeprecationHeaders utc policy))"

section \<open>Ids and addresses in logs\<close>

lemma sanitized_id:
  "sanitizeInboundRequestId raw = Some r \<longleftrightarrow>
     (\<exists>s. raw = Some s \<and> r = trim s) \<and> r \<noteq> [] \<and> length r \<le> MAX_REQUEST_ID_LENGTH \<and> SAFE_REQUEST_ID r \<and> \<not> JWT_SHAPED r"
  by (auto simp: sanitizeInboundRequestId_def Let_def split: option.splits if_splits)

text \<open>
  Correlation ids are safe to log and to echo: the id of a request is the fresh one or the
  trimmed value of one of its two headers, and then it is a non-empty plain identifier of at most 64
  characters that does not have the shape of a bearer token. Passing it on keeps it: the next
  service that reads it takes the same id.
\<close>

theorem request_id_safe:
  "let r = requestIdMiddleware newId h1 h2 in
     r = newId \<or> (\<exists>s \<in> {h1, h2}. s \<noteq> None \<and> r = trim (the s)) \<and> r \<noteq> [] \<and> length r \<le> 64
       \<and> (\<forall>c \<in> set r. alnum c \<or> c \<in> {CHR ''.'', CHR ''_'', CHR '':'', CHR ''-''}) \<and> \<not> JWT_SHAPED r
       \<and> (\<forall>n h. requestIdMiddleware n (Some r) h = r)"
proof -
  let ?r = "requestIdMiddleware newId h1 h2"
  have "?r = newId \<or> (\<exists>s \<in> {h1, h2}. sanitizeInboundRequestId s = Some ?r)"
    by (cases "sanitizeInboundRequestId h1"; cases "sanitizeInboundRequestId h2") (auto simp: requestIdMiddleware_def default_to_def)
  then consider "?r = newId" | s where "s \<in> {h1, h2}" "sanitizeInboundRequestId s = Some ?r" by blast
  then show ?thesis
  proof cases
    case (2 s)
    then have p: "?r \<noteq> []" "length ?r \<le> 64" "SAFE_REQUEST_ID ?r" "\<not> JWT_SHAPED ?r" "s \<noteq> None" "?r = trim (the s)"
      unfolding sanitized_id by (auto simp: MAX_REQUEST_ID_LENGTH_def)
    then have "sanitizeInboundRequestId (Some ?r) = Some ?r"
      unfolding sanitized_id by (metis MAX_REQUEST_ID_LENGTH_def trim_idem)
    then have "\<forall>n h. requestIdMiddleware n (Some ?r) h = ?r" by (simp add: requestIdMiddleware_def default_to_def)
    moreover have "\<forall>c \<in> set ?r. alnum c \<or> c \<in> {CHR ''.'', CHR ''_'', CHR '':'', CHR ''-''}"
      using p(3) by (auto simp: SAFE_REQUEST_ID_def list_all_iff)
    ultimately show ?thesis using p 2(1) unfolding Let_def by blast
  qed (simp add: Let_def)
qed

theorem request_id_safe_witness:
  "requestIdMiddleware ''fresh'' (Some '' req-7 '') None = ''req-7'' \<and> requestIdMiddleware ''other'' (Some ''req-7'') None = ''req-7''
   \<and> \<not> JWT_SHAPED ''req-7''"
proof -
  have id: "requestIdMiddleware ''fresh'' (Some '' req-7 '') None = ''req-7''" by code_simp
  have "''req-7'' \<noteq> ''fresh''" by simp
  then show ?thesis using request_id_safe [of "''fresh''" "Some '' req-7 ''" None] unfolding id Let_def by blast
qed

text \<open>A wallet address in a text: a match between two word boundaries.\<close>

definition has_wallet :: "string \<Rightarrow> bool" where
  "has_wallet s = (\<exists>a w b. s = a @ w @ b \<and> wallet_word w \<and> (a = [] \<or> \<not> word_char (last a)) \<and> (b = [] \<or> \<not> word_char (hd b)))"

lemma wallet_word_chars: "wallet_word w \<Longrightarrow> w \<noteq> [] \<and> list_all word_char w"
proof -
  have up: "CHR ''A'' \<le> c \<Longrightarrow> c \<le> CHR ''Z'' \<Longrightarrow> word_char c" for c
    by (simp add: word_char_def alnum_def is_letter_def less_eq_char_def Let_def)
  have dg: "CHR ''2'' \<le> c \<Longrightarrow> c \<le> CHR ''7'' \<Longrightarrow> word_char c" for c
    by (simp add: word_char_def alnum_def is_digit_def less_eq_char_def Let_def)
  assume "wallet_word w"
  then show ?thesis using up dg by (auto simp: wallet_word_def list_all_iff split: list.splits) 
qed

lemma no_wallet_split:
  assumes "\<not> wallet_word (takeWhile word_char s)" "\<And>c cs. dropWhile word_char s = c # cs \<Longrightarrow> \<not> has_wallet cs"
  shows "\<not> has_wallet s"
proof
  assume "has_wallet s"
  then obtain a w b where s: "s = a @ w @ b" "wallet_word w" "a = [] \<or> \<not> word_char (last a)" "b = [] \<or> \<not> word_char (hd b)"
    by (auto simp: has_wallet_def)
  have w: "w \<noteq> []" "\<forall>c \<in> set w. word_char c" using wallet_word_chars [OF s(2)] by (auto simp: list_all_iff)
  show False
  proof (cases "list_all word_char a")
    case True
    then have "a = []" using s(3) by (metis last_in_set list_all_iff)
    moreover have "takeWhile word_char (w @ b) = w" using w(2) s(4) by (cases b) (simp_all add: takeWhile_append2)
    ultimately show False using assms(1) s(1,2) by simp
  next
    case False
    then obtain c where c: "dropWhile word_char a = c # tl (dropWhile word_char a)"
      by (metis dropWhile_eq_Nil_conv list.collapse list_all_iff)
    let ?a = "tl (dropWhile word_char a)"
    have d: "dropWhile word_char s = c # ?a @ w @ b" using c False unfolding s(1)
      by (metis append_Cons dropWhile_append list_all_iff)
    have "?a = [] \<or> last ?a = last a" using c by (metis dropWhile_eq_Nil_conv last_ConsR last_appendR list.distinct(1) takeWhile_dropWhile_id)
    with s have "has_wallet (?a @ w @ b)" unfolding has_wallet_def
      by (metis False list_all_iff append_Nil empty_iff list.set(1))
    with assms(2) [OF d] show False by simp
  qed
qed

lemma marker_words: "takeWhile word_char (''WALLET_REDACTED]'' @ t) = ''WALLET_REDACTED''"
    "dropWhile word_char (''WALLET_REDACTED]'' @ t) = CHR '']'' # t"
    "takeWhile word_char (''[WALLET_REDACTED]'' @ t) = []" "dropWhile word_char (''[WALLET_REDACTED]'' @ t) = CHR ''['' # ''WALLET_REDACTED]'' @ t"
  by (simp_all add: word_char_def alnum_def is_letter_def is_digit_def Let_def)

lemma scrub_no_wallet: "\<not> has_wallet (scrubWalletAddresses s)"
proof (induction s rule: scrubWalletAddresses.induct)
  case (1 s)
  let ?run = "takeWhile word_char s" and ?tail = "case dropWhile word_char s of [] \<Rightarrow> [] | c # cs \<Rightarrow> c # scrubWalletAddresses cs"
  have IH: "\<not> has_wallet x" if x: "?tail = c # x" for c x
    using "1.IH" [OF refl] x by (cases "dropWhile word_char s") auto
  have nw: "\<not> word_char c" if "?tail = c # x" for c x
    using that hd_dropWhile [of word_char s] by (cases "dropWhile word_char s") auto
  have tw: "takeWhile word_char ?tail = []" "dropWhile word_char ?tail = ?tail"
    using nw by (cases ?tail; simp)+
  have empty: "\<not> wallet_word []" by (simp add: wallet_word_def)
  have tail: "\<not> has_wallet ?tail"
  proof (rule no_wallet_split)
    show "\<not> wallet_word (takeWhile word_char ?tail)" unfolding tw(1) by (rule empty)
    show "\<not> has_wallet cs" if "dropWhile word_char ?tail = c # cs" for c cs using that IH unfolding tw(2) by blast
  qed
  show ?case
  proof (cases "wallet_word ?run")
    case True
    then have eq: "scrubWalletAddresses s = ''[WALLET_REDACTED]'' @ ?tail" by (subst scrubWalletAddresses.simps) (simp add: Let_def)
    have "\<not> has_wallet (''WALLET_REDACTED]'' @ ?tail)"
    proof (rule no_wallet_split)
      show "\<not> wallet_word (takeWhile word_char (''WALLET_REDACTED]'' @ ?tail))" unfolding marker_words(1) by (simp add: wallet_word_def)
      show "\<not> has_wallet cs" if "dropWhile word_char (''WALLET_REDACTED]'' @ ?tail) = c # cs" for c cs
        using that tail unfolding marker_words(2) by simp
    qed
    note inner = this
    show ?thesis unfolding eq
    proof (rule no_wallet_split)
      show "\<not> wallet_word (takeWhile word_char (''[WALLET_REDACTED]'' @ ?tail))" unfolding marker_words(3) by (rule empty)
      show "\<not> has_wallet cs" if "dropWhile word_char (''[WALLET_REDACTED]'' @ ?tail) = c # cs" for c cs
        using that inner unfolding marker_words(4) by blast
    qed
  next
    case False
    then have eq: "scrubWalletAddresses s = ?run @ ?tail" by (subst scrubWalletAddresses.simps) (simp add: Let_def)
    have run: "\<forall>x \<in> set ?run. word_char x" using set_takeWhileD by fast
    have "takeWhile word_char (?run @ ?tail) = ?run @ takeWhile word_char ?tail" using run by (intro takeWhile_append2) blast
    moreover have "dropWhile word_char (?run @ ?tail) = dropWhile word_char ?tail" using run by (intro dropWhile_append2) blast
    ultimately have "takeWhile word_char (?run @ ?tail) = ?run" "dropWhile word_char (?run @ ?tail) = ?tail"
      unfolding tw append_Nil2 by blast+
    note cut = this
    show ?thesis unfolding eq
    proof (rule no_wallet_split)
      show "\<not> wallet_word (takeWhile word_char (?run @ ?tail))" unfolding cut(1) by (rule False)
      show "\<not> has_wallet cs" if "dropWhile word_char (?run @ ?tail) = c # cs" for c cs using that IH unfolding cut(2) by blast
    qed
  qed
qed

section \<open>The administrator\<close>

lemma matching_key [simp]: "hasMatchingApiKey a b \<longleftrightarrow> a = b"
  by (auto simp: hasMatchingApiKey_def list_all2_conv_all_nth intro: nth_equalityI)

lemma access_granted:
  "requirePaymentsAdminAccess E h = Continue \<longleftrightarrow>
     trim (default_to [] (PAYMENTS_ADMIN_API_KEY E)) = [] \<or> trim (default_to [] h) = trim (default_to [] (PAYMENTS_ADMIN_API_KEY E))"
  by (auto simp: requirePaymentsAdminAccess_def Let_def)

lemma production_parts:
  assumes "validateEnv url_ok strkey_ok env = Some E" "env ''NODE_ENV'' = Some ''production''"
  shows "production_ok env" "E = parsed_env env"
  using assms by (auto simp: validateEnv_def backendEnvSchema_def Let_def split: if_splits)

text \<open>
  (C26) The administrator's surface in production. With a configuration the server starts with, a
  request under \<open>/splits/admin\<close> reaches its handler only when it carries the configured key and, for
  anything but a read, when writes are not switched off; its answer is then that of the handler or of
  the timer, and every other request is answered 429, 401 or 503. The audit log grows by one row for a
  mutation the first limiters admit, refused or not, whose response finishes and whose row can be
  saved: the row has its id, its actor and the outcome the status stands for. In every other case,
  a dropped connection and a failed save among them, it stays as it is.
\<close>

theorem admin_surface_guarded:
  assumes "validateEnv url_ok strkey_ok env = Some E" "env ''NODE_ENV'' = Some ''production''"
    and "admin_chain sha256 admitted write_admitted finished save_ok E q requestId handler rows = (rows', status, reached)"
  shows "(reached \<longrightarrow> admitted \<and> write_admitted
        \<and> (\<exists>k h. env ''PAYMENTS_ADMIN_API_KEY'' = Some k \<and> trim k \<noteq> [] \<and> hq_adminKey q = Some h \<and> trim h = trim k)
        \<and> (hq_method q \<notin> {''GET'', ''HEAD'', ''OPTIONS''} \<longrightarrow> env ''PAYMENTS_ADMIN_WRITE_ENABLED'' \<noteq> Some ''false'')
        \<and> status = (case handler of None \<Rightarrow> 504 | Some s \<Rightarrow> s))
    \<and> (\<not> reached \<longrightarrow> status \<in> {429, 401, 503})
    \<and> (if admitted \<and> List.member MUTATION_METHODS (hq_method q) \<and> finished \<and> save_ok
       then (\<exists>r. rows' = rows @ [r] \<and> al_requestId r = requestId \<and> al_actor r = extractActor (hq_user q) (hq_body q)
          \<and> al_action r = deriveEventName (hq_path q) \<and> al_outcome r = outcome_of status)
       else rows' = rows)"
proof -
  note prod = production_parts [OF assms(1,2)]
  from prod(1) obtain k where k: "env ''PAYMENTS_ADMIN_API_KEY'' = Some k" "trim k \<noteq> []"
    by (auto simp: production_ok_def required_def split: option.splits)
  have key: "PAYMENTS_ADMIN_API_KEY E = Some k" "PAYMENTS_ADMIN_WRITE_ENABLED E = default_to ''true'' (env ''PAYMENTS_ADMIN_WRITE_ENABLED'')"
    using prod(2) k by (simp_all add: parsed_env_def Let_def)
  have acc: "requirePaymentsAdminAccess E h = Continue \<longleftrightarrow> (\<exists>x. h = Some x \<and> trim x = trim k)" for h
    unfolding access_granted key(1) using k(2) by (cases h) (auto simp: default_to_def)
  have ans: "requirePaymentsAdminAccess E h \<noteq> Continue \<Longrightarrow> requirePaymentsAdminAccess E h = Answer_with 401 ''admin_auth_required''" for h
    by (auto simp: requirePaymentsAdminAccess_def Let_def)
  let ?open = "write_admitted \<and> (\<exists>x. hq_adminKey q = Some x \<and> trim x = trim k)
      \<and> (hq_method q \<notin> {''GET'', ''HEAD'', ''OPTIONS''} \<longrightarrow> env ''PAYMENTS_ADMIN_WRITE_ENABLED'' \<noteq> Some ''false'')"
  have dec: "admin_decision E q write_admitted handler \<in> {(401, False), (503, False), (429, False)}
      \<or> (admin_decision E q write_admitted handler = (requestTimeout handler, True) \<and> ?open)"
  proof (cases "requirePaymentsAdminAccess E (hq_adminKey q) = Continue")
    case True
    with acc obtain x where x: "hq_adminKey q = Some x" "trim x = trim k" by blast
    show ?thesis unfolding admin_decision_def True guard.case using x key(2)
      by (simp add: enforcePaymentsAdminWriteEnabled_def default_to_def) (auto split: option.splits)
  next
    case False
    then show ?thesis unfolding admin_decision_def ans [OF False] by simp
  qed
  have chain: "admitted \<Longrightarrow> (status, reached) = admin_decision E q write_admitted handler
      \<and> rows' = (if List.member MUTATION_METHODS (hq_method q) \<and> finished \<and> save_ok then rows @ [audit_entry sha256 q requestId status] else rows)"
    "\<not> admitted \<Longrightarrow> status = 429 \<and> \<not> reached \<and> rows' = rows"
    using assms(3) by (auto simp: admin_chain_def split: prod.splits)
  have entry: "al_requestId (audit_entry sha256 q requestId status) = requestId" "al_outcome (audit_entry sha256 q requestId status) = outcome_of status"
    "al_actor (audit_entry sha256 q requestId status) = extractActor (hq_user q) (hq_body q)"
    "al_action (audit_entry sha256 q requestId status) = deriveEventName (hq_path q)" by (simp_all add: audit_entry_def)
  show ?thesis
  proof (cases admitted)
    case True
    note c = chain(1) [OF True]
    from dec show ?thesis
    proof
      assume "admin_decision E q write_admitted handler \<in> {(401, False), (503, False), (429, False)}"
      with c have "\<not> reached" "status \<in> {429, 401, 503}" by auto
      with c entry True show ?thesis by simp
    next
      assume d: "admin_decision E q write_admitted handler = (requestTimeout handler, True) \<and> ?open"
      from c have "(status, reached) = admin_decision E q write_admitted handler" by (rule conjunct1)
      from this [unfolded conjunct1 [OF d]] have "reached" "status = requestTimeout handler" by simp_all
      with c entry d k True show ?thesis unfolding requestTimeout_def by simp
    qed
  next
    case False
    with chain(2) show ?thesis by simp
  qed
qed

definition example_env :: env where
  "example_env k =
     (if k = ''NODE_ENV'' then Some ''production''
      else if k = ''CORS_ORIGIN'' then Some ''https://app.splitnaira.com''
      else if k = ''PAYMENTS_ADMIN_API_KEY'' then Some ''k3y''
      else if k = ''CONTRACT_ID'' then Some (replicate 56 CHR ''C'')
      else if List.member [''DATABASE_URL'', ''HORIZON_URL'', ''SOROBAN_RPC_URL'', ''SOROBAN_NETWORK_PASSPHRASE'', ''SIMULATOR_ACCOUNT''] k then Some ''x''
      else None)"

definition example_admin_request :: "string option \<Rightarrow> http_request" where
  "example_admin_request key = \<lparr>hq_method = ''POST'', hq_path = ''/allow-token'', hq_url = ''/splits/admin/allow-token'', hq_ip = None, hq_user = None,
     hq_adminKey = key, hq_body = N_object [(''admin'', N_string ''GADM''), (''token'', N_string ''CTOK'')]\<rparr>"

theorem admin_surface_guarded_witness:
  "\<exists>r. fst (admin_chain (\<lambda>s. s) True True True True (parsed_env example_env) (example_admin_request (Some ''bad'')) ''id'' (Some 200) []) = [r]
     \<and> al_outcome r = Outcome_failure \<and> al_actor r = Some ''GADM''"
proof -
  let ?run = "admin_chain (\<lambda>s. s) True True True True (parsed_env example_env) (example_admin_request (Some ''bad'')) ''id'' (Some 200) []"
  have env: "validateEnv (\<lambda>_. True) (\<lambda>_. True) example_env = Some (parsed_env example_env)"
  proof -
    have "backendEnvSchema (\<lambda>_. True) (\<lambda>_. True) example_env" by code_simp
    then show ?thesis by (simp add: validateEnv_def)
  qed
  have prod: "example_env ''NODE_ENV'' = Some ''production''" by (simp add: example_env_def)
  have st: "fst (snd ?run) = 401" by code_simp
  have run: "?run = (fst ?run, fst (snd ?run), snd (snd ?run))" by simp
  have m: "List.member MUTATION_METHODS (hq_method (example_admin_request (Some ''bad'')))" by code_simp
  have a: "extractActor (hq_user (example_admin_request (Some ''bad''))) (hq_body (example_admin_request (Some ''bad''))) = Some ''GADM''" by code_simp
  from admin_surface_guarded [OF env prod run] m obtain r where "fst ?run = [] @ [r]" "al_actor r = Some ''GADM''" "al_outcome r = outcome_of (fst (snd ?run))"
    unfolding a by (auto simp only: simp_thms if_True)
  then show ?thesis unfolding st by (simp add: outcome_of_def)
qed

text \<open>
  A mutation whose client hangs up before the answer is carried out and leaves no row; one that outlasts
  the timer is recorded as a failure, whatever its handler does afterwards.
\<close>

lemma aborted_mutation_unaudited:
  "admin_chain (\<lambda>s. s) True True False True (parsed_env example_env) (example_admin_request (Some ''k3y'')) ''id'' (Some 200) [] = ([], 200, True)"
  by code_simp

lemma slow_mutation_recorded_failed:
  "let (rows, status, reached) = admin_chain (\<lambda>s. s) True True True True (parsed_env example_env) (example_admin_request (Some ''k3y'')) ''id'' None []
   in reached \<and> status = 504 \<and> map al_outcome rows = [Outcome_failure]"
  by code_simp

section \<open>What the audit log holds\<close>

lemma redacted_entry: "(k, v) \<in> set (redact_entries f kvs) \<Longrightarrow> isRedactedKey k \<Longrightarrow> v = REDACTED"
  by (auto simp: redact_entries_def split: if_splits)

text \<open>Sensitive keys are redacted in the payload and in the objects directly inside it.\<close>

lemma audit_payload_redacted:
  assumes "al_payload (audit_entry sha256 q i status) = Some p" "(k, v) \<in> set p"
  shows "(isRedactedKey k \<longrightarrow> v = REDACTED) \<and> (\<forall>kvs k' v'. v = N_object kvs \<and> (k', v') \<in> set kvs \<and> isRedactedKey k' \<longrightarrow> v' = REDACTED)"
proof (cases "outcome_of status = Outcome_success")
  case True
  with assms(1) have "\<exists>kvs. p = redactSensitivePayload kvs" by (auto simp: audit_entry_def buildPayload_def split: if_splits)
  with assms(2) show ?thesis
    by (auto simp: redactSensitivePayload_def redact_entries_def redact_nested_def REDACTED_def split: if_splits native.splits)
next
  case False
  with assms have "k \<in> {''action'', ''requestId'', ''route'', ''statusCode''}" "\<forall>kvs. v \<noteq> N_object kvs"
    by (auto simp: audit_entry_def buildFailureMetadata_def)
  moreover have "list_all (\<lambda>k. \<not> isRedactedKey k) [''action'', ''requestId'', ''route'', ''statusCode'']" by code_simp
  ultimately show ?thesis by (auto simp: list_all_iff)
qed

text \<open>Deeper objects and arrays are stored as they are.\<close>

lemma deep_secret_logged:
  "buildPayload (N_object [(''a'', N_object [(''b'', N_object [(''password'', N_string ''pw'')])]), (''xs'', N_array [N_object [(''secret'', N_string ''s'')]])])
     = Some [(''a'', N_object [(''b'', N_object [(''password'', N_string ''pw'')])]), (''xs'', N_array [N_object [(''secret'', N_string ''s'')]])]"
  by code_simp

text \<open>The token an administrator allows is the target of the action, and its key is on the list.\<close>

lemma audit_loses_target:
  "al_payload (audit_entry (\<lambda>s. s) (example_admin_request (Some ''k3y'')) ''id'' 200) = Some [(''admin'', N_string ''GADM''), (''token'', REDACTED)]"
  by code_simp

section \<open>Configuration\<close>

text \<open>A production configuration the server starts with never opens it to every origin.\<close>

lemma production_origins:
  assumes "validateEnv url_ok strkey_ok env = Some E" "env ''NODE_ENV'' = Some ''production''"
  shows "\<exists>os. resolveCorsOrigins env = Inr os \<and> (\<forall>l. os = Some l \<longrightarrow> ''*'' \<notin> set l \<and> DEFAULT_DEV_ORIGIN \<notin> set l - set (map trim (split_on CHR '','' (the (env ''CORS_ORIGIN'')))))"
proof -
  from production_parts(1) [OF assms] obtain s where s: "env ''CORS_ORIGIN'' = Some s" "trim s \<noteq> []" "''*'' \<notin> set (map trim (split_on CHR '','' s))"
    by (auto simp: production_ok_def required_def split: option.splits)
  from s(2) have "s \<noteq> []" by auto
  with s show ?thesis by (auto simp: resolveCorsOrigins_def Let_def default_to_def)
qed

text \<open>A limit is positive unless it is configured to a fraction below one, which rounds down to zero.\<close>

lemma limit_positive:
  assumes "0 < fallback" "\<forall>raw q. env name = Some raw \<and> number_text raw = Some q \<longrightarrow> \<not> (0 < q \<and> q < 1)"
  shows "0 < readPositiveInt env name fallback"
  using assms by (auto simp: readPositiveInt_def not_less split: option.splits)

text \<open>Only the global limiter is in front of the collaboration and operations routes.\<close>

lemma unlimited_groups:
  "limiters_of ''POST'' ''/collaboration/projects/p/delete'' = [Policy_global]" "limiters_of ''POST'' ''/ops/backfill'' = [Policy_global]"
  "limiters_of ''POST'' ''/splits/admin/allow-token'' = [Policy_global, Policy_admin, Policy_write]"
  "limiters_of ''POST'' ''/users/login'' = [Policy_global, Policy_auth, Policy_write]"
  by code_simp+

section \<open>Responses\<close>

text \<open>In strict mode what is sent with a success status fits its schema, and the count tells the mismatches.\<close>

lemma strict_responses:
  assumes "isStrictMode env" "withResponseValidation schema env n status body = (n', status', sent)"
  shows "(status' < 400 \<longrightarrow> sent = Inr body \<and> schema body) \<and> (n' = (if status < 400 \<and> \<not> schema body then n + 1 else n))"
  using assms by (auto simp: withResponseValidation_def split: if_splits)

lemma registered_deprecations:
  "list_all (\<lambda>(key, p). dp_key p = key \<and> (\<exists>hs. buildDeprecationHeaders utc p = Inr hs)) API_DEPRECATIONS"
  by (simp add: API_DEPRECATIONS_def buildDeprecationHeaders_def toHttpDate_def default_to_def)

lemma half_text: "number_text ''0.5'' = Some (1 / 2)"
proof -
  have "decimal_text ''0.5'' = Some (1 / 2)" by code_simp
  moreover have "trim ''0.5'' = ''0.5''" "\<not> is_prefixed ''0.5''" by code_simp+
  moreover have "\<bar>1 / 2 :: rat\<bar> < 2 ^ 1024 - 2 ^ 970" by simp
  ultimately show ?thesis by (simp add: number_text_def numeral_text_def starts_with_def)
qed

lemma fraction_closes_route: "readPositiveInt (\<lambda>_. Some ''0.5'') ''RATE_LIMIT_AUTH_MAX'' 10 = 0"
  by (simp add: readPositiveInt_def half_text floor_eq_iff)
end
