(* ===== verification/Health_Probes.thy ===== *)
theory Health_Probes
  imports Http_Guards Event_Listener
begin

text \<open>
  The readiness of the service (\<open>backend/src/routes/health.ts\<close>) with the probe of the RPC node and the
  contract it runs (\<open>checkSorobanReachability\<close> of \<open>services/stellar.ts\<close>).

  A probe is how long it takes and how it settles; the clock is read before and after it, so the
  duration is the latency reported. A probe that takes as long as its time limit counts as timed
  out. The text of a number in a message is a parameter.
\<close>

section \<open>Probes\<close>

record 'a probe =
  pr_duration :: rat
  pr_result :: "string + 'a"

definition readPositiveIntEnv :: "env \<Rightarrow> string \<Rightarrow> rat \<Rightarrow> rat" where
  "readPositiveIntEnv env envVar fallback =
     (case env envVar of
        None \<Rightarrow> fallback
      | Some raw \<Rightarrow> if raw = [] then fallback
          else case number_text raw of Some q \<Rightarrow> if 0 < q then q else fallback | None \<Rightarrow> fallback)"

definition timed_out :: string where
  "timed_out = ''timed out after''"

definition withTimeout :: "(rat \<Rightarrow> string) \<Rightarrow> 'a probe \<Rightarrow> rat \<Rightarrow> string \<Rightarrow> string + 'a" where
  "withTimeout num_text p ms label =
     (if pr_duration p < ms then pr_result p else Inl (label @ '' '' @ timed_out @ '' '' @ num_text ms @ ''ms''))"

record reachability =
  re_ok :: bool
  re_latencyMs :: "rat option"
  re_message :: "string option"

record SorobanReachabilityStatus =
  so_rpc :: reachability
  so_contract :: reachability

text \<open>\<open>account\<close>: the lookup of the simulator account; \<open>simulation\<close>: the call of \<open>project_exists\<close>.\<close>

definition checkSorobanReachability :: "unit probe \<Rightarrow> sim_response probe \<Rightarrow> SorobanReachabilityStatus" where
  "checkSorobanReachability account simulation =
     (case pr_result account of
        Inl message \<Rightarrow> \<lparr>so_rpc = \<lparr>re_ok = False, re_latencyMs = Some (pr_duration account), re_message = Some message\<rparr>,
          so_contract = \<lparr>re_ok = False, re_latencyMs = None, re_message = Some ''Skipped because Soroban RPC is unreachable''\<rparr>\<rparr>
      | Inr _ \<Rightarrow>
        let rpc = \<lparr>re_ok = True, re_latencyMs = Some (pr_duration account), re_message = None\<rparr>
        in case pr_result simulation of
             Inl message \<Rightarrow> \<lparr>so_rpc = rpc,
               so_contract = \<lparr>re_ok = False, re_latencyMs = Some (pr_duration simulation), re_message = Some message\<rparr>\<rparr>
           | Inr _ \<Rightarrow> \<lparr>so_rpc = rpc, so_contract = \<lparr>re_ok = True, re_latencyMs = Some (pr_duration simulation), re_message = None\<rparr>\<rparr>)"

section \<open>Redaction\<close>

definition MASK :: string where
  "MASK = ''[REDACTED]''"

text \<open>\<open>text.split(secret).join("[REDACTED]")\<close> for a secret that is not empty.\<close>

function replace_all :: "string \<Rightarrow> string \<Rightarrow> string" where
  "replace_all secret [] = []"
| "replace_all secret (c # s) =
     (if secret \<noteq> [] \<and> starts_with (c # s) secret then MASK @ replace_all secret (drop (length secret) (c # s))
      else c # replace_all secret s)"
  by pat_completeness auto
termination by (relation "measure (length \<circ> snd)") auto

definition scheme_char :: "char \<Rightarrow> bool" where
  "scheme_char c = (alnum c \<or> c = CHR ''+'' \<or> c = CHR ''.'' \<or> c = CHR ''-'')"

definition user_char :: "char \<Rightarrow> bool" where
  "user_char c = (c \<noteq> CHR ''@'' \<and> \<not> is_js_space c \<and> c \<noteq> CHR ''/'')"

text \<open>A match of the credential pattern at the start of a text: its first group and what follows the \<open>@\<close>.\<close>

definition credential_match :: "string \<Rightarrow> (string \<times> string) option" where
  "credential_match s =
     (case s of
        [] \<Rightarrow> None
      | c # cs \<Rightarrow>
        let scheme = takeWhile scheme_char cs; rest = dropWhile scheme_char cs;
            user = takeWhile user_char (drop 3 rest); after = dropWhile user_char (drop 3 rest)
        in if is_letter c \<and> starts_with rest ''://'' \<and> user \<noteq> [] \<and> starts_with after ''@''
           then Some (c # scheme @ ''://'', tl after) else None)"

lemma credential_match_split:
  assumes "credential_match s = Some (pre, rest)"
  shows "\<exists>user. user \<noteq> [] \<and> pre \<noteq> [] \<and> s = pre @ user @ CHR ''@'' # rest"
proof -
  from assms obtain c cs where s: "s = c # cs" by (cases s) (auto simp: credential_match_def)
  let ?rest = "dropWhile scheme_char cs"
  let ?user = "takeWhile user_char (drop 3 ?rest)" and ?after = "dropWhile user_char (drop 3 ?rest)"
  have m: "starts_with ?rest ''://''" "?user \<noteq> []" "starts_with ?after ''@''" "pre = c # takeWhile scheme_char cs @ ''://''" "rest = tl ?after"
    using assms by (auto simp: s credential_match_def Let_def split: if_splits)
  have "take 3 ?rest = ''://''" using m(1) by (simp add: starts_with_def numeral_3_eq_3)
  then have "?rest = ''://'' @ drop 3 ?rest" using append_take_drop_id [of 3 ?rest] by simp
  moreover have "?after = CHR ''@'' # rest" using m(3,5) by (cases ?after) (simp_all add: starts_with_def)
  ultimately have "cs = takeWhile scheme_char cs @ ''://'' @ ?user @ CHR ''@'' # rest"
    by (metis takeWhile_dropWhile_id)
  then show ?thesis using m(2,4) s by (intro exI [of _ ?user]) simp
qed

lemma credential_match_shorter: "credential_match s = Some (pre, rest) \<Longrightarrow> length rest < length s"
  using credential_match_split [of s pre rest] by auto

function redact_credentials :: "string \<Rightarrow> string" where
  "redact_credentials [] = []"
| "redact_credentials (c # s) =
     (case credential_match (c # s) of
        Some (pre, rest) \<Rightarrow> pre @ MASK @ ''@'' @ redact_credentials rest
      | None \<Rightarrow> c # redact_credentials s)"
  by pat_completeness auto
termination by (relation "measure length") (auto dest: credential_match_shorter)

definition literal_secrets :: "env \<Rightarrow> string list" where
  "literal_secrets env = filter (\<lambda>s. s \<noteq> []) (map (\<lambda>k. default_to [] (env k))
     [''DATABASE_URL'', ''SOROBAN_RPC_URL'', ''HORIZON_URL'', ''PAYMENTS_ADMIN_API_KEY''])"

definition redactSecrets :: "env \<Rightarrow> string \<Rightarrow> string" where
  "redactSecrets env message = redact_credentials (foldl (\<lambda>text secret. replace_all secret text) message (literal_secrets env))"

section \<open>Readiness\<close>

datatype ComponentStatus = C_up | C_degraded | C_down | C_unknown

record ComponentHealth =
  ch_status :: ComponentStatus
  ch_latencyMs :: "rat option"
  ch_message :: string

record health_components =
  hc_env :: bool
  hc_db :: ComponentHealth
  hc_rpc :: ComponentHealth
  hc_contract :: ComponentHealth

definition NOT_CHECKED :: ComponentHealth where
  "NOT_CHECKED = \<lparr>ch_status = C_unknown, ch_latencyMs = None, ch_message = ''not_checked: no probe ran on this request''\<rparr>"

definition initial_components :: health_components where
  "initial_components = \<lparr>hc_env = True, hc_db = NOT_CHECKED, hc_rpc = NOT_CHECKED, hc_contract = NOT_CHECKED\<rparr>"

text \<open>The two flags of the process.\<close>

record lifecycle =
  lc_startupComplete :: bool
  lc_shuttingDown :: bool

definition markStartupComplete :: "lifecycle \<Rightarrow> lifecycle" where
  "markStartupComplete l = l\<lparr>lc_startupComplete := True\<rparr>"

definition markShuttingDown :: "lifecycle \<Rightarrow> lifecycle" where
  "markShuttingDown l = l\<lparr>lc_shuttingDown := True\<rparr>"

datatype health_status = H_ready | H_degraded | H_not_ready string

record health_answer =
  ha_code :: int
  ha_status :: health_status
  ha_components :: health_components

definition not_ready :: "string \<Rightarrow> health_components \<Rightarrow> health_answer" where
  "not_ready err components = \<lparr>ha_code = 503, ha_status = H_not_ready err, ha_components = components\<rparr>"

text \<open>The database: unreachable with a message, or a query whose rows are an array or not.\<close>

datatype db_state = Db_unavailable string | Db_query "bool probe"

definition is_timeout :: "string \<Rightarrow> bool" where
  "is_timeout message = includes_str message timed_out"

definition probed :: "(string \<Rightarrow> string) \<Rightarrow> rat \<Rightarrow> string \<Rightarrow> string \<Rightarrow> reachability \<Rightarrow> ComponentHealth" where
  "probed redact threshold ok_text down_text r =
     (if re_ok r
      then \<lparr>ch_status = (if threshold < default_to 0 (re_latencyMs r) then C_degraded else C_up), ch_latencyMs = re_latencyMs r,
            ch_message = redact (default_to ok_text (re_message r))\<rparr>
      else \<lparr>ch_status = C_down, ch_latencyMs = re_latencyMs r, ch_message = redact (default_to down_text (re_message r))\<rparr>)"

definition check_db :: "(rat \<Rightarrow> string) \<Rightarrow> env \<Rightarrow> db_state \<Rightarrow> ComponentHealth" where
  "check_db num_text env db =
     (case db of
        Db_unavailable message \<Rightarrow> \<lparr>ch_status = C_down, ch_latencyMs = None, ch_message = redactSecrets env message\<rparr>
      | Db_query p \<Rightarrow>
        (case withTimeout num_text p (readPositiveIntEnv env ''HEALTH_DB_CHECK_TIMEOUT_MS'' 2000) ''Database health check'' of
           Inl message \<Rightarrow> \<lparr>ch_status = C_down, ch_latencyMs = None,
             ch_message = redactSecrets env ((if is_timeout message then ''timeout: '' else ''query_failed: '') @ message)\<rparr>
         | Inr is_array \<Rightarrow>
           \<lparr>ch_status = (if readPositiveIntEnv env ''HEALTH_DB_DEGRADED_LATENCY_MS'' 500 < pr_duration p then C_degraded else C_up),
            ch_latencyMs = Some (pr_duration p), ch_message = (if is_array then ''query_ok'' else ''query_ok_unexpected_shape'')\<rparr>))"

definition handleReadiness ::
  "(rat \<Rightarrow> string) \<Rightarrow> env \<Rightarrow> bool \<Rightarrow> lifecycle \<Rightarrow> db_state \<Rightarrow> SorobanReachabilityStatus probe \<Rightarrow> EventListener \<Rightarrow> health_answer" where
  "handleReadiness num_text env env_ok life db soroban listener =
     (let c0 = initial_components; threshold = readPositiveIntEnv env ''HEALTH_RPC_DEGRADED_LATENCY_MS'' 1500 in
      if lc_shuttingDown life then not_ready ''shutting_down'' c0
      else if \<not> lc_startupComplete life then not_ready ''starting'' c0
      else if \<not> env_ok then not_ready ''missing_config'' (c0\<lparr>hc_env := False\<rparr>)
      else let c1 = c0\<lparr>hc_db := check_db num_text env db\<rparr> in
        if ch_status (hc_db c1) = C_down then not_ready ''database_unavailable'' c1
        else case withTimeout num_text soroban (readPositiveIntEnv env ''HEALTH_RPC_CHECK_TIMEOUT_MS'' 5000) ''Soroban RPC health check'' of
            Inl message \<Rightarrow> not_ready ''rpc_unavailable''
              (c1\<lparr>hc_rpc := \<lparr>ch_status = C_down, ch_latencyMs = None,
                     ch_message = redactSecrets env ((if is_timeout message then ''timeout: '' else ''rpc_check_failed: '') @ message)\<rparr>,
                  hc_contract := \<lparr>ch_status = C_unknown, ch_latencyMs = None,
                     ch_message = ''not_checked: the Soroban RPC check failed, so the contract simulation was skipped''\<rparr>\<rparr>)
          | Inr s \<Rightarrow>
            let c2 = c1\<lparr>hc_rpc := probed (redactSecrets env) threshold ''reachable'' ''unreachable'' (so_rpc s),
                        hc_contract := probed (redactSecrets env) threshold ''simulation_ok'' ''simulation_failed'' (so_contract s)\<rparr>
            in if \<not> re_ok (so_rpc s) \<or> \<not> re_ok (so_contract s)
               then not_ready (if \<not> re_ok (so_rpc s) then ''rpc_unavailable'' else ''contract_unreachable'') c2
               else \<lparr>ha_code = 200,
                     ha_status = (if C_degraded \<in> {ch_status (hc_db c2), ch_status (hc_rpc c2), ch_status (hc_contract c2)}
                                     \<or> fst (getServiceHealth listener) = S_degraded then H_degraded else H_ready),
                     ha_components = c2\<rparr>)"

text \<open>\<open>GET /health/startup\<close>.\<close>

definition startup_code :: "lifecycle \<Rightarrow> int" where
  "startup_code life = (if lc_startupComplete life then 200 else 503)"

section \<open>No secret in a message\<close>

definition occurs :: "string \<Rightarrow> string \<Rightarrow> bool" where
  "occurs p s = (\<exists>a b. s = a @ p @ b)"

text \<open>A text with some of its parts masked.\<close>

inductive masks :: "string \<Rightarrow> string \<Rightarrow> bool" where
  masks_Nil: "masks [] []"
| masks_keep: "masks s t \<Longrightarrow> masks (c # s) (c # t)"
| masks_hide: "masks s t \<Longrightarrow> masks (x @ s) (MASK @ t)"

lemma masks_prepend: "masks s t \<Longrightarrow> masks (x @ s) (x @ t)"
  by (induction x) (auto intro: masks_keep)

lemma masks_refl: "masks s s"
  by (induction s) (auto intro: masks.intros)

text \<open>Secrets the mask cannot be confused with.\<close>

definition plain_secret :: "string \<Rightarrow> bool" where
  "plain_secret p = (p \<noteq> [] \<and> CHR ''['' \<notin> set p \<and> CHR '']'' \<notin> set p \<and> \<not> occurs p ''REDACTED'')"

lemma masks_prefix: "masks s t \<Longrightarrow> t = q @ b \<Longrightarrow> CHR ''['' \<notin> set q \<Longrightarrow> \<exists>b'. s = q @ b'"
proof (induction arbitrary: q rule: masks.induct)
  case (masks_keep s t c)
  then show ?case by (cases q) auto
next
  case (masks_hide s t x)
  then show ?case by (cases q) (auto simp: MASK_def)
qed simp

lemma occurs_after_mask:
  assumes "plain_secret p" "occurs p (MASK @ t)"
  shows "occurs p t"
proof -
  from assms(2) obtain a b where ab: "MASK @ t = a @ p @ b" by (auto simp: occurs_def)
  show ?thesis
  proof (cases "length MASK \<le> length a")
    case True
    then have "t = drop (length MASK) a @ p @ b" using arg_cong [OF ab, of "drop (length MASK)"] by simp
    then show ?thesis by (auto simp: occurs_def)
  next
    case False
    have at: "p ! i = MASK ! (length a + i)" if "i < length p" "length a + i < length MASK" for i
      using arg_cong [OF ab, of "\<lambda>l. l ! (length a + i)"] that by (simp add: nth_append)
    have p0: "p \<noteq> []" using assms(1) by (simp add: plain_secret_def)
    have len: "length MASK = 10" by (simp add: MASK_def)
    have "p ! 0 \<in> set p" using p0 by simp
    moreover have "p ! 0 = CHR ''[''" if "length a = 0" using at [of 0] p0 that by (simp add: MASK_def)
    ultimately have "length a \<noteq> 0" using assms(1) by (metis plain_secret_def)
    show ?thesis
    proof (cases "length a + length p \<le> 9")
      case True
      have "p = take (length p) (drop (length a - 1) ''REDACTED'')"
      proof (rule nth_equalityI)
        show "length p = length (take (length p) (drop (length a - 1) ''REDACTED''))" using True \<open>length a \<noteq> 0\<close> by (cases "length a") (simp_all add: min_absorb2)
        show "p ! i = take (length p) (drop (length a - 1) ''REDACTED'') ! i" if "i < length p" for i
        proof -
          have "MASK ! Suc k = ''REDACTED'' ! k" if "k < 8" for k
          proof -
            have "MASK ! Suc k = (''REDACTED'' @ '']'') ! k" by (simp add: MASK_def)
            also have "\<dots> = ''REDACTED'' ! k" using that by (simp only: nth_append) simp
            finally show ?thesis .
          qed
          moreover obtain m where "length a = Suc m" using \<open>length a \<noteq> 0\<close> by (cases "length a") auto
          ultimately show ?thesis using at [OF that] True that len by simp
        qed
      qed
      then have "''REDACTED'' = take (length a - 1) ''REDACTED'' @ p @ drop (length p) (drop (length a - 1) ''REDACTED'')"
        by (metis append_take_drop_id)
      then have "occurs p ''REDACTED''" unfolding occurs_def by blast
      then show ?thesis using assms(1) by (simp add: plain_secret_def)
    next
      case False
      then have "p ! (9 - length a) = CHR '']''" using at [of "9 - length a"] \<open>\<not> length MASK \<le> length a\<close> len by (simp add: MASK_def)
      moreover have "9 - length a < length p" using False \<open>\<not> length MASK \<le> length a\<close> len by simp
      ultimately show ?thesis using assms(1) nth_mem [of "9 - length a" p] by (auto simp: plain_secret_def)
    qed
  qed
qed

lemma occurs_Cons: "occurs p (c # s) \<longleftrightarrow> starts_with (c # s) p \<or> occurs p s"
proof -
  have "starts_with (c # s) p \<longleftrightarrow> (\<exists>b. c # s = p @ b)" by (metis append_eq_conv_conj starts_with_def)
  then show ?thesis unfolding occurs_def by (metis append_Cons append_Nil list.exhaust list.inject)
qed

lemma masks_preserve:
  assumes "masks s t" "plain_secret p" "\<not> occurs p s"
  shows "\<not> occurs p t"
  using assms
proof (induction rule: masks.induct)
  case (masks_keep s t c)
  have "\<not> starts_with (c # t) p"
  proof
    assume "starts_with (c # t) p"
    then obtain b where b: "c # t = p @ b" by (metis append_eq_conv_conj starts_with_def)
    from masks_prefix [OF masks.masks_keep [OF masks_keep.hyps] b] masks_keep.prems obtain b' where "c # s = p @ b'"
      by (auto simp: plain_secret_def)
    with masks_keep.prems(2) show False unfolding occurs_def by (metis append_Nil)
  qed
  with masks_keep show ?case by (simp add: occurs_Cons)
next
  case (masks_hide s t x)
  then have "\<not> occurs p s" unfolding occurs_def by (metis append_assoc)
  with masks_hide occurs_after_mask show ?case by blast
qed simp

lemma replace_masks: "masks s (replace_all secret s)"
proof (induction secret s rule: replace_all.induct)
  case (2 secret c s)
  show ?case
  proof (cases "secret \<noteq> [] \<and> starts_with (c # s) secret")
    case True
    then have "c # s = take (length secret) (c # s) @ drop (length secret) (c # s)" by simp
    moreover have "masks (take (length secret) (c # s) @ drop (length secret) (c # s)) (MASK @ replace_all secret (drop (length secret) (c # s)))"
      using "2.IH"(1) [OF True] by (rule masks_hide)
    ultimately show ?thesis using True by simp
  next
    case False
    with "2.IH"(2) show ?thesis by (auto intro: masks_keep)
  qed
qed (simp add: masks_Nil)

lemma replace_removes: "plain_secret p \<Longrightarrow> \<not> occurs p (replace_all p s)"
proof (induction p s rule: replace_all.induct)
  case (1 p)
  then show ?case by (simp add: occurs_def plain_secret_def)
next
  case (2 p c s)
  show ?case
  proof (cases "p \<noteq> [] \<and> starts_with (c # s) p")
    case True
    have "\<not> occurs p (MASK @ replace_all p (drop (length p) (c # s)))" using "2.IH"(1) [OF True "2.prems"] occurs_after_mask [OF "2.prems"] by blast
    with True show ?thesis by simp
  next
    case False
    have "\<not> starts_with (c # replace_all p s) p"
    proof
      assume "starts_with (c # replace_all p s) p"
      then obtain b where b: "c # replace_all p s = p @ b" by (metis append_eq_conv_conj starts_with_def)
      from masks_prefix [OF masks_keep [OF replace_masks] b] 2(3) obtain b' where "c # s = p @ b'" by (auto simp: plain_secret_def)
      then have "starts_with (c # s) p" by (simp add: starts_with_def)
      with False 2(3) show False by (simp add: plain_secret_def)
    qed
    moreover have "replace_all p (c # s) = c # replace_all p s" using False by auto
    ultimately show ?thesis using "2.IH"(2) [OF False "2.prems"] by (simp only: occurs_Cons) simp
  qed
qed

lemma credentials_mask: "masks s (redact_credentials s)"
proof (induction s rule: redact_credentials.induct)
  case (2 c s)
  show ?case
  proof (cases "credential_match (c # s)")
    case None
    with 2 show ?thesis by (auto intro: masks_keep)
  next
    case (Some m)
    obtain pre rest where m: "m = (pre, rest)" by (cases m)
    with Some credential_match_split obtain user where u: "c # s = pre @ user @ CHR ''@'' # rest" by metis
    have "masks (CHR ''@'' # rest) (CHR ''@'' # redact_credentials rest)" using 2(2) [OF Some m [symmetric]] by (rule masks_keep)
    then have "masks (pre @ user @ CHR ''@'' # rest) (pre @ MASK @ CHR ''@'' # redact_credentials rest)"
      by (intro masks_prepend masks_hide)
    moreover have "redact_credentials (c # s) = pre @ MASK @ CHR ''@'' # redact_credentials rest" using Some m by simp
    ultimately show ?thesis unfolding u [symmetric] by simp
  qed
qed (simp add: masks_Nil)

lemma redaction_run:
  assumes "plain_secret p" "p \<in> set secrets \<or> \<not> occurs p s"
  shows "\<not> occurs p (foldl (\<lambda>text secret. replace_all secret text) s secrets)"
  using assms
proof (induction secrets arbitrary: s)
  case (Cons q qs)
  have "p \<in> set qs \<or> \<not> occurs p (replace_all q s)"
    using Cons.prems replace_removes [of p s] masks_preserve [OF replace_masks [of s q]] by auto
  with Cons show ?case by simp
qed simp

text \<open>
  No configured secret reaches a readiness answer: whatever a driver or a node says, the redacted
  message contains neither the database address, nor the addresses of the nodes, nor the
  administrator's key, as long as these cannot be confused with the mask itself.
\<close>

theorem no_secret_in_message:
  assumes "k \<in> {''DATABASE_URL'', ''SOROBAN_RPC_URL'', ''HORIZON_URL'', ''PAYMENTS_ADMIN_API_KEY''}" "env k = Some secret" "plain_secret secret"
  shows "\<nexists>a b. redactSecrets env message = a @ secret @ b"
proof -
  have "secret \<in> set (literal_secrets env)"
    using assms by (auto simp: literal_secrets_def plain_secret_def default_to_def)
  then have "\<not> occurs secret (foldl (\<lambda>text s. replace_all s text) message (literal_secrets env))"
    using assms(3) by (intro redaction_run) simp_all
  then have "\<not> occurs secret (redactSecrets env message)"
    unfolding redactSecrets_def using masks_preserve [OF credentials_mask assms(3)] by blast
  then show ?thesis by (simp add: occurs_def)
qed

theorem no_secret_in_message_witness:
  "\<nexists>a b. redactSecrets (\<lambda>k. if k = ''PAYMENTS_ADMIN_API_KEY'' then Some ''k3y'' else None) ''bad k3y'' = a @ ''k3y'' @ b"
proof -
  have "CHR ''k'' \<notin> set ''REDACTED''" by simp
  then have "\<not> occurs ''k3y'' ''REDACTED''" unfolding occurs_def by (metis in_set_conv_decomp append_Cons)
  then have "plain_secret ''k3y''" by (simp add: plain_secret_def)
  then show ?thesis by (intro no_secret_in_message [where k = "''PAYMENTS_ADMIN_API_KEY''"]) simp_all
qed

section \<open>What readiness means\<close>

definition answers_in_time :: "rat \<Rightarrow> 'a probe \<Rightarrow> bool" where
  "answers_in_time limit p = (pr_duration p < limit \<and> (\<exists>x. pr_result p = Inr x))"

lemma withTimeout_Inr: "withTimeout f p ms l = Inr x \<longleftrightarrow> pr_duration p < ms \<and> pr_result p = Inr x"
  by (simp add: withTimeout_def)

lemma db_down:
  "ch_status (check_db f env db) = C_down \<longleftrightarrow>
     (\<forall>p. db = Db_query p \<longrightarrow> \<not> answers_in_time (readPositiveIntEnv env ''HEALTH_DB_CHECK_TIMEOUT_MS'' 2000) p)"
  by (cases db) (auto simp: check_db_def answers_in_time_def withTimeout_def split: sum.splits)

text \<open>What a reached probe of the node and the contract is reported as.\<close>

lemma probed_status:
  "ch_status (probed redact threshold ok down r) \<noteq> C_unknown"
  "ch_status (probed redact threshold ok down r) = C_down \<longleftrightarrow> \<not> re_ok r"
  by (simp_all add: probed_def)

text \<open>The answer on each of the paths through the handler.\<close>

lemma readiness_gated:
  assumes "\<not> (lc_startupComplete life \<and> \<not> lc_shuttingDown life \<and> env_ok)"
  shows "let h = handleReadiness f env env_ok life db soroban listener; c = ha_components h in
    ha_code h = 503 \<and> (\<exists>e. ha_status h = H_not_ready e) \<and> ch_status (hc_db c) = C_unknown
      \<and> ch_status (hc_rpc c) = C_unknown \<and> ch_status (hc_contract c) = C_unknown"
  using assms by (auto simp: handleReadiness_def not_ready_def initial_components_def NOT_CHECKED_def Let_def)

lemma readiness_db_down:
  assumes "lc_startupComplete life \<and> \<not> lc_shuttingDown life \<and> env_ok" "ch_status (check_db f env db) = C_down"
  shows "let h = handleReadiness f env env_ok life db soroban listener; c = ha_components h in
    ha_code h = 503 \<and> (\<exists>e. ha_status h = H_not_ready e) \<and> ch_status (hc_db c) = C_down
      \<and> ch_status (hc_rpc c) = C_unknown \<and> ch_status (hc_contract c) = C_unknown"
  using assms by (auto simp: handleReadiness_def not_ready_def initial_components_def NOT_CHECKED_def Let_def)

lemma readiness_probe_failed:
  assumes "lc_startupComplete life \<and> \<not> lc_shuttingDown life \<and> env_ok" "ch_status (check_db f env db) \<noteq> C_down"
    and "\<not> answers_in_time (readPositiveIntEnv env ''HEALTH_RPC_CHECK_TIMEOUT_MS'' 5000) soroban"
  shows "let h = handleReadiness f env env_ok life db soroban listener; c = ha_components h in
    ha_code h = 503 \<and> (\<exists>e. ha_status h = H_not_ready e) \<and> hc_db c = check_db f env db
      \<and> ch_status (hc_rpc c) = C_down \<and> ch_status (hc_contract c) = C_unknown"
proof -
  obtain m where "withTimeout f soroban (readPositiveIntEnv env ''HEALTH_RPC_CHECK_TIMEOUT_MS'' 5000) ''Soroban RPC health check'' = Inl m"
    using assms(3) by (cases "withTimeout f soroban (readPositiveIntEnv env ''HEALTH_RPC_CHECK_TIMEOUT_MS'' 5000) ''Soroban RPC health check''")
      (auto simp: withTimeout_Inr answers_in_time_def)
  with assms(1,2) show ?thesis by (simp add: handleReadiness_def not_ready_def initial_components_def Let_def)
qed

lemma readiness_probe_answered:
  assumes "lc_startupComplete life \<and> \<not> lc_shuttingDown life \<and> env_ok" "ch_status (check_db f env db) \<noteq> C_down"
    and "pr_duration soroban < readPositiveIntEnv env ''HEALTH_RPC_CHECK_TIMEOUT_MS'' 5000" "pr_result soroban = Inr s"
  shows "let h = handleReadiness f env env_ok life db soroban listener; c = ha_components h; ok = re_ok (so_rpc s) \<and> re_ok (so_contract s) in
    ha_code h = (if ok then 200 else 503) \<and> (\<not> ok \<longrightarrow> (\<exists>e. ha_status h = H_not_ready e)) \<and> hc_db c = check_db f env db
      \<and> (ok \<longrightarrow> (ha_status h = H_ready \<longleftrightarrow> ch_status (hc_db c) \<noteq> C_degraded \<and> ch_status (hc_rpc c) \<noteq> C_degraded
          \<and> ch_status (hc_contract c) \<noteq> C_degraded \<and> fst (getServiceHealth listener) \<noteq> S_degraded))
      \<and> ch_status (hc_rpc c) \<noteq> C_unknown \<and> (ch_status (hc_rpc c) = C_down \<longleftrightarrow> \<not> re_ok (so_rpc s))
      \<and> ch_status (hc_contract c) \<noteq> C_unknown \<and> (ch_status (hc_contract c) = C_down \<longleftrightarrow> \<not> re_ok (so_contract s))"
proof -
  have "withTimeout f soroban (readPositiveIntEnv env ''HEALTH_RPC_CHECK_TIMEOUT_MS'' 5000) ''Soroban RPC health check'' = Inr s"
    using assms(3,4) by (simp add: withTimeout_Inr)
  note w = this
  show ?thesis
  proof (cases "re_ok (so_rpc s) \<and> re_ok (so_contract s)")
    case False
    then have "(re_ok (so_rpc s) \<and> re_ok (so_contract s)) = False" by simp
    with w assms(1,2) show ?thesis by (simp only: Let_def) (simp add: handleReadiness_def not_ready_def initial_components_def Let_def probed_status)
  next
    case True
    with w assms(1,2) show ?thesis by (simp add: handleReadiness_def initial_components_def Let_def probed_status eq_commute [of C_degraded])
  qed
qed

text \<open>
  (C27) What readiness means. The service answers 200 exactly when it has started, is not shutting
  down, its configuration is valid, the database answers in time, and the node and the contract are
  reachable in time; every other answer is 503. A 200 says "ready" exactly when nothing is slow and the
  event listener is not degraded. A component is "unknown" exactly when the handler stopped before its
  check: the database before the gates are passed, the node also while the database is down, and the
  contract also when the check of the node and the contract fails or takes too long as a whole. Once
  that check answers, a component is "down" exactly when the answer calls it unreachable, which it does
  for the contract, though nothing was simulated, when the lookup of the account failed.
\<close>

theorem readiness_decided:
  "let h = handleReadiness f env env_ok life db soroban listener; c = ha_components h;
      started = lc_startupComplete life \<and> \<not> lc_shuttingDown life \<and> env_ok;
      db_up = (\<exists>p. db = Db_query p \<and> answers_in_time (readPositiveIntEnv env ''HEALTH_DB_CHECK_TIMEOUT_MS'' 2000) p);
      limit = readPositiveIntEnv env ''HEALTH_RPC_CHECK_TIMEOUT_MS'' 5000;
      answers = (\<lambda>s. started \<and> db_up \<and> pr_duration soroban < limit \<and> pr_result soroban = Inr s)
    in (ha_code h = 200 \<longleftrightarrow> (\<exists>s. answers s \<and> re_ok (so_rpc s) \<and> re_ok (so_contract s)))
      \<and> (ha_code h \<noteq> 200 \<longrightarrow> ha_code h = 503 \<and> (\<exists>e. ha_status h = H_not_ready e))
      \<and> (ha_code h = 200 \<longrightarrow> (ha_status h = H_ready \<longleftrightarrow>
           ch_status (hc_db c) \<noteq> C_degraded \<and> ch_status (hc_rpc c) \<noteq> C_degraded \<and> ch_status (hc_contract c) \<noteq> C_degraded \<and> fst (getServiceHealth listener) \<noteq> S_degraded))
      \<and> (ch_status (hc_db c) = C_unknown \<longleftrightarrow> \<not> started) \<and> (ch_status (hc_db c) = C_down \<longleftrightarrow> started \<and> \<not> db_up)
      \<and> (ch_status (hc_rpc c) = C_unknown \<longleftrightarrow> \<not> (started \<and> db_up)) \<and> (ch_status (hc_contract c) = C_unknown \<longleftrightarrow> (\<nexists>s. answers s))
      \<and> (\<forall>s. answers s \<longrightarrow> (ch_status (hc_rpc c) = C_down \<longleftrightarrow> \<not> re_ok (so_rpc s)) \<and> (ch_status (hc_contract c) = C_down \<longleftrightarrow> \<not> re_ok (so_contract s)))
      \<and> (\<forall>account simulation m. answers (checkSorobanReachability account simulation) \<and> pr_result account = Inl m \<longrightarrow> ch_status (hc_contract c) = C_down)"
proof -
  let ?db = "\<exists>p. db = Db_query p \<and> answers_in_time (readPositiveIntEnv env ''HEALTH_DB_CHECK_TIMEOUT_MS'' 2000) p"
  have db: "ch_status (check_db f env db) = C_down \<longleftrightarrow> \<not> ?db" unfolding db_down by (cases db) auto
  have known: "ch_status (check_db f env db) \<noteq> C_unknown" by (auto simp: check_db_def split: db_state.split sum.split)
  have skipped: "pr_result account = Inl m \<Longrightarrow> \<not> re_ok (so_contract (checkSorobanReachability account simulation))" for account simulation m
    by (simp add: checkSorobanReachability_def)
  show ?thesis
  proof (cases "lc_startupComplete life \<and> \<not> lc_shuttingDown life \<and> env_ok")
    case False
    from readiness_gated [OF False, of f env db soroban listener] False show ?thesis unfolding Let_def by auto
  next
    case started: True
    show ?thesis
    proof (cases ?db)
      case False
      with db readiness_db_down [OF started, of f env db soroban listener] started show ?thesis unfolding Let_def by auto
    next
      case True
      with db have up: "ch_status (check_db f env db) \<noteq> C_down" by simp
      show ?thesis
      proof (cases "answers_in_time (readPositiveIntEnv env ''HEALTH_RPC_CHECK_TIMEOUT_MS'' 5000) soroban")
        case False
        with readiness_probe_failed [OF started up False, of listener] started True up known show ?thesis
          unfolding Let_def answers_in_time_def by auto
      next
        case answered: True
        then obtain s where s: "pr_duration soroban < readPositiveIntEnv env ''HEALTH_RPC_CHECK_TIMEOUT_MS'' 5000" "pr_result soroban = Inr s"
          by (auto simp: answers_in_time_def)
        with readiness_probe_answered [OF started up s, of listener] started True up known skipped show ?thesis
          unfolding Let_def by (auto split: if_splits)
      qed
    qed
  qed
qed

theorem readiness_decided_witness:
  "ha_code (handleReadiness (\<lambda>_. []) (\<lambda>_. None) True \<lparr>lc_startupComplete = True, lc_shuttingDown = False\<rparr>
     (Db_query \<lparr>pr_duration = 3, pr_result = Inr True\<rparr>)
     \<lparr>pr_duration = 9, pr_result = Inr (checkSorobanReachability \<lparr>pr_duration = 4, pr_result = Inr ()\<rparr> \<lparr>pr_duration = 5, pr_result = Inr (Sim_retval (Sc_u32 0))\<rparr>)\<rparr>
     fresh_listener) = 200"
proof -
  let ?s = "checkSorobanReachability \<lparr>pr_duration = 4, pr_result = Inr ()\<rparr> \<lparr>pr_duration = 5, pr_result = Inr (Sim_retval (Sc_u32 0))\<rparr>"
  let ?life = "\<lparr>lc_startupComplete = True, lc_shuttingDown = False\<rparr>" and ?db = "Db_query \<lparr>pr_duration = 3, pr_result = Inr True\<rparr>"
  have "answers_in_time (readPositiveIntEnv (\<lambda>_. None) ''HEALTH_DB_CHECK_TIMEOUT_MS'' 2000) \<lparr>pr_duration = 3, pr_result = Inr True\<rparr>"
    by (auto simp: answers_in_time_def readPositiveIntEnv_def)
  moreover have "re_ok (so_rpc ?s)" "re_ok (so_contract ?s)" by (simp_all add: checkSorobanReachability_def)
  moreover have "(9 :: rat) < readPositiveIntEnv (\<lambda>_. None) ''HEALTH_RPC_CHECK_TIMEOUT_MS'' 5000" by (simp add: readPositiveIntEnv_def)
  ultimately show ?thesis
    using readiness_decided [where f = "\<lambda>_. []" and env = "\<lambda>_. None" and env_ok = True and life = ?life and db = ?db and soroban = "\<lparr>pr_duration = 9, pr_result = Inr ?s\<rparr>" and listener = fresh_listener]
    unfolding Let_def by auto
qed

text \<open>
  A node that answers a simulation with an error has answered: the contract is reported reachable
  although its simulation failed.
\<close>

lemma failed_simulation_ready:
  "let s = checkSorobanReachability \<lparr>pr_duration = 5, pr_result = Inr ()\<rparr> \<lparr>pr_duration = 5, pr_result = Inr (Sim_error_text ''HostError: Error(Storage, MissingValue)'')\<rparr>
   in re_ok (so_contract s)"
  by (simp add: checkSorobanReachability_def)

text \<open>
  When the account lookup fails, the contract was never probed, and it is reported as down.
\<close>

lemma skipped_contract_down:
  assumes "pr_result account = Inl m"
  shows "ch_status (probed redact threshold ok down (so_contract (checkSorobanReachability account simulation))) = C_down"
  using assms by (simp add: checkSorobanReachability_def probed_def)

text \<open>Once it shuts down, the service is never ready again, whatever the probes say.\<close>

lemma shutdown_not_ready: "ha_status (handleReadiness f env env_ok (markShuttingDown life) db soroban listener) = H_not_ready ''shutting_down''"
  by (simp add: handleReadiness_def markShuttingDown_def not_ready_def Let_def)

end
