(* ===== verification/Transaction_Routes.thy ===== *)
theory Transaction_Routes
  imports Payout_History Json_Text Error_Translation
begin

text \<open>
  The transaction routes (\<open>backend/src/routes/transactions.ts\<close>) over the payout history: their
  query schemas (\<open>backend/src/schemas/transactions.schemas.ts\<close>), the text of a cursor
  (\<open>backend/src/lib/keyset-cursor.ts\<close>), the handlers with every refusal, and a client that follows
  the cursor texts from page to page. The CSV stream of the export is \<open>export_csv\<close> of the payout
  history. Zod accepts an integer only when it is a safe one. Log lines are left out.
\<close>

section \<open>The text of a cursor\<close>

definition MAX_CURSOR_LENGTH :: nat where
  "MAX_CURSOR_LENGTH = 512"

definition BASE64URL_PATTERN :: "string \<Rightarrow> bool" where
  "BASE64URL_PATTERN s = (s \<noteq> [] \<and> list_all (\<lambda>c. is_letter c \<or> is_digit c \<or> c = CHR ''_'' \<or> c = CHR ''-'') s)"

definition UUID_PATTERN :: "string \<Rightarrow> bool" where
  "UUID_PATTERN s =
     (length s = 36 \<and>
      list_all (\<lambda>i. if i = 8 \<or> i = 13 \<or> i = 18 \<or> i = 23 then s ! i = CHR ''-'' else hex_val (s ! i) \<noteq> None) [0..<36])"

datatype InvalidTransactionCursorError = InvalidTransactionCursorError

text \<open>\<open>{ t, i }\<close> as the value the check looks at; a code unit beyond ASCII matches no pattern.\<close>

definition EncodedCursor :: "int \<Rightarrow> string \<Rightarrow> json" where
  "EncodedCursor t i = J_object [(code_units_of ''t'', J_number (Some (of_int t))), (code_units_of ''i'', J_string (code_units_of i))]"

definition isEncodedCursor :: "json \<Rightarrow> (int \<times> string) option" where
  "isEncodedCursor v =
     (case (json_field v ''t'', json_field v ''i'') of
        (Some (J_number (Some t)), Some (J_string us)) \<Rightarrow>
          if isSafeInteger (Some t) \<and> 0 \<le> t \<and> list_all (\<lambda>u. u < 128) us \<and> UUID_PATTERN (map char_of us)
          then Some (\<lfloor>t\<rfloor>, map char_of us) else None
      | _ \<Rightarrow> None)"

text \<open>\<open>JSON.stringify\<close> of a cursor that passed the check: a whole number and a string without escapes.\<close>

definition cursor_json :: "TransactionCursor \<Rightarrow> string" where
  "cursor_json c = [CHR ''{'', CHR 0x22, CHR ''t'', CHR 0x22, CHR '':''] @ nat_text (nat (cur_timestamp c)) @
     [CHR '','', CHR 0x22, CHR ''i'', CHR 0x22, CHR '':'', CHR 0x22] @ cur_id c @ [CHR 0x22, CHR ''}'']"

definition encodeTransactionCursor :: "TransactionCursor \<Rightarrow> InvalidTransactionCursorError + string" where
  "encodeTransactionCursor c =
     (if isEncodedCursor (EncodedCursor (cur_timestamp c) (cur_id c)) = None then Inl InvalidTransactionCursorError
      else Inr (base64url_text (code_units_of (cursor_json c))))"

definition decodeTransactionCursor :: "string \<Rightarrow> InvalidTransactionCursorError + TransactionCursor" where
  "decodeTransactionCursor raw =
     (if raw = [] \<or> length raw > MAX_CURSOR_LENGTH \<or> \<not> BASE64URL_PATTERN raw then Inl InvalidTransactionCursorError
      else case JSON_parse (utf8_text (base64url_bytes raw)) of
        None \<Rightarrow> Inl InvalidTransactionCursorError
      | Some parsed \<Rightarrow>
        (case isEncodedCursor parsed of None \<Rightarrow> Inl InvalidTransactionCursorError
         | Some (t, i) \<Rightarrow> Inr \<lparr>cur_timestamp = t, cur_id = i\<rparr>))"

section \<open>Cursor texts are read back\<close>

text \<open>The cursors that can be written: a safe, non-negative timestamp and a UUID.\<close>

definition valid_cursor :: "TransactionCursor \<Rightarrow> bool" where
  "valid_cursor c = (0 \<le> cur_timestamp c \<and> cur_timestamp c < 2 ^ 53 \<and> UUID_PATTERN (cur_id c))"

lemma uuid_chars:
  assumes "UUID_PATTERN s" "c \<in> set s"
  shows "hex_val c \<noteq> None \<or> c = CHR ''-''"
proof -
  obtain i where "i < length s" "s ! i = c" using assms(2) by (auto simp: in_set_conv_nth)
  then show ?thesis using assms(1) unfolding UUID_PATTERN_def list_all_iff
    by (metis atLeastLessThan_iff atLeastLessThan_upt le0)
qed

lemma uuid_units:
  assumes "UUID_PATTERN s"
  shows "list_all (\<lambda>u. 32 \<le> u \<and> u \<noteq> 34 \<and> u \<noteq> 92 \<and> u < 128) (code_units_of s)"
proof -
  have "32 \<le> u \<and> u \<noteq> 34 \<and> u \<noteq> 92 \<and> u < 128" if "hex_val c \<noteq> None \<or> c = CHR ''-''" "u = of_char c" for c and u :: nat
    using that by (auto simp: hex_val_def Let_def split: if_splits)
  then show ?thesis using uuid_chars [OF assms] by (fastforce simp: list_all_iff)
qed

lemma uuid_length: "UUID_PATTERN s \<Longrightarrow> length s = 36"
  by (simp add: UUID_PATTERN_def)

lemma safe_int: "isSafeInteger (Some (of_int t)) \<longleftrightarrow> \<bar>t\<bar> < 2 ^ 53"
proof -
  have "\<bar>of_int t :: rat\<bar> \<le> 2 ^ 53 - 1 \<longleftrightarrow> (of_int \<bar>t\<bar> :: rat) \<le> of_int (2 ^ 53 - 1)" by simp
  also have "\<dots> \<longleftrightarrow> \<bar>t\<bar> < 2 ^ 53" unfolding of_int_le_iff by linarith
  finally show ?thesis by (simp add: isSafeInteger_def)
qed

lemma char_of_units [simp]: "map char_of (code_units_of s) = s"
  by (simp add: map_idI)

lemma encoded_cursor: "isEncodedCursor (EncodedCursor t i) = (if 0 \<le> t \<and> t < 2 ^ 53 \<and> UUID_PATTERN i then Some (t, i) else None)"
proof -
  have f: "json_field (EncodedCursor t i) ''t'' = Some (J_number (Some (of_int t)))"
    "json_field (EncodedCursor t i) ''i'' = Some (J_string (code_units_of i))"
    by (simp_all add: json_field_def EncodedCursor_def)
  have "list_all (\<lambda>u. u < 128) (code_units_of i)" if "UUID_PATTERN i"
    using uuid_units [OF that] by (auto simp: list_all_iff)
  then show ?thesis unfolding isEncodedCursor_def f by (auto simp: safe_int)
qed

lemma encode_valid: "encodeTransactionCursor c =
    (if valid_cursor c then Inr (base64url_text (code_units_of (cursor_json c))) else Inl InvalidTransactionCursorError)"
  by (simp add: encodeTransactionCursor_def encoded_cursor valid_cursor_def)

lemma parse_value_nat:
  assumes "n < 2 ^ 53" "\<not> number_unit c"
  shows "parse_value (Suc m) (code_units_of (nat_text n) @ c # r) = Some (J_number (Some (of_nat n)), c # r)"
proof -
  obtain u us where u: "nat_text n = u # us" by (cases "nat_text n") auto
  have "48 \<le> (of_char u :: nat)" "(of_char u :: nat) \<le> 57"
    using nat_text_digits [of n] u by (auto simp: is_digit_def Let_def)
  then have "skip_space (code_units_of (nat_text n) @ c # r) = code_units_of (nat_text n) @ c # r"
    "expect 123 (code_units_of (nat_text n) @ c # r) = None" "expect 91 (code_units_of (nat_text n) @ c # r) = None"
    using u by (auto simp: expect_def skip_space_def)
  then show ?thesis using scalar_nat [OF assms] by simp
qed

lemma JSON_parse_cursor:
  assumes "valid_cursor c"
  shows "JSON_parse (code_units_of (cursor_json c)) = Some (EncodedCursor (cur_timestamp c) (cur_id c))"
proof -
  define n where "n = nat (cur_timestamp c)"
  let ?i = "code_units_of (cur_id c)"
  have n: "n < 2 ^ 53" "of_nat n = (of_int (cur_timestamp c) :: rat)"
    using assms by (auto simp: valid_cursor_def n_def)
  have plain: "list_all (\<lambda>u. 32 \<le> u \<and> u \<noteq> 34 \<and> u \<noteq> 92) ?i"
    using uuid_units [of "cur_id c"] assms by (auto simp: valid_cursor_def list_all_iff)
  let ?r = "[34, 105, 34, 58, 34] @ ?i @ 34 # [125]"
  have printed: "code_units_of (cursor_json c) = [123, 34, 116, 34, 58] @ code_units_of (nat_text n) @ 44 # ?r"
    by (simp add: cursor_json_def n_def)
  have second: "parse_members (Suc (Suc m)) ?r = Some ([([105], J_string ?i)], [])" for m
    by (simp add: expect_def skip_space_def scalar_def string_body_Cons string_body_plain [OF plain])
  have first: "parse_value (Suc m) (code_units_of (nat_text n) @ 44 # ?r) = Some (J_number (Some (of_nat n)), 44 # ?r)" for m
    by (intro parse_value_nat n(1)) (simp add: number_unit_def)
  have members: "parse_members (Suc (Suc (Suc m))) ([34, 116, 34, 58] @ code_units_of (nat_text n) @ 44 # ?r) =
      Some ([([116], J_number (Some (of_nat n))), ([105], J_string ?i)], [])" for m
    using first second by (simp add: expect_def skip_space_def string_body_Cons)
  have "parse_value (Suc (Suc (Suc (Suc m)))) (code_units_of (cursor_json c)) = Some (EncodedCursor (cur_timestamp c) (cur_id c), [])" for m
    using members n(2) unfolding printed by (simp add: expect_def skip_space_def EncodedCursor_def)
  moreover have "2 * length (code_units_of (cursor_json c)) + 2 = Suc (Suc (Suc (Suc (2 * length (code_units_of (cursor_json c)) - 2))))"
    unfolding printed by simp
  ultimately have "parse_value (2 * length (code_units_of (cursor_json c)) + 2) (code_units_of (cursor_json c)) =
      Some (EncodedCursor (cur_timestamp c) (cur_id c), [])" by (simp only:)
  then show ?thesis unfolding JSON_parse_def by (simp only: option.case prod.case) (simp add: skip_space_def)
qed

lemma base64url_pattern:
  assumes "list_all (\<lambda>b. b < 256) bytes" "bytes \<noteq> []"
  shows "BASE64URL_PATTERN (base64url_text bytes)"
proof -
  have "is_letter (b64_char d) \<or> is_digit (b64_char d) \<or> b64_char d = CHR ''_'' \<or> b64_char d = CHR ''-''" if d: "d < 64" for d
  proof -
    consider "d < 62" | "d = 62" | "d = 63" using d by linarith
    then show ?thesis
    proof cases
      case 2
      have "b64_char 62 = CHR ''-''" by code_simp
      then show ?thesis by (simp add: 2)
    next
      case 3
      have "b64_char 63 = CHR ''_''" by code_simp
      then show ?thesis by (simp add: 3)
    qed (auto simp: b64_char_def is_letter_def is_digit_def Let_def)
  qed
  moreover have "sextets bytes \<noteq> []" using assms(2) by (cases bytes rule: sextets.cases) auto
  ultimately show ?thesis
    using sextets_less [OF assms(1)] by (auto simp: BASE64URL_PATTERN_def base64url_text_def list_all_iff)
qed

lemma cursor_bytes:
  assumes "valid_cursor c"
  shows "list_all (\<lambda>b. b < 128) (code_units_of (cursor_json c))" "length (cursor_json c) \<le> 66" "cursor_json c \<noteq> []"
proof -
  have "list_all (\<lambda>b. b < 128) (code_units_of (nat_text n))" for n
    using nat_text_digits [of n] by (auto simp: list_all_iff is_digit_def Let_def)
  moreover have "list_all (\<lambda>b. b < 128) (code_units_of (cur_id c))"
    using uuid_units [of "cur_id c"] assms by (auto simp: valid_cursor_def list_all_iff)
  ultimately show "list_all (\<lambda>b. b < 128) (code_units_of (cursor_json c))" by (simp add: cursor_json_def)
  have "cur_timestamp c < 10 ^ 16" using assms by (simp add: valid_cursor_def)
  then have "nat (cur_timestamp c) < 10 ^ 16" by simp
  then have "length (nat_text (nat (cur_timestamp c))) \<le> 16" by (rule length_nat_text) simp
  then show "length (cursor_json c) \<le> 66"
    using uuid_length [of "cur_id c"] assms by (simp add: cursor_json_def valid_cursor_def)
qed (simp add: cursor_json_def)

lemma decode_encoded:
  assumes "valid_cursor c"
  shows "decodeTransactionCursor (base64url_text (code_units_of (cursor_json c))) = Inr c"
proof -
  let ?bytes = "code_units_of (cursor_json c)"
  note b = cursor_bytes [OF assms]
  have bytes: "list_all (\<lambda>b. b < 256) ?bytes" using b(1) by (auto simp: list_all_iff)
  have "length (base64url_text ?bytes) \<le> MAX_CURSOR_LENGTH"
    using length_sextets [of ?bytes] b(2) by (simp add: base64url_text_def MAX_CURSOR_LENGTH_def)
  moreover have "BASE64URL_PATTERN (base64url_text ?bytes)" using bytes b(3) by (simp add: base64url_pattern)
  moreover have "isEncodedCursor (EncodedCursor (cur_timestamp c) (cur_id c)) = Some (cur_timestamp c, cur_id c)"
    using assms by (simp add: encoded_cursor valid_cursor_def)
  ultimately show ?thesis
    using JSON_parse_cursor [OF assms] utf8_ascii [OF b(1)] base64url_roundtrip [OF bytes]
    by (auto simp: decodeTransactionCursor_def BASE64URL_PATTERN_def)
qed

lemma decoded_valid:
  assumes "decodeTransactionCursor raw = Inr c"
  shows "valid_cursor c" "length raw \<le> MAX_CURSOR_LENGTH" "BASE64URL_PATTERN raw"
proof -
  obtain v where v: "isEncodedCursor v = Some (cur_timestamp c, cur_id c)"
    and raw: "length raw \<le> MAX_CURSOR_LENGTH" "BASE64URL_PATTERN raw"
    using assms by (auto simp: decodeTransactionCursor_def split: if_splits option.splits)
  show "length raw \<le> MAX_CURSOR_LENGTH" "BASE64URL_PATTERN raw" by (fact raw)+
  obtain t us where t: "isSafeInteger (Some t)" "0 \<le> t" "cur_timestamp c = \<lfloor>t\<rfloor>" "UUID_PATTERN (cur_id c)"
    using v by (auto simp: isEncodedCursor_def split: option.splits json.splits if_splits)
  then have "t = of_int (cur_timestamp c)" by (auto simp: isSafeInteger_def)
  then show "valid_cursor c" using t safe_int [of "cur_timestamp c"] by (auto simp: valid_cursor_def)
qed

section \<open>Query schemas\<close>

text \<open>A query parameter as the framework parses it: a text, or a list when the name is repeated.\<close>

datatype query_value = Q_text string | Q_list "string list"

type_synonym query = "string \<Rightarrow> query_value option"

text \<open>\<open>z.coerce.number()\<close>: \<open>Number(value)\<close>, where a list is its elements joined by commas.\<close>

definition coerce_number :: "query_value \<Rightarrow> rat option" where
  "coerce_number v = map_option to_double (number_text (case v of Q_text s \<Rightarrow> s | Q_list ss \<Rightarrow> join '','' ss))"

definition int_field :: "(int \<Rightarrow> bool) \<Rightarrow> query_value \<Rightarrow> int option" where
  "int_field ok v =
     (case coerce_number v of
        Some q \<Rightarrow> if isSafeInteger (Some q) \<and> ok \<lfloor>q\<rfloor> then Some \<lfloor>q\<rfloor> else None
      | None \<Rightarrow> None)"

text \<open>\<open>.optional()\<close> and \<open>.default(d)\<close>: the outer \<open>None\<close> is the refusal.\<close>

definition optional_field :: "(query_value \<Rightarrow> 'a option) \<Rightarrow> query_value option \<Rightarrow> 'a option option" where
  "optional_field f v = (case v of None \<Rightarrow> Some None | Some x \<Rightarrow> map_option Some (f x))"

definition default_field :: "'a \<Rightarrow> (query_value \<Rightarrow> 'a option) \<Rightarrow> query_value option \<Rightarrow> 'a option" where
  "default_field d f v = (case v of None \<Rightarrow> Some d | Some x \<Rightarrow> f x)"

definition text_field :: "(string \<Rightarrow> bool) \<Rightarrow> query_value \<Rightarrow> string option" where
  "text_field ok v = (case v of Q_text s \<Rightarrow> if ok s then Some s else None | Q_list ss \<Rightarrow> None)"

definition MAX_TRANSACTION_PAGE_SIZE :: int where
  "MAX_TRANSACTION_PAGE_SIZE = 100"

record TransactionPageFields =
  pq_limit :: int
  pq_offset :: int
  pq_cursor :: "string option"

definition transactionRecipientQuerySchema :: "query \<Rightarrow> TransactionPageFields option" where
  "transactionRecipientQuerySchema q =
     do { limit \<leftarrow> default_field 20 (int_field (\<lambda>n. 1 \<le> n \<and> n \<le> MAX_TRANSACTION_PAGE_SIZE)) (q ''limit'');
          offset \<leftarrow> default_field 0 (int_field (\<lambda>n. 0 \<le> n)) (q ''offset'');
          cursor \<leftarrow> optional_field (text_field (\<lambda>s. 1 \<le> length s \<and> length s \<le> 512)) (q ''cursor'');
          Some \<lparr>pq_limit = limit, pq_offset = offset, pq_cursor = cursor\<rparr> }"

definition status_field :: "query_value \<Rightarrow> TransactionStatus option" where
  "status_field v = (case v of Q_list ss \<Rightarrow> None
     | Q_text s \<Rightarrow> if s = ''pending'' then Some T_pending else if s = ''completed'' then Some T_completed
         else if s = ''failed'' then Some T_failed else None)"

definition walletAddressSchema :: "string \<Rightarrow> bool" where
  "walletAddressSchema s =
     (length s = 56 \<and> starts_with s ''G'' \<and>
      list_all (\<lambda>c. let n = of_char c :: nat in 65 \<le> n \<and> n \<le> 90 \<or> 50 \<le> n \<and> n \<le> 55) (drop 1 s))"

definition positive_field :: "query_value \<Rightarrow> int option" where
  "positive_field = int_field (\<lambda>n. 0 < n)"

definition transactionHistoryQuerySchema :: "query \<Rightarrow> (PayoutFilters \<times> TransactionPageFields) option" where
  "transactionHistoryQuerySchema q =
     do { wallet \<leftarrow> optional_field (text_field walletAddressSchema) (q ''walletAddress'');
          startDate \<leftarrow> optional_field positive_field (q ''startDate'');
          endDate \<leftarrow> optional_field positive_field (q ''endDate'');
          status \<leftarrow> optional_field status_field (q ''status'');
          page \<leftarrow> transactionRecipientQuerySchema q;
          Some (\<lparr>pf_startDate = startDate, pf_endDate = endDate, pf_recipient = wallet, pf_status = status,
             pf_limit = Some (pq_limit page), pf_offset = Some (pq_offset page)\<rparr>, page) }"

datatype export_format = Format_csv | Format_json

definition format_field :: "query_value \<Rightarrow> export_format option" where
  "format_field v = (case v of Q_list ss \<Rightarrow> None
     | Q_text s \<Rightarrow> if s = ''csv'' then Some Format_csv else if s = ''json'' then Some Format_json else None)"

definition transactionExportQuerySchema :: "query \<Rightarrow> (export_format \<times> PayoutFilters) option" where
  "transactionExportQuerySchema q =
     do { format \<leftarrow> default_field Format_csv format_field (q ''format'');
          startDate \<leftarrow> optional_field positive_field (q ''startDate'');
          endDate \<leftarrow> optional_field positive_field (q ''endDate'');
          status \<leftarrow> optional_field status_field (q ''status'');
          limit \<leftarrow> default_field 20 (int_field (\<lambda>n. 1 \<le> n \<and> n \<le> 100)) (q ''limit'');
          offset \<leftarrow> default_field 0 (int_field (\<lambda>n. 0 \<le> n)) (q ''offset'');
          Some (format, \<lparr>pf_startDate = startDate, pf_endDate = endDate, pf_recipient = None, pf_status = status,
             pf_limit = Some limit, pf_offset = Some offset\<rparr>) }"

section \<open>Handlers\<close>

definition validation_error :: raised where
  "validation_error = Raised_app (app_error ''VALIDATION'' ''VALIDATION_ERROR'')"

text \<open>A thrown value that is no error of the API, and what a failing query throws.\<close>

definition plain_error :: raised where
  "plain_error = Raised_other None None None"

definition decodePageCursor :: "string option \<Rightarrow> raised + TransactionCursor option" where
  "decodePageCursor raw =
     (case raw of None \<Rightarrow> Inr None
      | Some s \<Rightarrow> (case decodeTransactionCursor s of Inl e \<Rightarrow> Inl validation_error | Inr c \<Rightarrow> Inr (Some c)))"

record PageAnswer =
  pa_transactions :: "TransactionRecord list"
  pa_total :: nat
  pa_limit :: int
  pa_offset :: int
  pa_hasMore :: bool
  pa_nextCursor :: "string option"

text \<open>\<open>buildPageMetadata\<close> with the cursor written out; the error of the printer is not translated.\<close>

definition page_answer :: "PayoutPage \<Rightarrow> TransactionPageFields \<Rightarrow> raised + PageAnswer" where
  "page_answer page q =
     (let answer = \<lparr>pa_transactions = pg_records page, pa_total = pg_total page, pa_limit = pq_limit q,
         pa_offset = pq_offset q, pa_hasMore = pg_hasMore page, pa_nextCursor = None\<rparr>
      in case buildPageMetadata page of
           None \<Rightarrow> Inr answer
         | Some c \<Rightarrow> (case encodeTransactionCursor c of Inl e \<Rightarrow> Inl plain_error
             | Inr s \<Rightarrow> Inr (answer\<lparr>pa_nextCursor := Some s\<rparr>)))"

definition page_filters :: "PayoutFilters \<Rightarrow> TransactionCursor option \<Rightarrow> PayoutPageFilters" where
  "page_filters f c = PayoutFilters.extend f \<lparr>pf_cursor = c\<rparr>"

definition history_route :: "tx_repo \<Rightarrow> query \<Rightarrow> raised + PageAnswer" where
  "history_route repo q =
     (case transactionHistoryQuerySchema q of
        None \<Rightarrow> Inl validation_error
      | Some (f, page) \<Rightarrow>
        (case decodePageCursor (pq_cursor page) of
           Inl e \<Rightarrow> Inl e
         | Inr cursor \<Rightarrow> page_answer (getPayoutsPage repo (page_filters f cursor)) page))"

datatype export_answer =
    Export_page "TransactionRecord list" nat "int option" "int option"
  | Export_stream string

text \<open>
  The export behind the token check, with the wallet of the verified token. \<open>None\<close> as the inner value:
  the walk of the table needs more than \<open>fuel\<close> queries; \<open>repos k\<close> is the database at the \<open>k\<close>-th query.
\<close>

definition export_route :: "nat \<Rightarrow> (nat \<Rightarrow> tx_repo) \<Rightarrow> string \<Rightarrow> query \<Rightarrow> raised + export_answer option" where
  "export_route fuel repos wallet q =
     (case transactionExportQuerySchema q of
        None \<Rightarrow> Inl validation_error
      | Some (Format_json, f) \<Rightarrow>
        (let (records, n) = getPayoutsWithCount (repos 0) (f\<lparr>pf_recipient := Some wallet\<rparr>)
         in Inr (Some (Export_page records n (pf_limit f) (pf_offset f))))
      | Some (Format_csv, f) \<Rightarrow> Inr (map_option (Export_stream \<circ> fst) (export_csv fuel repos wallet f)))"

record Receipt =
  re_reference :: string
  re_amount :: string
  re_token :: string
  re_date :: string
  re_network :: string
  re_status :: TransactionStatus
  re_recipient :: string
  re_projectId :: string

definition receipt_route :: "string \<Rightarrow> tx_repo \<Rightarrow> string \<Rightarrow> raised + Receipt" where
  "receipt_route network repo txHash =
     (if \<not> (length txHash = 64 \<and> list_all (\<lambda>c. hex_val c \<noteq> None) txHash) then Inl validation_error
      else case getPayoutByTxHash repo txHash of
        Inl e \<Rightarrow> Inl plain_error
      | Inr None \<Rightarrow> Inl (Raised_app (app_error ''RPC'' ''NOT_FOUND''))
      | Inr (Some t) \<Rightarrow> Inr \<lparr>re_reference = tx_txHash t, re_amount = tx_amount t, re_token = tx_token t,
          re_date = iso_text (tx_timestamp t * 1000), re_network = network, re_status = tx_status t,
          re_recipient = tx_recipient t, re_projectId = tx_roundId t\<rparr>)"

definition hash_route :: "tx_repo \<Rightarrow> string \<Rightarrow> raised + TransactionRecord" where
  "hash_route repo txHash =
     (if txHash = [] then Inl validation_error
      else case find (\<lambda>t. tx_txHash t = txHash) (searchPayouts repo txHash) of
        None \<Rightarrow> Inl (Raised_app (app_error ''RPC'' ''NOT_FOUND''))
      | Some t \<Rightarrow> Inr t)"

text \<open>The parameter of the path is always given, so the branch for a missing address is never taken.\<close>

definition recipient_route :: "tx_repo \<Rightarrow> string \<Rightarrow> query \<Rightarrow> raised + string \<times> PageAnswer" where
  "recipient_route repo wallet q =
     (if \<not> walletAddressSchema wallet then Inl validation_error
      else case transactionRecipientQuerySchema q of
        None \<Rightarrow> Inl validation_error
      | Some page \<Rightarrow>
        (case decodePageCursor (pq_cursor page) of
           Inl e \<Rightarrow> Inl e
         | Inr cursor \<Rightarrow>
           map_sum id (Pair wallet) (page_answer (getPayoutsPage repo (page_filters
             (no_filters\<lparr>pf_recipient := Some wallet, pf_limit := Some (pq_limit page), pf_offset := Some (pq_offset page)\<rparr>)
             cursor)) page)))"

text \<open>A client that sends the text of each page's \<open>nextCursor\<close> back; \<open>None\<close>: a request was refused.\<close>

fun http_walk :: "query \<Rightarrow> tx_repo list \<Rightarrow> (TransactionRecord list list \<times> bool) option" where
  "http_walk q [] = Some ([], False)"
| "http_walk q (repo # repos) =
     (case history_route repo q of
        Inl e \<Rightarrow> None
      | Inr a \<Rightarrow>
        (case pa_nextCursor a of
           None \<Rightarrow> Some ([pa_transactions a], True)
         | Some s \<Rightarrow> map_option (apfst ((#) (pa_transactions a))) (http_walk (q(''cursor'' \<mapsto> Q_text s)) repos)))"

section \<open>Requests that follow cursor texts\<close>

lemma schema_cursor:
  assumes "transactionHistoryQuerySchema q = Some (f, page)" "1 \<le> length s" "length s \<le> 512"
  shows "transactionHistoryQuerySchema (q(''cursor'' \<mapsto> Q_text s)) = Some (f, page\<lparr>pq_cursor := Some s\<rparr>)"
proof -
  have "transactionRecipientQuerySchema (q(''cursor'' \<mapsto> Q_text s)) = map_option (\<lambda>p. p\<lparr>pq_cursor := Some s\<rparr>) (transactionRecipientQuerySchema q)"
    if "transactionRecipientQuerySchema q \<noteq> None"
    using assms(2,3) that by (auto simp: transactionRecipientQuerySchema_def Option.bind_eq_Some_conv optional_field_def text_field_def)
  then show ?thesis using assms(1) by (auto simp: transactionHistoryQuerySchema_def Option.bind_eq_Some_conv)
qed

lemma schema_page:
  assumes "transactionHistoryQuerySchema q = Some (f, page)"
  shows "pf_limit f = Some (pq_limit page)" "pf_offset f = Some (pq_offset page)" "1 \<le> pq_limit page" "pq_limit page \<le> 100" "0 \<le> pq_offset page"
  using assms
  by (auto simp: transactionHistoryQuerySchema_def transactionRecipientQuerySchema_def Option.bind_eq_Some_conv default_field_def
      int_field_def MAX_TRANSACTION_PAGE_SIZE_def split: option.splits if_splits)

lemma page_rows_stored:
  assumes "answers_from rows repo" "0 \<le> default_to 20 (pf_limit f)"
  shows "set (pg_records (getPayoutsPage repo f)) \<subseteq> set rows"
proof -
  have "window_ok (page_query f)"
    using assms(2) by (auto simp: window_ok_def page_query_def applyStableOrder_def applyPayoutFilters_def andWhere_def
        new_query_def default_to_def Let_def split: option.splits)
  then obtain ys where "mset ys = mset (matching (page_query f) rows)" "getMany repo (page_query f) = Inr (sql_window (page_query f) ys)"
    using assms(1) by (auto simp: answers_from_def)
  moreover from this(1) have "set ys \<subseteq> set rows" by (metis filter_is_subset matching_def set_mset_mset)
  ultimately show ?thesis
    by (auto simp: getPayoutsPage_def sql_window_def Let_def split: sum.splits option.splits dest!: in_set_takeD in_set_dropD)
qed

lemma page_cursor_row: "buildPageMetadata page = Some c \<Longrightarrow> c = cursor_of (last (pg_records page)) \<and> pg_records page \<noteq> []"
  by (auto simp: buildPageMetadata_def cursor_of_def split: if_splits)

lemma encoded_text:
  assumes "valid_cursor c"
  obtains s where "encodeTransactionCursor c = Inr s" "decodeTransactionCursor s = Inr c" "1 \<le> length s" "length s \<le> 512"
proof -
  let ?s = "base64url_text (code_units_of (cursor_json c))"
  have d: "decodeTransactionCursor ?s = Inr c" by (rule decode_encoded [OF assms])
  have "?s \<noteq> []" using decoded_valid(3) [OF d] by (simp add: BASE64URL_PATTERN_def)
  then have "1 \<le> length ?s" by (simp add: Suc_le_eq)
  then show thesis using that [of ?s] decoded_valid(2) [OF d] d assms by (simp add: encode_valid MAX_CURSOR_LENGTH_def)
qed

definition stored_keys_valid :: "TransactionRecord list \<Rightarrow> bool" where
  "stored_keys_valid rows = list_all (\<lambda>r. valid_cursor (cursor_of r)) rows"

lemma http_walk_eq:
  assumes "list_all2 answers_from tables repos" "list_all stored_keys_valid tables"
    "transactionHistoryQuerySchema q = Some (f, page)" "decodePageCursor (pq_cursor page) = Inr c"
  shows "http_walk q repos = Some (history_walk (page_filters f c) repos)"
  using assms
proof (induction tables repos arbitrary: q page c rule: list_all2_induct)
  case (Cons rows tables repo repos)
  let ?page = "getPayoutsPage repo (page_filters f c)"
  have lim: "pf_limit (page_filters f c) = Some (pq_limit page)" "1 \<le> pq_limit page"
    using schema_page [OF Cons.prems(2)] by (simp_all add: page_filters_def PayoutFilters.defs)
  show ?case
  proof (cases "buildPageMetadata ?page")
    case None
    then show ?thesis using Cons.prems by (simp add: history_route_def page_answer_def)
  next
    case (Some d)
    have "last (pg_records ?page) \<in> set rows"
      using page_rows_stored [OF Cons.hyps(1), of "page_filters f c"] lim page_cursor_row [OF Some] by (auto simp: default_to_def)
    then have "valid_cursor d"
      using Cons.prems(1) page_cursor_row [OF Some] by (simp add: stored_keys_valid_def list_all_iff)
    then obtain s where s: "encodeTransactionCursor d = Inr s" "decodeTransactionCursor s = Inr d" "1 \<le> length s" "length s \<le> 512"
      by (rule encoded_text)
    have next_page: "history_walk (page_filters f c\<lparr>pf_cursor := Some d\<rparr>) repos = history_walk (page_filters f (Some d)) repos"
      by (simp add: page_filters_def PayoutFilters.defs)
    have "http_walk (q(''cursor'' \<mapsto> Q_text s)) repos = Some (history_walk (page_filters f (Some d)) repos)"
      using Cons.prems(1) s(2)
      by (intro Cons.IH [OF _ schema_cursor [OF Cons.prems(2) s(3,4)]]) (simp_all add: decodePageCursor_def)
    then show ?thesis using Cons.prems s(1) Some next_page by (simp add: history_route_def page_answer_def)
  qed
qed simp

section \<open>Sample requests\<close>

definition sample_uuid :: "char \<Rightarrow> string" where
  "sample_uuid c = c # ''0000000-0000-4000-8000-00000000000a''"

definition uuid_rows :: "TransactionRecord list" where
  "uuid_rows = [sample_row 5 (sample_uuid (CHR ''a'')) ''W'', sample_row 7 (sample_uuid (CHR ''b'')) ''V'']"

definition small_page :: query where
  "small_page = [''limit'' \<mapsto> Q_text ''1'']"

lemma number_text_one: "number_text ''1'' = Some 1"
proof -
  have d: "decimal_text ''1'' = Some 1"
    using decimal_text_digits [of "''1''"] by (simp add: is_digit_def text_nat_def digit_val_def Let_def)
  have "trim ''1'' = ''1''" "\<not> is_prefixed ''1''" "\<not> starts_with ''1'' ''-''" "\<not> starts_with ''1'' ''+''" by code_simp+
  then show ?thesis unfolding number_text_def numeral_text_def Let_def by (simp add: d)
qed

lemma small_page_schema:
  "transactionHistoryQuerySchema small_page =
     Some (no_filters\<lparr>pf_limit := Some 1, pf_offset := Some 0\<rparr>, \<lparr>pq_limit = 1, pq_offset = 0, pq_cursor = None\<rparr>)"
proof -
  have "coerce_number (Q_text ''1'') = Some 1"
    using to_double_safe [of 1] by (simp add: coerce_number_def number_text_one)
  then have "int_field (\<lambda>n. 1 \<le> n \<and> n \<le> MAX_TRANSACTION_PAGE_SIZE) (Q_text ''1'') = Some 1"
    by (simp add: int_field_def isSafeInteger_def MAX_TRANSACTION_PAGE_SIZE_def)
  then show ?thesis
    by (simp add: transactionHistoryQuerySchema_def transactionRecipientQuerySchema_def small_page_def optional_field_def
        default_field_def no_filters_def)
qed

lemma uuid_rows_stored: "keyed uuid_rows" "stored_keys_valid uuid_rows"
  by code_simp+

section \<open>Properties\<close>

text \<open>
  (C32) The text of a cursor: a cursor with a safe, non-negative timestamp and a UUID has a text, which
  is read back to the same cursor; no other cursor has one. Whatever text a client sends, it is
  refused or stands for such a cursor, and then it is at most 512 characters of the base64url alphabet.
\<close>

theorem cursor_text_roundtrip:
  "(if valid_cursor c then \<exists>s. encodeTransactionCursor c = Inr s \<and> decodeTransactionCursor s = Inr c
    else encodeTransactionCursor c = Inl InvalidTransactionCursorError)
   \<and> (decodeTransactionCursor raw = Inr d \<longrightarrow> valid_cursor d \<and> length raw \<le> 512 \<and> BASE64URL_PATTERN raw)"
proof -
  have "\<exists>s. encodeTransactionCursor c = Inr s \<and> decodeTransactionCursor s = Inr c" if "valid_cursor c"
    using that by (auto elim: encoded_text)
  then show ?thesis using decoded_valid [of raw d] by (auto simp: encode_valid MAX_CURSOR_LENGTH_def)
qed

theorem cursor_text_roundtrip_witness:
  "\<exists>s. decodeTransactionCursor s = Inr \<lparr>cur_timestamp = 5, cur_id = sample_uuid (CHR ''a'')\<rparr> \<and> length s \<le> 512"
proof -
  let ?c = "\<lparr>cur_timestamp = 5, cur_id = sample_uuid (CHR ''a'')\<rparr>"
  have "valid_cursor ?c" by code_simp
  then obtain s where "decodeTransactionCursor s = Inr ?c" using cursor_text_roundtrip [of ?c "[]" ?c] by auto
  then show ?thesis using cursor_text_roundtrip [of ?c s ?c] by blast
qed

text \<open>
  (C25) Reading the history over HTTP, from an accepted request without a cursor or an offset, sending
  each \<open>nextCursor\<close> back as it was received, while rows come and go between the requests: no request is
  refused; and once the client is told that nothing follows, the pages together are strictly newest
  first, every row in them matches the filters of the first request and was in the table, and every
  matching row that was there all along is in them.
\<close>

theorem http_history_stable:
  assumes "list_all2 answers_from tables repos" "list_all stored_keys_valid tables"
    "transactionHistoryQuerySchema q = Some (f, page)" "pq_cursor page = None" "pq_offset page = 0"
  shows "\<exists>pages ended. http_walk q repos = Some (pages, ended) \<and>
    (ended \<longrightarrow> newest_first (concat pages)
      \<and> (\<forall>r \<in> set (concat pages). payout_matches f r \<and> (\<exists>rows \<in> set tables. r \<in> set rows))
      \<and> (\<forall>r. payout_matches f r \<and> (\<forall>rows \<in> set tables. r \<in> set rows) \<longrightarrow> r \<in> set (concat pages)))"
proof -
  let ?f = "page_filters f None"
  have walk: "http_walk q repos = Some (history_walk ?f repos)"
    using assms(4) by (intro http_walk_eq [OF assms(1-3)]) (simp add: decodePageCursor_def)
  have lim: "0 < default_to 20 (pf_limit ?f)" "default_to 0 (pf_offset ?f) \<le> 0" "pf_cursor ?f = None"
    using schema_page [OF assms(3)] assms(5) by (simp_all add: page_filters_def PayoutFilters.defs default_to_def)
  have same: "payout_matches ?f r = payout_matches f r" for r
    by (simp add: payout_matches_def page_filters_def PayoutFilters.defs)
  obtain pages ended where w: "history_walk ?f repos = (pages, ended)" by (metis surj_pair)
  show ?thesis
    using keyset_walk_stable [OF assms(1) lim(1,2), of pages] walk w lim(3) by (auto simp: same after_cursor_def)
qed

theorem http_history_stable_witness:
  "\<exists>pages. http_walk small_page [table_repo uuid_rows, table_repo uuid_rows] = Some (pages, True) \<and> set uuid_rows \<subseteq> set (concat pages)"
proof -
  let ?repos = "[table_repo uuid_rows, table_repo uuid_rows]" and ?tables = "[uuid_rows, uuid_rows]"
  have answers: "list_all2 answers_from ?tables ?repos" by (simp add: table_repo_answers uuid_rows_stored)
  have stored: "list_all stored_keys_valid ?tables" by (simp add: uuid_rows_stored)
  have "snd (history_walk (page_filters (no_filters\<lparr>pf_limit := Some 1, pf_offset := Some 0\<rparr>) None) ?repos)" by code_simp
  moreover have "http_walk small_page ?repos = Some (history_walk (page_filters (no_filters\<lparr>pf_limit := Some 1, pf_offset := Some 0\<rparr>) None) ?repos)"
    by (rule http_walk_eq [OF answers stored small_page_schema]) (simp add: decodePageCursor_def)
  moreover have "payout_matches (no_filters\<lparr>pf_limit := Some 1, pf_offset := Some 0\<rparr>) r" for r
    by (simp add: payout_matches_def no_filters_def)
  ultimately show ?thesis
    using http_history_stable [OF answers stored small_page_schema] by fastforce
qed

text \<open>
  While the database is down the lookups answer as if nothing were stored: the history is an empty
  first and last page, and a transaction that exists is reported as not found.
\<close>

theorem outage_reads_empty:
  assumes "\<And>q. getCount repo q = Inl DbError" "\<And>p. find_like repo p = Inl DbError"
  shows "history_route repo (\<lambda>_. None) =
      Inr \<lparr>pa_transactions = [], pa_total = 0, pa_limit = 20, pa_offset = 0, pa_hasMore = False, pa_nextCursor = None\<rparr>"
    "h \<noteq> [] \<Longrightarrow> hash_route repo h = Inl (Raised_app (app_error ''RPC'' ''NOT_FOUND''))"
  by (simp_all add: history_route_def transactionHistoryQuerySchema_def transactionRecipientQuerySchema_def optional_field_def
      default_field_def decodePageCursor_def page_answer_def getPayoutsPage_def buildPageMetadata_def assms hash_route_def searchPayouts_def)

end
