(* ===== verification/Event_Streams.thy ===== *)
theory Event_Streams
  imports Event_Listener Json_Text Health_Probes
begin

text \<open>
  Server-sent event streams (\<open>backend/src/routes/events.ts\<close>, \<open>services/SseEventBus.ts\<close>,
  \<open>services/EventBus.ts\<close>, the connection counters of \<open>services/metrics.ts\<close>). A response is a number;
  a subscription of \<open>/events\<close> is known by its response. What a response was sent is kept in
  \<open>sse_output\<close>; nothing reaches a response that has ended. The close event of a response comes once,
  some time after it ended or its client went away.
\<close>

section \<open>State\<close>

record TransactionUpdate =
  up_txHash :: string
  up_roundId :: string
  up_recipient :: string
  up_amount :: string
  up_token :: string
  up_timestamp :: int
  up_status :: TransactionStatus

datatype sse_frame =
    Update_frame TransactionUpdate
  | Confirmed_frame TransactionRecord
  | Auth_expired
  | Comment string

record sse_state =
  activeSubscriptions :: "(string, nat list) jmap"
  activeSseResponses :: "nat list"
  sse_bus :: "(string \<times> nat) list"
  event_bus :: "(string \<times> nat) list"
  sse_ended :: "nat list"
  sse_output :: "nat \<Rightarrow> sse_frame list"
  sseConnectionsActive :: nat
  sseDisconnectsTotal :: nat

definition no_streams :: sse_state where
  "no_streams = \<lparr>activeSubscriptions = [], activeSseResponses = [], sse_bus = [], event_bus = [], sse_ended = [],
     sse_output = (\<lambda>_. []), sseConnectionsActive = 0, sseDisconnectsTotal = 0\<rparr>"

section \<open>Limits\<close>

text \<open>
  \<open>Number.isNaN(parsed) ? d : Math.max(1, parsed)\<close>; the limit need not be a whole number, and
  \<open>None\<close> is no limit.
\<close>

definition configured_limit :: "nat \<Rightarrow> string option \<Rightarrow> rat option" where
  "configured_limit d raw =
     (case raw of None \<Rightarrow> Some (of_nat d)
      | Some s \<Rightarrow> (case js_Number s of NaN \<Rightarrow> Some (of_nat d) | Infinity \<Rightarrow> None | Minus_infinity \<Rightarrow> Some 1
          | Finite q \<Rightarrow> Some (max 1 q)))"

definition limit_reached :: "nat \<Rightarrow> rat option \<Rightarrow> bool" where
  "limit_reached n limit = (case limit of None \<Rightarrow> False | Some q \<Rightarrow> q \<le> of_nat n)"

text \<open>The environment of the module: \<open>SSE_MAX_LISTENERS_PER_TXHASH\<close> and \<open>MAX_GLOBAL_SSE_CONNECTIONS\<close>.\<close>

record sse_env =
  env_per_txhash :: "string option"
  env_global :: "string option"

definition MAX_LISTENERS_PER_TXHASH :: "sse_env \<Rightarrow> rat option" where
  "MAX_LISTENERS_PER_TXHASH env = configured_limit 5 (env_per_txhash env)"

definition MAX_GLOBAL_SSE_CONNECTIONS :: "sse_env \<Rightarrow> rat option" where
  "MAX_GLOBAL_SSE_CONNECTIONS env = configured_limit 100 (env_global env)"

section \<open>Subscriptions and counters\<close>

definition getSseEventName :: "string \<Rightarrow> string" where
  "getSseEventName txHash = ''tx:'' @ txHash"

definition getSubscriptionCount :: "string \<Rightarrow> sse_state \<Rightarrow> nat" where
  "getSubscriptionCount txHash st = length (default_to [] (jm_get (activeSubscriptions st) txHash))"

definition addSubscription :: "string \<Rightarrow> nat \<Rightarrow> sse_state \<Rightarrow> sse_state" where
  "addSubscription txHash res st =
     (let subs = default_to [] (jm_get (activeSubscriptions st) txHash)
      in st\<lparr>activeSubscriptions := jm_set (activeSubscriptions st) txHash (if res \<in> set subs then subs else subs @ [res])\<rparr>)"

definition removeSubscription :: "string \<Rightarrow> nat \<Rightarrow> sse_state \<Rightarrow> sse_state" where
  "removeSubscription txHash res st =
     (case jm_get (activeSubscriptions st) txHash of
        None \<Rightarrow> st
      | Some subs \<Rightarrow>
        let left = filter (\<lambda>r. r \<noteq> res) subs
        in st\<lparr>activeSubscriptions := (if left = [] then jm_delete (activeSubscriptions st) txHash
             else jm_set (activeSubscriptions st) txHash left)\<rparr>)"

definition incrementSseConnections :: "sse_state \<Rightarrow> sse_state" where
  "incrementSseConnections st = st\<lparr>sseConnectionsActive := sseConnectionsActive st + 1\<rparr>"

definition recordSseDisconnect :: "sse_state \<Rightarrow> sse_state" where
  "recordSseDisconnect st =
     st\<lparr>sseConnectionsActive := sseConnectionsActive st - 1, sseDisconnectsTotal := sseDisconnectsTotal st + 1\<rparr>"

text \<open>\<open>res.write\<close> and \<open>res.end\<close>.\<close>

definition send :: "sse_frame \<Rightarrow> nat \<Rightarrow> sse_state \<Rightarrow> sse_state" where
  "send frame res st =
     (if res \<in> set (sse_ended st) then st else st\<lparr>sse_output := (sse_output st)(res := sse_output st res @ [frame])\<rparr>)"

definition end_response :: "nat \<Rightarrow> sse_state \<Rightarrow> sse_state" where
  "end_response res st = st\<lparr>sse_ended := (if res \<in> set (sse_ended st) then sse_ended st else sse_ended st @ [res])\<rparr>"

section \<open>Handlers\<close>

datatype sse_answer = Opened | Refused int string

definition rejectIfShuttingDown :: "lifecycle \<Rightarrow> sse_answer option" where
  "rejectIfShuttingDown life = (if lc_shuttingDown life then Some (Refused 503 ''shutting_down'') else None)"

text \<open>A new response is added to the set of open ones.\<close>

definition open_response :: "nat \<Rightarrow> sse_state \<Rightarrow> sse_state" where
  "open_response res st =
     st\<lparr>activeSseResponses := (if res \<in> set (activeSseResponses st) then activeSseResponses st else activeSseResponses st @ [res])\<rparr>"

definition handleEventStream :: "sse_env \<Rightarrow> lifecycle \<Rightarrow> string option \<Rightarrow> nat \<Rightarrow> sse_state \<Rightarrow> sse_state \<times> sse_answer" where
  "handleEventStream env life query res st =
     (case rejectIfShuttingDown life of
        Some refused \<Rightarrow> (st, refused)
      | None \<Rightarrow>
        let txHash = trim (default_to [] query)
        in if limit_reached (length (activeSseResponses st)) (MAX_GLOBAL_SSE_CONNECTIONS env)
           then (st, Refused 429 ''too_many_global_sse_connections'')
           else if txHash = [] then (st, Refused 400 ''VALIDATION_ERROR'')
           else if limit_reached (getSubscriptionCount txHash st) (MAX_LISTENERS_PER_TXHASH env)
           then (st, Refused 429 ''too_many_event_listeners'')
           else let st1 = open_response res (addSubscription txHash res st)
             in (incrementSseConnections (st1\<lparr>sse_bus := sse_bus st1 @ [(getSseEventName txHash, res)]\<rparr>), Opened))"

text \<open>The close handler of \<open>/events\<close>: \<open>subscription.cleanup()\<close> and the rest.\<close>

definition event_stream_closed :: "string \<Rightarrow> nat \<Rightarrow> sse_state \<Rightarrow> sse_state" where
  "event_stream_closed txHash res st =
     (let st1 = st\<lparr>sse_bus := filter (\<lambda>l. l \<noteq> (getSseEventName txHash, res)) (sse_bus st)\<rparr>;
          st2 = removeSubscription txHash res st1
      in recordSseDisconnect (st2\<lparr>activeSseResponses := filter (\<lambda>r. r \<noteq> res) (activeSseResponses st2)\<rparr>))"

definition handleTransactionStream :: "lifecycle \<Rightarrow> string \<Rightarrow> nat \<Rightarrow> sse_state \<Rightarrow> sse_state \<times> sse_answer" where
  "handleTransactionStream life param res st =
     (case rejectIfShuttingDown life of
        Some refused \<Rightarrow> (st, refused)
      | None \<Rightarrow>
        let txHash = trim param
        in if txHash = [] then (st, Refused 400 ''VALIDATION_ERROR'')
           else let st1 = st\<lparr>event_bus := event_bus st @ [(txHash, res)]\<rparr>
             in (incrementSseConnections (open_response res st1), Opened))"

definition transaction_stream_closed :: "string \<Rightarrow> nat \<Rightarrow> sse_state \<Rightarrow> sse_state" where
  "transaction_stream_closed txHash res st =
     (let st1 = st\<lparr>event_bus := filter (\<lambda>l. l \<noteq> (txHash, res)) (event_bus st)\<rparr>
      in recordSseDisconnect (st1\<lparr>activeSseResponses := filter (\<lambda>r. r \<noteq> res) (activeSseResponses st1)\<rparr>))"

definition closeAllSseConnections :: "sse_state \<Rightarrow> sse_state \<times> nat" where
  "closeAllSseConnections st = (fold end_response (activeSseResponses st) st, length (activeSseResponses st))"

definition getActiveSseConnectionCount :: "sse_state \<Rightarrow> nat" where
  "getActiveSseConnectionCount st = length (activeSseResponses st)"

text \<open>The timers of a stream: a comment, and the check of the authorization header of \<open>/events\<close>.\<close>

definition keep_alive :: "string \<Rightarrow> nat \<Rightarrow> sse_state \<Rightarrow> sse_state" where
  "keep_alive comment res st = send (Comment comment) res st"

definition revalidate :: "string option \<Rightarrow> nat \<Rightarrow> sse_state \<Rightarrow> sse_state" where
  "revalidate authorization res st =
     (case authorization of
        Some h \<Rightarrow> if starts_with h ''Bearer invalid_revoked_token'' then end_response res (send Auth_expired res st) else st
      | None \<Rightarrow> st)"

section \<open>Publishing\<close>

definition update_of :: "TransactionRecord \<Rightarrow> TransactionUpdate" where
  "update_of r = \<lparr>up_txHash = tx_txHash r, up_roundId = tx_roundId r, up_recipient = tx_recipient r, up_amount = tx_amount r,
     up_token = tx_token r, up_timestamp = tx_timestamp r, up_status = tx_status r\<rparr>"

text \<open>An emitter calls its listeners in the order they were added.\<close>

definition emit_confirmed :: "TransactionRecord \<Rightarrow> sse_state \<Rightarrow> sse_state" where
  "emit_confirmed r st = fold (\<lambda>(txHash, res). if tx_txHash r = txHash then send (Confirmed_frame r) res else id) (event_bus st) st"

definition publishSseEvent :: "string \<Rightarrow> TransactionUpdate \<Rightarrow> sse_state \<Rightarrow> sse_state" where
  "publishSseEvent txHash payload st =
     fold (\<lambda>(name, res). if name = getSseEventName txHash then send (Update_frame payload) res else id) (sse_bus st) st"

definition publish_records :: "TransactionRecord list \<Rightarrow> sse_state \<Rightarrow> sse_state" where
  "publish_records records st = fold (\<lambda>r st. publishSseEvent (tx_txHash r) (update_of r) (emit_confirmed r st)) records st"

section \<open>Runs\<close>

text \<open>
  What can happen to the streams: requests with a new response each, close events of open streams,
  published records, timers, and the shutdown, which marks the service and ends every open stream.
\<close>

record sse_world =
  sw_life :: lifecycle
  sw_state :: sse_state
  sw_used :: "nat list"

inductive sse_step :: "sse_env \<Rightarrow> sse_world \<Rightarrow> sse_world \<Rightarrow> bool" for env where
  open_events: "\<lbrakk>res \<notin> set (sw_used w); handleEventStream env (sw_life w) query res (sw_state w) = (st, answer)\<rbrakk>
    \<Longrightarrow> sse_step env w (w\<lparr>sw_state := st, sw_used := res # sw_used w\<rparr>)"
| open_transaction: "\<lbrakk>res \<notin> set (sw_used w); handleTransactionStream (sw_life w) param res (sw_state w) = (st, answer)\<rbrakk>
    \<Longrightarrow> sse_step env w (w\<lparr>sw_state := st, sw_used := res # sw_used w\<rparr>)"
| close_events: "(getSseEventName txHash, res) \<in> set (sse_bus (sw_state w))
    \<Longrightarrow> sse_step env w (w\<lparr>sw_state := event_stream_closed txHash res (sw_state w)\<rparr>)"
| close_transaction: "(txHash, res) \<in> set (event_bus (sw_state w))
    \<Longrightarrow> sse_step env w (w\<lparr>sw_state := transaction_stream_closed txHash res (sw_state w)\<rparr>)"
| published: "sse_step env w (w\<lparr>sw_state := publish_records records (sw_state w)\<rparr>)"
| timer: "res \<in> set (activeSseResponses (sw_state w)) \<Longrightarrow> sse_step env w (w\<lparr>sw_state := keep_alive comment res (sw_state w)\<rparr>)"
| revalidation: "(name, res) \<in> set (sse_bus (sw_state w))
    \<Longrightarrow> sse_step env w (w\<lparr>sw_state := revalidate authorization res (sw_state w)\<rparr>)"
| shutdown: "sse_step env w (w\<lparr>sw_life := markShuttingDown (sw_life w), sw_state := fst (closeAllSseConnections (sw_state w))\<rparr>)"

inductive sse_reachable :: "sse_env \<Rightarrow> sse_world \<Rightarrow> bool" for env where
  start: "sse_reachable env \<lparr>sw_life = life, sw_state = no_streams, sw_used = []\<rparr>" if "\<not> lc_shuttingDown life"
| step: "sse_reachable env w \<Longrightarrow> sse_step env w w' \<Longrightarrow> sse_reachable env w'"

section \<open>Delivery\<close>

text \<open>The part of the state no delivery changes.\<close>

lemma send_output:
  "send f res st = st\<lparr>sse_output := \<lambda>r. sse_output st r @ (if r = res \<and> r \<notin> set (sse_ended st) then [f] else [])\<rparr>"
  by (auto simp: send_def fun_eq_iff)

lemma fold_send:
  assumes "distinct (map snd bus)"
  shows "fold (\<lambda>(h, res). if P h then send f res else id) bus st =
    st\<lparr>sse_output := \<lambda>r. sse_output st r @ (if r \<notin> set (sse_ended st) \<and> (\<exists>h. (h, r) \<in> set bus \<and> P h) then [f] else [])\<rparr>"
  using assms
proof (induction bus arbitrary: st)
  case (Cons l bus)
  obtain h res where l: "l = (h, res)" by (cases l)
  have "(\<exists>h'. (h', r) \<in> set bus \<and> P h') \<longrightarrow> r \<noteq> res" for r using Cons.prems by (force simp: l)
  then show ?case using Cons by (intro sse_state.equality) (auto simp: l send_output fun_eq_iff)
qed simp

definition frames_for :: "sse_state \<Rightarrow> nat \<Rightarrow> TransactionRecord \<Rightarrow> sse_frame list" where
  "frames_for st res r =
     (if res \<in> set (sse_ended st) then []
      else (if (tx_txHash r, res) \<in> set (event_bus st) then [Confirmed_frame r] else []) @
        (if (getSseEventName (tx_txHash r), res) \<in> set (sse_bus st) then [Update_frame (update_of r)] else []))"

lemma publish_records_output:
  assumes "distinct (map snd (sse_bus st))" "distinct (map snd (event_bus st))"
  shows "publish_records records st = st\<lparr>sse_output := \<lambda>res. sse_output st res @ concat (map (frames_for st res) records)\<rparr>"
  using assms
proof (induction records arbitrary: st)
  case (Cons r records)
  let ?st = "publishSseEvent (tx_txHash r) (update_of r) (emit_confirmed r st)"
  have emitted: "emit_confirmed r st =
      st\<lparr>sse_output := \<lambda>res. sse_output st res @ (if res \<notin> set (sse_ended st) \<and> (\<exists>h. (h, res) \<in> set (event_bus st) \<and> tx_txHash r = h)
        then [Confirmed_frame r] else [])\<rparr>"
    unfolding emit_confirmed_def using Cons.prems(2) by (rule fold_send)
  have "?st = st\<lparr>sse_output := \<lambda>res. sse_output st res @ frames_for st res r\<rparr>"
    unfolding publishSseEvent_def emitted
    using fold_send [OF Cons.prems(1), of "\<lambda>n. n = getSseEventName (tx_txHash r)" "Update_frame (update_of r)"]
    by (auto simp: frames_for_def fun_eq_iff)
  moreover from this have "frames_for ?st = frames_for st" by (simp add: frames_for_def fun_eq_iff)
  ultimately show ?case using Cons by (simp add: publish_records_def)
qed (simp add: publish_records_def)

lemma fold_end_response: "\<exists>e. fold end_response rs st = st\<lparr>sse_ended := e\<rparr> \<and> set e = set (sse_ended st) \<union> set rs"
proof (induction rs arbitrary: st)
  case (Cons r rs)
  obtain e where e: "fold end_response rs (end_response r st) = (end_response r st)\<lparr>sse_ended := e\<rparr>"
    "set e = set (sse_ended (end_response r st)) \<union> set rs" using Cons by blast
  have "end_response r st\<lparr>sse_ended := e\<rparr> = st\<lparr>sse_ended := e\<rparr>"
    "set (sse_ended (end_response r st)) = insert r (set (sse_ended st))" by (auto simp: end_response_def)
  with e show ?case by (intro exI [of _ e]) simp
next
  case Nil
  show ?case by (rule exI [of _ "sse_ended st"]) simp
qed

section \<open>The invariant of the streams\<close>

abbreviation subscribers :: "sse_state \<Rightarrow> string \<Rightarrow> nat list" where
  "subscribers st txHash \<equiv> map snd (filter (\<lambda>l. fst l = getSseEventName txHash) (sse_bus st))"

definition fits :: "nat \<Rightarrow> rat option \<Rightarrow> bool" where
  "fits n limit = (case limit of None \<Rightarrow> True | Some q \<Rightarrow> of_nat n < q + 1)"

definition sse_inv :: "sse_env \<Rightarrow> sse_world \<Rightarrow> bool" where
  "sse_inv env w =
     (let st = sw_state w in
      distinct (activeSseResponses st) \<and> set (activeSseResponses st) \<subseteq> set (sw_used w)
      \<and> distinct (map snd (sse_bus st) @ map snd (event_bus st))
      \<and> set (activeSseResponses st) = set (map snd (sse_bus st) @ map snd (event_bus st))
      \<and> sseConnectionsActive st = length (activeSseResponses st)
      \<and> (\<forall>h. default_to [] (jm_get (activeSubscriptions st) h) = subscribers st h)
      \<and> (\<forall>h. jm_get (activeSubscriptions st) h \<noteq> Some [])
      \<and> (\<forall>h. fits (length (subscribers st h)) (MAX_LISTENERS_PER_TXHASH env))
      \<and> fits (length (sse_bus st)) (MAX_GLOBAL_SSE_CONNECTIONS env)
      \<and> (lc_shuttingDown (sw_life w) \<longrightarrow> set (activeSseResponses st) \<subseteq> set (sse_ended st)))"

lemma fits_mono: "fits n limit \<Longrightarrow> m \<le> n \<Longrightarrow> fits m limit"
  by (auto simp: fits_def split: option.splits)

lemma fits_Suc: "\<not> limit_reached n limit \<Longrightarrow> fits (Suc n) limit"
  by (auto simp: fits_def limit_reached_def split: option.splits)

lemma configured_limit_pos: "fits 0 (configured_limit d raw)"
  by (auto simp: fits_def configured_limit_def split: option.splits js_number.splits)

lemma event_name_eq [simp]: "getSseEventName h = getSseEventName h' \<longleftrightarrow> h = h'"
  by (simp add: getSseEventName_def)

lemma default_to_Nil: "default_to [] v = (case v of None \<Rightarrow> [] | Some xs \<Rightarrow> xs)"
  by (simp add: default_to_def split: option.split)

lemma inv_used: "sse_inv env w \<Longrightarrow> sse_inv env (w\<lparr>sw_used := res # sw_used w\<rparr>)"
  by (auto simp: sse_inv_def Let_def)

lemma sse_inv_output: "sse_inv env (w\<lparr>sw_state := (sw_state w)\<lparr>sse_output := out\<rparr>\<rparr>) = sse_inv env w"
  by (simp add: sse_inv_def Let_def)

lemma sse_inv_ended:
  assumes "sse_inv env w" "set (sse_ended (sw_state w)) \<subseteq> set e"
  shows "sse_inv env (w\<lparr>sw_state := (sw_state w)\<lparr>sse_ended := e\<rparr>\<rparr>)"
proof -
  have "lc_shuttingDown (sw_life w) \<longrightarrow> set (activeSseResponses (sw_state w)) \<subseteq> set e"
    using assms unfolding sse_inv_def Let_def by blast
  then show ?thesis using assms(1) by (simp add: sse_inv_def Let_def) blast
qed

lemma handleEventStream_cases:
  assumes "handleEventStream env life query res st = (st', answer)"
  obtains (refused) status code where "st' = st" "answer = Refused status code"
  | (opened) h where "h = trim (default_to [] query)" "h \<noteq> []" "\<not> lc_shuttingDown life" "answer = Opened"
      "\<not> limit_reached (length (activeSseResponses st)) (MAX_GLOBAL_SSE_CONNECTIONS env)"
      "\<not> limit_reached (getSubscriptionCount h st) (MAX_LISTENERS_PER_TXHASH env)"
      "st' = incrementSseConnections ((open_response res (addSubscription h res st))\<lparr>sse_bus := sse_bus st @ [(getSseEventName h, res)]\<rparr>)"
  using assms
  by (auto simp: handleEventStream_def rejectIfShuttingDown_def Let_def open_response_def addSubscription_def split: if_splits)

lemma inv_open_events:
  assumes "sse_inv env w" "res \<notin> set (sw_used w)" "handleEventStream env (sw_life w) query res (sw_state w) = (st, answer)"
  shows "sse_inv env (w\<lparr>sw_state := st, sw_used := res # sw_used w\<rparr>)"
  using assms(3)
proof (cases rule: handleEventStream_cases)
  case refused
  then show ?thesis using inv_used [OF assms(1), of res] by simp
next
  case (opened h)
  let ?s = "sw_state w"
  have new: "res \<notin> set (activeSseResponses ?s)" using assms(1,2) by (auto simp: sse_inv_def Let_def)
  then have nobus: "res \<notin> snd ` set (sse_bus ?s)" "res \<notin> snd ` set (event_bus ?s)"
    using assms(1) by (auto simp: sse_inv_def Let_def)
  have subs: "default_to [] (jm_get (activeSubscriptions ?s) h) = subscribers ?s h" using assms(1) by (simp add: sse_inv_def Let_def)
  have nosub: "res \<notin> set (subscribers ?s h)" using nobus(1) by auto
  have st: "st = ?s\<lparr>activeSubscriptions := jm_set (activeSubscriptions ?s) h (subscribers ?s h @ [res]),
      activeSseResponses := activeSseResponses ?s @ [res], sse_bus := sse_bus ?s @ [(getSseEventName h, res)],
      sseConnectionsActive := sseConnectionsActive ?s + 1\<rparr>"
    using nosub new unfolding opened(7) by (simp add: incrementSseConnections_def open_response_def addSubscription_def subs Let_def)
  have one: "fits (Suc (length (subscribers ?s h))) (MAX_LISTENERS_PER_TXHASH env)"
    using fits_Suc [OF opened(6)] by (simp add: getSubscriptionCount_def subs)
  have len: "length (activeSseResponses ?s) = length (sse_bus ?s) + length (event_bus ?s)"
  proof -
    have "distinct (activeSseResponses ?s)" "distinct (map snd (sse_bus ?s) @ map snd (event_bus ?s))"
      "set (activeSseResponses ?s) = set (map snd (sse_bus ?s) @ map snd (event_bus ?s))"
      using assms(1) unfolding sse_inv_def Let_def by blast+
    then have "length (activeSseResponses ?s) = length (map snd (sse_bus ?s) @ map snd (event_bus ?s))"
      by (metis distinct_card)
    then show ?thesis by simp
  qed
  have all: "fits (Suc (length (sse_bus ?s))) (MAX_GLOBAL_SSE_CONNECTIONS env)"
    using fits_mono [OF fits_Suc [OF opened(5)]] len by simp
  show ?thesis
    using assms(1) new nobus one all opened(3) unfolding st sse_inv_def Let_def by (auto simp: default_to_Nil)
qed

lemma inv_open_transaction:
  assumes "sse_inv env w" "res \<notin> set (sw_used w)" "handleTransactionStream (sw_life w) param res (sw_state w) = (st, answer)"
  shows "sse_inv env (w\<lparr>sw_state := st, sw_used := res # sw_used w\<rparr>)"
proof (cases "st = sw_state w")
  case True
  then show ?thesis using inv_used [OF assms(1), of res] by simp
next
  case False
  let ?s = "sw_state w"
  have new: "res \<notin> set (activeSseResponses ?s)" using assms(1,2) by (auto simp: sse_inv_def Let_def)
  then have nobus: "res \<notin> snd ` set (sse_bus ?s)" "res \<notin> snd ` set (event_bus ?s)"
    using assms(1) by (auto simp: sse_inv_def Let_def)
  have "\<not> lc_shuttingDown (sw_life w)" "st = ?s\<lparr>activeSseResponses := activeSseResponses ?s @ [res],
      event_bus := event_bus ?s @ [(trim param, res)], sseConnectionsActive := sseConnectionsActive ?s + 1\<rparr>"
    using assms(3) False new
    by (auto simp: handleTransactionStream_def rejectIfShuttingDown_def incrementSseConnections_def open_response_def Let_def split: if_splits)
  then show ?thesis using assms(1) new nobus unfolding sse_inv_def Let_def by auto
qed

lemma length_remove1_filter: "distinct xs \<Longrightarrow> x \<in> set xs \<Longrightarrow> length (filter (\<lambda>y. y \<noteq> x) xs) = length xs - 1"
proof (induction xs)
  case (Cons y xs)
  then show ?case by (cases "x = y") (auto simp: filter_id_conv intro: arg_cong [of _ _ length] dest: length_pos_if_in_set)
qed simp

lemma filter_pair:
  assumes "distinct (map snd xs)" "(a, b) \<in> set xs"
  shows "filter (\<lambda>l. l \<noteq> (a, b)) xs = filter (\<lambda>l. snd l \<noteq> b) xs"
proof (rule filter_cong [OF refl])
  fix l assume "l \<in> set xs"
  then show "(l \<noteq> (a, b)) = (snd l \<noteq> b)"
    using assms by (metis distinct_map inj_onD snd_conv)
qed

lemma inv_parts:
  assumes "sse_inv env w"
  shows "distinct (activeSseResponses (sw_state w))" "set (activeSseResponses (sw_state w)) \<subseteq> set (sw_used w)"
    "distinct (map snd (sse_bus (sw_state w)))" "distinct (map snd (event_bus (sw_state w)))"
    "snd ` set (sse_bus (sw_state w)) \<inter> snd ` set (event_bus (sw_state w)) = {}"
    "set (activeSseResponses (sw_state w)) = snd ` set (sse_bus (sw_state w)) \<union> snd ` set (event_bus (sw_state w))"
    "sseConnectionsActive (sw_state w) = length (activeSseResponses (sw_state w))"
    "default_to [] (jm_get (activeSubscriptions (sw_state w)) h) = subscribers (sw_state w) h"
    "jm_get (activeSubscriptions (sw_state w)) h \<noteq> Some []"
    "fits (length (subscribers (sw_state w) h)) (MAX_LISTENERS_PER_TXHASH env)"
    "fits (length (sse_bus (sw_state w))) (MAX_GLOBAL_SSE_CONNECTIONS env)"
    "lc_shuttingDown (sw_life w) \<Longrightarrow> set (activeSseResponses (sw_state w)) \<subseteq> set (sse_ended (sw_state w))"
  using assms unfolding sse_inv_def Let_def by auto

text \<open>A state that keeps a part of the listeners and closes the others.\<close>

lemma inv_shrink:
  assumes "sse_inv env w" and "sse_bus st = filter P (sse_bus (sw_state w))" "event_bus st = filter Q (event_bus (sw_state w))"
    and "distinct (activeSseResponses st)" "set (activeSseResponses st) = snd ` set (sse_bus st) \<union> snd ` set (event_bus st)"
    and "sseConnectionsActive st = length (activeSseResponses st)"
    and "\<And>h. default_to [] (jm_get (activeSubscriptions st) h) = subscribers st h" "\<And>h. jm_get (activeSubscriptions st) h \<noteq> Some []"
    and "sse_ended st = sse_ended (sw_state w)"
  shows "sse_inv env (w\<lparr>sw_state := st\<rparr>)"
proof -
  note p = inv_parts [OF assms(1)]
  have sub: "set (activeSseResponses st) \<subseteq> set (activeSseResponses (sw_state w))"
    unfolding assms(5) p(6) assms(2,3) by auto
  have "distinct (map snd (sse_bus st))" "distinct (map snd (event_bus st))"
    using p(3,4) by (simp_all add: assms(2,3) distinct_map_filter)
  moreover have "snd ` set (sse_bus st) \<inter> snd ` set (event_bus st) = {}" using p(5) by (auto simp: assms(2,3))
  moreover have "fits (length (subscribers st h)) (MAX_LISTENERS_PER_TXHASH env)" for h
    using fits_mono [OF p(10) [of h], of "length (subscribers st h)"] length_filter_le [of P "filter (\<lambda>l. fst l = getSseEventName h) (sse_bus (sw_state w))"]
    by (simp add: assms(2) conj_commute)
  moreover have "fits (length (sse_bus st)) (MAX_GLOBAL_SSE_CONNECTIONS env)"
    using fits_mono [OF p(11)] by (simp add: assms(2))
  moreover have "set (activeSseResponses st) \<subseteq> set (sw_used w)" using sub p(2) by blast
  moreover have "lc_shuttingDown (sw_life w) \<longrightarrow> set (activeSseResponses st) \<subseteq> set (sse_ended st)" using sub p(12) assms(9) by auto
  ultimately show ?thesis unfolding sse_inv_def Let_def using assms(4-8) by simp
qed

lemma inv_close_transaction:
  assumes "sse_inv env w" "(h, res) \<in> set (event_bus (sw_state w))"
  shows "sse_inv env (w\<lparr>sw_state := transaction_stream_closed h res (sw_state w)\<rparr>)"
proof -
  let ?s = "sw_state w"
  note p = inv_parts [OF assms(1)]
  have in_res: "res \<in> set (activeSseResponses ?s)" unfolding p(6) using assms(2) by force
  have bus: "res \<notin> snd ` set (sse_bus ?s)" using p(5) assms(2) by force
  have "transaction_stream_closed h res ?s = ?s\<lparr>event_bus := filter (\<lambda>l. snd l \<noteq> res) (event_bus ?s),
      activeSseResponses := filter (\<lambda>r. r \<noteq> res) (activeSseResponses ?s), sseConnectionsActive := sseConnectionsActive ?s - 1,
      sseDisconnectsTotal := sseDisconnectsTotal ?s + 1\<rparr>" (is "_ = ?st")
    by (simp add: transaction_stream_closed_def recordSseDisconnect_def filter_pair [OF p(4) assms(2)])
  moreover have "sse_inv env (w\<lparr>sw_state := ?st\<rparr>)"
    by (rule inv_shrink [OF assms(1), of _ "\<lambda>_. True" "\<lambda>l. snd l \<noteq> res"])
      (use p bus in_res length_remove1_filter [OF p(1) in_res] in auto)
  ultimately show ?thesis by simp
qed

lemma inv_close_events:
  assumes "sse_inv env w" "(getSseEventName h, res) \<in> set (sse_bus (sw_state w))"
  shows "sse_inv env (w\<lparr>sw_state := event_stream_closed h res (sw_state w)\<rparr>)"
proof -
  let ?s = "sw_state w" and ?st = "event_stream_closed h res (sw_state w)"
  note p = inv_parts [OF assms(1)]
  have in_res: "res \<in> set (activeSseResponses ?s)" unfolding p(6) using assms(2) by force
  have bus: "(a, res) \<notin> set (event_bus ?s)" for a using p(5) assms(2) by force
  have other: "l \<in> set (sse_bus ?s) \<Longrightarrow> snd l = res \<Longrightarrow> fst l = getSseEventName h" for l
    using p(3) assms(2) by (metis distinct_map inj_onD fst_conv snd_conv)
  have subs: "filter (\<lambda>r. r \<noteq> res) (subscribers ?s h) = map snd (filter (\<lambda>l. fst l = getSseEventName h \<and> snd l \<noteq> res) (sse_bus ?s))"
    by (simp add: filter_map comp_def conj_commute)
  have rest: "filter (\<lambda>l. fst l = getSseEventName h' \<and> snd l \<noteq> res) (sse_bus ?s) = filter (\<lambda>l. fst l = getSseEventName h') (sse_bus ?s)"
    if "h' \<noteq> h" for h' using other [of "(getSseEventName h', res)"] that by (intro filter_cong) auto
  obtain xs where xs: "jm_get (activeSubscriptions ?s) h = Some xs"
    using p(8) [of h] assms(2) by (cases "jm_get (activeSubscriptions ?s) h") (auto simp: filter_empty_conv)
  then have xs_eq: "xs = subscribers ?s h" using p(8) [of h] by simp
  let ?left = "filter (\<lambda>r. r \<noteq> res) xs"
  have st: "?st = ?s\<lparr>sse_bus := filter (\<lambda>l. snd l \<noteq> res) (sse_bus ?s),
      activeSubscriptions := (if ?left = [] then jm_delete (activeSubscriptions ?s) h else jm_set (activeSubscriptions ?s) h ?left),
      activeSseResponses := filter (\<lambda>r. r \<noteq> res) (activeSseResponses ?s), sseConnectionsActive := sseConnectionsActive ?s - 1,
      sseDisconnectsTotal := sseDisconnectsTotal ?s + 1\<rparr>"
    using xs by (simp add: event_stream_closed_def removeSubscription_def recordSseDisconnect_def filter_pair [OF p(3) assms(2)] Let_def)
  have left: "?left = map snd (filter (\<lambda>l. fst l = getSseEventName h \<and> snd l \<noteq> res) (sse_bus ?s))" unfolding xs_eq by (rule subs)
  have maps: "default_to [] (jm_get (activeSubscriptions ?st) h') = subscribers ?st h'" for h'
    using p(8) [of h'] rest [of h'] left unfolding st by (cases "h' = h") (auto simp: conj_commute)
  have full: "jm_get (activeSubscriptions ?st) h' \<noteq> Some []" for h' using p(9) [of h'] unfolding st by auto
  show ?thesis
    by (rule inv_shrink [OF assms(1), of _ "\<lambda>l. snd l \<noteq> res" "\<lambda>_. True"])
      (use p(1,6,7) bus in_res length_remove1_filter [OF p(1) in_res] maps full in \<open>auto simp: st\<close>)
qed

lemma sse_inv_life:
  assumes "sse_inv env w" "set (activeSseResponses (sw_state w)) \<subseteq> set (sse_ended (sw_state w))"
  shows "sse_inv env (w\<lparr>sw_life := life\<rparr>)"
  using inv_parts [OF assms(1)] assms(2) unfolding sse_inv_def Let_def by auto

lemma inv_step: "sse_step env w w' \<Longrightarrow> sse_inv env w \<Longrightarrow> sse_inv env w'"
proof (induction rule: sse_step.induct)
  case (published w records)
  note p = inv_parts [OF published]
  show ?case unfolding publish_records_output [OF p(3,4)] sse_inv_output by (rule published)
next
  case (timer res w comment)
  then show ?case by (simp add: keep_alive_def send_output sse_inv_output)
next
  case (revalidation name res w authorization)
  have "revalidate authorization res st = st \<or>
      revalidate authorization res st = end_response res (send Auth_expired res st)" for st
    by (simp add: revalidate_def split: option.split)
  moreover have "\<exists>out e. end_response res (send Auth_expired res st) = st\<lparr>sse_output := out, sse_ended := e\<rparr> \<and> set (sse_ended st) \<subseteq> set e" for st
    unfolding send_output end_response_def by (auto intro!: exI)
  moreover have "\<exists>out e. st = st\<lparr>sse_output := out, sse_ended := e\<rparr> \<and> set (sse_ended st) \<subseteq> set e" for st
    by (intro exI [of _ "sse_output st"] exI [of _ "sse_ended st"]) simp
  ultimately obtain out e where r: "revalidate authorization res (sw_state w) = (sw_state w)\<lparr>sse_output := out, sse_ended := e\<rparr>"
    and e: "set (sse_ended (sw_state w)) \<subseteq> set e" by metis
  have "sse_inv env (w\<lparr>sw_state := (sw_state w)\<lparr>sse_output := out\<rparr>\<rparr>)" using revalidation by (simp add: sse_inv_output)
  from sse_inv_ended [OF this, of e] e show ?case by (simp add: r)
next
  case (shutdown w)
  note p = inv_parts [OF shutdown]
  obtain e where e: "fold end_response (activeSseResponses (sw_state w)) (sw_state w) = (sw_state w)\<lparr>sse_ended := e\<rparr>"
    "set e = set (sse_ended (sw_state w)) \<union> set (activeSseResponses (sw_state w))" using fold_end_response by blast
  have "sse_inv env (w\<lparr>sw_state := (sw_state w)\<lparr>sse_ended := e\<rparr>\<rparr>)" using sse_inv_ended [OF shutdown, of e] e(2) by simp
  moreover have "set (activeSseResponses (sw_state w)) \<subseteq> set e" using e(2) by simp
  ultimately have "sse_inv env (w\<lparr>sw_state := (sw_state w)\<lparr>sse_ended := e\<rparr>, sw_life := markShuttingDown (sw_life w)\<rparr>)"
    using sse_inv_life by fastforce
  moreover have "w\<lparr>sw_life := life, sw_state := st\<rparr> = w\<lparr>sw_state := st, sw_life := life\<rparr>" for life st by simp
  ultimately show ?case by (simp only: closeAllSseConnections_def fst_conv e(1))
qed (auto intro: inv_open_events inv_open_transaction inv_close_events inv_close_transaction)

lemma inv_reachable: "sse_reachable env w \<Longrightarrow> sse_inv env w"
proof (induction rule: sse_reachable.induct)
  case (start life)
  then show ?case
    by (simp add: sse_inv_def no_streams_def Let_def MAX_LISTENERS_PER_TXHASH_def MAX_GLOBAL_SSE_CONNECTIONS_def configured_limit_pos)
qed (rule inv_step)

lemma frames_transaction:
  assumes "sse_inv env w" "(h, res) \<in> set (event_bus (sw_state w))" "res \<notin> set (sse_ended (sw_state w))"
  shows "concat (map (frames_for (sw_state w) res) rs) = map Confirmed_frame (filter (\<lambda>r. tx_txHash r = h) rs)"
proof -
  note p = inv_parts [OF assms(1)]
  have "(h', res) \<in> set (event_bus (sw_state w)) \<longleftrightarrow> h' = h" for h'
    using p(4) assms(2) by (metis distinct_map inj_onD prod.inject snd_conv)
  moreover have "(n, res) \<notin> set (sse_bus (sw_state w))" for n using p(5) assms(2) by force
  ultimately show ?thesis using assms(3) by (induction rs) (simp_all add: frames_for_def)
qed

lemma frames_events:
  assumes "sse_inv env w" "(getSseEventName h, res) \<in> set (sse_bus (sw_state w))" "res \<notin> set (sse_ended (sw_state w))"
  shows "concat (map (frames_for (sw_state w) res) rs) = map (Update_frame \<circ> update_of) (filter (\<lambda>r. tx_txHash r = h) rs)"
proof -
  note p = inv_parts [OF assms(1)]
  have "(getSseEventName h', res) \<in> set (sse_bus (sw_state w)) \<longleftrightarrow> h' = h" for h'
    using p(3) assms(2) by (metis distinct_map inj_onD prod.inject snd_conv event_name_eq)
  moreover have "(n, res) \<notin> set (event_bus (sw_state w))" for n using p(5) assms(2) by force
  ultimately show ?thesis using assms(3) by (induction rs) (simp_all add: frames_for_def)
qed

section \<open>Properties\<close>

text \<open>
  (C29) The streams stay within their limits. Whatever requests, disconnects, messages and shutdowns
  come in whatever order: at most the configured number of \<open>/events\<close> streams follow one transaction
  (a limit that is no whole number counts as the next one), at most the global number of \<open>/events\<close>
  streams is open; the gauge of the metrics is exactly the number of open streams of both kinds; the
  table of subscriptions holds exactly the registered listeners and no empty sets; and once the
  shutdown has begun every stream that is still open has been ended.
\<close>

theorem streams_bounded:
  assumes "sse_reachable env w" and "st = sw_state w"
  shows "(\<forall>h q. MAX_LISTENERS_PER_TXHASH env = Some q \<longrightarrow> of_nat (getSubscriptionCount h st) < q + 1)
    \<and> (\<forall>q. MAX_GLOBAL_SSE_CONNECTIONS env = Some q \<longrightarrow> of_nat (length (sse_bus st)) < q + 1)
    \<and> sseConnectionsActive st = getActiveSseConnectionCount st
    \<and> (\<forall>h. default_to [] (jm_get (activeSubscriptions st) h) = subscribers st h \<and> jm_get (activeSubscriptions st) h \<noteq> Some [])
    \<and> (lc_shuttingDown (sw_life w) \<longrightarrow> set (activeSseResponses st) \<subseteq> set (sse_ended st))"
proof -
  note p = inv_parts [OF inv_reachable [OF assms(1)]]
  have "of_nat (getSubscriptionCount h st) < q + 1" if "MAX_LISTENERS_PER_TXHASH env = Some q" for h q
    using p(8,10) [of h] that by (simp add: getSubscriptionCount_def fits_def assms(2))
  moreover have "of_nat (length (sse_bus st)) < q + 1" if "MAX_GLOBAL_SSE_CONNECTIONS env = Some q" for q
    using p(11) that by (simp add: fits_def assms(2))
  ultimately show ?thesis using p(7-9,12) by (simp add: getActiveSseConnectionCount_def assms(2))
qed

text \<open>
  (C12) Live updates are the committed rows. When a poll of the worker ends, each open stream on
  \<open>/events/transactions/:txHash\<close> is sent the rows the poll has added to the ledger table under its
  hash, each open stream on \<open>/events\<close> their updates, and at most one each; a poll whose commit fails
  sends nothing to anyone.
\<close>

theorem confirmations_streamed:
  assumes "sse_reachable env w" "poll_finish penv now answer dbFails db s = (s', db', records)"
    and "st = sw_state w" "res \<notin> set (sse_ended st)"
    and "stored = filter (\<lambda>r. tx_txHash r = h) (drop (length (db_transactions db)) (db_transactions db'))"
  shows "length stored \<le> 1
    \<and> ((h, res) \<in> set (event_bus st) \<longrightarrow> sse_output (publish_records records st) res = sse_output st res @ map Confirmed_frame stored)
    \<and> ((getSseEventName h, res) \<in> set (sse_bus st)
      \<longrightarrow> sse_output (publish_records records st) res = sse_output st res @ map (Update_frame \<circ> update_of) stored)"
proof -
  note inv = inv_reachable [OF assms(1)] and p = inv_parts [OF inv_reachable [OF assms(1)]]
  have "db_transactions db' = db_transactions db @ records \<and> distinct (map tx_txHash records)"
    using poll_finish_cases [of db s penv now answer dbFails] assms(2) by (auto simp: poll_failed_def poll_stored_def)
  then have stored: "stored = filter (\<lambda>r. tx_txHash r = h) records" and d: "distinct (map tx_txHash records)"
    by (simp_all add: assms(5))
  have "length (filter (\<lambda>r. tx_txHash r = h) rs) \<le> 1" if "distinct (map tx_txHash rs)" for rs
    using that
  proof (induction rs)
    case (Cons a rs)
    have "filter (\<lambda>r. tx_txHash r = tx_txHash a) rs = []" using Cons.prems by (auto simp: filter_empty_conv image_iff)
    with Cons show ?case by auto
  qed simp
  moreover have "sse_output (publish_records records st) res = sse_output st res @ concat (map (frames_for st res) records)"
    using publish_records_output [OF p(3,4), of records] by (simp add: assms(3))
  ultimately show ?thesis
    using frames_transaction [OF inv, of h res records] frames_events [OF inv, of h res records] assms(3,4) d
    by (simp add: stored)
qed

text \<open>The global limit is not checked for the streams of a transaction's path.\<close>

theorem global_limit_bypassed:
  assumes "\<not> lc_shuttingDown life" "trim param \<noteq> []" "res \<notin> set (activeSseResponses st)"
  shows "snd (handleTransactionStream life param res st) = Opened"
    "getActiveSseConnectionCount (fst (handleTransactionStream life param res st)) = Suc (getActiveSseConnectionCount st)"
  using assms by (simp_all add: handleTransactionStream_def rejectIfShuttingDown_def Let_def incrementSseConnections_def
      open_response_def getActiveSseConnectionCount_def)

text \<open>The periodic check only knows one literal header: any other token, revoked or not, keeps its stream.\<close>

theorem revoked_token_keeps_stream:
  "\<not> starts_with token ''invalid_revoked_token'' \<Longrightarrow> revalidate (Some (''Bearer '' @ token)) res st = st"
  by (simp add: revalidate_def starts_with_def)

section \<open>A sample run\<close>

definition sample_sse_env :: sse_env where
  "sample_sse_env = \<lparr>env_per_txhash = None, env_global = Some ''1''\<rparr>"

definition running :: lifecycle where
  "running = \<lparr>lc_startupComplete = True, lc_shuttingDown = False\<rparr>"

definition sample_world :: sse_world where
  "sample_world = \<lparr>sw_life = running, sw_state = fst (handleTransactionStream running ''h'' 1 no_streams), sw_used = [1]\<rparr>"

lemma sample_world_reachable: "sse_reachable sample_sse_env sample_world"
proof -
  let ?w = "\<lparr>sw_life = running, sw_state = no_streams, sw_used = []\<rparr>"
  have "sse_reachable sample_sse_env ?w" by (rule sse_reachable.start) (simp add: running_def)
  moreover have "sse_step sample_sse_env ?w (?w\<lparr>sw_state := fst (handleTransactionStream running ''h'' 1 no_streams), sw_used := [1]\<rparr>)"
    using open_transaction [of 1 ?w "''h''" "fst (handleTransactionStream running ''h'' 1 no_streams)"
        "snd (handleTransactionStream running ''h'' 1 no_streams)" sample_sse_env] by simp
  ultimately have "sse_reachable sample_sse_env (?w\<lparr>sw_state := fst (handleTransactionStream running ''h'' 1 no_streams), sw_used := [1]\<rparr>)"
    by (rule sse_reachable.step)
  then show ?thesis by (simp add: sample_world_def)
qed

theorem streams_bounded_witness:
  "getSubscriptionCount ''h'' (sw_state sample_world) < 6 \<and> sseConnectionsActive (sw_state sample_world) = 1"
proof -
  have "MAX_LISTENERS_PER_TXHASH sample_sse_env = Some 5"
    by (simp add: MAX_LISTENERS_PER_TXHASH_def configured_limit_def sample_sse_env_def)
  moreover have "getActiveSseConnectionCount (sw_state sample_world) = 1" by code_simp
  ultimately have "(of_nat (getSubscriptionCount ''h'' (sw_state sample_world)) :: rat) < of_nat 6"
    "sseConnectionsActive (sw_state sample_world) = 1"
    using streams_bounded [OF sample_world_reachable refl] by auto
  then show ?thesis unfolding of_nat_less_iff by simp
qed

theorem confirmations_streamed_witness:
  "\<exists>records stored. map Confirmed_frame stored = sse_output (publish_records records (sw_state sample_world)) 1 \<and> length stored = 1"
proof -
  let ?r = "poll_finish sample_env 0 (Some sample_answer) False sample_db (fst (poll_begin sample_mem))"
  let ?stored = "filter (\<lambda>r. tx_txHash r = ''h'') (drop (length (db_transactions sample_db)) (db_transactions (fst (snd ?r))))"
  have r: "?r = (fst ?r, fst (snd ?r), snd (snd ?r))" by simp
  have "length ?stored = 1" by code_simp
  moreover have "1 \<notin> set (sse_ended (sw_state sample_world))" "(''h'', 1) \<in> set (event_bus (sw_state sample_world))"
    "sse_output (sw_state sample_world) 1 = []" by code_simp+
  ultimately show ?thesis
    using confirmations_streamed [OF sample_world_reachable r refl, of 1 ?stored "''h''"]
    by (intro exI [of _ "snd (snd ?r)"] exI [of _ ?stored]) simp
qed

end
