(* ===== verification/Network_Names.thy ===== *)
theory Network_Names
  imports Js_Text
begin

text \<open>
  The places that decide which Stellar network a name or a passphrase means, and what rests on it: the check
  of a transaction reference (\<open>backend/src/mainnet/services/stellar-transaction-verifier.ts\<close>), explorer
  links (\<open>frontend/src/lib/explorer.ts\<close>), the wallet (\<open>frontend/src/lib/wallet.ts\<close>), the network guard
  (\<open>frontend/src/hooks/useNetworkGuard.ts\<close>) and the preset tokens (\<open>frontend/src/lib/token-constants.ts\<close>).
\<close>

section \<open>The transaction reference verifier\<close>

datatype StellarNetworkName = Net_mainnet | Net_testnet | Net_futurenet | Net_unknown

record ExplorerTransaction =
  et_hash :: string
  et_successful :: bool
  et_ledger :: "int option"
  et_network :: "string option"

datatype TransactionVerificationFailureReason =
  Invalid_hash | Network_mismatch | Transaction_not_found | Transaction_failed | Lookup_error

text \<open>The empty text is as good as none.\<close>

definition present :: "string option \<Rightarrow> string option" where
  "present v = (case v of Some (c # cs) \<Rightarrow> Some (c # cs) | _ \<Rightarrow> None)"

definition classifyStellarNetwork :: "string option \<Rightarrow> StellarNetworkName" where
  "classifyStellarNetwork value =
     (case present value of
        None \<Rightarrow> Net_unknown
      | Some v \<Rightarrow>
        let normalized = to_lower v
        in if includes_str normalized ''future'' then Net_futurenet
           else if includes_str normalized ''test'' then Net_testnet
           else if includes_str normalized ''public'' \<or> includes_str normalized ''mainnet'' then Net_mainnet
           else Net_unknown)"

definition isValidTransactionHash :: "string \<Rightarrow> bool" where
  "isValidTransactionHash txHash = (length txHash = 64 \<and> list_all (\<lambda>c. hex_val c \<noteq> None) txHash)"

text \<open>The lookup is a parameter: \<open>Inl ()\<close> when it throws, \<open>Inr None\<close> when there is no such transaction.\<close>

definition verifyTransactionReference ::
    "string \<Rightarrow> StellarNetworkName \<Rightarrow> string option \<Rightarrow> (string \<Rightarrow> unit + ExplorerTransaction option)
      \<Rightarrow> TransactionVerificationFailureReason + ExplorerTransaction" where
  "verifyTransactionReference txHash expectedNetwork referencedNetwork fetchTransaction =
     (if \<not> isValidTransactionHash txHash then Inl Invalid_hash
      else if present referencedNetwork \<noteq> None \<and> expectedNetwork \<noteq> Net_unknown
         \<and> classifyStellarNetwork referencedNetwork \<noteq> expectedNetwork then Inl Network_mismatch
      else case fetchTransaction txHash of
        Inl _ \<Rightarrow> Inl Lookup_error
      | Inr None \<Rightarrow> Inl Transaction_not_found
      | Inr (Some transaction) \<Rightarrow>
        if present (et_network transaction) \<noteq> None \<and> expectedNetwork \<noteq> Net_unknown
           \<and> classifyStellarNetwork (et_network transaction) \<noteq> expectedNetwork then Inl Network_mismatch
        else if \<not> et_successful transaction then Inl Transaction_failed
        else Inr transaction)"

section \<open>Explorer links\<close>

datatype SupportedNetwork = Testnet | Mainnet

definition NETWORK_ALIASES :: "(string \<times> SupportedNetwork) list" where
  "NETWORK_ALIASES =
     [(''testnet'', Testnet), (''test'', Testnet), (''test sdf network ; september 2015'', Testnet), (''mainnet'', Mainnet),
      (''public'', Mainnet), (''pubnet'', Mainnet), (''public global stellar network ; september 2015'', Mainnet)]"

definition EXPLORER_BASE :: "SupportedNetwork \<Rightarrow> string" where
  "EXPLORER_BASE n = (case n of Testnet \<Rightarrow> ''https://stellar.expert/explorer/testnet'' | Mainnet \<Rightarrow> ''https://stellar.expert/explorer/public'')"

definition EXPLORER_LABEL :: "SupportedNetwork \<Rightarrow> string" where
  "EXPLORER_LABEL n = (case n of Testnet \<Rightarrow> ''Stellar.expert (Testnet)'' | Mainnet \<Rightarrow> ''Stellar.expert (Mainnet)'')"

text \<open>The table is an object literal; the names it inherits, such as \<open>constructor\<close>, are no networks of a wallet.\<close>

definition resolveNetwork :: "string option \<Rightarrow> SupportedNetwork option" where
  "resolveNetwork value =
     (case value of None \<Rightarrow> None
      | Some v \<Rightarrow> let key = to_lower (trim v) in if key = [] then None else map_of NETWORK_ALIASES key)"

definition isSupportedNetwork :: "string option \<Rightarrow> bool" where
  "isSupportedNetwork value = (resolveNetwork value \<noteq> None)"

definition getExplorerBaseUrl :: "string option \<Rightarrow> string option" where
  "getExplorerBaseUrl network = map_option EXPLORER_BASE (resolveNetwork network)"

text \<open>\<open>encodeURIComponent\<close> on one-byte text: the bytes of the UTF-8 encoding of every character that is not unreserved.\<close>

definition unreserved :: "char \<Rightarrow> bool" where
  "unreserved c = (is_letter c \<or> is_digit c \<or> c \<in> set ''-_.!~*()'' \<or> c = CHR 0x27)"

definition upper_hex :: "nat \<Rightarrow> char" where
  "upper_hex d = char_of (if d < 10 then d + 48 else d + 55)"

definition percent :: "nat \<Rightarrow> string" where
  "percent b = [CHR ''%'', upper_hex (b div 16), upper_hex (b mod 16)]"

definition encodeURIComponent :: "string \<Rightarrow> string" where
  "encodeURIComponent s =
     concat (map (\<lambda>c. let n = of_char c :: nat
       in if unreserved c then [c]
          else if n < 128 then percent n
          else percent (192 + n div 64) @ percent (128 + n mod 64)) s)"

definition explorer_url :: "string \<Rightarrow> string option \<Rightarrow> string option \<Rightarrow> string option" where
  "explorer_url kind subject network =
     (case getExplorerBaseUrl network of None \<Rightarrow> None
      | Some base \<Rightarrow>
        let trimmed = trim (case subject of Some s \<Rightarrow> s | None \<Rightarrow> [])
        in if trimmed = [] then None else Some (base @ ''/'' @ kind @ ''/'' @ encodeURIComponent trimmed))"

definition getTransactionExplorerUrl :: "string option \<Rightarrow> string option \<Rightarrow> string option" where
  "getTransactionExplorerUrl = explorer_url ''tx''"

definition getAccountExplorerUrl :: "string option \<Rightarrow> string option \<Rightarrow> string option" where
  "getAccountExplorerUrl = explorer_url ''account''"

definition getExplorerLabel :: "string option \<Rightarrow> string option" where
  "getExplorerLabel network = map_option EXPLORER_LABEL (resolveNetwork network)"

definition assertSupportedNetwork :: "string option \<Rightarrow> unit + SupportedNetwork" where
  "assertSupportedNetwork value = (case resolveNetwork value of None \<Rightarrow> Inl () | Some n \<Rightarrow> Inr n)"

section \<open>The wallet and its network\<close>

record WalletState =
  wa_connected :: bool
  wa_address :: "string option"
  wa_network :: "string option"

definition parseNetwork :: "string \<Rightarrow> string" where
  "parseNetwork network =
     (let n = to_lower network
      in if includes_str n ''test'' then ''TESTNET''
         else if includes_str n ''future'' then ''FUTURENET''
         else if includes_str n ''public'' \<or> includes_str n ''main'' then ''PUBLIC''
         else if includes_str n ''sandbox'' then ''SANDBOX''
         else if includes_str n ''standalone'' then ''STANDALONE''
         else network)"

text \<open>
  The wallet kit is a parameter: the address it gives (\<open>Inl ()\<close> when the call throws) and the network
  it reports, with \<open>None\<close> for anything that is no text.
\<close>

definition getWalletState :: "unit + string option \<Rightarrow> unit + string option \<Rightarrow> WalletState" where
  "getWalletState address network =
     (case (address, network) of
        (Inr a, Inr n) \<Rightarrow> \<lparr>wa_connected = True, wa_address = a, wa_network = map_option parseNetwork n\<rparr>
      | _ \<Rightarrow> \<lparr>wa_connected = False, wa_address = None, wa_network = None\<rparr>)"

definition connectWallet :: "string option \<Rightarrow> unit + string option \<Rightarrow> unit + string option \<Rightarrow> unit + WalletState" where
  "connectWallet network address reported =
     (let targetNetwork = (case network of Some n \<Rightarrow> n | None \<Rightarrow> ''TESTNET'')
      in case (address, reported) of
        (Inr a, Inr n) \<Rightarrow> Inr \<lparr>wa_connected = True, wa_address = a,
            wa_network = Some (case n of Some x \<Rightarrow> parseNetwork x | None \<Rightarrow> targetNetwork)\<rparr>
      | _ \<Rightarrow> Inl ())"

definition normalise :: "string \<Rightarrow> string" where
  "normalise network = (let n = trim (to_lower network) in if n = ''mainnet'' then ''public'' else n)"

text \<open>The guard: whether it reports a mismatch, and the network it shows.\<close>

definition useNetworkGuard :: "string \<Rightarrow> WalletState \<Rightarrow> bool \<times> string option" where
  "useNetworkGuard expectedNetwork wallet =
     (if \<not> wa_connected wallet then (False, None)
      else case present (wa_network wallet) of None \<Rightarrow> (False, None)
        | Some actual \<Rightarrow> (normalise actual \<noteq> normalise expectedNetwork, Some actual))"

section \<open>Preset tokens\<close>

record TokenInfo =
  tk_id :: string
  tk_name :: string
  tk_network :: SupportedNetwork
  tk_code :: string

definition KNOWN_TOKENS :: "TokenInfo list" where
  "KNOWN_TOKENS =
     [\<lparr>tk_id = ''CDLZFC3SYJYDZT7K67VZ75HPJVIEUVNIXF47ZG2FB2RMQQVU2HHGCYSC'', tk_name = ''Native Stellar Lumens'',
       tk_network = Testnet, tk_code = ''XLM''\<rparr>,
      \<lparr>tk_id = ''CAS3J7GYLGXMF6TDJBBYYSE3HQ6BBSMLNUQ34T6TZMYMW2EVH34XOWMA'', tk_name = ''Native Stellar Lumens'',
       tk_network = Mainnet, tk_code = ''XLM''\<rparr>]"

definition normalizeTokenNetwork :: "string option \<Rightarrow> SupportedNetwork option" where
  "normalizeTokenNetwork network =
     (case present network of None \<Rightarrow> None
      | Some v \<Rightarrow>
        let normalized = to_lower v
        in if includes_str normalized ''test'' then Some Testnet
           else if includes_str normalized ''main'' \<or> includes_str normalized ''public'' then Some Mainnet
           else None)"

definition getTokensByNetwork :: "string option \<Rightarrow> TokenInfo list" where
  "getTokensByNetwork network =
     (case normalizeTokenNetwork network of None \<Rightarrow> KNOWN_TOKENS
      | Some n \<Rightarrow> filter (\<lambda>t. tk_network t = n) KNOWN_TOKENS)"

definition getTokenById :: "string \<Rightarrow> TokenInfo option" where
  "getTokenById i = find (\<lambda>t. tk_id t = i) KNOWN_TOKENS"

section \<open>What depends on the lower-case name\<close>

definition backend_name :: "SupportedNetwork \<Rightarrow> StellarNetworkName" where
  "backend_name n = (case n of Testnet \<Rightarrow> Net_testnet | Mainnet \<Rightarrow> Net_mainnet)"

definition wallet_name :: "SupportedNetwork \<Rightarrow> string" where
  "wallet_name n = (case n of Testnet \<Rightarrow> ''TESTNET'' | Mainnet \<Rightarrow> ''PUBLIC'')"

text \<open>The aliases all components agree on.\<close>

definition common_aliases :: "(string \<times> SupportedNetwork) list" where
  "common_aliases = filter (\<lambda>a. fst a \<noteq> ''pubnet'') NETWORK_ALIASES"

lemma aliases_agree:
  "list_all (\<lambda>(k, n). trim k = k \<and> k \<noteq> [] \<and> to_lower k = k \<and> map_of NETWORK_ALIASES k = Some n
      \<and> classifyStellarNetwork (Some k) = backend_name n \<and> parseNetwork k = wallet_name n \<and> normalizeTokenNetwork (Some k) = Some n)
     common_aliases"
  by code_simp

lemma guard_agrees:
  "list_all (\<lambda>(e, m). list_all (\<lambda>n. (normalise (wallet_name n) \<noteq> normalise e) = (n \<noteq> m)) [Testnet, Mainnet])
     [(''testnet'', Testnet), (''mainnet'', Mainnet)]"
  by code_simp

lemma present_some [simp]: "v \<noteq> [] \<Longrightarrow> present (Some v) = Some v"
  by (cases v) (simp_all add: present_def)

lemma to_lower_Nil [simp]: "to_lower v = [] \<longleftrightarrow> v = []"
  by (simp add: to_lower_def)

lemma lower_names:
  assumes "v \<noteq> []"
  shows "classifyStellarNetwork (Some v) = classifyStellarNetwork (Some (to_lower v))"
    "normalizeTokenNetwork (Some v) = normalizeTokenNetwork (Some (to_lower v))"
  using assms by (simp_all add: classifyStellarNetwork_def normalizeTokenNetwork_def)

lemma parse_lower: "parseNetwork (to_lower v) \<noteq> to_lower v \<Longrightarrow> parseNetwork v = parseNetwork (to_lower v)"
  by (auto simp: parseNetwork_def Let_def)

lemma alias_facts:
  assumes "trim v = v" "(to_lower v, n) \<in> set common_aliases"
  shows "resolveNetwork (Some v) = Some n" "classifyStellarNetwork (Some v) = backend_name n" "parseNetwork v = wallet_name n"
    "normalizeTokenNetwork (Some v) = Some n"
proof -
  have k: "to_lower v \<noteq> []" "map_of NETWORK_ALIASES (to_lower v) = Some n" "classifyStellarNetwork (Some (to_lower v)) = backend_name n"
    "parseNetwork (to_lower v) = wallet_name n" "normalizeTokenNetwork (Some (to_lower v)) = Some n"
    using aliases_agree assms(2) by (auto simp: list_all_iff)
  show "resolveNetwork (Some v) = Some n" using k(1,2) assms(1) by (simp add: resolveNetwork_def)
  show "classifyStellarNetwork (Some v) = backend_name n" "normalizeTokenNetwork (Some v) = Some n"
    using k(1,3,5) lower_names [of v] by simp_all
  have "wallet_name n \<noteq> to_lower v"
  proof
    assume "wallet_name n = to_lower v"
    then have "to_lower (wallet_name n) = wallet_name n" by simp
    moreover have "to_lower (wallet_name Testnet) \<noteq> wallet_name Testnet" "to_lower (wallet_name Mainnet) \<noteq> wallet_name Mainnet" by code_simp+
    ultimately show False by (cases n) simp_all
  qed
  then show "parseNetwork v = wallet_name n" using parse_lower [of v] k(4) by simp
qed

lemma encoded_chars: "c \<in> set (encodeURIComponent s) \<Longrightarrow> unreserved c \<or> c = CHR ''%''"
proof -
  have hex: "unreserved (upper_hex d)" if "d < 16" for d
    using that by (auto simp: unreserved_def upper_hex_def is_letter_def is_digit_def Let_def)
  then have "c \<in> set (percent b) \<Longrightarrow> b < 256 \<Longrightarrow> unreserved c \<or> c = CHR ''%''" for b
    by (auto simp: percent_def)
  moreover have "192 + of_char c div 64 < (256 :: nat)" "128 + of_char c mod 64 < (256 :: nat)" for c
  proof -
    have "of_char c < (256 :: nat)" by simp
    then have "of_char c div 64 < (64 :: nat)" by linarith
    then show "192 + of_char c div 64 < (256 :: nat)" "128 + of_char c mod 64 < (256 :: nat)" by simp_all
  qed
  ultimately show "c \<in> set (encodeURIComponent s) \<Longrightarrow> unreserved c \<or> c = CHR ''%''"
    unfolding encodeURIComponent_def by (auto simp: Let_def split: if_splits)
qed

section \<open>Properties\<close>

text \<open>
  (C31) The components name the networks alike: for every alias of a network but one, in any case,
  the explorer, the reference check of the backend, the wallet and the presets of tokens mean the same
  network, and the guard of an app configured for a network complains exactly about the wallets that are
  on the other one.
\<close>

theorem networks_agree:
  assumes "trim v = v" "(to_lower v, n) \<in> set common_aliases" "(configured, m) \<in> {(''testnet'', Testnet), (''mainnet'', Mainnet)}"
  shows "resolveNetwork (Some v) = Some n \<and> classifyStellarNetwork (Some v) = backend_name n
    \<and> map tk_network (getTokensByNetwork (Some v)) = [n]
    \<and> fst (useNetworkGuard configured (getWalletState (Inr a) (Inr (Some v)))) = (n \<noteq> m)"
proof -
  note f = alias_facts [OF assms(1,2)]
  have "map tk_network (getTokensByNetwork (Some v)) = [n]"
    by (cases n) (simp_all add: getTokensByNetwork_def f KNOWN_TOKENS_def)
  moreover have "wallet_name n \<noteq> []" by (cases n) (simp_all add: wallet_name_def)
  moreover have "(normalise (wallet_name n) \<noteq> normalise configured) = (n \<noteq> m)"
    using guard_agrees assms(3) by (cases n) (auto simp: list_all_iff)
  ultimately show ?thesis using f by (simp add: useNetworkGuard_def getWalletState_def)
qed

theorem networks_agree_witness:
  "fst (useNetworkGuard ''mainnet'' (getWalletState (Inr None) (Inr (Some ''Test SDF Network ; September 2015''))))"
proof -
  have "trim ''Test SDF Network ; September 2015'' = ''Test SDF Network ; September 2015''"
    "(to_lower ''Test SDF Network ; September 2015'', Testnet) \<in> set common_aliases" by code_simp+
  then show ?thesis using networks_agree [of _ Testnet "''mainnet''" Mainnet None] by simp
qed

text \<open>
  What a verified reference is: the hash is well formed, neither the caller nor the node names another
  network than the configured one, and the node reports the transaction as successful; anything else is
  refused, and a malformed or foreign reference without asking the node.
\<close>

theorem reference_verified:
  "(verifyTransactionReference h expected claimed fetch = Inr t \<longleftrightarrow>
     isValidTransactionHash h \<and> fetch h = Inr (Some t) \<and> et_successful t
     \<and> (expected = Net_unknown \<or>
         (\<forall>n \<in> {claimed, et_network t}. present n = None \<or> classifyStellarNetwork n = expected)))
   \<and> (\<not> isValidTransactionHash h \<or> expected \<noteq> Net_unknown \<and> present claimed \<noteq> None \<and> classifyStellarNetwork claimed \<noteq> expected
      \<longrightarrow> verifyTransactionReference h expected claimed fetch = verifyTransactionReference h expected claimed other)"
  by (auto simp: verifyTransactionReference_def split: sum.splits option.splits if_splits)

theorem reference_verified_witness:
  "verifyTransactionReference ''short'' Net_mainnet None (\<lambda>_. Inl ()) = verifyTransactionReference ''short'' Net_mainnet None (\<lambda>_. Inr None)"
  using reference_verified [of "''short''" Net_mainnet None "\<lambda>_. Inl ()" undefined "\<lambda>_. Inr None"] by (simp add: isValidTransactionHash_def)

text \<open>
  An explorer link leads to the network it was asked for, with nothing of the subject outside its last segment,
  and there is none for an unknown network.
\<close>

theorem explorer_links_stay:
  assumes "getTransactionExplorerUrl subject network = Some url"
  shows "\<exists>n part. resolveNetwork network = Some n \<and> url = EXPLORER_BASE n @ ''/tx/'' @ part \<and> part \<noteq> []
    \<and> (\<forall>c \<in> set part. unreserved c \<or> c = CHR ''%'')"
proof -
  obtain n where n: "resolveNetwork network = Some n" and t: "trim (case subject of Some s \<Rightarrow> s | None \<Rightarrow> []) \<noteq> []"
    and url: "url = EXPLORER_BASE n @ ''/tx/'' @ encodeURIComponent (trim (case subject of Some s \<Rightarrow> s | None \<Rightarrow> []))"
    using assms by (auto simp: getTransactionExplorerUrl_def explorer_url_def getExplorerBaseUrl_def Let_def split: option.splits if_splits)
  have "encodeURIComponent s \<noteq> []" if "s \<noteq> []" for s
    using that by (cases s) (auto simp: encodeURIComponent_def percent_def Let_def)
  then show ?thesis using n t url encoded_chars by blast
qed

text \<open>
  The passphrase of the future network contains the word test, which the wallet looks for first: a
  wallet on that network passes the guard of an app on the test network.
\<close>

theorem futurenet_taken_for_testnet:
  "classifyStellarNetwork (Some ''Test SDF Future Network ; October 2022'') = Net_futurenet
   \<and> useNetworkGuard ''testnet'' (getWalletState (Inr None) (Inr (Some ''Test SDF Future Network ; October 2022''))) = (False, Some ''TESTNET'')"
  by code_simp

text \<open>The one alias the explorer knows and nobody else.\<close>

theorem pubnet_only_explorer:
  "resolveNetwork (Some ''pubnet'') = Some Mainnet \<and> classifyStellarNetwork (Some ''pubnet'') = Net_unknown
   \<and> normalizeTokenNetwork (Some ''pubnet'') = None"
  by code_simp

end
