(* ===== verification/Contract_Failures.thy ===== *)
theory Contract_Failures
  imports Request_Schemas Error_Translation
begin

text \<open>
  What the browser says about a failed transaction (\<open>frontend/src/lib/contract-errors.ts\<close>): the code
  of the contract found in an error text, the class of a simulation failure, and the diagnostic that
  may be logged. A message for people is represented by what it is chosen by: a contract error
  code (\<open>frontend/src/generated/contract-types.ts\<close>) or a class.
\<close>

section \<open>Contract error codes\<close>

definition ContractErrors :: "(string \<times> nat) list" where
  "ContractErrors =
     [(''ProjectExists'', 1), (''NotFound'', 2), (''AlreadyLocked'', 8), (''ProjectLocked'', 9), (''Unauthorized'', 3),
      (''NotACollaborator'', 18), (''InvalidSplit'', 4), (''TooFewCollaborators'', 5), (''ZeroShare'', 6),
      (''DuplicateCollaborator'', 10), (''InvalidAmount'', 11), (''InvalidRecipient'', 17), (''TooManyCollaborators'', 19),
      (''NoBalance'', 7), (''TokenNotAllowed'', 12), (''InsufficientUnallocated'', 15), (''AdminNotSet'', 13),
      (''DistributionsPaused'', 16), (''AccountingDiscrepancy'', 20), (''InvalidMaxCollaborators'', 21), (''ArithmeticOverflow'', 14)]"

text \<open>The codes that have a message.\<close>

definition CONTRACT_ERROR_MESSAGES :: "nat list" where
  "CONTRACT_ERROR_MESSAGES = [1, 2, 3, 4, 5, 6, 7, 8, 9, 10, 11, 12, 13, 14, 15, 16, 17, 18, 19, 20, 21]"

definition word_char :: "char \<Rightarrow> bool" where
  "word_char c = (is_letter c \<or> is_digit c \<or> c = CHR ''_'')"

definition at_boundary :: "string \<Rightarrow> bool" where
  "at_boundary s = (case s of [] \<Rightarrow> True | c # _ \<Rightarrow> \<not> word_char c)"

text \<open>\<open>(\d{1,2})\<close> at the start of a text, and the text after it; \<open>(\d{1,2})\b\<close>.\<close>

definition short_number :: "string \<Rightarrow> string" where
  "short_number s = take 2 (takeWhile is_digit s)"

definition bounded_number :: "string \<Rightarrow> string option" where
  "bounded_number s =
     (let n = short_number s in if n \<noteq> [] \<and> at_boundary (drop (length n) s) then Some n else None)"

text \<open>The first match: the pattern is tried at every place from the left; the flag says whether a word character comes before it.\<close>

fun first_match :: "(bool \<Rightarrow> string \<Rightarrow> string option) \<Rightarrow> bool \<Rightarrow> string \<Rightarrow> string option" where
  "first_match p word [] = p word []"
| "first_match p word (c # s) = or_else (p word (c # s)) (first_match p (word_char c) s)"

definition starts_with_i :: "string \<Rightarrow> string \<Rightarrow> bool" where
  "starts_with_i s p = starts_with (to_lower s) p"

text \<open>\<open>/#(\d{1,2})\b/\<close>\<close>

definition hash_number :: "bool \<Rightarrow> string \<Rightarrow> string option" where
  "hash_number word s = (if starts_with s ''#'' then bounded_number (drop 1 s) else None)"

text \<open>\<open>/(?:error|code|Error)\s*[:=]?\s*(\d{1,2})\b/i\<close>\<close>

definition after_label :: "string \<Rightarrow> string option" where
  "after_label s =
     (let t = trim_start s;
          u = (case t of c # r \<Rightarrow> if c = CHR '':'' \<or> c = CHR ''='' then trim_start r else t | [] \<Rightarrow> t)
      in bounded_number u)"

definition labelled_number :: "bool \<Rightarrow> string \<Rightarrow> string option" where
  "labelled_number word s =
     (if starts_with_i s ''error'' then after_label (drop 5 s)
      else if starts_with_i s ''code'' then after_label (drop 4 s)
      else None)"

text \<open>\<open>/\bError\((\d{1,2})\)/\<close>\<close>

definition error_call :: "bool \<Rightarrow> string \<Rightarrow> string option" where
  "error_call word s =
     (if \<not> word \<and> starts_with s ''Error(''
      then let n = short_number (drop 6 s)
           in if n \<noteq> [] \<and> starts_with (drop (6 + length n) s) '')'' then Some n else None
      else None)"

text \<open>\<open>/\bcontract error[:\s]+(\d{1,2})\b/i\<close>\<close>

definition contract_error_number :: "bool \<Rightarrow> string \<Rightarrow> string option" where
  "contract_error_number word s =
     (if \<not> word \<and> starts_with_i s ''contract error''
      then let t = drop 14 s; sep = takeWhile (\<lambda>c. c = CHR '':'' \<or> is_js_space c) t
           in if sep = [] then None else bounded_number (drop (length sep) t)
      else None)"

definition parseContractError :: "string \<Rightarrow> nat option" where
  "parseContractError raw =
     (if raw = [] then None
      else let numeric = or_else (first_match hash_number False raw)
                (or_else (first_match labelled_number False raw)
                (or_else (first_match error_call False raw) (first_match contract_error_number False raw)))
      in case numeric of
           Some n \<Rightarrow> if text_nat n \<in> set CONTRACT_ERROR_MESSAGES then Some (text_nat n)
                     else map_option snd (find (\<lambda>(name, code). includes_str raw name) ContractErrors)
         | None \<Rightarrow> map_option snd (find (\<lambda>(name, code). includes_str raw name) ContractErrors))"

datatype failure_text = Code_text nat | Raw_text string

definition formatContractFailure :: "string \<Rightarrow> string \<Rightarrow> failure_text" where
  "formatContractFailure raw fallback =
     (case parseContractError raw of Some code \<Rightarrow> Code_text code
      | None \<Rightarrow> Raw_text (if trim raw \<noteq> [] then trim raw else fallback))"

section \<open>Simulation failures\<close>

datatype SimulationFailureCategory = Contract_error | Insufficient_funds | Sequence_mismatch | Signature_mismatch | Network | Unknown

datatype failure_message = Contract_message nat | Category_message SimulationFailureCategory

text \<open>\<open>a\s+b\<close> anywhere in a text, case-insensitive.\<close>

fun spaced_words :: "string \<Rightarrow> string \<Rightarrow> string \<Rightarrow> bool" where
  "spaced_words a b [] = False"
| "spaced_words a b (c # s) =
     (starts_with_i (c # s) a
        \<and> (let t = drop (length a) (c # s) in t \<noteq> [] \<and> is_js_space (hd t) \<and> starts_with_i (trim_start t) b)
      \<or> spaced_words a b s)"

definition includes_i :: "string \<Rightarrow> string \<Rightarrow> bool" where
  "includes_i s p = includes_str (to_lower s) p"

text \<open>\<open>#\d+\<close>\<close>

definition hash_digit :: "bool \<Rightarrow> string \<Rightarrow> string option" where
  "hash_digit word s = (case s of c # d # _ \<Rightarrow> if c = CHR ''#'' \<and> is_digit d then Some [d] else None | _ \<Rightarrow> None)"

definition SIMULATION_FAILURE_RULES :: "((string \<Rightarrow> bool) \<times> SimulationFailureCategory) list" where
  "SIMULATION_FAILURE_RULES =
     [(\<lambda>s. includes_i s ''tx_bad_seq'' \<or> spaced_words ''bad'' ''seq'' s, Sequence_mismatch),
      (\<lambda>s. includes_i s ''tx_bad_auth'' \<or> spaced_words ''bad'' ''signature'' s \<or> includes_i s ''not_enough_signature_weight'',
        Signature_mismatch),
      (\<lambda>s. list_ex (includes_i s) [''insufficient'', ''overrun'', ''exceeded'', ''exhausted''], Insufficient_funds),
      (\<lambda>s. includes_i s ''error(contract'' \<or> first_match hash_digit False s \<noteq> None \<or> spaced_words ''contract'' ''error'' s,
        Contract_error),
      (\<lambda>s. list_ex (includes_i s) [''timeout'', ''network'', ''econnrefused'', ''econnreset'', ''socket'', ''unavailable'', ''offline'',
         ''try_again_later''], Network)]"

definition MAX_DIAGNOSTIC_LENGTH :: nat where "MAX_DIAGNOSTIC_LENGTH = 120"

definition sanitizeDiagnostic :: "string \<Rightarrow> string" where
  "sanitizeDiagnostic raw =
     (let collapsed = collapse_spaces (trim (hd (split_on (CHR '','') raw))); cut = take MAX_DIAGNOSTIC_LENGTH collapsed
      in if cut = [] then ''unspecified'' else cut)"

record SimulationFailure =
  sf_category :: SimulationFailureCategory
  sf_message :: failure_message
  sf_diagnostic :: string

definition classifySimulationFailure :: "string option \<Rightarrow> SimulationFailure" where
  "classifySimulationFailure raw =
     (let t = default_to [] raw
      in if t = [] then \<lparr>sf_category = Unknown, sf_message = Category_message Unknown, sf_diagnostic = ''unspecified''\<rparr>
         else let category = (case find (\<lambda>(matches, _). matches t) SIMULATION_FAILURE_RULES of Some (_, c) \<Rightarrow> c | None \<Rightarrow> Unknown)
           in \<lparr>sf_category = category,
               sf_message = (case parseContractError t of Some code \<Rightarrow> Contract_message code | None \<Rightarrow> Category_message category),
               sf_diagnostic = sanitizeDiagnostic t\<rparr>)"

section \<open>What a diagnostic can hold\<close>

lemma split_on_hd: "sep \<notin> set (hd (split_on sep s))"
proof (induction s)
  case (Cons c s)
  then show ?case by (cases "split_on sep s") auto
qed simp

lemma set_trim: "set (trim s) \<subseteq> set s"
  unfolding trim_def trim_start_def by (metis set_dropWhileD set_rev subsetI)

lemma collapse_chars: "c \<in> set (collapse_spaces s) \<Longrightarrow> c = CHR '' '' \<or> c \<in> set s \<and> \<not> is_js_space c"
  by (induction s rule: collapse_spaces.induct) (auto split: if_splits)

lemma diagnostic_chars:
  assumes "c \<in> set (sanitizeDiagnostic raw)"
  shows "c \<noteq> CHR '',''" "is_js_space c \<longrightarrow> c = CHR '' ''"
proof -
  let ?cut = "take MAX_DIAGNOSTIC_LENGTH (collapse_spaces (trim (hd (split_on (CHR '','') raw))))"
  have u: "sanitizeDiagnostic raw = (if ?cut = [] then ''unspecified'' else ?cut)" by (simp add: sanitizeDiagnostic_def Let_def)
  have fixed: "list_all (\<lambda>c. c \<noteq> CHR '','' \<and> \<not> is_js_space c) ''unspecified''" by code_simp
  have cut: "c = CHR '' '' \<or> c \<in> set (hd (split_on (CHR '','') raw)) \<and> \<not> is_js_space c" if "c \<in> set ?cut"
    using collapse_chars [OF in_set_takeD [OF that]] set_trim by blast
  show "c \<noteq> CHR '',''" using assms cut fixed split_on_hd [of "CHR '',''" raw] unfolding u list_all_iff
    by (cases "?cut = []") auto
  show "is_js_space c \<longrightarrow> c = CHR '' ''" using assms cut fixed unfolding u list_all_iff by (cases "?cut = []") auto
qed

lemma diagnostic_length: "length (sanitizeDiagnostic raw) \<le> 120" "sanitizeDiagnostic raw \<noteq> []"
  by (auto simp: sanitizeDiagnostic_def MAX_DIAGNOSTIC_LENGTH_def Let_def)

lemma names_have_messages: "(name, code) \<in> set ContractErrors \<Longrightarrow> code \<in> set CONTRACT_ERROR_MESSAGES"
proof -
  have "list_all (\<lambda>(name, code). code \<in> set CONTRACT_ERROR_MESSAGES) ContractErrors" by code_simp
  then show "(name, code) \<in> set ContractErrors \<Longrightarrow> code \<in> set CONTRACT_ERROR_MESSAGES" by (auto simp: list_all_iff)
qed

lemma parsed_code_known: "parseContractError raw = Some code \<Longrightarrow> code \<in> set CONTRACT_ERROR_MESSAGES"
  using names_have_messages
  by (auto simp: parseContractError_def Let_def find_Some_iff in_set_conv_nth split: if_splits option.splits) metis+

definition host_error :: "nat \<Rightarrow> string" where
  "host_error n = ''HostError: Error(Contract, #'' @ nat_text n @ '')''"

lemma starts_with_disjoint:
  assumes "set pat \<inter> set s = {}"
  shows "starts_with (p @ s) pat \<longleftrightarrow> starts_with p pat"
proof (cases "length pat \<le> length p")
  case False
  have "take (length pat) (p @ s) = pat \<Longrightarrow> False"
  proof -
    assume t: "take (length pat) (p @ s) = pat"
    have "length (take (length pat) (p @ s)) = length pat" unfolding t ..
    then have "s \<noteq> []" using False by auto
    then have "s ! 0 \<in> set (take (length pat) (p @ s))" using False by (simp add: nth_Cons' neq_Nil_conv) (auto simp: take_Cons')
    then have "s ! 0 \<in> set pat" unfolding t .
    moreover have "s ! 0 \<in> set s" using \<open>s \<noteq> []\<close> by simp
    ultimately show False using assms by blast
  qed
  moreover have "take (length pat) p \<noteq> pat" using False by (metis length_take min.cobounded1)
  ultimately show ?thesis by (auto simp: starts_with_def)
qed (simp add: starts_with_def)

lemma includes_disjoint:
  assumes "set pat \<inter> set s = {}" "pat \<noteq> []"
  shows "includes_str (p @ s) pat \<longleftrightarrow> includes_str p pat"
proof (induction p)
  case Nil
  have "includes_str s pat \<Longrightarrow> False"
    using assms by (induction s) (auto simp: starts_with_def, metis list.set_intros(1) list.set_sel(1) take_Cons' take_eq_Nil hd_Cons_tl list.sel(1))
  then show ?case using assms(2) by auto
next
  case (Cons c p)
  then show ?case using starts_with_disjoint [OF assms(1), of "c # p"] by simp
qed

lemma starts_with_longer:
  assumes "starts_with p w"
  shows "starts_with (p @ s) w"
proof -
  have "p = w @ drop (length w) p" using assms unfolding starts_with_def by (metis append_take_drop_id)
  then show ?thesis unfolding starts_with_def by (metis append.assoc append_eq_conv_conj)
qed

lemma includes_longer: "includes_str p w \<Longrightarrow> w \<noteq> [] \<Longrightarrow> includes_str (p @ s) w"
proof (induction p)
  case (Cons a p)
  then show ?case using starts_with_longer [of "a # p" w s] by auto
qed simp

lemma spaced_words_includes: "spaced_words a b s \<Longrightarrow> a \<noteq> [] \<Longrightarrow> includes_i s a"
  by (induction s) (auto simp: includes_i_def starts_with_i_def to_lower_def)

lemma first_match_skip:
  "CHR ''#'' \<notin> set p \<Longrightarrow> first_match hash_number word (p @ s) = first_match hash_number (if p = [] then word else word_char (last p)) s"
  by (induction p arbitrary: word) (auto simp: hash_number_def starts_with_def or_else_def)

definition host_prefix :: string where
  "host_prefix = ''HostError: Error(Contract, ''"

lemma lower_digits: "list_all is_digit s \<Longrightarrow> to_lower s = s"
  by (induction s) (auto simp: to_lower_def lower_char_def is_digit_def Let_def)

lemma host_error_lower: "to_lower (host_error n) = ''hosterror: error(contract, #'' @ nat_text n @ '')''"
proof -
  have "to_lower (host_error n) = to_lower ''HostError: Error(Contract, #'' @ to_lower (nat_text n) @ to_lower '')''"
    by (simp add: host_error_def to_lower_def)
  moreover have "to_lower ''HostError: Error(Contract, #'' = ''hosterror: error(contract, #''" "to_lower '')'' = '')''" by code_simp+
  ultimately show ?thesis by (simp add: lower_digits)
qed

definition earlier_words :: "string list" where
  "earlier_words = [''tx_bad_seq'', ''bad'', ''tx_bad_auth'', ''not_enough_signature_weight'', ''insufficient'', ''overrun'', ''exceeded'', ''exhausted'']"

lemma earlier_words_absent: "w \<in> set earlier_words \<Longrightarrow> \<not> includes_i (host_error n) w"
proof -
  assume w: "w \<in> set earlier_words"
  have "list_all (\<lambda>w. \<not> includes_str ''hosterror: error(contract, #'' w \<and> w \<noteq> [] \<and> list_all (\<lambda>c. \<not> is_digit c \<and> c \<noteq> CHR '')'') w) earlier_words"
    by code_simp
  then have "\<not> includes_str ''hosterror: error(contract, #'' w" "w \<noteq> []" "\<forall>c \<in> set w. \<not> is_digit c \<and> c \<noteq> CHR '')''"
    using w by (auto simp: list_all_iff)
  moreover from this(3) have "set w \<inter> set (nat_text n @ '')'') = {}" using nat_text_digits [of n] by (auto simp: list_all_iff)
  ultimately show ?thesis
    unfolding includes_i_def host_error_lower by (metis includes_disjoint)
qed

lemma host_error_category: "find (\<lambda>(matches, _). matches (host_error n)) SIMULATION_FAILURE_RULES =
    Some (SIMULATION_FAILURE_RULES ! 3)"
proof -
  let ?s = "host_error n"
  note absent = earlier_words_absent [of _ n, unfolded earlier_words_def, simplified]
  have "\<not> spaced_words ''bad'' b ?s" for b using spaced_words_includes [of "''bad''" b ?s] absent by auto
  moreover have "includes_i ?s ''error(contract''"
  proof -
    have "includes_str ''hosterror: error(contract, #'' ''error(contract''" by code_simp
    then show ?thesis unfolding includes_i_def host_error_lower by (rule includes_longer) simp
  qed
  ultimately show ?thesis using absent by (simp add: SIMULATION_FAILURE_RULES_def)
qed

lemma host_error_code:
  assumes "n \<in> set CONTRACT_ERROR_MESSAGES"
  shows "parseContractError (host_error n) = Some n"
proof -
  have "n < 10 ^ 2" using assms by (auto simp: CONTRACT_ERROR_MESSAGES_def)
  then have len: "length (nat_text n) \<le> 2" by (rule length_nat_text) simp
  have tw: "takeWhile is_digit (nat_text n @ '')'') = nat_text n" using nat_text_digits [of n]
    by (simp add: list_all_iff takeWhile_append2 is_digit_def)
  have "bounded_number (nat_text n @ '')'') = Some (nat_text n)"
    using len by (simp add: bounded_number_def short_number_def tw at_boundary_def word_char_def is_letter_def is_digit_def)
  moreover have "host_error n = host_prefix @ ''#'' @ nat_text n @ '')''" by (simp add: host_error_def host_prefix_def)
  moreover have "CHR ''#'' \<notin> set host_prefix" by code_simp
  ultimately have "first_match hash_number False (host_error n) = Some (nat_text n)"
    by (simp add: first_match_skip hash_number_def starts_with_def or_else_def)
  then show ?thesis using assms by (simp add: parseContractError_def host_error_def or_else_def)
qed

lemma host_error_diagnostic: "sanitizeDiagnostic (host_error n) = ''HostError: Error(Contract''"
proof -
  have "hd (split_on c (p @ c # s)) = p" if "c \<notin> set p" for c p s
    using that
  proof (induction p)
    case (Cons d p)
    then show ?case by (cases "split_on c (p @ c # s)") auto
  qed simp
  moreover have "host_error n = ''HostError: Error(Contract'' @ CHR '','' # '' #'' @ nat_text n @ '')''" by (simp add: host_error_def)
  moreover have "CHR '','' \<notin> set ''HostError: Error(Contract''" by simp
  ultimately have "hd (split_on (CHR '','') (host_error n)) = ''HostError: Error(Contract''" by metis
  moreover have "collapse_spaces (trim ''HostError: Error(Contract'') = ''HostError: Error(Contract''" by code_simp
  ultimately show ?thesis by (simp add: sanitizeDiagnostic_def MAX_DIAGNOSTIC_LENGTH_def)
qed

section \<open>Properties\<close>

text \<open>
  (C40) Every failure is explained and nothing leaks: whatever text a simulation fails with, the message is
  that of a known contract code or of the class, never the text itself; the diagnostic is a
  non-empty line of at most 120 characters, without commas, so without anything after the first
  argument; and each of the 21 errors of the contract, in the form the host reports it, is classified
  as a contract error with the message of its own code.
\<close>

theorem failures_explained:
  assumes "f = classifySimulationFailure raw"
  shows "(\<forall>code. sf_message f = Contract_message code \<longrightarrow> code \<in> set CONTRACT_ERROR_MESSAGES)
    \<and> (sf_message f = Category_message (sf_category f) \<or> (\<exists>code. sf_message f = Contract_message code))
    \<and> length (sf_diagnostic f) \<le> 120 \<and> sf_diagnostic f \<noteq> []
    \<and> (\<forall>c \<in> set (sf_diagnostic f). c \<noteq> CHR '','' \<and> (is_js_space c \<longrightarrow> c = CHR '' ''))
    \<and> (n \<in> set CONTRACT_ERROR_MESSAGES \<longrightarrow> classifySimulationFailure (Some (host_error n)) =
        \<lparr>sf_category = Contract_error, sf_message = Contract_message n, sf_diagnostic = ''HostError: Error(Contract''\<rparr>)"
proof -
  have fixed: "list_all (\<lambda>c. c \<noteq> CHR '','' \<and> \<not> is_js_space c) ''unspecified''" by code_simp
  have diag: "sf_diagnostic f = ''unspecified'' \<or> (\<exists>t. sf_diagnostic f = sanitizeDiagnostic t)"
    and msg: "sf_message f = Category_message (sf_category f) \<or> (\<exists>code t. sf_message f = Contract_message code \<and> parseContractError t = Some code)"
    unfolding assms classifySimulationFailure_def Let_def by (auto split: option.split)
  have "length (sf_diagnostic f) \<le> 120 \<and> sf_diagnostic f \<noteq> []"
  proof (cases "sf_diagnostic f = ''unspecified''")
    case False
    then obtain t where "sf_diagnostic f = sanitizeDiagnostic t" using diag by blast
    then show ?thesis using diagnostic_length [of t] by simp
  qed simp
  moreover have "\<forall>c \<in> set (sf_diagnostic f). c \<noteq> CHR '','' \<and> (is_js_space c \<longrightarrow> c = CHR '' '')"
  proof (cases "sf_diagnostic f = ''unspecified''")
    case True
    then show ?thesis using fixed by (simp add: list_all_iff)
  next
    case False
    then obtain t where "sf_diagnostic f = sanitizeDiagnostic t" using diag by blast
    then show ?thesis using diagnostic_chars [of _ t] by simp
  qed
  moreover have "classifySimulationFailure (Some (host_error n)) =
      \<lparr>sf_category = Contract_error, sf_message = Contract_message n, sf_diagnostic = ''HostError: Error(Contract''\<rparr>"
    if "n \<in> set CONTRACT_ERROR_MESSAGES"
    using host_error_category [of n] host_error_code [OF that] host_error_diagnostic [of n]
    by (simp add: classifySimulationFailure_def host_error_def SIMULATION_FAILURE_RULES_def)
  moreover have "sf_message f = Category_message (sf_category f) \<or> (\<exists>code. sf_message f = Contract_message code)" using msg by blast
  moreover have "code \<in> set CONTRACT_ERROR_MESSAGES" if "sf_message f = Contract_message code" for code
    using msg parsed_code_known that by auto
  ultimately show ?thesis by blast
qed

theorem failures_explained_witness:
  "sf_message (classifySimulationFailure (Some (host_error 7))) = Contract_message 7 \<and> length (sf_diagnostic (classifySimulationFailure None)) \<le> 120"
proof -
  have "7 \<in> set CONTRACT_ERROR_MESSAGES" by (simp add: CONTRACT_ERROR_MESSAGES_def)
  then show ?thesis using failures_explained [OF refl, of None 7] by simp
qed

text \<open>
  A number after the word error or code is taken for a contract code whatever the text is about: a
  network failure is explained with the message for an empty balance.
\<close>

theorem unrelated_number_explained:
  "classifySimulationFailure (Some ''network error: 7 attempts failed'') =
     \<lparr>sf_category = Network, sf_message = Contract_message 7, sf_diagnostic = ''network error: 7 attempts failed''\<rparr>"
  by code_simp

end
