(* ===== verification/Browser_Store.thy ===== *)
theory Browser_Store
  imports Json_Text
begin

text \<open>
  What the browser keeps: drafts of the create form (\<open>frontend/src/lib/form-draft.ts\<close>) and the history
  of failure toasts (\<open>frontend/src/lib/toast-history.ts\<close>). A stored text is represented by what
  \<open>JSON.parse\<close> makes of it; \<open>JSON.stringify\<close> of a value of strings, finite numbers, lists and plain
  objects is read back as that value. Strings are UTF-16 code units. Whether an access to the storage
  throws is an argument.
\<close>

section \<open>Storage\<close>

datatype stored = Empty_text | Malformed | Parsed json

type_synonym storage = "string \<Rightarrow> stored option"

definition setItem :: "bool \<Rightarrow> string \<Rightarrow> json \<Rightarrow> storage \<Rightarrow> storage" where
  "setItem throws key v store = (if throws then store else store(key \<mapsto> Parsed v))"

definition removeItem :: "bool \<Rightarrow> string \<Rightarrow> storage \<Rightarrow> storage" where
  "removeItem throws key store = (if throws then store else store(key := None))"

section \<open>Drafts\<close>

definition DRAFT_VERSION :: rat where "DRAFT_VERSION = 1"

definition DRAFT_TTL_MS :: rat where "DRAFT_TTL_MS = 24 * 60 * 60 * 1000"

definition PREFIX :: string where "PREFIX = ''splitnaira:draft''"

definition MAX_COLLABORATORS :: nat where "MAX_COLLABORATORS = 50"

definition word_unit :: "nat \<Rightarrow> bool" where
  "word_unit u = (48 \<le> u \<and> u \<le> 57 \<or> 65 \<le> u \<and> u \<le> 90 \<or> u = 95 \<or> 97 \<le> u \<and> u \<le> 122)"

definition base32_unit :: "nat \<Rightarrow> bool" where
  "base32_unit u = (65 \<le> u \<and> u \<le> 90 \<or> 50 \<le> u \<and> u \<le> 55)"

text \<open>\<open>/\bS[A-Z2-7]{55}\b/\<close>: the test at one place, and anywhere after a unit that is or is not a word unit.\<close>

definition seed_here :: "nat list \<Rightarrow> bool" where
  "seed_here us =
     (case us of [] \<Rightarrow> False
      | u # rest \<Rightarrow> u = 83 \<and> length rest \<ge> 55 \<and> list_all base32_unit (take 55 rest)
          \<and> (case drop 55 rest of [] \<Rightarrow> True | v # _ \<Rightarrow> \<not> word_unit v))"

fun seed_after :: "bool \<Rightarrow> nat list \<Rightarrow> bool" where
  "seed_after word [] = False"
| "seed_after word (u # us) = (\<not> word \<and> seed_here (u # us) \<or> seed_after (word_unit u) us)"

definition SECRET_SEED :: "nat list \<Rightarrow> bool" where
  "SECRET_SEED us = seed_after False us"

record DraftCollaborator =
  dc_address :: "nat list"
  dc_alias :: "nat list"
  dc_basisPoints :: "nat list"

record CreateSplitDraft =
  dr_projectId :: "nat list"
  dr_title :: "nat list"
  dr_projectType :: "nat list"
  dr_token :: "nat list"
  dr_expiresAt :: "nat list"
  dr_collaborators :: "DraftCollaborator list"

definition safeString :: "json option \<Rightarrow> nat \<Rightarrow> nat list" where
  "safeString v limit = (case v of Some (J_string us) \<Rightarrow> if length us > limit \<or> SECRET_SEED us then [] else us | _ \<Rightarrow> [])"

definition safe_row :: "json \<Rightarrow> DraftCollaborator" where
  "safe_row c = \<lparr>dc_address = safeString (json_field c ''address'') 56, dc_alias = safeString (json_field c ''alias'') 100,
     dc_basisPoints = safeString (json_field c ''basisPoints'') 5\<rparr>"

definition toSafeDraft :: "json \<Rightarrow> CreateSplitDraft" where
  "toSafeDraft v =
     (let collaborators = (case json_field v ''collaborators'' of Some (J_array xs) \<Rightarrow> take MAX_COLLABORATORS xs | _ \<Rightarrow> [])
      in \<lparr>dr_projectId = safeString (json_field v ''projectId'') 32, dr_title = safeString (json_field v ''title'') 200,
          dr_projectType = safeString (json_field v ''projectType'') 50, dr_token = safeString (json_field v ''token'') 56,
          dr_expiresAt = safeString (json_field v ''expiresAt'') 40, dr_collaborators = map safe_row collaborators\<rparr>)"

definition isEmptyDraft :: "CreateSplitDraft \<Rightarrow> bool" where
  "isEmptyDraft d =
     (dr_projectId d = [] \<and> dr_title d = [] \<and> dr_token d = [] \<and> dr_expiresAt d = []
      \<and> list_all (\<lambda>c. dc_address c = [] \<and> dc_alias c = []) (dr_collaborators d))"

definition draftStorageKey :: "string \<Rightarrow> string option \<Rightarrow> string" where
  "draftStorageKey form account =
     PREFIX @ '':'' @ form @ '':'' @ (case account of Some (c # cs) \<Rightarrow> to_upper (trim (c # cs)) | _ \<Rightarrow> ''anonymous'')"

text \<open>The object that is written: \<open>{ version, savedAt, values: draft }\<close>.\<close>

definition json_object :: "(string \<times> json) list \<Rightarrow> json" where
  "json_object fs = J_object (map (\<lambda>(k, v). (code_units_of k, v)) fs)"

definition row_json :: "DraftCollaborator \<Rightarrow> json" where
  "row_json c = json_object [(''address'', J_string (dc_address c)), (''alias'', J_string (dc_alias c)),
     (''basisPoints'', J_string (dc_basisPoints c))]"

definition draft_json :: "CreateSplitDraft \<Rightarrow> json" where
  "draft_json d = json_object [(''projectId'', J_string (dr_projectId d)), (''title'', J_string (dr_title d)),
     (''projectType'', J_string (dr_projectType d)), (''token'', J_string (dr_token d)), (''expiresAt'', J_string (dr_expiresAt d)),
     (''collaborators'', J_array (map row_json (dr_collaborators d)))]"

definition saved_json :: "int \<Rightarrow> CreateSplitDraft \<Rightarrow> json" where
  "saved_json now d = json_object [(''version'', J_number (Some DRAFT_VERSION)), (''savedAt'', J_number (Some (of_int now))),
     (''values'', draft_json d)]"

text \<open>\<open>None\<close> as the store: there is no storage.\<close>

definition saveDraft :: "bool \<Rightarrow> string \<Rightarrow> string option \<Rightarrow> json \<Rightarrow> int \<Rightarrow> storage option \<Rightarrow> storage option" where
  "saveDraft throws form account values now store =
     map_option (\<lambda>s.
       let draft = toSafeDraft values; key = draftStorageKey form account
       in if isEmptyDraft draft then removeItem throws key s else setItem throws key (saved_json now draft) s) store"

definition fresh_draft :: "int \<Rightarrow> json \<Rightarrow> bool" where
  "fresh_draft now p =
     (json_field p ''version'' = Some (J_number (Some DRAFT_VERSION)) \<and>
      (case json_field p ''savedAt'' of
         Some (J_number (Some t)) \<Rightarrow> 0 \<le> of_int now - t \<and> of_int now - t \<le> DRAFT_TTL_MS
       | _ \<Rightarrow> False))"

text \<open>
  \<open>toSafeDraft(parsed.values)\<close>, where a missing field is like an empty object. The read of the storage
  itself may throw (\<open>read_throws\<close>), which also ends in the removal.
\<close>

definition loadDraft :: "bool \<Rightarrow> bool \<Rightarrow> string \<Rightarrow> string option \<Rightarrow> int \<Rightarrow> storage option \<Rightarrow> storage option \<times> CreateSplitDraft option" where
  "loadDraft read_throws remove_throws form account now store =
     (case store of
        None \<Rightarrow> (None, None)
      | Some s \<Rightarrow>
        let key = draftStorageKey form account; removed = Some (removeItem remove_throws key s)
        in if read_throws then (removed, None)
           else case s key of
             None \<Rightarrow> (Some s, None)
           | Some Empty_text \<Rightarrow> (Some s, None)
           | Some Malformed \<Rightarrow> (removed, None)
           | Some (Parsed p) \<Rightarrow>
             if \<not> fresh_draft now p then (removed, None)
             else let draft = toSafeDraft (default_to J_null (json_field p ''values''))
               in (Some s, if isEmptyDraft draft then None else Some draft))"

definition clearDraft :: "bool \<Rightarrow> string \<Rightarrow> string option \<Rightarrow> storage option \<Rightarrow> storage option" where
  "clearDraft throws form account store = map_option (removeItem throws (draftStorageKey form account)) store"

section \<open>Failure toasts\<close>

definition TOAST_HISTORY_STORAGE_KEY :: string where
  "TOAST_HISTORY_STORAGE_KEY = ''splitnaira:toast-history:v1''"

definition TOAST_HISTORY_LIMIT :: nat where "TOAST_HISTORY_LIMIT = 20"

definition PERSISTED_VARIANTS :: "nat list list" where
  "PERSISTED_VARIANTS = [code_units_of ''error'']"

record ToastHistoryEntry =
  te_id :: "nat list"
  te_message :: "nat list"
  te_variant :: "nat list"
  te_createdAt :: rat

definition isPersistableVariant :: "nat list \<Rightarrow> bool" where
  "isPersistableVariant variant = (variant \<in> set PERSISTED_VARIANTS)"

text \<open>The check of a stored value and the entry it is taken for.\<close>

definition isToastHistoryEntry :: "json \<Rightarrow> ToastHistoryEntry option" where
  "isToastHistoryEntry v =
     (case (json_field v ''id'', json_field v ''message'', json_field v ''createdAt'', json_field v ''variant'') of
        (Some (J_string i), Some (J_string m), Some (J_number (Some t)), Some (J_string w)) \<Rightarrow>
          if w \<in> set PERSISTED_VARIANTS
          then Some \<lparr>te_id = i, te_message = m, te_variant = w, te_createdAt = t\<rparr> else None
      | _ \<Rightarrow> None)"

text \<open>\<open>slice(-n)\<close>.\<close>

definition slice_last :: "nat \<Rightarrow> 'a list \<Rightarrow> 'a list" where
  "slice_last n xs = drop (length xs - n) xs"

definition readToastHistory :: "bool \<Rightarrow> storage option \<Rightarrow> ToastHistoryEntry list" where
  "readToastHistory throws store =
     (case store of
        None \<Rightarrow> []
      | Some s \<Rightarrow>
        if throws then []
        else case s TOAST_HISTORY_STORAGE_KEY of
          Some (Parsed (J_array xs)) \<Rightarrow> slice_last TOAST_HISTORY_LIMIT (List.map_filter isToastHistoryEntry xs)
        | _ \<Rightarrow> [])"

definition entry_json :: "ToastHistoryEntry \<Rightarrow> json" where
  "entry_json e = json_object [(''id'', J_string (te_id e)), (''message'', J_string (te_message e)),
     (''variant'', J_string (te_variant e)), (''createdAt'', J_number (Some (te_createdAt e)))]"

definition writeToastHistory :: "bool \<Rightarrow> ToastHistoryEntry list \<Rightarrow> storage option \<Rightarrow> storage option" where
  "writeToastHistory throws entries store =
     map_option (setItem throws TOAST_HISTORY_STORAGE_KEY (J_array (map entry_json entries))) store"

definition appendToastHistory :: "bool \<Rightarrow> bool \<Rightarrow> ToastHistoryEntry \<Rightarrow> storage option \<Rightarrow> storage option \<times> ToastHistoryEntry list" where
  "appendToastHistory read_throws write_throws entry store =
     (let next = slice_last TOAST_HISTORY_LIMIT (readToastHistory read_throws store @ [entry])
      in (writeToastHistory write_throws next store, next))"

definition clearToastHistory :: "bool \<Rightarrow> storage option \<Rightarrow> storage option" where
  "clearToastHistory throws store = map_option (removeItem throws TOAST_HISTORY_STORAGE_KEY) store"

section \<open>Written values are read back\<close>

lemma code_units_inject [simp]: "code_units_of s = code_units_of t \<longleftrightarrow> s = t"
  by (simp add: inj_map_eq_map inj_of_char)

lemma json_field_object: "distinct (map fst fs) \<Longrightarrow> json_field (json_object fs) k = map_of fs k"
proof -
  assume d: "distinct (map fst fs)"
  have "map_of (map (\<lambda>(k, v). (code_units_of k, v)) gs) (code_units_of k) = map_of gs k" for gs :: "(string \<times> json) list"
    by (induction gs) auto
  moreover have "map_of (rev fs) = map_of fs" using d map_of_inject_set [of "rev fs" fs] by (simp add: rev_map [symmetric])
  ultimately show ?thesis by (simp add: json_field_def json_object_def rev_map)
qed

definition safe_string :: "nat \<Rightarrow> nat list \<Rightarrow> bool" where
  "safe_string limit us = (length us \<le> limit \<and> \<not> SECRET_SEED us)"

lemma safeString_safe [simp]: "safe_string n (safeString v n)"
  by (auto simp: safe_string_def safeString_def SECRET_SEED_def split: option.splits json.splits)

lemma safeString_kept: "safe_string n us \<Longrightarrow> safeString (Some (J_string us)) n = us"
  by (simp add: safe_string_def safeString_def)

text \<open>A draft without anything that must not be kept.\<close>

definition safe_draft :: "CreateSplitDraft \<Rightarrow> bool" where
  "safe_draft d =
     (safe_string 32 (dr_projectId d) \<and> safe_string 200 (dr_title d) \<and> safe_string 50 (dr_projectType d)
      \<and> safe_string 56 (dr_token d) \<and> safe_string 40 (dr_expiresAt d) \<and> length (dr_collaborators d) \<le> MAX_COLLABORATORS
      \<and> list_all (\<lambda>c. safe_string 56 (dc_address c) \<and> safe_string 100 (dc_alias c) \<and> safe_string 5 (dc_basisPoints c))
          (dr_collaborators d))"

lemma toSafeDraft_safe: "safe_draft (toSafeDraft v)"
proof -
  have "length (dr_collaborators (toSafeDraft v)) \<le> MAX_COLLABORATORS"
    by (simp add: toSafeDraft_def Let_def split: option.split json.split)
  then show ?thesis by (simp add: safe_draft_def toSafeDraft_def Let_def list_all_iff safe_row_def)
qed

lemma row_read_back:
  assumes "safe_string 56 (dc_address c)" "safe_string 100 (dc_alias c)" "safe_string 5 (dc_basisPoints c)"
  shows "safe_row (row_json c) = c"
  using assms by (simp add: safe_row_def row_json_def json_field_object safeString_kept)

lemma draft_read_back:
  assumes "safe_draft d"
  shows "toSafeDraft (draft_json d) = d"
proof -
  have "map (safe_row \<circ> row_json) (dr_collaborators d) = dr_collaborators d"
    using assms by (intro map_idI) (simp add: safe_draft_def list_all_iff row_read_back)
  then show ?thesis
    using assms by (simp add: toSafeDraft_def draft_json_def json_field_object safeString_kept safe_draft_def Let_def)
qed

lemma saved_fields:
  "json_field (saved_json now d) ''version'' = Some (J_number (Some DRAFT_VERSION))"
  "json_field (saved_json now d) ''savedAt'' = Some (J_number (Some (of_int now)))"
  "json_field (saved_json now d) ''values'' = Some (draft_json d)"
  by (simp_all add: saved_json_def json_field_object)

lemma saved_fresh: "fresh_draft now' (saved_json now d) \<longleftrightarrow> now \<le> now' \<and> of_int (now' - now) \<le> DRAFT_TTL_MS"
  by (simp add: fresh_draft_def saved_fields)

section \<open>Keys of accounts\<close>

text \<open>The account as the key has it.\<close>

definition draft_owner :: "string option \<Rightarrow> string option" where
  "draft_owner account = (case account of Some (c # cs) \<Rightarrow> Some (to_upper (trim (c # cs))) | _ \<Rightarrow> None)"

lemma upper_char_neq_a: "upper_char c \<noteq> CHR ''a''"
proof
  assume "upper_char c = CHR ''a''"
  then have "of_char (upper_char c) = (97 :: nat)" by simp
  then show False by (auto simp: upper_char_def Let_def split: if_splits)
qed

lemma upper_not_anonymous: "to_upper s \<noteq> ''anonymous''"
proof (cases s)
  case (Cons c cs)
  then show ?thesis using upper_char_neq_a by (simp add: to_upper_def)
qed (simp add: to_upper_def)

lemma draftStorageKey_eq: "draftStorageKey form a = draftStorageKey form b \<longleftrightarrow> draft_owner a = draft_owner b"
  using upper_not_anonymous
  by (auto simp: draftStorageKey_def draft_owner_def split: option.splits list.splits) metis+

section \<open>The history as a bounded log\<close>

lemma entry_read_back: "isPersistableVariant (te_variant e) \<Longrightarrow> isToastHistoryEntry (entry_json e) = Some e"
  by (simp add: isToastHistoryEntry_def entry_json_def json_field_object isPersistableVariant_def)

lemma entries_read_back:
  "list_all (isPersistableVariant \<circ> te_variant) es \<Longrightarrow> List.map_filter isToastHistoryEntry (map entry_json es) = es"
  by (induction es) (simp_all add: entry_read_back)

lemma length_slice_last: "length (slice_last n xs) \<le> n"
  by (simp add: slice_last_def)

lemma slice_last_short: "length xs \<le> n \<Longrightarrow> slice_last n xs = xs"
  by (simp add: slice_last_def)

lemma set_slice_last: "set (slice_last n xs) \<subseteq> set xs"
  by (simp add: slice_last_def set_drop_subset)

lemma entry_checked: "isToastHistoryEntry v = Some e \<Longrightarrow> isPersistableVariant (te_variant e)"
  by (auto simp: isToastHistoryEntry_def isPersistableVariant_def split: option.splits json.splits if_splits)

lemma read_checked: "list_all (isPersistableVariant \<circ> te_variant) (readToastHistory throws store)"
proof -
  have "list_all (isPersistableVariant \<circ> te_variant) (List.map_filter isToastHistoryEntry xs)" for xs
    by (induction xs) (auto simp: entry_checked split: option.split)
  then have "list_all (isPersistableVariant \<circ> te_variant) (slice_last n (List.map_filter isToastHistoryEntry xs))" for n xs
    using set_slice_last by (fastforce simp: list_all_iff)
  then show ?thesis by (auto simp: readToastHistory_def split: option.splits stored.splits json.splits)
qed

lemma read_short: "length (readToastHistory throws store) \<le> TOAST_HISTORY_LIMIT"
  using length_slice_last by (auto simp: readToastHistory_def split: option.splits stored.splits json.splits)

lemma read_written:
  assumes "list_all (isPersistableVariant \<circ> te_variant) es" "length es \<le> TOAST_HISTORY_LIMIT"
  shows "readToastHistory False (writeToastHistory False es (Some s)) = es"
  using assms by (simp add: readToastHistory_def writeToastHistory_def setItem_def entries_read_back slice_last_short)

text \<open>What is loaded depends on the stored text alone.\<close>

definition loaded_draft :: "int \<Rightarrow> stored option \<Rightarrow> CreateSplitDraft option" where
  "loaded_draft now v =
     (case v of
        Some (Parsed p) \<Rightarrow>
          let draft = toSafeDraft (default_to J_null (json_field p ''values''))
          in if fresh_draft now p \<and> \<not> isEmptyDraft draft then Some draft else None
      | _ \<Rightarrow> None)"

lemma loadDraft_value: "snd (loadDraft False rt form b now (Some s)) = loaded_draft now (s (draftStorageKey form b))"
  by (auto simp: loadDraft_def loaded_draft_def Let_def split: option.split stored.split)

section \<open>Properties\<close>

text \<open>
  (C28) Drafts are kept for their account and for nobody else: a saved draft is loaded again, reduced to
  its safe fields, by the same account (up to spaces and case) for 24 hours and not later; saving one
  account's draft changes nothing for another; and whatever the storage holds, a loaded draft contains
  no text that looks like a secret seed, none longer than its field allows and at most 50 collaborators.
\<close>

theorem drafts_kept_safe:
  assumes "saveDraft False form a values saved (Some s) = Some s'" "saved \<le> now"
    and "loaded = snd (loadDraft False remove_throws form b now (Some s'))"
  shows "loaded = (if draft_owner b \<noteq> draft_owner a then snd (loadDraft False remove_throws form b now (Some s))
      else if isEmptyDraft (toSafeDraft values) \<or> of_int (now - saved) > DRAFT_TTL_MS then None else Some (toSafeDraft values))
    \<and> (\<forall>d. loaded = Some d \<longrightarrow> safe_draft d)"
proof -
  let ?d = "toSafeDraft values"
  have kept: "toSafeDraft (draft_json ?d) = ?d" by (rule draft_read_back [OF toSafeDraft_safe])
  have s': "s' = (if isEmptyDraft ?d then s(draftStorageKey form a := None) else s(draftStorageKey form a \<mapsto> Parsed (saved_json saved ?d)))"
    using assms(1) by (auto simp: saveDraft_def removeItem_def setItem_def Let_def split: if_splits)
  have "loaded = (if draft_owner b \<noteq> draft_owner a then snd (loadDraft False remove_throws form b now (Some s))
      else if isEmptyDraft ?d \<or> of_int (now - saved) > DRAFT_TTL_MS then None else Some ?d)"
    using assms(2) unfolding assms(3) s' loadDraft_value
    by (auto simp: loaded_draft_def draftStorageKey_eq saved_fresh saved_fields kept Let_def not_le)
  moreover have "safe_draft d" if "loaded = Some d" for d
    using that unfolding assms(3) loadDraft_value
    by (auto simp: loaded_draft_def toSafeDraft_safe Let_def split: option.splits stored.splits if_splits)
  ultimately show ?thesis by blast
qed

definition sample_values :: json where
  "sample_values = json_object [(''projectId'', J_string [97]), (''secret'', J_string [83])]"

theorem drafts_kept_safe_witness:
  "snd (loadDraft False False ''create'' (Some ''gx'') 5 (saveDraft False ''create'' (Some '' GX '') sample_values 2 (Some (\<lambda>_. None)))) = Some (toSafeDraft sample_values)"
proof -
  obtain s' where s': "saveDraft False ''create'' (Some '' GX '') sample_values 2 (Some (\<lambda>_. None)) = Some s'" by (simp add: saveDraft_def)
  have "draft_owner (Some ''gx'') = draft_owner (Some '' GX '')" "\<not> isEmptyDraft (toSafeDraft sample_values)" by code_simp+
  then show ?thesis
    using drafts_kept_safe [OF s', of 5 _ False "Some ''gx''"] unfolding s' by (simp add: DRAFT_TTL_MS_def)
qed

text \<open>
  The toast history never holds more than twenty entries, only failures, whatever is in the storage;
  appending one gives the last twenty of the old entries and the new one, and what the next
  read finds is the same, unless the write failed, which leaves the storage as it was.
\<close>

theorem toast_history_bounded:
  assumes "isPersistableVariant (te_variant e)" "appendToastHistory False write_throws e (Some s) = (store, entries)"
  shows "entries = slice_last TOAST_HISTORY_LIMIT (readToastHistory False (Some s) @ [e]) \<and> length entries \<le> 20
    \<and> readToastHistory False store = (if write_throws then readToastHistory False (Some s) else entries)
    \<and> list_all (isPersistableVariant \<circ> te_variant) entries"
proof -
  let ?new = "slice_last TOAST_HISTORY_LIMIT (readToastHistory False (Some s) @ [e])"
  have e: "entries = ?new" "store = writeToastHistory write_throws ?new (Some s)"
    using assms(2) by (auto simp: appendToastHistory_def Let_def)
  have ok: "list_all (isPersistableVariant \<circ> te_variant) ?new"
    using assms(1) read_checked [of False "Some s"] set_slice_last [of TOAST_HISTORY_LIMIT "readToastHistory False (Some s) @ [e]"]
    by (fastforce simp: list_all_iff)
  have "length entries \<le> 20" using length_slice_last [of TOAST_HISTORY_LIMIT] by (simp add: e TOAST_HISTORY_LIMIT_def)
  moreover have "readToastHistory False store = (if write_throws then readToastHistory False (Some s) else entries)"
    using read_written [OF ok length_slice_last] by (simp add: e writeToastHistory_def setItem_def)
  ultimately show ?thesis using ok e by simp
qed

theorem toast_history_bounded_witness:
  "readToastHistory False (fst (appendToastHistory False False \<lparr>te_id = [49], te_message = [], te_variant = code_units_of ''error'', te_createdAt = 7\<rparr>
     (Some (\<lambda>_. None)))) = [\<lparr>te_id = [49], te_message = [], te_variant = code_units_of ''error'', te_createdAt = 7\<rparr>]"
proof -
  let ?e = "\<lparr>te_id = [49], te_message = [], te_variant = code_units_of ''error'', te_createdAt = 7\<rparr>"
  have "isPersistableVariant (te_variant ?e)" by (simp add: isPersistableVariant_def PERSISTED_VARIANTS_def)
  moreover have "readToastHistory False (Some (\<lambda>_. None)) = []" by (simp add: readToastHistory_def)
  ultimately show ?thesis
    using toast_history_bounded [of ?e False "\<lambda>_. None"] by (cases "appendToastHistory False False ?e (Some (\<lambda>_. None))")
      (simp add: slice_last_def TOAST_HISTORY_LIMIT_def)
qed

end
