(* ===== verification/Browser_Accounts.thy ===== *)
theory Browser_Accounts
  imports Network_Names Js_Map
begin

text \<open>
  What the browser keeps per account and what a change of the account does to it: the query keys
  (\<open>frontend/src/lib/query-keys.ts\<close>) and the views a mutation makes stale
  (\<open>lib/split-mutations.ts\<close>), duplicate collaborators (\<open>lib/address.ts\<close>), the wallet's state
  (\<open>hooks/useWallet.ts\<close>) and the state of an asynchronous read (\<open>hooks/useAsyncState.ts\<close>). The
  query client is a log of the keys it was told to invalidate.
\<close>

section \<open>Query keys\<close>

datatype key_part = Part string | Num int

type_synonym QueryKey = "key_part list"

definition splitKeys_all :: QueryKey where "splitKeys_all = [Part ''splits'']"

definition splitKeys_list :: QueryKey where "splitKeys_list = splitKeys_all @ [Part ''list'']"

definition splitKeys_detail :: "string \<Rightarrow> QueryKey" where
  "splitKeys_detail projectId = splitKeys_all @ [Part ''detail'', Part projectId]"

definition splitKeys_history :: "string \<Rightarrow> QueryKey" where
  "splitKeys_history projectId = splitKeys_all @ [Part ''history'', Part projectId]"

definition splitKeys_allowlist :: "int \<Rightarrow> int \<Rightarrow> QueryKey" where
  "splitKeys_allowlist start limit = splitKeys_all @ [Part ''allowlist'', Num start, Num limit]"

definition splitKeys_allowlistAll :: QueryKey where "splitKeys_allowlistAll = splitKeys_all @ [Part ''allowlist'']"

definition splitKeys_adminStatus :: QueryKey where "splitKeys_adminStatus = splitKeys_all @ [Part ''adminStatus'']"

definition splitKeys_unallocated :: "string \<Rightarrow> QueryKey" where
  "splitKeys_unallocated token = splitKeys_all @ [Part ''unallocated'', Part token]"

definition splitKeys_unallocatedAll :: QueryKey where "splitKeys_unallocatedAll = splitKeys_all @ [Part ''unallocated'']"

definition ACCOUNT_SCOPE :: string where "ACCOUNT_SCOPE = ''account''"

definition normalizeAccount :: "string \<Rightarrow> string" where
  "normalizeAccount address = to_upper (trim address)"

definition accountKeys_scope :: "string \<Rightarrow> QueryKey" where
  "accountKeys_scope address = [Part ACCOUNT_SCOPE, Part (normalizeAccount address)]"

definition accountKeys_claimable :: "string \<Rightarrow> string \<Rightarrow> QueryKey" where
  "accountKeys_claimable address projectId = accountKeys_scope address @ [Part ''claimable'', Part projectId]"

definition accountKeys_claimableAll :: "string \<Rightarrow> QueryKey" where
  "accountKeys_claimableAll address = accountKeys_scope address @ [Part ''claimable'']"

definition isForeignAccountKey :: "QueryKey \<Rightarrow> string option \<Rightarrow> bool" where
  "isForeignAccountKey queryKey current =
     (case queryKey of
        [] \<Rightarrow> False
      | k # rest \<Rightarrow>
        if k \<noteq> Part ACCOUNT_SCOPE then False
        else case present current of
          None \<Rightarrow> True
        | Some c \<Rightarrow> (case rest of [] \<Rightarrow> True | p # _ \<Rightarrow> p \<noteq> Part (normalizeAccount c)))"

section \<open>Views a mutation makes stale\<close>

datatype SplitMutationAction =
    A_create | A_deposit | A_distribute | A_claim | A_lock | A_update_metadata | A_update_collaborators
  | A_allow_token | A_disallow_token | A_pause_distributions | A_unpause_distributions | A_withdraw_unallocated

record SplitMutationContext =
  mc_projectId :: "string option"
  mc_token :: "string option"
  mc_account :: "string option"

record InvalidationPlan =
  ip_shared :: "QueryKey list"
  ip_account :: "QueryKey list"

definition getInvalidationPlan :: "SplitMutationAction \<Rightarrow> SplitMutationContext \<Rightarrow> InvalidationPlan" where
  "getInvalidationPlan action ctx =
     (let projectId = present (mc_projectId ctx); account = present (mc_account ctx);
          project = (case projectId of Some p \<Rightarrow> [splitKeys_detail p, splitKeys_history p] | None \<Rightarrow> [])
      in case action of
           A_create \<Rightarrow> \<lparr>ip_shared = splitKeys_list # project, ip_account = []\<rparr>
         | A_deposit \<Rightarrow> \<lparr>ip_shared = splitKeys_list # project,
             ip_account = (case (account, projectId) of (Some a, Some p) \<Rightarrow> [accountKeys_claimable a p] | _ \<Rightarrow> [])\<rparr>
         | A_distribute \<Rightarrow> \<lparr>ip_shared = splitKeys_list # project,
             ip_account = (case (account, projectId) of (Some a, Some p) \<Rightarrow> [accountKeys_claimable a p] | _ \<Rightarrow> [])\<rparr>
         | A_claim \<Rightarrow> \<lparr>ip_shared = splitKeys_list # project,
             ip_account = (case (account, projectId) of (Some a, Some p) \<Rightarrow> [accountKeys_claimable a p] | _ \<Rightarrow> [])\<rparr>
         | A_lock \<Rightarrow> \<lparr>ip_shared = splitKeys_list # project, ip_account = []\<rparr>
         | A_update_metadata \<Rightarrow> \<lparr>ip_shared = splitKeys_list # project, ip_account = []\<rparr>
         | A_update_collaborators \<Rightarrow> \<lparr>ip_shared = splitKeys_list # project,
             ip_account = (case account of Some a \<Rightarrow> [accountKeys_claimableAll a] | None \<Rightarrow> [])\<rparr>
         | A_allow_token \<Rightarrow> \<lparr>ip_shared = [splitKeys_allowlistAll], ip_account = []\<rparr>
         | A_disallow_token \<Rightarrow> \<lparr>ip_shared = [splitKeys_allowlistAll], ip_account = []\<rparr>
         | A_pause_distributions \<Rightarrow> \<lparr>ip_shared = [splitKeys_adminStatus], ip_account = []\<rparr>
         | A_unpause_distributions \<Rightarrow> \<lparr>ip_shared = [splitKeys_adminStatus], ip_account = []\<rparr>
         | A_withdraw_unallocated \<Rightarrow> \<lparr>ip_shared = [case present (mc_token ctx) of Some t \<Rightarrow> splitKeys_unallocated t
               | None \<Rightarrow> splitKeys_unallocatedAll], ip_account = []\<rparr>)"

text \<open>The query client is the list of keys invalidated so far; \<open>None\<close>: there is no client.\<close>

definition invalidateAfterMutation ::
    "QueryKey list option \<Rightarrow> SplitMutationAction \<Rightarrow> SplitMutationContext \<Rightarrow> string option \<Rightarrow> QueryKey list option \<times> QueryKey list" where
  "invalidateAfterMutation queryClient action ctx currentAccount =
     (case queryClient of
        None \<Rightarrow> (None, [])
      | Some log0 \<Rightarrow>
        let plan = getInvalidationPlan action ctx;
            sameAccount = (case (present (mc_account ctx), present currentAccount) of
                (Some a, Some b) \<Rightarrow> normalizeAccount a = normalizeAccount b | _ \<Rightarrow> False);
            keys = (if sameAccount then ip_shared plan @ ip_account plan else ip_shared plan)
        in (Some (log0 @ keys), keys))"

text \<open>A cached view is refreshed when one of the invalidated keys is a prefix of its key.\<close>

definition refreshed :: "QueryKey list \<Rightarrow> QueryKey \<Rightarrow> bool" where
  "refreshed keys view = list_ex (\<lambda>k. take (length k) view = k) keys"

section \<open>Collaborator addresses\<close>

definition isOwner :: "string \<Rightarrow> string option \<Rightarrow> bool" where
  "isOwner projectOwnerAddress connectedAddress =
     (case present connectedAddress of None \<Rightarrow> False | Some a \<Rightarrow> to_lower projectOwnerAddress = to_lower a)"

definition normalizeStellarAddress :: "string \<Rightarrow> string" where
  "normalizeStellarAddress address = to_upper (trim address)"

record CollaboratorAddressEntry =
  ce_id :: string
  ce_address :: string

fun find_duplicates :: "CollaboratorAddressEntry list \<Rightarrow> (string, string) jmap \<Rightarrow> string list \<Rightarrow> string list" where
  "find_duplicates [] firstIdByAddress duplicateIds = duplicateIds"
| "find_duplicates (entry # rest) firstIdByAddress duplicateIds =
     (let normalized = normalizeStellarAddress (ce_address entry)
      in if normalized = [] then find_duplicates rest firstIdByAddress duplicateIds
         else case jm_get firstIdByAddress normalized of
           Some firstId \<Rightarrow> find_duplicates rest firstIdByAddress (List.insert (ce_id entry) (List.insert firstId duplicateIds))
         | None \<Rightarrow> find_duplicates rest (jm_set firstIdByAddress normalized (ce_id entry)) duplicateIds)"

definition findDuplicateCollaboratorAddressIds :: "CollaboratorAddressEntry list \<Rightarrow> string list" where
  "findDuplicateCollaboratorAddressIds entries = find_duplicates entries [] []"

section \<open>The wallet of the page\<close>

record wallet_view =
  wv_wallet :: WalletState
  wv_loading :: bool
  wv_error :: "string option"

datatype wallet_action = Act_LOADING | Act_SUCCESS WalletState | Act_ERROR string | Act_RESET

definition initialState :: wallet_view where
  "initialState = \<lparr>wv_wallet = \<lparr>wa_connected = False, wa_address = None, wa_network = None\<rparr>, wv_loading = False, wv_error = None\<rparr>"

definition reducer :: "wallet_view \<Rightarrow> wallet_action \<Rightarrow> wallet_view" where
  "reducer state action =
     (case action of
        Act_LOADING \<Rightarrow> state\<lparr>wv_loading := True, wv_error := None\<rparr>
      | Act_SUCCESS w \<Rightarrow> \<lparr>wv_wallet = w, wv_loading = False, wv_error = None\<rparr>
      | Act_ERROR e \<Rightarrow> state\<lparr>wv_loading := False, wv_error := Some e\<rparr>
      | Act_RESET \<Rightarrow> initialState)"

text \<open>The hook: its view, the address of the last render, whether it is mounted, and the reads in flight.\<close>

record wallet_hook =
  wh_view :: wallet_view
  wh_prev :: "string option"
  wh_mounted :: bool
  wh_reads :: nat

definition refresh_begin :: "wallet_hook \<Rightarrow> wallet_hook" where
  "refresh_begin h = h\<lparr>wh_view := reducer (wh_view h) Act_LOADING, wh_reads := wh_reads h + 1\<rparr>"

text \<open>
  The effect on the address, which runs after a render that changed it: a connected account that was
  replaced by another one resets the view and reads again; the render after the reset runs the effect once more.
\<close>

definition address_effect :: "wallet_hook \<Rightarrow> wallet_hook" where
  "address_effect h =
     (let current = wa_address (wv_wallet (wh_view h))
      in case (present (wh_prev h), present current) of
           (Some p, Some c) \<Rightarrow>
             if p \<noteq> c then (refresh_begin (h\<lparr>wh_view := reducer (wh_view h) Act_RESET\<rparr>))\<lparr>wh_prev := None\<rparr>
             else h\<lparr>wh_prev := current\<rparr>
         | _ \<Rightarrow> h\<lparr>wh_prev := current\<rparr>)"

text \<open>The end of a read: \<open>getWalletState\<close> never throws; \<open>connectWallet\<close> may. The render and its effect follow.\<close>

definition read_done :: "string + WalletState \<Rightarrow> wallet_hook \<Rightarrow> wallet_hook" where
  "read_done result h =
     (let h1 = h\<lparr>wh_reads := wh_reads h - 1\<rparr>
      in if \<not> wh_mounted h then h1
         else address_effect (h1\<lparr>wh_view := reducer (wh_view h1) (case result of Inr w \<Rightarrow> Act_SUCCESS w | Inl e \<Rightarrow> Act_ERROR e)\<rparr>))"

text \<open>
  The answer of one tick of the poll that runs while an address is shown; \<open>polled\<close> is the address the
  interval was set up for.
\<close>

definition poll_answer :: "string option \<Rightarrow> WalletState \<Rightarrow> wallet_hook \<Rightarrow> wallet_hook" where
  "poll_answer polled fresh h =
     (if \<not> wa_connected fresh \<or> wa_address fresh \<noteq> polled
      then address_effect (refresh_begin (h\<lparr>wh_view := reducer (wh_view h) Act_RESET\<rparr>))
      else h)"

datatype wallet_event = Refresh | Read_done "string + WalletState" | Polled "string option" WalletState | Unmount

fun wallet_step :: "wallet_hook \<Rightarrow> wallet_event \<Rightarrow> wallet_hook" where
  "wallet_step h Refresh = refresh_begin h"
| "wallet_step h (Read_done r) = read_done r h"
| "wallet_step h (Polled polled fresh) = poll_answer polled fresh h"
| "wallet_step h Unmount = h\<lparr>wh_mounted := False\<rparr>"

definition mounted_hook :: wallet_hook where
  "mounted_hook = refresh_begin \<lparr>wh_view = initialState, wh_prev = None, wh_mounted = True, wh_reads = 0\<rparr>"

section \<open>An asynchronous read\<close>

text \<open>
  \<open>useAsyncState\<close>: the state variables, the generation counter, and the data the callback was created
  with, which is that of the render in which the dependencies last changed.
\<close>

record 'a AsyncState =
  as_data :: "'a option"
  as_isLoading :: bool
  as_isStale :: bool
  as_error :: "string option"
  as_generation :: nat
  as_captured :: "'a option"

datatype 'a settled = Resolved 'a | Aborted | Rejected string

definition async_initial :: "'a AsyncState" where
  "async_initial = \<lparr>as_data = None, as_isLoading = True, as_isStale = False, as_error = None, as_generation = 0, as_captured = None\<rparr>"

definition async_run :: "'a AsyncState \<Rightarrow> nat \<times> 'a AsyncState" where
  "async_run s =
     (let g = as_generation s + 1
      in (g, s\<lparr>as_generation := g, as_isLoading := True, as_error := None,
               as_isStale := (if as_captured s \<noteq> None then True else as_isStale s)\<rparr>))"

text \<open>The dependencies change: the callback is created again and runs.\<close>

definition async_deps_changed :: "'a AsyncState \<Rightarrow> nat \<times> 'a AsyncState" where
  "async_deps_changed s = async_run (s\<lparr>as_captured := as_data s\<rparr>)"

definition async_settle :: "nat \<Rightarrow> 'a settled \<Rightarrow> 'a AsyncState \<Rightarrow> 'a AsyncState" where
  "async_settle g r s =
     (if g \<noteq> as_generation s then s
      else (case r of
          Resolved v \<Rightarrow> s\<lparr>as_data := Some v, as_error := None, as_isStale := False\<rparr>
        | Aborted \<Rightarrow> s
        | Rejected e \<Rightarrow> s\<lparr>as_error := Some e, as_isStale := False\<rparr>)\<lparr>as_isLoading := False\<rparr>)"

datatype 'a async_event = Execute | Deps_changed | Settle nat "'a settled"

fun async_step :: "'a AsyncState \<Rightarrow> 'a async_event \<Rightarrow> 'a AsyncState" where
  "async_step s Execute = snd (async_run s)"
| "async_step s Deps_changed = snd (async_deps_changed s)"
| "async_step s (Settle g r) = async_settle g r s"

section \<open>One account at a time\<close>

abbreviation shown_address :: "wallet_hook \<Rightarrow> string option" where
  "shown_address h \<equiv> wa_address (wv_wallet (wh_view h))"

lemma present_none: "present v = None \<Longrightarrow> v = None \<or> v = Some []"
  by (auto simp: present_def split: option.splits list.splits)

lemma refresh_begin_shows [simp]:
  "shown_address (refresh_begin h) = shown_address h" "wh_prev (refresh_begin h) = wh_prev h"
  by (simp_all add: refresh_begin_def reducer_def)

lemma reset_shows [simp]: "wa_address (wv_wallet (reducer v Act_RESET)) = None"
  by (simp add: reducer_def initialState_def)

lemma address_effect_prev: "wh_prev (address_effect h) = shown_address (address_effect h)"
  by (simp add: address_effect_def Let_def split: option.split)

lemma address_effect_shows:
  "present (shown_address (address_effect h)) = None \<or>
   shown_address (address_effect h) = shown_address h \<and> (present (wh_prev h) = None \<or> present (wh_prev h) = present (shown_address h))"
  by (auto simp: address_effect_def present_def [of None] Let_def split: option.split)

lemma wallet_step_prev:
  assumes "wh_prev h = shown_address h"
  shows "wh_prev (wallet_step h e) = shown_address (wallet_step h e)"
proof (cases e)
  case (Read_done r)
  then show ?thesis using assms by (simp add: read_done_def address_effect_prev Let_def)
next
  case (Polled polled fresh)
  then show ?thesis using assms by (simp add: poll_answer_def address_effect_prev)
qed (use assms in simp_all)

lemma wallet_run_prev: "wh_prev (foldl wallet_step mounted_hook es) = shown_address (foldl wallet_step mounted_hook es)"
proof (induction es rule: rev_induct)
  case Nil
  show ?case by (simp add: mounted_hook_def initialState_def)
next
  case (snoc e es)
  then show ?case using wallet_step_prev by simp
qed

section \<open>Duplicate addresses\<close>

abbreviation norm_of :: "CollaboratorAddressEntry \<Rightarrow> string" where
  "norm_of e \<equiv> normalizeStellarAddress (ce_address e)"

text \<open>The ids of the entries whose address occurs in another entry too.\<close>

definition shared_ids :: "CollaboratorAddressEntry list \<Rightarrow> string set" where
  "shared_ids xs = {ce_id (xs ! i) | i. i < length xs \<and> norm_of (xs ! i) \<noteq> []
     \<and> (\<exists>j < length xs. j \<noteq> i \<and> norm_of (xs ! j) = norm_of (xs ! i))}"

lemma shared_ids_mono: "shared_ids xs \<subseteq> shared_ids (xs @ [e])"
proof
  fix x assume "x \<in> shared_ids xs"
  then obtain i j where ij: "x = ce_id (xs ! i)" "i < length xs" "norm_of (xs ! i) \<noteq> []" "j < length xs" "j \<noteq> i" "norm_of (xs ! j) = norm_of (xs ! i)"
    by (auto simp: shared_ids_def)
  then show "x \<in> shared_ids (xs @ [e])"
    unfolding shared_ids_def by (intro CollectI exI [of _ i]) (auto simp: nth_append intro!: exI [of _ j])
qed

lemma shared_ids_snoc:
  "shared_ids (xs @ [e]) = shared_ids xs \<union>
     (if norm_of e \<noteq> [] \<and> (\<exists>f \<in> set xs. norm_of f = norm_of e) then insert (ce_id e) {ce_id f | f. f \<in> set xs \<and> norm_of f = norm_of e} else {})"
  (is "_ = ?R")
proof
  show "shared_ids (xs @ [e]) \<subseteq> ?R"
  proof
    fix x assume "x \<in> shared_ids (xs @ [e])"
    then obtain i j where ij: "x = ce_id ((xs @ [e]) ! i)" "i \<le> length xs" "norm_of ((xs @ [e]) ! i) \<noteq> []"
      "j \<le> length xs" "j \<noteq> i" "norm_of ((xs @ [e]) ! j) = norm_of ((xs @ [e]) ! i)" by (auto simp: shared_ids_def less_Suc_eq_le)
    consider "i < length xs" "j < length xs" | "i = length xs" "j < length xs" | "i < length xs" "j = length xs"
      using ij by linarith
    then show "x \<in> ?R"
    proof cases
      case 1
      then have "x \<in> shared_ids xs" using ij by (auto simp: shared_ids_def nth_append)
      then show ?thesis by simp
    next
      case 2
      then show ?thesis using ij nth_mem [of j xs] by (auto simp: nth_append)
    next
      case 3
      then show ?thesis using ij nth_mem [of i xs] by (auto simp: nth_append)
    qed
  qed
  show "?R \<subseteq> shared_ids (xs @ [e])"
  proof (cases "norm_of e \<noteq> [] \<and> (\<exists>f \<in> set xs. norm_of f = norm_of e)")
    case True
    then obtain j where j: "j < length xs" "norm_of (xs ! j) = norm_of e" by (auto simp: in_set_conv_nth)
    have "ce_id e \<in> shared_ids (xs @ [e])"
      unfolding shared_ids_def using True j by (intro CollectI exI [of _ "length xs"]) (auto simp: nth_append intro!: exI [of _ j])
    moreover have "ce_id f \<in> shared_ids (xs @ [e])" if f: "f \<in> set xs" "norm_of f = norm_of e" for f
    proof -
      obtain i where "i < length xs" "xs ! i = f" using f(1) by (auto simp: in_set_conv_nth)
      then show ?thesis
        unfolding shared_ids_def using True f(2)
        by (intro CollectI exI [of _ i]) (auto simp: nth_append intro!: exI [of _ "length xs"])
    qed
    ultimately show ?thesis using True shared_ids_mono by auto
  next
    case False
    then show ?thesis using shared_ids_mono [of xs e] by (simp only: if_False Un_empty_right)
  qed
qed

lemma find_duplicates_eq:
  assumes "set d = shared_ids pre" "\<And>k. jm_get m k = (if k = [] then None else map_option ce_id (find (\<lambda>e. norm_of e = k) pre))"
  shows "set (find_duplicates rest m d) = shared_ids (pre @ rest)"
  using assms
proof (induction rest arbitrary: pre m d)
  case (Cons e rest)
  let ?k = "norm_of e"
  have next_pre: "find (\<lambda>x. norm_of x = k) (pre @ [e]) =
      (case find (\<lambda>x. norm_of x = k) pre of None \<Rightarrow> if ?k = k then Some e else None | Some f \<Rightarrow> Some f)" for k
    by (induction pre) auto
  consider (empty) "?k = []" | (new) "?k \<noteq> []" "find (\<lambda>x. norm_of x = ?k) pre = None"
    | (seen) f where "?k \<noteq> []" "find (\<lambda>x. norm_of x = ?k) pre = Some f" by (cases "find (\<lambda>x. norm_of x = ?k) pre") auto
  then show ?case
  proof cases
    case empty
    then have "set (find_duplicates rest m d) = shared_ids ((pre @ [e]) @ rest)"
      using Cons.prems by (intro Cons.IH) (auto simp: shared_ids_snoc next_pre split: option.split)
    then show ?thesis using empty by simp
  next
    case new
    then have none: "\<forall>x \<in> set pre. norm_of x \<noteq> ?k" by (auto simp: find_None_iff)
    have "set (find_duplicates rest (jm_set m ?k (ce_id e)) d) = shared_ids ((pre @ [e]) @ rest)"
      using Cons.prems new none by (intro Cons.IH) (auto simp: shared_ids_snoc next_pre split: option.split)
    then show ?thesis using new Cons.prems(2) [of ?k] by simp
  next
    case (seen f)
    have f: "f \<in> set pre" "norm_of f = ?k" using seen(2) by (auto simp: find_Some_iff)
    obtain i where i: "i < length pre" "pre ! i = f" using f(1) by (auto simp: in_set_conv_nth)
    have others: "{ce_id g | g. g \<in> set pre \<and> norm_of g = ?k} \<subseteq> insert (ce_id f) (shared_ids pre)"
    proof clarify
      fix g assume g: "g \<in> set pre" "norm_of g = ?k" "ce_id g \<notin> shared_ids pre"
      obtain j where j: "j < length pre" "pre ! j = g" using g(1) by (auto simp: in_set_conv_nth)
      show "ce_id g = ce_id f"
      proof (cases "i = j")
        case False
        then have "ce_id g \<in> shared_ids pre"
          unfolding shared_ids_def using i j f(2) g(2) seen(1) by (intro CollectI exI [of _ j]) (auto intro!: exI [of _ i])
        then show ?thesis using g(3) by simp
      qed (use i j in simp)
    qed
    have "set (List.insert (ce_id e) (List.insert (ce_id f) d)) = shared_ids (pre @ [e])"
      using Cons.prems(1) f seen(1) others by (auto simp: shared_ids_snoc)
    then have "set (find_duplicates rest m (List.insert (ce_id e) (List.insert (ce_id f) d))) = shared_ids ((pre @ [e]) @ rest)"
      using Cons.prems(2) seen by (intro Cons.IH) (auto simp: next_pre split: option.split)
    then show ?thesis using seen Cons.prems(2) [of ?k] by simp
  qed
qed simp

lemma account_switch_reset:
  assumes "wh_prev h = shown_address h" "present (shown_address h) = Some p" "present (shown_address (wallet_step h e)) = Some c"
  shows "p = c"
proof (cases e)
  case (Read_done r)
  have eff: "p = c" if "wh_prev g = shown_address h" "present (shown_address (address_effect g)) = Some c" for g
    using address_effect_shows [of g] that assms(2) by auto
  show ?thesis
  proof (cases "wh_mounted h")
    case True
    then show ?thesis using assms Read_done
      by (intro eff [of "h\<lparr>wh_reads := wh_reads h - 1,
          wh_view := reducer (wh_view h) (case r of Inr w \<Rightarrow> Act_SUCCESS w | Inl e \<Rightarrow> Act_ERROR e)\<rparr>"])
        (simp_all add: read_done_def Let_def)
  qed (use assms Read_done in \<open>simp add: read_done_def Let_def\<close>)
next
  case (Polled polled fresh)
  show ?thesis
  proof (cases "\<not> wa_connected fresh \<or> wa_address fresh \<noteq> polled")
    case True
    then have "present (shown_address (address_effect (refresh_begin (h\<lparr>wh_view := reducer (wh_view h) Act_RESET\<rparr>)))) = None"
      using address_effect_shows [of "refresh_begin (h\<lparr>wh_view := reducer (wh_view h) Act_RESET\<rparr>)"]
      by (auto simp: present_def)
    then show ?thesis using assms(3) Polled True by (simp add: poll_answer_def)
  qed (use assms Polled in \<open>simp add: poll_answer_def\<close>)
qed (use assms in simp_all)

section \<open>Properties\<close>

text \<open>The keys each group of views hangs under, unfolded together.\<close>

lemmas key_defs = splitKeys_list_def splitKeys_detail_def splitKeys_history_def splitKeys_all_def splitKeys_allowlist_def
  splitKeys_allowlistAll_def splitKeys_adminStatus_def splitKeys_unallocated_def splitKeys_unallocatedAll_def
  accountKeys_claimable_def accountKeys_claimableAll_def accountKeys_scope_def ACCOUNT_SCOPE_def

lemmas plan_defs = invalidateAfterMutation_def getInvalidationPlan_def Let_def

definition signer_connected :: "SplitMutationContext \<Rightarrow> string option \<Rightarrow> string \<Rightarrow> bool" where
  "signer_connected ctx current v = (map_option normalizeAccount (present (mc_account ctx)) = Some (normalizeAccount v)
     \<and> map_option normalizeAccount (present current) = Some (normalizeAccount v))"

text \<open>
  (C35) What a mutation invalidates. No key of an account other than the connected one is ever
  invalidated. With the project named, the list and the project's detail and history are refreshed by
  exactly seven actions (create, deposit, distribute, claim, lock and the two updates), and what an
  account can claim of the project by exactly four (deposit, distribute, claim and the update of the
  collaborators), and only if that account signed the mutation and is still the connected one. The
  allowlist is refreshed by exactly its two actions and the administrator's status by exactly the two
  of pausing; none of these four touches a view of a project.
\<close>

lemma invalidation_scoped:
  "(\<forall>k \<in> set (snd (invalidateAfterMutation (Some ks) action ctx current)). \<not> isForeignAccountKey k current)
   \<and> (present (mc_projectId ctx) = Some pid \<longrightarrow>
        (\<forall>view \<in> {splitKeys_list, splitKeys_detail pid, splitKeys_history pid}.
           refreshed (snd (invalidateAfterMutation (Some ks) action ctx current)) view \<longleftrightarrow>
             action \<in> {A_create, A_deposit, A_distribute, A_claim, A_lock, A_update_metadata, A_update_collaborators})
      \<and> (refreshed (snd (invalidateAfterMutation (Some ks) action ctx current)) (accountKeys_claimable v pid) \<longleftrightarrow>
           action \<in> {A_deposit, A_distribute, A_claim, A_update_collaborators} \<and> signer_connected ctx current v))
   \<and> (refreshed (snd (invalidateAfterMutation (Some ks) action ctx current)) (splitKeys_allowlist start limit) \<longleftrightarrow>
        action \<in> {A_allow_token, A_disallow_token})
   \<and> (refreshed (snd (invalidateAfterMutation (Some ks) action ctx current)) splitKeys_adminStatus \<longleftrightarrow>
        action \<in> {A_pause_distributions, A_unpause_distributions})"
proof -
  let ?r = "refreshed (snd (invalidateAfterMutation (Some ks) action ctx current))"
  have "\<not> isForeignAccountKey k current" if "k \<in> set (snd (invalidateAfterMutation (Some ks) action ctx current))" for k
    using that by (cases action; cases "present (mc_projectId ctx)"; cases "present (mc_account ctx)"; cases "present current")
      (auto simp: plan_defs key_defs isForeignAccountKey_def split: if_splits option.splits)
  moreover have "?r view \<longleftrightarrow> action \<in> {A_create, A_deposit, A_distribute, A_claim, A_lock, A_update_metadata, A_update_collaborators}"
    if "view \<in> {splitKeys_list, splitKeys_detail pid, splitKeys_history pid}" "present (mc_projectId ctx) = Some pid" for view
    using that by (cases action; cases "present (mc_account ctx)"; cases "present current")
      (auto simp: plan_defs key_defs refreshed_def split: option.splits)
  moreover have "?r (accountKeys_claimable v pid) \<longleftrightarrow>
      action \<in> {A_deposit, A_distribute, A_claim, A_update_collaborators} \<and> signer_connected ctx current v"
    if "present (mc_projectId ctx) = Some pid"
    using that by (cases action; cases "present (mc_account ctx)"; cases "present current")
      (auto simp: plan_defs key_defs refreshed_def signer_connected_def split: option.splits)
  moreover have "?r (splitKeys_allowlist start limit) \<longleftrightarrow> action \<in> {A_allow_token, A_disallow_token}"
    "?r splitKeys_adminStatus \<longleftrightarrow> action \<in> {A_pause_distributions, A_unpause_distributions}"
    by (cases action; cases "present (mc_projectId ctx)"; cases "present (mc_account ctx)"; cases "present current";
      auto simp: plan_defs key_defs refreshed_def split: option.splits)+
  ultimately show ?thesis by blast
qed

lemma invalidation_scoped_witness:
  "refreshed (snd (invalidateAfterMutation (Some []) A_claim
      \<lparr>mc_projectId = Some ''album'', mc_token = None, mc_account = Some ''GA''\<rparr> (Some ''ga''))) (accountKeys_claimable ''ga'' ''album'')
   \<and> \<not> refreshed (snd (invalidateAfterMutation (Some []) A_claim
      \<lparr>mc_projectId = Some ''album'', mc_token = None, mc_account = Some ''GA''\<rparr> (Some ''GB''))) (accountKeys_claimable ''GA'' ''album'')"
proof -
  let ?ctx = "\<lparr>mc_projectId = Some ''album'', mc_token = None, mc_account = Some ''GA''\<rparr>"
  have "signer_connected ?ctx (Some ''ga'') ''ga''" "\<not> signer_connected ?ctx (Some ''GB'') ''GA''" by code_simp+
  then show ?thesis
    using invalidation_scoped [of "[]" A_claim ?ctx "Some ''ga''" "''album''" "''ga''"]
      invalidation_scoped [of "[]" A_claim ?ctx "Some ''GB''" "''album''" "''GA''"]
    by (simp add: present_def)
qed

text \<open>
  The duplicate check of the collaborator form names exactly the rows whose address, blanks and case
  aside, is that of another row.
\<close>

lemma duplicates_exact: "set (findDuplicateCollaboratorAddressIds entries) = shared_ids entries"
  unfolding findDuplicateCollaboratorAddressIds_def
  using find_duplicates_eq [of "[]" "[]" "[]" entries] by (simp add: shared_ids_def jm_get_def)

text \<open>
  Once the effects of a render have run, one account is never replaced by another: whatever the reads
  and the poll answer, in whatever order, a change of the account passes through the disconnected state.
\<close>

lemma account_never_switches_silently:
  assumes "present (shown_address (foldl wallet_step mounted_hook es)) = Some p"
    "present (shown_address (foldl wallet_step mounted_hook (es @ [e]))) = Some c"
  shows "p = c"
  using account_switch_reset [OF wallet_run_prev assms(1)] assms(2) by simp

text \<open>
  A read that a later one superseded leaves no trace: what the page shows is the answer of the latest read,
  whenever the earlier ones answer.
\<close>

lemma superseded_read_ignored:
  assumes "g < as_generation s"
  shows "async_settle g r s = s" "g < as_generation (async_step s e)"
  using assms by (cases e; simp add: async_settle_def async_run_def async_deps_changed_def Let_def split: settled.split)+

lemma async_latest_wins:
  assumes "async_run s = (g, s1)" "\<forall>e \<in> set es. \<exists>k r. e = Settle k r \<and> k < g"
  shows "as_data (async_step (foldl async_step s1 es) (Settle g (Resolved v))) = Some v
    \<and> \<not> as_isLoading (async_step (foldl async_step s1 es) (Settle g (Resolved v)))"
proof -
  have "as_generation s1 = g" using assms(1) by (auto simp: async_run_def Let_def)
  moreover have "foldl async_step s1 es = s1" using assms(2) \<open>as_generation s1 = g\<close>
    by (induction es) (auto simp: superseded_read_ignored)
  ultimately show ?thesis by (simp add: async_settle_def)
qed

text \<open>
  The comment of the hook promises that data already there is marked stale while it is read again. The
  callback sees the data of the render that created it, so the first read repeated by \<open>execute\<close> does not.
\<close>

lemma execute_not_marked_stale:
  defines "s \<equiv> async_settle 1 (Resolved (0 :: nat)) (snd (async_deps_changed async_initial))"
  shows "as_data (async_step s Execute) = Some 0" "as_isLoading (async_step s Execute)" "\<not> as_isStale (async_step s Execute)"
  by (simp_all add: s_def async_settle_def async_run_def async_deps_changed_def async_initial_def Let_def)

end
