(* ===== verification/Status_Watch.thy ===== *)
theory Status_Watch
  imports Event_Streams
begin

text \<open>
  The browser's view of a submitted transaction (\<open>frontend/src/hooks/useTransactionStatus.ts\<close>): an
  effect that opens an event stream and falls back to polling with a growing delay. The three state
  variables of the hook are a record; every run of the effect keeps its own \<open>cancelled\<close> flag, its
  stream and its poll in flight. The awaits of a poll are its states: a poll is scheduled, fetching,
  or reading the body of an answer. A field of a payload that is no text is read by its text form.
\<close>

section \<open>State\<close>

datatype watch_status = W_pending | W_completed | W_error | W_timeout

record poll_payload =
  pay_txHash :: string
  pay_status :: "string option"
  pay_message :: "string option"

record watch_state =
  ws_status :: "watch_status option"
  ws_record :: "poll_payload option"
  ws_error :: "string option"

datatype poll_state =
    Idle
  | Scheduled nat
  | Fetching nat
  | Reading nat

record watch_run =
  wr_txHash :: string
  wr_cancelled :: bool
  wr_stream :: bool
  wr_poll :: poll_state

text \<open>The hook: its state, the runs that ended, and the current run when a hash is watched.\<close>

record watch =
  wt_state :: watch_state
  wt_past :: "watch_run list"
  wt_current :: "watch_run option"

definition MAX_POLL_ATTEMPTS :: nat where "MAX_POLL_ATTEMPTS = 6"

definition BASE_POLL_DELAY_MS :: nat where "BASE_POLL_DELAY_MS = 500"

definition poll_delay :: "nat \<Rightarrow> nat" where
  "poll_delay attempt = min (BASE_POLL_DELAY_MS * 2 ^ attempt) 5000"

definition nothing_watched :: watch where
  "nothing_watched = \<lparr>wt_state = \<lparr>ws_status = None, ws_record = None, ws_error = None\<rparr>, wt_past = [], wt_current = None\<rparr>"

section \<open>The effect\<close>

text \<open>The cleanup of a run: a scheduled poll is dropped, one in flight is only flagged.\<close>

definition cleanup_run :: "watch_run \<Rightarrow> watch_run" where
  "cleanup_run r = r\<lparr>wr_cancelled := True, wr_stream := False,
     wr_poll := (case wr_poll r of Scheduled n \<Rightarrow> Idle | p \<Rightarrow> p)\<rparr>"

text \<open>\<open>void pollForStatus(attempt)\<close> up to its first await.\<close>

definition poll_start :: "nat \<Rightarrow> watch_run \<Rightarrow> watch_run" where
  "poll_start attempt r = (if wr_txHash r = [] \<or> wr_cancelled r then r\<lparr>wr_poll := Idle\<rparr> else r\<lparr>wr_poll := Fetching attempt\<rparr>)"

definition startPollingFallback :: "watch_run \<Rightarrow> watch_run" where
  "startPollingFallback r = poll_start 0 (r\<lparr>wr_stream := False\<rparr>)"

definition retire :: "watch \<Rightarrow> watch" where
  "retire w = w\<lparr>wt_past := wt_past w @ (case wt_current w of None \<Rightarrow> [] | Some r \<Rightarrow> [cleanup_run r]), wt_current := None\<rparr>"

text \<open>The effect runs again when the hash or the switch changes: first the cleanup of the last run.\<close>

definition run_effect :: "bool \<Rightarrow> string option \<Rightarrow> bool \<Rightarrow> watch \<Rightarrow> watch" where
  "run_effect has_event_source txHash enabled w0 =
     (let w = retire w0 in
      case txHash of
        Some (c # cs) \<Rightarrow>
          if \<not> enabled then w\<lparr>wt_state := wt_state nothing_watched\<rparr>
          else let r = \<lparr>wr_txHash = c # cs, wr_cancelled = False, wr_stream = False, wr_poll = Idle\<rparr>
            in if \<not> has_event_source
               then w\<lparr>wt_state := (wt_state w)\<lparr>ws_status := Some W_pending, ws_error := None\<rparr>,
                      wt_current := Some (startPollingFallback r)\<rparr>
               else w\<lparr>wt_state := \<lparr>ws_status = Some W_pending, ws_record = None, ws_error = None\<rparr>,
                      wt_current := Some (r\<lparr>wr_stream := True\<rparr>)\<rparr>
      | _ \<Rightarrow> w\<lparr>wt_state := wt_state nothing_watched\<rparr>)"

section \<open>Polling\<close>

text \<open>The answer of a fetch, and the body of an answer: \<open>None\<close> when it cannot be parsed, \<open>Some None\<close> for \<open>null\<close>.\<close>

datatype fetch_answer = Fetch_failed | Fetch_not_ok | Fetch_ok

type_synonym body = "poll_payload option option"

text \<open>The end of a poll without a decision.\<close>

definition poll_again :: "nat \<Rightarrow> watch_state \<Rightarrow> watch_run \<Rightarrow> watch_state \<times> watch_run" where
  "poll_again attempt s r =
     (if attempt \<ge> MAX_POLL_ATTEMPTS
      then (s\<lparr>ws_status := Some W_timeout, ws_error := Some ''Timed out waiting for transaction confirmation''\<rparr>, r\<lparr>wr_poll := Idle\<rparr>)
      else (s, r\<lparr>wr_poll := Scheduled attempt\<rparr>))"

text \<open>\<open>cancelled\<close> is looked at after the fetch was answered, and only there; a failed fetch skips that line.\<close>

definition fetch_answered :: "fetch_answer \<Rightarrow> watch_state \<Rightarrow> watch_run \<Rightarrow> watch_state \<times> watch_run" where
  "fetch_answered a s r =
     (case wr_poll r of
        Fetching attempt \<Rightarrow>
          (case a of
             Fetch_failed \<Rightarrow> poll_again attempt s r
           | _ \<Rightarrow> if wr_cancelled r then (s, r\<lparr>wr_poll := Idle\<rparr>)
               else if a = Fetch_ok then (s, r\<lparr>wr_poll := Reading attempt\<rparr>)
               else poll_again attempt s r)
      | _ \<Rightarrow> (s, r))"

definition normalizedStatus :: "poll_payload option \<Rightarrow> string" where
  "normalizedStatus p = to_lower (case p of None \<Rightarrow> [] | Some x \<Rightarrow> default_to [] (pay_status x))"

definition body_read :: "body \<Rightarrow> watch_state \<Rightarrow> watch_run \<Rightarrow> watch_state \<times> watch_run" where
  "body_read b s r =
     (case wr_poll r of
        Reading attempt \<Rightarrow>
          (case b of
             None \<Rightarrow> poll_again attempt s r
           | Some payload \<Rightarrow>
             let st = normalizedStatus payload
             in if st = ''completed'' \<or> st = ''success''
                then (s\<lparr>ws_status := Some W_completed, ws_record := payload, ws_error := None\<rparr>, r\<lparr>wr_poll := Idle\<rparr>)
                else if st = ''failed'' \<or> st = ''error''
                then (s\<lparr>ws_status := Some W_error,
                        ws_error := Some (default_to ''Transaction failed'' (Option.bind payload pay_message))\<rparr>, r\<lparr>wr_poll := Idle\<rparr>)
                else poll_again attempt s r)
      | _ \<Rightarrow> (s, r))"

definition timer_fired :: "watch_run \<Rightarrow> watch_run" where
  "timer_fired r = (case wr_poll r of Scheduled attempt \<Rightarrow> poll_start (attempt + 1) r | _ \<Rightarrow> r)"

section \<open>The stream\<close>

text \<open>
  The data of a message as the handler tells them apart: a text that is no JSON, \<open>null\<close>, another
  value that is no object, or an object by the fields that are read.
\<close>

record stream_object =
  so_status :: "string option"
  so_record :: "poll_payload option"
  so_message :: "string option"
  so_self :: "poll_payload option"

datatype stream_data = Not_json | Json_null | Json_scalar | Json_object stream_object

definition onmessage :: "stream_data \<Rightarrow> watch_state \<Rightarrow> watch_run \<Rightarrow> watch_state \<times> watch_run" where
  "onmessage d s r =
     (case d of
        Not_json \<Rightarrow> (s, startPollingFallback r)
      | Json_null \<Rightarrow> (s, startPollingFallback r)
      | Json_scalar \<Rightarrow> (s, r)
      | Json_object x \<Rightarrow>
        if so_status x = Some ''completed'' \<and> so_record x \<noteq> None
        then (s\<lparr>ws_status := Some W_completed, ws_record := so_record x\<rparr>, r\<lparr>wr_stream := False\<rparr>)
        else if so_status x = Some ''error''
        then (s\<lparr>ws_status := Some W_error,
                ws_error := Some (case so_message x of Some (c # cs) \<Rightarrow> c # cs | _ \<Rightarrow> ''Unknown error occurred'')\<rparr>,
              r\<lparr>wr_stream := False\<rparr>)
        else if so_status x = Some ''timeout'' then (s\<lparr>ws_status := Some W_timeout\<rparr>, r\<lparr>wr_stream := False\<rparr>)
        else if so_self x \<noteq> None then (s\<lparr>ws_status := Some W_completed, ws_record := so_self x\<rparr>, r\<lparr>wr_stream := False\<rparr>)
        else (s, r))"

definition onerror :: "watch_run \<Rightarrow> watch_run" where
  "onerror r = startPollingFallback r"

text \<open>
  What an \<open>EventSource\<close> does with an event of the stream: it fires the handler of the event's name,
  \<open>onmessage\<close> for events without one, and ignores comments. The hook sets \<open>onmessage\<close> and \<open>onerror\<close> only.
\<close>

definition dispatch :: "string option \<Rightarrow> stream_data \<Rightarrow> watch_state \<Rightarrow> watch_run \<Rightarrow> watch_state \<times> watch_run" where
  "dispatch name d s r =
     (if \<not> wr_stream r then (s, r)
      else if name = None \<or> name = Some ''message'' then onmessage d s r
      else if name = Some ''error'' then (s, onerror r)
      else (s, r))"

text \<open>The name the backend gives an event of its streams (\<open>sendSseEvent\<close>); a comment is no event.\<close>

definition event_name :: "sse_frame \<Rightarrow> string option" where
  "event_name f = (case f of Update_frame u \<Rightarrow> Some ''transaction_update'' | Confirmed_frame t \<Rightarrow> Some ''transaction:confirmed''
     | Auth_expired \<Rightarrow> Some ''error'' | Comment c \<Rightarrow> None)"

definition receive :: "(sse_frame \<Rightarrow> stream_data) \<Rightarrow> sse_frame \<Rightarrow> watch_state \<Rightarrow> watch_run \<Rightarrow> watch_state \<times> watch_run" where
  "receive data f s r = (case f of Comment c \<Rightarrow> (s, r) | _ \<Rightarrow> dispatch (event_name f) (data f) s r)"

section \<open>A chain of polls\<close>

text \<open>The polls of a run one after the other, each with the answer of its fetch and the body of the answer.\<close>

fun poll_rounds :: "(fetch_answer \<times> body) list \<Rightarrow> watch_state \<Rightarrow> watch_run \<Rightarrow> watch_state \<times> watch_run" where
  "poll_rounds [] s r = (s, r)"
| "poll_rounds ((a, b) # xs) s r =
     (let (s1, r1) = fetch_answered a s r; (s2, r2) = body_read b s1 r1 in poll_rounds xs s2 (timer_fired r2))"

text \<open>What an answer decides on its own.\<close>

definition verdict :: "fetch_answer \<times> body \<Rightarrow> watch_status option" where
  "verdict x =
     (case x of (Fetch_ok, Some payload) \<Rightarrow>
        if normalizedStatus payload \<in> {''completed'', ''success''} then Some W_completed
        else if normalizedStatus payload \<in> {''failed'', ''error''} then Some W_error else None
      | _ \<Rightarrow> None)"

definition first_verdict :: "(fetch_answer \<times> body) list \<Rightarrow> watch_status option" where
  "first_verdict xs = Option.bind (find (\<lambda>x. verdict x \<noteq> None) xs) verdict"

lemma first_verdict_simps [simp]:
  "first_verdict [] = None" "first_verdict (x # xs) = or_else (verdict x) (first_verdict xs)"
  by (auto simp: first_verdict_def or_else_def split: option.split)

lemma poll_rounds_idle: "wr_poll r = Idle \<Longrightarrow> poll_rounds xs s r = (s, r)"
  by (induction xs) (auto simp: fetch_answered_def body_read_def timer_fired_def)

lemma round_decided:
  assumes "wr_poll r = Fetching n" "\<not> wr_cancelled r" "verdict (a, b) = Some v"
  shows "\<exists>s' r'. poll_rounds ((a, b) # xs) s r = (s', r') \<and> wr_poll r' = Idle \<and> ws_status s' = Some v"
proof -
  obtain payload where ab: "a = Fetch_ok" "b = Some payload" and
    v: "if normalizedStatus payload \<in> {''completed'', ''success''} then v = W_completed
        else normalizedStatus payload \<in> {''failed'', ''error''} \<and> v = W_error"
    using assms(3) by (auto simp: verdict_def split: fetch_answer.splits option.splits if_splits)
  have f: "fetch_answered a s r = (s, r\<lparr>wr_poll := Reading n\<rparr>)" using assms(1,2) ab by (simp add: fetch_answered_def)
  obtain s' where "body_read b s (r\<lparr>wr_poll := Reading n\<rparr>) = (s', r\<lparr>wr_poll := Idle\<rparr>)" "ws_status s' = Some v"
    using v ab by (auto simp: body_read_def Let_def split: if_splits)
  then show ?thesis using f by (simp add: timer_fired_def poll_rounds_idle)
qed

lemma round_undecided:
  assumes "wr_poll r = Fetching n" "\<not> wr_cancelled r" "wr_txHash r \<noteq> []" "verdict (a, b) = None"
  shows "poll_rounds ((a, b) # xs) s r =
    (if n < MAX_POLL_ATTEMPTS then poll_rounds xs s (r\<lparr>wr_poll := Fetching (Suc n)\<rparr>)
     else (s\<lparr>ws_status := Some W_timeout, ws_error := Some ''Timed out waiting for transaction confirmation''\<rparr>, r\<lparr>wr_poll := Idle\<rparr>))"
proof -
  let ?step = "let (s1, r1) = fetch_answered a s r in body_read b s1 r1"
  have step: "?step = poll_again n s r"
  proof (cases a)
    case Fetch_ok
    then have f: "fetch_answered a s r = (s, r\<lparr>wr_poll := Reading n\<rparr>)" using assms(1,2) by (simp add: fetch_answered_def)
    have "body_read b s (r\<lparr>wr_poll := Reading n\<rparr>) = poll_again n s (r\<lparr>wr_poll := Reading n\<rparr>)"
      using assms(4) Fetch_ok by (auto simp: body_read_def verdict_def Let_def split: option.splits if_splits)
    moreover have "poll_again n s (r\<lparr>wr_poll := Reading n\<rparr>) = poll_again n s r" by (simp add: poll_again_def)
    ultimately show ?thesis using f by simp
  qed (use assms(1,2) in \<open>auto simp: fetch_answered_def body_read_def poll_again_def\<close>)
  then have "poll_rounds ((a, b) # xs) s r = (let (s2, r2) = poll_again n s r in poll_rounds xs s2 (timer_fired r2))"
    by (auto simp: Let_def split: prod.splits)
  then show ?thesis using assms(2,3) by (simp add: poll_again_def timer_fired_def poll_start_def poll_rounds_idle)
qed

lemma poll_rounds_settle:
  assumes "wr_poll r = Fetching n" "\<not> wr_cancelled r" "wr_txHash r \<noteq> []" "n \<le> MAX_POLL_ATTEMPTS" "Suc MAX_POLL_ATTEMPTS - n \<le> length xs"
  shows "\<exists>s' r'. poll_rounds xs s r = (s', r') \<and> wr_poll r' = Idle
    \<and> ws_status s' = Some (default_to W_timeout (first_verdict (take (Suc MAX_POLL_ATTEMPTS - n) xs)))"
  using assms
proof (induction xs arbitrary: n r)
  case (Cons x xs)
  obtain a b where x: "x = (a, b)" by (cases x)
  obtain k where k: "Suc MAX_POLL_ATTEMPTS - n = Suc k" "k = MAX_POLL_ATTEMPTS - n" using Cons.prems(4) by (simp add: Suc_diff_le)
  show ?case
  proof (cases "verdict x")
    case None
    show ?thesis
    proof (cases "n < MAX_POLL_ATTEMPTS")
      case True
      have "Suc MAX_POLL_ATTEMPTS - Suc n = k" using k(2) by simp
      then show ?thesis
        using Cons.IH [of "r\<lparr>wr_poll := Fetching (Suc n)\<rparr>" "Suc n"] Cons.prems True k(1) None
          round_undecided [OF Cons.prems(1-3), of a b] by (simp add: x or_else_def)
    next
      case False
      then have "k = 0" using k(2) by simp
      then show ?thesis using False None k(1) round_undecided [OF Cons.prems(1-3), of a b] by (simp add: x or_else_def)
    qed
  next
    case (Some v)
    then show ?thesis using round_decided [OF Cons.prems(1,2), of a b v xs s] k(1) by (simp add: x or_else_def)
  qed
qed simp

section \<open>Properties\<close>

text \<open>
  (C30) Polling ends, and says what the server said: from the first poll of a run that is not replaced,
  at most seven answers later no poll is in flight or scheduled, and the status is the one of the first answer
  that named a final one, or a timeout when none did. The delays between the polls are 17.5 seconds in all.
\<close>

theorem polling_settles:
  assumes "\<not> wr_cancelled r" "wr_txHash r \<noteq> []" "7 \<le> length answers"
  shows "(case poll_rounds answers s (startPollingFallback r) of
      (s', r') \<Rightarrow> wr_poll r' = Idle \<and> ws_status s' = Some (default_to W_timeout (first_verdict (take 7 answers))))
    \<and> sum_list (map poll_delay [0..<MAX_POLL_ATTEMPTS]) = 17500"
proof -
  have "sum_list (map poll_delay [0..<MAX_POLL_ATTEMPTS]) = 17500" by code_simp
  moreover have "wr_poll (startPollingFallback r) = Fetching 0" "\<not> wr_cancelled (startPollingFallback r)" "wr_txHash (startPollingFallback r) \<noteq> []"
    using assms(1,2) by (simp_all add: startPollingFallback_def poll_start_def)
  ultimately show ?thesis
    using poll_rounds_settle [of "startPollingFallback r" 0 answers s] assms(3) by (auto simp: MAX_POLL_ATTEMPTS_def)
qed

definition sample_run :: watch_run where
  "sample_run = \<lparr>wr_txHash = ''h'', wr_cancelled = False, wr_stream = True, wr_poll = Idle\<rparr>"

theorem polling_settles_witness:
  "ws_status (fst (poll_rounds ((Fetch_not_ok, None) # (Fetch_ok, Some (Some \<lparr>pay_txHash = ''h'', pay_status = Some ''COMPLETED'', pay_message = None\<rparr>))
      # replicate 5 (Fetch_failed, None)) (wt_state nothing_watched) (startPollingFallback sample_run))) = Some W_completed"
proof -
  let ?answers = "(Fetch_not_ok, None) # (Fetch_ok, Some (Some \<lparr>pay_txHash = ''h'', pay_status = Some ''COMPLETED'', pay_message = None\<rparr>))
      # replicate 5 (Fetch_failed, None)"
  have "default_to W_timeout (first_verdict (take 7 ?answers)) = W_completed" by code_simp
  then show ?thesis
    using polling_settles [of sample_run ?answers "wt_state nothing_watched"] by (simp add: sample_run_def split: prod.splits)
qed

text \<open>
  The stream of a transaction never tells the hook anything: the backend names its events, and
  the hook listens to unnamed ones.
\<close>

theorem confirmations_not_heard: "f \<in> set (frames_for st res t) \<Longrightarrow> receive data f s r = (s, r)"
  by (auto simp: frames_for_def receive_def dispatch_def event_name_def split: if_splits)

text \<open>
  A body that is read after the hook moved on to another hash is still taken over: the hook shows the
  old transaction, completed, while it watches the new one.
\<close>

theorem stale_answer_shown:
  assumes "w = run_effect True (Some ''new'') True
      \<lparr>wt_state = wt_state nothing_watched, wt_past = [], wt_current = Some (sample_run\<lparr>wr_stream := False, wr_poll := Reading 0\<rparr>)\<rparr>"
    and "payload = \<lparr>pay_txHash = ''h'', pay_status = Some ''completed'', pay_message = None\<rparr>"
  shows "map_option wr_txHash (wt_current w) = Some ''new'' \<and> wr_cancelled (last (wt_past w))
    \<and> fst (body_read (Some (Some payload)) (wt_state w) (last (wt_past w)))
      = \<lparr>ws_status = Some W_completed, ws_record = Some payload, ws_error = None\<rparr>"
  unfolding assms by code_simp

end
