(* ===== verification/Spec2Isabelle.thy ===== *)
theory Spec2Isabelle
  imports
    Text_Safety Log_Scrubbing Request_Metrics Operator_Tools
    Prelude Js_Text Js_Map
    Decimal_Amounts Ledger_Entities Ledger_Invariants Finality
    Split_Lifecycle Split_Registries Project_Governance
    Permissions Membership Invitations
    Idempotency Access_Throttling Sessions Read_Cache
    Csv_Export Payout_History Rpc_Resilience Event_Listener Notifications
    Reconciliation Database_Audit Client_Amounts Payment_Client Project_Records
    Request_Schemas Error_Translation Split_Builders Split_Routes Account_Routes Collaboration_Routes Rpc_Validation
    Http_Guards Health_Probes Transaction_Routes Event_Streams
    Network_Names Contract_Failures Browser_Store Browser_Accounts Status_Watch
begin

text \<open>
  SplitNaira: a verification library for the backend of a royalty-splitting platform.

  \<^bold>\<open>The program.\<close> Projects on a Soroban contract split incoming money among collaborators. The
  TypeScript backend (\<open>src/backend/src\<close>) keeps the off-chain side: who may do what on a project,
  invitations, drafts and deadlines, the ledger of payouts and settlements with its balancing
  checks and finality policy, accounts with their sessions and mail links, notifications, and the
  guards of the HTTP surface (idempotency keys, login throttling, a read cache in front of the RPC
  nodes). A background worker indexes the events of the contract into the ledger; operator commands
  audit it. The routes check a request, build unsigned contract transactions and record what was
  done; the browser (\<open>src/frontend/src\<close>) previews amounts, signs, submits and follows transactions.

  \<^bold>\<open>The theories, in the order of their dependencies.\<close>
  \<^item> \<open>Prelude\<close>, \<open>Js_Text\<close>, \<open>Js_Number\<close>, \<open>Js_Map\<close>, \<open>Json_Text\<close>: what the code uses of the language. Instants and dates, thrown
    errors as values, \<open>map\<close> with a throwing callback, stable sorting; string functions and decimal
    texts; doubles, base64url, UTF-8 and \<open>JSON.parse\<close>; the insertion-ordered \<open>Map\<close> with its interface locales \<open>key_store\<close> and \<open>sized_store\<close>.
  \<^item> \<open>Decimal_Amounts\<close> (\<open>lib/decimal-amounts.ts\<close>): amount strings, their value in units of 1e-7,
    exact arithmetic, largest-remainder allocation; locale \<open>amount_codec\<close>. Shows that printing and
    parsing are inverse, that sums are exact or refused, and that an allocation always exists and
    conserves the total to the last unit.
  \<^item> \<open>Ledger_Entities\<close> (\<open>entities/Transaction.ts\<close>, \<open>entities/LedgerBlock.ts\<close>) and \<open>Ledger_Invariants\<close>
    (\<open>services/ledger-invariants.ts\<close>): the report of the five balancing invariants; it is shown to
    say "balanced" exactly for the declarative predicate \<open>ledger_balanced\<close>, which agrees with the documented
    invariants while no pending payout is settled, and its per-round lines to be exact.
  \<^item> \<open>Finality\<close> (\<open>services/ledger-finality.ts\<close>): network policies and the finality state machine,
    an interpretation of the locale \<open>absorbing_machine\<close>.
  \<^item> \<open>Split_Lifecycle\<close> (\<open>lib/split-lifecycle.ts\<close>, \<open>services/split-cancellation.service.ts\<close>): derived
    states, the action table, payment status of participants, completion, cancellation.
  \<^item> \<open>Split_Registries\<close> (\<open>services/splits/split-draft.registry.ts\<close>, \<open>split-expiration.registry.ts\<close>)
    and \<open>Project_Governance\<close> (\<open>services/splits/ownership-transfer.ts\<close>,
    \<open>services/collaboration/project-deletion.ts\<close>): the in-process registries and their logs.
  \<^item> \<open>Permissions\<close> (\<open>services/collaboration/permissions.ts\<close>, \<open>services/auth.ts\<close>,
    \<open>middleware/project-access.ts\<close>, \<open>middleware/project-permission.ts\<close>), \<open>Membership\<close>
    (\<open>services/collaboration/membership-changes.ts\<close>, with the locale \<open>cas_store\<close> for the
    compare-and-set store) and \<open>Invitations\<close> (\<open>services/collaboration/invitation-registry.ts\<close>).
  \<^item> \<open>Idempotency\<close> (\<open>services/idempotency.ts\<close>, \<open>middleware/idempotency.ts\<close>), \<open>Access_Throttling\<close>
    (\<open>services/login-attempts.ts\<close>, \<open>services/verification-resend-cooldown.ts\<close>), \<open>Sessions\<close>
    (\<open>services/session-revocation.ts\<close>, \<open>middleware/auth-jwt.ts\<close>,
    \<open>services/email-verification-token.ts\<close>) and \<open>Read_Cache\<close> (\<open>services/read-cache.ts\<close>).
  \<^item> \<open>Csv_Export\<close> (\<open>lib/csv.ts\<close>), \<open>Keyset_Pages\<close> (the locales \<open>keyset_pages\<close> and \<open>keyset_window\<close> of a page
    and a stable walk over pages) and \<open>Payout_History\<close> (\<open>services/PayoutHistoryService.ts\<close>,
    \<open>services/ledger.service.ts\<close>, the export of \<open>routes/transactions.ts\<close>): cells that
    spreadsheets read back, pages without gaps or repetitions, exports that hold only the caller's rows, all
    of them while the table stays as it is.
  \<^item> \<open>Rpc_Resilience\<close> (\<open>services/rpc-provider-health.ts\<close>, \<open>rpc-retry-budget.ts\<close>, \<open>stellar-timeout.ts\<close>,
    \<open>stellar.ts\<close>): failover among providers, retries within a budget, time limits.
  \<^item> \<open>Event_Listener\<close> (\<open>services/EventListenerService.ts\<close>): polling and indexing of contract events;
    a run of polls, starts and crashes refines the log of the events on chain.
  \<^item> \<open>Notifications\<close> (\<open>services/notifications.service.ts\<close>, \<open>notification-preferences.service.ts\<close>): exactly-once delivery per key, mandatory categories, the paged feed as
    an interpretation of \<open>keyset_window\<close>.
  \<^item> \<open>Reconciliation\<close> and \<open>Database_Audit\<close> (\<open>scripts/check-orphaned-transactions.ts\<close>,
    \<open>reconcile-dry-run.ts\<close>, \<open>pending-transaction-aging-report.ts\<close>, \<open>audit-database-consistency.ts\<close>): the
    operator commands, their findings, redaction and exit codes.
  \<^item> \<open>Project_Records\<close> (\<open>services/project-archival.service.ts\<close>, \<open>project-expiration.ts\<close>,
    \<open>project-history.ts\<close>, \<open>lib/soft-delete.ts\<close>): the database-backed records of a project.
  \<^item> \<open>Request_Schemas\<close> (\<open>schemas/splits.ts\<close>, \<open>lib/sanitize.ts\<close>), \<open>Error_Translation\<close> (\<open>lib/errors.ts\<close>,
    \<open>middleware/error.ts\<close>), \<open>Split_Builders\<close> (\<open>services/splits.service.ts\<close>, \<open>contract-helpers.ts\<close>) and
    \<open>Split_Routes\<close> (\<open>routes/splits.ts\<close>, \<open>controllers/splits.controller.ts\<close>): from a request body to an
    unsigned transaction, with the owner check, the cached project and the edit history.
  \<^item> \<open>Rpc_Validation\<close> (\<open>schemas/stellar-rpc.schemas.ts\<close>, \<open>services/rpc-response-validation.ts\<close>, and \<open>frontend
    lib/stellar-rpc-validation.ts\<close>): the checks of what the nodes answer, once for the locale
    \<open>json_rpc_check\<close> and interpreted for the backend and the browser.
  \<^item> \<open>Http_Guards\<close> (\<open>middleware/request-id.ts\<close>, \<open>rate-limit.ts\<close>, \<open>payments-admin.ts\<close>, \<open>audit-log.ts\<close>,
    \<open>timeout.ts\<close>, \<open>validateResponse.ts\<close>, \<open>deprecation.ts\<close>, \<open>config/env.ts\<close>, \<open>config/cors.ts\<close>, their order in \<open>index.ts\<close>) and
    \<open>Health_Probes\<close> (\<open>routes/health.ts\<close>): the guards in front of every route, what the administrator's
    audit log holds, and when the service calls itself ready.
  \<^item> \<open>Account_Routes\<close> (\<open>routes/users.ts\<close>, \<open>auth-account.ts\<close>, \<open>auth-email.ts\<close>, the mail tokens of
    \<open>services/email-provider.ts\<close>): accounts and what their mail links may do, over \<open>Sessions\<close>,
    \<open>Access_Throttling\<close> and \<open>Invitations\<close>.
  \<^item> \<open>Collaboration_Routes\<close> (\<open>routes/collaboration.ts\<close>): the documented authorization table, over
    \<open>Permissions\<close>, \<open>Project_Governance\<close>, \<open>Invitations\<close> and \<open>Error_Translation\<close>.
  \<^item> \<open>Transaction_Routes\<close> (\<open>routes/transactions.ts\<close>, \<open>schemas/transactions.schemas.ts\<close>,
    \<open>lib/keyset-cursor.ts\<close>): the history over HTTP, where the pages of \<open>Payout_History\<close> are followed by
    their cursor texts.
  \<^item> \<open>Event_Streams\<close> (\<open>routes/events.ts\<close>, \<open>services/SseEventBus.ts\<close>): the live streams as a step
    relation, within their limits in every reachable state, and fed by the commits of \<open>Event_Listener\<close>.
  \<^item> \<open>Client_Amounts\<close> (\<open>frontend lib/amounts.ts\<close>) and \<open>Payment_Client\<close> (\<open>frontend lib/soroban-transaction.ts\<close>,
    \<open>submission-guard.ts\<close>, \<open>retry-policy.ts\<close>, \<open>api-client.ts\<close>): the browser's amounts agree with the
    backend's, and a payment the node has answered is only repeated once its fate is decided.
  \<^item> \<open>Network_Names\<close> (\<open>mainnet/services/stellar-transaction-verifier.ts\<close>, \<open>frontend lib/explorer.ts\<close>,
    \<open>wallet.ts\<close>, \<open>token-constants.ts\<close>, \<open>hooks/useNetworkGuard.ts\<close>): the components mean the same network by a
    name, and which transaction references the backend accepts.
  \<^item> \<open>Contract_Failures\<close> (\<open>frontend lib/contract-errors.ts\<close>): what the user is told about a failure, and
    how little of it is logged.
  \<^item> \<open>Browser_Store\<close> (\<open>frontend lib/form-draft.ts\<close>, \<open>toast-history.ts\<close>): drafts kept per account and
    without secrets over a storage that may fail or hold anything.
  \<^item> \<open>Browser_Accounts\<close> (\<open>frontend lib/query-keys.ts\<close>, \<open>split-mutations.ts\<close>, \<open>address.ts\<close>,
    \<open>hooks/useWallet.ts\<close>, \<open>useAsyncState.ts\<close>): which cached views a mutation refreshes, that an account is
    never replaced by another without a reset, and that the answer of the latest read is shown.
  \<^item> \<open>Status_Watch\<close> (\<open>frontend hooks/useTransactionStatus.ts\<close>): the stream and the polling fallback of a
    transaction's status, as steps between the awaits; the polling ends.
  \<^item> \<open>Text_Safety\<close> (\<open>frontend lib/security.ts\<close>, \<open>telemetry.ts\<close>) on \<open>Js_Regex\<close>, a backtracking matcher for the
    expressions of the language: sanitized text is inert, no wallet address is left in telemetry, and a tracked
    action ends once.
  \<^item> \<open>Log_Scrubbing\<close> (\<open>services/logger.ts\<close>): log entries do not depend on the values under secret names.
  \<^item> \<open>Request_Metrics\<close> (\<open>services/metrics.ts\<close>, \<open>middleware/metrics.ts\<close>, \<open>routes/metrics.ts\<close>): the gauge of
    requests in flight and the histograms are exact in every order of events.
  \<^item> \<open>Operator_Tools\<close> (\<open>payout-history-backfill\<close>, \<open>rpcCompat.ts\<close>): the backfill adds what is missing once,
    and which endpoints are reported fine.
  \<^item> This theory holds the properties that span components.

  \<^bold>\<open>How state and effects are modelled.\<close> Module-level maps and arrays are records passed in and
  returned; an operation that can throw after a write returns the new state together with the
  error. Classes are records, unions and string enums are datatypes, and every definition keeps
  the name it has in the code where the language of the library allows it. An asynchronous
  function that awaits in the middle is split at the await into the halves that interleave with
  other calls (\<open>attempt_begin\<close>/\<open>attempt_finish\<close>, \<open>getOrFetch\<close>/\<open>fetch_settled\<close>,
  \<open>idempotency_request\<close>/\<open>idempotency_json\<close>/\<open>idempotency_close\<close>, \<open>startEventListenerService\<close>/\<open>start_resumed\<close>,
  \<open>archiveProject\<close>/\<open>save_archival\<close>), or takes the interference of other
  requests as an argument (\<open>change_loop\<close>, the tables \<open>between\<close> a read and an update in
  \<open>email_change_confirm\<close> and \<open>confirm_verification\<close>, the \<open>moment\<close>s of the split builders, the database at
  each query of \<open>export_csv\<close>). Saves that may fail carry that as an argument (\<open>save_ok\<close>, \<open>insert_ok\<close>,
  \<open>update_ok\<close>). Histories are step relations or runs of events, and the
  properties over them are proved by induction over these.

  \<^bold>\<open>Loops and bounds.\<close> Loops are structural recursions, recursions with a termination proof, or
  recursions on a bounded counter that is part of the code: the retry loop of membership changes
  runs \<open>MAX_CHANGE_ATTEMPTS\<close> = 5 times, \<open>executeWithRetry\<close> as often as its options and the budget allow, the
  leftover loop of the allocation once per leftover unit. The one unbounded loop, the export
  over the generator \<open>iteratePayouts\<close>, takes fuel: \<open>export_rows_found\<close> shows that 101 queries
  are always enough, because of the row cap. \<open>JSON_parse\<close> takes twice the length of its text, which is
  enough by \<open>parse_value_fuel\<close>. Amounts and ledger sequences are \<open>bigint\<close>s or safe integers in
  the code and \<open>int\<close> here; the range 2^127 - 1 of the ledger and the safe-integer range are explicit
  checks, as in the code. Numbers of request bodies that may be fractions are \<open>rat\<close>.

  \<^bold>\<open>Parameters.\<close> Code that is not part of the repository is an argument: the Stellar address parser,
  JWT signing and verification, SHA-256, random ids, the collation of \<open>localeCompare\<close>, and the
  database (as repository operations with the laws of their unique indexes, or as tables on which
  the conditional updates of the source run atomically). What is assumed of a parameter is a
  hypothesis of the property that needs it.

  \<^bold>\<open>Not modelled.\<close> Express wiring and server start, the counting of the rate limiter, the transports of the log and the help lines of the metrics page; the
  inside of the Stellar SDK, of TypeORM and of the JWT library; migrations; the delivery and the text
  of mails; the React pages and components; the rounding of doubles where no
  schema depends on it; operator scripts that only print or seed data; and the contract itself, which is Rust.
  Human-readable messages are left out of the modelled errors.
\<close>

section \<open>From an allocation to a balanced ledger\<close>

text \<open>
  The ledger rows of a distribution: every allocation that moves money becomes a completed
  transaction and a settlement entry under the same hash.
\<close>

definition payout_tx :: "string \<Rightarrow> string \<times> ProRataAllocation \<Rightarrow> TransactionRecord" where
  "payout_tx rid e = \<lparr>tx_id = fst e, tx_roundId = rid, tx_recipient = alloc_key (snd e),
     tx_amount = alloc_amount (snd e), tx_token = ''TOKEN'', tx_timestamp = 0, tx_txHash = fst e,
     tx_status = T_completed\<rparr>"

definition payout_block :: "string \<times> ProRataAllocation \<Rightarrow> LedgerBlock" where
  "payout_block e = \<lparr>lb_id = fst e, lb_ledgerSeq = 1, lb_txHash = fst e, lb_type = B_settlement,
     lb_projectId = None, lb_recipient = Some (alloc_key (snd e)), lb_amount = Some (alloc_amount (snd e)),
     lb_ledgerClosedAt = 0\<rparr>"

definition paid_entries :: "string list \<Rightarrow> ProRataAllocation list \<Rightarrow> (string \<times> ProRataAllocation) list" where
  "paid_entries txHashes allocs = filter (\<lambda>e. 0 < alloc_units (snd e)) (zip txHashes allocs)"

lemma paid_entries_sum:
  assumes "length txHashes = length allocs" "\<forall>a \<in> set allocs. 0 \<le> alloc_units a"
  shows "sum_list (map (\<lambda>e. alloc_units (snd e)) (paid_entries txHashes allocs)) = sum_list (map alloc_units allocs)"
  using assms
proof (induction txHashes allocs rule: list_induct2)
  case (Cons h hs a as)
  then show ?case by (cases "0 < alloc_units a") (auto simp: paid_entries_def)
qed (simp add: paid_entries_def)

lemma paid_entries_distinct: "distinct txHashes \<Longrightarrow> distinct (map fst (paid_entries txHashes allocs))"
  unfolding paid_entries_def by (intro distinct_map_fst_filter) (simp add: map_fst_zip_take)

lemma payout_rows_balanced:
  assumes amounts: "\<forall>e \<in> set es. toUnits (alloc_amount (snd e)) = Inr (alloc_units (snd e)) \<and> 0 < alloc_units (snd e)"
    and keys: "distinct (map fst es)" and total_le: "sum_list (map (\<lambda>e. alloc_units (snd e)) es) \<le> MAX_AMOUNT_UNITS"
  shows "ledger_balanced (map (payout_tx rid) es) (map payout_block es)"
    and "sum_list (map units_of (with_status T_completed (map (payout_tx rid) es)))
      = sum_list (map (\<lambda>e. alloc_units (snd e)) es)"
proof -
  have u: "isValidAmountString (alloc_amount (snd e)) \<and> toUnitsUnchecked (alloc_amount (snd e)) = alloc_units (snd e)"
    if "e \<in> set es" for e using amounts that by (auto simp: toUnits_valid)
  have done_all: "with_status T_completed (map (payout_tx rid) es) = map (payout_tx rid) es"
    unfolding with_status_def by (intro filter_True) (auto simp: payout_tx_def)
  have blocks: "settlements (map payout_block es) = map payout_block es"
    unfolding settlements_def by (intro filter_True) (auto simp: payout_block_def)
  have s1: "map units_of (map (payout_tx rid) es) = map (\<lambda>e. alloc_units (snd e)) es"
    using u by (simp add: units_of_def payout_tx_def)
  have s2: "map settled_units (map payout_block es) = map (\<lambda>e. alloc_units (snd e)) es"
    using u by (simp add: settled_units_def payout_block_def)
  show "sum_list (map units_of (with_status T_completed (map (payout_tx rid) es)))
      = sum_list (map (\<lambda>e. alloc_units (snd e)) es)" unfolding done_all s1 ..
  have wf: "amounts_well_formed (map (payout_tx rid) es) (map payout_block es)"
    using u by (auto simp: amounts_well_formed_def payout_tx_def payout_block_def)
  have once: "settled_once (map payout_block es)"
    unfolding settled_once_def blocks using keys by (simp add: payout_block_def comp_def)
  have agree: "rows_agree (map (payout_tx rid) es) (map payout_block es)"
    unfolding rows_agree_def blocks
    using keys u by (auto simp: payout_tx_def payout_block_def settled_units_def units_of_def
        dest: eq_key_imp_eq_value)
  have pos: "\<forall>t \<in> set (map (payout_tx rid) es). 0 < units_of t"
    using u amounts by (auto simp: units_of_def payout_tx_def)
  show "ledger_balanced (map (payout_tx rid) es) (map payout_block es)"
    unfolding ledger_balanced_def done_all blocks s1 s2 using wf once agree pos total_le by simp
qed

section \<open>Properties\<close>

text \<open>
  (C1) A distribution balances the books. Take an amount allocated pro rata to non-negative weights
  with a positive sum, record every non-zero allocation as a completed transaction and as a
  settlement entry under its own hash: the ledger report exists, finds no violation, and its
  completed total is exactly the allocated amount.
\<close>

theorem distribution_balances:
  assumes "toUnits amount = Inr t" "\<forall>s \<in> set shares. 0 \<le> weight s" "0 < sum_list (map weight shares)"
    and "distinct txHashes" "length txHashes = length shares"
  shows "\<exists>allocs rep. allocateProRata amount shares = Inr allocs
    \<and> evaluateLedgerBalance locale_le (map (payout_tx rid) (paid_entries txHashes allocs))
         (map payout_block (paid_entries txHashes allocs)) = Inr rep
    \<and> lr_balanced rep \<and> toUnits (lr_completedTotal rep) = Inr t"
proof -
  obtain allocs where a: "allocateProRata amount shares = Inr allocs"
    "map alloc_units allocs = alloc_units_of t (map weight shares)"
    "map alloc_key allocs = map share_key shares"
    "\<forall>a \<in> set allocs. toUnits (alloc_amount a) = Inr (alloc_units a)"
    using allocateProRata_units [OF assms(1-3)] by blast
  let ?es = "paid_entries txHashes allocs"
  have len: "length txHashes = length allocs" using a(3) assms(5) by (metis length_map)
  have "\<forall>a \<in> set allocs. 0 \<le> alloc_units a" using a(4) toUnits_range by blast
  from paid_entries_sum [OF len this] have sum: "sum_list (map (\<lambda>e. alloc_units (snd e)) ?es) = t"
    using a(2) alloc_units_sum [OF assms(3)] by simp
  have am: "\<forall>e \<in> set ?es. toUnits (alloc_amount (snd e)) = Inr (alloc_units (snd e)) \<and> 0 < alloc_units (snd e)"
    using a(4) by (auto simp: paid_entries_def dest: set_zip_rightD)
  have le: "sum_list (map (\<lambda>e. alloc_units (snd e)) ?es) \<le> MAX_AMOUNT_UNITS"
    unfolding sum using toUnits_range [OF assms(1)] by simp
  note rows = payout_rows_balanced [OF am paid_entries_distinct [OF assms(4)] le, of rid]
  obtain rep where "evaluateLedgerBalance locale_le (map (payout_tx rid) ?es) (map payout_block ?es) = Inr rep"
    "lr_balanced rep" "toUnits (lr_completedTotal rep) = Inr t"
    using evaluate_total [of locale_le "map (payout_tx rid) ?es" "map payout_block ?es"] rows sum by auto
  with a(1) show ?thesis by blast
qed

theorem distribution_balances_witness:
  "\<exists>allocs rep. allocateProRata ''0.00001'' [\<lparr>share_key = ''A'', weight = 1\<rparr>, \<lparr>share_key = ''B'', weight = 2\<rparr>] = Inr allocs
    \<and> evaluateLedgerBalance (\<le>) (map (payout_tx ''r'') (paid_entries [''h1'', ''h2''] allocs))
         (map payout_block (paid_entries [''h1'', ''h2''] allocs)) = Inr rep
    \<and> lr_balanced rep \<and> toUnits (lr_completedTotal rep) = Inr 100"
proof -
  have "toUnits ''0.00001'' = Inr 100" by code_simp
  then show ?thesis by (rule distribution_balances) simp_all
qed

end
